(* ===== verification/Ancora_Prelude.thy ===== *)
theory Ancora_Prelude
  imports Main "HOL-Library.Word" "HOL-Library.Monad_Syntax"
begin

text \<open>
  What the components share. The C code works on raw byte buffers through pointers, so
  the prelude fixes how a buffer, a checked access to it and a failing access look:

  \<^item> a pointer to a buffer is a \<open>cbuf\<close>: \<open>NULL\<close>, or \<open>Buf\<close> with the bytes of the object it
    points to; pointer arithmetic \<open>p + n\<close> is an index next to the buffer;
  \<^item> every read or write that the C code does is a checked one (\<open>rd\<close>, \<open>wr\<close>, \<open>rd_range\<close>,
    \<open>wr_range\<close>) in the option monad: \<open>None\<close> is an access outside the object (or through
    \<open>NULL\<close>), which is undefined behaviour in C. A theorem that an operation returns
    \<open>Some\<close> is therefore a memory-safety theorem;
  \<^item> machine integers are words of the width the C type has.
\<close>

unbundle bit_operations_syntax

named_theorems buf_simps \<open>rewrite rules for checked buffer accesses\<close>
named_theorems buf_intros \<open>rules that show that a checked access succeeds\<close>

type_synonym u8 = "8 word"
type_synonym u16 = "16 word"
type_synonym u32 = "32 word"
type_synonym u64 = "64 word"
type_synonym bytes = "u8 list"

section \<open>Buffers and checked accesses\<close>

datatype cbuf = NULL | Buf bytes

fun blen :: "cbuf \<Rightarrow> nat" where
  "blen NULL = 0"
| "blen (Buf d) = length d"

fun bbytes :: "cbuf \<Rightarrow> bytes" where
  "bbytes NULL = []"
| "bbytes (Buf d) = d"

fun rd :: "cbuf \<Rightarrow> nat \<Rightarrow> u8 option" where
  "rd NULL i = None"
| "rd (Buf d) i = (if i < length d then Some (d ! i) else None)"

fun wr :: "cbuf \<Rightarrow> nat \<Rightarrow> u8 \<Rightarrow> cbuf option" where
  "wr NULL i v = None"
| "wr (Buf d) i v = (if i < length d then Some (Buf (d[i := v])) else None)"

text \<open>The source and the destination of a \<open>memcpy\<close>; copying nothing is harmless.\<close>

fun rd_range :: "cbuf \<Rightarrow> nat \<Rightarrow> nat \<Rightarrow> bytes option" where
  "rd_range NULL p n = (if n = 0 then Some [] else None)"
| "rd_range (Buf d) p n = (if p + n \<le> length d then Some (take n (drop p d)) else None)"

fun wr_range :: "cbuf \<Rightarrow> nat \<Rightarrow> bytes \<Rightarrow> cbuf option" where
  "wr_range NULL p bs = (if bs = [] then Some NULL else None)"
| "wr_range (Buf d) p bs =
     (if p + length bs \<le> length d
      then Some (Buf (take p d @ bs @ drop (p + length bs) d)) else None)"

text \<open>A loop that threads a state through checked steps.\<close>

fun foldM :: "('a \<Rightarrow> 's \<Rightarrow> 's option) \<Rightarrow> 'a list \<Rightarrow> 's \<Rightarrow> 's option" where
  "foldM f [] s = Some s"
| "foldM f (x # xs) s = f x s \<bind> foldM f xs"

lemma Ex_Not [simp]: "Ex Not" "\<exists>x. x"
  by blast+

lemma rd_eq_Some [buf_simps]: "rd b i = Some v \<longleftrightarrow> i < blen b \<and> bbytes b ! i = v"
  by (cases b) auto

lemma rd_defined [buf_simps]: "rd b i \<noteq> None \<longleftrightarrow> i < blen b"
  by (cases b) auto

lemma rd_Ex [buf_intros]: "i < blen b \<Longrightarrow> \<exists>v. rd b i = Some v"
  by (cases b) auto

lemma wr_Ex [buf_intros]: "i < blen b \<Longrightarrow> \<exists>b'. wr b i v = Some b' \<and> blen b' = blen b"
  by (cases b) auto

lemma wr_blen [simp]: "wr b i v = Some b' \<Longrightarrow> blen b' = blen b"
  by (cases b) (auto split: if_splits)

lemma rd_wr: "wr b i v = Some b' \<Longrightarrow> rd b' j = (if i = j then Some v else rd b j)"
  by (cases b) (auto split: if_splits)

lemma wr_range_blen [simp]: "wr_range b p bs = Some b' \<Longrightarrow> blen b' = blen b"
  by (cases b) (auto split: if_splits)

lemma wr_range_Ex [buf_intros]:
  "p + length bs \<le> blen b \<Longrightarrow> \<exists>b'. wr_range b p bs = Some b' \<and> blen b' = blen b"
  by (cases b) auto

lemma rd_range_Ex [buf_intros]:
  "p + n \<le> blen b \<Longrightarrow> \<exists>bs. rd_range b p n = Some bs \<and> length bs = n"
  by (cases b) auto

lemma rd_range_length [simp]: "rd_range b p n = Some bs \<Longrightarrow> length bs = n"
  by (cases b) (auto split: if_splits)

lemma rd_wr_range_same: "wr_range b p bs = Some b' \<Longrightarrow> rd_range b' p (length bs) = Some bs"
  by (cases b) (auto split: if_splits)

lemma rd_wr_range:
  assumes "wr_range b p bs = Some b'"
  shows "rd b' j = (if p \<le> j \<and> j < p + length bs then Some (bs ! (j - p)) else rd b j)"
  using assms by (cases b) (auto split: if_splits simp: nth_append)

lemma wr_range_append:
  "wr_range (Buf d) p (xs @ ys) = wr_range (Buf d) p xs \<bind> (\<lambda>b. wr_range b (p + length xs) ys)"
  by (auto simp: add.assoc drop_drop add.commute add.left_commute)

lemma rd_range_split:
  "rd_range (Buf d) p (m + n) =
     do { xs \<leftarrow> rd_range (Buf d) p m; ys \<leftarrow> rd_range (Buf d) (p + m) n; Some (xs @ ys) }"
  by (auto simp: take_add add.assoc add.commute)

lemma wr_eq_wr_range: "wr (Buf d) q a = wr_range (Buf d) q [a]"
  by (simp add: upd_conv_take_nth_drop)

lemma wr2_eq_wr_range:
  "wr (Buf d) q a \<bind> (\<lambda>b. wr b (Suc q) c \<bind> k) = wr_range (Buf d) q [a, c] \<bind> k"
proof -
  have "wr_range (Buf d) q [a, c] = wr_range (Buf d) q [a] \<bind> (\<lambda>b. wr_range b (Suc q) [c])"
    using wr_range_append [of d q "[a]" "[c]"] by simp
  then show ?thesis
    by (auto simp: wr_eq_wr_range simp del: wr.simps(2))
qed

lemma wr3_eq_wr_range:
  "wr (Buf d) q a \<bind> (\<lambda>b. wr b (Suc q) c \<bind> (\<lambda>b. wr b (Suc (Suc q)) e \<bind> k))
     = wr_range (Buf d) q [a, c, e] \<bind> k"
proof -
  have "wr_range (Buf d) q [a, c, e] = wr_range (Buf d) q [a, c] \<bind> (\<lambda>b. wr_range b (Suc (Suc q)) [e])"
    using wr_range_append [of d q "[a, c]" "[e]"] by simp
  then show ?thesis
    by (auto simp: wr2_eq_wr_range wr_eq_wr_range simp del: wr.simps(2))
qed

lemma foldM_append: "foldM f (xs @ ys) s = foldM f xs s \<bind> foldM f ys"
  by (induction xs arbitrary: s) (auto simp: bind_assoc split: bind_splits)

text \<open>A loop whose every step succeeds and keeps an invariant succeeds and keeps it.\<close>

lemma foldM_invariant:
  assumes "P s" and "\<And>x s. x \<in> set xs \<Longrightarrow> P s \<Longrightarrow> \<exists>s'. f x s = Some s' \<and> P s'"
  shows "\<exists>s'. foldM f xs s = Some s' \<and> P s'"
  using assms
proof (induction xs arbitrary: s)
  case Nil
  then show ?case by simp
next
  case (Cons x xs)
  then obtain s1 where "f x s = Some s1" "P s1" by (meson list.set_intros(1))
  with Cons.IH [of s1] Cons.prems(2) show ?case by auto
qed

text \<open>A loop over indices, with an invariant that counts the rounds.\<close>

lemma foldM_upt:
  assumes "I 0 st" and "\<And>k st. \<lbrakk>k < n; I k st\<rbrakk> \<Longrightarrow> \<exists>st'. f k st = Some st' \<and> I (Suc k) st'"
  shows "\<exists>st'. foldM f [0..<n] st = Some st' \<and> I n st'"
  using assms(2)
proof (induction n)
  case 0
  then show ?case using assms(1) by simp
next
  case (Suc n)
  then obtain st1 where "foldM f [0..<n] st = Some st1" "I n st1" by fastforce
  moreover obtain st2 where "f n st1 = Some st2" "I (Suc n) st2" using Suc.prems [of n st1] \<open>I n st1\<close> by auto
  ultimately show ?case by (simp add: foldM_append)
qed

lemma foldM_preserves:
  assumes "foldM f xs s = Some s'" and "P s"
    and "\<And>x s s'. x \<in> set xs \<Longrightarrow> P s \<Longrightarrow> f x s = Some s' \<Longrightarrow> P s'"
  shows "P s'"
  using assms
proof (induction xs arbitrary: s)
  case Nil
  then show ?case by simp
next
  case (Cons x xs)
  then obtain s1 where s1: "f x s = Some s1" "foldM f xs s1 = Some s'"
    by (auto split: bind_splits)
  with Cons.prems have "P s1" by auto
  from Cons.IH [OF s1(2) this] Cons.prems(3) show ?case by auto
qed

lemma find_Some_iff_unique:
  assumes "x \<in> set xs" and "P x" and "\<And>y. y \<in> set xs \<Longrightarrow> P y \<Longrightarrow> y = x"
  shows "find P xs = Some x"
proof -
  have "find P xs \<noteq> None" using assms(1,2) by (auto simp: find_None_iff)
  then obtain y where y: "find P xs = Some y" by auto
  then have "y \<in> set xs" "P y" by (auto simp: find_Some_iff)
  with y assms(3) show ?thesis by simp
qed

section \<open>Bytes of words\<close>

text \<open>
  Splitting a 16-bit or a 32-bit word into bytes with shifts and joining the bytes again
  is the identity, in both directions. Every encoder and decoder of the development
  (EXIF shorts and longs, XDR integers, JPEG section lengths) rests on these facts.
\<close>

definition byte_n :: "nat \<Rightarrow> 'a::len word \<Rightarrow> u8" where
  "byte_n k v = ucast (drop_bit (8 * k) v)"

definition join16 :: "u8 \<Rightarrow> u8 \<Rightarrow> u16" where
  "join16 hi lo = push_bit 8 (ucast hi) OR ucast lo"

definition join32 :: "u8 \<Rightarrow> u8 \<Rightarrow> u8 \<Rightarrow> u8 \<Rightarrow> u32" where
  "join32 b3 b2 b1 b0 =
     push_bit 24 (ucast b3) OR push_bit 16 (ucast b2) OR push_bit 8 (ucast b1) OR ucast b0"

lemma unat_u8: "unat (b :: u8) < 256"
  using unsigned_less [of b] by simp

lemma unat_u16: "unat (w :: u16) < 65536"
  using unsigned_less [of w] by simp

lemma unat_u32: "unat (w :: u32) < 4294967296"
  using unsigned_less [of w] by simp

lemma unat_word_of_nat_32: "n < 2 ^ 32 \<Longrightarrow> unat (word_of_nat n :: u32) = n"
  by (simp add: unsigned_of_nat take_bit_nat_eq_self)

lemma unat_u8_of_nat: "n < 256 \<Longrightarrow> unat (word_of_nat n :: u8) = n"
  by (simp add: unsigned_of_nat take_bit_nat_eq_self)

lemma unat_ucast_u8: "unat (ucast (b :: u8) :: u32) = unat b"
  using unat_u8 [of b] by (simp add: unsigned_ucast_eq take_bit_nat_eq_self)

lemma bit_u8_bound: "bit (b :: u8) n \<Longrightarrow> n < 8"
  using bit_imp_le_length [of b n] by simp

lemma byte_n_join16_hi [simp]: "byte_n (Suc 0) (join16 a b) = a"
  unfolding byte_n_def join16_def
  by (intro bit_word_eqI) (auto simp: bit_simps dest: bit_u8_bound)

lemma byte_n_join16_lo [simp]: "byte_n 0 (join16 a b) = b"
  unfolding byte_n_def join16_def
  by (intro bit_word_eqI) (auto simp: bit_simps dest: bit_u8_bound)

lemma byte_n_join32_3 [simp]: "byte_n 3 (join32 a b c d) = a"
  unfolding byte_n_def join32_def
  by (intro bit_word_eqI) (auto simp: bit_simps dest: bit_u8_bound)

lemma byte_n_join32_2 [simp]: "byte_n 2 (join32 a b c d) = b"
  unfolding byte_n_def join32_def
  by (intro bit_word_eqI) (auto simp: bit_simps dest: bit_u8_bound)

lemma byte_n_join32_1 [simp]: "byte_n (Suc 0) (join32 a b c d) = c"
  unfolding byte_n_def join32_def
  by (intro bit_word_eqI) (auto simp: bit_simps dest: bit_u8_bound)

lemma byte_n_join32_0 [simp]: "byte_n 0 (join32 a b c d) = d"
  unfolding byte_n_def join32_def
  by (intro bit_word_eqI) (auto simp: bit_simps dest: bit_u8_bound)

lemma join16_bytes [simp]: "join16 (byte_n (Suc 0) v) (byte_n 0 v) = v"
  unfolding byte_n_def join16_def
  by (intro bit_word_eqI) (auto simp: bit_simps)

lemma join32_bytes [simp]:
  "join32 (byte_n 3 v) (byte_n 2 v) (byte_n (Suc 0) v) (byte_n 0 v) = v"
proof (rule bit_word_eqI)
  fix n
  assume "n < LENGTH(32)"
  then consider "n < 8" | "8 \<le> n" "n < 16" | "16 \<le> n" "n < 24" | "24 \<le> n" "n < 32"
    by fastforce
  then show "bit (join32 (byte_n 3 v) (byte_n 2 v) (byte_n (Suc 0) v) (byte_n 0 v)) n = bit v n"
    by cases (auto simp: byte_n_def join32_def bit_simps dest: bit_imp_le_length)
qed

lemma join16_inject: "join16 a b = join16 c d \<longleftrightarrow> a = c \<and> b = d"
  by (metis byte_n_join16_hi byte_n_join16_lo)

lemma unat_join16: "unat (join16 a b) = 256 * unat a + unat b"
proof -
  have disj: "push_bit 8 (ucast a :: u16) AND ucast b = 0"
    by (intro bit_word_eqI) (auto simp: bit_simps dest: bit_imp_le_length)
  have "join16 a b = push_bit 8 (ucast a) + ucast b"
    unfolding join16_def using disj by (simp add: disjunctive_add_eq_or)
  then have e: "join16 a b = 256 * ucast a + (ucast b :: u16)"
    by (simp add: push_bit_eq_mult mult.commute)
  have "unat a < 256" "unat b < 256" by (fact unat_u8)+
  then show ?thesis
    unfolding e by (simp add: unat_word_ariths unsigned_ucast_eq take_bit_nat_eq_self)
qed

end
