(* ===== verification/Exif_Utils.thy ===== *)
theory Exif_Utils
  imports Ancora_Prelude
begin

text \<open>
  The value layer of libexif: \<^verbatim>\<open>libexifa/exif-utils.c\<close> (reading and writing shorts, longs and
  rationals in either byte order, reversing the byte order of an array in place, UCS-2 to
  UTF-8), \<^verbatim>\<open>exif-format.c\<close> (the format table), \<^verbatim>\<open>exif-ifd.c\<close> and \<^verbatim>\<open>exif-byte-order.c\<close>.
  Everything above it (\<^verbatim>\<open>exif-data.c\<close>, the maker notes) reads and writes through these
  operations; what they promise is stated once, as the locale \<open>byte_codec\<close>.
\<close>

section \<open>Enumerations\<close>

datatype ExifByteOrder = EXIF_BYTE_ORDER_MOTOROLA | EXIF_BYTE_ORDER_INTEL

datatype ExifIfd = EXIF_IFD_0 | EXIF_IFD_1 | EXIF_IFD_EXIF | EXIF_IFD_GPS
  | EXIF_IFD_INTEROPERABILITY | EXIF_IFD_COUNT

text \<open>
  An \<open>ExifFormat\<close> is read from the file as a 16-bit number and need not be one of the
  enumerated values, so it stays a number.
\<close>

type_synonym ExifFormat = u16

abbreviation EXIF_FORMAT_BYTE :: ExifFormat where "EXIF_FORMAT_BYTE \<equiv> 1"
abbreviation EXIF_FORMAT_ASCII :: ExifFormat where "EXIF_FORMAT_ASCII \<equiv> 2"
abbreviation EXIF_FORMAT_SHORT :: ExifFormat where "EXIF_FORMAT_SHORT \<equiv> 3"
abbreviation EXIF_FORMAT_LONG :: ExifFormat where "EXIF_FORMAT_LONG \<equiv> 4"
abbreviation EXIF_FORMAT_RATIONAL :: ExifFormat where "EXIF_FORMAT_RATIONAL \<equiv> 5"
abbreviation EXIF_FORMAT_SBYTE :: ExifFormat where "EXIF_FORMAT_SBYTE \<equiv> 6"
abbreviation EXIF_FORMAT_UNDEFINED :: ExifFormat where "EXIF_FORMAT_UNDEFINED \<equiv> 7"
abbreviation EXIF_FORMAT_SSHORT :: ExifFormat where "EXIF_FORMAT_SSHORT \<equiv> 8"
abbreviation EXIF_FORMAT_SLONG :: ExifFormat where "EXIF_FORMAT_SLONG \<equiv> 9"
abbreviation EXIF_FORMAT_SRATIONAL :: ExifFormat where "EXIF_FORMAT_SRATIONAL \<equiv> 10"
abbreviation EXIF_FORMAT_FLOAT :: ExifFormat where "EXIF_FORMAT_FLOAT \<equiv> 11"
abbreviation EXIF_FORMAT_DOUBLE :: ExifFormat where "EXIF_FORMAT_DOUBLE \<equiv> 12"

section \<open>Formats, IFD names and byte order names\<close>

definition ExifFormatTable :: "(ExifFormat \<times> string \<times> u8) list" where
  "ExifFormatTable =
    [(EXIF_FORMAT_SHORT, ''Short'', 2),
     (EXIF_FORMAT_RATIONAL, ''Rational'', 8),
     (EXIF_FORMAT_SRATIONAL, ''SRational'', 8),
     (EXIF_FORMAT_UNDEFINED, ''Undefined'', 1),
     (EXIF_FORMAT_ASCII, ''ASCII'', 1),
     (EXIF_FORMAT_LONG, ''Long'', 4),
     (EXIF_FORMAT_BYTE, ''Byte'', 1),
     (EXIF_FORMAT_SBYTE, ''SByte'', 1),
     (EXIF_FORMAT_SSHORT, ''SShort'', 2),
     (EXIF_FORMAT_SLONG, ''SLong'', 4),
     (EXIF_FORMAT_FLOAT, ''Float'', 4),
     (EXIF_FORMAT_DOUBLE, ''Double'', 8)]"

text \<open>
  The C table ends with a row of zeros and the loops stop there; here the list ends.
\<close>

fun format_lookup :: "(ExifFormat \<times> string \<times> u8) list \<Rightarrow> ExifFormat \<Rightarrow> (string \<times> u8) option" where
  "format_lookup [] f = None"
| "format_lookup ((g, r) # rows) f = (if g = f then Some r else format_lookup rows f)"

definition exif_format_get_name :: "ExifFormat \<Rightarrow> string option" where
  "exif_format_get_name f = map_option fst (format_lookup ExifFormatTable f)"

definition exif_format_get_size :: "ExifFormat \<Rightarrow> u8" where
  "exif_format_get_size f =
     (case format_lookup ExifFormatTable f of None \<Rightarrow> 0 | Some (nm, sz) \<Rightarrow> sz)"

definition exif_ifd_get_name :: "ExifIfd \<Rightarrow> string option" where
  "exif_ifd_get_name i = map_of
     [(EXIF_IFD_0, ''0''), (EXIF_IFD_1, ''1''), (EXIF_IFD_EXIF, ''EXIF''),
      (EXIF_IFD_GPS, ''GPS''), (EXIF_IFD_INTEROPERABILITY, ''Interoperability'')] i"

fun exif_byte_order_get_name :: "ExifByteOrder \<Rightarrow> string option" where
  "exif_byte_order_get_name EXIF_BYTE_ORDER_MOTOROLA = Some ''Motorola''"
| "exif_byte_order_get_name EXIF_BYTE_ORDER_INTEL = Some ''Intel''"

section \<open>Reading and writing values\<close>

definition exif_get_sshort :: "cbuf \<Rightarrow> nat \<Rightarrow> ExifByteOrder \<Rightarrow> u16 option" where
  "exif_get_sshort b p order =
    (if b = NULL then Some 0
     else case order of
       EXIF_BYTE_ORDER_MOTOROLA \<Rightarrow> do { b0 \<leftarrow> rd b p; b1 \<leftarrow> rd b (p + 1); Some (join16 b0 b1) }
     | EXIF_BYTE_ORDER_INTEL \<Rightarrow> do { b1 \<leftarrow> rd b (p + 1); b0 \<leftarrow> rd b p; Some (join16 b1 b0) })"

definition exif_get_short :: "cbuf \<Rightarrow> nat \<Rightarrow> ExifByteOrder \<Rightarrow> u16 option" where
  "exif_get_short b p order = do { s \<leftarrow> exif_get_sshort b p order; Some (s AND 0xffff) }"

definition exif_set_sshort :: "cbuf \<Rightarrow> nat \<Rightarrow> ExifByteOrder \<Rightarrow> u16 \<Rightarrow> cbuf option" where
  "exif_set_sshort b p order v =
    (if b = NULL then Some NULL
     else case order of
       EXIF_BYTE_ORDER_MOTOROLA \<Rightarrow> do { b \<leftarrow> wr b p (byte_n 1 v); wr b (p + 1) (byte_n 0 v) }
     | EXIF_BYTE_ORDER_INTEL \<Rightarrow> do { b \<leftarrow> wr b p (byte_n 0 v); wr b (p + 1) (byte_n 1 v) })"

definition exif_set_short :: "cbuf \<Rightarrow> nat \<Rightarrow> ExifByteOrder \<Rightarrow> u16 \<Rightarrow> cbuf option" where
  "exif_set_short b p order v = exif_set_sshort b p order v"

definition exif_get_slong :: "cbuf \<Rightarrow> nat \<Rightarrow> ExifByteOrder \<Rightarrow> u32 option" where
  "exif_get_slong b p order =
    (if b = NULL then Some 0
     else case order of
       EXIF_BYTE_ORDER_MOTOROLA \<Rightarrow>
         do { b0 \<leftarrow> rd b p; b1 \<leftarrow> rd b (p + 1); b2 \<leftarrow> rd b (p + 2); b3 \<leftarrow> rd b (p + 3);
              Some (join32 b0 b1 b2 b3) }
     | EXIF_BYTE_ORDER_INTEL \<Rightarrow>
         do { b3 \<leftarrow> rd b (p + 3); b2 \<leftarrow> rd b (p + 2); b1 \<leftarrow> rd b (p + 1); b0 \<leftarrow> rd b p;
              Some (join32 b3 b2 b1 b0) })"

definition exif_get_long :: "cbuf \<Rightarrow> nat \<Rightarrow> ExifByteOrder \<Rightarrow> u32 option" where
  "exif_get_long b p order = do { l \<leftarrow> exif_get_slong b p order; Some (l AND 0xffffffff) }"

definition exif_set_slong :: "cbuf \<Rightarrow> nat \<Rightarrow> ExifByteOrder \<Rightarrow> u32 \<Rightarrow> cbuf option" where
  "exif_set_slong b p order v =
    (if b = NULL then Some NULL
     else case order of
       EXIF_BYTE_ORDER_MOTOROLA \<Rightarrow>
         do { b \<leftarrow> wr b p (byte_n 3 v); b \<leftarrow> wr b (p + 1) (byte_n 2 v);
              b \<leftarrow> wr b (p + 2) (byte_n 1 v); wr b (p + 3) (byte_n 0 v) }
     | EXIF_BYTE_ORDER_INTEL \<Rightarrow>
         do { b \<leftarrow> wr b (p + 3) (byte_n 3 v); b \<leftarrow> wr b (p + 2) (byte_n 2 v);
              b \<leftarrow> wr b (p + 1) (byte_n 1 v); wr b p (byte_n 0 v) })"

definition exif_set_long :: "cbuf \<Rightarrow> nat \<Rightarrow> ExifByteOrder \<Rightarrow> u32 \<Rightarrow> cbuf option" where
  "exif_set_long b p order v = exif_set_slong b p order v"

record ExifRational =
  numerator :: u32
  denominator :: u32

definition exif_get_srational :: "cbuf \<Rightarrow> nat \<Rightarrow> ExifByteOrder \<Rightarrow> ExifRational option" where
  "exif_get_srational b p order =
     do { n \<leftarrow> (if b = NULL then Some 0 else exif_get_slong b p order);
          d \<leftarrow> (if b = NULL then Some 0 else exif_get_slong b (p + 4) order);
          Some \<lparr>numerator = n, denominator = d\<rparr> }"

definition exif_get_rational :: "cbuf \<Rightarrow> nat \<Rightarrow> ExifByteOrder \<Rightarrow> ExifRational option" where
  "exif_get_rational b p order =
     do { n \<leftarrow> (if b = NULL then Some 0 else exif_get_long b p order);
          d \<leftarrow> (if b = NULL then Some 0 else exif_get_long b (p + 4) order);
          Some \<lparr>numerator = n, denominator = d\<rparr> }"

definition exif_set_rational :: "cbuf \<Rightarrow> nat \<Rightarrow> ExifByteOrder \<Rightarrow> ExifRational \<Rightarrow> cbuf option" where
  "exif_set_rational b p order v =
    (if b = NULL then Some NULL
     else do { b \<leftarrow> exif_set_long b p order (numerator v);
               exif_set_long b (p + 4) order (denominator v) })"

definition exif_set_srational :: "cbuf \<Rightarrow> nat \<Rightarrow> ExifByteOrder \<Rightarrow> ExifRational \<Rightarrow> cbuf option" where
  "exif_set_srational b p order v =
    (if b = NULL then Some NULL
     else do { b \<leftarrow> exif_set_slong b p order (numerator v);
               exif_set_slong b (p + 4) order (denominator v) })"

section \<open>Changing the byte order of an array in place\<close>

text \<open>
  One loop per format in the C code; the loop bodies differ in the accessors only. The
  index \<open>j * fs\<close> is an \<open>unsigned int\<close> product and wraps.
\<close>

definition array_loop ::
  "(cbuf \<Rightarrow> nat \<Rightarrow> ExifByteOrder \<Rightarrow> 'v option) \<Rightarrow> (cbuf \<Rightarrow> nat \<Rightarrow> ExifByteOrder \<Rightarrow> 'v \<Rightarrow> cbuf option)
     \<Rightarrow> u32 \<Rightarrow> u32 \<Rightarrow> ExifByteOrder \<Rightarrow> ExifByteOrder \<Rightarrow> cbuf \<Rightarrow> cbuf option" where
  "array_loop getv putv fs n o_orig o_new b =
     foldM (\<lambda>j b. do { v \<leftarrow> getv b (unat (word_of_nat j * fs)) o_orig;
                       putv b (unat (word_of_nat j * fs)) o_new v })
       [0..<unat n] b"

definition exif_array_set_byte_order ::
  "ExifFormat \<Rightarrow> cbuf \<Rightarrow> u32 \<Rightarrow> ExifByteOrder \<Rightarrow> ExifByteOrder \<Rightarrow> cbuf option" where
  "exif_array_set_byte_order f b n o_orig o_new =
    (let fs = ucast (exif_format_get_size f) :: u32 in
     if b = NULL \<or> n = 0 \<or> fs = 0 then Some b
     else if f = EXIF_FORMAT_SHORT then array_loop exif_get_short exif_set_short fs n o_orig o_new b
     else if f = EXIF_FORMAT_SSHORT then array_loop exif_get_sshort exif_set_sshort fs n o_orig o_new b
     else if f = EXIF_FORMAT_LONG then array_loop exif_get_long exif_set_long fs n o_orig o_new b
     else if f = EXIF_FORMAT_RATIONAL
       then array_loop exif_get_rational exif_set_rational fs n o_orig o_new b
     else if f = EXIF_FORMAT_SLONG then array_loop exif_get_slong exif_set_slong fs n o_orig o_new b
     else if f = EXIF_FORMAT_SRATIONAL
       then array_loop exif_get_srational exif_set_srational fs n o_orig o_new b
     else Some b)"

section \<open>UCS-2 to UTF-8\<close>

text \<open>
  The input is an array of 16-bit units read one at a time (a read past its end is the
  fault \<open>None\<close>), the output buffer is written from index \<open>q\<close> on. \<open>maxlen\<close> is a signed
  \<open>int\<close>; the loop only ever decreases it, so the model keeps it as \<open>int\<close>.
\<close>

function utf16_loop :: "cbuf \<Rightarrow> nat \<Rightarrow> u16 list \<Rightarrow> nat \<Rightarrow> int \<Rightarrow> (cbuf \<times> nat) option" where
  "utf16_loop out q inp i maxlen =
    (if i \<ge> length inp then None
     else let c = inp ! i in
       if c = 0 then Some (out, q)
       else if c < 0x80 then
         (if maxlen > 1
          then do { out \<leftarrow> wr out q (ucast c); utf16_loop out (q + 1) inp (i + 1) (maxlen - 1) }
          else Some (out, q))
       else if c < 0x800 then
         (if maxlen > 2
          then do { out \<leftarrow> wr out q (ucast ((drop_bit 6 c AND 0x1F) OR 0xC0));
                    out \<leftarrow> wr out (q + 1) (ucast ((c AND 0x3F) OR 0x80));
                    utf16_loop out (q + 2) inp (i + 1) (maxlen - 2) }
          else Some (out, q))
       else
         (if maxlen > 3
          then do { out \<leftarrow> wr out q (ucast ((drop_bit 12 c AND 0x0F) OR 0xE0));
                    out \<leftarrow> wr out (q + 1) (ucast ((drop_bit 6 c AND 0x3F) OR 0x80));
                    out \<leftarrow> wr out (q + 2) (ucast ((c AND 0x3F) OR 0x80));
                    utf16_loop out (q + 3) inp (i + 1) (maxlen - 3) }
          else Some (out, q)))"
  by pat_completeness auto
termination
  by (relation "measure (\<lambda>(out, q, inp, i, maxlen). length inp - i)") auto

declare utf16_loop.simps [simp del]

definition exif_convert_utf16_to_utf8 :: "cbuf \<Rightarrow> u16 list \<Rightarrow> int \<Rightarrow> cbuf option" where
  "exif_convert_utf16_to_utf8 out inp maxlen =
    (if maxlen \<le> 0 then Some out
     else do { (out, q) \<leftarrow> utf16_loop out 0 inp 0 maxlen; wr out q 0 })"

section \<open>The accessors as codecs\<close>

text \<open>
  Every pair of accessors is a codec: what it writes is the encoding of the value in the
  given order, what it reads is the decoding of the bytes there, and the two are inverse.
  The locale states this once; the laws of an in-place conversion of an array are
  proved from it for all formats.
\<close>

definition enc16 :: "ExifByteOrder \<Rightarrow> u16 \<Rightarrow> bytes" where
  "enc16 order v = (case order of EXIF_BYTE_ORDER_MOTOROLA \<Rightarrow> [byte_n 1 v, byte_n 0 v]
                    | EXIF_BYTE_ORDER_INTEL \<Rightarrow> [byte_n 0 v, byte_n 1 v])"

definition dec16 :: "ExifByteOrder \<Rightarrow> bytes \<Rightarrow> u16" where
  "dec16 order bs = (case order of EXIF_BYTE_ORDER_MOTOROLA \<Rightarrow> join16 (bs ! 0) (bs ! 1)
                     | EXIF_BYTE_ORDER_INTEL \<Rightarrow> join16 (bs ! 1) (bs ! 0))"

definition enc32 :: "ExifByteOrder \<Rightarrow> u32 \<Rightarrow> bytes" where
  "enc32 order v = (case order of
       EXIF_BYTE_ORDER_MOTOROLA \<Rightarrow> [byte_n 3 v, byte_n 2 v, byte_n 1 v, byte_n 0 v]
     | EXIF_BYTE_ORDER_INTEL \<Rightarrow> [byte_n 0 v, byte_n 1 v, byte_n 2 v, byte_n 3 v])"

definition dec32 :: "ExifByteOrder \<Rightarrow> bytes \<Rightarrow> u32" where
  "dec32 order bs = (case order of
       EXIF_BYTE_ORDER_MOTOROLA \<Rightarrow> join32 (bs ! 0) (bs ! 1) (bs ! 2) (bs ! 3)
     | EXIF_BYTE_ORDER_INTEL \<Rightarrow> join32 (bs ! 3) (bs ! 2) (bs ! 1) (bs ! 0))"

definition enc_rat :: "ExifByteOrder \<Rightarrow> ExifRational \<Rightarrow> bytes" where
  "enc_rat order v = enc32 order (numerator v) @ enc32 order (denominator v)"

definition dec_rat :: "ExifByteOrder \<Rightarrow> bytes \<Rightarrow> ExifRational" where
  "dec_rat order bs = \<lparr>numerator = dec32 order (take 4 bs), denominator = dec32 order (drop 4 bs)\<rparr>"

locale byte_codec =
  fixes getv :: "cbuf \<Rightarrow> nat \<Rightarrow> ExifByteOrder \<Rightarrow> 'v option"
    and putv :: "cbuf \<Rightarrow> nat \<Rightarrow> ExifByteOrder \<Rightarrow> 'v \<Rightarrow> cbuf option"
    and enc :: "ExifByteOrder \<Rightarrow> 'v \<Rightarrow> bytes"
    and dec :: "ExifByteOrder \<Rightarrow> bytes \<Rightarrow> 'v"
    and w :: nat
  assumes get_eq: "getv (Buf d) p ord = map_option (dec ord) (rd_range (Buf d) p w)"
    and set_eq: "putv (Buf d) p ord v = wr_range (Buf d) p (enc ord v)"
    and enc_length: "length (enc ord v) = w"
    and dec_enc: "dec ord (enc ord v) = v"
    and enc_dec: "length bs = w \<Longrightarrow> enc ord (dec ord bs) = bs"
begin

lemma get_after_set: "putv (Buf d) p ord v = Some b \<Longrightarrow> getv b p ord = Some v"
  using rd_wr_range_same [of "Buf d" p "enc ord v" b]
  by (cases b) (auto simp: set_eq get_eq enc_length dec_enc split: if_splits)

lemma get_defined: "getv (Buf d) p ord \<noteq> None \<longleftrightarrow> p + w \<le> length d"
  by (simp add: get_eq)

definition recode :: "ExifByteOrder \<Rightarrow> ExifByteOrder \<Rightarrow> nat \<Rightarrow> bytes \<Rightarrow> bytes" where
  "recode o1 o2 n d =
     concat (map (\<lambda>j. enc o2 (dec o1 (take w (drop (j * w) d)))) [0..<n])"

lemma recode_Suc: "recode o1 o2 (Suc n) d = recode o1 o2 n d @ enc o2 (dec o1 (take w (drop (n * w) d)))"
  by (simp add: recode_def)

lemma length_recode [simp]: "length (recode o1 o2 n d) = n * w"
  by (induction n) (simp_all add: recode_Suc enc_length recode_def [of _ _ 0])

lemma recode_0: "recode o1 o2 0 d = []"
  by (simp add: recode_def)

lemma chunk_gap: "j < n \<Longrightarrow> w + j * w - n * w = 0"
  by (metis Suc_leI diff_is_0_eq mult_Suc mult_le_mono1)

lemma chunk_recode:
  assumes "j < n"
  shows "take w (drop (j * w) (recode o1 o2 n d)) = enc o2 (dec o1 (take w (drop (j * w) d)))"
  using assms
proof (induction n)
  case 0
  then show ?case by simp
next
  case (Suc n)
  show ?case
  proof (cases "j = n")
    case True
    then show ?thesis by (simp add: recode_Suc enc_length)
  next
    case False
    with Suc show ?thesis by (simp add: recode_Suc chunk_gap)
  qed
qed

lemma recode_recode:
  assumes "n * w \<le> length d"
  shows "recode o2 o1 n (recode o1 o2 n d @ rest) = take (n * w) d"
proof -
  have "m \<le> n \<Longrightarrow> recode o2 o1 m (recode o1 o2 n d @ rest) = take (m * w) d" for m
  proof (induction m)
    case 0
    then show ?case by (simp add: recode_0)
  next
    case (Suc m)
    have len: "Suc m * w \<le> length d"
      using assms Suc.prems by (meson le_trans mult_le_mono1)
    have "recode o2 o1 (Suc m) (recode o1 o2 n d @ rest)
            = take (m * w) d @ enc o1 (dec o1 (take w (drop (m * w) d)))"
      using Suc assms by (simp add: recode_Suc chunk_recode chunk_gap dec_enc)
    also have "\<dots> = take (m * w) d @ take w (drop (m * w) d)"
      using len by (simp add: enc_dec)
    also have "\<dots> = take (Suc m * w) d"
      by (simp add: take_add [symmetric] add.commute)
    finally show ?case .
  qed
  then show ?thesis by simp
qed

lemma array_loop_eq:
  assumes "unat fs = w" and "unat n * w \<le> length d" and "length d < 2 ^ 32"
  shows "array_loop getv putv fs n o1 o2 (Buf d)
           = Some (Buf (recode o1 o2 (unat n) d @ drop (unat n * w) d))"
proof -
  let ?f = "\<lambda>j b. do { v \<leftarrow> getv b (unat (word_of_nat j * fs)) o1;
                       putv b (unat (word_of_nat j * fs)) o2 v }"
  have "m \<le> unat n \<Longrightarrow> foldM ?f [0..<m] (Buf d) = Some (Buf (recode o1 o2 m d @ drop (m * w) d))" for m
  proof (induction m)
    case 0
    then show ?case by (simp add: recode_0)
  next
    case (Suc m)
    have len: "m * w + w \<le> length d"
      using assms(2) Suc.prems mult_le_mono1 [of "Suc m" "unat n" w] by simp
    have "m < 2 ^ 32" using Suc.prems unat_u32 [of n] by simp
    then have ix: "unat (word_of_nat m * fs) = m * w"
      using assms(1,3) len by (simp add: unat_word_ariths unat_of_nat)
    show ?case
      using Suc len
      by (simp add: foldM_append ix get_eq set_eq enc_length recode_Suc add.commute)
  qed
  then show ?thesis by (simp add: array_loop_def)
qed

text \<open>
  Converting an array to another byte order keeps its length and every value in it, and
  converting back restores every byte.
\<close>

lemma array_loop_roundtrip:
  assumes "unat fs = w" and "unat n * w \<le> length d" and "length d < 2 ^ 32"
  shows "\<exists>d'. array_loop getv putv fs n o1 o2 (Buf d) = Some (Buf d') \<and> length d' = length d \<and>
           array_loop getv putv fs n o2 o1 (Buf d') = Some (Buf d)"
  using assms by (simp add: array_loop_eq recode_recode)

lemma array_loop_values:
  assumes "unat fs = w" and "unat n * w \<le> length d" and "length d < 2 ^ 32"
    and "array_loop getv putv fs n o1 o2 (Buf d) = Some b'" and "j < unat n"
  shows "getv b' (j * w) o2 = getv (Buf d) (j * w) o1"
proof -
  have b': "b' = Buf (recode o1 o2 (unat n) d @ drop (unat n * w) d)"
    using assms(1-4) by (simp add: array_loop_eq)
  have "j * w + w \<le> length d"
    using assms(2,5) mult_le_mono1 [of "Suc j" "unat n" w] by simp
  then show ?thesis
    using assms(2,5) by (simp add: b' get_eq chunk_recode chunk_gap dec_enc)
qed

end

lemma rd_pair: "p + 2 \<le> length d \<Longrightarrow> take 2 (drop p d) = [d ! p, d ! Suc p]"
  by (rule nth_equalityI) (auto simp: less_Suc_eq numeral_2_eq_2)

lemma rd_quad:
  "p + 4 \<le> length d \<Longrightarrow> take 4 (drop p d) = [d ! p, d ! (p + 1), d ! (p + 2), d ! (p + 3)]"
  by (rule nth_equalityI) (auto simp: less_Suc_eq numeral_eq_Suc)

lemma wr_pair: "p + 2 \<le> length d \<Longrightarrow> d[p := a, Suc p := b] = take p d @ [a, b] @ drop (p + 2) d"
  by (rule nth_equalityI)
    (auto simp: nth_append nth_list_update less_Suc_eq numeral_2_eq_2 nth_Cons'
      intro!: arg_cong [where f = "nth d"])

lemma wr_quad:
  "p + 4 \<le> length d \<Longrightarrow> d[p := a, p + 1 := b, p + 2 := c, p + 3 := e] = take p d @ [a, b, c, e] @ drop (p + 4) d"
  by (rule nth_equalityI)
    (auto simp: nth_append nth_list_update less_Suc_eq numeral_eq_Suc nth_Cons'
      intro!: arg_cong [where f = "nth d"])

lemma wr_quad_rev:
  "p + 4 \<le> length d \<Longrightarrow>
   d[p + 3 := e, p + 2 := c, p + 1 := b, p := a] = take p d @ [a, b, c, e] @ drop (p + 4) d"
  by (rule nth_equalityI)
    (auto simp: nth_append nth_list_update less_Suc_eq numeral_eq_Suc nth_Cons'
      intro!: arg_cong [where f = "nth d"])

lemma exif_get_sshort_eq:
  "exif_get_sshort (Buf d) p ord = map_option (dec16 ord) (rd_range (Buf d) p 2)"
  by (auto simp: exif_get_sshort_def dec16_def rd_pair split: ExifByteOrder.split)

lemma exif_set_sshort_eq: "exif_set_sshort (Buf d) p ord v = wr_range (Buf d) p (enc16 ord v)"
  by (auto simp: exif_set_sshort_def enc16_def wr_pair split: ExifByteOrder.split)

lemma exif_get_slong_eq:
  "exif_get_slong (Buf d) p ord = map_option (dec32 ord) (rd_range (Buf d) p 4)"
  by (auto simp: exif_get_slong_def dec32_def rd_quad split: ExifByteOrder.split)

lemma exif_set_slong_eq: "exif_set_slong (Buf d) p ord v = wr_range (Buf d) p (enc32 ord v)"
  using wr_quad [of p d] wr_quad_rev [of p d]
  by (auto simp: exif_set_slong_def enc32_def numeral_eq_Suc split: ExifByteOrder.split)

lemma length_2_obtain: "length bs = 2 \<Longrightarrow> \<exists>a b. bs = [a, b]"
  by (auto simp: numeral_2_eq_2 length_Suc_conv)

lemma length_4_obtain: "length bs = 4 \<Longrightarrow> \<exists>a b c d. bs = [a, b, c, d]"
  by (auto simp: numeral_eq_Suc length_Suc_conv)

interpretation sshort: byte_codec exif_get_sshort exif_set_sshort enc16 dec16 2
proof
  show "length bs = 2 \<Longrightarrow> enc16 ord (dec16 ord bs) = bs" for ord bs
    by (cases ord) (auto simp: enc16_def dec16_def dest!: length_2_obtain)
qed (auto simp: exif_get_sshort_eq exif_set_sshort_eq enc16_def dec16_def split: ExifByteOrder.split)

interpretation slong: byte_codec exif_get_slong exif_set_slong enc32 dec32 4
proof
  show "length bs = 4 \<Longrightarrow> enc32 ord (dec32 ord bs) = bs" for ord bs
    by (cases ord) (auto simp: enc32_def dec32_def dest!: length_4_obtain)
qed (auto simp: exif_get_slong_eq exif_set_slong_eq enc32_def dec32_def split: ExifByteOrder.split)

lemma and_mask16 [simp]: "(s :: u16) AND 0xffff = s"
proof -
  have "(0xffff :: u16) = - 1" by simp
  then show ?thesis by (simp only: and.right_neutral)
qed

lemma and_mask32 [simp]: "(s :: u32) AND 0xffffffff = s"
proof -
  have "(0xffffffff :: u32) = - 1" by simp
  then show ?thesis by (simp only: and.right_neutral)
qed

lemma exif_get_short_sshort: "exif_get_short = exif_get_sshort"
  by (intro ext) (simp add: exif_get_short_def)

lemma exif_set_short_sshort: "exif_set_short = exif_set_sshort"
  by (intro ext) (simp add: exif_set_short_def)

lemma exif_get_long_slong: "exif_get_long = exif_get_slong"
  by (intro ext) (simp add: exif_get_long_def)

lemma exif_set_long_slong: "exif_set_long = exif_set_slong"
  by (intro ext) (simp add: exif_set_long_def)

interpretation eshort: byte_codec exif_get_short exif_set_short enc16 dec16 2
  unfolding exif_get_short_sshort exif_set_short_sshort by (rule sshort.byte_codec_axioms)

interpretation elong: byte_codec exif_get_long exif_set_long enc32 dec32 4
  unfolding exif_get_long_slong exif_set_long_slong by (rule slong.byte_codec_axioms)

lemma rat_get_eq:
  "do { n \<leftarrow> exif_get_slong (Buf d) p ord; m \<leftarrow> exif_get_slong (Buf d) (p + 4) ord;
        Some \<lparr>numerator = n, denominator = m\<rparr> }
     = map_option (dec_rat ord) (rd_range (Buf d) p 8)"
  using rd_range_split [of d p 4 4] by (auto simp: slong.get_eq dec_rat_def)

lemma rat_set_eq:
  "do { b \<leftarrow> exif_set_slong (Buf d) p ord (numerator v);
        exif_set_slong b (p + 4) ord (denominator v) } = wr_range (Buf d) p (enc_rat ord v)"
  unfolding enc_rat_def wr_range_append slong.set_eq
  by (auto simp: slong.enc_length slong.set_eq)

lemma rat_enc_dec: "length bs = 8 \<Longrightarrow> enc_rat ord (dec_rat ord bs) = bs"
  by (simp add: enc_rat_def dec_rat_def slong.enc_dec)

lemma rat_enc_length: "length (enc_rat ord v) = 8"
  by (simp add: enc_rat_def slong.enc_length)

lemma rat_dec_enc: "dec_rat ord (enc_rat ord v) = v"
  by (simp add: enc_rat_def dec_rat_def slong.dec_enc slong.enc_length)

interpretation srational: byte_codec exif_get_srational exif_set_srational enc_rat dec_rat 8
proof
  show "exif_get_srational (Buf d) p ord = map_option (dec_rat ord) (rd_range (Buf d) p 8)" for d p ord
    unfolding rat_get_eq [symmetric] by (simp add: exif_get_srational_def)
  show "exif_set_srational (Buf d) p ord v = wr_range (Buf d) p (enc_rat ord v)" for d p ord v
    unfolding rat_set_eq [symmetric] by (simp add: exif_set_srational_def)
qed (simp_all add: rat_enc_dec rat_dec_enc rat_enc_length)

interpretation rational: byte_codec exif_get_rational exif_set_rational enc_rat dec_rat 8
proof
  show "exif_get_rational (Buf d) p ord = map_option (dec_rat ord) (rd_range (Buf d) p 8)" for d p ord
    unfolding rat_get_eq [symmetric] by (simp add: exif_get_rational_def exif_get_long_slong)
  show "exif_set_rational (Buf d) p ord v = wr_range (Buf d) p (enc_rat ord v)" for d p ord v
    unfolding rat_set_eq [symmetric] by (simp add: exif_set_rational_def exif_set_long_slong)
qed (simp_all add: rat_enc_dec rat_dec_enc rat_enc_length)

section \<open>Correctness of the byte order conversion\<close>

lemma format_sizes:
  "exif_format_get_size EXIF_FORMAT_SHORT = 2" "exif_format_get_size EXIF_FORMAT_SSHORT = 2"
  "exif_format_get_size EXIF_FORMAT_LONG = 4" "exif_format_get_size EXIF_FORMAT_SLONG = 4"
  "exif_format_get_size EXIF_FORMAT_RATIONAL = 8" "exif_format_get_size EXIF_FORMAT_SRATIONAL = 8"
  by (simp_all add: exif_format_get_size_def ExifFormatTable_def)

lemma exif_format_get_size_values: "exif_format_get_size f \<in> {0, 1, 2, 4, 8}"
  by (simp add: exif_format_get_size_def ExifFormatTable_def)

lemma exif_format_get_size_le: "unat (exif_format_get_size f) \<le> 8"
  using exif_format_get_size_values [of f] by auto

text \<open>
  The value stored at an index of an array of a given format, as a list of numbers. Of a float or a double
  it is the bit pattern, high word first, that the byte order gives.
\<close>

definition array_value :: "ExifFormat \<Rightarrow> cbuf \<Rightarrow> nat \<Rightarrow> ExifByteOrder \<Rightarrow> u32 list option" where
  "array_value f b p ord =
    (if f = EXIF_FORMAT_SHORT \<or> f = EXIF_FORMAT_SSHORT
       then do { s \<leftarrow> exif_get_short b p ord; Some [ucast s] }
     else if f = EXIF_FORMAT_LONG \<or> f = EXIF_FORMAT_SLONG
       then do { l \<leftarrow> exif_get_long b p ord; Some [l] }
     else if f = EXIF_FORMAT_RATIONAL \<or> f = EXIF_FORMAT_SRATIONAL
       then do { r \<leftarrow> exif_get_rational b p ord; Some [numerator r, denominator r] }
     else if f = EXIF_FORMAT_FLOAT then do { l \<leftarrow> exif_get_long b p ord; Some [l] }
     else if f = EXIF_FORMAT_DOUBLE
       then do { v \<leftarrow> exif_get_long b p ord; w \<leftarrow> exif_get_long b (p + 4) ord;
                 Some (if ord = EXIF_BYTE_ORDER_MOTOROLA then [v, w] else [w, v]) }
     else do { bs \<leftarrow> rd_range b p (unat (exif_format_get_size f)); Some (map ucast bs) })"

definition swapped_formats :: "ExifFormat set" where
  "swapped_formats = {EXIF_FORMAT_SHORT, EXIF_FORMAT_SSHORT, EXIF_FORMAT_LONG,
     EXIF_FORMAT_SLONG, EXIF_FORMAT_RATIONAL, EXIF_FORMAT_SRATIONAL}"

lemma exif_array_set_byte_order_other:
  "f \<notin> swapped_formats \<Longrightarrow> exif_array_set_byte_order f b n o1 o2 = Some b"
  by (simp add: exif_array_set_byte_order_def swapped_formats_def Let_def)

lemma exif_array_set_byte_order_n0: "exif_array_set_byte_order f b 0 o1 o2 = Some b"
  by (simp add: exif_array_set_byte_order_def)

lemma srational_rational: "exif_get_srational = exif_get_rational" "exif_set_srational = exif_set_rational"
  by (intro ext; simp add: exif_get_srational_def exif_get_rational_def exif_set_srational_def
    exif_set_rational_def exif_get_long_slong exif_set_long_slong)+

lemma exif_array_set_byte_order_loops:
  assumes "n \<noteq> 0"
  shows "f \<in> {EXIF_FORMAT_SHORT, EXIF_FORMAT_SSHORT} \<Longrightarrow>
      exif_array_set_byte_order f (Buf d) n o1 o2 = array_loop exif_get_short exif_set_short 2 n o1 o2 (Buf d)"
    and "f \<in> {EXIF_FORMAT_LONG, EXIF_FORMAT_SLONG} \<Longrightarrow>
      exif_array_set_byte_order f (Buf d) n o1 o2 = array_loop exif_get_long exif_set_long 4 n o1 o2 (Buf d)"
    and "f \<in> {EXIF_FORMAT_RATIONAL, EXIF_FORMAT_SRATIONAL} \<Longrightarrow>
      exif_array_set_byte_order f (Buf d) n o1 o2
        = array_loop exif_get_rational exif_set_rational 8 n o1 o2 (Buf d)"
  using assms
  by (auto simp: exif_array_set_byte_order_def format_sizes exif_get_short_sshort exif_set_short_sshort
      exif_get_long_slong exif_set_long_slong srational_rational)

lemma swapped_formats_cases:
  assumes "f \<in> swapped_formats"
  obtains "f \<in> {EXIF_FORMAT_SHORT, EXIF_FORMAT_SSHORT}" "exif_format_get_size f = 2"
  | "f \<in> {EXIF_FORMAT_LONG, EXIF_FORMAT_SLONG}" "exif_format_get_size f = 4"
  | "f \<in> {EXIF_FORMAT_RATIONAL, EXIF_FORMAT_SRATIONAL}" "exif_format_get_size f = 8"
  using assms format_sizes unfolding swapped_formats_def by blast

text \<open>
  Changing the byte order of an array of \<open>n\<close> values of any format, in a buffer that
  holds them, never touches memory outside the buffer, keeps the buffer's size, and
  changing it back restores every byte.
\<close>

theorem exif_array_set_byte_order_roundtrip:
  assumes "unat n * unat (exif_format_get_size f) \<le> blen b" and "blen b < 2 ^ 32"
  shows "\<exists>b'. exif_array_set_byte_order f b n o1 o2 = Some b' \<and> blen b' = blen b \<and>
           exif_array_set_byte_order f b' n o2 o1 = Some b"
proof (cases "b = NULL \<or> n = 0 \<or> f \<notin> swapped_formats")
  case True
  then show ?thesis
    by (auto simp: exif_array_set_byte_order_other exif_array_set_byte_order_n0)
      (simp add: exif_array_set_byte_order_def)
next
  case False
  then obtain d where d: "b = Buf d" and n: "n \<noteq> 0" and f: "f \<in> swapped_formats"
    by (cases b) auto
  from f show ?thesis
  proof (cases rule: swapped_formats_cases)
    case 1
    with assms d n eshort.array_loop_roundtrip [of 2 n d o1 o2] show ?thesis
      by (fastforce simp: exif_array_set_byte_order_loops)
  next
    case 2
    with assms d n elong.array_loop_roundtrip [of 4 n d o1 o2] show ?thesis
      by (fastforce simp: exif_array_set_byte_order_loops)
  next
    case 3
    with assms d n rational.array_loop_roundtrip [of 8 n d o1 o2] show ?thesis
      by (fastforce simp: exif_array_set_byte_order_loops)
  qed
qed

theorem exif_array_set_byte_order_roundtrip_witness:
  "\<exists>b'. exif_array_set_byte_order EXIF_FORMAT_SHORT (Buf [1, 2, 3, 4]) 2
            EXIF_BYTE_ORDER_MOTOROLA EXIF_BYTE_ORDER_INTEL = Some b' \<and>
        blen b' = blen (Buf [1, 2, 3, 4]) \<and>
        exif_array_set_byte_order EXIF_FORMAT_SHORT b' 2
            EXIF_BYTE_ORDER_INTEL EXIF_BYTE_ORDER_MOTOROLA = Some (Buf [1, 2, 3, 4])"
  using exif_array_set_byte_order_roundtrip [of 2 EXIF_FORMAT_SHORT "Buf [1, 2, 3, 4]"
      EXIF_BYTE_ORDER_MOTOROLA EXIF_BYTE_ORDER_INTEL]
  by (simp add: format_sizes)

text \<open>
  A byte order change keeps the values: every value of the array, read in the new
  order from the converted buffer, is the value read in the old order before. Floats and
  doubles are not converted.
\<close>

theorem exif_array_set_byte_order_values:
  assumes "unat n * unat (exif_format_get_size f) \<le> blen b" and "blen b < 2 ^ 32" and "b \<noteq> NULL"
    and "exif_array_set_byte_order f b n o1 o2 = Some b'" and "j < unat n"
    and "f \<noteq> EXIF_FORMAT_FLOAT" and "f \<noteq> EXIF_FORMAT_DOUBLE"
  shows "array_value f b' (j * unat (exif_format_get_size f)) o2
           = array_value f b (j * unat (exif_format_get_size f)) o1"
proof (cases "f \<in> swapped_formats")
  case False
  with assms(4) have "b' = b" by (simp add: exif_array_set_byte_order_other)
  with False assms(6,7) show ?thesis by (auto simp: array_value_def swapped_formats_def)
next
  case f: True
  from assms(3) obtain d where d: "b = Buf d" by (cases b) auto
  from assms(5) have n: "n \<noteq> 0" by auto
  from f show ?thesis
  proof (cases rule: swapped_formats_cases)
    case 1
    with assms d n eshort.array_loop_values [of 2 n d o1 o2 b' j] show ?thesis
      by (auto simp: exif_array_set_byte_order_loops array_value_def)
  next
    case 2
    with assms d n elong.array_loop_values [of 4 n d o1 o2 b' j] show ?thesis
      by (auto simp: exif_array_set_byte_order_loops array_value_def)
  next
    case 3
    with assms d n rational.array_loop_values [of 8 n d o1 o2 b' j] show ?thesis
      by (auto simp: exif_array_set_byte_order_loops array_value_def)
  qed
qed

lemma float_depends_on_order:
  "array_value EXIF_FORMAT_FLOAT (Buf [1, 2, 3, 4]) 0 EXIF_BYTE_ORDER_INTEL
     \<noteq> array_value EXIF_FORMAT_FLOAT (Buf [1, 2, 3, 4]) 0 EXIF_BYTE_ORDER_MOTOROLA"
  by code_simp

theorem exif_array_set_byte_order_values_witness:
  "exif_array_set_byte_order EXIF_FORMAT_LONG (Buf [1, 2, 3, 4]) 1
      EXIF_BYTE_ORDER_MOTOROLA EXIF_BYTE_ORDER_INTEL = Some (Buf [4, 3, 2, 1]) \<and>
   array_value EXIF_FORMAT_LONG (Buf [4, 3, 2, 1]) 0 EXIF_BYTE_ORDER_INTEL
     = array_value EXIF_FORMAT_LONG (Buf [1, 2, 3, 4]) 0 EXIF_BYTE_ORDER_MOTOROLA"
proof -
  have run: "exif_array_set_byte_order EXIF_FORMAT_LONG (Buf [1, 2, 3, 4]) 1
      EXIF_BYTE_ORDER_MOTOROLA EXIF_BYTE_ORDER_INTEL = Some (Buf [4, 3, 2, 1])"
    by code_simp
  show ?thesis
    using run exif_array_set_byte_order_values [OF _ _ _ run, of 0] by (simp add: format_sizes)
qed

section \<open>The UTF-8 conversion stays in its buffer\<close>

text \<open>Reference definition: the UTF-8 bytes of one unit, and those that fit in \<open>m\<close> bytes.\<close>

definition utf8_unit :: "u16 \<Rightarrow> bytes" where
  "utf8_unit c =
    (if c < 0x80 then [ucast c]
     else if c < 0x800 then [ucast ((drop_bit 6 c AND 0x1F) OR 0xC0), ucast ((c AND 0x3F) OR 0x80)]
     else [ucast ((drop_bit 12 c AND 0x0F) OR 0xE0), ucast ((drop_bit 6 c AND 0x3F) OR 0x80),
           ucast ((c AND 0x3F) OR 0x80)])"

fun utf8_fit :: "u16 list \<Rightarrow> nat \<Rightarrow> bytes" where
  "utf8_fit [] m = []"
| "utf8_fit (c # cs) m =
     (if c = 0 then []
      else if length (utf8_unit c) < m then utf8_unit c @ utf8_fit cs (m - length (utf8_unit c))
      else [])"

lemma utf8_fit_length: "0 < m \<Longrightarrow> length (utf8_fit cs m) < m"
proof (induction cs m rule: utf8_fit.induct)
  case (2 c cs m)
  show ?case
  proof (cases "c \<noteq> 0 \<and> length (utf8_unit c) < m")
    case True
    with "2.IH" have "length (utf8_fit cs (m - length (utf8_unit c))) < m - length (utf8_unit c)" by simp
    with True show ?thesis by (simp add: less_diff_conv)
  qed (use 2 in auto)
qed simp

text \<open>One step of the loop writes the bytes of one unit, when there is room for them.\<close>

lemma utf16_loop_step:
  assumes "i < length inp"
  shows "utf16_loop (Buf d) q inp i maxlen =
    (let c = inp ! i; u = utf8_unit c in
     if c = 0 then Some (Buf d, q)
     else if int (length u) < maxlen
       then wr_range (Buf d) q u \<bind>
              (\<lambda>out. utf16_loop out (q + length u) inp (i + 1) (maxlen - int (length u)))
     else Some (Buf d, q))"
proof -
  let ?c = "inp ! i"
  note step = utf16_loop.simps [of "Buf d" q inp i maxlen]
  consider "?c < 0x80" | "\<not> ?c < 0x80" "?c < 0x800" | "\<not> ?c < 0x80" "\<not> ?c < 0x800" by blast
  then show ?thesis
  proof cases
    case 1
    then show ?thesis
      using assms by (simp add: step utf8_unit_def Let_def wr_eq_wr_range del: wr.simps wr_range.simps)
  next
    case 2
    then show ?thesis
      using assms
      by (simp add: step utf8_unit_def Let_def wr2_eq_wr_range del: wr.simps wr_range.simps)
  next
    case 3
    then show ?thesis
      using assms
      by (simp add: step utf8_unit_def Let_def wr3_eq_wr_range numeral_3_eq_3
          del: wr.simps wr_range.simps)
  qed
qed

lemma utf16_loop_eq:
  assumes "0 \<in> set (drop i inp)" and "0 < m" and "q + m \<le> length d"
  shows "utf16_loop (Buf d) q inp i (int m)
    = Some (Buf (take q d @ utf8_fit (drop i inp) m @ drop (q + length (utf8_fit (drop i inp) m)) d),
            q + length (utf8_fit (drop i inp) m))"
  using assms
proof (induction "length inp - i" arbitrary: i q m d)
  case 0
  then show ?case by simp
next
  case (Suc n)
  then have i: "i < length inp" by simp
  let ?c = "inp ! i" and ?u = "utf8_unit (inp ! i)"
  have dr: "drop i inp = ?c # drop (i + 1) inp"
    using i by (simp add: Cons_nth_drop_Suc)
  show ?case
  proof (cases "?c \<noteq> 0 \<and> length ?u < m")
    case False
    then show ?thesis
      using i by (auto simp: utf16_loop_step dr Let_def)
  next
    case True
    let ?d = "take q d @ ?u @ drop (q + length ?u) d"
    have "0 \<in> set (drop (i + 1) inp)" using Suc.prems(1) True by (auto simp: dr)
    moreover have "q + length ?u + (m - length ?u) \<le> length ?d"
      using True Suc.prems(3) by simp
    ultimately have "utf16_loop (Buf ?d) (q + length ?u) inp (i + 1) (int (m - length ?u))
      = Some (Buf (take (q + length ?u) ?d @ utf8_fit (drop (i + 1) inp) (m - length ?u) @
               drop (q + length ?u + length (utf8_fit (drop (i + 1) inp) (m - length ?u))) ?d),
          q + length ?u + length (utf8_fit (drop (i + 1) inp) (m - length ?u)))"
      using Suc.hyps True by (intro Suc.hyps(1)) auto
    with True i Suc.prems(3) show ?thesis
      by (simp add: utf16_loop_step dr Let_def of_nat_diff ac_simps)
  qed
qed

text \<open>
  C27. The UTF-8 conversion, given a zero-terminated input and an output buffer of at least
  \<open>maxlen\<close> bytes, writes the UTF-8 bytes of the longest prefix that fits, then a
  terminating zero, within the first \<open>maxlen\<close> bytes, and leaves the rest of the buffer alone.
\<close>

theorem exif_convert_utf16_to_utf8_correct:
  assumes "0 \<in> set inp" and "0 < maxlen" and "nat maxlen \<le> length d"
  shows "exif_convert_utf16_to_utf8 (Buf d) inp maxlen
           = Some (Buf (utf8_fit inp (nat maxlen) @ [0] @ drop (length (utf8_fit inp (nat maxlen)) + 1) d))
         \<and> length (utf8_fit inp (nat maxlen)) + 1 \<le> nat maxlen"
proof -
  have len: "length (utf8_fit inp (nat maxlen)) < nat maxlen"
    using assms(2) by (intro utf8_fit_length) simp
  have "utf16_loop (Buf d) 0 inp 0 maxlen
    = Some (Buf (utf8_fit inp (nat maxlen) @ drop (length (utf8_fit inp (nat maxlen))) d),
            length (utf8_fit inp (nat maxlen)))"
    using utf16_loop_eq [of 0 inp "nat maxlen" 0 d] assms by simp
  with assms len show ?thesis
    by (simp add: exif_convert_utf16_to_utf8_def wr_eq_wr_range del: wr.simps)
qed

theorem exif_convert_utf16_to_utf8_correct_witness:
  "exif_convert_utf16_to_utf8 (Buf [9, 9, 9, 9, 9]) [0x41, 0xE9, 0] 5 = Some (Buf [0x41, 0xC3, 0xA9, 0, 9])
   \<and> utf8_fit [0x41, 0xE9, 0] 5 = [0x41, 0xC3, 0xA9]"
proof -
  have "utf8_fit [0x41, 0xE9, 0] (nat 5) = [0x41, 0xC3, 0xA9]" by code_simp
  then show ?thesis
    using exif_convert_utf16_to_utf8_correct [of "[0x41, 0xE9, 0]" 5 "[9, 9, 9, 9, 9]"] by simp
qed

end
