(* ===== verification/Exif_Tag.thy ===== *)
theory Exif_Tag
  imports Exif_Utils
begin

text \<open>
  The table of EXIF tags and the lookups in it: \<^verbatim>\<open>libexifa/exif-tag.c\<close>. A row has its tag, its
  name (\<open>None\<close> in the terminating row) and its support level for every IFD and data type, in the
  order IFD 0, IFD 1, EXIF, GPS, interoperability. The titles and the descriptions of the rows
  are texts for display and are left out, and with them the functions that return them.
\<close>

section \<open>The table\<close>

datatype ExifSupportLevel = SL_UNKNOWN | SL_NOT_RECORDED | SL_MANDATORY | SL_OPTIONAL

datatype TagEntry = TagEntry (te_tag: nat) (te_name: "string option") (te_esl: "ExifSupportLevel list list")

abbreviation (input) EXIF_IFD_COUNT :: nat where "EXIF_IFD_COUNT \<equiv> 5"
abbreviation (input) EXIF_DATA_TYPE_COUNT :: nat where "EXIF_DATA_TYPE_COUNT \<equiv> 4"

definition ESL_NNNN :: "ExifSupportLevel list" where
  "ESL_NNNN = [SL_NOT_RECORDED, SL_NOT_RECORDED, SL_NOT_RECORDED, SL_NOT_RECORDED]"

definition ESL_OOOO :: "ExifSupportLevel list" where
  "ESL_OOOO = [SL_OPTIONAL, SL_OPTIONAL, SL_OPTIONAL, SL_OPTIONAL]"

definition ESL_MMMN :: "ExifSupportLevel list" where
  "ESL_MMMN = [SL_MANDATORY, SL_MANDATORY, SL_MANDATORY, SL_NOT_RECORDED]"

definition ESL_MMMM :: "ExifSupportLevel list" where
  "ESL_MMMM = [SL_MANDATORY, SL_MANDATORY, SL_MANDATORY, SL_MANDATORY]"

definition ESL_OMON :: "ExifSupportLevel list" where
  "ESL_OMON = [SL_OPTIONAL, SL_MANDATORY, SL_OPTIONAL, SL_NOT_RECORDED]"

definition ESL_NNOO :: "ExifSupportLevel list" where
  "ESL_NNOO = [SL_NOT_RECORDED, SL_NOT_RECORDED, SL_OPTIONAL, SL_OPTIONAL]"

definition ESL_NNMN :: "ExifSupportLevel list" where
  "ESL_NNMN = [SL_NOT_RECORDED, SL_NOT_RECORDED, SL_MANDATORY, SL_NOT_RECORDED]"

definition ESL_NNMM :: "ExifSupportLevel list" where
  "ESL_NNMM = [SL_NOT_RECORDED, SL_NOT_RECORDED, SL_MANDATORY, SL_MANDATORY]"

definition ESL_NNNM :: "ExifSupportLevel list" where
  "ESL_NNNM = [SL_NOT_RECORDED, SL_NOT_RECORDED, SL_NOT_RECORDED, SL_MANDATORY]"

definition ESL_NNNO :: "ExifSupportLevel list" where
  "ESL_NNNO = [SL_NOT_RECORDED, SL_NOT_RECORDED, SL_NOT_RECORDED, SL_OPTIONAL]"

definition ESL_UUUU :: "ExifSupportLevel list" where
  "ESL_UUUU = [SL_UNKNOWN, SL_UNKNOWN, SL_UNKNOWN, SL_UNKNOWN]"

definition ESL_GPS :: "ExifSupportLevel list list" where
  "ESL_GPS = [ESL_NNNN, ESL_NNNN, ESL_NNNN, ESL_OOOO, ESL_NNNN]"

definition ESL_DEF :: "ExifSupportLevel list list" where
  "ESL_DEF = [ESL_UUUU, ESL_UUUU, ESL_UUUU, ESL_UUUU, ESL_UUUU]"

definition ExifTagTable_1 :: "TagEntry list" where
  "ExifTagTable_1 = [
     TagEntry 0x0000 (Some ''GPSVersionID'') ESL_GPS,
     TagEntry 0x0001 (Some ''InteroperabilityIndex'') [ESL_NNNN, ESL_NNNN, ESL_NNNN, ESL_NNNN, ESL_OOOO],
     TagEntry 0x0001 (Some ''GPSLatitudeRef'') ESL_GPS,
     TagEntry 0x0002 (Some ''InteroperabilityVersion'') [ESL_NNNN, ESL_NNNN, ESL_NNNN, ESL_NNNN, ESL_OOOO],
     TagEntry 0x0002 (Some ''GPSLatitude'') ESL_GPS,
     TagEntry 0x0003 (Some ''GPSLongitudeRef'') ESL_GPS,
     TagEntry 0x0004 (Some ''GPSLongitude'') ESL_GPS,
     TagEntry 0x0005 (Some ''GPSAltitudeRef'') ESL_GPS,
     TagEntry 0x0006 (Some ''GPSAltitude'') ESL_GPS,
     TagEntry 0x0007 (Some ''GPSTimeStamp'') ESL_GPS,
     TagEntry 0x0008 (Some ''GPSSatellites'') ESL_GPS,
     TagEntry 0x0009 (Some ''GPSStatus'') ESL_GPS,
     TagEntry 0x000a (Some ''GPSMeasureMode'') ESL_GPS,
     TagEntry 0x000b (Some ''GPSDOP'') ESL_GPS,
     TagEntry 0x000c (Some ''GPSSpeedRef'') ESL_GPS,
     TagEntry 0x000d (Some ''GPSSpeed'') ESL_GPS,
     TagEntry 0x000e (Some ''GPSTrackRef'') ESL_GPS,
     TagEntry 0x000f (Some ''GPSTrack'') ESL_GPS,
     TagEntry 0x0010 (Some ''GPSImgDirectionRef'') ESL_GPS,
     TagEntry 0x0011 (Some ''GPSImgDirection'') ESL_GPS,
     TagEntry 0x0012 (Some ''GPSMapDatum'') ESL_GPS,
     TagEntry 0x0013 (Some ''GPSDestLatitudeRef'') ESL_GPS,
     TagEntry 0x0014 (Some ''GPSDestLatitude'') ESL_GPS,
     TagEntry 0x0015 (Some ''GPSDestLongitudeRef'') ESL_GPS,
     TagEntry 0x0016 (Some ''GPSDestLongitude'') ESL_GPS,
     TagEntry 0x0017 (Some ''GPSDestBearingRef'') ESL_GPS,
     TagEntry 0x0018 (Some ''GPSDestBearing'') ESL_GPS,
     TagEntry 0x0019 (Some ''GPSDestDistanceRef'') ESL_GPS,
     TagEntry 0x001a (Some ''GPSDestDistance'') ESL_GPS,
     TagEntry 0x001b (Some ''GPSProcessingMethod'') ESL_GPS,
     TagEntry 0x001c (Some ''GPSAreaInformation'') ESL_GPS]"

definition ExifTagTable_2 :: "TagEntry list" where
  "ExifTagTable_2 = [
     TagEntry 0x001d (Some ''GPSDateStamp'') ESL_GPS,
     TagEntry 0x001e (Some ''GPSDifferential'') ESL_GPS,
     TagEntry 0x00fe (Some ''NewSubfileType'') ESL_DEF,
     TagEntry 0x0100 (Some ''ImageWidth'') [ESL_MMMN, ESL_MMMN, ESL_NNNN, ESL_NNNN, ESL_NNNN],
     TagEntry 0x0101 (Some ''ImageLength'') [ESL_MMMN, ESL_MMMN, ESL_NNNN, ESL_NNNN, ESL_NNNN],
     TagEntry 0x0102 (Some ''BitsPerSample'') [ESL_MMMN, ESL_MMMN, ESL_NNNN, ESL_NNNN, ESL_NNNN],
     TagEntry 0x0103 (Some ''Compression'') [ESL_MMMN, ESL_MMMM, ESL_NNNN, ESL_NNNN, ESL_NNNN],
     TagEntry 0x0106 (Some ''PhotometricInterpretation'') [ESL_MMMN, ESL_MMMN, ESL_NNNN, ESL_NNNN, ESL_NNNN],
     TagEntry 0x010a (Some ''FillOrder'') ESL_DEF,
     TagEntry 0x010d (Some ''DocumentName'') ESL_DEF,
     TagEntry 0x010e (Some ''ImageDescription'') [ESL_NNNN, ESL_NNNN, ESL_NNNN, ESL_NNNN, ESL_NNNN],
     TagEntry 0x010f (Some ''Make'') [ESL_OOOO, ESL_OOOO, ESL_NNNN, ESL_NNNN, ESL_NNNN],
     TagEntry 0x0110 (Some ''Model'') [ESL_OOOO, ESL_OOOO, ESL_NNNN, ESL_NNNN, ESL_NNNN],
     TagEntry 0x0111 (Some ''StripOffsets'') [ESL_MMMN, ESL_MMMN, ESL_NNNN, ESL_NNNN, ESL_NNNN],
     TagEntry 0x0112 (Some ''Orientation'') [ESL_OOOO, ESL_OOOO, ESL_NNNN, ESL_NNNN, ESL_NNNN],
     TagEntry 0x0115 (Some ''SamplesPerPixel'') [ESL_MMMN, ESL_MMMN, ESL_NNNN, ESL_NNNN, ESL_NNNN],
     TagEntry 0x0116 (Some ''RowsPerStrip'') [ESL_MMMN, ESL_MMMN, ESL_NNNN, ESL_NNNN, ESL_NNNN],
     TagEntry 0x0117 (Some ''StripByteCounts'') [ESL_MMMN, ESL_MMMN, ESL_NNNN, ESL_NNNN, ESL_NNNN],
     TagEntry 0x011a (Some ''XResolution'') [ESL_MMMM, ESL_MMMM, ESL_NNNN, ESL_NNNN, ESL_NNNN],
     TagEntry 0x011b (Some ''YResolution'') [ESL_MMMM, ESL_MMMM, ESL_NNNN, ESL_NNNN, ESL_NNNN],
     TagEntry 0x011c (Some ''PlanarConfiguration'') [ESL_OMON, ESL_OMON, ESL_NNNN, ESL_NNNN, ESL_NNNN],
     TagEntry 0x0128 (Some ''ResolutionUnit'') [ESL_MMMM, ESL_MMMM, ESL_NNNN, ESL_NNNN, ESL_NNNN],
     TagEntry 0x012d (Some ''TransferFunction'') [ESL_OOOO, ESL_OOOO, ESL_NNNN, ESL_NNNN, ESL_NNNN],
     TagEntry 0x0131 (Some ''Software'') [ESL_OOOO, ESL_OOOO, ESL_NNNN, ESL_NNNN, ESL_NNNN],
     TagEntry 0x0132 (Some ''DateTime'') [ESL_OOOO, ESL_OOOO, ESL_NNNN, ESL_NNNN, ESL_NNNN],
     TagEntry 0x013b (Some ''Artist'') [ESL_NNNN, ESL_NNNN, ESL_NNNN, ESL_NNNN, ESL_NNNN]]"

definition ExifTagTable_3 :: "TagEntry list" where
  "ExifTagTable_3 = [
     TagEntry 0x013e (Some ''WhitePoint'') [ESL_OOOO, ESL_OOOO, ESL_NNNN, ESL_NNNN, ESL_NNNN],
     TagEntry 0x013f (Some ''PrimaryChromaticities'') [ESL_OOOO, ESL_OOOO, ESL_NNNN, ESL_NNNN, ESL_NNNN],
     TagEntry 0x014a (Some ''SubIFDs'') ESL_DEF,
     TagEntry 0x0156 (Some ''TransferRange'') ESL_DEF,
     TagEntry 0x0200 (Some ''JPEGProc'') ESL_DEF,
     TagEntry 0x0201 (Some ''JPEGInterchangeFormat'') [ESL_NNNN, ESL_NNNM, ESL_NNNN, ESL_NNNN, ESL_NNNN],
     TagEntry 0x0202 (Some ''JPEGInterchangeFormatLength'') [ESL_NNNN, ESL_NNNM, ESL_NNNN, ESL_NNNN, ESL_NNNN],
     TagEntry 0x0211 (Some ''YCbCrCoefficients'') [ESL_NNOO, ESL_NNOO, ESL_NNNN, ESL_NNNN, ESL_NNNN],
     TagEntry 0x0212 (Some ''YCbCrSubSampling'') [ESL_NNMN, ESL_NNMN, ESL_NNNN, ESL_NNNN, ESL_NNNN],
     TagEntry 0x0213 (Some ''YCbCrPositioning'') [ESL_NNMM, ESL_NNOO, ESL_NNNN, ESL_NNNN, ESL_NNNN],
     TagEntry 0x0214 (Some ''ReferenceBlackWhite'') [ESL_OOOO, ESL_OOOO, ESL_NNNN, ESL_NNNN, ESL_NNNN],
     TagEntry 0x02bc (Some ''XMLPacket'') ESL_DEF,
     TagEntry 0x1000 (Some ''RelatedImageFileFormat'') ESL_DEF,
     TagEntry 0x1001 (Some ''RelatedImageWidth'') ESL_DEF,
     TagEntry 0x1002 (Some ''RelatedImageLength'') ESL_DEF,
     TagEntry 0x828d (Some ''CFARepeatPatternDim'') ESL_DEF,
     TagEntry 0x828e (Some ''CFAPattern'') ESL_DEF,
     TagEntry 0x828f (Some ''BatteryLevel'') ESL_DEF,
     TagEntry 0x8298 (Some ''Copyright'') [ESL_NNNN, ESL_NNNN, ESL_NNNN, ESL_NNNN, ESL_NNNN],
     TagEntry 0x829a (Some ''ExposureTime'') [ESL_NNNN, ESL_NNNN, ESL_OOOO, ESL_NNNN, ESL_NNNN],
     TagEntry 0x829d (Some ''FNumber'') [ESL_NNNN, ESL_NNNN, ESL_OOOO, ESL_NNNN, ESL_NNNN]]"

definition ExifTagTable_4 :: "TagEntry list" where
  "ExifTagTable_4 = [
     TagEntry 0x83bb (Some ''IPTC/NAA'') ESL_DEF,
     TagEntry 0x8649 (Some ''ImageResources'') ESL_DEF,
     TagEntry 0x8769 (Some ''ExifIfdPointer'') [ESL_NNNN, ESL_NNNN, ESL_NNNN, ESL_NNNN, ESL_NNNN],
     TagEntry 0x8773 (Some ''InterColorProfile'') ESL_DEF,
     TagEntry 0x8822 (Some ''ExposureProgram'') [ESL_NNNN, ESL_NNNN, ESL_OOOO, ESL_NNNN, ESL_NNNN],
     TagEntry 0x8824 (Some ''SpectralSensitivity'') [ESL_NNNN, ESL_NNNN, ESL_OOOO, ESL_NNNN, ESL_NNNN],
     TagEntry 0x8825 (Some ''GPSInfoIFDPointer'') [ESL_NNNN, ESL_NNNN, ESL_NNNN, ESL_NNNN, ESL_NNNN],
     TagEntry 0x8827 (Some ''ISOSpeedRatings'') [ESL_NNNN, ESL_NNNN, ESL_OOOO, ESL_NNNN, ESL_NNNN],
     TagEntry 0x8828 (Some ''OECF'') [ESL_NNNN, ESL_NNNN, ESL_OOOO, ESL_NNNN, ESL_NNNN],
     TagEntry 0x882a (Some ''TimeZoneOffset'') ESL_DEF,
     TagEntry 0x9000 (Some ''ExifVersion'') [ESL_NNNN, ESL_NNNN, ESL_MMMM, ESL_NNNN, ESL_NNNN],
     TagEntry 0x9003 (Some ''DateTimeOriginal'') [ESL_NNNN, ESL_NNNN, ESL_OOOO, ESL_NNNN, ESL_NNNN],
     TagEntry 0x9004 (Some ''DateTimeDigitized'') [ESL_NNNN, ESL_NNNN, ESL_OOOO, ESL_NNNN, ESL_NNNN],
     TagEntry 0x9101 (Some ''ComponentsConfiguration'') [ESL_NNNN, ESL_NNNN, ESL_NNNM, ESL_NNNN, ESL_NNNN],
     TagEntry 0x9102 (Some ''CompressedBitsPerPixel'') [ESL_NNNN, ESL_NNNN, ESL_NNNO, ESL_NNNN, ESL_NNNN],
     TagEntry 0x9201 (Some ''ShutterSpeedValue'') [ESL_NNNN, ESL_NNNN, ESL_OOOO, ESL_NNNN, ESL_NNNN],
     TagEntry 0x9202 (Some ''ApertureValue'') [ESL_NNNN, ESL_NNNN, ESL_OOOO, ESL_NNNN, ESL_NNNN],
     TagEntry 0x9203 (Some ''BrightnessValue'') [ESL_NNNN, ESL_NNNN, ESL_OOOO, ESL_NNNN, ESL_NNNN],
     TagEntry 0x9204 (Some ''ExposureBiasValue'') [ESL_NNNN, ESL_NNNN, ESL_OOOO, ESL_NNNN, ESL_NNNN],
     TagEntry 0x9205 (Some ''MaxApertureValue'') [ESL_NNNN, ESL_NNNN, ESL_OOOO, ESL_NNNN, ESL_NNNN],
     TagEntry 0x9206 (Some ''SubjectDistance'') [ESL_NNNN, ESL_NNNN, ESL_NNNN, ESL_NNNN, ESL_NNNN],
     TagEntry 0x9207 (Some ''MeteringMode'') [ESL_NNNN, ESL_NNNN, ESL_OOOO, ESL_NNNN, ESL_NNNN],
     TagEntry 0x9208 (Some ''LightSource'') [ESL_NNNN, ESL_NNNN, ESL_OOOO, ESL_NNNN, ESL_NNNN],
     TagEntry 0x9209 (Some ''Flash'') [ESL_NNNN, ESL_NNNN, ESL_OOOO, ESL_NNNN, ESL_NNNN],
     TagEntry 0x920a (Some ''FocalLength'') [ESL_NNNN, ESL_NNNN, ESL_OOOO, ESL_NNNN, ESL_NNNN],
     TagEntry 0x9214 (Some ''SubjectArea'') [ESL_NNNN, ESL_NNNN, ESL_OOOO, ESL_NNNN, ESL_NNNN],
     TagEntry 0x9216 (Some ''TIFF/EPStandardID'') ESL_DEF,
     TagEntry 0x927c (Some ''MakerNote'') [ESL_NNNN, ESL_NNNN, ESL_OOOO, ESL_NNNN, ESL_NNNN]]"

definition ExifTagTable_5 :: "TagEntry list" where
  "ExifTagTable_5 = [
     TagEntry 0x9286 (Some ''UserComment'') [ESL_NNNN, ESL_NNNN, ESL_OOOO, ESL_NNNN, ESL_NNNN],
     TagEntry 0x9290 (Some ''SubsecTime'') [ESL_NNNN, ESL_NNNN, ESL_OOOO, ESL_NNNN, ESL_NNNN],
     TagEntry 0x9291 (Some ''SubSecTimeOriginal'') [ESL_NNNN, ESL_NNNN, ESL_OOOO, ESL_NNNN, ESL_NNNN],
     TagEntry 0x9292 (Some ''SubSecTimeDigitized'') [ESL_NNNN, ESL_NNNN, ESL_OOOO, ESL_NNNN, ESL_NNNN],
     TagEntry 0x9c9b (Some ''XPTitle'') [ESL_OOOO, ESL_NNNN, ESL_NNNN, ESL_NNNN, ESL_NNNN],
     TagEntry 0x9c9c (Some ''XPComment'') [ESL_OOOO, ESL_NNNN, ESL_NNNN, ESL_NNNN, ESL_NNNN],
     TagEntry 0x9c9d (Some ''XPAuthor'') [ESL_OOOO, ESL_NNNN, ESL_NNNN, ESL_NNNN, ESL_NNNN],
     TagEntry 0x9c9e (Some ''XPKeywords'') [ESL_OOOO, ESL_NNNN, ESL_NNNN, ESL_NNNN, ESL_NNNN],
     TagEntry 0x9c9f (Some ''XPSubject'') [ESL_OOOO, ESL_NNNN, ESL_NNNN, ESL_NNNN, ESL_NNNN],
     TagEntry 0xa000 (Some ''FlashPixVersion'') [ESL_NNNN, ESL_NNNN, ESL_MMMM, ESL_NNNN, ESL_NNNN],
     TagEntry 0xa001 (Some ''ColorSpace'') [ESL_NNNN, ESL_NNNN, ESL_MMMM, ESL_NNNN, ESL_NNNN],
     TagEntry 0xa002 (Some ''PixelXDimension'') [ESL_NNNN, ESL_NNNN, ESL_NNNM, ESL_NNNN, ESL_NNNN],
     TagEntry 0xa003 (Some ''PixelYDimension'') [ESL_NNNN, ESL_NNNN, ESL_NNNM, ESL_NNNN, ESL_NNNN],
     TagEntry 0xa004 (Some ''RelatedSoundFile'') [ESL_NNNN, ESL_NNNN, ESL_OOOO, ESL_NNNN, ESL_NNNN],
     TagEntry 0xa005 (Some ''InteroperabilityIFDPointer'') [ESL_NNNN, ESL_NNNN, ESL_NNNN, ESL_NNNN, ESL_NNNN],
     TagEntry 0xa20b (Some ''FlashEnergy'') [ESL_NNNN, ESL_NNNN, ESL_OOOO, ESL_NNNN, ESL_NNNN],
     TagEntry 0xa20c (Some ''SpatialFrequencyResponse'') [ESL_NNNN, ESL_NNNN, ESL_OOOO, ESL_NNNN, ESL_NNNN]]"

definition ExifTagTable_6 :: "TagEntry list" where
  "ExifTagTable_6 = [
     TagEntry 0xa20e (Some ''FocalPlaneXResolution'') [ESL_NNNN, ESL_NNNN, ESL_OOOO, ESL_NNNN, ESL_NNNN],
     TagEntry 0xa20f (Some ''FocalPlaneYResolution'') [ESL_NNNN, ESL_NNNN, ESL_OOOO, ESL_NNNN, ESL_NNNN],
     TagEntry 0xa210 (Some ''FocalPlaneResolutionUnit'') [ESL_NNNN, ESL_NNNN, ESL_OOOO, ESL_NNNN, ESL_NNNN],
     TagEntry 0xa214 (Some ''SubjectLocation'') [ESL_NNNN, ESL_NNNN, ESL_OOOO, ESL_NNNN, ESL_NNNN],
     TagEntry 0xa215 (Some ''ExposureIndex'') [ESL_NNNN, ESL_NNNN, ESL_OOOO, ESL_NNNN, ESL_NNNN],
     TagEntry 0xa217 (Some ''SensingMethod'') [ESL_NNNN, ESL_NNNN, ESL_OOOO, ESL_NNNN, ESL_NNNN],
     TagEntry 0xa300 (Some ''FileSource'') [ESL_NNNN, ESL_NNNN, ESL_NNNN, ESL_NNNN, ESL_NNNN],
     TagEntry 0xa301 (Some ''SceneType'') [ESL_NNNN, ESL_NNNN, ESL_OOOO, ESL_NNNN, ESL_NNNN],
     TagEntry 0xa302 (Some ''CFAPattern'') [ESL_NNNN, ESL_NNNN, ESL_OOOO, ESL_NNNN, ESL_NNNN],
     TagEntry 0xa401 (Some ''CustomRendered'') [ESL_NNNN, ESL_NNNN, ESL_NNNN, ESL_NNNN, ESL_NNNN],
     TagEntry 0xa402 (Some ''ExposureMode'') [ESL_NNNN, ESL_NNNN, ESL_OOOO, ESL_NNNN, ESL_NNNN],
     TagEntry 0xa403 (Some ''WhiteBalance'') [ESL_NNNN, ESL_NNNN, ESL_OOOO, ESL_NNNN, ESL_NNNN],
     TagEntry 0xa404 (Some ''DigitalZoomRatio'') [ESL_NNNN, ESL_NNNN, ESL_OOOO, ESL_NNNN, ESL_NNNN],
     TagEntry 0xa405 (Some ''FocalLengthIn35mmFilm'') [ESL_NNNN, ESL_NNNN, ESL_OOOO, ESL_NNNN, ESL_NNNN],
     TagEntry 0xa406 (Some ''SceneCaptureType'') [ESL_NNNN, ESL_NNNN, ESL_OOOO, ESL_NNNN, ESL_NNNN],
     TagEntry 0xa407 (Some ''GainControl'') [ESL_NNNN, ESL_NNNN, ESL_OOOO, ESL_NNNN, ESL_NNNN],
     TagEntry 0xa408 (Some ''Contrast'') [ESL_NNNN, ESL_NNNN, ESL_OOOO, ESL_NNNN, ESL_NNNN],
     TagEntry 0xa409 (Some ''Saturation'') [ESL_NNNN, ESL_NNNN, ESL_OOOO, ESL_NNNN, ESL_NNNN],
     TagEntry 0xa40a (Some ''Sharpness'') [ESL_NNNN, ESL_NNNN, ESL_OOOO, ESL_NNNN, ESL_NNNN],
     TagEntry 0xa40b (Some ''DeviceSettingDescription'') [ESL_NNNN, ESL_NNNN, ESL_OOOO, ESL_NNNN, ESL_NNNN],
     TagEntry 0xa40c (Some ''SubjectDistanceRange'') [ESL_NNNN, ESL_NNNN, ESL_OOOO, ESL_NNNN, ESL_NNNN],
     TagEntry 0xa420 (Some ''ImageUniqueID'') [ESL_NNNN, ESL_NNNN, ESL_OOOO, ESL_NNNN, ESL_NNNN],
     TagEntry 0xa500 (Some ''Gamma'') ESL_DEF,
     TagEntry 0xc4a5 (Some ''PrintImageMatching'') ESL_DEF,
     TagEntry 0xea1c (Some ''Padding'') [ESL_OOOO, ESL_NNNN, ESL_OOOO, ESL_NNNN, ESL_NNNN]]"

definition ExifTagTable :: "TagEntry list" where
  "ExifTagTable = ExifTagTable_1 @ ExifTagTable_2 @ ExifTagTable_3 @ ExifTagTable_4 @ ExifTagTable_5 @ ExifTagTable_6
     @ [TagEntry 0 None ESL_DEF]"

section \<open>Lookups\<close>

definition exif_tag_table_count :: nat where
  "exif_tag_table_count = length ExifTagTable"

definition exif_tag_table_get_tag :: "nat \<Rightarrow> nat" where
  "exif_tag_table_get_tag n = (if n < exif_tag_table_count then te_tag (ExifTagTable ! n) else 0)"

definition exif_tag_table_get_name :: "nat \<Rightarrow> string option" where
  "exif_tag_table_get_name n = (if n < exif_tag_table_count then te_name (ExifTagTable ! n) else None)"

definition match_tag :: "nat \<Rightarrow> TagEntry \<Rightarrow> int" where
  "match_tag tag e = int tag - int (te_tag e)"

text \<open>
  \<open>bsearch\<close> of the C library: \<open>lim\<close> elements are left from index \<open>base\<close>; the middle one is
  compared, and the search goes on in the half before it or after it.
\<close>

function bsearch :: "(TagEntry \<Rightarrow> int) \<Rightarrow> TagEntry list \<Rightarrow> nat \<Rightarrow> nat \<Rightarrow> nat option" where
  "bsearch cmp t base lim =
    (if lim = 0 then None
     else let p = base + lim div 2; c = cmp (t ! p) in
       if c = 0 then Some p
       else if c > 0 then bsearch cmp t (p + 1) ((lim - 1) div 2)
       else bsearch cmp t base (lim div 2))"
  by pat_completeness auto
termination by (relation "measure (\<lambda>(_, _, _, lim). lim)") auto

declare bsearch.simps [simp del]

text \<open>\<open>while ((i > 0) && (ExifTagTable[i-1].tag == tag)) --i;\<close>\<close>

fun step_back :: "TagEntry list \<Rightarrow> nat \<Rightarrow> nat \<Rightarrow> nat" where
  "step_back t tag 0 = 0"
| "step_back t tag (Suc i) = (if te_tag (t ! i) = tag then step_back t tag i else Suc i)"

definition table_first :: "TagEntry list \<Rightarrow> nat \<Rightarrow> nat option" where
  "table_first t tag = map_option (step_back t tag) (bsearch (match_tag tag) t 0 (length t - 1))"

definition exif_tag_table_first :: "nat \<Rightarrow> int" where
  "exif_tag_table_first tag = (case table_first ExifTagTable tag of None \<Rightarrow> -1 | Some i \<Rightarrow> int i)"

definition RECORDED :: "nat \<Rightarrow> TagEntry \<Rightarrow> bool" where
  "RECORDED ifd e \<longleftrightarrow> te_esl e ! ifd ! 0 \<noteq> SL_NOT_RECORDED \<or> te_esl e ! ifd ! 1 \<noteq> SL_NOT_RECORDED \<or>
     te_esl e ! ifd ! 2 \<noteq> SL_NOT_RECORDED \<or> te_esl e ! ifd ! 3 \<noteq> SL_NOT_RECORDED"

text \<open>The loop from the first row of a tag on, over the rest of the table.\<close>

fun name_loop :: "nat \<Rightarrow> nat \<Rightarrow> TagEntry list \<Rightarrow> string option" where
  "name_loop tag ifd [] = None"
| "name_loop tag ifd (e # es) =
    (if te_name e = None then None
     else if te_tag e = tag then if RECORDED ifd e then te_name e else name_loop tag ifd es
     else None)"

definition exif_tag_get_name_in_ifd :: "nat \<Rightarrow> nat \<Rightarrow> string option" where
  "exif_tag_get_name_in_ifd tag ifd =
    (if ifd \<ge> EXIF_IFD_COUNT then None
     else case table_first ExifTagTable tag of
       None \<Rightarrow> None
     | Some first \<Rightarrow> name_loop tag ifd (drop first ExifTagTable))"

definition exif_tag_get_stuff :: "nat \<Rightarrow> (nat \<Rightarrow> nat \<Rightarrow> string option) \<Rightarrow> string option" where
  "exif_tag_get_stuff tag func =
    (case filter (\<lambda>r. r \<noteq> None) (map (func tag) [2, 0, 1, 4, 3]) of [] \<Rightarrow> None | r # _ \<Rightarrow> r)"

definition exif_tag_get_name :: "nat \<Rightarrow> string option" where
  "exif_tag_get_name tag = exif_tag_get_stuff tag exif_tag_get_name_in_ifd"

text \<open>A null name is \<open>None\<close>; the loop stops at the terminating row.\<close>

definition exif_tag_from_name :: "string option \<Rightarrow> nat" where
  "exif_tag_from_name name =
    (case name of
       None \<Rightarrow> 0
     | Some s \<Rightarrow> (case find (\<lambda>e. te_name e = Some s) (takeWhile (\<lambda>e. te_name e \<noteq> None) ExifTagTable) of
         None \<Rightarrow> 0 | Some e \<Rightarrow> te_tag e))"

fun level_loop :: "nat \<Rightarrow> nat \<Rightarrow> nat \<Rightarrow> TagEntry list \<Rightarrow> ExifSupportLevel" where
  "level_loop tag ifd t [] = SL_NOT_RECORDED"
| "level_loop tag ifd t (e # es) =
    (if te_name e = None then SL_NOT_RECORDED
     else if te_tag e = tag
     then if te_esl e ! ifd ! t \<noteq> SL_NOT_RECORDED then te_esl e ! ifd ! t else level_loop tag ifd t es
     else SL_NOT_RECORDED)"

definition get_support_level_in_ifd :: "nat \<Rightarrow> nat \<Rightarrow> nat \<Rightarrow> ExifSupportLevel" where
  "get_support_level_in_ifd tag ifd t =
    (case table_first ExifTagTable tag of
       None \<Rightarrow> SL_NOT_RECORDED
     | Some first \<Rightarrow> level_loop tag ifd t (drop first ExifTagTable))"

fun any_loop :: "nat \<Rightarrow> nat \<Rightarrow> TagEntry list \<Rightarrow> ExifSupportLevel" where
  "any_loop tag ifd [] = SL_UNKNOWN"
| "any_loop tag ifd (e # es) =
    (if te_name e = None then SL_UNKNOWN
     else if te_tag e = tag
     then let supp = te_esl e ! ifd ! 0 in
          if supp \<noteq> SL_NOT_RECORDED \<and> (\<forall>dt < EXIF_DATA_TYPE_COUNT. te_esl e ! ifd ! dt = supp)
          then supp else any_loop tag ifd es
     else SL_UNKNOWN)"

definition get_support_level_any_type :: "nat \<Rightarrow> nat \<Rightarrow> ExifSupportLevel" where
  "get_support_level_any_type tag ifd =
    (case table_first ExifTagTable tag of
       None \<Rightarrow> SL_UNKNOWN
     | Some first \<Rightarrow> any_loop tag ifd (drop first ExifTagTable))"

definition exif_tag_get_support_level_in_ifd :: "nat \<Rightarrow> nat \<Rightarrow> nat \<Rightarrow> ExifSupportLevel" where
  "exif_tag_get_support_level_in_ifd tag ifd t =
    (if ifd \<ge> EXIF_IFD_COUNT then SL_UNKNOWN
     else if t \<ge> EXIF_DATA_TYPE_COUNT then get_support_level_any_type tag ifd
     else get_support_level_in_ifd tag ifd t)"

text \<open>The rows without the terminating one, and the rule of the table for two rows of one tag.\<close>

definition rows :: "TagEntry list" where
  "rows = ExifTagTable_1 @ ExifTagTable_2 @ ExifTagTable_3 @ ExifTagTable_4 @ ExifTagTable_5 @ ExifTagTable_6"

definition disjoint_levels :: "TagEntry \<Rightarrow> TagEntry \<Rightarrow> bool" where
  "disjoint_levels e e' \<longleftrightarrow>
    (\<forall>ifd < EXIF_IFD_COUNT. \<forall>t < EXIF_DATA_TYPE_COUNT.
       te_esl e ! ifd ! t = SL_NOT_RECORDED \<or> te_esl e' ! ifd ! t = SL_NOT_RECORDED)"

section \<open>The search is the search for the first row\<close>

lemma sorted_nth_le: "sorted (map te_tag t) \<Longrightarrow> i \<le> j \<Longrightarrow> j < length t \<Longrightarrow> te_tag (t ! i) \<le> te_tag (t ! j)"
  using sorted_nth_mono [of "map te_tag t" i j] by simp

text \<open>On sorted rows \<open>bsearch\<close> finds a row with the tag in its range if and only if there is one.\<close>

lemma bsearch_sound:
  "bsearch (match_tag tag) t base lim = Some i \<Longrightarrow> base \<le> i \<and> i < base + lim \<and> te_tag (t ! i) = tag"
proof (induction "match_tag tag" t base lim rule: bsearch.induct)
  case (1 t base lim)
  then show ?case
    by (subst (asm) (3) bsearch.simps) (fastforce simp: Let_def match_tag_def split: if_splits)
qed

lemma bsearch_complete:
  assumes "sorted (map te_tag (take n t))" and "base + lim \<le> n" and "n \<le> length t"
    and "base \<le> k" and "k < base + lim" and "te_tag (t ! k) = tag"
  shows "bsearch (match_tag tag) t base lim \<noteq> None"
  using assms
proof (induction "match_tag tag" t base lim rule: bsearch.induct)
  case (1 t base lim)
  let ?p = "base + lim div 2"
  have p: "?p < n" using 1 by auto
  have mono: "te_tag (t ! i) \<le> te_tag (t ! j)" if "i \<le> j" "j < n" for i j
    using sorted_nth_le [OF 1(3), of i j] that 1(5) by simp
  show ?case
  proof (cases "te_tag (t ! ?p)" tag rule: linorder_cases)
    case less
    then have "?p < k" using mono [of k ?p] p 1(8) by (metis not_le leD)
    then have "bsearch (match_tag tag) t (?p + 1) ((lim - 1) div 2) \<noteq> None"
      using less 1 by (intro 1(1)) (auto simp: match_tag_def)
    then show ?thesis using less 1(6,7) by (subst bsearch.simps) (auto simp: Let_def match_tag_def)
  next
    case equal
    then show ?thesis using 1(6,7) by (subst bsearch.simps) (auto simp: Let_def match_tag_def)
  next
    case greater
    then have "k < ?p" using mono [of ?p k] 1(4,7,8) by (metis not_le leD less_le_trans)
    then have "bsearch (match_tag tag) t base (lim div 2) \<noteq> None"
      using greater 1 by (intro 1(2)) (auto simp: match_tag_def)
    then show ?thesis using greater 1(6,7) by (subst bsearch.simps) (auto simp: Let_def match_tag_def)
  qed
qed


lemma step_back_first:
  assumes "sorted (map te_tag (take n t))" and "i < n" and "n \<le> length t" and "te_tag (t ! i) = tag"
  shows "te_tag (t ! step_back t tag i) = tag \<and> step_back t tag i \<le> i \<and> (\<forall>k < step_back t tag i. te_tag (t ! k) < tag)"
  using assms(2,4)
proof (induction i)
  case 0
  then show ?case by simp
next
  case (Suc i)
  show ?case
  proof (cases "te_tag (t ! i) = tag")
    case True
    then show ?thesis using Suc by auto
  next
    case False
    have mono: "te_tag (t ! k) \<le> te_tag (t ! j)" if "k \<le> j" "j < n" for k j
      using sorted_nth_le [OF assms(1), of k j] that assms(3) by simp
    have "te_tag (t ! k) < tag" if "k < Suc i" for k
      using mono [of k i] mono [of i "Suc i"] Suc.prems False that by simp
    with False Suc.prems show ?thesis by simp
  qed
qed

lemma table_first_spec:
  assumes "sorted (map te_tag (butlast t))" and "t \<noteq> []"
  shows "table_first t tag = (if tag \<in> te_tag ` set (butlast t)
     then Some (length (takeWhile (\<lambda>e. te_tag e \<noteq> tag) (butlast t))) else None)"
proof -
  let ?n = "length t - 1"
  have bt: "butlast t = take ?n t" by (simp add: butlast_conv_take)
  have srt: "sorted (map te_tag (take ?n t))" using assms(1) by (simp add: bt)
  show ?thesis
  proof (cases "tag \<in> te_tag ` set (butlast t)")
    case False
    have "bsearch (match_tag tag) t 0 ?n = None"
    proof (rule ccontr)
      assume "bsearch (match_tag tag) t 0 ?n \<noteq> None"
      then obtain i where "i < ?n" "te_tag (t ! i) = tag" using bsearch_sound [of tag t 0 ?n] by auto
      then have "t ! i \<in> set (butlast t)" "te_tag (t ! i) = tag"
        using nth_mem [of i "take ?n t"] by (auto simp: bt)
      with False show False by auto
    qed
    with False show ?thesis by (simp add: table_first_def)
  next
    case True
    then obtain k where k: "k < ?n" "te_tag (t ! k) = tag" by (auto simp: bt in_set_conv_nth image_iff)
    then obtain i where i: "bsearch (match_tag tag) t 0 ?n = Some i"
      using bsearch_complete [OF srt, of 0 ?n k tag] by auto
    then have "i < ?n" "te_tag (t ! i) = tag" using bsearch_sound [OF i] by auto
    note f = step_back_first [OF srt this(1) _ this(2), simplified]
    let ?j = "step_back t tag i"
    have j: "?j < ?n" "te_tag (t ! ?j) = tag" "\<And>m. m < ?j \<Longrightarrow> te_tag (t ! m) < tag"
      using f \<open>i < ?n\<close> by auto
    have "takeWhile (\<lambda>e. te_tag e \<noteq> tag) (butlast t) = take ?j (butlast t)"
      unfolding bt using j by (intro takeWhile_eq_take_P_nth) auto
    then have "length (takeWhile (\<lambda>e. te_tag e \<noteq> tag) (butlast t)) = ?j"
      using j(1) by (simp add: bt)
    then show ?thesis using True i by (simp add: table_first_def)
  qed
qed


lemma drop_takeWhile_length: "drop (length (takeWhile P xs)) xs = dropWhile P xs"
  by (induction xs) auto

text \<open>The rows of a tag are next to each other, and the loops stop behind them.\<close>

lemma name_loop_find:
  assumes "sorted (map te_tag es)" and "\<forall>e \<in> set es. tag \<le> te_tag e \<and> te_name e \<noteq> None"
  shows "name_loop tag ifd (es @ [TagEntry 0 None l])
     = Option.bind (find (\<lambda>e. te_tag e = tag \<and> RECORDED ifd e) es) te_name"
  using assms
proof (induction es)
  case Nil
  then show ?case by simp
next
  case (Cons e es)
  show ?case
  proof (cases "te_tag e = tag")
    case True
    then show ?thesis using Cons by auto
  next
    case False
    then have "\<forall>e' \<in> set es. te_tag e' \<noteq> tag" using Cons.prems by (fastforce simp: le_less)
    then have "find (\<lambda>e. te_tag e = tag \<and> RECORDED ifd e) es = None" by (auto simp: find_None_iff)
    with False Cons.prems show ?thesis by simp
  qed
qed

lemma level_loop_find:
  assumes "sorted (map te_tag es)" and "\<forall>e \<in> set es. tag \<le> te_tag e \<and> te_name e \<noteq> None"
  shows "level_loop tag ifd t (es @ [TagEntry 0 None l])
     = (case find (\<lambda>e. te_tag e = tag \<and> te_esl e ! ifd ! t \<noteq> SL_NOT_RECORDED) es of
          None \<Rightarrow> SL_NOT_RECORDED | Some e \<Rightarrow> te_esl e ! ifd ! t)"
  using assms
proof (induction es)
  case Nil
  then show ?case by simp
next
  case (Cons e es)
  show ?case
  proof (cases "te_tag e = tag")
    case True
    then show ?thesis using Cons by auto
  next
    case False
    then have "\<forall>e' \<in> set es. te_tag e' \<noteq> tag" using Cons.prems by (fastforce simp: le_less)
    then have "find (\<lambda>e. te_tag e = tag \<and> te_esl e ! ifd ! t \<noteq> SL_NOT_RECORDED) es = None"
      by (auto simp: find_None_iff)
    with False Cons.prems show ?thesis by simp
  qed
qed

lemma find_dropWhile: "(\<And>e. P e \<Longrightarrow> te_tag e = tag) \<Longrightarrow> find P (dropWhile (\<lambda>e. te_tag e \<noteq> tag) xs) = find P xs"
  by (induction xs) auto

lemma dropWhile_ge:
  "sorted (map te_tag xs) \<Longrightarrow> e \<in> set (dropWhile (\<lambda>e. te_tag e \<noteq> tag) xs) \<Longrightarrow> tag \<le> te_tag e"
  by (induction xs) (auto split: if_splits)

section \<open>The table\<close>

lemma ExifTagTable_rows: "ExifTagTable = rows @ [TagEntry 0 None ESL_DEF]"
  by (simp add: ExifTagTable_def rows_def)

lemmas chunks = ExifTagTable_1_def ExifTagTable_2_def ExifTagTable_3_def ExifTagTable_4_def ExifTagTable_5_def
  ExifTagTable_6_def

lemma tags_1: "map te_tag ExifTagTable_1 = [0x0000, 0x0001, 0x0001, 0x0002, 0x0002, 0x0003, 0x0004, 0x0005, 0x0006, 0x0007, 0x0008, 0x0009, 0x000a, 0x000b, 0x000c, 0x000d, 0x000e, 0x000f, 0x0010, 0x0011, 0x0012, 0x0013, 0x0014, 0x0015, 0x0016, 0x0017, 0x0018, 0x0019, 0x001a, 0x001b, 0x001c]"
  unfolding ExifTagTable_1_def by simp

lemma tags_2: "map te_tag ExifTagTable_2 = [0x001d, 0x001e, 0x00fe, 0x0100, 0x0101, 0x0102, 0x0103, 0x0106, 0x010a, 0x010d, 0x010e, 0x010f, 0x0110, 0x0111, 0x0112, 0x0115, 0x0116, 0x0117, 0x011a, 0x011b, 0x011c, 0x0128, 0x012d, 0x0131, 0x0132, 0x013b]"
  unfolding ExifTagTable_2_def by simp

lemma tags_3: "map te_tag ExifTagTable_3 = [0x013e, 0x013f, 0x014a, 0x0156, 0x0200, 0x0201, 0x0202, 0x0211, 0x0212, 0x0213, 0x0214, 0x02bc, 0x1000, 0x1001, 0x1002, 0x828d, 0x828e, 0x828f, 0x8298, 0x829a, 0x829d]"
  unfolding ExifTagTable_3_def by simp

lemma tags_4: "map te_tag ExifTagTable_4 = [0x83bb, 0x8649, 0x8769, 0x8773, 0x8822, 0x8824, 0x8825, 0x8827, 0x8828, 0x882a, 0x9000, 0x9003, 0x9004, 0x9101, 0x9102, 0x9201, 0x9202, 0x9203, 0x9204, 0x9205, 0x9206, 0x9207, 0x9208, 0x9209, 0x920a, 0x9214, 0x9216, 0x927c]"
  unfolding ExifTagTable_4_def by simp

lemma tags_5: "map te_tag ExifTagTable_5 = [0x9286, 0x9290, 0x9291, 0x9292, 0x9c9b, 0x9c9c, 0x9c9d, 0x9c9e, 0x9c9f, 0xa000, 0xa001, 0xa002, 0xa003, 0xa004, 0xa005, 0xa20b, 0xa20c]"
  unfolding ExifTagTable_5_def by simp

lemma tags_6: "map te_tag ExifTagTable_6 = [0xa20e, 0xa20f, 0xa210, 0xa214, 0xa215, 0xa217, 0xa300, 0xa301, 0xa302, 0xa401, 0xa402, 0xa403, 0xa404, 0xa405, 0xa406, 0xa407, 0xa408, 0xa409, 0xa40a, 0xa40b, 0xa40c, 0xa420, 0xa500, 0xc4a5, 0xea1c]"
  unfolding ExifTagTable_6_def by simp

lemma rows_sorted: "sorted (map te_tag rows)"
  unfolding rows_def map_append tags_1 tags_2 tags_3 tags_4 tags_5 tags_6
  by (simp add: sorted2 sorted1 del: sorted_wrt.simps(2))

lemma rows_named: "\<forall>e \<in> set rows. te_name e \<noteq> None"
  unfolding rows_def chunks by simp

text \<open>
  The tags after the first five rows are all different, and the first five (tag 0 once, tags 1 and 2
  twice each) are for the interoperability IFD or for the GPS IFD.
\<close>

lemma rows_tail_strict: "sorted_wrt (<) (map te_tag (drop 5 rows))"
proof -
  have "drop 5 (map te_tag rows) = drop 5 (map te_tag ExifTagTable_1) @ map te_tag ExifTagTable_2 @ map te_tag ExifTagTable_3
      @ map te_tag ExifTagTable_4 @ map te_tag ExifTagTable_5 @ map te_tag ExifTagTable_6"
    unfolding rows_def map_append tags_1 by simp
  then show ?thesis
    unfolding drop_map [symmetric] tags_1 tags_2 tags_3 tags_4 tags_5 tags_6
    by (simp add: sorted_wrt2 sorted_wrt1 del: sorted_wrt.simps(2))
qed

lemma rows_head: "\<exists>e0 a b c d. take 5 rows = [e0, a, b, c, d] \<and> map te_tag [e0, a, b, c, d] = [0, 1, 1, 2, 2]
   \<and> disjoint_levels a b \<and> disjoint_levels c d"
proof -
  have "take 5 rows = take 5 ExifTagTable_1" by (simp add: rows_def ExifTagTable_1_def)
  then show ?thesis
    by (simp add: ExifTagTable_1_def disjoint_levels_def All_less_Suc numeral_eq_Suc ESL_GPS_def ESL_NNNN_def ESL_OOOO_def)
qed

lemma rows_tail_gt: "x \<in> set (drop 5 rows) \<Longrightarrow> 2 < te_tag x"
proof -
  assume x: "x \<in> set (drop 5 rows)"
  have hd: "\<exists>r rs. drop 5 rows = r # rs \<and> te_tag r = 3"
    by (simp add: rows_def ExifTagTable_1_def)
  then obtain r rs where r: "drop 5 rows = r # rs" "te_tag r = 3" by blast
  then show "2 < te_tag x" using x rows_tail_strict by auto
qed

lemma disjoint_levels_sym: "disjoint_levels e e' \<Longrightarrow> disjoint_levels e' e"
  unfolding disjoint_levels_def by blast

lemma rows_no_overlap:
  assumes "e \<in> set rows" and "e' \<in> set rows" and "te_tag e = te_tag e'" and "e \<noteq> e'"
  shows "disjoint_levels e e'"
proof -
  obtain e0 a b c d where h: "take 5 rows = [e0, a, b, c, d]" and tg: "map te_tag [e0, a, b, c, d] = [0, 1, 1, 2, 2]"
    and ds: "disjoint_levels a b" "disjoint_levels c d"
    using rows_head by (elim exE conjE) (rule that)
  have split: "set rows = {e0, a, b, c, d} \<union> set (drop 5 rows)"
    using h append_take_drop_id [of 5 rows] by (metis set_append list.set(1) list.set(2) )
  have "e = e'" if "e \<in> set (drop 5 rows)" "e' \<in> set (drop 5 rows)"
  proof -
    have "inj_on te_tag (set (drop 5 rows))"
      using rows_tail_strict strict_sorted_iff distinct_map by blast
    then show ?thesis using that assms(3) by (auto dest: inj_onD)
  qed
  moreover have "2 < te_tag x" if "x \<in> set (drop 5 rows)" for x
    using that rows_tail_gt by blast
  ultimately show ?thesis
    using assms tg ds disjoint_levels_sym unfolding split by fastforce
qed

section \<open>What the lookups return\<close>

lemma rows_butlast: "butlast ExifTagTable = rows" "ExifTagTable \<noteq> []"
  by (simp_all add: ExifTagTable_rows)

lemma table_first_rows:
  "table_first ExifTagTable tag = (if tag \<in> te_tag ` set rows
     then Some (length (takeWhile (\<lambda>e. te_tag e \<noteq> tag) rows)) else None)"
  using table_first_spec [of ExifTagTable tag] rows_sorted by (simp add: rows_butlast)

lemma drop_first:
  assumes "tag \<in> te_tag ` set rows"
  shows "drop (length (takeWhile (\<lambda>e. te_tag e \<noteq> tag) rows)) ExifTagTable
     = dropWhile (\<lambda>e. te_tag e \<noteq> tag) rows @ [TagEntry 0 None ESL_DEF]"
  using length_takeWhile_le [of "\<lambda>e. te_tag e \<noteq> tag" rows]
  by (simp add: ExifTagTable_rows drop_takeWhile_length)

lemma tail_rows:
  "sorted (map te_tag (dropWhile (\<lambda>e. te_tag e \<noteq> tag) rows))"
  "\<forall>e \<in> set (dropWhile (\<lambda>e. te_tag e \<noteq> tag) rows). tag \<le> te_tag e \<and> te_name e \<noteq> None"
  using rows_sorted rows_named dropWhile_ge [OF rows_sorted] set_dropWhileD [of _ "\<lambda>e. te_tag e \<noteq> tag" rows]
  by (auto simp: dropWhile_map [symmetric] comp_def dropWhile_eq_drop drop_map [symmetric] intro: sorted_wrt_drop)

lemma name_in_ifd_find:
  "exif_tag_get_name_in_ifd tag ifd
     = (if ifd < EXIF_IFD_COUNT then Option.bind (find (\<lambda>e. te_tag e = tag \<and> RECORDED ifd e) rows) te_name else None)"
proof (cases "tag \<in> te_tag ` set rows")
  case True
  then show ?thesis
    using name_loop_find [OF tail_rows] find_dropWhile [of "\<lambda>e. te_tag e = tag \<and> RECORDED ifd e" tag rows]
    by (simp add: exif_tag_get_name_in_ifd_def table_first_rows drop_first)
next
  case False
  then have "find (\<lambda>e. te_tag e = tag \<and> RECORDED ifd e) rows = None" by (auto simp: find_None_iff)
  with False show ?thesis by (simp add: exif_tag_get_name_in_ifd_def table_first_rows)
qed

lemma level_in_ifd_find:
  "get_support_level_in_ifd tag ifd t
     = (case find (\<lambda>e. te_tag e = tag \<and> te_esl e ! ifd ! t \<noteq> SL_NOT_RECORDED) rows of
          None \<Rightarrow> SL_NOT_RECORDED | Some e \<Rightarrow> te_esl e ! ifd ! t)"
proof (cases "tag \<in> te_tag ` set rows")
  case True
  then show ?thesis
    using level_loop_find [OF tail_rows]
      find_dropWhile [of "\<lambda>e. te_tag e = tag \<and> te_esl e ! ifd ! t \<noteq> SL_NOT_RECORDED" tag rows]
    by (simp add: get_support_level_in_ifd_def table_first_rows drop_first)
next
  case False
  then have "find (\<lambda>e. te_tag e = tag \<and> te_esl e ! ifd ! t \<noteq> SL_NOT_RECORDED) rows = None"
    by (auto simp: find_None_iff)
  with False show ?thesis by (simp add: get_support_level_in_ifd_def table_first_rows)
qed

text \<open>
  C33. The support level of a tag for an IFD and a data type is the one the table gives: it is a level other
  than \<open>not recorded\<close> exactly when a row of the table with that tag has that level there. The
  binary search, the way back to the first row of the tag and the loop over the rows of the same
  tag find that row, whichever of the rows of the tag it is, since the levels of two rows of one
  tag never overlap.
\<close>

theorem support_level_is_the_rows:
  assumes "ifd < 5" and "t < 4" and "l \<noteq> SL_NOT_RECORDED"
  shows "exif_tag_get_support_level_in_ifd tag ifd t = l
     \<longleftrightarrow> (\<exists>e \<in> set (butlast ExifTagTable). te_tag e = tag \<and> te_esl e ! ifd ! t = l)"
proof -
  let ?P = "\<lambda>e. te_tag e = tag \<and> te_esl e ! ifd ! t \<noteq> SL_NOT_RECORDED"
  have uniq: "y = e" if "e \<in> set rows" "?P e" "y \<in> set rows" "?P y" for e y
    using rows_no_overlap [of e y] that assms(1,2) by (auto simp: disjoint_levels_def)
  have found: "find ?P rows = Some e" if "e \<in> set rows" "te_tag e = tag" "te_esl e ! ifd ! t = l" for e
    using that assms(3) uniq by (intro find_Some_iff_unique) auto
  have sound: "e \<in> set rows \<and> ?P e" if "find ?P rows = Some e" for e
    using that by (auto simp: find_Some_iff)
  have *: "exif_tag_get_support_level_in_ifd tag ifd t
      = (case find ?P rows of None \<Rightarrow> SL_NOT_RECORDED | Some e \<Rightarrow> te_esl e ! ifd ! t)"
    using assms(1,2) by (simp add: exif_tag_get_support_level_in_ifd_def level_in_ifd_find)
  show ?thesis
  proof (cases "find ?P rows")
    case None
    then have "\<not> (\<exists>e \<in> set rows. te_tag e = tag \<and> te_esl e ! ifd ! t = l)"
      using assms(3) by (auto simp: find_None_iff)
    with None * show ?thesis unfolding rows_butlast using assms(3) by simp
  next
    case (Some e)
    have "te_esl e ! ifd ! t = l \<longleftrightarrow> (\<exists>e \<in> set rows. te_tag e = tag \<and> te_esl e ! ifd ! t = l)"
      using sound [OF Some] found Some by (metis option.inject)
    with Some * show ?thesis unfolding rows_butlast by simp
  qed
qed

theorem support_level_is_the_rows_witness:
  "exif_tag_get_support_level_in_ifd 1 4 3 = SL_OPTIONAL \<and> exif_tag_get_support_level_in_ifd 1 3 3 = SL_OPTIONAL"
proof
  show "exif_tag_get_support_level_in_ifd 1 4 3 = SL_OPTIONAL"
    by (subst support_level_is_the_rows)
      (simp_all add: rows_butlast rows_def ExifTagTable_1_def ESL_GPS_def ESL_OOOO_def)
  show "exif_tag_get_support_level_in_ifd 1 3 3 = SL_OPTIONAL"
    by (subst support_level_is_the_rows)
      (simp_all add: rows_butlast rows_def ExifTagTable_1_def ESL_GPS_def ESL_OOOO_def)
qed

text \<open>
  The name of a tag in an IFD is the name of the first row of the table with that tag that records
  it for some data type of the IFD, and there is none for a tag the table does not record there or
  for an IFD out of range.
\<close>

theorem name_is_the_rows:
  "exif_tag_get_name_in_ifd tag ifd
     = (if ifd < 5 then Option.bind (find (\<lambda>e. te_tag e = tag \<and> RECORDED ifd e) (butlast ExifTagTable)) te_name
        else None)"
  unfolding rows_butlast by (rule name_in_ifd_find)

text \<open>
  Looking a name up does not always give back the tag it was got from: the table has the name
  \<open>CFAPattern\<close> twice, and the lookup by name returns the TIFF/EP tag 0x828e for it, also for the
  EXIF tag 0xa302.
\<close>

theorem name_lookup_not_inverse:
  "exif_tag_get_name_in_ifd 0xa302 2 = Some ''CFAPattern'' \<and> exif_tag_from_name (Some ''CFAPattern'') = 0x828e"
proof -
  have "find (\<lambda>e. te_tag e = 0xa302 \<and> RECORDED 2 e) rows
      = Some (TagEntry 0xa302 (Some ''CFAPattern'') [ESL_NNNN, ESL_NNNN, ESL_OOOO, ESL_NNNN, ESL_NNNN])"
    unfolding rows_def chunks by (simp add: RECORDED_def ESL_OOOO_def)
  moreover have "takeWhile (\<lambda>e. te_name e \<noteq> None) ExifTagTable = rows"
    using rows_named by (simp add: ExifTagTable_rows takeWhile_append)
  moreover have "find (\<lambda>e. te_name e = Some ''CFAPattern'') rows = Some (TagEntry 0x828e (Some ''CFAPattern'') ESL_DEF)"
    unfolding rows_def chunks by simp
  ultimately show ?thesis by (simp add: name_in_ifd_find exif_tag_from_name_def)
qed

end
