(* ===== verification/Registry.thy ===== *)
theory Registry
  imports Ancora_Prelude
begin

text \<open>
  The contract of a table that keeps one entry per key and ignores a second insertion of a
  key: the server list of librpc keyed by program and version, the entry array of an EXIF
  directory keyed by tag. \<open>ok\<close> says when an insertion is carried out (resources were
  granted), \<open>val\<close> what a lookup sees of the inserted value.
\<close>

datatype ('k, 'v) reg_op = Put 'k 'v | Del 'k

locale registry =
  fixes inv :: "'s \<Rightarrow> bool"
    and lookup :: "'s \<Rightarrow> 'k \<Rightarrow> 'w option"
    and put :: "'s \<Rightarrow> 'k \<Rightarrow> 'v \<Rightarrow> 's"
    and del :: "'s \<Rightarrow> 'k \<Rightarrow> 's"
    and ok :: "'s \<Rightarrow> 'k \<Rightarrow> 'v \<Rightarrow> bool"
    and val :: "'v \<Rightarrow> 'w"
  assumes inv_put: "inv s \<Longrightarrow> ok s k v \<Longrightarrow> inv (put s k v)"
    and inv_del: "inv s \<Longrightarrow> inv (del s k)"
    and lookup_put: "inv s \<Longrightarrow> ok s k v \<Longrightarrow>
      lookup (put s k v) k' = (if k' = k \<and> lookup s k = None then Some (val v) else lookup s k')"
    and lookup_del: "inv s \<Longrightarrow> lookup (del s k) k' = (if k' = k then None else lookup s k')"
begin

fun step :: "('k, 'v) reg_op \<Rightarrow> 's \<Rightarrow> 's" where
  "step (Put k v) s = put s k v"
| "step (Del k) s = del s k"

fun spec_step :: "('k, 'v) reg_op \<Rightarrow> ('k \<rightharpoonup> 'w) \<Rightarrow> ('k \<rightharpoonup> 'w)" where
  "spec_step (Put k v) m = (if m k = None then m(k \<mapsto> val v) else m)"
| "spec_step (Del k) m = m(k := None)"

fun step_ok :: "('k, 'v) reg_op \<Rightarrow> 's \<Rightarrow> bool" where
  "step_ok (Put k v) s = ok s k v"
| "step_ok (Del k) s = True"

fun run_ok :: "('k, 'v) reg_op list \<Rightarrow> 's \<Rightarrow> bool" where
  "run_ok [] s = True"
| "run_ok (p # ps) s = (step_ok p s \<and> run_ok ps (step p s))"

lemma step_inv: "inv s \<Longrightarrow> step_ok p s \<Longrightarrow> inv (step p s)"
  by (cases p) (auto intro: inv_put inv_del)

lemma step_refines: "inv s \<Longrightarrow> step_ok p s \<Longrightarrow> lookup (step p s) = spec_step p (lookup s)"
  by (cases p) (auto simp: lookup_put lookup_del fun_eq_iff)

text \<open>Any history of insertions and removals is one of a finite map.\<close>

lemma run_refines:
  "inv s \<Longrightarrow> run_ok ps s \<Longrightarrow>
     inv (fold step ps s) \<and> lookup (fold step ps s) = fold spec_step ps (lookup s)"
  by (induction ps arbitrary: s) (simp_all add: step_inv step_refines)

lemma put_twice: "inv s \<Longrightarrow> ok s k v \<Longrightarrow> ok (put s k v) k w \<Longrightarrow> lookup (put (put s k v) k w) = lookup (put s k v)"
  by (auto simp: lookup_put inv_put fun_eq_iff)

end

end
