(* ===== verification/Exif_Content.thy ===== *)
theory Exif_Content
  imports Exif_Tag Registry
begin

text \<open>
  Entries and the directories that hold them: the life cycle of an entry in
  \<^verbatim>\<open>libexifa/exif-entry.c\<close> and \<^verbatim>\<open>libexifa/exif-content.c\<close>. Entries are shared through pointers and
  reference counted, so they live in a store: a map from addresses to entries. A directory holds
  the addresses of its entries; its \<open>count\<close> is the length of that list. A read or write through a
  dangling pointer is \<open>None\<close>.

  Allocations are answered by a parameter \<open>al\<close>, which sees how many requests were made before and
  the size of the request; the number of requests so far is also the source of fresh
  addresses. Log messages have no effect on the state and are left out.
\<close>

section \<open>The store\<close>

record ExifEntry =
  e_tag :: u16
  e_format :: ExifFormat
  e_components :: u32
  e_data :: cbuf
  e_size :: u32
  e_parent :: "nat option"
  e_ref_count :: u32

record ExifContent =
  c_entries :: "nat list"

record Store =
  st_heap :: "nat \<rightharpoonup> ExifEntry"
  st_clock :: nat

type_synonym alloc = "nat \<Rightarrow> nat \<Rightarrow> bool"

definition exif_mem_alloc :: "alloc \<Rightarrow> nat \<Rightarrow> Store \<Rightarrow> nat option \<times> Store" where
  "exif_mem_alloc al n s =
    (if al (st_clock s) n then Some (st_clock s) else None, s\<lparr>st_clock := st_clock s + 1\<rparr>)"

definition put_entry :: "nat \<Rightarrow> ExifEntry \<Rightarrow> Store \<Rightarrow> Store" where
  "put_entry a e s = s\<lparr>st_heap := (st_heap s)(a \<mapsto> e)\<rparr>"

section \<open>Entries\<close>

text \<open>The memory of a new entry is cleared; its two blocks have 28 and 8 bytes.\<close>

definition zero_entry :: ExifEntry where
  "zero_entry = \<lparr>e_tag = 0, e_format = 0, e_components = 0, e_data = NULL, e_size = 0, e_parent = None, e_ref_count = 1\<rparr>"

definition exif_entry_new_mem :: "alloc \<Rightarrow> Store \<Rightarrow> nat option \<times> Store" where
  "exif_entry_new_mem al s =
    (case exif_mem_alloc al 28 s of
       (None, s) \<Rightarrow> (None, s)
     | (Some a, s) \<Rightarrow>
        (case exif_mem_alloc al 8 s of
           (None, s) \<Rightarrow> (None, s)
         | (Some _, s) \<Rightarrow> (Some a, put_entry a zero_entry s)))"

definition exif_entry_ref :: "nat option \<Rightarrow> Store \<Rightarrow> Store option" where
  "exif_entry_ref p s =
    (case p of
       None \<Rightarrow> Some s
     | Some a \<Rightarrow> do { e \<leftarrow> st_heap s a; Some (put_entry a (e\<lparr>e_ref_count := e_ref_count e + 1\<rparr>) s) })"

definition exif_entry_free :: "nat \<Rightarrow> Store \<Rightarrow> Store" where
  "exif_entry_free a s = s\<lparr>st_heap := (st_heap s)(a := None)\<rparr>"

definition exif_entry_unref :: "nat option \<Rightarrow> Store \<Rightarrow> Store option" where
  "exif_entry_unref p s =
    (case p of
       None \<Rightarrow> Some s
     | Some a \<Rightarrow>
        do { e \<leftarrow> st_heap s a;
             let e = e\<lparr>e_ref_count := e_ref_count e - 1\<rparr>;
             let s = put_entry a e s;
             Some (if e_ref_count e = 0 then exif_entry_free a s else s) })"

section \<open>Directories\<close>

fun get_entry_loop :: "Store \<Rightarrow> u16 \<Rightarrow> nat list \<Rightarrow> nat option option" where
  "get_entry_loop s tag [] = Some None"
| "get_entry_loop s tag (a # as) =
    do { e \<leftarrow> st_heap s a; if e_tag e = tag then Some (Some a) else get_entry_loop s tag as }"

definition exif_content_get_entry :: "Store \<Rightarrow> ExifContent \<Rightarrow> u16 \<Rightarrow> nat option option" where
  "exif_content_get_entry s c tag = get_entry_loop s tag (c_entries c)"

text \<open>\<open>p\<close> is the directory's own address, which the entries have as their parent.\<close>

definition exif_content_add_entry ::
  "alloc \<Rightarrow> nat \<Rightarrow> nat option \<Rightarrow> ExifContent \<times> Store \<Rightarrow> (ExifContent \<times> Store) option" where
  "exif_content_add_entry al p entry cs =
    (case (entry, cs) of
       (None, _) \<Rightarrow> Some cs
     | (Some a, c, s) \<Rightarrow>
        do { e \<leftarrow> st_heap s a;
             if e_parent e \<noteq> None then Some cs
             else do {
               known \<leftarrow> exif_content_get_entry s c (e_tag e);
               if known \<noteq> None then Some cs
               else case exif_mem_alloc al (4 * (length (c_entries c) + 1)) s of
                 (None, s) \<Rightarrow> Some (c, s)
               | (Some _, s) \<Rightarrow>
                   do { let s = put_entry a (e\<lparr>e_parent := Some p\<rparr>) s;
                        let c = c\<lparr>c_entries := c_entries c @ [a]\<rparr>;
                        s \<leftarrow> exif_entry_ref (Some a) s;
                        Some (c, s) } } })"

fun index_of :: "nat \<Rightarrow> nat list \<Rightarrow> nat" where
  "index_of a [] = 0"
| "index_of a (x # xs) = (if x = a then 0 else Suc (index_of a xs))"

text \<open>
  Shrinking the array drops its last element, which is put back behind the elements that the
  \<open>memmove\<close> shifted down.
\<close>

definition remove_at :: "nat \<Rightarrow> nat list \<Rightarrow> nat list" where
  "remove_at i es =
    (let temp = last es; t = butlast es; n = length t in
     if i \<noteq> n
     then let t = take i t @ take (n - i - 1) (drop (i + 1) t) @ drop (n - 1) t in t[n - 1 := temp]
     else t)"

definition exif_content_remove_entry ::
  "alloc \<Rightarrow> nat \<Rightarrow> nat option \<Rightarrow> ExifContent \<times> Store \<Rightarrow> (ExifContent \<times> Store) option" where
  "exif_content_remove_entry al p entry cs =
    (case (entry, cs) of
       (None, _) \<Rightarrow> Some cs
     | (Some a, c, s) \<Rightarrow>
        do { e \<leftarrow> st_heap s a;
             if e_parent e \<noteq> Some p then Some cs
             else let i = index_of a (c_entries c); count = length (c_entries c) in
               if i = count then Some cs
               else case (if count > 1 then exif_mem_alloc al (4 * (count - 1)) s else (Some 0, s)) of
                 (None, s) \<Rightarrow> Some (c, s)
               | (Some _, s) \<Rightarrow>
                   do { let c = c\<lparr>c_entries := (if count > 1 then remove_at i (c_entries c) else [])\<rparr>;
                        s \<leftarrow> exif_entry_unref (Some a) (put_entry a (e\<lparr>e_parent := None\<rparr>) s);
                        Some (c, s) } })"

text \<open>
  \<open>remove_not_recorded\<close>, called for the entry at index \<open>i\<close>; \<open>ifd\<close> and \<open>dt\<close> are the number of the
  directory and the data type of the image.
\<close>

definition remove_not_recorded ::
  "alloc \<Rightarrow> nat \<Rightarrow> nat \<Rightarrow> nat \<Rightarrow> ExifContent \<times> Store \<Rightarrow> (ExifContent \<times> Store) option" where
  "remove_not_recorded al ifd dt a cs =
    do { e \<leftarrow> st_heap (snd cs) a;
         if exif_tag_get_support_level_in_ifd (unat (e_tag e)) ifd dt = SL_NOT_RECORDED
         then exif_content_remove_entry al ifd (Some a) cs
         else Some cs }"

lemma remove_not_recorded_count:
  "remove_not_recorded al ifd dt a cs = Some cs' \<Longrightarrow> length (c_entries (fst cs')) \<le> length (c_entries (fst cs))"
  by (auto simp: remove_not_recorded_def exif_content_remove_entry_def remove_at_def Let_def
      split: prod.splits option.splits if_splits bind_splits)

text \<open>\<open>exif_content_foreach_entry (c, remove_not_recorded, NULL)\<close>: the index moves on also when an entry was removed.\<close>

function foreach_remove ::
  "alloc \<Rightarrow> nat \<Rightarrow> nat \<Rightarrow> nat \<Rightarrow> ExifContent \<times> Store \<Rightarrow> (ExifContent \<times> Store) option" where
  "foreach_remove al ifd dt i cs =
    (if i < length (c_entries (fst cs))
     then do { cs \<leftarrow> remove_not_recorded al ifd dt (c_entries (fst cs) ! i) cs;
               foreach_remove al ifd dt (i + 1) cs }
     else Some cs)"
  by pat_completeness auto
termination
  by (relation "measure (\<lambda>(al, ifd, dt, i, cs). length (c_entries (fst cs)) - i)")
    (auto dest!: remove_not_recorded_count)

declare foreach_remove.simps [simp del]

lemma foreach_remove_count:
  "foreach_remove al ifd dt i cs = Some cs' \<Longrightarrow> length (c_entries (fst cs')) \<le> length (c_entries (fst cs))"
proof (induction al ifd dt i cs rule: foreach_remove.induct)
  case (1 al ifd dt i cs)
  show ?case
  proof (cases "i < length (c_entries (fst cs))")
    case True
    with 1(2) obtain cs1 where cs1: "remove_not_recorded al ifd dt (c_entries (fst cs) ! i) cs = Some cs1"
      and rest: "foreach_remove al ifd dt (i + 1) cs1 = Some cs'"
      by (subst (asm) foreach_remove.simps) (auto split: bind_splits)
    show ?thesis
      using 1(1) [OF True cs1 rest] remove_not_recorded_count [OF cs1] by simp
  next
    case False
    with 1(2) show ?thesis by (subst (asm) foreach_remove.simps) simp
  qed
qed

text \<open>The loop \<open>do { ... } while (num != c->count)\<close> of \<open>exif_content_fix\<close>.\<close>

function remove_all_not_recorded ::
  "alloc \<Rightarrow> nat \<Rightarrow> nat \<Rightarrow> ExifContent \<times> Store \<Rightarrow> (ExifContent \<times> Store) option" where
  "remove_all_not_recorded al ifd dt cs =
    do { cs' \<leftarrow> foreach_remove al ifd dt 0 cs;
         if length (c_entries (fst cs')) \<noteq> length (c_entries (fst cs))
         then remove_all_not_recorded al ifd dt cs' else Some cs' }"
  by pat_completeness auto
termination
  by (relation "measure (\<lambda>(al, ifd, dt, cs). length (c_entries (fst cs)))")
    (auto dest!: foreach_remove_count)

declare remove_all_not_recorded.simps [simp del]

section \<open>The invariant of a directory\<close>

text \<open>
  The entry at an address belongs to directory \<open>p\<close> and is referenced by it alone, and its
  data have the size that its format and component count promise, unless they could not be
  allocated.
\<close>

definition entry_ok :: "ExifEntry \<Rightarrow> bool" where
  "entry_ok e \<longleftrightarrow>
    (e_data e = NULL \<and> e_size e = 0) \<or>
    (\<exists>bs. e_data e = Buf bs \<and> length bs = unat (e_size e) \<and> 0 < unat (e_size e) \<and>
       unat (e_size e) = unat (exif_format_get_size (e_format e)) * unat (e_components e))"

definition tag_at :: "Store \<Rightarrow> nat \<Rightarrow> u16" where
  "tag_at s a = e_tag (the (st_heap s a))"

definition held :: "nat \<Rightarrow> Store \<Rightarrow> nat \<Rightarrow> bool" where
  "held p s a \<longleftrightarrow> (\<exists>e. st_heap s a = Some e \<and> e_parent e = Some p \<and> e_ref_count e = 1 \<and> entry_ok e)"

definition content_ok :: "nat \<Rightarrow> ExifContent \<times> Store \<Rightarrow> bool" where
  "content_ok p cs \<longleftrightarrow>
    distinct (map (tag_at (snd cs)) (c_entries (fst cs))) \<and> (\<forall>a \<in> set (c_entries (fst cs)). held p (snd cs) a)"

lemma content_ok_distinct: "content_ok p (c, s) \<Longrightarrow> distinct (c_entries c)"
  by (auto simp: content_ok_def distinct_map)

lemma get_entry_loop_find:
  "\<forall>a \<in> set as. st_heap s a \<noteq> None \<Longrightarrow> get_entry_loop s tag as = Some (find (\<lambda>a. tag_at s a = tag) as)"
  by (induction as) (auto simp: tag_at_def)

lemma get_entry_find:
  "content_ok p (c, s) \<Longrightarrow> exif_content_get_entry s c tag = Some (find (\<lambda>a. tag_at s a = tag) (c_entries c))"
  unfolding exif_content_get_entry_def
  by (rule get_entry_loop_find) (auto simp: content_ok_def held_def)

lemma index_of_less: "a \<in> set xs \<Longrightarrow> index_of a xs < length xs"
  by (induction xs) auto

lemma nth_index_of: "a \<in> set xs \<Longrightarrow> xs ! index_of a xs = a"
  by (induction xs) auto

lemma index_of_notin: "a \<notin> set xs \<Longrightarrow> index_of a xs = length xs"
  by (induction xs) auto

text \<open>The shrinking and shifting removes exactly the element at the index and keeps the order of the others.\<close>

lemma remove_at_eq:
  assumes "i < length es"
  shows "remove_at i es = take i es @ drop (i + 1) es"
proof (cases es rule: rev_cases)
  case Nil
  with assms show ?thesis by simp
next
  case (snoc ys y)
  show ?thesis
  proof (cases "i = length ys")
    case True
    then show ?thesis by (simp add: snoc remove_at_def)
  next
    case False
    with assms snoc have i: "i < length ys" by simp
    let ?n = "length ys"
    let ?u = "take i ys @ take (?n - i - 1) (drop (i + 1) ys)"
    have u: "length ?u = ?n - 1" "?u = take i ys @ drop (i + 1) ys" using i by auto
    have d: "drop (?n - 1) ys = [ys ! (?n - 1)]"
      using i by (metis Cons_nth_drop_Suc Suc_diff_1 diff_less drop_all le_refl length_pos_if_in_set
          less_nat_zero_code linorder_neqE_nat nth_mem zero_less_one)
    have "remove_at i es = (?u @ [ys ! (?n - 1)])[?n - 1 := y]"
      using False by (simp add: snoc remove_at_def d [simplified] Let_def)
    also have "\<dots> = ?u @ [y]" using u(1) by (metis list_update_length)
    finally show ?thesis using i by (simp add: u(2) snoc)
  qed
qed

lemma remove_at_index_of:
  assumes "distinct es" and "a \<in> set es"
  shows "remove_at (index_of a es) es = filter (\<lambda>x. x \<noteq> a) es"
proof -
  have "take (index_of a es) es @ drop (index_of a es + 1) es = filter (\<lambda>x. x \<noteq> a) es"
    using assms by (induction es) (auto intro!: filter_True [symmetric])
  then show ?thesis using remove_at_eq [OF index_of_less [OF assms(2)]] by simp
qed

lemma content_ok_cong:
  assumes "\<And>a. a \<in> set (c_entries c) \<Longrightarrow> st_heap s' a = st_heap s a"
  shows "content_ok p (c, s') = content_ok p (c, s)"
proof -
  have "map (tag_at s') (c_entries c) = map (tag_at s) (c_entries c)" using assms by (simp add: tag_at_def)
  then show ?thesis using assms by (simp add: content_ok_def held_def del: map_eq_conv)
qed

definition tags :: "ExifContent \<times> Store \<Rightarrow> u16 set" where
  "tags cs = tag_at (snd cs) ` set (c_entries (fst cs))"

text \<open>
  Adding an entry of one's own and dropping the reference to it, as the loader does: the
  directory holds the entry if its tag was not there and the array could be grown, and
  otherwise the entry is freed.
\<close>

definition add_unref :: "alloc \<Rightarrow> nat \<Rightarrow> nat \<Rightarrow> ExifContent \<times> Store \<Rightarrow> (ExifContent \<times> Store) option" where
  "add_unref al p a cs =
    do { (c, s) \<leftarrow> exif_content_add_entry al p (Some a) cs; s \<leftarrow> exif_entry_unref (Some a) s; Some (c, s) }"

lemma add_unref_eq:
  assumes ok: "content_ok p (c, s)" and a: "st_heap s a = Some e" and e: "e_parent e = None" "e_ref_count e = 1"
  shows "add_unref al p a (c, s) =
    Some (if e_tag e \<in> tags (c, s) then (c, s\<lparr>st_heap := (st_heap s)(a := None)\<rparr>)
      else if al (st_clock s) (4 * (length (c_entries c) + 1))
      then (c\<lparr>c_entries := c_entries c @ [a]\<rparr>,
            s\<lparr>st_heap := (st_heap s)(a \<mapsto> e\<lparr>e_parent := Some p\<rparr>), st_clock := st_clock s + 1\<rparr>)
      else (c, s\<lparr>st_heap := (st_heap s)(a := None), st_clock := st_clock s + 1\<rparr>))"
proof -
  have known: "find (\<lambda>b. tag_at s b = e_tag e) (c_entries c) = None \<longleftrightarrow> e_tag e \<notin> tags (c, s)"
    by (auto simp: find_None_iff tags_def intro: rev_image_eqI)
  have one: "e\<lparr>e_parent := q, e_ref_count := 1\<rparr> = e\<lparr>e_parent := q\<rparr>" for q
    using e(2) by (cases e) simp
  show ?thesis
    using a e known
    by (auto simp: one add_unref_def exif_content_add_entry_def get_entry_find [OF ok] exif_mem_alloc_def exif_entry_ref_def
        exif_entry_unref_def exif_entry_free_def put_entry_def Let_def)
qed

lemma content_ok_add:
  assumes "content_ok p (c, s)" and "a \<notin> set (c_entries c)" and "e_tag e \<notin> tags (c, s)"
    and "e_parent e = Some p" and "e_ref_count e = 1" and "entry_ok e" and "st_heap s' = (st_heap s)(a \<mapsto> e)"
  shows "content_ok p (c\<lparr>c_entries := c_entries c @ [a]\<rparr>, s')"
proof -
  have "map (tag_at s') (c_entries c) = map (tag_at s) (c_entries c)"
    using assms(2,7) by (auto simp: tag_at_def)
  then show ?thesis
    using assms unfolding content_ok_def tags_def held_def
    by (auto simp: tag_at_def simp del: map_eq_conv)
qed

lemma remove_eq:
  assumes ok: "content_ok p (c, s)" and a: "a \<in> set (c_entries c)"
  shows "exif_content_remove_entry al p (Some a) (c, s) =
    (let n = length (c_entries c); s' = (if n > 1 then s\<lparr>st_clock := st_clock s + 1\<rparr> else s) in
     Some (if n > 1 \<and> \<not> al (st_clock s) (4 * (n - 1)) then (c, s')
       else (c\<lparr>c_entries := filter (\<lambda>x. x \<noteq> a) (c_entries c)\<rparr>, s'\<lparr>st_heap := (st_heap s)(a := None)\<rparr>)))"
proof -
  obtain e where e: "st_heap s a = Some e" "e_parent e = Some p" "e_ref_count e = 1"
    using ok a by (auto simp: content_ok_def held_def)
  have one: "filter (\<lambda>x. x \<noteq> a) (c_entries c) = []" if "\<not> length (c_entries c) > 1"
  proof -
    have "length (c_entries c) = 1" using that a by (cases "c_entries c") auto
    then show ?thesis using a by (auto simp: length_Suc_conv)
  qed
  have ix: "index_of a (c_entries c) \<noteq> length (c_entries c)" using index_of_less [OF a] by simp
  show ?thesis
    using e ix one remove_at_index_of [OF content_ok_distinct [OF ok] a]
    by (auto simp: exif_content_remove_entry_def exif_mem_alloc_def exif_entry_unref_def exif_entry_free_def
        put_entry_def Let_def)
qed

lemma content_ok_remove:
  assumes "content_ok p (c, s)" and "st_heap s' = (st_heap s)(a := None)"
  shows "content_ok p (c\<lparr>c_entries := filter (\<lambda>x. x \<noteq> a) (c_entries c)\<rparr>, s')"
proof -
  have "map (tag_at s') (filter (\<lambda>x. x \<noteq> a) (c_entries c)) = map (tag_at s) (filter (\<lambda>x. x \<noteq> a) (c_entries c))"
    using assms(2) by (auto simp: tag_at_def)
  moreover have "distinct (map (tag_at s) (filter (\<lambda>x. x \<noteq> a) (c_entries c)))"
    using assms(1) by (simp add: content_ok_def distinct_map_filter)
  ultimately show ?thesis
    using assms by (auto simp: content_ok_def held_def simp del: map_eq_conv)
qed

section \<open>A directory is a map from tags to entries\<close>

text \<open>
  The two ways in which clients change a directory, by tag: creating an entry, filling it and
  adding it, and removing the entry that the lookup finds. A lookup by tag sees what was
  filled in.
\<close>

definition new_entry :: "alloc \<Rightarrow> nat \<Rightarrow> u16 \<Rightarrow> ExifEntry \<Rightarrow> ExifContent \<times> Store \<Rightarrow> (ExifContent \<times> Store) option" where
  "new_entry al p tag v cs =
    (case exif_entry_new_mem al (snd cs) of
       (None, s) \<Rightarrow> Some (fst cs, s)
     | (Some a, s) \<Rightarrow>
         add_unref al p a (fst cs, put_entry a (v\<lparr>e_tag := tag, e_parent := None, e_ref_count := 1\<rparr>) s))"

definition remove_tag :: "alloc \<Rightarrow> nat \<Rightarrow> u16 \<Rightarrow> ExifContent \<times> Store \<Rightarrow> (ExifContent \<times> Store) option" where
  "remove_tag al p tag cs =
    do { a \<leftarrow> exif_content_get_entry (snd cs) (fst cs) tag; exif_content_remove_entry al p a cs }"

definition lookup_tag :: "ExifContent \<times> Store \<Rightarrow> u16 \<Rightarrow> (ExifFormat \<times> u32 \<times> cbuf) option" where
  "lookup_tag cs tag =
    do { r \<leftarrow> exif_content_get_entry (snd cs) (fst cs) tag; a \<leftarrow> r; e \<leftarrow> st_heap (snd cs) a;
         Some (e_format e, e_components e, e_data e) }"

definition fresh_ok :: "ExifContent \<times> Store \<Rightarrow> bool" where
  "fresh_ok cs \<longleftrightarrow> (\<forall>a \<in> set (c_entries (fst cs)). a < st_clock (snd cs))"

lemma find_tag_unique:
  assumes "content_ok p (c, s)" and "a \<in> set (c_entries c)"
  shows "find (\<lambda>b. tag_at s b = tag_at s a) (c_entries c) = Some a"
  using assms by (intro find_Some_iff_unique) (auto simp: content_ok_def distinct_map dest: inj_onD)

lemma lookup_tag_at:
  assumes ok: "content_ok p (c, s)" and "a \<in> set (c_entries c)" and "st_heap s a = Some e"
  shows "lookup_tag (c, s) (e_tag e) = Some (e_format e, e_components e, e_data e)"
  using find_tag_unique [OF assms(1,2)] assms(3) by (simp add: lookup_tag_def get_entry_find [OF ok] tag_at_def)

lemma lookup_tag_None:
  assumes ok: "content_ok p (c, s)"
  shows "lookup_tag (c, s) tag = None \<longleftrightarrow> tag \<notin> tags (c, s)"
proof (cases "tag \<in> tags (c, s)")
  case True
  then obtain a where a: "a \<in> set (c_entries c)" "tag_at s a = tag" by (auto simp: tags_def)
  then obtain e where "st_heap s a = Some e" using ok by (auto simp: content_ok_def held_def)
  then show ?thesis using lookup_tag_at [OF ok a(1)] a(2) True by (simp add: tag_at_def)
next
  case False
  then have "find (\<lambda>b. tag_at s b = tag) (c_entries c) = None" by (auto simp: find_None_iff tags_def)
  then show ?thesis using False by (simp add: lookup_tag_def get_entry_find [OF ok])
qed

lemma lookup_tag_ext:
  assumes "content_ok p (c, s)" and "content_ok p (c', s')"
    and "\<And>e. (\<exists>a \<in> set (c_entries c). st_heap s a = Some e \<and> e_tag e = tag)
        \<longleftrightarrow> (\<exists>a \<in> set (c_entries c'). st_heap s' a = Some e \<and> e_tag e = tag)"
  shows "lookup_tag (c, s) tag = lookup_tag (c', s') tag"
proof (cases "tag \<in> tags (c, s)")
  case True
  then obtain a e where a: "a \<in> set (c_entries c)" "st_heap s a = Some e" "e_tag e = tag"
    using assms(1) by (auto simp: tags_def tag_at_def content_ok_def held_def)
  then obtain a' where a': "a' \<in> set (c_entries c')" "st_heap s' a' = Some e" using assms(3) by blast
  show ?thesis
    using lookup_tag_at [OF assms(1) a(1,2)] lookup_tag_at [OF assms(2) a'] a(3) by simp
next
  case False
  have "tag \<notin> tags (c', s')"
  proof
    assume "tag \<in> tags (c', s')"
    then obtain a e where "a \<in> set (c_entries c')" "st_heap s' a = Some e" "e_tag e = tag"
      using assms(2) by (auto simp: tags_def tag_at_def content_ok_def held_def)
    then obtain b where "b \<in> set (c_entries c)" "st_heap s b = Some e" using assms(3) by blast
    then have "tag \<in> tags (c, s)" using \<open>e_tag e = tag\<close> by (force simp: tags_def tag_at_def)
    with False show False by simp
  qed
  with False show ?thesis using lookup_tag_None assms(1,2) by metis
qed


lemma new_entry_eq:
  assumes ok: "content_ok p (c, s)" and fr: "fresh_ok (c, s)"
    and al: "al (st_clock s) 28" "al (st_clock s + 1) 8" "al (st_clock s + 2) (4 * (length (c_entries c) + 1))"
  shows "new_entry al p tag v (c, s) =
    Some (if tag \<in> tags (c, s)
      then (c, s\<lparr>st_heap := (st_heap s)(st_clock s := None), st_clock := st_clock s + 2\<rparr>)
      else (c\<lparr>c_entries := c_entries c @ [st_clock s]\<rparr>,
            s\<lparr>st_heap := (st_heap s)(st_clock s \<mapsto> v\<lparr>e_tag := tag, e_parent := Some p, e_ref_count := 1\<rparr>),
              st_clock := st_clock s + 3\<rparr>))"
proof -
  let ?e = "v\<lparr>e_tag := tag, e_parent := None, e_ref_count := 1\<rparr>"
  let ?s = "put_entry (st_clock s) ?e (put_entry (st_clock s) zero_entry (s\<lparr>st_clock := st_clock s + 2\<rparr>))"
  have "st_clock s \<notin> set (c_entries c)" using fr by (auto simp: fresh_ok_def)
  then have same: "st_heap ?s b = st_heap s b" if "b \<in> set (c_entries c)" for b
    using that by (auto simp: put_entry_def)
  have ok': "content_ok p (c, ?s)" using content_ok_cong [of c ?s s p] same ok by simp
  have tags: "tags (c, ?s) = tags (c, s)" using same by (auto simp: tags_def tag_at_def)
  have "new_entry al p tag v (c, s) = add_unref al p (st_clock s) (c, ?s)"
    using al by (simp add: new_entry_def exif_entry_new_mem_def exif_mem_alloc_def)
  also have "\<dots> = Some (if tag \<in> tags (c, s) then (c, ?s\<lparr>st_heap := (st_heap ?s)(st_clock s := None)\<rparr>)
      else (c\<lparr>c_entries := c_entries c @ [st_clock s]\<rparr>,
            ?s\<lparr>st_heap := (st_heap ?s)(st_clock s \<mapsto> ?e\<lparr>e_parent := Some p\<rparr>), st_clock := st_clock ?s + 1\<rparr>))"
    using add_unref_eq [OF ok', of "st_clock s" ?e al] al unfolding tags by (simp add: put_entry_def)
  finally show ?thesis by (cases v) (simp add: put_entry_def numeral_3_eq_3)
qed

definition dir_ok :: "nat \<Rightarrow> ExifContent \<times> Store \<Rightarrow> bool" where
  "dir_ok p cs \<longleftrightarrow> content_ok p cs \<and> fresh_ok cs"

lemma entry_ok_fields [simp]:
  "entry_ok (v\<lparr>e_tag := t, e_parent := q, e_ref_count := r\<rparr>) = entry_ok v" "entry_ok (v\<lparr>e_parent := q\<rparr>) = entry_ok v"
  by (simp_all add: entry_ok_def)

text \<open>With memory for every request, a directory behaves as a map from tags to values.\<close>

definition mem_ok :: "nat \<Rightarrow> nat \<Rightarrow> bool" where
  "mem_ok k n = True"

definition plenty :: "alloc \<Rightarrow> bool" where
  "plenty al \<longleftrightarrow> (\<forall>k n. al k n)"

lemma plenty_mem_ok: "plenty al \<longleftrightarrow> al = mem_ok"
  by (auto simp: plenty_def mem_ok_def fun_eq_iff)

lemma new_entry_lookup:
  assumes ok: "content_ok p (c, s)" and fr: "fresh_ok (c, s)" and v: "entry_ok v"
  shows "\<exists>cs'. new_entry mem_ok p tag v (c, s) = Some cs' \<and> dir_ok p cs' \<and>
     (\<forall>t. lookup_tag cs' t = (if t = tag \<and> lookup_tag (c, s) tag = None
        then Some (e_format v, e_components v, e_data v) else lookup_tag (c, s) t))"
proof (cases "tag \<in> tags (c, s)")
  case True
  let ?s = "s\<lparr>st_heap := (st_heap s)(st_clock s := None), st_clock := st_clock s + 2\<rparr>"
  have eq: "new_entry mem_ok p tag v (c, s) = Some (c, ?s)"
    using new_entry_eq [OF ok fr, of mem_ok] True by (simp add: mem_ok_def)
  have same: "st_heap ?s b = st_heap s b" if "b \<in> set (c_entries c)" for b
    using that fr by (auto simp: fresh_ok_def)
  have ok': "content_ok p (c, ?s)" using content_ok_cong [of c ?s s p] same ok by simp
  have "lookup_tag (c, ?s) t = lookup_tag (c, s) t" for t
    using same by (intro lookup_tag_ext [OF ok' ok]) auto
  moreover have "lookup_tag (c, s) tag \<noteq> None" using True lookup_tag_None [OF ok] by blast
  moreover have "fresh_ok (c, ?s)" using fr by (auto simp: fresh_ok_def)
  ultimately show ?thesis using eq ok' by (auto simp: dir_ok_def)
next
  case False
  let ?e = "v\<lparr>e_tag := tag, e_parent := Some p, e_ref_count := 1\<rparr>"
  let ?c = "c\<lparr>c_entries := c_entries c @ [st_clock s]\<rparr>"
  let ?s = "s\<lparr>st_heap := (st_heap s)(st_clock s \<mapsto> ?e), st_clock := st_clock s + 3\<rparr>"
  have eq: "new_entry mem_ok p tag v (c, s) = Some (?c, ?s)"
    using new_entry_eq [OF ok fr, of mem_ok] False by (simp add: mem_ok_def)
  have new: "st_clock s \<notin> set (c_entries c)" using fr by (auto simp: fresh_ok_def)
  then have same: "st_heap ?s b = st_heap s b" if "b \<in> set (c_entries c)" for b using that by auto
  have ok': "content_ok p (?c, ?s)"
    using content_ok_add [OF ok new, of ?e ?s] False v by simp
  have "lookup_tag (?c, ?s) tag = Some (e_format v, e_components v, e_data v)"
    using lookup_tag_at [OF ok', of "st_clock s" ?e] by simp
  moreover have "lookup_tag (?c, ?s) t = lookup_tag (c, s) t" if "t \<noteq> tag" for t
    using same that by (intro lookup_tag_ext [OF ok' ok]) auto
  moreover have "lookup_tag (c, s) tag = None" using False lookup_tag_None [OF ok] by blast
  moreover have "fresh_ok (?c, ?s)" using fr by (auto simp: fresh_ok_def)
  ultimately show ?thesis using eq ok' by (auto simp: dir_ok_def)
qed

lemma remove_tag_lookup:
  assumes ok: "content_ok p (c, s)" and fr: "fresh_ok (c, s)"
  shows "\<exists>cs'. remove_tag mem_ok p tag (c, s) = Some cs' \<and> dir_ok p cs' \<and>
     (\<forall>t. lookup_tag cs' t = (if t = tag then None else lookup_tag (c, s) t))"
proof (cases "tag \<in> tags (c, s)")
  case False
  then have "find (\<lambda>b. tag_at s b = tag) (c_entries c) = None" by (auto simp: find_None_iff tags_def)
  then have "remove_tag mem_ok p tag (c, s) = Some (c, s)"
    by (simp add: remove_tag_def get_entry_find [OF ok] exif_content_remove_entry_def)
  moreover have "lookup_tag (c, s) tag = None" using False lookup_tag_None [OF ok] by blast
  ultimately show ?thesis using ok fr by (auto simp: dir_ok_def)
next
  case True
  then obtain a where a: "a \<in> set (c_entries c)" "tag_at s a = tag" by (auto simp: tags_def)
  have get: "exif_content_get_entry s c tag = Some (Some a)"
    using find_tag_unique [OF ok a(1)] a(2) by (simp add: get_entry_find [OF ok])
  let ?c = "c\<lparr>c_entries := filter (\<lambda>x. x \<noteq> a) (c_entries c)\<rparr>"
  obtain s' where s': "remove_tag mem_ok p tag (c, s) = Some (?c, s')" "st_heap s' = (st_heap s)(a := None)"
    "st_clock s \<le> st_clock s'"
    using remove_eq [OF ok a(1), of mem_ok] get by (auto simp: remove_tag_def mem_ok_def Let_def)
  have ok': "content_ok p (?c, s')" using content_ok_remove [OF ok s'(2)] .
  have rest: "tag_at s b \<noteq> tag" if "b \<in> set (c_entries c)" "b \<noteq> a" for b
    using that a ok by (auto simp: content_ok_def distinct_map dest: inj_onD)
  then have "tag \<notin> tags (?c, s')" using s'(2) by (auto simp: tags_def tag_at_def)
  then have "lookup_tag (?c, s') tag = None" using lookup_tag_None [OF ok'] by blast
  moreover have "lookup_tag (?c, s') t = lookup_tag (c, s) t" if "t \<noteq> tag" for t
    using s'(2) that a by (intro lookup_tag_ext [OF ok' ok]) (auto simp: tag_at_def)
  moreover have "fresh_ok (?c, s')" using fr s'(3) by (auto simp: fresh_ok_def)
  ultimately show ?thesis using s'(1) ok' by (auto simp: dir_ok_def)
qed

interpretation dir: registry "dir_ok p" lookup_tag
  "\<lambda>cs tag v. the (new_entry mem_ok p tag v cs)" "\<lambda>cs tag. the (remove_tag mem_ok p tag cs)"
  "\<lambda>cs tag v. entry_ok v" "\<lambda>v. (e_format v, e_components v, e_data v)" for p
proof (unfold_locales, goal_cases)
  case (1 cs k v)
  then show ?case using new_entry_lookup [of p "fst cs" "snd cs" v k] by (auto simp: dir_ok_def)
next
  case (2 cs k)
  then show ?case using remove_tag_lookup [of p "fst cs" "snd cs" k] by (auto simp: dir_ok_def)
next
  case (3 cs k v k')
  then show ?case using new_entry_lookup [of p "fst cs" "snd cs" v k] by (auto simp: dir_ok_def)
next
  case (4 cs k k')
  then show ?case using remove_tag_lookup [of p "fst cs" "snd cs" k] by (auto simp: dir_ok_def)
qed

fun dir_op :: "nat \<Rightarrow> (u16, ExifEntry) reg_op \<Rightarrow> ExifContent \<times> Store \<Rightarrow> (ExifContent \<times> Store) option" where
  "dir_op p (Put t v) cs = new_entry mem_ok p t v cs"
| "dir_op p (Del t) cs = remove_tag mem_ok p t cs"

fun map_op :: "(u16, ExifEntry) reg_op \<Rightarrow> (u16 \<rightharpoonup> ExifFormat \<times> u32 \<times> cbuf) \<Rightarrow> (u16 \<rightharpoonup> ExifFormat \<times> u32 \<times> cbuf)" where
  "map_op (Put t v) m = (if m t = None then m(t \<mapsto> (e_format v, e_components v, e_data v)) else m)"
| "map_op (Del t) m = m(t := None)"

fun op_ok :: "(u16, ExifEntry) reg_op \<Rightarrow> bool" where
  "op_ok (Put t v) = entry_ok v"
| "op_ok (Del t) = True"

lemma dir_op_step:
  assumes "dir_ok p cs" and "op_ok q"
  shows "dir_op p q cs = Some (dir.step p q cs)"
proof (cases q)
  case (Put t v)
  then show ?thesis
    using assms new_entry_lookup [of p "fst cs" "snd cs" v t] by (auto simp: dir_ok_def dir.step.simps)
next
  case (Del t)
  then show ?thesis
    using assms remove_tag_lookup [of p "fst cs" "snd cs" t] by (auto simp: dir_ok_def dir.step.simps)
qed

lemma op_ok_step: "op_ok q \<longleftrightarrow> dir.step_ok q cs"
  by (cases q) (simp_all add: dir.step_ok.simps)

lemma map_op_spec: "map_op = dir.spec_step"
proof (intro ext)
  fix q :: "(u16, ExifEntry) reg_op" and m t
  show "map_op q m t = dir.spec_step q m t" by (cases q) (simp_all add: dir.spec_step.simps)
qed

lemma dir_run:
  assumes "dir_ok p cs" and "\<forall>q \<in> set ops. op_ok q"
  shows "foldM (dir_op p) ops cs = Some (fold (dir.step p) ops cs) \<and> dir.run_ok p ops cs"
  using assms
proof (induction ops arbitrary: cs)
  case Nil
  then show ?case by (simp add: dir.run_ok.simps)
next
  case (Cons q ops)
  then have "dir_ok p (dir.step p q cs)" using dir.step_inv [of p cs q] op_ok_step by simp
  with Cons show ?case by (simp add: dir_op_step dir.run_ok.simps op_ok_step [symmetric])
qed

text \<open>
  C34. Any history of adding and removing entries by tag makes a directory behave as a finite map: a
  second entry for a tag is refused and the first one stays, a removed tag is gone and the other
  tags keep their values, and no dangling pointer is followed on the way. The directory's
  invariant (distinct tags, every entry owned by the directory with one reference) is kept.
\<close>

theorem content_refines_map:
  assumes "dir_ok p cs" and "\<forall>q \<in> set ops. op_ok q"
  shows "\<exists>cs'. foldM (dir_op p) ops cs = Some cs' \<and> dir_ok p cs' \<and> lookup_tag cs' = fold map_op ops (lookup_tag cs)"
proof -
  have run: "foldM (dir_op p) ops cs = Some (fold (dir.step p) ops cs)" "dir.run_ok p ops cs"
    using dir_run [OF assms] by simp_all
  with dir.run_refines [OF assms(1) run(2)] show ?thesis by (simp add: map_op_spec)
qed

definition ascii :: "string \<Rightarrow> ExifEntry" where
  "ascii t = zero_entry\<lparr>e_format := 2, e_components := of_nat (length t), e_data := Buf (map of_char t), e_size := of_nat (length t)\<rparr>"

theorem content_refines_map_witness:
  "\<exists>cs'. foldM (dir_op 0) [Put 0x10f (ascii ''ab''), Put 0x110 (ascii ''c''), Put 0x10f (ascii ''d''), Del 0x110]
       (\<lparr>c_entries = []\<rparr>, \<lparr>st_heap = Map.empty, st_clock = 0\<rparr>) = Some cs' \<and>
     lookup_tag cs' 0x10f = Some (2, 2, Buf [97, 98]) \<and> lookup_tag cs' 0x110 = None"
proof -
  let ?cs = "(\<lparr>c_entries = []\<rparr>, \<lparr>st_heap = Map.empty, st_clock = 0\<rparr>) :: ExifContent \<times> Store"
  let ?ops = "[Put 0x10f (ascii ''ab''), Put 0x110 (ascii ''c''), Put 0x10f (ascii ''d''), Del 0x110] :: (u16, ExifEntry) reg_op list"
  have 1: "dir_ok 0 ?cs" by (simp add: dir_ok_def content_ok_def fresh_ok_def)
  have 2: "\<forall>q \<in> set ?ops. op_ok q"
    by (simp add: ascii_def zero_entry_def entry_ok_def exif_format_get_size_def ExifFormatTable_def)
  have empty: "lookup_tag ?cs = (\<lambda>t. None)"
    by (rule ext) (simp add: lookup_tag_def exif_content_get_entry_def)
  obtain cs' where cs': "foldM (dir_op 0) ?ops ?cs = Some cs'" "lookup_tag cs' = fold map_op ?ops (lookup_tag ?cs)"
    using content_refines_map [OF 1 2] by blast
  have "lookup_tag cs' 0x10f = Some (2, 2, Buf [97, 98])" "lookup_tag cs' 0x110 = None"
    unfolding cs'(2) empty by (simp_all add: ascii_def zero_entry_def)
  with cs'(1) show ?thesis by blast
qed

section \<open>Removing the entries that are not recorded\<close>

definition recorded :: "nat \<Rightarrow> nat \<Rightarrow> Store \<Rightarrow> nat \<Rightarrow> bool" where
  "recorded ifd dt s a \<longleftrightarrow> exif_tag_get_support_level_in_ifd (unat (tag_at s a)) ifd dt \<noteq> SL_NOT_RECORDED"

text \<open>What a part of the loop has removed: some entries that are not recorded, and they are freed.\<close>

definition pruned :: "nat \<Rightarrow> nat \<Rightarrow> ExifContent \<times> Store \<Rightarrow> ExifContent \<times> Store \<Rightarrow> bool" where
  "pruned ifd dt cs cs' \<longleftrightarrow> content_ok ifd cs' \<and>
    (\<exists>X \<subseteq> set (c_entries (fst cs)). (\<forall>a \<in> X. \<not> recorded ifd dt (snd cs) a) \<and>
       c_entries (fst cs') = filter (\<lambda>a. a \<notin> X) (c_entries (fst cs)) \<and>
       (\<forall>a. st_heap (snd cs') a = (if a \<in> X then None else st_heap (snd cs) a)))"

lemma pruned_refl: "content_ok ifd cs \<Longrightarrow> pruned ifd dt cs cs"
  unfolding pruned_def by (intro conjI exI [of _ "{}"]) auto

lemma pruned_trans:
  assumes "pruned ifd dt cs cs1" and "pruned ifd dt cs1 cs2"
  shows "pruned ifd dt cs cs2"
proof -
  obtain X where X: "X \<subseteq> set (c_entries (fst cs))" "\<forall>a \<in> X. \<not> recorded ifd dt (snd cs) a"
      "c_entries (fst cs1) = filter (\<lambda>a. a \<notin> X) (c_entries (fst cs))"
      "\<forall>a. st_heap (snd cs1) a = (if a \<in> X then None else st_heap (snd cs) a)"
    using assms(1) by (auto simp: pruned_def)
  obtain Y where Y: "Y \<subseteq> set (c_entries (fst cs1))" "\<forall>a \<in> Y. \<not> recorded ifd dt (snd cs1) a"
      "c_entries (fst cs2) = filter (\<lambda>a. a \<notin> Y) (c_entries (fst cs1))"
      "\<forall>a. st_heap (snd cs2) a = (if a \<in> Y then None else st_heap (snd cs1) a)"
    using assms(2) by (auto simp: pruned_def)
  have "\<not> recorded ifd dt (snd cs) a" if "a \<in> Y" for a
  proof -
    have "a \<notin> X" using Y(1) X(3) that by auto
    then have "st_heap (snd cs1) a = st_heap (snd cs) a" using X(4) by simp
    then show ?thesis using bspec [OF Y(2) that] by (simp add: recorded_def tag_at_def)
  qed
  then show ?thesis
    using X Y assms(2) unfolding pruned_def
    by (intro conjI exI [of _ "X \<union> Y"]) (auto intro!: filter_cong)
qed

lemma remove_not_recorded_pruned:
  assumes "content_ok ifd cs" and "a \<in> set (c_entries (fst cs))"
  shows "\<exists>cs'. remove_not_recorded mem_ok ifd dt a cs = Some cs' \<and> pruned ifd dt cs cs' \<and>
     (if recorded ifd dt (snd cs) a then cs' = cs else length (c_entries (fst cs')) < length (c_entries (fst cs)))"
proof -
  obtain c s where [simp]: "cs = (c, s)" by fastforce
  have ok: "content_ok ifd (c, s)" and a: "a \<in> set (c_entries c)" using assms by simp_all
  obtain e where e: "st_heap s a = Some e" using ok a by (auto simp: content_ok_def held_def)
  show ?thesis
  proof (cases "recorded ifd dt s a")
    case True
    then show ?thesis using e pruned_refl [OF ok] by (simp add: remove_not_recorded_def recorded_def tag_at_def)
  next
    case False
    let ?c = "c\<lparr>c_entries := filter (\<lambda>x. x \<noteq> a) (c_entries c)\<rparr>"
    obtain s' where s': "exif_content_remove_entry mem_ok ifd (Some a) (c, s) = Some (?c, s')"
        "st_heap s' = (st_heap s)(a := None)"
      using remove_eq [OF ok a, of mem_ok] by (auto simp: mem_ok_def Let_def)
    have "remove_not_recorded mem_ok ifd dt a (c, s) = Some (?c, s')"
      using False e s'(1) by (simp add: remove_not_recorded_def recorded_def tag_at_def)
    moreover have "pruned ifd dt (c, s) (?c, s')"
      unfolding pruned_def using content_ok_remove [OF ok s'(2)] a False s'(2)
      by (intro conjI exI [of _ "{a}"]) auto
    moreover have "length (filter (\<lambda>x. x \<noteq> a) (c_entries c)) < length (c_entries c)"
      using a by (intro length_filter_less) auto
    ultimately show ?thesis using False by auto
  qed
qed

lemma foreach_remove_pruned:
  assumes "content_ok ifd cs"
  shows "\<exists>cs'. foreach_remove mem_ok ifd dt i cs = Some cs' \<and> pruned ifd dt cs cs' \<and>
     (length (c_entries (fst cs')) = length (c_entries (fst cs)) \<longrightarrow>
        (\<forall>j. i \<le> j \<and> j < length (c_entries (fst cs)) \<longrightarrow> recorded ifd dt (snd cs) (c_entries (fst cs) ! j)))"
  using assms
proof (induction mem_ok ifd dt i cs rule: foreach_remove.induct)
  case (1 ifd dt i cs)
  show ?case
  proof (cases "i < length (c_entries (fst cs))")
    case False
    then show ?thesis using pruned_refl [OF 1(2)] by (subst foreach_remove.simps) auto
  next
    case True
    let ?a = "c_entries (fst cs) ! i"
    obtain cs1 where cs1: "remove_not_recorded mem_ok ifd dt ?a cs = Some cs1" "pruned ifd dt cs cs1"
        "if recorded ifd dt (snd cs) ?a then cs1 = cs else length (c_entries (fst cs1)) < length (c_entries (fst cs))"
      using remove_not_recorded_pruned [OF 1(2) nth_mem [OF True], of dt] by blast
    then obtain cs2 where cs2: "foreach_remove mem_ok ifd dt (i + 1) cs1 = Some cs2" "pruned ifd dt cs1 cs2"
        "length (c_entries (fst cs2)) = length (c_entries (fst cs1)) \<longrightarrow>
          (\<forall>j. i + 1 \<le> j \<and> j < length (c_entries (fst cs1)) \<longrightarrow> recorded ifd dt (snd cs1) (c_entries (fst cs1) ! j))"
      using 1(1) [OF True cs1(1)] unfolding pruned_def by blast
    have run: "foreach_remove mem_ok ifd dt i cs = Some cs2"
      using True cs1(1) cs2(1) by (subst foreach_remove.simps) simp
    have "recorded ifd dt (snd cs) (c_entries (fst cs) ! j)"
      if len: "length (c_entries (fst cs2)) = length (c_entries (fst cs))" and j: "i \<le> j" "j < length (c_entries (fst cs))" for j
    proof -
      have "cs1 = cs \<and> recorded ifd dt (snd cs) ?a"
        using cs1(3) foreach_remove_count [OF cs2(1)] len by (auto split: if_splits)
      with cs2(3) len j show ?thesis by (cases "j = i") auto
    qed
    then show ?thesis using run pruned_trans [OF cs1(2) cs2(2)] by blast
  qed
qed

lemma remove_all_pruned:
  assumes "content_ok ifd cs"
  shows "\<exists>cs'. remove_all_not_recorded mem_ok ifd dt cs = Some cs' \<and> pruned ifd dt cs cs' \<and>
     (\<forall>a \<in> set (c_entries (fst cs')). recorded ifd dt (snd cs') a)"
  using assms
proof (induction mem_ok ifd dt cs rule: remove_all_not_recorded.induct)
  case (1 ifd dt cs)
  obtain cs1 where cs1: "foreach_remove mem_ok ifd dt 0 cs = Some cs1" "pruned ifd dt cs cs1"
      "length (c_entries (fst cs1)) = length (c_entries (fst cs)) \<longrightarrow>
        (\<forall>j < length (c_entries (fst cs)). recorded ifd dt (snd cs) (c_entries (fst cs) ! j))"
    using foreach_remove_pruned [OF 1(2), of dt 0] by auto
  show ?case
  proof (cases "length (c_entries (fst cs1)) = length (c_entries (fst cs))")
    case True
    obtain X where X: "X \<subseteq> set (c_entries (fst cs))" "c_entries (fst cs1) = filter (\<lambda>a. a \<notin> X) (c_entries (fst cs))"
        "\<forall>a. st_heap (snd cs1) a = (if a \<in> X then None else st_heap (snd cs) a)"
      using cs1(2) by (auto simp: pruned_def)
    have "c_entries (fst cs1) = c_entries (fst cs)" "X = {}"
      using X(1,2) True by (metis (no_types, lifting) length_filter_less nat_neq_iff filter_True, 
        metis (no_types, lifting) X(1) X(2) True length_filter_less nat_neq_iff subset_eq ex_in_conv)
    then have "\<forall>a \<in> set (c_entries (fst cs1)). recorded ifd dt (snd cs1) a"
      using cs1(3) True X(3) by (auto simp: in_set_conv_nth recorded_def tag_at_def)
    then show ?thesis using True cs1(1,2) by (subst remove_all_not_recorded.simps) auto
  next
    case False
    obtain cs2 where "remove_all_not_recorded mem_ok ifd dt cs1 = Some cs2" "pruned ifd dt cs1 cs2"
        "\<forall>a \<in> set (c_entries (fst cs2)). recorded ifd dt (snd cs2) a"
      using 1(1) [OF cs1(1) False] cs1(2) unfolding pruned_def by blast
    then show ?thesis using False cs1(1) pruned_trans [OF cs1(2)] by (subst remove_all_not_recorded.simps) auto
  qed
qed

text \<open>
  The loop of \<open>exif_content_fix\<close> removes exactly the entries whose tag is not recorded in
  the directory. A pass over the entries skips the one behind a removed entry, but the passes are
  repeated until nothing changes: the loop ends, all other entries stay in their order, all removed
  ones are freed, and the directory's invariant is kept.
\<close>

theorem remove_not_recorded_complete:
  assumes "content_ok ifd (c, s)"
  shows "\<exists>c' s'. remove_all_not_recorded mem_ok ifd dt (c, s) = Some (c', s') \<and> content_ok ifd (c', s') \<and>
     c_entries c' = filter (recorded ifd dt s) (c_entries c) \<and>
     (\<forall>a. st_heap s' a = (if a \<in> set (c_entries c) \<and> \<not> recorded ifd dt s a then None else st_heap s a))"
proof -
  obtain c' s' where r: "remove_all_not_recorded mem_ok ifd dt (c, s) = Some (c', s')"
      "pruned ifd dt (c, s) (c', s')" "\<forall>a \<in> set (c_entries c'). recorded ifd dt s' a"
    using remove_all_pruned [OF assms, of dt] by auto
  then obtain X where X: "X \<subseteq> set (c_entries c)" "\<forall>a \<in> X. \<not> recorded ifd dt s a"
      "c_entries c' = filter (\<lambda>a. a \<notin> X) (c_entries c)" "\<forall>a. st_heap s' a = (if a \<in> X then None else st_heap s a)"
    by (auto simp: pruned_def)
  have same: "recorded ifd dt s' a = recorded ifd dt s a" if "a \<notin> X" for a
    using X(4) that by (simp add: recorded_def tag_at_def)
  have iff: "a \<in> X \<longleftrightarrow> \<not> recorded ifd dt s a" if "a \<in> set (c_entries c)" for a
    using X(2,3) r(3) same that by fastforce
  then have "c_entries c' = filter (recorded ifd dt s) (c_entries c)"
    unfolding X(3) by (intro filter_cong) auto
  moreover have "\<forall>a. st_heap s' a = (if a \<in> set (c_entries c) \<and> \<not> recorded ifd dt s a then None else st_heap s a)"
    using X(1,4) iff by (metis subset_eq)
  moreover have "content_ok ifd (c', s')" using r(2) by (simp add: pruned_def)
  ultimately show ?thesis using r(1) by blast
qed

theorem remove_not_recorded_complete_witness:
  "\<exists>c' s'. remove_all_not_recorded mem_ok 0 3
       (\<lparr>c_entries = [4, 5, 6]\<rparr>, \<lparr>st_heap = [4 \<mapsto> (ascii ''a'')\<lparr>e_tag := 1, e_parent := Some 0\<rparr>,
          5 \<mapsto> (ascii ''b'')\<lparr>e_tag := 3, e_parent := Some 0\<rparr>,
          6 \<mapsto> (ascii ''c'')\<lparr>e_tag := 0xfffe, e_parent := Some 0\<rparr>], st_clock = 9\<rparr>) = Some (c', s') \<and>
     c_entries c' = [] \<and> st_heap s' 5 = None"
proof -
  let ?c = "\<lparr>c_entries = [4, 5, 6]\<rparr>"
  let ?s = "\<lparr>st_heap = [4 \<mapsto> (ascii ''a'')\<lparr>e_tag := 1, e_parent := Some 0\<rparr>,
          5 \<mapsto> (ascii ''b'')\<lparr>e_tag := 3, e_parent := Some 0\<rparr>,
          6 \<mapsto> (ascii ''c'')\<lparr>e_tag := 0xfffe, e_parent := Some 0\<rparr>], st_clock = 9\<rparr> :: Store"
  have ok: "content_ok 0 (?c, ?s)"
    by (simp add: content_ok_def tag_at_def held_def entry_ok_def ascii_def zero_entry_def exif_format_get_size_def
        ExifFormatTable_def)
  have "\<not> recorded 0 3 ?s 4" "\<not> recorded 0 3 ?s 5" "\<not> recorded 0 3 ?s 6"
    by (simp_all add: recorded_def tag_at_def exif_tag_get_support_level_in_ifd_def level_in_ifd_find rows_def chunks
        ESL_NNNN_def ESL_GPS_def)
  then show ?thesis using remove_not_recorded_complete [OF ok, of 3] by auto
qed

end
