(* ===== verification/Exif_Data.thy ===== *)
theory Exif_Data
  imports Exif_Content
begin

text \<open>
  Loading EXIF data: \<^verbatim>\<open>libexifa/exif-data.c\<close>. The state is an \<open>ExifData\<close> with its five
  directories, whose entries live in the store of \<^verbatim>\<open>Exif_Content\<close>; the image's bytes are a buffer with
  checked accesses. The recursion depth of the directory loader is bounded by the code itself, so
  the loader is a recursion on what is left of that bound.

  The log, the interpretation of maker notes and the correction of the loaded entries
  (\<open>exif_data_fix\<close>), which follow the loading, are not part of this theory.
\<close>

section \<open>State and creation\<close>

record ExifData =
  ed_ifd :: "ExifContent list"
  ed_data :: cbuf
  ed_size :: u32
  ed_order :: ExifByteOrder
  ed_offset_mnote :: u32
  ed_options :: u32
  ed_data_type :: nat
  ed_store :: Store

abbreviation (input) IFD_0 :: nat where "IFD_0 \<equiv> 0"
abbreviation (input) IFD_1 :: nat where "IFD_1 \<equiv> 1"
abbreviation (input) IFD_EXIF :: nat where "IFD_EXIF \<equiv> 2"
abbreviation (input) IFD_GPS :: nat where "IFD_GPS \<equiv> 3"
abbreviation (input) IFD_INTEROPERABILITY :: nat where "IFD_INTEROPERABILITY \<equiv> 4"

abbreviation (input) TAG_JPEG_INTERCHANGE_FORMAT :: u16 where "TAG_JPEG_INTERCHANGE_FORMAT \<equiv> 0x0201"
abbreviation (input) TAG_JPEG_INTERCHANGE_FORMAT_LENGTH :: u16 where "TAG_JPEG_INTERCHANGE_FORMAT_LENGTH \<equiv> 0x0202"
abbreviation (input) TAG_EXIF_IFD_POINTER :: u16 where "TAG_EXIF_IFD_POINTER \<equiv> 0x8769"
abbreviation (input) TAG_GPS_INFO_IFD_POINTER :: u16 where "TAG_GPS_INFO_IFD_POINTER \<equiv> 0x8825"
abbreviation (input) TAG_INTEROPERABILITY_IFD_POINTER :: u16 where "TAG_INTEROPERABILITY_IFD_POINTER \<equiv> 0xa005"
abbreviation (input) TAG_MAKER_NOTE :: u16 where "TAG_MAKER_NOTE \<equiv> 0x927c"

abbreviation (input) OPTION_IGNORE_UNKNOWN_TAGS :: u32 where "OPTION_IGNORE_UNKNOWN_TAGS \<equiv> 1"
abbreviation (input) OPTION_FOLLOW_SPECIFICATION :: u32 where "OPTION_FOLLOW_SPECIFICATION \<equiv> 2"

definition exif_content_new_mem :: "alloc \<Rightarrow> Store \<Rightarrow> ExifContent option \<times> Store" where
  "exif_content_new_mem al s =
    (case exif_mem_alloc al 16 s of
       (None, s) \<Rightarrow> (None, s)
     | (Some _, s) \<Rightarrow>
        (case exif_mem_alloc al 12 s of
           (None, s) \<Rightarrow> (None, s)
         | (Some _, s) \<Rightarrow> (Some \<lparr>c_entries = []\<rparr>, s)))"

fun new_contents :: "alloc \<Rightarrow> nat \<Rightarrow> Store \<Rightarrow> ExifContent list option \<times> Store" where
  "new_contents al 0 s = (Some [], s)"
| "new_contents al (Suc n) s =
    (case exif_content_new_mem al s of
       (None, s) \<Rightarrow> (None, s)
     | (Some c, s) \<Rightarrow> (case new_contents al n s of (None, s) \<Rightarrow> (None, s) | (Some cs, s) \<Rightarrow> (Some (c # cs), s)))"

definition exif_data_set_option :: "u32 \<Rightarrow> ExifData \<Rightarrow> ExifData" where
  "exif_data_set_option opt d = d\<lparr>ed_options := ed_options d OR opt\<rparr>"

definition exif_data_unset_option :: "u32 \<Rightarrow> ExifData \<Rightarrow> ExifData" where
  "exif_data_unset_option opt d = d\<lparr>ed_options := ed_options d AND NOT opt\<rparr>"

definition exif_data_set_data_type :: "nat \<Rightarrow> ExifData \<Rightarrow> ExifData" where
  "exif_data_set_data_type dt d = d\<lparr>ed_data_type := dt\<rparr>"

text \<open>\<open>None\<close> is the null pointer that a failed allocation leads to.\<close>

definition exif_data_new_mem :: "alloc \<Rightarrow> Store \<Rightarrow> ExifData option" where
  "exif_data_new_mem al s =
    (case exif_mem_alloc al 32 s of
       (None, s) \<Rightarrow> None
     | (Some _, s) \<Rightarrow>
        (case exif_mem_alloc al 32 s of
           (None, s) \<Rightarrow> None
         | (Some _, s) \<Rightarrow>
            (case new_contents al EXIF_IFD_COUNT s of
               (None, s) \<Rightarrow> None
             | (Some cs, s) \<Rightarrow>
                 Some (exif_data_set_data_type EXIF_DATA_TYPE_COUNT
                   (exif_data_set_option OPTION_FOLLOW_SPECIFICATION
                     (exif_data_set_option OPTION_IGNORE_UNKNOWN_TAGS
                       \<lparr>ed_ifd = cs, ed_data = NULL, ed_size = 0, ed_order = EXIF_BYTE_ORDER_MOTOROLA, ed_offset_mnote = 0,
                        ed_options = 0, ed_data_type = 0, ed_store = s\<rparr>))))))"

definition exif_data_alloc :: "alloc \<Rightarrow> u32 \<Rightarrow> ExifData \<Rightarrow> cbuf \<times> ExifData" where
  "exif_data_alloc al n data =
    (if n = 0 then (NULL, data)
     else case exif_mem_alloc al (unat n) (ed_store data) of
       (None, s) \<Rightarrow> (NULL, data\<lparr>ed_store := s\<rparr>)
     | (Some _, s) \<Rightarrow> (Buf (replicate (unat n) 0), data\<lparr>ed_store := s\<rparr>))"

definition set_entry :: "nat \<Rightarrow> ExifEntry \<Rightarrow> ExifData \<Rightarrow> ExifData" where
  "set_entry a e data = data\<lparr>ed_store := put_entry a e (ed_store data)\<rparr>"

section \<open>Loading\<close>

text \<open>The second half of loading an entry: its \<open>s\<close> bytes of data are at \<open>doff\<close>.\<close>

definition load_entry_data ::
  "alloc \<Rightarrow> cbuf \<Rightarrow> u32 \<Rightarrow> nat \<Rightarrow> ExifEntry \<Rightarrow> u32 \<Rightarrow> u32 \<Rightarrow> ExifData \<Rightarrow> (bool \<times> ExifData) option" where
  "load_entry_data al d ds a e s doff data =
    (if doff + s < doff \<or> doff + s < s \<or> doff + s > ds then Some (False, data)
     else do {
       let (buf, data) = exif_data_alloc al s data;
       e \<leftarrow> (if buf = NULL then Some e
            else do { bs \<leftarrow> rd_range d (unat doff) (unat s);
                      buf \<leftarrow> wr_range buf 0 bs;
                      Some (e\<lparr>e_data := buf, e_size := s\<rparr>) });
       let data = set_entry a e data;
       Some (True, if e_tag e = TAG_MAKER_NOTE then data\<lparr>ed_offset_mnote := doff\<rparr> else data) })"

text \<open>\<open>entry\<close> is the pointer that \<open>exif_entry_new_mem\<close> returned; writing through a null pointer is \<open>None\<close>.\<close>

definition exif_data_load_data_entry ::
  "alloc \<Rightarrow> cbuf \<Rightarrow> u32 \<Rightarrow> u32 \<Rightarrow> nat option \<Rightarrow> ExifData \<Rightarrow> (bool \<times> ExifData) option" where
  "exif_data_load_data_entry al d ds offset entry data =
    do { a \<leftarrow> entry;
         e \<leftarrow> st_heap (ed_store data) a;
         t \<leftarrow> exif_get_short d (unat offset) (ed_order data);
         f \<leftarrow> exif_get_short d (unat offset + 2) (ed_order data);
         n \<leftarrow> exif_get_long d (unat offset + 4) (ed_order data);
         let e = e\<lparr>e_tag := t, e_format := f, e_components := n\<rparr>;
         let data = set_entry a e data;
         let s = ucast (exif_format_get_size f) * n;
         if s < n \<or> s = 0 then Some (False, data)
         else do {
           doff \<leftarrow> (if s > 4 then exif_get_long d (unat offset + 8) (ed_order data) else Some (offset + 8));
           load_entry_data al d ds a e s doff data } }"

definition exif_data_load_data_thumbnail ::
  "alloc \<Rightarrow> cbuf \<Rightarrow> u32 \<Rightarrow> u32 \<Rightarrow> u32 \<Rightarrow> ExifData \<Rightarrow> ExifData option" where
  "exif_data_load_data_thumbnail al d ds off s data =
    (if off + s < off \<or> off + s < s \<or> off + s > ds \<or> off > ds then Some data
     else let (buf, data) = exif_data_alloc al s data in
       if buf = NULL then Some (data\<lparr>ed_data := NULL, ed_size := 0\<rparr>)
       else do { bs \<leftarrow> rd_range d (unat off) (unat s);
                 buf \<leftarrow> wr_range buf 0 bs;
                 Some (data\<lparr>ed_data := buf, ed_size := s\<rparr>) })"

text \<open>\<open>CHECK_REC\<close> and the recursive call: \<open>sub\<close> loads the directory with the given number at an offset.\<close>

definition load_sub_ifd ::
  "(nat \<Rightarrow> u32 \<Rightarrow> ExifData \<Rightarrow> ExifData option) \<Rightarrow> nat \<Rightarrow> nat \<Rightarrow> u32 \<Rightarrow> ExifData \<Rightarrow> ExifData option" where
  "load_sub_ifd sub ifd i off data =
    (if i = ifd \<or> c_entries (ed_ifd data ! i) \<noteq> [] then Some data else sub i off data)"

text \<open>The lines behind the test of the tag: a new entry is loaded and added, or freed.\<close>

definition load_new_entry ::
  "alloc \<Rightarrow> cbuf \<Rightarrow> u32 \<Rightarrow> nat \<Rightarrow> u32 \<Rightarrow> ExifData \<Rightarrow> ExifData option" where
  "load_new_entry al d ds ifd offset data =
    (case exif_entry_new_mem al (ed_store data) of
       (entry, s) \<Rightarrow>
         do { (loaded, data) \<leftarrow> exif_data_load_data_entry al d ds offset entry (data\<lparr>ed_store := s\<rparr>);
              (c, s) \<leftarrow> (if loaded then exif_content_add_entry al ifd entry (ed_ifd data ! ifd, ed_store data)
                        else Some (ed_ifd data ! ifd, ed_store data));
              s \<leftarrow> exif_entry_unref entry s;
              Some (data\<lparr>ed_ifd := (ed_ifd data)[ifd := c], ed_store := s\<rparr>) })"

text \<open>One round of the loop over the entries of a directory; the state has the thumbnail's offset and length.\<close>

definition load_round ::
  "alloc \<Rightarrow> cbuf \<Rightarrow> u32 \<Rightarrow> (nat \<Rightarrow> u32 \<Rightarrow> ExifData \<Rightarrow> ExifData option) \<Rightarrow> nat \<Rightarrow> u32 \<Rightarrow> nat
     \<Rightarrow> ExifData \<times> u32 \<times> u32 \<Rightarrow> (ExifData \<times> u32 \<times> u32) option" where
  "load_round al d ds sub ifd offset i = (\<lambda>(data, th_off, th_len).
    do { tag \<leftarrow> exif_get_short d (unat offset + 12 * i) (ed_order data);
         if tag \<in> {TAG_EXIF_IFD_POINTER, TAG_GPS_INFO_IFD_POINTER, TAG_INTEROPERABILITY_IFD_POINTER,
               TAG_JPEG_INTERCHANGE_FORMAT_LENGTH, TAG_JPEG_INTERCHANGE_FORMAT}
         then do {
           off \<leftarrow> exif_get_long d (unat offset + 12 * i + 8) (ed_order data);
           if tag = TAG_EXIF_IFD_POINTER
           then do { data \<leftarrow> load_sub_ifd sub ifd IFD_EXIF off data; Some (data, th_off, th_len) }
           else if tag = TAG_GPS_INFO_IFD_POINTER
           then do { data \<leftarrow> load_sub_ifd sub ifd IFD_GPS off data; Some (data, th_off, th_len) }
           else if tag = TAG_INTEROPERABILITY_IFD_POINTER
           then do { data \<leftarrow> load_sub_ifd sub ifd IFD_INTEROPERABILITY off data; Some (data, th_off, th_len) }
           else do {
             let (th_off, th_len) = (if tag = TAG_JPEG_INTERCHANGE_FORMAT then (off, th_len) else (th_off, off));
             data \<leftarrow> (if th_off \<noteq> 0 \<and> th_len \<noteq> 0 then exif_data_load_data_thumbnail al d ds th_off th_len data
                      else Some data);
             Some (data, th_off, th_len) } }
         else do {
           skip \<leftarrow> (if exif_tag_get_name_in_ifd (unat tag) ifd = None
                   then do { bs \<leftarrow> rd_range d (unat offset + 12 * i) 4;
                             Some (bs = [0, 0, 0, 0] \<or> ed_options data AND OPTION_IGNORE_UNKNOWN_TAGS \<noteq> 0) }
                   else Some False);
           if skip then Some (data, th_off, th_len)
           else do { data \<leftarrow> load_new_entry al d ds ifd (offset + of_nat (12 * i)) data;
                     Some (data, th_off, th_len) } } })"

definition load_content ::
  "alloc \<Rightarrow> cbuf \<Rightarrow> u32 \<Rightarrow> (nat \<Rightarrow> u32 \<Rightarrow> ExifData \<Rightarrow> ExifData option) \<Rightarrow> nat \<Rightarrow> u32 \<Rightarrow> ExifData \<Rightarrow> ExifData option" where
  "load_content al d ds sub ifd offset data =
    (if offset + 2 < offset \<or> offset + 2 < 2 \<or> offset + 2 > ds then Some data
     else do {
       n \<leftarrow> exif_get_short d (unat offset) (ed_order data);
       let offset = offset + 2;
       let n = (if offset + 12 * ucast n > ds then ucast ((ds - offset) div 12) else n);
       (data, th_off, th_len) \<leftarrow> foldM (load_round al d ds sub ifd offset) [0..<unat n] (data, 0, 0);
       Some data })"

text \<open>The recursion: at most \<open>k\<close> more levels.\<close>

primrec load_levels ::
  "alloc \<Rightarrow> cbuf \<Rightarrow> u32 \<Rightarrow> nat \<Rightarrow> nat \<Rightarrow> u32 \<Rightarrow> ExifData \<Rightarrow> ExifData option" where
  "load_levels al d ds 0 = (\<lambda>ifd offset data. Some data)"
| "load_levels al d ds (Suc k) =
    (\<lambda>ifd offset data. if ifd \<ge> EXIF_IFD_COUNT then Some data
       else load_content al d ds (load_levels al d ds k) ifd offset data)"

definition exif_data_load_data_content ::
  "alloc \<Rightarrow> cbuf \<Rightarrow> u32 \<Rightarrow> nat \<Rightarrow> nat \<Rightarrow> u32 \<Rightarrow> ExifData \<Rightarrow> ExifData option" where
  "exif_data_load_data_content al d ds recursion_depth = load_levels al d ds (31 - recursion_depth)"

text \<open>
  The search for the APP1 section: \<open>p\<close> is the position of \<open>d\<close> in the buffer and \<open>n\<close> the number of
  bytes left. \<open>Some None\<close> is the early return.
\<close>

fun skip_ff :: "cbuf \<Rightarrow> nat \<Rightarrow> nat \<Rightarrow> (nat \<times> nat) option" where
  "skip_ff d p 0 = Some (p, 0)"
| "skip_ff d p (Suc n) = do { b \<leftarrow> rd d p; if b = 0xff then skip_ff d (p + 1) n else Some (p, Suc n) }"

lemma skip_ff_le: "skip_ff d p n = Some (q, m) \<Longrightarrow> m \<le> n \<and> q + m = p + n"
  by (induction d p n rule: skip_ff.induct) (fastforce split: bind_splits if_splits)+

function find_app1 :: "cbuf \<Rightarrow> nat \<Rightarrow> nat \<Rightarrow> (nat \<times> nat) option option" where
  "find_app1 d p n =
    (if n < 3 then Some (Some (p, n))
     else do {
       (p, n) \<leftarrow> skip_ff d p n;
       m \<leftarrow> (if n > 0 then rd d p else Some 0);
       if n > 0 \<and> m = 0xd8 then find_app1 d (p + 1) (n - 1)
       else if n \<ge> 3 \<and> m = 0xe0
       then do { b1 \<leftarrow> rd d (p + 1); b0 \<leftarrow> rd d (p + 2);
                 let l = unat (join16 b1 b0);
                 if l > n - 1 then Some None else find_app1 d (p + 1 + l) (n - 1 - l) }
       else if n > 0 \<and> m = 0xe1 then Some (Some (p, n))
       else Some None })"
  by pat_completeness auto
termination
  by (relation "measure (\<lambda>(d, p, n). n)") (auto dest: skip_ff_le)

declare find_app1.simps [simp del]

definition ExifHeader :: bytes where
  "ExifHeader = [0x45, 0x78, 0x69, 0x66, 0x00, 0x00]"

fun ptr_add :: "cbuf \<Rightarrow> nat \<Rightarrow> cbuf" where
  "ptr_add NULL p = NULL"
| "ptr_add (Buf b) p = Buf (drop p b)"

text \<open>
  The two directories that the header and the first directory point to. The flag tells whether the code goes on
  with the maker note and the corrections, or returned early.
\<close>

definition load_ifds_at :: "alloc \<Rightarrow> cbuf \<Rightarrow> u32 \<Rightarrow> u32 \<Rightarrow> ExifData \<Rightarrow> (ExifData \<times> bool) option" where
  "load_ifds_at al d ds offset data =
    (if offset > ds \<or> offset + 6 + 2 > ds then Some (data, False)
     else do {
       data \<leftarrow> exif_data_load_data_content al (ptr_add d 6) (ds - 6) 0 IFD_0 offset data;
       n \<leftarrow> exif_get_short d (6 + unat offset) (ed_order data);
       if offset + 6 + 2 + 12 * ucast n + 4 > ds then Some (data, False)
       else do {
         offset \<leftarrow> exif_get_long d (6 + unat offset + 2 + 12 * unat n) (ed_order data);
         data \<leftarrow> (if offset \<noteq> 0 \<and> \<not> (offset > ds \<or> offset + 6 > ds)
                  then exif_data_load_data_content al (ptr_add d 6) (ds - 6) 0 IFD_1 offset data
                  else Some data);
         Some (data, True) } })"

text \<open>The part behind the search: the EXIF header, the byte order, the fixed value, the offset.\<close>

definition load_tiff :: "alloc \<Rightarrow> cbuf \<Rightarrow> u32 \<Rightarrow> ExifData \<Rightarrow> (ExifData \<times> bool) option" where
  "load_tiff al d ds data =
    (if ds < 6 then Some (data, False)
     else do {
       hdr \<leftarrow> rd_range d 0 6;
       if hdr \<noteq> ExifHeader \<or> ds < 14 then Some (data, False)
       else do {
         let ds = (if ds > 0xfffe then 0xfffe else ds);
         bo \<leftarrow> rd_range d 6 2;
         if bo \<noteq> [0x49, 0x49] \<and> bo \<noteq> [0x4d, 0x4d] then Some (data, False)
         else do {
           let ord = (if bo = [0x49, 0x49] then EXIF_BYTE_ORDER_INTEL else EXIF_BYTE_ORDER_MOTOROLA);
           let data = data\<lparr>ed_order := ord\<rparr>;
           fixed \<leftarrow> exif_get_short d 8 ord;
           if fixed \<noteq> 0x002a then Some (data, False)
           else do { offset \<leftarrow> exif_get_long d 10 ord; load_ifds_at al d ds offset data } } } })"

definition load_data_ifds :: "alloc \<Rightarrow> cbuf \<Rightarrow> u32 \<Rightarrow> ExifData \<Rightarrow> (ExifData \<times> bool) option" where
  "load_data_ifds al d ds data =
    (if d = NULL \<or> ds = 0 \<or> ds < 6 then Some (data, False)
     else do {
       hdr \<leftarrow> rd_range d 0 6;
       start \<leftarrow> (if hdr = ExifHeader then Some (Some (0, unat ds))
                else do {
                  m \<leftarrow> find_app1 d 0 (unat ds);
                  case m of
                    None \<Rightarrow> Some None
                  | Some (p, n) \<Rightarrow>
                      if n < 3 then Some None
                      else do { b1 \<leftarrow> rd d (p + 1); b0 \<leftarrow> rd d (p + 2); Some (Some (p + 3, n - 3)) } });
       case start of
         None \<Rightarrow> Some (data, False)
       | Some (p, n) \<Rightarrow> load_tiff al (ptr_add d p) (of_nat n) data })"

section \<open>The invariant\<close>

text \<open>
  Every directory satisfies its invariant, and the store has the entries of the directories and
  those of \<open>X\<close> and no others: nothing dangles and nothing leaks.
\<close>

definition ifds_ok :: "ExifContent list \<Rightarrow> Store \<Rightarrow> nat set \<Rightarrow> bool" where
  "ifds_ok cs s X \<longleftrightarrow> length cs = EXIF_IFD_COUNT \<and> (\<forall>i < EXIF_IFD_COUNT. content_ok i (cs ! i, s)) \<and>
    dom (st_heap s) = (\<Union>i < EXIF_IFD_COUNT. set (c_entries (cs ! i))) \<union> X \<and>
    (\<forall>i < EXIF_IFD_COUNT. set (c_entries (cs ! i)) \<inter> X = {}) \<and> (\<forall>a \<in> dom (st_heap s). a < st_clock s)"

definition thumb_ok :: "ExifData \<Rightarrow> bool" where
  "thumb_ok data \<longleftrightarrow> (ed_data data = NULL \<and> ed_size data = 0) \<or> (\<exists>bs. ed_data data = Buf bs \<and> length bs = unat (ed_size data))"

definition data_ok :: "ExifData \<Rightarrow> bool" where
  "data_ok data \<longleftrightarrow> ifds_ok (ed_ifd data) (ed_store data) {} \<and> thumb_ok data"

text \<open>
  A change of the store outside the directories' entries: if \<open>Y\<close> are the other addresses
  afterwards, the directories are as they were.
\<close>

lemma ifds_ok_change:
  assumes "ifds_ok cs s X" and "st_heap s' |` (- Y) = st_heap s |` (- X)" and "Y \<subseteq> dom (st_heap s')"
    and "\<forall>i < EXIF_IFD_COUNT. set (c_entries (cs ! i)) \<inter> Y = {}"
    and "st_clock s \<le> st_clock s'" and "\<forall>a \<in> Y. a < st_clock s'"
  shows "ifds_ok cs s' Y"
proof -
  have same: "st_heap s' a = st_heap s a" if "a \<notin> X" "a \<notin> Y" for a
    using fun_cong [OF assms(2), of a] that by (simp add: restrict_map_def)
  have gone: "st_heap s' a = None" if "a \<in> X" "a \<notin> Y" for a
    using fun_cong [OF assms(2), of a] that by (simp add: restrict_map_def)
  have dom0: "dom (st_heap s) = (\<Union>i < EXIF_IFD_COUNT. set (c_entries (cs ! i))) \<union> X"
    using assms(1) by (simp add: ifds_ok_def)
  have inX: "a \<notin> X" "a \<notin> Y" if "i < EXIF_IFD_COUNT" "a \<in> set (c_entries (cs ! i))" for i a
    using assms(1,4) that by (auto simp: ifds_ok_def)
  have "content_ok i (cs ! i, s')" if i: "i < EXIF_IFD_COUNT" for i
  proof (rule content_ok_cong [THEN iffD2])
    show "content_ok i (cs ! i, s)" using assms(1) i by (simp add: ifds_ok_def)
  qed (use same inX i in blast)
  moreover have dom: "dom (st_heap s') = (\<Union>i < EXIF_IFD_COUNT. set (c_entries (cs ! i))) \<union> Y"
  proof (intro equalityI subsetI)
    fix a assume a: "a \<in> dom (st_heap s')"
    show "a \<in> (\<Union>i < EXIF_IFD_COUNT. set (c_entries (cs ! i))) \<union> Y"
    proof (cases "a \<in> Y")
      case False
      have "a \<notin> X" using gone [OF _ False] a by auto
      have "a \<in> dom (st_heap s)" using same [OF \<open>a \<notin> X\<close> False] a by (simp add: domIff)
      with \<open>a \<notin> X\<close> dom0 show ?thesis by simp
    qed simp
  next
    fix a assume a: "a \<in> (\<Union>i < EXIF_IFD_COUNT. set (c_entries (cs ! i))) \<union> Y"
    show "a \<in> dom (st_heap s')"
    proof (cases "a \<in> Y")
      case False
      with a obtain i where i: "i < EXIF_IFD_COUNT" "a \<in> set (c_entries (cs ! i))" by auto
      then have "a \<in> dom (st_heap s)" unfolding dom0 by blast
      with same inX [OF i] show ?thesis by auto
    qed (use assms(3) in blast)
  qed
  moreover have "a < st_clock s'" if "a \<in> dom (st_heap s')" for a
  proof (cases "a \<in> Y")
    case False
    have "a \<notin> X" using gone [OF _ False] that by auto
    have "a \<in> dom (st_heap s)" using same [OF \<open>a \<notin> X\<close> False] that by (simp add: domIff)
    then have "a < st_clock s" using assms(1) by (simp add: ifds_ok_def)
    with assms(5) show ?thesis by simp
  qed (use assms(6) in blast)
  moreover have "length cs = EXIF_IFD_COUNT" using assms(1) by (simp add: ifds_ok_def)
  ultimately show ?thesis using assms(4) unfolding ifds_ok_def by blast
qed

lemma ifds_okD:
  assumes "ifds_ok cs s X"
  shows "X \<subseteq> dom (st_heap s)" "\<forall>i < EXIF_IFD_COUNT. set (c_entries (cs ! i)) \<inter> X = {}" "\<forall>a \<in> X. a < st_clock s"
    "\<And>i. i < EXIF_IFD_COUNT \<Longrightarrow> set (c_entries (cs ! i)) \<subseteq> dom (st_heap s)"
    "\<And>i. i < EXIF_IFD_COUNT \<Longrightarrow> content_ok i (cs ! i, s)"
proof -
  have dom: "dom (st_heap s) = (\<Union>i < EXIF_IFD_COUNT. set (c_entries (cs ! i))) \<union> X" using assms by (simp add: ifds_ok_def)
  have lt: "\<forall>a \<in> dom (st_heap s). a < st_clock s" using assms by (simp add: ifds_ok_def)
  show X: "X \<subseteq> dom (st_heap s)" using dom by blast
  show "\<forall>a \<in> X. a < st_clock s" using lt X by blast
  show "set (c_entries (cs ! i)) \<subseteq> dom (st_heap s)" if "i < EXIF_IFD_COUNT" for i using dom that by blast
qed (use assms in \<open>simp_all add: ifds_ok_def\<close>)

lemma ifds_ok_clock:
  assumes "ifds_ok cs s X" and "st_heap s' = st_heap s" and "st_clock s \<le> st_clock s'"
  shows "ifds_ok cs s' X"
  using ifds_okD [OF assms(1)] assms(2,3) by (intro ifds_ok_change [OF assms(1)]) auto

lemma ifds_ok_put:
  assumes "ifds_ok cs s {a}"
  shows "ifds_ok cs (put_entry a e s) {a}"
  using ifds_okD [OF assms] by (intro ifds_ok_change [OF assms]) (auto simp: put_entry_def restrict_map_def)

text \<open>The memory for the entries themselves is granted; the memory for their data need not be.\<close>

definition entry_mem_ok :: "alloc \<Rightarrow> bool" where
  "entry_mem_ok al \<longleftrightarrow> (\<forall>k. al k 28 \<and> al k 8)"

lemma ifds_ok_new:
  assumes ok: "ifds_ok cs s {}" and "al (st_clock s) 28" and "al (st_clock s + 1) 8"
  shows "\<exists>s'. exif_entry_new_mem al s = (Some (st_clock s), s') \<and> ifds_ok cs s' {st_clock s} \<and>
     st_heap s' (st_clock s) = Some zero_entry"
proof -
  let ?s = "put_entry (st_clock s) zero_entry (s\<lparr>st_clock := st_clock s + 2\<rparr>)"
  have new: "st_clock s \<notin> dom (st_heap s)" using ok by (auto simp: ifds_ok_def)
  have "ifds_ok cs ?s {st_clock s}"
    using new ifds_okD(4) [OF ok] 
    by (intro ifds_ok_change [OF ok]) (auto simp: put_entry_def restrict_map_def domIff fun_eq_iff)
  then show ?thesis
    using assms(2,3) by (simp add: exif_entry_new_mem_def exif_mem_alloc_def put_entry_def)
qed

lemma ifds_ok_free:
  assumes "ifds_ok cs s {a}" and "st_heap s' = (st_heap s)(a := None)" and "st_clock s \<le> st_clock s'"
  shows "ifds_ok cs s' {}"
  using assms(2,3) by (intro ifds_ok_change [OF assms(1)]) (auto simp: restrict_map_def fun_eq_iff)

lemma ifds_ok_add:
  assumes ok: "ifds_ok cs s {a}" and e: "st_heap s a = Some e" "e_parent e = None" "e_ref_count e = 1" "entry_ok e"
    and i: "i < EXIF_IFD_COUNT"
  shows "\<exists>c s'. add_unref al i a (cs ! i, s) = Some (c, s') \<and> ifds_ok (cs[i := c]) s' {}"
proof -
  note D = ifds_okD [OF ok]
  have len: "length cs = EXIF_IFD_COUNT" using ok by (simp add: ifds_ok_def)
  note eq = add_unref_eq [OF D(5) [OF i] e(1,2,3), of al]
  show ?thesis
  proof (cases "e_tag e \<notin> tags (cs ! i, s) \<and> al (st_clock s) (4 * (length (c_entries (cs ! i)) + 1))")
    case False
    then obtain s' where s': "add_unref al i a (cs ! i, s) = Some (cs ! i, s')"
        "st_heap s' = (st_heap s)(a := None)" "st_clock s \<le> st_clock s'"
      using eq by (auto split: if_splits)
    then show ?thesis using ifds_ok_free [OF ok s'(2,3)] by simp
  next
    case True
    let ?c = "(cs ! i)\<lparr>c_entries := c_entries (cs ! i) @ [a]\<rparr>"
    let ?e = "e\<lparr>e_parent := Some i\<rparr>"
    let ?s = "s\<lparr>st_heap := (st_heap s)(a \<mapsto> ?e), st_clock := st_clock s + 1\<rparr>"
    have a: "a \<notin> set (c_entries (cs ! j))" if "j < EXIF_IFD_COUNT" for j using D(2) that by blast
    have "content_ok j (cs[i := ?c] ! j, ?s)" if j: "j < EXIF_IFD_COUNT" for j
    proof (cases "j = i")
      case True
      then show ?thesis
        using content_ok_add [OF D(5) [OF i] a [OF i], of ?e ?s] e(3,4) \<open>_ \<and> _\<close> len i by simp
    next
      case False
      have "content_ok j (cs ! j, ?s)"
        by (rule content_ok_cong [THEN iffD2, OF _ D(5) [OF j]]) (use a [OF j] in auto)
      with False show ?thesis by simp
    qed
    moreover have "(\<Union>j < EXIF_IFD_COUNT. set (c_entries (cs[i := ?c] ! j)))
        = insert a (\<Union>j < EXIF_IFD_COUNT. set (c_entries (cs ! j)))"
      using i len by (auto simp: nth_list_update split: if_splits)
    moreover have "dom (st_heap ?s) = insert a (dom (st_heap s))" by simp
    moreover have "dom (st_heap s) = (\<Union>j < EXIF_IFD_COUNT. set (c_entries (cs ! j))) \<union> {a}"
      and "\<forall>b \<in> dom (st_heap s). b < st_clock s"
      using ok by (simp_all add: ifds_ok_def)
    ultimately have "ifds_ok (cs[i := ?c]) ?s {}"
      unfolding ifds_ok_def using len D(3) by (auto simp: less_Suc_eq)
    then show ?thesis using eq True by auto
  qed
qed

section \<open>Loading an entry\<close>

text \<open>
  The checks of the sizes are done with numbers that wrap around. Since the data is at most 64 KiB,
  they are exactly the checks on the true numbers.
\<close>

lemma wrap_less: "s < M \<Longrightarrow> M \<le> p + s \<Longrightarrow> p + s - M < (p :: nat)"
  by linarith

lemma word_add_nowrap:
  fixes p s :: u32
  assumes "p \<le> p + s"
  shows "unat (p + s) = unat p + unat s"
proof (rule ccontr)
  have sum: "unat (p + s) = (unat p + unat s) mod 2 ^ 32" by (simp add: unat_word_ariths)
  have b: "unat p < 2 ^ 32" "unat s < 2 ^ 32" using unat_u32 by simp_all
  assume "unat (p + s) \<noteq> unat p + unat s"
  then have big: "\<not> unat p + unat s < 2 ^ 32" using sum by auto
  have "unat (p + s) = unat p + unat s - 2 ^ 32" using big b sum by (simp add: mod_if)
  also have "\<dots> < unat p" using wrap_less [OF b(2), of "unat p"] big unfolding not_less by blast
  finally show False using assms by (simp add: word_le_nat_alt)
qed

lemma entry_checks:
  fixes s n pos ds :: u32
  assumes s: "unat s = f * unat n mod 2 ^ 32" and f: "f \<le> 8" and ds: "unat ds \<le> 0xfffe"
  shows "\<not> (s < n \<or> s = 0) \<and> \<not> (pos + s < pos \<or> pos + s < s \<or> pos + s > ds)
     \<longleftrightarrow> 0 < f * unat n \<and> unat pos + f * unat n \<le> unat ds \<and> unat s = f * unat n" (is "?L \<longleftrightarrow> ?R")
proof -
  have sum: "unat (pos + s) = (unat pos + unat s) mod 2 ^ 32" by (simp add: unat_word_ariths)
  have z: "s = 0 \<longleftrightarrow> unat s = 0" by (simp add: unat_eq_0)
  show ?thesis
  proof
    assume ?L
    then have L: "unat n \<le> unat s" "unat s \<noteq> 0" "unat pos \<le> unat (pos + s)" "unat (pos + s) \<le> unat ds"
      unfolding z by (simp_all add: word_less_nat_alt not_less)
    have "unat (pos + s) = unat pos + unat s" using L(3) by (intro word_add_nowrap) (simp add: word_le_nat_alt)
    then have le: "unat pos + unat s \<le> unat ds" using L(4) by simp
    have "f * unat n \<le> 8 * 0xfffe" using f L(1) le ds by (intro mult_le_mono) auto
    then have "unat s = f * unat n" using s by simp
    with L(2) le show ?R by simp
  next
    assume R: ?R
    then have nowrap: "unat (pos + s) = unat pos + unat s" using sum ds by simp
    have "f \<noteq> 0" using R by (cases f) auto
    then have "unat n \<le> unat s" using R by simp
    with R nowrap show ?L unfolding z by (simp add: word_less_nat_alt not_less)
  qed
qed

lemma unat_size_mult:
  "unat ((ucast (exif_format_get_size f) :: u32) * n) = unat (exif_format_get_size f) * unat n mod 2 ^ 32"
proof -
  have "unat (ucast (exif_format_get_size f) :: u32) = unat (exif_format_get_size f)"
    by (simp add: unsigned_ucast_eq take_bit_nat_eq_self order_less_trans [OF unat_u8])
  then show ?thesis by (simp add: unat_word_ariths)
qed

text \<open>What the entry at an offset says of itself.\<close>

definition entry_tag :: "ExifByteOrder \<Rightarrow> bytes \<Rightarrow> nat \<Rightarrow> u16" where
  "entry_tag ord bs off = dec16 ord (take 2 (drop off bs))"

definition entry_format :: "ExifByteOrder \<Rightarrow> bytes \<Rightarrow> nat \<Rightarrow> u16" where
  "entry_format ord bs off = dec16 ord (take 2 (drop (off + 2) bs))"

definition entry_components :: "ExifByteOrder \<Rightarrow> bytes \<Rightarrow> nat \<Rightarrow> u32" where
  "entry_components ord bs off = dec32 ord (take 4 (drop (off + 4) bs))"

definition entry_bytes :: "ExifByteOrder \<Rightarrow> bytes \<Rightarrow> nat \<Rightarrow> nat" where
  "entry_bytes ord bs off =
     unat (exif_format_get_size (entry_format ord bs off)) * unat (entry_components ord bs off)"

definition entry_pos :: "ExifByteOrder \<Rightarrow> bytes \<Rightarrow> nat \<Rightarrow> nat" where
  "entry_pos ord bs off =
     (if entry_bytes ord bs off > 4 then unat (dec32 ord (take 4 (drop (off + 8) bs))) else off + 8)"

definition entry_fits :: "ExifByteOrder \<Rightarrow> bytes \<Rightarrow> nat \<Rightarrow> nat \<Rightarrow> bool" where
  "entry_fits ord bs ds off \<longleftrightarrow>
     0 < entry_bytes ord bs off \<and> entry_pos ord bs off + entry_bytes ord bs off \<le> ds"

lemma get_short_Buf: "p + 2 \<le> length bs \<Longrightarrow> exif_get_short (Buf bs) p ord = Some (dec16 ord (take 2 (drop p bs)))"
  by (simp add: eshort.get_eq)

lemma get_long_Buf: "p + 4 \<le> length bs \<Longrightarrow> exif_get_long (Buf bs) p ord = Some (dec32 ord (take 4 (drop p bs)))"
  by (simp add: elong.get_eq)

lemma exif_data_alloc_cases:
  assumes "n \<noteq> 0"
  shows "exif_data_alloc al n data =
    ((if al (st_clock (ed_store data)) (unat n) then Buf (replicate (unat n) 0) else NULL),
     data\<lparr>ed_store := (ed_store data)\<lparr>st_clock := st_clock (ed_store data) + 1\<rparr>\<rparr>)"
  using assms by (simp add: exif_data_alloc_def exif_mem_alloc_def)

lemma wr_range_all: "length bs = n \<Longrightarrow> wr_range (Buf (replicate n 0)) 0 bs = Some (Buf bs)"
  by simp

text \<open>The entry before and after its data are loaded, and the state that \<open>exif_data_load_data_entry\<close> leaves.\<close>

definition head_entry :: "ExifByteOrder \<Rightarrow> bytes \<Rightarrow> nat \<Rightarrow> ExifEntry" where
  "head_entry ord bs off = zero_entry\<lparr>e_tag := entry_tag ord bs off, e_format := entry_format ord bs off,
     e_components := entry_components ord bs off\<rparr>"

definition full_entry :: "ExifByteOrder \<Rightarrow> bytes \<Rightarrow> nat \<Rightarrow> ExifEntry" where
  "full_entry ord bs off = (head_entry ord bs off)
     \<lparr>e_data := Buf (take (entry_bytes ord bs off) (drop (entry_pos ord bs off) bs)),
      e_size := of_nat (entry_bytes ord bs off)\<rparr>"

definition entry_loaded :: "nat \<Rightarrow> ExifEntry \<Rightarrow> nat \<Rightarrow> ExifData \<Rightarrow> ExifData" where
  "entry_loaded a e pos data =
    (let data = data\<lparr>ed_store := put_entry a e ((ed_store data)\<lparr>st_clock := st_clock (ed_store data) + 1\<rparr>)\<rparr> in
     if e_tag e = TAG_MAKER_NOTE then data\<lparr>ed_offset_mnote := of_nat pos\<rparr> else data)"

lemma entry_checks_fit:
  fixes s pos offset :: u32
  assumes s: "s = ucast (exif_format_get_size (entry_format ord bs (unat offset))) * entry_components ord bs (unat offset)"
    and pos: "pos = (if s > 4 then dec32 ord (take 4 (drop (unat offset + 8) bs)) else offset + 8)"
    and off: "unat offset + 12 \<le> unat ds" and ds: "unat ds \<le> 0xfffe"
  shows "\<not> (s < entry_components ord bs (unat offset) \<or> s = 0) \<and> \<not> (pos + s < pos \<or> pos + s < s \<or> pos + s > ds)
     \<longleftrightarrow> entry_fits ord bs (unat ds) (unat offset)"
    and "entry_fits ord bs (unat ds) (unat offset) \<Longrightarrow>
      unat s = entry_bytes ord bs (unat offset) \<and> unat pos = entry_pos ord bs (unat offset)"
proof -
  let ?n = "entry_bytes ord bs (unat offset)"
  have us: "unat s = ?n mod 2 ^ 32" unfolding s entry_bytes_def by (rule unat_size_mult)
  have "unat (offset + 8) = unat offset + 8" using off ds by (subst unat_word_ariths) simp
  then have up: "unat s = ?n \<Longrightarrow> unat pos = entry_pos ord bs (unat offset)"
    by (simp add: pos entry_pos_def word_less_nat_alt)
  have exact: "unat s = ?n" if "entry_fits ord bs (unat ds) (unat offset)"
    using that us ds by (simp add: entry_fits_def)
  show "\<not> (s < entry_components ord bs (unat offset) \<or> s = 0) \<and> \<not> (pos + s < pos \<or> pos + s < s \<or> pos + s > ds)
     \<longleftrightarrow> entry_fits ord bs (unat ds) (unat offset)"
    unfolding entry_checks [OF us [unfolded entry_bytes_def] exif_format_get_size_le ds]
    using exact up unfolding entry_fits_def entry_bytes_def by auto
  show "unat s = ?n \<and> unat pos = entry_pos ord bs (unat offset)" if "entry_fits ord bs (unat ds) (unat offset)"
    using exact [OF that] up by simp
qed

lemma load_entry_eq:
  assumes off: "unat offset + 12 \<le> unat ds" and ds: "unat ds \<le> 0xfffe" "unat ds \<le> length bs"
    and a: "st_heap (ed_store data) a = Some zero_entry" and ord: "ord = ed_order data" and p: "p = unat offset"
  shows "exif_data_load_data_entry al (Buf bs) ds offset (Some a) data =
    Some (if \<not> entry_fits ord bs (unat ds) p then (False, set_entry a (head_entry ord bs p) data)
      else (True, entry_loaded a (if al (st_clock (ed_store data)) (entry_bytes ord bs p)
          then full_entry ord bs p else head_entry ord bs p) (entry_pos ord bs p) data))"
proof -
  let ?n = "entry_components ord bs p"
  define s :: u32 where "s = ucast (exif_format_get_size (entry_format ord bs p)) * ?n"
  define pos :: u32 where "pos = (if s > 4 then dec32 ord (take 4 (drop (p + 8) bs)) else offset + 8)"
  note k = entry_checks_fit [OF s_def [unfolded p] pos_def [unfolded p] off ds(1), folded p]
  have h: "zero_entry\<lparr>e_tag := entry_tag ord bs p, e_format := entry_format ord bs p, e_components := ?n\<rparr>
      = head_entry ord bs p" by (simp add: head_entry_def)
  have g: "exif_get_short (Buf bs) p ord = Some (entry_tag ord bs p)"
      "exif_get_short (Buf bs) (p + 2) ord = Some (entry_format ord bs p)"
      "exif_get_long (Buf bs) (p + 4) ord = Some ?n"
      "exif_get_long (Buf bs) (p + 8) ord = Some (dec32 ord (take 4 (drop (p + 8) bs)))"
    using off ds(2) p
    by (simp_all add: get_short_Buf get_long_Buf entry_tag_def entry_format_def entry_components_def)
  let ?d = "set_entry a (head_entry ord bs p) data"
  have half: "exif_data_load_data_entry al (Buf bs) ds offset (Some a) data
      = (if s < ?n \<or> s = 0 then Some (False, ?d) else load_entry_data al (Buf bs) ds a (head_entry ord bs p) s pos ?d)"
    using a g by (simp add: exif_data_load_data_entry_def ord [symmetric] p [symmetric] Let_def s_def [symmetric]
        h set_entry_def pos_def)
  show ?thesis
  proof (cases "entry_fits ord bs (unat ds) p")
    case False
    with k(1) show ?thesis by (auto simp: half load_entry_data_def)
  next
    case True
    have us: "unat s = entry_bytes ord bs p" "unat pos = entry_pos ord bs p" using k(2) [OF True] by simp_all
    have c: "\<not> (s < ?n \<or> s = 0)" "\<not> (pos + s < pos \<or> pos + s < s \<or> pos + s > ds)" using k(1) True by blast+
    define blob where "blob = take (entry_bytes ord bs p) (drop (entry_pos ord bs p) bs)"
    have len: "length blob = unat s" using True ds(2) by (auto simp: us entry_fits_def blob_def min_def)
    have r: "rd_range (Buf bs) (unat pos) (unat s) = Some blob"
      using True ds(2) by (auto simp: us entry_fits_def blob_def)
    have w: "of_nat (entry_bytes ord bs p) = s" "of_nat (entry_pos ord bs p) = pos" by (simp_all add: us [symmetric])
    have fe: "(head_entry ord bs p)\<lparr>e_data := Buf blob, e_size := s\<rparr> = full_entry ord bs p"
      by (simp add: full_entry_def w blob_def)
    have t: "e_tag (full_entry ord bs p) = e_tag (head_entry ord bs p)" by (simp add: full_entry_def)
    from c(1) have "s \<noteq> 0" by blast
    note al = exif_data_alloc_cases [OF this]
    show ?thesis
      unfolding half load_entry_data_def if_not_P [OF c(1)] if_not_P [OF c(2)] al prod.case r us(1) [symmetric]
      using True
      by (simp add: wr_range_all [OF len] fe t w(2) entry_loaded_def set_entry_def put_entry_def Let_def
          del: wr_range.simps)
  qed
qed

lemma entry_ok_head: "entry_ok (head_entry ord bs p)"
  by (simp add: entry_ok_def head_entry_def zero_entry_def)

lemma entry_ok_full:
  assumes "entry_fits ord bs n p" and "n \<le> length bs" and "n \<le> 0xfffe"
  shows "entry_ok (full_entry ord bs p)"
proof -
  have "entry_bytes ord bs p \<le> 0xfffe" using assms by (simp add: entry_fits_def)
  then have "unat (of_nat (entry_bytes ord bs p) :: u32) = entry_bytes ord bs p" by (simp add: unat_of_nat)
  then show ?thesis
    using assms by (auto simp: entry_ok_def full_entry_def head_entry_def entry_fits_def entry_bytes_def min_def)
qed

text \<open>A new entry, loaded and added or freed, keeps the invariant and changes the directories and the store only.\<close>

definition same_frame :: "ExifData \<Rightarrow> ExifData \<Rightarrow> bool" where
  "same_frame data data' \<longleftrightarrow> ed_order data' = ed_order data \<and> ed_options data' = ed_options data"

lemma load_new_entry_ok:
  assumes ok: "data_ok data" and al: "entry_mem_ok al" and ifd: "ifd < EXIF_IFD_COUNT"
    and off: "unat offset + 12 \<le> unat ds" and ds: "unat ds \<le> 0xfffe" "unat ds \<le> length bs"
  shows "\<exists>data'. load_new_entry al (Buf bs) ds ifd offset data = Some data' \<and> data_ok data' \<and> same_frame data data'"
proof -
  let ?a = "st_clock (ed_store data)"
  let ?ord = "ed_order data"
  let ?p = "unat offset"
  have io: "ifds_ok (ed_ifd data) (ed_store data) {}" and th: "thumb_ok data" using ok by (simp_all add: data_ok_def)
  obtain s where s: "exif_entry_new_mem al (ed_store data) = (Some ?a, s)" "ifds_ok (ed_ifd data) s {?a}"
      "st_heap s ?a = Some zero_entry"
    using ifds_ok_new [OF io] al unfolding entry_mem_ok_def by blast
  let ?d = "data\<lparr>ed_store := s\<rparr>"
  note eq = load_entry_eq [OF off ds, of ?d ?a ?ord ?p al] s(3)
  show ?thesis
  proof (cases "entry_fits ?ord bs (unat ds) ?p")
    case False
    let ?s = "put_entry ?a (head_entry ?ord bs ?p) s"
    have un: "exif_entry_unref (Some ?a) ?s = Some (exif_entry_free ?a (put_entry ?a ((head_entry ?ord bs ?p)\<lparr>e_ref_count := 0\<rparr>) ?s))"
      by (simp add: exif_entry_unref_def put_entry_def head_entry_def zero_entry_def)
    have io': "ifds_ok (ed_ifd data) (exif_entry_free ?a (put_entry ?a ((head_entry ?ord bs ?p)\<lparr>e_ref_count := 0\<rparr>) ?s)) {}"
      by (rule ifds_ok_free [OF ifds_ok_put [OF s(2)], of _ "head_entry ?ord bs ?p"])
        (simp_all add: exif_entry_free_def put_entry_def)
    show ?thesis
      using False eq un io' th
      by (simp add: load_new_entry_def s(1) set_entry_def data_ok_def thumb_ok_def same_frame_def)
  next
    case True
    let ?e = "if al (st_clock s) (entry_bytes ?ord bs ?p) then full_entry ?ord bs ?p else head_entry ?ord bs ?p"
    let ?d1 = "entry_loaded ?a ?e (entry_pos ?ord bs ?p) ?d"
    have d1: "ed_ifd ?d1 = ed_ifd data" "ed_store ?d1 = put_entry ?a ?e (s\<lparr>st_clock := st_clock s + 1\<rparr>)"
        "same_frame data ?d1" "ed_data ?d1 = ed_data data" "ed_size ?d1 = ed_size data"
      by (simp_all add: entry_loaded_def Let_def same_frame_def)
    have i1: "ifds_ok (ed_ifd data) (ed_store ?d1) {?a}"
      unfolding d1(2) by (rule ifds_ok_put, rule ifds_ok_clock [OF s(2)]) simp_all
    have e1: "st_heap (ed_store ?d1) ?a = Some ?e" unfolding d1(2) by (simp add: put_entry_def)
    have eok: "e_parent ?e = None" "e_ref_count ?e = 1" "entry_ok ?e"
      using entry_ok_full [OF True ds(2,1)] entry_ok_head by (simp_all add: full_entry_def head_entry_def zero_entry_def)
    obtain c s' where add: "add_unref al ifd ?a (ed_ifd data ! ifd, ed_store ?d1) = Some (c, s')"
        "ifds_ok ((ed_ifd data)[ifd := c]) s' {}"
      using ifds_ok_add [OF i1 e1 eok ifd] by blast
    obtain s1 where s1: "exif_content_add_entry al ifd (Some ?a) (ed_ifd ?d1 ! ifd, ed_store ?d1) = Some (c, s1)"
        "exif_entry_unref (Some ?a) s1 = Some s'"
      using add(1) by (auto simp: add_unref_def d1(1) split: bind_splits)
    have ld: "exif_data_load_data_entry al (Buf bs) ds offset (Some ?a) ?d = Some (True, ?d1)"
      using eq True by simp
    have "load_new_entry al (Buf bs) ds ifd offset data
        = Some (?d1\<lparr>ed_ifd := (ed_ifd data)[ifd := c], ed_store := s'\<rparr>)"
      by (simp only: load_new_entry_def s(1) prod.case ld Option.bind.simps if_True s1) (simp only: d1(1))
    then show ?thesis using add(2) d1 th by (auto simp: data_ok_def thumb_ok_def same_frame_def)
  qed
qed

section \<open>Loading never leaves the buffers\<close>

lemma load_thumbnail_ok:
  assumes ok: "data_ok data" and ds: "unat ds \<le> length bs"
  shows "\<exists>data'. exif_data_load_data_thumbnail al (Buf bs) ds off s data = Some data' \<and> data_ok data' \<and> same_frame data data'"
proof (cases "off + s < off \<or> off + s < s \<or> off + s > ds \<or> off > ds")
  case True
  then show ?thesis using ok by (simp add: exif_data_load_data_thumbnail_def same_frame_def)
next
  case False
  have io: "ifds_ok (ed_ifd data) (ed_store data) {}" using ok by (simp add: data_ok_def)
  have fit: "unat off + unat s \<le> length bs"
    using False word_add_nowrap [of off s] ds by (simp add: word_le_nat_alt not_less)
  obtain buf s' where al: "exif_data_alloc al s data = (buf, data\<lparr>ed_store := s'\<rparr>)" "st_heap s' = st_heap (ed_store data)"
      "st_clock (ed_store data) \<le> st_clock s'" "buf = NULL \<or> buf = Buf (replicate (unat s) 0)"
  proof (cases "s = 0")
    case True
    then show ?thesis using that [of NULL "ed_store data"] by (simp add: exif_data_alloc_def)
  next
    case False
    then show ?thesis
      using that [of "if al (st_clock (ed_store data)) (unat s) then Buf (replicate (unat s) 0) else NULL"
          "(ed_store data)\<lparr>st_clock := st_clock (ed_store data) + 1\<rparr>"]
      by (simp add: exif_data_alloc_cases)
  qed
  have io': "ifds_ok (ed_ifd data) s' {}" using ifds_ok_clock [OF io al(2,3)] .
  show ?thesis
  proof (cases "buf = NULL")
    case True
    then show ?thesis
      using False io' by (simp add: exif_data_load_data_thumbnail_def al(1) data_ok_def thumb_ok_def same_frame_def)
  next
    case nn: False
    obtain blob where blob: "rd_range (Buf bs) (unat off) (unat s) = Some blob" "length blob = unat s"
      using rd_range_Ex [of "unat off" "unat s" "Buf bs"] fit by auto
    have "wr_range buf 0 blob = Some (Buf blob)" using al(4) nn wr_range_all [OF blob(2)] by simp
    then show ?thesis
      using False nn io' blob
      by (simp add: exif_data_load_data_thumbnail_def al(1) data_ok_def thumb_ok_def same_frame_def del: rd_range.simps)
  qed
qed

text \<open>What the loader of a sub-directory promises to the loop that calls it.\<close>

definition loads_safely :: "(nat \<Rightarrow> u32 \<Rightarrow> ExifData \<Rightarrow> ExifData option) \<Rightarrow> bool" where
  "loads_safely sub \<longleftrightarrow> (\<forall>ifd off data. data_ok data \<longrightarrow>
     (\<exists>data'. sub ifd off data = Some data' \<and> data_ok data' \<and> same_frame data data'))"

lemma same_frame_refl [simp]: "same_frame data data"
  by (simp add: same_frame_def)

lemma same_frame_trans: "same_frame a b \<Longrightarrow> same_frame b c \<Longrightarrow> same_frame a c"
  by (simp add: same_frame_def)

lemma load_sub_ifd_ok:
  assumes "loads_safely sub" and "data_ok data"
  shows "\<exists>data'. load_sub_ifd sub ifd i off data = Some data' \<and> data_ok data' \<and> same_frame data data'"
  using assms by (auto simp: load_sub_ifd_def loads_safely_def)

lemma load_round_ok:
  assumes sub: "loads_safely sub" and ok: "data_ok data" and al: "entry_mem_ok al" and ifd: "ifd < EXIF_IFD_COUNT"
    and off: "unat offset + 12 * i + 12 \<le> unat ds" and ds: "unat ds \<le> 0xfffe" "unat ds \<le> length bs"
  shows "\<exists>data' o' l'. load_round al (Buf bs) ds sub ifd offset i (data, th_off, th_len) = Some (data', o', l') \<and>
     data_ok data' \<and> same_frame data data'"
proof -
  let ?p = "unat offset + 12 * i"
  have g: "exif_get_short (Buf bs) ?p (ed_order data) = Some (dec16 (ed_order data) (take 2 (drop ?p bs)))"
      "exif_get_long (Buf bs) (?p + 8) (ed_order data) = Some (dec32 (ed_order data) (take 4 (drop (?p + 8) bs)))"
    using off ds(2) by (simp_all add: get_short_Buf get_long_Buf)
  obtain blob where blob: "rd_range (Buf bs) ?p 4 = Some blob"
    using rd_range_Ex [of ?p 4 "Buf bs"] off ds(2) by auto
  have u: "unat (offset + of_nat (12 * i)) = ?p"
    using off ds(1) by (simp add: unat_word_ariths unat_of_nat)
  have new: "\<exists>data'. load_new_entry al (Buf bs) ds ifd (offset + of_nat (12 * i)) data = Some data' \<and> data_ok data' \<and> same_frame data data'"
    using load_new_entry_ok [OF ok al ifd _ ds, where offset = "offset + of_nat (12 * i)"] off u by simp
  have sb: "\<exists>data'. load_sub_ifd sub ifd j o' data = Some data' \<and> data_ok data' \<and> same_frame data data'" for j o'
    by (rule load_sub_ifd_ok [OF sub ok])
  have tn: "\<exists>data'. exif_data_load_data_thumbnail al (Buf bs) ds o' l' data = Some data' \<and> data_ok data' \<and> same_frame data data'" for o' l'
    by (rule load_thumbnail_ok [OF ok ds(2)])
  define tag where "tag = dec16 (ed_order data) (take 2 (drop ?p bs))"
  define v where "v = dec32 (ed_order data) (take 4 (drop (?p + 8) bs))"
  define th where "th = (\<lambda>a b. (if a \<noteq> 0 \<and> b \<noteq> 0 then exif_data_load_data_thumbnail al (Buf bs) ds a b data else Some data)
          \<bind> (\<lambda>d. Some (d, a, b)))"
  have eq: "load_round al (Buf bs) ds sub ifd offset i (data, th_off, th_len) =
     (if tag \<in> {0x8769, 0x8825, 0xa005, 0x0202, 0x0201}
      then if tag = 0x8769 then load_sub_ifd sub ifd 2 v data \<bind> (\<lambda>d. Some (d, th_off, th_len))
      else if tag = 0x8825 then load_sub_ifd sub ifd 3 v data \<bind> (\<lambda>d. Some (d, th_off, th_len))
      else if tag = 0xa005 then load_sub_ifd sub ifd 4 v data \<bind> (\<lambda>d. Some (d, th_off, th_len))
      else if tag = 0x0201 then th v th_len else th th_off v
      else if exif_tag_get_name_in_ifd (unat tag) ifd = None \<and> (blob = [0, 0, 0, 0] \<or> ed_options data AND 1 \<noteq> 0)
      then Some (data, th_off, th_len)
      else load_new_entry al (Buf bs) ds ifd (offset + of_nat (12 * i)) data \<bind> (\<lambda>d. Some (d, th_off, th_len)))"
    unfolding load_round_def prod.case g Option.bind.simps blob tag_def [symmetric] v_def [symmetric] Let_def
    by (cases "exif_tag_get_name_in_ifd (unat tag) ifd") (simp_all add: th_def)
  have fin: "\<exists>data' o' l'. (x \<bind> (\<lambda>d. Some (d, a, b))) = Some (data', o', l') \<and> data_ok data' \<and> same_frame data data'"
    if "\<exists>data'. x = Some data' \<and> data_ok data' \<and> same_frame data data'" for x and a b :: u32
    using that by auto
  have th: "\<exists>data' o' l'. th a b = Some (data', o', l') \<and> data_ok data' \<and> same_frame data data'" for a b
    unfolding th_def using tn [of a b] ok by (intro fin) simp
  have skip: "\<exists>data' o' l'. Some (data, th_off, th_len) = Some (data', o', l') \<and> data_ok data' \<and> same_frame data data'"
    using ok by simp
  show ?thesis
    unfolding eq by (simp only: split: if_split) (intro conjI impI fin sb th new skip)
qed

lemma entry_count:
  fixes offset ds :: u32 and n :: u16
  assumes "offset \<le> ds" and "unat ds \<le> 0xfffe"
    and n': "n' = (if offset + 12 * ucast n > ds then ucast ((ds - offset) div 12) else n)"
  shows "unat offset + 12 * unat n' \<le> unat ds"
proof -
  have le: "unat offset \<le> unat ds" using assms(1) by (simp add: word_le_nat_alt)
  have un: "unat (ucast n :: u32) = unat n"
    by (simp add: unsigned_ucast_eq take_bit_nat_eq_self order_less_trans [OF unat_u16])
  have "unat (12 * ucast n :: u32) = 12 * unat n"
    using unat_u16 [of n] by (subst unat_word_ariths) (simp add: un)
  then have sum: "unat (offset + 12 * ucast n) = unat offset + 12 * unat n"
    using unat_u16 [of n] le assms(2) by (subst unat_word_ariths) simp
  show ?thesis
  proof (cases "offset + 12 * ucast n > ds")
    case False
    then show ?thesis using sum n' by (simp add: word_less_nat_alt not_less)
  next
    case True
    have "unat ((ds - offset) div 12) = (unat ds - unat offset) div 12"
      by (simp add: unat_div unat_sub [OF assms(1)])
    moreover have "(unat ds - unat offset) div 12 < 2 ^ 16" using assms(2) by simp
    ultimately have "unat n' = (unat ds - unat offset) div 12"
      using True n' by (simp add: unsigned_ucast_eq take_bit_nat_eq_self)
    then show ?thesis using le by simp
  qed
qed

lemma load_content_ok:
  assumes sub: "loads_safely sub" and ok: "data_ok data" and al: "entry_mem_ok al" and ifd: "ifd < EXIF_IFD_COUNT"
    and ds: "unat ds \<le> 0xfffe" "unat ds \<le> length bs"
  shows "\<exists>data'. load_content al (Buf bs) ds sub ifd offset data = Some data' \<and> data_ok data' \<and> same_frame data data'"
proof (cases "offset + 2 < offset \<or> offset + 2 < 2 \<or> offset + 2 > ds")
  case True
  then show ?thesis using ok by (simp add: load_content_def)
next
  case False
  have sum: "unat (offset + 2) = unat offset + 2" using word_add_nowrap [of offset 2] False by (simp add: not_less)
  have le: "offset + 2 \<le> ds" using False by (simp add: not_less)
  then have "unat offset + 2 \<le> unat ds" using sum by (simp add: word_le_nat_alt)
  then obtain n where n: "exif_get_short (Buf bs) (unat offset) (ed_order data) = Some n"
    using ds(2) by (simp add: get_short_Buf)
  define n' where "n' = (if offset + 2 + 12 * ucast n > ds then ucast ((ds - (offset + 2)) div 12) else n)"
  have cnt: "unat (offset + 2) + 12 * unat n' \<le> unat ds" by (rule entry_count [OF le ds(1) n'_def])
  let ?P = "\<lambda>st :: ExifData \<times> u32 \<times> u32. data_ok (fst st) \<and> same_frame data (fst st)"
  have "\<exists>st'. foldM (load_round al (Buf bs) ds sub ifd (offset + 2)) [0..<unat n'] (data, 0, 0) = Some st' \<and> ?P st'"
  proof (rule foldM_invariant)
    show "?P (data, 0, 0)" using ok by simp
  next
    fix i st assume i: "i \<in> set [0..<unat n']" and st: "?P st"
    obtain d1 o1 l1 where [simp]: "st = (d1, o1, l1)" by (cases st)
    have "unat (offset + 2) + 12 * i + 12 \<le> unat ds" using cnt i by simp
    from load_round_ok [OF sub _ al ifd this ds, of d1 o1 l1] st
    show "\<exists>st'. load_round al (Buf bs) ds sub ifd (offset + 2) i st = Some st' \<and> ?P st'"
      by (auto intro: same_frame_trans)
  qed
  then show ?thesis
    using False n by (auto simp: load_content_def Let_def n'_def [symmetric])
qed

lemma load_levels_ok:
  assumes "entry_mem_ok al" and "unat ds \<le> 0xfffe" and "unat ds \<le> length bs"
  shows "loads_safely (load_levels al (Buf bs) ds k)"
proof (induction k)
  case 0
  then show ?case by (simp add: loads_safely_def)
next
  case (Suc k)
  then show ?case
    using load_content_ok [OF Suc _ assms(1) _ assms(2,3)] by (auto simp: loads_safely_def not_le)
qed

lemma load_ifd_ok:
  assumes "data_ok data" and "entry_mem_ok al" and "unat ds \<le> 0xfffe" and "unat ds \<le> length bs"
  shows "\<exists>data'. exif_data_load_data_content al (Buf bs) ds depth ifd offset data = Some data' \<and> data_ok data' \<and> same_frame data data'"
  using load_levels_ok [OF assms(2,3,4)] assms(1) unfolding exif_data_load_data_content_def loads_safely_def by blast

text \<open>The search for the APP1 section reads inside the buffer only and never passes its end.\<close>

lemma skip_ff_ok: "p + n \<le> length bs \<Longrightarrow> \<exists>q m. skip_ff (Buf bs) p n = Some (q, m) \<and> q + m = p + n"
proof (induction "Buf bs" p n rule: skip_ff.induct)
  case (1 p)
  then show ?case by simp
next
  case (2 p n)
  then show ?case by auto
qed

lemma find_app1_ok:
  assumes "p + n \<le> length bs"
  shows "\<exists>r. find_app1 (Buf bs) p n = Some r \<and> (\<forall>q m. r = Some (q, m) \<longrightarrow> q + m = p + n)"
  using assms
proof (induction "Buf bs" p n rule: find_app1.induct)
  case (1 p n)
  show ?case
  proof (cases "n < 3")
    case True
    then show ?thesis by (subst find_app1.simps) simp
  next
    case False
    obtain q m where qm: "skip_ff (Buf bs) p n = Some (q, m)" "q + m = p + n" using skip_ff_ok [OF 1(3)] by blast
    have rd: "rd (Buf bs) j = Some (bs ! j)" if "j < q + m" for j using that qm(2) 1(3) by simp
    define c where "c = (if m > 0 then bs ! q else 0)"
    have c: "(if m > 0 then rd (Buf bs) q else Some 0) = Some c" using rd [of q] by (simp add: c_def)
    define l where "l = unat (join16 (bs ! (q + 1)) (bs ! (q + 2)))"
    have eq: "find_app1 (Buf bs) p n =
       (if m > 0 \<and> c = 0xd8 then find_app1 (Buf bs) (q + 1) (m - 1)
        else if m \<ge> 3 \<and> c = 0xe0 then if l > m - 1 then Some None else find_app1 (Buf bs) (q + 1 + l) (m - 1 - l)
        else if m > 0 \<and> c = 0xe1 then Some (Some (q, m)) else Some None)"
      using False qm(1) c rd [of "q + 1"] rd [of "q + 2"]
      by (subst find_app1.simps) (auto simp: l_def Let_def simp del: rd.simps)
    show ?thesis
    proof (cases "m > 0 \<and> c = 0xd8")
      case True
      then have "\<exists>r. find_app1 (Buf bs) (q + 1) (m - 1) = Some r \<and> (\<forall>q' m'. r = Some (q', m') \<longrightarrow> q' + m' = q + 1 + (m - 1))"
        using qm(2) 1(3) by (intro 1(1) [OF False qm(1) refl c]) auto
      then show ?thesis using eq True qm(2) by auto
    next
      case no: False
      show ?thesis
      proof (cases "m \<ge> 3 \<and> c = 0xe0 \<and> \<not> l > m - 1")
        case True
        then have "\<exists>r. find_app1 (Buf bs) (q + 1 + l) (m - 1 - l) = Some r \<and>
            (\<forall>q' m'. r = Some (q', m') \<longrightarrow> q' + m' = q + 1 + l + (m - 1 - l))"
          using qm(2) 1(3) by (intro 1(2) [OF \<open>\<not> n < 3\<close> qm(1) refl c no _ rd rd l_def]) auto
        then show ?thesis using eq True no qm(2) by auto
      next
        case False
        then show ?thesis using eq no qm(2) by auto
      qed
    qed
  qed
qed

lemma data_ok_order [simp]: "data_ok (data\<lparr>ed_order := ord\<rparr>) = data_ok data"
  by (simp add: data_ok_def thumb_ok_def)

lemma load_ifds_at_ok:
  assumes ok: "data_ok data" and al: "entry_mem_ok al" and ds: "unat ds \<le> 0xfffe" "unat ds \<le> length bs" "14 \<le> unat ds"
  shows "\<exists>data' r. load_ifds_at al (Buf bs) ds off data = Some (data', r) \<and> data_ok data'"
proof (cases "off > ds \<or> off + 6 + 2 > ds")
  case True
  then show ?thesis using ok by (simp add: load_ifds_at_def)
next
  case False
  have six: "unat (ds - 6) = unat ds - 6" using ds(3) by (simp add: unat_sub word_le_nat_alt)
  have le: "unat off \<le> unat ds" using False by (simp add: word_less_nat_alt)
  have l8: "unat (off + 6 + 2) = unat off + 8"
    using le ds(1) by (simp add: unat_word_ariths)
  then have o8: "unat off + 8 \<le> unat ds" using False by (simp add: word_less_nat_alt)
  have dl: "unat (ds - 6) \<le> 0xfffe" "unat (ds - 6) \<le> length (drop 6 bs)" using ds six by simp_all
  obtain d1 where d1: "exif_data_load_data_content al (Buf (drop 6 bs)) (ds - 6) 0 IFD_0 off data = Some d1" "data_ok d1"
    using load_ifd_ok [OF ok al dl] by blast
  obtain n where n: "exif_get_short (Buf bs) (6 + unat off) (ed_order d1) = Some n"
    using o8 ds(2) by (simp add: get_short_Buf)
  show ?thesis
  proof (cases "off + 6 + 2 + 12 * ucast n + 4 > ds")
    case True
    then show ?thesis using False d1 n by (simp add: load_ifds_at_def)
  next
    case fits: False
    have un: "unat (12 * ucast n :: u32) = 12 * unat n"
      using unat_u16 [of n] by (simp add: unat_word_ariths unsigned_ucast_eq take_bit_nat_eq_self)
    have "unat (off + 6 + 2 + 12 * ucast n) = unat off + 8 + 12 * unat n"
      using l8 un le ds(1) unat_u16 [of n] by (subst unat_word_ariths) simp
    then have "unat (off + 6 + 2 + 12 * ucast n + 4) = unat off + 12 + 12 * unat n"
      using le ds(1) unat_u16 [of n] by (subst unat_word_ariths) simp
    then have "unat off + 12 + 12 * unat n \<le> length bs" using fits ds(2) by (simp add: word_less_nat_alt)
    then obtain o1 where o1: "exif_get_long (Buf bs) (6 + unat off + 2 + 12 * unat n) (ed_order d1) = Some o1"
      by (simp add: get_long_Buf)
    obtain d2 where "exif_data_load_data_content al (Buf (drop 6 bs)) (ds - 6) 0 IFD_1 o1 d1 = Some d2" "data_ok d2"
      using load_ifd_ok [OF d1(2) al dl] by blast
    then show ?thesis using False fits d1 n o1 by (simp add: load_ifds_at_def)
  qed
qed

text \<open>Once the header is checked, the size is at least 14 and the loader works on at most 0xfffe bytes.\<close>

lemma load_tiff_ok:
  assumes ok: "data_ok data" and al: "entry_mem_ok al" and len: "unat ds \<le> length bs"
  shows "\<exists>data' r. load_tiff al (Buf bs) ds data = Some (data', r) \<and> data_ok data'"
proof (cases "ds < 6 \<or> take 6 bs \<noteq> ExifHeader \<or> ds < 14")
  case True
  have "6 \<le> length bs" if "\<not> ds < 6" using that len by (simp add: word_less_nat_alt)
  then show ?thesis using True ok by (auto simp: load_tiff_def)
next
  case hdr: False
  have len14: "14 \<le> length bs" using hdr len by (simp add: word_less_nat_alt)
  define ds' :: u32 where "ds' = (if ds > 0xfffe then 0xfffe else ds)"
  have ds': "unat ds' \<le> 0xfffe" "unat ds' \<le> length bs" "14 \<le> unat ds'"
    using hdr len by (auto simp: ds'_def word_less_nat_alt not_less)
  define bo where "bo = take 2 (drop 6 bs)"
  define ord where "ord = (if bo = [0x49, 0x49] then EXIF_BYTE_ORDER_INTEL else EXIF_BYTE_ORDER_MOTOROLA)"
  have rd: "rd_range (Buf bs) 0 6 = Some ExifHeader" "rd_range (Buf bs) 6 2 = Some bo"
    using len14 hdr by (simp_all add: bo_def)
  have g: "exif_get_short (Buf bs) 8 ord = Some (dec16 ord (take 2 (drop 8 bs)))"
      "exif_get_long (Buf bs) 10 ord = Some (dec32 ord (take 4 (drop 10 bs)))"
    using len14 by (simp_all add: get_short_Buf get_long_Buf)
  have n6: "\<not> ds < 6" and n14: "\<not> (ExifHeader \<noteq> ExifHeader \<or> ds < 14)" using hdr by simp_all
  have rest: "\<exists>data' r. load_ifds_at al (Buf bs) ds' (dec32 ord (take 4 (drop 10 bs))) (data\<lparr>ed_order := ord\<rparr>) = Some (data', r)
      \<and> data_ok data'"
    using ok by (intro load_ifds_at_ok [OF _ al ds']) simp
  have eq: "load_tiff al (Buf bs) ds data =
     (if bo \<noteq> [0x49, 0x49] \<and> bo \<noteq> [0x4d, 0x4d] then Some (data, False)
      else if dec16 ord (take 2 (drop 8 bs)) \<noteq> 0x002a then Some (data\<lparr>ed_order := ord\<rparr>, False)
      else load_ifds_at al (Buf bs) ds' (dec32 ord (take 4 (drop 10 bs))) (data\<lparr>ed_order := ord\<rparr>))"
    by (simp only: load_tiff_def rd g Let_def Option.bind.simps ds'_def [symmetric] ord_def [symmetric] n6 n14 if_False)
  show ?thesis unfolding eq using rest ok by simp
qed

text \<open>
  C3. Loading EXIF data from any bytes at all is memory safe and keeps the invariant. Whatever the
  buffer holds (a JPEG file, bare EXIF data, random bytes, cyclic or overlapping directories, counts and offsets that
  wrap around), every access stays inside the buffer and the allocated blocks, the loader returns, and
  afterwards every directory holds its entries once per tag, each owned by it with one reference and with
  data of the size that its format and count promise; no entry leaks. The data blocks may fail to be
  allocated; only the entries themselves must not.
\<close>

theorem load_data_safe:
  assumes "data_ok data" and "entry_mem_ok al" and "unat ds \<le> length bs"
  shows "\<exists>data' more. load_data_ifds al (Buf bs) ds data = Some (data', more) \<and> data_ok data'"
proof (cases "ds = 0 \<or> ds < 6")
  case True
  then show ?thesis using assms(1) by (auto simp: load_data_ifds_def)
next
  case False
  have len: "6 \<le> length bs" using False assms(3) by (simp add: word_less_nat_alt)
  have tiff: "\<exists>data' r. load_tiff al (Buf (drop p bs)) (of_nat n) data = Some (data', r) \<and> data_ok data'"
    if "p + n \<le> unat ds" for p n
  proof (rule load_tiff_ok [OF assms(1,2)])
    have "n < 2 ^ 32" using that unat_u32 [of ds] by simp
    then show "unat (of_nat n :: u32) \<le> length (drop p bs)" using that assms(3) by (simp add: unat_of_nat)
  qed
  obtain r where r: "find_app1 (Buf bs) 0 (unat ds) = Some r" "\<And>q m. r = Some (q, m) \<Longrightarrow> q + m = unat ds"
    using find_app1_ok [of 0 "unat ds" bs] assms(3) by auto
  show ?thesis
  proof (cases "take 6 bs = ExifHeader")
    case True
    then show ?thesis using False len tiff [of 0 "unat ds"] by (simp add: load_data_ifds_def)
  next
    case no: False
    show ?thesis
    proof (cases r)
      case None
      then show ?thesis using False len no r(1) assms(1) by (simp add: load_data_ifds_def)
    next
      case (Some qm)
      obtain q m where qm: "r = Some (q, m)" using Some by (cases qm) auto
      show ?thesis
      proof (cases "m < 3")
        case True
        then show ?thesis using False len no r(1) qm assms(1) by (simp add: load_data_ifds_def)
      next
        case big: False
        have "q + m \<le> length bs" using r(2) [OF qm] assms(3) by simp
        then show ?thesis
          using False len no r(1) qm big tiff [of "q + 3" "m - 3"] r(2) [OF qm]
          by (simp add: load_data_ifds_def)
      qed
    qed
  qed
qed

text \<open>New data satisfies the invariant: five empty directories and an empty store.\<close>

lemma exif_content_new_mem_heap:
  "exif_content_new_mem al s = (r, s') \<Longrightarrow> st_heap s' = st_heap s \<and> (\<forall>c. r = Some c \<longrightarrow> c_entries c = [])"
  by (auto simp: exif_content_new_mem_def exif_mem_alloc_def split: if_splits)

lemma new_contents_heap:
  "new_contents al n s = (r, s') \<Longrightarrow>
     st_heap s' = st_heap s \<and> (\<forall>cs. r = Some cs \<longrightarrow> length cs = n \<and> (\<forall>c \<in> set cs. c_entries c = []))"
proof (induction n arbitrary: s r s')
  case 0
  then show ?case by auto
next
  case (Suc n)
  obtain r1 s1 where 1: "exif_content_new_mem al s = (r1, s1)" by fastforce
  obtain r2 s2 where 2: "new_contents al n s1 = (r2, s2)" by fastforce
  show ?case
    using Suc.prems 1 2 exif_content_new_mem_heap [OF 1] Suc.IH [OF 2] by (auto split: option.splits)
qed

lemma exif_data_new_ok:
  assumes "st_heap s = Map.empty" and new: "exif_data_new_mem al s = Some data"
  shows "data_ok data"
proof -
  let ?s1 = "s\<lparr>st_clock := st_clock s + 2\<rparr>"
  have s1: "st_heap ?s1 = Map.empty" using assms(1) by simp
  obtain cs s' where nc: "new_contents al EXIF_IFD_COUNT ?s1 = (Some cs, s')"
      "ed_ifd data = cs" "ed_store data = s'" "ed_data data = NULL" "ed_size data = 0"
    using new by (auto simp: exif_data_new_mem_def exif_mem_alloc_def exif_data_set_option_def exif_data_set_data_type_def
        split: if_splits option.splits prod.splits)
  from new_contents_heap [OF nc(1)] s1 have h: "st_heap s' = Map.empty" "length cs = EXIF_IFD_COUNT"
      "\<forall>c \<in> set cs. c_entries c = []" by auto
  then have "c_entries (cs ! i) = []" if "i < EXIF_IFD_COUNT" for i using that nth_mem by metis
  with h show ?thesis by (simp add: data_ok_def ifds_ok_def thumb_ok_def nc content_ok_def)
qed

definition new_data :: ExifData where
  "new_data = the (exif_data_new_mem mem_ok \<lparr>st_heap = Map.empty, st_clock = 0\<rparr>)"

lemma new_data_ok: "data_ok new_data"
proof -
  have "exif_data_new_mem mem_ok \<lparr>st_heap = Map.empty, st_clock = 0\<rparr> \<noteq> None"
    by (simp add: exif_data_new_mem_def exif_mem_alloc_def mem_ok_def exif_content_new_mem_def numeral_eq_Suc)
  then obtain d where "exif_data_new_mem mem_ok \<lparr>st_heap = Map.empty, st_clock = 0\<rparr> = Some d" by blast
  then show ?thesis using exif_data_new_ok [of "\<lparr>st_heap = Map.empty, st_clock = 0\<rparr>"] by (simp add: new_data_def)
qed

theorem load_data_safe_witness:
  "\<exists>data' more. load_data_ifds mem_ok (Buf (ExifHeader @ [0x4d, 0x4d, 0, 42, 0, 0, 0, 8, 0, 1,
       0x87, 0x69, 0, 4, 0, 0, 0, 1, 0, 0, 0, 8, 0, 0, 0, 8])) 32 new_data = Some (data', more) \<and> data_ok data'"
  by (rule load_data_safe [OF new_data_ok]) (simp_all add: entry_mem_ok_def mem_ok_def ExifHeader_def)

text \<open>
  What loading one entry does, exactly. The entry is accepted if and only if its format is known, its
  count is not zero and all its data lie inside the buffer, all computed without
  wrap-around although the code's arithmetic wraps; an accepted entry has the tag, format and
  count that stand in the file in the given byte order and a copy of the data that its offset points to, or of the
  bytes in the entry itself if there are at most four.
\<close>

theorem load_entry_correct:
  assumes "unat offset + 12 \<le> unat ds" and "unat ds \<le> 0xfffe" and "unat ds \<le> length bs"
    and "st_heap (ed_store data) a = Some zero_entry" and "ord = ed_order data" and "p = unat offset"
    and "al (st_clock (ed_store data)) (entry_bytes ord bs p)"
  shows "\<exists>data'. exif_data_load_data_entry al (Buf bs) ds offset (Some a) data = Some (entry_fits ord bs (unat ds) p, data') \<and>
    (entry_fits ord bs (unat ds) p \<longrightarrow>
      st_heap (ed_store data') a = Some \<lparr>e_tag = entry_tag ord bs p, e_format = entry_format ord bs p,
        e_components = entry_components ord bs p,
        e_data = Buf (take (entry_bytes ord bs p) (drop (entry_pos ord bs p) bs)),
        e_size = of_nat (entry_bytes ord bs p), e_parent = None, e_ref_count = 1\<rparr>)"
proof -
  have "st_heap (ed_store (entry_loaded a e q data)) a = Some e" for e q
    by (simp add: entry_loaded_def put_entry_def Let_def)
  then show ?thesis
    using assms(7) unfolding load_entry_eq [OF assms(1-6)]
    by (simp add: full_entry_def head_entry_def zero_entry_def)
qed

theorem load_entry_correct_witness:
  "\<exists>data'. exif_data_load_data_entry mem_ok (Buf [0x01, 0x12, 0, 3, 0, 0, 0, 1, 0, 6, 0, 0]) 12 0 (Some 3)
       (new_data\<lparr>ed_order := EXIF_BYTE_ORDER_MOTOROLA, ed_store := \<lparr>st_heap = [3 \<mapsto> zero_entry], st_clock = 4\<rparr>\<rparr>)
     = Some (True, data') \<and> map_option e_data (st_heap (ed_store data') 3) = Some (Buf [0, 6])"
proof -
  let ?bs = "[0x01, 0x12, 0, 3, 0, 0, 0, 1, 0, 6, 0, 0] :: bytes"
  let ?d = "new_data\<lparr>ed_order := EXIF_BYTE_ORDER_MOTOROLA, ed_store := \<lparr>st_heap = [3 \<mapsto> zero_entry], st_clock = 4\<rparr>\<rparr>"
  have f: "entry_format EXIF_BYTE_ORDER_MOTOROLA ?bs 0 = 3" and c: "entry_components EXIF_BYTE_ORDER_MOTOROLA ?bs 0 = 1"
    by (simp_all add: entry_format_def entry_components_def dec16_def dec32_def join16_def join32_def)
  have n: "entry_bytes EXIF_BYTE_ORDER_MOTOROLA ?bs 0 = 2"
    by (simp add: entry_bytes_def f c exif_format_get_size_def ExifFormatTable_def)
  have p: "entry_pos EXIF_BYTE_ORDER_MOTOROLA ?bs 0 = 8" by (simp add: entry_pos_def n)
  show ?thesis
    using load_entry_correct [of 0 12 ?bs ?d 3 EXIF_BYTE_ORDER_MOTOROLA 0 mem_ok]
    by (auto simp: mem_ok_def entry_fits_def n p)
qed

text \<open>
  The loader does not look at the result of \<open>exif_entry_new_mem\<close>: when the memory for an entry runs out, it
  writes the entry through the null pointer.
\<close>

theorem load_entry_null_deref:
  assumes "exif_entry_new_mem al (ed_store data) = (None, s)"
  shows "load_new_entry al d ds ifd offset data = None"
  using assms by (simp add: load_new_entry_def exif_data_load_data_entry_def)

theorem load_entry_null_deref_witness:
  "load_new_entry (\<lambda>k n. n \<noteq> 28) (Buf (replicate 12 0)) 12 0 0 new_data = None"
  by (rule load_entry_null_deref [where s = "(ed_store new_data)\<lparr>st_clock := st_clock (ed_store new_data) + 1\<rparr>"])
    (simp add: exif_entry_new_mem_def exif_mem_alloc_def)

end
