(* ===== verification/Exif_Loader.thy ===== *)
theory Exif_Loader
  imports Exif_Data
begin

text \<open>
  The incremental reader of \<^verbatim>\<open>libexifa/exif-loader.c\<close>: a state machine that is given a file in
  pieces, looks for the EXIF data in it and collects them. It has a small buffer of twelve bytes
  that is filled before it is scanned; bytes to skip do not pass through it.

  A piece is a buffer with the position reached in it and the number of bytes that are left,
  as \<open>buf\<close> and \<open>len\<close> of the code. Log messages are left out.
\<close>

section \<open>The reader\<close>

datatype ExifLoaderState = EL_READ | EL_READ_SIZE_BYTE_24 | EL_READ_SIZE_BYTE_16
  | EL_READ_SIZE_BYTE_08 | EL_READ_SIZE_BYTE_00 | EL_SKIP_BYTES | EL_EXIF_FOUND

datatype ExifLoaderDataFormat = EL_DATA_FORMAT_UNKNOWN | EL_DATA_FORMAT_EXIF
  | EL_DATA_FORMAT_JPEG | EL_DATA_FORMAT_FUJI_RAW

text \<open>\<open>l_store\<close> stands for \<open>mem\<close>: it counts the requests for memory.\<close>

record ExifLoader =
  l_state :: ExifLoaderState
  l_format :: ExifLoaderDataFormat
  l_b :: cbuf
  l_b_len :: u8
  l_size :: u32
  l_buf :: cbuf
  l_bytes_read :: u32
  l_ref_count :: u32
  l_store :: Store

definition exif_loader_new_mem :: "alloc \<Rightarrow> Store \<Rightarrow> ExifLoader option \<times> Store" where
  "exif_loader_new_mem al s =
    (case exif_mem_alloc al 48 s of
       (None, s) \<Rightarrow> (None, s)
     | (Some _, s) \<Rightarrow>
         (Some \<lparr>l_state = EL_READ, l_format = EL_DATA_FORMAT_UNKNOWN, l_b = Buf (replicate 12 0), l_b_len = 0,
            l_size = 0, l_buf = NULL, l_bytes_read = 0, l_ref_count = 1, l_store = s\<rparr>, s))"

definition exif_loader_reset :: "ExifLoader \<Rightarrow> ExifLoader" where
  "exif_loader_reset l =
     l\<lparr>l_buf := NULL, l_size := 0, l_bytes_read := 0, l_state := EL_READ, l_b_len := 0,
       l_format := EL_DATA_FORMAT_UNKNOWN\<rparr>"

definition exif_loader_ref :: "ExifLoader \<Rightarrow> ExifLoader" where
  "exif_loader_ref l = l\<lparr>l_ref_count := l_ref_count l + 1\<rparr>"

text \<open>\<open>None\<close>: the last reference is gone and the reader is freed.\<close>

definition exif_loader_unref :: "ExifLoader \<Rightarrow> ExifLoader option" where
  "exif_loader_unref l =
     (let l = l\<lparr>l_ref_count := l_ref_count l - 1\<rparr> in if l_ref_count l = 0 then None else Some l)"

definition exif_loader_get_buf :: "ExifLoader \<Rightarrow> cbuf \<times> u32" where
  "exif_loader_get_buf l =
     (if l_format l = EL_DATA_FORMAT_UNKNOWN then (NULL, 0) else (l_buf l, l_bytes_read l))"

section \<open>Copying\<close>

definition exif_loader_alloc :: "alloc \<Rightarrow> ExifLoader \<Rightarrow> u32 \<Rightarrow> cbuf \<times> ExifLoader" where
  "exif_loader_alloc al l i =
    (if i = 0 then (NULL, l)
     else case exif_mem_alloc al (unat i) (l_store l) of
       (None, s) \<Rightarrow> (NULL, l\<lparr>l_store := s\<rparr>)
     | (Some _, s) \<Rightarrow> (Buf (replicate (unat i) 0), l\<lparr>l_store := s\<rparr>))"

definition exif_loader_copy ::
  "alloc \<Rightarrow> ExifLoader \<Rightarrow> cbuf \<Rightarrow> nat \<Rightarrow> u32 \<Rightarrow> (u8 \<times> ExifLoader) option" where
  "exif_loader_copy al l buf p len =
    (if (len \<noteq> 0 \<and> buf = NULL) \<or> l_bytes_read l \<ge> l_size l then Some (0, l)
     else
       let l = (if l_buf l = NULL
                then (case exif_loader_alloc al l (l_size l) of (b, l) \<Rightarrow> l\<lparr>l_buf := b\<rparr>) else l) in
       if l_buf l = NULL then Some (0, l)
       else do {
         let len = min len (l_size l - l_bytes_read l);
         bs \<leftarrow> rd_range buf p (unat len);
         b \<leftarrow> wr_range (l_buf l) (unat (l_bytes_read l)) bs;
         let l = l\<lparr>l_buf := b, l_bytes_read := l_bytes_read l + len\<rparr>;
         Some (if l_bytes_read l \<ge> l_size l then 0 else 1, l) })"

section \<open>Scanning the small buffer\<close>

abbreviation (input) JPEG_MARKER_DHT :: u8 where "JPEG_MARKER_DHT \<equiv> 0xc4"
abbreviation (input) JPEG_MARKER_SOI :: u8 where "JPEG_MARKER_SOI \<equiv> 0xd8"
abbreviation (input) JPEG_MARKER_DQT :: u8 where "JPEG_MARKER_DQT \<equiv> 0xdb"
abbreviation (input) JPEG_MARKER_APP0 :: u8 where "JPEG_MARKER_APP0 \<equiv> 0xe0"
abbreviation (input) JPEG_MARKER_APP1 :: u8 where "JPEG_MARKER_APP1 \<equiv> 0xe1"
abbreviation (input) JPEG_MARKER_APP2 :: u8 where "JPEG_MARKER_APP2 \<equiv> 0xe2"
abbreviation (input) JPEG_MARKER_APP13 :: u8 where "JPEG_MARKER_APP13 \<equiv> 0xed"
abbreviation (input) JPEG_MARKER_COM :: u8 where "JPEG_MARKER_COM \<equiv> 0xfe"

text \<open>The last byte of a size: what the size is of.\<close>

definition scan_size_done :: "ExifLoader \<Rightarrow> ExifLoader" where
  "scan_size_done l =
    (case l_format l of
       EL_DATA_FORMAT_JPEG \<Rightarrow> l\<lparr>l_state := EL_SKIP_BYTES, l_size := l_size l - 2\<rparr>
     | EL_DATA_FORMAT_FUJI_RAW \<Rightarrow>
         l\<lparr>l_format := EL_DATA_FORMAT_EXIF, l_state := EL_SKIP_BYTES, l_size := l_size l - 86\<rparr>
     | EL_DATA_FORMAT_EXIF \<Rightarrow> l\<lparr>l_state := EL_EXIF_FOUND\<rparr>
     | EL_DATA_FORMAT_UNKNOWN \<Rightarrow> l)"

text \<open>
  A byte in the state \<open>EL_READ\<close>; the flag is \<open>False\<close> when the code gives up and returns 0. The
  comparison with the EXIF header covers only the bytes that are in the small buffer, none at all
  when the marker is among its last three.
\<close>

definition scan_marker :: "nat \<Rightarrow> ExifLoader \<Rightarrow> (bool \<times> ExifLoader) option" where
  "scan_marker i l =
    do { m \<leftarrow> rd (l_b l) i;
         if m = JPEG_MARKER_APP1
         then do {
           let n = min 6 (12 - i - 3);
           h \<leftarrow> (if n = 0 then Some [] else rd_range (l_b l) (i + 3) n);
           let fmt = (if h = take n ExifHeader then EL_DATA_FORMAT_EXIF else EL_DATA_FORMAT_JPEG);
           Some (True, l\<lparr>l_format := fmt, l_size := 0, l_state := EL_READ_SIZE_BYTE_08\<rparr>) }
         else if m \<in> {JPEG_MARKER_DHT, JPEG_MARKER_DQT, JPEG_MARKER_APP0, JPEG_MARKER_APP2,
                      JPEG_MARKER_APP13, JPEG_MARKER_COM}
         then Some (True, l\<lparr>l_format := EL_DATA_FORMAT_JPEG, l_size := 0, l_state := EL_READ_SIZE_BYTE_08\<rparr>)
         else if m = 0xff \<or> m = JPEG_MARKER_SOI then Some (True, l)
         else Some (False, exif_loader_reset l) }"

text \<open>One round of the loop in a state other than \<open>EL_EXIF_FOUND\<close>.\<close>

definition scan_byte :: "nat \<Rightarrow> ExifLoader \<Rightarrow> (bool \<times> ExifLoader) option" where
  "scan_byte i l =
    (case l_state l of
       EL_SKIP_BYTES \<Rightarrow>
         let l = l\<lparr>l_size := l_size l - 1\<rparr> in
         Some (True, if l_size l = 0 then l\<lparr>l_state := EL_READ\<rparr> else l)
     | EL_READ_SIZE_BYTE_24 \<Rightarrow>
         do { x \<leftarrow> rd (l_b l) i;
              Some (True, l\<lparr>l_size := l_size l OR push_bit 24 (ucast x), l_state := EL_READ_SIZE_BYTE_16\<rparr>) }
     | EL_READ_SIZE_BYTE_16 \<Rightarrow>
         do { x \<leftarrow> rd (l_b l) i;
              Some (True, l\<lparr>l_size := l_size l OR push_bit 16 (ucast x), l_state := EL_READ_SIZE_BYTE_08\<rparr>) }
     | EL_READ_SIZE_BYTE_08 \<Rightarrow>
         do { x \<leftarrow> rd (l_b l) i;
              Some (True, l\<lparr>l_size := l_size l OR push_bit 8 (ucast x), l_state := EL_READ_SIZE_BYTE_00\<rparr>) }
     | EL_READ_SIZE_BYTE_00 \<Rightarrow>
         do { x \<leftarrow> rd (l_b l) i; Some (True, scan_size_done (l\<lparr>l_size := l_size l OR ucast x\<rparr>)) }
     | _ \<Rightarrow> scan_marker i l)"

text \<open>
  The loop over the small buffer: \<open>Some r\<close> is a \<open>return r\<close> in it, \<open>None\<close> its end. \<open>n\<close> rounds are
  left.
\<close>

fun scan_loop ::
  "alloc \<Rightarrow> cbuf \<Rightarrow> nat \<Rightarrow> u32 \<Rightarrow> nat \<Rightarrow> ExifLoader \<Rightarrow> (u8 option \<times> ExifLoader) option" where
  "scan_loop al buf p len 0 l = Some (None, l)"
| "scan_loop al buf p len (Suc n) l =
    (if l_state l = EL_EXIF_FOUND
     then do { (r, l) \<leftarrow> exif_loader_copy al l (l_b l) (11 - n) (of_nat (Suc n));
               if r = 0 then Some (Some 0, l)
               else do { (r, l) \<leftarrow> exif_loader_copy al l buf p len; Some (Some r, l) } }
     else do { (go, l) \<leftarrow> scan_byte (11 - n) l;
               if go then scan_loop al buf p len n l else Some (Some 0, l) })"

section \<open>Writing a piece\<close>

text \<open>The bytes to skip at the start of a piece; \<open>None\<close> when the whole piece is skipped.\<close>

definition loader_skip :: "nat \<Rightarrow> u32 \<Rightarrow> ExifLoader \<Rightarrow> (nat \<times> u32) option \<times> ExifLoader" where
  "loader_skip p len l =
    (if l_state l \<noteq> EL_SKIP_BYTES then (Some (p, len), l)
     else if l_size l > len then (None, l\<lparr>l_size := l_size l - len\<rparr>)
     else (Some (p + unat (l_size l), len - l_size l),
           l\<lparr>l_size := 0, l_b_len := 0,
             l_state := (if l_format l = EL_DATA_FORMAT_FUJI_RAW then EL_READ_SIZE_BYTE_24 else EL_READ)\<rparr>))"

text \<open>Filling the small buffer; \<open>None\<close> when the piece ends before it is full.\<close>

definition loader_fill :: "cbuf \<Rightarrow> nat \<Rightarrow> u32 \<Rightarrow> ExifLoader \<Rightarrow> ((nat \<times> u32) option \<times> ExifLoader) option" where
  "loader_fill buf p len l =
    (let i = min len (12 - ucast (l_b_len l)) in
     if i = 0 then Some (Some (p, len), l)
     else do {
       bs \<leftarrow> rd_range buf p (unat i);
       b \<leftarrow> wr_range (l_b l) (unat (l_b_len l)) bs;
       let l = l\<lparr>l_b := b, l_b_len := l_b_len l + ucast i\<rparr>;
       Some (if l_b_len l < 12 then None else Some (p + unat i, len - i), l) })"

text \<open>The test of the full buffer against the known formats.\<close>

definition FUJIFILM :: bytes where
  "FUJIFILM = [0x46, 0x55, 0x4a, 0x49, 0x46, 0x49, 0x4c, 0x4d]"

definition loader_detect :: "ExifLoader \<Rightarrow> ExifLoader option" where
  "loader_detect l =
    (if l_format l \<noteq> EL_DATA_FORMAT_UNKNOWN then Some l
     else do {
       f \<leftarrow> rd_range (l_b l) 0 8;
       h \<leftarrow> rd_range (l_b l) 2 6;
       Some (if f = FUJIFILM
             then l\<lparr>l_format := EL_DATA_FORMAT_FUJI_RAW, l_size := 84, l_state := EL_SKIP_BYTES\<rparr>
             else if h = ExifHeader
             then l\<lparr>l_format := EL_DATA_FORMAT_EXIF, l_state := EL_READ_SIZE_BYTE_08\<rparr>
             else l) })"

lemma loader_skip_len:
  "loader_skip p len l = (Some (p', len'), l') \<Longrightarrow>
   unat len' + unat (l_b_len l') \<le> unat len + unat (l_b_len l)"
  by (auto simp: loader_skip_def not_less word_le_nat_alt unat_sub split: if_splits)

lemma loader_fill_len:
  assumes "loader_fill buf p len l = Some (Some (p', len'), l')" and "len \<noteq> 0"
  shows "unat len' < unat len + unat (l_b_len l)"
proof (cases "min len (12 - ucast (l_b_len l)) = 0")
  case True
  then have "12 - ucast (l_b_len l) = (0 :: u32)"
    using assms(2) by (auto simp: min_def split: if_splits)
  then have "unat (l_b_len l) \<noteq> 0" by (auto simp: unat_eq_zero)
  then show ?thesis using assms True by (auto simp: loader_fill_def)
next
  case False
  have "unat (len - min len (12 - ucast (l_b_len l))) = unat len - unat (min len (12 - ucast (l_b_len l)))"
    by (simp add: unat_sub)
  moreover have "0 < unat (min len (12 - ucast (l_b_len l)))" using False unat_gt_0 by blast
  moreover have "0 < unat len" using assms(2) unat_gt_0 by blast
  ultimately show ?thesis
    using assms(1) False by (auto simp: loader_fill_def Let_def split: bind_splits if_splits)
qed

function exif_loader_write ::
  "alloc \<Rightarrow> ExifLoader \<Rightarrow> cbuf \<Rightarrow> nat \<Rightarrow> u32 \<Rightarrow> (u8 \<times> ExifLoader) option" where
  "exif_loader_write al l buf p len =
    (if len \<noteq> 0 \<and> buf = NULL then Some (0, l)
     else if l_state l = EL_EXIF_FOUND then exif_loader_copy al l buf p len
     else case loader_skip p len l of
       (None, l) \<Rightarrow> Some (1, l)
     | (Some (p, len), l) \<Rightarrow>
         if len = 0 then Some (1, l)
         else do {
           (full, l) \<leftarrow> loader_fill buf p len l;
           case full of
             None \<Rightarrow> Some (1, l)
           | Some (p, len) \<Rightarrow>
               do { l \<leftarrow> loader_detect l;
                    (r, l) \<leftarrow> scan_loop al buf p len 12 l;
                    case r of
                      Some r \<Rightarrow> Some (r, l)
                    | None \<Rightarrow> exif_loader_write al (l\<lparr>l_b_len := 0\<rparr>) buf p len } })"
  by pat_completeness auto
termination
  by (relation "measure (\<lambda>(al, l, buf, p, len). unat len + unat (l_b_len l))")
     (auto dest!: loader_skip_len loader_fill_len dest: sym)

declare exif_loader_write.simps [simp del]

text \<open>
  Reading a file in pieces of at most 1024 bytes. The file is what the successive calls of
  \<open>fread\<close> deliver, \<open>None\<close> when it cannot be opened.
\<close>

fun write_pieces :: "alloc \<Rightarrow> cbuf \<Rightarrow> bytes list \<Rightarrow> ExifLoader \<Rightarrow> ExifLoader option" where
  "write_pieces al data [] l = Some l"
| "write_pieces al data (c # cs) l =
    (if c = [] then Some l
     else do {
       data \<leftarrow> wr_range data 0 c;
       (r, l) \<leftarrow> exif_loader_write al l data 0 (of_nat (length c));
       if r = 0 then Some l else write_pieces al data cs l })"

definition exif_loader_write_file :: "alloc \<Rightarrow> bytes list option \<Rightarrow> ExifLoader \<Rightarrow> ExifLoader option" where
  "exif_loader_write_file al f l =
    (case f of None \<Rightarrow> Some l | Some cs \<Rightarrow> write_pieces al (Buf (replicate 1024 0)) cs l)"

section \<open>A piece is the bytes it has left\<close>

text \<open>Two pieces with the same bytes left.\<close>

definition same_piece :: "cbuf \<Rightarrow> nat \<Rightarrow> cbuf \<Rightarrow> nat \<Rightarrow> u32 \<Rightarrow> bool" where
  "same_piece b p c q len \<longleftrightarrow> b \<noteq> NULL \<and> c \<noteq> NULL \<and> p + unat len \<le> blen b \<and> q + unat len \<le> blen c \<and>
     take (unat len) (drop p (bbytes b)) = take (unat len) (drop q (bbytes c))"

lemma same_piece_rd_range:
  assumes "same_piece b p c q len" and "n \<le> unat len"
  shows "rd_range b p n = rd_range c q n"
proof -
  have "take n (take (unat len) (drop p (bbytes b))) = take n (take (unat len) (drop q (bbytes c)))"
    using assms(1) by (simp add: same_piece_def)
  with assms(2) have "take n (drop p (bbytes b)) = take n (drop q (bbytes c))" by (simp add: min_absorb1)
  with assms show ?thesis
    by (cases b; cases c) (auto simp: same_piece_def)
qed

lemma same_piece_advance:
  assumes "same_piece b p c q len" and "i \<le> len"
  shows "same_piece b (p + unat i) c (q + unat i) (len - i)"
proof -
  have u: "unat (len - i) = unat len - unat i" "unat i \<le> unat len"
    using assms(2) by (simp_all add: unat_sub word_le_nat_alt)
  have "drop (unat i) (take (unat len) (drop p (bbytes b))) = drop (unat i) (take (unat len) (drop q (bbytes c)))"
    using assms(1) by (simp add: same_piece_def)
  then have "take (unat len - unat i) (drop (p + unat i) (bbytes b)) = take (unat len - unat i) (drop (q + unat i) (bbytes c))"
    by (simp add: drop_take add.commute)
  with assms(1) u show ?thesis
    by (simp add: same_piece_def)
qed

lemma same_piece_copy:
  assumes "same_piece b p c q len"
  shows "exif_loader_copy al l b p len = exif_loader_copy al l c q len"
proof -
  have nn: "b \<noteq> NULL" "c \<noteq> NULL" using assms by (auto simp: same_piece_def)
  have "\<And>k. rd_range b p (unat (min len k)) = rd_range c q (unat (min len k))"
    by (rule same_piece_rd_range [OF assms]) (simp add: min_def word_le_nat_alt)
  with nn show ?thesis by (simp add: exif_loader_copy_def Let_def)
qed

lemma same_piece_scan:
  assumes "same_piece b p c q len"
  shows "scan_loop al b p len n l = scan_loop al c q len n l"
proof (induction n arbitrary: l)
  case (Suc n)
  then have "scan_loop al b p len n = scan_loop al c q len n" by blast
  then show ?case by (simp add: same_piece_copy [OF assms] cong: if_cong)
qed simp

lemma same_piece_skip:
  assumes "same_piece b p c q len" and "loader_skip p len l = (Some (p', len'), l')"
  obtains q' where "loader_skip q len l = (Some (q', len'), l')" and "same_piece b p' c q' len'"
proof (cases "l_state l = EL_SKIP_BYTES")
  case False
  then show ?thesis using assms that [of q] by (simp add: loader_skip_def)
next
  case True
  then have "\<not> l_size l > len" using assms(2) by (auto simp: loader_skip_def)
  then have "same_piece b (p + unat (l_size l)) c (q + unat (l_size l)) (len - l_size l)"
    using same_piece_advance [OF assms(1), of "l_size l"] by (simp add: not_less)
  then show ?thesis
    using assms(2) True that [of "q + unat (l_size l)"] by (auto simp: loader_skip_def split: if_splits)
qed

lemma same_piece_fill:
  assumes "same_piece b p c q len"
  shows "loader_fill b p len l = None \<and> loader_fill c q len l = None \<or>
    (\<exists>l'. loader_fill b p len l = Some (None, l') \<and> loader_fill c q len l = Some (None, l')) \<or>
    (\<exists>p' q' len' l'. loader_fill b p len l = Some (Some (p', len'), l') \<and>
       loader_fill c q len l = Some (Some (q', len'), l') \<and> same_piece b p' c q' len')"
proof -
  define i where "i = min len (12 - ucast (l_b_len l))"
  have i: "i \<le> len" by (simp add: i_def)
  have r: "rd_range b p (unat i) = rd_range c q (unat i)"
    using i by (intro same_piece_rd_range [OF assms]) (simp add: word_le_nat_alt)
  have a: "same_piece b (p + unat i) c (q + unat i) (len - i)"
    using same_piece_advance [OF assms i] .
  show ?thesis
    unfolding loader_fill_def Let_def i_def [symmetric] r
    using a assms by (auto split: bind_split)
qed

lemma same_piece_skip_None:
  "loader_skip p len l = (None, l') \<longleftrightarrow> loader_skip q len l = (None, l')"
  by (simp add: loader_skip_def)

lemma same_piece_write:
  assumes "same_piece b p c q len"
  shows "exif_loader_write al l b p len = exif_loader_write al l c q len"
  using assms
proof (induction al l b p len arbitrary: q rule: exif_loader_write.induct)
  case (1 al l b p len)
  note sp = "1.prems"
  have nn: "b \<noteq> NULL" "c \<noteq> NULL" using sp by (auto simp: same_piece_def)
  show ?case
  proof (cases "l_state l = EL_EXIF_FOUND")
    case True
    then show ?thesis
      using nn same_piece_copy [OF sp]
      by (simp add: exif_loader_write.simps [of al l b] exif_loader_write.simps [of al l c])
  next
    case nf: False
    obtain o1 l1 where sk: "loader_skip p len l = (o1, l1)" by fastforce
    show ?thesis
    proof (cases o1)
      case None
      then have "loader_skip q len l = (None, l1)"
        using sk same_piece_skip_None by metis
      then show ?thesis
        using nn nf sk None
        by (simp add: exif_loader_write.simps [of al l b] exif_loader_write.simps [of al l c])
    next
      case (Some pl)
      then obtain p1 len1 where sk: "loader_skip p len l = (Some (p1, len1), l1)"
        using sk by (cases pl) auto
      then obtain q1 where sk': "loader_skip q len l = (Some (q1, len1), l1)" and sp1: "same_piece b p1 c q1 len1"
        using same_piece_skip [OF sp] by blast
      note IH = "1.IH" [OF _ nf sk [symmetric] refl refl]
      show ?thesis
        using same_piece_fill [OF sp1, of l1]
      proof (elim disjE exE conjE)
        fix p2 q2 len2 l2
        assume f: "loader_fill b p1 len1 l1 = Some (Some (p2, len2), l2)"
          "loader_fill c q1 len1 l1 = Some (Some (q2, len2), l2)" "same_piece b p2 c q2 len2"
        have "len1 \<noteq> 0 \<Longrightarrow> exif_loader_write al (l3\<lparr>l_b_len := 0\<rparr>) b p2 len2 = exif_loader_write al (l3\<lparr>l_b_len := 0\<rparr>) c q2 len2"
          if "loader_detect l2 = Some l'" "scan_loop al b p2 len2 12 l' = Some (None, l3)" for l' l3
          using IH [OF _ _ f(1) refl refl refl that refl refl, of q2] f(3) nn by simp
        then show ?thesis
          using nn nf sk sk' f same_piece_scan [OF f(3)]
          by (auto simp: exif_loader_write.simps [of al l b] exif_loader_write.simps [of al l c]
                split: bind_split option.split)
      qed (use nn nf sk sk' in \<open>simp_all add: exif_loader_write.simps [of al l b] exif_loader_write.simps [of al l c]\<close>)
    qed
  qed
qed

declare rd_range_length [simp del] wr_range_blen [simp del] wr_blen [simp del]

definition feed :: "alloc \<Rightarrow> bytes \<Rightarrow> ExifLoader \<Rightarrow> (u8 \<times> ExifLoader) option" where
  "feed al xs l = exif_loader_write al l (Buf xs) 0 (of_nat (length xs))"

definition copy_in :: "alloc \<Rightarrow> bytes \<Rightarrow> ExifLoader \<Rightarrow> (u8 \<times> ExifLoader) option" where
  "copy_in al xs l = exif_loader_copy al l (Buf xs) 0 (of_nat (length xs))"

abbreviation (input) small :: "bytes \<Rightarrow> bool" where
  "small xs \<equiv> length xs < 2 ^ 32"

lemma same_piece_list:
  "p + unat len \<le> length bs \<Longrightarrow> same_piece (Buf bs) p (Buf (take (unat len) (drop p bs))) 0 len"
  by (simp add: same_piece_def)

lemma unat_piece [simp]: "length xs < 4294967296 \<Longrightarrow> unat (word_of_nat (length xs) :: u32) = length xs"
  by (rule unat_word_of_nat_32) simp

lemma write_feed:
  assumes "p + unat len \<le> length bs"
  shows "exif_loader_write al l (Buf bs) p len = feed al (take (unat len) (drop p bs)) l"
  using same_piece_write [OF same_piece_list [OF assms]] assms by (simp add: feed_def)

lemma copy_copy_in:
  assumes "p + unat len \<le> length bs"
  shows "exif_loader_copy al l (Buf bs) p len = copy_in al (take (unat len) (drop p bs)) l"
  using same_piece_copy [OF same_piece_list [OF assms]] assms by (simp add: copy_in_def)

section \<open>Copying collects the bytes in order\<close>

text \<open>The buffer is absent and nothing is read, or it has the announced size.\<close>

definition copy_ok :: "ExifLoader \<Rightarrow> bool" where
  "copy_ok l \<longleftrightarrow> (if l_buf l = NULL then l_bytes_read l = 0
     else blen (l_buf l) = unat (l_size l) \<and> l_bytes_read l \<le> l_size l)"

lemma copy_full: "l_size l \<le> l_bytes_read l \<Longrightarrow> copy_in al xs l = Some (0, l)"
  by (simp add: copy_in_def exif_loader_copy_def)

lemma copy_run:
  assumes "small xs" and "l_buf l = Buf d" and "length d = unat (l_size l)" and "l_bytes_read l < l_size l"
  shows "copy_in al xs l =
    Some (if unat (l_size l) \<le> unat (l_bytes_read l) + length xs then 0 else 1,
      l\<lparr>l_buf := Buf (take (unat (l_bytes_read l)) d @ take (unat (l_size l) - unat (l_bytes_read l)) xs
                    @ drop (unat (l_bytes_read l) + length xs) d),
        l_bytes_read := of_nat (min (unat (l_size l)) (unat (l_bytes_read l) + length xs))\<rparr>)"
proof -
  define n where "n = min (of_nat (length xs)) (l_size l - l_bytes_read l)"
  have less: "unat (l_bytes_read l) < unat (l_size l)" using assms(4) by (simp add: word_less_nat_alt)
  have sub: "unat (l_size l - l_bytes_read l) = unat (l_size l) - unat (l_bytes_read l)"
    using assms(4) by (simp add: unat_sub)
  have n: "unat n = min (length xs) (unat (l_size l) - unat (l_bytes_read l))"
    using assms(1) sub by (simp add: n_def min_def word_le_nat_alt)
  have br: "l_bytes_read l + n = of_nat (min (unat (l_size l)) (unat (l_bytes_read l) + length xs))"
  proof (rule word_unat_eq_iff [THEN iffD2])
    have "unat (l_bytes_read l) + unat n < 2 ^ 32" using less n unat_u32 [of "l_size l"] by simp
    then have "unat (l_bytes_read l + n) = unat (l_bytes_read l) + unat n"
      by (simp add: unat_word_ariths)
    moreover have "unat (of_nat (min (unat (l_size l)) (unat (l_bytes_read l) + length xs)) :: u32)
        = min (unat (l_size l)) (unat (l_bytes_read l) + length xs)"
      using unat_u32 [of "l_size l"] by (intro unat_word_of_nat_32) simp
    ultimately show "unat (l_bytes_read l + n)
        = unat (of_nat (min (unat (l_size l)) (unat (l_bytes_read l) + length xs)) :: u32)"
      using less n by linarith
  qed
  have ge: "l_size l \<le> l_bytes_read l + n \<longleftrightarrow> unat (l_size l) \<le> unat (l_bytes_read l) + length xs"
    using less unat_u32 [of "l_size l"] unfolding br
    by (simp add: word_le_nat_alt unsigned_of_nat take_bit_nat_eq_self min_def)
  have "take (unat n) xs = take (unat (l_size l) - unat (l_bytes_read l)) xs" using n by (simp add: min_def)
  moreover have "drop (unat (l_bytes_read l) + unat n) d = drop (unat (l_bytes_read l) + length xs) d"
    using n less assms(3) by (simp add: min_def)
  ultimately show ?thesis
    using assms(2-4) n less ge
    by (simp add: copy_in_def exif_loader_copy_def Let_def not_le br [symmetric] n_def [symmetric])
qed

lemma copy_alloc:
  assumes "l_buf l = NULL" and "l_bytes_read l < l_size l"
  shows "copy_in al xs l =
    (if al (st_clock (l_store l)) (unat (l_size l))
     then copy_in al xs (l\<lparr>l_buf := Buf (replicate (unat (l_size l)) 0), l_store := (l_store l)\<lparr>st_clock := st_clock (l_store l) + 1\<rparr>\<rparr>)
     else Some (0, l\<lparr>l_store := (l_store l)\<lparr>st_clock := st_clock (l_store l) + 1\<rparr>\<rparr>))"
proof -
  have "l_size l \<noteq> 0" "\<not> l_size l \<le> l_bytes_read l" using assms(2) by auto
  then show ?thesis
    using assms by (simp add: copy_in_def exif_loader_copy_def exif_loader_alloc_def exif_mem_alloc_def Let_def)
qed

text \<open>One step and then, unless it returned 0, another.\<close>

definition and_then :: "(u8 \<times> ExifLoader) option \<Rightarrow> (ExifLoader \<Rightarrow> (u8 \<times> ExifLoader) option) \<Rightarrow> (u8 \<times> ExifLoader) option" where
  "and_then m k = do { (r, l) \<leftarrow> m; if r = 0 then Some (0, l) else k l }"

lemma and_then_simps [simp]:
  "and_then (Some (0, l)) k = Some (0, l)" "r \<noteq> 0 \<Longrightarrow> and_then (Some (r, l)) k = k l" "and_then None k = None"
  by (simp_all add: and_then_def)

lemma copy_append_run:
  assumes "small (xs @ ys)" and "l_buf l = Buf d" and "length d = unat (l_size l)" and "l_bytes_read l < l_size l"
  shows "copy_in al (xs @ ys) l = and_then (copy_in al xs l) (copy_in al ys)"
proof (cases "unat (l_size l) \<le> unat (l_bytes_read l) + length xs")
  case True
  then show ?thesis
    using assms by (simp add: copy_run [of _ _ d])
next
  case False
  define br where "br = unat (l_bytes_read l)"
  let ?l = "l\<lparr>l_buf := Buf (take br d @ take (unat (l_size l) - br) xs @ drop (br + length xs) d),
        l_bytes_read := of_nat (br + length xs)\<rparr>"
  have lt: "br + length xs < unat (l_size l)" using False by (simp add: br_def)
  have u: "unat (of_nat (br + length xs) :: u32) = br + length xs"
    using lt unat_u32 [of "l_size l"] by (intro unat_word_of_nat_32) simp
  have x: "copy_in al xs l = Some (1, ?l)"
    using copy_run [OF _ assms(2-4), of xs] assms(1) lt by (simp add: br_def min_def)
  have y: "copy_in al ys ?l = Some (if unat (l_size l) \<le> br + length xs + length ys then 0 else 1,
      ?l\<lparr>l_buf := Buf (take br d @ take (unat (l_size l) - br) (xs @ ys) @ drop (br + length xs + length ys) d),
        l_bytes_read := of_nat (min (unat (l_size l)) (br + length xs + length ys))\<rparr>)"
    using assms lt u
    by (subst copy_run [of ys ?l "take br d @ take (unat (l_size l) - br) xs @ drop (br + length xs) d"])
       (simp_all add: word_less_nat_alt min_def br_def ac_simps)
  have "copy_in al (xs @ ys) l = copy_in al ys ?l"
    unfolding y using copy_run [OF assms] by (simp add: br_def add.assoc)
  then show ?thesis
    by (simp only: x and_then_simps(2) [OF one_neq_zero])
qed

lemma copy_append:
  assumes "small (xs @ ys)" and "copy_ok l"
  shows "copy_in al (xs @ ys) l = and_then (copy_in al xs l) (copy_in al ys)"
proof (cases "l_size l \<le> l_bytes_read l")
  case True
  then show ?thesis by (simp add: copy_full)
next
  case False
  then have lt: "l_bytes_read l < l_size l" by simp
  show ?thesis
  proof (cases "l_buf l")
    case NULL
    let ?l = "l\<lparr>l_buf := Buf (replicate (unat (l_size l)) 0), l_store := (l_store l)\<lparr>st_clock := st_clock (l_store l) + 1\<rparr>\<rparr>"
    have "copy_in al (xs @ ys) ?l = and_then (copy_in al xs ?l) (copy_in al ys)"
      using assms lt by (intro copy_append_run [of xs ys ?l "replicate (unat (l_size l)) 0"]) simp_all
    then show ?thesis using NULL lt by (simp add: copy_alloc)
  next
    case (Buf d)
    then show ?thesis using assms lt copy_append_run [of xs ys l d al] by (simp add: copy_ok_def)
  qed
qed

text \<open>What copying leaves alone.\<close>

definition copied :: "ExifLoader \<Rightarrow> ExifLoader \<Rightarrow> bool" where
  "copied l l' \<longleftrightarrow> copy_ok l' \<and> l_state l' = l_state l \<and> l_b l' = l_b l \<and> l_b_len l' = l_b_len l \<and>
     l_format l' = l_format l \<and> l_size l' = l_size l"

lemma copy_run_keeps:
  assumes "small xs" and "l_buf l = Buf d" and "length d = unat (l_size l)" and "l_bytes_read l < l_size l"
  shows "\<exists>r l'. copy_in al xs l = Some (r, l') \<and> (r = 0 \<or> r = 1) \<and> copied l l'"
proof -
  have u: "unat (of_nat (min (unat (l_size l)) (unat (l_bytes_read l) + length xs)) :: u32)
      = min (unat (l_size l)) (unat (l_bytes_read l) + length xs)"
    using unat_u32 [of "l_size l"] by (intro unat_word_of_nat_32) simp
  have "length (take (unat (l_bytes_read l)) d @ take (unat (l_size l) - unat (l_bytes_read l)) xs
      @ drop (unat (l_bytes_read l) + length xs) d) = unat (l_size l)"
    using assms(3,4) by (simp add: word_less_nat_alt)
  then have "copied l (l\<lparr>l_buf := Buf (take (unat (l_bytes_read l)) d @ take (unat (l_size l) - unat (l_bytes_read l)) xs
                    @ drop (unat (l_bytes_read l) + length xs) d),
        l_bytes_read := of_nat (min (unat (l_size l)) (unat (l_bytes_read l) + length xs))\<rparr>)"
    using u by (simp add: copied_def copy_ok_def word_le_nat_alt)
  then show ?thesis
    unfolding copy_run [OF assms] by auto
qed

lemma copy_keeps:
  assumes "small xs" and "copy_ok l"
  shows "\<exists>r l'. copy_in al xs l = Some (r, l') \<and> (r = 0 \<or> r = 1) \<and> copied l l'"
proof (cases "l_size l \<le> l_bytes_read l")
  case True
  then show ?thesis using assms by (simp add: copy_full copied_def)
next
  case False
  then have lt: "l_bytes_read l < l_size l" by simp
  show ?thesis
  proof (cases "l_buf l")
    case NULL
    let ?l = "l\<lparr>l_buf := Buf (replicate (unat (l_size l)) 0), l_store := (l_store l)\<lparr>st_clock := st_clock (l_store l) + 1\<rparr>\<rparr>"
    have "\<exists>r l'. copy_in al xs ?l = Some (r, l') \<and> (r = 0 \<or> r = 1) \<and> copied ?l l'"
      using assms lt by (intro copy_run_keeps [of _ _ "replicate (unat (l_size l)) 0"]) simp_all
    then show ?thesis using NULL lt assms(2) by (simp add: copy_alloc copied_def copy_ok_def)
  next
    case (Buf d)
    then show ?thesis using assms lt by (intro copy_run_keeps [of _ _ d]) (simp_all add: copy_ok_def)
  qed
qed

section \<open>The cases of a piece\<close>

abbreviation (input) scanning :: "ExifLoader \<Rightarrow> bool" where
  "scanning l \<equiv> l_state l \<noteq> EL_EXIF_FOUND \<and> l_state l \<noteq> EL_SKIP_BYTES"

definition skipped :: "ExifLoader \<Rightarrow> ExifLoader" where
  "skipped l = l\<lparr>l_size := 0, l_b_len := 0,
     l_state := (if l_format l = EL_DATA_FORMAT_FUJI_RAW then EL_READ_SIZE_BYTE_24 else EL_READ)\<rparr>"

definition filled :: "bytes \<Rightarrow> ExifLoader \<Rightarrow> ExifLoader" where
  "filled xs l =
     l\<lparr>l_b := Buf (take (unat (l_b_len l)) (bbytes (l_b l)) @ take (12 - unat (l_b_len l)) xs
                 @ drop (unat (l_b_len l) + length xs) (bbytes (l_b l))),
       l_b_len := of_nat (min 12 (unat (l_b_len l) + length xs))\<rparr>"

definition scan_feed :: "alloc \<Rightarrow> bytes \<Rightarrow> nat \<Rightarrow> ExifLoader \<Rightarrow> (u8 option \<times> ExifLoader) option" where
  "scan_feed al xs n l = scan_loop al (Buf xs) 0 (of_nat (length xs)) n l"

text \<open>Scanning a full small buffer, with the piece \<open>xs\<close> behind it.\<close>

definition block :: "alloc \<Rightarrow> bytes \<Rightarrow> ExifLoader \<Rightarrow> (u8 \<times> ExifLoader) option" where
  "block al xs l =
     do { l \<leftarrow> loader_detect l;
          (r, l) \<leftarrow> scan_feed al xs 12 l;
          case r of Some r \<Rightarrow> Some (r, l) | None \<Rightarrow> feed al xs (l\<lparr>l_b_len := 0\<rparr>) }"

lemma feed_found: "l_state l = EL_EXIF_FOUND \<Longrightarrow> feed al xs l = copy_in al xs l"
  by (simp add: feed_def copy_in_def exif_loader_write.simps)

lemma feed_skip_all:
  "\<lbrakk>small xs; l_state l = EL_SKIP_BYTES; length xs < unat (l_size l)\<rbrakk>
   \<Longrightarrow> feed al xs l = Some (1, l\<lparr>l_size := l_size l - of_nat (length xs)\<rparr>)"
  by (simp add: feed_def exif_loader_write.simps loader_skip_def word_less_nat_alt)

lemma feed_Nil: "scanning l \<Longrightarrow> feed al [] l = Some (1, l)"
  by (simp add: feed_def exif_loader_write.simps loader_skip_def)

lemma skipped_scanning [simp]: "l_state (skipped l) \<noteq> EL_EXIF_FOUND" "l_state (skipped l) \<noteq> EL_SKIP_BYTES"
  "l_b_len (skipped l) = 0" "l_b (skipped l) = l_b l" "l_buf (skipped l) = l_buf l"
  "l_bytes_read (skipped l) = l_bytes_read l"
  by (simp_all add: skipped_def)

lemma feed_skip:
  assumes "small xs" and "l_state l = EL_SKIP_BYTES" and "unat (l_size l) \<le> length xs"
  shows "feed al xs l = feed al (drop (unat (l_size l)) xs) (skipped l)"
proof -
  have le: "\<not> (of_nat (length xs) :: u32) < l_size l"
    using assms by (simp add: word_less_nat_alt)
  have u: "unat ((of_nat (length xs) :: u32) - l_size l) = length xs - unat (l_size l)"
    using assms by (simp add: unat_sub word_le_nat_alt)
  have "exif_loader_write al l (Buf xs) 0 (of_nat (length xs))
      = exif_loader_write al (skipped l) (Buf xs) (unat (l_size l)) (of_nat (length xs) - l_size l)"
    unfolding exif_loader_write.simps [of al l] exif_loader_write.simps [of al "skipped l"]
    using assms(2) le by (simp add: loader_skip_def skipped_def)
  also have "\<dots> = feed al (take (length xs - unat (l_size l)) (drop (unat (l_size l)) xs)) (skipped l)"
    using assms(3) u by (simp add: write_feed)
  finally show ?thesis by (simp add: feed_def)
qed

lemma fill_list:
  assumes "small xs" and "xs \<noteq> []" and "blen (l_b l) = 12" and "unat (l_b_len l) < 12"
  shows "loader_fill (Buf xs) 0 (of_nat (length xs)) l =
    Some (if unat (l_b_len l) + length xs < 12 then None
          else Some (12 - unat (l_b_len l), of_nat (length xs) - of_nat (12 - unat (l_b_len l))), filled xs l)"
proof -
  obtain d where d: "l_b l = Buf d" "length d = 12" using assms(3) by (cases "l_b l") auto
  define i where "i = min (of_nat (length xs)) (12 - ucast (l_b_len l) :: u32)"
  have s: "unat (12 - ucast (l_b_len l) :: u32) = 12 - unat (l_b_len l)"
    using assms(4) by (simp add: unat_sub word_le_nat_alt unat_ucast_u8)
  have i: "unat i = min (length xs) (12 - unat (l_b_len l))"
    using assms(1) s by (simp add: i_def min_def word_le_nat_alt)
  then have "0 < unat i" using assms(2,4) by simp
  then have i0: "i \<noteq> 0" by auto
  have len: "unat (l_b_len l + ucast i) = min 12 (unat (l_b_len l) + length xs)"
    using i assms(4) by (simp add: unat_word_ariths unsigned_ucast_eq take_bit_nat_eq_self)
  have b_len: "l_b_len l + ucast i = of_nat (min 12 (unat (l_b_len l) + length xs))"
    by (rule word_unat_eq_iff [THEN iffD2]) (simp add: len unat_u8_of_nat)
  have lt: "l_b_len l + ucast i < 12 \<longleftrightarrow> unat (l_b_len l) + length xs < 12"
    unfolding word_less_nat_alt len by auto
  have ii: "\<not> unat (l_b_len l) + length xs < 12 \<Longrightarrow> i = of_nat (12 - unat (l_b_len l))"
    using i by (intro word_unat_eq_iff [THEN iffD2]) (simp add: unat_word_of_nat_32)
  have t: "take (unat i) xs = take (12 - unat (l_b_len l)) xs" "drop (unat (l_b_len l) + unat i) d = drop (unat (l_b_len l) + length xs) d"
    using i d by (simp_all add: min_def)
  show ?thesis
    unfolding loader_fill_def Let_def i_def [symmetric] filled_def b_len [symmetric]
    using i0 i d assms(4) t ii lt by (auto simp: min_def)
qed

lemma feed_fill:
  assumes "small xs" and "scanning l" and "blen (l_b l) = 12" and "unat (l_b_len l) + length xs < 12" and "xs \<noteq> []"
  shows "feed al xs l = Some (1, filled xs l)"
  using assms fill_list [of xs l]
  by (simp add: feed_def exif_loader_write.simps [of al l] loader_skip_def word_unat_eq_iff)

lemma feed_block:
  assumes "small xs" and "scanning l" and "blen (l_b l) = 12" and "unat (l_b_len l) < 12"
    and "12 \<le> unat (l_b_len l) + length xs"
  shows "feed al xs l = block al (drop (12 - unat (l_b_len l)) xs) (filled xs l)"
proof -
  define k where "k = 12 - unat (l_b_len l)"
  have k: "k \<le> length xs" using assms by (simp add: k_def)
  have u: "unat ((of_nat (length xs) :: u32) - of_nat k) = length xs - k"
    using k assms(1) by (simp add: unat_sub word_le_nat_alt unat_word_of_nat_32)
  have sp: "same_piece (Buf xs) k (Buf (drop k xs)) 0 (of_nat (length xs) - of_nat k)"
    using same_piece_list [of k "of_nat (length xs) - of_nat k" xs] k u by simp
  have ne: "xs \<noteq> []" "(of_nat (length xs) :: u32) \<noteq> 0"
    using assms by (auto simp: word_unat_eq_iff)
  have e: "(of_nat (length xs) :: u32) - of_nat k = of_nat (length (drop k xs))"
    using k by (simp add: of_nat_diff)
  have w: "exif_loader_write al l' (Buf xs) k (of_nat (length xs) - of_nat k) = feed al (drop k xs) l'" for l'
    using k u by (simp add: write_feed)
  have sc: "scan_loop al (Buf xs) k (of_nat (length xs) - of_nat k) 12 l' = scan_feed al (drop k xs) 12 l'" for l'
    unfolding scan_feed_def e [symmetric] by (rule same_piece_scan [OF sp])
  have "feed al xs l = (do { l \<leftarrow> loader_detect (filled xs l);
       (r, l) \<leftarrow> scan_loop al (Buf xs) k (of_nat (length xs) - of_nat k) 12 l;
       case r of Some r \<Rightarrow> Some (r, l)
       | None \<Rightarrow> exif_loader_write al (l\<lparr>l_b_len := 0\<rparr>) (Buf xs) k (of_nat (length xs) - of_nat k) })"
    unfolding feed_def exif_loader_write.simps [of al l]
    using assms ne fill_list [OF assms(1) ne(1) assms(3,4)] by (simp add: loader_skip_def k_def [symmetric])
  also have "\<dots> = block al (drop k xs) (filled xs l)"
    unfolding sc w block_def ..
  finally show ?thesis by (simp add: k_def)
qed

section \<open>The invariant\<close>

text \<open>
  In the loop over the small buffer (\<open>scan_ok\<close>) and between two pieces (\<open>loader_ok\<close>): the
  collecting buffer exists only once EXIF data are found, and the small buffer is never full and is
  empty while bytes are skipped.
\<close>

definition scan_ok :: "ExifLoader \<Rightarrow> bool" where
  "scan_ok l \<longleftrightarrow> blen (l_b l) = 12 \<and> copy_ok l \<and> (l_state l \<noteq> EL_EXIF_FOUND \<longrightarrow> l_buf l = NULL)"

definition loader_ok :: "ExifLoader \<Rightarrow> bool" where
  "loader_ok l \<longleftrightarrow> scan_ok l \<and> (l_state l \<noteq> EL_EXIF_FOUND \<longrightarrow> l_b_len l < 12) \<and>
     (l_state l = EL_SKIP_BYTES \<longrightarrow> l_b_len l = 0)"

lemma exif_loader_reset_ok: "blen (l_b l) = 12 \<Longrightarrow> loader_ok (exif_loader_reset l)"
  by (simp add: exif_loader_reset_def loader_ok_def scan_ok_def copy_ok_def)

lemma scan_ok_b_len: "scan_ok (l\<lparr>l_b_len := n\<rparr>) = scan_ok l"
  by (simp add: scan_ok_def copy_ok_def)

lemma scan_byte_ok:
  assumes "scan_ok l" and "l_state l \<noteq> EL_EXIF_FOUND" and "i < 12"
  shows "\<exists>go l'. scan_byte i l = Some (go, l') \<and> scan_ok l' \<and> l_b l' = l_b l \<and> (\<not> go \<longrightarrow> loader_ok l')"
proof -
  obtain d where d: "l_b l = Buf d" "length d = 12" using assms(1) by (cases "l_b l") (auto simp: scan_ok_def)
  have nb: "l_buf l = NULL" "l_bytes_read l = 0" using assms by (auto simp: scan_ok_def copy_ok_def)
  show ?thesis
  proof (cases "l_state l")
    case EL_READ
    then show ?thesis
      using d nb assms(3)
      by (auto simp: scan_byte_def scan_marker_def scan_ok_def copy_ok_def Let_def loader_ok_def exif_loader_reset_def)
  next
    case EL_READ_SIZE_BYTE_00
    then show ?thesis
      using d nb assms(3)
      by (cases "l_format l") (auto simp: scan_byte_def scan_size_done_def scan_ok_def copy_ok_def)
  qed (use d nb assms in \<open>auto simp: scan_byte_def scan_ok_def copy_ok_def Let_def\<close>)
qed

lemma copy_b_ok:
  assumes "scan_ok l" and "n < 12"
  shows "\<exists>r l'. exif_loader_copy al l (l_b l) (11 - n) (of_nat (Suc n)) = Some (r, l') \<and> (r = 0 \<or> r = 1) \<and> copied l l'"
proof -
  obtain d where d: "l_b l = Buf d" "length d = 12" using assms(1) by (cases "l_b l") (auto simp: scan_ok_def)
  have u: "unat (of_nat (Suc n) :: u32) = Suc n" using assms(2) by (intro unat_word_of_nat_32) simp
  have "exif_loader_copy al l (Buf d) (11 - n) (of_nat (Suc n)) = copy_in al (take (Suc n) (drop (11 - n) d)) l"
    using d assms(2) u by (subst copy_copy_in) simp_all
  then show ?thesis
    using copy_keeps [of "take (Suc n) (drop (11 - n) d)" l al] assms d by (simp add: scan_ok_def)
qed

lemma copied_ok:
  assumes "copied l l'" and "scan_ok l" and "l_state l = EL_EXIF_FOUND"
  shows "scan_ok l' \<and> loader_ok l' \<and> l_state l' = EL_EXIF_FOUND"
  using assms by (auto simp: copied_def scan_ok_def loader_ok_def)

lemma scan_feed_ok:
  assumes "scan_ok l" and "n \<le> 12" and "small xs"
  shows "\<exists>r l'. scan_feed al xs n l = Some (r, l') \<and> scan_ok l' \<and>
    (case r of None \<Rightarrow> True | Some v \<Rightarrow> loader_ok l' \<and> (v = 0 \<or> v = 1 \<and> l_state l' = EL_EXIF_FOUND))"
  using assms(1,2)
proof (induction n arbitrary: l)
  case 0
  then show ?case by (simp add: scan_feed_def)
next
  case (Suc n)
  show ?case
  proof (cases "l_state l = EL_EXIF_FOUND")
    case True
    obtain r l1 where c1: "exif_loader_copy al l (l_b l) (11 - n) (of_nat (Suc n)) = Some (r, l1)"
        "r = 0 \<or> r = 1" "copied l l1"
      using copy_b_ok [OF Suc.prems(1), of n al] Suc.prems(2) by auto
    have ok1: "scan_ok l1" "loader_ok l1" "l_state l1 = EL_EXIF_FOUND"
      using copied_ok [OF c1(3) Suc.prems(1) True] by auto
    then obtain s l2 where c2: "copy_in al xs l1 = Some (s, l2)" "s = 0 \<or> s = 1" "copied l1 l2"
      using copy_keeps [OF assms(3), of l1 al] by (auto simp: scan_ok_def)
    show ?thesis
      using True c1 c2 ok1 copied_ok [OF c2(3) ok1(1,3)]
      by (auto simp: scan_feed_def copy_in_def)
  next
    case False
    obtain go l1 where b: "scan_byte (11 - n) l = Some (go, l1)" "scan_ok l1" "\<not> go \<longrightarrow> loader_ok l1"
      using scan_byte_ok [OF Suc.prems(1) False, of "11 - n"] by fastforce
    have "\<exists>r l'. scan_feed al xs n l1 = Some (r, l') \<and> scan_ok l' \<and>
      (case r of None \<Rightarrow> True | Some v \<Rightarrow> loader_ok l' \<and> (v = 0 \<or> v = 1 \<and> l_state l' = EL_EXIF_FOUND))"
      using Suc.IH [OF b(2)] Suc.prems(2) by simp
    with False b show ?thesis by (cases go) (auto simp: scan_feed_def)
  qed
qed

lemma loader_detect_ok:
  assumes "scan_ok l" and "l_state l \<noteq> EL_EXIF_FOUND"
  shows "\<exists>l'. loader_detect l = Some l' \<and> scan_ok l' \<and> l_state l' \<noteq> EL_EXIF_FOUND"
proof -
  obtain d where "l_b l = Buf d" "length d = 12" using assms(1) by (cases "l_b l") (auto simp: scan_ok_def)
  with assms show ?thesis by (auto simp: loader_detect_def scan_ok_def copy_ok_def)
qed

lemma filled_ok: "scan_ok l \<Longrightarrow> unat (l_b_len l) < 12 \<Longrightarrow> scan_ok (filled xs l)"
  by (cases "l_b l") (auto simp: filled_def scan_ok_def copy_ok_def min_def)

lemma filled_state [simp]: "l_state (filled xs l) = l_state l"
  by (simp add: filled_def)

lemma loader_okD:
  assumes "loader_ok l"
  shows "scan_ok l" "blen (l_b l) = 12" "copy_ok l" "l_state l \<noteq> EL_EXIF_FOUND \<Longrightarrow> unat (l_b_len l) < 12"
  using assms by (auto simp: loader_ok_def scan_ok_def word_less_nat_alt)

lemma skipped_ok: "loader_ok l \<Longrightarrow> l_state l = EL_SKIP_BYTES \<Longrightarrow> loader_ok (skipped l)"
  by (auto simp: loader_ok_def scan_ok_def copy_ok_def)

lemma filled_loader_ok:
  assumes "loader_ok l" and "scanning l" and "unat (l_b_len l) + length xs < 12"
  shows "loader_ok (filled xs l)"
proof -
  have "l_b_len (filled xs l) < 12"
    using assms(3) unat_u8_of_nat [of "unat (l_b_len l) + length xs"] by (simp add: filled_def word_less_nat_alt min_def)
  then show ?thesis
    using assms filled_ok [of l xs] loader_okD [OF assms(1)] by (simp add: loader_ok_def)
qed

lemma feed_ok:
  assumes "loader_ok l" and "small xs"
  shows "\<exists>r l'. feed al xs l = Some (r, l') \<and> (r = 0 \<or> r = 1) \<and> loader_ok l'"
  using assms
proof (induction "length xs" arbitrary: xs l rule: less_induct)
  case less
  have scan: "\<exists>r l'. feed al ys l = Some (r, l') \<and> (r = 0 \<or> r = 1) \<and> loader_ok l'"
    if ok: "loader_ok l" and sc: "scanning l" and le: "length ys \<le> length xs" for l ys
  proof -
    have sm: "small ys" using le less.prems by simp
    note D = loader_okD [OF ok]
    consider "ys = []" | "ys \<noteq> []" "unat (l_b_len l) + length ys < 12" | "12 \<le> unat (l_b_len l) + length ys" by fastforce
    then show ?thesis
    proof cases
      case 1
      then show ?thesis using ok sc by (simp add: feed_Nil)
    next
      case 2
      then show ?thesis using feed_fill [OF sm sc D(2)] filled_loader_ok [OF ok sc] by simp
    next
      case 3
      define zs where "zs = drop (12 - unat (l_b_len l)) ys"
      have zs: "length zs < length xs" "small zs" using 3 D(4) sc le sm by (auto simp: zs_def)
      obtain l1 where d: "loader_detect (filled ys l) = Some l1" "scan_ok l1"
        using loader_detect_ok [of "filled ys l"] filled_ok [of l ys] D sc by auto
      obtain r l2 where s: "scan_feed al zs 12 l1 = Some (r, l2)" "scan_ok l2"
          "case r of None \<Rightarrow> True | Some v \<Rightarrow> loader_ok l2 \<and> (v = 0 \<or> v = 1 \<and> l_state l2 = EL_EXIF_FOUND)"
        using scan_feed_ok [OF d(2) order_refl zs(2)] by blast
      have "loader_ok (l2\<lparr>l_b_len := 0\<rparr>)" using s(2) scan_ok_b_len by (simp add: loader_ok_def)
      from less.hyps [OF zs(1) this zs(2)] show ?thesis
        using feed_block [OF sm sc D(2) _ 3, of al] D(4) sc d s
        by (auto simp: block_def zs_def [symmetric] split: option.splits)
    qed
  qed
  show ?case
  proof (cases "l_state l")
    case EL_EXIF_FOUND
    then show ?thesis
      using copy_keeps [OF less.prems(2), of l al] copied_ok [of l] loader_okD [OF less.prems(1)]
      by (fastforce simp: feed_found)
  next
    case EL_SKIP_BYTES
    show ?thesis
    proof (cases "length xs < unat (l_size l)")
      case True
      then show ?thesis
        using EL_SKIP_BYTES less.prems by (auto simp: feed_skip_all loader_ok_def scan_ok_def copy_ok_def)
    next
      case False
      then show ?thesis
        using EL_SKIP_BYTES less.prems skipped_ok [of l]
        by (simp add: feed_skip) (intro scan, simp_all)
    qed
  qed (use scan less.prems in simp_all)
qed

section \<open>How a file is cut into pieces does not matter\<close>

lemma scan_feed_append:
  assumes "scan_ok l" and "n \<le> 12" and "small (xs @ ys)"
  shows "scan_feed al (xs @ ys) n l = (do { (r, l) \<leftarrow> scan_feed al xs n l;
    case r of None \<Rightarrow> Some (None, l)
    | Some v \<Rightarrow> do { (v, l) \<leftarrow> and_then (Some (v, l)) (copy_in al ys); Some (Some v, l) } })"
  using assms(1,2)
proof (induction n arbitrary: l)
  case 0
  then show ?case by (simp add: scan_feed_def)
next
  case (Suc n)
  show ?case
  proof (cases "l_state l = EL_EXIF_FOUND")
    case True
    obtain r l1 where c1: "exif_loader_copy al l (l_b l) (11 - n) (of_nat (Suc n)) = Some (r, l1)"
        "r = 0 \<or> r = 1" "copied l l1"
      using copy_b_ok [OF Suc.prems(1), of n al] Suc.prems(2) by auto
    have "copy_ok l1" using c1(3) by (simp add: copied_def)
    with assms(3) have "copy_in al (xs @ ys) l1 = and_then (copy_in al xs l1) (copy_in al ys)"
      by (intro copy_append)
    moreover obtain s l2 where "copy_in al xs l1 = Some (s, l2)"
      using copy_keeps [of xs l1 al] assms(3) \<open>copy_ok l1\<close> by auto
    ultimately show ?thesis
      using True c1(1,2) by (cases "s = 0") (auto simp: scan_feed_def copy_in_def)
  next
    case False
    obtain go l1 where b: "scan_byte (11 - n) l = Some (go, l1)" "scan_ok l1"
      using scan_byte_ok [OF Suc.prems(1) False, of "11 - n"] by fastforce
    with False Suc.IH [OF b(2)] Suc.prems(2) show ?thesis
      by (cases go) (simp_all add: scan_feed_def)
  qed
qed

lemma filled_filled:
  assumes "unat (l_b_len l) + length xs < 12" and "blen (l_b l) = 12"
  shows "filled ys (filled xs l) = filled (xs @ ys) l"
proof -
  obtain d where d: "l_b l = Buf d" "length d = 12" using assms(2) by (cases "l_b l") auto
  have u: "unat (l_b_len (filled xs l)) = unat (l_b_len l) + length xs"
    using assms(1) unat_u8_of_nat [of "unat (l_b_len l) + length xs"] by (simp add: filled_def min_def)
  have "bbytes (l_b (filled xs l)) = take (unat (l_b_len l)) d @ xs @ drop (unat (l_b_len l) + length xs) d"
    using assms(1) d by (simp add: filled_def)
  then have "filled ys (filled xs l) = (filled xs l)\<lparr>
      l_b := Buf (take (unat (l_b_len l)) d @ xs @ take (12 - (unat (l_b_len l) + length xs)) ys
               @ drop (unat (l_b_len l) + length xs + length ys) d),
      l_b_len := of_nat (min 12 (unat (l_b_len l) + length xs + length ys))\<rparr>"
    unfolding filled_def [of ys] u using assms(1) d by (simp add: ac_simps)
  then show ?thesis
    using assms(1) d by (simp add: filled_def ac_simps)
qed

lemma block_append:
  assumes "scan_ok l" and "l_state l \<noteq> EL_EXIF_FOUND" and "small (xs @ ys)"
    and IH: "\<And>l. loader_ok l \<Longrightarrow> feed al (xs @ ys) l = and_then (feed al xs l) (feed al ys)"
  shows "block al (xs @ ys) l = and_then (block al xs l) (feed al ys)"
proof -
  obtain l1 where d: "loader_detect l = Some l1" "scan_ok l1"
    using loader_detect_ok assms(1,2) by blast
  have "small xs" using assms(3) by simp
  then obtain r l2 where s: "scan_feed al xs 12 l1 = Some (r, l2)" "scan_ok l2"
      "case r of None \<Rightarrow> True | Some v \<Rightarrow> loader_ok l2 \<and> (v = 0 \<or> v = 1 \<and> l_state l2 = EL_EXIF_FOUND)"
    using scan_feed_ok [OF d(2) order_refl] by blast
  show ?thesis
  proof (cases r)
    case None
    have "loader_ok (l2\<lparr>l_b_len := 0\<rparr>)" using s(2) scan_ok_b_len by (simp add: loader_ok_def)
    with None show ?thesis
      using d s scan_feed_append [OF d(2) order_refl assms(3)] IH by (simp add: block_def)
  next
    case (Some v)
    with s(3) consider "v = 0" | "v = 1" "l_state l2 = EL_EXIF_FOUND" by auto
    then show ?thesis
    proof cases
      case 1
      then show ?thesis using Some d s scan_feed_append [OF d(2) order_refl assms(3)] by (simp add: block_def)
    next
      case 2
      then obtain w l3 where "copy_in al ys l2 = Some (w, l3)"
        using copy_keeps [of ys l2 al] s(2) assms(3) by (auto simp: scan_ok_def)
      with 2 show ?thesis
        using Some d s scan_feed_append [OF d(2) order_refl assms(3)] by (simp add: block_def feed_found)
    qed
  qed
qed

text \<open>The three kinds of states, given that shorter pieces can be cut off.\<close>

lemma feed_append_fill:
  assumes ok: "loader_ok l" and sc: "scanning l" and sm: "small (us @ ys)"
    and us: "us \<noteq> []" "unat (l_b_len l) + length us < 12"
  shows "feed al (us @ ys) l = and_then (feed al us l) (feed al ys)"
proof -
  note D = loader_okD [OF ok]
  let ?l = "filled us l"
  have sm': "small us" "small ys" using sm by auto
  have ok1: "loader_ok ?l" using filled_loader_ok [OF ok sc us(2)] .
  have u: "unat (l_b_len ?l) = unat (l_b_len l) + length us"
    using us unat_u8_of_nat [of "unat (l_b_len l) + length us"] by (simp add: filled_def min_def)
  have f: "feed al us l = Some (1, ?l)" using feed_fill [OF sm'(1) sc D(2)] us by simp
  show ?thesis
  proof (cases "unat (l_b_len l) + length us + length ys < 12")
    case True
    then have "feed al ys ?l = Some (1, filled ys ?l)"
      using u feed_fill [OF sm'(2), of ?l] sc loader_okD [OF ok1]
      by (cases "ys = []") (simp_all add: feed_Nil filled_def)
    then show ?thesis
      using True us f feed_fill [OF sm sc D(2)] filled_filled [of l us ys] D(2) by simp
  next
    case False
    have "feed al ys ?l = block al (drop (12 - unat (l_b_len ?l)) ys) (filled ys ?l)"
      using False us u sc by (intro feed_block [OF sm'(2)]) (simp_all add: loader_okD [OF ok1])
    moreover have "feed al (us @ ys) l = block al (drop (12 - unat (l_b_len l)) (us @ ys)) (filled (us @ ys) l)"
      using False us sc by (intro feed_block [OF sm]) (simp_all add: D)
    ultimately show ?thesis
      using us u f filled_filled [of l us ys] D(2) by simp
  qed
qed

lemma feed_append_block:
  assumes ok: "loader_ok l" and sc: "scanning l" and sm: "small (us @ ys)" and us: "12 \<le> unat (l_b_len l) + length us"
    and IH: "\<And>zs l. length zs < length us \<Longrightarrow> loader_ok l \<Longrightarrow> feed al (zs @ ys) l = and_then (feed al zs l) (feed al ys)"
  shows "feed al (us @ ys) l = and_then (feed al us l) (feed al ys)"
proof -
  note D = loader_okD [OF ok]
  have b: "unat (l_b_len l) < 12" using D(4) sc by simp
  define zs where "zs = drop (12 - unat (l_b_len l)) us"
  have zs: "length zs < length us" "small (zs @ ys)" "small us" using us b sm by (auto simp: zs_def)
  have f: "filled (us @ ys) l = filled us l" using us b D(2) by (cases "l_b l") (simp_all add: filled_def)
  have "feed al (us @ ys) l = block al (drop (12 - unat (l_b_len l)) (us @ ys)) (filled (us @ ys) l)"
    using us b sc by (intro feed_block [OF sm]) (simp_all add: D)
  also have "\<dots> = block al (zs @ ys) (filled us l)" using us f by (simp add: zs_def)
  also have "\<dots> = and_then (block al zs (filled us l)) (feed al ys)"
    using IH [OF zs(1)] filled_ok [OF D(1) b] sc zs(2) by (intro block_append) auto
  also have "block al zs (filled us l) = feed al us l"
    unfolding zs_def using us b sc by (intro feed_block [OF zs(3), symmetric]) (simp_all add: D)
  finally show ?thesis .
qed

lemma feed_append_skip:
  assumes "l_state l = EL_SKIP_BYTES" and "small (xs @ ys)" and "length xs < unat (l_size l)"
  shows "feed al (xs @ ys) l = and_then (feed al xs l) (feed al ys)"
proof -
  let ?l = "l\<lparr>l_size := l_size l - of_nat (length xs)\<rparr>"
  have sm: "small xs" "small ys" using assms(2) by auto
  have u: "unat (l_size ?l) = unat (l_size l) - length xs"
    using assms(3) sm by (simp add: unat_sub word_le_nat_alt)
  have sk: "skipped ?l = skipped l" by (simp add: skipped_def)
  have x: "feed al xs l = Some (1, ?l)" using assms sm by (simp add: feed_skip_all)
  show ?thesis
  proof (cases "length (xs @ ys) < unat (l_size l)")
    case True
    then have "feed al ys ?l = Some (1, ?l\<lparr>l_size := l_size ?l - of_nat (length ys)\<rparr>)"
      using assms(1) sm u by (simp add: feed_skip_all)
    then show ?thesis using True x assms(1,2) by (simp add: feed_skip_all diff_diff_eq)
  next
    case False
    then have "feed al ys ?l = feed al (drop (unat (l_size l) - length xs) ys) (skipped ?l)"
      using assms sm u by (simp add: feed_skip)
    then show ?thesis using False x assms sk by (simp add: feed_skip)
  qed
qed

lemma feed_append:
  assumes "loader_ok l" and "small (xs @ ys)"
  shows "feed al (xs @ ys) l = and_then (feed al xs l) (feed al ys)"
  using assms
proof (induction "length xs" arbitrary: xs l rule: less_induct)
  case less
  have scan: "feed al (us @ ys) l = and_then (feed al us l) (feed al ys)"
    if ok: "loader_ok l" and sc: "scanning l" and le: "length us \<le> length xs" for l us
  proof -
    have sm: "small (us @ ys)" using le less.prems by auto
    have IH: "feed al (zs @ ys) l = and_then (feed al zs l) (feed al ys)"
      if "length zs < length us" "loader_ok l" for zs l
      using less.hyps [of zs l] that le less.prems(2) by simp
    consider "us = []" | "us \<noteq> []" "unat (l_b_len l) + length us < 12" | "12 \<le> unat (l_b_len l) + length us" by fastforce
    then show ?thesis
      by cases (use feed_append_fill [OF ok sc sm] feed_append_block [OF ok sc sm _ IH] sc in \<open>auto simp: feed_Nil\<close>)
  qed
  show ?case
  proof (cases "l_state l")
    case EL_EXIF_FOUND
    have "small xs" using less.prems(2) by simp
    then obtain r l1 where c: "copy_in al xs l = Some (r, l1)" "copied l l1"
      using copy_keeps [of xs l al] loader_okD [OF less.prems(1)] by auto
    then have "l_state l1 = EL_EXIF_FOUND" using EL_EXIF_FOUND by (simp add: copied_def)
    then show ?thesis
      using EL_EXIF_FOUND c copy_append [OF less.prems(2)] loader_okD [OF less.prems(1)]
      by (cases "r = 0") (simp_all add: feed_found)
  next
    case EL_SKIP_BYTES
    have ok: "loader_ok (skipped l)" using skipped_ok less.prems(1) EL_SKIP_BYTES by simp
    show ?thesis
    proof (cases "length xs < unat (l_size l)")
      case True
      then show ?thesis using feed_append_skip EL_SKIP_BYTES less.prems(2) by blast
    next
      case False
      then show ?thesis
        using EL_SKIP_BYTES less.prems scan [OF ok, of "drop (unat (l_size l)) xs"] by (simp add: feed_skip)
    qed
  qed (use scan less.prems in simp_all)
qed

section \<open>Finding EXIF data in a JPEG file\<close>

text \<open>
  The rest of a call from the loop over the small buffer on, with \<open>n\<close> rounds left and the piece
  \<open>ys\<close> behind it; the bytes that are still to be seen then are \<open>pending n l ys\<close>.
\<close>

definition resume :: "alloc \<Rightarrow> bytes \<Rightarrow> nat \<Rightarrow> ExifLoader \<Rightarrow> (u8 \<times> ExifLoader) option" where
  "resume al ys n l =
     do { (r, l) \<leftarrow> scan_feed al ys n l;
          case r of Some r \<Rightarrow> Some (r, l) | None \<Rightarrow> feed al ys (l\<lparr>l_b_len := 0\<rparr>) }"

definition pending :: "nat \<Rightarrow> ExifLoader \<Rightarrow> bytes \<Rightarrow> bytes" where
  "pending n l ys = drop (12 - n) (bbytes (l_b l)) @ ys"

text \<open>
  From every configuration with at least \<open>k\<close> rounds left, the given state, format and size, and the
  bytes \<open>inp\<close> to be seen, the call collects exactly the bytes \<open>d\<close> and returns 0.
\<close>

definition configured :: "ExifLoaderState \<Rightarrow> ExifLoaderDataFormat \<Rightarrow> u32 \<Rightarrow> ExifLoader \<Rightarrow> bool" where
  "configured s f z l \<longleftrightarrow> l_state l = s \<and> l_format l = f \<and> l_size l = z \<and> scan_ok l \<and>
     l_buf l = NULL \<and> l_bytes_read l = 0"

definition delivered :: "bytes \<Rightarrow> (u8 \<times> ExifLoader) option \<Rightarrow> bool" where
  "delivered d m \<longleftrightarrow> (case m of None \<Rightarrow> False | Some (r, l) \<Rightarrow> r = 0 \<and> exif_loader_get_buf l = (Buf d, of_nat (length d)))"

definition delivers ::
  "alloc \<Rightarrow> nat \<Rightarrow> bytes \<Rightarrow> ExifLoaderState \<Rightarrow> ExifLoaderDataFormat \<Rightarrow> u32 \<Rightarrow> bytes \<Rightarrow> bool" where
  "delivers al k inp s f z d \<longleftrightarrow> (\<forall>n l ys. k \<le> n \<longrightarrow> n \<le> 12 \<longrightarrow> small ys \<longrightarrow> configured s f z l \<longrightarrow>
     pending n l ys = inp \<longrightarrow> delivered d (resume al ys n l))"

lemma delivered_iff: "delivered d m \<longleftrightarrow> (\<exists>l. m = Some (0, l) \<and> exif_loader_get_buf l = (Buf d, of_nat (length d)))"
  by (cases m) (auto simp: delivered_def)

lemma pending_Suc:
  assumes "n < 12" and "blen (l_b l) = 12"
  shows "pending (Suc n) l ys = bbytes (l_b l) ! (11 - n) # pending n l ys"
proof -
  obtain d where d: "l_b l = Buf d" "length d = 12" using assms(2) by (cases "l_b l") auto
  have "Suc (11 - n) = 12 - n" using assms(1) by simp
  then have "drop (11 - n) d = d ! (11 - n) # drop (12 - n) d"
    using d(2) Cons_nth_drop_Suc [of "11 - n" d] by simp
  then show ?thesis using d(1) by (simp add: pending_def)
qed

lemma resume_0: "resume al ys 0 l = feed al ys (l\<lparr>l_b_len := 0\<rparr>)"
  by (simp add: resume_def scan_feed_def)

lemma resume_step:
  assumes "l_state l \<noteq> EL_EXIF_FOUND" and "scan_byte (11 - n) l = Some (True, l')"
  shows "resume al ys (Suc n) l = resume al ys n l'"
  using assms by (simp add: resume_def scan_feed_def)

lemma delivers_step:
  assumes "delivers al k inp s' f' z' d" and "s \<noteq> EL_EXIF_FOUND"
    and step: "\<And>n l ys. \<lbrakk>n < 12; configured s f z l; pending (Suc n) l ys = x # inp; rd (l_b l) (11 - n) = Some x\<rbrakk>
      \<Longrightarrow> scan_byte (11 - n) l = Some (True, l\<lparr>l_state := s', l_format := f', l_size := z'\<rparr>)"
  shows "delivers al (Suc k) (x # inp) s f z d"
  unfolding delivers_def
proof (intro allI impI)
  fix n l ys
  assume a: "Suc k \<le> n" "n \<le> 12" "small ys" "configured s f z l" "pending n l ys = x # inp"
  then obtain m where m: "n = Suc m" "k \<le> m" "m < 12" by (cases n) auto
  let ?l = "l\<lparr>l_state := s', l_format := f', l_size := z'\<rparr>"
  have b: "blen (l_b l) = 12" using a(4) by (simp add: configured_def scan_ok_def)
  then have x: "bbytes (l_b l) ! (11 - m) = x" "pending m ?l ys = inp"
    using a(5) m pending_Suc [of m l ys] by (auto simp: pending_def)
  then have "rd (l_b l) (11 - m) = Some x" using b by (simp add: rd_eq_Some)
  with a m have sb: "scan_byte (11 - m) l = Some (True, ?l)" by (intro step [of m l ys]) auto
  have "configured s' f' z' ?l"
    using a(4) by (simp add: configured_def scan_ok_def copy_ok_def)
  then have "delivered d (resume al ys m ?l)"
    using assms(1) m a(3) x(2) by (auto simp: delivers_def)
  then show "delivered d (resume al ys n l)"
    using resume_step [OF _ sb, of al ys] a(4) assms(2) m(1) by (simp add: configured_def)
qed

lemma delivers_refill:
  assumes "delivers al 1 inp s f z d" and "f \<noteq> EL_DATA_FORMAT_UNKNOWN"
    and "s \<noteq> EL_EXIF_FOUND" and "s \<noteq> EL_SKIP_BYTES" and "12 \<le> length inp"
  shows "delivers al 0 inp s f z d"
  unfolding delivers_def
proof (intro allI impI)
  fix n l ys
  assume a: "0 \<le> n" "n \<le> 12" "small ys" "configured s f z l" "pending n l ys = inp"
  show "delivered d (resume al ys n l)"
  proof (cases n)
    case 0
    let ?l = "filled ys (l\<lparr>l_b_len := 0\<rparr>)"
    have c: "l_state l = s" "l_format l = f" "scan_ok l" "blen (l_b l) = 12" using a(4) by (auto simp: configured_def scan_ok_def)
    have ys: "ys = inp" using a(5) 0 c(4) by (cases "l_b l") (simp_all add: pending_def)
    have fl: "l_b ?l = Buf (take 12 ys)" using assms(5) c(4) ys by (cases "l_b l") (simp_all add: filled_def)
    have "loader_detect ?l = Some ?l" using assms(2) c by (simp add: loader_detect_def filled_def)
    then have "resume al ys n l = resume al (drop 12 ys) 12 ?l"
      using 0 assms(3-5) ys c feed_block [OF a(3), of "l\<lparr>l_b_len := 0\<rparr>" al]
      by (simp add: resume_0 block_def resume_def [symmetric])
    moreover have "configured s f z ?l"
      using a(4) filled_ok [of "l\<lparr>l_b_len := 0\<rparr>" ys] by (simp add: configured_def scan_ok_b_len filled_def)
    moreover have "pending 12 ?l (drop 12 ys) = inp" using fl ys by (simp add: pending_def)
    ultimately show ?thesis using assms(1) a(3) by (simp add: delivers_def)
  next
    case (Suc m)
    then show ?thesis using assms(1) a by (auto simp: delivers_def)
  qed
qed

lemma delivers_mono: "delivers al k inp s f z d \<Longrightarrow> k \<le> k' \<Longrightarrow> delivers al k' inp s f z d"
  by (auto simp: delivers_def)

text \<open>A byte that needs no special treatment, with the small buffer refilled before it if necessary.\<close>

lemma delivers_byte:
  assumes "delivers al 0 inp s' f' z' d" and "f \<noteq> EL_DATA_FORMAT_UNKNOWN" and "s \<noteq> EL_EXIF_FOUND"
    and "s \<noteq> EL_SKIP_BYTES" and "12 \<le> length (x # inp)"
    and "\<And>n l ys. \<lbrakk>n < 12; configured s f z l; pending (Suc n) l ys = x # inp; rd (l_b l) (11 - n) = Some x\<rbrakk>
      \<Longrightarrow> scan_byte (11 - n) l = Some (True, l\<lparr>l_state := s', l_format := f', l_size := z'\<rparr>)"
  shows "delivers al 0 (x # inp) s f z d"
proof -
  have "delivers al 1 (x # inp) s f z d"
    using delivers_step [OF assms(1,3,6)] by simp
  then show ?thesis using assms by (intro delivers_refill) auto
qed

lemma delivered_copy:
  assumes "configured EL_EXIF_FOUND EL_DATA_FORMAT_EXIF z l" and "small inp" and "0 < z" and "unat z \<le> length inp"
    and "\<forall>k. al k (unat z)"
  shows "delivered (take (unat z) inp) (copy_in al inp l)"
proof -
  have l: "l_buf l = NULL" "l_bytes_read l = 0" "l_size l = z" "l_format l = EL_DATA_FORMAT_EXIF"
    using assms(1) by (auto simp: configured_def)
  let ?l = "l\<lparr>l_buf := Buf (replicate (unat z) 0), l_store := (l_store l)\<lparr>st_clock := st_clock (l_store l) + 1\<rparr>\<rparr>"
  have "copy_in al inp l = copy_in al inp ?l"
    using l assms(3,5) by (simp add: copy_alloc)
  also have "delivered (take (unat z) inp) \<dots>"
    using l assms by (subst copy_run [of inp ?l "replicate (unat z) 0"])
      (simp_all add: delivered_def exif_loader_get_buf_def min_def)
  finally show ?thesis .
qed

lemma delivers_found:
  assumes "small inp" and "0 < z" and "unat z \<le> length inp" and "\<forall>k. al k (unat z)"
  shows "delivers al 0 inp EL_EXIF_FOUND EL_DATA_FORMAT_EXIF z (take (unat z) inp)"
  unfolding delivers_def
proof (intro allI impI)
  fix n l ys
  assume a: "0 \<le> n" "n \<le> 12" "small ys" "configured EL_EXIF_FOUND EL_DATA_FORMAT_EXIF z l" "pending n l ys = inp"
  have st: "l_state l = EL_EXIF_FOUND" "scan_ok l" "copy_ok l" "blen (l_b l) = 12"
    using a(4) by (auto simp: configured_def scan_ok_def)
  show "delivered (take (unat z) inp) (resume al ys n l)"
  proof (cases n)
    case 0
    then have "resume al ys n l = copy_in al inp (l\<lparr>l_b_len := 0\<rparr>)"
      using a(5) st by (cases "l_b l") (simp_all add: resume_0 feed_found pending_def)
    moreover have "configured EL_EXIF_FOUND EL_DATA_FORMAT_EXIF z (l\<lparr>l_b_len := 0\<rparr>)"
      using a(4) by (simp add: configured_def scan_ok_b_len)
    ultimately show ?thesis using delivered_copy assms by simp
  next
    case (Suc m)
    obtain b where b: "l_b l = Buf b" "length b = 12" using st(4) by (cases "l_b l") auto
    have u: "unat (of_nat (Suc m) :: u32) = Suc m" using Suc a(2) by (intro unat_word_of_nat_32) simp
    have "exif_loader_copy al l (l_b l) (11 - m) (of_nat (Suc m)) = copy_in al (drop (12 - n) b) l"
      using b u Suc a(2) by (simp add: copy_copy_in del: of_nat_Suc)
    moreover obtain r l1 where "copy_in al (drop (12 - n) b) l = Some (r, l1)"
      using copy_keeps [OF _ st(3), of "drop (12 - n) b" al] b(2) by fastforce
    ultimately have "resume al ys n l = and_then (copy_in al (drop (12 - n) b) l) (copy_in al ys)"
      using Suc st(1) by (cases "copy_in al ys l1")
        (auto simp: resume_def scan_feed_def copy_in_def [of al ys] and_then_def simp del: of_nat_Suc)
    also have "\<dots> = copy_in al inp l"
      using copy_append [of "drop (12 - n) b" ys l al] a(5) b(1) assms(1) st(3) by (auto simp: pending_def)
    finally show ?thesis using delivered_copy [OF a(4), of inp al] assms by simp
  qed
qed

lemma skipped_b_len: "(skipped l)\<lparr>l_b_len := 0\<rparr> = skipped l"
  by (cases l) (simp add: skipped_def)

lemma delivers_skip:
  assumes "delivers al 0 inp EL_READ EL_DATA_FORMAT_JPEG 0 d" and "xs \<noteq> []" and "small xs"
  shows "delivers al 0 (xs @ inp) EL_SKIP_BYTES EL_DATA_FORMAT_JPEG (of_nat (length xs)) d"
proof -
  have "delivered d (resume al ys n l)"
    if "n \<le> 12" "small ys" "configured EL_SKIP_BYTES EL_DATA_FORMAT_JPEG (of_nat (length xs)) l"
      "pending n l ys = xs @ inp" "xs \<noteq> []" "small xs" for n l ys xs
    using that
  proof (induction n arbitrary: l xs)
    case 0
    have ys: "ys = xs @ inp" using "0.prems" by (cases "l_b l") (auto simp: configured_def scan_ok_def pending_def)
    let ?l = "skipped (l\<lparr>l_b_len := 0\<rparr>)"
    have "resume al ys 0 l = resume al inp 0 ?l"
      using "0.prems" feed_skip [of ys "l\<lparr>l_b_len := 0\<rparr>" al] ys
      by (simp add: resume_0 configured_def skipped_b_len)
    moreover have "configured EL_READ EL_DATA_FORMAT_JPEG 0 ?l"
      using "0.prems"(3) by (simp add: configured_def scan_ok_def copy_ok_def skipped_def)
    moreover have "pending 0 ?l inp = inp"
      using "0.prems"(3) by (cases "l_b l") (simp_all add: configured_def scan_ok_def pending_def)
    ultimately show ?case using assms(1) "0.prems"(2) ys by (auto simp: delivers_def)
  next
    case (Suc n)
    obtain x xs' where xs: "xs = x # xs'" using Suc.prems(5) by (cases xs) auto
    let ?l = "l\<lparr>l_size := of_nat (length xs'), l_state := (if xs' = [] then EL_READ else EL_SKIP_BYTES)\<rparr>"
    have c: "l_state l = EL_SKIP_BYTES" "l_format l = EL_DATA_FORMAT_JPEG" "l_size l = of_nat (length xs)" "scan_ok l"
        "l_buf l = NULL" "l_bytes_read l = 0" "blen (l_b l) = 12"
      using Suc.prems(3) by (auto simp: configured_def scan_ok_def)
    have "(of_nat (length xs') :: u32) = 0 \<longleftrightarrow> xs' = []"
      using Suc.prems(6) xs by (auto simp: word_unat_eq_iff)
    then have "scan_byte (11 - n) l = Some (True, ?l)"
      using c xs by (simp add: scan_byte_def)
    then have r: "resume al ys (Suc n) l = resume al ys n ?l" using c(1) by (intro resume_step) simp_all
    have p: "pending n ?l ys = xs' @ inp"
      using pending_Suc [of n l ys] Suc.prems(1,4) c(7) xs by (simp add: pending_def)
    show ?case
    proof (cases "xs' = []")
      case True
      then have "configured EL_READ EL_DATA_FORMAT_JPEG 0 ?l" using c by (simp add: configured_def scan_ok_def copy_ok_def)
      then show ?thesis using assms(1) r p True Suc.prems(1,2) by (simp add: delivers_def)
    next
      case False
      then have "configured EL_SKIP_BYTES EL_DATA_FORMAT_JPEG (of_nat (length xs')) ?l"
        using c by (simp add: configured_def scan_ok_def copy_ok_def)
      then show ?thesis using Suc.IH [of xs' ?l] r p False Suc.prems xs by simp
    qed
  qed
  with assms(2,3) show ?thesis by (simp add: delivers_def)
qed

lemma size_bytes: "push_bit 8 (ucast (byte_n (Suc 0) v)) OR ucast (byte_n 0 v) = (ucast (v :: u16) :: u32)"
proof (rule bit_word_eqI)
  fix n
  assume "n < LENGTH(32)"
  then consider "n < 8" | "8 \<le> n" "n < 16" | "16 \<le> n" by fastforce
  then show "bit (push_bit 8 (ucast (byte_n (Suc 0) v)) OR ucast (byte_n 0 v) :: u32) n = bit (ucast v :: u32) n"
    by cases (auto simp: byte_n_def bit_simps dest: bit_imp_le_length)
qed

text \<open>The two bytes of a size, and what follows.\<close>

lemma delivers_size:
  assumes "delivers al 0 inp s' f (z - y) d" and "12 \<le> Suc (length inp)" and "z = ucast (v :: u16)"
    and "f = EL_DATA_FORMAT_JPEG \<and> s' = EL_SKIP_BYTES \<and> y = 2 \<or> f = EL_DATA_FORMAT_EXIF \<and> s' = EL_EXIF_FOUND \<and> y = 0"
  shows "delivers al 0 (byte_n (Suc 0) v # byte_n 0 v # inp) EL_READ_SIZE_BYTE_08 f 0 d"
proof -
  have f: "f \<noteq> EL_DATA_FORMAT_UNKNOWN" using assms(4) by auto
  have "delivers al 0 (byte_n 0 v # inp) EL_READ_SIZE_BYTE_00 f (push_bit 8 (ucast (byte_n (Suc 0) v))) d"
    using assms f by (intro delivers_byte [OF assms(1)])
      (auto simp: scan_byte_def configured_def scan_size_done_def size_bytes)
  then show ?thesis
    by (rule delivers_byte) (use assms(2) f in \<open>auto simp: scan_byte_def configured_def\<close>)
qed

text \<open>Markers in the state \<open>EL_READ\<close>; \<open>Suc k\<close> rounds must be left when the format is not known yet.\<close>

definition other_segment :: "u8 \<Rightarrow> bool" where
  "other_segment m \<longleftrightarrow> m \<in> {JPEG_MARKER_DHT, JPEG_MARKER_DQT, JPEG_MARKER_APP0, JPEG_MARKER_APP2,
     JPEG_MARKER_APP13, JPEG_MARKER_COM}"

lemma delivers_ff:
  assumes "delivers al k inp EL_READ f z d" and "x = 0xff \<or> x = JPEG_MARKER_SOI"
  shows "delivers al (Suc k) (x # inp) EL_READ f z d"
  by (rule delivers_step [OF assms(1)]) (use assms(2) in \<open>auto simp: scan_byte_def scan_marker_def configured_def\<close>)

lemma delivers_marker:
  assumes "delivers al k inp EL_READ_SIZE_BYTE_08 EL_DATA_FORMAT_JPEG 0 d" and "other_segment m"
  shows "delivers al (Suc k) (m # inp) EL_READ f z d"
  by (rule delivers_step [OF assms(1)])
     (use assms(2) in \<open>auto simp: other_segment_def scan_byte_def scan_marker_def configured_def\<close>)

lemma scan_app1:
  assumes "i < 12" and "drop i (bbytes (l_b l)) @ ys = JPEG_MARKER_APP1 # hi # lo # ExifHeader @ rest"
    and "blen (l_b l) = 12" and "rd (l_b l) i = Some JPEG_MARKER_APP1"
  shows "scan_marker i l =
    Some (True, l\<lparr>l_state := EL_READ_SIZE_BYTE_08, l_format := EL_DATA_FORMAT_EXIF, l_size := 0\<rparr>)"
proof -
  obtain d where d: "l_b l = Buf d" "length d = 12" using assms(3) by (cases "l_b l") auto
  define k where "k = min 6 (12 - i - 3)"
  have k6: "k \<le> length ExifHeader" by (simp add: k_def ExifHeader_def)
  have "rd_range (l_b l) (i + 3) k = Some (take k ExifHeader)" if "k \<noteq> 0"
  proof -
    have le: "i + 3 + k \<le> 12" using that assms(1) by (auto simp: k_def)
    have "take k (drop 3 (drop i d @ ys)) = take k (drop 3 (JPEG_MARKER_APP1 # hi # lo # ExifHeader @ rest))"
      using assms(2) d(1) by simp
    then have "take k (drop (i + 3) d) = take k ExifHeader"
      using k6 le d(2) by (simp add: add.commute)
    then show ?thesis using d le by simp
  qed
  then show ?thesis
    using assms(4) unfolding scan_marker_def Let_def k_def [symmetric] by (cases l) auto
qed

lemma delivers_app1:
  assumes "delivers al k (hi # lo # ExifHeader @ rest) EL_READ_SIZE_BYTE_08 EL_DATA_FORMAT_EXIF 0 d"
  shows "delivers al (Suc k) (JPEG_MARKER_APP1 # hi # lo # ExifHeader @ rest) EL_READ f z d"
proof (rule delivers_step [OF assms])
  fix n l ys
  assume a: "n < 12" "configured EL_READ f z l"
    "pending (Suc n) l ys = JPEG_MARKER_APP1 # hi # lo # ExifHeader @ rest"
    "rd (l_b l) (11 - n) = Some JPEG_MARKER_APP1"
  then have "l_state l = EL_READ" "blen (l_b l) = 12" by (auto simp: configured_def scan_ok_def)
  then show "scan_byte (11 - n) l =
      Some (True, l\<lparr>l_state := EL_READ_SIZE_BYTE_08, l_format := EL_DATA_FORMAT_EXIF, l_size := 0\<rparr>)"
    using a scan_app1 [of "11 - n" l ys hi lo rest] by (simp add: scan_byte_def pending_def)
qed simp

text \<open>A segment with a marker that is skipped, and the segment with the EXIF data.\<close>

definition segment :: "u8 \<times> bytes \<Rightarrow> bytes" where
  "segment = (\<lambda>(m, xs). let n = of_nat (length xs + 2) :: u16 in
     [0xff, m, byte_n (Suc 0) n, byte_n 0 n] @ xs)"

definition exif_segment :: "u16 \<Rightarrow> bytes \<Rightarrow> bytes" where
  "exif_segment n rest = [0xff, JPEG_MARKER_APP1, byte_n (Suc 0) n, byte_n 0 n] @ ExifHeader @ rest"

definition segment_ok :: "u8 \<times> bytes \<Rightarrow> bool" where
  "segment_ok = (\<lambda>(m, xs). other_segment m \<and> 0 < length xs \<and> length xs + 2 < 2 ^ 16)"

lemma delivers_exif_size:
  assumes "0 < n" and "unat (n :: u16) \<le> 6 + length rest" and "6 \<le> length rest" and "\<forall>k. al k (unat n)"
    and "length rest + 6 < 2 ^ 32"
  shows "delivers al 0 (byte_n (Suc 0) n # byte_n 0 n # ExifHeader @ rest) EL_READ_SIZE_BYTE_08 EL_DATA_FORMAT_EXIF 0
    (take (unat n) (ExifHeader @ rest))"
proof (rule delivers_size [where y = 0 and z = "ucast n" and s' = EL_EXIF_FOUND])
  have u: "unat (ucast n :: u32) = unat n"
    using unat_u16 [of n] by (simp add: unsigned_ucast_eq take_bit_nat_eq_self)
  moreover have "0 < (ucast n :: u32)" using assms(1) u by (simp add: word_less_nat_alt)
  ultimately show "delivers al 0 (ExifHeader @ rest) EL_EXIF_FOUND EL_DATA_FORMAT_EXIF (ucast n - 0) (take (unat n) (ExifHeader @ rest))"
    using delivers_found [of "ExifHeader @ rest" "ucast n" al] assms by (simp add: ExifHeader_def)
qed (use assms in \<open>auto simp: ExifHeader_def\<close>)

lemma of_nat_ucast_u16: "n < 2 ^ 16 \<Longrightarrow> (of_nat n :: u32) = ucast (of_nat n :: u16)"
  by (rule word_unat_eq_iff [THEN iffD2]) (simp add: unsigned_ucast_eq unsigned_of_nat take_bit_nat_eq_self)

lemma delivers_segment_size:
  assumes "delivers al 0 inp EL_READ EL_DATA_FORMAT_JPEG 0 d" and "12 \<le> length inp" and "0 < length xs"
    and "length xs + 2 < 2 ^ 16"
  shows "delivers al 0 (byte_n (Suc 0) (of_nat (length xs + 2) :: u16) # byte_n 0 (of_nat (length xs + 2) :: u16) # xs @ inp)
    EL_READ_SIZE_BYTE_08 EL_DATA_FORMAT_JPEG 0 d"
proof (rule delivers_size [where y = 2 and z = "of_nat (length xs + 2)" and s' = EL_SKIP_BYTES])
  show "delivers al 0 (xs @ inp) EL_SKIP_BYTES EL_DATA_FORMAT_JPEG (of_nat (length xs + 2) - 2) d"
    using delivers_skip [OF assms(1), of xs] assms(3,4) by simp
  show "(of_nat (length xs + 2) :: u32) = ucast (of_nat (length xs + 2) :: u16)"
    using assms(4) by (intro of_nat_ucast_u16)
qed (use assms in auto)

lemma delivers_segments:
  assumes "list_all segment_ok segs" and "12 \<le> length inp" and "\<And>z. delivers al 0 inp EL_READ EL_DATA_FORMAT_JPEG z d"
  shows "delivers al 0 (concat (map segment segs) @ inp) EL_READ EL_DATA_FORMAT_JPEG z d"
  using assms(1)
proof (induction segs arbitrary: z)
  case Nil
  then show ?case using assms(3) by simp
next
  case (Cons s segs)
  obtain m xs where s: "s = (m, xs)" by (cases s)
  let ?inp = "concat (map segment segs) @ inp"
  let ?n = "of_nat (length xs + 2) :: u16"
  have ok: "other_segment m" "0 < length xs" "length xs + 2 < 2 ^ 16"
    using Cons.prems s by (auto simp: segment_ok_def)
  have "delivers al 0 (byte_n (Suc 0) ?n # byte_n 0 ?n # xs @ ?inp) EL_READ_SIZE_BYTE_08 EL_DATA_FORMAT_JPEG 0 d"
    using Cons assms(2) ok by (intro delivers_segment_size) auto
  from delivers_marker [OF this ok(1)]
  have "delivers al 1 (m # byte_n (Suc 0) ?n # byte_n 0 ?n # xs @ ?inp) EL_READ EL_DATA_FORMAT_JPEG z d" by simp
  then have "delivers al 0 (m # byte_n (Suc 0) ?n # byte_n 0 ?n # xs @ ?inp) EL_READ EL_DATA_FORMAT_JPEG z d"
    using assms(2) by (intro delivers_refill) auto
  then have "delivers al 1 (0xff # m # byte_n (Suc 0) ?n # byte_n 0 ?n # xs @ ?inp) EL_READ EL_DATA_FORMAT_JPEG z d"
    using delivers_ff by simp
  then show ?case
    using assms(2) s by (intro delivers_refill) (auto simp: segment_def Let_def simp del: of_nat_add)
qed

lemma delivers_first:
  assumes "list_all segment_ok segs" and "0 < n" and "unat n \<le> 6 + length rest" and "6 \<le> length rest"
    and "length rest + 6 < 2 ^ 32" and "\<forall>k. al k (unat n)"
  shows "\<exists>m inp. concat (map segment segs) @ exif_segment n rest = 0xff # m # inp \<and>
    (\<forall>f z. delivers al 1 (m # inp) EL_READ f z (take (unat n) (ExifHeader @ rest)))"
proof -
  let ?d = "take (unat n) (ExifHeader @ rest)"
  let ?n = "byte_n (Suc 0) n # byte_n 0 n # ExifHeader @ rest"
  have app1: "delivers al 1 (JPEG_MARKER_APP1 # ?n) EL_READ f z ?d" for f z
    using delivers_app1 [OF delivers_exif_size] assms by simp
  have len: "12 \<le> length ?n" using assms(4) by (simp add: ExifHeader_def)
  have exif: "delivers al 0 (exif_segment n rest) EL_READ EL_DATA_FORMAT_JPEG z ?d" for z
  proof -
    have "delivers al 0 (JPEG_MARKER_APP1 # ?n) EL_READ EL_DATA_FORMAT_JPEG z ?d"
      using app1 len by (intro delivers_refill) auto
    then have "delivers al 1 (0xff # JPEG_MARKER_APP1 # ?n) EL_READ EL_DATA_FORMAT_JPEG z ?d"
      using delivers_ff by simp
    then have "delivers al 0 (0xff # JPEG_MARKER_APP1 # ?n) EL_READ EL_DATA_FORMAT_JPEG z ?d"
      using len by (intro delivers_refill) auto
    then show ?thesis by (simp add: exif_segment_def)
  qed
  have elen: "12 \<le> length (exif_segment n rest)" using assms(4) by (simp add: exif_segment_def ExifHeader_def)
  show ?thesis
  proof (cases segs)
    case Nil
    then show ?thesis using app1 by (simp add: exif_segment_def)
  next
    case (Cons s segs')
    obtain m xs where s: "s = (m, xs)" by (cases s)
    let ?inp = "concat (map segment segs') @ exif_segment n rest"
    have ok: "other_segment m" "0 < length xs" "length xs + 2 < 2 ^ 16" "list_all segment_ok segs'"
      using assms(1) Cons s by (auto simp: segment_ok_def)
    have "delivers al 0 (byte_n (Suc 0) (of_nat (length xs + 2) :: u16) # byte_n 0 (of_nat (length xs + 2) :: u16) # xs @ ?inp)
      EL_READ_SIZE_BYTE_08 EL_DATA_FORMAT_JPEG 0 ?d"
      using delivers_segments [OF ok(4) elen exif] ok elen by (intro delivers_segment_size) auto
    from delivers_marker [OF this ok(1)] show ?thesis
      using Cons s by (auto simp: segment_def Let_def simp del: of_nat_add)
  qed
qed

definition fresh_loader :: "ExifLoader \<Rightarrow> bool" where
  "fresh_loader l \<longleftrightarrow> l_state l = EL_READ \<and> l_format l = EL_DATA_FORMAT_UNKNOWN \<and> blen (l_b l) = 12 \<and> l_b_len l = 0 \<and>
     l_size l = 0 \<and> l_buf l = NULL \<and> l_bytes_read l = 0"

lemma exif_loader_new_fresh: "exif_loader_new_mem al s = (Some l, s') \<Longrightarrow> fresh_loader l"
  by (auto simp: exif_loader_new_mem_def fresh_loader_def split: prod.splits option.splits)

lemma exif_loader_reset_fresh: "blen (l_b l) = 12 \<Longrightarrow> fresh_loader (exif_loader_reset l)"
  by (simp add: exif_loader_reset_def fresh_loader_def)

lemma fresh_loader_ok: "fresh_loader l \<Longrightarrow> loader_ok l"
  by (simp add: fresh_loader_def loader_ok_def scan_ok_def copy_ok_def)

lemma feed_first_block:
  assumes "fresh_loader l" and "small xs" and "12 \<le> length xs" and "xs ! 0 = 0xff" and "xs ! 2 = 0xff"
  shows "feed al xs l = resume al (drop 12 xs) 12 (filled xs l) \<and> l_b (filled xs l) = Buf (take 12 xs)"
proof -
  have l: "l_state l = EL_READ" "l_b_len l = 0" "blen (l_b l) = 12" "l_format l = EL_DATA_FORMAT_UNKNOWN"
    using assms(1) by (auto simp: fresh_loader_def)
  have b: "l_b (filled xs l) = Buf (take 12 xs)"
    using assms(3) l by (cases "l_b l") (simp_all add: filled_def)
  have "take 8 xs \<noteq> FUJIFILM"
  proof
    assume "take 8 xs = FUJIFILM"
    then have "take 8 xs ! 0 = FUJIFILM ! 0" by simp
    then show False using assms(4) by (simp add: FUJIFILM_def)
  qed
  moreover have "take 6 (drop 2 xs) \<noteq> ExifHeader"
  proof
    assume "take 6 (drop 2 xs) = ExifHeader"
    then have "take 6 (drop 2 xs) ! 0 = ExifHeader ! 0" by simp
    then show False using assms(3,5) by (simp add: ExifHeader_def)
  qed
  ultimately have "loader_detect (filled xs l) = Some (filled xs l)"
    using b assms(3) by (simp add: loader_detect_def min_def drop_take)
  then show ?thesis
    using b l feed_block [OF assms(2), of l al] assms(3) by (simp add: block_def resume_def)
qed

lemma feed_finds_exif:
  assumes "fresh_loader l" and "list_all segment_ok segs" and "0 < n" and "unat n \<le> 6 + length rest" and "6 \<le> length rest"
    and "\<forall>k. al k (unat n)" and "xs = [0xff, JPEG_MARKER_SOI] @ concat (map segment segs) @ exif_segment n rest"
    and "small xs"
  shows "delivered (take (unat n) (ExifHeader @ rest)) (feed al xs l)"
proof -
  let ?d = "take (unat n) (ExifHeader @ rest)"
  have len: "length rest + 6 < 2 ^ 32" "12 \<le> length xs" using assms(5,7,8) by (auto simp: exif_segment_def ExifHeader_def)
  then obtain m inp where x: "concat (map segment segs) @ exif_segment n rest = 0xff # m # inp"
      "\<forall>f z. delivers al 1 (m # inp) EL_READ f z ?d"
    using delivers_first [OF assms(2-5), of al] assms(6) by blast
  have xs: "xs = 0xff # JPEG_MARKER_SOI # 0xff # m # inp" using assms(7) x(1) by simp
  have d: "delivers al 4 xs EL_READ EL_DATA_FORMAT_UNKNOWN 0 ?d"
    using delivers_ff [OF delivers_ff [OF delivers_ff [OF x(2) [rule_format]]]] xs by (simp add: numeral_eq_Suc)
  have f: "feed al xs l = resume al (drop 12 xs) 12 (filled xs l)" "l_b (filled xs l) = Buf (take 12 xs)"
    using feed_first_block [OF assms(1,8) len(2), of al] xs by auto
  have "configured EL_READ EL_DATA_FORMAT_UNKNOWN 0 (filled xs l)"
    using assms(1) f(2) len(2) by (auto simp: configured_def fresh_loader_def filled_def scan_ok_def copy_ok_def)
  moreover have "pending 12 (filled xs l) (drop 12 xs) = xs" using f(2) by (simp add: pending_def)
  ultimately show ?thesis
    using d assms(8) f(1) by (simp add: delivers_def)
qed

section \<open>Theorems\<close>

lemma write_pieces_feed:
  assumes "loader_ok l" and "list_all (\<lambda>c. c \<noteq> [] \<and> length c \<le> 1024) cs" and "cs \<noteq> []" and "small (concat cs)"
    and "blen data = 1024"
  shows "write_pieces al data cs l = map_option snd (feed al (concat cs) l)"
  using assms
proof (induction cs arbitrary: l data)
  case Nil
  then show ?case by simp
next
  case (Cons c cs)
  have c: "c \<noteq> []" "length c \<le> 1024" "small c" using Cons.prems by auto
  obtain d where d: "data = Buf d" "length d = 1024" using Cons.prems(5) by (cases data) auto
  obtain r l1 where f: "feed al c l = Some (r, l1)" "loader_ok l1" using feed_ok [OF Cons.prems(1) c(3)] by blast
  have w: "exif_loader_write al l (Buf (c @ drop (length c) d)) 0 (of_nat (length c)) = Some (r, l1)"
    using write_feed [of 0 "of_nat (length c)" "c @ drop (length c) d" al l] c d f(1) by simp
  have fa: "feed al (c @ concat cs) l = and_then (Some (r, l1)) (feed al (concat cs))"
    using feed_append [OF Cons.prems(1), of c "concat cs" al] Cons.prems(4) f(1) by simp
  show ?case
  proof (cases "cs = []")
    case True
    then show ?thesis using c d w f(1) by simp
  next
    case False
    then have "write_pieces al (Buf (c @ drop (length c) d)) cs l1 = map_option snd (feed al (concat cs) l1)"
      using Cons.IH [OF f(2)] Cons.prems c d by simp
    then show ?thesis using c d w fa by (cases "r = 0") simp_all
  qed
qed

text \<open>
  C22. However a file is cut into pieces by \<open>fread\<close>, giving the pieces to the reader one after the other has
  the effect of giving it the whole file at once, in every state of the reader; and nothing is
  accessed outside a buffer.
\<close>

theorem loader_write_file_is_one_write:
  assumes "loader_ok l" and "list_all (\<lambda>c. c \<noteq> [] \<and> length c \<le> 1024) cs" and "cs \<noteq> []"
    and "length (concat cs) < 2 ^ 32"
  shows "exif_loader_write_file al (Some cs) l
      = map_option snd (exif_loader_write al l (Buf (concat cs)) 0 (of_nat (length (concat cs)))) \<and>
    (\<exists>l'. exif_loader_write_file al (Some cs) l = Some l' \<and> loader_ok l')"
proof -
  have e: "exif_loader_write_file al (Some cs) l = map_option snd (feed al (concat cs) l)"
    using write_pieces_feed [OF assms] by (simp add: exif_loader_write_file_def)
  then show ?thesis
    using feed_ok [OF assms(1,4), of al] by (auto simp: feed_def)
qed

theorem loader_write_file_is_one_write_witness:
  "\<exists>l l'. fst (exif_loader_new_mem (\<lambda>_ _. True) \<lparr>st_heap = Map.empty, st_clock = 0\<rparr>) = Some l \<and>
     exif_loader_write_file (\<lambda>_ _. True) (Some [[0xff, 0xd8, 0xff], [0xe1, 0x00, 0x08]]) l = Some l' \<and> loader_ok l' \<and>
     map_option snd (exif_loader_write (\<lambda>_ _. True) l (Buf [0xff, 0xd8, 0xff, 0xe1, 0x00, 0x08]) 0 6) = Some l'"
proof -
  obtain l s where l: "exif_loader_new_mem (\<lambda>_ _. True) \<lparr>st_heap = Map.empty, st_clock = 0\<rparr> = (Some l, s)"
    by (simp add: exif_loader_new_mem_def exif_mem_alloc_def)
  then have "loader_ok l" using fresh_loader_ok exif_loader_new_fresh by blast
  from loader_write_file_is_one_write [OF this, of "[[0xff, 0xd8, 0xff], [0xe1, 0x00, 0x08]]" "\<lambda>_ _. True"]
  have both: "exif_loader_write_file (\<lambda>_ _. True) (Some [[0xff, 0xd8, 0xff], [0xe1, 0x00, 0x08]]) l =
      map_option snd (exif_loader_write (\<lambda>_ _. True) l (Buf [0xff, 0xd8, 0xff, 0xe1, 0x00, 0x08]) 0 6) \<and>
    (\<exists>l'. exif_loader_write_file (\<lambda>_ _. True) (Some [[0xff, 0xd8, 0xff], [0xe1, 0x00, 0x08]]) l = Some l' \<and> loader_ok l')"
    by (simp del: map_option_eq_Some) metis
  from both obtain l' where
    "exif_loader_write_file (\<lambda>_ _. True) (Some [[0xff, 0xd8, 0xff], [0xe1, 0x00, 0x08]]) l = Some l'" "loader_ok l'" by blast
  then show ?thesis using l both by (intro exI [of _ l] exI [of _ l']) (simp only: fst_conv simp_thms)
qed

text \<open>
  C10. In a JPEG file the reader skips the segments before the first one with EXIF data, if they are of
  the six kinds it knows (DHT, DQT, APP0, APP2, APP13, COM) and not empty, and collects from behind that
  segment's length field as many bytes as the field says, wherever the pieces of the file are cut.
  The field counts its own two bytes, so these are the bytes of the segment and the two that
  follow it; they have to be in the file, with at least twelve bytes behind the length field.
\<close>

theorem loader_finds_exif:
  assumes "exif_loader_new_mem al s = (Some l, s')" and "list_all segment_ok segs"
    and "0 < n" and "unat n \<le> 6 + length rest" and "6 \<le> length rest" and "\<forall>k. al k (unat n)"
    and "concat cs = [0xff, JPEG_MARKER_SOI] @ concat (map segment segs) @ exif_segment n rest"
    and "length (concat cs) < 2 ^ 32" and "list_all (\<lambda>c. c \<noteq> [] \<and> length c \<le> 1024) cs"
  shows "\<exists>l'. exif_loader_write_file al (Some cs) l = Some l' \<and>
    exif_loader_get_buf l' = (Buf (take (unat n) (ExifHeader @ rest)), ucast n)"
proof -
  have fr: "fresh_loader l" using exif_loader_new_fresh assms(1) by blast
  have "cs \<noteq> []" using assms(7) by auto
  then have w: "exif_loader_write_file al (Some cs) l = map_option snd (feed al (concat cs) l)"
    using write_pieces_feed [OF fresh_loader_ok [OF fr]] assms(8,9) by (simp add: exif_loader_write_file_def)
  have "length (take (unat n) (ExifHeader @ rest)) = unat n" using assms(4) by (simp add: ExifHeader_def)
  moreover have "(of_nat (unat n) :: u32) = ucast n" 
    by (rule word_unat_eq_iff [THEN iffD2]) (simp add: unsigned_of_nat unsigned_ucast_eq)
  ultimately show ?thesis
    using w feed_finds_exif [OF fr assms(2-5) _ assms(7,8), of al] assms(6)
    by (auto simp: delivered_iff simp del: length_take take_append)
qed

theorem loader_finds_exif_witness:
  "\<exists>l l'. fst (exif_loader_new_mem (\<lambda>_ _. True) \<lparr>st_heap = Map.empty, st_clock = 0\<rparr>) = Some l \<and>
     exif_loader_write_file (\<lambda>_ _. True)
       (Some [[0xff, 0xd8, 0xff, 0xe0, 0x00, 0x04, 0x4a, 0x46, 0xff, 0xe1], [0x00, 0x0c] @ ExifHeader @ [1, 2, 3, 4, 5, 6, 7]]) l
         = Some l' \<and>
     exif_loader_get_buf l' = (Buf (ExifHeader @ [1, 2, 3, 4, 5, 6]), 12)"
proof -
  obtain l s where l: "exif_loader_new_mem (\<lambda>_ _. True) \<lparr>st_heap = Map.empty, st_clock = 0\<rparr> = (Some l, s)"
    by (simp add: exif_loader_new_mem_def exif_mem_alloc_def)
  have "\<exists>l'. exif_loader_write_file (\<lambda>_ _. True)
      (Some [[0xff, 0xd8, 0xff, 0xe0, 0x00, 0x04, 0x4a, 0x46, 0xff, 0xe1], [0x00, 0x0c] @ ExifHeader @ [1, 2, 3, 4, 5, 6, 7]]) l
        = Some l' \<and>
    exif_loader_get_buf l' = (Buf (take (unat (12 :: u16)) (ExifHeader @ [1, 2, 3, 4, 5, 6, 7])), ucast (12 :: u16))"
    by (rule loader_finds_exif [OF l, of "[(0xe0, [0x4a, 0x46])]"])
       (simp_all add: segment_ok_def other_segment_def segment_def exif_segment_def ExifHeader_def byte_n_def Let_def)
  then show ?thesis using l by (simp add: ExifHeader_def)
qed

lemma scan_loop_numeral:
  "scan_loop al buf p len (numeral k) l =
    (if l_state l = EL_EXIF_FOUND
     then do { (r, l) \<leftarrow> exif_loader_copy al l (l_b l) (11 - pred_numeral k) (of_nat (numeral k));
               if r = 0 then Some (Some 0, l)
               else do { (r, l) \<leftarrow> exif_loader_copy al l buf p len; Some (Some r, l) } }
     else do { (go, l) \<leftarrow> scan_byte (11 - pred_numeral k) l;
               if go then scan_loop al buf p len (pred_numeral k) l else Some (Some 0, l) })"
  unfolding numeral_eq_Suc scan_loop.simps ..

lemma scan_empty_segment:
  assumes "l_b l = Buf [0xff, JPEG_MARKER_SOI, 0xff, JPEG_MARKER_COM, 0x00, 0x02, r0, r1, r2, r3, r4, r5]"
    and "l_state l = EL_READ"
  shows "scan_feed al ys 12 l =
    Some (None, l\<lparr>l_format := EL_DATA_FORMAT_JPEG, l_size := - 6, l_state := EL_SKIP_BYTES\<rparr>)"
  using assms
  by (cases l) (simp add: scan_feed_def scan_loop_numeral scan_byte_def scan_marker_def scan_size_done_def)

text \<open>
  A segment whose length field says that it is empty makes the reader skip the rest of the file: the
  count of bytes to skip wraps below zero. EXIF data behind it are not found.
\<close>

theorem loader_lost_after_empty_segment:
  assumes "exif_loader_new_mem al s = (Some l, s')" and "6 \<le> length rest" and "length rest < 2 ^ 32 - 6"
    and "xs = [0xff, JPEG_MARKER_SOI, 0xff, JPEG_MARKER_COM, 0x00, 0x02] @ rest"
  shows "\<exists>l'. exif_loader_write al l (Buf xs) 0 (of_nat (length xs)) = Some (1, l') \<and>
    l_state l' = EL_SKIP_BYTES \<and> exif_loader_get_buf l' = (NULL, 0)"
proof -
  have fr: "fresh_loader l" using exif_loader_new_fresh assms(1) by blast
  have len: "small xs" "12 \<le> length xs" using assms(2-4) by auto
  obtain r0 r1 r2 r3 r4 r5 ys where rest: "rest = r0 # r1 # r2 # r3 # r4 # r5 # ys"
    using assms(2) by (auto simp: numeral_eq_Suc Suc_le_length_iff)
  let ?l = "filled xs l"
  let ?l6 = "?l\<lparr>l_format := EL_DATA_FORMAT_JPEG, l_size := - 6, l_state := EL_SKIP_BYTES\<rparr>"
  have l: "l_state ?l = EL_READ" "l_format ?l = EL_DATA_FORMAT_UNKNOWN" "l_size ?l = 0" "l_buf ?l = NULL" "l_bytes_read ?l = 0"
    using fr by (auto simp: fresh_loader_def filled_def)
  have f: "feed al xs l = resume al (drop 12 xs) 12 ?l" "l_b ?l = Buf (take 12 xs)"
    using feed_first_block [OF fr len] assms(4) by auto
  have "scan_feed al (drop 12 xs) 12 ?l = Some (None, ?l6)"
    using f(2) l assms(4) rest by (intro scan_empty_segment) simp_all
  moreover have "feed al (drop 12 xs) (?l6\<lparr>l_b_len := 0\<rparr>) =
      Some (1, ?l6\<lparr>l_b_len := 0, l_size := - 6 - of_nat (length (drop 12 xs))\<rparr>)"
    using assms(3,4) by (subst feed_skip_all) simp_all
  ultimately show ?thesis
    using f(1) l by (simp add: feed_def [symmetric] resume_def exif_loader_get_buf_def)
qed

theorem loader_lost_after_empty_segment_witness:
  "\<exists>l l'. fst (exif_loader_new_mem (\<lambda>_ _. True) \<lparr>st_heap = Map.empty, st_clock = 0\<rparr>) = Some l \<and>
     exif_loader_write (\<lambda>_ _. True) l
       (Buf ([0xff, 0xd8, 0xff, 0xfe, 0x00, 0x02, 0xff, 0xe1, 0x00, 0x0c] @ ExifHeader @ [1, 2, 3, 4, 5, 6])) 0 22 = Some (1, l') \<and>
     exif_loader_get_buf l' = (NULL, 0)"
proof -
  obtain l s where l: "exif_loader_new_mem (\<lambda>_ _. True) \<lparr>st_heap = Map.empty, st_clock = 0\<rparr> = (Some l, s)"
    by (simp add: exif_loader_new_mem_def exif_mem_alloc_def)
  from loader_lost_after_empty_segment [OF l, of "[0xff, 0xe1, 0x00, 0x0c] @ ExifHeader @ [1, 2, 3, 4, 5, 6]", OF _ _ refl] l
  show ?thesis by (auto simp: ExifHeader_def)
qed

end
