(* ===== verification/Exif_Entry.thy ===== *)
theory Exif_Entry
  imports Exif_Data
begin

text \<open>
  The values of entries in \<^verbatim>\<open>libexifa/exif-entry.c\<close>: \<open>exif_entry_fix\<close>, which brings an entry that was
  loaded into the format that the specification asks for, and \<open>exif_entry_initialize\<close>, which gives a new
  entry the default value of its tag. Both work on one entry; the pair has the number of requests for
  memory so far. An entry that belongs to a directory has a parent, and the directory's image has the byte
  order \<open>ord\<close>. Log messages are left out; the translation of \<open>[None]\<close> is the identity.
\<close>

section \<open>Tags\<close>

text \<open>The numbers of the tags, from \<^verbatim>\<open>exif-tag.h\<close>.\<close>

abbreviation (input) TAG_YCBCR_SUB_SAMPLING :: u16 where "TAG_YCBCR_SUB_SAMPLING \<equiv> 0x0212"
abbreviation (input) TAG_SUBJECT_AREA :: u16 where "TAG_SUBJECT_AREA \<equiv> 0x9214"
abbreviation (input) TAG_COLOR_SPACE :: u16 where "TAG_COLOR_SPACE \<equiv> 0xa001"
abbreviation (input) TAG_PLANAR_CONFIGURATION :: u16 where "TAG_PLANAR_CONFIGURATION \<equiv> 0x011c"
abbreviation (input) TAG_SENSING_METHOD :: u16 where "TAG_SENSING_METHOD \<equiv> 0xa217"
abbreviation (input) TAG_ORIENTATION :: u16 where "TAG_ORIENTATION \<equiv> 0x0112"
abbreviation (input) TAG_YCBCR_POSITIONING :: u16 where "TAG_YCBCR_POSITIONING \<equiv> 0x0213"
abbreviation (input) TAG_PHOTOMETRIC_INTERPRETATION :: u16 where "TAG_PHOTOMETRIC_INTERPRETATION \<equiv> 0x0106"
abbreviation (input) TAG_CUSTOM_RENDERED :: u16 where "TAG_CUSTOM_RENDERED \<equiv> 0xa401"
abbreviation (input) TAG_EXPOSURE_MODE :: u16 where "TAG_EXPOSURE_MODE \<equiv> 0xa402"
abbreviation (input) TAG_WHITE_BALANCE :: u16 where "TAG_WHITE_BALANCE \<equiv> 0xa403"
abbreviation (input) TAG_SCENE_CAPTURE_TYPE :: u16 where "TAG_SCENE_CAPTURE_TYPE \<equiv> 0xa406"
abbreviation (input) TAG_GAIN_CONTROL :: u16 where "TAG_GAIN_CONTROL \<equiv> 0xa407"
abbreviation (input) TAG_SATURATION :: u16 where "TAG_SATURATION \<equiv> 0xa409"
abbreviation (input) TAG_CONTRAST :: u16 where "TAG_CONTRAST \<equiv> 0xa408"
abbreviation (input) TAG_SHARPNESS :: u16 where "TAG_SHARPNESS \<equiv> 0xa40a"
abbreviation (input) TAG_ISO_SPEED_RATINGS :: u16 where "TAG_ISO_SPEED_RATINGS \<equiv> 0x8827"
abbreviation (input) TAG_FNUMBER :: u16 where "TAG_FNUMBER \<equiv> 0x829d"
abbreviation (input) TAG_APERTURE_VALUE :: u16 where "TAG_APERTURE_VALUE \<equiv> 0x9202"
abbreviation (input) TAG_EXPOSURE_TIME :: u16 where "TAG_EXPOSURE_TIME \<equiv> 0x829a"
abbreviation (input) TAG_FOCAL_LENGTH :: u16 where "TAG_FOCAL_LENGTH \<equiv> 0x920a"
abbreviation (input) TAG_EXPOSURE_BIAS_VALUE :: u16 where "TAG_EXPOSURE_BIAS_VALUE \<equiv> 0x9204"
abbreviation (input) TAG_BRIGHTNESS_VALUE :: u16 where "TAG_BRIGHTNESS_VALUE \<equiv> 0x9203"
abbreviation (input) TAG_SHUTTER_SPEED_VALUE :: u16 where "TAG_SHUTTER_SPEED_VALUE \<equiv> 0x9201"
abbreviation (input) TAG_USER_COMMENT :: u16 where "TAG_USER_COMMENT \<equiv> 0x9286"
abbreviation (input) TAG_PIXEL_X_DIMENSION :: u16 where "TAG_PIXEL_X_DIMENSION \<equiv> 0xa002"
abbreviation (input) TAG_PIXEL_Y_DIMENSION :: u16 where "TAG_PIXEL_Y_DIMENSION \<equiv> 0xa003"
abbreviation (input) TAG_SUBJECT_LOCATION :: u16 where "TAG_SUBJECT_LOCATION \<equiv> 0xa214"
abbreviation (input) TAG_COMPRESSION :: u16 where "TAG_COMPRESSION \<equiv> 0x0103"
abbreviation (input) TAG_FOCAL_LENGTH_IN_35MM_FILM :: u16 where "TAG_FOCAL_LENGTH_IN_35MM_FILM \<equiv> 0xa405"
abbreviation (input) TAG_SUBJECT_DISTANCE_RANGE :: u16 where "TAG_SUBJECT_DISTANCE_RANGE \<equiv> 0xa40c"
abbreviation (input) TAG_FLASH :: u16 where "TAG_FLASH \<equiv> 0x9209"
abbreviation (input) TAG_IMAGE_WIDTH :: u16 where "TAG_IMAGE_WIDTH \<equiv> 0x0100"
abbreviation (input) TAG_IMAGE_LENGTH :: u16 where "TAG_IMAGE_LENGTH \<equiv> 0x0101"
abbreviation (input) TAG_EXPOSURE_PROGRAM :: u16 where "TAG_EXPOSURE_PROGRAM \<equiv> 0x8822"
abbreviation (input) TAG_LIGHT_SOURCE :: u16 where "TAG_LIGHT_SOURCE \<equiv> 0x9208"
abbreviation (input) TAG_METERING_MODE :: u16 where "TAG_METERING_MODE \<equiv> 0x9207"
abbreviation (input) TAG_RESOLUTION_UNIT :: u16 where "TAG_RESOLUTION_UNIT \<equiv> 0x0128"
abbreviation (input) TAG_FOCAL_PLANE_RESOLUTION_UNIT :: u16 where "TAG_FOCAL_PLANE_RESOLUTION_UNIT \<equiv> 0xa210"
abbreviation (input) TAG_SAMPLES_PER_PIXEL :: u16 where "TAG_SAMPLES_PER_PIXEL \<equiv> 0x0115"
abbreviation (input) TAG_BITS_PER_SAMPLE :: u16 where "TAG_BITS_PER_SAMPLE \<equiv> 0x0102"
abbreviation (input) TAG_FOCAL_PLANE_X_RESOLUTION :: u16 where "TAG_FOCAL_PLANE_X_RESOLUTION \<equiv> 0xa20e"
abbreviation (input) TAG_FOCAL_PLANE_Y_RESOLUTION :: u16 where "TAG_FOCAL_PLANE_Y_RESOLUTION \<equiv> 0xa20f"
abbreviation (input) TAG_EXPOSURE_INDEX :: u16 where "TAG_EXPOSURE_INDEX \<equiv> 0xa215"
abbreviation (input) TAG_FLASH_ENERGY :: u16 where "TAG_FLASH_ENERGY \<equiv> 0xa20b"
abbreviation (input) TAG_SUBJECT_DISTANCE :: u16 where "TAG_SUBJECT_DISTANCE \<equiv> 0x9206"
abbreviation (input) TAG_MAX_APERTURE_VALUE :: u16 where "TAG_MAX_APERTURE_VALUE \<equiv> 0x9205"
abbreviation (input) TAG_COMPRESSED_BITS_PER_PIXEL :: u16 where "TAG_COMPRESSED_BITS_PER_PIXEL \<equiv> 0x9102"
abbreviation (input) TAG_PRIMARY_CHROMATICITIES :: u16 where "TAG_PRIMARY_CHROMATICITIES \<equiv> 0x013f"
abbreviation (input) TAG_DIGITAL_ZOOM_RATIO :: u16 where "TAG_DIGITAL_ZOOM_RATIO \<equiv> 0xa404"
abbreviation (input) TAG_X_RESOLUTION :: u16 where "TAG_X_RESOLUTION \<equiv> 0x011a"
abbreviation (input) TAG_Y_RESOLUTION :: u16 where "TAG_Y_RESOLUTION \<equiv> 0x011b"
abbreviation (input) TAG_WHITE_POINT :: u16 where "TAG_WHITE_POINT \<equiv> 0x013e"
abbreviation (input) TAG_REFERENCE_BLACK_WHITE :: u16 where "TAG_REFERENCE_BLACK_WHITE \<equiv> 0x0214"
abbreviation (input) TAG_DATE_TIME :: u16 where "TAG_DATE_TIME \<equiv> 0x0132"
abbreviation (input) TAG_DATE_TIME_ORIGINAL :: u16 where "TAG_DATE_TIME_ORIGINAL \<equiv> 0x9003"
abbreviation (input) TAG_DATE_TIME_DIGITIZED :: u16 where "TAG_DATE_TIME_DIGITIZED \<equiv> 0x9004"
abbreviation (input) TAG_SUB_SEC_TIME :: u16 where "TAG_SUB_SEC_TIME \<equiv> 0x9290"
abbreviation (input) TAG_SUB_SEC_TIME_ORIGINAL :: u16 where "TAG_SUB_SEC_TIME_ORIGINAL \<equiv> 0x9291"
abbreviation (input) TAG_SUB_SEC_TIME_DIGITIZED :: u16 where "TAG_SUB_SEC_TIME_DIGITIZED \<equiv> 0x9292"
abbreviation (input) TAG_IMAGE_DESCRIPTION :: u16 where "TAG_IMAGE_DESCRIPTION \<equiv> 0x010e"
abbreviation (input) TAG_MAKE :: u16 where "TAG_MAKE \<equiv> 0x010f"
abbreviation (input) TAG_MODEL :: u16 where "TAG_MODEL \<equiv> 0x0110"
abbreviation (input) TAG_SOFTWARE :: u16 where "TAG_SOFTWARE \<equiv> 0x0131"
abbreviation (input) TAG_ARTIST :: u16 where "TAG_ARTIST \<equiv> 0x013b"
abbreviation (input) TAG_COPYRIGHT :: u16 where "TAG_COPYRIGHT \<equiv> 0x8298"
abbreviation (input) TAG_SCENE_TYPE :: u16 where "TAG_SCENE_TYPE \<equiv> 0xa301"
abbreviation (input) TAG_FILE_SOURCE :: u16 where "TAG_FILE_SOURCE \<equiv> 0xa300"
abbreviation (input) TAG_FLASH_PIX_VERSION :: u16 where "TAG_FLASH_PIX_VERSION \<equiv> 0xa000"
abbreviation (input) TAG_EXIF_VERSION :: u16 where "TAG_EXIF_VERSION \<equiv> 0x9000"
abbreviation (input) TAG_COMPONENTS_CONFIGURATION :: u16 where "TAG_COMPONENTS_CONFIGURATION \<equiv> 0x9101"

section \<open>Memory\<close>

text \<open>Memory is cleared; what \<open>realloc\<close> adds is shown as zeros too.\<close>

definition exif_entry_alloc :: "alloc \<Rightarrow> u32 \<Rightarrow> nat \<Rightarrow> cbuf \<times> nat" where
  "exif_entry_alloc al n k =
    (if n = 0 then (NULL, k) else (if al k (unat n) then Buf (replicate (unat n) 0) else NULL, k + 1))"

definition exif_entry_realloc :: "alloc \<Rightarrow> cbuf \<Rightarrow> u32 \<Rightarrow> nat \<Rightarrow> cbuf \<times> nat" where
  "exif_entry_realloc al d n k =
    (if n = 0 then (NULL, k)
     else (if al k (unat n) then Buf (take (unat n) (bbytes d) @ replicate (unat n - blen d) 0) else NULL, k + 1))"

section \<open>Correcting an entry\<close>

definition exif_get_short_convert :: "cbuf \<Rightarrow> nat \<Rightarrow> ExifFormat \<Rightarrow> ExifByteOrder \<Rightarrow> u16 option" where
  "exif_get_short_convert b p format ord =
    (if format = EXIF_FORMAT_LONG then do { v \<leftarrow> exif_get_long b p ord; Some (ucast v) }
     else if format = EXIF_FORMAT_SLONG then do { v \<leftarrow> exif_get_slong b p ord; Some (ucast v) }
     else if format = EXIF_FORMAT_SHORT then exif_get_short b p ord
     else if format = EXIF_FORMAT_SSHORT then exif_get_sshort b p ord
     else if format = EXIF_FORMAT_BYTE \<or> format = EXIF_FORMAT_SBYTE then do { v \<leftarrow> rd b p; Some (ucast v) }
     else Some 0)"

text \<open>A pointer into the data; behind a null pointer there is nothing that can be read, but the null pointer itself may be passed on.\<close>

definition elem_ptr :: "cbuf \<Rightarrow> u32 \<Rightarrow> nat option" where
  "elem_ptr d i = (if d = NULL \<and> i \<noteq> 0 then None else Some (unat i))"

definition short_tags :: "u16 set" where
  "short_tags = {TAG_YCBCR_SUB_SAMPLING, TAG_SUBJECT_AREA, TAG_COLOR_SPACE, TAG_PLANAR_CONFIGURATION, TAG_SENSING_METHOD,
     TAG_ORIENTATION, TAG_YCBCR_POSITIONING, TAG_PHOTOMETRIC_INTERPRETATION, TAG_CUSTOM_RENDERED, TAG_EXPOSURE_MODE,
     TAG_WHITE_BALANCE, TAG_SCENE_CAPTURE_TYPE, TAG_GAIN_CONTROL, TAG_SATURATION, TAG_CONTRAST, TAG_SHARPNESS,
     TAG_ISO_SPEED_RATINGS}"

definition rational_tags :: "u16 set" where
  "rational_tags = {TAG_FNUMBER, TAG_APERTURE_VALUE, TAG_EXPOSURE_TIME, TAG_FOCAL_LENGTH}"

definition srational_tags :: "u16 set" where
  "srational_tags = {TAG_EXPOSURE_BIAS_VALUE, TAG_BRIGHTNESS_VALUE, TAG_SHUTTER_SPEED_VALUE}"

definition fix_to_short :: "alloc \<Rightarrow> ExifByteOrder \<Rightarrow> ExifEntry \<Rightarrow> nat \<Rightarrow> (ExifEntry \<times> nat) option" where
  "fix_to_short al ord e k =
    (let newsize = e_components e * ucast (exif_format_get_size EXIF_FORMAT_SHORT) in
     case exif_entry_alloc al newsize k of
       (NULL, k) \<Rightarrow> Some (e, k)
     | (newdata, k) \<Rightarrow>
         do { d \<leftarrow> foldM (\<lambda>i d. do {
                  p \<leftarrow> elem_ptr (e_data e) (of_nat i * ucast (exif_format_get_size (e_format e)));
                  v \<leftarrow> exif_get_short_convert (e_data e) p (e_format e) ord;
                  exif_set_short d (unat (of_nat i * ucast (exif_format_get_size EXIF_FORMAT_SHORT) :: u32)) ord v })
                [0..<unat (e_components e)] newdata;
              Some (e\<lparr>e_data := d, e_size := newsize, e_format := EXIF_FORMAT_SHORT\<rparr>, k) })"

text \<open>The two conversions between rationals rewrite the data where they are; the casts between \<open>ExifLong\<close> and \<open>ExifSLong\<close> keep the bits.\<close>

definition fix_rational ::
  "(cbuf \<Rightarrow> nat \<Rightarrow> ExifByteOrder \<Rightarrow> ExifRational option) \<Rightarrow> (cbuf \<Rightarrow> nat \<Rightarrow> ExifByteOrder \<Rightarrow> ExifRational \<Rightarrow> cbuf option)
     \<Rightarrow> ExifFormat \<Rightarrow> ExifFormat \<Rightarrow> ExifByteOrder \<Rightarrow> ExifEntry \<Rightarrow> ExifEntry option" where
  "fix_rational getv putv f g ord e =
    do { d \<leftarrow> foldM (\<lambda>i d. do {
             p \<leftarrow> elem_ptr d (of_nat i * ucast (exif_format_get_size f));
             v \<leftarrow> getv d p ord;
             q \<leftarrow> elem_ptr d (of_nat i * ucast (exif_format_get_size g));
             putv d q ord v })
           [0..<unat (e_components e)] (e_data e);
         Some (e\<lparr>e_data := d, e_format := g\<rparr>) }"

text \<open>\<open>for (; (i < n) && P (d[i]); i++);\<close> with \<open>n\<close> bytes left.\<close>

fun scan_while :: "(u8 \<Rightarrow> bool) \<Rightarrow> cbuf \<Rightarrow> nat \<Rightarrow> nat \<Rightarrow> nat option" where
  "scan_while P d i 0 = Some i"
| "scan_while P d i (Suc n) = do { v \<leftarrow> rd d i; if P v then scan_while P d (i + 1) n else Some i }"

definition ascii_id :: bytes where "ascii_id = [0x41, 0x53, 0x43, 0x49, 0x49, 0, 0, 0]"
definition unicode_id :: bytes where "unicode_id = [0x55, 0x4e, 0x49, 0x43, 0x4f, 0x44, 0x45, 0]"
definition jis_id :: bytes where "jis_id = [0x4a, 0x49, 0x53, 0, 0, 0, 0, 0]"

text \<open>The comment is moved up by eight bytes and gets the identifier for ASCII in front.\<close>

definition fix_comment_expand :: "alloc \<Rightarrow> ExifEntry \<Rightarrow> nat \<Rightarrow> (ExifEntry \<times> nat) option" where
  "fix_comment_expand al e k =
    (case exif_entry_realloc al (e_data e) (8 + e_size e) k of
       (NULL, k) \<Rightarrow> Some (e\<lparr>e_data := NULL, e_size := 0, e_components := 0\<rparr>, k)
     | (d, k) \<Rightarrow>
         do { bs \<leftarrow> rd_range d 0 (unat (e_size e));
              d \<leftarrow> wr_range d 8 bs;
              d \<leftarrow> wr_range d 0 ascii_id;
              Some (e\<lparr>e_data := d, e_size := e_size e + 8, e_components := e_components e + 8\<rparr>, k) })"

definition fix_user_comment :: "alloc \<Rightarrow> ExifEntry \<Rightarrow> nat \<Rightarrow> (ExifEntry \<times> nat) option" where
  "fix_user_comment al e k =
    do { let e = (if e_format e \<noteq> EXIF_FORMAT_UNDEFINED then e\<lparr>e_format := EXIF_FORMAT_UNDEFINED\<rparr> else e);
         d \<leftarrow> (if e_size e \<ge> 8
               then do { b \<leftarrow> rd (e_data e) 0;
                         if b = 0 then wr_range (e_data e) 0 (replicate 8 0) else Some (e_data e) }
               else Some (e_data e));
         let e = e\<lparr>e_data := d\<rparr>;
         if e_size e < 8 then fix_comment_expand al e k
         else do {
           i \<leftarrow> scan_while (\<lambda>b. b = 0) (e_data e) 0 (unat (e_size e));
           i \<leftarrow> (if i = 0 then scan_while (\<lambda>b. b = 0x20) (e_data e) 0 (unat (e_size e)) else Some i);
           if i \<ge> 8 \<and> i < unat (e_size e)
           then do { d \<leftarrow> wr_range (e_data e) 0 ascii_id; Some (e\<lparr>e_data := d\<rparr>, k) }
           else do {
             hd \<leftarrow> rd_range (e_data e) 0 8;
             if hd \<noteq> ascii_id \<and> hd \<noteq> unicode_id \<and> hd \<noteq> jis_id \<and> hd \<noteq> replicate 8 0
             then fix_comment_expand al e k
             else Some (e, k) } } }"

definition exif_entry_fix :: "alloc \<Rightarrow> ExifByteOrder \<Rightarrow> ExifEntry \<Rightarrow> nat \<Rightarrow> (ExifEntry \<times> nat) option" where
  "exif_entry_fix al ord e k =
    (if e_tag e \<in> short_tags
     then if e_format e \<in> {EXIF_FORMAT_LONG, EXIF_FORMAT_SLONG, EXIF_FORMAT_BYTE, EXIF_FORMAT_SBYTE, EXIF_FORMAT_SSHORT} \<and> e_parent e \<noteq> None
       then fix_to_short al ord e k else Some (e, k)
     else if e_tag e \<in> rational_tags
     then if e_format e = EXIF_FORMAT_SRATIONAL \<and> e_parent e \<noteq> None
       then do { e \<leftarrow> fix_rational exif_get_srational exif_set_rational EXIF_FORMAT_SRATIONAL EXIF_FORMAT_RATIONAL ord e; Some (e, k) }
       else Some (e, k)
     else if e_tag e \<in> srational_tags
     then if e_format e = EXIF_FORMAT_RATIONAL \<and> e_parent e \<noteq> None
       then do { e \<leftarrow> fix_rational exif_get_rational exif_set_srational EXIF_FORMAT_RATIONAL EXIF_FORMAT_SRATIONAL ord e; Some (e, k) }
       else Some (e, k)
     else if e_tag e = TAG_USER_COMMENT then fix_user_comment al e k
     else Some (e, k))"

section \<open>The default value of a tag\<close>

text \<open>The broken-down time that \<open>localtime_r\<close> fills in, and the numbers that \<open>snprintf\<close> prints.\<close>

record tm =
  tm_year :: int
  tm_mon :: int
  tm_mday :: int
  tm_hour :: int
  tm_min :: int
  tm_sec :: int

fun digits :: "nat \<Rightarrow> bytes" where
  "digits n = (if n < 10 then [0x30 + of_nat n] else digits (n div 10) @ [0x30 + of_nat (n mod 10)])"

declare digits.simps [simp del]

text \<open>\<open>%0wi\<close>: at least \<open>w\<close> characters, filled with zeros behind the sign.\<close>

definition print_0 :: "nat \<Rightarrow> int \<Rightarrow> bytes" where
  "print_0 w i =
    (let ds = digits (nat \<bar>i\<bar>); sg = (if i < 0 then [0x2d] else []) in
     sg @ replicate (w - length sg - length ds) 0x30 @ ds)"

definition date_text :: "tm \<Rightarrow> bytes" where
  "date_text t = print_0 4 (tm_year t + 1900) @ [0x3a] @ print_0 2 (tm_mon t + 1) @ [0x3a] @ print_0 2 (tm_mday t)
     @ [0x20] @ print_0 2 (tm_hour t) @ [0x3a] @ print_0 2 (tm_min t) @ [0x3a] @ print_0 2 (tm_sec t)"

text \<open>\<open>snprintf\<close> into \<open>n\<close> bytes cuts the text and ends it with a zero.\<close>

definition snprintf_at :: "bytes \<Rightarrow> nat \<Rightarrow> cbuf \<Rightarrow> cbuf option" where
  "snprintf_at text n d = (if n = 0 then Some d else wr_range d 0 (take (n - 1) text @ [0]))"

definition none_text :: bytes where "none_text = [0x5b, 0x4e, 0x6f, 0x6e, 0x65, 0x5d]"

text \<open>The lines that every case has: \<open>n\<close> components of a format, and a value if there is memory for it.\<close>

definition init_value ::
  "alloc \<Rightarrow> u32 \<Rightarrow> ExifFormat \<Rightarrow> (cbuf \<Rightarrow> cbuf option) \<Rightarrow> ExifEntry \<Rightarrow> nat \<Rightarrow> (ExifEntry \<times> nat) option" where
  "init_value al n f val e k =
    (let size = ucast (exif_format_get_size f) * n in
     case exif_entry_alloc al size k of
       (d, k) \<Rightarrow> do { d \<leftarrow> (if d = NULL then Some d else val d);
                      Some (e\<lparr>e_components := n, e_format := f, e_size := size, e_data := d\<rparr>, k) })"

definition init_none :: "ExifFormat \<Rightarrow> ExifEntry \<Rightarrow> nat \<Rightarrow> (ExifEntry \<times> nat) option" where
  "init_none f e k = Some (e\<lparr>e_components := 0, e_format := f, e_size := 0, e_data := NULL\<rparr>, k)"

fun put_shorts :: "ExifByteOrder \<Rightarrow> nat \<Rightarrow> u16 list \<Rightarrow> cbuf \<Rightarrow> cbuf option" where
  "put_shorts ord p [] d = Some d"
| "put_shorts ord p (v # vs) d = do { d \<leftarrow> exif_set_short d p ord v; put_shorts ord (p + 2) vs d }"

fun put_rationals :: "ExifByteOrder \<Rightarrow> nat \<Rightarrow> u32 list \<Rightarrow> cbuf \<Rightarrow> cbuf option" where
  "put_rationals ord p [] d = Some d"
| "put_rationals ord p (v # vs) d =
     do { d \<leftarrow> exif_set_rational d p ord \<lparr>numerator = v, denominator = 1\<rparr>; put_rationals ord (p + 8) vs d }"

definition init_by_tag :: "alloc \<Rightarrow> tm \<Rightarrow> ExifByteOrder \<Rightarrow> u16 \<Rightarrow> ExifEntry \<Rightarrow> nat \<Rightarrow> (ExifEntry \<times> nat) option" where
  "init_by_tag al now ord tag =
    (if tag \<in> {TAG_PIXEL_X_DIMENSION, TAG_PIXEL_Y_DIMENSION, TAG_EXIF_IFD_POINTER, TAG_GPS_INFO_IFD_POINTER,
         TAG_INTEROPERABILITY_IFD_POINTER, TAG_JPEG_INTERCHANGE_FORMAT_LENGTH, TAG_JPEG_INTERCHANGE_FORMAT}
     then init_value al 1 EXIF_FORMAT_LONG Some
     else if tag \<in> {TAG_SUBJECT_LOCATION, TAG_SENSING_METHOD, TAG_PHOTOMETRIC_INTERPRETATION, TAG_COMPRESSION, TAG_EXPOSURE_MODE,
         TAG_WHITE_BALANCE, TAG_FOCAL_LENGTH_IN_35MM_FILM, TAG_GAIN_CONTROL, TAG_SUBJECT_DISTANCE_RANGE, TAG_FLASH,
         TAG_ISO_SPEED_RATINGS, TAG_IMAGE_WIDTH, TAG_IMAGE_LENGTH, TAG_EXPOSURE_PROGRAM, TAG_LIGHT_SOURCE,
         TAG_METERING_MODE, TAG_CUSTOM_RENDERED, TAG_SCENE_CAPTURE_TYPE, TAG_CONTRAST, TAG_SATURATION, TAG_SHARPNESS}
     then init_value al 1 EXIF_FORMAT_SHORT (put_shorts ord 0 [0])
     else if tag \<in> {TAG_ORIENTATION, TAG_PLANAR_CONFIGURATION, TAG_YCBCR_POSITIONING}
     then init_value al 1 EXIF_FORMAT_SHORT (put_shorts ord 0 [1])
     else if tag \<in> {TAG_RESOLUTION_UNIT, TAG_FOCAL_PLANE_RESOLUTION_UNIT}
     then init_value al 1 EXIF_FORMAT_SHORT (put_shorts ord 0 [2])
     else if tag = TAG_SAMPLES_PER_PIXEL then init_value al 1 EXIF_FORMAT_SHORT (put_shorts ord 0 [3])
     else if tag = TAG_COLOR_SPACE then init_value al 1 EXIF_FORMAT_SHORT (put_shorts ord 0 [0xffff])
     else if tag = TAG_BITS_PER_SAMPLE then init_value al 3 EXIF_FORMAT_SHORT (put_shorts ord 0 [8, 8, 8])
     else if tag = TAG_YCBCR_SUB_SAMPLING then init_value al 2 EXIF_FORMAT_SHORT (put_shorts ord 0 [2, 1])
     else if tag \<in> {TAG_EXPOSURE_BIAS_VALUE, TAG_BRIGHTNESS_VALUE, TAG_SHUTTER_SPEED_VALUE}
     then init_value al 1 EXIF_FORMAT_SRATIONAL Some
     else if tag \<in> {TAG_EXPOSURE_TIME, TAG_FOCAL_PLANE_X_RESOLUTION, TAG_FOCAL_PLANE_Y_RESOLUTION, TAG_EXPOSURE_INDEX,
         TAG_FLASH_ENERGY, TAG_FNUMBER, TAG_FOCAL_LENGTH, TAG_SUBJECT_DISTANCE, TAG_MAX_APERTURE_VALUE,
         TAG_APERTURE_VALUE, TAG_COMPRESSED_BITS_PER_PIXEL, TAG_PRIMARY_CHROMATICITIES, TAG_DIGITAL_ZOOM_RATIO}
     then init_value al 1 EXIF_FORMAT_RATIONAL Some
     else if tag \<in> {TAG_X_RESOLUTION, TAG_Y_RESOLUTION} then init_value al 1 EXIF_FORMAT_RATIONAL (put_rationals ord 0 [72])
     else if tag = TAG_WHITE_POINT then init_value al 2 EXIF_FORMAT_RATIONAL Some
     else if tag = TAG_REFERENCE_BLACK_WHITE
     then init_value al 6 EXIF_FORMAT_RATIONAL (put_rationals ord 0 [0, 255, 0, 255, 0, 255])
     else if tag \<in> {TAG_DATE_TIME, TAG_DATE_TIME_ORIGINAL, TAG_DATE_TIME_DIGITIZED}
     then init_value al 20 EXIF_FORMAT_ASCII (snprintf_at (date_text now) 20)
     else if tag \<in> {TAG_SUB_SEC_TIME, TAG_SUB_SEC_TIME_ORIGINAL, TAG_SUB_SEC_TIME_DIGITIZED}
     then init_none EXIF_FORMAT_ASCII
     else if tag \<in> {TAG_IMAGE_DESCRIPTION, TAG_MAKE, TAG_MODEL, TAG_SOFTWARE, TAG_ARTIST}
     then init_value al (of_nat (length none_text) + 1) EXIF_FORMAT_ASCII (\<lambda>d. wr_range d 0 (none_text @ [0]))
     else if tag = TAG_COPYRIGHT
     then init_value al ((of_nat (length none_text) + 1) * 2) EXIF_FORMAT_ASCII
            (\<lambda>d. do { d \<leftarrow> wr_range d 0 (none_text @ [0]); wr_range d (length none_text + 1) (none_text @ [0]) })
     else if tag = TAG_SCENE_TYPE then init_value al 1 EXIF_FORMAT_UNDEFINED (\<lambda>d. wr d 0 1)
     else if tag = TAG_FILE_SOURCE then init_value al 1 EXIF_FORMAT_UNDEFINED (\<lambda>d. wr d 0 3)
     else if tag = TAG_FLASH_PIX_VERSION then init_value al 4 EXIF_FORMAT_UNDEFINED (\<lambda>d. wr_range d 0 [0x30, 0x31, 0x30, 0x30])
     else if tag = TAG_EXIF_VERSION then init_value al 4 EXIF_FORMAT_UNDEFINED (\<lambda>d. wr_range d 0 [0x30, 0x32, 0x31, 0x30])
     else if tag = TAG_COMPONENTS_CONFIGURATION then init_value al 4 EXIF_FORMAT_UNDEFINED (\<lambda>d. wr_range d 0 [1, 2, 3, 0])
     else init_none EXIF_FORMAT_UNDEFINED)"

definition exif_entry_initialize :: "alloc \<Rightarrow> tm \<Rightarrow> ExifByteOrder \<Rightarrow> u16 \<Rightarrow> ExifEntry \<Rightarrow> nat \<Rightarrow> (ExifEntry \<times> nat) option" where
  "exif_entry_initialize al now ord tag e k =
    (if e_parent e = None \<or> e_data e \<noteq> NULL then Some (e, k)
     else init_by_tag al now ord tag (e\<lparr>e_tag := tag\<rparr>) k)"

declare rd_range_length [simp del] wr_range_blen [simp del] wr_blen [simp del]

section \<open>The correction is safe and keeps the invariant\<close>

lemma format_sizes_all:
  "exif_format_get_size EXIF_FORMAT_BYTE = 1" "exif_format_get_size EXIF_FORMAT_SBYTE = 1"
  "exif_format_get_size EXIF_FORMAT_ASCII = 1" "exif_format_get_size EXIF_FORMAT_UNDEFINED = 1"
  by (simp_all add: exif_format_get_size_def ExifFormatTable_def)

text \<open>The value at an index as \<open>exif_get_short_convert\<close> sees it.\<close>

definition short_value :: "ExifFormat \<Rightarrow> ExifByteOrder \<Rightarrow> bytes \<Rightarrow> nat \<Rightarrow> u16" where
  "short_value f ord d i =
    (let x = take (unat (exif_format_get_size f)) (drop (i * unat (exif_format_get_size f)) d) in
     if f = EXIF_FORMAT_LONG \<or> f = EXIF_FORMAT_SLONG then ucast (dec32 ord x)
     else if f = EXIF_FORMAT_SHORT \<or> f = EXIF_FORMAT_SSHORT then dec16 ord x else ucast (hd x))"

definition int_formats :: "ExifFormat set" where
  "int_formats = {EXIF_FORMAT_LONG, EXIF_FORMAT_SLONG, EXIF_FORMAT_BYTE, EXIF_FORMAT_SBYTE, EXIF_FORMAT_SSHORT, EXIF_FORMAT_SHORT}"

lemma convert_eq:
  assumes "f \<in> int_formats" and "i * unat (exif_format_get_size f) + unat (exif_format_get_size f) \<le> length d"
  shows "exif_get_short_convert (Buf d) (i * unat (exif_format_get_size f)) f ord = Some (short_value f ord d i)"
  using assms
  by (auto simp: int_formats_def exif_get_short_convert_def short_value_def Let_def format_sizes format_sizes_all
      elong.get_eq slong.get_eq eshort.get_eq sshort.get_eq hd_drop_conv_nth take_Suc_conv_app_nth hd_conv_nth)

lemma fix_to_short_eq:
  assumes al: "plenty al" and f: "e_format e \<in> int_formats" and d: "e_data e = Buf d"
    and len: "length d = unat (exif_format_get_size (e_format e)) * unat (e_components e)" "0 < length d"
    and small: "unat (e_components e) < 2 ^ 31" "length d < 2 ^ 32"
  shows "fix_to_short al ord e k = Some (e\<lparr>e_data := Buf (concat (map (\<lambda>i. enc16 ord (short_value (e_format e) ord d i)) [0..<unat (e_components e)])),
     e_size := 2 * e_components e, e_format := EXIF_FORMAT_SHORT\<rparr>, k + 1)"
proof -
  let ?n = "unat (e_components e)" and ?w = "unat (exif_format_get_size (e_format e))"
  let ?v = "short_value (e_format e) ord d"
  have un: "unat (e_components e * ucast (exif_format_get_size EXIF_FORMAT_SHORT)) = 2 * ?n"
    using small(1) by (simp add: format_sizes unat_word_ariths)
  have pos: "0 < ?n" using len by (cases ?n) auto
  then have nz: "e_components e * ucast (exif_format_get_size EXIF_FORMAT_SHORT) \<noteq> 0" using un by (metis mult_is_0 neq0_conv unat_0 zero_neq_numeral)
  have a: "exif_entry_alloc al (e_components e * ucast (exif_format_get_size EXIF_FORMAT_SHORT)) k = (Buf (replicate (2 * ?n) 0), k + 1)"
    using al nz un by (simp add: exif_entry_alloc_def plenty_def)
  let ?f = "\<lambda>i b. do { p \<leftarrow> elem_ptr (e_data e) (of_nat i * ucast (exif_format_get_size (e_format e)));
                  v \<leftarrow> exif_get_short_convert (e_data e) p (e_format e) ord;
                  exif_set_short b (unat (of_nat i * ucast (exif_format_get_size EXIF_FORMAT_SHORT) :: u32)) ord v }"
  let ?I = "\<lambda>i b. b = Buf (concat (map (\<lambda>i. enc16 ord (?v i)) [0..<i]) @ replicate (2 * (?n - i)) 0)"
  have "\<exists>b. foldM ?f [0..<?n] (Buf (replicate (2 * ?n) 0)) = Some b \<and> ?I ?n b"
  proof (rule foldM_upt [where I = ?I])
    show "?I 0 (Buf (replicate (2 * ?n) 0))" by simp
  next
    fix i b assume i: "i < ?n" and b: "?I i b"
    have le: "i * ?w + ?w \<le> length d" using i len(1) mult_le_mono1 [of "Suc i" ?n ?w] by (simp add: mult.commute)
    have iu: "unat (of_nat i :: u32) = i" using i small(1) by (intro unat_word_of_nat_32) simp
    have "unat (of_nat i * ucast (exif_format_get_size (e_format e)) :: u32) = i * ?w"
      using le small(2) by (simp add: unat_word_ariths iu unat_ucast_u8)
    then have p: "elem_ptr (e_data e) (of_nat i * ucast (exif_format_get_size (e_format e))) = Some (i * ?w)"
      using d by (simp add: elem_ptr_def)
    have q: "unat (of_nat i * ucast (exif_format_get_size EXIF_FORMAT_SHORT) :: u32) = 2 * i"
      using i small(1) by (simp add: format_sizes unat_word_ariths iu)
    have cl: "length (concat (map (\<lambda>i. enc16 ord (?v i)) [0..<i])) = 2 * i"
      by (induction i) (simp_all add: eshort.enc_length)
    have r: "replicate (2 * (?n - i)) 0 = replicate 2 0 @ replicate (2 * (?n - Suc i)) (0 :: u8)"
      unfolding replicate_add [symmetric] using i by (intro arg_cong [where f = "\<lambda>k. replicate k 0"]) simp
    have "exif_set_short b (2 * i) ord (?v i) = Some (Buf (concat (map (\<lambda>i. enc16 ord (?v i)) [0..<i]) @ enc16 ord (?v i) @ replicate (2 * (?n - Suc i)) 0))"
      unfolding b r eshort.set_eq using cl by (simp add: eshort.enc_length)
    then show "\<exists>b'. ?f i b = Some b' \<and> ?I (Suc i) b'"
      using p q convert_eq [OF f le] d by simp
  qed
  then have l: "foldM ?f [0..<?n] (Buf (replicate (2 * ?n) 0)) = Some (Buf (concat (map (\<lambda>i. enc16 ord (?v i)) [0..<?n])))" by simp
  have sz: "e_components e * ucast (exif_format_get_size EXIF_FORMAT_SHORT) = 2 * e_components e"
    by (simp add: format_sizes mult.commute)
  show ?thesis
    unfolding fix_to_short_def Let_def a prod.case cbuf.case l unfolding sz by simp
qed

text \<open>Signed and unsigned rationals have the same bytes, so rewriting them changes the format only.\<close>

lemma fix_rational_same:
  assumes get: "\<And>p. getv (Buf d) p ord = map_option (dec_rat ord) (rd_range (Buf d) p 8)"
    and put: "\<And>p v. putv (Buf d) p ord v = wr_range (Buf d) p (enc_rat ord v)"
    and sz: "exif_format_get_size f = 8" "exif_format_get_size g = 8"
    and d: "e_data e = Buf d" "length d = 8 * unat (e_components e)" "length d < 2 ^ 32"
  shows "fix_rational getv putv f g ord e = Some (e\<lparr>e_format := g\<rparr>)"
proof -
  let ?f = "\<lambda>i b. do { p \<leftarrow> elem_ptr b (of_nat i * ucast (exif_format_get_size f)); v \<leftarrow> getv b p ord;
             q \<leftarrow> elem_ptr b (of_nat i * ucast (exif_format_get_size g)); putv b q ord v }"
  have "\<exists>b. foldM ?f [0..<unat (e_components e)] (Buf d) = Some b \<and> b = Buf d"
  proof (rule foldM_upt [where I = "\<lambda>i b. b = Buf d"])
    fix i b assume i: "i < unat (e_components e)" and b: "b = Buf d"
    have iu: "unat (of_nat i :: u32) = i" using i d(2,3) by (intro unat_word_of_nat_32) simp
    have "unat (of_nat i * 8 :: u32) = i * 8" using i d(2,3) by (simp add: unat_word_ariths iu)
    then have p: "elem_ptr b (of_nat i * 8) = Some (i * 8)" using b by (simp add: elem_ptr_def)
    have le: "i * 8 + 8 \<le> length d" using i d(2) by simp
    have "enc_rat ord (dec_rat ord (take 8 (drop (i * 8) d))) = take 8 (drop (i * 8) d)"
      using le by (intro rational.enc_dec) simp
    then have "wr_range (Buf d) (i * 8) (enc_rat ord (dec_rat ord (take 8 (drop (i * 8) d)))) = Some (Buf d)"
      using le append_take_drop_id [of 8 "drop (i * 8) d"] by (simp add: add.commute)
    then show "\<exists>b'. ?f i b = Some b' \<and> b' = Buf d"
      using le p by (simp add: sz b get put del: wr_range.simps)
  qed simp
  then show ?thesis using d(1) by (auto simp: fix_rational_def)
qed

lemma fix_comment_expand_eq:
  assumes "plenty al" and "bbytes (e_data e) = d" "length d = unat (e_size e)" "unat (e_size e) + 8 < 2 ^ 32"
  shows "fix_comment_expand al e k
    = Some (e\<lparr>e_data := Buf (ascii_id @ d), e_size := e_size e + 8, e_components := e_components e + 8\<rparr>, k + 1)"
proof -
  have u: "unat (8 + e_size e) = 8 + length d" using assms(3,4) by (simp add: unat_word_ariths)
  then have nz: "8 + e_size e \<noteq> 0" by (metis add_is_0 unat_0 zero_neq_numeral)
  have bl: "blen (e_data e) = length d" using assms(2) by (cases "e_data e") auto
  have r: "exif_entry_realloc al (e_data e) (8 + e_size e) k = (Buf (d @ replicate 8 0), k + 1)"
    using assms(1,2) nz u bl by (simp add: exif_entry_realloc_def plenty_def)
  have a: "length ascii_id = 8" by (simp add: ascii_id_def)
  have rd: "rd_range (Buf (d @ replicate 8 0)) 0 (unat (e_size e)) = Some d" using assms(3) by simp
  have "wr_range (Buf (d @ replicate 8 0)) 8 d = Some (Buf (take 8 (d @ replicate 8 0) @ d))"
    by simp
  then show ?thesis
    unfolding fix_comment_expand_def r prod.case cbuf.case rd using a by simp
qed

lemma scan_while_ok: "i + n \<le> length d \<Longrightarrow> \<exists>j. scan_while P (Buf d) i n = Some j"
  by (induction n arbitrary: i) auto

text \<open>
  An entry that the correction can handle: data that are present have the size that the record promises, and a comment
  is given in bytes.
\<close>

definition data_present :: "ExifEntry \<Rightarrow> bool" where
  "data_present e \<longleftrightarrow> entry_ok e \<and> (e_data e = NULL \<longrightarrow> e_components e = 0)"

definition fixable :: "ExifEntry \<Rightarrow> bool" where
  "fixable e \<longleftrightarrow> data_present e \<and> unat (e_size e) < 2 ^ 31 - 8 \<and>
     (e_tag e = TAG_USER_COMMENT \<longrightarrow> e_data e = NULL \<or> exif_format_get_size (e_format e) = 1)"

definition same_place :: "ExifEntry \<Rightarrow> ExifEntry \<Rightarrow> bool" where
  "same_place e e' \<longleftrightarrow> e_tag e' = e_tag e \<and> e_parent e' = e_parent e \<and> e_ref_count e' = e_ref_count e"

definition fixed :: "ExifEntry \<Rightarrow> (ExifEntry \<times> nat) option \<Rightarrow> nat \<Rightarrow> bool" where
  "fixed e r k \<longleftrightarrow> (\<exists>e' k'. r = Some (e', k') \<and> k \<le> k' \<and> data_present e' \<and> same_place e e')"

lemma fixed_if: "(b \<Longrightarrow> fixed e x k) \<Longrightarrow> (\<not> b \<Longrightarrow> fixed e y k) \<Longrightarrow> fixed e (if b then x else y) k"
  by simp

lemma data_present_cases:
  assumes "data_present e"
  obtains (none) "e_data e = NULL" "e_size e = 0" "e_components e = 0"
  | (some) d where "e_data e = Buf d" "length d = unat (e_size e)" "0 < length d"
      "length d = unat (exif_format_get_size (e_format e)) * unat (e_components e)"
  using assms by (auto simp: data_present_def entry_ok_def)

lemma fixableD:
  assumes "fixable e"
  shows "data_present e" "unat (e_size e) < 2 ^ 31 - 8"
    "e_tag e = TAG_USER_COMMENT \<Longrightarrow> e_data e = NULL \<or> exif_format_get_size (e_format e) = 1"
  using assms by (auto simp: fixable_def)

lemma data_presentI:
  assumes "e_data e = Buf d" "unat (e_size e) = length d" "0 < length d" "length d = unat (exif_format_get_size (e_format e)) * unat (e_components e)"
  shows "data_present e"
  using assms by (auto simp: data_present_def entry_ok_def)

lemma fix_to_short_ok:
  assumes al: "plenty al" and fx: "fixable e" and f: "e_format e \<in> int_formats"
  shows "fixed e (fix_to_short al ord e k) k"
  using fixableD(1) [OF fx]
proof (cases rule: data_present_cases)
  case none
  then show ?thesis using fixableD(1) [OF fx] by (simp add: fixed_def fix_to_short_def exif_entry_alloc_def same_place_def)
next
  case (some d)
  note d = some fixableD(2) [OF fx]
  have "1 \<le> unat (exif_format_get_size (e_format e))"
    using d(3,4) by (cases "unat (exif_format_get_size (e_format e))") auto
  then have "unat (e_components e) \<le> length d" using d(4) by (metis mult_le_mono1 nat_mult_1)
  then have c: "unat (e_components e) < 2 ^ 31" "length d < 2 ^ 32" using d(2,5) by simp_all
  let ?vs = "concat (map (\<lambda>i. enc16 ord (short_value (e_format e) ord d i)) [0..<unat (e_components e)])"
  let ?e = "e\<lparr>e_data := Buf ?vs, e_size := 2 * e_components e, e_format := EXIF_FORMAT_SHORT\<rparr>"
  have len: "length ?vs = 2 * unat (e_components e)"
    by (simp add: length_concat o_def eshort.enc_length sum_list_triv)
  have "unat (2 * e_components e) = 2 * unat (e_components e)" using c(1) by (simp add: unat_word_ariths)
  then have "data_present ?e"
    using len d(3,4) by (intro data_presentI [of _ ?vs]) (auto simp: format_sizes intro: Nat.gr0I)
  then show ?thesis
    using fix_to_short_eq [OF al f d(1,4,3) c, of ord k] by (simp add: fixed_def same_place_def)
qed

lemma fix_user_comment_ok:
  assumes al: "plenty al" and fx: "fixable e" and t: "e_tag e = TAG_USER_COMMENT"
  shows "fixed e (fix_user_comment al e k) k"
proof -
  obtain d where d: "bbytes (e_data e) = d" "length d = unat (e_size e)" "unat (e_components e) = length d"
      "e_data e = NULL \<and> d = [] \<or> e_data e = Buf d" "unat (e_size e) < 2 ^ 31 - 8"
    using fixableD(1) [OF fx]
  proof (cases rule: data_present_cases)
    case none
    then show ?thesis using that [of "[]"] by simp
  next
    case (some d)
    then show ?thesis using that [of d] fixableD(2,3) [OF fx] t by simp
  qed
  let ?u = "e\<lparr>e_format := EXIF_FORMAT_UNDEFINED\<rparr>"
  have u: "(if e_format e \<noteq> EXIF_FORMAT_UNDEFINED then ?u else e) = ?u" by (cases e) auto
  have grow: "fixed e (fix_comment_expand al (?u\<lparr>e_data := b\<rparr>) k) k"
    if "bbytes b = d'" "length d' = length d" for b d'
  proof -
    have e: "fix_comment_expand al (?u\<lparr>e_data := b\<rparr>) k
        = Some (?u\<lparr>e_data := Buf (ascii_id @ d'), e_size := e_size e + 8, e_components := e_components e + 8\<rparr>, k + 1)"
      using fix_comment_expand_eq [OF al, of "?u\<lparr>e_data := b\<rparr>" d' k] that d(2,5) by simp
    have a: "length ascii_id = 8" by (simp add: ascii_id_def)
    have "data_present (?u\<lparr>e_data := Buf (ascii_id @ d'), e_size := e_size e + 8, e_components := e_components e + 8\<rparr>)"
      using d(2,3,5) that a by (intro data_presentI [of _ "ascii_id @ d'"]) (simp_all add: format_sizes_all unat_word_ariths)
    with e show ?thesis by (auto simp: fixed_def same_place_def)
  qed
  have stay: "data_present (?u\<lparr>e_data := Buf d'\<rparr>) \<and> same_place e (?u\<lparr>e_data := Buf d'\<rparr>)" if "length d' = length d" "8 \<le> length d" for d'
    using that d(2,3) by (auto simp: same_place_def format_sizes_all intro!: data_presentI [of _ d'])
  show ?thesis
  proof (cases "e_size e < 8")
    case True
    then show ?thesis
      unfolding fix_user_comment_def u using grow [of "e_data e" d] d(1) by (simp add: not_le [symmetric])
  next
    case False
    then have ge: "8 \<le> length d" using d(2) by (simp add: word_less_nat_alt not_less)
    then have b: "e_data e = Buf d" using d(4) by auto
    define d1 where "d1 = (if d ! 0 = 0 then replicate 8 0 @ drop 8 d else d)"
    have l1: "length d1 = length d" using ge by (simp add: d1_def)
    have s1: "(if e_size ?u \<ge> 8 then do { b \<leftarrow> rd (e_data ?u) 0; if b = 0 then wr_range (e_data ?u) 0 (replicate 8 0) else Some (e_data ?u) }
        else Some (e_data ?u)) = Some (Buf d1)"
      using False ge b by (auto simp: d1_def not_less)
    have rd8: "rd_range (Buf d1) 0 8 = Some (take 8 d1)" using ge l1 by simp
    obtain i where i: "scan_while (\<lambda>b. b = 0) (Buf d1) 0 (unat (e_size e)) = Some i"
      using scan_while_ok [of 0 "unat (e_size e)" d1] l1 d(2) by auto
    obtain j where j: "(if i = 0 then scan_while (\<lambda>b. b = 0x20) (Buf d1) 0 (unat (e_size e)) else Some i) = Some j"
      using scan_while_ok [of 0 "unat (e_size e)" d1] l1 d(2) by (cases "i = 0") auto
    have a: "length ascii_id = 8" by (simp add: ascii_id_def)
    have w: "wr_range (Buf d1) 0 ascii_id = Some (Buf (ascii_id @ drop 8 d1))" using ge l1 a by simp
    have la: "length (ascii_id @ drop 8 d1) = length d" using ge l1 a by simp
    let ?e = "?u\<lparr>e_data := Buf d1\<rparr>"
    have ns: "\<not> e_size ?e < 8" using False by simp
    have "fix_user_comment al e k = (if j \<ge> 8 \<and> j < unat (e_size e) then Some (?u\<lparr>e_data := Buf (ascii_id @ drop 8 d1)\<rparr>, k)
       else if take 8 d1 \<noteq> ascii_id \<and> take 8 d1 \<noteq> unicode_id \<and> take 8 d1 \<noteq> jis_id \<and> take 8 d1 \<noteq> replicate 8 0
       then fix_comment_expand al ?e k else Some (?e, k))"
      unfolding fix_user_comment_def Let_def u s1 Option.bind.simps if_not_P [OF ns] using i j w rd8 by (simp cong: if_cong)
    then show ?thesis
      using stay [OF la ge] stay [OF l1 ge] grow [of "Buf d1" d1] l1 by (auto simp: fixed_def)
  qed
qed

lemma exif_entry_fix_ok:
  assumes al: "plenty al" and fx: "fixable e"
  shows "fixed e (exif_entry_fix al ord e k) k"
proof -
  have keep: "fixed e (Some (e, k)) k" using fixableD(1) [OF fx] by (simp add: fixed_def same_place_def)
  have rat: "fixed e (do { e \<leftarrow> fix_rational getv putv f g ord e; Some (e, k) }) k"
    if c: "\<And>d p. getv (Buf d) p ord = map_option (dec_rat ord) (rd_range (Buf d) p 8)"
      "\<And>d p v. putv (Buf d) p ord v = wr_range (Buf d) p (enc_rat ord v)"
      "exif_format_get_size f = 8" "exif_format_get_size g = 8" "e_format e = f" for getv putv f g
    using fixableD(1) [OF fx]
  proof (cases rule: data_present_cases)
    case none
    then show ?thesis by (auto simp: fixed_def fix_rational_def data_present_def entry_ok_def same_place_def)
  next
    case (some d)
    note d = some fixableD(2) [OF fx]
    have "fix_rational getv putv f g ord e = Some (e\<lparr>e_format := g\<rparr>)"
      by (rule fix_rational_same [where d = d]) (use d in \<open>simp_all add: c del: rd_range.simps wr_range.simps\<close>)
    moreover have "data_present (e\<lparr>e_format := g\<rparr>)" using d c(3-5) by (intro data_presentI [of _ d]) simp_all
    ultimately show ?thesis by (simp add: fixed_def same_place_def)
  qed
  note codecs = srational.get_eq srational.set_eq rational.get_eq rational.set_eq
  have r1: "fixed e (do { e \<leftarrow> fix_rational exif_get_srational exif_set_rational EXIF_FORMAT_SRATIONAL EXIF_FORMAT_RATIONAL ord e; Some (e, k) }) k"
    if "e_format e = EXIF_FORMAT_SRATIONAL \<and> e_parent e \<noteq> None"
    using that by (intro rat) (simp_all add: codecs format_sizes del: rd_range.simps wr_range.simps)
  have r2: "fixed e (do { e \<leftarrow> fix_rational exif_get_rational exif_set_srational EXIF_FORMAT_RATIONAL EXIF_FORMAT_SRATIONAL ord e; Some (e, k) }) k"
    if "e_format e = EXIF_FORMAT_RATIONAL \<and> e_parent e \<noteq> None"
    using that by (intro rat) (simp_all add: codecs format_sizes del: rd_range.simps wr_range.simps)
  have sh: "fixed e (fix_to_short al ord e k) k"
    if "e_format e \<in> {EXIF_FORMAT_LONG, EXIF_FORMAT_SLONG, EXIF_FORMAT_BYTE, EXIF_FORMAT_SBYTE, EXIF_FORMAT_SSHORT} \<and> e_parent e \<noteq> None"
    using that by (intro fix_to_short_ok [OF al fx]) (auto simp: int_formats_def)
  show ?thesis
    unfolding exif_entry_fix_def
    by (intro fixed_if keep r1 r2 sh fix_user_comment_ok [OF al fx])
qed

section \<open>The default values have the promised size\<close>

definition fills :: "(cbuf \<Rightarrow> cbuf option) \<Rightarrow> nat \<Rightarrow> bool" where
  "fills val n \<longleftrightarrow> (\<forall>d. length d = n \<longrightarrow> (\<exists>d'. val (Buf d) = Some (Buf d') \<and> length d' = n))"

lemma fills_Some: "fills Some n"
  by (simp add: fills_def)

lemma fills_range: "p + length bs \<le> n \<Longrightarrow> fills (\<lambda>d. wr_range d p bs) n"
  by (auto simp: fills_def)

lemma fills_wr: "p < n \<Longrightarrow> fills (\<lambda>d. wr d p v) n"
  by (simp add: fills_def)

lemma fills_bind: "fills f n \<Longrightarrow> fills g n \<Longrightarrow> fills (\<lambda>d. f d \<bind> g) n"
  by (fastforce simp: fills_def)

lemma fills_shorts: "p + 2 * length vs \<le> n \<Longrightarrow> fills (put_shorts ord p vs) n"
proof (induction vs arbitrary: p)
  case (Cons v vs)
  have "fills (\<lambda>d. exif_set_short d p ord v) n"
    using Cons.prems by (auto simp: fills_def eshort.set_eq eshort.enc_length)
  then have "fills (\<lambda>d. exif_set_short d p ord v \<bind> put_shorts ord (p + 2) vs) n"
    using Cons by (intro fills_bind) simp_all
  then show ?case by (simp add: fills_def)
qed (simp add: fills_def)

lemma fills_rationals: "p + 8 * length vs \<le> n \<Longrightarrow> fills (put_rationals ord p vs) n"
proof (induction vs arbitrary: p)
  case (Cons v vs)
  have "fills (\<lambda>d. exif_set_rational d p ord \<lparr>numerator = v, denominator = 1\<rparr>) n"
    using Cons.prems by (auto simp: fills_def rational.set_eq rational.enc_length)
  then have "fills (\<lambda>d. exif_set_rational d p ord \<lparr>numerator = v, denominator = 1\<rparr> \<bind> put_rationals ord (p + 8) vs) n"
    using Cons by (intro fills_bind) simp_all
  then show ?case by (simp add: fills_def)
qed (simp add: fills_def)

lemma fills_text: "fills (snprintf_at text n) n"
  by (cases n) (auto simp: fills_def snprintf_at_def min_def)

definition initialized :: "u16 \<Rightarrow> ExifEntry \<Rightarrow> (ExifEntry \<times> nat) option \<Rightarrow> nat \<Rightarrow> bool" where
  "initialized tag e r k \<longleftrightarrow> (\<exists>e' k'. r = Some (e', k') \<and> k \<le> k' \<and> data_present e' \<and> e_tag e' = tag \<and> e_parent e' = e_parent e \<and>
     e_ref_count e' = e_ref_count e \<and> exif_format_get_size (e_format e') \<noteq> 0)"

lemma init_value_ok:
  assumes "plenty al" and "exif_format_get_size f = w" and "w \<noteq> 0" and "0 < unat n" and "unat n < 256" and "fills val (unat w * unat n)"
  shows "initialized tag e (init_value al n f val (e\<lparr>e_tag := tag\<rparr>) k) k"
proof -
  let ?s = "ucast w * n :: u32"
  have us: "unat ?s = unat w * unat n"
    using assms(5) unat_u8 [of w] mult_strict_mono [of "unat w" 256 "unat n" 256] by (simp add: unat_word_ariths unat_ucast_u8)
  have pos: "0 < unat w * unat n" using assms(3,4) by (simp add: unat_gt_0)
  then have nz: "?s \<noteq> 0" using us by (metis less_numeral_extra(3) unat_0)
  obtain d' where d': "val (Buf (replicate (unat w * unat n) 0)) = Some (Buf d')" "length d' = unat w * unat n"
    using assms(6) [unfolded fills_def, rule_format, of "replicate (unat w * unat n) 0"] by auto
  let ?e = "e\<lparr>e_tag := tag, e_components := n, e_format := f, e_size := ?s, e_data := Buf d'\<rparr>"
  have "init_value al n f val (e\<lparr>e_tag := tag\<rparr>) k = Some (?e, k + 1)"
    using assms(1,2) nz us d'(1) by (simp add: init_value_def exif_entry_alloc_def plenty_def)
  moreover have "data_present ?e" using assms(2) us d'(2) pos by (intro data_presentI [of _ d']) simp_all
  ultimately show ?thesis using assms(2,3) by (auto simp: initialized_def)
qed

lemma init_none_ok: "exif_format_get_size f \<noteq> 0 \<Longrightarrow> initialized tag e (init_none f (e\<lparr>e_tag := tag\<rparr>) k) k"
  by (simp add: initialized_def init_none_def data_present_def entry_ok_def)

lemma initialized_if:
  "initialized tag e (f (e\<lparr>e_tag := tag\<rparr>) k) k \<Longrightarrow> initialized tag e (g (e\<lparr>e_tag := tag\<rparr>) k) k
    \<Longrightarrow> initialized tag e ((if b then f else g) (e\<lparr>e_tag := tag\<rparr>) k) k"
  by simp

lemma exif_entry_initialize_ok:
  assumes "plenty al" and "e_parent e \<noteq> None" and "e_data e = NULL"
  shows "initialized tag e (exif_entry_initialize al now ord tag e k) k"
proof -
  note v = init_value_ok [OF assms(1)]
  note fmt = format_sizes format_sizes_all
  have tx: "length none_text = 6" by (simp add: none_text_def)
  have "initialized tag e (init_by_tag al now ord tag (e\<lparr>e_tag := tag\<rparr>) k) k"
    unfolding init_by_tag_def
    by (intro initialized_if init_none_ok v [OF fmt(1)] v [OF fmt(3)] v [OF fmt(5)] v [OF fmt(6)] v [OF fmt(9)] v [OF fmt(10)])
      (simp_all add: fmt tx fills_Some fills_shorts fills_rationals fills_text fills_bind fills_range fills_wr)
  moreover have "\<not> (e_parent e = None \<or> e_data e \<noteq> NULL)" using assms(2,3) by blast
  ultimately show ?thesis unfolding exif_entry_initialize_def by (simp only: if_False)
qed

lemma chunk_concat:
  assumes "\<And>i. length (f i) = w" and "i < n"
  shows "take w (drop (i * w) (concat (map f [0..<n]))) = f i"
proof -
  have l: "length (concat (map f [0..<m])) = m * w" for m using assms(1) by (induction m) simp_all
  have "[0..<n] = [0..<i] @ i # [Suc i..<n]" using assms(2) upt_add_eq_append [of 0 i "n - i"] upt_conv_Cons [of i n] by simp
  then have "concat (map f [0..<n]) = concat (map f [0..<i]) @ f i @ concat (map f [Suc i..<n])" by simp
  then show ?thesis using l [of i] assms(1) by simp
qed

section \<open>What the correction does\<close>

text \<open>
  The correction of a tag that must be SHORT. An entry with such a tag and another
  integer format becomes SHORT with the same number of values, each of them the old value cut to 16
  bits, read and written in the byte order of the image; the new block has exactly the size
  that they need.
\<close>

theorem entry_fix_shorts:
  assumes "plenty al" and "fixable e" and "e_tag e \<in> short_tags" and "e_parent e \<noteq> None"
    and "e_format e \<in> {EXIF_FORMAT_LONG, EXIF_FORMAT_SLONG, EXIF_FORMAT_BYTE, EXIF_FORMAT_SBYTE, EXIF_FORMAT_SSHORT}"
    and "e_data e = Buf d"
  shows "\<exists>e' d'. exif_entry_fix al ord e k = Some (e', k + 1) \<and> e_format e' = EXIF_FORMAT_SHORT \<and>
    e_components e' = e_components e \<and> same_place e e' \<and> e_data e' = Buf d' \<and> length d' = 2 * unat (e_components e) \<and>
    unat (e_size e') = length d' \<and>
    (\<forall>i < unat (e_components e). exif_get_short (Buf d') (2 * i) ord
       = exif_get_short_convert (Buf d) (i * unat (exif_format_get_size (e_format e))) (e_format e) ord)"
proof -
  have f: "e_format e \<in> int_formats" using assms(5) by (auto simp: int_formats_def)
  have d: "length d = unat (e_size e)" "0 < length d" "length d = unat (exif_format_get_size (e_format e)) * unat (e_components e)"
    using data_present_cases [OF fixableD(1) [OF assms(2)]] assms(6) by (metis cbuf.distinct(1) cbuf.inject)+
  let ?n = "unat (e_components e)" and ?w = "unat (exif_format_get_size (e_format e))"
  have "1 \<le> ?w" using d(2,3) by (cases ?w) auto
  then have "?n \<le> length d" using d(3) by (metis mult_le_mono1 nat_mult_1)
  then have c: "?n < 2 ^ 31" "length d < 2 ^ 32" using d(1) fixableD(2) [OF assms(2)] by simp_all
  let ?v = "short_value (e_format e) ord d"
  define vs where "vs = concat (map (\<lambda>i. enc16 ord (?v i)) [0..<?n])"
  have len: "length vs = 2 * ?n" by (simp add: vs_def length_concat o_def eshort.enc_length sum_list_triv)
  have eq: "exif_entry_fix al ord e k = Some (e\<lparr>e_data := Buf vs, e_size := 2 * e_components e, e_format := EXIF_FORMAT_SHORT\<rparr>, k + 1)"
    using fix_to_short_eq [OF assms(1) f assms(6) d(3,2) c, of ord k] assms(3-5) by (auto simp: exif_entry_fix_def vs_def)
  have val: "exif_get_short (Buf vs) (2 * i) ord = exif_get_short_convert (Buf d) (i * ?w) (e_format e) ord" if i: "i < ?n" for i
  proof -
    have ch: "take 2 (drop (2 * i) vs) = enc16 ord (?v i)"
      using chunk_concat [of "\<lambda>i. enc16 ord (?v i)" 2 i ?n] i by (simp add: vs_def eshort.enc_length mult.commute)
    have le: "i * ?w + ?w \<le> length d" using i d(3) mult_le_mono1 [of "Suc i" ?n ?w] by (simp add: mult.commute)
    show ?thesis using ch i len by (simp add: convert_eq [OF f le] eshort.get_eq eshort.dec_enc)
  qed
  have "unat (2 * e_components e) = 2 * ?n" using c(1) by (simp add: unat_word_ariths)
  then show ?thesis
    using eq val len
    by (intro exI [of _ "e\<lparr>e_data := Buf vs, e_size := 2 * e_components e, e_format := EXIF_FORMAT_SHORT\<rparr>"] exI [of _ vs])
      (simp add: same_place_def)
qed

theorem entry_fix_shorts_witness:
  "\<exists>e' d'. exif_entry_fix mem_ok EXIF_BYTE_ORDER_MOTOROLA \<lparr>e_tag = TAG_ORIENTATION, e_format = EXIF_FORMAT_LONG, e_components = 1,
      e_data = Buf [0, 1, 0, 6], e_size = 4, e_parent = Some 0, e_ref_count = 1\<rparr> 9 = Some (e', 10) \<and>
    e_format e' = EXIF_FORMAT_SHORT \<and> e_data e' = Buf d' \<and> exif_get_short (Buf d') 0 EXIF_BYTE_ORDER_MOTOROLA = Some 6"
proof -
  let ?e = "\<lparr>e_tag = TAG_ORIENTATION, e_format = EXIF_FORMAT_LONG, e_components = 1,
      e_data = Buf [0, 1, 0, 6], e_size = 4, e_parent = Some 0, e_ref_count = 1\<rparr>"
  have fx: "fixable ?e" by (simp add: fixable_def data_present_def entry_ok_def format_sizes)
  have g: "exif_get_short_convert (Buf [0, 1, 0, 6]) 0 EXIF_FORMAT_LONG EXIF_BYTE_ORDER_MOTOROLA = Some 6"
    by (simp add: exif_get_short_convert_def exif_get_long_def exif_get_slong_def join32_def) 
  show ?thesis
    using entry_fix_shorts [of mem_ok ?e "[0, 1, 0, 6]" EXIF_BYTE_ORDER_MOTOROLA 9] fx g
    by (auto simp: plenty_mem_ok short_tags_def)
qed

text \<open>
  C17. The default value of every tag is well-formed. Whatever the tag, known or not, the new entry
  gets it, has a format of known size, and its block has exactly the size that format and count promise; an entry
  without a block has no values.
\<close>

theorem initialize_well_formed:
  assumes "plenty al" and "e_parent e \<noteq> None" and "e_data e = NULL"
  shows "\<exists>e' k'. exif_entry_initialize al now ord tag e k = Some (e', k') \<and> e_tag e' = tag \<and> entry_ok e' \<and>
    exif_format_get_size (e_format e') \<noteq> 0 \<and> (e_data e' = NULL \<longrightarrow> e_components e' = 0) \<and>
    blen (e_data e') = unat (exif_format_get_size (e_format e')) * unat (e_components e')"
proof -
  obtain e' k' where e': "exif_entry_initialize al now ord tag e k = Some (e', k')" "data_present e'" "e_tag e' = tag"
      "exif_format_get_size (e_format e') \<noteq> 0"
    using exif_entry_initialize_ok [OF assms, of tag now ord k] by (auto simp: initialized_def)
  have "blen (e_data e') = unat (exif_format_get_size (e_format e')) * unat (e_components e')"
    using e'(2) by (cases rule: data_present_cases) auto
  then show ?thesis using e' by (auto simp: data_present_def)
qed

theorem initialize_well_formed_witness:
  "\<exists>e' k'. exif_entry_initialize mem_ok \<lparr>tm_year = 112, tm_mon = 3, tm_mday = 5, tm_hour = 9, tm_min = 8, tm_sec = 7\<rparr>
      EXIF_BYTE_ORDER_INTEL TAG_DATE_TIME (zero_entry\<lparr>e_parent := Some 0\<rparr>) 4 = Some (e', k') \<and>
    e_tag e' = TAG_DATE_TIME \<and> blen (e_data e') = 20"
proof -
  let ?e = "zero_entry\<lparr>e_parent := Some 0\<rparr>"
  let ?now = "\<lparr>tm_year = 112, tm_mon = 3, tm_mday = 5, tm_hour = 9, tm_min = 8, tm_sec = 7\<rparr>"
  obtain e' k' where e': "exif_entry_initialize mem_ok ?now EXIF_BYTE_ORDER_INTEL TAG_DATE_TIME ?e 4 = Some (e', k')"
      "e_tag e' = TAG_DATE_TIME" "blen (e_data e') = unat (exif_format_get_size (e_format e')) * unat (e_components e')"
    using initialize_well_formed [of mem_ok ?e ?now EXIF_BYTE_ORDER_INTEL TAG_DATE_TIME 4] by (auto simp: plenty_mem_ok zero_entry_def)
  have "e_format e' = EXIF_FORMAT_ASCII" "e_components e' = 20"
    using e'(1) by (auto simp: exif_entry_initialize_def zero_entry_def init_by_tag_def init_value_def Let_def split: bind_splits prod.splits)
  then show ?thesis using e' by (simp add: format_sizes_all)
qed

text \<open>
  A comment that is stored in another format than bytes loses data: the format is set to \<open>undefined\<close>, whose
  values have one byte, but the count stays. A comment of \<open>n\<close> SHORTs keeps its \<open>2 * n\<close> bytes in memory while its record
  announces \<open>n\<close>, and only those are saved.
\<close>

theorem user_comment_count_kept:
  assumes "e_tag e = TAG_USER_COMMENT" and "e_format e = EXIF_FORMAT_SHORT" and "e_data e = Buf (ascii_id @ d)"
    and "unat (e_size e) = 8 + length d" and "8 + length d = 2 * unat (e_components e)"
  shows "\<exists>e'. exif_entry_fix al ord e k = Some (e', k) \<and> e_format e' = EXIF_FORMAT_UNDEFINED \<and> e_data e' = e_data e \<and>
    2 * (unat (exif_format_get_size (e_format e')) * unat (e_components e')) = blen (e_data e') \<and> entry_ok e \<and> \<not> entry_ok e'"
proof -
  let ?d = "ascii_id @ d"
  have a: "length ascii_id = 8" "ascii_id ! 0 = 0x41" "?d \<noteq> []" "?d ! 0 = 0x41" by (simp_all add: ascii_id_def)
  have ge: "e_size e \<ge> 8" using assms(4) by (simp add: word_le_nat_alt)
  have s: "scan_while P (Buf ?d) 0 (unat (e_size e)) = Some 0" if "\<not> P 0x41" for P
  proof -
    have r: "rd (Buf ?d) 0 = Some 0x41" using a(3,4) by simp
    have n: "unat (e_size e) = Suc (7 + length d)" using assms(4) by simp
    show ?thesis unfolding n scan_while.simps r using that by simp
  qed
  let ?e = "e\<lparr>e_format := EXIF_FORMAT_UNDEFINED\<rparr>"
  have c: "e_tag e \<notin> short_tags" "e_tag e \<notin> rational_tags" "e_tag e \<notin> srational_tags"
    using assms(1) by (simp_all add: short_tags_def rational_tags_def srational_tags_def)
  have "fix_user_comment al e k = Some (?e, k)"
    using assms(2,3) ge s a by (simp add: fix_user_comment_def not_less [symmetric])
  then have eq: "exif_entry_fix al ord e k = Some (?e, k)" using c assms(1) by (simp add: exif_entry_fix_def)
  have "\<not> entry_ok ?e" using assms(3-5) a by (auto simp: entry_ok_def format_sizes_all)
  moreover have "entry_ok e" using assms a by (auto simp: entry_ok_def format_sizes)
  ultimately show ?thesis using eq assms(3,5) a by (auto simp: format_sizes_all)
qed

theorem user_comment_count_kept_witness:
  "\<exists>e'. exif_entry_fix mem_ok EXIF_BYTE_ORDER_INTEL \<lparr>e_tag = TAG_USER_COMMENT, e_format = EXIF_FORMAT_SHORT, e_components = 5,
      e_data = Buf (ascii_id @ [0x68, 0x69]), e_size = 10, e_parent = Some 2, e_ref_count = 1\<rparr> 0 = Some (e', 0) \<and>
    unat (e_components e') = 5 \<and> blen (e_data e') = 10 \<and> \<not> entry_ok e'"
  using user_comment_count_kept [of "\<lparr>e_tag = TAG_USER_COMMENT, e_format = EXIF_FORMAT_SHORT, e_components = 5,
      e_data = Buf (ascii_id @ [0x68, 0x69]), e_size = 10, e_parent = Some 2, e_ref_count = 1\<rparr>" "[0x68, 0x69]" mem_ok EXIF_BYTE_ORDER_INTEL 0]
  by (auto simp: format_sizes_all ascii_id_def)

end
