(* ===== verification/Exif_Save.thy ===== *)
theory Exif_Save
  imports Exif_Data
begin

text \<open>
  Saving EXIF data: the second half of \<^verbatim>\<open>libexifa/exif-data.c\<close>. The code builds the file in one
  block that it enlarges as it goes: a directory first reserves the room for its records, fills
  them in, appends the data that do not fit into a record and the directories it points to, and
  finally sorts its records. The directories are numbers and their contents are in \<open>ExifData\<close>;
  \<open>priv->md\<close> is a null pointer, that is, no maker note has been interpreted.

  The second part of the theory gives the layout of the file as a function without pointers and
  shows that the code produces it.
\<close>

section \<open>The output block\<close>

text \<open>\<open>*d\<close>, \<open>*ds\<close> and the number of requests for memory so far.\<close>

record Out =
  o_d :: cbuf
  o_ds :: u32
  o_clock :: nat

text \<open>Memory that \<open>realloc\<close> adds is shown as zeros; when it fails the block stays.\<close>

definition exif_mem_realloc :: "alloc \<Rightarrow> u32 \<Rightarrow> Out \<Rightarrow> bool \<times> Out" where
  "exif_mem_realloc al n out =
    (let out' = out\<lparr>o_clock := o_clock out + 1\<rparr> in
     if al (o_clock out) (unat n)
     then (True, out'\<lparr>o_d := Buf (take (unat n) (bbytes (o_d out)) @ replicate (unat n - blen (o_d out)) 0)\<rparr>)
     else (False, out'))"

section \<open>Saving an entry\<close>

text \<open>The data of an entry, \<open>s\<close> bytes at \<open>doff\<close>, padded to four.\<close>

definition save_entry_data :: "ExifEntry \<Rightarrow> u32 \<Rightarrow> u32 \<Rightarrow> cbuf \<Rightarrow> cbuf option" where
  "save_entry_data e s doff d =
    do { bs \<leftarrow> (if e_data e \<noteq> NULL then rd_range (e_data e) 0 (unat s) else Some (replicate (unat s) 0));
         d \<leftarrow> wr_range d (6 + unat doff) bs;
         if s < 4 then wr_range d (6 + unat doff + unat s) (replicate (4 - unat s) 0) else Some d }"

text \<open>The second half of saving an entry: \<open>s\<close> bytes of data go into the record or behind everything else.\<close>

definition save_entry_rest :: "alloc \<Rightarrow> ExifByteOrder \<Rightarrow> ExifEntry \<Rightarrow> u32 \<Rightarrow> u32 \<Rightarrow> Out \<Rightarrow> Out option" where
  "save_entry_rest al ord e s offset out =
    (if s > 4
     then
       let doff = o_ds out - 6;
           ts = o_ds out + s;
           ts = (if s AND 1 \<noteq> 0 then ts + 1 else ts)
       in case exif_mem_realloc al ts out of
         (False, out) \<Rightarrow> Some out
       | (True, out) \<Rightarrow>
           do { d \<leftarrow> exif_set_long (o_d out) (6 + unat offset + 8) ord doff;
                d \<leftarrow> (if s AND 1 \<noteq> 0 then wr d (unat ts - 1) 0 else Some d);
                d \<leftarrow> save_entry_data e s doff d;
                Some (out\<lparr>o_d := d, o_ds := ts\<rparr>) }
     else do { d \<leftarrow> save_entry_data e s (offset + 8) (o_d out); Some (out\<lparr>o_d := d\<rparr>) })"

definition exif_data_save_data_entry :: "alloc \<Rightarrow> ExifByteOrder \<Rightarrow> ExifEntry \<Rightarrow> u32 \<Rightarrow> Out \<Rightarrow> Out option" where
  "exif_data_save_data_entry al ord e offset out =
    do { d \<leftarrow> exif_set_short (o_d out) (6 + unat offset) ord (e_tag e);
         d \<leftarrow> exif_set_short d (6 + unat offset + 2) ord (e_format e);
         d \<leftarrow> exif_set_long d (6 + unat offset + 4) ord (e_components e);
         save_entry_rest al ord e (ucast (exif_format_get_size (e_format e)) * e_components e) offset (out\<lparr>o_d := d\<rparr>) }"

section \<open>Saving a directory\<close>

text \<open>The comparison of two records of 12 bytes; \<open>qsort\<close> leaves the order of equal records open.\<close>

definition cmp_func :: "ExifByteOrder \<Rightarrow> bytes \<Rightarrow> bytes \<Rightarrow> int" where
  "cmp_func ord p1 p2 =
    (let tag1 = dec16 ord (take 2 p1); tag2 = dec16 ord (take 2 p2) in
     if tag1 < tag2 then - 1 else if tag1 > tag2 then 1 else 0)"

fun insert_record :: "(bytes \<Rightarrow> bytes \<Rightarrow> int) \<Rightarrow> bytes \<Rightarrow> bytes list \<Rightarrow> bytes list" where
  "insert_record cmp r [] = [r]"
| "insert_record cmp r (q # qs) = (if cmp r q \<le> 0 then r # q # qs else q # insert_record cmp r qs)"

definition qsort12 :: "(bytes \<Rightarrow> bytes \<Rightarrow> int) \<Rightarrow> nat \<Rightarrow> nat \<Rightarrow> cbuf \<Rightarrow> cbuf option" where
  "qsort12 cmp p n d =
    do { bs \<leftarrow> rd_range d p (12 * n);
         let rs = map (\<lambda>j. take 12 (drop (12 * j) bs)) [0..<n];
         wr_range d p (concat (foldr (insert_record cmp) rs [])) }"

text \<open>The records that are not entries: pointers to other directories and the thumbnail's two.\<close>

definition save_pointer :: "ExifByteOrder \<Rightarrow> u32 \<Rightarrow> u16 \<Rightarrow> u32 \<Rightarrow> Out \<Rightarrow> Out option" where
  "save_pointer ord offset tag v out =
    do { d \<leftarrow> exif_set_short (o_d out) (6 + unat offset) ord tag;
         d \<leftarrow> exif_set_short d (6 + unat offset + 2) ord EXIF_FORMAT_LONG;
         d \<leftarrow> exif_set_long d (6 + unat offset + 4) ord 1;
         d \<leftarrow> exif_set_long d (6 + unat offset + 8) ord v;
         Some (out\<lparr>o_d := d\<rparr>) }"

abbreviation (input) ifd_count :: "ExifData \<Rightarrow> nat \<Rightarrow> nat" where
  "ifd_count data i \<equiv> length (c_entries (ed_ifd data ! i))"

definition n_extra :: "ExifData \<Rightarrow> nat \<Rightarrow> nat" where
  "n_extra data i =
    (if i = IFD_0
     then of_bool (ifd_count data IFD_EXIF \<noteq> 0 \<or> ifd_count data IFD_INTEROPERABILITY \<noteq> 0)
        + of_bool (ifd_count data IFD_GPS \<noteq> 0)
     else if i = IFD_1 then (if ed_size data \<noteq> 0 then 2 else 0)
     else if i = IFD_EXIF then of_bool (ifd_count data IFD_INTEROPERABILITY \<noteq> 0)
     else 0)"

text \<open>The thumbnail and its two records; the flag is \<open>False\<close> when the code returns for lack of memory.\<close>

definition save_thumbnail :: "alloc \<Rightarrow> ExifData \<Rightarrow> u32 \<Rightarrow> Out \<Rightarrow> (bool \<times> Out) option" where
  "save_thumbnail al data offset out =
    do { out \<leftarrow> save_pointer (ed_order data) offset TAG_JPEG_INTERCHANGE_FORMAT (o_ds out - 6) out;
         let ts = o_ds out + ed_size data;
         case exif_mem_realloc al ts out of
           (False, out) \<Rightarrow> Some (False, out)
         | (True, out) \<Rightarrow>
             do { bs \<leftarrow> rd_range (ed_data data) 0 (unat (ed_size data));
                  d \<leftarrow> wr_range (o_d out) (unat ts - unat (ed_size data)) bs;
                  out \<leftarrow> save_pointer (ed_order data) (offset + 12) TAG_JPEG_INTERCHANGE_FORMAT_LENGTH (ed_size data)
                          (out\<lparr>o_d := d, o_ds := ts\<rparr>);
                  Some (True, out) } }"

definition save_entries :: "alloc \<Rightarrow> ExifData \<Rightarrow> nat \<Rightarrow> u32 \<Rightarrow> Out \<Rightarrow> Out option" where
  "save_entries al data i offset =
    foldM (\<lambda>(j, a) out. do { e \<leftarrow> st_heap (ed_store data) a;
                             exif_data_save_data_entry al (ed_order data) e (offset + of_nat (12 * j)) out })
      (enumerate 0 (c_entries (ed_ifd data ! i)))"

text \<open>The end of a directory: its records are sorted and the word behind them is written.\<close>

definition save_end :: "ExifByteOrder \<Rightarrow> u32 \<Rightarrow> nat \<Rightarrow> u32 \<Rightarrow> Out \<Rightarrow> Out option" where
  "save_end ord offset n next out =
    do { d \<leftarrow> qsort12 (cmp_func ord) (6 + unat offset - 12 * n) n (o_d out);
         d \<leftarrow> exif_set_long d (6 + unat offset) ord next;
         Some (out\<lparr>o_d := d\<rparr>) }"

text \<open>
  The records that are not entries, and what they point to; \<open>sub\<close> saves another directory at an offset. The
  pair has the offset behind the records.
\<close>

definition save_sub ::
  "ExifByteOrder \<Rightarrow> (nat \<Rightarrow> u32 \<Rightarrow> Out \<Rightarrow> Out option) \<Rightarrow> bool \<Rightarrow> u16 \<Rightarrow> nat \<Rightarrow> u32 \<times> Out \<Rightarrow> (u32 \<times> Out) option" where
  "save_sub ord sub needed tag j = (\<lambda>(offset, out).
    if needed
    then do { out \<leftarrow> save_pointer ord offset tag (o_ds out - 6) out;
              out \<leftarrow> sub j (o_ds out - 6) out;
              Some (offset + 12, out) }
    else Some (offset, out))"

definition save_specials ::
  "alloc \<Rightarrow> ExifData \<Rightarrow> (nat \<Rightarrow> u32 \<Rightarrow> Out \<Rightarrow> Out option) \<Rightarrow> nat \<Rightarrow> nat \<Rightarrow> u32 \<Rightarrow> Out \<Rightarrow> Out option" where
  "save_specials al data sub i n offset out =
    (if i = IFD_0
     then do {
       (offset, out) \<leftarrow> save_sub (ed_order data) sub
         (ifd_count data IFD_EXIF \<noteq> 0 \<or> ifd_count data IFD_INTEROPERABILITY \<noteq> 0) TAG_EXIF_IFD_POINTER IFD_EXIF (offset, out);
       (offset, out) \<leftarrow> save_sub (ed_order data) sub
         (ifd_count data IFD_GPS \<noteq> 0) TAG_GPS_INFO_IFD_POINTER IFD_GPS (offset, out);
       if ifd_count data IFD_1 \<noteq> 0 \<or> ed_size data \<noteq> 0
       then do { out \<leftarrow> save_end (ed_order data) offset n (o_ds out - 6) out;
                 sub IFD_1 (o_ds out - 6) out }
       else save_end (ed_order data) offset n 0 out }
     else if i = IFD_EXIF
     then do {
       (offset, out) \<leftarrow> save_sub (ed_order data) sub
         (ifd_count data IFD_INTEROPERABILITY \<noteq> 0) TAG_INTEROPERABILITY_IFD_POINTER IFD_INTEROPERABILITY (offset, out);
       save_end (ed_order data) offset n 0 out }
     else if i = IFD_1 \<and> ed_size data \<noteq> 0
     then do {
       (go, out) \<leftarrow> save_thumbnail al data offset out;
       if go then save_end (ed_order data) (offset + 24) n 0 out else Some out }
     else save_end (ed_order data) offset n 0 out)"

definition save_content ::
  "alloc \<Rightarrow> ExifData \<Rightarrow> (nat \<Rightarrow> u32 \<Rightarrow> Out \<Rightarrow> Out option) \<Rightarrow> nat \<Rightarrow> u32 \<Rightarrow> Out \<Rightarrow> Out option" where
  "save_content al data sub i offset out =
    (if i \<ge> EXIF_IFD_COUNT then Some out
     else
       let n = ifd_count data i + n_extra data i; ts = o_ds out + of_nat (2 + n * 12 + 4) in
       case exif_mem_realloc al ts out of
         (False, out) \<Rightarrow> Some out
       | (True, out) \<Rightarrow>
           do { d \<leftarrow> exif_set_short (o_d out) (6 + unat offset) (ed_order data) (of_nat n);
                out \<leftarrow> save_entries al data i (offset + 2) (out\<lparr>o_d := d, o_ds := ts\<rparr>);
                save_specials al data sub i n (offset + 2 + of_nat (12 * ifd_count data i)) out })"

text \<open>
  The recursion. Directory 0 saves the EXIF and GPS directories and directory 1, the EXIF directory
  saves the interoperability directory, the others save none: three levels.
\<close>

primrec save_levels :: "alloc \<Rightarrow> ExifData \<Rightarrow> nat \<Rightarrow> nat \<Rightarrow> u32 \<Rightarrow> Out \<Rightarrow> Out option" where
  "save_levels al data 0 = (\<lambda>i offset out. Some out)"
| "save_levels al data (Suc k) = save_content al data (save_levels al data k)"

definition exif_data_save_data_content :: "alloc \<Rightarrow> ExifData \<Rightarrow> nat \<Rightarrow> u32 \<Rightarrow> Out \<Rightarrow> Out option" where
  "exif_data_save_data_content al data = save_levels al data (Suc (Suc (Suc 0)))"

lemma save_specials_leaf:
  "i \<noteq> IFD_0 \<Longrightarrow> i \<noteq> IFD_EXIF \<Longrightarrow> save_specials al data sub i = save_specials al data sub' i"
  by (intro ext) (simp add: save_specials_def)

lemma save_content_same:
  assumes "save_specials al data sub i = save_specials al data sub' i"
  shows "save_content al data sub i = save_content al data sub' i"
  unfolding save_content_def [abs_def] assms ..

lemma save_content_leaf:
  "i \<noteq> IFD_0 \<Longrightarrow> i \<noteq> IFD_EXIF \<Longrightarrow> save_content al data sub i = save_content al data sub' i"
  by (intro save_content_same save_specials_leaf)

lemma save_content_exif:
  assumes "sub IFD_INTEROPERABILITY = sub' IFD_INTEROPERABILITY"
  shows "save_content al data sub IFD_EXIF = save_content al data sub' IFD_EXIF"
proof -
  have "save_specials al data sub IFD_EXIF = save_specials al data sub' IFD_EXIF"
    using assms by (intro ext) (simp add: save_specials_def save_sub_def)
  then show ?thesis by (rule save_content_same)
qed

lemma save_content_0:
  assumes "sub IFD_EXIF = sub' IFD_EXIF" and "sub IFD_GPS = sub' IFD_GPS" and "sub IFD_1 = sub' IFD_1"
  shows "save_content al data sub IFD_0 = save_content al data sub' IFD_0"
proof -
  have "save_specials al data sub IFD_0 = save_specials al data sub' IFD_0"
    using assms by (intro ext) (simp add: save_specials_def save_sub_def)
  then show ?thesis by (rule save_content_same)
qed

text \<open>A fourth level would change nothing: the definition satisfies the recursion of the code.\<close>

lemma exif_data_save_data_content_rec:
  "exif_data_save_data_content al data i = save_content al data (exif_data_save_data_content al data) i"
proof -
  have two: "save_levels al data (Suc (Suc k)) = save_content al data (save_levels al data (Suc k))" for k
    by (rule save_levels.simps(2))
  have leaf: "save_levels al data (Suc k) j = save_levels al data (Suc m) j" if "j \<noteq> IFD_0" "j \<noteq> IFD_EXIF" for j k m
    unfolding save_levels.simps(2) using that by (rule save_content_leaf)
  have exif: "save_levels al data (Suc (Suc k)) IFD_EXIF = save_levels al data (Suc (Suc m)) IFD_EXIF" for k m
    unfolding two by (rule save_content_exif, rule leaf) simp_all
  have eq: "save_levels al data (Suc (Suc (Suc 0))) = save_content al data (save_levels al data (Suc (Suc 0)))"
    by (rule save_levels.simps(2))
  show ?thesis
  proof (cases "i = IFD_0 \<or> i = IFD_EXIF")
    case False
    then show ?thesis unfolding exif_data_save_data_content_def eq by (intro save_content_leaf) simp_all
  next
    case True
    have f: "save_levels al data (Suc (Suc 0)) j = save_levels al data (Suc (Suc (Suc 0))) j" if "j \<noteq> IFD_0" for j
    proof (cases "j = IFD_EXIF")
      case True
      show ?thesis unfolding True by (rule exif)
    next
      case False
      with that show ?thesis by (rule leaf)
    qed
    have "save_content al data (save_levels al data (Suc (Suc 0))) IFD_0 = save_content al data (save_levels al data (Suc (Suc (Suc 0)))) IFD_0"
      "save_content al data (save_levels al data (Suc (Suc 0))) IFD_EXIF = save_content al data (save_levels al data (Suc (Suc (Suc 0)))) IFD_EXIF"
      by (rule save_content_0 save_content_exif; rule f; simp)+
    then show ?thesis
      using True unfolding exif_data_save_data_content_def eq by blast
  qed
qed

definition exif_data_save_data :: "alloc \<Rightarrow> ExifData \<Rightarrow> (cbuf \<times> u32) option" where
  "exif_data_save_data al data =
    (case exif_data_alloc al 14 data of
       (d, data) \<Rightarrow>
         if d = NULL then Some (NULL, 0)
         else do {
           d \<leftarrow> wr_range d 0 ExifHeader;
           d \<leftarrow> wr_range d 6 (if ed_order data = EXIF_BYTE_ORDER_INTEL then [0x49, 0x49] else [0x4d, 0x4d]);
           d \<leftarrow> exif_set_short d 8 (ed_order data) 0x002a;
           d \<leftarrow> exif_set_long d 10 (ed_order data) 8;
           out \<leftarrow> exif_data_save_data_content al data IFD_0 (14 - 6)
                    \<lparr>o_d = d, o_ds = 14, o_clock = st_clock (ed_store data)\<rparr>;
           Some (o_d out, o_ds out) })"

declare rd_range_length [simp del] wr_range_blen [simp del] wr_blen [simp del]

section \<open>The layout of the file\<close>

text \<open>The data of an entry as the code writes them, the record of an entry and what is appended for it.\<close>

definition data_len :: "ExifEntry \<Rightarrow> nat" where
  "data_len e = unat (ucast (exif_format_get_size (e_format e)) * e_components e :: u32)"

definition payload :: "ExifEntry \<Rightarrow> bytes" where
  "payload e = (case e_data e of NULL \<Rightarrow> replicate (data_len e) 0 | Buf bs \<Rightarrow> bs)"

definition entry_head :: "ExifByteOrder \<Rightarrow> ExifEntry \<Rightarrow> bytes" where
  "entry_head ord e = enc16 ord (e_tag e) @ enc16 ord (e_format e) @ enc32 ord (e_components e)"

text \<open>\<open>L\<close> is the length of the file when the data are appended; offsets in it count from byte 6.\<close>

definition entry_slot :: "ExifByteOrder \<Rightarrow> nat \<Rightarrow> ExifEntry \<Rightarrow> bytes" where
  "entry_slot ord L e = entry_head ord e @
     (if data_len e > 4 then enc32 ord (of_nat (L - 6)) else payload e @ replicate (4 - data_len e) 0)"

definition entry_ext :: "ExifEntry \<Rightarrow> bytes" where
  "entry_ext e = (if data_len e > 4 then payload e @ (if odd (data_len e) then [0] else []) else [])"

fun entry_slots :: "ExifByteOrder \<Rightarrow> nat \<Rightarrow> ExifEntry list \<Rightarrow> bytes list" where
  "entry_slots ord L [] = []"
| "entry_slots ord L (e # es) = entry_slot ord L e # entry_slots ord (L + length (entry_ext e)) es"

definition entry_exts :: "ExifEntry list \<Rightarrow> bytes" where
  "entry_exts es = concat (map entry_ext es)"

text \<open>
  A directory at position \<open>L\<close>: the entries \<open>es\<close>, the parts \<open>subs\<close> that it points to with the tags
  of the pointers, further records \<open>vals\<close> with a tag and a value, and the directory that follows it.
\<close>

definition pointer_slot :: "ExifByteOrder \<Rightarrow> u16 \<Rightarrow> u32 \<Rightarrow> bytes" where
  "pointer_slot ord tag v = enc16 ord tag @ enc16 ord EXIF_FORMAT_LONG @ enc32 ord 1 @ enc32 ord v"

fun sub_slots :: "ExifByteOrder \<Rightarrow> nat \<Rightarrow> (u16 \<times> (nat \<Rightarrow> bytes)) list \<Rightarrow> bytes list" where
  "sub_slots ord L [] = []"
| "sub_slots ord L ((tag, lay) # subs) =
     pointer_slot ord tag (of_nat (L - 6)) # sub_slots ord (L + length (lay L)) subs"

fun sub_bytes :: "nat \<Rightarrow> (u16 \<times> (nat \<Rightarrow> bytes)) list \<Rightarrow> bytes" where
  "sub_bytes L [] = []"
| "sub_bytes L ((tag, lay) # subs) = lay L @ sub_bytes (L + length (lay L)) subs"

definition record_tag :: "ExifByteOrder \<Rightarrow> bytes \<Rightarrow> u16" where
  "record_tag ord r = dec16 ord (take 2 r)"

definition dir_bytes :: "ExifByteOrder \<Rightarrow> bytes list \<Rightarrow> u32 \<Rightarrow> bytes" where
  "dir_bytes ord rs next =
     enc16 ord (of_nat (length rs)) @ concat (sort_key (record_tag ord) rs) @ enc32 ord next"

definition layout ::
  "ExifByteOrder \<Rightarrow> ExifEntry list \<Rightarrow> (u16 \<times> (nat \<Rightarrow> bytes)) list \<Rightarrow> (u16 \<times> u32) list \<Rightarrow> (nat \<Rightarrow> bytes) option
     \<Rightarrow> nat \<Rightarrow> bytes" where
  "layout ord es subs vals next L =
    (let L1 = L + 6 + 12 * (length es + length subs + length vals);
         L2 = L1 + length (entry_exts es);
         L3 = L2 + length (sub_bytes L2 subs)
     in dir_bytes ord (entry_slots ord L1 es @ sub_slots ord L2 subs @ map (\<lambda>(t, v). pointer_slot ord t v) vals)
          (case next of None \<Rightarrow> 0 | Some lay \<Rightarrow> of_nat (L3 - 6))
        @ entry_exts es @ sub_bytes L2 subs @ (case next of None \<Rightarrow> [] | Some lay \<Rightarrow> lay L3))"

section \<open>The code produces the layout\<close>

definition out_of :: "bytes \<Rightarrow> nat \<Rightarrow> Out" where
  "out_of d c = \<lparr>o_d = Buf d, o_ds = of_nat (length d), o_clock = c\<rparr>"

lemma out_of_simps [simp]:
  "o_d (out_of d c) = Buf d" "o_ds (out_of d c) = of_nat (length d)" "o_clock (out_of d c) = c"
  "(out_of d c)\<lparr>o_d := Buf d'\<rparr> = \<lparr>o_d = Buf d', o_ds = of_nat (length d), o_clock = c\<rparr>"
  by (simp_all add: out_of_def)

lemma out_of_keep: "length d' = length d \<Longrightarrow> \<lparr>o_d = Buf d', o_ds = of_nat (length d), o_clock = c\<rparr> = out_of d' c"
  by (simp add: out_of_def)

lemma realloc_grow:
  assumes "plenty al" and "length d \<le> unat n"
  shows "exif_mem_realloc al n \<lparr>o_d = Buf d, o_ds = k, o_clock = c\<rparr> =
    (True, \<lparr>o_d = Buf (d @ replicate (unat n - length d) 0), o_ds = k, o_clock = c + 1\<rparr>)"
  using assms by (simp add: exif_mem_realloc_def plenty_def)

lemma wr_range_mid:
  "length new = length old \<Longrightarrow> p = length pre \<Longrightarrow> wr_range (Buf (pre @ old @ post)) p new = Some (Buf (pre @ new @ post))"
  by simp

lemma set_three:
  "(do { d \<leftarrow> exif_set_short (Buf b) p ord t; d \<leftarrow> exif_set_short d (p + 2) ord f; d \<leftarrow> exif_set_long d (p + 4) ord n; k d })
    = wr_range (Buf b) p (enc16 ord t @ enc16 ord f @ enc32 ord n) \<bind> k"
  by (auto simp: eshort.set_eq elong.set_eq eshort.enc_length elong.enc_length min_def add.commute)

lemma save_pointer_eq:
  assumes "length hole = 12" and "length pre = 6 + unat offset"
  shows "save_pointer ord offset tag v \<lparr>o_d = Buf (pre @ hole @ post), o_ds = k, o_clock = c\<rparr> =
    Some \<lparr>o_d = Buf (pre @ pointer_slot ord tag v @ post), o_ds = k, o_clock = c\<rparr>"
proof -
  have "exif_set_long (Buf (pre @ (enc16 ord tag @ enc16 ord EXIF_FORMAT_LONG @ enc32 ord 1) @ drop 8 hole @ post)) (6 + unat offset + 8) ord v
      = Some (Buf (pre @ pointer_slot ord tag v @ post))"
    unfolding elong.set_eq using assms by (simp add: pointer_slot_def elong.enc_length eshort.enc_length)
  moreover have "wr_range (Buf (pre @ hole @ post)) (6 + unat offset) (enc16 ord tag @ enc16 ord EXIF_FORMAT_LONG @ enc32 ord 1)
      = Some (Buf (pre @ (enc16 ord tag @ enc16 ord EXIF_FORMAT_LONG @ enc32 ord 1) @ drop 8 hole @ post))"
    using assms by (simp add: elong.enc_length eshort.enc_length)
  ultimately show ?thesis
    by (simp only: save_pointer_def Out.simps set_three Option.bind.simps)
qed

text \<open>Data that are there have the length that the record announces.\<close>

definition entry_fit :: "ExifEntry \<Rightarrow> bool" where
  "entry_fit e \<longleftrightarrow> length (payload e) = data_len e"

lemma entry_ok_fit: "entry_ok e \<Longrightarrow> entry_fit e"
  using unat_u32 [of "e_size e"]
  by (auto simp: entry_ok_def entry_fit_def payload_def data_len_def unat_size_mult)

lemma save_entry_data_eq:
  assumes "entry_fit e" and "unat s = data_len e" and "length hole = max 4 (data_len e)" and "length pre = 6 + unat doff"
  shows "save_entry_data e s doff (Buf (pre @ hole @ post))
    = Some (Buf (pre @ payload e @ replicate (4 - data_len e) 0 @ post))"
proof -
  have rd: "(if e_data e \<noteq> NULL then rd_range (e_data e) 0 (unat s) else Some (replicate (unat s) 0)) = Some (payload e)"
    using assms(1,2) by (cases "e_data e") (auto simp: payload_def entry_fit_def)
  have len: "length (payload e) = data_len e" using assms(1) by (simp add: entry_fit_def)
  have w1: "wr_range (Buf (pre @ hole @ post)) (6 + unat doff) (payload e) = Some (Buf (pre @ payload e @ drop (data_len e) hole @ post))"
    using assms(3,4) len by simp
  have w2: "s < 4 \<Longrightarrow> wr_range (Buf (pre @ payload e @ drop (data_len e) hole @ post)) (6 + unat doff + unat s) (replicate (4 - unat s) 0)
      = Some (Buf (pre @ payload e @ replicate (4 - data_len e) 0 @ post))"
    using assms(2-4) len by (simp add: word_less_nat_alt)
  have w3: "\<not> s < 4 \<Longrightarrow> drop (data_len e) hole = [] \<and> 4 - data_len e = 0"
    using assms(2,3) by (simp add: word_less_nat_alt)
  show ?thesis
    unfolding save_entry_data_def rd using w1 w2 w3 by (cases "s < 4") (simp_all del: wr_range.simps)
qed

lemma length_entry_head [simp]: "length (entry_head ord e) = 8"
  by (simp add: entry_head_def eshort.enc_length elong.enc_length)

lemma and_1_odd: "(s :: u32) AND 1 \<noteq> 0 \<longleftrightarrow> odd (unat s)"
proof -
  have "bit (unat s) 0 = bit s 0" by (simp add: bit_unsigned_iff del: bit_0)
  then show ?thesis by (simp add: and_one_eq bit_0 odd_iff_mod_2_eq_one)
qed

lemma minus_6: "6 \<le> n \<Longrightarrow> (of_nat n :: u32) - 6 = of_nat (n - 6)"
  by (simp add: of_nat_diff)

lemma length_entry_ext:
  "entry_fit e \<Longrightarrow> length (entry_ext e) = (if data_len e > 4 then data_len e + of_bool (odd (data_len e)) else 0)"
  by (simp add: entry_ext_def entry_fit_def)

lemma save_entry_rest_far:
  assumes al: "plenty al" and fit: "entry_fit e" and us: "unat s = data_len e" and far: "data_len e > 4"
    and d: "d = pre @ head @ hole @ post" "length pre = 6 + unat offset" "length head = 8" "length hole = 4"
    and small: "length d + length (entry_ext e) < 2 ^ 32"
  shows "save_entry_rest al ord e s offset (out_of d c)
    = Some (out_of (pre @ head @ enc32 ord (of_nat (length d - 6)) @ post @ entry_ext e) (c + 1))"
proof -
  define ts :: u32 where "ts = (if s AND 1 \<noteq> 0 then of_nat (length d) + s + 1 else of_nat (length d) + s)"
  let ?pad = "if odd (data_len e) then [0] else [] :: bytes"
  have ext: "entry_ext e = payload e @ ?pad" "length (payload e) = data_len e"
    using far fit by (simp_all add: entry_ext_def entry_fit_def)
  have ts': "ts = of_nat (length d + length (entry_ext e))"
    using us by (simp add: ts_def and_1_odd ext us [symmetric])
  have uts: "unat ts = length d + length (entry_ext e)" unfolding ts' using small by (rule unat_word_of_nat_32)
  have "6 \<le> length d" using d by simp
  then have doff: "(of_nat (length d) :: u32) - 6 = of_nat (length d - 6)" "unat (of_nat (length d - 6) :: u32) = length d - 6"
    using minus_6 unat_word_of_nat_32 [of "length d - 6"] small by auto
  let ?d1 = "pre @ head @ hole @ post @ replicate (length (entry_ext e)) 0"
  let ?d2 = "pre @ head @ enc32 ord (of_nat (length d - 6)) @ post @ replicate (length (entry_ext e)) 0"
  have s1: "exif_set_long (Buf ?d1) (6 + unat offset + 8) ord (of_nat (length d - 6)) = Some (Buf ?d2)"
    unfolding elong.set_eq using d by (simp add: elong.enc_length)
  have s2: "(if s AND 1 \<noteq> 0 then wr (Buf ?d2) (unat ts - 1) 0 else Some (Buf ?d2)) = Some (Buf ?d2)"
  proof (cases "odd (data_len e)")
    case True
    then have "?d2 \<noteq> []" "length ?d2 = unat ts" "last ?d2 = 0"
      using uts d ext far by (simp_all add: elong.enc_length)
    moreover have "0 < unat ts" using uts ext far by simp
    ultimately have "?d2 ! (unat ts - 1) = 0" "unat ts - 1 < length ?d2" by (auto simp: last_conv_nth)
    then show ?thesis using list_update_id [of ?d2 "unat ts - 1"] by (auto simp del: list_update_append)
  next
    case False
    then show ?thesis using us by (simp add: and_1_odd)
  qed
  have s3: "save_entry_data e s (of_nat (length d - 6)) (Buf ?d2)
      = Some (Buf (pre @ head @ enc32 ord (of_nat (length d - 6)) @ post @ entry_ext e))"
    using save_entry_data_eq [OF fit us, of "replicate (data_len e) 0"
        "pre @ head @ enc32 ord (of_nat (length d - 6)) @ post" "of_nat (length d - 6)" ?pad] d doff far ext
    by (auto simp: elong.enc_length replicate_add replicate_app_Cons_same)
  have r: "exif_mem_realloc al ts (out_of d c) = (True, \<lparr>o_d = Buf ?d1, o_ds = of_nat (length d), o_clock = c + 1\<rparr>)"
    unfolding out_of_def using uts by (simp add: realloc_grow [OF al] d(1))
  have gt: "4 < s" using far us by (simp add: word_less_nat_alt)
  let ?d3 = "pre @ head @ enc32 ord (of_nat (length d - 6)) @ post @ entry_ext e"
  have len: "length ?d3 = length d + length (entry_ext e)" using d by (simp add: elong.enc_length)
  have "save_entry_rest al ord e s offset (out_of d c) = Some \<lparr>o_d = Buf ?d3, o_ds = ts, o_clock = c + 1\<rparr>"
    unfolding save_entry_rest_def out_of_simps Let_def ts_def [symmetric] doff
    by (simp only: gt if_True r prod.case bool.case s1 s2 s3 Option.bind.simps Out.simps)
  then show ?thesis
    unfolding out_of_def len ts' .
qed

lemma save_entry_rest_near:
  assumes fit: "entry_fit e" and us: "unat s = data_len e" and near: "\<not> data_len e > 4"
    and d: "d = pre @ head @ hole @ post" "length pre = 6 + unat offset" "length head = 8" "length hole = 4"
    and small: "length d < 2 ^ 32"
  shows "save_entry_rest al ord e s offset (out_of d c)
    = Some (out_of (pre @ head @ payload e @ replicate (4 - data_len e) 0 @ post) c)"
proof -
  have u: "unat (offset + 8) = unat offset + 8" using d small by (simp add: unat_word_ariths)
  have len: "length (payload e) = data_len e" using fit by (simp add: entry_fit_def)
  have "save_entry_data e s (offset + 8) (Buf d) = Some (Buf (pre @ head @ payload e @ replicate (4 - data_len e) 0 @ post))"
    using save_entry_data_eq [OF fit us, of hole "pre @ head" "offset + 8" post] d u near by simp
  moreover have "\<not> s > 4" using near us by (simp add: word_less_nat_alt)
  ultimately show ?thesis
    using near d len by (simp add: save_entry_rest_def out_of_def)
qed

lemma save_entry_eq:
  assumes "plenty al" and "entry_fit e" and "length hole = 12" and "length pre = 6 + unat offset"
    and "d = pre @ hole @ post" and "length d + length (entry_ext e) < 2 ^ 32"
  shows "\<exists>c'. exif_data_save_data_entry al ord e offset (out_of d c)
    = Some (out_of (pre @ entry_slot ord (length d) e @ post @ entry_ext e) c')"
proof -
  define s :: u32 where "s = ucast (exif_format_get_size (e_format e)) * e_components e"
  have us: "unat s = data_len e" by (simp add: s_def data_len_def)
  let ?d = "pre @ entry_head ord e @ drop 8 hole @ post"
  have w: "wr_range (Buf d) (6 + unat offset) (entry_head ord e) = Some (Buf ?d)"
    using assms(3-5) by simp
  have len: "length ?d = length d" using assms(3,5) by simp
  have eq: "exif_data_save_data_entry al ord e offset (out_of d c) = save_entry_rest al ord e s offset (out_of ?d c)"
    unfolding exif_data_save_data_entry_def out_of_simps set_three entry_head_def [symmetric] w s_def [symmetric]
    by (simp add: out_of_def len [simplified] del: wr_range.simps)
  show ?thesis
  proof (cases "data_len e > 4")
    case True
    have "save_entry_rest al ord e s offset (out_of ?d c)
        = Some (out_of (pre @ entry_head ord e @ enc32 ord (of_nat (length ?d - 6)) @ post @ entry_ext e) (c + 1))"
      using assms(3,4,6) len by (intro save_entry_rest_far [OF assms(1,2) us True refl]) simp_all
    then show ?thesis using eq True by (intro exI [of _ "c + 1"]) (simp add: entry_slot_def len [simplified])
  next
    case False
    have "save_entry_rest al ord e s offset (out_of ?d c)
        = Some (out_of (pre @ entry_head ord e @ payload e @ replicate (4 - data_len e) 0 @ post) c)"
      using assms(3,4,6) len by (intro save_entry_rest_near [OF assms(2) us False refl]) simp_all
    then show ?thesis using eq False by (intro exI [of _ c]) (simp add: entry_slot_def entry_ext_def)
  qed
qed

lemma length_entry_slot [simp]: "entry_fit e \<Longrightarrow> length (entry_slot ord L e) = 12"
  by (simp add: entry_slot_def elong.enc_length entry_fit_def)

lemma length_entry_slots [simp]: "length (entry_slots ord L es) = length es"
  by (induction ord L es rule: entry_slots.induct) simp_all

lemma length_concat_slots: "list_all entry_fit es \<Longrightarrow> length (concat (entry_slots ord L es)) = 12 * length es"
  by (induction ord L es rule: entry_slots.induct) simp_all

text \<open>The loop over the entries, in general: \<open>j\<close> records are done.\<close>

lemma save_entries_loop:
  assumes "plenty al" and "list_all entry_fit es" and "map (st_heap store) as = map Some es"
    and "length pre = 6 + unat offset" and "length done = 12 * j" and "length hole = 12 * length es"
    and "length (pre @ done @ hole @ post) + length (entry_exts es) < 2 ^ 32"
  shows "\<exists>c'. foldM (\<lambda>(j, a) out. do { e \<leftarrow> st_heap store a;
          exif_data_save_data_entry al ord e (offset + of_nat (12 * j)) out }) (enumerate j as) (out_of (pre @ done @ hole @ post) c)
    = Some (out_of (pre @ done @ concat (entry_slots ord (length (pre @ done @ hole @ post)) es) @ post @ entry_exts es) c')"
  using assms(2,3,5-7)
proof (induction es arbitrary: as j "done" hole post c)
  case Nil
  then show ?case by (simp add: entry_exts_def) blast
next
  case (Cons e es)
  obtain a as' where as: "as = a # as'" "st_heap store a = Some e" "map (st_heap store) as' = map Some es"
    using Cons.prems(2) by (cases as) auto
  have fit: "entry_fit e" "list_all entry_fit es" using Cons.prems(1) by auto
  let ?d = "pre @ done @ hole @ post"
  let ?r = "entry_slot ord (length ?d) e"
  have u: "unat (offset + of_nat (12 * j)) = unat offset + 12 * j"
  proof -
    have "unat offset + 12 * j < 2 ^ 32" using Cons.prems(3,5) assms(4) by simp
    then show ?thesis by (simp add: unat_word_ariths unsigned_of_nat take_bit_nat_eq_self)
  qed
  have split: "?d = (pre @ done) @ take 12 hole @ (drop 12 hole @ post)" by simp
  have "length (pre @ done) = 6 + unat (offset + of_nat (12 * j))" using u assms(4) Cons.prems(3) by simp
  moreover have "length ?d + length (entry_ext e) < 2 ^ 32" using Cons.prems(5) by (simp add: entry_exts_def)
  moreover have "length (take 12 hole) = 12" using Cons.prems(4) by simp
  ultimately obtain c1 where s: "exif_data_save_data_entry al ord e (offset + of_nat (12 * j)) (out_of ?d c)
      = Some (out_of (pre @ (done @ ?r) @ drop 12 hole @ (post @ entry_ext e)) c1)"
    using save_entry_eq [OF assms(1) fit(1), of "take 12 hole" "pre @ done" "offset + of_nat (12 * j)" ?d "drop 12 hole @ post" ord c] split
    by (auto simp del: append_take_drop_id)
  have len: "length (pre @ (done @ ?r) @ drop 12 hole @ (post @ entry_ext e)) = length ?d + length (entry_ext e)"
    using fit(1) Cons.prems(4) by simp
  have "\<exists>c'. foldM (\<lambda>(j, a) out. do { e \<leftarrow> st_heap store a;
          exif_data_save_data_entry al ord e (offset + of_nat (12 * j)) out }) (enumerate (Suc j) as')
        (out_of (pre @ (done @ ?r) @ drop 12 hole @ (post @ entry_ext e)) c1)
    = Some (out_of (pre @ (done @ ?r) @ concat (entry_slots ord (length (pre @ (done @ ?r) @ drop 12 hole @ (post @ entry_ext e))) es)
        @ (post @ entry_ext e) @ entry_exts es) c')"
    using Cons.prems(3,4,5) fit len by (intro Cons.IH as(3)) (simp_all add: entry_exts_def)
  then show ?case
    unfolding len using as s by (simp add: entry_exts_def)
qed

lemma insert_record_eq: "insert_record (cmp_func ord) r rs = insort_key (record_tag ord) r rs"
  by (induction rs) (auto simp: cmp_func_def record_tag_def Let_def)

lemma sort_records_eq: "foldr (insert_record (cmp_func ord)) rs [] = sort_key (record_tag ord) rs"
  by (induction rs) (simp_all add: insert_record_eq)

lemma chunks_concat:
  "list_all (\<lambda>r. length r = k) rs \<Longrightarrow> map (\<lambda>j. take k (drop (k * j) (concat rs))) [0..<length rs] = rs"
proof (induction rs)
  case (Cons r rs)
  have "map (\<lambda>j. take k (drop (k * j) (concat (r # rs)))) [0..<length (r # rs)]
      = take k (concat (r # rs)) # map (\<lambda>j. take k (drop (k * Suc j) (concat (r # rs)))) [0..<length rs]"
    by (simp only: list.size(4) One_nat_def add_Suc_right add_0_right upt_conv_Cons [OF zero_less_Suc]
        map_Suc_upt [symmetric] list.map map_map o_def mult_0_right drop_0)
  also have "\<dots> = r # map (\<lambda>j. take k (drop (k * j) (concat rs))) [0..<length rs]"
    using Cons.prems by simp
  finally show ?case using Cons by simp
qed simp

lemma length_concat_records: "list_all (\<lambda>r. length r = k) rs \<Longrightarrow> length (concat rs) = k * length rs"
  by (induction rs) simp_all

lemma list_all_sort: "list_all P (sort_key f rs) = list_all P rs"
  by (simp add: list_all_iff)

abbreviation (input) records :: "bytes list \<Rightarrow> bool" where
  "records rs \<equiv> list_all (\<lambda>r. length r = 12) rs"

lemma save_end_eq:
  assumes "records rs" and "length hole = 4" and "length pre + 12 * length rs = 6 + unat offset" and "n = length rs"
  shows "save_end ord offset n nxt (out_of (pre @ concat rs @ hole @ post) c)
    = Some (out_of (pre @ concat (sort_key (record_tag ord) rs) @ enc32 ord nxt @ post) c)"
proof -
  have p: "6 + unat offset - 12 * n = length pre" using assms(3,4) by simp
  have len: "length (concat rs) = 12 * n" "length (concat (sort_key (record_tag ord) rs)) = 12 * n"
    using assms(1,4) by (simp_all add: length_concat_records list_all_sort)
  have "rd_range (Buf (pre @ concat rs @ hole @ post)) (length pre) (12 * n) = Some (concat rs)"
    using len by simp
  then have q: "qsort12 (cmp_func ord) (length pre) n (Buf (pre @ concat rs @ hole @ post))
      = Some (Buf (pre @ concat (sort_key (record_tag ord) rs) @ hole @ post))"
    using len wr_range_mid [of "concat (sort_key (record_tag ord) rs)" "concat rs" "length pre" pre "hole @ post"]
    unfolding qsort12_def Let_def assms(4) by (simp add: chunks_concat [OF assms(1)] sort_records_eq del: wr_range.simps rd_range.simps)
  have "exif_set_long (Buf (pre @ concat (sort_key (record_tag ord) rs) @ hole @ post)) (6 + unat offset) ord nxt
      = Some (Buf (pre @ concat (sort_key (record_tag ord) rs) @ enc32 ord nxt @ post))"
    using wr_range_mid [of "enc32 ord nxt" hole "6 + unat offset" "pre @ concat (sort_key (record_tag ord) rs)" post]
      len assms(2-4) by (simp add: elong.set_eq elong.enc_length)
  with q show ?thesis
    using len assms(2) by (simp add: save_end_def p out_of_def elong.enc_length)
qed

text \<open>A routine that appends a part with the given layout at the end of the file.\<close>

definition saves :: "(u32 \<Rightarrow> Out \<Rightarrow> Out option) \<Rightarrow> (nat \<Rightarrow> bytes) \<Rightarrow> bool" where
  "saves f lay \<longleftrightarrow> (\<forall>d c. 14 \<le> length d \<longrightarrow> length d + length (lay (length d)) < 2 ^ 32 \<longrightarrow>
     (\<exists>c'. f (of_nat (length d - 6)) (out_of d c) = Some (out_of (d @ lay (length d)) c')))"

lemma savesD:
  "\<lbrakk>saves f lay; length d = L; 14 \<le> L; L + length (lay L) < 2 ^ 32\<rbrakk>
   \<Longrightarrow> \<exists>c'. f (of_nat (L - 6)) (out_of d c) = Some (out_of (d @ lay L) c')"
  unfolding saves_def by blast

lemma length_pointer_slot [simp]: "length (pointer_slot ord tag v) = 12"
  by (simp add: pointer_slot_def eshort.enc_length elong.enc_length)

lemma save_sub_eq:
  assumes "saves (sub j) lay" and "length hole = 12" and "length pre = 6 + unat offset" and "d = pre @ hole @ post"
    and "14 \<le> length d" and "length d + length (lay (length d)) < 2 ^ 32"
  shows "\<exists>c'. save_sub ord sub True tag j (offset, out_of d c)
    = Some (offset + 12, out_of (pre @ pointer_slot ord tag (of_nat (length d - 6)) @ post @ lay (length d)) c')"
proof -
  let ?d = "pre @ pointer_slot ord tag (of_nat (length d - 6)) @ post"
  have len: "length ?d = length d" using assms(2,4) by simp
  have p: "save_pointer ord offset tag (of_nat (length d - 6)) (out_of d c) = Some (out_of ?d c)"
    using save_pointer_eq [OF assms(2,3), of ord tag "of_nat (length d - 6)" post "of_nat (length d)" c] assms(4)
    unfolding out_of_def len by simp
  obtain c' where sb: "sub j (of_nat (length d - 6)) (out_of ?d c) = Some (out_of (?d @ lay (length d)) c')"
    using savesD [OF assms(1) len assms(5,6)] by auto
  have m: "(of_nat (length d) :: u32) - 6 = of_nat (length d - 6)" using assms(5) by (intro minus_6) simp
  show ?thesis
    by (intro exI [of _ c'])
       (simp only: save_sub_def prod.case if_True out_of_simps len m p sb Option.bind.simps append_assoc)
qed

text \<open>The entries of a directory, all present in the store with data of the right length.\<close>

definition entries_of :: "ExifData \<Rightarrow> nat \<Rightarrow> ExifEntry list" where
  "entries_of data i = map (\<lambda>a. the (st_heap (ed_store data) a)) (c_entries (ed_ifd data ! i))"

definition dir_fit :: "ExifData \<Rightarrow> nat \<Rightarrow> bool" where
  "dir_fit data i \<longleftrightarrow> list_all (\<lambda>a. st_heap (ed_store data) a \<noteq> None) (c_entries (ed_ifd data ! i)) \<and>
     list_all entry_fit (entries_of data i)"

lemma length_entries_of [simp]: "length (entries_of data i) = ifd_count data i"
  by (simp add: entries_of_def)

lemma dir_fitD:
  assumes "dir_fit data i"
  shows "map (st_heap (ed_store data)) (c_entries (ed_ifd data ! i)) = map Some (entries_of data i)"
    "list_all entry_fit (entries_of data i)"
  using assms by (auto simp: dir_fit_def entries_of_def list_all_iff)

lemma data_ok_fit: "data_ok data \<Longrightarrow> i < EXIF_IFD_COUNT \<Longrightarrow> dir_fit data i"
  by (fastforce simp: data_ok_def ifds_ok_def content_ok_def held_def dir_fit_def entries_of_def list_all_iff intro: entry_ok_fit)

lemma save_content_begin:
  assumes "plenty al" and "i < EXIF_IFD_COUNT" and "dir_fit data i" and "14 \<le> length d"
    and "es = entries_of data i" and "n = length es + n_extra data i"
    and "length d + 6 + 12 * n + length (entry_exts es) < 2 ^ 32"
  shows "\<exists>c'. save_content al data sub i (of_nat (length d - 6)) (out_of d c)
    = save_specials al data sub i n (of_nat (length d - 4 + 12 * length es))
        (out_of (d @ enc16 (ed_order data) (of_nat n) @ concat (entry_slots (ed_order data) (length d + 6 + 12 * n) es)
           @ replicate (12 * n_extra data i) 0 @ replicate 4 0 @ entry_exts es) c')"
proof -
  let ?ord = "ed_order data"
  let ?L = "length d + 6 + 12 * n"
  define offset :: u32 where "offset = of_nat (length d - 6)"
  have uo: "unat offset = length d - 6" "unat (offset + 2) = length d - 4"
  proof -
    show "unat offset = length d - 6" using assms(7) by (simp add: offset_def unat_word_of_nat_32)
    then show "unat (offset + 2) = length d - 4" using assms(4,7) by (simp add: unat_word_ariths)
  qed
  define ts :: u32 where "ts = of_nat (length d) + of_nat (2 + n * 12 + 4)"
  have ts: "ts = of_nat ?L" "unat ts = ?L"
  proof -
    show "ts = of_nat ?L" by (simp add: ts_def)
    then show "unat ts = ?L" using assms(7) by (simp add: unat_word_of_nat_32 del: of_nat_add of_nat_mult)
  qed
  let ?d0 = "d @ replicate (6 + 12 * n) 0"
  let ?d1 = "(d @ enc16 ?ord (of_nat n)) @ [] @ replicate (12 * length es) 0 @ (replicate (12 * n_extra data i) 0 @ replicate 4 0)"
  have r: "exif_mem_realloc al ts (out_of d c) = (True, \<lparr>o_d = Buf ?d0, o_ds = of_nat (length d), o_clock = c + 1\<rparr>)"
    unfolding out_of_def using ts(2) by (simp add: realloc_grow [OF assms(1)])
  have z: "replicate (6 + 12 * n) 0 = replicate 2 0 @ replicate (12 * length es) 0 @ replicate (12 * n_extra data i) 0 @ (replicate 4 0 :: bytes)"
    unfolding replicate_add [symmetric] by (rule arg_cong [where f = "\<lambda>k. replicate k 0"]) (simp add: assms(6))
  have s: "exif_set_short (Buf ?d0) (6 + unat offset) ?ord (of_nat n) = Some (Buf ?d1)"
    using wr_range_mid [of "enc16 ?ord (of_nat n)" "replicate 2 0" "length d" d] uo assms(4)
    unfolding eshort.set_eq z by (simp add: eshort.enc_length)
  have len: "length ?d1 = ?L" using assms(6) by (simp add: eshort.enc_length)
  have "\<exists>c'. save_entries al data i (offset + 2) (out_of ?d1 (c + 1))
      = Some (out_of ((d @ enc16 ?ord (of_nat n)) @ [] @ concat (entry_slots ?ord (length ?d1) es)
          @ (replicate (12 * n_extra data i) 0 @ replicate 4 0) @ entry_exts es) c')"
    unfolding save_entries_def
    by (rule save_entries_loop [OF assms(1)])
      (use dir_fitD [OF assms(3)] len uo(2) assms(4-7) in \<open>simp_all add: eshort.enc_length\<close>)
  then obtain c' where e: "save_entries al data i (offset + 2) (out_of ?d1 (c + 1))
      = Some (out_of ((d @ enc16 ?ord (of_nat n)) @ [] @ concat (entry_slots ?ord ?L es)
          @ (replicate (12 * n_extra data i) 0 @ replicate 4 0) @ entry_exts es) c')"
    unfolding len by blast
  have o1: "\<lparr>o_d = Buf ?d1, o_ds = ts, o_clock = c + 1\<rparr> = out_of ?d1 (c + 1)"
    unfolding out_of_def len ts(1) ..
  have o2: "offset + 2 + of_nat (12 * length es) = of_nat (length d - 4 + 12 * length es)"
    using assms(4) by (simp add: offset_def of_nat_diff)
  have cnt: "ifd_count data i = length es" using assms(5) by simp
  have "save_content al data sub i offset (out_of d c) = save_entries al data i (offset + 2) (out_of ?d1 (c + 1)) \<bind>
      save_specials al data sub i n (offset + 2 + of_nat (12 * length es))"
    using assms(2) unfolding save_content_def cnt assms(6) [symmetric] Let_def out_of_simps ts_def [symmetric] r
    by (simp only: not_le [symmetric] if_not_P [of "EXIF_IFD_COUNT \<le> i"] prod.case bool.case Out.simps s Option.bind.simps o1 if_False)
  then show ?thesis
    unfolding e o2 offset_def [symmetric] by auto
qed

text \<open>The pointers of a directory one after the other, with what they point to; \<open>ps\<close> has the condition, the tag, the directory and its layout.\<close>

type_synonym pointers = "(bool \<times> u16 \<times> nat \<times> (nat \<Rightarrow> bytes)) list"

definition needed :: "pointers \<Rightarrow> (u16 \<times> (nat \<Rightarrow> bytes)) list" where
  "needed ps = map (\<lambda>(b, tag, j, lay). (tag, lay)) (filter fst ps)"

definition saves_all :: "(nat \<Rightarrow> u32 \<Rightarrow> Out \<Rightarrow> Out option) \<Rightarrow> pointers \<Rightarrow> bool" where
  "saves_all sub ps \<longleftrightarrow> list_all (\<lambda>(b, tag, j, lay). b \<longrightarrow> saves (sub j) lay) ps"

definition save_subs ::
  "ExifByteOrder \<Rightarrow> (nat \<Rightarrow> u32 \<Rightarrow> Out \<Rightarrow> Out option) \<Rightarrow> pointers \<Rightarrow> u32 \<times> Out \<Rightarrow> (u32 \<times> Out) option" where
  "save_subs ord sub = foldM (\<lambda>(b, tag, j, lay). save_sub ord sub b tag j)"

lemma length_sub_slots [simp]: "length (sub_slots ord L subs) = length subs"
  by (induction ord L subs rule: sub_slots.induct) simp_all

lemma records_sub_slots: "records (sub_slots ord L subs)"
  by (induction ord L subs rule: sub_slots.induct) simp_all

lemma save_subs_eq:
  assumes "saves_all sub ps" and "length hole = 12 * length (needed ps)" and "length pre = 6 + unat offset"
    and "d = pre @ hole @ post" and "14 \<le> length d" and "length d + length (sub_bytes (length d) (needed ps)) < 2 ^ 32"
  shows "\<exists>c'. save_subs ord sub ps (offset, out_of d c) = Some (offset + of_nat (12 * length (needed ps)),
    out_of (pre @ concat (sub_slots ord (length d) (needed ps)) @ post @ sub_bytes (length d) (needed ps)) c')"
  using assms
proof (induction ps arbitrary: pre hole post offset d c)
  case Nil
  then show ?case by (auto simp: save_subs_def needed_def)
next
  case (Cons p ps)
  obtain b tag j lay where p: "p = (b, tag, j, lay)" by (cases p)
  show ?case
  proof (cases b)
    case False
    then have "needed (p # ps) = needed ps" using p by (simp add: needed_def)
    then show ?thesis
      using Cons p False by (simp add: save_subs_def saves_all_def save_sub_def)
  next
    case True
    then have nd: "needed (p # ps) = (tag, lay) # needed ps" using p by (simp add: needed_def)
    let ?r = "pointer_slot ord tag (of_nat (length d - 6))"
    let ?d = "(pre @ ?r) @ drop 12 hole @ (post @ lay (length d))"
    have h: "length (take 12 hole) = 12" "d = pre @ take 12 hole @ (drop 12 hole @ post)"
      using Cons.prems(2,4) nd by simp_all
    have sv: "saves (sub j) lay" "saves_all sub ps" using Cons.prems(1) p True by (auto simp: saves_all_def)
    obtain c1 where s: "save_sub ord sub True tag j (offset, out_of d c) = Some (offset + 12, out_of ?d c1)"
      using save_sub_eq [of sub j lay "take 12 hole" pre offset d "drop 12 hole @ post" ord tag c] sv(1) h Cons.prems(3,5,6) nd
      by auto
    have len: "length ?d = length d + length (lay (length d))" using h Cons.prems(2,4) nd by simp
    have u: "unat (offset + 12) = unat offset + 12"
      using Cons.prems(2-4,6) nd by (simp add: unat_word_ariths)
    have "\<exists>c'. save_subs ord sub ps (offset + 12, out_of ?d c1) = Some (offset + 12 + of_nat (12 * length (needed ps)),
      out_of ((pre @ ?r) @ concat (sub_slots ord (length ?d) (needed ps)) @ (post @ lay (length d)) @ sub_bytes (length ?d) (needed ps)) c')"
    proof (rule Cons.IH [OF sv(2) _ _ refl])
      show "14 \<le> length ?d" "length ?d + length (sub_bytes (length ?d) (needed ps)) < 2 ^ 32"
        unfolding len using Cons.prems(5,6) nd by simp_all
    qed (use Cons.prems(2,3) nd u in simp_all)
    then show ?thesis
      unfolding len using s p True nd by (simp add: save_subs_def add.assoc)
  qed
qed

definition follows :: "(nat \<times> (nat \<Rightarrow> bytes)) option \<Rightarrow> (nat \<Rightarrow> bytes) option" where
  "follows nxt = map_option snd nxt"

definition save_finish ::
  "ExifByteOrder \<Rightarrow> (nat \<Rightarrow> u32 \<Rightarrow> Out \<Rightarrow> Out option) \<Rightarrow> (nat \<times> (nat \<Rightarrow> bytes)) option \<Rightarrow> nat \<Rightarrow> u32 \<Rightarrow> Out \<Rightarrow> Out option" where
  "save_finish ord sub nxt n offset out =
    (case nxt of
       None \<Rightarrow> save_end ord offset n 0 out
     | Some (j, lay) \<Rightarrow> do { out \<leftarrow> save_end ord offset n (o_ds out - 6) out; sub j (o_ds out - 6) out })"

lemma save_finish_eq:
  assumes "case nxt of None \<Rightarrow> True | Some (j, lay) \<Rightarrow> saves (sub j) lay" and "records rs" and "n = length rs"
    and "length d + 2 + 12 * n = 6 + unat offset" and "14 \<le> length d"
    and "L = length d + 6 + 12 * n + length tail"
    and "L + length (case nxt of None \<Rightarrow> [] | Some (j, lay) \<Rightarrow> lay L) < 2 ^ 32"
  shows "\<exists>c'. save_finish ord sub nxt n offset (out_of (d @ enc16 ord (of_nat n) @ concat rs @ replicate 4 0 @ tail) c)
    = Some (out_of (d @ dir_bytes ord rs (case nxt of None \<Rightarrow> 0 | Some _ \<Rightarrow> of_nat (L - 6)) @ tail
        @ (case nxt of None \<Rightarrow> [] | Some (j, lay) \<Rightarrow> lay L)) c')"
proof -
  have e: "save_end ord offset n v (out_of (d @ enc16 ord (of_nat n) @ concat rs @ replicate 4 0 @ tail) c)
      = Some (out_of (d @ dir_bytes ord rs v @ tail) c)" for v
    using save_end_eq [OF assms(2), of "replicate 4 0" "d @ enc16 ord (of_nat n)" offset n ord v tail c] assms(3,4)
    by (simp add: dir_bytes_def eshort.enc_length)
  have len: "length (d @ enc16 ord (of_nat n) @ concat rs @ replicate 4 0 @ tail) = L" "length (d @ dir_bytes ord rs v @ tail) = L" for v
    using assms(2,3,6) by (simp_all add: dir_bytes_def eshort.enc_length elong.enc_length length_concat_records list_all_sort)
  have m: "(of_nat L :: u32) - 6 = of_nat (L - 6)" using assms(5,6) by (intro minus_6) simp
  show ?thesis
  proof (cases nxt)
    case None
    then show ?thesis using e by (auto simp: save_finish_def)
  next
    case (Some x)
    obtain j lay where x: "x = (j, lay)" by (cases x)
    let ?d = "d @ dir_bytes ord rs (of_nat (L - 6)) @ tail"
    have "saves (sub j) lay" "14 \<le> L" "L + length (lay L) < 2 ^ 32" using assms(1,5-7) Some x by auto
    then obtain c' where sb: "sub j (of_nat (L - 6)) (out_of ?d c) = Some (out_of (?d @ lay L) c')"
      using savesD [OF _ len(2)] by blast
    show ?thesis
      unfolding Some x
      by (intro exI [of _ c'])
         (simp only: save_finish_def option.case prod.case out_of_simps len m e sb Option.bind.simps append_assoc)
  qed
qed

lemma records_entry_slots: "list_all entry_fit es \<Longrightarrow> records (entry_slots ord L es)"
  by (induction ord L es rule: entry_slots.induct) simp_all

text \<open>A directory that is entries and pointers to other directories.\<close>

lemma saves_dir:
  assumes al: "plenty al" and i: "i < EXIF_IFD_COUNT" and fit: "dir_fit data i"
    and sp: "\<And>n offset out. save_specials al data sub i n offset out =
       do { (offset, out) \<leftarrow> save_subs (ed_order data) sub ps (offset, out); save_finish (ed_order data) sub nxt n offset out }"
    and ps: "saves_all sub ps" "n_extra data i = length (needed ps)"
    and nxt: "case nxt of None \<Rightarrow> True | Some (j, lay) \<Rightarrow> saves (sub j) lay"
  shows "saves (save_content al data sub i) (layout (ed_order data) (entries_of data i) (needed ps) [] (follows nxt))"
  unfolding saves_def
proof (intro allI impI)
  fix d :: bytes and c
  let ?ord = "ed_order data"
  define es where "es = entries_of data i"
  define n where "n = length es + length (needed ps)"
  let ?L1 = "length d + 6 + 12 * n"
  let ?L2 = "?L1 + length (entry_exts es)"
  let ?sb = "sub_bytes ?L2 (needed ps)"
  let ?L3 = "?L2 + length ?sb"
  let ?rs = "entry_slots ?ord ?L1 es @ sub_slots ?ord ?L2 (needed ps)"
  let ?fo = "case nxt of None \<Rightarrow> [] | Some (j, lay) \<Rightarrow> lay ?L3"
  let ?nv = "case nxt of None \<Rightarrow> 0 | Some _ \<Rightarrow> of_nat (?L3 - 6)"
  assume d: "14 \<le> length d" and small: "length d + length (layout ?ord (entries_of data i) (needed ps) [] (follows nxt) (length d)) < 2 ^ 32"
  have fits: "list_all entry_fit es" using dir_fitD(2) [OF fit] by (simp add: es_def)
  have rs: "records ?rs" "length ?rs = n"
    using records_entry_slots [OF fits] records_sub_slots by (simp_all add: n_def)
  have lay: "layout ?ord (entries_of data i) (needed ps) [] (follows nxt) (length d) = dir_bytes ?ord ?rs ?nv @ entry_exts es @ ?sb @ ?fo"
    by (cases nxt) (auto simp: layout_def Let_def es_def n_def follows_def)
  have bound: "?L3 + length ?fo < 2 ^ 32"
    using small rs unfolding lay
    by (simp add: dir_bytes_def eshort.enc_length elong.enc_length length_concat_records list_all_sort)
  define offset :: u32 where "offset = of_nat (length d - 4 + 12 * length es)"
  have off: "unat offset = length d - 4 + 12 * length es"
    using bound by (simp add: offset_def n_def unat_word_of_nat_32 del: of_nat_add of_nat_mult)
  let ?pre = "d @ enc16 ?ord (of_nat n) @ concat (entry_slots ?ord ?L1 es)"
  let ?post = "replicate 4 0 @ entry_exts es"
  let ?d = "?pre @ replicate (12 * length (needed ps)) 0 @ ?post"
  have pre: "length ?pre = 6 + unat offset" and ld: "length ?d = ?L2"
    using off d fits by (simp_all add: eshort.enc_length length_concat_slots n_def)
  obtain c1 where b: "save_content al data sub i (of_nat (length d - 6)) (out_of d c) = save_specials al data sub i n offset (out_of ?d c1)"
    using save_content_begin [OF al i fit d es_def, of n sub c] bound ps(2) by (auto simp: n_def offset_def)
  have "\<exists>c'. save_subs ?ord sub ps (offset, out_of ?d c1) = Some (offset + of_nat (12 * length (needed ps)),
      out_of (?pre @ concat (sub_slots ?ord (length ?d) (needed ps)) @ ?post @ sub_bytes (length ?d) (needed ps)) c')"
  proof (rule save_subs_eq [OF ps(1) _ pre refl])
    show "14 \<le> length ?d" "length ?d + length (sub_bytes (length ?d) (needed ps)) < 2 ^ 32"
      unfolding ld using bound d by simp_all
  qed simp
  then obtain c2 where s: "save_subs ?ord sub ps (offset, out_of ?d c1) = Some (offset + of_nat (12 * length (needed ps)),
      out_of (d @ enc16 ?ord (of_nat n) @ concat ?rs @ replicate 4 0 @ (entry_exts es @ ?sb)) c2)"
    unfolding ld by auto
  have "unat (offset + of_nat (12 * length (needed ps))) = length d - 4 + 12 * n"
    using bound off by (simp add: unat_word_ariths unsigned_of_nat take_bit_nat_eq_self n_def del: of_nat_mult)
  then obtain c' where "save_finish ?ord sub nxt n (offset + of_nat (12 * length (needed ps)))
      (out_of (d @ enc16 ?ord (of_nat n) @ concat ?rs @ replicate 4 0 @ (entry_exts es @ ?sb)) c2)
    = Some (out_of (d @ dir_bytes ?ord ?rs ?nv @ (entry_exts es @ ?sb) @ ?fo) c')"
    using save_finish_eq [OF nxt rs(1) rs(2) [symmetric], of d "offset + of_nat (12 * length (needed ps))" ?L3 "entry_exts es @ ?sb" ?ord c2] bound d
    by auto
  then show "\<exists>c'. save_content al data sub i (of_nat (length d - 6)) (out_of d c)
      = Some (out_of (d @ layout ?ord (entries_of data i) (needed ps) [] (follows nxt) (length d)) c')"
    unfolding b sp s lay by (auto simp del: concat_append)
qed

section \<open>The file\<close>

definition lay_leaf :: "ExifData \<Rightarrow> nat \<Rightarrow> nat \<Rightarrow> bytes" where
  "lay_leaf data i = layout (ed_order data) (entries_of data i) [] [] None"

definition lay_exif :: "ExifData \<Rightarrow> nat \<Rightarrow> bytes" where
  "lay_exif data = layout (ed_order data) (entries_of data IFD_EXIF)
     (if ifd_count data IFD_INTEROPERABILITY \<noteq> 0
      then [(TAG_INTEROPERABILITY_IFD_POINTER, lay_leaf data IFD_INTEROPERABILITY)] else []) [] None"

definition lay_1 :: "ExifData \<Rightarrow> nat \<Rightarrow> bytes" where
  "lay_1 data = layout (ed_order data) (entries_of data IFD_1)
     (if ed_size data \<noteq> 0 then [(TAG_JPEG_INTERCHANGE_FORMAT, \<lambda>_. bbytes (ed_data data))] else [])
     (if ed_size data \<noteq> 0 then [(TAG_JPEG_INTERCHANGE_FORMAT_LENGTH, ed_size data)] else []) None"

definition lay_0 :: "ExifData \<Rightarrow> nat \<Rightarrow> bytes" where
  "lay_0 data = layout (ed_order data) (entries_of data IFD_0)
     ((if ifd_count data IFD_EXIF \<noteq> 0 \<or> ifd_count data IFD_INTEROPERABILITY \<noteq> 0
       then [(TAG_EXIF_IFD_POINTER, lay_exif data)] else []) @
      (if ifd_count data IFD_GPS \<noteq> 0 then [(TAG_GPS_INFO_IFD_POINTER, lay_leaf data IFD_GPS)] else [])) []
     (if ifd_count data IFD_1 \<noteq> 0 \<or> ed_size data \<noteq> 0 then Some (lay_1 data) else None)"

definition file_head :: "ExifByteOrder \<Rightarrow> bytes" where
  "file_head ord = ExifHeader @ (if ord = EXIF_BYTE_ORDER_INTEL then [0x49, 0x49] else [0x4d, 0x4d])
     @ enc16 ord 0x002a @ enc32 ord 8"

definition file_bytes :: "ExifData \<Rightarrow> bytes" where
  "file_bytes data = file_head (ed_order data) @ lay_0 data 14"

lemma saves_leaf:
  assumes "plenty al" and "dir_fit data i" and "i = IFD_GPS \<or> i = IFD_INTEROPERABILITY"
  shows "saves (save_content al data sub i) (lay_leaf data i)"
  using saves_dir [OF assms(1) _ assms(2), of sub "[]" None] assms(3)
  by (auto simp: save_specials_def save_subs_def save_finish_def saves_all_def n_extra_def needed_def follows_def lay_leaf_def)

lemma needed_Cons: "needed ((b, tag, j, lay) # ps) = (if b then [(tag, lay)] else []) @ needed ps" "needed [] = []"
  by (simp_all add: needed_def)

lemma saves_exif:
  assumes "plenty al" and "dir_fit data IFD_EXIF" and "saves (sub IFD_INTEROPERABILITY) (lay_leaf data IFD_INTEROPERABILITY)"
  shows "saves (save_content al data sub IFD_EXIF) (lay_exif data)"
proof -
  let ?ps = "[(ifd_count data IFD_INTEROPERABILITY \<noteq> 0, TAG_INTEROPERABILITY_IFD_POINTER, IFD_INTEROPERABILITY,
    lay_leaf data IFD_INTEROPERABILITY)]"
  have "save_specials al data sub IFD_EXIF n offset out =
      do { (offset, out) \<leftarrow> save_subs (ed_order data) sub ?ps (offset, out); save_finish (ed_order data) sub None n offset out }" for n offset out
    by (simp add: save_specials_def save_subs_def save_finish_def)
  from saves_dir [OF assms(1) _ assms(2) this] show ?thesis
    using assms(3) by (simp add: saves_all_def n_extra_def needed_Cons follows_def lay_exif_def split: if_splits)
qed

lemma saves_0:
  assumes "plenty al" and "dir_fit data IFD_0" and "saves (sub IFD_EXIF) (lay_exif data)"
    and "saves (sub IFD_GPS) (lay_leaf data IFD_GPS)" and "saves (sub IFD_1) (lay_1 data)"
  shows "saves (save_content al data sub IFD_0) (lay_0 data)"
proof -
  let ?b = "ifd_count data IFD_EXIF \<noteq> 0 \<or> ifd_count data IFD_INTEROPERABILITY \<noteq> 0"
  let ?ps = "[(?b, TAG_EXIF_IFD_POINTER, IFD_EXIF, lay_exif data),
    (ifd_count data IFD_GPS \<noteq> 0, TAG_GPS_INFO_IFD_POINTER, IFD_GPS, lay_leaf data IFD_GPS)]"
  let ?nxt = "if ifd_count data IFD_1 \<noteq> 0 \<or> ed_size data \<noteq> 0 then Some (IFD_1, lay_1 data) else None"
  have "save_specials al data sub IFD_0 n offset out =
      do { (offset, out) \<leftarrow> save_subs (ed_order data) sub ?ps (offset, out); save_finish (ed_order data) sub ?nxt n offset out }" for n offset out
    by (simp add: save_specials_def save_subs_def save_finish_def split_def)
  from saves_dir [OF assms(1) _ assms(2) this] show ?thesis
    using assms(3-5)
    by (auto simp: saves_all_def n_extra_def needed_Cons follows_def lay_0_def)
qed

lemma save_thumbnail_eq:
  assumes "plenty al" and "ed_data data = Buf t" and "length t = unat (ed_size data)"
    and "length hole = 24" and "length pre = 6 + unat offset" and "d = pre @ hole @ post" and "length d + length t < 2 ^ 32"
  shows "\<exists>c'. save_thumbnail al data offset (out_of d c) = Some (True, out_of (pre
      @ pointer_slot (ed_order data) TAG_JPEG_INTERCHANGE_FORMAT (of_nat (length d - 6))
      @ pointer_slot (ed_order data) TAG_JPEG_INTERCHANGE_FORMAT_LENGTH (ed_size data) @ post @ t) c')"
proof -
  let ?ord = "ed_order data"
  let ?r = "pointer_slot ?ord TAG_JPEG_INTERCHANGE_FORMAT (of_nat (length d - 6))"
  let ?d1 = "pre @ ?r @ (drop 12 hole @ post)"
  have l1: "length ?d1 = length d" using assms(4,6) by simp
  have h: "d = pre @ take 12 hole @ (drop 12 hole @ post)" using assms(6) by simp
  have m: "(of_nat (length d) :: u32) - 6 = of_nat (length d - 6)" using assms(5,6) by (intro minus_6) simp
  have p1: "save_pointer ?ord offset TAG_JPEG_INTERCHANGE_FORMAT (of_nat (length d - 6)) (out_of d c) = Some (out_of ?d1 c)"
    using save_pointer_eq [of "take 12 hole" pre offset ?ord TAG_JPEG_INTERCHANGE_FORMAT "of_nat (length d - 6)" "drop 12 hole @ post"
        "of_nat (length d)" c] assms(4,5)
    unfolding out_of_def l1 h [symmetric] by simp
  define ts :: u32 where "ts = of_nat (length d) + ed_size data"
  have ts: "ts = of_nat (length d + length t)" by (simp add: ts_def assms(3))
  have uts: "unat ts = length d + length t" unfolding ts by (rule unat_word_of_nat_32) (rule assms(7))
  have r: "exif_mem_realloc al ts (out_of ?d1 c)
      = (True, \<lparr>o_d = Buf (?d1 @ replicate (length t) 0), o_ds = of_nat (length d), o_clock = c + 1\<rparr>)"
    using realloc_grow [OF assms(1), of ?d1 ts "of_nat (length d)" c] uts unfolding out_of_def l1 by simp
  have w: "wr_range (Buf (?d1 @ replicate (length t) 0)) (unat ts - unat (ed_size data)) t = Some (Buf (?d1 @ t))"
    using wr_range_mid [of t "replicate (length t) 0" "length d" ?d1 "[]"] l1 uts assms(3) by simp
  have rd: "rd_range (ed_data data) 0 (unat (ed_size data)) = Some t" using assms(2,3) by simp
  let ?d2 = "pre @ ?r @ pointer_slot ?ord TAG_JPEG_INTERCHANGE_FORMAT_LENGTH (ed_size data) @ post @ t"
  have l2: "length ?d2 = length d + length t" using assms(4,6) by simp
  have "unat (offset + 12) = unat offset + 12" using assms(4-7) by (simp add: unat_word_ariths)
  then have p2: "save_pointer ?ord (offset + 12) TAG_JPEG_INTERCHANGE_FORMAT_LENGTH (ed_size data)
      \<lparr>o_d = Buf (?d1 @ t), o_ds = ts, o_clock = c + 1\<rparr> = Some (out_of ?d2 (c + 1))"
    using save_pointer_eq [of "drop 12 hole" "pre @ ?r" "offset + 12" ?ord TAG_JPEG_INTERCHANGE_FORMAT_LENGTH "ed_size data" "post @ t"
        ts "c + 1"] assms(4,5)
    unfolding out_of_def l2 ts by simp
  show ?thesis
    by (intro exI [of _ "c + 1"])
       (simp only: save_thumbnail_def out_of_simps m p1 Option.bind.simps Let_def l1 ts_def [symmetric] r prod.case bool.case rd Out.simps w p2)
qed

lemma saves_1_thumb:
  assumes al: "plenty al" and fit: "dir_fit data IFD_1" and t: "ed_data data = Buf t" "length t = unat (ed_size data)"
    and sz: "ed_size data \<noteq> 0"
  shows "saves (save_content al data sub IFD_1) (lay_1 data)"
  unfolding saves_def
proof (intro allI impI)
  fix d :: bytes and c
  let ?ord = "ed_order data"
  define es where "es = entries_of data IFD_1"
  define n where "n = length es + 2"
  let ?L1 = "length d + 6 + 12 * n"
  let ?L2 = "?L1 + length (entry_exts es)"
  let ?ts = "[pointer_slot ?ord TAG_JPEG_INTERCHANGE_FORMAT (of_nat (?L2 - 6)), pointer_slot ?ord TAG_JPEG_INTERCHANGE_FORMAT_LENGTH (ed_size data)]"
  let ?rs = "entry_slots ?ord ?L1 es @ ?ts"
  assume d: "14 \<le> length d" and small: "length d + length (lay_1 data (length d)) < 2 ^ 32"
  have fits: "list_all entry_fit es" using dir_fitD(2) [OF fit] by (simp add: es_def)
  have rs: "records ?rs" "length ?rs = n" using records_entry_slots [OF fits] by (simp_all add: n_def)
  have lay: "lay_1 data (length d) = dir_bytes ?ord ?rs 0 @ entry_exts es @ t"
    using sz t(1) by (simp add: lay_1_def layout_def Let_def es_def n_def)
  have bound: "?L2 + length t < 2 ^ 32"
    using small rs unfolding lay
    by (simp add: dir_bytes_def eshort.enc_length elong.enc_length length_concat_records list_all_sort)
  define offset :: u32 where "offset = of_nat (length d - 4 + 12 * length es)"
  have off: "unat offset = length d - 4 + 12 * length es"
    using bound by (simp add: offset_def n_def unat_word_of_nat_32 del: of_nat_add of_nat_mult)
  let ?pre = "d @ enc16 ?ord (of_nat n) @ concat (entry_slots ?ord ?L1 es)"
  let ?post = "replicate 4 0 @ entry_exts es"
  let ?d = "?pre @ replicate 24 0 @ ?post"
  have pre: "length ?pre = 6 + unat offset" and ld: "length ?d = ?L2"
    using off d fits by (simp_all add: eshort.enc_length length_concat_slots n_def)
  have nx: "n_extra data IFD_1 = 2" using sz by (simp add: n_extra_def)
  obtain c1 where b: "save_content al data sub IFD_1 (of_nat (length d - 6)) (out_of d c) = save_specials al data sub IFD_1 n offset (out_of ?d c1)"
    using save_content_begin [OF al _ fit d es_def, of n sub c] bound nx by (auto simp: n_def offset_def)
  have "\<exists>c'. save_thumbnail al data offset (out_of ?d c1) = Some (True, out_of (?pre
      @ pointer_slot ?ord TAG_JPEG_INTERCHANGE_FORMAT (of_nat (length ?d - 6))
      @ pointer_slot ?ord TAG_JPEG_INTERCHANGE_FORMAT_LENGTH (ed_size data) @ ?post @ t) c')"
  proof (rule save_thumbnail_eq [OF al t _ pre refl])
    show "length ?d + length t < 2 ^ 32" unfolding ld by (rule bound)
  qed simp
  then obtain c2 where s: "save_thumbnail al data offset (out_of ?d c1)
      = Some (True, out_of (d @ enc16 ?ord (of_nat n) @ concat ?rs @ replicate 4 0 @ (entry_exts es @ t)) c2)"
    unfolding ld by auto
  have sp: "save_specials al data sub IFD_1 n offset out = do { (go, out) \<leftarrow> save_thumbnail al data offset out;
      if go then save_finish ?ord sub None n (offset + 24) out else Some out }" for out
    using sz by (simp add: save_specials_def save_finish_def cong: if_cong)
  have "unat (offset + 24) = length d - 4 + 12 * n"
    using bound off by (simp add: unat_word_ariths n_def)
  then obtain c' where "save_finish ?ord sub None n (offset + 24)
      (out_of (d @ enc16 ?ord (of_nat n) @ concat ?rs @ replicate 4 0 @ (entry_exts es @ t)) c2)
    = Some (out_of (d @ dir_bytes ?ord ?rs 0 @ (entry_exts es @ t) @ []) c')"
    using save_finish_eq [of sub None ?rs n d "offset + 24" _ "entry_exts es @ t" ?ord c2, OF _ rs(1) rs(2) [symmetric] _ d refl] bound d
    by auto
  then show "\<exists>c'. save_content al data sub IFD_1 (of_nat (length d - 6)) (out_of d c) = Some (out_of (d @ lay_1 data (length d)) c')"
    unfolding b lay sp s by (simp only: Option.bind.simps prod.case if_True append_Nil2 append_assoc) blast
qed

lemma saves_1:
  assumes al: "plenty al" and fit: "dir_fit data IFD_1" and th: "thumb_ok data"
  shows "saves (save_content al data sub IFD_1) (lay_1 data)"
proof (cases "ed_size data = 0")
  case True
  then show ?thesis
    using saves_dir [OF al _ fit, of sub "[]" None]
    by (simp add: save_specials_def save_subs_def save_finish_def saves_all_def n_extra_def needed_Cons follows_def lay_1_def)
next
  case False
  then obtain t where "ed_data data = Buf t" "length t = unat (ed_size data)" using th by (auto simp: thumb_ok_def)
  then show ?thesis using saves_1_thumb [OF al fit _ _ False] by blast
qed

lemma save_content_eq:
  assumes "plenty al" and "data_ok data"
  shows "saves (exif_data_save_data_content al data IFD_0) (lay_0 data)"
proof -
  have fit: "dir_fit data i" if "i < EXIF_IFD_COUNT" for i using data_ok_fit [OF assms(2) that] .
  have th: "thumb_ok data" using assms(2) by (simp add: data_ok_def)
  note leaf = saves_leaf [OF assms(1) fit]
  show ?thesis
    unfolding exif_data_save_data_content_def save_levels.simps(2)
    by (intro saves_0 saves_exif saves_1 leaf fit assms(1) th) simp_all
qed

lemma save_data_eq:
  assumes "plenty al" and "data_ok data" and "length (file_bytes data) < 2 ^ 32"
  shows "exif_data_save_data al data = Some (Buf (file_bytes data), of_nat (length (file_bytes data)))"
proof -
  let ?ord = "ed_order data"
  have hd: "length (file_head ?ord) = 14"
    by (simp add: file_head_def ExifHeader_def eshort.enc_length elong.enc_length)
  define data1 where "data1 = data\<lparr>ed_store := (ed_store data)\<lparr>st_clock := st_clock (ed_store data) + 1\<rparr>\<rparr>"
  have a: "exif_data_alloc al 14 data = (Buf (replicate 14 0), data1)"
    using assms(1) by (simp add: exif_data_alloc_cases plenty_def data1_def)
  have "ifds_ok (ed_ifd data1) (ed_store data1) {}"
    using assms(2) ifds_ok_clock [of "ed_ifd data" "ed_store data" "{}" "ed_store data1"] by (simp add: data_ok_def data1_def)
  then have ok: "data_ok data1" using assms(2) by (simp add: data_ok_def data1_def thumb_ok_def)
  have same: "lay_0 data1 = lay_0 data" "ed_order data1 = ?ord"
    by (simp_all add: data1_def lay_0_def lay_1_def lay_exif_def lay_leaf_def entries_of_def)
  have w: "wr_range (Buf (replicate 14 0)) 0 ExifHeader = Some (Buf (ExifHeader @ replicate 8 0))"
    by (simp add: ExifHeader_def)
  let ?o = "if ?ord = EXIF_BYTE_ORDER_INTEL then [0x49, 0x49] else [0x4d, 0x4d]"
  have w2: "wr_range (Buf (ExifHeader @ replicate 8 0)) 6 ?o = Some (Buf (ExifHeader @ ?o @ replicate 6 0))"
    by (simp add: ExifHeader_def numeral_eq_Suc)
  have w3: "exif_set_short (Buf (ExifHeader @ ?o @ replicate 6 0)) 8 ?ord 0x002a = Some (Buf (ExifHeader @ ?o @ enc16 ?ord 0x002a @ replicate 4 0))"
    unfolding eshort.set_eq by (simp add: ExifHeader_def numeral_eq_Suc eshort.enc_length [simplified numeral_eq_Suc])
  have w4: "exif_set_long (Buf (ExifHeader @ ?o @ enc16 ?ord 0x002a @ replicate 4 0)) 10 ?ord 8 = Some (Buf (file_head ?ord))"
    using wr_range_mid [of "enc32 ?ord 8" "replicate 4 0" 10 "ExifHeader @ ?o @ enc16 ?ord 0x002a" "[]"]
    by (simp add: elong.set_eq file_head_def ExifHeader_def eshort.enc_length elong.enc_length)
  have "14 + length (lay_0 data 14) < 2 ^ 32" using assms(3) hd by (simp add: file_bytes_def)
  then obtain c where s: "exif_data_save_data_content al data1 IFD_0 (of_nat (14 - 6)) (out_of (file_head ?ord) (st_clock (ed_store data1)))
      = Some (out_of (file_bytes data) c)"
    using savesD [OF save_content_eq [OF assms(1) ok] hd] unfolding same file_bytes_def by auto
  have o: "(14 - 6 :: u32) = of_nat (14 - 6)" "\<lparr>o_d = Buf (file_head ?ord), o_ds = 14, o_clock = k\<rparr> = out_of (file_head ?ord) k" for k
    by (simp_all add: out_of_def hd)
  show ?thesis
    unfolding exif_data_save_data_def a prod.case same
    by (simp only: cbuf.distinct if_False w w2 w3 w4 Option.bind.simps o s out_of_simps)
qed

text \<open>A camera's file: a manufacturer, an EXIF version, a GPS reference and a thumbnail of three bytes.\<close>

definition sample_entry :: "nat \<Rightarrow> u16 \<Rightarrow> u16 \<Rightarrow> bytes \<Rightarrow> ExifEntry" where
  "sample_entry i t f b = \<lparr>e_tag = t, e_format = f, e_components = of_nat (length b), e_data = Buf b, e_size = of_nat (length b),
     e_parent = Some i, e_ref_count = 1\<rparr>"

definition sample_data :: ExifData where
  "sample_data = \<lparr>ed_ifd = [\<lparr>c_entries = [1]\<rparr>, \<lparr>c_entries = []\<rparr>, \<lparr>c_entries = [2]\<rparr>, \<lparr>c_entries = [3]\<rparr>, \<lparr>c_entries = []\<rparr>],
     ed_data = Buf [0xff, 0xd8, 0xff], ed_size = 3, ed_order = EXIF_BYTE_ORDER_INTEL, ed_offset_mnote = 0, ed_options = 3,
     ed_data_type = EXIF_DATA_TYPE_COUNT,
     ed_store = \<lparr>st_heap = [1 \<mapsto> sample_entry 0 0x10f 2 [0x43, 0x61, 0x6e, 0x6f, 0x6e, 0],
       2 \<mapsto> sample_entry 2 0x9000 7 [0x30, 0x32, 0x32, 0x30], 3 \<mapsto> sample_entry 3 1 2 [0x4e, 0]], st_clock = 4\<rparr>\<rparr>"

lemma all_ifds: "(\<forall>i < EXIF_IFD_COUNT. P i) \<longleftrightarrow> P 0 \<and> P 1 \<and> P 2 \<and> P 3 \<and> P 4"
  by (auto simp: numeral_eq_Suc All_less_Suc)

lemma sample_entry_ok:
  assumes "exif_format_get_size f = 1" and "0 < length b" and "length b < 2 ^ 32"
  shows "entry_ok (sample_entry i t f b)"
  using assms by (simp add: entry_ok_def sample_entry_def unat_word_of_nat_32)

lemma sample_sizes: "exif_format_get_size 2 = 1" "exif_format_get_size 7 = 1"
  by code_simp+

lemma sample_data_ok: "data_ok sample_data"
  unfolding data_ok_def
proof
  show "ifds_ok (ed_ifd sample_data) (ed_store sample_data) {}"
    unfolding ifds_ok_def all_ifds
  proof (intro conjI)
    show "dom (st_heap (ed_store sample_data)) = (\<Union>i < EXIF_IFD_COUNT. set (c_entries (ed_ifd sample_data ! i))) \<union> {}"
      by (auto simp: sample_data_def numeral_eq_Suc lessThan_Suc)
  qed (simp_all add: sample_data_def content_ok_def held_def sample_entry_ok sample_sizes,
      simp_all add: sample_entry_def)
  show "thumb_ok sample_data" by (simp add: sample_data_def thumb_ok_def)
qed

lemma sample_length: "length (file_bytes sample_data) = 131"
  by code_simp

text \<open>
  C16. Saving writes exactly the file that the layout describes: the header, then every directory
  with its records sorted by tag and its offsets pointing to the data behind it, the thumbnail and
  the directories it points to. All the writing goes on inside the block as it grows.
\<close>

theorem save_data_layout:
  assumes "plenty al" and "data_ok data" and "length (file_bytes data) < 2 ^ 32"
  shows "exif_data_save_data al data = Some (Buf (file_bytes data), of_nat (length (file_bytes data)))"
  using assms by (rule save_data_eq)

theorem save_data_layout_witness:
  "exif_data_save_data mem_ok sample_data = Some (Buf (file_bytes sample_data), 131)"
  using save_data_layout [of mem_ok sample_data] sample_data_ok by (simp add: sample_length plenty_def mem_ok_def)


end
