(* ===== verification/Exif_Fix.thy ===== *)
theory Exif_Fix
  imports Exif_Entry Exif_Save
begin

text \<open>
  Whole images: \<open>exif_content_fix\<close> in \<^verbatim>\<open>libexifa/exif-content.c\<close> and the rest of
  \<^verbatim>\<open>libexifa/exif-data.c\<close>: the correction after loading, the change of the byte order, the removal of the
  thumbnail and the release of everything. The maker note stays uninterpreted: \<open>priv->md\<close> is a null
  pointer. \<open>now\<close> is the broken-down local time.
\<close>

section \<open>Correcting a directory\<close>

text \<open>\<open>exif_content_foreach_entry (c, fix_func, NULL)\<close>.\<close>

definition fix_entries :: "alloc \<Rightarrow> ExifByteOrder \<Rightarrow> nat list \<Rightarrow> Store \<Rightarrow> Store option" where
  "fix_entries al ord =
    foldM (\<lambda>a s. do { e \<leftarrow> st_heap s a;
                      (e, k) \<leftarrow> exif_entry_fix al ord e (st_clock s);
                      Some (put_entry a e (s\<lparr>st_clock := k\<rparr>)) })"

text \<open>\<open>exif_entry_new\<close> asks for a memory manager of 16 bytes first.\<close>

definition exif_entry_new :: "alloc \<Rightarrow> Store \<Rightarrow> nat option \<times> Store" where
  "exif_entry_new al s =
    (case exif_mem_alloc al 16 s of (None, s) \<Rightarrow> (None, s) | (Some _, s) \<Rightarrow> exif_entry_new_mem al s)"

definition initialize_at :: "alloc \<Rightarrow> tm \<Rightarrow> ExifByteOrder \<Rightarrow> u16 \<Rightarrow> nat option \<Rightarrow> Store \<Rightarrow> Store option" where
  "initialize_at al now ord tag p s =
    (case p of
       None \<Rightarrow> Some s
     | Some a \<Rightarrow> do { e \<leftarrow> st_heap s a;
                      (e, k) \<leftarrow> exif_entry_initialize al now ord tag e (st_clock s);
                      Some (put_entry a e (s\<lparr>st_clock := k\<rparr>)) })"

definition add_mandatory ::
  "alloc \<Rightarrow> tm \<Rightarrow> ExifByteOrder \<Rightarrow> nat \<Rightarrow> u16 \<Rightarrow> ExifContent \<times> Store \<Rightarrow> (ExifContent \<times> Store) option" where
  "add_mandatory al now ord ifd t = (\<lambda>(c, s).
    do { known \<leftarrow> exif_content_get_entry s c t;
         if known \<noteq> None then Some (c, s)
         else case exif_entry_new al s of
           (entry, s) \<Rightarrow>
             do { (c, s) \<leftarrow> exif_content_add_entry al ifd entry (c, s);
                  s \<leftarrow> initialize_at al now ord t entry s;
                  s \<leftarrow> exif_entry_unref entry s;
                  Some (c, s) } })"

definition exif_content_fix ::
  "alloc \<Rightarrow> tm \<Rightarrow> ExifByteOrder \<Rightarrow> nat \<Rightarrow> nat \<Rightarrow> ExifContent \<times> Store \<Rightarrow> (ExifContent \<times> Store) option" where
  "exif_content_fix al now ord dt ifd = (\<lambda>(c, s).
    do { s \<leftarrow> fix_entries al ord (c_entries c) s;
         cs \<leftarrow> remove_all_not_recorded al ifd dt (c, s);
         foldM (\<lambda>i cs. let t = exif_tag_table_get_tag i in
                 if exif_tag_get_support_level_in_ifd t ifd dt = SL_MANDATORY
                 then add_mandatory al now ord ifd (of_nat t) cs else Some cs)
           [0..<exif_tag_table_count] cs })"

section \<open>Correcting an image\<close>

lemma remove_entry_count:
  "exif_content_remove_entry al p a cs = Some cs' \<Longrightarrow> length (c_entries (fst cs')) \<le> length (c_entries (fst cs))"
  by (auto simp: exif_content_remove_entry_def remove_at_def Let_def split: prod.splits option.splits if_splits bind_splits)

text \<open>The entries of a thumbnail that is not there are removed from the last on; if that fails, the count is lowered.\<close>

function remove_entries :: "alloc \<Rightarrow> nat \<Rightarrow> ExifContent \<times> Store \<Rightarrow> (ExifContent \<times> Store) option" where
  "remove_entries al p cs =
    (if c_entries (fst cs) = [] then Some cs
     else do { cs' \<leftarrow> exif_content_remove_entry al p (Some (last (c_entries (fst cs)))) cs;
               remove_entries al p
                 (if length (c_entries (fst cs')) = length (c_entries (fst cs))
                  then ((fst cs')\<lparr>c_entries := butlast (c_entries (fst cs'))\<rparr>, snd cs') else cs') })"
  by pat_completeness auto
termination
  by (relation "measure (\<lambda>(al, p, cs). length (c_entries (fst cs)))") (auto dest!: remove_entry_count)

declare remove_entries.simps [simp del]

definition fix_func :: "alloc \<Rightarrow> tm \<Rightarrow> nat \<Rightarrow> ExifData \<Rightarrow> ExifData option" where
  "fix_func al now i data =
    do { (c, s) \<leftarrow> (if i = IFD_1 \<and> ed_data data = NULL
           then remove_entries al i (ed_ifd data ! i, ed_store data)
           else exif_content_fix al now (ed_order data) (ed_data_type data) i (ed_ifd data ! i, ed_store data));
         Some (data\<lparr>ed_ifd := (ed_ifd data)[i := c], ed_store := s\<rparr>) }"

definition exif_data_fix :: "alloc \<Rightarrow> tm \<Rightarrow> ExifData \<Rightarrow> ExifData option" where
  "exif_data_fix al now = foldM (fix_func al now) [0..<EXIF_IFD_COUNT]"

definition exif_data_load_data :: "alloc \<Rightarrow> tm \<Rightarrow> cbuf \<Rightarrow> u32 \<Rightarrow> ExifData \<Rightarrow> ExifData option" where
  "exif_data_load_data al now d ds data =
    do { (data, go) \<leftarrow> load_data_ifds al d ds data;
         if go \<and> ed_options data AND OPTION_FOLLOW_SPECIFICATION \<noteq> 0 then exif_data_fix al now data else Some data }"

definition exif_data_new :: "alloc \<Rightarrow> Store \<Rightarrow> ExifData option" where
  "exif_data_new al s =
    (case exif_mem_alloc al 16 s of (None, s) \<Rightarrow> None | (Some _, s) \<Rightarrow> exif_data_new_mem al s)"

definition exif_data_new_from_data :: "alloc \<Rightarrow> tm \<Rightarrow> cbuf \<Rightarrow> u32 \<Rightarrow> Store \<Rightarrow> ExifData option option" where
  "exif_data_new_from_data al now d ds s =
    (case exif_data_new al s of
       None \<Rightarrow> Some None
     | Some data \<Rightarrow> do { data \<leftarrow> exif_data_load_data al now d ds data; Some (Some data) })"

section \<open>The byte order\<close>

definition entry_set_byte_order :: "ExifByteOrder \<Rightarrow> ExifByteOrder \<Rightarrow> nat \<Rightarrow> Store \<Rightarrow> Store option" where
  "entry_set_byte_order o_old o_new a s =
    do { e \<leftarrow> st_heap s a;
         d \<leftarrow> exif_array_set_byte_order (e_format e) (e_data e) (e_components e) o_old o_new;
         Some (put_entry a (e\<lparr>e_data := d\<rparr>) s) }"

definition content_set_byte_order :: "ExifByteOrder \<Rightarrow> ExifByteOrder \<Rightarrow> ExifContent \<Rightarrow> Store \<Rightarrow> Store option" where
  "content_set_byte_order o_old o_new c = foldM (entry_set_byte_order o_old o_new) (c_entries c)"

definition exif_data_set_byte_order :: "ExifByteOrder \<Rightarrow> ExifData \<Rightarrow> ExifData option" where
  "exif_data_set_byte_order ord data =
    (if ord = ed_order data then Some data
     else do { s \<leftarrow> foldM (content_set_byte_order (ed_order data) ord) (ed_ifd data) (ed_store data);
               Some (data\<lparr>ed_store := s, ed_order := ord\<rparr>) })"

section \<open>Releasing\<close>

text \<open>\<open>exif_content_free\<close>: a directory has one reference, so dropping it releases the entries.\<close>

definition exif_content_free :: "ExifContent \<Rightarrow> Store \<Rightarrow> Store option" where
  "exif_content_free c = foldM (\<lambda>a. exif_entry_unref (Some a)) (c_entries c)"

definition exif_data_free :: "ExifData \<Rightarrow> Store option" where
  "exif_data_free data = foldM exif_content_free (ed_ifd data) (ed_store data)"

text \<open>\<open>None\<close> in place of the new directory is the null pointer that the code stores when there is no memory.\<close>

definition exif_data_remove_thumbnail :: "alloc \<Rightarrow> ExifData \<Rightarrow> (ExifContent option \<times> ExifData) option" where
  "exif_data_remove_thumbnail al data =
    do { s \<leftarrow> exif_content_free (ed_ifd data ! IFD_1) (ed_store data);
         case exif_content_new_mem al s of
           (c, s) \<Rightarrow> Some (c, data\<lparr>ed_ifd := (ed_ifd data)[IFD_1 := (case c of None \<Rightarrow> \<lparr>c_entries = []\<rparr> | Some c \<Rightarrow> c)],
                              ed_store := s, ed_data := NULL, ed_size := 0\<rparr>) }"

section \<open>The mandatory tags\<close>

text \<open>A tag is mandatory only where a row of the table says so, and no row does so for the GPS directory or for tag 0.\<close>

lemma any_loop_row:
  "any_loop tag ifd es = l \<Longrightarrow> l \<noteq> SL_UNKNOWN \<Longrightarrow> \<exists>e \<in> set es. te_tag e = tag \<and> te_esl e ! ifd ! 0 = l \<and> te_name e \<noteq> None"
  by (induction es) (auto simp: Let_def split: if_splits)

lemma any_loop_recorded: "any_loop tag ifd es \<noteq> SL_NOT_RECORDED"
proof (induction es)
  case (Cons e es)
  then show ?case
    by (simp only: any_loop.simps Let_def ExifSupportLevel.distinct split: if_split) blast
qed simp

lemma any_type_rows:
  assumes "tag \<in> te_tag ` set rows"
  shows "get_support_level_any_type tag ifd
    = any_loop tag ifd (dropWhile (\<lambda>e. te_tag e \<noteq> tag) rows @ [TagEntry 0 None ESL_DEF])"
  using assms by (simp add: get_support_level_any_type_def table_first_rows drop_first)

definition row_ok :: "TagEntry \<Rightarrow> bool" where
  "row_ok e \<longleftrightarrow> te_tag e < 65536 \<and> (te_tag e = 0 \<longrightarrow> te_esl e = ESL_GPS) \<and> te_esl e ! IFD_GPS \<in> {ESL_NNNN, ESL_OOOO, ESL_UUUU}"

lemma rows_ok: "\<forall>e \<in> set rows. row_ok e"
  unfolding rows_def chunks by (simp add: row_ok_def ESL_GPS_def ESL_DEF_def)

lemma mandatory_row:
  assumes "exif_tag_get_support_level_in_ifd t ifd dt = SL_MANDATORY"
  shows "ifd < EXIF_IFD_COUNT \<and> (\<exists>e \<in> set rows. te_tag e = t \<and> (\<exists>j < 4. te_esl e ! ifd ! j = SL_MANDATORY))"
proof -
  have ifd: "ifd < EXIF_IFD_COUNT" using assms by (auto simp: exif_tag_get_support_level_in_ifd_def split: if_splits)
  have any: "\<exists>e \<in> set rows. te_tag e = t \<and> te_esl e ! ifd ! 0 = SL_MANDATORY"
    if get: "get_support_level_any_type t ifd = SL_MANDATORY"
  proof -
    have "t \<in> te_tag ` set rows" using get by (auto simp: get_support_level_any_type_def table_first_rows split: if_splits)
    then have "any_loop t ifd (dropWhile (\<lambda>e. te_tag e \<noteq> t) rows @ [TagEntry 0 None ESL_DEF]) = SL_MANDATORY"
      using get by (simp add: get_support_level_any_type_def table_first_rows drop_first)
    then obtain e where "e \<in> set (dropWhile (\<lambda>e. te_tag e \<noteq> t) rows @ [TagEntry 0 None ESL_DEF])"
        "te_tag e = t" "te_esl e ! ifd ! 0 = SL_MANDATORY" "te_name e \<noteq> None"
      using any_loop_row [of t ifd _ SL_MANDATORY] by blast
    then show ?thesis using set_dropWhileD [of e "\<lambda>e. te_tag e \<noteq> t" rows] by auto
  qed
  show ?thesis
  proof (cases "dt \<ge> EXIF_DATA_TYPE_COUNT")
    case True
    then have "get_support_level_any_type t ifd = SL_MANDATORY"
      using assms ifd by (simp add: exif_tag_get_support_level_in_ifd_def)
    then obtain e where "e \<in> set rows" "te_tag e = t" "te_esl e ! ifd ! 0 = SL_MANDATORY" using any by blast
    then show ?thesis using ifd by (intro conjI bexI [of _ e] exI [of _ 0]) simp_all
  next
    case False
    then have "get_support_level_in_ifd t ifd dt = SL_MANDATORY"
      using assms ifd by (simp add: exif_tag_get_support_level_in_ifd_def)
    then obtain e where "e \<in> set rows" "te_tag e = t" "te_esl e ! ifd ! dt = SL_MANDATORY"
      unfolding level_in_ifd_find by (auto simp: find_Some_iff split: option.splits intro: nth_mem)
    then show ?thesis using ifd False by (intro conjI bexI [of _ e] exI [of _ dt]) simp_all
  qed
qed

lemma less5: "(i :: nat) < 5 \<longleftrightarrow> i \<in> {0, 1, 2, 3, 4}"
  by auto

lemma less4: "(i :: nat) < 4 \<longleftrightarrow> i \<in> {0, 1, 2, 3}"
  by auto

lemma mandatory_tag:
  assumes "exif_tag_get_support_level_in_ifd t ifd dt = SL_MANDATORY"
  shows "t < 65536" "t \<noteq> 0" "ifd \<noteq> IFD_GPS"
proof -
  obtain e j where e: "ifd < 5" "e \<in> set rows" "te_tag e = t" "j < 4" "te_esl e ! ifd ! j = SL_MANDATORY"
    using mandatory_row [OF assms] by auto
  have row: "row_ok e" using rows_ok e(2) by blast
  show "t < 65536" using row e(3) by (simp add: row_ok_def)
  have none: "ESL_NNNN ! j \<noteq> SL_MANDATORY" "ESL_OOOO ! j \<noteq> SL_MANDATORY" "ESL_UUUU ! j \<noteq> SL_MANDATORY"
    using e(4) unfolding less4 by (auto simp: ESL_NNNN_def ESL_OOOO_def ESL_UUUU_def)
  show "ifd \<noteq> IFD_GPS" using row e(5) none by (auto simp: row_ok_def)
  show "t \<noteq> 0"
  proof
    assume "t = 0"
    then have "te_esl e = ESL_GPS" using row e(3) by (simp add: row_ok_def)
    then show False using e(1,5) none unfolding less5 by (auto simp: ESL_GPS_def)
  qed
qed

section \<open>Reworking one directory\<close>

text \<open>
  What the correction may do to a directory and to the store: it changes the entries of the directory in place,
  frees some of them and creates new ones at fresh addresses.
\<close>

definition heap_fresh :: "Store \<Rightarrow> bool" where
  "heap_fresh s \<longleftrightarrow> (\<forall>a \<in> dom (st_heap s). a < st_clock s)"

lemma heap_fresh_sub:
  assumes "heap_fresh s" and "dom (st_heap s') \<subseteq> dom (st_heap s)" and "st_clock s \<le> st_clock s'"
  shows "heap_fresh s'"
  using assms unfolding heap_fresh_def by (meson less_le_trans subset_iff)

definition reworked :: "nat \<Rightarrow> ExifContent \<times> Store \<Rightarrow> ExifContent \<times> Store \<Rightarrow> bool" where
  "reworked i cs cs' \<longleftrightarrow> content_ok i cs' \<and> st_clock (snd cs) \<le> st_clock (snd cs') \<and> heap_fresh (snd cs') \<and>
    (\<forall>a \<in> set (c_entries (fst cs')). a \<in> set (c_entries (fst cs)) \<or> st_clock (snd cs) \<le> a) \<and>
    (\<forall>a. a \<notin> set (c_entries (fst cs')) \<longrightarrow>
       st_heap (snd cs') a = (if a \<in> set (c_entries (fst cs)) then None else st_heap (snd cs) a))"

lemma reworked_refl:
  assumes "content_ok i cs" and "heap_fresh (snd cs)"
  shows "reworked i cs cs"
  using assms by (simp add: reworked_def)

lemma reworked_trans:
  assumes fr: "heap_fresh (snd cs)" and r: "reworked i cs cs1" "reworked i cs1 cs2"
  shows "reworked i cs cs2"
proof -
  have "st_heap (snd cs2) a = (if a \<in> set (c_entries (fst cs)) then None else st_heap (snd cs) a)"
    if a: "a \<notin> set (c_entries (fst cs2))" for a
  proof -
    have two: "st_heap (snd cs2) a = (if a \<in> set (c_entries (fst cs1)) then None else st_heap (snd cs1) a)"
      using r(2) a by (simp add: reworked_def)
    show ?thesis
    proof (cases "a \<in> set (c_entries (fst cs1))")
      case True
      then have "a \<in> set (c_entries (fst cs)) \<or> st_clock (snd cs) \<le> a" using r(1) by (simp add: reworked_def)
      then have "a \<in> set (c_entries (fst cs)) \<or> st_heap (snd cs) a = None"
        using fr unfolding heap_fresh_def by (meson domIff leD)
      with True two show ?thesis by auto
    next
      case False
      with two r(1) show ?thesis by (simp add: reworked_def)
    qed
  qed
  moreover have "a \<in> set (c_entries (fst cs)) \<or> st_clock (snd cs) \<le> a" if a: "a \<in> set (c_entries (fst cs2))" for a
  proof -
    have "a \<in> set (c_entries (fst cs1)) \<or> st_clock (snd cs1) \<le> a" using r(2) a by (simp add: reworked_def)
    moreover have "st_clock (snd cs) \<le> st_clock (snd cs1)" using r(1) by (simp add: reworked_def)
    ultimately show ?thesis using r(1) unfolding reworked_def by (meson order_trans)
  qed
  moreover have "st_clock (snd cs) \<le> st_clock (snd cs2)"
    using r unfolding reworked_def by (meson order_trans)
  ultimately show ?thesis using r(2) by (simp add: reworked_def)
qed

lemma entries_disjoint:
  assumes "ifds_ok cs s X" and "i < EXIF_IFD_COUNT" and "j < EXIF_IFD_COUNT" and "a \<in> set (c_entries (cs ! i))"
    and "a \<in> set (c_entries (cs ! j))"
  shows "i = j"
proof -
  have "held i s a" "held j s a"
    using assms ifds_okD(5) [OF assms(1)] by (auto simp: content_ok_def)
  then show ?thesis by (auto simp: held_def)
qed

lemma ifds_ok_fresh: "ifds_ok cs s X \<Longrightarrow> heap_fresh s"
  by (simp add: ifds_ok_def heap_fresh_def)

lemma ifds_ok_rework:
  assumes ok: "ifds_ok cs s {}" and i: "i < EXIF_IFD_COUNT" and r: "reworked i (cs ! i, s) (c, s')"
  shows "ifds_ok (cs[i := c]) s' {}"
    and "\<And>j a. j < EXIF_IFD_COUNT \<Longrightarrow> j \<noteq> i \<Longrightarrow> a \<in> set (c_entries (cs ! j)) \<Longrightarrow> st_heap s' a = st_heap s a"
proof -
  note D = ifds_okD [OF ok]
  have len: "length cs = EXIF_IFD_COUNT" using ok by (simp add: ifds_ok_def)
  have fresh: "\<forall>a \<in> dom (st_heap s). a < st_clock s" using ok by (simp add: ifds_ok_def)
  have dom: "dom (st_heap s) = (\<Union>j < EXIF_IFD_COUNT. set (c_entries (cs ! j)))" using ok by (simp add: ifds_ok_def)
  have c_in: "a \<in> set (c_entries (cs ! i)) \<or> st_clock s \<le> a" if "a \<in> set (c_entries c)" for a
    using r that by (simp add: reworked_def)
  have out: "st_heap s' a = (if a \<in> set (c_entries (cs ! i)) then None else st_heap s a)" if "a \<notin> set (c_entries c)" for a
    using r that by (simp add: reworked_def)
  have apart: "a \<notin> set (c_entries c) \<and> a \<notin> set (c_entries (cs ! i))"
    if j: "j < EXIF_IFD_COUNT" "j \<noteq> i" "a \<in> set (c_entries (cs ! j))" for j a
  proof -
    have "a < st_clock s" using D(4) [OF j(1)] j(3) fresh by blast
    then show ?thesis using c_in [of a] entries_disjoint [OF ok j(1) i j(3)] j(2) by auto
  qed
  show same: "st_heap s' a = st_heap s a" if j: "j < EXIF_IFD_COUNT" "j \<noteq> i" "a \<in> set (c_entries (cs ! j))" for j a
    using apart [OF j] out [of a] by simp
  have oks: "content_ok j (cs[i := c] ! j, s')" if j: "j < EXIF_IFD_COUNT" for j
  proof (cases "j = i")
    case True
    then show ?thesis using r len i by (simp add: reworked_def)
  next
    case False
    have "content_ok j (cs ! j, s')"
      by (rule content_ok_cong [THEN iffD2, OF _ D(5) [OF j]]) (use same [OF j False] in blast)
    with False show ?thesis by simp
  qed
  have in_dom: "set (c_entries c) \<subseteq> dom (st_heap s')"
    using r by (auto simp: reworked_def content_ok_def held_def)
  have "dom (st_heap s') = (\<Union>j < EXIF_IFD_COUNT. set (c_entries (cs[i := c] ! j)))"
  proof (intro equalityI subsetI)
    fix a assume a: "a \<in> dom (st_heap s')"
    show "a \<in> (\<Union>j < EXIF_IFD_COUNT. set (c_entries (cs[i := c] ! j)))"
    proof (cases "a \<in> set (c_entries c)")
      case True
      then show ?thesis using i len by (intro UN_I [of i]) simp_all
    next
      case False
      then have "a \<notin> set (c_entries (cs ! i))" "a \<in> dom (st_heap s)" using out [OF False] a by (simp_all add: domIff split: if_splits)
      then obtain j where "j < EXIF_IFD_COUNT" "a \<in> set (c_entries (cs ! j))" "j \<noteq> i" using dom by auto
      then show ?thesis by (intro UN_I [of j]) simp_all
    qed
  next
    fix a assume "a \<in> (\<Union>j < EXIF_IFD_COUNT. set (c_entries (cs[i := c] ! j)))"
    then obtain j where j: "j < EXIF_IFD_COUNT" "a \<in> set (c_entries (cs[i := c] ! j))" by auto
    show "a \<in> dom (st_heap s')"
    proof (cases "j = i")
      case True
      then show ?thesis using j in_dom len i by auto
    next
      case False
      then have "a \<in> set (c_entries (cs ! j))" using j(2) by simp
      then show ?thesis using same [OF j(1) False] D(4) [OF j(1)] by auto
    qed
  qed
  then show "ifds_ok (cs[i := c]) s' {}"
    using oks len r by (simp add: ifds_ok_def reworked_def heap_fresh_def)
qed

text \<open>Correcting the entries in place.\<close>

lemma fix_entries_ok:
  assumes "plenty al" and "distinct as" and "\<forall>a \<in> set as. \<exists>e. st_heap s a = Some e \<and> fixable e"
  shows "\<exists>s'. fix_entries al ord as s = Some s' \<and> st_clock s \<le> st_clock s' \<and>
     (\<forall>a. if a \<in> set as then \<exists>e e'. st_heap s a = Some e \<and> st_heap s' a = Some e' \<and> data_present e' \<and> same_place e e'
        else st_heap s' a = st_heap s a)"
  using assms(2,3)
proof (induction as arbitrary: s)
  case Nil
  then show ?case by (simp add: fix_entries_def)
next
  case (Cons a as)
  obtain e where e: "st_heap s a = Some e" "fixable e" using Cons.prems(2) by auto
  obtain e' k where e': "exif_entry_fix al ord e (st_clock s) = Some (e', k)" "st_clock s \<le> k" "data_present e'" "same_place e e'"
    using exif_entry_fix_ok [OF assms(1) e(2), of ord "st_clock s"] by (auto simp: fixed_def)
  let ?s = "put_entry a e' (s\<lparr>st_clock := k\<rparr>)"
  have h: "st_heap ?s b = (if b = a then Some e' else st_heap s b)" for b by (simp add: put_entry_def)
  have pre: "\<forall>b \<in> set as. \<exists>e. st_heap ?s b = Some e \<and> fixable e" using Cons.prems by (auto simp: h)
  have ck: "st_clock ?s = k" by (simp add: put_entry_def)
  obtain s' where s': "fix_entries al ord as ?s = Some s'" "k \<le> st_clock s'"
      "\<forall>b. if b \<in> set as then \<exists>e e'. st_heap ?s b = Some e \<and> st_heap s' b = Some e' \<and> data_present e' \<and> same_place e e'
        else st_heap s' b = st_heap ?s b"
    using Cons.IH [OF _ pre] Cons.prems(1) unfolding ck by auto
  have run: "fix_entries al ord (a # as) s = Some s'"
    using s'(1) by (simp add: fix_entries_def e(1) e'(1))
  moreover have "if b \<in> set (a # as) then \<exists>e e'. st_heap s b = Some e \<and> st_heap s' b = Some e' \<and> data_present e' \<and> same_place e e'
        else st_heap s' b = st_heap s b" for b
    using spec [OF s'(3), of b] Cons.prems(1) e(1) e'(3,4) by (cases "b = a") (auto simp: h split: if_splits)
  moreover have "st_clock s \<le> st_clock s'" using s'(2) e'(2) by simp
  ultimately show ?case by blast
qed

lemma fix_entries_reworked:
  assumes "plenty al" and ok: "content_ok i (c, s)" and fr: "heap_fresh s"
    and fx: "\<forall>a \<in> set (c_entries c). fixable (the (st_heap s a))"
  shows "\<exists>s'. fix_entries al ord (c_entries c) s = Some s' \<and> reworked i (c, s) (c, s') \<and>
     (\<forall>a. tag_at s' a = tag_at s a) \<and> (\<forall>a \<in> set (c_entries c). data_present (the (st_heap s' a)))"
proof -
  have ex: "\<forall>a \<in> set (c_entries c). \<exists>e. st_heap s a = Some e \<and> fixable e"
    using ok fx by (fastforce simp: content_ok_def held_def)
  obtain s' where s': "fix_entries al ord (c_entries c) s = Some s'" "st_clock s \<le> st_clock s'"
      "\<forall>a. if a \<in> set (c_entries c) then \<exists>e e'. st_heap s a = Some e \<and> st_heap s' a = Some e' \<and> data_present e' \<and> same_place e e'
        else st_heap s' a = st_heap s a"
    using fix_entries_ok [OF assms(1) content_ok_distinct [OF ok] ex] by blast
  have tag: "tag_at s' a = tag_at s a" for a
    using spec [OF s'(3), of a] by (auto simp: tag_at_def same_place_def split: if_splits)
  have "held i s' a" if "a \<in> set (c_entries c)" for a
    using spec [OF s'(3), of a] that ok by (auto simp: content_ok_def held_def same_place_def data_present_def)
  moreover have "map (tag_at s') (c_entries c) = map (tag_at s) (c_entries c)" using tag by simp
  ultimately have ok': "content_ok i (c, s')" using ok by (simp add: content_ok_def del: map_eq_conv)
  have "dom (st_heap s') \<subseteq> dom (st_heap s)"
  proof
    fix a assume "a \<in> dom (st_heap s')"
    then show "a \<in> dom (st_heap s)" using spec [OF s'(3), of a] by (cases "a \<in> set (c_entries c)") (auto simp: domIff)
  qed
  then have "heap_fresh s'" using heap_fresh_sub [OF fr] s'(2) by blast
  then have "reworked i (c, s) (c, s')" using ok' s'(2) spec [OF s'(3)] by (simp add: reworked_def)
  moreover have "\<forall>a \<in> set (c_entries c). data_present (the (st_heap s' a))"
  proof
    fix a assume "a \<in> set (c_entries c)"
    then show "data_present (the (st_heap s' a))" using spec [OF s'(3), of a] by auto
  qed
  ultimately show ?thesis using s'(1) tag by blast
qed

text \<open>Removing: the clock only goes on.\<close>

lemma unref_clock: "exif_entry_unref p s = Some s' \<Longrightarrow> st_clock s' = st_clock s"
  by (auto simp: exif_entry_unref_def exif_entry_free_def put_entry_def Let_def split: option.splits if_splits bind_splits)

lemma remove_entry_clock: "exif_content_remove_entry al p a cs = Some cs' \<Longrightarrow> st_clock (snd cs) \<le> st_clock (snd cs')"
  by (auto simp: exif_content_remove_entry_def exif_mem_alloc_def Let_def put_entry_def dest!: unref_clock
      split: prod.splits option.splits if_splits bind_splits)

lemma foreach_remove_clock:
  "foreach_remove al ifd dt i cs = Some cs' \<Longrightarrow> st_clock (snd cs) \<le> st_clock (snd cs')"
proof (induction al ifd dt i cs rule: foreach_remove.induct)
  case (1 al ifd dt i cs)
  show ?case
  proof (cases "i < length (c_entries (fst cs))")
    case True
    with 1(2) obtain cs1 where cs1: "remove_not_recorded al ifd dt (c_entries (fst cs) ! i) cs = Some cs1"
      and rest: "foreach_remove al ifd dt (i + 1) cs1 = Some cs'"
      by (subst (asm) foreach_remove.simps) (auto split: bind_splits)
    have "st_clock (snd cs) \<le> st_clock (snd cs1)"
      using cs1 by (auto simp: remove_not_recorded_def dest: remove_entry_clock split: bind_splits if_splits)
    with 1(1) [OF True cs1 rest] show ?thesis by simp
  next
    case False
    with 1(2) show ?thesis by (subst (asm) foreach_remove.simps) simp
  qed
qed

lemma remove_all_clock:
  "remove_all_not_recorded al ifd dt cs = Some cs' \<Longrightarrow> st_clock (snd cs) \<le> st_clock (snd cs')"
proof (induction al ifd dt cs rule: remove_all_not_recorded.induct)
  case (1 al ifd dt cs)
  obtain cs1 where cs1: "foreach_remove al ifd dt 0 cs = Some cs1"
      "(if length (c_entries (fst cs1)) \<noteq> length (c_entries (fst cs)) then remove_all_not_recorded al ifd dt cs1 else Some cs1) = Some cs'"
    using 1(2) by (subst (asm) remove_all_not_recorded.simps) (auto split: bind_splits)
  then show ?case using 1(1) [OF cs1(1)] foreach_remove_clock [OF cs1(1)] by (fastforce split: if_splits)
qed

lemma remove_all_reworked:
  assumes "plenty al" and ok: "content_ok i (c, s)" and fr: "heap_fresh s"
  shows "\<exists>c' s'. remove_all_not_recorded al i dt (c, s) = Some (c', s') \<and> reworked i (c, s) (c', s') \<and>
     c_entries c' = filter (recorded i dt s) (c_entries c) \<and> (\<forall>a \<in> set (c_entries c'). st_heap s' a = st_heap s a)"
proof -
  have al: "al = mem_ok" using assms(1) by (simp add: plenty_mem_ok)
  obtain c' s' where r: "remove_all_not_recorded mem_ok i dt (c, s) = Some (c', s')"
      "pruned i dt (c, s) (c', s')" "\<forall>a \<in> set (c_entries c'). recorded i dt s' a"
    using remove_all_pruned [OF ok, of dt] by auto
  then obtain X where X: "X \<subseteq> set (c_entries c)" "\<forall>a \<in> X. \<not> recorded i dt s a"
      "c_entries c' = filter (\<lambda>a. a \<notin> X) (c_entries c)" "\<forall>a. st_heap s' a = (if a \<in> X then None else st_heap s a)"
    by (auto simp: pruned_def)
  have iff: "a \<in> X \<longleftrightarrow> \<not> recorded i dt s a" if "a \<in> set (c_entries c)" for a
    using X r(3) that by (fastforce simp: recorded_def tag_at_def)
  then have "c_entries c' = filter (recorded i dt s) (c_entries c)" unfolding X(3) by (intro filter_cong) auto
  moreover have ck: "st_clock s \<le> st_clock s'" using remove_all_clock [OF r(1)] by simp
  have "dom (st_heap s') \<subseteq> dom (st_heap s)" 
  proof
    fix a assume "a \<in> dom (st_heap s')"
    then show "a \<in> dom (st_heap s)" using spec [OF X(4), of a] by (simp add: domIff split: if_splits)
  qed
  then have "heap_fresh s'" using heap_fresh_sub [OF fr] ck by blast
  then have "reworked i (c, s) (c', s')" using r(2) ck X(1,3,4) by (auto simp: reworked_def pruned_def)
  moreover have "\<forall>a \<in> set (c_entries c'). st_heap s' a = st_heap s a" unfolding X(3) using X(4) by simp
  ultimately show ?thesis using r(1) unfolding al by blast
qed

text \<open>Adding a mandatory tag. The directory must not have an entry with tag 0, the tag of the new entry when it is added.\<close>

lemma content_okD: "content_ok i (c, s) \<Longrightarrow> a \<in> set (c_entries c) \<Longrightarrow> \<exists>e. st_heap s a = Some e"
  by (auto simp: content_ok_def held_def)

lemma add_mandatory_ok:
  assumes al: "plenty al" and ok: "content_ok i (c, s)" and fr: "heap_fresh s" and zero: "0 \<notin> tags (c, s)" and t: "t \<noteq> 0"
  shows "\<exists>c' s'. add_mandatory al now ord i t (c, s) = Some (c', s') \<and> reworked i (c, s) (c', s') \<and>
     tags (c', s') = insert t (tags (c, s)) \<and> 0 \<notin> tags (c', s') \<and>
     (\<forall>a \<in> set (c_entries c). a \<in> set (c_entries c') \<and> st_heap s' a = st_heap s a) \<and>
     (\<forall>a \<in> set (c_entries c') - set (c_entries c). data_present (the (st_heap s' a)))"
proof (cases "t \<in> tags (c, s)")
  case True
  then obtain a where a: "a \<in> set (c_entries c)" "tag_at s a = t" by (auto simp: tags_def)
  have "find (\<lambda>b. tag_at s b = t) (c_entries c) = Some a" using find_tag_unique [OF ok a(1)] a(2) by simp
  then have "add_mandatory al now ord i t (c, s) = Some (c, s)"
    by (simp add: add_mandatory_def get_entry_find [OF ok])
  then show ?thesis using True zero reworked_refl [of i "(c, s)"] ok fr by (simp add: insert_absorb)
next
  case False
  let ?a = "st_clock s + 1"
  have fresh: "?a \<notin> dom (st_heap s)" using fr unfolding heap_fresh_def by (metis add_leE nat_less_le not_add_less1)
  have new: "?a \<notin> set (c_entries c)" using content_okD [OF ok] fresh by blast
  define s1 where "s1 = put_entry ?a zero_entry (s\<lparr>st_clock := st_clock s + 3\<rparr>)"
  have e1: "exif_entry_new al s = (Some ?a, s1)"
    using al by (simp add: exif_entry_new_def exif_entry_new_mem_def exif_mem_alloc_def plenty_def s1_def numeral_3_eq_3)
  have same: "st_heap s1 b = st_heap s b" if "b \<in> set (c_entries c)" for b
    using that new by (auto simp: s1_def put_entry_def)
  have ok1: "content_ok i (c, s1)" using content_ok_cong [of c s1 s i] same ok by simp
  have known: "find (\<lambda>b. tag_at s b = t) (c_entries c) = None" using False by (auto simp: find_None_iff tags_def)
  have nozero: "find (\<lambda>b. tag_at s1 b = 0) (c_entries c) = None"
    using zero same by (auto simp: find_None_iff tags_def tag_at_def)
  let ?c = "c\<lparr>c_entries := c_entries c @ [?a]\<rparr>"
  let ?e2 = "zero_entry\<lparr>e_parent := Some i, e_ref_count := 2\<rparr>"
  define s2 where "s2 = put_entry ?a ?e2 (s\<lparr>st_clock := st_clock s + 4\<rparr>)"
  have e2: "exif_content_add_entry al i (Some ?a) (c, s1) = Some (?c, s2)"
  proof -
    have h1: "st_heap s1 ?a = Some zero_entry" by (simp add: s1_def put_entry_def)
    have get: "exif_content_get_entry s1 c 0 = Some None" using nozero by (simp add: get_entry_find [OF ok1])
    have "exif_content_add_entry al i (Some ?a) (c, s1) = Some (?c, put_entry ?a ?e2 (put_entry ?a (zero_entry\<lparr>e_parent := Some i\<rparr>)
        (s1\<lparr>st_clock := st_clock s1 + 1\<rparr>)))"
      using al h1 get
      by (simp add: exif_content_add_entry_def exif_mem_alloc_def plenty_def exif_entry_ref_def put_entry_def zero_entry_def Let_def)
    then show ?thesis by (simp add: s1_def s2_def put_entry_def)
  qed
  obtain e3 k where e3: "exif_entry_initialize al now ord t ?e2 (st_clock s + 4) = Some (e3, k)" "st_clock s + 4 \<le> k"
      "data_present e3" "e_tag e3 = t" "e_parent e3 = Some i" "e_ref_count e3 = 2"
    using exif_entry_initialize_ok [OF al, of ?e2 t now ord "st_clock s + 4"] by (auto simp: initialized_def zero_entry_def)
  define s3 where "s3 = put_entry ?a e3 (s\<lparr>st_clock := k\<rparr>)"
  have i3: "initialize_at al now ord t (Some ?a) s2 = Some s3"
    using e3(1) by (simp add: initialize_at_def s2_def s3_def put_entry_def)
  let ?e = "e3\<lparr>e_ref_count := 1\<rparr>"
  let ?s = "put_entry ?a ?e (s\<lparr>st_clock := k\<rparr>)"
  have u: "exif_entry_unref (Some ?a) s3 = Some ?s"
    using e3(6) by (simp add: exif_entry_unref_def s3_def put_entry_def Let_def)
  have run: "add_mandatory al now ord i t (c, s) = Some (?c, ?s)"
    unfolding add_mandatory_def
    by (simp only: prod.case get_entry_find [OF ok] known e1 e2 i3 u Option.bind.simps simp_thms if_False)
  have h: "st_heap ?s = (st_heap s)(?a \<mapsto> ?e)" by (simp add: put_entry_def)
  have ck: "st_clock ?s = k" by (simp add: put_entry_def)
  have eok: "entry_ok ?e" using e3(3) by (simp add: data_present_def entry_ok_def)
  have ok': "content_ok i (?c, ?s)" using content_ok_add [OF ok new, of ?e ?s] False e3(4,5) eok h by simp
  have "heap_fresh ?s"
    unfolding heap_fresh_def
  proof
    fix b assume "b \<in> dom (st_heap ?s)"
    then have "b = ?a \<or> b \<in> dom (st_heap s)" unfolding h by auto
    then show "b < st_clock ?s" using fr e3(2) unfolding ck heap_fresh_def by (auto dest!: bspec)
  qed
  moreover have "st_clock s \<le> st_clock ?s" using e3(2) by (simp add: put_entry_def)
  ultimately have "reworked i (c, s) (?c, ?s)" using ok' h by (auto simp: reworked_def)
  moreover have tg: "tags (?c, ?s) = insert t (tags (c, s))" 
  proof -
    have "tag_at ?s ` set (c_entries c) = tag_at s ` set (c_entries c)"
      using new by (intro image_cong) (auto simp: tag_at_def put_entry_def)
    moreover have "tag_at ?s ?a = t" using e3(4) by (simp add: tag_at_def put_entry_def)
    ultimately show ?thesis by (simp add: tags_def)
  qed
  moreover have "0 \<notin> tags (?c, ?s)" unfolding tg using zero t by simp
  moreover have "\<forall>a \<in> set (c_entries c). a \<in> set (c_entries ?c) \<and> st_heap ?s a = st_heap s a" using new h by auto
  moreover have "data_present ?e" using e3(3) by (simp add: data_present_def entry_ok_def)
  then have "\<forall>a \<in> set (c_entries ?c) - set (c_entries c). data_present (the (st_heap ?s a))" using h by auto
  ultimately show ?thesis using run by blast
qed

text \<open>The tags that the correction leaves in a directory.\<close>

definition mandatory :: "nat \<Rightarrow> nat \<Rightarrow> u16 set" where
  "mandatory i dt = {of_nat (exif_tag_table_get_tag j) | j. j < exif_tag_table_count \<and>
     exif_tag_get_support_level_in_ifd (exif_tag_table_get_tag j) i dt = SL_MANDATORY}"

definition recorded_tags :: "nat \<Rightarrow> nat \<Rightarrow> u16 set" where
  "recorded_tags i dt = {t. exif_tag_get_support_level_in_ifd (unat t) i dt \<noteq> SL_NOT_RECORDED}"

lemma add_all_ok:
  assumes al: "plenty al" and ok: "content_ok i (c, s)" and fr: "heap_fresh s" and zero: "i \<noteq> IFD_GPS \<Longrightarrow> 0 \<notin> tags (c, s)"
    and dp: "\<forall>a \<in> set (c_entries c). data_present (the (st_heap s a))"
  shows "\<exists>cs'. foldM (\<lambda>j cs. let t = exif_tag_table_get_tag j in
                 if exif_tag_get_support_level_in_ifd t i dt = SL_MANDATORY
                 then add_mandatory al now ord i (of_nat t) cs else Some cs) [0..<exif_tag_table_count] (c, s) = Some cs' \<and>
     reworked i (c, s) cs' \<and> tags cs' = tags (c, s) \<union> mandatory i dt \<and>
     (\<forall>a \<in> set (c_entries (fst cs')). data_present (the (st_heap (snd cs') a))) \<and>
     (\<forall>a \<in> set (c_entries c). a \<in> set (c_entries (fst cs')) \<and> st_heap (snd cs') a = st_heap s a)"
proof -
  let ?m = "\<lambda>j. exif_tag_get_support_level_in_ifd (exif_tag_table_get_tag j) i dt = SL_MANDATORY"
  let ?M = "\<lambda>k. {of_nat (exif_tag_table_get_tag j) | j. j < k \<and> ?m j} :: u16 set"
  let ?I = "\<lambda>k cs. reworked i (c, s) cs \<and> tags cs = tags (c, s) \<union> ?M k \<and> (i \<noteq> IFD_GPS \<longrightarrow> 0 \<notin> tags cs) \<and>
     (\<forall>a \<in> set (c_entries (fst cs)). data_present (the (st_heap (snd cs) a))) \<and>
     (\<forall>a \<in> set (c_entries c). a \<in> set (c_entries (fst cs)) \<and> st_heap (snd cs) a = st_heap s a)"
  have M: "?M (Suc k) = (if ?m k then insert (of_nat (exif_tag_table_get_tag k)) (?M k) else ?M k)" for k
    by (auto simp: less_Suc_eq)
  let ?f = "\<lambda>k cs. let t = exif_tag_table_get_tag k in
     if exif_tag_get_support_level_in_ifd t i dt = SL_MANDATORY then add_mandatory al now ord i (of_nat t) cs else Some cs"
  have step: "\<exists>cs'. ?f k cs = Some cs' \<and> ?I (Suc k) cs'"
    if I: "?I k cs" for k cs
  proof (cases "?m k")
    case False
    have eq: "?M (Suc k) = ?M k" using False by (simp only: M if_False)
    have "?I (Suc k) cs" unfolding eq by (rule I)
    moreover have "?f k cs = Some cs" using False by (simp add: Let_def)
    ultimately show ?thesis by blast
  next
    case True
    let ?t = "exif_tag_table_get_tag k"
    obtain c1 s1 where [simp]: "cs = (c1, s1)" by fastforce
    have "unat (of_nat ?t :: u16) = ?t" using mandatory_tag(1) [OF True] by (simp add: unat_of_nat)
    then have t: "(of_nat ?t :: u16) \<noteq> 0" using mandatory_tag(2) [OF True] by (metis unat_0)
    have r: "reworked i (c, s) (c1, s1)" using I by simp
    have "content_ok i (c1, s1)" "heap_fresh s1" "0 \<notin> tags (c1, s1)"
      using I mandatory_tag(3) [OF True] by (auto simp: reworked_def)
    then obtain c2 s2 where a: "add_mandatory al now ord i (of_nat ?t) (c1, s1) = Some (c2, s2)" "reworked i (c1, s1) (c2, s2)"
        "tags (c2, s2) = insert (of_nat ?t) (tags (c1, s1))" "0 \<notin> tags (c2, s2)"
        "\<forall>a \<in> set (c_entries c1). a \<in> set (c_entries c2) \<and> st_heap s2 a = st_heap s1 a"
        "\<forall>a \<in> set (c_entries c2) - set (c_entries c1). data_present (the (st_heap s2 a))"
      using add_mandatory_ok [OF al, of i c1 s1 "of_nat ?t" now ord] t by blast
    have "reworked i (c, s) (c2, s2)" using reworked_trans [OF _ r a(2)] fr by simp
    moreover have "tags (c2, s2) = tags (c, s) \<union> ?M (Suc k)" using a(3) I True unfolding M by simp
    moreover have "\<forall>a \<in> set (c_entries c2). data_present (the (st_heap s2 a))" using a(5,6) I by fastforce
    moreover have "\<forall>a \<in> set (c_entries c). a \<in> set (c_entries c2) \<and> st_heap s2 a = st_heap s a" using a(5) I by simp
    ultimately have "?I (Suc k) (c2, s2)" using a(4) by simp
    moreover have "?f k cs = Some (c2, s2)" using a(1) True by (simp add: Let_def)
    ultimately show ?thesis by blast
  qed
  have "?I 0 (c, s)" using reworked_refl [of i "(c, s)"] ok fr zero dp by simp
  then have "\<exists>cs'. foldM ?f [0..<exif_tag_table_count] (c, s) = Some cs' \<and> ?I exif_tag_table_count cs'"
    by (rule foldM_upt [where I = ?I]) (rule step)
  then show ?thesis unfolding mandatory_def by blast
qed

text \<open>The first two rounds: every entry is corrected, and those that are not recorded are removed.\<close>

lemma fix_and_remove:
  assumes al: "plenty al" and ok: "content_ok i (c, s)" and fr: "heap_fresh s"
    and fx: "\<forall>a \<in> set (c_entries c). fixable (the (st_heap s a))"
  obtains s1 c2 s2 where "fix_entries al ord (c_entries c) s = Some s1"
    and "remove_all_not_recorded al i dt (c, s1) = Some (c2, s2)"
    and "reworked i (c, s) (c2, s2)" and "content_ok i (c2, s2)" and "heap_fresh s2"
    and "tags (c2, s2) = tags (c, s) \<inter> recorded_tags i dt"
    and "\<forall>a \<in> set (c_entries c2). data_present (the (st_heap s2 a))"
proof -
  obtain s1 where s1: "fix_entries al ord (c_entries c) s = Some s1" "reworked i (c, s) (c, s1)" "\<forall>a. tag_at s1 a = tag_at s a"
      "\<forall>a \<in> set (c_entries c). data_present (the (st_heap s1 a))"
    using fix_entries_reworked [OF al ok fr fx] by blast
  have ok1: "content_ok i (c, s1)" "heap_fresh s1" using s1(2) by (simp_all add: reworked_def)
  obtain c2 s2 where s2: "remove_all_not_recorded al i dt (c, s1) = Some (c2, s2)" "reworked i (c, s1) (c2, s2)"
      "c_entries c2 = filter (recorded i dt s1) (c_entries c)" "\<forall>a \<in> set (c_entries c2). st_heap s2 a = st_heap s1 a"
    using remove_all_reworked [OF al ok1] by blast
  have ok2: "content_ok i (c2, s2)" "heap_fresh s2" using s2(2) by (simp_all add: reworked_def)
  have "tags (c2, s2) = tag_at s1 ` set (c_entries c2)" using s2(4) unfolding tags_def by (intro image_cong) (auto simp: tag_at_def)
  then have t2: "tags (c2, s2) = tags (c, s) \<inter> recorded_tags i dt"
    using s1(3) by (auto simp: s2(3) tags_def recorded_def recorded_tags_def)
  have dp: "\<forall>a \<in> set (c_entries c2). data_present (the (st_heap s2 a))" using s1(4) s2(3,4) by auto
  show thesis using that s1(1) s2(1) reworked_trans [OF _ s1(2) s2(2)] fr ok2 t2 dp by simp
qed

lemma exif_content_fix_ok:
  assumes al: "plenty al" and ok: "content_ok i (c, s)" and fr: "heap_fresh s"
    and zero: "i \<noteq> IFD_GPS \<Longrightarrow> 0 \<notin> tags (c, s) \<inter> recorded_tags i dt"
    and fx: "\<forall>a \<in> set (c_entries c). fixable (the (st_heap s a))"
  shows "\<exists>cs'. exif_content_fix al now ord dt i (c, s) = Some cs' \<and> reworked i (c, s) cs' \<and>
     tags cs' = tags (c, s) \<inter> recorded_tags i dt \<union> mandatory i dt \<and>
     (\<forall>a \<in> set (c_entries (fst cs')). data_present (the (st_heap (snd cs') a)))"
proof -
  obtain s1 c2 s2 where s12: "fix_entries al ord (c_entries c) s = Some s1" "remove_all_not_recorded al i dt (c, s1) = Some (c2, s2)"
      "reworked i (c, s) (c2, s2)" "content_ok i (c2, s2)" "heap_fresh s2" "tags (c2, s2) = tags (c, s) \<inter> recorded_tags i dt"
      "\<forall>a \<in> set (c_entries c2). data_present (the (st_heap s2 a))"
    by (rule fix_and_remove [OF al ok fr fx, of ord dt])
  have zero2: "0 \<notin> tags (c2, s2)" if "i \<noteq> IFD_GPS" using zero [OF that] s12(6) by simp
  obtain cs' where cs': "foldM (\<lambda>j cs. let t = exif_tag_table_get_tag j in
                 if exif_tag_get_support_level_in_ifd t i dt = SL_MANDATORY
                 then add_mandatory al now ord i (of_nat t) cs else Some cs) [0..<exif_tag_table_count] (c2, s2) = Some cs'"
      "reworked i (c2, s2) cs'" "tags cs' = tags (c2, s2) \<union> mandatory i dt"
      "\<forall>a \<in> set (c_entries (fst cs')). data_present (the (st_heap (snd cs') a))"
    using add_all_ok [OF al s12(4,5) zero2 s12(7), of dt now ord] by blast
  have "exif_content_fix al now ord dt i (c, s) = Some cs'"
    unfolding exif_content_fix_def by (simp only: prod.case s12(1,2) cs'(1) Option.bind.simps)
  moreover have "reworked i (c, s) cs'" using reworked_trans [OF _ s12(3) cs'(2)] fr by simp
  ultimately show ?thesis using cs'(3,4) s12(6) by metis
qed

text \<open>
  Tag 0 belongs to the GPS directory: for the four known data types it is recorded nowhere else, and for
  an unknown one its level elsewhere is unknown.
\<close>

lemma zero_level:
  assumes "i < EXIF_IFD_COUNT" and "i \<noteq> IFD_GPS"
  shows "dt < EXIF_DATA_TYPE_COUNT \<Longrightarrow> exif_tag_get_support_level_in_ifd 0 i dt = SL_NOT_RECORDED"
    and "EXIF_DATA_TYPE_COUNT \<le> dt \<Longrightarrow> exif_tag_get_support_level_in_ifd 0 i dt = SL_UNKNOWN"
proof -
  have N: "te_esl e ! i ! j = SL_NOT_RECORDED" if "e \<in> set rows" "te_tag e = 0" "j < 4" for e j
  proof -
    have "te_esl e = ESL_GPS" using rows_ok that(1,2) by (auto simp: row_ok_def)
    then show ?thesis using assms that(3) unfolding less4 by (auto simp: less5 ESL_GPS_def ESL_NNNN_def)
  qed
  show "exif_tag_get_support_level_in_ifd 0 i dt = SL_NOT_RECORDED" if dt: "dt < EXIF_DATA_TYPE_COUNT"
  proof -
    have "find (\<lambda>e. te_tag e = 0 \<and> te_esl e ! i ! dt \<noteq> SL_NOT_RECORDED) rows = None"
      using N [of _ dt] dt by (auto simp: find_None_iff)
    then show ?thesis using assms(1) dt by (simp add: exif_tag_get_support_level_in_ifd_def level_in_ifd_find)
  qed
  have "any_loop 0 i (dropWhile (\<lambda>e. te_tag e \<noteq> 0) rows @ [TagEntry 0 None ESL_DEF]) = SL_UNKNOWN"
  proof (rule ccontr)
    assume "\<not> ?thesis"
    from any_loop_row [OF refl this] obtain e where
      e: "e \<in> set (dropWhile (\<lambda>e. te_tag e \<noteq> 0) rows @ [TagEntry 0 None ESL_DEF])" "te_tag e = 0" "te_name e \<noteq> None"
        "te_esl e ! i ! 0 = any_loop 0 i (dropWhile (\<lambda>e. te_tag e \<noteq> 0) rows @ [TagEntry 0 None ESL_DEF])"
      by blast
    then have "te_esl e ! i ! 0 \<noteq> SL_NOT_RECORDED" by (simp only: any_loop_recorded not_False_eq_True)
    then show False using e(1-3) N [of e 0] set_dropWhileD [of e "\<lambda>e. te_tag e \<noteq> 0" rows] by auto
  qed
  then have "get_support_level_any_type 0 i = SL_UNKNOWN"
    using any_type_rows [of 0 i] by (cases "0 \<in> te_tag ` set rows") (simp_all add: get_support_level_any_type_def table_first_rows)
  then show "exif_tag_get_support_level_in_ifd 0 i dt = SL_UNKNOWN" if "EXIF_DATA_TYPE_COUNT \<le> dt"
    using assms(1) that by (simp add: exif_tag_get_support_level_in_ifd_def)
qed

text \<open>A thumbnail directory without a thumbnail is emptied.\<close>

lemma remove_entries_ok:
  assumes al: "plenty al"
  shows "content_ok i (c, s) \<Longrightarrow> heap_fresh s \<Longrightarrow>
    \<exists>s'. remove_entries al i (c, s) = Some (c\<lparr>c_entries := []\<rparr>, s') \<and> reworked i (c, s) (c\<lparr>c_entries := []\<rparr>, s')"
proof (induction "length (c_entries c)" arbitrary: c s)
  case 0
  have eq: "c\<lparr>c_entries := []\<rparr> = c" using 0(1) by (cases c) simp
  show ?case unfolding eq using 0 reworked_refl [of i "(c, s)"] by (subst remove_entries.simps) simp
next
  case (Suc n)
  let ?a = "last (c_entries c)"
  have a: "?a \<in> set (c_entries c)" using Suc.hyps(2) by (metis last_in_set length_0_conv nat.distinct(1))
  let ?c = "c\<lparr>c_entries := filter (\<lambda>x. x \<noteq> ?a) (c_entries c)\<rparr>"
  obtain s1 where s1: "exif_content_remove_entry al i (Some ?a) (c, s) = Some (?c, s1)" "st_heap s1 = (st_heap s)(?a := None)"
    using remove_eq [OF Suc.prems(1) a, of al] al by (auto simp: plenty_def Let_def)
  have ck: "st_clock s \<le> st_clock s1" using remove_entry_clock [OF s1(1)] by simp
  have ok1: "content_ok i (?c, s1)" using content_ok_remove [OF Suc.prems(1) s1(2)] .
  have fr1: "heap_fresh s1" using heap_fresh_sub [OF Suc.prems(2) _ ck] s1(2) by auto
  have r1: "reworked i (c, s) (?c, s1)" using ok1 fr1 ck s1(2) a by (auto simp: reworked_def)
  have len: "length (c_entries ?c) = n"
  proof -
    obtain xs where xs: "c_entries c = xs @ [?a]" using Suc.hyps(2) by (metis append_butlast_last_id length_0_conv nat.distinct(1))
    then have "?a \<notin> set xs" "length xs = n"
      using content_ok_distinct [OF Suc.prems(1)] Suc.hyps(2) by (metis distinct_append disjoint_iff list.set_intros(1), metis length_append_singleton nat.inject)
    then have "filter (\<lambda>x. x \<noteq> ?a) (xs @ [?a]) = xs" by (auto intro: filter_True)
    then show ?thesis using xs \<open>length xs = n\<close> by simp
  qed
  obtain s' where s': "remove_entries al i (?c, s1) = Some (?c\<lparr>c_entries := []\<rparr>, s')" "reworked i (?c, s1) (?c\<lparr>c_entries := []\<rparr>, s')"
    using Suc.hyps(1) [OF len [symmetric] ok1 fr1] by blast
  have ne: "c_entries c \<noteq> []" "length (c_entries ?c) \<noteq> length (c_entries c)" using Suc.hyps(2) len by auto
  have "remove_entries al i (c, s) = Some (c\<lparr>c_entries := []\<rparr>, s')"
    using s1(1) s'(1) ne by (subst remove_entries.simps) simp
  moreover have "reworked i (c, s) (c\<lparr>c_entries := []\<rparr>, s')" using reworked_trans [OF _ r1 s'(2)] Suc.prems(2) by simp
  ultimately show ?case by blast
qed

section \<open>Reworking an image\<close>

definition tags_of :: "ExifData \<Rightarrow> nat \<Rightarrow> u16 set" where
  "tags_of data i = tags (ed_ifd data ! i, ed_store data)"

text \<open>
  Every entry can be corrected, and only the GPS directory has an entry with tag 0. The second is not
  needed when the data type is known.
\<close>

definition dir_fixable :: "ExifData \<Rightarrow> nat \<Rightarrow> bool" where
  "dir_fixable data i \<longleftrightarrow> (\<forall>a \<in> set (c_entries (ed_ifd data ! i)). fixable (the (st_heap (ed_store data) a))) \<and>
     (i \<noteq> IFD_GPS \<longrightarrow> 0 \<notin> tags_of data i)"

definition dir_correctable :: "ExifData \<Rightarrow> nat \<Rightarrow> bool" where
  "dir_correctable data i \<longleftrightarrow> (\<forall>a \<in> set (c_entries (ed_ifd data ! i)). fixable (the (st_heap (ed_store data) a))) \<and>
     (i \<noteq> IFD_GPS \<and> EXIF_DATA_TYPE_COUNT \<le> ed_data_type data \<longrightarrow> 0 \<notin> tags_of data i)"

lemma fixable_correctable: "dir_fixable data i \<Longrightarrow> dir_correctable data i"
  by (simp add: dir_fixable_def dir_correctable_def)

definition dir_present :: "ExifData \<Rightarrow> nat \<Rightarrow> bool" where
  "dir_present data i \<longleftrightarrow> (\<forall>a \<in> set (c_entries (ed_ifd data ! i)). data_present (the (st_heap (ed_store data) a)))"

definition fixed_tags :: "ExifData \<Rightarrow> nat \<Rightarrow> u16 set" where
  "fixed_tags data i =
    (if i = IFD_1 \<and> ed_data data = NULL then {}
     else tags_of data i \<inter> recorded_tags i (ed_data_type data) \<union> mandatory i (ed_data_type data))"

definition same_dir :: "ExifData \<Rightarrow> ExifData \<Rightarrow> nat \<Rightarrow> bool" where
  "same_dir data data' i \<longleftrightarrow> ed_ifd data' ! i = ed_ifd data ! i \<and>
     (\<forall>a \<in> set (c_entries (ed_ifd data ! i)). st_heap (ed_store data') a = st_heap (ed_store data) a)"

lemma same_dirD:
  assumes "same_dir data data' i"
  shows "tags_of data' i = tags_of data i" "dir_present data' i = dir_present data i"
    "ed_data_type data' = ed_data_type data \<Longrightarrow> dir_correctable data' i = dir_correctable data i"
proof -
  show t: "tags_of data' i = tags_of data i" using assms by (auto simp: same_dir_def tags_of_def tags_def tag_at_def)
  show "dir_present data' i = dir_present data i"
    "ed_data_type data' = ed_data_type data \<Longrightarrow> dir_correctable data' i = dir_correctable data i"
    using assms t by (auto simp: same_dir_def dir_correctable_def dir_present_def)
qed

lemma same_dir_trans: "same_dir d d1 i \<Longrightarrow> same_dir d1 d2 i \<Longrightarrow> same_dir d d2 i"
  by (simp add: same_dir_def)

lemma fix_func_ok:
  assumes al: "plenty al" and ok: "data_ok d" and i: "i < EXIF_IFD_COUNT" and fx: "dir_correctable d i"
  shows "\<exists>cs s. fix_func al now i d = Some (d\<lparr>ed_ifd := cs, ed_store := s\<rparr>) \<and> data_ok (d\<lparr>ed_ifd := cs, ed_store := s\<rparr>) \<and>
     tags_of (d\<lparr>ed_ifd := cs, ed_store := s\<rparr>) i = fixed_tags d i \<and> dir_present (d\<lparr>ed_ifd := cs, ed_store := s\<rparr>) i \<and>
     (\<forall>j < EXIF_IFD_COUNT. j \<noteq> i \<longrightarrow> same_dir d (d\<lparr>ed_ifd := cs, ed_store := s\<rparr>) j)"
proof -
  let ?c = "ed_ifd d ! i" and ?s = "ed_store d"
  have ifds: "ifds_ok (ed_ifd d) ?s {}" and th: "thumb_ok d" using ok by (simp_all add: data_ok_def)
  have c: "content_ok i (?c, ?s)" using ifds_okD(5) [OF ifds i] .
  have fr: "heap_fresh ?s" using ifds_ok_fresh [OF ifds] .
  have len: "length (ed_ifd d) = EXIF_IFD_COUNT" using ifds by (simp add: ifds_ok_def)
  obtain c' s' where r: "(if i = IFD_1 \<and> ed_data d = NULL then remove_entries al i (?c, ?s)
           else exif_content_fix al now (ed_order d) (ed_data_type d) i (?c, ?s)) = Some (c', s')"
      "reworked i (?c, ?s) (c', s')" "tags (c', s') = fixed_tags d i"
      "\<forall>a \<in> set (c_entries c'). data_present (the (st_heap s' a))"
  proof (cases "i = IFD_1 \<and> ed_data d = NULL")
    case True
    obtain s' where "remove_entries al i (?c, ?s) = Some (?c\<lparr>c_entries := []\<rparr>, s')" "reworked i (?c, ?s) (?c\<lparr>c_entries := []\<rparr>, s')"
      using remove_entries_ok [OF al c fr] by blast
    then show thesis using True by (intro that [of "?c\<lparr>c_entries := []\<rparr>" s']) (simp_all add: tags_def fixed_tags_def)
  next
    case False
    have "i \<noteq> IFD_GPS \<Longrightarrow> 0 \<notin> tags (?c, ?s) \<inter> recorded_tags i (ed_data_type d)" "\<forall>a \<in> set (c_entries ?c). fixable (the (st_heap ?s a))"
      using fx i zero_level(1) [of i "ed_data_type d"] by (auto simp: dir_correctable_def tags_of_def recorded_tags_def)
    then obtain cs' where "exif_content_fix al now (ed_order d) (ed_data_type d) i (?c, ?s) = Some cs'" "reworked i (?c, ?s) cs'"
        "tags cs' = tags (?c, ?s) \<inter> recorded_tags i (ed_data_type d) \<union> mandatory i (ed_data_type d)"
        "\<forall>a \<in> set (c_entries (fst cs')). data_present (the (st_heap (snd cs') a))"
      using exif_content_fix_ok [OF al c fr, of "ed_data_type d" now "ed_order d"] by blast
    then show thesis using False by (intro that [of "fst cs'" "snd cs'"]) (auto simp: fixed_tags_def tags_of_def)
  qed
  let ?cs = "(ed_ifd d)[i := c']"
  have run: "fix_func al now i d = Some (d\<lparr>ed_ifd := ?cs, ed_store := s'\<rparr>)"
    unfolding fix_func_def by (simp only: r(1) Option.bind.simps prod.case)
  have "ifds_ok ?cs s' {}" using ifds_ok_rework(1) [OF ifds i r(2)] .
  then have "data_ok (d\<lparr>ed_ifd := ?cs, ed_store := s'\<rparr>)" using th by (simp add: data_ok_def thumb_ok_def)
  moreover have "tags_of (d\<lparr>ed_ifd := ?cs, ed_store := s'\<rparr>) i = fixed_tags d i"
    using r(3) len i by (simp add: tags_of_def)
  moreover have "dir_present (d\<lparr>ed_ifd := ?cs, ed_store := s'\<rparr>) i" using r(4) len i by (simp add: dir_present_def)
  moreover have "same_dir d (d\<lparr>ed_ifd := ?cs, ed_store := s'\<rparr>) j" if "j < EXIF_IFD_COUNT" "j \<noteq> i" for j
    using ifds_ok_rework(2) [OF ifds i r(2) that] that(2) by (simp add: same_dir_def)
  ultimately show ?thesis using run by blast
qed

lemma exif_data_fix_ok:
  assumes "plenty al" and "data_ok data" and "\<forall>i < EXIF_IFD_COUNT. dir_correctable data i"
  shows "\<exists>cs s. exif_data_fix al now data = Some (data\<lparr>ed_ifd := cs, ed_store := s\<rparr>) \<and>
    data_ok (data\<lparr>ed_ifd := cs, ed_store := s\<rparr>) \<and>
    (\<forall>i < EXIF_IFD_COUNT. tags_of (data\<lparr>ed_ifd := cs, ed_store := s\<rparr>) i = fixed_tags data i \<and>
       dir_present (data\<lparr>ed_ifd := cs, ed_store := s\<rparr>) i)"
proof -
  let ?I = "\<lambda>k d. (\<exists>cs s. d = data\<lparr>ed_ifd := cs, ed_store := s\<rparr>) \<and> data_ok d \<and>
     (\<forall>i < k. tags_of d i = fixed_tags data i \<and> dir_present d i) \<and> (\<forall>i < EXIF_IFD_COUNT. k \<le> i \<longrightarrow> same_dir data d i)"
  have step: "\<exists>d'. fix_func al now k d = Some d' \<and> ?I (Suc k) d'" if k: "k < EXIF_IFD_COUNT" and I: "?I k d" for k d
  proof -
    have sd: "same_dir data d k" using I k by blast
    have "ed_data_type d = ed_data_type data" using I by auto
    then have fx: "dir_correctable d k" using same_dirD(3) [OF sd] assms(3) k by blast
    obtain cs s where r: "fix_func al now k d = Some (d\<lparr>ed_ifd := cs, ed_store := s\<rparr>)" "data_ok (d\<lparr>ed_ifd := cs, ed_store := s\<rparr>)"
        "tags_of (d\<lparr>ed_ifd := cs, ed_store := s\<rparr>) k = fixed_tags d k" "dir_present (d\<lparr>ed_ifd := cs, ed_store := s\<rparr>) k"
        "\<forall>j < EXIF_IFD_COUNT. j \<noteq> k \<longrightarrow> same_dir d (d\<lparr>ed_ifd := cs, ed_store := s\<rparr>) j"
      using fix_func_ok [OF assms(1) _ k fx, of now] I by blast
    let ?d = "d\<lparr>ed_ifd := cs, ed_store := s\<rparr>"
    obtain cs0 s0 where d: "d = data\<lparr>ed_ifd := cs0, ed_store := s0\<rparr>" using I by blast
    have eq: "?d = data\<lparr>ed_ifd := cs, ed_store := s\<rparr>" by (simp add: d)
    have "fixed_tags d k = fixed_tags data k"
      using same_dirD(1) [OF sd] by (simp add: fixed_tags_def d)
    have "tags_of ?d i = fixed_tags data i \<and> dir_present ?d i" if "i < Suc k" for i

    proof (cases "i = k")
      case True
      then show ?thesis using r(3,4) \<open>fixed_tags d k = fixed_tags data k\<close> by simp
    next
      case False
      then have i: "i < k" "i < EXIF_IFD_COUNT" using that k by simp_all
      have "same_dir d ?d i" using r(5) i(2) False by blast
      then show ?thesis using same_dirD(1,2) [of d ?d i] I i(1) by simp
    qed
    moreover have "same_dir data ?d i" if i: "i < EXIF_IFD_COUNT" "Suc k \<le> i" for i
    proof -
      have "same_dir data d i" "same_dir d ?d i" using I r(5) i by simp_all
      then show ?thesis by (rule same_dir_trans)
    qed
    ultimately have "?I (Suc k) ?d" using r(2) eq by blast
    then show ?thesis using r(1) by blast
  qed
  have "\<exists>cs s. data = data\<lparr>ed_ifd := cs, ed_store := s\<rparr>" by (intro exI [of _ "ed_ifd data"] exI [of _ "ed_store data"]) simp
  then have "?I 0 data" using assms(2) by (simp add: same_dir_def)
  then have "\<exists>d. foldM (fix_func al now) [0..<EXIF_IFD_COUNT] data = Some d \<and> ?I EXIF_IFD_COUNT d"
    by (rule foldM_upt [where I = ?I]) (rule step)
  then show ?thesis unfolding exif_data_fix_def by blast
qed


lemma sample_levels:
  "exif_tag_get_support_level_in_ifd 0x10f IFD_0 3 \<noteq> SL_NOT_RECORDED"
  "exif_tag_get_support_level_in_ifd 0x11a IFD_0 3 = SL_MANDATORY"
  by (simp_all add: exif_tag_get_support_level_in_ifd_def level_in_ifd_find rows_def chunks ESL_NNNN_def ESL_GPS_def ESL_MMMM_def ESL_OOOO_def)

lemma sample_level_any: "exif_tag_get_support_level_in_ifd 0x11a 0 EXIF_DATA_TYPE_COUNT = SL_MANDATORY"
proof -
  have "0x11a \<in> te_tag ` set rows" by (simp add: rows_def chunks)
  then show ?thesis
    by (simp add: exif_tag_get_support_level_in_ifd_def any_type_rows) (simp add: rows_def chunks Let_def less4 ESL_MMMM_def)
qed

lemma sample_row: "exif_tag_table_get_tag 49 = 0x11a" "49 < exif_tag_table_count"
  by (simp_all add: exif_tag_table_get_tag_def exif_tag_table_count_def ExifTagTable_rows rows_def chunks)


text \<open>
  With an entry of tag 0 in the directory a new entry is not added: it is added before its tag is set, so it
  is taken for a second entry with tag 0, refused and freed.
\<close>

lemma add_mandatory_refused:
  assumes "plenty al" and "content_ok i (c, s)" and "heap_fresh s" and "0 \<in> tags (c, s)" and "t \<notin> tags (c, s)"
  shows "\<exists>s'. add_mandatory al now ord i t (c, s) = Some (c, s') \<and> st_heap s' = st_heap s \<and> st_clock s \<le> st_clock s'"
proof -
  note ok = assms(2)
  let ?a = "st_clock s + 1"
  have fresh: "?a \<notin> dom (st_heap s)" using assms(3) unfolding heap_fresh_def by (metis add_leE nat_less_le not_add_less1)
  have new: "?a \<notin> set (c_entries c)" using content_okD [OF ok] fresh by blast
  define s1 where "s1 = put_entry ?a zero_entry (s\<lparr>st_clock := st_clock s + 3\<rparr>)"
  have e1: "exif_entry_new al s = (Some ?a, s1)"
    using assms(1) by (simp add: exif_entry_new_def exif_entry_new_mem_def exif_mem_alloc_def plenty_def s1_def numeral_3_eq_3)
  have same: "st_heap s1 b = st_heap s b" if "b \<in> set (c_entries c)" for b
    using that new by (auto simp: s1_def put_entry_def)
  have ok1: "content_ok i (c, s1)" using content_ok_cong [of c s1 s i] same ok by simp
  obtain b where b: "b \<in> set (c_entries c)" "tag_at s b = 0" using assms(4) by (auto simp: tags_def)
  have "tag_at s1 b = 0" using b same by (simp add: tag_at_def)
  then have get: "exif_content_get_entry s1 c 0 = Some (Some b)" using find_tag_unique [OF ok1 b(1)] by (simp add: get_entry_find [OF ok1])
  have known: "exif_content_get_entry s c t = Some None"
    using assms(5) by (auto simp: get_entry_find [OF ok] find_None_iff tags_def)
  have h1: "st_heap s1 ?a = Some zero_entry" by (simp add: s1_def put_entry_def)
  have e2: "exif_content_add_entry al i (Some ?a) (c, s1) = Some (c, s1)"
    using h1 get by (simp add: exif_content_add_entry_def zero_entry_def)
  have i3: "initialize_at al now ord t (Some ?a) s1 = Some s1"
    using h1 by (simp add: initialize_at_def exif_entry_initialize_def zero_entry_def) (simp add: s1_def put_entry_def zero_entry_def)
  let ?s = "s1\<lparr>st_heap := (st_heap s1)(?a := None)\<rparr>"
  have u: "exif_entry_unref (Some ?a) s1 = Some ?s"
    using h1 by (simp add: exif_entry_unref_def exif_entry_free_def put_entry_def zero_entry_def Let_def)
  have "add_mandatory al now ord i t (c, s) = Some (c, ?s)"
    unfolding add_mandatory_def by (simp only: prod.case known e1 e2 i3 u Option.bind.simps simp_thms if_False)
  moreover have "st_heap ?s = st_heap s" using fresh by (auto simp: s1_def put_entry_def domIff)
  moreover have "st_clock s \<le> st_clock ?s" by (simp add: s1_def put_entry_def)
  ultimately show ?thesis by blast
qed

lemma add_mandatory_zero:
  assumes "plenty al" and "content_ok i (c, s)" and "heap_fresh s" and "0 \<in> tags (c, s)"
  shows "\<exists>s'. add_mandatory al now ord i t (c, s) = Some (c, s') \<and> st_heap s' = st_heap s \<and> st_clock s \<le> st_clock s'"
proof (cases "t \<in> tags (c, s)")
  case True
  then obtain a where a: "a \<in> set (c_entries c)" "tag_at s a = t" by (auto simp: tags_def)
  have "find (\<lambda>b. tag_at s b = t) (c_entries c) = Some a" using find_tag_unique [OF assms(2) a(1)] a(2) by simp
  then show ?thesis by (simp add: add_mandatory_def get_entry_find [OF assms(2)])
qed (rule add_mandatory_refused [OF assms])

text \<open>
  C37. An entry with tag 0 keeps every mandatory tag out of its directory when the data type of the image is
  unknown, which it is until \<open>exif_data_set_data_type\<close> is called: in a directory other than GPS that has such an
  entry, the correction removes what is not recorded and adds no mandatory tag. (For the four known data
  types the correction removes the entry with tag 0 first.)
\<close>

theorem zero_tag_blocks_mandatory:
  assumes "plenty al" and "content_ok i (c, s)" and "heap_fresh s" and "i < EXIF_IFD_COUNT" and "i \<noteq> IFD_GPS"
    and "EXIF_DATA_TYPE_COUNT \<le> dt" and "0 \<in> tags (c, s)" and "\<forall>a \<in> set (c_entries c). fixable (the (st_heap s a))"
  shows "\<exists>cs'. exif_content_fix al now ord dt i (c, s) = Some cs' \<and> tags cs' = tags (c, s) \<inter> recorded_tags i dt \<and>
    (\<forall>t \<in> mandatory i dt. t \<notin> tags (c, s) \<longrightarrow> t \<notin> tags cs')"
proof -
  obtain s1 c2 s2 where s12: "fix_entries al ord (c_entries c) s = Some s1" "remove_all_not_recorded al i dt (c, s1) = Some (c2, s2)"
      "content_ok i (c2, s2)" "heap_fresh s2" "tags (c2, s2) = tags (c, s) \<inter> recorded_tags i dt"
    by (rule fix_and_remove [OF assms(1-3,8), of ord dt])
  have "0 \<in> recorded_tags i dt" using zero_level(2) [OF assms(4-6)] by (simp add: recorded_tags_def)
  then have z: "0 \<in> tags (c2, s2)" using s12(5) assms(7) by simp
  let ?f = "\<lambda>j cs. let t = exif_tag_table_get_tag j in
     if exif_tag_get_support_level_in_ifd t i dt = SL_MANDATORY then add_mandatory al now ord i (of_nat t) cs else Some cs"
  let ?I = "\<lambda>k cs. \<exists>s'. cs = (c2, s') \<and> st_heap s' = st_heap s2 \<and> st_clock s2 \<le> st_clock s'"
  have step: "\<exists>cs'. ?f k cs = Some cs' \<and> ?I (Suc k) cs'" if I: "?I k cs" for k cs
  proof -
    obtain s' where s': "cs = (c2, s')" "st_heap s' = st_heap s2" "st_clock s2 \<le> st_clock s'" using I by blast
    have "content_ok i (c2, s')" "0 \<in> tags (c2, s')"
      using s'(2) s12(3) z content_ok_cong [of c2 s' s2 i] by (auto simp: tags_def tag_at_def)
    moreover have "heap_fresh s'" using s'(2,3) by (intro heap_fresh_sub [OF s12(4)]) simp_all
    ultimately show ?thesis
      using add_mandatory_zero [OF assms(1), of i c2 s' now ord "of_nat (exif_tag_table_get_tag k)"] s' by (auto simp: Let_def)
  qed
  have "?I 0 (c2, s2)" by simp
  then have "\<exists>cs'. foldM ?f [0..<exif_tag_table_count] (c2, s2) = Some cs' \<and> ?I exif_tag_table_count cs'"
    by (rule foldM_upt [where I = ?I]) (rule step)
  then obtain s' where "foldM ?f [0..<exif_tag_table_count] (c2, s2) = Some (c2, s')" "st_heap s' = st_heap s2" by blast
  then have "exif_content_fix al now ord dt i (c, s) = Some (c2, s')" "tags (c2, s') = tags (c2, s2)"
    unfolding exif_content_fix_def by (simp_all only: prod.case s12(1,2) Option.bind.simps) (simp add: tags_def tag_at_def)
  then show ?thesis using s12(5) by blast
qed

theorem zero_tag_blocks_mandatory_witness:
  "\<exists>cs'. exif_content_fix mem_ok \<lparr>tm_year = 112, tm_mon = 3, tm_mday = 5, tm_hour = 9, tm_min = 8, tm_sec = 7\<rparr>
      EXIF_BYTE_ORDER_INTEL EXIF_DATA_TYPE_COUNT 0
      (\<lparr>c_entries = [4]\<rparr>, \<lparr>st_heap = [4 \<mapsto> sample_entry 0 0 2 [0x41, 0]], st_clock = 9\<rparr>) = Some cs' \<and>
    0x11a \<in> mandatory 0 EXIF_DATA_TYPE_COUNT \<and> 0x11a \<notin> tags cs'"
proof -
  let ?s = "\<lparr>st_heap = [4 \<mapsto> sample_entry 0 0 2 [0x41, 0]], st_clock = 9\<rparr>"
  have "content_ok 0 (\<lparr>c_entries = [4]\<rparr>, ?s)"
    by (simp add: content_ok_def held_def sample_entry_ok sample_sizes) (simp add: sample_entry_def)
  moreover have "heap_fresh ?s" by (simp add: heap_fresh_def)
  moreover have tg: "tags (\<lparr>c_entries = [4]\<rparr>, ?s) = {0}" by (simp add: tags_def tag_at_def sample_entry_def)
  moreover have "fixable (sample_entry 0 0 2 [0x41, 0])"
    by (simp add: fixable_def data_present_def sample_entry_ok sample_sizes) (simp add: sample_entry_def)
  ultimately obtain cs' where "exif_content_fix mem_ok \<lparr>tm_year = 112, tm_mon = 3, tm_mday = 5, tm_hour = 9, tm_min = 8, tm_sec = 7\<rparr>
      EXIF_BYTE_ORDER_INTEL EXIF_DATA_TYPE_COUNT 0 (\<lparr>c_entries = [4]\<rparr>, ?s) = Some cs'"
      "\<forall>t \<in> mandatory 0 EXIF_DATA_TYPE_COUNT. t \<notin> {0} \<longrightarrow> t \<notin> tags cs'"
    using zero_tag_blocks_mandatory [where al = mem_ok and i = 0 and c = "\<lparr>c_entries = [4]\<rparr>" and s = ?s and dt = EXIF_DATA_TYPE_COUNT
        and now = "\<lparr>tm_year = 112, tm_mon = 3, tm_mday = 5, tm_hour = 9, tm_min = 8, tm_sec = 7\<rparr>"
        and ord = EXIF_BYTE_ORDER_INTEL]
    by (auto simp: plenty_mem_ok)
  moreover have "0x11a \<in> mandatory 0 EXIF_DATA_TYPE_COUNT"
    unfolding mandatory_def using sample_row sample_level_any by (intro CollectI exI [of _ 49]) simp
  ultimately show ?thesis by auto
qed

section \<open>All entries of an image\<close>

lemma foldM_map_concat: "foldM (\<lambda>c. foldM g (h c)) cs s = foldM g (concat (map h cs)) s"
proof (induction cs arbitrary: s)
  case (Cons c cs)
  then show ?case by (cases "foldM g (h c) s") (simp_all add: foldM_append)
qed simp

definition all_entries :: "ExifData \<Rightarrow> nat list" where
  "all_entries data = concat (map c_entries (ed_ifd data))"

lemma all_entries_ok:
  assumes "data_ok data"
  shows "distinct (all_entries data)" "set (all_entries data) = dom (st_heap (ed_store data))"
    "\<forall>a \<in> set (all_entries data). \<exists>e. st_heap (ed_store data) a = Some e \<and> e_ref_count e = 1 \<and> entry_ok e"
proof -
  have ok: "ifds_ok (ed_ifd data) (ed_store data) {}" using assms by (simp add: data_ok_def)
  have len: "length (ed_ifd data) = EXIF_IFD_COUNT" using ok by (simp add: ifds_ok_def)
  show set: "set (all_entries data) = dom (st_heap (ed_store data))"
    using ok len by (simp add: ifds_ok_def all_entries_def set_conv_nth [of "ed_ifd data"]) blast
  have dist: "distinct (c_entries (ed_ifd data ! i))" if "i < EXIF_IFD_COUNT" for i
    using content_ok_distinct [OF ifds_okD(5) [OF ok that]] .
  have disj: "set (c_entries (ed_ifd data ! i)) \<inter> set (c_entries (ed_ifd data ! j)) = {}"
    if "i < EXIF_IFD_COUNT" "j < EXIF_IFD_COUNT" "i \<noteq> j" for i j
    using entries_disjoint [OF ok that(1,2)] that(3) by blast
  have "distinct (concat (map (\<lambda>i. c_entries (ed_ifd data ! i)) [0..<n]))" if "n \<le> EXIF_IFD_COUNT" for n
    using that
  proof (induction n)
    case (Suc n)
    have "set (c_entries (ed_ifd data ! j)) \<inter> set (c_entries (ed_ifd data ! n)) = {}" if "j < n" for j
      using disj [of j n] Suc.prems that by simp
    then have "set (concat (map (\<lambda>i. c_entries (ed_ifd data ! i)) [0..<n])) \<inter> set (c_entries (ed_ifd data ! n)) = {}"
      by (auto simp: disjoint_iff)
    then show ?case using Suc dist [of n] by simp
  qed simp
  then have "distinct (concat (map (\<lambda>i. c_entries (ed_ifd data ! i)) [0..<length (ed_ifd data)]))" using len by simp
  moreover have "map (\<lambda>i. c_entries (ed_ifd data ! i)) [0..<length (ed_ifd data)] = map c_entries (ed_ifd data)"
    by (rule nth_equalityI) simp_all
  ultimately show "distinct (all_entries data)" by (simp add: all_entries_def)
  have "\<exists>e. st_heap (ed_store data) a = Some e \<and> e_ref_count e = 1 \<and> entry_ok e"
    if "i < EXIF_IFD_COUNT" "a \<in> set (c_entries (ed_ifd data ! i))" for i a
    using ifds_okD(5) [OF ok that(1)] that(2) by (auto simp: content_ok_def held_def)
  then show "\<forall>a \<in> set (all_entries data). \<exists>e. st_heap (ed_store data) a = Some e \<and> e_ref_count e = 1 \<and> entry_ok e"
    using len by (fastforce simp: all_entries_def in_set_conv_nth [of _ "ed_ifd data"])
qed

subsection \<open>Releasing\<close>

lemma unref_all:
  assumes "distinct as" and "\<forall>a \<in> set as. \<exists>e. st_heap s a = Some e \<and> e_ref_count e = 1"
  shows "\<exists>s'. foldM (\<lambda>a. exif_entry_unref (Some a)) as s = Some s' \<and> st_heap s' = st_heap s |` (- set as)"
  using assms
proof (induction as arbitrary: s)
  case Nil
  then show ?case by simp
next
  case (Cons a as)
  obtain e where e: "st_heap s a = Some e" "e_ref_count e = 1" using Cons.prems(2) by auto
  let ?s = "s\<lparr>st_heap := (st_heap s)(a := None)\<rparr>"
  have "exif_entry_unref (Some a) s = Some ?s"
    using e by (simp add: exif_entry_unref_def exif_entry_free_def put_entry_def Let_def)
  moreover have "\<forall>b \<in> set as. \<exists>e. st_heap ?s b = Some e \<and> e_ref_count e = 1" using Cons.prems by auto
  then obtain s' where "foldM (\<lambda>a. exif_entry_unref (Some a)) as ?s = Some s'" "st_heap s' = st_heap ?s |` (- set as)"
    using Cons.IH [of ?s] Cons.prems(1) by (meson distinct.simps(2))
  moreover have "st_heap ?s |` (- set as) = st_heap s |` (- set (a # as))" by (auto simp: restrict_map_def)
  ultimately show ?case by auto
qed

lemma exif_data_free_ok:
  assumes "data_ok data"
  shows "\<exists>s. exif_data_free data = Some s \<and> st_heap s = Map.empty"
proof -
  have "exif_data_free data = foldM (\<lambda>a. exif_entry_unref (Some a)) (all_entries data) (ed_store data)"
    unfolding exif_data_free_def exif_content_free_def all_entries_def by (rule foldM_map_concat)
  moreover have "st_heap (ed_store data) |` (- dom (st_heap (ed_store data))) = Map.empty"
    by (auto simp: restrict_map_def)
  moreover have "\<forall>a \<in> set (all_entries data). \<exists>e. st_heap (ed_store data) a = Some e \<and> e_ref_count e = 1"
    using all_entries_ok(3) [OF assms] by blast
  ultimately show ?thesis
    using unref_all [OF all_entries_ok(1) [OF assms]] all_entries_ok(2) [OF assms] by metis
qed

text \<open>
  C18. Releasing an image frees every entry exactly once: no freed entry is used, no reference is
  dropped twice, and no entry is left in the store.
\<close>

theorem data_free_leaves_nothing:
  assumes "data_ok data"
  shows "\<exists>s. exif_data_free data = Some s \<and> st_heap s = Map.empty"
  using assms by (rule exif_data_free_ok)

theorem data_free_leaves_nothing_witness:
  "\<exists>s. exif_data_free sample_data = Some s \<and> st_heap s = Map.empty"
  using data_free_leaves_nothing [OF sample_data_ok] .

subsection \<open>The byte order\<close>

definition swap :: "ExifByteOrder \<Rightarrow> ExifByteOrder \<Rightarrow> ExifEntry \<Rightarrow> ExifEntry" where
  "swap o1 o2 e = e\<lparr>e_data := the (exif_array_set_byte_order (e_format e) (e_data e) (e_components e) o1 o2)\<rparr>"

text \<open>The values of an entry: none if its data could not be allocated.\<close>

definition entry_values :: "ExifByteOrder \<Rightarrow> ExifEntry \<Rightarrow> u32 list option list" where
  "entry_values ord e =
    (if e_data e = NULL then []
     else map (\<lambda>j. array_value (e_format e) (e_data e) (j * unat (exif_format_get_size (e_format e))) ord) [0..<unat (e_components e)])"

lemma entry_swap:
  assumes "entry_ok e"
  shows "exif_array_set_byte_order (e_format e) (e_data e) (e_components e) o1 o2 = Some (e_data (swap o1 o2 e))"
    "entry_ok (swap o1 o2 e)" "swap o2 o1 (swap o1 o2 e) = e"
    "e_format e \<noteq> EXIF_FORMAT_FLOAT \<and> e_format e \<noteq> EXIF_FORMAT_DOUBLE \<Longrightarrow> entry_values o2 (swap o1 o2 e) = entry_values o1 e"
    "e_format e = EXIF_FORMAT_FLOAT \<or> e_format e = EXIF_FORMAT_DOUBLE \<Longrightarrow> e_data (swap o1 o2 e) = e_data e"
proof -
  have "\<exists>d. exif_array_set_byte_order (e_format e) (e_data e) (e_components e) o1 o2 = Some d \<and> blen d = blen (e_data e) \<and>
     (d = NULL \<longleftrightarrow> e_data e = NULL) \<and> exif_array_set_byte_order (e_format e) d (e_components e) o2 o1 = Some (e_data e) \<and>
     (\<forall>j < unat (e_components e). e_data e \<noteq> NULL \<longrightarrow> e_format e \<noteq> EXIF_FORMAT_FLOAT \<longrightarrow> e_format e \<noteq> EXIF_FORMAT_DOUBLE \<longrightarrow>
        array_value (e_format e) d (j * unat (exif_format_get_size (e_format e))) o2
          = array_value (e_format e) (e_data e) (j * unat (exif_format_get_size (e_format e))) o1)"
  proof (cases "e_data e")
    case NULL
    then show ?thesis by (simp add: exif_array_set_byte_order_def)
  next
    case (Buf bs)
    have len: "length bs = unat (e_size e)" "unat (e_size e) = unat (exif_format_get_size (e_format e)) * unat (e_components e)"
      using assms Buf by (auto simp: entry_ok_def)
    have b: "unat (e_components e) * unat (exif_format_get_size (e_format e)) \<le> blen (e_data e)" "blen (e_data e) < 2 ^ 32"
      using len unat_u32 [of "e_size e"] by (simp_all add: Buf mult.commute)
    obtain d where d: "exif_array_set_byte_order (e_format e) (e_data e) (e_components e) o1 o2 = Some d" "blen d = blen (e_data e)"
        "exif_array_set_byte_order (e_format e) d (e_components e) o2 o1 = Some (e_data e)"
      using exif_array_set_byte_order_roundtrip [OF b, of o1 o2] by blast
    have nn: "e_data e \<noteq> NULL" by (simp add: Buf)
    have "d \<noteq> NULL" using d(3) Buf by (auto simp: exif_array_set_byte_order_def)
    with nn d exif_array_set_byte_order_values [OF b nn d(1)] show ?thesis by blast
  qed
  then obtain d where d: "exif_array_set_byte_order (e_format e) (e_data e) (e_components e) o1 o2 = Some d" "blen d = blen (e_data e)"
     "d = NULL \<longleftrightarrow> e_data e = NULL" "exif_array_set_byte_order (e_format e) d (e_components e) o2 o1 = Some (e_data e)"
     "\<And>j. j < unat (e_components e) \<Longrightarrow> e_data e \<noteq> NULL \<Longrightarrow> e_format e \<noteq> EXIF_FORMAT_FLOAT \<Longrightarrow> e_format e \<noteq> EXIF_FORMAT_DOUBLE \<Longrightarrow>
        array_value (e_format e) d (j * unat (exif_format_get_size (e_format e))) o2
          = array_value (e_format e) (e_data e) (j * unat (exif_format_get_size (e_format e))) o1"
    by blast
  have sw: "swap o1 o2 e = e\<lparr>e_data := d\<rparr>" using d(1) by (simp add: swap_def)
  show "exif_array_set_byte_order (e_format e) (e_data e) (e_components e) o1 o2 = Some (e_data (swap o1 o2 e))"
    using d(1) by (simp add: sw)
  show "entry_ok (swap o1 o2 e)" using assms d(2,3) by (cases d) (auto simp: sw entry_ok_def)
  show "swap o2 o1 (swap o1 o2 e) = e" using d(4) unfolding sw by (simp add: swap_def)
  show "e_format e \<noteq> EXIF_FORMAT_FLOAT \<and> e_format e \<noteq> EXIF_FORMAT_DOUBLE \<Longrightarrow> entry_values o2 (swap o1 o2 e) = entry_values o1 e"
    using d(3,5) by (simp add: sw entry_values_def)
  show "e_format e = EXIF_FORMAT_FLOAT \<or> e_format e = EXIF_FORMAT_DOUBLE \<Longrightarrow> e_data (swap o1 o2 e) = e_data e"
    by (auto simp: swap_def exif_array_set_byte_order_other swapped_formats_def)
qed

lemma swap_fields [simp]:
  "e_tag (swap o1 o2 e) = e_tag e" "e_format (swap o1 o2 e) = e_format e" "e_components (swap o1 o2 e) = e_components e"
  "e_size (swap o1 o2 e) = e_size e" "e_parent (swap o1 o2 e) = e_parent e" "e_ref_count (swap o1 o2 e) = e_ref_count e"
  by (simp_all add: swap_def)

lemma swap_all:
  assumes "distinct as" and "\<forall>a \<in> set as. \<exists>e. st_heap s a = Some e \<and> entry_ok e"
  shows "foldM (entry_set_byte_order o1 o2) as s =
    Some (s\<lparr>st_heap := \<lambda>a. if a \<in> set as then map_option (swap o1 o2) (st_heap s a) else st_heap s a\<rparr>)"
  using assms
proof (induction as arbitrary: s)
  case Nil
  then show ?case by simp
next
  case (Cons a as)
  obtain e where e: "st_heap s a = Some e" "entry_ok e" using Cons.prems(2) by auto
  have upd: "e\<lparr>e_data := e_data (swap o1 o2 e)\<rparr> = swap o1 o2 e" by (simp add: swap_def)
  let ?s = "put_entry a (swap o1 o2 e) s"
  have run: "entry_set_byte_order o1 o2 a s = Some ?s" using e(1) entry_swap(1) [OF e(2)] by (simp add: entry_set_byte_order_def upd)
  have pre: "\<forall>b \<in> set as. \<exists>e. st_heap ?s b = Some e \<and> entry_ok e" using Cons.prems by (auto simp: put_entry_def)
  have "foldM (entry_set_byte_order o1 o2) as ?s
      = Some (?s\<lparr>st_heap := \<lambda>b. if b \<in> set as then map_option (swap o1 o2) (st_heap ?s b) else st_heap ?s b\<rparr>)"
    using Cons.IH [OF _ pre] Cons.prems(1) by simp
  moreover have "(\<lambda>b. if b \<in> set as then map_option (swap o1 o2) (st_heap ?s b) else st_heap ?s b)
      = (\<lambda>b. if b \<in> set (a # as) then map_option (swap o1 o2) (st_heap s b) else st_heap s b)"
    using Cons.prems(1) e(1) by (auto simp: put_entry_def)
  moreover have "?s\<lparr>st_heap := h\<rparr> = s\<lparr>st_heap := h\<rparr>" for h by (simp add: put_entry_def)
  ultimately show ?case using run by simp
qed

lemma set_byte_order_eq:
  assumes "data_ok data" and "ord \<noteq> ed_order data"
  shows "exif_data_set_byte_order ord data = Some (data\<lparr>ed_store := (ed_store data)\<lparr>st_heap :=
      (\<lambda>a. map_option (swap (ed_order data) ord) (st_heap (ed_store data) a))\<rparr>, ed_order := ord\<rparr>)"
proof -
  note all = all_entries_ok [OF assms(1)]
  have pre: "\<forall>a \<in> set (all_entries data). \<exists>e. st_heap (ed_store data) a = Some e \<and> entry_ok e" using all(3) by blast
  have "foldM (content_set_byte_order (ed_order data) ord) (ed_ifd data) (ed_store data)
      = foldM (entry_set_byte_order (ed_order data) ord) (all_entries data) (ed_store data)"
    unfolding content_set_byte_order_def all_entries_def by (rule foldM_map_concat)
  also note swap_all [OF all(1) pre]
  also have "(\<lambda>a. if a \<in> set (all_entries data) then map_option (swap (ed_order data) ord) (st_heap (ed_store data) a)
        else st_heap (ed_store data) a) = (\<lambda>a. map_option (swap (ed_order data) ord) (st_heap (ed_store data) a))"
    unfolding all(2) by (auto simp: domIff)
  finally show ?thesis using assms(2) by (simp add: exif_data_set_byte_order_def)
qed

lemma data_ok_swap:
  assumes "data_ok data"
  shows "data_ok (data\<lparr>ed_store := (ed_store data)\<lparr>st_heap := \<lambda>a. map_option (swap o1 o2) (st_heap (ed_store data) a)\<rparr>, ed_order := ord\<rparr>)"
proof -
  let ?s = "(ed_store data)\<lparr>st_heap := \<lambda>a. map_option (swap o1 o2) (st_heap (ed_store data) a)\<rparr>"
  have ok: "ifds_ok (ed_ifd data) (ed_store data) {}" "thumb_ok data" using assms by (simp_all add: data_ok_def)
  have c: "content_ok i (ed_ifd data ! i, ?s)" if i: "i < EXIF_IFD_COUNT" for i
  proof -
    note ci = ifds_okD(5) [OF ok(1) i]
    have "map (tag_at ?s) (c_entries (ed_ifd data ! i)) = map (tag_at (ed_store data)) (c_entries (ed_ifd data ! i))"
      using ci by (auto simp: tag_at_def content_ok_def held_def)
    moreover have "held i ?s a" if "held i (ed_store data) a" for a using that entry_swap(2) by (auto simp: held_def)
    ultimately show ?thesis using ci by (simp add: content_ok_def del: map_eq_conv)
  qed
  have "dom (st_heap ?s) = dom (st_heap (ed_store data))" by (auto simp: domIff)
  then have "ifds_ok (ed_ifd data) ?s {}" using ok(1) c by (simp add: ifds_ok_def)
  then show ?thesis using ok(2) by (simp add: data_ok_def thumb_ok_def)
qed

text \<open>
  C19. Changing the byte order of an image converts the entries of every directory in place: the values of an
  entry of any format but float and double, read in the new order, are the ones it had, and its tag, format
  and size stay. The bytes of an entry of floats or doubles stay as they are, so that its values are other
  ones in the new order. The image stays well formed, and changing back restores every byte.
\<close>

theorem data_set_byte_order_values:
  assumes "data_ok data"
  shows "\<exists>data'. exif_data_set_byte_order ord data = Some data' \<and> ed_order data' = ord \<and> data_ok data' \<and>
     (\<forall>a e. st_heap (ed_store data) a = Some e \<longrightarrow> (\<exists>e'. st_heap (ed_store data') a = Some e' \<and>
        e_tag e' = e_tag e \<and> e_format e' = e_format e \<and> e_size e' = e_size e \<and>
        (if e_format e = EXIF_FORMAT_FLOAT \<or> e_format e = EXIF_FORMAT_DOUBLE then e_data e' = e_data e
         else entry_values ord e' = entry_values (ed_order data) e))) \<and>
     exif_data_set_byte_order (ed_order data) data' = Some data"
proof (cases "ord = ed_order data")
  case True
  then show ?thesis using assms by (simp add: exif_data_set_byte_order_def)
next
  case False
  let ?s = "(ed_store data)\<lparr>st_heap := \<lambda>a. map_option (swap (ed_order data) ord) (st_heap (ed_store data) a)\<rparr>"
  let ?d = "data\<lparr>ed_store := ?s, ed_order := ord\<rparr>"
  have ok: "data_ok ?d" using data_ok_swap [OF assms] .
  have eok: "entry_ok e" if "st_heap (ed_store data) a = Some e" for a e
    using all_entries_ok(2,3) [OF assms] that by (metis domI option.inject)
  have "map_option (swap ord (ed_order data)) (map_option (swap (ed_order data) ord) (st_heap (ed_store data) a))
      = st_heap (ed_store data) a" for a
    using eok [of a] entry_swap(3) by (cases "st_heap (ed_store data) a") auto
  then have undo: "exif_data_set_byte_order (ed_order data) ?d = Some data"
    using set_byte_order_eq [OF ok, of "ed_order data"] False by simp
  show ?thesis
    using set_byte_order_eq [OF assms False] ok undo eok entry_swap(4,5)
    by (intro exI [of _ ?d]) auto
qed

theorem data_set_byte_order_values_witness:
  "\<exists>data'. exif_data_set_byte_order EXIF_BYTE_ORDER_MOTOROLA sample_data = Some data' \<and> data_ok data' \<and>
     exif_data_set_byte_order (ed_order sample_data) data' = Some sample_data"
  using data_set_byte_order_values [OF sample_data_ok, of EXIF_BYTE_ORDER_MOTOROLA] by blast

end
