(* ===== verification/Mnote.thy ===== *)
theory Mnote
  imports Exif_Fix
begin

text \<open>
  Maker notes: what \<^verbatim>\<open>libexifa/canon\<close>, \<^verbatim>\<open>fuji\<close>, \<^verbatim>\<open>olympus\<close> and \<^verbatim>\<open>pentax\<close> have in common. A maker note is a
  directory of its own inside the data of one EXIF entry. Every vendor module has its own copy
  of the loops that read and write the directory; the copies differ in a few points, which are
  parameters here (\<open>LoadStyle\<close>, \<open>SaveStyle\<close>). The theory has the loops, their memory safety, the layout
  that the writing loop produces, and that the reading loop reads it back.

  \<open>n->entries\<close> is \<open>None\<close> for the null pointer, else the list of the first \<open>n->count\<close> entries; a null
  pointer goes with a count of 0. The number of requests for memory so far is passed along.
\<close>

section \<open>Data\<close>

text \<open>\<open>MnoteCanonEntry\<close>, \<open>MnoteFujiEntry\<close>, \<open>MnoteOlympusEntry\<close> and \<open>MnotePentaxEntry\<close> have the same members.\<close>

record MnoteEntry =
  mn_tag :: u32
  mn_format :: ExifFormat
  mn_components :: u32
  mn_data :: cbuf
  mn_size :: u32
  mn_order :: ExifByteOrder

record MnoteData =
  n_entries :: "MnoteEntry list option"
  n_order :: ExifByteOrder
  n_offset :: u32

definition n_list :: "'a MnoteData_scheme \<Rightarrow> MnoteEntry list" where
  "n_list n = (case n_entries n of None \<Rightarrow> [] | Some es \<Rightarrow> es)"

abbreviation (input) n_count :: "'a MnoteData_scheme \<Rightarrow> nat" where
  "n_count n \<equiv> length (n_list n)"

definition mnote_clear :: "'a MnoteData_scheme \<Rightarrow> 'a MnoteData_scheme" where
  "mnote_clear n = n\<lparr>n_entries := None\<rparr>"

definition mnote_set_offset :: "u32 \<Rightarrow> 'a MnoteData_scheme \<Rightarrow> 'a MnoteData_scheme" where
  "mnote_set_offset off n = n\<lparr>n_offset := off\<rparr>"

fun order_entries :: "ExifByteOrder \<Rightarrow> ExifByteOrder \<Rightarrow> MnoteEntry list \<Rightarrow> MnoteEntry list option" where
  "order_entries o_orig ord [] = Some []"
| "order_entries o_orig ord (e # es) =
    do { b \<leftarrow> exif_array_set_byte_order (mn_format e) (mn_data e) (mn_components e) o_orig ord;
         es \<leftarrow> order_entries o_orig ord es;
         Some (e\<lparr>mn_order := ord, mn_data := b\<rparr> # es) }"

definition mnote_set_byte_order :: "ExifByteOrder \<Rightarrow> 'a MnoteData_scheme \<Rightarrow> 'a MnoteData_scheme option" where
  "mnote_set_byte_order ord n =
    (case n_entries n of
       None \<Rightarrow> Some (n\<lparr>n_order := ord\<rparr>)
     | Some es \<Rightarrow>
         do { es \<leftarrow> order_entries (n_order n) ord es;
              Some (n\<lparr>n_order := ord, n_entries := Some es\<rparr>) })"

text \<open>The size that format and number of components promise, a product of 32 bits.\<close>

definition mn_bytes :: "ExifFormat \<Rightarrow> u32 \<Rightarrow> u32" where
  "mn_bytes f c = ucast (exif_format_get_size f) * c"

section \<open>Reading the entries\<close>

text \<open>
  The differences: what is added to a tag and to the offset of data, whether an entry
  without data is kept (Canon skips it), and whether data may end where the buffer ends (not
  for Fuji).
\<close>

record LoadStyle =
  ls_base :: u32
  ls_datao :: u32
  ls_zero :: bool
  ls_strict :: bool

text \<open>Where the data of the entry at \<open>p\<close> are.\<close>

definition data_offset :: "LoadStyle \<Rightarrow> ExifByteOrder \<Rightarrow> cbuf \<Rightarrow> u32 \<Rightarrow> u32 \<Rightarrow> u32 option" where
  "data_offset st ord buf p s =
    (if s > 4 then do { v \<leftarrow> exif_get_long buf (unat p + 8) ord; Some (v + ls_datao st) } else Some (p + 8))"

definition past_end :: "LoadStyle \<Rightarrow> u32 \<Rightarrow> u32 \<Rightarrow> u32 \<Rightarrow> bool" where
  "past_end st buf_size doff s \<longleftrightarrow>
    doff + s < doff \<or> doff + s < s \<or> (if ls_strict st then doff + s \<ge> buf_size else doff + s > buf_size)"

definition load_mentry ::
  "alloc \<Rightarrow> LoadStyle \<Rightarrow> ExifByteOrder \<Rightarrow> cbuf \<Rightarrow> u32 \<Rightarrow> u32 \<Rightarrow> MnoteEntry list \<times> nat \<Rightarrow> (MnoteEntry list \<times> nat) option" where
  "load_mentry al st ord buf buf_size p = (\<lambda>(es, k).
    do { t \<leftarrow> exif_get_short buf (unat p) ord;
         f \<leftarrow> exif_get_short buf (unat p + 2) ord;
         c \<leftarrow> exif_get_long buf (unat p + 4) ord;
         let s = mn_bytes f c;
         let e = \<lparr>mn_tag = ucast t + ls_base st, mn_format = f, mn_components = c, mn_data = NULL, mn_size = s, mn_order = ord\<rparr>;
         if s = 0 then Some (if ls_zero st then es @ [e] else es, k)
         else do {
           doff \<leftarrow> data_offset st ord buf p s;
           if past_end st buf_size doff s then Some (es, k)
           else if al k (unat s)
             then do { bs \<leftarrow> rd_range buf (unat doff) (unat s); Some (es @ [e\<lparr>mn_data := Buf bs\<rparr>], Suc k) }
             else Some (es, Suc k) } })"

primrec load_loop ::
  "alloc \<Rightarrow> LoadStyle \<Rightarrow> ExifByteOrder \<Rightarrow> cbuf \<Rightarrow> u32 \<Rightarrow> nat \<Rightarrow> u32 \<Rightarrow> MnoteEntry list \<times> nat \<Rightarrow> (MnoteEntry list \<times> nat) option" where
  "load_loop al st ord buf buf_size 0 p r = Some r"
| "load_loop al st ord buf buf_size (Suc i) p r =
    (if p + 12 < p \<or> p + 12 < 12 \<or> p + 12 > buf_size then Some r
     else do { r \<leftarrow> load_mentry al st ord buf buf_size p r; load_loop al st ord buf buf_size i (p + 12) r })"

text \<open>The second half of every loader: the number of entries stands at \<open>p\<close>. An entry takes 24 bytes of memory.\<close>

definition load_mentries ::
  "alloc \<Rightarrow> LoadStyle \<Rightarrow> cbuf \<Rightarrow> u32 \<Rightarrow> u32 \<Rightarrow> 'a MnoteData_scheme \<times> nat \<Rightarrow> ('a MnoteData_scheme \<times> nat) option" where
  "load_mentries al st buf buf_size p = (\<lambda>(n, k).
    do { c \<leftarrow> exif_get_short buf (unat p) (n_order n);
         let n = mnote_clear n;
         if al k (24 * unat c)
         then do { (es, k) \<leftarrow> load_loop al st (n_order n) buf buf_size (unat c) (p + 2) ([], Suc k);
                   Some (n\<lparr>n_entries := Some es\<rparr>, k) }
         else Some (n, Suc k) })"

section \<open>Writing the entries\<close>

text \<open>
  The differences: what is subtracted from a tag, what is added to the offset of data, whether
  data are padded to an even length (Canon, Fuji), and whether the rest of a short value is cleared
  (Canon; elsewhere it is still zero from the allocation).
\<close>

record SaveStyle =
  ss_base :: u32
  ss_datao :: u32
  ss_even :: bool
  ss_fill :: bool

definition save_mdata :: "SaveStyle \<Rightarrow> MnoteEntry \<Rightarrow> u32 \<Rightarrow> nat \<Rightarrow> cbuf \<Rightarrow> cbuf option" where
  "save_mdata st e s doff d =
    do { bs \<leftarrow> (if mn_data e \<noteq> NULL then rd_range (mn_data e) 0 (unat s) else Some (replicate (unat s) 0));
         d \<leftarrow> wr_range d doff bs;
         if ss_fill st \<and> s < 4 then wr_range d (doff + unat s) (replicate (4 - unat s) 0) else Some d }"

text \<open>
  One entry, whose record is at \<open>p\<close>. Data of more than four bytes go behind everything else, at the
  old end of the block. The flag is \<open>False\<close> when the code returns for lack of memory.
\<close>

definition save_mentry ::
  "alloc \<Rightarrow> SaveStyle \<Rightarrow> ExifByteOrder \<Rightarrow> MnoteEntry \<Rightarrow> nat \<Rightarrow> Out \<Rightarrow> (bool \<times> Out) option" where
  "save_mentry al st ord e p out =
    do { d \<leftarrow> exif_set_short (o_d out) p ord (ucast (mn_tag e - ss_base st));
         d \<leftarrow> exif_set_short d (p + 2) ord (mn_format e);
         d \<leftarrow> exif_set_long d (p + 4) ord (mn_components e);
         let out = out\<lparr>o_d := d\<rparr>;
         let s = mn_bytes (mn_format e) (mn_components e);
         if s > 65536 then Some (True, out)
         else if s > 4
         then
           let doff = o_ds out;
               odd = ss_even st \<and> s AND 1 \<noteq> 0;
               ts = (if odd then doff + s + 1 else doff + s)
           in case exif_mem_realloc al ts out of
             (False, out) \<Rightarrow> Some (False, out)
           | (True, out) \<Rightarrow>
               do { d \<leftarrow> (if odd then wr (o_d out) (unat ts - 1) 0 else Some (o_d out));
                    d \<leftarrow> exif_set_long d (p + 8) ord (ss_datao st + doff);
                    d \<leftarrow> save_mdata st e s (unat doff) d;
                    Some (True, out\<lparr>o_d := d, o_ds := ts\<rparr>) }
         else do { d \<leftarrow> save_mdata st e s (p + 8) d; Some (True, out\<lparr>o_d := d\<rparr>) } }"

fun save_loop ::
  "alloc \<Rightarrow> SaveStyle \<Rightarrow> ExifByteOrder \<Rightarrow> MnoteEntry list \<Rightarrow> nat \<Rightarrow> Out \<Rightarrow> (bool \<times> Out) option" where
  "save_loop al st ord [] p out = Some (True, out)"
| "save_loop al st ord (e # es) p out =
    do { (ok, out) \<leftarrow> save_mentry al st ord e p out;
         if ok then save_loop al st ord es (p + 12) out else Some (False, out) }"

text \<open>\<open>exif_mem_alloc\<close> for the block: cleared memory, or a null pointer.\<close>

definition new_out :: "alloc \<Rightarrow> u32 \<Rightarrow> nat \<Rightarrow> Out" where
  "new_out al n k = \<lparr>o_d = (if al k (unat n) then Buf (replicate (unat n) 0) else NULL), o_ds = n, o_clock = Suc k\<rparr>"


section \<open>Memory safety of the loops\<close>

text \<open>An entry has exactly the data that its size says.\<close>

definition mentry_ok :: "MnoteEntry \<Rightarrow> bool" where
  "mentry_ok e \<longleftrightarrow> mn_size e = mn_bytes (mn_format e) (mn_components e) \<and> blen (mn_data e) = unat (mn_size e)"

definition mnote_ok :: "'a MnoteData_scheme \<Rightarrow> bool" where
  "mnote_ok n \<longleftrightarrow> list_all mentry_ok (n_list n) \<and> n_count n < 2 ^ 16"

lemma not_past_end:
  assumes "\<not> past_end st (of_nat L) doff s" and "L < 2 ^ 32"
  shows "unat doff + unat s \<le> L"
proof -
  have w: "unat (of_nat L :: u32) = L" using assms(2) by (rule unat_word_of_nat_32)
  have "unat (doff + s) = unat doff + unat s" "unat (doff + s) \<le> L"
    using assms(1) word_add_nowrap [of doff s] w
    by (auto simp: past_end_def not_less word_le_nat_alt word_less_nat_alt split: if_splits)
  then show ?thesis by simp
qed

text \<open>The record at a place of the file, and where it says its data are.\<close>

definition mentry_at :: "LoadStyle \<Rightarrow> ExifByteOrder \<Rightarrow> bytes \<Rightarrow> nat \<Rightarrow> MnoteEntry" where
  "mentry_at st ord d p =
    (let f = dec16 ord (take 2 (drop (p + 2) d)); c = dec32 ord (take 4 (drop (p + 4) d)) in
     \<lparr>mn_tag = ucast (dec16 ord (take 2 (drop p d))) + ls_base st, mn_format = f, mn_components = c,
      mn_data = NULL, mn_size = mn_bytes f c, mn_order = ord\<rparr>)"

definition mdata_at :: "LoadStyle \<Rightarrow> ExifByteOrder \<Rightarrow> bytes \<Rightarrow> u32 \<Rightarrow> u32 \<Rightarrow> u32" where
  "mdata_at st ord d p s = (if s > 4 then dec32 ord (take 4 (drop (unat p + 8) d)) + ls_datao st else p + 8)"

lemma load_mentry_eq:
  assumes "unat p + 12 \<le> length d" and "e = mentry_at st ord d (unat p)" and "s = mn_size e"
    and "doff = mdata_at st ord d p s"
  shows "load_mentry al st ord (Buf d) bsz p (es, k) =
    (if s = 0 then Some (if ls_zero st then es @ [e] else es, k)
     else if past_end st bsz doff s then Some (es, k)
     else if al k (unat s) then do { bs \<leftarrow> rd_range (Buf d) (unat doff) (unat s); Some (es @ [e\<lparr>mn_data := Buf bs\<rparr>], Suc k) }
     else Some (es, Suc k))"
proof -
  have "data_offset st ord (Buf d) p s = Some doff"
    using assms(1,4) by (auto simp: data_offset_def mdata_at_def elong.get_eq)
  then show ?thesis
    using assms(1-3)
    by (simp add: load_mentry_def get_short_Buf get_long_Buf mentry_at_def Let_def del: rd_range.simps)
qed

text \<open>What a loop adds: entries that are as they say, and none without data where the style has none.\<close>

definition mentry_in :: "LoadStyle \<Rightarrow> MnoteEntry \<Rightarrow> bool" where
  "mentry_in st e \<longleftrightarrow> mentry_ok e \<and> (ls_zero st \<or> mn_size e \<noteq> 0)"

lemma load_mentry_safe:
  assumes "unat p + 12 \<le> length d" and "length d < 2 ^ 32" and "list_all (mentry_in st) es"
  shows "\<exists>es' k'. load_mentry al st ord (Buf d) (of_nat (length d)) p (es, k) = Some (es', k') \<and>
    list_all (mentry_in st) es' \<and> length es' \<le> Suc (length es)"
proof -
  define e where "e = mentry_at st ord d (unat p)"
  have "mn_size e = 0 \<Longrightarrow> ls_zero st \<Longrightarrow> mentry_in st e"
    "mn_size e \<noteq> 0 \<Longrightarrow> length bs = unat (mn_size e) \<Longrightarrow> mentry_in st (e\<lparr>mn_data := Buf bs\<rparr>)" for bs
    by (simp_all add: mentry_in_def mentry_ok_def e_def mentry_at_def Let_def)
  then show ?thesis
    using assms(3) not_past_end [of st "length d" "mdata_at st ord d p (mn_size e)" "mn_size e"] assms(2)
    by (auto simp: load_mentry_eq [OF assms(1) e_def refl refl])
qed

lemma load_loop_safe:
  assumes "length d < 2 ^ 32" and "list_all (mentry_in st) es"
  shows "\<exists>es' k'. load_loop al st ord (Buf d) (of_nat (length d)) i p (es, k) = Some (es', k') \<and>
    list_all (mentry_in st) es' \<and> length es' \<le> i + length es"
  using assms(2)
proof (induction i arbitrary: p es k)
  case 0
  then show ?case by simp
next
  case (Suc i)
  show ?case
  proof (cases "p + 12 < p \<or> p + 12 < 12 \<or> p + 12 > of_nat (length d)")
    case True
    then show ?thesis using Suc.prems by simp
  next
    case False
    then have "unat p + 12 \<le> length d"
      using word_add_nowrap [of p 12] unat_word_of_nat_32 [OF assms(1)] by (simp add: not_less word_le_nat_alt)
    from load_mentry_safe [OF this assms(1) Suc.prems]
    obtain es1 k1 where r: "load_mentry al st ord (Buf d) (of_nat (length d)) p (es, k) = Some (es1, k1)"
      "list_all (mentry_in st) es1" "length es1 \<le> Suc (length es)" by blast
    from Suc.IH [OF r(2), of "p + 12" k1] r False show ?thesis by auto
  qed
qed

lemma load_mentries_safe:
  assumes "unat p + 2 \<le> length d" and "length d < 2 ^ 32"
  shows "\<exists>es k'. load_mentries al st (Buf d) (of_nat (length d)) p (n, k) = Some (n\<lparr>n_entries := es\<rparr>, k') \<and>
    mnote_ok (n\<lparr>n_entries := es\<rparr>) \<and> list_all (mentry_in st) (n_list (n\<lparr>n_entries := es\<rparr>))"
proof -
  define c where "c = dec16 (n_order n) (take 2 (drop (unat p) d))"
  obtain es k' where l: "load_loop al st (n_order n) (Buf d) (of_nat (length d)) (unat c) (p + 2) ([], Suc k) = Some (es, k')"
    "list_all (mentry_in st) es" "length es \<le> unat c"
    using load_loop_safe [OF assms(2), of st "[]" al "n_order n" "unat c" "p + 2" "Suc k"] by auto
  moreover have "unat c < 65536" by (rule unat_u16)
  moreover have "load_mentries al st (Buf d) (of_nat (length d)) p (n, k) =
      (if al k (24 * unat c) then Some (n\<lparr>n_entries := Some es\<rparr>, k') else Some (n\<lparr>n_entries := None\<rparr>, Suc k))"
    using get_short_Buf [OF assms(1), of "n_order n"] l(1)
    by (simp add: load_mentries_def c_def [symmetric] mnote_clear_def Let_def)
  moreover have "list_all mentry_ok es" using l(2) by (auto simp: list_all_iff mentry_in_def)
  ultimately show ?thesis
    by (cases "al k (24 * unat c)") (auto simp: mnote_ok_def n_list_def)
qed


section \<open>The layout that the writing loop produces\<close>

definition mn_len :: "MnoteEntry \<Rightarrow> nat" where
  "mn_len e = unat (mn_bytes (mn_format e) (mn_components e))"

definition mn_head :: "SaveStyle \<Rightarrow> ExifByteOrder \<Rightarrow> MnoteEntry \<Rightarrow> bytes" where
  "mn_head st ord e = enc16 ord (ucast (mn_tag e - ss_base st)) @ enc16 ord (mn_format e) @ enc32 ord (mn_components e)"

text \<open>The record of an entry, whose data go to \<open>pos\<close> if they are too long for it; data of more than 64 KB are dropped.\<close>

definition mn_slot :: "SaveStyle \<Rightarrow> ExifByteOrder \<Rightarrow> nat \<Rightarrow> MnoteEntry \<Rightarrow> bytes" where
  "mn_slot st ord pos e = mn_head st ord e @
    (if mn_len e > 65536 then replicate 4 0
     else if mn_len e > 4 then enc32 ord (ss_datao st + of_nat pos)
     else bbytes (mn_data e) @ replicate (4 - mn_len e) 0)"

definition mn_ext :: "SaveStyle \<Rightarrow> MnoteEntry \<Rightarrow> bytes" where
  "mn_ext st e =
    (if 4 < mn_len e \<and> mn_len e \<le> 65536
     then bbytes (mn_data e) @ (if ss_even st \<and> odd (mn_len e) then [0] else []) else [])"

fun mn_slots :: "SaveStyle \<Rightarrow> ExifByteOrder \<Rightarrow> nat \<Rightarrow> MnoteEntry list \<Rightarrow> bytes" where
  "mn_slots st ord pos [] = []"
| "mn_slots st ord pos (e # es) = mn_slot st ord pos e @ mn_slots st ord (pos + length (mn_ext st e)) es"

definition mn_exts :: "SaveStyle \<Rightarrow> MnoteEntry list \<Rightarrow> bytes" where
  "mn_exts st es = concat (map (mn_ext st) es)"

lemma mn_exts_simps [simp]: "mn_exts st [] = []" "mn_exts st (e # es) = mn_ext st e @ mn_exts st es"
  by (simp_all add: mn_exts_def)

lemma length_mn_head [simp]: "length (mn_head st ord e) = 8"
  by (simp add: mn_head_def eshort.enc_length elong.enc_length)

lemma mentry_ok_len: "mentry_ok e \<Longrightarrow> length (bbytes (mn_data e)) = mn_len e"
  by (cases "mn_data e") (auto simp: mentry_ok_def mn_len_def)

lemma length_mn_slot [simp]: "mentry_ok e \<Longrightarrow> length (mn_slot st ord pos e) = 12"
  by (simp add: mn_slot_def elong.enc_length mentry_ok_len)

lemma length_mn_slots [simp]: "list_all mentry_ok es \<Longrightarrow> length (mn_slots st ord pos es) = 12 * length es"
  by (induction st ord pos es rule: mn_slots.induct) simp_all

text \<open>What writing an entry does, whether or not memory lasts: the flag says whether it did.\<close>

lemma save_mdata_eq:
  assumes "mentry_ok e" and "s = mn_bytes (mn_format e) (mn_components e)" and "length hole = max 4 (mn_len e)"
    and "\<not> ss_fill st \<Longrightarrow> hole = replicate (max 4 (mn_len e)) 0"
  shows "save_mdata st e s (length pre) (Buf (pre @ hole @ post))
    = Some (Buf (pre @ bbytes (mn_data e) @ replicate (4 - mn_len e) 0 @ post))"
proof -
  note len = mentry_ok_len [OF assms(1)]
  have us: "unat s = mn_len e" using assms(2) by (simp add: mn_len_def)
  have rd: "(if mn_data e \<noteq> NULL then rd_range (mn_data e) 0 (unat s) else Some (replicate (unat s) 0)) = Some (bbytes (mn_data e))"
    using len us by (cases "mn_data e") auto
  have w1: "wr_range (Buf (pre @ hole @ post)) (length pre) (bbytes (mn_data e)) = Some (Buf (pre @ bbytes (mn_data e) @ drop (mn_len e) hole @ post))"
    using assms(3) len by simp
  have w2: "s < 4 \<Longrightarrow> wr_range (Buf (pre @ bbytes (mn_data e) @ drop (mn_len e) hole @ post)) (length pre + unat s) (replicate (4 - unat s) 0)
      = Some (Buf (pre @ bbytes (mn_data e) @ replicate (4 - mn_len e) 0 @ post))"
    using assms(3) len us by (simp add: word_less_nat_alt)
  have w3: "\<not> s < 4 \<Longrightarrow> drop (mn_len e) hole = [] \<and> 4 - mn_len e = 0"
    using assms(3) us by (simp add: word_less_nat_alt)
  have w4: "\<not> ss_fill st \<Longrightarrow> drop (mn_len e) hole = replicate (4 - mn_len e) 0"
    using assms(4) by (simp add: max_def)
  show ?thesis
    unfolding save_mdata_def rd using w1 w2 w3 w4 by (cases "s < 4"; cases "ss_fill st") (simp_all del: wr_range.simps)
qed


lemma pad_byte:
  assumes "length d = Suc n" and "last d = 0"
  shows "wr (Buf d) n 0 = Some (Buf d)"
proof -
  have "d ! n = 0" using assms by (cases d rule: rev_cases) (auto simp: nth_append)
  then show ?thesis using assms(1) list_update_id [of d n] by simp
qed

lemma save_far:
  assumes ok: "mentry_ok e" and s: "s = mn_bytes (mn_format e) (mn_components e)" and far: "4 < mn_len e" "mn_len e \<le> 65536"
    and d: "d = pre @ head @ replicate 4 0 @ post" "length head = 8"
    and small: "length d + length (mn_ext st e) < 2 ^ 32"
    and odd: "odd' \<longleftrightarrow> ss_even st \<and> s AND 1 \<noteq> 0"
    and ts: "ts = (if odd' then of_nat (length d) + s + 1 else of_nat (length d) + s)"
    and al: "al c (unat ts)"
  shows "(case exif_mem_realloc al ts (out_of d c) of
             (False, out) \<Rightarrow> Some (False, out)
           | (True, out) \<Rightarrow>
               do { d' \<leftarrow> (if odd' then wr (o_d out) (unat ts - 1) 0 else Some (o_d out));
                    d' \<leftarrow> exif_set_long d' (length pre + 8) ord (ss_datao st + of_nat (length d));
                    d' \<leftarrow> save_mdata st e s (length d) d';
                    Some (True, out\<lparr>o_d := d', o_ds := ts\<rparr>) })
    = Some (True, out_of (pre @ head @ enc32 ord (ss_datao st + of_nat (length d)) @ post @ mn_ext st e) (c + 1))"
proof -
  let ?pad = "if odd' then [0] else [] :: bytes"
  have us: "unat s = mn_len e" by (simp add: s mn_len_def)
  have od: "odd' \<longleftrightarrow> ss_even st \<and> odd (mn_len e)" using odd us by (simp add: and_1_odd)
  have ext: "mn_ext st e = bbytes (mn_data e) @ ?pad" using far od by (simp add: mn_ext_def)
  note len = mentry_ok_len [OF ok]
  have ts': "ts = of_nat (length d + length (mn_ext st e))" using us by (simp add: ts ext len us [symmetric])
  have uts: "unat ts = length d + length (mn_ext st e)" unfolding ts' using small by (rule unat_word_of_nat_32)
  let ?x = "replicate (length (mn_ext st e)) (0 :: u8)"
  let ?v = "ss_datao st + of_nat (length d)"
  have r: "exif_mem_realloc al ts (out_of d c) = (True, \<lparr>o_d = Buf (d @ ?x), o_ds = of_nat (length d), o_clock = c + 1\<rparr>)"
    using al uts by (simp add: exif_mem_realloc_def out_of_def)
  have s1: "(if odd' then wr (Buf (d @ ?x)) (unat ts - 1) 0 else Some (Buf (d @ ?x))) = Some (Buf (d @ ?x))"
  proof (cases odd')
    case True
    then have "length (d @ ?x) = Suc (unat ts - 1)" "last (d @ ?x) = 0" using uts ext by simp_all
    from pad_byte [OF this] show ?thesis using True by simp
  qed simp
  have s2: "exif_set_long (Buf (d @ ?x)) (length pre + 8) ord ?v = Some (Buf (pre @ head @ enc32 ord ?v @ post @ ?x))"
    using d by (simp add: elong.set_eq elong.enc_length)
  have "?x = replicate (mn_len e) 0 @ ?pad" by (simp add: ext len replicate_add flip: replicate_append_same)
  moreover have "length (pre @ head @ enc32 ord ?v @ post) = length d" using d by (simp add: elong.enc_length)
  ultimately have s3: "save_mdata st e s (length d) (Buf (pre @ head @ enc32 ord ?v @ post @ ?x))
      = Some (Buf (pre @ head @ enc32 ord ?v @ post @ mn_ext st e))"
    using save_mdata_eq [OF ok s, of "replicate (mn_len e) 0" st "pre @ head @ enc32 ord ?v @ post" ?pad] far
    by (simp add: ext max_def)
  have "length (pre @ head @ enc32 ord ?v @ post @ mn_ext st e) = length d + length (mn_ext st e)"
    using d by (simp add: elong.enc_length)
  then show ?thesis
    unfolding r prod.case bool.case Out.simps s1 s2 s3 Option.bind.simps by (simp only: out_of_def ts')
qed

lemma save_mentry_eq:
  assumes ok: "mentry_ok e" and d: "d = pre @ replicate 12 0 @ post"
    and small: "length d + length (mn_ext st e) < 2 ^ 32"
  shows "\<exists>b d' c'. save_mentry al st ord e (length pre) (out_of d c) = Some (b, out_of d' c') \<and>
    length d' \<le> length d + length (mn_ext st e) \<and>
    (b \<longrightarrow> d' = pre @ mn_slot st ord (length d) e @ post @ mn_ext st e) \<and> (plenty al \<longrightarrow> b)"
proof -
  define s where "s = mn_bytes (mn_format e) (mn_components e)"
  have us: "unat s = mn_len e" by (simp add: s_def mn_len_def)
  let ?h = "mn_head st ord e"
  let ?d = "pre @ ?h @ replicate 4 0 @ post"
  have len: "length ?d = length d" by (simp add: d)
  have "wr_range (Buf d) (length pre) ?h = Some (Buf ?d)" by (simp add: d)
  then have eq: "save_mentry al st ord e (length pre) (out_of d c) =
      (let out = out_of ?d c in
       if s > 65536 then Some (True, out)
         else if s > 4
         then
           let doff = o_ds out;
               odd' = ss_even st \<and> s AND 1 \<noteq> 0;
               ts = (if odd' then doff + s + 1 else doff + s)
           in case exif_mem_realloc al ts out of
             (False, out) \<Rightarrow> Some (False, out)
           | (True, out) \<Rightarrow>
               do { d \<leftarrow> (if odd' then wr (o_d out) (unat ts - 1) 0 else Some (o_d out));
                    d \<leftarrow> exif_set_long d (length pre + 8) ord (ss_datao st + doff);
                    d \<leftarrow> save_mdata st e s (unat doff) d;
                    Some (True, out\<lparr>o_d := d, o_ds := ts\<rparr>) }
         else do { d \<leftarrow> save_mdata st e s (length pre + 8) (Buf ?d); Some (True, out\<lparr>o_d := d\<rparr>) })"
    unfolding save_mentry_def out_of_simps set_three mn_head_def [symmetric] s_def [symmetric]
    by (simp only: Option.bind.simps out_of_simps(4) out_of_keep [OF len] Let_def)
  consider "mn_len e > 65536" | "4 < mn_len e" "mn_len e \<le> 65536" | "mn_len e \<le> 4" by linarith
  then show ?thesis
  proof cases
    case 1
    then have "s > 65536" using us by (simp add: word_less_nat_alt)
    then show ?thesis using 1 len
      by (intro exI [of _ True] exI [of _ ?d] exI [of _ c]) (simp add: eq mn_slot_def mn_ext_def)
  next
    case 2
    then have gt: "\<not> s > 65536" "s > 4" using us by (simp_all add: word_less_nat_alt)
    have ul: "unat (of_nat (length ?d) :: u32) = length ?d" using small len by (intro unat_word_of_nat_32) simp
    define odd' where "odd' \<longleftrightarrow> ss_even st \<and> s AND 1 \<noteq> 0"
    define ts where "ts = (if odd' then of_nat (length ?d) + s + 1 else of_nat (length ?d) + s)"
    note far = save_far [OF ok s_def 2 refl _ _ odd'_def ts_def]
    have e: "save_mentry al st ord e (length pre) (out_of d c) =
       (case exif_mem_realloc al ts (out_of ?d c) of
             (False, out) \<Rightarrow> Some (False, out)
           | (True, out) \<Rightarrow>
               do { d' \<leftarrow> (if odd' then wr (o_d out) (unat ts - 1) 0 else Some (o_d out));
                    d' \<leftarrow> exif_set_long d' (length pre + 8) ord (ss_datao st + of_nat (length ?d));
                    d' \<leftarrow> save_mdata st e s (length ?d) d';
                    Some (True, out\<lparr>o_d := d', o_ds := ts\<rparr>) })"
      unfolding eq Let_def using gt by (simp only: if_True if_False out_of_simps ul odd'_def [symmetric] ts_def [symmetric])
    show ?thesis
    proof (cases "al c (unat ts)")
      case True
      let ?d' = "pre @ ?h @ enc32 ord (ss_datao st + of_nat (length d)) @ post @ mn_ext st e"
      have "save_mentry al st ord e (length pre) (out_of d c) = Some (True, out_of ?d' (c + 1))"
        unfolding e len [symmetric] by (rule far) (use small len True in simp_all)
      then show ?thesis using 2 len
        by (intro exI [of _ True] exI [of _ ?d'] exI [of _ "c + 1"]) (simp add: mn_slot_def elong.enc_length)
    next
      case False
      then have "exif_mem_realloc al ts (out_of ?d c) = (False, out_of ?d (c + 1))"
        by (simp add: exif_mem_realloc_def out_of_def Let_def)
      then show ?thesis using False len
        by (intro exI [of _ False] exI [of _ ?d] exI [of _ "c + 1"]) (auto simp: e plenty_def)
    qed
  next
    case 3
    then have le: "\<not> s > 65536" "\<not> s > 4" using us by (simp_all add: word_less_nat_alt)
    have w: "save_mdata st e s (length pre + 8) (Buf ?d) = Some (Buf (pre @ ?h @ bbytes (mn_data e) @ replicate (4 - mn_len e) 0 @ post))"
      using save_mdata_eq [OF ok s_def, of "replicate 4 0" st "pre @ ?h" post] 3 by (simp add: max_def)
    let ?d' = "pre @ ?h @ bbytes (mn_data e) @ replicate (4 - mn_len e) 0 @ post"
    have l: "length ?d' = length ?d" using 3 mentry_ok_len [OF ok] by simp
    have "save_mentry al st ord e (length pre) (out_of d c) = Some (True, out_of ?d' c)"
      unfolding eq Let_def w using le by (simp only: if_False Option.bind.simps out_of_simps(4) out_of_keep [OF l])
    then show ?thesis using 3 l len
      by (intro exI [of _ True] exI [of _ ?d'] exI [of _ c]) (simp add: mn_slot_def mn_ext_def)
  qed
qed

lemma save_loop_eq:
  assumes "list_all mentry_ok es" and "d = pre @ replicate (12 * length es) 0 @ post"
    and "length d + length (mn_exts st es) < 2 ^ 32"
  shows "\<exists>b d' c'. save_loop al st ord es (length pre) (out_of d c) = Some (b, out_of d' c') \<and>
    length d' \<le> length d + length (mn_exts st es) \<and>
    (b \<longrightarrow> d' = pre @ mn_slots st ord (length d) es @ post @ mn_exts st es) \<and> (plenty al \<longrightarrow> b)"
  using assms
proof (induction es arbitrary: pre post d c)
  case Nil
  then show ?case by (intro exI [of _ True] exI [of _ d] exI [of _ c]) simp
next
  case (Cons e es)
  have ok: "mentry_ok e" "list_all mentry_ok es" using Cons.prems(1) by auto
  have d: "d = pre @ replicate 12 0 @ (replicate (12 * length es) 0 @ post)"
    using Cons.prems(2) by (simp add: replicate_add)
  have "length d + length (mn_ext st e) < 2 ^ 32" using Cons.prems(3) by simp
  from save_mentry_eq [OF ok(1) d this, of al ord c]
  obtain b d1 c1 where s: "save_mentry al st ord e (length pre) (out_of d c) = Some (b, out_of d1 c1)"
    "length d1 \<le> length d + length (mn_ext st e)"
    "b \<longrightarrow> d1 = pre @ mn_slot st ord (length d) e @ (replicate (12 * length es) 0 @ post) @ mn_ext st e" "plenty al \<longrightarrow> b"
    by blast
  show ?case
  proof (cases b)
    case False
    then show ?thesis using s by (intro exI [of _ False] exI [of _ d1] exI [of _ c1]) simp
  next
    case True
    let ?pre = "pre @ mn_slot st ord (length d) e"
    have d1: "d1 = ?pre @ replicate (12 * length es) 0 @ (post @ mn_ext st e)" using s(3) True by simp
    have l1: "length d1 = length d + length (mn_ext st e)" using d1 d ok(1) by simp
    have "length d1 + length (mn_exts st es) < 2 ^ 32" using Cons.prems(3) l1 by simp
    from Cons.IH [OF ok(2) d1 this, of c1] obtain b' d' c' where
      "save_loop al st ord es (length ?pre) (out_of d1 c1) = Some (b', out_of d' c')"
      "length d' \<le> length d1 + length (mn_exts st es)"
      "b' \<longrightarrow> d' = ?pre @ mn_slots st ord (length d1) es @ (post @ mn_ext st e) @ mn_exts st es" "plenty al \<longrightarrow> b'"
      by blast
    then show ?thesis
      using s(1) True l1 ok(1) by (intro exI [of _ b'] exI [of _ d'] exI [of _ c']) (simp add: l1)
  qed
qed


section \<open>Reading the layout back\<close>

text \<open>
  The entries that survive: their data are not dropped for their length, their tag fits into 16 bits after the
  base is subtracted, they are in the order of the note, and an entry without data is one that the reader keeps.
\<close>

definition mentry_kept :: "LoadStyle \<Rightarrow> ExifByteOrder \<Rightarrow> MnoteEntry \<Rightarrow> bool" where
  "mentry_kept st ord e \<longleftrightarrow> mentry_ok e \<and> mn_len e \<le> 65536 \<and> mn_order e = ord \<and>
    ucast (ucast (mn_tag e - ls_base st) :: u16) + ls_base st = mn_tag e \<and>
    (mn_len e = 0 \<longrightarrow> ls_zero st \<and> mn_data e = NULL)"

lemma take_inside: "a + b \<le> n \<Longrightarrow> take a (drop (p + b) F) = take a (drop b (take n (drop p F)))"
  by (simp add: drop_take min_def add.commute)

lemma mentry_at_slot:
  assumes "take 12 (drop p F) = mn_slot sst ord pos e" and "mentry_kept lst ord e" and "ss_base sst = ls_base lst"
  shows "mentry_at lst ord F p = e\<lparr>mn_data := NULL\<rparr>"
proof -
  have "take 2 (drop p F) = enc16 ord (ucast (mn_tag e - ls_base lst))" "take 2 (drop (p + 2) F) = enc16 ord (mn_format e)"
    "take 4 (drop (p + 4) F) = enc32 ord (mn_components e)"
    using take_inside [of 2 0 12 p F] take_inside [of 2 2 12 p F] take_inside [of 4 4 12 p F] assms(1,3)
    by (simp_all add: mn_slot_def mn_head_def eshort.enc_length elong.enc_length)
  then show ?thesis
    using assms(2) by (cases e) (simp add: mentry_at_def eshort.dec_enc elong.dec_enc mentry_kept_def mentry_ok_def Let_def)
qed

lemma mdata_at_slot:
  assumes "take 12 (drop p F) = mn_slot sst ord pos e" and "mentry_kept lst ord e" and "p + 12 \<le> length F" and "length F < 2 ^ 32"
    and "ss_datao sst + ls_datao lst = of_nat np" and "s = mn_size e" and "take (length (mn_ext sst e)) (drop (np + pos) F) = mn_ext sst e"
    and "np + pos + length (mn_ext sst e) \<le> length F"
  shows "unat (mdata_at lst ord F (of_nat p) s) = (if mn_len e > 4 then np + pos else p + 8)"
    and "take (mn_len e) (drop (unat (mdata_at lst ord F (of_nat p) s)) F) = bbytes (mn_data e)"
proof -
  have ok: "mentry_ok e" "mn_len e \<le> 65536" using assms(2) by (simp_all add: mentry_kept_def)
  note len = mentry_ok_len [OF ok(1)]
  have us: "unat s = mn_len e" using ok(1) assms(6) by (simp add: mn_len_def mentry_ok_def)
  have up: "unat (of_nat p :: u32) = p" using assms(3,4) by (intro unat_word_of_nat_32) simp
  have four: "take 4 (drop (p + 8) F) = (if mn_len e > 4 then enc32 ord (ss_datao sst + of_nat pos) else bbytes (mn_data e) @ replicate (4 - mn_len e) 0)"
    using take_inside [of 4 8 12 p F] assms(1) ok(2) len by (simp add: mn_slot_def elong.enc_length)
  have gt: "4 < s \<longleftrightarrow> 4 < mn_len e" using us by (simp add: word_less_nat_alt)
  have far: "mn_len e > 4 \<Longrightarrow> mdata_at lst ord F (of_nat p) s = of_nat (np + pos)"
    using four up by (simp add: mdata_at_def gt elong.dec_enc assms(5) [symmetric] algebra_simps)
  have near: "\<not> mn_len e > 4 \<Longrightarrow> mdata_at lst ord F (of_nat p) s = of_nat (p + 8)"
    by (simp add: mdata_at_def gt)
  show u: "unat (mdata_at lst ord F (of_nat p) s) = (if mn_len e > 4 then np + pos else p + 8)"
    using far near assms(3,4,8) unat_word_of_nat_32 [of "np + pos"] unat_word_of_nat_32 [of "p + 8"] by auto
  show "take (mn_len e) (drop (unat (mdata_at lst ord F (of_nat p) s)) F) = bbytes (mn_data e)"
  proof (cases "mn_len e > 4")
    case True
    have "take (mn_len e) (drop (np + pos) F) = take (mn_len e) (take (length (mn_ext sst e)) (drop (np + pos) F))"
      using True ok(2) len by (simp add: mn_ext_def min_def)
    also have "\<dots> = bbytes (mn_data e)" unfolding assms(7) using True ok(2) len by (simp add: mn_ext_def)
    finally show ?thesis using True u by simp
  next
    case False
    have "take (mn_len e) (drop (p + 8) F) = take (mn_len e) (take 4 (drop (p + 8) F))" using False by (simp add: min_def)
    then show ?thesis using four False len u by simp
  qed
qed

lemma load_mentry_slot:
  assumes slot: "take 12 (drop p F) = mn_slot sst ord pos e" and kept: "mentry_kept lst ord e"
    and p: "p + 12 \<le> length F" and F: "length F < 2 ^ 32"
    and st: "ss_base sst = ls_base lst" "ss_datao sst + ls_datao lst = of_nat np"
    and ext: "take (length (mn_ext sst e)) (drop (np + pos) F) = mn_ext sst e"
    and fit: "np + pos + length (mn_ext sst e) \<le> length F"
    and strict: "ls_strict lst \<Longrightarrow> p + 12 < length F \<and> np + pos + length (mn_ext sst e) < length F"
  shows "\<exists>k'. load_mentry mem_ok lst ord (Buf F) (of_nat (length F)) (of_nat p) (es, k) = Some (es @ [e], k')"
proof -
  let ?s = "mn_size e"
  let ?doff = "mdata_at lst ord F (of_nat p) ?s"
  have ok: "mentry_ok e" "mn_len e \<le> 65536" using kept by (simp_all add: mentry_kept_def)
  note len = mentry_ok_len [OF ok(1)]
  have us: "unat ?s = mn_len e" using ok(1) by (simp add: mn_len_def mentry_ok_def)
  have up: "unat (of_nat p :: u32) = p" using p F by (intro unat_word_of_nat_32) simp
  note at = mentry_at_slot [OF slot kept st(1)]
  note pos = mdata_at_slot [OF slot kept p F st(2) refl ext fit]
  have len_ext: "mn_len e > 4 \<Longrightarrow> mn_len e \<le> length (mn_ext sst e)" using ok(2) len by (simp add: mn_ext_def)
  have b: "unat ?doff + unat ?s \<le> length F" "ls_strict lst \<Longrightarrow> unat ?doff + unat ?s < length F"
    using pos(1) us p fit strict len_ext by (fastforce split: if_splits)+
  then have sum: "unat (?doff + ?s) = unat ?doff + unat ?s" using F by (simp add: unat_word_ariths)
  then have np: "\<not> past_end lst (of_nat (length F)) ?doff ?s"
    using b unat_word_of_nat_32 [OF F] by (auto simp: past_end_def word_less_nat_alt word_le_nat_alt)
  have z: "?s = 0 \<longleftrightarrow> mn_len e = 0" using us by (metis unat_eq_zero)
  have e0: "e\<lparr>mn_data := NULL\<rparr> = e" if "mn_len e = 0"
    using kept that by (cases e) (simp add: mentry_kept_def)
  have e1: "e\<lparr>mn_data := Buf (bbytes (mn_data e))\<rparr> = e" if "mn_len e \<noteq> 0"
    using len that by (cases e; cases "mn_data e") auto
  have "load_mentry mem_ok lst ord (Buf F) (of_nat (length F)) (of_nat p) (es, k) =
    (if ?s = 0 then Some (if ls_zero lst then es @ [e\<lparr>mn_data := NULL\<rparr>] else es, k)
     else do { bs \<leftarrow> rd_range (Buf F) (unat ?doff) (unat ?s); Some (es @ [e\<lparr>mn_data := Buf bs\<rparr>], Suc k) })"
    using load_mentry_eq [of "of_nat p" F "e\<lparr>mn_data := NULL\<rparr>" lst ord ?s ?doff mem_ok "of_nat (length F)" es k] p up at np
    by (simp add: mem_ok_def)
  moreover have "rd_range (Buf F) (unat ?doff) (unat ?s) = Some (bbytes (mn_data e))"
    using b(1) pos(2) us by simp
  ultimately show ?thesis
    using z e0 e1 kept by (auto simp: mentry_kept_def)
qed

lemma load_loop_layout:
  assumes "list_all (mentry_kept lst ord) es" and F: "length F < 2 ^ 32"
    and st: "ss_base sst = ls_base lst" "ss_datao sst + ls_datao lst = of_nat np"
    and "take (12 * length es) (drop p F) = mn_slots sst ord pos es" and "p + 12 * length es \<le> length F"
    and "take (length (mn_exts sst es)) (drop (np + pos) F) = mn_exts sst es"
    and "np + pos + length (mn_exts sst es) \<le> length F"
    and "ls_strict lst \<Longrightarrow> p + 12 * length es < length F \<and> np + pos + length (mn_exts sst es) < length F"
  shows "\<exists>k'. load_loop mem_ok lst ord (Buf F) (of_nat (length F)) (length es) (of_nat p) (acc, k) = Some (acc @ es, k')"
  using assms(1,5-9)
proof (induction es arbitrary: p pos acc k)
  case Nil
  then show ?case by simp
next
  case (Cons e es)
  let ?x = "length (mn_ext sst e)"
  have kept: "mentry_kept lst ord e" "list_all (mentry_kept lst ord) es" using Cons.prems(1) by auto
  have ok: "mentry_ok e" using kept(1) by (simp add: mentry_kept_def)
  have "take 12 (drop p F) = take 12 (take (12 * length (e # es)) (drop p F))" by simp
  also have "\<dots> = mn_slot sst ord pos e" unfolding Cons.prems(2) by (simp add: ok)
  finally have slot: "take 12 (drop p F) = mn_slot sst ord pos e" .
  have "take (12 * length es) (drop (p + 12) F) = drop 12 (take (12 * length (e # es)) (drop p F))"
    by (simp add: drop_take add.commute)
  also have "\<dots> = mn_slots sst ord (pos + ?x) es" unfolding Cons.prems(2) by (simp add: ok)
  finally have slots: "take (12 * length es) (drop (p + 12) F) = mn_slots sst ord (pos + ?x) es" .
  have "take ?x (drop (np + pos) F) = take ?x (take (length (mn_exts sst (e # es))) (drop (np + pos) F))" by simp
  also have "\<dots> = mn_ext sst e" unfolding Cons.prems(4) by simp
  finally have ext: "take ?x (drop (np + pos) F) = mn_ext sst e" .
  have "take (length (mn_exts sst es)) (drop (np + (pos + ?x)) F) = drop ?x (take (length (mn_exts sst (e # es))) (drop (np + pos) F))"
    by (simp add: drop_take ac_simps)
  also have "\<dots> = mn_exts sst es" unfolding Cons.prems(4) by simp
  finally have exts: "take (length (mn_exts sst es)) (drop (np + (pos + ?x)) F) = mn_exts sst es" .
  obtain k1 where one: "load_mentry mem_ok lst ord (Buf F) (of_nat (length F)) (of_nat p) (acc, k) = Some (acc @ [e], k1)"
    using load_mentry_slot [OF slot kept(1) _ F st ext] Cons.prems(3,5,6) by fastforce
  have up: "unat (of_nat p + 12 :: u32) = p + 12" "unat (of_nat p :: u32) = p" "unat (of_nat (length F) :: u32) = length F"
    using Cons.prems(3) F by (simp_all add: unat_word_ariths unat_word_of_nat_32 unsigned_of_nat take_bit_nat_eq_self)
  have go: "\<not> (of_nat p + 12 < (of_nat p :: u32) \<or> of_nat p + 12 < (12 :: u32) \<or> of_nat p + 12 > (of_nat (length F) :: u32))"
    using up Cons.prems(3) by (simp add: word_less_nat_alt)
  have "of_nat p + 12 = (of_nat (p + 12) :: u32)" by simp
  moreover obtain k2 where "load_loop mem_ok lst ord (Buf F) (of_nat (length F)) (length es) (of_nat (p + 12)) (acc @ [e], k1) = Some (acc @ e # es, k2)"
    using Cons.IH [OF kept(2) slots _ exts, of "acc @ [e]" k1] Cons.prems(3,5,6) by fastforce
  ultimately show ?case using one go by simp
qed


section \<open>A whole note\<close>

text \<open>
  The bytes of a note: a header, the number of entries, the records, a tail (the pointer to a next directory, where the
  format has one) and the data.
\<close>

definition note_image :: "bytes \<Rightarrow> bytes \<Rightarrow> SaveStyle \<Rightarrow> ExifByteOrder \<Rightarrow> MnoteEntry list \<Rightarrow> bytes" where
  "note_image hdr tail st ord es = hdr @ enc16 ord (of_nat (length es)) @
     mn_slots st ord (length hdr + 2 + 12 * length es + length tail) es @ tail @ mn_exts st es"

lemma length_note_image:
  "list_all mentry_ok es \<Longrightarrow>
    length (note_image hdr tail st ord es) = length hdr + 2 + 12 * length es + length tail + length (mn_exts st es)"
  by (simp add: note_image_def eshort.enc_length)

lemma save_loop_image:
  assumes "list_all mentry_ok es" and "length (note_image hdr tail st ord es) < 2 ^ 32"
  shows "\<exists>b d' c'. save_loop al st ord es (length hdr + 2)
      (out_of (hdr @ enc16 ord (of_nat (length es)) @ replicate (12 * length es) 0 @ tail) c) = Some (b, out_of d' c') \<and>
    length d' < 2 ^ 32 \<and> (b \<longrightarrow> d' = note_image hdr tail st ord es) \<and> (plenty al \<longrightarrow> b)"
proof -
  let ?pre = "hdr @ enc16 ord (of_nat (length es))"
  have len: "length (?pre @ replicate (12 * length es) 0 @ tail) = length hdr + 2 + 12 * length es + length tail"
    by (simp add: eshort.enc_length)
  have "length (?pre @ replicate (12 * length es) 0 @ tail) + length (mn_exts st es) < 2 ^ 32"
    unfolding len using assms(2) length_note_image [OF assms(1)] by simp
  from save_loop_eq [OF assms(1) refl this, of al ord c] obtain b d' c' where
    "save_loop al st ord es (length ?pre) (out_of (?pre @ replicate (12 * length es) 0 @ tail) c) = Some (b, out_of d' c')"
    "length d' \<le> length (note_image hdr tail st ord es)" "b \<longrightarrow> d' = note_image hdr tail st ord es" "plenty al \<longrightarrow> b"
    unfolding len note_image_def using assms(1) by (auto simp: eshort.enc_length)
  then show ?thesis
    using assms(2) by (intro exI [of _ b] exI [of _ d'] exI [of _ c']) (simp add: eshort.enc_length)
qed

lemma load_mentries_image:
  assumes "list_all (mentry_kept lst ord) es" and "length es < 2 ^ 16" and "n_order n = ord"
    and F: "F = pre @ note_image hdr tail sst ord es @ post" "length F < 2 ^ 32"
    and st: "ss_base sst = ls_base lst" "ss_datao sst + ls_datao lst = of_nat (length pre)"
    and strict: "ls_strict lst \<Longrightarrow> tail \<noteq> [] \<and> post \<noteq> []"
    and p: "p = of_nat (length pre + length hdr)"
  shows "\<exists>k'. load_mentries mem_ok lst (Buf F) (of_nat (length F)) p (n, k) = Some (n\<lparr>n_entries := Some es\<rparr>, k')"
proof -
  let ?c = "of_nat (length es) :: u16"
  let ?q = "length pre + length hdr"
  let ?pos = "length hdr + 2 + 12 * length es + length tail"
  have ok: "list_all mentry_ok es" using assms(1) by (auto simp: list_all_iff mentry_kept_def)
  have lF: "length F = length pre + ?pos + length (mn_exts sst es) + length post"
    using length_note_image [OF ok] F(1) by simp
  have up: "unat p = ?q" unfolding p using lF F(2) by (intro unat_word_of_nat_32) simp
  have c: "unat ?c = length es" using assms(2) by (simp add: unsigned_of_nat take_bit_nat_eq_self)
  have F1: "F = (pre @ hdr) @ enc16 ord ?c @ mn_slots sst ord ?pos es @ tail @ mn_exts sst es @ post"
    using F(1) by (simp add: note_image_def)
  have "take 2 (drop ?q F) = enc16 ord ?c" unfolding F1 by (simp add: eshort.enc_length)
  then have cnt: "exif_get_short (Buf F) (unat p) ord = Some ?c"
    using get_short_Buf [of "unat p" F ord] up lF by (simp add: eshort.dec_enc)
  have "take (12 * length es) (drop (?q + 2) F) = mn_slots sst ord ?pos es"
    unfolding F1 using ok by (simp add: eshort.enc_length)
  moreover have "take (length (mn_exts sst es)) (drop (length pre + ?pos) F) = mn_exts sst es"
    unfolding F1 using ok by (simp add: eshort.enc_length)
  moreover have "ls_strict lst \<Longrightarrow> ?q + 2 + 12 * length es < length F \<and> length pre + ?pos + length (mn_exts sst es) < length F"
    using strict lF by (cases post) auto
  ultimately obtain k' where l: "load_loop mem_ok lst ord (Buf F) (of_nat (length F)) (length es) (of_nat (?q + 2)) ([], Suc k) = Some (es, k')"
    using load_loop_layout [OF assms(1) F(2) st, of "?q + 2" ?pos "[]" "Suc k"] lF by auto
  have p2: "p + 2 = of_nat (?q + 2)" by (simp add: p)
  have n: "n_order (n\<lparr>n_entries := None\<rparr>) = ord" "n\<lparr>n_entries := None, n_entries := Some es\<rparr> = n\<lparr>n_entries := Some es\<rparr>"
    using assms(3) by simp_all
  show ?thesis
    unfolding load_mentries_def prod.case assms(3) cnt
    by (intro exI [of _ k'])
      (simp only: mem_ok_def mnote_clear_def Let_def c n p2 l Option.bind.simps if_True prod.case)
qed

lemma wr_zeros:
  assumes "length A \<le> p" and "p - length A + length bs \<le> m"
  shows "wr_range (Buf (A @ replicate m 0)) p bs
    = Some (Buf ((A @ replicate (p - length A) 0 @ bs) @ replicate (m - (p - length A) - length bs) 0))"
  using assms by (auto simp: min_def)

lemma wr_zeros_same:
  assumes "length A \<le> p" and "p - length A + j \<le> m"
  shows "wr_range (Buf (A @ replicate m 0)) p (replicate j 0) = Some (Buf (A @ replicate m 0))"
proof -
  have "m = (p - length A) + (j + (m - (p - length A) - j))" using assms(2) by simp
  then have "replicate m (0 :: u8) = replicate (p - length A) 0 @ replicate j 0 @ replicate (m - (p - length A) - j) 0"
    by (metis replicate_add)
  then show ?thesis using wr_zeros [OF assms(1), of "replicate j 0" m] assms(2) by simp
qed

text \<open>
  How every \<open>save\<close> comes out: without memory a null pointer; with it the loop over a block with header and number in
  place and the rest cleared.
\<close>

definition save_from :: "alloc \<Rightarrow> SaveStyle \<Rightarrow> ExifByteOrder \<Rightarrow> MnoteEntry list \<Rightarrow> bytes \<Rightarrow> bytes \<Rightarrow> nat \<Rightarrow> Out option" where
  "save_from al st ord es hdr tail c =
    do { (b, out) \<leftarrow> save_loop al st ord es (length hdr + 2)
           (out_of (hdr @ enc16 ord (of_nat (length es)) @ replicate (12 * length es) 0 @ tail) c);
         Some out }"

lemma save_fromI:
  assumes "p = length hdr + 2" and "d = hdr @ enc16 ord (of_nat (length es)) @ replicate (12 * length es) 0 @ tail" and "length z = length d"
  shows "(do { (b, out) \<leftarrow> save_loop al st ord es p ((out_of z c)\<lparr>o_d := Buf d\<rparr>); Some out }) = save_from al st ord es hdr tail c"
  using assms(3) unfolding assms(1,2) by (simp only: save_from_def out_of_def Out.simps)

lemma save_from_ok:
  assumes "list_all mentry_ok es" and "length (note_image hdr tail st ord es) < 2 ^ 32"
  shows "\<exists>out. save_from al st ord es hdr tail c = Some out \<and> (o_d out = NULL \<or> blen (o_d out) = unat (o_ds out))"
    and "plenty al \<Longrightarrow> \<exists>c'. save_from al st ord es hdr tail c = Some (out_of (note_image hdr tail st ord es) c')"
  using save_loop_image [OF assms, of al c] by (auto simp: save_from_def unat_word_of_nat_32)

lemma new_out_eq:
  assumes "N < 2 ^ 32" and "sz = of_nat N"
  shows "new_out al sz k = (if al k N then out_of (replicate N 0) (Suc k) else \<lparr>o_d = NULL, o_ds = sz, o_clock = Suc k\<rparr>)"
  using assms by (simp add: new_out_def out_of_def unat_word_of_nat_32)

lemma zeros_split: "replicate (m + n) x = replicate m x @ replicate n x"
  by (rule replicate_add)

section \<open>Changing the byte order\<close>

text \<open>The count of values times their size is the size of the data; the product that the loaders compute may have wrapped.\<close>

definition mentry_exact :: "MnoteEntry \<Rightarrow> bool" where
  "mentry_exact e \<longleftrightarrow> unat (mn_components e) * unat (exif_format_get_size (mn_format e)) < 2 ^ 32"

lemma mentry_exact_len:
  assumes "mentry_exact e"
  shows "mn_len e = unat (mn_components e) * unat (exif_format_get_size (mn_format e))"
  using assms unat_size_mult [of "mn_format e" "mn_components e"]
  by (simp add: mn_len_def mn_bytes_def mentry_exact_def mult.commute)

lemma order_entry:
  assumes "mentry_ok e" and "mentry_exact e"
  shows "\<exists>b. exif_array_set_byte_order (mn_format e) (mn_data e) (mn_components e) o1 o2 = Some b \<and> blen b = blen (mn_data e) \<and>
    exif_array_set_byte_order (mn_format e) b (mn_components e) o2 o1 = Some (mn_data e)"
proof -
  have "blen (mn_data e) = mn_len e" using assms(1) by (simp add: mentry_ok_def mn_len_def)
  moreover have "mn_len e < 2 ^ 32" by (simp add: mn_len_def unat_u32 [simplified])
  ultimately show ?thesis
    using mentry_exact_len [OF assms(2)] by (intro exif_array_set_byte_order_roundtrip) simp_all
qed

lemma order_entries_ok:
  assumes "list_all mentry_ok es" and "list_all mentry_exact es" and "list_all (\<lambda>e. mn_order e = o1) es"
  shows "\<exists>es'. order_entries o1 o2 es = Some es' \<and> list_all mentry_ok es' \<and> list_all mentry_exact es' \<and>
    list_all (\<lambda>e. mn_order e = o2) es' \<and> length es' = length es \<and> order_entries o2 o1 es' = Some es"
  using assms
proof (induction es)
  case (Cons e es)
  then obtain es' where r: "order_entries o1 o2 es = Some es'" "list_all mentry_ok es'" "list_all mentry_exact es'"
    "list_all (\<lambda>e. mn_order e = o2) es'" "length es' = length es" "order_entries o2 o1 es' = Some es" by auto
  obtain b where b: "exif_array_set_byte_order (mn_format e) (mn_data e) (mn_components e) o1 o2 = Some b"
    "blen b = blen (mn_data e)" "exif_array_set_byte_order (mn_format e) b (mn_components e) o2 o1 = Some (mn_data e)"
    using order_entry [of e o1 o2] Cons.prems by auto
  let ?e = "e\<lparr>mn_order := o2, mn_data := b\<rparr>"
  have "e\<lparr>mn_order := o1, mn_data := mn_data e\<rparr> = e" using Cons.prems(3) by (cases e) simp
  moreover have "mentry_ok ?e" "mentry_exact ?e" using Cons.prems(1,2) b(2) by (simp_all add: mentry_ok_def mentry_exact_def)
  ultimately show ?case
    using r b by (intro exI [of _ "?e # es'"]) simp
qed simp

section \<open>The interface of a maker note module\<close>

text \<open>
  What the EXIF library relies on, whatever the vendor. \<open>ok\<close> is the invariant of a note in memory; \<open>room\<close> says that a file
  is long enough behind the note's offset for the header to be read; \<open>image\<close> is what a note is saved as.
  A note that is \<open>readable\<close> is read back from its image, at the place \<open>home\<close> in the file that its
  offset names, into any object that is \<open>prepared\<close> for it.
\<close>

locale maker_note =
  fixes load :: "alloc \<Rightarrow> cbuf \<Rightarrow> u32 \<Rightarrow> 'n \<times> nat \<Rightarrow> ('n \<times> nat) option"
    and save :: "alloc \<Rightarrow> 'n \<Rightarrow> nat \<Rightarrow> Out option"
    and ok :: "'n \<Rightarrow> bool"
    and room :: "'n \<Rightarrow> nat \<Rightarrow> bool"
    and image :: "'n \<Rightarrow> bytes"
    and readable :: "'n \<Rightarrow> bool"
    and prepared :: "'n \<Rightarrow> 'n \<Rightarrow> bool"
    and home :: "'n \<Rightarrow> nat"
  assumes load_ok: "ok n \<Longrightarrow> length d < 2 ^ 32 \<Longrightarrow> room n (length d) \<Longrightarrow>
      \<exists>n' k'. load al (Buf d) (of_nat (length d)) (n, k) = Some (n', k') \<and> ok n'"
    and save_ok: "ok n \<Longrightarrow> length (image n) < 2 ^ 32 \<Longrightarrow>
      \<exists>out. save al n k = Some out \<and> (o_d out = NULL \<or> blen (o_d out) = unat (o_ds out))"
    and save_image: "plenty al \<Longrightarrow> readable n \<Longrightarrow> length (image n) < 2 ^ 32 \<Longrightarrow>
      \<exists>c. save al n k = Some (out_of (image n) c)"
    and readable_ok: "readable n \<Longrightarrow> ok n"
    and load_image: "plenty al \<Longrightarrow> readable n \<Longrightarrow> prepared n n0 \<Longrightarrow> length pre = home n \<Longrightarrow> post \<noteq> [] \<Longrightarrow>
      length (pre @ image n @ post) < 2 ^ 32 \<Longrightarrow>
      \<exists>k'. load al (Buf (pre @ image n @ post)) (of_nat (length (pre @ image n @ post))) (n0, k) = Some (n, k')"
begin

lemma save_load:
  assumes "plenty al" and "readable n" and "prepared n n0" and "length pre = home n" and "post \<noteq> []"
    and "length (pre @ image n @ post) < 2 ^ 32"
  shows "\<exists>b c k'. save al n k = Some (out_of b c) \<and>
    load al (Buf (pre @ b @ post)) (of_nat (length (pre @ b @ post))) (n0, c) = Some (n, k')"
proof -
  have "length (image n) < 2 ^ 32" using assms(6) by simp
  then obtain c where "save al n k = Some (out_of (image n) c)" using save_image assms(1,2) by blast
  with load_image [OF assms, of c] show ?thesis by blast
qed

end

end
