(* ===== verification/Mnote_Vendors.thy ===== *)
theory Mnote_Vendors
  imports Mnote
begin

text \<open>
  The maker note modules of \<^verbatim>\<open>libexifa\<close>: \<^verbatim>\<open>canon/exif-mnote-data-canon.c\<close>, \<^verbatim>\<open>fuji/exif-mnote-data-fuji.c\<close>,
  \<^verbatim>\<open>olympus/exif-mnote-data-olympus.c\<close> (Olympus, Sanyo, Epson and three generations of Nikon) and
  \<^verbatim>\<open>pentax/exif-mnote-data-pentax.c\<close> (Pentax and Casio). First the operations of each module: recognising a note,
  its header, loading, saving, byte order, numbering. Then, for each, that it keeps the interface \<open>maker_note\<close>: what it
  loads satisfies the invariant, what it saves is the image of the note, and an image is read back.
\<close>

section \<open>Canon\<close>

record ExifMnoteDataCanon = MnoteData +
  cn_options :: u32

definition exif_mnote_data_canon_set_byte_order :: "ExifByteOrder \<Rightarrow> ExifMnoteDataCanon \<Rightarrow> ExifMnoteDataCanon option" where
  "exif_mnote_data_canon_set_byte_order = mnote_set_byte_order"

definition exif_mnote_data_canon_set_offset :: "u32 \<Rightarrow> ExifMnoteDataCanon \<Rightarrow> ExifMnoteDataCanon" where
  "exif_mnote_data_canon_set_offset = mnote_set_offset"

definition canon_save_style :: "ExifMnoteDataCanon \<Rightarrow> SaveStyle" where
  "canon_save_style n = \<lparr>ss_base = 0, ss_datao = n_offset n, ss_even = True, ss_fill = True\<rparr>"

definition exif_mnote_data_canon_save :: "alloc \<Rightarrow> ExifMnoteDataCanon \<Rightarrow> nat \<Rightarrow> Out option" where
  "exif_mnote_data_canon_save al n k =
    (let out = new_out al (2 + of_nat (n_count n) * 12 + 4) k in
     if o_d out = NULL then Some out
     else do {
       d \<leftarrow> exif_set_short (o_d out) 0 (n_order n) (of_nat (n_count n));
       (done, out) \<leftarrow> save_loop al (canon_save_style n) (n_order n) (n_list n) 2 (out\<lparr>o_d := d\<rparr>);
       Some out })"

definition canon_load_style :: LoadStyle where
  "canon_load_style = \<lparr>ls_base = 0, ls_datao = 6, ls_zero = False, ls_strict = False\<rparr>"

definition exif_mnote_data_canon_load ::
  "alloc \<Rightarrow> cbuf \<Rightarrow> u32 \<Rightarrow> ExifMnoteDataCanon \<times> nat \<Rightarrow> (ExifMnoteDataCanon \<times> nat) option" where
  "exif_mnote_data_canon_load al buf buf_size = (\<lambda>(n, k).
    if buf = NULL \<or> buf_size = 0 then Some (n, k)
    else let datao = 6 + n_offset n in
      if datao + 2 < datao \<or> datao + 2 < 2 \<or> datao + 2 > buf_size then Some (n, k)
      else load_mentries al canon_load_style buf buf_size datao (n, k))"

abbreviation (input) MNOTE_CANON_TAG_SETTINGS_1 :: u32 where "MNOTE_CANON_TAG_SETTINGS_1 \<equiv> 0x1"
abbreviation (input) MNOTE_CANON_TAG_FOCAL_LENGTH :: u32 where "MNOTE_CANON_TAG_FOCAL_LENGTH \<equiv> 0x2"
abbreviation (input) MNOTE_CANON_TAG_SETTINGS_2 :: u32 where "MNOTE_CANON_TAG_SETTINGS_2 \<equiv> 0x4"
abbreviation (input) MNOTE_CANON_TAG_PANORAMA :: u32 where "MNOTE_CANON_TAG_PANORAMA \<equiv> 0x5"
abbreviation (input) MNOTE_CANON_TAG_CUSTOM_FUNCS :: u32 where "MNOTE_CANON_TAG_CUSTOM_FUNCS \<equiv> 0xf"
abbreviation (input) MNOTE_CANON_TAG_COLOR_INFORMATION :: u32 where "MNOTE_CANON_TAG_COLOR_INFORMATION \<equiv> 0xa0"

text \<open>Some entries hold several values; \<open>n\<close> numbers the values of all entries.\<close>

definition mnote_canon_entry_count_values :: "MnoteEntry \<Rightarrow> u32 option" where
  "mnote_canon_entry_count_values e =
    (if mn_tag e \<in> {MNOTE_CANON_TAG_FOCAL_LENGTH, MNOTE_CANON_TAG_PANORAMA} then Some (mn_components e)
     else if mn_tag e \<in> {MNOTE_CANON_TAG_SETTINGS_1, MNOTE_CANON_TAG_SETTINGS_2, MNOTE_CANON_TAG_CUSTOM_FUNCS,
                         MNOTE_CANON_TAG_COLOR_INFORMATION}
     then if mn_format e \<noteq> EXIF_FORMAT_SHORT then Some 0
          else do { v \<leftarrow> exif_get_short (mn_data e) 0 (mn_order e);
                    Some (min (mn_size e - 2) (ucast v) div 2) }
     else Some 1)"

text \<open>The entry and the value in it that a number stands for; \<open>m\<close> is the number of the first entry in the list.\<close>

fun canon_get_tags :: "u32 \<Rightarrow> u32 \<Rightarrow> nat \<Rightarrow> MnoteEntry list \<Rightarrow> (nat \<times> u32) option option" where
  "canon_get_tags n from m [] = Some None"
| "canon_get_tags n from m (e # es) =
    do { c \<leftarrow> mnote_canon_entry_count_values e;
         let to = from + c;
         if to > n then Some (Some (m, n - from)) else canon_get_tags n to (Suc m) es }"

definition exif_mnote_data_canon_get_tags :: "ExifMnoteDataCanon \<Rightarrow> u32 \<Rightarrow> (nat \<times> u32) option option" where
  "exif_mnote_data_canon_get_tags dc n = canon_get_tags n 0 0 (n_list dc)"

fun canon_count :: "MnoteEntry list \<Rightarrow> u32 \<Rightarrow> u32 option" where
  "canon_count [] c = Some c"
| "canon_count (e # es) c = do { v \<leftarrow> mnote_canon_entry_count_values e; canon_count es (c + v) }"

definition exif_mnote_data_canon_count :: "ExifMnoteDataCanon \<Rightarrow> u32 option" where
  "exif_mnote_data_canon_count dc = canon_count (n_list dc) 0"

definition exif_mnote_data_canon_get_id :: "ExifMnoteDataCanon \<Rightarrow> u32 \<Rightarrow> u32 option" where
  "exif_mnote_data_canon_get_id dc i =
    do { r \<leftarrow> exif_mnote_data_canon_get_tags dc i;
         Some (case r of None \<Rightarrow> 0 | Some (m, s) \<Rightarrow> mn_tag (n_list dc ! m)) }"

text \<open>
  \<open>brand\<close> is what looking up the text of the tag \<open>Make\<close> gives: \<open>Some None\<close> without the tag. Texts are the bytes before the
  terminating zero.
\<close>

definition Canon_brand :: bytes where "Canon_brand = [0x43, 0x61, 0x6e, 0x6f, 0x6e]"

definition exif_mnote_data_canon_identify :: "bytes option option \<Rightarrow> bool option" where
  "exif_mnote_data_canon_identify brand = map_option (\<lambda>t. t = Some Canon_brand) brand"

section \<open>Fuji\<close>

type_synonym ExifMnoteDataFuji = MnoteData

definition exif_mnote_data_fuji_set_byte_order :: "ExifByteOrder \<Rightarrow> ExifMnoteDataFuji \<Rightarrow> ExifMnoteDataFuji option" where
  "exif_mnote_data_fuji_set_byte_order = mnote_set_byte_order"

definition exif_mnote_data_fuji_set_offset :: "u32 \<Rightarrow> ExifMnoteDataFuji \<Rightarrow> ExifMnoteDataFuji" where
  "exif_mnote_data_fuji_set_offset = mnote_set_offset"

definition fuji_id :: bytes where
  "fuji_id = [0x46, 0x55, 0x4a, 0x49, 0x46, 0x49, 0x4c, 0x4d]"

definition fuji_save_style :: SaveStyle where
  "fuji_save_style = \<lparr>ss_base = 0, ss_datao = 0, ss_even = True, ss_fill = False\<rparr>"

definition exif_mnote_data_fuji_save :: "alloc \<Rightarrow> ExifMnoteDataFuji \<Rightarrow> nat \<Rightarrow> Out option" where
  "exif_mnote_data_fuji_save al n k =
    (let out = new_out al (8 + 4 + 2 + of_nat (n_count n) * 12 + 4) k in
     if o_d out = NULL then Some (out\<lparr>o_ds := 0\<rparr>)
     else do {
       d \<leftarrow> wr_range (o_d out) 0 fuji_id;
       d \<leftarrow> exif_set_long d 8 (n_order n) 12;
       d \<leftarrow> exif_set_short d (8 + 4) (n_order n) (of_nat (n_count n));
       (done, out) \<leftarrow> save_loop al fuji_save_style (n_order n) (n_list n) (8 + 4 + 2) (out\<lparr>o_d := d\<rparr>);
       Some out })"

definition fuji_load_style :: "ExifMnoteDataFuji \<Rightarrow> LoadStyle" where
  "fuji_load_style n = \<lparr>ls_base = 0, ls_datao = 6 + n_offset n, ls_zero = True, ls_strict = True\<rparr>"

definition exif_mnote_data_fuji_load ::
  "alloc \<Rightarrow> cbuf \<Rightarrow> u32 \<Rightarrow> ExifMnoteDataFuji \<times> nat \<Rightarrow> (ExifMnoteDataFuji \<times> nat) option" where
  "exif_mnote_data_fuji_load al buf buf_size = (\<lambda>(n, k).
    if buf = NULL \<or> buf_size = 0 then Some (n, k)
    else let datao = 6 + n_offset n in
      if datao + 12 < datao \<or> datao + 12 < 12 \<or> datao + 12 > buf_size then Some (n, k)
      else do {
        let n = n\<lparr>n_order := EXIF_BYTE_ORDER_INTEL\<rparr>;
        v \<leftarrow> exif_get_long buf (unat datao + 8) EXIF_BYTE_ORDER_INTEL;
        let datao = datao + v;
        if datao + 2 < datao \<or> datao + 2 < 2 \<or> datao + 2 > buf_size then Some (n, k)
        else load_mentries al (fuji_load_style n) buf buf_size datao (n, k) })"

definition exif_mnote_data_fuji_identify :: "cbuf \<Rightarrow> u32 \<Rightarrow> bool option" where
  "exif_mnote_data_fuji_identify b sz =
    (if sz \<ge> 12 then map_option (\<lambda>bs. bs = fuji_id) (rd_range b 0 8) else Some False)"

section \<open>Olympus, Nikon, Sanyo, Epson\<close>

datatype OlympusVersion =
  unrecognized | nikonV1 | nikonV2 | olympusV1 | olympusV2 | sanyoV1 | epsonV1 | nikonV0

fun version_code :: "OlympusVersion \<Rightarrow> u8" where
  "version_code unrecognized = 0"
| "version_code nikonV1 = 1"
| "version_code nikonV2 = 2"
| "version_code olympusV1 = 3"
| "version_code olympusV2 = 4"
| "version_code sanyoV1 = 5"
| "version_code epsonV1 = 6"
| "version_code nikonV0 = 7"

record ExifMnoteDataOlympus = MnoteData +
  ol_version :: OlympusVersion

abbreviation (input) MNOTE_NIKON1_TAG_BASE :: u32 where "MNOTE_NIKON1_TAG_BASE \<equiv> 0x8000"

definition OLYMPUS_id :: bytes where "OLYMPUS_id = [0x4f, 0x4c, 0x59, 0x4d, 0x50, 0x55, 0x53, 0]"
definition OLYMP_id :: bytes where "OLYMP_id = [0x4f, 0x4c, 0x59, 0x4d, 0x50, 0]"
definition SANYO_id :: bytes where "SANYO_id = [0x53, 0x41, 0x4e, 0x59, 0x4f, 0]"
definition EPSON_id :: bytes where "EPSON_id = [0x45, 0x50, 0x53, 0x4f, 0x4e, 0]"
definition Nikon_id :: bytes where "Nikon_id = [0x4e, 0x69, 0x6b, 0x6f, 0x6e, 0]"

definition exif_mnote_data_olympus_set_byte_order :: "ExifByteOrder \<Rightarrow> ExifMnoteDataOlympus \<Rightarrow> ExifMnoteDataOlympus option" where
  "exif_mnote_data_olympus_set_byte_order = mnote_set_byte_order"

definition exif_mnote_data_olympus_set_offset :: "u32 \<Rightarrow> ExifMnoteDataOlympus \<Rightarrow> ExifMnoteDataOlympus" where
  "exif_mnote_data_olympus_set_offset = mnote_set_offset"

definition exif_mnote_data_olympus_identify_variant :: "cbuf \<Rightarrow> nat \<Rightarrow> u32 \<Rightarrow> OlympusVersion option" where
  "exif_mnote_data_olympus_identify_variant b p sz =
    do { bs \<leftarrow> rd_range b p (if sz \<ge> 8 then 8 else if sz \<ge> 2 then 2 else 0);
         Some
          (if sz \<ge> 8 \<and> bs = OLYMPUS_id then olympusV2
           else if sz \<ge> 8 \<and> take 6 bs = OLYMP_id then olympusV1
           else if sz \<ge> 8 \<and> take 6 bs = SANYO_id then sanyoV1
           else if sz \<ge> 8 \<and> take 6 bs = EPSON_id then epsonV1
           else if sz \<ge> 8 \<and> take 6 bs = Nikon_id
             then (if bs ! 6 = 1 then nikonV1 else if bs ! 6 = 2 then nikonV2 else unrecognized)
           else if sz \<ge> 2 \<and> take 2 bs = [0x00, 0x1b] then nikonV0
           else unrecognized) }"

definition order_mark :: "ExifByteOrder \<Rightarrow> u16" where
  "order_mark ord = (case ord of EXIF_BYTE_ORDER_INTEL \<Rightarrow> 0x4949 | EXIF_BYTE_ORDER_MOTOROLA \<Rightarrow> 0x4d4d)"

text \<open>
  The header of each variant: the size of the block without data, the block with the header written, the place of
  the number of entries, and the style of the entries. \<open>None\<close> is the return in the default case.
\<close>

definition olympus_size :: "ExifMnoteDataOlympus \<Rightarrow> u32" where
  "olympus_size n =
    (let buf_size = 6 + 2 + 2 + of_nat (n_count n) * 12 in
     if ol_version n \<in> {olympusV1, sanyoV1, epsonV1} then buf_size
     else if ol_version n = olympusV2 then buf_size + (8 - 6 + 4)
     else if ol_version n = nikonV1 then buf_size - (8 + 2) + (8 + 2) + 4
     else buf_size + (8 + 2) + 4)"

definition olympus_head :: "ExifMnoteDataOlympus \<Rightarrow> cbuf \<Rightarrow> (cbuf \<times> nat) option" where
  "olympus_head n d =
    (let ord = n_order n; v = ol_version n in
     if v \<in> {olympusV1, sanyoV1, epsonV1}
     then do { d \<leftarrow> wr_range d 0 (if v = sanyoV1 then SANYO_id else if v = epsonV1 then EPSON_id else OLYMP_id);
               d \<leftarrow> exif_set_short d 6 ord 1;
               Some (d, 6 + 2) }
     else if v = olympusV2
     then do { d \<leftarrow> wr_range d 0 OLYMPUS_id;
               d \<leftarrow> exif_set_short d 8 ord (order_mark ord);
               d \<leftarrow> exif_set_short d 10 ord 3;
               Some (d, 6 + 2 + 4) }
     else do { d \<leftarrow> wr_range d 0 Nikon_id;
               d \<leftarrow> wr d 6 (version_code v);
               (d, o2) \<leftarrow>
                 (if v \<noteq> nikonV1
                  then do { d \<leftarrow> exif_set_short d 10 ord (order_mark ord);
                            d \<leftarrow> exif_set_short d 12 ord 0x2a;
                            d \<leftarrow> exif_set_long d 14 ord 8;
                            Some (d, 6 + 2 + (2 + 8)) }
                  else Some (d, 6 + 2));
               d \<leftarrow> exif_set_long d (o2 + 2 + n_count n * 12) ord 0;
               Some (d, o2) })"

definition olympus_save_style :: "ExifMnoteDataOlympus \<Rightarrow> SaveStyle" where
  "olympus_save_style n =
    \<lparr>ss_base = (if ol_version n = nikonV1 then MNOTE_NIKON1_TAG_BASE else 0),
     ss_datao = (if ol_version n \<in> {olympusV1, sanyoV1, epsonV1} then n_offset n
                 else if ol_version n = olympusV2 then 0
                 else if ol_version n = nikonV1 then n_offset n + 10 - 10
                 else 0 - 10),
     ss_even = False, ss_fill = False\<rparr>"

definition exif_mnote_data_olympus_save :: "alloc \<Rightarrow> ExifMnoteDataOlympus \<Rightarrow> nat \<Rightarrow> Out option" where
  "exif_mnote_data_olympus_save al n k =
    (if ol_version n = unrecognized
     then Some \<lparr>o_d = NULL, o_ds = 6 + 2 + 2 + of_nat (n_count n) * 12, o_clock = k\<rparr>
     else
       let out = new_out al (olympus_size n) k in
       if o_d out = NULL then Some out
       else do {
         (d, o2) \<leftarrow> olympus_head n (o_d out);
         d \<leftarrow> exif_set_short d o2 (n_order n) (of_nat (n_count n));
         (done, out) \<leftarrow> save_loop al (olympus_save_style n) (n_order n) (n_list n) (o2 + 2) (out\<lparr>o_d := d\<rparr>);
         Some out })"

text \<open>An order in which the number of entries is implausible is taken for the other one.\<close>

definition swap_order :: "u16 \<Rightarrow> ExifByteOrder \<Rightarrow> ExifByteOrder" where
  "swap_order c ord =
    (if c AND 0xff = 0 \<and> c > 0x500
     then (if ord = EXIF_BYTE_ORDER_INTEL then EXIF_BYTE_ORDER_MOTOROLA else EXIF_BYTE_ORDER_INTEL)
     else ord)"

text \<open>
  Reading the header from \<open>o2\<close> on. The result is \<open>None\<close> for a return, else the place of the number of
  entries, the base of the offsets and the base of the tags. Reading bytes for a log message is
  reading them.
\<close>

type_synonym head_result = "(u32 \<times> u32 \<times> u32) option \<times> ExifMnoteDataOlympus"

definition load_olympusV1 :: "cbuf \<Rightarrow> u32 \<Rightarrow> u32 \<Rightarrow> ExifMnoteDataOlympus \<Rightarrow> head_result option" where
  "load_olympusV1 buf buf_size o2 n =
    do { a \<leftarrow> rd buf (unat o2 + 6);
         ord \<leftarrow> (if a = 1 then Some EXIF_BYTE_ORDER_INTEL
                else do { b \<leftarrow> rd buf (unat o2 + 6 + 1);
                          Some (if b = 1 then EXIF_BYTE_ORDER_MOTOROLA else n_order n) });
         let n = n\<lparr>n_order := ord\<rparr>;
         let o2 = o2 + 8;
         if o2 + 2 > buf_size then Some (None, n)
         else do { c \<leftarrow> exif_get_short buf (unat o2) (n_order n);
                   Some (Some (o2, 6, 0), n\<lparr>n_order := swap_order c (n_order n)\<rparr>) } }"

definition load_olympusV2 :: "cbuf \<Rightarrow> u32 \<Rightarrow> u32 \<Rightarrow> ExifMnoteDataOlympus \<Rightarrow> head_result option" where
  "load_olympusV2 buf buf_size o2 n =
    do { let datao = o2;
         let o2 = o2 + 8;
         log \<leftarrow> rd_range buf (unat o2) 4;
         let ord = (if take 2 log = [0x49, 0x49] then EXIF_BYTE_ORDER_INTEL
                    else if take 2 log = [0x4d, 0x4d] then EXIF_BYTE_ORDER_MOTOROLA else n_order n);
         Some (Some (o2 + 4, datao, 0), n\<lparr>n_order := ord\<rparr>) }"

definition load_nikonV1 :: "cbuf \<Rightarrow> u32 \<Rightarrow> u32 \<Rightarrow> ExifMnoteDataOlympus \<Rightarrow> head_result option" where
  "load_nikonV1 buf buf_size o2 n =
    (let o2 = o2 + 6 in
     if o2 \<ge> buf_size then Some (None, n)
     else do {
       log \<leftarrow> rd_range buf (unat o2) 8;
       let o2 = o2 + 1 + 1;
       if o2 + 2 > buf_size then Some (None, n)
       else do { c \<leftarrow> exif_get_short buf (unat o2) (n_order n);
                 Some (Some (o2, 6, MNOTE_NIKON1_TAG_BASE), n\<lparr>n_order := swap_order c (n_order n)\<rparr>) } })"

definition same_2 :: "cbuf \<Rightarrow> nat \<Rightarrow> u8 \<Rightarrow> bool option" where
  "same_2 buf p c = do { a \<leftarrow> rd buf p; if a = c then map_option (\<lambda>b. b = c) (rd buf (p + 1)) else Some False }"

definition load_nikonV2 :: "cbuf \<Rightarrow> u32 \<Rightarrow> u32 \<Rightarrow> ExifMnoteDataOlympus \<Rightarrow> head_result option" where
  "load_nikonV2 buf buf_size o2 n =
    (let o2 = o2 + 6 in
     if o2 \<ge> buf_size then Some (None, n)
     else do {
       log \<leftarrow> rd_range buf (unat o2) 8;
       let o2 = o2 + 1 + 1 + 2;
       let datao = o2;
       if o2 \<ge> buf_size then Some (None, n)
       else do {
         ii \<leftarrow> same_2 buf (unat o2) 0x49;
         mm \<leftarrow> same_2 buf (unat o2) 0x4d;
         if \<not> ii \<and> \<not> mm then do { log \<leftarrow> rd_range buf (unat o2) 2; Some (None, n) }
         else do {
           let n = n\<lparr>n_order := (if ii then EXIF_BYTE_ORDER_INTEL else EXIF_BYTE_ORDER_MOTOROLA)\<rparr>;
           let o2 = o2 + 2 + 2;
           if o2 + 4 > buf_size then Some (None, n)
           else do { v \<leftarrow> exif_get_long buf (unat o2) (n_order n); Some (Some (datao + v, datao, 0), n) } } } })"

definition load_nikonV0 :: "cbuf \<Rightarrow> u32 \<Rightarrow> u32 \<Rightarrow> ExifMnoteDataOlympus \<Rightarrow> head_result option" where
  "load_nikonV0 buf buf_size o2 n =
    do { log \<leftarrow> rd_range buf (unat o2) 8; Some (Some (o2, 6, 0), n\<lparr>n_order := EXIF_BYTE_ORDER_MOTOROLA\<rparr>) }"

definition olympus_load_head :: "cbuf \<Rightarrow> u32 \<Rightarrow> u32 \<Rightarrow> ExifMnoteDataOlympus \<Rightarrow> head_result option" where
  "olympus_load_head buf buf_size o2 n =
    (let v = ol_version n in
     if v \<in> {olympusV1, sanyoV1, epsonV1} then load_olympusV1 buf buf_size o2 n
     else if v = olympusV2 then load_olympusV2 buf buf_size o2 n
     else if v = nikonV1 then load_nikonV1 buf buf_size o2 n
     else if v = nikonV2 then load_nikonV2 buf buf_size o2 n
     else if v = nikonV0 then load_nikonV0 buf buf_size o2 n
     else Some (None, n))"

definition olympus_load_style :: "u32 \<Rightarrow> u32 \<Rightarrow> LoadStyle" where
  "olympus_load_style datao base = \<lparr>ls_base = base, ls_datao = datao, ls_zero = True, ls_strict = False\<rparr>"

definition exif_mnote_data_olympus_load ::
  "alloc \<Rightarrow> cbuf \<Rightarrow> u32 \<Rightarrow> ExifMnoteDataOlympus \<times> nat \<Rightarrow> (ExifMnoteDataOlympus \<times> nat) option" where
  "exif_mnote_data_olympus_load al buf buf_size = (\<lambda>(n, k).
    if buf = NULL \<or> buf_size = 0 then Some (n, k)
    else let o2 = 6 + n_offset n in
      if o2 + 10 < o2 \<or> o2 + 10 < 10 \<or> o2 + 10 > buf_size then Some (n, k)
      else do {
        v \<leftarrow> exif_mnote_data_olympus_identify_variant buf (unat o2) (buf_size - o2);
        (r, n) \<leftarrow> olympus_load_head buf buf_size o2 (n\<lparr>ol_version := v\<rparr>);
        case r of
          None \<Rightarrow> Some (n, k)
        | Some (o2, datao, base) \<Rightarrow>
            if o2 + 2 < o2 \<or> o2 + 2 < 2 \<or> o2 + 2 > buf_size then Some (n, k)
            else load_mentries al (olympus_load_style datao base) buf buf_size o2 (n, k) })"

definition Nikon_brand :: bytes where "Nikon_brand = [0x4e, 0x69, 0x6b, 0x6f, 0x6e]"
definition NIKON_brand :: bytes where "NIKON_brand = [0x4e, 0x49, 0x4b, 0x4f, 0x4e]"

text \<open>\<open>strncmp\<close> over five characters.\<close>

definition exif_mnote_data_olympus_identify :: "bytes option option \<Rightarrow> cbuf \<Rightarrow> u32 \<Rightarrow> OlympusVersion option" where
  "exif_mnote_data_olympus_identify brand b sz =
    do { v \<leftarrow> exif_mnote_data_olympus_identify_variant b 0 sz;
         if v = nikonV0
         then do { t \<leftarrow> brand;
                   Some (case t of
                           None \<Rightarrow> unrecognized
                         | Some t \<Rightarrow> if take 5 t = Nikon_brand \<or> take 5 t = NIKON_brand then nikonV0 else unrecognized) }
         else Some v }"

section \<open>Pentax and Casio\<close>

datatype PentaxVersion = pentaxV1 | pentaxV2 | pentaxV3 | casioV2

text \<open>The member is 0, which is no version, until a note is loaded.\<close>

record ExifMnoteDataPentax = MnoteData +
  px_version :: "PentaxVersion option"

abbreviation (input) MNOTE_PENTAX2_TAG_BASE :: u32 where "MNOTE_PENTAX2_TAG_BASE \<equiv> 0x4000"
abbreviation (input) MNOTE_CASIO2_TAG_BASE :: u32 where "MNOTE_CASIO2_TAG_BASE \<equiv> MNOTE_PENTAX2_TAG_BASE"

definition AOC_id :: bytes where "AOC_id = [0x41, 0x4f, 0x43, 0]"
definition QVC_id :: bytes where "QVC_id = [0x51, 0x56, 0x43, 0]"

definition exif_mnote_data_pentax_set_byte_order :: "ExifByteOrder \<Rightarrow> ExifMnoteDataPentax \<Rightarrow> ExifMnoteDataPentax option" where
  "exif_mnote_data_pentax_set_byte_order = mnote_set_byte_order"

definition exif_mnote_data_pentax_set_offset :: "u32 \<Rightarrow> ExifMnoteDataPentax \<Rightarrow> ExifMnoteDataPentax" where
  "exif_mnote_data_pentax_set_offset = mnote_set_offset"

definition pentax_head :: "PentaxVersion \<Rightarrow> ExifByteOrder \<Rightarrow> cbuf \<Rightarrow> (cbuf \<times> nat) option" where
  "pentax_head v ord d =
    (case v of
       casioV2 \<Rightarrow> do { d \<leftarrow> wr_range d 0 QVC_id; d \<leftarrow> exif_set_short d 4 ord 0; Some (d, 4 + 2) }
     | pentaxV3 \<Rightarrow> do { d \<leftarrow> wr_range d 0 AOC_id; d \<leftarrow> exif_set_short d 4 ord (order_mark ord); Some (d, 4 + 2) }
     | pentaxV2 \<Rightarrow> do { d \<leftarrow> wr_range d 0 AOC_id; d \<leftarrow> exif_set_short d 4 ord 0; Some (d, 4 + 2) }
     | pentaxV1 \<Rightarrow> Some (d, 4 + 2 - 6))"

definition pentax_save_style :: "PentaxVersion \<Rightarrow> u32 \<Rightarrow> SaveStyle" where
  "pentax_save_style v offset =
    \<lparr>ss_base = (if v = pentaxV1 then 0 else MNOTE_PENTAX2_TAG_BASE), ss_datao = offset, ss_even = False, ss_fill = False\<rparr>"

definition exif_mnote_data_pentax_save :: "alloc \<Rightarrow> ExifMnoteDataPentax \<Rightarrow> nat \<Rightarrow> Out option" where
  "exif_mnote_data_pentax_save al n k =
    (let buf_size = 4 + 2 + 2 + of_nat (n_count n) * 12 + 4 in
     case px_version n of
       None \<Rightarrow> Some \<lparr>o_d = NULL, o_ds = buf_size, o_clock = k\<rparr>
     | Some v \<Rightarrow>
         let out = new_out al (if v = pentaxV1 then buf_size - 6 else buf_size) k in
         if o_d out = NULL then Some out
         else do {
           (d, o2) \<leftarrow> pentax_head v (n_order n) (o_d out);
           d \<leftarrow> exif_set_short d o2 (n_order n) (of_nat (n_count n));
           (done, out) \<leftarrow> save_loop al (pentax_save_style v (n_offset n)) (n_order n) (n_list n) (o2 + 2) (out\<lparr>o_d := d\<rparr>);
           if \<not> done then Some out
           else do { d \<leftarrow> exif_set_long (o_d out) (o2 + 2 + n_count n * 12) (n_order n) 0;
                     Some (out\<lparr>o_d := d\<rparr>) } })"

definition pentax_load_head :: "cbuf \<Rightarrow> u32 \<Rightarrow> ExifMnoteDataPentax \<Rightarrow> (u32 \<times> u32 \<times> ExifMnoteDataPentax) option" where
  "pentax_load_head buf datao n =
    do { bs \<leftarrow> rd_range buf (unat datao) 4;
         if bs = AOC_id
         then do {
           m \<leftarrow> rd_range buf (unat datao + 4) 2;
           let n = (if m = [0x49, 0x49] then n\<lparr>px_version := Some pentaxV3, n_order := EXIF_BYTE_ORDER_INTEL\<rparr>
                    else if m = [0x4d, 0x4d] then n\<lparr>px_version := Some pentaxV3, n_order := EXIF_BYTE_ORDER_MOTOROLA\<rparr>
                    else n\<lparr>px_version := Some pentaxV2\<rparr>);
           Some (datao + (4 + 2), MNOTE_PENTAX2_TAG_BASE, n) }
         else if bs = QVC_id
         then Some (datao + (4 + 2), MNOTE_CASIO2_TAG_BASE, n\<lparr>px_version := Some casioV2\<rparr>)
         else Some (datao, 0, n\<lparr>px_version := Some pentaxV1\<rparr>) }"

definition pentax_load_style :: "u32 \<Rightarrow> LoadStyle" where
  "pentax_load_style base = \<lparr>ls_base = base, ls_datao = 6, ls_zero = True, ls_strict = False\<rparr>"

definition exif_mnote_data_pentax_load ::
  "alloc \<Rightarrow> cbuf \<Rightarrow> u32 \<Rightarrow> ExifMnoteDataPentax \<times> nat \<Rightarrow> (ExifMnoteDataPentax \<times> nat) option" where
  "exif_mnote_data_pentax_load al buf buf_size = (\<lambda>(n, k).
    if buf = NULL \<or> buf_size = 0 then Some (n, k)
    else let datao = 6 + n_offset n in
      if datao + 8 < datao \<or> datao + 8 < 8 \<or> datao + 8 > buf_size then Some (n, k)
      else do {
        (datao, base, n) \<leftarrow> pentax_load_head buf datao n;
        load_mentries al (pentax_load_style base) buf buf_size datao (n, k) })"

definition exif_mnote_data_pentax_identify :: "cbuf \<Rightarrow> u32 \<Rightarrow> PentaxVersion option option" where
  "exif_mnote_data_pentax_identify b sz =
    do { bs \<leftarrow> rd_range b 0 (if sz \<ge> 8 then 8 else if sz \<ge> 2 then 2 else 0);
         Some
          (if sz \<ge> 8 \<and> take 4 bs = AOC_id
           then (if take 2 (drop 4 bs) \<in> {[0x49, 0x49], [0x4d, 0x4d]} then Some pentaxV3 else Some pentaxV2)
           else if sz \<ge> 8 \<and> take 4 bs = QVC_id then Some casioV2
           else if sz \<ge> 2 \<and> take 2 bs = [0x00, 0x1b] then Some pentaxV1
           else None) }"

section \<open>Access by number, the same in three modules\<close>

definition mnote_get_id :: "'a MnoteData_scheme \<Rightarrow> u32 \<Rightarrow> u32" where
  "mnote_get_id n i = (if of_nat (n_count n) \<le> i then 0 else mn_tag (n_list n ! unat i))"

section \<open>The modules keep the interface\<close>

definition note_home :: "'a MnoteData_scheme \<Rightarrow> nat" where
  "note_home n = 6 + unat (n_offset n)"

lemma mnote_okD: "mnote_ok n \<Longrightarrow> list_all mentry_ok (n_list n)" "mnote_ok n \<Longrightarrow> n_count n < 2 ^ 16"
  by (simp_all add: mnote_ok_def)

lemma mnote_ok_order [simp]: "mnote_ok (n\<lparr>n_order := x\<rparr>) = mnote_ok n"
  by (simp add: mnote_ok_def n_list_def)

text \<open>The test that \<open>j\<close> bytes at a place are inside a buffer of \<open>L\<close> bytes, as every loader makes it.\<close>

lemma range_fits:
  fixes o2 :: u32
  assumes "\<not> (o2 + j < o2 \<or> o2 + j < j \<or> o2 + j > of_nat L)" and "L < 2 ^ 32"
  shows "unat o2 + unat j \<le> L"
  using assms word_add_nowrap [of o2 j] by (simp add: not_less word_le_nat_alt unat_word_of_nat_32)

lemma range_test:
  fixes o2 :: u32
  assumes "unat o2 + unat j \<le> L" and "L < 2 ^ 32"
  shows "\<not> (o2 + j < o2 \<or> o2 + j < j \<or> o2 + j > of_nat L)"
proof -
  have "unat (o2 + j) = unat o2 + unat j" using assms by (simp add: unat_word_ariths)
  then show ?thesis using assms by (simp add: word_less_nat_alt unat_word_of_nat_32)
qed

lemma unat_home: "note_home n < 2 ^ 32 \<Longrightarrow> unat (6 + n_offset n) = note_home n"
  by (simp add: note_home_def unat_word_ariths)

lemma home_word: "6 + n_offset n = of_nat (note_home n)"
  by (simp add: note_home_def)

lemma not_empty: "j \<le> L \<Longrightarrow> 0 < j \<Longrightarrow> L < 2 ^ 32 \<Longrightarrow> (of_nat L :: u32) \<noteq> 0"
  using unat_word_of_nat_32 [of L] by (metis le_zero_eq neq0_conv unat_0)

lemma wr_next:
  assumes "p = length A" and "length bs \<le> m"
  shows "wr_range (Buf (A @ replicate m 0)) p bs = Some (Buf ((A @ bs) @ replicate (m - length bs) 0))"
  using wr_zeros [of A p bs m] assms by simp

lemma prepared_fields: "n0\<lparr>n_entries := x\<rparr> = n \<Longrightarrow> n_order n0 = n_order n \<and> n_offset n0 = n_offset n"
  by auto

subsection \<open>Canon\<close>

definition canon_image :: "ExifMnoteDataCanon \<Rightarrow> bytes" where
  "canon_image n = note_image [] (replicate 4 0) (canon_save_style n) (n_order n) (n_list n)"

text \<open>The reader keeps no entry without data, and the others have at least one value.\<close>

definition canon_ok :: "ExifMnoteDataCanon \<Rightarrow> bool" where
  "canon_ok n \<longleftrightarrow> mnote_ok n \<and> list_all (\<lambda>e. mn_size e \<noteq> 0) (n_list n)"

definition canon_readable :: "ExifMnoteDataCanon \<Rightarrow> bool" where
  "canon_readable n \<longleftrightarrow> n_entries n \<noteq> None \<and> mnote_ok n \<and> list_all (mentry_kept canon_load_style (n_order n)) (n_list n)"

lemma canon_save_eq:
  assumes "mnote_ok n"
  shows "exif_mnote_data_canon_save al n k =
    (let N = 12 * n_count n + 6 in
     if al k N then save_from al (canon_save_style n) (n_order n) (n_list n) [] (replicate 4 0) (Suc k)
     else Some \<lparr>o_d = NULL, o_ds = of_nat N, o_clock = Suc k\<rparr>)"
proof -
  let ?c = "of_nat (n_count n) :: u16"
  let ?N = "12 * n_count n + 6"
  have N: "?N < 2 ^ 32" "2 + of_nat (n_count n) * 12 + 4 = (of_nat ?N :: u32)" using mnote_okD(2) [OF assms] by simp_all
  have "exif_set_short (Buf (replicate ?N 0)) 0 (n_order n) ?c = Some (Buf (enc16 (n_order n) ?c @ replicate (12 * n_count n) 0 @ replicate 4 0))"
    using wr_zeros [of "[]" 0 "enc16 (n_order n) ?c" ?N]
    by (simp add: eshort.set_eq eshort.enc_length zeros_split [symmetric] del: wr_range.simps)
  moreover have "length (replicate ?N (0 :: u8)) = length (enc16 (n_order n) ?c @ replicate (12 * n_count n) 0 @ replicate 4 0)"
    by (simp add: eshort.enc_length)
  ultimately show ?thesis
    unfolding exif_mnote_data_canon_save_def Let_def new_out_eq [OF N]
    using save_fromI [of 2 "[]" _ "n_order n" "n_list n" "replicate 4 0" "replicate ?N 0" al "canon_save_style n" "Suc k"]
    by simp
qed

interpretation canon: maker_note exif_mnote_data_canon_load exif_mnote_data_canon_save canon_ok "\<lambda>n L. True" canon_image
  canon_readable "\<lambda>n n0. n0\<lparr>n_entries := n_entries n\<rparr> = n" note_home
proof (unfold_locales, goal_cases)
  case (1 n d al k)
  show ?case
  proof (cases "Buf d = NULL \<or> (of_nat (length d) :: u32) = 0 \<or> (let o2 = 6 + n_offset n; L = of_nat (length d)
      in o2 + 2 < o2 \<or> o2 + 2 < 2 \<or> o2 + 2 > L)")
    case True
    then show ?thesis using 1(1) by (auto simp: exif_mnote_data_canon_load_def Let_def)
  next
    case False
    then have "unat (6 + n_offset n) + 2 \<le> length d" using range_fits [of "6 + n_offset n" 2 "length d"] 1(2) by (simp add: Let_def)
    from load_mentries_safe [OF this 1(2), of al canon_load_style n k] False show ?thesis
      by (auto simp: exif_mnote_data_canon_load_def Let_def canon_ok_def mentry_in_def canon_load_style_def list_all_iff)
  qed
next
  case (2 n al k)
  then have ok: "mnote_ok n" by (simp add: canon_ok_def)
  show ?case
    using save_from_ok(1) [OF mnote_okD(1) [OF ok] 2(2) [unfolded canon_image_def], of al "Suc k"]
    by (simp add: canon_save_eq [OF ok] Let_def)
next
  case (3 al n k)
  then have ok: "mnote_ok n" by (simp add: canon_readable_def)
  show ?case
    using save_from_ok(2) [OF mnote_okD(1) [OF ok] 3(3) [unfolded canon_image_def] 3(1), of "Suc k"] 3(1)
    by (simp add: canon_save_eq [OF ok] Let_def plenty_def canon_image_def)
next
  case (4 n)
  then show ?case
    by (auto simp: canon_readable_def canon_ok_def list_all_iff mentry_kept_def canon_load_style_def mn_len_def mentry_ok_def)
next
  case (5 al n n0 pre post k)
  then obtain es where es: "n_entries n = Some es" "n_list n = es" and ok: "mnote_ok n"
    and kept: "list_all (mentry_kept canon_load_style (n_order n)) es"
    by (auto simp: canon_readable_def n_list_def)
  have n0: "n_order n0 = n_order n" "n_offset n0 = n_offset n" "n0\<lparr>n_entries := Some es\<rparr> = n"
    using prepared_fields [OF 5(3)] 5(3) es(1) by simp_all
  let ?F = "pre @ canon_image n @ post"
  have L: "note_home n0 + 2 \<le> length ?F"
    using 5(4) n0(2) length_note_image [OF mnote_okD(1) [OF ok]] by (simp add: canon_image_def note_home_def)
  then have h: "unat (6 + n_offset n0) = note_home n0" using 5(6) by (intro unat_home) linarith
  have t: "\<not> (6 + n_offset n0 + 2 < 6 + n_offset n0 \<or> 6 + n_offset n0 + 2 < 2 \<or> 6 + n_offset n0 + 2 > of_nat (length ?F))"
    using L h 5(6) by (intro range_test) simp_all
  obtain k' where "load_mentries mem_ok canon_load_style (Buf ?F) (of_nat (length ?F)) (6 + n_offset n0) (n0, k) = Some (n, k')"
    using load_mentries_image [OF kept _ n0(1), of ?F pre "[]" "replicate 4 0" "canon_save_style n" post "6 + n_offset n0" k]
      5(4,6) mnote_okD(2) [OF ok] n0 es
    by (auto simp: canon_image_def canon_save_style_def canon_load_style_def note_home_def)
  moreover have "(of_nat (length ?F) :: u32) \<noteq> 0" using L 5(6) by (intro not_empty [of 1]) simp_all
  ultimately show ?case
    using 5(1) t by (simp add: exif_mnote_data_canon_load_def Let_def plenty_mem_ok)
qed


subsection \<open>Fuji\<close>

definition fuji_image :: "ExifMnoteDataFuji \<Rightarrow> bytes" where
  "fuji_image n = note_image (fuji_id @ enc32 (n_order n) 12) (replicate 4 0) fuji_save_style (n_order n) (n_list n)"

text \<open>A note is read in the order of Intel, whatever it was written in.\<close>

definition fuji_readable :: "ExifMnoteDataFuji \<Rightarrow> bool" where
  "fuji_readable n \<longleftrightarrow> n_entries n \<noteq> None \<and> mnote_ok n \<and> n_order n = EXIF_BYTE_ORDER_INTEL \<and>
    list_all (mentry_kept (fuji_load_style n) (n_order n)) (n_list n)"

lemma length_fuji_id [simp]: "length fuji_id = 8"
  by (simp add: fuji_id_def)

lemma fuji_save_eq:
  assumes "mnote_ok n"
  shows "exif_mnote_data_fuji_save al n k =
    (if al k (12 * n_count n + 18)
     then save_from al fuji_save_style (n_order n) (n_list n) (fuji_id @ enc32 (n_order n) 12) (replicate 4 0) (Suc k)
     else Some \<lparr>o_d = NULL, o_ds = 0, o_clock = Suc k\<rparr>)"
proof -
  let ?c = "of_nat (n_count n) :: u16"
  let ?N = "12 * n_count n + 18"
  let ?ord = "n_order n"
  let ?h = "fuji_id @ enc32 ?ord 12"
  have N: "?N < 2 ^ 32" "8 + 4 + 2 + of_nat (n_count n) * 12 + 4 = (of_nat ?N :: u32)" using mnote_okD(2) [OF assms] by simp_all
  have "wr_range (Buf (replicate ?N 0)) 0 fuji_id = Some (Buf (fuji_id @ replicate (?N - 8) 0))"
    using wr_next [of 0 "[]" fuji_id ?N] by (simp del: wr_range.simps)
  moreover have "exif_set_long (Buf (fuji_id @ replicate (?N - 8) 0)) 8 ?ord 12 = Some (Buf (?h @ replicate (?N - 12) 0))"
    using wr_next [of 8 fuji_id "enc32 ?ord 12" "?N - 8"] by (simp add: elong.set_eq elong.enc_length del: wr_range.simps)
  moreover have "exif_set_short (Buf (?h @ replicate (?N - 12) 0)) (8 + 4) ?ord ?c = Some (Buf (?h @ enc16 ?ord ?c @ replicate (12 * n_count n) 0 @ replicate 4 0))"
    using wr_next [of 12 ?h "enc16 ?ord ?c" "?N - 12"]
    by (simp add: eshort.set_eq eshort.enc_length elong.enc_length zeros_split [symmetric] del: wr_range.simps)
  moreover have "length (replicate ?N (0 :: u8)) = length (?h @ enc16 ?ord ?c @ replicate (12 * n_count n) 0 @ replicate 4 0)"
    by (simp add: eshort.enc_length elong.enc_length)
  ultimately show ?thesis
    unfolding exif_mnote_data_fuji_save_def Let_def new_out_eq [OF N]
    using save_fromI [of 14 ?h _ ?ord "n_list n" "replicate 4 0" "replicate ?N 0" al fuji_save_style "Suc k"]
    by (simp add: elong.enc_length del: wr_range.simps)
qed

interpretation fuji: maker_note exif_mnote_data_fuji_load exif_mnote_data_fuji_save mnote_ok "\<lambda>n L. True" fuji_image
  fuji_readable "\<lambda>n n0. n0\<lparr>n_entries := n_entries n, n_order := n_order n\<rparr> = n" note_home
proof (unfold_locales, goal_cases)
  case (1 n d al k)
  let ?n = "n\<lparr>n_order := EXIF_BYTE_ORDER_INTEL\<rparr>"
  let ?o = "6 + n_offset n"
  show ?case
  proof (cases "(of_nat (length d) :: u32) = 0 \<or> ?o + 12 < ?o \<or> ?o + 12 < 12 \<or> ?o + 12 > of_nat (length d)")
    case True
    then show ?thesis using 1(1) by (auto simp: exif_mnote_data_fuji_load_def Let_def)
  next
    case False
    then have "unat ?o + 12 \<le> length d" using range_fits [of ?o 12 "length d"] 1(2) by simp
    then obtain v where v: "exif_get_long (Buf d) (unat ?o + 8) EXIF_BYTE_ORDER_INTEL = Some v"
      using get_long_Buf [of "unat ?o + 8" d] by simp
    show ?thesis
    proof (cases "?o + v + 2 < ?o + v \<or> ?o + v + 2 < 2 \<or> ?o + v + 2 > of_nat (length d)")
      case True
      then show ?thesis using False v 1(1) by (auto simp: exif_mnote_data_fuji_load_def Let_def)
    next
      case no: False
      then have "unat (?o + v) + 2 \<le> length d" using range_fits [of "?o + v" 2 "length d"] 1(2) by simp
      from load_mentries_safe [OF this 1(2), of al "fuji_load_style ?n" ?n k] False no v show ?thesis
        by (auto simp: exif_mnote_data_fuji_load_def Let_def)
    qed
  qed
next
  case (2 n al k)
  show ?case
    using save_from_ok(1) [OF mnote_okD(1) [OF 2(1)] 2(2) [unfolded fuji_image_def], of al "Suc k"]
    by (simp add: fuji_save_eq [OF 2(1)])
next
  case (3 al n k)
  then have ok: "mnote_ok n" by (simp add: fuji_readable_def)
  show ?case
    using save_from_ok(2) [OF mnote_okD(1) [OF ok] 3(3) [unfolded fuji_image_def] 3(1), of "Suc k"] 3(1)
    by (simp add: fuji_save_eq [OF ok] plenty_def fuji_image_def)
next
  case (4 n)
  then show ?case by (simp add: fuji_readable_def)
next
  case (5 al n n0 pre post k)
  then obtain es where es: "n_entries n = Some es" "n_list n = es" and ok: "mnote_ok n" and ord: "n_order n = EXIF_BYTE_ORDER_INTEL"
    and kept: "list_all (mentry_kept (fuji_load_style n) EXIF_BYTE_ORDER_INTEL) es"
    by (auto simp: fuji_readable_def n_list_def)
  let ?n = "n0\<lparr>n_order := EXIF_BYTE_ORDER_INTEL\<rparr>"
  have n0: "n_offset n0 = n_offset n" "?n\<lparr>n_entries := Some es\<rparr> = n" "fuji_load_style ?n = fuji_load_style n"
    using 5(3) es(1) ord by (cases n; cases n0; simp add: fuji_load_style_def)+
  let ?h = "fuji_id @ enc32 EXIF_BYTE_ORDER_INTEL 12"
  let ?F = "pre @ fuji_image n @ post"
  let ?o = "6 + n_offset n0"
  have hm: "note_home n0 = length pre" using 5(4) n0(1) by (simp add: note_home_def)
  have img: "fuji_image n = note_image ?h (replicate 4 0) fuji_save_style EXIF_BYTE_ORDER_INTEL es"
    by (simp add: fuji_image_def ord es)
  have okes: "list_all mentry_ok es" using mnote_okD(1) [OF ok] es by simp
  have len: "length ?F = length pre + 18 + 12 * length es + length (mn_exts fuji_save_style es) + length post"
    using length_note_image [OF okes] by (simp add: img elong.enc_length)
  have h: "unat ?o = length pre" "?o = of_nat (length pre)" using unat_home [of n0] home_word [of n0] hm len 5(6) by simp_all
  have t: "\<not> (?o + 12 < ?o \<or> ?o + 12 < 12 \<or> ?o + 12 > of_nat (length ?F))"
    using len h 5(6) by (intro range_test) simp_all
  have "take 4 (drop (length pre + 8) ?F) = enc32 EXIF_BYTE_ORDER_INTEL 12"
    by (simp add: img note_image_def elong.enc_length)
  then have v: "exif_get_long (Buf ?F) (unat ?o + 8) EXIF_BYTE_ORDER_INTEL = Some 12"
    using get_long_Buf [of "length pre + 8" ?F EXIF_BYTE_ORDER_INTEL] len h by (simp add: elong.dec_enc)
  have o12: "?o + 12 = of_nat (length pre + length ?h)" "unat (?o + 12) = length pre + 12"
    using h len 5(6) by (simp_all add: elong.enc_length unat_word_ariths)
  have t2: "\<not> (?o + 12 + 2 < ?o + 12 \<or> ?o + 12 + 2 < 2 \<or> ?o + 12 + 2 > of_nat (length ?F))"
    using len o12(2) 5(6) by (intro range_test) simp_all
  have "ss_base fuji_save_style = ls_base (fuji_load_style n)" "ss_datao fuji_save_style + ls_datao (fuji_load_style n) = of_nat (length pre)"
    using h n0(1) by (simp_all add: fuji_save_style_def fuji_load_style_def)
  then obtain k' where "load_mentries mem_ok (fuji_load_style ?n) (Buf ?F) (of_nat (length ?F)) (?o + 12) (?n, k) = Some (n, k')"
    using load_mentries_image [OF kept _ _ _ 5(6), of ?n pre ?h "replicate 4 0" fuji_save_style post "?o + 12" k]
      mnote_okD(2) [OF ok] n0 es o12(1) 5(5) img by auto
  moreover have "(of_nat (length ?F) :: u32) \<noteq> 0" using len 5(6) by (intro not_empty [of 1]) simp_all
  ultimately show ?case
    using 5(1) t t2 v by (simp add: exif_mnote_data_fuji_load_def Let_def plenty_mem_ok)
qed


subsection \<open>Pentax and Casio\<close>

definition pentax_hdr :: "PentaxVersion \<Rightarrow> ExifByteOrder \<Rightarrow> bytes" where
  "pentax_hdr v ord =
    (case v of
       casioV2 \<Rightarrow> QVC_id @ enc16 ord 0
     | pentaxV3 \<Rightarrow> AOC_id @ enc16 ord (order_mark ord)
     | pentaxV2 \<Rightarrow> AOC_id @ enc16 ord 0
     | pentaxV1 \<Rightarrow> [])"

definition pentax_base :: "PentaxVersion \<Rightarrow> u32" where
  "pentax_base v = (if v = pentaxV1 then 0 else MNOTE_PENTAX2_TAG_BASE)"

definition pentax_image :: "ExifMnoteDataPentax \<Rightarrow> bytes" where
  "pentax_image n =
    (case px_version n of
       None \<Rightarrow> []
     | Some v \<Rightarrow> note_image (pentax_hdr v (n_order n)) (replicate 4 0) (pentax_save_style v (n_offset n)) (n_order n) (n_list n))"

text \<open>A note without a header is recognised because it does not look like one with a header, and has to be long enough.\<close>

definition pentax_readable :: "ExifMnoteDataPentax \<Rightarrow> bool" where
  "pentax_readable n \<longleftrightarrow> n_entries n \<noteq> None \<and> mnote_ok n \<and>
    (\<exists>v. px_version n = Some v \<and> list_all (mentry_kept (pentax_load_style (pentax_base v)) (n_order n)) (n_list n) \<and>
       (v = pentaxV1 \<longrightarrow> n_list n \<noteq> [] \<and> take 4 (pentax_image n) \<notin> {AOC_id, QVC_id}))"

definition pentax_prepared :: "ExifMnoteDataPentax \<Rightarrow> ExifMnoteDataPentax \<Rightarrow> bool" where
  "pentax_prepared n n0 \<longleftrightarrow> n0\<lparr>n_entries := n_entries n, n_order := n_order n, px_version := px_version n\<rparr> = n \<and>
    (px_version n \<noteq> Some pentaxV3 \<longrightarrow> n_order n0 = n_order n)"

lemma length_pentax_ids [simp]: "length AOC_id = 4" "length QVC_id = 4"
  by (simp_all add: AOC_id_def QVC_id_def)

lemma length_pentax_hdr: "length (pentax_hdr v ord) = (if v = pentaxV1 then 0 else 6)"
  by (cases v) (simp_all add: pentax_hdr_def eshort.enc_length)

lemma pentax_head_eq:
  assumes "6 \<le> N"
  shows "pentax_head v ord (Buf (replicate N 0)) =
    Some (Buf (pentax_hdr v ord @ replicate (N - length (pentax_hdr v ord)) 0), length (pentax_hdr v ord))"
proof -
  have w: "(do { d \<leftarrow> wr_range (Buf (replicate N 0)) 0 bs; d \<leftarrow> exif_set_short d 4 ord x; Some (d, 4 + 2) })
      = Some (Buf ((bs @ enc16 ord x) @ replicate (N - 6) 0), 6 :: nat)" if "length bs = 4" for bs :: bytes and x
    using wr_next [of 0 "[]" bs N] wr_next [of 4 bs "enc16 ord x" "N - 4"] that assms
    by (simp add: eshort.set_eq eshort.enc_length del: wr_range.simps)
  show ?thesis
    using w [of AOC_id] w [of QVC_id] by (cases v) (simp_all add: pentax_head_def pentax_hdr_def eshort.enc_length)
qed

lemma pentax_save_eq:
  assumes "mnote_ok n" and "px_version n = Some v" and "length (pentax_image n) < 2 ^ 32"
  shows "exif_mnote_data_pentax_save al n k =
    (let N = length (pentax_hdr v (n_order n)) + 2 + 12 * n_count n + 4 in
     if al k N
     then save_from al (pentax_save_style v (n_offset n)) (n_order n) (n_list n) (pentax_hdr v (n_order n)) (replicate 4 0) (Suc k)
     else Some \<lparr>o_d = NULL, o_ds = of_nat N, o_clock = Suc k\<rparr>)"
proof -
  let ?c = "of_nat (n_count n) :: u16"
  let ?ord = "n_order n"
  let ?h = "pentax_hdr v ?ord"
  let ?st = "pentax_save_style v (n_offset n)"
  let ?N = "length ?h + 2 + 12 * n_count n + 4"
  let ?d = "?h @ enc16 ?ord ?c @ replicate (12 * n_count n) 0 @ replicate 4 0"
  have ok: "list_all mentry_ok (n_list n)" using assms(1) by (rule mnote_okD)
  have N: "?N < 2 ^ 32" "(if v = pentaxV1 then 4 + 2 + 2 + of_nat (n_count n) * 12 + 4 - 6 else 4 + 2 + 2 + of_nat (n_count n) * 12 + 4) = (of_nat ?N :: u32)"
    using mnote_okD(2) [OF assms(1)] by (simp_all add: length_pentax_hdr)
  have h: "pentax_head v ?ord (Buf (replicate ?N 0)) = Some (Buf (?h @ replicate (2 + 12 * n_count n + 4) 0), length ?h)"
    using pentax_head_eq [of ?N v ?ord] by simp
  have c: "exif_set_short (Buf (?h @ replicate (2 + 12 * n_count n + 4) 0)) (length ?h) ?ord ?c = Some (Buf ?d)"
    using wr_next [of "length ?h" ?h "enc16 ?ord ?c" "2 + 12 * n_count n + 4"]
    by (simp add: eshort.set_eq eshort.enc_length zeros_split [symmetric] del: wr_range.simps)
  obtain b d' c' where l: "save_loop al ?st ?ord (n_list n) (length ?h + 2) (out_of ?d (Suc k)) = Some (b, out_of d' c')"
    "b \<longrightarrow> d' = note_image ?h (replicate 4 0) ?st ?ord (n_list n)"
    using save_loop_image [OF ok, of ?h "replicate 4 0" ?st ?ord al "Suc k"] assms(2,3) by (auto simp: pentax_image_def)
  have z: "enc32 ?ord 0 = replicate 4 0" by (cases ?ord) (simp_all add: enc32_def byte_n_def numeral_eq_Suc)
  have last: "exif_set_long (Buf d') (length ?h + 2 + n_count n * 12) ?ord 0 = Some (Buf d')" if b
    using l(2) that ok wr_range_mid [of "replicate 4 0" "replicate 4 0" _ "?h @ enc16 ?ord ?c @ mn_slots ?st ?ord (length ?h + 2 + 12 * n_count n + length (replicate 4 (0 :: u8))) (n_list n)"]
    by (simp add: elong.set_eq z note_image_def eshort.enc_length mult.commute del: wr_range.simps)
  have "length (replicate ?N (0 :: u8)) = length ?d" by (simp add: eshort.enc_length)
  then have o: "(out_of (replicate ?N 0) (Suc k))\<lparr>o_d := Buf ?d\<rparr> = out_of ?d (Suc k)" by (simp add: out_of_def eshort.enc_length)
  have keep: "(out_of d' c')\<lparr>o_d := Buf d'\<rparr> = out_of d' c'" by (simp add: out_of_def)
  have body: "(do { (d, o2) \<leftarrow> pentax_head v ?ord (Buf (replicate ?N 0));
           d \<leftarrow> exif_set_short d o2 ?ord ?c;
           (done, out) \<leftarrow> save_loop al ?st ?ord (n_list n) (o2 + 2) ((out_of (replicate ?N 0) (Suc k))\<lparr>o_d := d\<rparr>);
           if \<not> done then Some out
           else do { d \<leftarrow> exif_set_long (o_d out) (o2 + 2 + n_count n * 12) ?ord 0; Some (out\<lparr>o_d := d\<rparr>) } })
     = Some (out_of d' c')"
    by (simp only: h Option.bind.simps prod.case c o l(1))
      (cases b; simp only: simp_thms if_True if_False last Option.bind.simps keep out_of_simps(1))
  have eq: "save_from al ?st ?ord (n_list n) ?h (replicate 4 0) (Suc k) = Some (out_of d' c')"
    unfolding save_from_def l(1) by simp
  show ?thesis
    unfolding exif_mnote_data_pentax_save_def Let_def assms(2) option.case new_out_eq [OF N] eq
    by (cases "al k ?N") (simp_all only: if_True if_False body out_of_simps(1) Out.simps cbuf.simps simp_thms N(2))
qed

lemma unat_small_add: "unat (o2 :: u32) + unat j < 2 ^ 32 \<Longrightarrow> unat (o2 + j) = unat o2 + unat j"
  by (simp add: unat_word_ariths)

lemma pentax_load_head_ok:
  assumes "unat datao + 8 \<le> length d" and "length d < 2 ^ 32"
  shows "\<exists>p base n'. pentax_load_head (Buf d) datao n = Some (p, base, n') \<and> unat p + 2 \<le> length d"
proof -
  have "unat (datao + 6) = unat datao + 6" using assms by (intro unat_small_add [of datao 6, simplified]) simp
  then show ?thesis
    using assms by (auto simp: pentax_load_head_def Let_def)
qed

lemma pentax_hdr_read:
  assumes "F = pre @ pentax_hdr v ord @ rest" and "v = pentaxV1 \<Longrightarrow> take 4 rest \<notin> {AOC_id, QVC_id}"
    and "length pre + 8 \<le> length F" and "unat p = length pre" and "v \<noteq> pentaxV3 \<Longrightarrow> n_order n = ord"
  shows "pentax_load_head (Buf F) p n
    = Some (p + of_nat (length (pentax_hdr v ord)), pentax_base v, n\<lparr>px_version := Some v, n_order := ord\<rparr>)"
proof -
  have four: "take 4 (drop (length pre) F) = (case v of casioV2 \<Rightarrow> QVC_id | pentaxV1 \<Rightarrow> take 4 rest | _ \<Rightarrow> AOC_id)"
    unfolding assms(1) by (cases v) (simp_all add: pentax_hdr_def)
  have two: "take 2 (drop (length pre + 4) F) = enc16 ord (if v = pentaxV3 then order_mark ord else 0)" if "v = pentaxV3 \<or> v = pentaxV2"
    using that unfolding assms(1) by (auto simp: pentax_hdr_def eshort.enc_length)
  have m: "enc16 EXIF_BYTE_ORDER_INTEL (order_mark EXIF_BYTE_ORDER_INTEL) = [0x49, 0x49]"
    "enc16 EXIF_BYTE_ORDER_MOTOROLA (order_mark EXIF_BYTE_ORDER_MOTOROLA) = [0x4d, 0x4d]" "enc16 ord 0 = [0, 0]"
    by (simp_all add: enc16_def order_mark_def byte_n_def split: ExifByteOrder.split)
  have ne: "QVC_id \<noteq> AOC_id" by (simp add: QVC_id_def AOC_id_def)
  have "n\<lparr>px_version := x, n_order := n_order n\<rparr> = n\<lparr>px_version := x\<rparr>" for x by simp
  then show ?thesis
    using assms(2-5) four two m ne
    by (cases v; cases ord) (auto simp: pentax_load_head_def Let_def pentax_base_def length_pentax_hdr)
qed


interpretation pentax: maker_note exif_mnote_data_pentax_load exif_mnote_data_pentax_save mnote_ok "\<lambda>n L. True" pentax_image
  pentax_readable pentax_prepared note_home
proof (unfold_locales, goal_cases)
  case (1 n d al k)
  let ?o = "6 + n_offset n"
  show ?case
  proof (cases "(of_nat (length d) :: u32) = 0 \<or> ?o + 8 < ?o \<or> ?o + 8 < 8 \<or> ?o + 8 > of_nat (length d)")
    case True
    then show ?thesis using 1(1) by (auto simp: exif_mnote_data_pentax_load_def Let_def)
  next
    case False
    then have "unat ?o + 8 \<le> length d" using range_fits [of ?o 8 "length d"] 1(2) by simp
    then obtain p base n' where h: "pentax_load_head (Buf d) ?o n = Some (p, base, n')" "unat p + 2 \<le> length d"
      using pentax_load_head_ok [OF _ 1(2)] by blast
    from load_mentries_safe [OF h(2) 1(2), of al "pentax_load_style base" n' k] False h(1) show ?thesis
      by (auto simp: exif_mnote_data_pentax_load_def Let_def)
  qed
next
  case (2 n al k)
  show ?case
  proof (cases "px_version n")
    case None
    then show ?thesis by (simp add: exif_mnote_data_pentax_save_def Let_def)
  next
    case (Some v)
    show ?thesis
      using save_from_ok(1) [OF mnote_okD(1) [OF 2(1)], of "pentax_hdr v (n_order n)" "replicate 4 0" "pentax_save_style v (n_offset n)" "n_order n" al "Suc k"]
        2(2) Some by (simp add: pentax_save_eq [OF 2(1) Some 2(2)] Let_def pentax_image_def)
  qed
next
  case (3 al n k)
  then obtain v where ok: "mnote_ok n" "px_version n = Some v" by (auto simp: pentax_readable_def)
  show ?case
    using save_from_ok(2) [OF mnote_okD(1) [OF ok(1)], of "pentax_hdr v (n_order n)" "replicate 4 0" "pentax_save_style v (n_offset n)" "n_order n" al "Suc k"]
      3(1,3) ok(2) by (simp add: pentax_save_eq [OF ok 3(3)] Let_def pentax_image_def plenty_def)
next
  case (4 n)
  then show ?case by (simp add: pentax_readable_def)
next
  case (5 al n n0 pre post k)
  then obtain es v where es: "n_entries n = Some es" "n_list n = es" and ok: "mnote_ok n" and v: "px_version n = Some v"
    and kept: "list_all (mentry_kept (pentax_load_style (pentax_base v)) (n_order n)) es"
    and v1: "v = pentaxV1 \<longrightarrow> es \<noteq> [] \<and> take 4 (pentax_image n) \<notin> {AOC_id, QVC_id}"
    by (auto simp: pentax_readable_def n_list_def)
  let ?ord = "n_order n"
  let ?n = "n0\<lparr>px_version := Some v, n_order := ?ord\<rparr>"
  have n0: "n_offset n0 = n_offset n" "?n\<lparr>n_entries := Some es\<rparr> = n" "v \<noteq> pentaxV3 \<Longrightarrow> n_order n0 = ?ord"
    using 5(3) es(1) v by (cases n; cases n0; simp add: pentax_prepared_def)+
  let ?h = "pentax_hdr v ?ord"
  let ?st = "pentax_save_style v (n_offset n)"
  let ?F = "pre @ pentax_image n @ post"
  let ?o = "6 + n_offset n0"
  have img: "pentax_image n = note_image ?h (replicate 4 0) ?st ?ord es" by (simp add: pentax_image_def v es)
  have okes: "list_all mentry_ok es" using mnote_okD(1) [OF ok] es by simp
  have len: "length ?F = length pre + length ?h + 6 + 12 * length es + length (mn_exts ?st es) + length post"
    using length_note_image [OF okes] by (simp add: img)
  have hm: "note_home n0 = length pre" using 5(4) n0(1) by (simp add: note_home_def)
  have h: "unat ?o = length pre" "?o = of_nat (length pre)" using unat_home [of n0] home_word [of n0] hm len 5(6) by simp_all
  have eight: "length pre + 8 \<le> length ?F" using len v1 by (cases es) (auto simp: length_pentax_hdr split: if_splits)
  then have t: "\<not> (?o + 8 < ?o \<or> ?o + 8 < 8 \<or> ?o + 8 > of_nat (length ?F))"
    using h 5(6) by (intro range_test) simp_all
  define rest where "rest = drop (length ?h) (pentax_image n) @ post"
  have F: "?F = pre @ ?h @ rest" by (simp add: rest_def img note_image_def)
  have r4: "take 4 rest \<notin> {AOC_id, QVC_id}" if "v = pentaxV1"
  proof -
    have "length (pentax_image n) \<ge> 4" using length_note_image [OF okes] by (simp add: img)
    then show ?thesis using v1 that by (simp add: rest_def length_pentax_hdr)
  qed
  have head: "pentax_load_head (Buf ?F) ?o n0 = Some (?o + of_nat (length ?h), pentax_base v, ?n)"
    using pentax_hdr_read [OF F r4 eight h(1) n0(3)] by simp
  have st: "ss_base ?st = ls_base (pentax_load_style (pentax_base v))"
    "ss_datao ?st + ls_datao (pentax_load_style (pentax_base v)) = of_nat (length pre)" "\<not> ls_strict (pentax_load_style (pentax_base v))"
    using h n0(1) by (simp_all add: pentax_save_style_def pentax_load_style_def pentax_base_def add.commute)
  obtain k' where "load_mentries mem_ok (pentax_load_style (pentax_base v)) (Buf ?F) (of_nat (length ?F)) (?o + of_nat (length ?h)) (?n, k) = Some (n, k')"
    using load_mentries_image [OF kept _ _ _ 5(6) st(1,2), of ?n ?h "replicate 4 0" post "?o + of_nat (length ?h)" k]
      mnote_okD(2) [OF ok] n0 es st(3) img h(2) by auto
  moreover have "(of_nat (length ?F) :: u32) \<noteq> 0" using len 5(6) by (intro not_empty [of 1]) simp_all
  ultimately show ?case
    using 5(1) t head by (simp add: exif_mnote_data_pentax_load_def Let_def plenty_mem_ok)
qed


subsection \<open>Olympus, Nikon, Sanyo, Epson\<close>

abbreviation (input) plain_versions :: "OlympusVersion set" where
  "plain_versions \<equiv> {olympusV1, sanyoV1, epsonV1}"

definition plain_id :: "OlympusVersion \<Rightarrow> bytes" where
  "plain_id v = (if v = sanyoV1 then SANYO_id else if v = epsonV1 then EPSON_id else OLYMP_id)"

definition olympus_hdr :: "OlympusVersion \<Rightarrow> ExifByteOrder \<Rightarrow> bytes" where
  "olympus_hdr v ord =
    (if v \<in> plain_versions then plain_id v @ enc16 ord 1
     else if v = olympusV2 then OLYMPUS_id @ enc16 ord (order_mark ord) @ enc16 ord 3
     else if v = nikonV1 then Nikon_id @ [version_code v, 0]
     else Nikon_id @ [version_code v, 0, 0, 0] @ enc16 ord (order_mark ord) @ enc16 ord 0x2a @ enc32 ord 8)"

definition olympus_tail :: "OlympusVersion \<Rightarrow> nat" where
  "olympus_tail v = (if v \<in> plain_versions then 0 else if v = olympusV2 then 2 else 4)"

definition olympus_image :: "ExifMnoteDataOlympus \<Rightarrow> bytes" where
  "olympus_image n = note_image (olympus_hdr (ol_version n) (n_order n)) (replicate (olympus_tail (ol_version n)) 0)
     (olympus_save_style n) (n_order n) (n_list n)"

definition olympus_base :: "OlympusVersion \<Rightarrow> u32" where
  "olympus_base v = (if v = nikonV1 then MNOTE_NIKON1_TAG_BASE else 0)"

text \<open>What is added to offsets when a note at \<open>p\<close> is read.\<close>

definition olympus_datao :: "OlympusVersion \<Rightarrow> u32 \<Rightarrow> u32" where
  "olympus_datao v p = (if v = olympusV2 then p else if v = nikonV2 then p + 10 else 6)"

text \<open>The variants that are read back; the number of entries must not look as if it were in the other byte order.\<close>

definition olympus_readable :: "ExifMnoteDataOlympus \<Rightarrow> bool" where
  "olympus_readable n \<longleftrightarrow> n_entries n \<noteq> None \<and> mnote_ok n \<and> ol_version n \<notin> {unrecognized, nikonV0} \<and>
    list_all (mentry_kept (olympus_load_style 0 (olympus_base (ol_version n))) (n_order n)) (n_list n) \<and>
    (ol_version n \<in> insert nikonV1 plain_versions \<longrightarrow> swap_order (of_nat (n_count n)) (n_order n) = n_order n)"

definition olympus_prepared :: "ExifMnoteDataOlympus \<Rightarrow> ExifMnoteDataOlympus \<Rightarrow> bool" where
  "olympus_prepared n n0 \<longleftrightarrow> n0\<lparr>n_entries := n_entries n, n_order := n_order n, ol_version := ol_version n\<rparr> = n \<and>
    (ol_version n = nikonV1 \<longrightarrow> n_order n0 = n_order n)"

text \<open>
  The header is read without running over the end if the file has 14 bytes from the note on, or too few to begin. (The
  sum in one test wraps for files that end in the last four bytes of the address space.)
\<close>

definition olympus_room :: "ExifMnoteDataOlympus \<Rightarrow> nat \<Rightarrow> bool" where
  "olympus_room n L \<longleftrightarrow>
    (let p = unat (6 + n_offset n) in p + 14 \<le> L \<and> L + 4 < 2 ^ 32 \<or> L < p + 10)"

lemma length_olympus_ids [simp]:
  "length OLYMPUS_id = 8" "length Nikon_id = 6" "length (plain_id v) = 6"
  by (simp_all add: OLYMPUS_id_def Nikon_id_def plain_id_def SANYO_id_def EPSON_id_def OLYMP_id_def)

lemma length_olympus_hdr:
  "length (olympus_hdr v ord) = (if v \<in> insert nikonV1 plain_versions then 8 else if v = olympusV2 then 12 else 18)"
  by (auto simp: olympus_hdr_def eshort.enc_length elong.enc_length)

lemma olympus_size_eq:
  "ol_version n \<noteq> unrecognized \<Longrightarrow>
    olympus_size n = of_nat (length (olympus_hdr (ol_version n) (n_order n)) + 2 + 12 * n_count n + olympus_tail (ol_version n))"
  by (auto simp: olympus_size_def length_olympus_hdr olympus_tail_def Let_def)

lemma enc32_0: "enc32 ord 0 = replicate 4 0"
  by (cases ord) (simp_all add: enc32_def byte_n_def numeral_eq_Suc)

lemma olympus_head_eq:
  assumes "ol_version n \<noteq> unrecognized" and "v = ol_version n" and "ord = n_order n"
    and "M = 2 + 12 * n_count n + olympus_tail v"
  shows "olympus_head n (Buf (replicate (length (olympus_hdr v ord) + M) 0)) =
    Some (Buf (olympus_hdr v ord @ replicate M 0), length (olympus_hdr v ord))"
proof -
  consider "v \<in> plain_versions" | "v = olympusV2" | "v = nikonV1" | "v \<in> {nikonV2, nikonV0}"
    using assms(1,2) by (cases "ol_version n") auto
  then show ?thesis
  proof cases
    case 1
    have "wr_range (Buf (replicate (8 + M) 0)) 0 (plain_id v) = Some (Buf (plain_id v @ replicate (2 + M) 0))"
      using wr_next [of 0 "[]" "plain_id v" "8 + M"] by (simp del: wr_range.simps)
    moreover have "exif_set_short (Buf (plain_id v @ replicate (2 + M) 0)) 6 ord 1 = Some (Buf ((plain_id v @ enc16 ord 1) @ replicate M 0))"
      using wr_next [of 6 "plain_id v" "enc16 ord 1" "2 + M"] by (simp add: eshort.set_eq eshort.enc_length del: wr_range.simps)
    ultimately show ?thesis
      using 1 assms(2,3) unfolding olympus_head_def Let_def plain_id_def [symmetric]
      by (auto simp: olympus_hdr_def eshort.enc_length plain_id_def [symmetric] simp del: wr_range.simps)
  next
    case 2
    have "wr_range (Buf (replicate (12 + M) 0)) 0 OLYMPUS_id = Some (Buf (OLYMPUS_id @ replicate (4 + M) 0))"
      using wr_next [of 0 "[]" OLYMPUS_id "12 + M"] by (simp del: wr_range.simps)
    moreover have "exif_set_short (Buf (OLYMPUS_id @ replicate (4 + M) 0)) 8 ord (order_mark ord)
        = Some (Buf ((OLYMPUS_id @ enc16 ord (order_mark ord)) @ replicate (2 + M) 0))"
      using wr_next [of 8 OLYMPUS_id "enc16 ord (order_mark ord)" "4 + M"] by (simp add: eshort.set_eq eshort.enc_length del: wr_range.simps)
    moreover have "exif_set_short (Buf ((OLYMPUS_id @ enc16 ord (order_mark ord)) @ replicate (2 + M) 0)) 10 ord 3
        = Some (Buf (((OLYMPUS_id @ enc16 ord (order_mark ord)) @ enc16 ord 3) @ replicate M 0))"
      using wr_next [of 10 "OLYMPUS_id @ enc16 ord (order_mark ord)" "enc16 ord 3" "2 + M"] by (simp add: eshort.set_eq eshort.enc_length del: wr_range.simps)
    ultimately show ?thesis
      using 2 assms(2,3) by (simp add: olympus_head_def olympus_hdr_def eshort.enc_length Let_def del: wr_range.simps)
  next
    case 3
    have "wr_range (Buf (replicate (8 + M) 0)) 0 Nikon_id = Some (Buf (Nikon_id @ replicate (2 + M) 0))"
      using wr_next [of 0 "[]" Nikon_id "8 + M"] by (simp del: wr_range.simps)
    moreover have "wr (Buf (Nikon_id @ replicate (2 + M) 0)) 6 (version_code v) = Some (Buf ((Nikon_id @ [version_code v]) @ replicate (1 + M) 0))"
      using wr_next [of 6 Nikon_id "[version_code v]" "2 + M"] by (simp add: wr_eq_wr_range del: wr_range.simps wr.simps)
    moreover have "(Nikon_id @ [version_code v]) @ replicate (1 + M) 0 = (Nikon_id @ [version_code v, 0]) @ replicate M 0" by simp
    moreover have "exif_set_long (Buf ((Nikon_id @ [version_code v, 0]) @ replicate M 0)) (8 + 2 + n_count n * 12) ord 0
        = Some (Buf ((Nikon_id @ [version_code v, 0]) @ replicate M 0))"
      using wr_zeros_same [of "Nikon_id @ [version_code v, 0]" "8 + 2 + n_count n * 12" 4 M] assms(4) 3
      by (simp add: elong.set_eq enc32_0 olympus_tail_def del: wr_range.simps)
    ultimately show ?thesis
      using 3 assms(2,3) by (simp add: olympus_head_def olympus_hdr_def Let_def del: wr_range.simps wr.simps replicate.simps)
  next
    case 4
    let ?a = "Nikon_id @ [version_code v]"
    let ?b = "?a @ replicate 3 0 @ enc16 ord (order_mark ord)"
    let ?c = "?b @ enc16 ord 0x2a"
    let ?d = "?c @ enc32 ord 8"
    have "wr_range (Buf (replicate (18 + M) 0)) 0 Nikon_id = Some (Buf (Nikon_id @ replicate (12 + M) 0))"
      using wr_next [of 0 "[]" Nikon_id "18 + M"] by (simp del: wr_range.simps)
    moreover have "wr (Buf (Nikon_id @ replicate (12 + M) 0)) 6 (version_code v) = Some (Buf (?a @ replicate (11 + M) 0))"
      using wr_next [of 6 Nikon_id "[version_code v]" "12 + M"] by (simp add: wr_eq_wr_range del: wr_range.simps wr.simps)
    moreover have "exif_set_short (Buf (?a @ replicate (11 + M) 0)) 10 ord (order_mark ord) = Some (Buf (?b @ replicate (6 + M) 0))"
      using wr_zeros [of ?a 10 "enc16 ord (order_mark ord)" "11 + M"] by (simp add: eshort.set_eq eshort.enc_length del: wr_range.simps)
    moreover have "exif_set_short (Buf (?b @ replicate (6 + M) 0)) 12 ord 0x2a = Some (Buf (?c @ replicate (4 + M) 0))"
      using wr_next [of 12 ?b "enc16 ord 0x2a" "6 + M"] by (simp add: eshort.set_eq eshort.enc_length del: wr_range.simps)
    moreover have "exif_set_long (Buf (?c @ replicate (4 + M) 0)) 14 ord 8 = Some (Buf (?d @ replicate M 0))"
      using wr_next [of 14 ?c "enc32 ord 8" "4 + M"] by (simp add: elong.set_eq eshort.enc_length elong.enc_length del: wr_range.simps)
    moreover have "exif_set_long (Buf (?d @ replicate M 0)) (18 + 2 + n_count n * 12) ord 0 = Some (Buf (?d @ replicate M 0))"
      using wr_zeros_same [of ?d "18 + 2 + n_count n * 12" 4 M] assms(4) 4
      by (auto simp: elong.set_eq enc32_0 olympus_tail_def eshort.enc_length elong.enc_length simp del: wr_range.simps)
    moreover have "olympus_hdr v ord = ?d" using 4 by (auto simp: olympus_hdr_def numeral_3_eq_3)
    ultimately show ?thesis
      using 4 assms(2,3) by (auto simp: olympus_head_def Let_def eshort.enc_length elong.enc_length simp del: wr_range.simps wr.simps replicate.simps append_assoc)
  qed
qed


lemma olympus_save_eq:
  assumes "mnote_ok n" and "ol_version n \<noteq> unrecognized"
  defines "h \<equiv> olympus_hdr (ol_version n) (n_order n)" and "t \<equiv> olympus_tail (ol_version n)"
  shows "exif_mnote_data_olympus_save al n k =
    (let N = length h + 2 + 12 * n_count n + t in
     if al k N then save_from al (olympus_save_style n) (n_order n) (n_list n) h (replicate t 0) (Suc k)
     else Some \<lparr>o_d = NULL, o_ds = of_nat N, o_clock = Suc k\<rparr>)"
proof -
  let ?c = "of_nat (n_count n) :: u16"
  let ?ord = "n_order n"
  let ?M = "2 + 12 * n_count n + t"
  let ?N = "length h + 2 + 12 * n_count n + t"
  let ?d = "h @ enc16 ?ord ?c @ replicate (12 * n_count n) 0 @ replicate t 0"
  have N: "?N < 2 ^ 32" "olympus_size n = of_nat ?N"
    using mnote_okD(2) [OF assms(1)] olympus_size_eq [OF assms(2)]
    by (auto simp: h_def t_def length_olympus_hdr olympus_tail_def)
  have hd: "olympus_head n (Buf (replicate ?N 0)) = Some (Buf (h @ replicate ?M 0), length h)"
    using olympus_head_eq [OF assms(2) refl refl refl] by (simp add: h_def t_def add.assoc)
  have c: "exif_set_short (Buf (h @ replicate ?M 0)) (length h) ?ord ?c = Some (Buf ?d)"
    using wr_next [of "length h" h "enc16 ?ord ?c" ?M]
    by (simp add: eshort.set_eq eshort.enc_length zeros_split [symmetric] del: wr_range.simps)
  have "length (replicate ?N (0 :: u8)) = length ?d" by (simp add: eshort.enc_length)
  from save_fromI [OF refl refl this, of al "olympus_save_style n" "Suc k"]
  have body: "(do { (d, o2) \<leftarrow> olympus_head n (Buf (replicate ?N 0));
         d \<leftarrow> exif_set_short d o2 ?ord ?c;
         (done, out) \<leftarrow> save_loop al (olympus_save_style n) ?ord (n_list n) (o2 + 2) ((out_of (replicate ?N 0) (Suc k))\<lparr>o_d := d\<rparr>);
         Some out }) = save_from al (olympus_save_style n) ?ord (n_list n) h (replicate t 0) (Suc k)"
    by (simp only: hd c Option.bind.simps prod.case)
  show ?thesis
    unfolding exif_mnote_data_olympus_save_def Let_def new_out_eq [OF N]
    using assms(2)
    by (cases "al k ?N") (simp_all only: if_True if_False body out_of_simps(1) Out.simps cbuf.simps simp_thms N(2))
qed

text \<open>Reading the header stays inside the buffer.\<close>

lemma rd_range_in: "p + j \<le> length d \<Longrightarrow> rd_range (Buf d) p j = Some (take j (drop p d))"
  by simp

lemma olympus_load_head_ok:
  assumes "unat o2 + 14 \<le> length d" and "length d + 4 < 2 ^ 32"
  shows "\<exists>r n'. olympus_load_head (Buf d) (of_nat (length d)) o2 n = Some (r, n') \<and> (mnote_ok n \<longrightarrow> mnote_ok n')"
proof -
  have u: "unat (o2 + 6) = unat o2 + 6" "unat (o2 + 8) = unat o2 + 8" "unat (o2 + 10) = unat o2 + 10" "unat (o2 + 14) = unat o2 + 14"
    using assms unat_small_add [of o2 6] unat_small_add [of o2 8] unat_small_add [of o2 10] unat_small_add [of o2 14] by simp_all
  have L: "unat (of_nat (length d) :: u32) = length d" using assms(2) by (intro unat_word_of_nat_32) simp
  have s: "o2 + 6 + 1 + 1 = o2 + 8" "o2 + 6 + 1 + 1 + 2 = o2 + 10" "o2 + 10 + 2 + 2 = o2 + 14" by simp_all
  have v1: "\<exists>r n'. load_olympusV1 (Buf d) (of_nat (length d)) o2 n = Some (r, n') \<and> (mnote_ok n \<longrightarrow> mnote_ok n')"
    using assms(1) u get_short_Buf [of "unat o2 + 8" d] by (auto simp: load_olympusV1_def Let_def)
  have v2: "\<exists>r n'. load_olympusV2 (Buf d) (of_nat (length d)) o2 n = Some (r, n') \<and> (mnote_ok n \<longrightarrow> mnote_ok n')"
    using assms(1) u by (auto simp: load_olympusV2_def Let_def)
  have n1: "\<exists>r n'. load_nikonV1 (Buf d) (of_nat (length d)) o2 n = Some (r, n') \<and> (mnote_ok n \<longrightarrow> mnote_ok n')"
    unfolding load_nikonV1_def s Let_def
    using assms(1) u get_short_Buf [of "unat o2 + 8" d] by auto
  have two: "\<exists>b. same_2 (Buf d) (unat o2 + 10) x = Some b" for x
    using assms(1) by (auto simp: same_2_def)
  then obtain ii mm where im: "same_2 (Buf d) (unat o2 + 10) 0x49 = Some ii" "same_2 (Buf d) (unat o2 + 10) 0x4d = Some mm" by blast
  have g: "exif_get_long (Buf d) (unat o2 + 14) ord = Some (dec32 ord (take 4 (drop (unat o2 + 14) d)))" if "\<not> o2 + 14 + 4 > of_nat (length d)" for ord
  proof -
    have "unat (o2 + 14 + 4) = unat o2 + 18" using u(4) unat_small_add [of "o2 + 14" 4] assms by simp
    then have "unat o2 + 14 + 4 \<le> length d" using that L by (simp add: not_less word_le_nat_alt)
    then show ?thesis using get_long_Buf [of "unat o2 + 14" d ord] by auto
  qed
  have n2: "\<exists>r n'. load_nikonV2 (Buf d) (of_nat (length d)) o2 n = Some (r, n') \<and> (mnote_ok n \<longrightarrow> mnote_ok n')"
    unfolding load_nikonV2_def Let_def s(2,3)
    using assms(1) u im g by auto
  have n0: "\<exists>r n'. load_nikonV0 (Buf d) (of_nat (length d)) o2 n = Some (r, n') \<and> (mnote_ok n \<longrightarrow> mnote_ok n')"
    using assms(1) by (auto simp: load_nikonV0_def)
  show ?thesis
    using v1 v2 n1 n2 n0 by (simp add: olympus_load_head_def Let_def)
qed


lemma add_8_2: "p + 8 + 2 = (p :: u32) + 10" and add_14_4: "p + 14 + 4 = (p :: u32) + 18"
  by simp_all

lemma plain_head:
  assumes "F = pre @ plain_id v @ enc16 ord 1 @ enc16 ord c @ rest" and "unat p = length pre" and "length F < 2 ^ 32" and "swap_order c ord = ord"
  shows "load_olympusV1 (Buf F) (of_nat (length F)) p n = Some (Some (p + 8, 6, 0), n\<lparr>n_order := ord\<rparr>)"
proof -
  have b: "F ! (length pre + 6) = enc16 ord 1 ! 0" "F ! (7 + length pre) = enc16 ord 1 ! 1"
    unfolding assms(1) by (simp_all add: nth_append eshort.enc_length)
  have "take 2 (drop (length pre + 8) F) = enc16 ord c" unfolding assms(1) by (simp add: eshort.enc_length)
  moreover have len: "length pre + 10 \<le> length F" unfolding assms(1) by (simp add: eshort.enc_length)
  moreover have u: "unat (p + 8) = length pre + 8" "unat (p + 8 + 2) = length pre + 10"
    unfolding add_8_2 using len assms(2,3) unat_small_add [of p 8] unat_small_add [of p 10] by simp_all
  ultimately have g: "exif_get_short (Buf F) (unat (p + 8)) ord = Some c"
    using get_short_Buf [of "length pre + 8" F ord] by (simp add: eshort.dec_enc)
  have "\<not> p + 8 + 2 > of_nat (length F)" using u len assms(3) by (simp add: word_less_nat_alt unat_word_of_nat_32)
  moreover have "enc16 EXIF_BYTE_ORDER_INTEL 1 = [1, 0]" "enc16 EXIF_BYTE_ORDER_MOTOROLA 1 = [0, 1]"
    by (simp_all add: enc16_def byte_n_def)
  ultimately show ?thesis
    using b g assms(2,4) len by (cases ord) (simp_all add: load_olympusV1_def Let_def)
qed

lemma order_mark_bytes:
  "enc16 EXIF_BYTE_ORDER_INTEL (order_mark EXIF_BYTE_ORDER_INTEL) = [0x49, 0x49]"
  "enc16 EXIF_BYTE_ORDER_MOTOROLA (order_mark EXIF_BYTE_ORDER_MOTOROLA) = [0x4d, 0x4d]"
  by (simp_all add: enc16_def order_mark_def byte_n_def)

lemma olympusV2_head:
  assumes "F = pre @ OLYMPUS_id @ enc16 ord (order_mark ord) @ enc16 ord 3 @ rest" and "unat p = length pre" and "length F < 2 ^ 32"
  shows "load_olympusV2 (Buf F) (of_nat (length F)) p n = Some (Some (p + 12, p, 0), n\<lparr>n_order := ord\<rparr>)"
proof -
  have len: "length pre + 12 \<le> length F" unfolding assms(1) by (simp add: eshort.enc_length)
  then have "unat (p + 8) = length pre + 8" using assms(2,3) unat_small_add [of p 8] by simp
  moreover have "take 4 (drop (length pre + 8) F) = enc16 ord (order_mark ord) @ enc16 ord 3"
    unfolding assms(1) by (simp add: eshort.enc_length)
  ultimately show ?thesis
    using len order_mark_bytes by (cases ord) (simp_all add: load_olympusV2_def Let_def)
qed

lemma nikonV1_head:
  assumes "F = pre @ Nikon_id @ [a, b] @ enc16 ord c @ rest" and "4 \<le> length rest" and "unat p = length pre" and "length F < 2 ^ 32"
    and "swap_order c ord = ord" and "n_order n = ord"
  shows "load_nikonV1 (Buf F) (of_nat (length F)) p n = Some (Some (p + 8, 6, MNOTE_NIKON1_TAG_BASE), n)"
proof -
  have len: "length pre + 14 \<le> length F" unfolding assms(1) using assms(2) by (simp add: eshort.enc_length)
  have u: "unat (p + 6) = length pre + 6" "unat (p + 8) = length pre + 8" "unat (p + 8 + 2) = length pre + 10"
    unfolding add_8_2 using len assms(3,4) unat_small_add [of p 6] unat_small_add [of p 8] unat_small_add [of p 10] by simp_all
  have "take 2 (drop (length pre + 8) F) = enc16 ord c" unfolding assms(1) by (simp add: eshort.enc_length)
  then have g: "exif_get_short (Buf F) (unat (p + 8)) ord = Some c"
    using get_short_Buf [of "length pre + 8" F ord] len u by (simp add: eshort.dec_enc)
  have w: "unat (of_nat (length F) :: u32) = length F" using assms(4) by (rule unat_word_of_nat_32)
  have t: "\<not> p + 6 \<ge> of_nat (length F)" "\<not> p + 8 + 2 > of_nat (length F)"
    using u len w by (simp_all add: word_less_nat_alt word_le_nat_alt)
  have r: "rd_range (Buf F) (unat (p + 6)) 8 = Some (take 8 (drop (length pre + 6) F))" using u len by simp
  have s: "p + 6 + 1 + 1 = p + 8" by simp
  have "n\<lparr>n_order := ord\<rparr> = n" using assms(6) by auto
  then show ?thesis
    unfolding load_nikonV1_def s Let_def r using t g assms(5,6) by simp
qed

lemma same_2_eq: "p + 1 < length d \<Longrightarrow> same_2 (Buf d) p c = Some (d ! p = c \<and> d ! (p + 1) = c)"
  by (simp add: same_2_def)

lemma nikonV2_head:
  assumes "F = pre @ Nikon_id @ z @ enc16 ord (order_mark ord) @ enc16 ord 0x2a @ enc32 ord 8 @ rest" and "length z = 4"
    and "unat p = length pre" and "length F < 2 ^ 32"
  shows "load_nikonV2 (Buf F) (of_nat (length F)) p n = Some (Some (p + 18, p + 10, 0), n\<lparr>n_order := ord\<rparr>)"
proof -
  have len: "length pre + 18 \<le> length F" unfolding assms(1) using assms(2) by (simp add: eshort.enc_length elong.enc_length)
  have u: "unat (p + 6) = length pre + 6" "unat (p + 10) = length pre + 10" "unat (p + 14) = length pre + 14" "unat (p + 14 + 4) = length pre + 18"
    unfolding add_14_4 using len assms(3,4) unat_small_add [of p 6] unat_small_add [of p 10] unat_small_add [of p 14] unat_small_add [of p 18] by simp_all
  have w: "unat (of_nat (length F) :: u32) = length F" using assms(4) by (rule unat_word_of_nat_32)
  have t: "\<not> p + 6 \<ge> of_nat (length F)" "\<not> p + 10 \<ge> of_nat (length F)" "\<not> p + 14 + 4 > of_nat (length F)"
    using u len w by (simp_all add: word_less_nat_alt word_le_nat_alt)
  have r: "rd_range (Buf F) (unat (p + 6)) 8 = Some (take 8 (drop (length pre + 6) F))" using u len by simp
  have s: "p + 6 + 1 + 1 + 2 = p + 10" "p + 10 + 2 + 2 = p + 14" by simp_all
  have b: "F ! (length pre + 10) = enc16 ord (order_mark ord) ! 0" "F ! (length pre + 10 + 1) = enc16 ord (order_mark ord) ! 1"
    unfolding assms(1) using assms(2) by (simp_all add: nth_append eshort.enc_length)
  have "take 4 (drop (length pre + 14) F) = enc32 ord 8" unfolding assms(1) using assms(2) by (simp add: eshort.enc_length elong.enc_length)
  then have g: "exif_get_long (Buf F) (unat (p + 14)) ord = Some 8"
    using get_long_Buf [of "length pre + 14" F ord] len u by (simp add: elong.dec_enc)
  have i: "length pre + 10 + 1 < length F" using len by simp
  have two: "same_2 (Buf F) (unat (p + 10)) 0x49 = Some (ord = EXIF_BYTE_ORDER_INTEL)" "same_2 (Buf F) (unat (p + 10)) 0x4d = Some (ord = EXIF_BYTE_ORDER_MOTOROLA)"
    unfolding u(2) same_2_eq [OF i] b using order_mark_bytes by (cases ord; simp)+
  show ?thesis
    unfolding load_nikonV2_def s Let_def r using t g two by (cases ord) simp_all
qed


lemma olympus_identify_ok:
  assumes "unat p + 10 \<le> length d" and "length d < 2 ^ 32"
  shows "\<exists>v. exif_mnote_data_olympus_identify_variant (Buf d) (unat p) (of_nat (length d) - p) = Some v"
proof -
  have "unat (of_nat (length d) :: u32) = length d" using assms(2) by (rule unat_word_of_nat_32)
  moreover have "p \<le> of_nat (length d)" using assms(1) calculation by (simp add: word_le_nat_alt)
  ultimately have "unat (of_nat (length d) - p) = length d - unat p" by (simp add: unat_sub)
  then show ?thesis
    using assms(1) by (auto simp: exif_mnote_data_olympus_identify_variant_def word_le_nat_alt)
qed

lemma olympus_identify_image:
  assumes "F = pre @ olympus_hdr v ord @ rest" and "v \<notin> {unrecognized, nikonV0}" and "length F < 2 ^ 32" and "unat p = length pre"
  shows "exif_mnote_data_olympus_identify_variant (Buf F) (unat p) (of_nat (length F) - p) = Some v"
proof -
  have len: "length pre + 8 \<le> length F" unfolding assms(1) by (simp add: length_olympus_hdr)
  have "unat (of_nat (length F) :: u32) = length F" using assms(3) by (rule unat_word_of_nat_32)
  then have "unat (of_nat (length F) - p) = length F - length pre" using assms(4) len by (simp add: unat_sub word_le_nat_alt)
  then have sz: "of_nat (length F) - p \<ge> 8" using len by (simp add: word_le_nat_alt)
  have e: "take 8 (drop (unat p) F) = take 8 (olympus_hdr v ord)"
    unfolding assms(1,4) by (simp add: length_olympus_hdr)
  have r: "rd_range (Buf F) (unat p) (if of_nat (length F) - p \<ge> 8 then 8 else if of_nat (length F) - p \<ge> 2 then 2 else 0) = Some (take 8 (olympus_hdr v ord))"
    using sz len assms(4) e by simp
  have one: "enc16 ord 1 = [1, 0] \<or> enc16 ord 1 = [0, 1]" by (cases ord) (simp_all add: enc16_def byte_n_def)
  note ids = OLYMPUS_id_def OLYMP_id_def SANYO_id_def EPSON_id_def Nikon_id_def
  have "v \<in> plain_versions \<or> v = olympusV2 \<or> v = nikonV1 \<or> v = nikonV2" using assms(2) by (cases v) auto
  then show ?thesis
    unfolding exif_mnote_data_olympus_identify_variant_def r using sz one
    by (auto simp: olympus_hdr_def plain_id_def ids)
qed

lemma olympus_head_image:
  assumes v: "ol_version n = v" "v \<notin> {unrecognized, nikonV0}"
    and F: "F = pre @ olympus_hdr v ord @ enc16 ord c @ rest" "length F < 2 ^ 32" and p: "unat p = length pre"
    and c: "v \<in> insert nikonV1 plain_versions \<Longrightarrow> swap_order c ord = ord"
    and n1: "v = nikonV1 \<Longrightarrow> n_order n = ord \<and> 4 \<le> length rest"
  shows "olympus_load_head (Buf F) (of_nat (length F)) p n
    = Some (Some (p + of_nat (length (olympus_hdr v ord)), olympus_datao v p, olympus_base v), n\<lparr>n_order := ord\<rparr>)"
proof -
  consider "v \<in> plain_versions" | "v = olympusV2" | "v = nikonV1" | "v = nikonV2" using v(2) by (cases v) auto
  then show ?thesis
  proof cases
    case 1
    have "F = pre @ plain_id v @ enc16 ord 1 @ enc16 ord c @ rest" using F(1) 1 by (auto simp: olympus_hdr_def)
    from plain_head [OF this p F(2)] c 1 v show ?thesis
      by (auto simp: olympus_load_head_def length_olympus_hdr olympus_datao_def olympus_base_def)
  next
    case 2
    have "F = pre @ OLYMPUS_id @ enc16 ord (order_mark ord) @ enc16 ord 3 @ (enc16 ord c @ rest)" using F(1) 2 by (simp add: olympus_hdr_def)
    from olympusV2_head [OF this p F(2)] 2 v show ?thesis
      by (simp add: olympus_load_head_def length_olympus_hdr olympus_datao_def olympus_base_def)
  next
    case 3
    have "F = pre @ Nikon_id @ [version_code v, 0] @ enc16 ord c @ rest" using F(1) 3 by (simp add: olympus_hdr_def)
    moreover have "n\<lparr>n_order := ord\<rparr> = n" using n1 3 by auto
    ultimately show ?thesis
      using nikonV1_head [of F pre "version_code v" 0 ord c rest p n] n1 c p F(2) 3 v
      by (simp add: olympus_load_head_def length_olympus_hdr olympus_datao_def olympus_base_def)
  next
    case 4
    have "F = pre @ Nikon_id @ [version_code v, 0, 0, 0] @ enc16 ord (order_mark ord) @ enc16 ord 0x2a @ enc32 ord 8 @ (enc16 ord c @ rest)"
      using F(1) 4 by (simp add: olympus_hdr_def)
    from nikonV2_head [OF this _ p F(2)] 4 v show ?thesis
      by (simp add: olympus_load_head_def length_olympus_hdr olympus_datao_def olympus_base_def)
  qed
qed


lemma mentry_kept_style:
  "mentry_kept (olympus_load_style a base) ord = mentry_kept (olympus_load_style b base) ord"
  by (simp add: fun_eq_iff mentry_kept_def olympus_load_style_def)

lemma mnote_ok_version [simp]: "mnote_ok (n\<lparr>ol_version := x\<rparr>) = mnote_ok n"
  by (simp add: mnote_ok_def n_list_def)

interpretation olympus: maker_note exif_mnote_data_olympus_load exif_mnote_data_olympus_save mnote_ok olympus_room olympus_image
  olympus_readable olympus_prepared note_home
proof (unfold_locales, goal_cases)
  case (1 n d al k)
  let ?o = "6 + n_offset n"
  show ?case
  proof (cases "(of_nat (length d) :: u32) = 0 \<or> ?o + 10 < ?o \<or> ?o + 10 < 10 \<or> ?o + 10 > of_nat (length d)")
    case True
    then show ?thesis using 1(1) by (auto simp: exif_mnote_data_olympus_load_def Let_def)
  next
    case False
    then have ten: "unat ?o + 10 \<le> length d" using range_fits [of ?o 10 "length d"] 1(2) by simp
    have room: "unat ?o + 14 \<le> length d" "length d + 4 < 2 ^ 32" using 1(3) ten by (auto simp: olympus_room_def Let_def)
    obtain v where v: "exif_mnote_data_olympus_identify_variant (Buf d) (unat ?o) (of_nat (length d) - ?o) = Some v"
      using olympus_identify_ok [OF ten 1(2)] by blast
    obtain r n' where h: "olympus_load_head (Buf d) (of_nat (length d)) ?o (n\<lparr>ol_version := v\<rparr>) = Some (r, n')" "mnote_ok n'"
      using olympus_load_head_ok [OF room, of "n\<lparr>ol_version := v\<rparr>"] 1(1) by auto
    show ?thesis
    proof (cases "\<exists>o2 datao base. r = Some (o2, datao, base) \<and> \<not> (o2 + 2 < o2 \<or> o2 + 2 < 2 \<or> o2 + 2 > of_nat (length d))")
      case True
      then obtain o2 datao base where r: "r = Some (o2, datao, base)" "\<not> (o2 + 2 < o2 \<or> o2 + 2 < 2 \<or> o2 + 2 > of_nat (length d))" by blast
      then have "unat o2 + 2 \<le> length d" using range_fits [of o2 2 "length d"] 1(2) by simp
      from load_mentries_safe [OF this 1(2), of al "olympus_load_style datao base" n' k] False v h r show ?thesis
        by (auto simp: exif_mnote_data_olympus_load_def Let_def)
    next
      case no: False
      then show ?thesis
        using False v h by (cases r) (auto simp: exif_mnote_data_olympus_load_def Let_def)
    qed
  qed
next
  case (2 n al k)
  show ?case
  proof (cases "ol_version n = unrecognized")
    case True
    then show ?thesis by (simp add: exif_mnote_data_olympus_save_def)
  next
    case False
    show ?thesis
      using save_from_ok(1) [OF mnote_okD(1) [OF 2(1)] 2(2) [unfolded olympus_image_def], of al "Suc k"]
      by (simp add: olympus_save_eq [OF 2(1) False] Let_def)
  qed
next
  case (3 al n k)
  then have ok: "mnote_ok n" "ol_version n \<noteq> unrecognized" by (simp_all add: olympus_readable_def)
  show ?case
    using save_from_ok(2) [OF mnote_okD(1) [OF ok(1)] 3(3) [unfolded olympus_image_def] 3(1), of "Suc k"] 3(1)
    by (simp add: olympus_save_eq [OF ok] Let_def plenty_def olympus_image_def)
next
  case (4 n)
  then show ?case by (simp add: olympus_readable_def)
next
  case (5 al n n0 pre post k)
  define v where "v = ol_version n"
  obtain es where es: "n_entries n = Some es" "n_list n = es" and ok: "mnote_ok n" and vok: "v \<notin> {unrecognized, nikonV0}"
    and kept: "list_all (mentry_kept (olympus_load_style 0 (olympus_base v)) (n_order n)) es"
    and swap: "v \<in> insert nikonV1 plain_versions \<longrightarrow> swap_order (of_nat (length es)) (n_order n) = n_order n"
    using 5(2) by (auto simp: olympus_readable_def n_list_def v_def)
  let ?ord = "n_order n"
  let ?n = "n0\<lparr>ol_version := v, n_order := ?ord\<rparr>"
  have n0: "n_offset n0 = n_offset n" "?n\<lparr>n_entries := Some es\<rparr> = n" "v = nikonV1 \<longrightarrow> n_order n0 = ?ord"
    using 5(3) es(1) by (cases n; cases n0; simp add: olympus_prepared_def v_def)+
  let ?h = "olympus_hdr v ?ord"
  let ?t = "replicate (olympus_tail v) (0 :: u8)"
  let ?st = "olympus_save_style n"
  let ?F = "pre @ olympus_image n @ post"
  let ?o = "6 + n_offset n0"
  let ?c = "of_nat (length es) :: u16"
  have img: "olympus_image n = note_image ?h ?t ?st ?ord es" by (simp add: olympus_image_def v_def es)
  have okes: "list_all mentry_ok es" using mnote_okD(1) [OF ok] es by simp
  have len: "length ?F = length pre + length ?h + 2 + 12 * length es + olympus_tail v + length (mn_exts ?st es) + length post"
    using length_note_image [OF okes] by (simp add: img)
  have hm: "note_home n0 = length pre" using 5(4) n0(1) by (simp add: note_home_def)
  have h: "unat ?o = length pre" "?o = of_nat (length pre)" using unat_home [of n0] home_word [of n0] hm len 5(6) by simp_all
  have ten: "length pre + 10 \<le> length ?F" using len by (simp add: length_olympus_hdr split: if_splits)
  then have t: "\<not> (?o + 10 < ?o \<or> ?o + 10 < 10 \<or> ?o + 10 > of_nat (length ?F))"
    using h 5(6) by (intro range_test) simp_all
  define rest where "rest = mn_slots ?st ?ord (length ?h + 2 + 12 * length es + length ?t) es @ ?t @ mn_exts ?st es @ post"
  have F: "?F = pre @ ?h @ enc16 ?ord ?c @ rest" by (simp add: rest_def img note_image_def)
  have idv: "exif_mnote_data_olympus_identify_variant (Buf ?F) (unat ?o) (of_nat (length ?F) - ?o) = Some v"
    using olympus_identify_image [OF F vok 5(6) h(1)] .
  have "v = nikonV1 \<Longrightarrow> 4 \<le> length rest" by (simp add: rest_def olympus_tail_def)
  then have hd: "olympus_load_head (Buf ?F) (of_nat (length ?F)) ?o (n0\<lparr>ol_version := v\<rparr>)
      = Some (Some (?o + of_nat (length ?h), olympus_datao v ?o, olympus_base v), ?n)"
    using olympus_head_image [OF _ vok F 5(6) h(1), of "n0\<lparr>ol_version := v\<rparr>"] swap n0(3) by simp
  have up: "unat (?o + of_nat (length ?h)) = length pre + length ?h" "?o + of_nat (length ?h) = of_nat (length pre + length ?h)"
    using h len 5(6) unat_small_add [of ?o "of_nat (length ?h)"] unat_word_of_nat_32 [of "length ?h"] by simp_all
  have t2: "\<not> (?o + of_nat (length ?h) + 2 < ?o + of_nat (length ?h) \<or> ?o + of_nat (length ?h) + 2 < 2 \<or> ?o + of_nat (length ?h) + 2 > of_nat (length ?F))"
    using len up(1) 5(6) by (intro range_test) simp_all
  let ?ls = "olympus_load_style (olympus_datao v ?o) (olympus_base v)"
  have st: "ss_base ?st = ls_base ?ls" "ss_datao ?st + ls_datao ?ls = of_nat (length pre)" "\<not> ls_strict ?ls"
    using h n0(1) vok
    by (cases v; simp add: olympus_save_style_def olympus_load_style_def olympus_base_def olympus_datao_def v_def [symmetric] add.commute)+
  have kept': "list_all (mentry_kept ?ls ?ord) es" using kept mentry_kept_style by metis
  obtain k' where "load_mentries mem_ok ?ls (Buf ?F) (of_nat (length ?F)) (?o + of_nat (length ?h)) (?n, k) = Some (n, k')"
    using load_mentries_image [OF kept' _ _ _ 5(6) st(1,2), of ?n ?h ?t post "?o + of_nat (length ?h)" k]
      mnote_okD(2) [OF ok] n0 es st(3) img up(2) by auto
  moreover have "(of_nat (length ?F) :: u32) \<noteq> 0" using ten 5(6) by (intro not_empty [of 1]) simp_all
  ultimately show ?case
    using 5(1) t idv hd t2 by (simp add: exif_mnote_data_olympus_load_def Let_def plenty_mem_ok)
qed


section \<open>Numbering the values of a Canon note\<close>

text \<open>
  The values of a note in order, each as the number of its entry and its number in the entry. Counting and looking up
  work on this list: a look-up is an access to it, the count is its length.
\<close>

definition value_count :: "MnoteEntry \<Rightarrow> u32" where
  "value_count e = the (mnote_canon_entry_count_values e)"

fun canon_values :: "nat \<Rightarrow> MnoteEntry list \<Rightarrow> (nat \<times> u32) list" where
  "canon_values m [] = []"
| "canon_values m (e # es) = map (\<lambda>s. (m, of_nat s)) [0..<unat (value_count e)] @ canon_values (Suc m) es"

lemma count_values_ok:
  assumes "mentry_ok e" and "mn_size e \<noteq> 0"
  shows "mnote_canon_entry_count_values e = Some (value_count e)"
proof -
  have "\<exists>v. exif_get_short (mn_data e) 0 (mn_order e) = Some v" if f: "mn_format e = EXIF_FORMAT_SHORT"
  proof -
    have "mn_size e = 2 * mn_components e" using assms(1) f format_sizes(1) by (simp add: mentry_ok_def mn_bytes_def)
    then have "even (unat (mn_size e))" by (simp add: unat_word_ariths dvd_mod)
    moreover have "unat (mn_size e) \<noteq> 0" using assms(2) by (simp add: unat_eq_zero)
    ultimately have "2 \<le> unat (mn_size e)" by presburger
    then have "2 \<le> blen (mn_data e)" using assms(1) by (simp add: mentry_ok_def)
    then show ?thesis using get_short_Buf [of 0] by (cases "mn_data e") auto
  qed
  then show ?thesis
    unfolding value_count_def mnote_canon_entry_count_values_def by (auto split: if_splits)
qed

lemma canon_count_eq:
  "list_all (\<lambda>e. mentry_ok e \<and> mn_size e \<noteq> 0) es \<Longrightarrow> canon_count es c = Some (c + of_nat (length (canon_values m es)))"
proof (induction es arbitrary: c m)
  case (Cons e es)
  then show ?case using Cons.IH [of "c + value_count e" "Suc m"] by (simp add: count_values_ok add.assoc)
qed simp

lemma canon_get_tags_eq:
  assumes "list_all (\<lambda>e. mentry_ok e \<and> mn_size e \<noteq> 0) es" and "from \<le> n" and "unat from + length (canon_values m es) < 2 ^ 32"
  shows "canon_get_tags n from m es =
    Some (if unat n - unat from < length (canon_values m es) then Some (canon_values m es ! (unat n - unat from)) else None)"
  using assms
proof (induction es arbitrary: "from" m)
  case (Cons e es)
  let ?c = "value_count e"
  have one: "mnote_canon_entry_count_values e = Some ?c" using Cons.prems(1) by (simp add: count_values_ok)
  have sum: "unat (from + ?c) = unat from + unat ?c" using Cons.prems(3) by (intro unat_small_add) simp
  have le: "unat from \<le> unat n" using Cons.prems(2) by (simp add: word_le_nat_alt)
  show ?case
  proof (cases "from + ?c > n")
    case True
    then have lt: "unat n - unat from < unat ?c" using sum le by (simp add: word_less_nat_alt)
    have "n - from = of_nat (unat n - unat from)" using Cons.prems(2) by (simp add: unat_sub [symmetric])
    then show ?thesis using True one lt by (simp add: nth_append)
  next
    case False
    then have ge: "from + ?c \<le> n" "unat ?c \<le> unat n - unat from" using sum le by (simp_all add: word_le_nat_alt not_less)
    have "unat (from + ?c) + length (canon_values (Suc m) es) < 2 ^ 32" using Cons.prems(3) sum by simp
    from Cons.IH [OF _ ge(1) this] Cons.prems(1) show ?thesis
      using False one sum ge(2) le by (auto simp: nth_append)
  qed
qed simp

lemma canon_get_tags_safe:
  "list_all (\<lambda>e. mentry_ok e \<and> mn_size e \<noteq> 0) es \<Longrightarrow>
    \<exists>r. canon_get_tags n c m es = Some r \<and> (\<forall>i s. r = Some (i, s) \<longrightarrow> i < m + length es)"
proof (induction es arbitrary: c m)
  case (Cons e es)
  then show ?case using Cons.IH [of "c + value_count e" "Suc m"] by (auto simp: count_values_ok Let_def)
qed simp

lemma canon_okD: "canon_ok n \<Longrightarrow> list_all (\<lambda>e. mentry_ok e \<and> mn_size e \<noteq> 0) (n_list n)"
  by (auto simp: canon_ok_def mnote_ok_def list_all_iff)

text \<open>
  C23. The numbering of a Canon note. Some entries hold several values, and the application numbers the values of all
  entries: the value with number \<open>i\<close> that \<open>exif_mnote_data_canon_get_tags\<close> finds is the value at place \<open>i\<close> of the list of
  all (entry, value) pairs in order, no value is found behind the end of that list,
  \<open>exif_mnote_data_canon_count\<close> returns its length, and \<open>exif_mnote_data_canon_get_id\<close> the tag of the entry or 0.
\<close>

theorem canon_values_numbered:
  assumes "canon_ok n" and "length (canon_values 0 (n_list n)) < 2 ^ 32"
  shows "exif_mnote_data_canon_count n = Some (of_nat (length (canon_values 0 (n_list n)))) \<and>
    exif_mnote_data_canon_get_tags n i =
      Some (if unat i < length (canon_values 0 (n_list n)) then Some (canon_values 0 (n_list n) ! unat i) else None) \<and>
    exif_mnote_data_canon_get_id n i =
      Some (if unat i < length (canon_values 0 (n_list n))
            then mn_tag (n_list n ! fst (canon_values 0 (n_list n) ! unat i)) else 0)"
proof -
  have "exif_mnote_data_canon_get_tags n i =
      Some (if unat i < length (canon_values 0 (n_list n)) then Some (canon_values 0 (n_list n) ! unat i) else None)"
    using canon_get_tags_eq [OF canon_okD [OF assms(1)], of 0 i 0] assms(2) by (simp add: exif_mnote_data_canon_get_tags_def)
  moreover have "exif_mnote_data_canon_count n = Some (of_nat (length (canon_values 0 (n_list n))))"
    using canon_count_eq [OF canon_okD [OF assms(1)], of 0 0] by (simp add: exif_mnote_data_canon_count_def)
  ultimately show ?thesis by (simp add: exif_mnote_data_canon_get_id_def split: prod.split)
qed

definition two_canon_entries :: ExifMnoteDataCanon where
  "two_canon_entries = \<lparr>n_entries = Some
    [\<lparr>mn_tag = 6, mn_format = EXIF_FORMAT_ASCII, mn_components = 2, mn_data = Buf [0x41, 0], mn_size = 2, mn_order = EXIF_BYTE_ORDER_INTEL\<rparr>,
     \<lparr>mn_tag = 4, mn_format = EXIF_FORMAT_SHORT, mn_components = 3, mn_data = Buf [6, 0, 9, 0, 8, 0], mn_size = 6, mn_order = EXIF_BYTE_ORDER_INTEL\<rparr>],
    n_order = EXIF_BYTE_ORDER_INTEL, n_offset = 20, cn_options = 0\<rparr>"

lemma canon_values_two: "canon_values 0 (n_list two_canon_entries) = [(0, 0), (1, 0), (1, 1)]"
  by code_simp

theorem canon_values_numbered_witness:
  "exif_mnote_data_canon_count two_canon_entries = Some 3 \<and>
   exif_mnote_data_canon_get_tags two_canon_entries 2 = Some (Some (1, 1)) \<and> exif_mnote_data_canon_get_id two_canon_entries 2 = Some 4"
proof -
  have "canon_ok two_canon_entries"
    by (simp add: two_canon_entries_def canon_ok_def mnote_ok_def n_list_def mentry_ok_def mn_bytes_def
        exif_format_get_size_def ExifFormatTable_def)
  from canon_values_numbered [OF this, of 2] show ?thesis
    unfolding canon_values_two by (simp add: two_canon_entries_def n_list_def)
qed

end
