(* ===== verification/Mnote_Data.thy ===== *)
theory Mnote_Data
  imports Mnote_Vendors
begin

text \<open>
  \<^verbatim>\<open>libexifa/exif-mnote-data.c\<close>, the common front of the maker note modules, and the two places in \<^verbatim>\<open>exif-data.c\<close>
  where the EXIF data meet them: \<open>interpret_maker_note\<close>, after loading, and the maker note in
  \<open>exif_data_save_data_entry\<close>. The table of methods that an object carries is the constructor of the note it
  holds. The front satisfies the interface that the modules satisfy.
\<close>

section \<open>Objects\<close>

datatype mnote =
  Canon ExifMnoteDataCanon
| Fuji ExifMnoteDataFuji
| Olympus ExifMnoteDataOlympus
| Pentax ExifMnoteDataPentax

text \<open>
  \<open>priv\<close> holds the reference count; it is a null pointer when there was no memory for it, and then \<open>mem\<close>
  is never set either.
\<close>

record ExifMnoteData =
  md_note :: mnote
  md_priv :: "u32 option"
  md_mem :: bool

definition exif_mnote_data_construct :: "alloc \<Rightarrow> mnote \<Rightarrow> nat \<Rightarrow> ExifMnoteData \<times> nat" where
  "exif_mnote_data_construct al n k =
    (if al k 4 then \<lparr>md_note = n, md_priv = Some 1, md_mem = True\<rparr> else \<lparr>md_note = n, md_priv = None, md_mem = False\<rparr>, Suc k)"

text \<open>\<open>exif_mem_alloc\<close> of an object of \<open>sz\<close> bytes, all zero, and its construction.\<close>

definition new_object :: "alloc \<Rightarrow> nat \<Rightarrow> mnote \<Rightarrow> nat \<Rightarrow> ExifMnoteData option \<times> nat" where
  "new_object al sz n k =
    (if al k sz then (case exif_mnote_data_construct al n (Suc k) of (d, k) \<Rightarrow> (Some d, k)) else (None, Suc k))"

definition exif_mnote_data_canon_new :: "alloc \<Rightarrow> u32 \<Rightarrow> nat \<Rightarrow> ExifMnoteData option \<times> nat" where
  "exif_mnote_data_canon_new al opts =
    new_object al 76 (Canon \<lparr>n_entries = None, n_order = EXIF_BYTE_ORDER_MOTOROLA, n_offset = 0, cn_options = opts\<rparr>)"

definition exif_mnote_data_fuji_new :: "alloc \<Rightarrow> nat \<Rightarrow> ExifMnoteData option \<times> nat" where
  "exif_mnote_data_fuji_new al =
    new_object al 72 (Fuji \<lparr>n_entries = None, n_order = EXIF_BYTE_ORDER_MOTOROLA, n_offset = 0\<rparr>)"

definition exif_mnote_data_olympus_new :: "alloc \<Rightarrow> nat \<Rightarrow> ExifMnoteData option \<times> nat" where
  "exif_mnote_data_olympus_new al =
    new_object al 76 (Olympus \<lparr>n_entries = None, n_order = EXIF_BYTE_ORDER_MOTOROLA, n_offset = 0, ol_version = unrecognized\<rparr>)"

definition exif_mnote_data_pentax_new :: "alloc \<Rightarrow> nat \<Rightarrow> ExifMnoteData option \<times> nat" where
  "exif_mnote_data_pentax_new al =
    new_object al 76 (Pentax \<lparr>n_entries = None, n_order = EXIF_BYTE_ORDER_MOTOROLA, n_offset = 0, px_version = None\<rparr>)"

definition exif_mnote_data_ref :: "ExifMnoteData option \<Rightarrow> ExifMnoteData option" where
  "exif_mnote_data_ref d = map_option (\<lambda>d. d\<lparr>md_priv := map_option (\<lambda>c. c + 1) (md_priv d)\<rparr>) d"

text \<open>\<open>None\<close> is the null pointer or, as a result, an object that is freed: all the memory it owned is given back.\<close>

definition exif_mnote_data_unref :: "ExifMnoteData option \<Rightarrow> ExifMnoteData option" where
  "exif_mnote_data_unref d =
    (case d of
       None \<Rightarrow> None
     | Some d \<Rightarrow>
         (case md_priv d of
            None \<Rightarrow> Some d
          | Some c \<Rightarrow>
              let c = (if c > 0 then c - 1 else c) in
              if c = 0 then None else Some (d\<lparr>md_priv := Some c\<rparr>)))"

section \<open>Calls through the table\<close>

text \<open>Without an \<open>ExifMem\<close> every request fails.\<close>

definition md_alloc :: "alloc \<Rightarrow> ExifMnoteData \<Rightarrow> alloc" where
  "md_alloc al d = (if md_mem d then al else (\<lambda>k n. False))"

definition note_load :: "alloc \<Rightarrow> cbuf \<Rightarrow> u32 \<Rightarrow> mnote \<times> nat \<Rightarrow> (mnote \<times> nat) option" where
  "note_load al buf sz = (\<lambda>(n, k).
    case n of
      Canon n \<Rightarrow> map_option (\<lambda>(n, k). (Canon n, k)) (exif_mnote_data_canon_load al buf sz (n, k))
    | Fuji n \<Rightarrow> map_option (\<lambda>(n, k). (Fuji n, k)) (exif_mnote_data_fuji_load al buf sz (n, k))
    | Olympus n \<Rightarrow> map_option (\<lambda>(n, k). (Olympus n, k)) (exif_mnote_data_olympus_load al buf sz (n, k))
    | Pentax n \<Rightarrow> map_option (\<lambda>(n, k). (Pentax n, k)) (exif_mnote_data_pentax_load al buf sz (n, k)))"

definition exif_mnote_data_load :: "alloc \<Rightarrow> cbuf \<Rightarrow> u32 \<Rightarrow> ExifMnoteData \<times> nat \<Rightarrow> (ExifMnoteData \<times> nat) option" where
  "exif_mnote_data_load al buf sz = (\<lambda>(d, k).
    do { (n, k) \<leftarrow> note_load (md_alloc al d) buf sz (md_note d, k); Some (d\<lparr>md_note := n\<rparr>, k) })"

definition exif_mnote_data_save :: "alloc \<Rightarrow> ExifMnoteData \<Rightarrow> nat \<Rightarrow> Out option" where
  "exif_mnote_data_save al d k =
    (case md_note d of
       Canon n \<Rightarrow> exif_mnote_data_canon_save (md_alloc al d) n k
     | Fuji n \<Rightarrow> exif_mnote_data_fuji_save (md_alloc al d) n k
     | Olympus n \<Rightarrow> exif_mnote_data_olympus_save (md_alloc al d) n k
     | Pentax n \<Rightarrow> exif_mnote_data_pentax_save (md_alloc al d) n k)"

definition exif_mnote_data_set_byte_order :: "ExifByteOrder \<Rightarrow> ExifMnoteData \<Rightarrow> ExifMnoteData option" where
  "exif_mnote_data_set_byte_order ord d =
    do { n \<leftarrow> (case md_note d of
             Canon n \<Rightarrow> map_option Canon (exif_mnote_data_canon_set_byte_order ord n)
           | Fuji n \<Rightarrow> map_option Fuji (exif_mnote_data_fuji_set_byte_order ord n)
           | Olympus n \<Rightarrow> map_option Olympus (exif_mnote_data_olympus_set_byte_order ord n)
           | Pentax n \<Rightarrow> map_option Pentax (exif_mnote_data_pentax_set_byte_order ord n));
         Some (d\<lparr>md_note := n\<rparr>) }"

definition exif_mnote_data_set_offset :: "u32 \<Rightarrow> ExifMnoteData \<Rightarrow> ExifMnoteData" where
  "exif_mnote_data_set_offset off d = d\<lparr>md_note :=
    (case md_note d of
       Canon n \<Rightarrow> Canon (exif_mnote_data_canon_set_offset off n)
     | Fuji n \<Rightarrow> Fuji (exif_mnote_data_fuji_set_offset off n)
     | Olympus n \<Rightarrow> Olympus (exif_mnote_data_olympus_set_offset off n)
     | Pentax n \<Rightarrow> Pentax (exif_mnote_data_pentax_set_offset off n))\<rparr>"

definition exif_mnote_data_count :: "ExifMnoteData \<Rightarrow> u32 option" where
  "exif_mnote_data_count d =
    (case md_note d of
       Canon n \<Rightarrow> exif_mnote_data_canon_count n
     | Fuji n \<Rightarrow> Some (of_nat (n_count n))
     | Olympus n \<Rightarrow> Some (of_nat (n_count n))
     | Pentax n \<Rightarrow> Some (of_nat (n_count n)))"

definition exif_mnote_data_get_id :: "ExifMnoteData \<Rightarrow> u32 \<Rightarrow> u32 option" where
  "exif_mnote_data_get_id d i =
    (case md_note d of
       Canon n \<Rightarrow> exif_mnote_data_canon_get_id n i
     | Fuji n \<Rightarrow> Some (mnote_get_id n i)
     | Olympus n \<Rightarrow> Some (mnote_get_id n i)
     | Pentax n \<Rightarrow> Some (mnote_get_id n i))"

section \<open>The maker note of an image\<close>

definition first_in :: "Store \<Rightarrow> u16 \<Rightarrow> ExifContent list \<Rightarrow> nat option option" where
  "first_in s t cs = foldr (\<lambda>c r. do { p \<leftarrow> exif_content_get_entry s c t; if p \<noteq> None then Some p else r }) cs (Some None)"

definition exif_data_get_entry :: "ExifData \<Rightarrow> u16 \<Rightarrow> nat option option" where
  "exif_data_get_entry data t =
    first_in (ed_store data) t (map ((!) (ed_ifd data)) [IFD_0, IFD_1, IFD_EXIF, IFD_GPS, IFD_INTEROPERABILITY])"

text \<open>
  \<open>exif_entry_get_value\<close> on an entry of the tag \<open>Make\<close> of a directory of the data, which goes straight to
  \<open>exif_entry_format_value\<close>: the bytes before the terminating zero in a buffer of \<open>n\<close> bytes. The texts that \<open>snprintf\<close> prints for
  other formats, and the message about a wrong size, depend on the language of the user; \<open>text_of\<close> is that text before it
  is cut to the buffer.
\<close>

definition make_text :: "(ExifEntry \<Rightarrow> bytes) \<Rightarrow> ExifEntry \<Rightarrow> nat \<Rightarrow> bytes option" where
  "make_text text_of e n =
    (let maxlen = n - 1 in
     if e_size e \<noteq> e_components e * ucast (exif_format_get_size (e_format e))
     then Some (take (maxlen - 1) (text_of e))
     else if e_size e = 0 \<or> maxlen = 0 then Some []
     else if e_format e = EXIF_FORMAT_ASCII
     then map_option (takeWhile (\<lambda>c. c \<noteq> 0)) (rd_range (e_data e) 0 (min maxlen (unat (e_size e))))
     else Some (take maxlen (text_of e)))"

definition brand :: "(ExifEntry \<Rightarrow> bytes) \<Rightarrow> ExifData \<Rightarrow> nat \<Rightarrow> bytes option option" where
  "brand text_of data n =
    do { p \<leftarrow> exif_data_get_entry data TAG_MAKE;
         case p of
           None \<Rightarrow> Some None
         | Some a \<Rightarrow> do { em \<leftarrow> st_heap (ed_store data) a; t \<leftarrow> make_text text_of em n; Some (Some t) } }"

text \<open>The object for the maker note \<open>e\<close>. The modules ask for the text of \<open>Make\<close> with buffers of five and of eight bytes.\<close>

definition new_for ::
  "alloc \<Rightarrow> (ExifEntry \<Rightarrow> bytes) \<Rightarrow> ExifData \<Rightarrow> ExifEntry \<Rightarrow> nat \<Rightarrow> (ExifMnoteData option \<times> nat) option" where
  "new_for al text_of data e k =
    do { v \<leftarrow> exif_mnote_data_olympus_identify (brand text_of data 5) (e_data e) (e_size e);
         if v \<noteq> unrecognized then Some (exif_mnote_data_olympus_new al k)
         else do {
           c \<leftarrow> exif_mnote_data_canon_identify (brand text_of data 8);
           if c then Some (exif_mnote_data_canon_new al (ed_options data) k)
           else do {
             f \<leftarrow> exif_mnote_data_fuji_identify (e_data e) (e_size e);
             if f then Some (exif_mnote_data_fuji_new al k)
             else do {
               p \<leftarrow> exif_mnote_data_pentax_identify (e_data e) (e_size e);
               if p \<noteq> None then Some (exif_mnote_data_pentax_new al k) else Some (None, k) } } } }"

definition interpret_maker_note ::
  "alloc \<Rightarrow> (ExifEntry \<Rightarrow> bytes) \<Rightarrow> ExifData \<Rightarrow> cbuf \<Rightarrow> u32 \<Rightarrow> nat \<Rightarrow> (ExifMnoteData option \<times> nat) option" where
  "interpret_maker_note al text_of data d ds k =
    do { p \<leftarrow> exif_data_get_entry data TAG_MAKER_NOTE;
         case p of
           None \<Rightarrow> Some (None, k)
         | Some a \<Rightarrow>
             do { e \<leftarrow> st_heap (ed_store data) a;
                  (md, k) \<leftarrow> new_for al text_of data e k;
                  case md of
                    None \<Rightarrow> Some (None, k)
                  | Some md \<Rightarrow>
                      do { md \<leftarrow> exif_mnote_data_set_byte_order (ed_order data) md;
                           let md = exif_mnote_data_set_offset (ed_offset_mnote data) md;
                           (md, k) \<leftarrow> exif_mnote_data_load al d ds (md, k);
                           Some (Some md, k) } } }"

text \<open>The part of \<open>exif_data_save_data_entry\<close> for an interpreted maker note: its entry is filled anew.\<close>

definition save_maker_note :: "alloc \<Rightarrow> ExifMnoteData \<Rightarrow> u32 \<Rightarrow> ExifEntry \<Rightarrow> nat \<Rightarrow> (ExifEntry \<times> ExifMnoteData \<times> nat) option" where
  "save_maker_note al md ds e k =
    do { let md = exif_mnote_data_set_offset (ds - 6) md;
         out \<leftarrow> exif_mnote_data_save al md k;
         Some (e\<lparr>e_data := o_d out, e_size := o_ds out, e_components := o_ds out\<rparr>, md, o_clock out) }"

section \<open>The front keeps the interface of the modules\<close>

fun note_ok :: "mnote \<Rightarrow> bool" where
  "note_ok (Canon n) = canon_ok n"
| "note_ok (Fuji n) = mnote_ok n"
| "note_ok (Olympus n) = mnote_ok n"
| "note_ok (Pentax n) = mnote_ok n"

fun note_room :: "mnote \<Rightarrow> nat \<Rightarrow> bool" where
  "note_room (Olympus n) L = olympus_room n L"
| "note_room n L = True"

fun vendor_image :: "mnote \<Rightarrow> bytes" where
  "vendor_image (Canon n) = canon_image n"
| "vendor_image (Fuji n) = fuji_image n"
| "vendor_image (Olympus n) = olympus_image n"
| "vendor_image (Pentax n) = pentax_image n"

fun note_readable :: "mnote \<Rightarrow> bool" where
  "note_readable (Canon n) = canon_readable n"
| "note_readable (Fuji n) = fuji_readable n"
| "note_readable (Olympus n) = olympus_readable n"
| "note_readable (Pentax n) = pentax_readable n"

fun note_prepared :: "mnote \<Rightarrow> mnote \<Rightarrow> bool" where
  "note_prepared (Canon n) (Canon n0) = (n0\<lparr>n_entries := n_entries n\<rparr> = n)"
| "note_prepared (Fuji n) (Fuji n0) = (n0\<lparr>n_entries := n_entries n, n_order := n_order n\<rparr> = n)"
| "note_prepared (Olympus n) (Olympus n0) = olympus_prepared n n0"
| "note_prepared (Pentax n) (Pentax n0) = pentax_prepared n n0"
| "note_prepared n n0 = False"

fun vendor_home :: "mnote \<Rightarrow> nat" where
  "vendor_home (Canon n) = note_home n"
| "vendor_home (Fuji n) = note_home n"
| "vendor_home (Olympus n) = note_home n"
| "vendor_home (Pentax n) = note_home n"

definition md_ok :: "ExifMnoteData \<Rightarrow> bool" where
  "md_ok d = note_ok (md_note d)"

definition md_room :: "ExifMnoteData \<Rightarrow> nat \<Rightarrow> bool" where
  "md_room d = note_room (md_note d)"

definition md_image :: "ExifMnoteData \<Rightarrow> bytes" where
  "md_image d = vendor_image (md_note d)"

definition md_readable :: "ExifMnoteData \<Rightarrow> bool" where
  "md_readable d \<longleftrightarrow> md_mem d \<and> note_readable (md_note d)"

definition md_prepared :: "ExifMnoteData \<Rightarrow> ExifMnoteData \<Rightarrow> bool" where
  "md_prepared d d0 \<longleftrightarrow> d0\<lparr>md_note := md_note d\<rparr> = d \<and> note_prepared (md_note d) (md_note d0)"

definition md_home :: "ExifMnoteData \<Rightarrow> nat" where
  "md_home d = vendor_home (md_note d)"

lemma note_preparedE:
  assumes "note_prepared n n0"
  obtains a b where "n = Canon a" "n0 = Canon b" "b\<lparr>n_entries := n_entries a\<rparr> = a"
  | a b where "n = Fuji a" "n0 = Fuji b" "b\<lparr>n_entries := n_entries a, n_order := n_order a\<rparr> = a"
  | a b where "n = Olympus a" "n0 = Olympus b" "olympus_prepared a b"
  | a b where "n = Pentax a" "n0 = Pentax b" "pentax_prepared a b"
  using assms by (cases n; cases n0) auto

lemma note_load_safe:
  assumes "note_ok n" and "length d < 2 ^ 32" and "note_room n (length d)"
  shows "\<exists>n' k'. note_load al (Buf d) (of_nat (length d)) (n, k) = Some (n', k') \<and> note_ok n'"
proof (cases n)
  case (Canon c)
  then show ?thesis using canon.load_ok [of c d al k] assms by (auto simp: note_load_def)
next
  case (Fuji c)
  then show ?thesis using fuji.load_ok [of c d al k] assms by (auto simp: note_load_def)
next
  case (Olympus c)
  then show ?thesis using olympus.load_ok [of c d al k] assms by (auto simp: note_load_def)
next
  case (Pentax c)
  then show ?thesis using pentax.load_ok [of c d al k] assms by (auto simp: note_load_def)
qed

lemma note_load_image:
  assumes "plenty al" and "note_readable n" and "note_prepared n n0" and "length pre = vendor_home n" and "post \<noteq> []"
    and "length (pre @ vendor_image n @ post) < 2 ^ 32"
  shows "\<exists>k'. note_load al (Buf (pre @ vendor_image n @ post)) (of_nat (length (pre @ vendor_image n @ post))) (n0, k) = Some (n, k')"
  using assms(3)
proof (cases rule: note_preparedE)
  case (1 a b)
  then show ?thesis using canon.load_image [of al a b pre post k] assms by (auto simp: note_load_def)
next
  case (2 a b)
  then show ?thesis using fuji.load_image [of al a b pre post k] assms by (auto simp: note_load_def)
next
  case (3 a b)
  then show ?thesis using olympus.load_image [of al a b pre post k] assms by (auto simp: note_load_def)
next
  case (4 a b)
  then show ?thesis using pentax.load_image [of al a b pre post k] assms by (auto simp: note_load_def)
qed

lemmas vendor_save_ok = canon.save_ok fuji.save_ok olympus.save_ok pentax.save_ok
lemmas vendor_save_image = canon.save_image fuji.save_image olympus.save_image pentax.save_image
lemmas vendor_readable_ok = canon.readable_ok fuji.readable_ok olympus.readable_ok pentax.readable_ok

interpretation front: maker_note exif_mnote_data_load exif_mnote_data_save md_ok md_room md_image md_readable md_prepared md_home
proof (unfold_locales, goal_cases)
  case (1 n d al k)
  then show ?case
    using note_load_safe [of "md_note n" d "md_alloc al n" k]
    by (auto simp: exif_mnote_data_load_def md_ok_def md_room_def)
next
  case (2 n al k)
  then show ?case
    by (cases "md_note n") (auto simp: exif_mnote_data_save_def md_ok_def md_image_def intro!: vendor_save_ok)
next
  case (3 al n k)
  then show ?case
    by (cases "md_note n")
      (auto simp: exif_mnote_data_save_def md_readable_def md_image_def md_alloc_def intro!: vendor_save_image)
next
  case (4 n)
  then show ?case
    by (cases "md_note n") (auto simp: md_readable_def md_ok_def vendor_readable_ok)
next
  case (5 al n n0 pre post k)
  have e: "n0\<lparr>md_note := md_note n\<rparr> = n" using 5(3) by (simp add: md_prepared_def)
  then have "md_mem n0" using 5(2) by (metis ExifMnoteData.select_convs(3) ExifMnoteData.surjective ExifMnoteData.update_convs(1) md_readable_def)
  then show ?case
    using note_load_image [of al "md_note n" "md_note n0" pre post k] 5 e
    by (auto simp: exif_mnote_data_load_def md_readable_def md_prepared_def md_image_def md_home_def md_alloc_def)
qed

lemma count_ok: "md_ok md \<Longrightarrow> \<exists>c. exif_mnote_data_count md = Some c"
  using canon_count_eq [OF canon_okD]
  by (cases "md_note md") (auto simp: md_ok_def exif_mnote_data_count_def exif_mnote_data_canon_count_def)

lemma get_id_ok:
  assumes "md_ok md"
  shows "\<exists>t. exif_mnote_data_get_id md i = Some t"
proof (cases "md_note md")
  case (Canon n)
  then obtain r where "exif_mnote_data_canon_get_tags n i = Some r"
    using canon_get_tags_safe [OF canon_okD, of n i 0 0] assms by (auto simp: md_ok_def exif_mnote_data_canon_get_tags_def)
  then show ?thesis using Canon by (simp add: exif_mnote_data_get_id_def exif_mnote_data_canon_get_id_def)
qed (simp_all add: exif_mnote_data_get_id_def)

section \<open>A maker note in the image file\<close>

lemma readable_image_long: "md_readable md \<Longrightarrow> 4 < length (md_image md)"
  by (cases "md_note md")
    (auto simp: md_readable_def md_image_def canon_readable_def fuji_readable_def olympus_readable_def pentax_readable_def
      canon_image_def fuji_image_def olympus_image_def pentax_image_def mnote_okD length_note_image length_olympus_hdr
      elong.enc_length split: option.splits)

lemma md_home_offset:
  assumes "6 \<le> unat ds"
  shows "md_home (exif_mnote_data_set_offset (ds - 6) md) = unat ds"
proof -
  have "unat (ds - 6) = unat ds - 6" using assms by (simp add: unat_sub word_le_nat_alt)
  then show ?thesis using assms
    by (cases "md_note md")
      (simp_all add: md_home_def exif_mnote_data_set_offset_def note_home_def mnote_set_offset_def
        exif_mnote_data_canon_set_offset_def exif_mnote_data_fuji_set_offset_def
        exif_mnote_data_olympus_set_offset_def exif_mnote_data_pentax_set_offset_def)
qed

lemma save_maker_note_eq:
  assumes "plenty al" and "md_readable md'" and "md' = exif_mnote_data_set_offset (ds - 6) md" and "length (md_image md') < 2 ^ 32"
  shows "\<exists>c. save_maker_note al md ds e k =
    Some (e\<lparr>e_data := Buf (md_image md'), e_size := of_nat (length (md_image md')),
           e_components := of_nat (length (md_image md'))\<rparr>, md', c)"
proof -
  obtain c where "exif_mnote_data_save al md' k = Some (out_of (md_image md') c)"
    using front.save_image assms(1,2,4) by blast
  then show ?thesis using assms(3) by (simp add: save_maker_note_def Let_def)
qed

text \<open>
  C11. A maker note survives saving and loading. When an EXIF block is written, the interpreted note is written into
  the data of its entry, with offsets for the place behind the block written so far, and the entry behind that block.
  Whatever the directories before it come to hold and whatever follows, the module that loads the file from the same
  offset, into an object as \<open>interpret_maker_note\<close> prepares it, gets the same note. The note has to be one that the
  module keeps: of a known variant other than Nikon's oldest, in Intel order if it is a Fuji note, with a count of
  entries that is not taken for one in the other byte order (Olympus, Sanyo, Epson and the first Nikon kind), for the
  first Pentax kind not empty and not beginning like another kind, and with entries in the byte order of the note that
  have at most 64 KB of data (none only where the module keeps such an entry) and a tag that fits into 16 bits. The entry of the
  note has a format of one byte per component, at least one byte follows the note, everything is below 4 GB, and memory is granted.
\<close>

theorem maker_note_saved_and_read:
  assumes "plenty al" and "md' = exif_mnote_data_set_offset (ds - 6) md" and "md_readable md'" and "md_prepared md' md0"
    and "exif_format_get_size (e_format e) = 1"
    and "length blk = unat ds" and "6 + unat offset + 12 \<le> length blk"
    and "length pre = length blk" and "rest \<noteq> []" and "length blk + length (md_image md') + 1 + length rest < 2 ^ 32"
  shows "\<exists>e' c b c'. save_maker_note al md ds e k = Some (e', md', c) \<and>
    exif_data_save_data_entry al ord e' offset (out_of blk c) = Some (out_of b c') \<and>
    (\<exists>k'. exif_mnote_data_load al (Buf (pre @ drop (length blk) b @ rest)) (of_nat (length (pre @ drop (length blk) b @ rest)))
      (md0, c') = Some (md', k'))"
proof -
  let ?I = "md_image md'"
  let ?e = "e\<lparr>e_data := Buf ?I, e_size := of_nat (length ?I), e_components := of_nat (length ?I)\<rparr>"
  obtain c where sv: "save_maker_note al md ds e k = Some (?e, md', c)"
    using save_maker_note_eq [OF assms(1,3,2)] assms(10) by auto
  have dl: "data_len ?e = length ?I" using assms(5,10) by (simp add: data_len_def unat_word_of_nat_32)
  moreover have "payload ?e = ?I" by (simp add: payload_def)
  ultimately have ext: "entry_ext ?e = ?I @ replicate (length ?I mod 2) 0"
    using readable_image_long [OF assms(3)] by (auto simp: entry_ext_def odd_iff_mod_2_eq_one)
  have fit: "entry_fit ?e" using dl by (simp add: entry_fit_def payload_def)
  have room: "length ?I mod 2 \<le> 1" by simp
  then have small: "length blk + length (entry_ext ?e) < 2 ^ 32" using assms(9,10) ext by simp
  let ?q = "6 + unat offset"
  let ?pre = "take ?q blk" and ?hole = "take 12 (drop ?q blk)" and ?post = "drop (?q + 12) blk"
  have blk: "blk = ?pre @ ?hole @ ?post" using append_take_drop_id [of ?q blk] append_take_drop_id [of 12 "drop ?q blk"]
    by (metis add.commute drop_drop)
  let ?b = "?pre @ entry_slot ord (length blk) ?e @ ?post @ entry_ext ?e"
  obtain c' where se: "exif_data_save_data_entry al ord ?e offset (out_of blk c) = Some (out_of ?b c')"
    using save_entry_eq [OF assms(1) fit _ _ blk small, of offset ord c] assms(7) by auto
  have "length (?pre @ entry_slot ord (length blk) ?e @ ?post) = length blk" using assms(7) fit by simp
  then have dr: "drop (length blk) ?b = ?I @ replicate (length ?I mod 2) 0"
    unfolding ext append_assoc [symmetric] by (simp only: drop_append) simp
  have "length pre = md_home md'" using md_home_offset [of ds md] assms(2,6,7,8) by simp
  then obtain k' where "exif_mnote_data_load al (Buf (pre @ ?I @ replicate (length ?I mod 2) 0 @ rest))
      (of_nat (length (pre @ ?I @ replicate (length ?I mod 2) 0 @ rest))) (md0, c') = Some (md', k')"
    using front.load_image [OF assms(1,3,4), of pre "replicate (length ?I mod 2) 0 @ rest" c'] assms(8-10) room by auto
  then have "\<exists>k'. exif_mnote_data_load al (Buf (pre @ drop (length blk) ?b @ rest))
      (of_nat (length (pre @ drop (length blk) ?b @ rest))) (md0, c') = Some (md', k')"
    unfolding dr append_assoc by (rule exI)
  with sv se show ?thesis by blast
qed

definition canon_object :: ExifMnoteData where
  "canon_object = \<lparr>md_note = Canon two_canon_entries, md_priv = Some 1, md_mem = True\<rparr>"

definition fresh_canon :: "ExifMnoteData option" where
  "fresh_canon =
    do { md \<leftarrow> fst (exif_mnote_data_canon_new mem_ok 0 0);
         md \<leftarrow> exif_mnote_data_set_byte_order EXIF_BYTE_ORDER_INTEL md;
         Some (exif_mnote_data_set_offset 20 md) }"

lemma canon_object_readable: "md_readable canon_object"
  by (simp add: canon_object_def two_canon_entries_def md_readable_def canon_readable_def mnote_ok_def n_list_def mentry_kept_def
      mentry_ok_def mn_bytes_def mn_len_def canon_load_style_def exif_format_get_size_def ExifFormatTable_def)

lemma canon_object_offset: "exif_mnote_data_set_offset 20 canon_object = canon_object"
  by (simp add: canon_object_def two_canon_entries_def exif_mnote_data_set_offset_def exif_mnote_data_canon_set_offset_def
      mnote_set_offset_def)

lemma fresh_canon_prepared: "\<exists>md. fresh_canon = Some md \<and> md_prepared canon_object md"
  by (simp add: fresh_canon_def exif_mnote_data_canon_new_def new_object_def mem_ok_def exif_mnote_data_construct_def
      exif_mnote_data_set_byte_order_def exif_mnote_data_canon_set_byte_order_def mnote_set_byte_order_def
      exif_mnote_data_set_offset_def exif_mnote_data_canon_set_offset_def mnote_set_offset_def md_prepared_def canon_object_def
      two_canon_entries_def)

lemma canon_object_length: "length (md_image canon_object) = 36"
proof -
  have "list_all mentry_ok (n_list two_canon_entries)"
    using canon_object_readable by (simp add: canon_object_def md_readable_def canon_readable_def mnote_okD)
  moreover have "length (mn_exts (canon_save_style two_canon_entries) (n_list two_canon_entries)) = 6" "n_count two_canon_entries = 2"
    by (simp_all add: two_canon_entries_def n_list_def mn_ext_def mn_len_def mn_bytes_def canon_save_style_def
        exif_format_get_size_def ExifFormatTable_def)
  ultimately show ?thesis by (simp add: canon_object_def md_image_def canon_image_def length_note_image)
qed

theorem maker_note_saved_and_read_witness:
  "\<exists>md0 e' c b c' k'. fresh_canon = Some md0 \<and>
    save_maker_note mem_ok canon_object 26 (zero_entry\<lparr>e_format := EXIF_FORMAT_UNDEFINED\<rparr>) 0 = Some (e', canon_object, c) \<and>
    exif_data_save_data_entry mem_ok EXIF_BYTE_ORDER_INTEL e' 0 (out_of (replicate 26 0) c) = Some (out_of b c') \<and>
    exif_mnote_data_load mem_ok (Buf (replicate 26 1 @ drop 26 b @ [0])) (of_nat (length (replicate 26 1 @ drop 26 b @ [0])))
      (md0, c') = Some (canon_object, k')"
proof -
  obtain md0 where md0: "fresh_canon = Some md0" "md_prepared canon_object md0" using fresh_canon_prepared by blast
  have u: "exif_format_get_size (e_format (zero_entry\<lparr>e_format := EXIF_FORMAT_UNDEFINED\<rparr>)) = 1"
    by (simp add: exif_format_get_size_def ExifFormatTable_def)
  have o: "canon_object = exif_mnote_data_set_offset (26 - 6) canon_object" using canon_object_offset by simp
  have "\<exists>e' c b c'. save_maker_note mem_ok canon_object 26 (zero_entry\<lparr>e_format := EXIF_FORMAT_UNDEFINED\<rparr>) 0 = Some (e', canon_object, c) \<and>
    exif_data_save_data_entry mem_ok EXIF_BYTE_ORDER_INTEL e' 0 (out_of (replicate 26 0) c) = Some (out_of b c') \<and>
    (\<exists>k'. exif_mnote_data_load mem_ok (Buf (replicate 26 1 @ drop (length (replicate 26 (0 :: u8))) b @ [0]))
      (of_nat (length (replicate 26 1 @ drop (length (replicate 26 (0 :: u8))) b @ [0 :: u8]))) (md0, c') = Some (canon_object, k'))"
    by (rule maker_note_saved_and_read [OF _ o canon_object_readable md0(2) u])
      (simp_all add: plenty_mem_ok canon_object_length)
  then show ?thesis using md0(1) unfolding length_replicate by blast
qed

section \<open>What is loaded can be used\<close>

text \<open>
  C12. Loading a maker note is memory safe, whatever the bytes, for a file below 4 GB in which an Olympus or Nikon note
  has room for the longest header: 14 bytes from its beginning, or fewer than 10, when it is refused. (With 10 to 13 bytes
  the loader reads behind the file.) Loaded into an object that satisfies the invariant, whatever the allocator refuses, the
  file is read without an access outside its bytes; the entries then hold exactly the data they claim, so that counting
  the values, asking for any tag by number and saving the note again (if the result is below 4 GB) do not fault either.
\<close>

theorem maker_note_load_safe:
  assumes "md_ok md" and "length d < 2 ^ 32" and "md_room md (length d)"
  shows "\<exists>md' k'. exif_mnote_data_load al (Buf d) (of_nat (length d)) (md, k) = Some (md', k') \<and> md_ok md' \<and>
    (\<exists>c. exif_mnote_data_count md' = Some c) \<and> (\<forall>i. \<exists>t. exif_mnote_data_get_id md' i = Some t) \<and>
    (length (md_image md') < 2 ^ 32 \<longrightarrow>
      (\<exists>out. exif_mnote_data_save al md' k' = Some out \<and> (o_d out = NULL \<or> blen (o_d out) = unat (o_ds out))))"
proof -
  obtain md' k' where l: "exif_mnote_data_load al (Buf d) (of_nat (length d)) (md, k) = Some (md', k')" "md_ok md'"
    using front.load_ok [OF assms] by blast
  moreover have "\<exists>out. exif_mnote_data_save al md' k' = Some out \<and> (o_d out = NULL \<or> blen (o_d out) = unat (o_ds out))"
    if "length (md_image md') < 2 ^ 32" using front.save_ok [OF l(2) that] .
  ultimately show ?thesis using count_ok [OF l(2)] get_id_ok [OF l(2)] by blast
qed

theorem maker_note_load_safe_witness:
  "\<exists>md md' k'. fresh_canon = Some md \<and>
    exif_mnote_data_load mem_ok (Buf (replicate 26 0 @ [1, 0, 6, 0, 3, 0, 1, 0])) 34 (md, 0) = Some (md', k') \<and> md_ok md' \<and>
    (\<exists>c. exif_mnote_data_count md' = Some c)"
proof -
  obtain md where md: "fresh_canon = Some md" "md_prepared canon_object md" using fresh_canon_prepared by blast
  then have "md_ok md" "md_room md 34"
    by (auto simp: md_prepared_def canon_object_def md_ok_def md_room_def canon_ok_def mnote_ok_def n_list_def fresh_canon_def
      exif_mnote_data_canon_new_def new_object_def mem_ok_def exif_mnote_data_construct_def
      exif_mnote_data_set_byte_order_def exif_mnote_data_canon_set_byte_order_def mnote_set_byte_order_def
      exif_mnote_data_set_offset_def exif_mnote_data_canon_set_offset_def mnote_set_offset_def)
  then show ?thesis
    using maker_note_load_safe [of md "replicate 26 0 @ [1, 0, 6, 0, 3, 0, 1, 0]" mem_ok 0] md(1) by auto
qed

fun note_list :: "mnote \<Rightarrow> MnoteEntry list" where
  "note_list (Canon n) = n_list n"
| "note_list (Fuji n) = n_list n"
| "note_list (Olympus n) = n_list n"
| "note_list (Pentax n) = n_list n"

fun note_order :: "mnote \<Rightarrow> ExifByteOrder" where
  "note_order (Canon n) = n_order n"
| "note_order (Fuji n) = n_order n"
| "note_order (Olympus n) = n_order n"
| "note_order (Pentax n) = n_order n"

lemma mnote_order_changed_back:
  assumes "mnote_ok n" and "list_all mentry_exact (n_list n)" and "list_all (\<lambda>e. mn_order e = n_order n) (n_list n)"
  shows "\<exists>n'. mnote_set_byte_order ord n = Some n' \<and> n_order n' = ord \<and> mnote_set_byte_order (n_order n) n' = Some n"
proof (cases "n_entries n")
  case None
  then show ?thesis by (simp add: mnote_set_byte_order_def)
next
  case (Some es)
  then obtain es' where "order_entries (n_order n) ord es = Some es'" "order_entries ord (n_order n) es' = Some es"
    using order_entries_ok [of es "n_order n" ord] assms by (auto simp: mnote_ok_def n_list_def)
  moreover have "n\<lparr>n_order := n_order n, n_entries := Some es\<rparr> = n" using Some by simp
  ultimately show ?thesis using Some by (simp add: mnote_set_byte_order_def)
qed

text \<open>
  Changing the byte order of a note whose counts are exact never leaves its data, and changing back restores every byte, with
  every vendor's module.
\<close>

theorem maker_note_order_changed_back:
  assumes "md_ok md" and "list_all mentry_exact (note_list (md_note md))"
    and "list_all (\<lambda>e. mn_order e = note_order (md_note md)) (note_list (md_note md))"
  shows "\<exists>md'. exif_mnote_data_set_byte_order ord md = Some md' \<and>
    exif_mnote_data_set_byte_order (note_order (md_note md)) md' = Some md"
proof -
  note defs = exif_mnote_data_set_byte_order_def exif_mnote_data_canon_set_byte_order_def exif_mnote_data_fuji_set_byte_order_def
    exif_mnote_data_olympus_set_byte_order_def exif_mnote_data_pentax_set_byte_order_def
  show ?thesis
  proof (cases "md_note md")
    case (Canon n)
    then show ?thesis using mnote_order_changed_back [of n ord] assms by (auto simp: defs md_ok_def canon_ok_def)
  next
    case (Fuji n)
    then show ?thesis using mnote_order_changed_back [of n ord] assms by (auto simp: defs md_ok_def)
  next
    case (Olympus n)
    then show ?thesis using mnote_order_changed_back [of n ord] assms by (auto simp: defs md_ok_def)
  next
    case (Pentax n)
    then show ?thesis using mnote_order_changed_back [of n ord] assms by (auto simp: defs md_ok_def)
  qed
qed

section \<open>Where the maker notes fail\<close>

text \<open>The text of the tag \<open>Make\<close> that fits into a buffer has room for the terminating zero.\<close>

lemma length_make_text: "make_text text_of e n = Some t \<Longrightarrow> length t \<le> n - 1"
  by (auto simp: make_text_def Let_def split: if_splits dest!: rd_range_length intro!: le_trans [OF length_takeWhile_le])

text \<open>
  C40. Nikon's oldest kind of note is never recognised. It has no name of its own, so
  \<open>exif_mnote_data_olympus_identify\<close> compares the text of the tag \<open>Make\<close> with five letters, but has it written into a
  buffer of five bytes, where a terminating zero leaves four letters: the comparison always fails. A note that begins
  with 00 1B then gets a Pentax object, unless the tag says that it is a Canon note.
\<close>

theorem old_nikon_note_taken_for_pentax:
  assumes "brand text_of data 5 = Some t5" and "brand text_of data 8 = Some t8" and "t8 \<noteq> Some Canon_brand"
    and "e_data e = Buf (0x00 # 0x1b # bs)" and "e_size e = of_nat (2 + length bs)" and "2 + length bs < 2 ^ 32"
  shows "exif_mnote_data_olympus_identify (brand text_of data 5) (e_data e) (e_size e) = Some unrecognized \<and>
    new_for al text_of data e k = Some (exif_mnote_data_pentax_new al k)"
proof -
  have two: "2 \<le> e_size e" using assms(5,6) by (simp add: word_le_nat_alt unat_word_of_nat_32 [of "2 + length bs", simplified])
  have long: "8 \<le> e_size e \<longleftrightarrow> 8 \<le> 2 + length bs" using assms(5,6)
    by (simp add: word_le_nat_alt unat_word_of_nat_32 [of "2 + length bs", simplified])
  have short: "take 5 t \<noteq> Nikon_brand \<and> take 5 t \<noteq> NIKON_brand" if "t5 = Some t" for t
  proof -
    have "length t \<le> 4" using assms(1) that
      by (auto simp: brand_def split: option.splits bind_splits dest!: length_make_text)
    then have "length (take 5 t) < 5" by simp
    then show ?thesis by (auto simp: Nikon_brand_def NIKON_brand_def)
  qed
  have "exif_mnote_data_olympus_identify_variant (e_data e) 0 (e_size e) = Some nikonV0"
    using two long assms(4) by (auto simp: exif_mnote_data_olympus_identify_variant_def OLYMPUS_id_def OLYMP_id_def SANYO_id_def
        EPSON_id_def Nikon_id_def)
  then have "exif_mnote_data_olympus_identify (brand text_of data 5) (e_data e) (e_size e) = Some unrecognized"
    using short assms(1) by (auto simp: exif_mnote_data_olympus_identify_def split: option.split)
  moreover have "exif_mnote_data_fuji_identify (e_data e) (e_size e) = Some False"
    using long assms(4) order_trans [of 8 12 "e_size e"] by (auto simp: exif_mnote_data_fuji_identify_def fuji_id_def)
  moreover have "exif_mnote_data_pentax_identify (e_data e) (e_size e) = Some (Some pentaxV1)"
    using two long assms(4) by (auto simp: exif_mnote_data_pentax_identify_def AOC_id_def QVC_id_def)
  ultimately show ?thesis
    using assms(2,3) by (auto simp: new_for_def exif_mnote_data_canon_identify_def)
qed

definition nikon_make :: ExifEntry where
  "nikon_make = zero_entry\<lparr>e_tag := TAG_MAKE, e_format := EXIF_FORMAT_ASCII, e_components := 6, e_data := Buf (NIKON_brand @ [0]), e_size := 6\<rparr>"

definition nikon_image :: ExifData where
  "nikon_image = \<lparr>ed_ifd = [\<lparr>c_entries = [7]\<rparr>, \<lparr>c_entries = []\<rparr>, \<lparr>c_entries = []\<rparr>, \<lparr>c_entries = []\<rparr>, \<lparr>c_entries = []\<rparr>],
    ed_data = NULL, ed_size = 0, ed_order = EXIF_BYTE_ORDER_MOTOROLA, ed_offset_mnote = 0, ed_options = 0, ed_data_type = 0,
    ed_store = \<lparr>st_heap = [7 \<mapsto> nikon_make], st_clock = 9\<rparr>\<rparr>"

theorem old_nikon_note_taken_for_pentax_witness:
  "brand (\<lambda>e. []) nikon_image 8 = Some (Some NIKON_brand) \<and>
   new_for mem_ok (\<lambda>e. []) nikon_image (zero_entry\<lparr>e_tag := TAG_MAKER_NOTE, e_data := Buf [0x00, 0x1b, 0, 1], e_size := 4\<rparr>) 0 =
     Some (exif_mnote_data_pentax_new mem_ok 0)"
proof -
  have "brand (\<lambda>e. []) nikon_image 5 = Some (Some (take 4 NIKON_brand))"
    "brand (\<lambda>e. []) nikon_image 8 = Some (Some NIKON_brand)" by code_simp+
  with old_nikon_note_taken_for_pentax [OF this, of _ "[0, 1]"] show ?thesis
    by (auto simp: Canon_brand_def NIKON_brand_def)
qed



text \<open>A loop over an array that keeps its length faults if it does at one index for every array of that length.\<close>

lemma foldM_faults:
  assumes "j \<in> set xs" and "blen b = L" and "\<And>x b b'. f x b = Some b' \<Longrightarrow> blen b = L \<Longrightarrow> blen b' = L"
    and "\<And>b. blen b = L \<Longrightarrow> f j b = None"
  shows "foldM f xs b = None"
  using assms(1,2)
proof (induction xs arbitrary: b)
  case (Cons x xs)
  show ?case
  proof (cases "f x b")
    case (Some b')
    then have "blen b' = L" "j \<noteq> x" using assms(3,4) Cons.prems(2) by auto
    with Some Cons show ?thesis by auto
  qed simp
qed simp

lemma short_outside: "0 < blen b \<Longrightarrow> blen b \<le> p \<Longrightarrow> exif_get_short b p ord = None"
  by (cases b) (auto simp: exif_get_short_def exif_get_sshort_def split: ExifByteOrder.split)

lemma set_short_blen: "exif_set_short b p ord v = Some b' \<Longrightarrow> blen b' = blen b"
  by (cases "b = NULL") (auto simp: exif_set_short_def exif_set_sshort_def split: ExifByteOrder.splits bind_splits dest!: wr_blen)

lemma wrapped_entry_faults:
  assumes "mentry_ok e" and "mn_format e = EXIF_FORMAT_SHORT" and "mn_size e \<noteq> 0" and "2 ^ 31 < unat (mn_components e)"
  shows "exif_array_set_byte_order (mn_format e) (mn_data e) (mn_components e) o1 o2 = None"
proof -
  define L where "L = unat (mn_size e)"
  have sz: "mn_size e = 2 * mn_components e" using assms(1,2) by (simp add: mentry_ok_def mn_bytes_def format_sizes)
  have bl: "blen (mn_data e) = L" "0 < L" using assms(1,3) by (auto simp: mentry_ok_def L_def unat_gt_0)
  have "even L" unfolding L_def sz by (simp add: unat_word_ariths dvd_mod)
  then obtain j where j: "L = 2 * j" by blast
  have "L < 2 ^ 32" by (simp add: L_def unat_u32 [simplified])
  then have w: "unat (word_of_nat j * 2 :: u32) = L" using j unat_word_of_nat_32 [of L] by (simp add: mult.commute)
  have "j \<in> set [0..<unat (mn_components e)]" using j \<open>L < 2 ^ 32\<close> assms(4) by simp
  then have "array_loop exif_get_short exif_set_short 2 (mn_components e) o1 o2 (mn_data e) = None"
    unfolding array_loop_def
    by (rule foldM_faults [OF _ bl(1)]) (use bl(2) w in \<open>auto simp: short_outside dest!: set_short_blen split: bind_splits\<close>)
  moreover have "mn_data e \<noteq> NULL" using bl by auto
  ultimately show ?thesis using assms(2,4) by (auto simp: exif_array_set_byte_order_def format_sizes)
qed

lemma order_entries_faults:
  "e \<in> set es \<Longrightarrow> exif_array_set_byte_order (mn_format e) (mn_data e) (mn_components e) o1 o2 = None \<Longrightarrow>
    order_entries o1 o2 es = None"
  by (induction es) (auto split: bind_splits)

lemma mnote_set_byte_order_faults:
  assumes "e \<in> set (n_list n)" and "mentry_ok e" and "mn_format e = EXIF_FORMAT_SHORT" and "mn_size e \<noteq> 0"
    and "2 ^ 31 < unat (mn_components e)"
  shows "mnote_set_byte_order ord n = None"
  using assms(1) order_entries_faults [OF _ wrapped_entry_faults [OF assms(2-5)]]
  by (cases "n_entries n") (auto simp: mnote_set_byte_order_def n_list_def)

text \<open>
  C38. The loaders accept an entry whose number of components, times the size of its format, overflows
  32 bits: the entry then has the few bytes of the product modulo 2^32. For an entry of more than 2^31 unsigned shorts
  whose size is not 0, changing the byte order of the note, with any vendor's module, runs over the components one by
  one and beyond the end of the data.
\<close>

theorem wrapped_count_overruns:
  assumes "e \<in> set (note_list (md_note md))" and "mentry_ok e" and "mn_format e = EXIF_FORMAT_SHORT" and "mn_size e \<noteq> 0"
    and "2 ^ 31 < unat (mn_components e)"
  shows "exif_mnote_data_set_byte_order ord md = None"
  using assms(1)
  by (cases "md_note md")
    (auto simp: mnote_set_byte_order_faults [OF _ assms(2-5)] exif_mnote_data_set_byte_order_def exif_mnote_data_canon_set_byte_order_def exif_mnote_data_fuji_set_byte_order_def
      exif_mnote_data_olympus_set_byte_order_def exif_mnote_data_pentax_set_byte_order_def)

text \<open>A Canon note of one such entry, as the file has it and as it is loaded.\<close>

definition wrapped_file :: bytes where
  "wrapped_file = replicate 26 0 @ [1, 0] @ [6, 0, 3, 0, 1, 0, 0, 0x80, 7, 0, 0, 0]"

definition wrapped_entry :: MnoteEntry where
  "wrapped_entry = \<lparr>mn_tag = 6, mn_format = EXIF_FORMAT_SHORT, mn_components = 0x80000001, mn_data = Buf [7, 0], mn_size = 2,
     mn_order = EXIF_BYTE_ORDER_INTEL\<rparr>"

theorem wrapped_count_overruns_witness:
  "\<exists>md0 md k'. fresh_canon = Some md0 \<and> exif_mnote_data_load mem_ok (Buf wrapped_file) 40 (md0, 0) = Some (md, k') \<and>
    note_list (md_note md) = [wrapped_entry] \<and> exif_mnote_data_set_byte_order EXIF_BYTE_ORDER_MOTOROLA md = None"
proof -
  have "\<exists>md0 md k'. fresh_canon = Some md0 \<and> exif_mnote_data_load mem_ok (Buf wrapped_file) 40 (md0, 0) = Some (md, k') \<and>
    note_list (md_note md) = [wrapped_entry]"
  proof -
    have "(case fresh_canon of None \<Rightarrow> None | Some md0 \<Rightarrow>
        map_option (\<lambda>(md, k'). note_list (md_note md)) (exif_mnote_data_load mem_ok (Buf wrapped_file) 40 (md0, 0))) =
      Some [wrapped_entry]" by code_simp
    then show ?thesis by (auto split: option.splits)
  qed
  then obtain md0 md k' where l: "fresh_canon = Some md0" "exif_mnote_data_load mem_ok (Buf wrapped_file) 40 (md0, 0) = Some (md, k')"
    "note_list (md_note md) = [wrapped_entry]" by blast
  have "exif_mnote_data_set_byte_order EXIF_BYTE_ORDER_MOTOROLA md = None"
    by (rule wrapped_count_overruns [of wrapped_entry])
      (simp_all add: l(3) wrapped_entry_def mentry_ok_def mn_bytes_def format_sizes)
  with l show ?thesis by blast
qed

end
