(* ===== verification/Jpeg_Data.thy ===== *)
theory Jpeg_Data
  imports Exif_Fix
begin

text \<open>
  The JPEG container: \<^verbatim>\<open>libjpega/jpeg-data.c\<close> and \<^verbatim>\<open>libjpega/jpeg-marker.c\<close>. A file is a list of
  sections; the section of type APP1 owns an \<open>ExifData\<close>, all others own the bytes they were read with.
  Sections refer to \<open>ExifData\<close> by address, since clients hold references too; the objects and their
  reference counts are in a \<open>World\<close>. The allocator is that of the EXIF library.
\<close>

section \<open>Markers\<close>

type_synonym JPEGMarker = u8

abbreviation (input) JPEG_MARKER_RST0 :: JPEGMarker where "JPEG_MARKER_RST0 \<equiv> 0xd0"
abbreviation (input) JPEG_MARKER_SOI :: JPEGMarker where "JPEG_MARKER_SOI \<equiv> 0xd8"
abbreviation (input) JPEG_MARKER_EOI :: JPEGMarker where "JPEG_MARKER_EOI \<equiv> 0xd9"
abbreviation (input) JPEG_MARKER_SOS :: JPEGMarker where "JPEG_MARKER_SOS \<equiv> 0xda"
abbreviation (input) JPEG_MARKER_APP1 :: JPEGMarker where "JPEG_MARKER_APP1 \<equiv> 0xe1"

definition JPEG_IS_MARKER :: "JPEGMarker \<Rightarrow> bool" where
  "JPEG_IS_MARKER m \<longleftrightarrow> 0xc0 \<le> m \<and> m \<le> 0xfe"

definition JPEGMarkerTable :: "(JPEGMarker \<times> string \<times> string) list" where
  "JPEGMarkerTable = [
     (0xc0, ''SOF0'', ''Encoding (baseline)''),
     (0xc1, ''SOF1'', ''Encoding (extended sequential)''),
     (0xc2, ''SOF2'', ''Encoding (progressive)''),
     (0xc3, ''SOF3'', ''Encoding (lossless)''),
     (0xc5, ''SOF5'', ''Encoding (differential sequential)''),
     (0xc6, ''SOF6'', ''Encoding (differential progressive)''),
     (0xc7, ''SOF7'', ''Encoding (differential lossless)''),
     (0xc9, ''SOF9'', ''Encoding (extended sequential, arithmetic)''),
     (0xca, ''SOF10'', ''Encoding (progressive, arithmetic)''),
     (0xcb, ''SOF11'', ''Encoding (lossless, arithmetic)''),
     (0xcd, ''SOF13'', ''Encoding (differential sequential, arithmetic)''),
     (0xce, ''SOF14'', ''Encoding (differential progressive, arithmetic)''),
     (0xcf, ''SOF15'', ''Encoding (differential lossless, arithmetic)''),
     (0xd8, ''SOI'', ''Start of image''),
     (0xd9, ''EOI'', ''End of image''),
     (0xda, ''SOS'', ''Start of scan''),
     (0xfe, ''COM'', ''Comment''),
     (0xc4, ''DHT'', ''Define Huffman table''),
     (0xc8, ''JPG'', ''Extension''),
     (0xcc, ''DAC'', ''Define arithmetic coding conditioning''),
     (0xd1, ''RST1'', ''Restart 1''),
     (0xd2, ''RST2'', ''Restart 2''),
     (0xd3, ''RST3'', ''Restart 3''),
     (0xd4, ''RST4'', ''Restart 4''),
     (0xd5, ''RST5'', ''Restart 5''),
     (0xd6, ''RST6'', ''Restart 6''),
     (0xd7, ''RST7'', ''Restart 7''),
     (0xdb, ''DQT'', ''Define quantization table''),
     (0xdc, ''DNL'', ''Define number of lines''),
     (0xdd, ''DRI'', ''Define restart interval''),
     (0xde, ''DHP'', ''Define hierarchical progression''),
     (0xdf, ''EXP'', ''Expand reference component''),
     (0xe0, ''APP0'', ''Application segment 0''),
     (0xe1, ''APP1'', ''Application segment 1''),
     (0xe2, ''APP2'', ''Application segment 2''),
     (0xe3, ''APP3'', ''Application segment 3''),
     (0xe4, ''APP4'', ''Application segment 4''),
     (0xe5, ''APP5'', ''Application segment 5''),
     (0xe6, ''APP6'', ''Application segment 6''),
     (0xe7, ''APP7'', ''Application segment 7''),
     (0xe8, ''APP8'', ''Application segment 8''),
     (0xe9, ''APP9'', ''Application segment 9''),
     (0xea, ''APP10'', ''Application segment 10''),
     (0xeb, ''APP11'', ''Application segment 11''),
     (0xec, ''APP12'', ''Application segment 12''),
     (0xed, ''APP13'', ''Application segment 13''),
     (0xee, ''APP14'', ''Application segment 14''),
     (0xef, ''APP15'', ''Application segment 15''),
     (0xf0, ''JPG0'', ''Extension 0''),
     (0xf1, ''JPG1'', ''Extension 1''),
     (0xf2, ''JPG2'', ''Extension 2''),
     (0xf3, ''JPG3'', ''Extension 3''),
     (0xf4, ''JPG4'', ''Extension 4''),
     (0xf5, ''JPG5'', ''Extension 5''),
     (0xf6, ''JPG6'', ''Extension 6''),
     (0xf7, ''JPG7'', ''Extension 7''),
     (0xf8, ''JPG8'', ''Extension 8''),
     (0xf9, ''JPG9'', ''Extension 9''),
     (0xfa, ''JPG10'', ''Extension 10''),
     (0xfb, ''JPG11'', ''Extension 11''),
     (0xfc, ''JPG12'', ''Extension 12''),
     (0xfd, ''JPG13'', ''Extension 13'')]"

text \<open>The last row of the C table has no name and no description; the loops stop there.\<close>

definition jpeg_marker_get_name :: "JPEGMarker \<Rightarrow> string option" where
  "jpeg_marker_get_name m = map_option fst (map_of JPEGMarkerTable m)"

definition jpeg_marker_get_description :: "JPEGMarker \<Rightarrow> string option" where
  "jpeg_marker_get_description m = map_option snd (map_of JPEGMarkerTable m)"

section \<open>State\<close>

text \<open>
  The content of a section is a union of a pointer to an \<open>ExifData\<close> and a pointer to bytes with their size,
  zero at first. Reading it as the kind that was not written is \<open>None\<close> unless the pointer is null.
\<close>

datatype JPEGContent = Zeroed | Generic cbuf u32 | App1 "nat option"

fun app1 :: "JPEGContent \<Rightarrow> nat option option" where
  "app1 (App1 p) = Some p"
| "app1 Zeroed = Some None"
| "app1 (Generic d n) = (if d = NULL then Some None else None)"

fun generic :: "JPEGContent \<Rightarrow> (cbuf \<times> u32) option" where
  "generic (Generic d n) = Some (d, n)"
| "generic Zeroed = Some (NULL, 0)"
| "generic (App1 p) = (if p = None then Some (NULL, 0) else None)"

record JPEGSection =
  js_marker :: JPEGMarker
  js_content :: JPEGContent

record JPEGData =
  jd_sections :: "JPEGSection list"
  jd_data :: cbuf
  jd_size :: u32
  jd_ref_count :: u32

text \<open>The \<open>ExifData\<close> objects with their reference counts, and the number of requests for memory so far.\<close>

record World =
  w_exif :: "nat \<rightharpoonup> ExifData \<times> u32"
  w_clock :: nat

definition w_alloc :: "alloc \<Rightarrow> nat \<Rightarrow> World \<Rightarrow> bool \<times> World" where
  "w_alloc al n w = (al (w_clock w) n, w\<lparr>w_clock := w_clock w + 1\<rparr>)"

definition exif_data_ref :: "nat option \<Rightarrow> World \<Rightarrow> World option" where
  "exif_data_ref p w =
    (case p of
       None \<Rightarrow> Some w
     | Some a \<Rightarrow> do { (data, n) \<leftarrow> w_exif w a; Some (w\<lparr>w_exif := (w_exif w)(a \<mapsto> (data, n + 1))\<rparr>) })"

definition exif_data_unref :: "nat option \<Rightarrow> World \<Rightarrow> World option" where
  "exif_data_unref p w =
    (case p of
       None \<Rightarrow> Some w
     | Some a \<Rightarrow>
         do { (data, n) \<leftarrow> w_exif w a;
              if n - 1 = 0 then do { s \<leftarrow> exif_data_free data; Some (w\<lparr>w_exif := (w_exif w)(a := None)\<rparr>) }
              else Some (w\<lparr>w_exif := (w_exif w)(a \<mapsto> (data, n - 1))\<rparr>) })"

definition jpeg_data_new :: "alloc \<Rightarrow> World \<Rightarrow> JPEGData option \<times> World" where
  "jpeg_data_new al w =
    (case w_alloc al 20 w of
       (False, w) \<Rightarrow> (None, w)
     | (True, w) \<Rightarrow>
         (case w_alloc al 8 w of
            (False, w) \<Rightarrow> (None, w)
          | (True, w) \<Rightarrow> (Some \<lparr>jd_sections = [], jd_data = NULL, jd_size = 0, jd_ref_count = 1\<rparr>, w)))"

definition jpeg_data_append_section :: "alloc \<Rightarrow> JPEGData \<times> World \<Rightarrow> JPEGData \<times> World" where
  "jpeg_data_append_section al = (\<lambda>(j, w).
    case w_alloc al (12 * (length (jd_sections j) + 1)) w of
      (False, w) \<Rightarrow> (j, w)
    | (True, w) \<Rightarrow> (j\<lparr>jd_sections := jd_sections j @ [\<lparr>js_marker = 0, js_content = Zeroed\<rparr>]\<rparr>, w))"

section \<open>Loading\<close>

text \<open>The number of bytes 0xff at \<open>p\<close>, at most \<open>n\<close>.\<close>

primrec ff_run :: "cbuf \<Rightarrow> nat \<Rightarrow> nat \<Rightarrow> nat option" where
  "ff_run d p 0 = Some 0"
| "ff_run d p (Suc n) = do { b \<leftarrow> rd d p; if b \<noteq> 0xff then Some 0 else do { i \<leftarrow> ff_run d (p + 1) n; Some (i + 1) } }"

definition set_last :: "(JPEGSection \<Rightarrow> JPEGSection) \<Rightarrow> JPEGData \<Rightarrow> JPEGData" where
  "set_last f j = j\<lparr>jd_sections := butlast (jd_sections j) @ [f (last (jd_sections j))]\<rparr>"

text \<open>
  The content of an APP1 section whose \<open>len\<close> bytes start at \<open>p\<close>: \<open>exif_data_load_data\<close> gets \<open>d + p - 4\<close>, where
  the marker should be; a pointer before the buffer is \<open>None\<close>.
\<close>

definition load_app1 :: "alloc \<Rightarrow> tm \<Rightarrow> cbuf \<Rightarrow> nat \<Rightarrow> u32 \<Rightarrow> JPEGData \<times> World \<Rightarrow> (JPEGData \<times> World) option" where
  "load_app1 al now d p len = (\<lambda>(j, w).
    if p < 4 then None
    else case exif_data_new al \<lparr>st_heap = Map.empty, st_clock = w_clock w\<rparr> of
      None \<Rightarrow> Some (set_last (\<lambda>s. s\<lparr>js_content := App1 None\<rparr>) j, w\<lparr>w_clock := w_clock w + 1\<rparr>)
    | Some data \<Rightarrow>
        do {
          data \<leftarrow> exif_data_load_data al now (ptr_add d (p - 4)) (len + 4) data;
          Some (set_last (\<lambda>s. s\<lparr>js_content := App1 (Some (w_clock w))\<rparr>) j,
                w\<lparr>w_exif := (w_exif w)(w_clock w \<mapsto> (data, 1)), w_clock := max (w_clock w + 1) (st_clock (ed_store data))\<rparr>) })"

text \<open>The image data behind a section of type SOS, from \<open>p\<close> on; the flag is \<open>False\<close> when the code returns.\<close>

definition load_scan :: "alloc \<Rightarrow> cbuf \<Rightarrow> u32 \<Rightarrow> nat \<Rightarrow> JPEGData \<times> World \<Rightarrow> (bool \<times> nat \<times> JPEGData \<times> World) option" where
  "load_scan al d ds p = (\<lambda>(j, w).
    do { let n = ds - of_nat p;
         n \<leftarrow> (if n \<ge> 2
              then do { b \<leftarrow> rd d (p + unat (n - 2)); Some (if b \<noteq> 0xff then n - 2 + 2 else n - 2) }
              else Some n);
         case w_alloc al (unat n) w of
           (False, w) \<Rightarrow> Some (False, p, j\<lparr>jd_data := NULL, jd_size := 0\<rparr>, w)
         | (True, w) \<Rightarrow>
             do { bs \<leftarrow> rd_range d p (unat n);
                  Some (True, p + unat n, j\<lparr>jd_data := Buf bs, jd_size := n\<rparr>, w) } })"

text \<open>A failed request leaves a null pointer and the size that was there.\<close>

fun no_bytes :: "JPEGContent \<Rightarrow> JPEGContent" where
  "no_bytes (Generic d n) = Generic NULL n"
| "no_bytes c = Generic NULL 0"

definition load_generic ::
  "alloc \<Rightarrow> cbuf \<Rightarrow> u32 \<Rightarrow> JPEGMarker \<Rightarrow> nat \<Rightarrow> u32 \<Rightarrow> JPEGData \<times> World \<Rightarrow> (bool \<times> nat \<times> JPEGData \<times> World) option" where
  "load_generic al d ds m p len = (\<lambda>(j, w).
    case w_alloc al (unat len) w of
      (False, w) \<Rightarrow> Some (False, p, set_last (\<lambda>s. s\<lparr>js_content := no_bytes (js_content s)\<rparr>) j, w)
    | (True, w) \<Rightarrow>
        do { bs \<leftarrow> rd_range d p (unat len);
             let j = set_last (\<lambda>s. s\<lparr>js_content := Generic (Buf bs) len\<rparr>) j;
             if m = JPEG_MARKER_SOS then load_scan al d ds (p + unat len) (j, w)
             else Some (True, p + unat len, j, w) })"

text \<open>The rest of a section whose marker was before \<open>p\<close>: the new position and whether the loop goes on.\<close>

definition load_section ::
  "alloc \<Rightarrow> tm \<Rightarrow> cbuf \<Rightarrow> u32 \<Rightarrow> JPEGMarker \<Rightarrow> nat \<Rightarrow> JPEGData \<times> World \<Rightarrow> (bool \<times> nat \<times> JPEGData \<times> World) option" where
  "load_section al now d ds m p jw =
    (if m = JPEG_MARKER_SOI \<or> m = JPEG_MARKER_EOI then Some (True, p, jw)
     else if 2 > ds - of_nat p then Some (True, unat ds, jw)
     else do {
       b1 \<leftarrow> rd d p;
       b0 \<leftarrow> rd d (p + 1);
       let len = ucast (join16 b1 b0) - 2;
       if len > ds then Some (True, unat ds, jw)
       else if len > ds - of_nat (p + 2) then Some (True, unat ds, jw)
       else if m = JPEG_MARKER_APP1
       then do { jw \<leftarrow> load_app1 al now d (p + 2) len jw; Some (True, p + 2 + unat len, jw) }
       else load_generic al d ds m (p + 2) len jw })"

lemma load_section_pos:
  assumes "load_section al now d ds m p jw = Some (go, q, jw')" and "p \<le> unat ds"
  shows "p \<le> q"
  using assms by (auto simp: load_section_def load_generic_def load_scan_def w_alloc_def Let_def
      split: if_splits bind_splits prod.splits bool.splits)

function load_sections :: "alloc \<Rightarrow> tm \<Rightarrow> cbuf \<Rightarrow> u32 \<Rightarrow> nat \<Rightarrow> JPEGData \<times> World \<Rightarrow> (JPEGData \<times> World) option" where
  "load_sections al now d ds p jw =
    (if p < unat ds
     then do {
       i \<leftarrow> ff_run d p (min 7 (unat ds - p));
       if i \<ge> unat ds - p then Some jw
       else do {
         m \<leftarrow> rd d (p + i);
         if \<not> JPEG_IS_MARKER m then Some jw
         else
           let (j, w) = jpeg_data_append_section al jw in
           if jd_sections j = [] then Some (j, w)
           else do {
             (go, q, jw) \<leftarrow> load_section al now d ds m (p + i + 1) (set_last (\<lambda>s. s\<lparr>js_marker := m\<rparr>) j, w);
             if go then load_sections al now d ds q jw else Some jw } } }
     else Some jw)"
  by pat_completeness auto
termination
  by (relation "measure (\<lambda>(al, now, d, ds, p, jw). unat ds - p)") (auto dest!: load_section_pos)

declare load_sections.simps [simp del]

definition jpeg_data_load_data :: "alloc \<Rightarrow> tm \<Rightarrow> cbuf \<Rightarrow> u32 \<Rightarrow> JPEGData option \<times> World \<Rightarrow> (JPEGData option \<times> World) option" where
  "jpeg_data_load_data al now d ds = (\<lambda>(p, w).
    case p of
      None \<Rightarrow> Some (None, w)
    | Some j \<Rightarrow>
        if d = NULL then Some (Some j, w)
        else do { (j, w) \<leftarrow> load_sections al now d ds 0 (j, w); Some (Some j, w) })"

definition jpeg_data_new_from_data :: "alloc \<Rightarrow> tm \<Rightarrow> cbuf \<Rightarrow> u32 \<Rightarrow> World \<Rightarrow> (JPEGData option \<times> World) option" where
  "jpeg_data_new_from_data al now d ds w = jpeg_data_load_data al now d ds (jpeg_data_new al w)"

section \<open>Saving\<close>

text \<open>
  \<open>jpeg_data_save_data\<close> and \<open>jpeg_data_save_data_no_copy\<close> are the same code, but for the macro
  \<open>CLEANUP_REALLOC\<close>, which the second has commented out. \<open>grow\<close> is that macro: a request for \<open>n\<close> bytes that,
  when it fails, frees the block and returns from the function (the flag is \<open>False\<close>).
\<close>

type_synonym grow = "u32 \<Rightarrow> Out \<Rightarrow> bool \<times> Out"

definition CLEANUP_REALLOC :: "alloc \<Rightarrow> grow" where
  "CLEANUP_REALLOC al n out =
    (case exif_mem_realloc al n out of (True, out) \<Rightarrow> (True, out) | (False, out) \<Rightarrow> (False, out\<lparr>o_d := NULL\<rparr>))"

definition no_realloc :: grow where
  "no_realloc n out = (True, out)"

text \<open>
  The pointer \<open>ed\<close> of the function: null, or the block that the last APP1 section freed. \<open>exif_data_save_data\<close> leaves it
  as it is when it is called with a null pointer.
\<close>

datatype ed_ptr = Ed_null | Ed_freed

definition save_bytes :: "bytes \<Rightarrow> Out \<Rightarrow> Out option" where
  "save_bytes bs out =
    do { d \<leftarrow> wr_range (o_d out) (unat (o_ds out)) bs; Some (out\<lparr>o_d := d, o_ds := o_ds out + of_nat (length bs)\<rparr>) }"

text \<open>The two bytes of a length, high byte first, at the end of the block.\<close>

definition save_length :: "u32 \<Rightarrow> Out \<Rightarrow> Out option" where
  "save_length n out =
    do { d \<leftarrow> wr (o_d out) (unat (o_ds out)) (byte_n 1 n);
         d \<leftarrow> wr d (unat (o_ds out) + 1) (byte_n 0 n);
         Some (out\<lparr>o_d := d, o_ds := o_ds out + 2\<rparr>) }"

definition save_app1 :: "alloc \<Rightarrow> grow \<Rightarrow> World \<Rightarrow> nat option \<Rightarrow> Out \<times> ed_ptr \<Rightarrow> (bool \<times> Out \<times> ed_ptr) option" where
  "save_app1 al grow w p = (\<lambda>(out, ed).
    case p of
      None \<Rightarrow> if ed = Ed_null then Some (True, out, ed) else None
    | Some a \<Rightarrow>
        do { (data, n) \<leftarrow> w_exif w a;
             (eb, eds) \<leftarrow> exif_data_save_data al data;
             if eb = NULL then Some (True, out, Ed_null)
             else case grow (o_ds out + 2) out of
               (False, out) \<Rightarrow> Some (False, out, ed)
             | (True, out) \<Rightarrow>
                 do { out \<leftarrow> save_length (eds + 2) out;
                      case grow (o_ds out + eds) out of
                        (False, out) \<Rightarrow> Some (False, out, ed)
                      | (True, out) \<Rightarrow>
                          do { bs \<leftarrow> rd_range eb 0 (unat eds);
                               out \<leftarrow> save_bytes bs out;
                               Some (True, out, Ed_freed) } } })"

definition save_generic :: "grow \<Rightarrow> JPEGData \<Rightarrow> JPEGMarker \<Rightarrow> cbuf \<Rightarrow> u32 \<Rightarrow> Out \<Rightarrow> (bool \<times> Out) option" where
  "save_generic grow j m g n out =
    (case grow (o_ds out + n + 2) out of
       (False, out) \<Rightarrow> Some (False, out)
     | (True, out) \<Rightarrow>
         do { out \<leftarrow> save_length (n + 2) out;
              bs \<leftarrow> rd_range g 0 (unat n);
              out \<leftarrow> save_bytes bs out;
              if m = JPEG_MARKER_SOS
              then case grow (o_ds out + jd_size j) out of
                (False, out) \<Rightarrow> Some (False, out)
              | (True, out) \<Rightarrow>
                  do { bs \<leftarrow> rd_range (jd_data j) 0 (unat (jd_size j));
                       out \<leftarrow> save_bytes bs out;
                       Some (True, out) }
              else Some (True, out) })"

definition save_section ::
  "alloc \<Rightarrow> grow \<Rightarrow> World \<Rightarrow> JPEGData \<Rightarrow> JPEGSection \<Rightarrow> Out \<times> ed_ptr \<Rightarrow> (bool \<times> Out \<times> ed_ptr) option" where
  "save_section al grow w j s = (\<lambda>(out, ed).
    case grow (o_ds out + 2) out of
      (False, out) \<Rightarrow> Some (False, out, ed)
    | (True, out) \<Rightarrow>
        do { out \<leftarrow> save_bytes [0xff, js_marker s] out;
             if js_marker s = JPEG_MARKER_SOI \<or> js_marker s = JPEG_MARKER_EOI then Some (True, out, ed)
             else if js_marker s = JPEG_MARKER_APP1
             then do { p \<leftarrow> app1 (js_content s); save_app1 al grow w p (out, ed) }
             else do { (g, n) \<leftarrow> generic (js_content s);
                       (go, out) \<leftarrow> save_generic grow j (js_marker s) g n out;
                       Some (go, out, ed) } })"

fun save_sections ::
  "alloc \<Rightarrow> grow \<Rightarrow> World \<Rightarrow> JPEGData \<Rightarrow> JPEGSection list \<Rightarrow> Out \<times> ed_ptr \<Rightarrow> Out option" where
  "save_sections al grow w j [] st = Some (fst st)"
| "save_sections al grow w j (s # ss) st =
    do { (go, st) \<leftarrow> save_section al grow w j s st;
         if go then save_sections al grow w j ss st else Some (fst st) }"

text \<open>\<open>*d\<close> is null at first, as in \<open>jpeg_data_save_file\<close>.\<close>

definition jpeg_data_save_data :: "alloc \<Rightarrow> JPEGData \<times> World \<Rightarrow> (cbuf \<times> u32) option" where
  "jpeg_data_save_data al = (\<lambda>(j, w).
    do { out \<leftarrow> save_sections al (CLEANUP_REALLOC al) w j (jd_sections j)
           (\<lparr>o_d = NULL, o_ds = 0, o_clock = w_clock w\<rparr>, Ed_null);
         Some (o_d out, o_ds out) })"

definition jpeg_data_save_data_no_copy :: "alloc \<Rightarrow> JPEGData \<times> World \<Rightarrow> cbuf \<Rightarrow> u32 \<Rightarrow> (cbuf \<times> u32) option" where
  "jpeg_data_save_data_no_copy al = (\<lambda>(j, w) d ds.
    if d = NULL then Some (NULL, ds)
    else do { out \<leftarrow> save_sections al no_realloc w j (jd_sections j)
                (\<lparr>o_d = d, o_ds = 0, o_clock = w_clock w\<rparr>, Ed_null);
              Some (o_d out, o_ds out) })"

section \<open>Clients\<close>

definition jpeg_data_ref :: "JPEGData option \<Rightarrow> JPEGData option" where
  "jpeg_data_ref p = map_option (\<lambda>j. j\<lparr>jd_ref_count := jd_ref_count j + 1\<rparr>) p"

definition free_section :: "JPEGSection \<Rightarrow> World \<Rightarrow> World option" where
  "free_section s w =
    (if js_marker s = JPEG_MARKER_SOI \<or> js_marker s = JPEG_MARKER_EOI then Some w
     else if js_marker s = JPEG_MARKER_APP1 then do { p \<leftarrow> app1 (js_content s); exif_data_unref p w }
     else do { (g, n) \<leftarrow> generic (js_content s); Some w })"

definition jpeg_data_free :: "JPEGData \<Rightarrow> World \<Rightarrow> World option" where
  "jpeg_data_free j = foldM free_section (jd_sections j)"

text \<open>\<open>None\<close> in place of the data is an object that has been freed.\<close>

definition jpeg_data_unref :: "JPEGData option \<times> World \<Rightarrow> (JPEGData option \<times> World) option" where
  "jpeg_data_unref = (\<lambda>(p, w).
    case p of
      None \<Rightarrow> Some (None, w)
    | Some j \<Rightarrow>
        if jd_ref_count j - 1 = 0 then do { w \<leftarrow> jpeg_data_free j w; Some (None, w) }
        else Some (Some (j\<lparr>jd_ref_count := jd_ref_count j - 1\<rparr>), w))"

text \<open>\<open>jpeg_data_get_section\<close> returns a pointer into the array: here the index.\<close>

fun section_index :: "JPEGMarker \<Rightarrow> JPEGSection list \<Rightarrow> nat option" where
  "section_index m [] = None"
| "section_index m (s # ss) = (if js_marker s = m then Some 0 else map_option Suc (section_index m ss))"

definition jpeg_data_get_section :: "JPEGData \<Rightarrow> JPEGMarker \<Rightarrow> nat option" where
  "jpeg_data_get_section j m = section_index m (jd_sections j)"

definition jpeg_data_get_exif_data :: "JPEGData \<times> World \<Rightarrow> (nat option \<times> World) option" where
  "jpeg_data_get_exif_data = (\<lambda>(j, w).
    case jpeg_data_get_section j JPEG_MARKER_APP1 of
      None \<Rightarrow> Some (None, w)
    | Some i \<Rightarrow> do { p \<leftarrow> app1 (js_content (jd_sections j ! i)); w \<leftarrow> exif_data_ref p w; Some (p, w) })"

text \<open>
  A new section goes behind the first one: the array grows at its end, and the sections from the second on are
  moved by one place. When the array could not be grown, the last section is overwritten by the one before it.
\<close>

definition set_section :: "nat \<Rightarrow> nat option \<Rightarrow> JPEGData \<Rightarrow> JPEGData" where
  "set_section i p j = j\<lparr>jd_sections := (jd_sections j)[i := \<lparr>js_marker = JPEG_MARKER_APP1, js_content = App1 p\<rparr>]\<rparr>"

definition jpeg_data_set_exif_data :: "alloc \<Rightarrow> nat option \<Rightarrow> JPEGData \<times> World \<Rightarrow> (JPEGData \<times> World) option" where
  "jpeg_data_set_exif_data al p = (\<lambda>(j, w).
    case jpeg_data_get_section j JPEG_MARKER_APP1 of
      None \<Rightarrow>
        let (j, w) = jpeg_data_append_section al (j, w); count = length (jd_sections j) in
        if count < 2 then Some (j, w)
        else
          let j = j\<lparr>jd_sections := take 2 (jd_sections j) @ take (count - 2) (drop 1 (jd_sections j))\<rparr>
          in do { w \<leftarrow> exif_data_ref p w; Some (set_section 1 p j, w) }
    | Some i \<Rightarrow>
        do { q \<leftarrow> app1 (js_content (jd_sections j ! i));
             w \<leftarrow> exif_data_unref q w;
             w \<leftarrow> exif_data_ref p w;
             Some (set_section i p j, w) })"

section \<open>The layout of a file\<close>

definition len2 :: "nat \<Rightarrow> bytes" where
  "len2 n = [byte_n 1 (of_nat n :: u32), byte_n 0 (of_nat n :: u32)]"

definition exif_at :: "World \<Rightarrow> nat \<Rightarrow> ExifData" where
  "exif_at w a = fst (the (w_exif w a))"

fun content_bytes :: "World \<Rightarrow> JPEGContent \<Rightarrow> bytes" where
  "content_bytes w (App1 p) = (case p of None \<Rightarrow> [] | Some a \<Rightarrow> file_bytes (exif_at w a))"
| "content_bytes w (Generic d n) = bbytes d"
| "content_bytes w Zeroed = []"

definition section_bytes :: "World \<Rightarrow> JPEGData \<Rightarrow> JPEGSection \<Rightarrow> bytes" where
  "section_bytes w j s =
    [0xff, js_marker s] @
    (if js_marker s = JPEG_MARKER_SOI \<or> js_marker s = JPEG_MARKER_EOI then []
     else len2 (length (content_bytes w (js_content s)) + 2) @ content_bytes w (js_content s) @
       (if js_marker s = JPEG_MARKER_SOS then bbytes (jd_data j) else []))"

definition jpeg_bytes :: "World \<Rightarrow> JPEGData \<Rightarrow> bytes" where
  "jpeg_bytes w j = concat (map (section_bytes w j) (jd_sections j))"

definition section_ok :: "World \<Rightarrow> JPEGSection \<Rightarrow> bool" where
  "section_ok w s \<longleftrightarrow>
    (if js_marker s = JPEG_MARKER_SOI \<or> js_marker s = JPEG_MARKER_EOI then True
     else if js_marker s = JPEG_MARKER_APP1
     then \<exists>a data n. js_content s = App1 (Some a) \<and> w_exif w a = Some (data, n) \<and> data_ok data
     else \<exists>bs. js_content s = Generic (Buf bs) (of_nat (length bs)))"

definition jpeg_ok :: "World \<Rightarrow> JPEGData \<Rightarrow> bool" where
  "jpeg_ok w j \<longleftrightarrow> (\<forall>s \<in> set (jd_sections j). section_ok w s) \<and> jd_size j = of_nat (blen (jd_data j))"

section \<open>The output block\<close>

text \<open>
  What saving needs of the block it writes to: \<open>st acc k out\<close> says that the bytes \<open>acc\<close> have been
  written and that there is room for \<open>k\<close> more. A block that is enlarged and the client's own block both do.
\<close>

locale out_block =
  fixes grow :: grow and st :: "bytes \<Rightarrow> nat \<Rightarrow> Out \<Rightarrow> bool" and limit :: nat
  assumes limit: "limit < 2 ^ 32"
    and st_ds: "st acc k out \<Longrightarrow> o_ds out = of_nat (length acc)"
    and st_buf: "st acc (Suc k) out \<Longrightarrow> \<exists>d. o_d out = Buf d"
    and st_limit: "st acc k out \<Longrightarrow> length acc \<le> limit"
    and grow_ok: "st acc 0 out \<Longrightarrow> length acc + k \<le> limit \<Longrightarrow>
      \<exists>out'. grow (of_nat (length acc) + of_nat k) out = (True, out') \<and> st acc k out'"
    and write_ok: "st acc (length bs + k) out \<Longrightarrow> \<exists>out'. save_bytes bs out = Some out' \<and> st (acc @ bs) k out'"
begin

lemma save_length_ok:
  assumes "st acc (k + 2) out"
  shows "\<exists>out'. save_length (of_nat n) out = Some out' \<and> st (acc @ len2 n) k out'"
proof -
  obtain d where d: "o_d out = Buf d" using st_buf [of acc "k + 1" out] assms by auto
  have "save_length (of_nat n) out = save_bytes (len2 n) out"
  proof -
    have "wr (Buf d) p x \<bind> (\<lambda>b. wr b (p + 1) y \<bind> h) = wr_range (Buf d) p [x, y] \<bind> h" for p x y and h :: "cbuf \<Rightarrow> Out option"
      using wr2_eq_wr_range [of d p x y h] by simp
    then show ?thesis unfolding save_length_def save_bytes_def len2_def d by (simp add: d)
  qed
  moreover have "st acc (length (len2 n) + k) out" using assms by (simp add: len2_def add.commute)
  ultimately show ?thesis using write_ok [of acc "len2 n" k out] by auto
qed

lemma save_app1_ok:
  assumes "plenty al" and "w_exif w a = Some (data, n)" and "data_ok data"
    and "st acc 0 out" and "length acc + (length (file_bytes data) + 2) \<le> limit"
  shows "\<exists>out'. save_app1 al grow w (Some a) (out, ed) = Some (True, out', Ed_freed) \<and>
     st (acc @ len2 (length (file_bytes data) + 2) @ file_bytes data) 0 out'"
proof -
  let ?f = "file_bytes data"
  have l: "length ?f + 2 < 2 ^ 32" "length acc + 2 \<le> limit" using assms(5) limit by simp_all
  have save: "exif_data_save_data al data = Some (Buf ?f, of_nat (length ?f))"
    using l by (intro save_data_eq [OF assms(1,3)]) simp
  obtain out1 where o1: "grow (o_ds out + 2) out = (True, out1)" "st acc 2 out1"
    using grow_ok [OF assms(4) l(2)] st_ds [OF assms(4)] by auto
  obtain out2 where o2: "save_length (of_nat (length ?f) + 2) out1 = Some out2" "st (acc @ len2 (length ?f + 2)) 0 out2"
    using save_length_ok [of acc 0 out1 "length ?f + 2"] o1(2) by (auto simp: numeral_2_eq_2 add.commute)
  have "length (acc @ len2 (length ?f + 2)) + length ?f \<le> limit" using assms(5) by (simp add: len2_def)
  then obtain out3 where o3: "grow (o_ds out2 + of_nat (length ?f)) out2 = (True, out3)" "st (acc @ len2 (length ?f + 2)) (length ?f) out3"
    using grow_ok [OF o2(2)] st_ds [OF o2(2)] by auto
  obtain out4 where o4: "save_bytes ?f out3 = Some out4" "st ((acc @ len2 (length ?f + 2)) @ ?f) 0 out4"
    using write_ok [of "acc @ len2 (length ?f + 2)" ?f 0 out3] o3(2) by auto
  have uf: "unat (of_nat (length ?f) :: u32) = length ?f" using l by (simp add: unat_word_of_nat_32)
  have "save_app1 al grow w (Some a) (out, ed) = Some (True, out4, Ed_freed)"
    by (simp add: save_app1_def assms(2) save o1(1) o2(1) o3(1) o4(1) uf)
  then show ?thesis using o4(2) by simp
qed

lemma save_generic_ok:
  assumes "jd_size j = of_nat (blen (jd_data j))" and "st acc 0 out"
    and "length acc + (length bs + 2) + (if m = JPEG_MARKER_SOS then blen (jd_data j) else 0) \<le> limit"
  shows "\<exists>out'. save_generic grow j m (Buf bs) (of_nat (length bs)) out = Some (True, out') \<and>
     st (acc @ len2 (length bs + 2) @ bs @ (if m = JPEG_MARKER_SOS then bbytes (jd_data j) else [])) 0 out'"
proof -
  have l: "length bs < 2 ^ 32" "length acc + (length bs + 2) \<le> limit" using assms(3) limit by simp_all
  obtain out1 where o1: "grow (o_ds out + of_nat (length bs) + 2) out = (True, out1)" "st acc (length bs + 2) out1"
    using grow_ok [OF assms(2) l(2)] st_ds [OF assms(2)] by (auto simp: algebra_simps)
  obtain out2 where o2: "save_length (of_nat (length bs) + 2) out1 = Some out2" "st (acc @ len2 (length bs + 2)) (length bs) out2"
    using save_length_ok [of acc "length bs" out1 "length bs + 2"] o1(2) by (auto simp: add.commute)
  obtain out3 where o3: "save_bytes bs out2 = Some out3" "st ((acc @ len2 (length bs + 2)) @ bs) 0 out3"
    using write_ok [of "acc @ len2 (length bs + 2)" bs 0 out2] o2(2) by auto
  have ub: "unat (of_nat (length bs) :: u32) = length bs" using l by (simp add: unat_word_of_nat_32)
  show ?thesis
  proof (cases "m = JPEG_MARKER_SOS")
    case False
    then show ?thesis using o3(2) by (simp add: save_generic_def o1(1) o2(1) o3(1) ub)
  next
    case True
    let ?n = "blen (jd_data j)"
    have bl: "length (bbytes (jd_data j)) = ?n" by (cases "jd_data j") simp_all
    have sz: "unat (jd_size j) = ?n" using assms(1,3) limit True by (simp add: unat_word_of_nat_32)
    have "length ((acc @ len2 (length bs + 2)) @ bs) + ?n \<le> limit" using assms(3) True by (simp add: len2_def)
    then obtain out4 where o4: "grow (o_ds out3 + jd_size j) out3 = (True, out4)" "st ((acc @ len2 (length bs + 2)) @ bs) ?n out4"
      using grow_ok [OF o3(2)] st_ds [OF o3(2)] assms(1) by auto
    have rd: "rd_range (jd_data j) 0 (unat (jd_size j)) = Some (bbytes (jd_data j))" using sz by (cases "jd_data j") simp_all
    obtain out5 where o5: "save_bytes (bbytes (jd_data j)) out4 = Some out5"
        "st (((acc @ len2 (length bs + 2)) @ bs) @ bbytes (jd_data j)) 0 out5"
      using write_ok [of "(acc @ len2 (length bs + 2)) @ bs" "bbytes (jd_data j)" 0 out4] o4(2) bl by auto
    have "save_generic grow j m (Buf bs) (of_nat (length bs)) out = Some (True, out5)"
      using True by (simp add: save_generic_def o1(1) o2(1) o3(1) ub o4(1) rd o5(1) del: rd_range.simps(1))
    then show ?thesis using o5(2) True by simp
  qed
qed

lemma save_section_ok:
  assumes "plenty al" and "section_ok w s" and "jd_size j = of_nat (blen (jd_data j))"
    and "st acc 0 out" and "length acc + length (section_bytes w j s) \<le> limit"
  shows "\<exists>out' ed'. save_section al grow w j s (out, ed) = Some (True, out', ed') \<and> st (acc @ section_bytes w j s) 0 out'"
proof -
  let ?m = "js_marker s" and ?b = "content_bytes w (js_content s)"
  have two: "2 \<le> length (section_bytes w j s)" by (simp add: section_bytes_def)
  obtain out1 where o1: "grow (o_ds out + 2) out = (True, out1)" "st acc 2 out1"
    using grow_ok [OF assms(4), of 2] st_ds [OF assms(4)] assms(5) two by auto
  obtain out2 where o2: "save_bytes [0xff, ?m] out1 = Some out2" "st (acc @ [0xff, ?m]) 0 out2"
    using write_ok [of acc "[0xff, ?m]" 0 out1] o1(2) by (auto simp: numeral_2_eq_2)
  have bl: "length (bbytes (jd_data j)) = blen (jd_data j)" by (cases "jd_data j") simp_all
  have l2: "length (len2 n) = 2" for n by (simp add: len2_def)
  consider (mark) "?m = JPEG_MARKER_SOI \<or> ?m = JPEG_MARKER_EOI" | (app1) "?m = JPEG_MARKER_APP1"
    | (generic) "\<not> (?m = JPEG_MARKER_SOI \<or> ?m = JPEG_MARKER_EOI)" "?m \<noteq> JPEG_MARKER_APP1" by blast
  then show ?thesis
  proof cases
    case mark
    then show ?thesis using o2 o1(1) by (auto simp: save_section_def section_bytes_def)
  next
    case app1
    obtain a data n where c: "js_content s = App1 (Some a)" "w_exif w a = Some (data, n)" "data_ok data"
      using assms(2) app1 by (auto simp: section_ok_def)
    have sb: "section_bytes w j s = [0xff, ?m] @ len2 (length (file_bytes data) + 2) @ file_bytes data"
      using app1 c by (simp add: section_bytes_def exif_at_def)
    have "length (acc @ [0xff, ?m]) + (length (file_bytes data) + 2) \<le> limit" using assms(5) by (simp add: sb l2)
    then obtain out3 where "save_app1 al grow w (Some a) (out2, ed) = Some (True, out3, Ed_freed)"
        "st ((acc @ [0xff, ?m]) @ len2 (length (file_bytes data) + 2) @ file_bytes data) 0 out3"
      using save_app1_ok [OF assms(1) c(2,3) o2(2)] by blast
    then show ?thesis using app1 o1(1) o2(1) c(1) by (simp add: save_section_def sb)
  next
    case generic
    obtain bs where c: "js_content s = Generic (Buf bs) (of_nat (length bs))" using assms(2) generic by (auto simp: section_ok_def)
    have sb: "section_bytes w j s = [0xff, ?m] @ len2 (length bs + 2) @ bs @ (if ?m = JPEG_MARKER_SOS then bbytes (jd_data j) else [])"
      using generic c by (simp add: section_bytes_def)
    have "length (acc @ [0xff, ?m]) + (length bs + 2) + (if ?m = JPEG_MARKER_SOS then blen (jd_data j) else 0) \<le> limit"
      using assms(5) unfolding sb by (cases "?m = JPEG_MARKER_SOS") (simp_all add: l2 bl)
    then obtain out3 where "save_generic grow j ?m (Buf bs) (of_nat (length bs)) out2 = Some (True, out3)"
        "st ((acc @ [0xff, ?m]) @ len2 (length bs + 2) @ bs @ (if ?m = JPEG_MARKER_SOS then bbytes (jd_data j) else [])) 0 out3"
      using save_generic_ok [OF assms(3) o2(2), of bs ?m] by blast
    then show ?thesis using generic o1(1) o2(1) c by (simp add: save_section_def sb)
  qed
qed

lemma save_sections_ok:
  assumes "plenty al" and "\<forall>s \<in> set ss. section_ok w s" and "jd_size j = of_nat (blen (jd_data j))"
    and "st acc 0 out" and "length acc + length (concat (map (section_bytes w j) ss)) \<le> limit"
  shows "\<exists>out'. save_sections al grow w j ss (out, ed) = Some out' \<and> st (acc @ concat (map (section_bytes w j) ss)) 0 out'"
  using assms(2,4,5)
proof (induction ss arbitrary: acc out ed)
  case Nil
  then show ?case by simp
next
  case (Cons s ss)
  obtain out1 ed1 where o1: "save_section al grow w j s (out, ed) = Some (True, out1, ed1)" "st (acc @ section_bytes w j s) 0 out1"
    using save_section_ok [OF assms(1) _ assms(3), of w s acc out ed] Cons.prems by auto
  then show ?case using Cons.IH [OF _ o1(2), of ed1] Cons.prems by auto
qed

end

text \<open>The block that \<open>CLEANUP_REALLOC\<close> enlarges is exactly as long as what has been asked for.\<close>

definition grown :: "bytes \<Rightarrow> nat \<Rightarrow> Out \<Rightarrow> bool" where
  "grown acc k out \<longleftrightarrow> o_ds out = of_nat (length acc) \<and> length acc + k < 2 ^ 32 \<and>
     (if o_d out = NULL then acc = [] \<and> k = 0 else length (bbytes (o_d out)) = length acc + k \<and> take (length acc) (bbytes (o_d out)) = acc)"

lemma grown_write:
  assumes "grown acc (length bs + k) out"
  shows "\<exists>out'. save_bytes bs out = Some out' \<and> grown (acc @ bs) k out'"
proof (cases "o_d out")
  case NULL
  then show ?thesis using assms by (auto simp: grown_def save_bytes_def)
next
  case (Buf b)
  have u: "unat (o_ds out) = length acc" and b: "length b = length acc + (length bs + k)" "take (length acc) b = acc"
    using assms Buf by (auto simp: grown_def unat_word_of_nat_32)
  then show ?thesis using assms Buf by (auto simp: save_bytes_def grown_def)
qed

interpretation realloc: out_block "CLEANUP_REALLOC mem_ok" grown "2 ^ 32 - 1"
proof (unfold_locales, goal_cases)
  case 1
  show ?case by simp
next
  case (2 acc k out)
  then show ?case by (simp add: grown_def)
next
  case (3 acc k out)
  then show ?case by (cases "o_d out") (auto simp: grown_def)
next
  case (4 acc k out)
  then show ?case by (auto simp: grown_def)
next
  case (5 acc out k)
  let ?n = "of_nat (length acc) + of_nat k :: u32"
  have n: "unat ?n = length acc + k" using 5(2) by (simp flip: of_nat_add add: unat_word_of_nat_32)
  have "grown acc k (out\<lparr>o_clock := o_clock out + 1, o_d := Buf (take (unat ?n) (bbytes (o_d out)) @ replicate (unat ?n - blen (o_d out)) 0)\<rparr>)"
    using 5 n by (cases "o_d out") (auto simp: grown_def)
  then show ?case by (simp add: CLEANUP_REALLOC_def exif_mem_realloc_def mem_ok_def Let_def)
next
  case (6 acc bs k out)
  then show ?case by (rule grown_write)
qed

text \<open>The client's block keeps its length, and what is behind the output stays.\<close>

definition filled :: "bytes \<Rightarrow> bytes \<Rightarrow> nat \<Rightarrow> Out \<Rightarrow> bool" where
  "filled b acc k out \<longleftrightarrow> length b < 2 ^ 32 \<and> o_ds out = of_nat (length acc) \<and> o_d out = Buf (acc @ drop (length acc) b) \<and>
     length acc + k \<le> length b"

lemma filled_write:
  assumes "filled b acc (length bs + k) out"
  shows "\<exists>out'. save_bytes bs out = Some out' \<and> filled b (acc @ bs) k out'"
proof -
  have "unat (o_ds out) = length acc" using assms by (simp add: filled_def unat_word_of_nat_32)
  then show ?thesis using assms by (simp add: filled_def save_bytes_def add.commute)
qed

interpretation own: out_block no_realloc "filled b" "if length b < 2 ^ 32 then length b else 0" for b
proof (unfold_locales, goal_cases)
  case (6 acc bs k out)
  then show ?case by (rule filled_write)
qed (auto simp: filled_def no_realloc_def split: if_splits)

text \<open>
  Saving writes the sections one behind the other: each with its marker, a length in two bytes and its content, the EXIF
  data as the EXIF library writes them, and the image data behind the start of the scan. The block is exactly as long.
\<close>

lemma jpeg_save_eq:
  assumes "plenty al" and "jpeg_ok w j" and "jd_sections j \<noteq> []" and "length (jpeg_bytes w j) < 2 ^ 32"
  shows "jpeg_data_save_data al (j, w) = Some (Buf (jpeg_bytes w j), of_nat (length (jpeg_bytes w j)))"
proof -
  have al: "al = mem_ok" using assms(1) by (simp add: plenty_mem_ok)
  let ?out = "\<lparr>o_d = NULL, o_ds = 0, o_clock = w_clock w\<rparr>"
  have "grown [] 0 ?out" by (simp add: grown_def)
  then obtain out where out: "save_sections mem_ok (CLEANUP_REALLOC mem_ok) w j (jd_sections j) (?out, Ed_null) = Some out"
      "grown (jpeg_bytes w j) 0 out"
    using realloc.save_sections_ok [of mem_ok "jd_sections j" w j "[]" ?out Ed_null] assms
    unfolding al jpeg_bytes_def jpeg_ok_def by auto
  have "jpeg_bytes w j \<noteq> []" using assms(3) by (cases "jd_sections j") (auto simp: jpeg_bytes_def section_bytes_def)
  then have "o_d out = Buf (jpeg_bytes w j)" using out(2) by (cases "o_d out") (auto simp: grown_def)
  then show ?thesis using out by (simp add: jpeg_data_save_data_def al grown_def)
qed

text \<open>
  C20. The routine that saves into the caller's block writes the same bytes as the one that allocates, provided
  the block is long enough, and leaves the rest of the block as it is.
\<close>

theorem no_copy_saves_the_same:
  assumes "plenty al" and "jpeg_ok w j" and "jd_sections j \<noteq> []"
    and "length (jpeg_bytes w j) \<le> length b" and "length b < 2 ^ 32"
  shows "\<exists>f n. jpeg_data_save_data al (j, w) = Some (Buf f, n) \<and> length f = unat n \<and>
    jpeg_data_save_data_no_copy al (j, w) (Buf b) ds = Some (Buf (f @ drop (unat n) b), n)"
proof -
  let ?f = "jpeg_bytes w j" and ?out = "\<lparr>o_d = Buf b, o_ds = 0, o_clock = w_clock w\<rparr>"
  have n: "unat (of_nat (length ?f) :: u32) = length ?f" using assms(4,5) by (simp add: unat_word_of_nat_32)
  have "filled b [] 0 ?out" using assms(5) by (simp add: filled_def)
  then obtain out where out: "save_sections al no_realloc w j (jd_sections j) (?out, Ed_null) = Some out" "filled b ?f 0 out"
    using own.save_sections_ok [of al "jd_sections j" w j b "[]" ?out Ed_null] assms unfolding jpeg_bytes_def jpeg_ok_def by auto
  have "jpeg_data_save_data_no_copy al (j, w) (Buf b) ds = Some (Buf (?f @ drop (length ?f) b), of_nat (length ?f))"
    using out by (simp add: jpeg_data_save_data_no_copy_def filled_def)
  then show ?thesis
    using jpeg_save_eq [OF assms(1-3)] assms(4,5) n by (intro exI [of _ ?f] exI [of _ "of_nat (length ?f)"]) simp
qed

text \<open>A small file: EXIF data, a quantisation table, a scan of four bytes.\<close>

definition sample_world :: World where
  "sample_world = \<lparr>w_exif = [0 \<mapsto> (sample_data, 1)], w_clock = 1\<rparr>"

definition sample_jpeg :: JPEGData where
  "sample_jpeg = \<lparr>jd_sections = [\<lparr>js_marker = JPEG_MARKER_SOI, js_content = Zeroed\<rparr>, \<lparr>js_marker = JPEG_MARKER_APP1, js_content = App1 (Some 0)\<rparr>,
       \<lparr>js_marker = 0xdb, js_content = Generic (Buf [1, 2, 3]) 3\<rparr>, \<lparr>js_marker = JPEG_MARKER_SOS, js_content = Generic (Buf [7, 8]) 2\<rparr>,
       \<lparr>js_marker = JPEG_MARKER_EOI, js_content = Zeroed\<rparr>],
     jd_data = Buf [9, 9, 0xff, 0], jd_size = 4, jd_ref_count = 1\<rparr>"

lemma sample_jpeg_length: "length (jpeg_bytes sample_world sample_jpeg) = 156"
  by (simp add: jpeg_bytes_def sample_jpeg_def section_bytes_def len2_def exif_at_def sample_world_def sample_length)

lemma sample_jpeg_ok: "jpeg_ok sample_world sample_jpeg"
  using sample_data_ok by (simp add: jpeg_ok_def section_ok_def sample_jpeg_def sample_world_def)

theorem no_copy_saves_the_same_witness:
  "\<exists>f n. jpeg_data_save_data mem_ok (sample_jpeg, sample_world) = Some (Buf f, n) \<and> length f = unat n \<and>
    jpeg_data_save_data_no_copy mem_ok (sample_jpeg, sample_world) (Buf (replicate 200 7)) 0 = Some (Buf (f @ drop (unat n) (replicate 200 7)), n)"
proof (rule no_copy_saves_the_same)
  show "plenty mem_ok" by (simp add: plenty_mem_ok)
  show "jpeg_ok sample_world sample_jpeg" by (rule sample_jpeg_ok)
  show "jd_sections sample_jpeg \<noteq> []" by (simp add: sample_jpeg_def)
qed (simp_all add: sample_jpeg_length)

section \<open>Setting and getting the EXIF data\<close>

lemma section_index_spec:
  "section_index m ss = None \<longleftrightarrow> m \<notin> js_marker ` set ss"
  "section_index m ss = Some i \<Longrightarrow> i < length ss \<and> js_marker (ss ! i) = m \<and> (\<forall>k < i. js_marker (ss ! k) \<noteq> m)"
proof (induction ss arbitrary: i)
  case (Cons s ss)
  {
    case 1
    then show ?case using Cons.IH(1) by auto
  next
    case 2
    then show ?case
    proof (cases "js_marker s = m")
      case False
      with 2 obtain k where k: "section_index m ss = Some k" "i = Suc k" by auto
      have "js_marker ((s # ss) ! j) \<noteq> m" if "j < i" for j
        using Cons.IH(2) [OF k(1)] False that k(2) by (cases j) auto
      then show ?thesis using Cons.IH(2) [OF k(1)] k(2) by auto
    qed auto
  }
qed simp_all

lemma section_index_at:
  assumes "i < length ss" and "js_marker (ss ! i) = m" and "\<forall>k < i. js_marker (ss ! k) \<noteq> m"
  shows "section_index m ss = Some i"
proof -
  have "section_index m ss \<noteq> None" using assms(1,2) nth_mem section_index_spec(1) by fastforce
  then obtain k where k: "section_index m ss = Some k" by auto
  then have "k = i" using section_index_spec(2) [OF k] assms by (metis linorder_neqE_nat)
  with k show ?thesis by simp
qed

lemma filter_update:
  assumes "i < length xs" and "\<not> P (xs ! i)" and "\<not> P y"
  shows "filter P (xs[i := y]) = filter P xs"
proof -
  have "xs = take i xs @ xs ! i # drop (Suc i) xs" using assms(1) by (simp add: id_take_nth_drop)
  then have "filter P xs = filter P (take i xs) @ filter P (drop (Suc i) xs)" using assms(2) by (metis filter.simps(2) filter_append)
  then show ?thesis using assms(1,3) by (simp add: upd_conv_take_nth_drop)
qed

text \<open>The EXIF data that the file owns so far: none, or an object that is not the new one.\<close>

definition old_exif_ok :: "World \<Rightarrow> nat \<Rightarrow> JPEGSection \<Rightarrow> bool" where
  "old_exif_ok w a s \<longleftrightarrow> (\<exists>q. js_content s = App1 q \<and> (\<forall>b. q = Some b \<longrightarrow> b \<noteq> a \<and> (\<exists>d n. w_exif w b = Some (d, n) \<and> data_ok d)))"

lemma unref_old:
  assumes "old_exif_ok w a s"
  shows "\<exists>q w'. app1 (js_content s) = Some q \<and> exif_data_unref q w = Some w' \<and> w_exif w' a = w_exif w a"
proof -
  obtain q where q: "js_content s = App1 q" "\<forall>b. q = Some b \<longrightarrow> b \<noteq> a \<and> (\<exists>d n. w_exif w b = Some (d, n) \<and> data_ok d)"
    using assms by (auto simp: old_exif_ok_def)
  have "\<exists>w'. exif_data_unref q w = Some w' \<and> w_exif w' a = w_exif w a"
  proof (cases q)
    case (Some b)
    then obtain d n where b: "b \<noteq> a" "w_exif w b = Some (d, n)" "data_ok d" using q(2) by blast
    obtain s where "exif_data_free d = Some s" using exif_data_free_ok [OF b(3)] by blast
    then show ?thesis using b Some by (simp add: exif_data_unref_def)
  qed (simp add: exif_data_unref_def)
  then show ?thesis using q(1) by auto
qed

lemma ref_at: "w_exif w a = Some (data, n) \<Longrightarrow> exif_data_ref (Some a) w = Some (w\<lparr>w_exif := (w_exif w)(a \<mapsto> (data, n + 1))\<rparr>)"
  by (simp add: exif_data_ref_def)

text \<open>
  C21. Setting the EXIF data of a JPEG file and getting them back returns the same object, with a reference for the
  file and one for the caller. An APP1 section that is there already gives up its old object and is used again;
  otherwise a new section appears right behind the first one. All other sections stay, in their order.
\<close>

theorem jpeg_set_get_exif:
  assumes "plenty al" and "jd_sections j \<noteq> []" and "js_marker (hd (jd_sections j)) \<noteq> JPEG_MARKER_APP1"
    and "w_exif w a = Some (data, n)" and "\<forall>s \<in> set (jd_sections j). js_marker s = JPEG_MARKER_APP1 \<longrightarrow> old_exif_ok w a s"
  shows "\<exists>j' w' w''. jpeg_data_set_exif_data al (Some a) (j, w) = Some (j', w') \<and>
    jpeg_data_get_exif_data (j', w') = Some (Some a, w'') \<and> w_exif w'' a = Some (data, n + 2) \<and>
    filter (\<lambda>s. js_marker s \<noteq> JPEG_MARKER_APP1) (jd_sections j') = filter (\<lambda>s. js_marker s \<noteq> JPEG_MARKER_APP1) (jd_sections j) \<and>
    (JPEG_MARKER_APP1 \<notin> js_marker ` set (jd_sections j) \<longrightarrow>
       jd_sections j' = hd (jd_sections j) # \<lparr>js_marker = JPEG_MARKER_APP1, js_content = App1 (Some a)\<rparr> # tl (jd_sections j))"
proof -
  let ?s = "\<lparr>js_marker = JPEG_MARKER_APP1, js_content = App1 (Some a)\<rparr>"
  have two: "n + 1 + 1 = n + 2" by simp
  show ?thesis
  proof (cases "section_index JPEG_MARKER_APP1 (jd_sections j)")
    case None
    obtain s ss where j: "jd_sections j = s # ss" using assms(2) by (cases "jd_sections j") auto
    let ?w = "w\<lparr>w_clock := w_clock w + 1\<rparr>"
    let ?z = "\<lparr>js_marker = 0, js_content = Zeroed\<rparr>"
    have no: "JPEG_MARKER_APP1 \<notin> js_marker ` set (s # ss)" using None section_index_spec(1) j by metis
    have ap: "jpeg_data_append_section al (j, w) = (j\<lparr>jd_sections := (s # ss) @ [?z]\<rparr>, ?w)"
      using assms(1) by (simp add: jpeg_data_append_section_def w_alloc_def plenty_def j)
    have mv: "(take 2 ((s # ss) @ [?z]) @ take (length ((s # ss) @ [?z]) - 2) (drop 1 ((s # ss) @ [?z])))[1 := ?s] = s # ?s # ss"
      by (cases ss) auto
    let ?j = "j\<lparr>jd_sections := s # ?s # ss\<rparr>" and ?w1 = "?w\<lparr>w_exif := (w_exif w)(a \<mapsto> (data, n + 1))\<rparr>"
    have set: "jpeg_data_set_exif_data al (Some a) (j, w) = Some (?j, ?w1)"
      unfolding jpeg_data_set_exif_data_def prod.case jpeg_data_get_section_def None option.case ap Let_def
      using mv ref_at [of ?w a data n] assms(4) by (simp add: set_section_def)
    have ix: "section_index JPEG_MARKER_APP1 (s # ?s # ss) = Some 1" using no by simp
    have get: "jpeg_data_get_exif_data (?j, ?w1) = Some (Some a, ?w1\<lparr>w_exif := (w_exif ?w1)(a \<mapsto> (data, n + 1 + 1))\<rparr>)"
      using ref_at [of ?w1 a data "n + 1"] by (simp add: jpeg_data_get_exif_data_def jpeg_data_get_section_def ix del: section_index.simps)
    show ?thesis using set get j by (intro exI [of _ ?j] exI [of _ ?w1] exI conjI) (auto simp: two)
  next
    case (Some i)
    note i = section_index_spec(2) [OF Some]
    then have "old_exif_ok w a (jd_sections j ! i)" using assms(5) by simp
    then obtain q w1 where q: "app1 (js_content (jd_sections j ! i)) = Some q" "exif_data_unref q w = Some w1" "w_exif w1 a = Some (data, n)"
      using unref_old [of w a "jd_sections j ! i"] assms(4) by auto
    let ?j = "j\<lparr>jd_sections := (jd_sections j)[i := ?s]\<rparr>" and ?w2 = "w1\<lparr>w_exif := (w_exif w1)(a \<mapsto> (data, n + 1))\<rparr>"
    have set: "jpeg_data_set_exif_data al (Some a) (j, w) = Some (?j, ?w2)"
      unfolding jpeg_data_set_exif_data_def prod.case jpeg_data_get_section_def Some option.case q(1) Option.bind.simps q(2) ref_at [OF q(3)]
      by (simp add: set_section_def)
    have ix: "section_index JPEG_MARKER_APP1 ((jd_sections j)[i := ?s]) = Some i"
      using i by (intro section_index_at) auto
    have get: "jpeg_data_get_exif_data (?j, ?w2) = Some (Some a, ?w2\<lparr>w_exif := (w_exif ?w2)(a \<mapsto> (data, n + 1 + 1))\<rparr>)"
      using ref_at [of ?w2 a data "n + 1"] i by (simp add: jpeg_data_get_exif_data_def jpeg_data_get_section_def ix)
    have fl: "filter (\<lambda>s. js_marker s \<noteq> JPEG_MARKER_APP1) ((jd_sections j)[i := ?s]) = filter (\<lambda>s. js_marker s \<noteq> JPEG_MARKER_APP1) (jd_sections j)"
      using i by (intro filter_update) auto
    have "JPEG_MARKER_APP1 \<in> js_marker ` set (jd_sections j)" using i nth_mem by fastforce
    then show ?thesis using set get fl by (intro exI [of _ ?j] exI [of _ ?w2] exI conjI) (auto simp: two)
  qed
qed

theorem jpeg_set_get_exif_witness:
  "\<exists>j' w' w''. jpeg_data_set_exif_data mem_ok (Some 1) (sample_jpeg, sample_world\<lparr>w_exif := (w_exif sample_world)(1 \<mapsto> (new_data, 1))\<rparr>) = Some (j', w') \<and>
    jpeg_data_get_exif_data (j', w') = Some (Some 1, w'') \<and> w_exif w'' 1 = Some (new_data, 3)"
proof -
  let ?w = "sample_world\<lparr>w_exif := (w_exif sample_world)(1 \<mapsto> (new_data, 1))\<rparr>"
  have "\<forall>s \<in> set (jd_sections sample_jpeg). js_marker s = JPEG_MARKER_APP1 \<longrightarrow> old_exif_ok ?w 1 s"
    using sample_data_ok by (simp add: sample_jpeg_def old_exif_ok_def sample_world_def)
  moreover have "jd_sections sample_jpeg \<noteq> []" "js_marker (hd (jd_sections sample_jpeg)) \<noteq> JPEG_MARKER_APP1" by (simp_all add: sample_jpeg_def)
  moreover have "w_exif ?w 1 = Some (new_data, 1)" "plenty mem_ok" by (simp_all add: plenty_mem_ok)
  ultimately show ?thesis using jpeg_set_get_exif [of mem_ok sample_jpeg ?w 1 new_data 1] by auto
qed

end
