(* ===== verification/Exif_Roundtrip.thy ===== *)
theory Exif_Roundtrip
  imports Exif_Save
begin

text \<open>
  Saving and loading fit together: what \<open>exif_data_save_data\<close> writes, the loader of
  \<^verbatim>\<open>exif-data.c\<close> reads back. A directory is seen here as the map from tags to formats, counts and
  data that a lookup in it is; the loader fills these maps one record at a time, in the order in
  which the records were sorted.
\<close>

section \<open>The maps that the directories are\<close>

definition view :: "ExifData \<Rightarrow> nat \<Rightarrow> u16 \<Rightarrow> (ExifFormat \<times> u32 \<times> cbuf) option" where
  "view data i = lookup_tag (ed_ifd data ! i, ed_store data)"

definition same_thumb :: "ExifData \<Rightarrow> ExifData \<Rightarrow> bool" where
  "same_thumb data data' \<longleftrightarrow> ed_data data' = ed_data data \<and> ed_size data' = ed_size data"

lemma data_okD:
  assumes "data_ok data" and "i < EXIF_IFD_COUNT"
  shows "content_ok i (ed_ifd data ! i, ed_store data)" "length (ed_ifd data) = EXIF_IFD_COUNT"
    "set (c_entries (ed_ifd data ! i)) \<subseteq> dom (st_heap (ed_store data))"
    "\<forall>a \<in> dom (st_heap (ed_store data)). a < st_clock (ed_store data)"
  using assms ifds_okD(4) unfolding data_ok_def by (auto simp: ifds_ok_def)

lemma view_None_iff: "data_ok data \<Longrightarrow> i < EXIF_IFD_COUNT \<Longrightarrow> view data i t = None \<longleftrightarrow> t \<notin> tags (ed_ifd data ! i, ed_store data)"
  unfolding view_def by (rule lookup_tag_None [OF data_okD(1)])

lemma view_empty_iff:
  assumes "data_ok data" and "i < EXIF_IFD_COUNT"
  shows "view data i = Map.empty \<longleftrightarrow> c_entries (ed_ifd data ! i) = []"
proof -
  have "view data i = Map.empty \<longleftrightarrow> tags (ed_ifd data ! i, ed_store data) = {}"
    using view_None_iff [OF assms] by (auto simp: fun_eq_iff)
  then show ?thesis by (simp add: tags_def)
qed

lemma view_Some_iff:
  assumes "data_ok data" and "i < EXIF_IFD_COUNT"
  shows "view data i t = Some v \<longleftrightarrow> (\<exists>e \<in> set (entries_of data i). e_tag e = t \<and> v = (e_format e, e_components e, e_data e))"
proof -
  note ok = data_okD [OF assms]
  have at: "view data i (e_tag e) = Some (e_format e, e_components e, e_data e)" if e: "e \<in> set (entries_of data i)" for e
  proof -
    obtain a where a: "a \<in> set (c_entries (ed_ifd data ! i))" "e = the (st_heap (ed_store data) a)"
      using e by (auto simp: entries_of_def)
    then have "st_heap (ed_store data) a = Some e" using ok(3) by auto
    with a(1) show ?thesis unfolding view_def by (rule lookup_tag_at [OF ok(1)])
  qed
  have "\<exists>e \<in> set (entries_of data i). e_tag e = t" if "view data i t = Some v"
  proof -
    have "t \<in> tags (ed_ifd data ! i, ed_store data)" using that view_None_iff [OF assms, of t] by auto
    then show ?thesis by (auto simp: tags_def tag_at_def entries_of_def)
  qed
  with at show ?thesis by fastforce
qed

section \<open>A record is loaded\<close>

lemma load_new_entry_eq:
  assumes ok: "data_ok data" and al: "plenty al" and ifd: "ifd < EXIF_IFD_COUNT"
    and off: "unat offset + 12 \<le> unat ds" and ds: "unat ds \<le> 0xfffe" "unat ds \<le> length bs"
    and fits: "entry_fits (ed_order data) bs (unat ds) (unat offset)"
    and new: "view data ifd (entry_tag (ed_order data) bs (unat offset)) = None"
  shows "\<exists>data'. load_new_entry al (Buf bs) ds ifd offset data = Some data' \<and>
    st_heap (ed_store data') = (st_heap (ed_store data))(st_clock (ed_store data) \<mapsto>
      (full_entry (ed_order data) bs (unat offset))\<lparr>e_parent := Some ifd\<rparr>) \<and>
    ed_ifd data' = (ed_ifd data)[ifd := (ed_ifd data ! ifd)\<lparr>c_entries := c_entries (ed_ifd data ! ifd) @ [st_clock (ed_store data)]\<rparr>] \<and>
    same_thumb data data'"
proof -
  let ?a = "st_clock (ed_store data)"
  let ?ord = "ed_order data"
  let ?p = "unat offset"
  let ?e = "full_entry ?ord bs ?p"
  have io: "ifds_ok (ed_ifd data) (ed_store data) {}" using ok by (simp add: data_ok_def)
  let ?s = "put_entry ?a zero_entry ((ed_store data)\<lparr>st_clock := ?a + 2\<rparr>)"
  have s: "exif_entry_new_mem al (ed_store data) = (Some ?a, ?s)"
    using al by (simp add: exif_entry_new_mem_def exif_mem_alloc_def plenty_def put_entry_def)
  let ?d = "data\<lparr>ed_store := ?s\<rparr>"
  let ?d1 = "entry_loaded ?a ?e (entry_pos ?ord bs ?p) ?d"
  let ?s1 = "put_entry ?a ?e (?s\<lparr>st_clock := ?a + 3\<rparr>)"
  have ld: "exif_data_load_data_entry al (Buf bs) ds offset (Some ?a) ?d = Some (True, ?d1)"
    using load_entry_eq [OF off ds, of ?d ?a ?ord ?p al] fits al by (simp add: put_entry_def plenty_def)
  have d1: "ed_ifd ?d1 = ed_ifd data" "ed_store ?d1 = ?s1" "same_thumb data ?d1"
    by (simp_all add: entry_loaded_def Let_def same_thumb_def put_entry_def numeral_3_eq_3)
  have fresh: "?a \<notin> set (c_entries (ed_ifd data ! ifd))" using data_okD [OF ok ifd] by auto
  then have same: "st_heap ?s1 b = st_heap (ed_store data) b" if "b \<in> set (c_entries (ed_ifd data ! ifd))" for b
    using that by (auto simp: put_entry_def)
  have ok1: "content_ok ifd (ed_ifd data ! ifd, ?s1)"
    using content_ok_cong [of "ed_ifd data ! ifd" ?s1 "ed_store data" ifd] same data_okD(1) [OF ok ifd] by simp
  have "tags (ed_ifd data ! ifd, ?s1) = tags (ed_ifd data ! ifd, ed_store data)"
    using same by (auto simp: tags_def tag_at_def)
  then have nt: "e_tag ?e \<notin> tags (ed_ifd data ! ifd, ?s1)"
    using new view_None_iff [OF ok ifd] by (simp add: full_entry_def head_entry_def)
  let ?c = "(ed_ifd data ! ifd)\<lparr>c_entries := c_entries (ed_ifd data ! ifd) @ [?a]\<rparr>"
  let ?s2 = "?s1\<lparr>st_heap := (st_heap ?s1)(?a \<mapsto> ?e\<lparr>e_parent := Some ifd\<rparr>), st_clock := st_clock ?s1 + 1\<rparr>"
  have "add_unref al ifd ?a (ed_ifd data ! ifd, ?s1) = Some (?c, ?s2)"
    using add_unref_eq [OF ok1, of ?a ?e al] nt al
    by (simp add: put_entry_def full_entry_def head_entry_def zero_entry_def plenty_def)
  then obtain s3 where s3: "exif_content_add_entry al ifd (Some ?a) (ed_ifd ?d1 ! ifd, ed_store ?d1) = Some (?c, s3)"
      "exif_entry_unref (Some ?a) s3 = Some ?s2"
    unfolding d1 by (auto simp: add_unref_def split: bind_splits)
  have "load_new_entry al (Buf bs) ds ifd offset data = Some (?d1\<lparr>ed_ifd := (ed_ifd ?d1)[ifd := ?c], ed_store := ?s2\<rparr>)"
    by (simp only: load_new_entry_def s prod.case ld Option.bind.simps if_True s3)
  moreover have "st_heap ?s2 = (st_heap (ed_store data))(?a \<mapsto> ?e\<lparr>e_parent := Some ifd\<rparr>)"
    by (simp add: put_entry_def)
  ultimately show ?thesis using d1 by (simp add: same_thumb_def)
qed

lemma load_new_entry_view:
  assumes ok: "data_ok data" and al: "plenty al" and ifd: "ifd < EXIF_IFD_COUNT"
    and off: "unat offset + 12 \<le> unat ds" and ds: "unat ds \<le> 0xfffe" "unat ds \<le> length bs"
    and fits: "entry_fits (ed_order data) bs (unat ds) (unat offset)"
    and new: "view data ifd (entry_tag (ed_order data) bs (unat offset)) = None"
    and e: "e = full_entry (ed_order data) bs (unat offset)"
  shows "\<exists>data'. load_new_entry al (Buf bs) ds ifd offset data = Some data' \<and> data_ok data' \<and> same_frame data data' \<and>
    same_thumb data data' \<and>
    (\<forall>i < EXIF_IFD_COUNT. view data' i = (if i = ifd then (view data ifd)(e_tag e \<mapsto> (e_format e, e_components e, e_data e)) else view data i))"
proof -
  let ?a = "st_clock (ed_store data)"
  obtain data' where d': "load_new_entry al (Buf bs) ds ifd offset data = Some data'"
      "st_heap (ed_store data') = (st_heap (ed_store data))(?a \<mapsto> e\<lparr>e_parent := Some ifd\<rparr>)"
      "ed_ifd data' = (ed_ifd data)[ifd := (ed_ifd data ! ifd)\<lparr>c_entries := c_entries (ed_ifd data ! ifd) @ [?a]\<rparr>]"
      "same_thumb data data'"
    using load_new_entry_eq [OF assms(1-8)] e by blast
  have mem: "entry_mem_ok al" using al by (simp add: plenty_def entry_mem_ok_def)
  have ok': "data_ok data'" "same_frame data data'"
    using load_new_entry_ok [OF ok mem ifd off ds] d'(1) by auto
  have same: "st_heap (ed_store data') b = st_heap (ed_store data) b" if "b \<in> set (c_entries (ed_ifd data ! i))" "i < EXIF_IFD_COUNT" for b i
    using that data_okD [OF ok that(2)] d'(2) by auto
  have len: "length (ed_ifd data) = EXIF_IFD_COUNT" using data_okD(2) [OF ok ifd] .
  have other: "view data' i = view data i" if i: "i < EXIF_IFD_COUNT" "i \<noteq> ifd" for i
  proof (rule ext)
    fix t
    have "ed_ifd data' ! i = ed_ifd data ! i" using d'(3) i by simp
    then show "view data' i t = view data i t"
      unfolding view_def using same [OF _ i(1)] data_okD(1) [OF ok'(1) i(1)] data_okD(1) [OF ok i(1)]
      by (intro lookup_tag_ext [of i]) auto
  qed
  have c: "ed_ifd data' ! ifd = (ed_ifd data ! ifd)\<lparr>c_entries := c_entries (ed_ifd data ! ifd) @ [?a]\<rparr>"
    using d'(3) len ifd by simp
  have "view data' ifd t = ((view data ifd)(e_tag e \<mapsto> (e_format e, e_components e, e_data e))) t" for t
  proof (cases "t = e_tag e")
    case True
    then show ?thesis
      using lookup_tag_at [OF data_okD(1) [OF ok'(1) ifd], of ?a "e\<lparr>e_parent := Some ifd\<rparr>"] c d'(2) by (simp add: view_def)
  next
    case False
    have "view data' ifd t = view data ifd t"
      unfolding view_def using same [OF _ ifd] d'(2) c False
      by (intro lookup_tag_ext [OF data_okD(1) [OF ok'(1) ifd] data_okD(1) [OF ok ifd]]) auto
    with False show ?thesis by simp
  qed
  then have this': "view data' ifd = (view data ifd)(e_tag e \<mapsto> (e_format e, e_components e, e_data e))" by (rule ext)
  show ?thesis
    using d'(1,4) ok' other this' by (intro exI [of _ data']) auto
qed


section \<open>Where the parts of a directory are\<close>

lemma entry_slots_at:
  "r \<in> set (entry_slots ord L es) \<Longrightarrow>
   \<exists>e pre post. e \<in> set es \<and> r = entry_slot ord (L + length pre) e \<and> entry_exts es = pre @ entry_ext e @ post"
proof (induction ord L es rule: entry_slots.induct)
  case (2 ord L e es)
  show ?case
  proof (cases "r = entry_slot ord L e")
    case True
    then show ?thesis by (intro exI [of _ e] exI [of _ "[]"] exI [of _ "entry_exts es"]) (simp add: entry_exts_def)
  next
    case False
    then obtain e' pre post where "e' \<in> set es" "r = entry_slot ord (L + length (entry_ext e) + length pre) e'"
        "entry_exts es = pre @ entry_ext e' @ post"
      using 2 by auto
    then show ?thesis
      by (intro exI [of _ e'] exI [of _ "entry_ext e @ pre"] exI [of _ post]) (simp add: entry_exts_def add.assoc)
  qed
qed simp

lemma sub_slots_at:
  "r \<in> set (sub_slots ord L subs) \<Longrightarrow>
   \<exists>tag lay pre post. (tag, lay) \<in> set subs \<and> r = pointer_slot ord tag (of_nat (L + length pre - 6)) \<and>
     sub_bytes L subs = pre @ lay (L + length pre) @ post"
proof (induction ord L subs rule: sub_slots.induct)
  case (2 ord L tag lay subs)
  show ?case
  proof (cases "r = pointer_slot ord tag (of_nat (L - 6))")
    case True
    then show ?thesis
      by (intro exI [of _ tag] exI [of _ lay] exI [of _ "[]"] exI [of _ "sub_bytes (L + length (lay L)) subs"]) simp
  next
    case False
    then obtain tag' lay' pre post where "(tag', lay') \<in> set subs"
        "r = pointer_slot ord tag' (of_nat (L + length (lay L) + length pre - 6))"
        "sub_bytes (L + length (lay L)) subs = pre @ lay' (L + length (lay L) + length pre) @ post"
      using 2 by auto
    then show ?thesis
      by (intro exI [of _ tag'] exI [of _ lay'] exI [of _ "lay L @ pre"] exI [of _ post]) (simp add: add.assoc)
  qed
qed simp

lemma record_tag_slots:
  "record_tag ord (entry_slot ord L e) = e_tag e" "record_tag ord (pointer_slot ord t v) = t"
  by (simp_all add: record_tag_def entry_slot_def entry_head_def pointer_slot_def eshort.enc_length eshort.dec_enc)

lemma map_record_tag_entries: "map (record_tag ord) (entry_slots ord L es) = map e_tag es"
  by (induction ord L es rule: entry_slots.induct) (simp_all add: record_tag_slots)

lemma map_record_tag_subs: "map (record_tag ord) (sub_slots ord L subs) = map fst subs"
  by (induction ord L subs rule: sub_slots.induct) (simp_all add: record_tag_slots)

lemma map_record_tag_vals: "map (record_tag ord) (map (\<lambda>(t, v). pointer_slot ord t v) vals) = map fst vals"
  by (auto simp: record_tag_slots)

lemmas map_record_tag = map_record_tag_entries map_record_tag_subs map_record_tag_vals

lemma nth_record:
  "records rs \<Longrightarrow> k < length rs \<Longrightarrow>
   \<exists>pre post. concat rs = pre @ rs ! k @ post \<and> length pre = 12 * k"
proof -
  assume rs: "records rs" "k < length rs"
  have "rs = take k rs @ rs ! k # drop (Suc k) rs" using rs(2) by (rule id_take_nth_drop)
  then have "concat rs = concat (take k rs) @ rs ! k @ concat (drop (Suc k) rs)"
    by (metis concat.simps(2) concat_append)
  moreover have "records (take k rs)" using rs(1) by (auto simp: list_all_iff dest: in_set_takeD)
  then have "length (concat (take k rs)) = 12 * k" using rs(2) by (simp add: length_concat_records)
  ultimately show ?thesis by blast
qed

text \<open>A field of the record at a position.\<close>

lemma take_drop_app: "length xs = p \<Longrightarrow> length ys = n \<Longrightarrow> take n (drop p (xs @ ys @ zs)) = ys"
  by simp

lemma slot_fields:
  assumes "bs = pre @ enc16 ord t @ enc16 ord f @ enc32 ord n @ enc32 ord v @ post" and "length pre = p"
  shows "entry_tag ord bs p = t" "entry_format ord bs p = f" "entry_components ord bs p = n"
    "dec32 ord (take 4 (drop (p + 8) bs)) = v"
proof -
  have "take 2 (drop p bs) = enc16 ord t" "take 2 (drop (p + 2) bs) = enc16 ord f"
      "take 4 (drop (p + 4) bs) = enc32 ord n" "take 4 (drop (p + 8) bs) = enc32 ord v"
    using assms by (simp_all add: eshort.enc_length elong.enc_length)
  then show "entry_tag ord bs p = t" "entry_format ord bs p = f" "entry_components ord bs p = n"
    "dec32 ord (take 4 (drop (p + 8) bs)) = v"
    by (simp_all add: entry_tag_def entry_format_def entry_components_def eshort.dec_enc elong.dec_enc)
qed

lemma entry_slot_split:
  assumes "entry_fit e"
  shows "\<exists>v. entry_slot ord L e = enc16 ord (e_tag e) @ enc16 ord (e_format e) @ enc32 ord (e_components e) @ enc32 ord v \<and>
     (if data_len e > 4 then v = of_nat (L - 6) else enc32 ord v = payload e @ replicate (4 - data_len e) 0)"
proof (cases "data_len e > 4")
  case True
  then show ?thesis by (simp add: entry_slot_def entry_head_def)
next
  case False
  let ?w = "payload e @ replicate (4 - data_len e) 0"
  have "length ?w = 4" using assms False by (simp add: entry_fit_def)
  then have "enc32 ord (dec32 ord ?w) = ?w" by (rule elong.enc_dec)
  with False show ?thesis
    by (intro exI [of _ "dec32 ord ?w"]) (simp add: entry_slot_def entry_head_def)
qed

text \<open>The entry that the loader builds from a record that was saved is the entry that was saved.\<close>

lemma full_entry_slot:
  assumes e: "entry_ok e" "e_data e \<noteq> NULL"
    and slot: "bs = pre @ entry_slot ord L e @ post" "length pre = p"
    and ext: "data_len e > 4 \<Longrightarrow> \<exists>pre' post'. bs = pre' @ payload e @ post' \<and> length pre' = L - 6"
    and small: "length bs \<le> 0xfffe"
  shows "entry_fits ord bs (length bs) p"
    "e_tag (full_entry ord bs p) = e_tag e" "e_format (full_entry ord bs p) = e_format e"
    "e_components (full_entry ord bs p) = e_components e" "e_data (full_entry ord bs p) = e_data e"
proof -
  obtain b where b: "e_data e = Buf b" "length b = unat (exif_format_get_size (e_format e)) * unat (e_components e)"
      "0 < length b" "length b < 2 ^ 32"
    using e unat_u32 [of "e_size e"] by (auto simp: entry_ok_def)
  have len: "data_len e = length b" "payload e = b"
    using b by (simp_all add: data_len_def unat_size_mult payload_def)
  have fit: "entry_fit e" using e(1) by (rule entry_ok_fit)
  obtain v where v: "entry_slot ord L e = enc16 ord (e_tag e) @ enc16 ord (e_format e) @ enc32 ord (e_components e) @ enc32 ord v"
      "if data_len e > 4 then v = of_nat (L - 6) else enc32 ord v = payload e @ replicate (4 - data_len e) 0"
    using entry_slot_split [OF fit] by blast
  have f: "entry_tag ord bs p = e_tag e" "entry_format ord bs p = e_format e" "entry_components ord bs p = e_components e"
      "dec32 ord (take 4 (drop (p + 8) bs)) = v"
    using slot_fields [of bs pre ord "e_tag e" "e_format e" "e_components e" v post p] slot v(1) by simp_all
  have n: "entry_bytes ord bs p = length b" using b f by (simp add: entry_bytes_def)
  have at: "\<exists>pre' post'. bs = pre' @ b @ post' \<and> length pre' = entry_pos ord bs p"
  proof (cases "data_len e > 4")
    case True
    obtain pre' post' where x: "bs = pre' @ payload e @ post'" "length pre' = L - 6" using ext [OF True] by blast
    then have "unat (of_nat (L - 6) :: u32) = L - 6" using small by (intro unat_word_of_nat_32) simp
    then show ?thesis using x True v(2) f len n by (intro exI [of _ pre'] exI [of _ post']) (simp add: entry_pos_def)
  next
    case False
    then have "bs = (pre @ enc16 ord (e_tag e) @ enc16 ord (e_format e) @ enc32 ord (e_components e)) @ b @ (replicate (4 - data_len e) 0 @ post)"
      using slot v len by simp
    moreover have "length (pre @ enc16 ord (e_tag e) @ enc16 ord (e_format e) @ enc32 ord (e_components e)) = entry_pos ord bs p"
      using False len n slot by (simp add: entry_pos_def eshort.enc_length elong.enc_length)
    ultimately show ?thesis by blast
  qed
  then obtain pre' post' where x: "bs = pre' @ b @ post'" "length pre' = entry_pos ord bs p" by blast
  then have "take (length b) (drop (entry_pos ord bs p) bs) = b" by (metis take_drop_app)
  then show "e_data (full_entry ord bs p) = e_data e" using b n by (simp add: full_entry_def)
  have "length bs = length pre' + length b + length post'" using x(1) by simp
  then have "entry_pos ord bs p + length b \<le> length bs" using x(2) by simp
  then show "entry_fits ord bs (length bs) p" using b n by (simp add: entry_fits_def)
  show "e_tag (full_entry ord bs p) = e_tag e" "e_format (full_entry ord bs p) = e_format e"
    "e_components (full_entry ord bs p) = e_components e"
    by (simp_all add: full_entry_def head_entry_def f)
qed

section \<open>The loop over the records\<close>

text \<open>The tags that the loop treats apart, the directory that a pointer leads to and the directories that are loaded through it.\<close>

definition special_tags :: "u16 set" where
  "special_tags = {TAG_EXIF_IFD_POINTER, TAG_GPS_INFO_IFD_POINTER, TAG_INTEROPERABILITY_IFD_POINTER,
     TAG_JPEG_INTERCHANGE_FORMAT_LENGTH, TAG_JPEG_INTERCHANGE_FORMAT}"

definition points_to :: "u16 \<Rightarrow> nat" where
  "points_to t = (if t = TAG_EXIF_IFD_POINTER then IFD_EXIF else if t = TAG_GPS_INFO_IFD_POINTER then IFD_GPS else IFD_INTEROPERABILITY)"

definition covers :: "u16 \<Rightarrow> nat set" where
  "covers t = (if t = TAG_EXIF_IFD_POINTER then {IFD_EXIF, IFD_INTEROPERABILITY}
     else if t = TAG_GPS_INFO_IFD_POINTER then {IFD_GPS}
     else if t = TAG_INTEROPERABILITY_IFD_POINTER then {IFD_INTEROPERABILITY} else {})"

definition pointer_tags :: "u16 set" where
  "pointer_tags = {TAG_EXIF_IFD_POINTER, TAG_GPS_INFO_IFD_POINTER, TAG_INTEROPERABILITY_IFD_POINTER}"

lemma covers_empty: "t \<notin> pointer_tags \<Longrightarrow> covers t = {}"
  by (simp add: covers_def pointer_tags_def)

text \<open>
  Loading a part turns the directories \<open>P\<close> into \<open>W\<close> and leaves the others, and gives the thumbnail \<open>th\<close>
  if there is one in this part.
\<close>

type_synonym views = "nat \<Rightarrow> u16 \<Rightarrow> (ExifFormat \<times> u32 \<times> cbuf) option"

definition goes :: "views \<Rightarrow> nat set \<Rightarrow> (cbuf \<times> u32) option \<Rightarrow> ExifData \<Rightarrow> ExifData \<Rightarrow> bool" where
  "goes W P th D D' \<longleftrightarrow> data_ok D' \<and> same_frame D D' \<and>
     (case th of None \<Rightarrow> same_thumb D D' | Some (b, s) \<Rightarrow> ed_data D' = b \<and> ed_size D' = s) \<and>
     (\<forall>i < EXIF_IFD_COUNT. view D' i = (if i \<in> P then W i else view D i))"

text \<open>In the middle of a directory: the records with the tags \<open>T\<close> are done.\<close>

definition midway :: "views \<Rightarrow> nat \<Rightarrow> u32 \<Rightarrow> bytes \<Rightarrow> ExifData \<Rightarrow> u16 set \<Rightarrow> ExifData \<times> u32 \<times> u32 \<Rightarrow> bool" where
  "midway W ifd toff tn D0 T = (\<lambda>(D, th_off, th_len). data_ok D \<and> same_frame D0 D \<and>
     view D ifd = W ifd |` T \<and>
     (\<forall>i < EXIF_IFD_COUNT. i \<noteq> ifd \<longrightarrow> view D i = (if i \<in> \<Union> (covers ` T) then W i else view D0 i)) \<and>
     th_off = (if TAG_JPEG_INTERCHANGE_FORMAT \<in> T then toff else 0) \<and>
     th_len = (if TAG_JPEG_INTERCHANGE_FORMAT_LENGTH \<in> T then of_nat (length tn) else 0) \<and>
     (if TAG_JPEG_INTERCHANGE_FORMAT \<in> T \<and> TAG_JPEG_INTERCHANGE_FORMAT_LENGTH \<in> T
      then ed_data D = Buf tn \<and> ed_size D = of_nat (length tn) else same_thumb D0 D))"

lemma midwayI:
  assumes "data_ok D" "same_frame D0 D" "view D ifd = W ifd |` T"
    "\<And>i. \<lbrakk>i < EXIF_IFD_COUNT; i \<noteq> ifd\<rbrakk> \<Longrightarrow> view D i = (if i \<in> \<Union> (covers ` T) then W i else view D0 i)"
    "th_off = (if TAG_JPEG_INTERCHANGE_FORMAT \<in> T then toff else 0)"
    "th_len = (if TAG_JPEG_INTERCHANGE_FORMAT_LENGTH \<in> T then of_nat (length tn) else 0)"
    "if TAG_JPEG_INTERCHANGE_FORMAT \<in> T \<and> TAG_JPEG_INTERCHANGE_FORMAT_LENGTH \<in> T
      then ed_data D = Buf tn \<and> ed_size D = of_nat (length tn) else same_thumb D0 D"
  shows "midway W ifd toff tn D0 T (D, th_off, th_len)"
  using assms by (simp add: midway_def)

lemma midwayD:
  assumes "midway W ifd toff tn D0 T (D, th_off, th_len)"
  shows "data_ok D" "same_frame D0 D" "view D ifd = W ifd |` T"
    "\<And>i. \<lbrakk>i < EXIF_IFD_COUNT; i \<noteq> ifd\<rbrakk> \<Longrightarrow> view D i = (if i \<in> \<Union> (covers ` T) then W i else view D0 i)"
    "th_off = (if TAG_JPEG_INTERCHANGE_FORMAT \<in> T then toff else 0)"
    "th_len = (if TAG_JPEG_INTERCHANGE_FORMAT_LENGTH \<in> T then of_nat (length tn) else 0)"
    "if TAG_JPEG_INTERCHANGE_FORMAT \<in> T \<and> TAG_JPEG_INTERCHANGE_FORMAT_LENGTH \<in> T
      then ed_data D = Buf tn \<and> ed_size D = of_nat (length tn) else same_thumb D0 D"
  using assms by (simp_all add: midway_def split: if_splits)

lemma same_thumb_trans: "same_thumb a b \<Longrightarrow> same_thumb b c \<Longrightarrow> same_thumb a c"
  by (simp add: same_thumb_def)

lemma restrict_insert: "m t = None \<Longrightarrow> m |` insert t T = m |` T"
  by (auto simp: restrict_map_def fun_eq_iff)

lemma round_entry:
  assumes p: "p = unat offset + 12 * k" "p + 12 \<le> length bs" "length bs \<le> 0xfffe" "unat ds = length bs" and al: "plenty al"
    and ifd: "ifd < EXIF_IFD_COUNT" and ord: "ed_order D0 = ord"
    and mid: "midway W ifd toff tn D0 T (D, th_off, th_len)"
    and e: "entry_fits ord bs (length bs) p" "full_entry ord bs p = e" "e_tag e \<notin> special_tags" "e_tag e \<notin> T"
      "exif_tag_get_name_in_ifd (unat (e_tag e)) ifd \<noteq> None"
      "W ifd (e_tag e) = Some (e_format e, e_components e, e_data e)"
  shows "\<exists>st'. load_round al (Buf bs) ds sub ifd offset k (D, th_off, th_len) = Some st' \<and>
    midway W ifd toff tn D0 (insert (e_tag e) T) st'"
proof -
  note m = midwayD [OF mid]
  have oD: "ed_order D = ord" using m(2) ord by (simp add: same_frame_def)
  have tag: "entry_tag ord bs p = e_tag e" using e(2) by (auto simp: full_entry_def head_entry_def)
  have u: "unat (offset + of_nat (12 * k)) = p"
    using p by (simp add: unat_word_ariths unat_of_nat)
  have g: "exif_get_short (Buf bs) p ord = Some (e_tag e)"
    using p(2) tag by (simp add: get_short_Buf entry_tag_def)
  have new: "view D ifd (e_tag e) = None" unfolding m(3) using e(4) by simp
  have f: "unat (offset + of_nat (12 * k)) + 12 \<le> unat ds" "unat ds \<le> 0xfffe" "unat ds \<le> length bs"
      "entry_fits (ed_order D) bs (unat ds) (unat (offset + of_nat (12 * k)))"
      "view D ifd (entry_tag (ed_order D) bs (unat (offset + of_nat (12 * k)))) = None"
      "e = full_entry (ed_order D) bs (unat (offset + of_nat (12 * k)))"
    unfolding u oD tag p(4) using p(2,3) e(1,2) new by simp_all
  obtain D' where D': "load_new_entry al (Buf bs) ds ifd (offset + of_nat (12 * k)) D = Some D'" "data_ok D'" "same_frame D D'"
      "same_thumb D D'"
      "\<And>i. i < EXIF_IFD_COUNT \<Longrightarrow> view D' i = (if i = ifd then (view D ifd)(e_tag e \<mapsto> (e_format e, e_components e, e_data e)) else view D i)"
    using load_new_entry_view [OF m(1) al ifd f] by blast
  have eq: "load_round al (Buf bs) ds sub ifd offset k (D, th_off, th_len) = Some (D', th_off, th_len)"
    using e(3,5) D'(1) by (auto simp: load_round_def oD p(1) [symmetric] g special_tags_def)
  have sp: "e_tag e \<noteq> TAG_JPEG_INTERCHANGE_FORMAT" "e_tag e \<noteq> TAG_JPEG_INTERCHANGE_FORMAT_LENGTH" "covers (e_tag e) = {}"
    using e(3) by (simp_all add: special_tags_def pointer_tags_def covers_empty)
  have "midway W ifd toff tn D0 (insert (e_tag e) T) (D', th_off, th_len)"
  proof (rule midwayI)
    show "view D' ifd = W ifd |` insert (e_tag e) T"
      using D'(5) [OF ifd] e(6) m(3) by (auto simp: restrict_map_def fun_eq_iff)
    show "view D' i = (if i \<in> \<Union> (covers ` insert (e_tag e) T) then W i else view D0 i)" if "i < EXIF_IFD_COUNT" "i \<noteq> ifd" for i
      using D'(5) [OF that(1)] m(4) [OF that] that(2) sp by simp
    show "if TAG_JPEG_INTERCHANGE_FORMAT \<in> insert (e_tag e) T \<and> TAG_JPEG_INTERCHANGE_FORMAT_LENGTH \<in> insert (e_tag e) T
      then ed_data D' = Buf tn \<and> ed_size D' = of_nat (length tn) else same_thumb D0 D'"
      using m(7) D'(4) sp by (auto simp: same_thumb_def split: if_splits)
  qed (use D' m sp in \<open>auto intro: same_frame_trans\<close>)
  with eq show ?thesis by blast
qed

lemma round_pointer:
  assumes p: "p = unat offset + 12 * k" "p + 12 \<le> length bs" and ifd: "ifd < EXIF_IFD_COUNT" and ord: "ed_order D0 = ord"
    and mid: "midway W ifd toff tn D0 T (D, th_off, th_len)"
    and tag: "entry_tag ord bs p = tag" "dec32 ord (take 4 (drop (p + 8) bs)) = v" "tag \<in> pointer_tags" "tag \<notin> T" "W ifd tag = None"
    and j: "ifd \<notin> covers tag" "\<And>t. t \<in> T \<Longrightarrow> covers t \<inter> covers tag = {}" "\<And>i. i \<in> covers tag \<Longrightarrow> view D0 i = Map.empty"
    and sub: "\<And>D. \<lbrakk>data_ok D; ed_order D = ord; \<And>i. i \<in> covers tag \<Longrightarrow> view D i = Map.empty\<rbrakk>
      \<Longrightarrow> \<exists>D'. sub (points_to tag) v D = Some D' \<and> goes W (covers tag) None D D'"
  shows "\<exists>st'. load_round al (Buf bs) ds sub ifd offset k (D, th_off, th_len) = Some st' \<and> midway W ifd toff tn D0 (insert tag T) st'"
proof -
  note m = midwayD [OF mid]
  have oD: "ed_order D = ord" using m(2) ord by (simp add: same_frame_def)
  have cov: "covers tag \<subseteq> {..<EXIF_IFD_COUNT}" "points_to tag \<in> covers tag"
    using tag(3) by (auto simp: covers_def points_to_def pointer_tags_def split: if_splits)
  have free: "view D i = Map.empty" if "i \<in> covers tag" for i
  proof -
    have "i < EXIF_IFD_COUNT" "i \<noteq> ifd" "i \<notin> \<Union> (covers ` T)" using that cov(1) j(1,2) by auto
    then show ?thesis using m(4) [of i] j(3) [OF that] by simp
  qed
  obtain D' where D': "sub (points_to tag) v D = Some D'" "goes W (covers tag) None D D'"
    using sub [OF m(1) oD free] by blast
  have pt: "points_to tag \<noteq> ifd" "c_entries (ed_ifd D ! points_to tag) = []" 
    using cov j(1) free [OF cov(2)] view_empty_iff [OF m(1), of "points_to tag"] by auto
  have g: "exif_get_short (Buf bs) p ord = Some tag" "exif_get_long (Buf bs) (p + 8) ord = Some v"
    using p tag(1,2) by (simp_all add: get_short_Buf get_long_Buf entry_tag_def)
  have ls: "load_sub_ifd sub ifd (points_to tag) v D = Some D'"
    unfolding load_sub_ifd_def using pt D'(1) by simp
  have "tag = TAG_EXIF_IFD_POINTER \<or> tag = TAG_GPS_INFO_IFD_POINTER \<or> tag = TAG_INTEROPERABILITY_IFD_POINTER"
    using tag(3) by (simp add: pointer_tags_def)
  then have eq: "load_round al (Buf bs) ds sub ifd offset k (D, th_off, th_len) = Some (D', th_off, th_len)"
    unfolding load_round_def prod.case oD p(1) [symmetric] g Option.bind.simps
    using ls by (elim disjE) (simp_all add: points_to_def)
  have sp: "tag \<noteq> TAG_JPEG_INTERCHANGE_FORMAT" "tag \<noteq> TAG_JPEG_INTERCHANGE_FORMAT_LENGTH"
    using tag(3) by (auto simp: pointer_tags_def)
  have "midway W ifd toff tn D0 (insert tag T) (D', th_off, th_len)"
  proof (rule midwayI)
    show "view D' ifd = W ifd |` insert tag T"
      using D'(2) ifd j(1) m(3) restrict_insert [of "W ifd" tag T, OF tag(5)] by (simp add: goes_def)
    show "view D' i = (if i \<in> \<Union> (covers ` insert tag T) then W i else view D0 i)" if "i < EXIF_IFD_COUNT" "i \<noteq> ifd" for i
      using D'(2) m(4) [OF that] that by (simp add: goes_def)
    show "if TAG_JPEG_INTERCHANGE_FORMAT \<in> insert tag T \<and> TAG_JPEG_INTERCHANGE_FORMAT_LENGTH \<in> insert tag T
      then ed_data D' = Buf tn \<and> ed_size D' = of_nat (length tn) else same_thumb D0 D'"
      using m(7) D'(2) sp by (auto simp: goes_def same_thumb_def split: if_splits)
  qed (use D'(2) m sp in \<open>auto simp: goes_def intro: same_frame_trans\<close>)
  with eq show ?thesis by blast
qed

lemma load_thumbnail_eq:
  assumes ok: "data_ok D" and al: "plenty al" and bs: "bs = pre @ tn @ post" "length pre = unat toff" "tn \<noteq> []"
    and ds: "length bs \<le> 0xfffe" "unat ds = length bs"
  shows "\<exists>D'. exif_data_load_data_thumbnail al (Buf bs) ds toff (of_nat (length tn)) D = Some D' \<and> data_ok D' \<and> same_frame D D' \<and>
    ed_data D' = Buf tn \<and> ed_size D' = of_nat (length tn) \<and> (\<forall>i < EXIF_IFD_COUNT. view D' i = view D i)"
proof -
  let ?n = "of_nat (length tn) :: u32"
  have un: "unat ?n = length tn" using ds bs by (intro unat_word_of_nat_32) simp
  have sum: "unat (toff + ?n) = unat toff + length tn" using ds bs un by (simp add: unat_word_ariths)
  have c: "\<not> (toff + ?n < toff \<or> toff + ?n < ?n \<or> toff + ?n > ds \<or> toff > ds)"
    unfolding word_less_nat_alt sum un using ds(2) bs by simp
  let ?D = "D\<lparr>ed_store := (ed_store D)\<lparr>st_clock := st_clock (ed_store D) + 1\<rparr>\<rparr>"
  have nz: "?n \<noteq> 0" using un bs(3) by (metis length_0_conv unat_0)
  have a: "exif_data_alloc al ?n D = (Buf (replicate (length tn) 0), ?D)"
    using exif_data_alloc_cases [OF nz, of al D] al un by (simp add: plenty_def)
  have r: "rd_range (Buf bs) (unat toff) (unat ?n) = Some tn" using bs un by simp
  have eq: "exif_data_load_data_thumbnail al (Buf bs) ds toff ?n D = Some (?D\<lparr>ed_data := Buf tn, ed_size := ?n\<rparr>)"
    unfolding exif_data_load_data_thumbnail_def if_not_P [OF c] a r by (simp add: wr_range_all)
  have ok': "data_ok (?D\<lparr>ed_data := Buf tn, ed_size := ?n\<rparr>)" "same_frame D (?D\<lparr>ed_data := Buf tn, ed_size := ?n\<rparr>)"
    using load_thumbnail_ok [OF ok, of ds bs al toff ?n] ds(2) eq by auto
  moreover have "view (?D\<lparr>ed_data := Buf tn, ed_size := ?n\<rparr>) i = view D i" if "i < EXIF_IFD_COUNT" for i
    unfolding view_def
    by (intro ext lookup_tag_ext [OF data_okD(1) [OF ok'(1) that] data_okD(1) [OF ok that]]) simp_all
  ultimately show ?thesis using eq by auto
qed

lemma round_thumb:
  assumes p: "p = unat offset + 12 * k" "p + 12 \<le> length bs" and ifd: "ifd < EXIF_IFD_COUNT" and ord: "ed_order D0 = ord"
    and mid: "midway W ifd toff tn D0 T (D, th_off, th_len)"
    and tag: "entry_tag ord bs p = tag" "dec32 ord (take 4 (drop (p + 8) bs)) = v" "tag \<notin> T" "W ifd tag = None"
      "(tag, v) = (TAG_JPEG_INTERCHANGE_FORMAT, toff) \<or> (tag, v) = (TAG_JPEG_INTERCHANGE_FORMAT_LENGTH, of_nat (length tn))"
    and al: "plenty al" and bs: "bs = pre @ tn @ post" "length pre = unat toff" "tn \<noteq> []" "toff \<noteq> 0"
    and ds: "length bs \<le> 0xfffe" "unat ds = length bs"
  shows "\<exists>st'. load_round al (Buf bs) ds sub ifd offset k (D, th_off, th_len) = Some st' \<and> midway W ifd toff tn D0 (insert tag T) st'"
proof -
  note m = midwayD [OF mid]
  have oD: "ed_order D = ord" using m(2) ord by (simp add: same_frame_def)
  have g: "exif_get_short (Buf bs) p ord = Some tag" "exif_get_long (Buf bs) (p + 8) ord = Some v"
    using p tag(1,2) by (simp_all add: get_short_Buf get_long_Buf entry_tag_def)
  let ?n = "of_nat (length tn) :: u32"
  have un: "unat ?n = length tn" using ds bs by (intro unat_word_of_nat_32) simp
  then have nz: "?n \<noteq> 0" using bs(3) by (metis length_0_conv unat_0)
  obtain a b where ab: "(a, b) = (if tag = TAG_JPEG_INTERCHANGE_FORMAT then (v, th_len) else (th_off, v))"
    by (cases "tag = TAG_JPEG_INTERCHANGE_FORMAT") auto
  then have ab': "a = (if TAG_JPEG_INTERCHANGE_FORMAT \<in> insert tag T then toff else 0)"
      "b = (if TAG_JPEG_INTERCHANGE_FORMAT_LENGTH \<in> insert tag T then ?n else 0)"
    using tag(3,5) m(5,6) by (auto split: if_splits)
  let ?both = "TAG_JPEG_INTERCHANGE_FORMAT \<in> insert tag T \<and> TAG_JPEG_INTERCHANGE_FORMAT_LENGTH \<in> insert tag T"
  have both: "a \<noteq> 0 \<and> b \<noteq> 0 \<longleftrightarrow> ?both" using ab' nz bs(4) by auto
  have "\<not> (TAG_JPEG_INTERCHANGE_FORMAT \<in> T \<and> TAG_JPEG_INTERCHANGE_FORMAT_LENGTH \<in> T)" using tag(3,5) by auto
  then have th: "same_thumb D0 D" using m(7) by simp
  obtain D' where D': "(if a \<noteq> 0 \<and> b \<noteq> 0 then exif_data_load_data_thumbnail al (Buf bs) ds a b D else Some D) = Some D'"
      "data_ok D'" "same_frame D D'" "if ?both then ed_data D' = Buf tn \<and> ed_size D' = ?n else same_thumb D D'"
      "\<And>i. i < EXIF_IFD_COUNT \<Longrightarrow> view D' i = view D i"
  proof (cases ?both)
    case True
    then show ?thesis
      using that load_thumbnail_eq [OF m(1) al bs(1,2,3) ds] both ab' by auto
  next
    case False
    then have "\<not> (a \<noteq> 0 \<and> b \<noteq> 0)" using both by blast
    then show ?thesis using that [of D] False m(1) by (simp add: same_thumb_def del: insert_iff de_Morgan_conj cong: if_cong)
  qed
  have two: "tag = TAG_JPEG_INTERCHANGE_FORMAT \<or> tag = TAG_JPEG_INTERCHANGE_FORMAT_LENGTH" using tag(5) by auto
  then have sp: "tag \<notin> pointer_tags" "tag \<in> {TAG_EXIF_IFD_POINTER, TAG_GPS_INFO_IFD_POINTER, TAG_INTEROPERABILITY_IFD_POINTER,
               TAG_JPEG_INTERCHANGE_FORMAT_LENGTH, TAG_JPEG_INTERCHANGE_FORMAT}"
    by (auto simp: pointer_tags_def)
  have np: "tag \<noteq> TAG_EXIF_IFD_POINTER" "tag \<noteq> TAG_GPS_INFO_IFD_POINTER" "tag \<noteq> TAG_INTEROPERABILITY_IFD_POINTER"
    using sp(1) by (auto simp: pointer_tags_def)
  have eq: "load_round al (Buf bs) ds sub ifd offset k (D, th_off, th_len) = Some (D', a, b)"
    unfolding load_round_def prod.case oD p(1) [symmetric] g Option.bind.simps if_P [OF sp(2)]
      if_not_P [OF np(1)] if_not_P [OF np(2)] if_not_P [OF np(3)] ab [symmetric] Let_def D'(1) ..
  have "midway W ifd toff tn D0 (insert tag T) (D', a, b)"
  proof (rule midwayI)
    show "view D' ifd = W ifd |` insert tag T" using D'(5) [OF ifd] m(3) restrict_insert [of "W ifd" tag T, OF tag(4)] by simp
    show "view D' i = (if i \<in> \<Union> (covers ` insert tag T) then W i else view D0 i)" if "i < EXIF_IFD_COUNT" "i \<noteq> ifd" for i
      using D'(5) [OF that(1)] m(4) [OF that] covers_empty [OF sp(1)] by simp
    show "if ?both then ed_data D' = Buf tn \<and> ed_size D' = of_nat (length tn) else same_thumb D0 D'"
      using D'(4) th by (auto intro: same_thumb_trans split: if_splits)
  qed (use D'(2,3) m(2) ab' in \<open>auto intro: same_frame_trans\<close>)
  with eq show ?thesis by blast
qed

text \<open>A whole directory, if every record can be read.\<close>

lemma load_dir:
  assumes bs: "bs = pre @ enc16 ord (of_nat (length rs)) @ concat rs @ post" "length pre = unat offset" "length bs \<le> 0xfffe" "unat ds = length bs"
    and rs: "records rs" "distinct (map (record_tag ord) rs)"
    and D0: "data_ok D0" "ed_order D0 = ord" "ifd < EXIF_IFD_COUNT" "view D0 ifd = Map.empty"
    and step: "\<And>k r pre' post' T D a b. \<lbrakk>k < length rs; r = rs ! k; bs = pre' @ r @ post'; length pre' = unat (offset + 2) + 12 * k;
       T \<subseteq> record_tag ord ` set rs; record_tag ord r \<notin> T; midway W ifd toff tn D0 T (D, a, b)\<rbrakk>
       \<Longrightarrow> \<exists>st'. load_round al (Buf bs) ds sub ifd (offset + 2) k (D, a, b) = Some st' \<and> midway W ifd toff tn D0 (insert (record_tag ord r) T) st'"
  shows "\<exists>D' a b. load_content al (Buf bs) ds sub ifd offset D0 = Some D' \<and> midway W ifd toff tn D0 (record_tag ord ` set rs) (D', a, b)"
proof -
  let ?n = "of_nat (length rs) :: u16"
  have len: "unat offset + 2 + 12 * length rs \<le> length bs"
    using bs(1,2) length_concat_records [OF rs(1)] by (simp add: eshort.enc_length)
  have o2: "unat (offset + 2) = unat offset + 2" using len bs(3) by (simp add: unat_word_ariths)
  have un: "unat ?n = length rs" using len bs(3) by (simp add: unat_of_nat)
  have c1: "\<not> (offset + 2 < offset \<or> offset + 2 < 2 \<or> offset + 2 > ds)"
    using len by (simp add: word_less_nat_alt o2 bs(4))
  have "unat (12 * ucast ?n :: u32) = 12 * length rs"
    using len bs(3) by (simp add: unat_word_ariths unsigned_ucast_eq take_bit_nat_eq_self un)
  then have "unat (offset + 2 + 12 * ucast ?n) = unat offset + 2 + 12 * length rs"
    using len bs(3) o2 by (subst unat_word_ariths) simp
  then have c2: "\<not> (offset + 2 + 12 * ucast ?n > ds)" using len by (simp add: word_less_nat_alt bs(4))
  have g: "exif_get_short (Buf bs) (unat offset) ord = Some ?n"
    using take_drop_app [OF bs(2), of "enc16 ord ?n" 2 "concat rs @ post"] len bs(1)
    by (simp add: get_short_Buf eshort.enc_length eshort.dec_enc)
  let ?I = "\<lambda>k. midway W ifd toff tn D0 (record_tag ord ` set (take k rs))"
  have "\<exists>st'. foldM (load_round al (Buf bs) ds sub ifd (offset + 2)) [0..<length rs] (D0, 0, 0) = Some st' \<and> ?I (length rs) st'"
  proof (rule foldM_upt)
    show "?I 0 (D0, 0, 0)" using D0 by (simp add: midway_def same_thumb_def)
  next
    fix k st assume k: "k < length rs" and st: "?I k st"
    obtain D a b where [simp]: "st = (D, a, b)" by (cases st)
    obtain q q' where q: "concat rs = q @ rs ! k @ q'" "length q = 12 * k" using nth_record [OF rs(1) k] by blast
    have s1: "bs = (pre @ enc16 ord ?n @ q) @ rs ! k @ (q' @ post)" using bs(1) q(1) by simp
    have s2: "length (pre @ enc16 ord ?n @ q) = unat (offset + 2) + 12 * k" using bs(2) q(2) o2 by (simp add: eshort.enc_length)
    have s3: "record_tag ord ` set (take k rs) \<subseteq> record_tag ord ` set rs" by (auto dest: in_set_takeD)
    have s4: "record_tag ord (rs ! k) \<notin> record_tag ord ` set (take k rs)"
      using rs(2) k by (auto simp: distinct_conv_nth in_set_conv_nth)
    have "\<exists>st'. load_round al (Buf bs) ds sub ifd (offset + 2) k (D, a, b) = Some st' \<and>
        midway W ifd toff tn D0 (insert (record_tag ord (rs ! k)) (record_tag ord ` set (take k rs))) st'"
      using step [OF k refl s1 s2 s3 s4] st by simp
    then show "\<exists>st'. load_round al (Buf bs) ds sub ifd (offset + 2) k st = Some st' \<and> ?I (Suc k) st'"
      using k by (simp add: take_Suc_conv_app_nth)
  qed
  then obtain D' a b where "foldM (load_round al (Buf bs) ds sub ifd (offset + 2)) [0..<length rs] (D0, 0, 0) = Some (D', a, b)"
      "?I (length rs) (D', a, b)" by auto
  then show ?thesis
    unfolding load_content_def if_not_P [OF c1] D0(2) g Option.bind.simps Let_def if_not_P [OF c2] un by auto
qed

text \<open>The entries of a directory that survive: data present, tags that are known there and not treated apart.\<close>

definition entry_keeps :: "nat \<Rightarrow> ExifEntry \<Rightarrow> bool" where
  "entry_keeps ifd e \<longleftrightarrow> e_data e \<noteq> NULL \<and> e_tag e \<notin> special_tags \<and> exif_tag_get_name_in_ifd (unat (e_tag e)) ifd \<noteq> None"

definition dir_good :: "views \<Rightarrow> nat \<Rightarrow> ExifEntry list \<Rightarrow> bool" where
  "dir_good W ifd es \<longleftrightarrow> ifd < EXIF_IFD_COUNT \<and> distinct (map e_tag es) \<and> dom (W ifd) \<subseteq> e_tag ` set es \<and>
     (\<forall>e \<in> set es. entry_ok e \<and> entry_keeps ifd e \<and> W ifd (e_tag e) = Some (e_format e, e_components e, e_data e))"

lemma dir_good_special: "dir_good W ifd es \<Longrightarrow> t \<in> special_tags \<Longrightarrow> W ifd t = None"
  by (auto simp: dir_good_def entry_keeps_def)

lemma dir_good_restrict:
  assumes "dir_good W ifd es" and "e_tag ` set es \<subseteq> T"
  shows "W ifd |` T = W ifd"
proof -
  have "dom (W ifd) \<subseteq> T" using assms unfolding dir_good_def by blast
  then have "W ifd t = None" if "t \<notin> T" for t using that by auto
  then show ?thesis by (intro ext) (simp add: restrict_map_def)
qed

lemma dir_good_fits: "dir_good W ifd es \<Longrightarrow> list_all entry_fit es"
  by (auto simp: dir_good_def list_all_iff intro: entry_ok_fit)

lemma step_entry:
  assumes al: "plenty al" and bs: "length bs \<le> 0xfffe" "unat ds = length bs" and good: "dir_good W ifd es"
    and ord: "ed_order D0 = ord" and mid: "midway W ifd toff tn D0 T (D, a, b)"
    and r: "r \<in> set (entry_slots ord L es)" "record_tag ord r \<notin> T"
    and at: "bs = pre @ r @ post" "length pre = unat offset + 12 * k"
    and ext: "bs = pre' @ entry_exts es @ post'" "length pre' = L - 6" "6 \<le> L"
  shows "\<exists>st'. load_round al (Buf bs) ds sub ifd offset k (D, a, b) = Some st' \<and>
    midway W ifd toff tn D0 (insert (record_tag ord r) T) st'"
proof -
  obtain e q q' where e: "e \<in> set es" "r = entry_slot ord (L + length q) e" "entry_exts es = q @ entry_ext e @ q'"
    using entry_slots_at [OF r(1)] by blast
  have t: "record_tag ord r = e_tag e" using e(2) by (simp add: record_tag_slots)
  have ok: "entry_ok e" "entry_keeps ifd e" "W ifd (e_tag e) = Some (e_format e, e_components e, e_data e)" "ifd < EXIF_IFD_COUNT"
    using good e(1) by (auto simp: dir_good_def)
  let ?p = "unat offset + 12 * k"
  have len: "length r = 12" using e(2) entry_ok_fit [OF ok(1)] by simp
  have far: "\<exists>x y. bs = x @ payload e @ y \<and> length x = L + length q - 6" if "data_len e > 4"
    using ext e(3) that
    by (intro exI [of _ "pre' @ q"] exI [of _ "(if odd (data_len e) then [0] else []) @ q' @ post'"]) (simp add: entry_ext_def)
  note f = full_entry_slot [OF ok(1) _ at(1) [unfolded e(2)] at(2) far bs(1)]
  have nn: "e_data e \<noteq> NULL" "e_tag e \<notin> special_tags" "exif_tag_get_name_in_ifd (unat (e_tag e)) ifd \<noteq> None"
    using ok(2) by (simp_all add: entry_keeps_def)
  have "?p + 12 \<le> length bs" using at len by simp
  from round_entry [OF refl this bs al ok(4) ord mid f(1) [OF nn(1)] refl] show ?thesis
    unfolding t using f(2-5) [OF nn(1)] nn r(2) [unfolded t] ok(3) by simp
qed

section \<open>Whole directories\<close>

text \<open>A routine that reads a part with the given layout, wherever it is in the file.\<close>

definition reads ::
  "bytes \<Rightarrow> ExifByteOrder \<Rightarrow> views \<Rightarrow> (nat \<Rightarrow> u32 \<Rightarrow> ExifData \<Rightarrow> ExifData option) \<Rightarrow> nat \<Rightarrow> nat set \<Rightarrow> (cbuf \<times> u32) option
     \<Rightarrow> (nat \<Rightarrow> bytes) \<Rightarrow> bool" where
  "reads bs ord W sub j P th lay \<longleftrightarrow> (\<forall>d rest D. bs = drop 6 d @ lay (length d) @ rest \<longrightarrow> 14 \<le> length d \<longrightarrow>
     data_ok D \<longrightarrow> ed_order D = ord \<longrightarrow> (\<forall>i \<in> P. view D i = Map.empty) \<longrightarrow>
     (\<exists>D'. sub j (of_nat (length d - 6)) D = Some D' \<and> goes W P th D D'))"

lemma readsD:
  "\<lbrakk>reads bs ord W sub j P th lay; bs = drop 6 d @ lay L @ rest; length d = L; 14 \<le> L; data_ok D; ed_order D = ord;
    \<And>i. i \<in> P \<Longrightarrow> view D i = Map.empty\<rbrakk>
   \<Longrightarrow> \<exists>D'. sub j (of_nat (L - 6)) D = Some D' \<and> goes W P th D D'"
  unfolding reads_def by blast

text \<open>The parts of a directory in the file.\<close>

lemma layout_split:
  assumes "layout ord es subs vals nxt L = lay" and "list_all entry_fit es"
    and "n = length es + length subs + length vals"
    and "L1 = L + 6 + 12 * n" and "L2 = L1 + length (entry_exts es)"
    and "rs = sort_key (record_tag ord) (entry_slots ord L1 es @ sub_slots ord L2 subs @ map (\<lambda>(t, v). pointer_slot ord t v) vals)"
  shows "\<exists>v fo. lay = enc16 ord (of_nat (length rs)) @ concat rs @ enc32 ord v @ entry_exts es @ sub_bytes L2 subs @ fo"
    "records rs" "length rs = n" "distinct (map (record_tag ord) rs) = distinct (map e_tag es @ map fst subs @ map fst vals)"
    "record_tag ord ` set rs = set (map e_tag es @ map fst subs @ map fst vals)"
proof -
  show "\<exists>v fo. lay = enc16 ord (of_nat (length rs)) @ concat rs @ enc32 ord v @ entry_exts es @ sub_bytes L2 subs @ fo"
    using assms by (auto simp: layout_def dir_bytes_def Let_def)
  have "records (map (\<lambda>(t, v). pointer_slot ord t v) vals)" by (auto simp: list_all_iff)
  then show "records rs"
    using records_entry_slots [OF assms(2)] records_sub_slots by (simp add: assms(6) list_all_sort)
  show "length rs = n" by (simp add: assms(3,6))
  let ?us = "entry_slots ord L1 es @ sub_slots ord L2 subs @ map (\<lambda>(t, v). pointer_slot ord t v) vals"
  have us: "map (record_tag ord) ?us = map e_tag es @ map fst subs @ map fst vals"
    by (simp only: map_append map_record_tag)
  have "distinct (map (record_tag ord) rs) = distinct (map (record_tag ord) ?us)"
    unfolding assms(6) distinct_map by (simp only: distinct_sort set_sort)
  then show "distinct (map (record_tag ord) rs) = distinct (map e_tag es @ map fst subs @ map fst vals)" unfolding us .
  have "record_tag ord ` set rs = set (map (record_tag ord) ?us)" unfolding assms(6) by (simp only: set_sort set_map)
  then show "record_tag ord ` set rs = set (map e_tag es @ map fst subs @ map fst vals)" unfolding us .
qed

lemma reads_dir:
  assumes al: "plenty al" and bs: "length bs \<le> 0xfffe" "unat ds = length bs" and good: "dir_good W ifd es"
    and subs: "distinct (map fst subs)"
      "\<And>t lay. (t, lay) \<in> set subs \<Longrightarrow> t \<in> pointer_tags \<and> ifd \<notin> covers t \<and> reads bs ord W sub (points_to t) (covers t) None lay"
      "\<And>t t'. \<lbrakk>t \<in> fst ` set subs; t' \<in> fst ` set subs; t \<noteq> t'\<rbrakk> \<Longrightarrow> covers t \<inter> covers t' = {}"
    and Q: "\<Union> (covers ` fst ` set subs) \<subseteq> Q" "\<And>i. i \<in> Q - \<Union> (covers ` fst ` set subs) \<Longrightarrow> W i = Map.empty" "ifd \<notin> Q"
  shows "reads bs ord W (load_content al (Buf bs) ds sub) ifd (insert ifd Q) None (layout ord es subs [] nxt)"
  unfolding reads_def
proof (intro allI impI)
  fix d rest D0
  assume split: "bs = drop 6 d @ layout ord es subs [] nxt (length d) @ rest" and d: "14 \<le> length d"
    and D0: "data_ok D0" "ed_order D0 = ord" and empty: "\<forall>i \<in> insert ifd Q. view D0 i = Map.empty"
  define n where "n = length es + length subs + length ([] :: (u16 \<times> u32) list)"
  define L1 where "L1 = length d + 6 + 12 * n"
  define L2 where "L2 = L1 + length (entry_exts es)"
  define rs where "rs = sort_key (record_tag ord) (entry_slots ord L1 es @ sub_slots ord L2 subs @ map (\<lambda>(t, v). pointer_slot ord t v) [])"
  note l = layout_split [OF refl dir_good_fits [OF good] n_def L1_def L2_def rs_def]
  obtain v fo where lay: "layout ord es subs [] nxt (length d)
      = enc16 ord (of_nat (length rs)) @ concat rs @ enc32 ord v @ entry_exts es @ sub_bytes L2 subs @ fo"
    using l(1) [of nxt] by blast
  note rs = l(2-5)
  define offset :: u32 where "offset = of_nat (length d - 6)"
  have cr: "length (concat rs) = 12 * n" using length_concat_records [OF rs(1)] rs(2) by simp
  have lb: "length d - 6 + 6 + 12 * n \<le> length bs"
    using split cr lay by (simp add: eshort.enc_length elong.enc_length)
  then have uo: "unat offset = length d - 6" unfolding offset_def using bs(1) by (intro unat_word_of_nat_32) simp
  have pts: "fst ` set subs \<subseteq> pointer_tags" using subs(2) by auto
  have tags: "record_tag ord ` set rs = e_tag ` set es \<union> fst ` set subs" using rs(4) by simp
  have sp: "e_tag ` set es \<inter> special_tags = {}" "pointer_tags \<subseteq> special_tags"
    using good by (auto simp: dir_good_def entry_keeps_def pointer_tags_def special_tags_def)
  have dist: "distinct (map (record_tag ord) rs)"
    unfolding rs(3) using good subs(1) sp pts by (auto simp: dir_good_def)
  let ?head = "drop 6 d @ enc16 ord (of_nat (length rs)) @ concat rs @ enc32 ord v"
  have ext: "bs = ?head @ entry_exts es @ (sub_bytes L2 subs @ fo @ rest)" "length ?head = L1 - 6" "6 \<le> L1"
    using split lay cr d by (simp_all add: L1_def eshort.enc_length elong.enc_length)
  have ifd: "ifd < EXIF_IFD_COUNT" using good by (simp add: dir_good_def)
  have step: "\<exists>st'. load_round al (Buf bs) ds sub ifd (offset + 2) k (D, a, b) = Some st' \<and>
      midway W ifd 0 [] D0 (insert (record_tag ord r) T) st'"
    if h: "k < length rs" "r = rs ! k" "bs = pre @ r @ post" "length pre = unat (offset + 2) + 12 * k"
      "T \<subseteq> record_tag ord ` set rs" "record_tag ord r \<notin> T" "midway W ifd 0 [] D0 T (D, a, b)" for k r pre post T D a b
  proof -
    have "r \<in> set rs" using h(1,2) by simp
    then consider (entry) "r \<in> set (entry_slots ord L1 es)" | (pointer) "r \<in> set (sub_slots ord L2 subs)" by (auto simp: rs_def)
    then show ?thesis
    proof cases
      case entry
      show ?thesis by (rule step_entry [OF al bs good D0(2) h(7) entry h(6,3,4) ext])
    next
      case pointer
      obtain t lay q q' where t: "(t, lay) \<in> set subs" "r = pointer_slot ord t (of_nat (L2 + length q - 6))"
          "sub_bytes L2 subs = q @ lay (L2 + length q) @ q'"
        using sub_slots_at [OF pointer] by blast
      have rt: "record_tag ord r = t" using t(2) by (simp add: record_tag_slots)
      have s: "t \<in> pointer_tags" "ifd \<notin> covers t" "reads bs ord W sub (points_to t) (covers t) None lay" using subs(2) [OF t(1)] by auto
      let ?p = "unat (offset + 2) + 12 * k"
      have f: "entry_tag ord bs ?p = t" "dec32 ord (take 4 (drop (?p + 8) bs)) = of_nat (L2 + length q - 6)"
        using slot_fields [of bs pre ord t EXIF_FORMAT_LONG 1 "of_nat (L2 + length q - 6)" post ?p] h(3,4) t(2)
        by (simp_all add: pointer_slot_def)
      let ?d = "d @ enc16 ord (of_nat (length rs)) @ concat rs @ enc32 ord v @ entry_exts es @ q"
      have at: "bs = drop 6 ?d @ lay (L2 + length q) @ (q' @ fo @ rest)" "length ?d = L2 + length q" "14 \<le> L2 + length q"
        using split lay cr d t(3) by (simp_all add: L1_def L2_def eshort.enc_length elong.enc_length)
      have lp: "?p + 12 \<le> length bs" using h(3,4) t(2) by simp
      have wt: "W ifd t = None" using dir_good_special [OF good] s(1) sp(2) by auto
      have dj: "covers t' \<inter> covers t = {}" if "t' \<in> T" for t'
      proof (cases "t' \<in> fst ` set subs")
        case True
        moreover have "t \<in> fst ` set subs" using t(1) by (auto intro: rev_image_eqI)
        moreover have "t' \<noteq> t" using that h(6) rt by auto
        ultimately show ?thesis by (rule subs(3))
      next
        case False
        then have "t' \<in> e_tag ` set es" using that h(5) tags by auto
        then have "t' \<notin> pointer_tags" using sp by auto
        then show ?thesis by (simp add: covers_empty)
      qed
      have mt: "view D0 i = Map.empty" if "i \<in> covers t" for i
      proof -
        have "t \<in> fst ` set subs" using t(1) by (auto intro: rev_image_eqI)
        then have "i \<in> Q" using that Q(1) by blast
        then show ?thesis using empty by blast
      qed
      show ?thesis
        unfolding rt
      proof (rule round_pointer [OF refl lp ifd D0(2) h(7) f s(1) h(6) [unfolded rt] wt s(2)])
        show "\<exists>D'. sub (points_to t) (of_nat (L2 + length q - 6)) D = Some D' \<and> goes W (covers t) None D D'"
          if "data_ok D" "ed_order D = ord" "\<And>i. i \<in> covers t \<Longrightarrow> view D i = Map.empty" for D
          by (rule readsD [OF s(3) at that])
      qed (use dj mt in auto)
    qed
  qed
  have b1: "bs = drop 6 d @ enc16 ord (of_nat (length rs)) @ concat rs @ (enc32 ord v @ entry_exts es @ sub_bytes L2 subs @ fo @ rest)"
    and b2: "length (drop 6 d) = unat offset"
    using split lay uo by simp_all
  have i4: "ifd < EXIF_IFD_COUNT" and e4: "view D0 ifd = Map.empty" using good empty by (simp_all add: dir_good_def)
  have "\<exists>D' a b. load_content al (Buf bs) ds sub ifd offset D0 = Some D' \<and> midway W ifd 0 [] D0 (record_tag ord ` set rs) (D', a, b)"
    by (rule load_dir [OF b1 b2 bs rs(1) dist D0 i4 e4]) (rule step, assumption+)
  then obtain D' a b where D': "load_content al (Buf bs) ds sub ifd offset D0 = Some D'" "midway W ifd 0 [] D0 (record_tag ord ` set rs) (D', a, b)"
    by blast
  note m = midwayD [OF D'(2)]
  have none: "TAG_JPEG_INTERCHANGE_FORMAT \<notin> record_tag ord ` set rs"
    using pts sp by (auto simp: tags pointer_tags_def special_tags_def)
  have cov: "\<Union> (covers ` record_tag ord ` set rs) = \<Union> (covers ` fst ` set subs)"
  proof -
    have "covers t = {}" if "t \<in> e_tag ` set es" for t using that sp by (intro covers_empty) blast
    then show ?thesis unfolding tags by simp
  qed
  have "goes W (insert ifd Q) None D0 D'"
    unfolding goes_def
  proof (intro conjI allI impI)
    show "case None of None \<Rightarrow> same_thumb D0 D' | Some (b, s) \<Rightarrow> ed_data D' = b \<and> ed_size D' = s" using m(7) none by simp
    fix i assume i: "i < EXIF_IFD_COUNT"
    show "view D' i = (if i \<in> insert ifd Q then W i else view D0 i)"
    proof (cases "i = ifd")
      case True
      have "W ifd |` (record_tag ord ` set rs) = W ifd" by (rule dir_good_restrict [OF good]) (simp add: tags)
      then show ?thesis using m(3) True by simp
    next
      case False
      then show ?thesis using m(4) [OF i] Q(1,2) empty unfolding cov by auto
    qed
  qed (use m in auto)
  with D'(1) show "\<exists>D'. load_content al (Buf bs) ds sub ifd (of_nat (length d - 6)) D0 = Some D' \<and> goes W (insert ifd Q) None D0 D'"
    unfolding offset_def by blast
qed

text \<open>The directory with the thumbnail.\<close>

lemma reads_thumb:
  assumes al: "plenty al" and bs: "length bs \<le> 0xfffe" "unat ds = length bs" and good: "dir_good W IFD_1 es" and tn: "tn \<noteq> []"
  shows "reads bs ord W (load_content al (Buf bs) ds sub) IFD_1 {IFD_1} (Some (Buf tn, of_nat (length tn)))
    (layout ord es [(TAG_JPEG_INTERCHANGE_FORMAT, \<lambda>_. tn)] [(TAG_JPEG_INTERCHANGE_FORMAT_LENGTH, of_nat (length tn))] nxt)"
  unfolding reads_def
proof (intro allI impI)
  fix d rest D0
  let ?subs = "[(TAG_JPEG_INTERCHANGE_FORMAT, \<lambda>_ :: nat. tn)]" and ?vals = "[(TAG_JPEG_INTERCHANGE_FORMAT_LENGTH, of_nat (length tn) :: u32)]"
  assume split: "bs = drop 6 d @ layout ord es ?subs ?vals nxt (length d) @ rest" and d: "14 \<le> length d"
    and D0: "data_ok D0" "ed_order D0 = ord" and empty: "\<forall>i \<in> {IFD_1}. view D0 i = Map.empty"
  define n where "n = length es + length ?subs + length ?vals"
  define L1 where "L1 = length d + 6 + 12 * n"
  define L2 where "L2 = L1 + length (entry_exts es)"
  define rs where "rs = sort_key (record_tag ord) (entry_slots ord L1 es @ sub_slots ord L2 ?subs @ map (\<lambda>(t, v). pointer_slot ord t v) ?vals)"
  note l = layout_split [OF refl dir_good_fits [OF good] n_def L1_def L2_def rs_def]
  obtain v fo where lay: "layout ord es ?subs ?vals nxt (length d)
      = enc16 ord (of_nat (length rs)) @ concat rs @ enc32 ord v @ entry_exts es @ sub_bytes L2 ?subs @ fo"
    using l(1) [of nxt] by blast
  note rs = l(2-5)
  define offset :: u32 where "offset = of_nat (length d - 6)"
  define toff :: u32 where "toff = of_nat (L2 - 6)"
  have cr: "length (concat rs) = 12 * n" using length_concat_records [OF rs(1)] rs(2) by simp
  have lb: "length d - 6 + 6 + 12 * n + length (entry_exts es) \<le> length bs"
    using split cr lay by (simp add: eshort.enc_length elong.enc_length)
  then have uo: "unat offset = length d - 6" unfolding offset_def using bs(1) by (intro unat_word_of_nat_32) simp
  have ut: "unat toff = L2 - 6"
    unfolding toff_def using lb bs(1) by (intro unat_word_of_nat_32) (simp add: L2_def L1_def)
  then have tz: "toff \<noteq> 0" using d by (auto simp: L2_def L1_def)
  have sp: "e_tag ` set es \<inter> special_tags = {}"
    using good by (auto simp: dir_good_def entry_keeps_def)
  have tags: "record_tag ord ` set rs = e_tag ` set es \<union> {TAG_JPEG_INTERCHANGE_FORMAT, TAG_JPEG_INTERCHANGE_FORMAT_LENGTH}"
    using rs(4) by simp
  have dist: "distinct (map (record_tag ord) rs)"
    unfolding rs(3) using good sp by (auto simp: dir_good_def special_tags_def)
  let ?head = "drop 6 d @ enc16 ord (of_nat (length rs)) @ concat rs @ enc32 ord v"
  have ext: "bs = ?head @ entry_exts es @ (sub_bytes L2 ?subs @ fo @ rest)" "length ?head = L1 - 6" "6 \<le> L1"
    using split lay cr d by (simp_all add: L1_def eshort.enc_length elong.enc_length)
  have at: "bs = (?head @ entry_exts es) @ tn @ (fo @ rest)" "length (?head @ entry_exts es) = unat toff"
    using ext by (simp_all add: ut L2_def)
  have step: "\<exists>st'. load_round al (Buf bs) ds sub IFD_1 (offset + 2) k (D, a, b) = Some st' \<and>
      midway W IFD_1 toff tn D0 (insert (record_tag ord r) T) st'"
    if h: "k < length rs" "r = rs ! k" "bs = pre @ r @ post" "length pre = unat (offset + 2) + 12 * k"
      "T \<subseteq> record_tag ord ` set rs" "record_tag ord r \<notin> T" "midway W IFD_1 toff tn D0 T (D, a, b)" for k r pre post T D a b
  proof (cases "r \<in> set (entry_slots ord L1 es)")
    case True
    show ?thesis by (rule step_entry [OF al bs good D0(2) h(7) True h(6,3,4) ext])
  next
    case False
    have "r \<in> set rs" using h(1,2) by simp
    then obtain t w where t: "r = pointer_slot ord t w"
        "(t, w) = (TAG_JPEG_INTERCHANGE_FORMAT, toff) \<or> (t, w) = (TAG_JPEG_INTERCHANGE_FORMAT_LENGTH, of_nat (length tn))"
      using False by (auto simp: rs_def toff_def)
    have rt: "record_tag ord r = t" using t(1) by (simp add: record_tag_slots)
    let ?p = "unat (offset + 2) + 12 * k"
    have f: "entry_tag ord bs ?p = t" "dec32 ord (take 4 (drop (?p + 8) bs)) = w"
      using slot_fields [of bs pre ord t EXIF_FORMAT_LONG 1 w post ?p] h(3,4) t(1) by (simp_all add: pointer_slot_def)
    have lp: "?p + 12 \<le> length bs" using h(3,4) t(1) by simp
    have wt: "W IFD_1 t = None" using t(2) by (intro dir_good_special [OF good]) (auto simp: special_tags_def)
    show ?thesis
      unfolding rt
      by (rule round_thumb [OF refl lp _ D0(2) h(7) f h(6) [unfolded rt] wt t(2) al at tn tz bs]) simp
  qed
  have b1: "bs = drop 6 d @ enc16 ord (of_nat (length rs)) @ concat rs @ (enc32 ord v @ entry_exts es @ sub_bytes L2 ?subs @ fo @ rest)"
    and b2: "length (drop 6 d) = unat offset"
    using split lay uo by simp_all
  have i4: "IFD_1 < EXIF_IFD_COUNT" and e4: "view D0 IFD_1 = Map.empty" using good empty by (simp_all add: dir_good_def)
  have "\<exists>D' a b. load_content al (Buf bs) ds sub IFD_1 offset D0 = Some D' \<and> midway W IFD_1 toff tn D0 (record_tag ord ` set rs) (D', a, b)"
    by (rule load_dir [OF b1 b2 bs rs(1) dist D0 i4 e4]) (rule step, assumption+)
  then obtain D' a b where D': "load_content al (Buf bs) ds sub IFD_1 offset D0 = Some D'"
      "midway W IFD_1 toff tn D0 (record_tag ord ` set rs) (D', a, b)"
    by blast
  note m = midwayD [OF D'(2)]
  have cov: "\<Union> (covers ` record_tag ord ` set rs) = {}"
    using sp by (auto simp: tags special_tags_def covers_def)
  have "goes W {IFD_1} (Some (Buf tn, of_nat (length tn))) D0 D'"
    unfolding goes_def
  proof (intro conjI allI impI)
    show "case Some (Buf tn, of_nat (length tn)) of None \<Rightarrow> same_thumb D0 D' | Some (b, s) \<Rightarrow> ed_data D' = b \<and> ed_size D' = s"
      using m(7) by (simp add: tags)
    fix i assume i: "i < EXIF_IFD_COUNT"
    have "W IFD_1 |` (record_tag ord ` set rs) = W IFD_1" by (rule dir_good_restrict [OF good]) (auto simp: tags)
    then show "view D' i = (if i \<in> {IFD_1} then W i else view D0 i)"
      using m(3) m(4) [OF i] cov by (cases "i = IFD_1") auto
  qed (use m in auto)
  with D'(1) show "\<exists>D'. load_content al (Buf bs) ds sub IFD_1 (of_nat (length d - 6)) D0 = Some D' \<and>
      goes W {IFD_1} (Some (Buf tn, of_nat (length tn))) D0 D'"
    unfolding offset_def by blast
qed

section \<open>The whole file\<close>

text \<open>What is kept by saving and loading: data present, tags that are known in their directory and not treated apart.\<close>

definition keeps :: "ExifData \<Rightarrow> bool" where
  "keeps data \<longleftrightarrow> (\<forall>i < EXIF_IFD_COUNT. \<forall>e \<in> set (entries_of data i). entry_keeps i e)"

lemma view_dir_good:
  assumes ok: "data_ok data" and "keeps data" and i: "i < EXIF_IFD_COUNT"
  shows "dir_good (view data) i (entries_of data i)"
  unfolding dir_good_def
proof (intro conjI ballI i)
  note c = data_okD [OF ok i]
  have tg: "map e_tag (entries_of data i) = map (tag_at (ed_store data)) (c_entries (ed_ifd data ! i))"
    by (simp add: entries_of_def tag_at_def)
  show "distinct (map e_tag (entries_of data i))" unfolding tg using c(1) by (simp add: content_ok_def)
  show "dom (view data i) \<subseteq> e_tag ` set (entries_of data i)" using view_Some_iff [OF ok i] by auto
  fix e assume e: "e \<in> set (entries_of data i)"
  then obtain a where "a \<in> set (c_entries (ed_ifd data ! i))" "e = the (st_heap (ed_store data) a)" by (auto simp: entries_of_def)
  then show "entry_ok e" using c(1) by (auto simp: content_ok_def held_def)
  show "entry_keeps i e" using assms(2) i e by (simp add: keeps_def)
  show "view data i (e_tag e) = Some (e_format e, e_components e, e_data e)" using view_Some_iff [OF ok i] e by blast
qed

lemma reads_levels:
  "reads bs ord W (load_content al (Buf bs) ds (load_levels al (Buf bs) ds k)) j P th lay \<Longrightarrow> j < EXIF_IFD_COUNT
   \<Longrightarrow> reads bs ord W (load_levels al (Buf bs) ds (Suc k)) j P th lay"
  by (simp add: reads_def)

lemma view_empty_count: "data_ok data \<Longrightarrow> i < EXIF_IFD_COUNT \<Longrightarrow> length (c_entries (ed_ifd data ! i)) = 0 \<Longrightarrow> view data i = Map.empty"
  by (simp add: view_empty_iff)

lemma reads_leaf:
  assumes al: "plenty al" and bs: "length bs \<le> 0xfffe" "unat ds = length bs" and data: "data_ok data" "keeps data" and i: "i < EXIF_IFD_COUNT"
  shows "reads bs (ed_order data) (view data) (load_levels al (Buf bs) ds (Suc k)) i {i} None (lay_leaf data i)"
  unfolding lay_leaf_def
  using reads_dir [OF al bs view_dir_good [OF data i], of "[]" "ed_order data" "load_levels al (Buf bs) ds k" "{}" None] i
  by (intro reads_levels) simp_all

lemma reads_exif:
  assumes al: "plenty al" and bs: "length bs \<le> 0xfffe" "unat ds = length bs" and data: "data_ok data" "keeps data"
  shows "reads bs (ed_order data) (view data) (load_levels al (Buf bs) ds (Suc (Suc k))) IFD_EXIF {IFD_EXIF, IFD_INTEROPERABILITY} None (lay_exif data)"
proof -
  let ?subs = "if ifd_count data IFD_INTEROPERABILITY \<noteq> 0
      then [(TAG_INTEROPERABILITY_IFD_POINTER, lay_leaf data IFD_INTEROPERABILITY)] else []"
  have g: "dir_good (view data) IFD_EXIF (entries_of data IFD_EXIF)" by (rule view_dir_good [OF data]) simp
  have "reads bs (ed_order data) (view data) (load_content al (Buf bs) ds (load_levels al (Buf bs) ds (Suc k))) IFD_EXIF
      (insert IFD_EXIF {IFD_INTEROPERABILITY}) None (lay_exif data)"
    unfolding lay_exif_def
  proof (rule reads_dir [OF al bs g])
    fix t lay assume "(t, lay) \<in> set ?subs"
    then have "t = TAG_INTEROPERABILITY_IFD_POINTER" "lay = lay_leaf data IFD_INTEROPERABILITY" by (auto split: if_splits)
    then show "t \<in> pointer_tags \<and> IFD_EXIF \<notin> covers t \<and>
        reads bs (ed_order data) (view data) (load_levels al (Buf bs) ds (Suc k)) (points_to t) (covers t) None lay"
      using reads_leaf [OF al bs data, of IFD_INTEROPERABILITY k] by (simp add: pointer_tags_def covers_def points_to_def)
  next
    fix i assume "i \<in> {IFD_INTEROPERABILITY} - \<Union> (covers ` fst ` set ?subs)"
    then show "view data i = Map.empty"
      using view_empty_count [OF data(1), of IFD_INTEROPERABILITY] by (auto simp: covers_def split: if_splits)
  qed (auto simp: covers_def split: if_splits)
  then show ?thesis by (intro reads_levels) simp_all
qed

lemma reads_0:
  assumes al: "plenty al" and bs: "length bs \<le> 0xfffe" "unat ds = length bs" and data: "data_ok data" "keeps data"
  shows "reads bs (ed_order data) (view data) (load_levels al (Buf bs) ds (Suc (Suc (Suc k)))) IFD_0
    {IFD_0, IFD_EXIF, IFD_GPS, IFD_INTEROPERABILITY} None (lay_0 data)"
proof -
  let ?subs = "(if ifd_count data IFD_EXIF \<noteq> 0 \<or> ifd_count data IFD_INTEROPERABILITY \<noteq> 0
       then [(TAG_EXIF_IFD_POINTER, lay_exif data)] else []) @
      (if ifd_count data IFD_GPS \<noteq> 0 then [(TAG_GPS_INFO_IFD_POINTER, lay_leaf data IFD_GPS)] else [])"
  have g: "dir_good (view data) IFD_0 (entries_of data IFD_0)" by (rule view_dir_good [OF data]) simp
  have fs: "fst ` set ?subs = (if ifd_count data IFD_EXIF \<noteq> 0 \<or> ifd_count data IFD_INTEROPERABILITY \<noteq> 0 then {TAG_EXIF_IFD_POINTER} else {})
      \<union> (if ifd_count data IFD_GPS \<noteq> 0 then {TAG_GPS_INFO_IFD_POINTER} else {})"
    by auto
  have "reads bs (ed_order data) (view data) (load_content al (Buf bs) ds (load_levels al (Buf bs) ds (Suc (Suc k)))) IFD_0
      (insert IFD_0 {IFD_EXIF, IFD_GPS, IFD_INTEROPERABILITY}) None (lay_0 data)"
    unfolding lay_0_def
  proof (rule reads_dir [OF al bs g])
    fix t lay assume "(t, lay) \<in> set ?subs"
    then have "(t, lay) = (TAG_EXIF_IFD_POINTER, lay_exif data) \<or> (t, lay) = (TAG_GPS_INFO_IFD_POINTER, lay_leaf data IFD_GPS)"
      by (auto split: if_splits)
    then show "t \<in> pointer_tags \<and> IFD_0 \<notin> covers t \<and>
        reads bs (ed_order data) (view data) (load_levels al (Buf bs) ds (Suc (Suc k))) (points_to t) (covers t) None lay"
      using reads_exif [OF al bs data, of k] reads_leaf [OF al bs data, of IFD_GPS "Suc k"]
      by (auto simp: pointer_tags_def covers_def points_to_def simp del: load_levels.simps)
  next
    fix i assume "i \<in> {IFD_EXIF, IFD_GPS, IFD_INTEROPERABILITY} - \<Union> (covers ` fst ` set ?subs)"
    then show "view data i = Map.empty"
      using view_empty_count [OF data(1), of IFD_INTEROPERABILITY] view_empty_count [OF data(1), of IFD_EXIF]
        view_empty_count [OF data(1), of IFD_GPS]
      unfolding fs by (auto simp: covers_def split: if_splits)
  next
    fix t t' assume "t \<in> fst ` set ?subs" "t' \<in> fst ` set ?subs" "t \<noteq> t'"
    then show "covers t \<inter> covers t' = {}" unfolding fs by (auto simp: covers_def split: if_splits)
  next
    show "\<Union> (covers ` fst ` set ?subs) \<subseteq> {IFD_EXIF, IFD_GPS, IFD_INTEROPERABILITY}"
      unfolding fs by (auto simp: covers_def)
  qed simp_all
  then show ?thesis by (intro reads_levels) simp_all
qed

definition thumb_of :: "ExifData \<Rightarrow> (cbuf \<times> u32) option" where
  "thumb_of data = (if ed_size data \<noteq> 0 then Some (ed_data data, ed_size data) else None)"

lemma reads_1:
  assumes al: "plenty al" and bs: "length bs \<le> 0xfffe" "unat ds = length bs" and data: "data_ok data" "keeps data"
  shows "reads bs (ed_order data) (view data) (load_levels al (Buf bs) ds (Suc k)) IFD_1 {IFD_1} (thumb_of data) (lay_1 data)"
proof -
  have g: "dir_good (view data) IFD_1 (entries_of data IFD_1)" by (rule view_dir_good [OF data]) simp
  have "reads bs (ed_order data) (view data) (load_content al (Buf bs) ds (load_levels al (Buf bs) ds k)) IFD_1 {IFD_1} (thumb_of data) (lay_1 data)"
  proof (cases "ed_size data = 0")
    case True
    then have l: "lay_1 data = layout (ed_order data) (entries_of data IFD_1) [] [] None" "thumb_of data = None"
      by (simp_all add: lay_1_def thumb_of_def)
    show ?thesis
      unfolding l using reads_dir [OF al bs g, of "[]" "ed_order data" "load_levels al (Buf bs) ds k" "{}" None] by simp
  next
    case False
    then obtain tn where tn: "ed_data data = Buf tn" "length tn = unat (ed_size data)"
      using data(1) by (auto simp: data_ok_def thumb_ok_def)
    then have sz: "ed_size data = of_nat (length tn)" "tn \<noteq> []" using False by (auto simp: unat_eq_0)
    have l: "lay_1 data = layout (ed_order data) (entries_of data IFD_1) [(TAG_JPEG_INTERCHANGE_FORMAT, \<lambda>_. tn)]
        [(TAG_JPEG_INTERCHANGE_FORMAT_LENGTH, of_nat (length tn))] None" "thumb_of data = Some (Buf tn, of_nat (length tn))"
      using False tn(1) sz(1) by (simp_all add: lay_1_def thumb_of_def)
    show ?thesis unfolding l by (rule reads_thumb [OF al bs g sz(2)])
  qed
  then show ?thesis by (intro reads_levels) simp_all
qed

lemma layout_next:
  assumes "list_all entry_fit es"
  shows "\<exists>rs mid. records rs \<and> layout ord es subs [] nxt L = enc16 ord (of_nat (length rs)) @ concat rs
    @ enc32 ord (case nxt of None \<Rightarrow> 0 | Some lay \<Rightarrow> of_nat (L + 12 * length rs + length mid)) @ mid
    @ (case nxt of None \<Rightarrow> [] | Some lay \<Rightarrow> lay (L + 6 + 12 * length rs + length mid))"
proof -
  define L1 where "L1 = L + 6 + 12 * (length es + length subs + length ([] :: (u16 \<times> u32) list))"
  define L2 where "L2 = L1 + length (entry_exts es)"
  let ?rs = "sort_key (record_tag ord) (entry_slots ord L1 es @ sub_slots ord L2 subs @ map (\<lambda>(t, v). pointer_slot ord t v) [])"
  note l = layout_split(2,3) [OF refl assms refl L1_def L2_def refl]
  have "layout ord es subs [] nxt L = enc16 ord (of_nat (length ?rs)) @ concat ?rs
      @ enc32 ord (case nxt of None \<Rightarrow> 0 | Some lay \<Rightarrow> of_nat (L + 12 * length ?rs + length (entry_exts es @ sub_bytes L2 subs)))
      @ (entry_exts es @ sub_bytes L2 subs)
      @ (case nxt of None \<Rightarrow> [] | Some lay \<Rightarrow> lay (L + 6 + 12 * length ?rs + length (entry_exts es @ sub_bytes L2 subs)))"
    by (cases nxt) (simp_all add: layout_def Let_def dir_bytes_def L1_def L2_def algebra_simps)
  with l(1) show ?thesis by blast
qed

lemma goes_trans:
  "goes W P None a b \<Longrightarrow> goes W Q th b c \<Longrightarrow> goes W (P \<union> Q) th a c"
  by (auto simp: goes_def intro: same_frame_trans same_thumb_trans split: option.splits)

lemma goes_refl: "data_ok D \<Longrightarrow> (\<And>i. i \<in> P \<Longrightarrow> view D i = W i) \<Longrightarrow> goes W P None D D"
  by (auto simp: goes_def same_thumb_def)

text \<open>The two directories that the file starts with, from the header on.\<close>

lemma load_ifds_saved:
  assumes al: "plenty al" and data: "data_ok data" "keeps data" and len: "length (file_bytes data) \<le> 0xfffe"
    and D0: "data_ok D0" "ed_order D0 = ed_order data" "\<And>i. i < EXIF_IFD_COUNT \<Longrightarrow> view D0 i = Map.empty"
  shows "\<exists>D'. load_ifds_at al (Buf (file_bytes data)) (of_nat (length (file_bytes data))) 8 D0 = Some (D', True) \<and>
    goes (view data) {..<EXIF_IFD_COUNT} (thumb_of data) D0 D'"
proof -
  let ?ord = "ed_order data" and ?W = "view data"
  let ?hd = "file_head ?ord"
  have hd: "length ?hd = 14" by (simp add: file_head_def ExifHeader_def eshort.enc_length elong.enc_length)
  let ?next = "ifd_count data IFD_1 \<noteq> 0 \<or> ed_size data \<noteq> 0"
  let ?nxt = "if ?next then Some (lay_1 data) else None"
  have fits: "list_all entry_fit (entries_of data IFD_0)" by (rule dir_fitD(2) [OF data_ok_fit [OF data(1)]]) simp
  obtain rs mid where rs: "records rs" and lay: "lay_0 data 14 = enc16 ?ord (of_nat (length rs)) @ concat rs
      @ enc32 ?ord (case ?nxt of None \<Rightarrow> 0 | Some lay \<Rightarrow> of_nat (14 + 12 * length rs + length mid)) @ mid
      @ (case ?nxt of None \<Rightarrow> [] | Some lay \<Rightarrow> lay (14 + 6 + 12 * length rs + length mid))"
    unfolding lay_0_def using layout_next [OF fits] by blast
  define f where "f = file_bytes data"
  define ds :: u32 where "ds = of_nat (length f)"
  define bs where "bs = drop 6 f"
  define v :: u32 where "v = (if ?next then of_nat (14 + 12 * length rs + length mid) else 0)"
  define fo where "fo = (if ?next then lay_1 data (20 + 12 * length rs + length mid) else [])"
  let ?n = "of_nat (length rs) :: u16"
  have f: "f = ?hd @ enc16 ?ord ?n @ concat rs @ enc32 ?ord v @ mid @ fo"
    using lay by (simp add: f_def file_bytes_def v_def fo_def)
  have cr: "length (concat rs) = 12 * length rs" using length_concat_records [OF rs] by simp
  have fl: "length f = 20 + 12 * length rs + length mid + length fo" "length f \<le> 0xfffe"
    using f hd cr len by (simp_all add: eshort.enc_length elong.enc_length f_def [symmetric])
  have uds: "unat ds = length f" unfolding ds_def using fl(2) by (intro unat_word_of_nat_32) simp
  have bs: "length bs \<le> 0xfffe" "unat (ds - 6) = length bs"
    using fl uds by (simp_all add: bs_def unat_sub word_le_nat_alt)
  have bs0: "bs = drop 6 ?hd @ lay_0 data 14 @ []" unfolding bs_def f_def file_bytes_def using hd by simp
  have s: "Suc (Suc (Suc 28)) = 31" "Suc 30 = 31" by simp_all
  note r0 = reads_0 [OF al bs data, of 28, unfolded s] and r1 = reads_1 [OF al bs data, of 30, unfolded s]
  have "\<exists>D1. load_levels al (Buf bs) (ds - 6) 31 IFD_0 (of_nat (14 - 6)) D0 = Some D1 \<and>
      goes ?W {IFD_0, IFD_EXIF, IFD_GPS, IFD_INTEROPERABILITY} None D0 D1"
    by (rule readsD [OF r0 bs0 hd _ D0(1,2)]) (use D0(3) in auto)
  then obtain D1 where D1: "load_levels al (Buf bs) (ds - 6) 31 IFD_0 8 D0 = Some D1"
      "goes ?W {IFD_0, IFD_EXIF, IFD_GPS, IFD_INTEROPERABILITY} None D0 D1"
    by auto
  have D1': "data_ok D1" "ed_order D1 = ?ord" "view D1 IFD_1 = Map.empty"
    using D1(2) D0(2,3) by (auto simp: goes_def same_frame_def)
  have un: "unat ?n = length rs" using fl by (simp add: unat_of_nat)
  have u12: "unat (12 * ucast ?n :: u32) = 12 * length rs"
    using fl by (simp add: unat_word_ariths unsigned_ucast_eq take_bit_nat_eq_self un)
  have g1: "exif_get_short (Buf f) (6 + unat (8 :: u32)) ?ord = Some ?n"
    using take_drop_app [of ?hd 14 "enc16 ?ord ?n" 2] hd fl(1) f by (simp add: get_short_Buf eshort.enc_length eshort.dec_enc)
  have g2: "exif_get_long (Buf f) (6 + unat (8 :: u32) + 2 + 12 * unat ?n) ?ord = Some v"
    using take_drop_app [of "?hd @ enc16 ?ord ?n @ concat rs" "16 + 12 * length rs" "enc32 ?ord v" 4 "mid @ fo"] hd cr fl(1) f
    by (simp add: get_long_Buf eshort.enc_length elong.enc_length elong.dec_enc un)
  have c1: "\<not> ((8 :: u32) > ds \<or> 8 + 6 + 2 > ds)" using uds fl by (simp add: word_less_nat_alt)
  have "unat (8 + 6 + 2 + 12 * ucast ?n + 4 :: u32) = 20 + 12 * length rs"
    using u12 fl by (simp add: unat_word_ariths)
  then have c2: "\<not> (8 + 6 + 2 + 12 * ucast ?n + 4 > ds)" using uds fl by (simp add: word_less_nat_alt)
  have "\<exists>D'. (if v \<noteq> 0 \<and> \<not> (v > ds \<or> v + 6 > ds) then load_levels al (Buf bs) (ds - 6) 31 IFD_1 v D1 else Some D1) = Some D' \<and>
      goes ?W {IFD_1} (thumb_of data) D1 D'"
  proof (cases ?next)
    case True
    let ?L = "20 + 12 * length rs + length mid"
    let ?d = "?hd @ enc16 ?ord ?n @ concat rs @ enc32 ?ord v @ mid"
    have v: "v = of_nat (?L - 6)" using True by (simp add: v_def)
    have uv: "unat v = ?L - 6" unfolding v using fl by (intro unat_word_of_nat_32) simp
    have "unat (v + 6) = ?L" using uv fl by (simp add: unat_word_ariths)
    then have go: "v \<noteq> 0" "\<not> (v > ds \<or> v + 6 > ds)" using uv uds fl by (auto simp: word_less_nat_alt)
    have "bs = drop 6 ?d @ lay_1 data ?L @ []" "length ?d = ?L" "14 \<le> ?L"
      using f hd cr True by (simp_all add: bs_def fo_def eshort.enc_length elong.enc_length)
    then have "\<exists>D'. load_levels al (Buf bs) (ds - 6) 31 IFD_1 v D1 = Some D' \<and> goes ?W {IFD_1} (thumb_of data) D1 D'"
      unfolding v by (rule readsD [OF r1 _ _ _ D1'(1,2)]) (use D1'(3) in auto)
    with go show ?thesis by simp
  next
    case False
    then have "view data IFD_1 = Map.empty" "v = 0" "thumb_of data = None"
      using view_empty_count [OF data(1), of IFD_1] by (simp_all add: v_def thumb_of_def)
    then show ?thesis using D1'(1,3) goes_refl [of D1 "{IFD_1}" ?W] by (intro exI [of _ D1]) simp
  qed
  then obtain D' where D': "(if v \<noteq> 0 \<and> \<not> (v > ds \<or> v + 6 > ds) then load_levels al (Buf bs) (ds - 6) 31 IFD_1 v D1 else Some D1) = Some D'"
      "goes ?W {IFD_1} (thumb_of data) D1 D'" by blast
  have all: "{IFD_0, IFD_EXIF, IFD_GPS, IFD_INTEROPERABILITY} \<union> {IFD_1} = {..<EXIF_IFD_COUNT}" by auto
  have "load_ifds_at al (Buf f) ds 8 D0 = Some (D', True)"
    unfolding load_ifds_at_def if_not_P [OF c1] exif_data_load_data_content_def diff_zero ptr_add.simps bs_def [symmetric] D1(1)
      Option.bind.simps D1'(2) g1 if_not_P [OF c2] g2 D'(1) ..
  then show ?thesis
    using goes_trans [OF D1(2) D'(2)] unfolding all f_def ds_def by blast
qed

text \<open>A structure whose directories are all empty, as \<open>exif_data_new\<close> makes it.\<close>

definition blank :: "ExifData \<Rightarrow> bool" where
  "blank data \<longleftrightarrow> list_all (\<lambda>c. c_entries c = []) (ed_ifd data)"

lemma blank_view:
  assumes "data_ok data" and "blank data" and "i < EXIF_IFD_COUNT"
  shows "view data i = Map.empty"
  using assms data_okD(2) [OF assms(1,3)] by (intro view_empty_iff [OF assms(1,3), THEN iffD2]) (simp add: blank_def list_all_length)

lemma saved_file_loads:
  assumes "plenty al" and "data_ok data" and "keeps data" and "length (file_bytes data) \<le> 0xfffe"
    and "data_ok data0" and "blank data0"
  shows "\<exists>d ds data'. exif_data_save_data al data = Some (d, ds) \<and> load_data_ifds al d ds data0 = Some (data', True) \<and>
    data_ok data' \<and> ed_order data' = ed_order data \<and> (\<forall>i < EXIF_IFD_COUNT. view data' i = view data i) \<and>
    (if ed_size data = 0 then same_thumb data0 data' else same_thumb data data') \<and>
    ed_options data' = ed_options data0 \<and> d = Buf (file_bytes data) \<and> ds = of_nat (length (file_bytes data))"
proof -
  let ?ord = "ed_order data"
  define f where "f = file_bytes data"
  define ds :: u32 where "ds = of_nat (length f)"
  let ?o = "if ?ord = EXIF_BYTE_ORDER_INTEL then [0x49, 0x49] else [0x4d, 0x4d] :: bytes"
  have f: "f = ExifHeader @ ?o @ enc16 ?ord 0x002a @ enc32 ?ord 8 @ lay_0 data 14"
    by (simp add: f_def file_bytes_def file_head_def)
  have hl: "length ExifHeader = 6" "length ?o = 2" by (simp_all add: ExifHeader_def)
  have fl: "14 \<le> length f" "length f \<le> 0xfffe"
    using f hl assms(4) by (simp_all add: eshort.enc_length elong.enc_length f_def [symmetric])
  have uds: "unat ds = length f" unfolding ds_def using fl by (intro unat_word_of_nat_32) simp
  have rd: "rd_range (Buf f) 0 6 = Some ExifHeader" "rd_range (Buf f) 6 2 = Some ?o"
    using f hl fl by simp_all
  have g: "exif_get_short (Buf f) 8 ?ord = Some 0x002a" "exif_get_long (Buf f) 10 ?ord = Some 8"
    using f hl fl by (simp_all add: get_short_Buf get_long_Buf eshort.enc_length elong.enc_length eshort.dec_enc elong.dec_enc)
  have oo: "?o \<noteq> [0x49, 0x49] \<and> ?o \<noteq> [0x4d, 0x4d] \<longleftrightarrow> False" "(if ?o = [0x49, 0x49] then EXIF_BYTE_ORDER_INTEL else EXIF_BYTE_ORDER_MOTOROLA) = ?ord"
    by (cases ?ord; simp)+
  have c: "\<not> ds < 6" "\<not> ds < 14" "\<not> ds > 0xfffe" "ds \<noteq> 0" using uds fl by (auto simp: word_less_nat_alt)
  let ?D0 = "data0\<lparr>ed_order := ?ord\<rparr>"
  have "view ?D0 i = Map.empty" if "i < EXIF_IFD_COUNT" for i
    using blank_view [of ?D0 i] assms(5,6) that by (simp add: blank_def)
  then obtain D' where D': "load_ifds_at al (Buf f) ds 8 ?D0 = Some (D', True)"
      "goes (view data) {..<EXIF_IFD_COUNT} (thumb_of data) ?D0 D'"
    using load_ifds_saved [OF assms(1-4), of ?D0] assms(5) unfolding f_def ds_def by auto
  have "load_tiff al (Buf f) ds data0 = Some (D', True)"
    unfolding load_tiff_def if_not_P [OF c(1)] rd Option.bind.simps Let_def if_not_P [OF c(3)] oo using c g D'(1) by simp
  then have ld: "load_data_ifds al (Buf f) ds data0 = Some (D', True)"
    using c(1,4) rd(1) uds by (simp add: load_data_ifds_def ds_def [symmetric] del: rd_range.simps)
  have sv: "exif_data_save_data al data = Some (Buf f, ds)"
    unfolding f_def ds_def using assms(4) by (intro save_data_eq [OF assms(1,2)]) simp
  have "ed_order D' = ?ord" "data_ok D'" "\<forall>i < EXIF_IFD_COUNT. view D' i = view data i"
      "if ed_size data = 0 then same_thumb data0 D' else same_thumb data D'"
      "ed_options D' = ed_options data0"
    using D'(2) by (auto simp: goes_def same_frame_def same_thumb_def thumb_of_def split: if_splits)
  with sv ld show ?thesis unfolding f_def ds_def by blast
qed

text \<open>
  C4. Saving and loading are inverse to each other. If every entry has data and a tag that is known in its
  directory and none of the five tags that the code writes itself, and the file is not longer than the loader
  reads, then loading what \<open>exif_data_save_data\<close> returns into an empty structure goes through to the end
  and gives the same byte order, in each of the five directories the same tags with the same formats, counts
  and data, and the same thumbnail, although the records are sorted, the data lie elsewhere and
  the directories are reached through pointers that were not there before.
\<close>

theorem save_load_roundtrip:
  assumes "plenty al" and "data_ok data" and "keeps data" and "length (file_bytes data) \<le> 0xfffe"
    and "data_ok data0" and "blank data0"
  shows "\<exists>d ds data'. exif_data_save_data al data = Some (d, ds) \<and> load_data_ifds al d ds data0 = Some (data', True) \<and>
    data_ok data' \<and> ed_order data' = ed_order data \<and> (\<forall>i < EXIF_IFD_COUNT. view data' i = view data i) \<and>
    (if ed_size data = 0 then same_thumb data0 data' else same_thumb data data')"
proof -
  obtain d ds data' where r: "exif_data_save_data al data = Some (d, ds)" "load_data_ifds al d ds data0 = Some (data', True)"
      "data_ok data'" "ed_order data' = ed_order data" "\<forall>i < EXIF_IFD_COUNT. view data' i = view data i"
      "if ed_size data = 0 then same_thumb data0 data' else same_thumb data data'"
    using saved_file_loads [OF assms] by (elim exE conjE)
  show ?thesis by (intro exI conjI) (fact r)+
qed

lemma sample_keeps: "keeps sample_data"
proof -
  have "exif_tag_get_name_in_ifd 0x10f 0 \<noteq> None" "exif_tag_get_name_in_ifd 0x9000 2 \<noteq> None" "exif_tag_get_name_in_ifd 1 3 \<noteq> None"
    by (simp_all add: name_in_ifd_find rows_def chunks RECORDED_def ESL_OOOO_def ESL_MMMM_def ESL_GPS_def ESL_DEF_def)
  then show ?thesis
    unfolding keeps_def all_ifds by (simp add: sample_data_def entries_of_def sample_entry_def entry_keeps_def special_tags_def)
qed

lemma new_data_blank: "blank new_data"
  by (simp add: blank_def new_data_def exif_data_new_mem_def exif_mem_alloc_def mem_ok_def exif_content_new_mem_def
      exif_data_set_data_type_def exif_data_set_option_def numeral_eq_Suc)

lemma sample_fields: "ed_order sample_data = EXIF_BYTE_ORDER_INTEL" "ed_size sample_data = 3" "ed_data sample_data = Buf [0xff, 0xd8, 0xff]"
  by (simp_all add: sample_data_def)

theorem save_load_roundtrip_witness:
  "\<exists>d ds data'. exif_data_save_data mem_ok sample_data = Some (d, ds) \<and> load_data_ifds mem_ok d ds new_data = Some (data', True) \<and>
    data_ok data' \<and> ed_order data' = EXIF_BYTE_ORDER_INTEL \<and> (\<forall>i < EXIF_IFD_COUNT. view data' i = view sample_data i) \<and>
    ed_data data' = Buf [0xff, 0xd8, 0xff]"
  using save_load_roundtrip [of mem_ok sample_data new_data] sample_data_ok sample_keeps new_data_ok new_data_blank
  by (auto simp: sample_length plenty_def mem_ok_def sample_fields same_thumb_def)

end
