(* ===== verification/Jpeg_Roundtrip.thy ===== *)
theory Jpeg_Roundtrip
  imports Jpeg_Data Exif_Roundtrip
begin

text \<open>
  Loading a JPEG file that was saved. The EXIF part rests on the round trip of the EXIF library: the loader is
  shown to ignore what is behind the length it is given, and to find its data behind the marker of the
  section. The last theorem is about a file that does not start with 0xff.
\<close>

section \<open>A longer buffer\<close>

text \<open>
  The EXIF loader gets a pointer into the file and a length. If it stays inside the length, it does the same
  whatever is behind: \<open>opt_le x y\<close> says that \<open>y\<close> is \<open>x\<close> unless \<open>x\<close> is a fault.
\<close>

definition opt_le :: "'a option \<Rightarrow> 'a option \<Rightarrow> bool" where
  "opt_le x y \<longleftrightarrow> x = None \<or> x = y"

lemma opt_le_refl: "opt_le x x"
  by (simp add: opt_le_def)

lemma opt_leD: "opt_le x y \<Longrightarrow> x = Some v \<Longrightarrow> y = Some v"
  by (auto simp: opt_le_def)

lemma opt_le_bind:
  assumes "opt_le x y" and "\<And>v. opt_le (f v) (g v)"
  shows "opt_le (x \<bind> f) (y \<bind> g)"
  using assms(1) assms(2) [of "the x"] by (cases x) (auto simp: opt_le_def)

lemma opt_le_if: "(c \<Longrightarrow> opt_le x y) \<Longrightarrow> (\<not> c \<Longrightarrow> opt_le x' y') \<Longrightarrow> opt_le (if c then x else x') (if c then y else y')"
  by simp

lemma opt_le_prod: "(\<And>a b. opt_le (f a b) (g a b)) \<Longrightarrow> opt_le (case_prod f p) (case_prod g p)"
  by (cases p) simp

lemma opt_le_option: "opt_le x y \<Longrightarrow> (\<And>v. opt_le (f v) (g v)) \<Longrightarrow> opt_le (case_option x f q) (case_option y g q)"
  by (cases q) simp_all

lemma opt_le_let: "(\<And>v. opt_le (f v) (g v)) \<Longrightarrow> opt_le (Let v f) (Let v g)"
  by simp

lemma opt_le_foldM: "(\<And>x s. opt_le (f x s) (g x s)) \<Longrightarrow> opt_le (foldM f xs s) (foldM g xs s)"
  by (induction xs arbitrary: s) (auto intro!: opt_le_refl opt_le_bind)

lemmas opt_le_rules = opt_le_bind opt_le_if opt_le_prod opt_le_option opt_le_let opt_le_foldM opt_le_refl

lemma rd_longer: "opt_le (rd (Buf g) i) (rd (Buf (g @ r)) i)"
  by (simp add: opt_le_def nth_append)

lemma rd_range_longer: "opt_le (rd_range (Buf g) p n) (rd_range (Buf (g @ r)) p n)"
  by (simp add: opt_le_def)

lemma get_short_longer: "opt_le (exif_get_short (Buf g) p ord) (exif_get_short (Buf (g @ r)) p ord)"
  unfolding exif_get_short_def exif_get_sshort_def
  by (cases ord) (simp_all only: cbuf.distinct if_False ExifByteOrder.case, (intro opt_le_rules rd_longer)+)

lemma get_long_longer: "opt_le (exif_get_long (Buf g) p ord) (exif_get_long (Buf (g @ r)) p ord)"
  unfolding exif_get_long_def exif_get_slong_def
  by (cases ord) (simp_all only: cbuf.distinct if_False ExifByteOrder.case, (intro opt_le_rules rd_longer)+)

lemmas longer = rd_longer rd_range_longer get_short_longer get_long_longer

lemma skip_ff_longer: "opt_le (skip_ff (Buf g) p n) (skip_ff (Buf (g @ r)) p n)"
proof (induction n arbitrary: p)
  case (Suc n)
  then show ?case unfolding skip_ff.simps by (intro opt_le_rules longer)
qed (simp add: opt_le_refl)

lemma opt_le_bind_Some:
  assumes "opt_le x y" and "\<And>v. x = Some v \<Longrightarrow> opt_le (f v) (g v)"
  shows "opt_le (x \<bind> f) (y \<bind> g)"
  using assms by (cases x) (auto simp: opt_le_def)

lemma find_app1_longer: "opt_le (find_app1 (Buf g) p n) (find_app1 (Buf (g @ r)) p n)"
proof (induction n arbitrary: p rule: less_induct)
  case (less n)
  have "opt_le (case v of (p, n) \<Rightarrow> do { m \<leftarrow> (if n > 0 then rd (Buf g) p else Some 0);
       if n > 0 \<and> m = 0xd8 then find_app1 (Buf g) (p + 1) (n - 1)
       else if n \<ge> 3 \<and> m = 0xe0
       then do { b1 \<leftarrow> rd (Buf g) (p + 1); b0 \<leftarrow> rd (Buf g) (p + 2);
                 let l = unat (join16 b1 b0);
                 if l > n - 1 then Some None else find_app1 (Buf g) (p + 1 + l) (n - 1 - l) }
       else if n > 0 \<and> m = 0xe1 then Some (Some (p, n)) else Some None })
     (case v of (p, n) \<Rightarrow> do { m \<leftarrow> (if n > 0 then rd (Buf (g @ r)) p else Some 0);
       if n > 0 \<and> m = 0xd8 then find_app1 (Buf (g @ r)) (p + 1) (n - 1)
       else if n \<ge> 3 \<and> m = 0xe0
       then do { b1 \<leftarrow> rd (Buf (g @ r)) (p + 1); b0 \<leftarrow> rd (Buf (g @ r)) (p + 2);
                 let l = unat (join16 b1 b0);
                 if l > n - 1 then Some None else find_app1 (Buf (g @ r)) (p + 1 + l) (n - 1 - l) }
       else if n > 0 \<and> m = 0xe1 then Some (Some (p, n)) else Some None })"
    if v: "skip_ff (Buf g) p n = Some v" for v
  proof -
    obtain q k where [simp]: "v = (q, k)" by fastforce
    have "k \<le> n" using skip_ff_le v by simp
    then show ?thesis
      unfolding \<open>v = (q, k)\<close> prod.case by (intro opt_le_rules longer less) auto
  qed
  then show ?case
    unfolding find_app1.simps [of "Buf g" p n] find_app1.simps [of "Buf (g @ r)" p n]
    by (intro opt_le_if opt_le_refl opt_le_bind_Some skip_ff_longer)
qed

lemma load_entry_longer:
  "opt_le (exif_data_load_data_entry al (Buf g) ds off e data) (exif_data_load_data_entry al (Buf (g @ r)) ds off e data)"
  unfolding exif_data_load_data_entry_def load_entry_data_def by (intro opt_le_rules longer)

lemma load_thumbnail_longer:
  "opt_le (exif_data_load_data_thumbnail al (Buf g) ds off n data) (exif_data_load_data_thumbnail al (Buf (g @ r)) ds off n data)"
  unfolding exif_data_load_data_thumbnail_def by (intro opt_le_rules longer)

lemma load_levels_longer:
  "opt_le (load_levels al (Buf g) ds k ifd off data) (load_levels al (Buf (g @ r)) ds k ifd off data)"
proof (induction k arbitrary: ifd off data)
  case (Suc k)
  show ?case
    unfolding load_levels.simps load_content_def load_round_def load_sub_ifd_def load_new_entry_def
    by (intro opt_le_rules longer load_entry_longer load_thumbnail_longer Suc)
qed (simp add: opt_le_refl)

lemma load_ifds_longer:
  "opt_le (load_ifds_at al (Buf g) ds off data) (load_ifds_at al (Buf (g @ r)) ds off data)"
proof -
  have c: "opt_le (exif_data_load_data_content al (ptr_add (Buf g) 6) ds i ifd off data)
      (exif_data_load_data_content al (ptr_add (Buf (g @ r)) 6) ds i ifd off data)" for ds i ifd off data
    unfolding exif_data_load_data_content_def ptr_add.simps drop_append by (rule load_levels_longer)
  show ?thesis unfolding load_ifds_at_def by (intro opt_le_rules longer c)
qed

lemma load_tiff_longer: "opt_le (load_tiff al (Buf g) ds data) (load_tiff al (Buf (g @ r)) ds data)"
  unfolding load_tiff_def by (intro opt_le_rules longer load_ifds_longer)

lemma load_data_longer: "opt_le (load_data_ifds al (Buf g) ds data) (load_data_ifds al (Buf (g @ r)) ds data)"
proof -
  have t: "opt_le (load_tiff al (ptr_add (Buf g) p) n data) (load_tiff al (ptr_add (Buf (g @ r)) p) n data)" for p n data
    unfolding ptr_add.simps drop_append by (rule load_tiff_longer)
  have "Buf x = NULL \<longleftrightarrow> False" for x by simp
  then show ?thesis unfolding load_data_ifds_def by (simp only:) (intro opt_le_rules longer find_app1_longer t)
qed

section \<open>EXIF data in a JPEG file\<close>

lemma dir_fixable_view:
  assumes ok: "data_ok d" "data_ok d'" and i: "i < EXIF_IFD_COUNT" and v: "view d' i = view d i" and fx: "dir_fixable d i"
  shows "dir_fixable d' i"
proof -
  have c: "content_ok i (ed_ifd d ! i, ed_store d)" "content_ok i (ed_ifd d' ! i, ed_store d')"
    using data_okD(1) [OF ok(1) i] data_okD(1) [OF ok(2) i] .
  have tg: "tags_of x i = dom (view x i)" if "content_ok i (ed_ifd x ! i, ed_store x)" for x
  proof (intro set_eqI)
    fix t
    show "t \<in> tags_of x i \<longleftrightarrow> t \<in> dom (view x i)" using lookup_tag_None [OF that, of t] by (simp only: tags_of_def view_def domIff) simp
  qed
  have "fixable (the (st_heap (ed_store d') a))" if a: "a \<in> set (c_entries (ed_ifd d' ! i))" for a
  proof -
    obtain e where e: "st_heap (ed_store d') a = Some e" "entry_ok e" using c(2) a by (auto simp: content_ok_def held_def)
    have "view d i (e_tag e) = Some (e_format e, e_components e, e_data e)"
      using lookup_tag_at [OF c(2) a e(1)] v by (simp add: view_def)
    moreover have "e_tag e \<in> tags_of d i" using tg [OF c(1)] calculation by blast
    then obtain b e0 where b: "b \<in> set (c_entries (ed_ifd d ! i))" "st_heap (ed_store d) b = Some e0" "e_tag e0 = e_tag e" "entry_ok e0"
      using c(1) by (auto simp: tags_of_def tags_def tag_at_def content_ok_def held_def)
    ultimately have same: "e_format e0 = e_format e" "e_components e0 = e_components e" "e_data e0 = e_data e"
      using lookup_tag_at [OF c(1) b(1,2)] b(3) by (simp_all add: view_def)
    have "e_size e0 = e_size e" using e(2) b(4) same by (auto simp: entry_ok_def unat_arith_simps)
    moreover have "fixable e0" using fx b(1,2) by (auto simp: dir_fixable_def)
    ultimately show ?thesis using e same b(3) by (simp add: fixable_def data_present_def)
  qed
  moreover have "tags_of d' i = tags_of d i" using tg [OF c(1)] tg [OF c(2)] v by simp
  ultimately show ?thesis using fx by (simp add: dir_fixable_def)
qed

text \<open>The loader of the EXIF library also finds its data behind the marker and the length of the section.\<close>

lemma load_behind_marker:
  assumes "f = ExifHeader @ g" and "length f < 2 ^ 32 - 4"
  shows "load_data_ifds al (Buf ([0xff, 0xe1, h, l] @ f)) (of_nat (length f) + 4) data = load_data_ifds al (Buf f) (of_nat (length f)) data"
proof -
  have hl: "length ExifHeader = 6" by (simp add: ExifHeader_def)
  let ?b = "[0xff, 0xe1, h, l] @ f"
  have len: "6 \<le> length f" "length ?b = length f + 4" using assms(1) hl by simp_all
  have n: "unat (of_nat (length f) :: u32) = length f" "unat (of_nat (length f) + 4 :: u32) = length f + 4"
    using assms(2) unat_word_of_nat_32 [of "length f"] unat_word_of_nat_32 [of "length f + 4"] by (simp_all add: add.commute)
  have skip: "skip_ff (Buf ?b) 0 (length f + 4) = Some (1, length f + 3)"
  proof -
    have eq: "length f + 4 = Suc (Suc (length f + 2))" "length f + 3 = Suc (length f + 2)" by simp_all
    show ?thesis unfolding eq skip_ff.simps by simp
  qed
  have find: "find_app1 (Buf ?b) 0 (length f + 4) = Some (Some (1, length f + 3))"
  proof -
    have b1: "rd (Buf ?b) 1 = Some 0xe1" by simp
    have n3: "\<not> length f + 4 < 3" "0 < length f + 3" by simp_all
    show ?thesis by (subst find_app1.simps) (simp add: n3 skip b1 del: rd.simps append_Cons append_Nil One_nat_def)
  qed
  have h1: "rd_range (Buf ?b) 0 6 = Some (0xff # 0xe1 # h # l # take 2 f)" using len by simp
  have h2: "rd_range (Buf f) 0 6 = Some ExifHeader" using assms(1) hl by simp
  have small: "\<not> (of_nat (length f) + 4 :: u32) < 6" "\<not> (of_nat (length f) :: u32) < 6" "(of_nat (length f) + 4 :: u32) \<noteq> 0" "(of_nat (length f) :: u32) \<noteq> 0"
    using n len by (auto simp: word_less_nat_alt)
  have "load_data_ifds al (Buf ?b) (of_nat (length f) + 4) data = load_tiff al (Buf f) (of_nat (length f)) data"
    using small h1 find len by (simp add: load_data_ifds_def n ExifHeader_def del: rd_range.simps)
  moreover have "load_data_ifds al (Buf f) (of_nat (length f)) data = load_tiff al (Buf f) (of_nat (length f)) data"
    using small h2 by (simp add: load_data_ifds_def n del: rd_range.simps)
  ultimately show ?thesis by simp
qed

lemma new_data_at:
  "\<exists>data. exif_data_new mem_ok \<lparr>st_heap = Map.empty, st_clock = k\<rparr> = Some data \<and> data_ok data \<and> blank data \<and>
     ed_options data AND OPTION_FOLLOW_SPECIFICATION \<noteq> 0"
proof -
  obtain data where new: "exif_data_new_mem mem_ok \<lparr>st_heap = Map.empty, st_clock = k + 1\<rparr> = Some data"
      "blank data" "ed_options data = 3"
    by (simp add: exif_data_new_mem_def exif_mem_alloc_def mem_ok_def exif_content_new_mem_def numeral_eq_Suc blank_def
        exif_data_set_data_type_def exif_data_set_option_def)
  have "data_ok data" using exif_data_new_ok [OF _ new(1)] by simp
  moreover have "exif_data_new mem_ok \<lparr>st_heap = Map.empty, st_clock = k\<rparr> = Some data"
    using new(1) by (simp add: exif_data_new_def exif_mem_alloc_def mem_ok_def)
  ultimately show ?thesis using new by simp
qed

text \<open>
  What becomes of EXIF data that are saved and loaded: \<open>data'\<close> has the same directories, thumbnail
  and byte order, and the correction makes \<open>data''\<close> of it.
\<close>

definition reloaded :: "tm \<Rightarrow> ExifData \<Rightarrow> ExifData \<Rightarrow> bool" where
  "reloaded now data data'' \<longleftrightarrow> (\<exists>data'. data_ok data' \<and> ed_order data' = ed_order data \<and>
     (\<forall>i < EXIF_IFD_COUNT. view data' i = view data i) \<and> (ed_size data \<noteq> 0 \<longrightarrow> same_thumb data data') \<and>
     exif_data_fix mem_ok now data' = Some data'') \<and> data_ok data''"

definition reloadable :: "ExifData \<Rightarrow> bool" where
  "reloadable data \<longleftrightarrow> data_ok data \<and> keeps data \<and> (\<forall>i < EXIF_IFD_COUNT. dir_fixable data i) \<and> length (file_bytes data) \<le> 65533"

lemma load_saved_exif:
  assumes "reloadable data" and "exif_data_new mem_ok \<lparr>st_heap = Map.empty, st_clock = k\<rparr> = Some data0"
  shows "\<exists>data''. exif_data_load_data mem_ok now (Buf ([0xff, 0xe1, h, l] @ file_bytes data @ z)) (of_nat (length (file_bytes data)) + 4) data0
      = Some data'' \<and> reloaded now data data''"
proof -
  have r: "data_ok data" "keeps data" "\<forall>i < EXIF_IFD_COUNT. dir_fixable data i" "length (file_bytes data) \<le> 65533"
    using assms(1) by (auto simp: reloadable_def)
  have d0: "data_ok data0" "blank data0" "ed_options data0 AND OPTION_FOLLOW_SPECIFICATION \<noteq> 0"
    using new_data_at [of k] assms(2) by auto
  have al: "plenty mem_ok" by (simp add: plenty_mem_ok)
  obtain data' where d': "load_data_ifds mem_ok (Buf (file_bytes data)) (of_nat (length (file_bytes data))) data0 = Some (data', True)"
      "data_ok data'" "ed_order data' = ed_order data" "\<forall>i < EXIF_IFD_COUNT. view data' i = view data i"
      "if ed_size data = 0 then same_thumb data0 data' else same_thumb data data'" "ed_options data' = ed_options data0"
    using saved_file_loads [OF al r(1,2) _ d0(1,2)] r(4) by auto
  have hd: "file_bytes data = ExifHeader @ drop 6 (file_bytes data)"
    by (simp add: file_bytes_def file_head_def ExifHeader_def)
  have "load_data_ifds mem_ok (Buf ([0xff, 0xe1, h, l] @ file_bytes data)) (of_nat (length (file_bytes data)) + 4) data0 = Some (data', True)"
    using load_behind_marker [OF hd, of mem_ok h l data0] r(4) d'(1) by simp
  then have ld: "load_data_ifds mem_ok (Buf ([0xff, 0xe1, h, l] @ file_bytes data @ z)) (of_nat (length (file_bytes data)) + 4) data0 = Some (data', True)"
    using opt_leD [OF load_data_longer [of mem_ok "[0xff, 0xe1, h, l] @ file_bytes data" _ data0 z]] by simp
  have fx: "\<forall>i < EXIF_IFD_COUNT. dir_fixable data' i" using dir_fixable_view [OF r(1) d'(2)] d'(4) r(3) by blast
  obtain data'' where fix1: "exif_data_fix mem_ok now data' = Some data''" "data_ok data''"
    using exif_data_fix_ok [OF al d'(2), of now] fx fixable_correctable by blast
  have "reloaded now data data''" unfolding reloaded_def using d' fix1 by (auto split: if_splits)
  moreover have "exif_data_load_data mem_ok now (Buf ([0xff, 0xe1, h, l] @ file_bytes data @ z)) (of_nat (length (file_bytes data)) + 4) data0 = Some data''"
    using ld d'(6) d0(3) fix1(1) by (simp add: exif_data_load_data_def)
  ultimately show ?thesis by blast
qed

section \<open>Loading what was saved\<close>

lemma unat_byte_n: "unat (byte_n k v) = unat v div 2 ^ (8 * k) mod 256"
  unfolding byte_n_def unsigned_ucast_eq unsigned_drop_bit_eq by (simp add: take_bit_eq_mod drop_bit_eq_div)

lemma len2_unat:
  assumes "n < 65536"
  shows "unat (join16 (len2 n ! 0) (len2 n ! 1)) = n"
proof -
  have u: "unat (of_nat n :: u32) = n" using assms by (intro unat_word_of_nat_32) simp
  have "unat (join16 (len2 n ! 0) (len2 n ! 1)) = 256 * (n div 256 mod 256) + n mod 256"
    unfolding unat_join16 len2_def by (simp add: unat_byte_n u)
  then show ?thesis using assms by simp
qed

lemma len2_value:
  assumes "n + 2 < 65536"
  shows "ucast (join16 (len2 (n + 2) ! 0) (len2 (n + 2) ! 1)) - 2 = (of_nat n :: u32)"
proof -
  have "unat (ucast (join16 (len2 (n + 2) ! 0) (len2 (n + 2) ! 1)) :: u32) = n + 2"
    unfolding unsigned_ucast_eq len2_unat [OF assms] using assms by (intro take_bit_nat_eq_self) simp
  moreover have "unat (of_nat (n + 2) :: u32) = n + 2" using assms by (intro unat_word_of_nat_32) simp
  ultimately have "(ucast (join16 (len2 (n + 2) ! 0) (len2 (n + 2) ! 1)) :: u32) = of_nat (n + 2)"
    by (metis unsigned_word_eqI)
  then show ?thesis by simp
qed

lemma ff_run_one: "p + 1 < length f \<Longrightarrow> f ! p = 0xff \<Longrightarrow> f ! (p + 1) \<noteq> 0xff \<Longrightarrow> 2 \<le> n \<Longrightarrow> ff_run (Buf f) p n = Some 1"
  by (cases n; cases "n - 1") auto

lemma load_sections_step:
  assumes f: "drop p f = [0xff, m] @ rest" and n: "unat ds = length f" and m: "JPEG_IS_MARKER m"
  shows "load_sections mem_ok now (Buf f) ds p (j, w) =
    do { (go, q, jw) \<leftarrow> load_section mem_ok now (Buf f) ds m (p + 2)
           (j\<lparr>jd_sections := jd_sections j @ [\<lparr>js_marker = m, js_content = Zeroed\<rparr>]\<rparr>, w\<lparr>w_clock := w_clock w + 1\<rparr>);
         if go then load_sections mem_ok now (Buf f) ds q jw else Some jw }"
proof -
  have len: "length f = p + 2 + length rest"
    using arg_cong [OF f, of length] by (cases "p \<le> length f") auto
  have f0: "f ! p = 0xff" "f ! (p + 1) = m"
    using nth_drop [of p f 0] nth_drop [of p f 1] f len by simp_all
  have mf: "m \<noteq> 0xff" using m by (auto simp: JPEG_IS_MARKER_def)
  have "ff_run (Buf f) p (min 7 (length f - p)) = Some 1"
    using f0 mf len by (intro ff_run_one) simp_all
  then have run: "ff_run (Buf f) p (min 7 (unat ds - p)) = Some 1" unfolding n .
  have rd1: "rd (Buf f) (Suc p) = Some m" using f0 len by simp
  have c: "p < unat ds" "\<not> unat ds - p \<le> Suc 0" using n len by simp_all
  have ap: "jpeg_data_append_section mem_ok (j, w) =
      (j\<lparr>jd_sections := jd_sections j @ [\<lparr>js_marker = 0, js_content = Zeroed\<rparr>]\<rparr>, w\<lparr>w_clock := w_clock w + 1\<rparr>)"
    by (simp add: jpeg_data_append_section_def w_alloc_def mem_ok_def)
  show ?thesis
    by (subst load_sections.simps) (simp add: c run [unfolded One_nat_def] rd1 m ap set_last_def del: rd.simps)
qed

lemma unat_sub_pos: "p \<le> unat ds \<Longrightarrow> unat (ds - of_nat p :: u32) = unat ds - p"
  using unat_u32 [of ds] by (simp add: unat_sub word_le_nat_alt unat_word_of_nat_32)

text \<open>A section with a length: \<open>x\<close> is what follows the length in the file.\<close>

lemma load_section_length:
  assumes f: "drop p f = len2 (n + 2) @ x" and d: "unat ds = length f" and n: "n + 2 < 65536" "n \<le> length x"
    and m: "m \<noteq> JPEG_MARKER_SOI" "m \<noteq> JPEG_MARKER_EOI"
  shows "load_section al now (Buf f) ds m p jw =
    (if m = JPEG_MARKER_APP1
     then do { jw \<leftarrow> load_app1 al now (Buf f) (p + 2) (of_nat n) jw; Some (True, p + 2 + n, jw) }
     else load_generic al (Buf f) ds m (p + 2) (of_nat n) jw)"
proof -
  have l2: "length (len2 (n + 2)) = 2" by (simp add: len2_def)
  have len: "length f = p + 2 + length x" using arg_cong [OF f, of length] l2 by (cases "p \<le> length f") auto
  have nf: "unat (of_nat n :: u32) = n" using n by (simp add: unat_word_of_nat_32)
  have b: "rd (Buf f) p = Some (len2 (n + 2) ! 0)" "rd (Buf f) (p + 1) = Some (len2 (n + 2) ! 1)"
  proof -
    obtain a b where ab: "len2 (n + 2) = [a, b]" by (simp add: len2_def)
    then show "rd (Buf f) p = Some (len2 (n + 2) ! 0)" "rd (Buf f) (p + 1) = Some (len2 (n + 2) ! 1)"
      using nth_drop [of p f 0] nth_drop [of p f 1] f len unfolding ab by simp_all
  qed
  have c: "\<not> 2 > ds - of_nat p" "\<not> of_nat n > ds" "\<not> of_nat n > ds - of_nat (p + 2)"
    using unat_sub_pos [of p ds] unat_sub_pos [of "p + 2" ds] d len n nf by (simp_all add: word_less_nat_alt del: of_nat_add)
  show ?thesis
    unfolding load_section_def b Option.bind.simps Let_def len2_value [OF n(1)] nf
    using m c by (simp del: of_nat_add)
qed

lemma load_generic_ok:
  assumes f: "drop p f = bs @ x" and m: "m \<noteq> JPEG_MARKER_SOS" and n: "length bs < 2 ^ 32" and p: "p \<le> length f"
  shows "load_generic mem_ok (Buf f) ds m p (of_nat (length bs)) (j, w) =
    Some (True, p + length bs, set_last (\<lambda>s. s\<lparr>js_content := Generic (Buf bs) (of_nat (length bs))\<rparr>) j, w\<lparr>w_clock := w_clock w + 1\<rparr>)"
proof -
  have nf: "unat (of_nat (length bs) :: u32) = length bs" using n by (simp add: unat_word_of_nat_32)
  have "p + length bs \<le> length f" using arg_cong [OF f, of length] p by auto
  then have rd: "rd_range (Buf f) p (length bs) = Some bs" using f by simp
  show ?thesis using m by (simp add: load_generic_def w_alloc_def mem_ok_def nf rd del: rd_range.simps)
qed

text \<open>The scan: the image data go up to the last two bytes of the file, the end marker.\<close>

lemma load_sos_ok:
  assumes f: "drop p f = bs @ img @ [0xff, x]" and d: "unat ds = length f" and n: "length bs < 2 ^ 32"
  shows "load_generic mem_ok (Buf f) ds JPEG_MARKER_SOS p (of_nat (length bs)) (j, w) =
    Some (True, p + length bs + length img,
      (set_last (\<lambda>s. s\<lparr>js_content := Generic (Buf bs) (of_nat (length bs))\<rparr>) j)\<lparr>jd_data := Buf img, jd_size := of_nat (length img)\<rparr>,
      w\<lparr>w_clock := w_clock w + 2\<rparr>)"
proof -
  have nf: "unat (of_nat (length bs) :: u32) = length bs" using n by (simp add: unat_word_of_nat_32)
  have len: "length f = p + length bs + length img + 2" using arg_cong [OF f, of length] by (cases "p \<le> length f") auto
  have rd: "rd_range (Buf f) p (length bs) = Some bs" using f len by simp
  have f2: "drop (p + length bs) f = img @ [0xff, x]" using f by (metis add.commute append_eq_conv_conj drop_drop)
  let ?n = "ds - of_nat (p + length bs) :: u32"
  have un: "unat ?n = length img + 2" using unat_sub_pos [of "p + length bs" ds] d len by simp
  have ge: "?n \<ge> 2" using un by (simp add: word_le_nat_alt)
  have un2: "unat (?n - 2) = length img" using un ge by (simp add: unat_sub)
  then have "length img < 2 ^ 32" using unat_u32 [of "?n - 2"] by simp
  then have ui: "unat (of_nat (length img) :: u32) = length img" by (rule unat_word_of_nat_32)
  then have eq: "?n - 2 = of_nat (length img)" using un2 by (metis unsigned_word_eqI)
  have b: "rd (Buf f) (p + length bs + length img) = Some 0xff"
    using nth_drop [of "p + length bs" f "length img"] f2 len by (simp add: nth_append)
  have rd2: "rd_range (Buf f) (p + length bs) (length img) = Some img" using f2 len by simp
  have scan: "load_scan mem_ok (Buf f) ds (p + length bs) (j', w') =
      Some (True, p + length bs + length img, j'\<lparr>jd_data := Buf img, jd_size := of_nat (length img)\<rparr>, w'\<lparr>w_clock := w_clock w' + 1\<rparr>)" for j' w'
    unfolding load_scan_def Let_def prod.case if_P [OF ge] un2 b Option.bind.simps
    by (simp add: w_alloc_def mem_ok_def rd2 ui eq del: rd_range.simps of_nat_add)
  show ?thesis by (simp add: load_generic_def w_alloc_def mem_ok_def nf rd scan del: rd_range.simps)
qed

lemma load_app1_ok:
  assumes f: "drop p f = [0xff, 0xe1, h, l] @ file_bytes data @ x" and r: "reloadable data"
  shows "\<exists>data'' k. load_app1 mem_ok now (Buf f) (p + 4) (of_nat (length (file_bytes data))) (j, w) =
    Some (set_last (\<lambda>s. s\<lparr>js_content := App1 (Some (w_clock w))\<rparr>) j,
          w\<lparr>w_exif := (w_exif w)(w_clock w \<mapsto> (data'', 1)), w_clock := k\<rparr>) \<and> reloaded now data data'' \<and> w_clock w < k"
proof -
  obtain data0 where new: "exif_data_new mem_ok \<lparr>st_heap = Map.empty, st_clock = w_clock w\<rparr> = Some data0"
    using new_data_at by blast
  obtain data'' where ld: "exif_data_load_data mem_ok now (Buf ([0xff, 0xe1, h, l] @ file_bytes data @ x))
        (of_nat (length (file_bytes data)) + 4) data0 = Some data''" "reloaded now data data''"
    using load_saved_exif [OF r new] by blast
  have "load_app1 mem_ok now (Buf f) (p + 4) (of_nat (length (file_bytes data))) (j, w) =
    Some (set_last (\<lambda>s. s\<lparr>js_content := App1 (Some (w_clock w))\<rparr>) j,
          w\<lparr>w_exif := (w_exif w)(w_clock w \<mapsto> (data'', 1)), w_clock := max (w_clock w + 1) (st_clock (ed_store data''))\<rparr>)"
    unfolding load_app1_def using ld(1) f by (simp add: new)
  moreover have "w_clock w < max (w_clock w + 1) (st_clock (ed_store data''))" by simp
  ultimately show ?thesis using ld(2) by blast
qed

text \<open>Sections that come back as they were saved: the type of content that the marker wants, and a length that two bytes can hold.\<close>

definition plain_section :: "World \<Rightarrow> JPEGSection \<Rightarrow> bool" where
  "plain_section w s \<longleftrightarrow> JPEG_IS_MARKER (js_marker s) \<and> js_marker s \<noteq> JPEG_MARKER_SOS \<and>
    (if js_marker s = JPEG_MARKER_SOI \<or> js_marker s = JPEG_MARKER_EOI then True
     else if js_marker s = JPEG_MARKER_APP1
     then \<exists>a data n. js_content s = App1 (Some a) \<and> w_exif w a = Some (data, n) \<and> reloadable data
     else \<exists>bs. js_content s = Generic (Buf bs) (of_nat (length bs)) \<and> length bs \<le> 65533)"

text \<open>A file ends with the scan and the end marker, or has no scan.\<close>

definition scan_end :: "JPEGSection list \<Rightarrow> bool" where
  "scan_end ss \<longleftrightarrow> (\<exists>bs c. ss = [\<lparr>js_marker = JPEG_MARKER_SOS, js_content = Generic (Buf bs) (of_nat (length bs))\<rparr>,
      \<lparr>js_marker = JPEG_MARKER_EOI, js_content = c\<rparr>] \<and> length bs \<le> 65533)"

definition jpeg_file :: "World \<Rightarrow> JPEGData \<Rightarrow> bool" where
  "jpeg_file w j \<longleftrightarrow> jd_sections j \<noteq> [] \<and> length (jpeg_bytes w j) < 2 ^ 32 \<and> (\<exists>img. jd_data j = Buf img \<and> jd_size j = of_nat (length img)) \<and>
    (\<exists>ss ts. jd_sections j = ss @ ts \<and> (\<forall>s \<in> set ss. plain_section w s) \<and> (ts = [] \<or> scan_end ts))"

definition same_section :: "tm \<Rightarrow> World \<Rightarrow> World \<Rightarrow> JPEGSection \<Rightarrow> JPEGSection \<Rightarrow> bool" where
  "same_section now w w' s s' \<longleftrightarrow> js_marker s' = js_marker s \<and>
    (if js_marker s = JPEG_MARKER_SOI \<or> js_marker s = JPEG_MARKER_EOI then js_content s' = Zeroed
     else if js_marker s = JPEG_MARKER_APP1
     then \<exists>a a' data n data'. js_content s = App1 (Some a) \<and> js_content s' = App1 (Some a') \<and> w_exif w a = Some (data, n) \<and>
       w_exif w' a' = Some (data', 1) \<and> reloaded now data data'
     else js_content s' = js_content s)"

definition w_fresh :: "World \<Rightarrow> bool" where
  "w_fresh w \<longleftrightarrow> (\<forall>a \<in> dom (w_exif w). a < w_clock w)"

lemma same_section_mono:
  assumes "same_section now w w1 s s'" and "w_exif w1 \<subseteq>\<^sub>m w_exif w2"
  shows "same_section now w w2 s s'"
proof -
  have mono: "w_exif w2 a = Some v" if "w_exif w1 a = Some v" for a v using assms(2) that by (metis domI map_le_def)
  show ?thesis
  proof (cases "js_marker s = JPEG_MARKER_APP1")
    case True
    then obtain a a' data n data' where "js_content s = App1 (Some a)" "js_content s' = App1 (Some a')" "w_exif w a = Some (data, n)"
        "w_exif w1 a' = Some (data', 1)" "reloaded now data data'" "js_marker s' = js_marker s"
      using assms(1) by (auto simp: same_section_def)
    then show ?thesis using mono True by (auto simp: same_section_def)
  next
    case False
    then show ?thesis using assms(1) by (simp add: same_section_def)
  qed
qed

lemma drop_append_next:
  assumes "drop p f = xs @ ys" and "p \<le> length f"
  shows "drop (p + length xs) f = ys" "p + length xs \<le> length f"
proof -
  show "drop (p + length xs) f = ys" using assms(1) by (metis add.commute append_eq_conv_conj drop_drop)
  have "length f - p = length xs + length ys" using arg_cong [OF assms(1), of length] by simp
  then show "p + length xs \<le> length f" using assms(2) by simp
qed

lemma load_plain_section:
  assumes f: "drop p f = section_bytes w0 j0 s @ x" and pl: "plain_section w0 s" and d: "unat ds = length f"
    and fr: "w_fresh w" and p: "p \<le> length f"
  shows "\<exists>s' w'. load_sections mem_ok now (Buf f) ds p (j, w) =
       load_sections mem_ok now (Buf f) ds (p + length (section_bytes w0 j0 s)) (j\<lparr>jd_sections := jd_sections j @ [s']\<rparr>, w') \<and>
     same_section now w0 w' s s' \<and> w_fresh w' \<and> w_exif w \<subseteq>\<^sub>m w_exif w'"
proof -
  let ?m = "js_marker s"
  let ?j = "\<lambda>c. j\<lparr>jd_sections := jd_sections j @ [\<lparr>js_marker = ?m, js_content = c\<rparr>]\<rparr>"
  let ?w = "w\<lparr>w_clock := w_clock w + 1\<rparr>"
  have l2: "length (len2 n) = 2" for n by (simp add: len2_def)
  have m: "JPEG_IS_MARKER ?m" "?m \<noteq> JPEG_MARKER_SOS" using pl by (simp_all add: plain_section_def)
  obtain y where y: "section_bytes w0 j0 s = [0xff, ?m] @ y" by (simp add: section_bytes_def)
  have f0: "drop p f = [0xff, ?m] @ y @ x" using f y by simp
  note f1 = drop_append_next [OF f0 p]
  note step = load_sections_step [OF f0 d m(1), of now j w]
  have e4: "p + 2 + 2 = p + 4" by simp
  have last1: "set_last (\<lambda>s. s\<lparr>js_content := c\<rparr>) (?j Zeroed) = ?j c" for c by (simp add: set_last_def)
  have frw: "w_fresh (w\<lparr>w_clock := k\<rparr>)" "w_exif w \<subseteq>\<^sub>m w_exif (w\<lparr>w_clock := k\<rparr>)" if "w_clock w \<le> k" for k
    using fr that unfolding w_fresh_def by (auto dest!: bspec)
  consider (mark) "?m = JPEG_MARKER_SOI \<or> ?m = JPEG_MARKER_EOI" | (app1) "?m = JPEG_MARKER_APP1"
    | (gen) "\<not> (?m = JPEG_MARKER_SOI \<or> ?m = JPEG_MARKER_EOI)" "?m \<noteq> JPEG_MARKER_APP1" by blast
  then show ?thesis
  proof cases
    case mark
    then have "y = []" using y by (auto simp: section_bytes_def)
    then have "load_sections mem_ok now (Buf f) ds p (j, w) = load_sections mem_ok now (Buf f) ds (p + length (section_bytes w0 j0 s)) (?j Zeroed, ?w)"
      using step mark y by (simp add: load_section_def)
    moreover have "same_section now w0 ?w s \<lparr>js_marker = ?m, js_content = Zeroed\<rparr>" using mark by (simp add: same_section_def)
    ultimately show ?thesis using frw [of "w_clock w + 1"] by fastforce
  next
    case app1
    obtain a data n where c: "js_content s = App1 (Some a)" "w_exif w0 a = Some (data, n)" "reloadable data"
      using pl app1 by (auto simp: plain_section_def)
    let ?n = "length (file_bytes data)"
    have yb: "y = len2 (?n + 2) @ file_bytes data" using y app1 c by (simp add: section_bytes_def exif_at_def)
    have sl: "p + length (section_bytes w0 j0 s) = p + 4 + ?n" by (simp add: y yb l2)
    have n: "?n + 2 < 65536" using c(3) by (simp add: reloadable_def)
    have f2: "drop (p + 2) f = len2 (?n + 2) @ file_bytes data @ x" using f1(1) yb by simp
    obtain h l where hl: "len2 (?n + 2) = [h, l]" by (simp add: len2_def)
    have f3: "drop p f = [0xff, 0xe1, h, l] @ file_bytes data @ x" using f0 yb hl app1 by simp
    obtain data'' k where r: "load_app1 mem_ok now (Buf f) (p + 4) (of_nat ?n) (?j Zeroed, ?w) =
        Some (set_last (\<lambda>s. s\<lparr>js_content := App1 (Some (w_clock ?w))\<rparr>) (?j Zeroed),
          ?w\<lparr>w_exif := (w_exif ?w)(w_clock ?w \<mapsto> (data'', 1)), w_clock := k\<rparr>)" "reloaded now data data''" "w_clock ?w < k"
      using load_app1_ok [OF f3 c(3), of now "?j Zeroed" ?w] by blast
    let ?w' = "?w\<lparr>w_exif := (w_exif ?w)(w_clock ?w \<mapsto> (data'', 1)), w_clock := k\<rparr>"
    have "load_section mem_ok now (Buf f) ds ?m (p + 2) (?j Zeroed, ?w) = Some (True, p + 4 + ?n, ?j (App1 (Some (w_clock ?w))), ?w')"
    proof -
      have q: "?n \<le> length (file_bytes data @ x)" "?m \<noteq> JPEG_MARKER_SOI" "?m \<noteq> JPEG_MARKER_EOI" by (simp_all add: app1)
      show ?thesis by (simp only: load_section_length [OF f2 d n q, unfolded e4] if_P [OF app1] r(1) Option.bind.simps last1)
    qed
    then have "load_sections mem_ok now (Buf f) ds p (j, w) =
        load_sections mem_ok now (Buf f) ds (p + length (section_bytes w0 j0 s)) (?j (App1 (Some (w_clock ?w))), ?w')"
      by (simp only: step Option.bind.simps prod.case if_True sl)
    moreover have "same_section now w0 ?w' s \<lparr>js_marker = ?m, js_content = App1 (Some (w_clock ?w))\<rparr>"
      using app1 c r(2) by (simp add: same_section_def)
    moreover have "w_fresh ?w'" using fr r(3) unfolding w_fresh_def by (auto dest!: bspec)
    moreover have "w_exif w \<subseteq>\<^sub>m w_exif ?w'" using fr unfolding w_fresh_def map_le_def by (auto dest!: bspec)
    ultimately show ?thesis by blast
  next
    case gen
    obtain bs where c: "js_content s = Generic (Buf bs) (of_nat (length bs))" "length bs \<le> 65533"
      using pl gen by (auto simp: plain_section_def)
    have yb: "y = len2 (length bs + 2) @ bs" using y gen c m(2) by (simp add: section_bytes_def)
    have sl: "p + length (section_bytes w0 j0 s) = p + 4 + length bs" by (simp add: y yb l2)
    have f2: "drop (p + 2) f = len2 (length bs + 2) @ bs @ x" using f1(1) yb by simp
    have "load_section mem_ok now (Buf f) ds ?m (p + 2) (?j Zeroed, ?w) =
        Some (True, p + 4 + length bs, ?j (Generic (Buf bs) (of_nat (length bs))), w\<lparr>w_clock := w_clock w + 2\<rparr>)"
    proof -
      have q: "length bs + 2 < 65536" "length bs \<le> length (bs @ x)" "?m \<noteq> JPEG_MARKER_SOI" "?m \<noteq> JPEG_MARKER_EOI" "length bs < 2 ^ 32"
        using gen c(2) by simp_all
      have w2: "?w\<lparr>w_clock := w_clock ?w + 1\<rparr> = w\<lparr>w_clock := w_clock w + 2\<rparr>" by simp
      have "p + 2 \<le> length f" using f1(2) by simp
      note f4 = drop_append_next [OF f2 this, unfolded l2 e4]
      show ?thesis
        by (simp only: load_section_length [OF f2 d q(1-4), unfolded e4] if_not_P [OF gen(2)] load_generic_ok [OF f4(1) m(2) q(5) f4(2)] last1 w2)
    qed
    then have "load_sections mem_ok now (Buf f) ds p (j, w) = load_sections mem_ok now (Buf f) ds (p + length (section_bytes w0 j0 s))
        (?j (Generic (Buf bs) (of_nat (length bs))), w\<lparr>w_clock := w_clock w + 2\<rparr>)"
      by (simp only: step Option.bind.simps prod.case if_True sl)
    moreover have "same_section now w0 (w\<lparr>w_clock := w_clock w + 2\<rparr>) s \<lparr>js_marker = ?m, js_content = Generic (Buf bs) (of_nat (length bs))\<rparr>"
      using gen c by (simp add: same_section_def)
    ultimately show ?thesis using frw [of "w_clock w + 2"] by fastforce
  qed
qed

lemma load_plain_sections:
  assumes "drop p f = concat (map (section_bytes w0 j0) ss) @ x" and "\<forall>s \<in> set ss. plain_section w0 s" and "unat ds = length f"
    and "w_fresh w" and "p \<le> length f"
  shows "\<exists>ss' w'. load_sections mem_ok now (Buf f) ds p (j, w) =
       load_sections mem_ok now (Buf f) ds (p + length (concat (map (section_bytes w0 j0) ss))) (j\<lparr>jd_sections := jd_sections j @ ss'\<rparr>, w') \<and>
     list_all2 (same_section now w0 w') ss ss' \<and> w_fresh w' \<and> w_exif w \<subseteq>\<^sub>m w_exif w'"
  using assms(1,2,4,5)
proof (induction ss arbitrary: p j w)
  case Nil
  then show ?case by (intro exI [of _ "[]"] exI [of _ w]) simp
next
  case (Cons s ss)
  let ?b = "section_bytes w0 j0 s" and ?bs = "concat (map (section_bytes w0 j0) ss)"
  have f: "drop p f = ?b @ ?bs @ x" using Cons.prems(1) by simp
  obtain s' w1 where s': "load_sections mem_ok now (Buf f) ds p (j, w) =
        load_sections mem_ok now (Buf f) ds (p + length ?b) (j\<lparr>jd_sections := jd_sections j @ [s']\<rparr>, w1)"
      "same_section now w0 w1 s s'" "w_fresh w1" "w_exif w \<subseteq>\<^sub>m w_exif w1"
    using load_plain_section [OF f _ assms(3) Cons.prems(3,4)] Cons.prems(2) by (metis list.set_intros(1))
  note f1 = drop_append_next [OF f Cons.prems(4)]
  let ?j = "j\<lparr>jd_sections := jd_sections j @ [s']\<rparr>"
  obtain ss' w2 where ss': "load_sections mem_ok now (Buf f) ds (p + length ?b) (?j, w1) =
        load_sections mem_ok now (Buf f) ds (p + length ?b + length ?bs) (?j\<lparr>jd_sections := jd_sections ?j @ ss'\<rparr>, w2)"
      "list_all2 (same_section now w0 w2) ss ss'" "w_fresh w2" "w_exif w1 \<subseteq>\<^sub>m w_exif w2"
    using Cons.IH [OF f1(1) _ s'(3) f1(2), of ?j] Cons.prems(2) by auto
  have "load_sections mem_ok now (Buf f) ds p (j, w) =
      load_sections mem_ok now (Buf f) ds (p + length (concat (map (section_bytes w0 j0) (s # ss)))) (j\<lparr>jd_sections := jd_sections j @ s' # ss'\<rparr>, w2)"
    using s'(1) ss'(1) by (simp add: add.assoc)
  moreover have "list_all2 (same_section now w0 w2) (s # ss) (s' # ss')"
    using same_section_mono [OF s'(2) ss'(4)] ss'(2) by simp
  ultimately show ?case using ss'(3) map_le_trans [OF s'(4) ss'(4)] by blast
qed

lemma load_scan_end:
  assumes f: "drop p f = concat (map (section_bytes w0 j0) ts)" and ts: "scan_end ts" and img: "jd_data j0 = Buf img"
    and d: "unat ds = length f" and p: "p \<le> length f"
  shows "\<exists>ts' k. load_sections mem_ok now (Buf f) ds p (j, w) =
       Some (j\<lparr>jd_sections := jd_sections j @ ts', jd_data := Buf img, jd_size := of_nat (length img)\<rparr>, w\<lparr>w_clock := k\<rparr>) \<and>
     list_all2 (same_section now w0 (w\<lparr>w_clock := k\<rparr>)) ts ts'"
proof -
  obtain bs c where ts': "ts = [\<lparr>js_marker = JPEG_MARKER_SOS, js_content = Generic (Buf bs) (of_nat (length bs))\<rparr>,
      \<lparr>js_marker = JPEG_MARKER_EOI, js_content = c\<rparr>]" and n: "length bs \<le> 65533"
    using ts by (auto simp: scan_end_def)
  let ?c = "Generic (Buf bs) (of_nat (length bs))"
  let ?j = "\<lambda>c. j\<lparr>jd_sections := jd_sections j @ [\<lparr>js_marker = JPEG_MARKER_SOS, js_content = c\<rparr>]\<rparr>"
  let ?w = "w\<lparr>w_clock := w_clock w + 1\<rparr>"
  have e4: "p + 2 + 2 = p + 4" by simp
  have l2: "length (len2 m) = 2" for m by (simp add: len2_def)
  have f0: "drop p f = [0xff, JPEG_MARKER_SOS] @ len2 (length bs + 2) @ bs @ img @ [0xff, 0xd9]"
    using f img by (simp add: ts' section_bytes_def)
  note f1 = drop_append_next [OF f0 p, simplified length_Cons list.size(3) One_nat_def [symmetric] Suc_eq_plus1, simplified]
  have f1': "drop (p + 2) f = len2 (length bs + 2) @ bs @ img @ [0xff, 0xd9]" "p + 2 \<le> length f" using f1 by simp_all
  note f2 = drop_append_next [OF f1', unfolded l2 e4]
  note f3 = drop_append_next [OF f2]
  have f4: "drop (p + 4 + length bs + length img) f = [0xff, 0xd9] @ []" "p + 4 + length bs + length img \<le> length f"
    using drop_append_next [OF f3] by simp_all
  have len: "length f = p + 4 + length bs + length img + 2" using arg_cong [OF f4(1), of length] f4(2) by simp
  have q: "length bs + 2 < 65536" "length bs \<le> length (bs @ img @ [0xff, 0xd9])" "JPEG_MARKER_SOS \<noteq> JPEG_MARKER_SOI"
      "JPEG_MARKER_SOS \<noteq> JPEG_MARKER_EOI" "length bs < 2 ^ 32" "JPEG_IS_MARKER JPEG_MARKER_SOS" "JPEG_MARKER_SOS \<noteq> JPEG_MARKER_APP1"
      "JPEG_IS_MARKER JPEG_MARKER_EOI"
    using n by (simp_all add: JPEG_IS_MARKER_def)
  have last1: "set_last (\<lambda>s. s\<lparr>js_content := c\<rparr>) (?j Zeroed) = ?j c" for c by (simp add: set_last_def)
  let ?j1 = "(?j ?c)\<lparr>jd_data := Buf img, jd_size := of_nat (length img)\<rparr>" and ?w1 = "?w\<lparr>w_clock := w_clock ?w + 2\<rparr>"
  have one: "load_sections mem_ok now (Buf f) ds p (j, w) = load_sections mem_ok now (Buf f) ds (p + 4 + length bs + length img) (?j1, ?w1)"
    by (simp only: load_sections_step [OF f0 d q(6)] load_section_length [OF f1'(1) d q(1-4), unfolded e4] if_not_P [OF q(7)]
        load_sos_ok [OF f2(1) d q(5)] Option.bind.simps prod.case if_True last1)
  let ?j2 = "?j1\<lparr>jd_sections := jd_sections ?j1 @ [\<lparr>js_marker = JPEG_MARKER_EOI, js_content = Zeroed\<rparr>]\<rparr>"
  let ?w2 = "?w1\<lparr>w_clock := w_clock ?w1 + 1\<rparr>"
  have two: "load_sections mem_ok now (Buf f) ds (p + 4 + length bs + length img) (?j1, ?w1) =
      load_sections mem_ok now (Buf f) ds (p + 4 + length bs + length img + 2) (?j2, ?w2)"
    by (simp only: load_sections_step [OF f4(1) d q(8)]) (simp add: load_section_def)
  have three: "load_sections mem_ok now (Buf f) ds (p + 4 + length bs + length img + 2) (?j2, ?w2) = Some (?j2, ?w2)"
    using d len by (subst load_sections.simps) simp
  let ?ts = "[\<lparr>js_marker = JPEG_MARKER_SOS, js_content = ?c\<rparr>, \<lparr>js_marker = JPEG_MARKER_EOI, js_content = Zeroed\<rparr>]"
  have "?j2 = j\<lparr>jd_sections := jd_sections j @ ?ts, jd_data := Buf img, jd_size := of_nat (length img)\<rparr>" by simp
  moreover have "?w2 = w\<lparr>w_clock := w_clock w + 4\<rparr>" by simp
  moreover have "list_all2 (same_section now w0 (w\<lparr>w_clock := w_clock w + 4\<rparr>)) ts ?ts" by (simp add: ts' same_section_def)
  ultimately show ?thesis using one two three by metis
qed

lemma plain_section_ok: "plain_section w s \<Longrightarrow> section_ok w s"
  by (auto simp: plain_section_def section_ok_def reloadable_def)

lemma jpeg_file_ok:
  assumes "jpeg_file w j"
  shows "jpeg_ok w j"
proof -
  have "section_ok w s" if "scan_end ts" "s \<in> set ts" for ts s
    using that by (auto simp: scan_end_def section_ok_def)
  then show ?thesis
    using assms plain_section_ok by (auto simp: jpeg_file_def jpeg_ok_def)
qed

lemma sample_reloadable: "reloadable sample_data"
proof -
  have "\<forall>i < EXIF_IFD_COUNT. dir_fixable sample_data i"
    unfolding all_ifds
    by (simp add: dir_fixable_def tags_of_def tags_def tag_at_def sample_data_def fixable_def data_present_def sample_entry_ok sample_sizes)
      (simp add: sample_entry_def)
  then show ?thesis using sample_data_ok sample_keeps sample_length by (simp add: reloadable_def)
qed

lemma sample_jpeg_file: "jpeg_file sample_world sample_jpeg"
proof -
  let ?ss = "take 3 (jd_sections sample_jpeg)" and ?ts = "drop 3 (jd_sections sample_jpeg)"
  have "\<forall>s \<in> set ?ss. plain_section sample_world s"
    using sample_reloadable by (simp add: sample_jpeg_def plain_section_def JPEG_IS_MARKER_def sample_world_def)
  moreover have "scan_end ?ts" by (simp add: sample_jpeg_def scan_end_def)
  moreover have "jd_sections sample_jpeg = ?ss @ ?ts" by simp
  moreover have "jd_sections sample_jpeg \<noteq> []" "jd_data sample_jpeg = Buf [9, 9, 0xff, 0]" "jd_size sample_jpeg = of_nat (length [9, 9, 0xff, 0 :: u8])"
    by (simp_all add: sample_jpeg_def)
  ultimately show ?thesis unfolding jpeg_file_def sample_jpeg_length by (intro conjI) (blast | simp)+
qed

text \<open>
  C5. A JPEG file that was saved and is loaded again has the same sections in the same order, each with its bytes,
  the same image data, and EXIF data with the same entries, thumbnail and byte order, up to the correction
  that every loading ends with. The file may have any number of sections of any type before the scan.
\<close>

theorem jpeg_save_load_roundtrip:
  assumes "plenty al" and "jpeg_file w j" and "w_fresh w0"
  shows "\<exists>f n j' w'. jpeg_data_save_data al (j, w) = Some (f, n) \<and> jpeg_data_new_from_data al now f n w0 = Some (Some j', w') \<and>
    list_all2 (same_section now w w') (jd_sections j) (jd_sections j') \<and>
    (JPEG_MARKER_SOS \<in> js_marker ` set (jd_sections j) \<longrightarrow> jd_data j' = jd_data j \<and> jd_size j' = jd_size j)"
proof -
  have al: "al = mem_ok" using assms(1) by (simp add: plenty_mem_ok)
  obtain img ss ts where J: "jd_sections j \<noteq> []" "length (jpeg_bytes w j) < 2 ^ 32" "jd_data j = Buf img" "jd_size j = of_nat (length img)"
      "jd_sections j = ss @ ts" "\<forall>s \<in> set ss. plain_section w s" "ts = [] \<or> scan_end ts"
    using assms(2) unfolding jpeg_file_def by blast
  let ?f = "jpeg_bytes w j" and ?n = "of_nat (length (jpeg_bytes w j)) :: u32"
  have save: "jpeg_data_save_data al (j, w) = Some (Buf ?f, ?n)"
    using jpeg_save_eq [OF assms(1) jpeg_file_ok [OF assms(2)] J(1,2)] .
  have d: "unat ?n = length ?f" using J(2) by (rule unat_word_of_nat_32)
  let ?j0 = "\<lparr>jd_sections = [], jd_data = NULL, jd_size = 0, jd_ref_count = 1\<rparr>" and ?w0 = "w0\<lparr>w_clock := w_clock w0 + 2\<rparr>"
  have fr: "w_fresh ?w0" using assms(3) unfolding w_fresh_def by (auto dest!: bspec)
  have new: "jpeg_data_new mem_ok w0 = (Some ?j0, ?w0)" by (simp add: jpeg_data_new_def w_alloc_def mem_ok_def)
  let ?x = "concat (map (section_bytes w j) ts)"
  have f: "drop 0 ?f = concat (map (section_bytes w j) ss) @ ?x" by (simp add: jpeg_bytes_def J(5))
  obtain ss' w1 where L: "load_sections mem_ok now (Buf ?f) ?n 0 (?j0, ?w0) =
        load_sections mem_ok now (Buf ?f) ?n (0 + length (concat (map (section_bytes w j) ss))) (?j0\<lparr>jd_sections := jd_sections ?j0 @ ss'\<rparr>, w1)"
      "list_all2 (same_section now w w1) ss ss'"
    using load_plain_sections [OF f J(6) d fr, of now ?j0] by auto
  let ?p = "0 + length (concat (map (section_bytes w j) ss))" and ?j1 = "?j0\<lparr>jd_sections := jd_sections ?j0 @ ss'\<rparr>"
  note fp = drop_append_next [OF f, simplified]
  have loaded: "jpeg_data_new_from_data al now (Buf ?f) ?n w0 = Some (Some j', w')"
    if "load_sections mem_ok now (Buf ?f) ?n ?p (?j1, w1) = Some (j', w')" for j' w'
    unfolding al jpeg_data_new_from_data_def new jpeg_data_load_data_def using L(1) that by simp
  show ?thesis
  proof (cases "ts = []")
    case True
    have "load_sections mem_ok now (Buf ?f) ?n ?p (?j1, w1) = Some (?j1, w1)"
      using d f True by (subst load_sections.simps) simp
    moreover have "JPEG_MARKER_SOS \<notin> js_marker ` set (jd_sections j)" using J(5,6) True by (auto simp: plain_section_def)
    ultimately show ?thesis using loaded save L(2) J(5) True by fastforce
  next
    case False
    then have "scan_end ts" using J(7) by blast
    then obtain ts' k where T: "load_sections mem_ok now (Buf ?f) ?n ?p (?j1, w1) =
         Some (?j1\<lparr>jd_sections := jd_sections ?j1 @ ts', jd_data := Buf img, jd_size := of_nat (length img)\<rparr>, w1\<lparr>w_clock := k\<rparr>)"
       "list_all2 (same_section now w (w1\<lparr>w_clock := k\<rparr>)) ts ts'"
      using load_scan_end [of ?p ?f w j ts img ?n now ?j1 w1] fp J(3) d by auto
    have "same_section now w (w1\<lparr>w_clock := k\<rparr>) = same_section now w w1" by (intro ext) (simp add: same_section_def)
    then have "list_all2 (same_section now w (w1\<lparr>w_clock := k\<rparr>)) ss ss'" using L(2) by simp
    then have "list_all2 (same_section now w (w1\<lparr>w_clock := k\<rparr>)) (jd_sections j) (jd_sections ?j1 @ ts')"
      using T(2) J(5) by (simp add: list_all2_appendI)
    then show ?thesis using loaded [OF T(1)] save J(3,4) by fastforce
  qed
qed

theorem jpeg_save_load_roundtrip_witness:
  "\<exists>f n j' w'. jpeg_data_save_data mem_ok (sample_jpeg, sample_world) = Some (f, n) \<and>
    jpeg_data_new_from_data mem_ok \<lparr>tm_year = 112, tm_mon = 3, tm_mday = 5, tm_hour = 9, tm_min = 8, tm_sec = 7\<rparr> f n sample_world = Some (Some j', w') \<and>
    map js_marker (jd_sections j') = [0xd8, 0xe1, 0xdb, 0xda, 0xd9] \<and> jd_data j' = Buf [9, 9, 0xff, 0]"
proof -
  let ?now = "\<lparr>tm_year = 112, tm_mon = 3, tm_mday = 5, tm_hour = 9, tm_min = 8, tm_sec = 7\<rparr>"
  have al: "plenty mem_ok" by (simp add: plenty_mem_ok)
  have fr: "w_fresh sample_world" by (simp add: w_fresh_def sample_world_def)
  obtain f n j' w' where r: "jpeg_data_save_data mem_ok (sample_jpeg, sample_world) = Some (f, n)"
      "jpeg_data_new_from_data mem_ok ?now f n sample_world = Some (Some j', w')"
      "list_all2 (same_section ?now sample_world w') (jd_sections sample_jpeg) (jd_sections j')"
      "JPEG_MARKER_SOS \<in> js_marker ` set (jd_sections sample_jpeg) \<longrightarrow> jd_data j' = jd_data sample_jpeg \<and> jd_size j' = jd_size sample_jpeg"
    using jpeg_save_load_roundtrip [OF al sample_jpeg_file fr, of ?now] by blast
  have "list_all2 (\<lambda>s s'. js_marker s' = js_marker s) (jd_sections sample_jpeg) (jd_sections j')"
    using r(3) by (rule list_all2_mono) (simp add: same_section_def)
  then have "map js_marker (jd_sections j') = map js_marker (jd_sections sample_jpeg)"
    by (induction rule: list_all2_induct) simp_all
  then have m: "map js_marker (jd_sections j') = [0xd8, 0xe1, 0xdb, 0xda, 0xd9]" by (simp add: sample_jpeg_def)
  have d: "jd_data j' = Buf [9, 9, 0xff, 0]" using r(4) by (simp add: sample_jpeg_def)
  show ?thesis by (intro exI conjI) (fact r(1), fact r(2), fact m, fact d)
qed

section \<open>A marker without its prefix\<close>

text \<open>
  A file that starts with the byte of the APP1 marker itself, without the 0xff before it, makes the loader pass a pointer before the
  beginning of the buffer to the EXIF library: the four bytes before the content are taken to be the prefix, the marker and
  the length, but only three have been read.
\<close>

theorem app1_without_prefix:
  assumes "f = 0xe1 # len2 (k + 2) @ x" and "k + 2 < 65536" and "k \<le> length x" and "length f < 2 ^ 32"
  shows "jpeg_data_new_from_data mem_ok now (Buf f) (of_nat (length f)) w = None"
proof -
  let ?n = "of_nat (length f) :: u32"
  have d: "unat ?n = length f" using assms(4) by (rule unat_word_of_nat_32)
  let ?j = "\<lparr>jd_sections = [], jd_data = NULL, jd_size = 0, jd_ref_count = 1\<rparr>"
  let ?j1 = "?j\<lparr>jd_sections := [\<lparr>js_marker = 0xe1, js_content = Zeroed\<rparr>]\<rparr>"
  have new: "jpeg_data_new mem_ok w = (Some ?j, w\<lparr>w_clock := w_clock w + 2\<rparr>)" by (simp add: jpeg_data_new_def w_alloc_def mem_ok_def)
  have f1: "drop 1 f = len2 (k + 2) @ x" using assms(1) by simp
  have sec: "load_section mem_ok now (Buf f) ?n JPEG_MARKER_APP1 1 (?j1, w') = None" for w'
    using load_section_length [OF f1 d assms(2,3), of JPEG_MARKER_APP1 mem_ok now "(?j1, w')"] by (simp add: load_app1_def)
  have len: "length f > 0" using assms(1) by simp
  have r0: "rd (Buf f) 0 = Some 0xe1" using assms(1) by simp
  have "min 7 (length f) \<noteq> 0" using len by (simp add: min_def)
  then obtain m where m: "min 7 (length f) = Suc m" using not0_implies_Suc by blast
  have run: "ff_run (Buf f) 0 (min 7 (unat ?n - 0)) = Some 0" unfolding d using r0 m by simp
  have "load_sections mem_ok now (Buf f) ?n 0 (?j, w\<lparr>w_clock := w_clock w + 2\<rparr>) = None"
    using run r0 len sec
    by (subst load_sections.simps)
      (simp add: d JPEG_IS_MARKER_def jpeg_data_append_section_def w_alloc_def mem_ok_def set_last_def del: rd.simps ff_run.simps)
  then show ?thesis by (simp add: jpeg_data_new_from_data_def new jpeg_data_load_data_def)
qed

theorem app1_without_prefix_witness:
  "jpeg_data_new_from_data mem_ok \<lparr>tm_year = 112, tm_mon = 3, tm_mday = 5, tm_hour = 9, tm_min = 8, tm_sec = 7\<rparr>
     (Buf [0xe1, 0, 10, 1, 2, 3, 4, 5, 6, 7, 8]) 11 sample_world = None"
  using app1_without_prefix [of "[0xe1, 0, 10, 1, 2, 3, 4, 5, 6, 7, 8]" 8 "[1, 2, 3, 4, 5, 6, 7, 8]" _ sample_world]
  by (simp add: len2_def byte_n_def)

end
