(* ===== verification/Xdr_Stream.thy ===== *)
theory Xdr_Stream
  imports Ancora_Prelude
begin

text \<open>
  The XDR stream of librpc: \<^verbatim>\<open>gps/librpc/svc_clnt_common.c\<close>, the record \<open>xdr_struct\<close> of
  \<^verbatim>\<open>rpc/types.h\<close>, and the calls of the router device in \<^verbatim>\<open>ops.c\<close>. An XDR handle owns an
  outgoing and an incoming message buffer of \<open>RPCROUTER_MSGSIZE_MAX\<close> bytes with a cursor
  each. The fixed-size arrays are functions from indices to bytes; every access is checked
  against the size of the array, and an access outside is \<open>None\<close>.

  C \<open>int\<close> fields are \<open>int\<close> with the conversions to and from \<open>uint32\<close> written out;
  \<open>uint32\<close> fields are words. The router device itself (the kernel's \<open>read\<close>, \<open>write\<close>,
  \<open>open\<close>, \<open>ioctl\<close>) is a parameter of the operations that use it.
\<close>

section \<open>The XDR handle\<close>

datatype xdr_op = XDR_ENCODE | XDR_DECODE | XDR_FREE

datatype rpc_msg_e_type = RPC_MSG_CALL | RPC_MSG_REPLY | RPC_MSG_UNDEF

fun rpc_msg_code :: "rpc_msg_e_type \<Rightarrow> u32" where
  "rpc_msg_code RPC_MSG_CALL = 0"
| "rpc_msg_code RPC_MSG_REPLY = 1"
| "rpc_msg_code RPC_MSG_UNDEF = 2"

text \<open>\<open>oa_base\<close> points to the credential bytes; \<open>oa_length\<close> says how many there are.\<close>

record opaque_auth =
  oa_flavor :: u32
  oa_base :: cbuf
  oa_length :: u32

record xdr_struct =
  x_op :: xdr_op
  x_prog :: u32
  x_vers :: u32
  x_proc :: u32
  verf :: opaque_auth
  xid :: u32
  fd :: int
  is_client :: int
  out_msg :: "nat \<Rightarrow> u8"
  out_next :: int
  in_msg :: "nat \<Rightarrow> u8"
  in_next :: int
  in_len :: int
  xdr_err :: int

abbreviation (input) RPCROUTER_MSGSIZE_MAX :: int where "RPCROUTER_MSGSIZE_MAX \<equiv> 18432"
abbreviation (input) RPC_OFFSET :: nat where "RPC_OFFSET \<equiv> 0"

text \<open>
  A C function that returns \<open>bool_t\<close> and updates the handle; a failing access is \<open>None\<close>.
  \<open>seqM\<close> is \<open>&&\<close> between two such calls. A receive that stores a value on success returns
  it as an option.
\<close>

type_synonym xdr_act = "xdr_struct \<Rightarrow> (bool \<times> xdr_struct) option"
type_synonym 'v xdr_recv = "xdr_struct \<Rightarrow> ('v option \<times> xdr_struct) option"

definition seqM :: "xdr_act \<Rightarrow> xdr_act \<Rightarrow> xdr_act" where
  "seqM f g x = do { (ok, x') \<leftarrow> f x; if ok then g x' else Some (False, x') }"

definition bindM :: "'v xdr_recv \<Rightarrow> ('v \<Rightarrow> 'w xdr_recv) \<Rightarrow> 'w xdr_recv" where
  "bindM f g x = do { (r, x') \<leftarrow> f x; case r of None \<Rightarrow> Some (None, x') | Some v \<Rightarrow> g v x' }"

definition put_out :: "int \<Rightarrow> u8 \<Rightarrow> xdr_struct \<Rightarrow> xdr_struct option" where
  "put_out i v x =
     (if 0 \<le> i \<and> i < RPCROUTER_MSGSIZE_MAX
      then Some (x\<lparr>out_msg := (out_msg x)(nat i := v)\<rparr>) else None)"

definition get_in :: "int \<Rightarrow> xdr_struct \<Rightarrow> u8 option" where
  "get_in i x = (if 0 \<le> i \<and> i < RPCROUTER_MSGSIZE_MAX then Some (in_msg x (nat i)) else None)"

fun put_outs :: "int \<Rightarrow> bytes \<Rightarrow> xdr_struct \<Rightarrow> xdr_struct option" where
  "put_outs i [] x = Some x"
| "put_outs i (b # bs) x = put_out i b x \<bind> put_outs (i + 1) bs"

text \<open>The four bytes that \<open>htonl\<close> and a 32-bit store leave in memory, and back.\<close>

definition be32 :: "u32 \<Rightarrow> bytes" where
  "be32 v = [byte_n 3 v, byte_n 2 v, byte_n 1 v, byte_n 0 v]"

definition get_in32 :: "int \<Rightarrow> xdr_struct \<Rightarrow> u32 option" where
  "get_in32 i x = do { b3 \<leftarrow> get_in i x; b2 \<leftarrow> get_in (i + 1) x; b1 \<leftarrow> get_in (i + 2) x;
     b0 \<leftarrow> get_in (i + 3) x; Some (join32 b3 b2 b1 b0) }"

section \<open>Message control\<close>

text \<open>\<open>r_control\<close> stands for the router's \<open>ioctl\<close>: its result for a descriptor and a request.\<close>

definition xdr_std_control :: "(int \<Rightarrow> u32 \<Rightarrow> int) \<Rightarrow> u32 \<Rightarrow> xdr_struct \<Rightarrow> int" where
  "xdr_std_control r_control request x = r_control (fd x) request"

definition xdr_std_msg_start :: "rpc_msg_e_type \<Rightarrow> xdr_act" where
  "xdr_std_msg_start ty x =
    (let x = (if ty = RPC_MSG_CALL then x\<lparr>xid := xid x + 1\<rparr> else x);
         x = x\<lparr>out_next := (int RPC_OFFSET + 2) * 4\<rparr>
     in do { x \<leftarrow> put_outs (int RPC_OFFSET * 4) (be32 (xid x)) x;
             x \<leftarrow> put_outs ((int RPC_OFFSET + 1) * 4) (be32 (rpc_msg_code ty)) x;
             Some (True, x) })"

definition xdr_std_msg_done :: xdr_act where "xdr_std_msg_done x = Some (True, x)"

definition xdr_std_msg_abort :: xdr_act where "xdr_std_msg_abort x = Some (True, x)"

text \<open>
  \<open>r_write\<close> stands for the router's \<open>write\<close> system call: what it returns for a file
  descriptor and the bytes of the message. \<open>out_bytes\<close> are the bytes handed to it.
\<close>

definition out_bytes :: "xdr_struct \<Rightarrow> bytes" where
  "out_bytes x = map (out_msg x) [0..<nat (out_next x)]"

definition xdr_std_msg_send :: "(int \<Rightarrow> bytes \<Rightarrow> int) \<Rightarrow> xdr_act" where
  "xdr_std_msg_send r_write x =
    (let ret = r_write (fd x) (out_bytes x); x = x\<lparr>xdr_err := ret\<rparr>
     in Some (ret = out_next x, x))"

text \<open>
  \<open>r_read\<close> stands for the router's \<open>read\<close> system call: for a file descriptor and a size it
  returns a count and the bytes it stored at the start of the buffer.
\<close>

definition store_in :: "bytes \<Rightarrow> (nat \<Rightarrow> u8) \<Rightarrow> nat \<Rightarrow> u8" where
  "store_in bs m i = (if i < length bs then bs ! i else m i)"

definition xdr_std_read :: "(int \<Rightarrow> nat \<Rightarrow> int \<times> bytes) \<Rightarrow> xdr_act" where
  "xdr_std_read r_read x =
    (let (rc, bs) = r_read (fd x) (nat RPCROUTER_MSGSIZE_MAX);
         x = x\<lparr>in_msg := store_in bs (in_msg x), in_len := rc\<rparr>
     in if in_len x < 0 then Some (False, x)
        else if in_len x < (int RPC_OFFSET + 2) * 4 then Some (False, x\<lparr>in_len := -1\<rparr>)
        else Some (True, x\<lparr>in_next := (int RPC_OFFSET + 2) * 4\<rparr>))"

section \<open>Sending data\<close>

definition xdr_std_send_uint32 :: "u32 \<Rightarrow> xdr_act" where
  "xdr_std_send_uint32 v x =
    (if out_next x \<ge> RPCROUTER_MSGSIZE_MAX - 3 then Some (False, x)
     else do { x \<leftarrow> put_outs (out_next x) (be32 v) x;
               Some (True, x\<lparr>out_next := out_next x + 4\<rparr>) })"

definition xdr_std_send_int8 :: "u8 \<Rightarrow> xdr_act" where
  "xdr_std_send_int8 v = xdr_std_send_uint32 (scast v)"

definition xdr_std_send_uint8 :: "u8 \<Rightarrow> xdr_act" where
  "xdr_std_send_uint8 v = xdr_std_send_uint32 (ucast v)"

definition xdr_std_send_int16 :: "u16 \<Rightarrow> xdr_act" where
  "xdr_std_send_int16 v = xdr_std_send_uint32 (scast v)"

definition xdr_std_send_uint16 :: "u16 \<Rightarrow> xdr_act" where
  "xdr_std_send_uint16 v = xdr_std_send_uint32 (ucast v)"

definition xdr_std_send_int32 :: "u32 \<Rightarrow> xdr_act" where
  "xdr_std_send_int32 v = xdr_std_send_uint32 v"

text \<open>\<open>while (len--) out_msg[out_next++] = *buf++;\<close>, with both cursors checked.\<close>

fun send_bytes_loop :: "cbuf \<Rightarrow> nat \<Rightarrow> nat \<Rightarrow> xdr_struct \<Rightarrow> xdr_struct option" where
  "send_bytes_loop buf p 0 x = Some x"
| "send_bytes_loop buf p (Suc n) x =
     do { b \<leftarrow> rd buf p; x \<leftarrow> put_out (out_next x) b x;
          send_bytes_loop buf (p + 1) n (x\<lparr>out_next := out_next x + 1\<rparr>) }"

text \<open>\<open>while (out_next % 4) out_msg[out_next++] = 0;\<close> ends within three rounds.\<close>

function pad_loop :: "xdr_struct \<Rightarrow> xdr_struct option" where
  "pad_loop x =
    (if out_next x mod 4 = 0 then Some x
     else do { x \<leftarrow> put_out (out_next x) 0 x; pad_loop (x\<lparr>out_next := out_next x + 1\<rparr>) })"
  by pat_completeness auto
termination
proof (relation "measure (\<lambda>x. nat ((- out_next x) mod 4))")
  fix x xa :: xdr_struct
  assume m: "out_next x mod 4 \<noteq> 0" and "put_out (out_next x) 0 x = Some xa"
  then have "out_next xa = out_next x" by (auto simp: put_out_def split: if_splits)
  moreover have "(- (out_next x + 1)) mod 4 < (- out_next x) mod 4"
    using m by presburger
  ultimately show "(xa\<lparr>out_next := out_next xa + 1\<rparr>, x) \<in> measure (\<lambda>x. nat ((- out_next x) mod 4))"
    by simp
qed simp

declare pad_loop.simps [simp del]

text \<open>
  The size check adds an \<open>int\<close> and a \<open>uint32\<close>, so it is made on unsigned 32-bit values.
\<close>

definition xdr_std_send_bytes :: "cbuf \<Rightarrow> u32 \<Rightarrow> xdr_act" where
  "xdr_std_send_bytes buf len x =
    (if word_of_int (out_next x) + len > word_of_int RPCROUTER_MSGSIZE_MAX then Some (False, x)
     else do { x \<leftarrow> send_bytes_loop buf 0 (unat len) x; x \<leftarrow> pad_loop x; Some (True, x) })"

section \<open>Receiving data\<close>

definition xdr_std_recv_uint32 :: "u32 xdr_recv" where
  "xdr_std_recv_uint32 x =
    (if in_next x + 4 > in_len x then Some (None, x)
     else do { v \<leftarrow> get_in32 (in_next x) x; Some (Some v, x\<lparr>in_next := in_next x + 4\<rparr>) })"

definition xdr_std_recv_int8 :: "u8 xdr_recv" where
  "xdr_std_recv_int8 = bindM xdr_std_recv_uint32 (\<lambda>v x. Some (Some (ucast v), x))"

definition xdr_std_recv_uint8 :: "u8 xdr_recv" where
  "xdr_std_recv_uint8 = bindM xdr_std_recv_uint32 (\<lambda>v x. Some (Some (ucast v), x))"

definition xdr_std_recv_int16 :: "u16 xdr_recv" where
  "xdr_std_recv_int16 = bindM xdr_std_recv_uint32 (\<lambda>v x. Some (Some (ucast v), x))"

definition xdr_std_recv_uint16 :: "u16 xdr_recv" where
  "xdr_std_recv_uint16 = bindM xdr_std_recv_uint32 (\<lambda>v x. Some (Some (ucast v), x))"

definition xdr_std_recv_int32 :: "u32 xdr_recv" where
  "xdr_std_recv_int32 = xdr_std_recv_uint32"

text \<open>
  \<open>in_next + (int) len > in_len\<close> is a signed comparison, with \<open>len\<close> converted to \<open>int\<close>;
  a signed overflow is undefined. \<open>memcpy\<close> copies \<open>len\<close> bytes, read as unsigned. A \<open>NULL\<close>
  destination skips the copy. \<open>in_next += len\<close> is computed in \<open>uint32\<close>.
\<close>

definition int32 :: "int \<Rightarrow> bool" where
  "int32 i \<longleftrightarrow> - (2 ^ 31) \<le> i \<and> i < 2 ^ 31"

definition in_range :: "int \<Rightarrow> nat \<Rightarrow> xdr_struct \<Rightarrow> bytes option" where
  "in_range i n x =
     (if 0 \<le> i \<and> i + int n \<le> RPCROUTER_MSGSIZE_MAX
      then Some (map (\<lambda>k. in_msg x (nat i + k)) [0..<n]) else None)"

definition xdr_std_recv_bytes :: "cbuf \<Rightarrow> u32 \<Rightarrow> xdr_struct \<Rightarrow> (bool \<times> cbuf \<times> xdr_struct) option" where
  "xdr_std_recv_bytes buf len x =
    (if \<not> int32 (in_next x + sint len) then None
     else if in_next x + sint len > in_len x then Some (False, buf, x)
     else do { buf \<leftarrow> (if buf = NULL then Some NULL
                       else do { bs \<leftarrow> in_range (in_next x) (unat len) x; wr_range buf 0 bs });
               x \<leftarrow> Some (x\<lparr>in_next := sint (word_of_int (in_next x) + len)\<rparr>);
               x \<leftarrow> Some (x\<lparr>in_next := sint ((word_of_int (in_next x) + 3) AND NOT (3 :: u32))\<rparr>);
               Some (True, buf, x) })"

section \<open>Creating, cloning and destroying a handle\<close>

text \<open>
  \<open>calloc\<close> zeroes the record. \<open>r_open\<close> is the router's \<open>open\<close> for a device name, \<open>dupfd\<close> the
  \<open>dup\<close> system call; both return a negative number when they fail. \<open>alive\<close> tells whether
  \<open>calloc\<close> returned memory; the code does not check it, so its failure is a fault.
\<close>

definition zero_xdr :: xdr_struct where
  "zero_xdr = \<lparr>x_op = XDR_ENCODE, x_prog = 0, x_vers = 0, x_proc = 0,
     verf = \<lparr>oa_flavor = 0, oa_base = NULL, oa_length = 0\<rparr>, xid = 0, fd = 0, is_client = 0,
     out_msg = (\<lambda>_. 0), out_next = 0, in_msg = (\<lambda>_. 0), in_next = 0, in_len = 0, xdr_err = 0\<rparr>"

definition xdr_init_common :: "bool \<Rightarrow> (string \<Rightarrow> int) \<Rightarrow> string \<Rightarrow> int \<Rightarrow> xdr_struct option option" where
  "xdr_init_common alive r_open router is_cl =
    (if \<not> alive then None
     else let x = zero_xdr\<lparr>fd := r_open router\<rparr>
          in if fd x < 0 then Some None else Some (Some (x\<lparr>is_client := is_cl\<rparr>)))"

definition xdr_clone :: "bool \<Rightarrow> (int \<Rightarrow> int) \<Rightarrow> xdr_struct \<Rightarrow> xdr_struct option option" where
  "xdr_clone alive dupfd other =
    (if \<not> alive then None
     else let x = zero_xdr\<lparr>fd := dupfd (fd other)\<rparr>
          in if fd x < 0 then Some None
             else Some (Some (x\<lparr>xid := xid x, x_prog := x_prog other, x_vers := x_vers other,
                                is_client := is_client other\<rparr>)))"

section \<open>The stream invariant\<close>

text \<open>
  Both cursors stay inside their buffers and on a multiple of four, and the received
  message is no longer than its buffer.
\<close>

definition xdr_inv :: "xdr_struct \<Rightarrow> bool" where
  "xdr_inv x \<longleftrightarrow> 0 \<le> out_next x \<and> out_next x \<le> RPCROUTER_MSGSIZE_MAX \<and> out_next x mod 4 = 0
     \<and> 0 \<le> in_next x \<and> in_next x \<le> RPCROUTER_MSGSIZE_MAX \<and> in_next x mod 4 = 0
     \<and> in_len x \<le> RPCROUTER_MSGSIZE_MAX"

text \<open>What sending and receiving a run of bytes does to a handle.\<close>

definition append_out :: "bytes \<Rightarrow> xdr_struct \<Rightarrow> xdr_struct" where
  "append_out bs x =
     x\<lparr>out_msg := (\<lambda>j. if nat (out_next x) \<le> j \<and> j < nat (out_next x) + length bs
                       then bs ! (j - nat (out_next x)) else out_msg x j),
       out_next := out_next x + int (length bs)\<rparr>"

definition fits :: "nat \<Rightarrow> xdr_struct \<Rightarrow> bool" where
  "fits n x \<longleftrightarrow> out_next x + int n \<le> RPCROUTER_MSGSIZE_MAX"

definition advance :: "nat \<Rightarrow> xdr_struct \<Rightarrow> xdr_struct" where
  "advance n x = x\<lparr>in_next := in_next x + int n\<rparr>"

definition in_at :: "bytes \<Rightarrow> xdr_struct \<Rightarrow> bool" where
  "in_at bs x \<longleftrightarrow> in_next x + int (length bs) \<le> in_len x \<and>
     (\<forall>k < length bs. in_msg x (nat (in_next x) + k) = bs ! k)"

definition xdr_pad :: "nat \<Rightarrow> bytes" where
  "xdr_pad n = replicate (nat ((- int n) mod 4)) 0"

lemma length_be32 [simp]: "length (be32 v) = 4"
  by (simp add: be32_def)

lemma append_out_fields [simp]:
  "x_op (append_out bs x) = x_op x" "x_prog (append_out bs x) = x_prog x"
  "x_vers (append_out bs x) = x_vers x" "xid (append_out bs x) = xid x"
  "fd (append_out bs x) = fd x" "in_msg (append_out bs x) = in_msg x"
  "in_next (append_out bs x) = in_next x" "in_len (append_out bs x) = in_len x"
  "out_next (append_out bs x) = out_next x + int (length bs)"
  by (simp_all add: append_out_def)

lemma advance_fields [simp]:
  "x_op (advance n x) = x_op x" "out_msg (advance n x) = out_msg x"
  "out_next (advance n x) = out_next x" "in_msg (advance n x) = in_msg x"
  "in_len (advance n x) = in_len x" "in_next (advance n x) = in_next x + int n"
  by (simp_all add: advance_def)

lemma append_out_Nil [simp]: "append_out [] x = x"
proof -
  have "(\<lambda>j. if nat (out_next x) \<le> j \<and> j < nat (out_next x) then ([] :: bytes) ! (j - nat (out_next x))
            else out_msg x j) = out_msg x"
    by (rule ext) auto
  then show ?thesis by (simp add: append_out_def)
qed

lemma append_out_append:
  assumes "0 \<le> out_next x"
  shows "append_out (as @ bs) x = append_out bs (append_out as x)"
proof -
  have e: "nat (out_next x + int (length as)) = nat (out_next x) + length as"
    using assms by simp
  show ?thesis
    unfolding append_out_def
    by (rule xdr_struct.equality) (auto simp: e nth_append fun_eq_iff)
qed

lemma out_bytes_append_out:
  assumes "0 \<le> out_next x"
  shows "out_bytes (append_out bs x) = out_bytes x @ bs"
proof -
  have e: "nat (out_next x + int (length bs)) = nat (out_next x) + length bs"
    using assms by simp
  show ?thesis
    by (rule nth_equalityI) (auto simp: out_bytes_def e append_out_def nth_append)
qed

lemma advance_advance: "advance m (advance n x) = advance (n + m) x"
  by (simp add: advance_def)

lemma in_at_append:
  "0 \<le> in_next x \<Longrightarrow> in_at (as @ bs) x \<longleftrightarrow> in_at as x \<and> in_at bs (advance (length as) x)"
proof -
  assume "0 \<le> in_next x"
  then have e: "nat (in_next x + int (length as)) = nat (in_next x) + length as" by simp
  have "(\<forall>k < length as + length bs. in_msg x (nat (in_next x) + k) = (as @ bs) ! k) \<longleftrightarrow>
    (\<forall>k < length as. in_msg x (nat (in_next x) + k) = as ! k) \<and>
    (\<forall>k < length bs. in_msg x (nat (in_next x) + length as + k) = bs ! k)" (is "?l = (?a \<and> ?b)")
  proof (intro iffI conjI allI impI)
    fix k assume l: ?l and "k < length bs"
    then show "in_msg x (nat (in_next x) + length as + k) = bs ! k"
      using l [rule_format, of "length as + k"] by (simp add: add.assoc)
  next
    fix k assume ab: "?a \<and> ?b" and k: "k < length as + length bs"
    show "in_msg x (nat (in_next x) + k) = (as @ bs) ! k"
    proof (cases "k < length as")
      case True
      then show ?thesis using ab by (simp add: nth_append)
    next
      case False
      then show ?thesis
        using ab k conjunct2 [OF ab, rule_format, of "k - length as"] by (simp add: nth_append)
    qed
  qed (auto simp: nth_append)
  then show ?thesis by (auto simp: in_at_def e)
qed

lemma mod4_add: "(a :: int) mod 4 = 0 \<Longrightarrow> n mod 4 = 0 \<Longrightarrow> (a + int n) mod 4 = 0"
  by presburger

lemma xdr_inv_append_out:
  "xdr_inv x \<Longrightarrow> fits (length bs) x \<Longrightarrow> length bs mod 4 = 0 \<Longrightarrow> xdr_inv (append_out bs x)"
  by (simp add: xdr_inv_def fits_def mod4_add)

lemma xdr_inv_advance:
  "xdr_inv x \<Longrightarrow> in_next x + int n \<le> in_len x \<Longrightarrow> n mod 4 = 0 \<Longrightarrow> xdr_inv (advance n x)"
  by (simp add: xdr_inv_def mod4_add)

section \<open>Each operation in terms of the stream\<close>

lemma put_outs_eq:
  assumes "0 \<le> i" and "i + int (length bs) \<le> RPCROUTER_MSGSIZE_MAX"
  shows "put_outs i bs x = Some (x\<lparr>out_msg := (\<lambda>j. if nat i \<le> j \<and> j < nat i + length bs
             then bs ! (j - nat i) else out_msg x j)\<rparr>)"
  using assms
proof (induction bs arbitrary: i x)
  case Nil
  have "(\<lambda>j. if nat i \<le> j \<and> j < nat i then ([] :: bytes) ! (j - nat i) else out_msg x j) = out_msg x"
    by (rule ext) auto
  then show ?case by simp
next
  case (Cons b bs)
  have e: "nat (i + 1) = Suc (nat i)" using Cons.prems by simp
  let ?x = "x\<lparr>out_msg := (out_msg x)(nat i := b)\<rparr>"
  have "put_outs i (b # bs) x = put_outs (i + 1) bs ?x"
    using Cons.prems by (simp add: put_out_def)
  also have "\<dots> = Some (?x\<lparr>out_msg := (\<lambda>j. if nat (i + 1) \<le> j \<and> j < nat (i + 1) + length bs
             then bs ! (j - nat (i + 1)) else out_msg ?x j)\<rparr>)"
    using Cons.prems by (intro Cons.IH) auto
  also have "\<dots> = Some (x\<lparr>out_msg := (\<lambda>j. if nat i \<le> j \<and> j < nat i + length (b # bs)
             then (b # bs) ! (j - nat i) else out_msg x j)\<rparr>)"
    by (auto simp: e fun_eq_iff nth_Cons' intro!: xdr_struct.equality)
  finally show ?case .
qed

lemma xdr_std_send_uint32_ok:
  assumes "0 \<le> out_next x"
  shows "xdr_std_send_uint32 v x
     = (if fits 4 x then Some (True, append_out (be32 v) x) else Some (False, x))"
  using assms by (simp add: xdr_std_send_uint32_def put_outs_eq fits_def append_out_def)

lemma send_bytes_loop_eq:
  assumes "0 \<le> out_next x" and "fits n x" and "p + n \<le> length d"
  shows "send_bytes_loop (Buf d) p n x = Some (append_out (take n (drop p d)) x)"
  using assms
proof (induction n arbitrary: p x)
  case 0
  then show ?case by simp
next
  case (Suc n)
  let ?x = "append_out [d ! p] x"
  have put: "put_out (out_next x) (d ! p) x = Some (?x\<lparr>out_next := out_next x\<rparr>)"
    using Suc.prems
    by (auto simp: put_out_def fits_def append_out_def fun_eq_iff intro!: xdr_struct.equality)
  have next1: "?x\<lparr>out_next := out_next x + 1\<rparr> = ?x"
    by (simp add: append_out_def)
  have "send_bytes_loop (Buf d) p (Suc n) x = send_bytes_loop (Buf d) (p + 1) n ?x"
    using Suc.prems put by (simp add: next1)
  also have "\<dots> = Some (append_out (take n (drop (p + 1) d)) ?x)"
    using Suc.prems by (intro Suc.IH) (auto simp: fits_def)
  also have "\<dots> = Some (append_out ([d ! p] @ take n (drop (p + 1) d)) x)"
    using Suc.prems by (simp only: append_out_append)
  also have "[d ! p] @ take n (drop (p + 1) d) = take (Suc n) (drop p d)"
    using Suc.prems by (simp add: Cons_nth_drop_Suc [symmetric])
  finally show ?case .
qed

lemma pad_loop_eq:
  assumes "0 \<le> out_next x" and "out_next x \<le> RPCROUTER_MSGSIZE_MAX"
  shows "pad_loop x = Some (append_out (replicate (nat ((- out_next x) mod 4)) 0) x)"
  using assms
proof (induction x rule: pad_loop.induct)
  case (1 x)
  show ?case
  proof (cases "out_next x mod 4 = 0")
    case True
    then have "(- out_next x) mod 4 = 0" by presburger
    with True show ?thesis by (simp add: pad_loop.simps [of x])
  next
    case False
    let ?y = "append_out [0] x"
    let ?xa = "x\<lparr>out_msg := (out_msg x)(nat (out_next x) := 0)\<rparr>"
    have put: "put_out (out_next x) 0 x = Some ?xa"
      using 1 False by (auto simp: put_out_def)
    have y: "?xa\<lparr>out_next := out_next ?xa + 1\<rparr> = ?y"
      by (auto simp: append_out_def fun_eq_iff intro!: xdr_struct.equality)
    have lt: "out_next x < RPCROUTER_MSGSIZE_MAX"
      using 1 False by (cases "out_next x = RPCROUTER_MSGSIZE_MAX") auto
    have "pad_loop x = pad_loop ?y"
      using False put y by (simp add: pad_loop.simps [of x])
    also have "\<dots> = Some (append_out (replicate (nat ((- out_next ?y) mod 4)) 0) ?y)"
      using "1.IH" [OF False put] 1(2,3) lt unfolding y by simp
    also have "\<dots> = Some (append_out ([0] @ replicate (nat ((- out_next ?y) mod 4)) 0) x)"
      using 1(2) by (simp only: append_out_append)
    also have "[0 :: u8] @ replicate (nat ((- out_next ?y) mod 4)) 0
        = replicate (Suc (nat ((- out_next ?y) mod 4))) 0" by simp
    also have "Suc (nat ((- out_next ?y) mod 4)) = nat ((- out_next x) mod 4)"
    proof -
      have "(- out_next x - 1) mod 4 + 1 = (- out_next x) mod 4" using False by presburger
      then show ?thesis by (simp add: Suc_nat_eq_nat_zadd1)
    qed
    finally show ?thesis .
  qed
qed

lemma length_xdr_pad: "(n + length (xdr_pad n)) mod 4 = 0"
proof -
  have "int ((n + length (xdr_pad n)) mod 4) = (int n + (- int n) mod 4) mod 4"
    by (simp add: xdr_pad_def zmod_int)
  also have "\<dots> = 0" by presburger
  finally show ?thesis by simp
qed

lemma length_xdr_pad_less: "length (xdr_pad n) < 4"
  by (simp add: xdr_pad_def nat_less_iff)

text \<open>A padded run fits as soon as the run does, since the buffer size is a multiple of 4.\<close>

lemma fits_pad: "out_next x mod 4 = 0 \<Longrightarrow> fits n x \<Longrightarrow> fits (n + length (xdr_pad n)) x"
  unfolding fits_def xdr_pad_def by simp presburger

lemma unsigned_check:
  assumes "0 \<le> (i :: int)" and "i \<le> RPCROUTER_MSGSIZE_MAX" and "i + int (unat len) < 2 ^ 32"
  shows "word_of_int i + len > (word_of_int RPCROUTER_MSGSIZE_MAX :: u32)
           \<longleftrightarrow> i + int (unat len) > RPCROUTER_MSGSIZE_MAX"
proof -
  have i: "unat (word_of_int i :: u32) = nat i"
    using assms(1,2) by (simp add: unat_eq_nat_uint uint_word_of_int take_bit_int_eq_self)
  have "int (nat i + unat len) < int (2 ^ 32)" using assms(1,3) by simp
  then have "nat i + unat len < 2 ^ 32" using of_nat_less_iff by blast
  then have "unat (word_of_int i + len) = nat i + unat len"
    by (simp add: unat_word_ariths i)
  moreover have "18432 < nat i + unat len \<longleftrightarrow> 18432 < i + int (unat len)"
    using assms(1) by linarith
  ultimately show ?thesis
    by (simp add: word_less_nat_alt)
qed

lemma xdr_std_send_bytes_ok:
  assumes "xdr_inv x" and "unat len \<le> length d" and "out_next x + int (unat len) < 2 ^ 32"
  shows "xdr_std_send_bytes (Buf d) len x =
     (if fits (unat len) x
      then Some (True, append_out (take (unat len) d @ xdr_pad (unat len)) x)
      else Some (False, x))"
proof (cases "fits (unat len) x")
  case False
  then show ?thesis
    using assms unsigned_check [of "out_next x" len]
    by (simp add: xdr_std_send_bytes_def xdr_inv_def fits_def)
next
  case True
  let ?y = "append_out (take (unat len) d) x"
  have y: "0 \<le> out_next ?y" "out_next ?y \<le> RPCROUTER_MSGSIZE_MAX"
    using assms True by (auto simp: xdr_inv_def fits_def)
  have "(- out_next ?y) mod 4 = (- int (unat len)) mod 4"
    using assms(1,2) unfolding xdr_inv_def by simp presburger
  then have pad: "pad_loop ?y = Some (append_out (xdr_pad (unat len)) ?y)"
    using pad_loop_eq [OF y] by (simp add: xdr_pad_def)
  have "append_out (take (unat len) d @ xdr_pad (unat len)) x = append_out (xdr_pad (unat len)) ?y"
    using assms(1) by (intro append_out_append) (simp add: xdr_inv_def)
  then show ?thesis
    using True assms unsigned_check [of "out_next x" len] pad send_bytes_loop_eq [of x "unat len" 0 d]
    by (simp add: xdr_std_send_bytes_def xdr_inv_def fits_def)
qed

lemma less_4: "k < (4 :: nat) \<longleftrightarrow> k = 0 \<or> k = 1 \<or> k = 2 \<or> k = 3"
  by auto

lemma get_in32_at:
  assumes "in_at (be32 v) x" and "0 \<le> in_next x" and "in_len x \<le> RPCROUTER_MSGSIZE_MAX"
  shows "get_in32 (in_next x) x = Some v"
proof -
  have e: "nat (in_next x + 1) = nat (in_next x) + 1" "nat (in_next x + 2) = nat (in_next x) + 2"
    "nat (in_next x + 3) = nat (in_next x) + 3"
    using assms(2) by auto
  have b: "in_msg x (nat (in_next x) + k) = be32 v ! k" if "k < 4" for k
    using assms(1) that by (simp add: in_at_def)
  have "in_next x + 4 \<le> in_len x" using assms(1) by (simp add: in_at_def)
  then show ?thesis
    using assms(2,3) b [of 0] b [of 1] b [of 2] b [of 3]
    by (simp add: get_in32_def get_in_def e be32_def)
qed

lemma xdr_std_recv_uint32_ok:
  assumes "xdr_inv x" and "in_at (be32 v) x"
  shows "xdr_std_recv_uint32 x = Some (Some v, advance 4 x)"
proof -
  have "in_next x + 4 \<le> in_len x" using assms(2) by (simp add: in_at_def)
  then show ?thesis
    using assms get_in32_at [OF assms(2)]
    by (simp add: xdr_std_recv_uint32_def xdr_inv_def advance_def)
qed

text \<open>Receiving an integer never faults and keeps the invariant, whatever has arrived.\<close>

lemma xdr_std_recv_uint32_safe:
  assumes "xdr_inv x"
  obtains "xdr_std_recv_uint32 x = Some (None, x)" and "in_len x < in_next x + 4"
  | v where "xdr_std_recv_uint32 x = Some (Some v, advance 4 x)" and "in_at (be32 v) x"
      and "xdr_inv (advance 4 x)"
proof (cases "in_next x + 4 \<le> in_len x")
  case False
  then have "xdr_std_recv_uint32 x = Some (None, x)" by (simp add: xdr_std_recv_uint32_def)
  with False that(1) show ?thesis by simp
next
  case True
  let ?i = "nat (in_next x)"
  let ?v = "join32 (in_msg x ?i) (in_msg x (?i + 1)) (in_msg x (?i + 2)) (in_msg x (?i + 3))"
  have at: "in_at (be32 ?v) x"
    using True by (simp add: in_at_def) (auto simp: less_4 be32_def)
  show ?thesis
  proof (rule that(2))
    show "xdr_std_recv_uint32 x = Some (Some ?v, advance 4 x)"
      using assms at by (rule xdr_std_recv_uint32_ok)
    show "in_at (be32 ?v) x" by (rule at)
    show "xdr_inv (advance 4 x)"
      using assms True by (intro xdr_inv_advance) auto
  qed
qed

lemma sint_of_small: "uint (len :: u32) < 2 ^ 31 \<Longrightarrow> sint len = uint len"
  by (simp add: sint_uint signed_take_bit_int_eq_self_iff order_trans [OF _ uint_ge_0])

lemma bit_3: "bit (3 :: u32) n \<longleftrightarrow> n < 2"
proof -
  have "bit (mask 2 :: u32) n \<longleftrightarrow> n < 2" by (simp only: bit_mask_iff) auto
  then show ?thesis by (simp add: mask_eq_exp_minus_1)
qed

lemma and_not_3: "(w :: u32) AND NOT 3 = push_bit 2 (drop_bit 2 w)"
proof (rule bit_word_eqI)
  fix n
  assume n: "n < LENGTH(32)"
  show "bit (w AND NOT 3) n \<longleftrightarrow> bit (push_bit 2 (drop_bit 2 w)) n"
  proof (cases "n < 2")
    case True
    then show ?thesis by (simp only: bit_and_iff bit_not_iff bit_3 bit_push_bit_iff) auto
  next
    case False
    then obtain m where "n = 2 + m" by (metis le_Suc_ex not_less)
    with n show ?thesis
      by (simp only: bit_and_iff bit_not_iff bit_3 bit_push_bit_iff bit_drop_bit_eq) auto
  qed
qed

lemma uint_and_not_3: "uint ((w :: u32) AND NOT 3) = 4 * (uint w div 4)"
proof -
  have "4 * (uint w div 4) \<le> uint w" by simp
  then have lt: "4 * (uint w div 4) < 2 ^ 32" using uint_lt2p [of w] by simp
  have "take_bit 32 (uint w) = uint w"
    using uint_lt2p [of w] by (intro take_bit_int_eq_self) auto
  moreover have "take_bit 32 (4 * (uint w div 4)) = 4 * (uint w div 4)"
    using lt by (intro take_bit_int_eq_self) (auto simp: pos_imp_zdiv_nonneg_iff)
  ultimately show ?thesis
    unfolding and_not_3 unsigned_push_bit_eq unsigned_drop_bit_eq
    by (simp add: push_bit_eq_mult drop_bit_eq_div mult.commute)
qed

lemma uint_word_of_int_small: "0 \<le> i \<Longrightarrow> i < 2 ^ 32 \<Longrightarrow> uint (word_of_int i :: u32) = i"
  by (simp add: uint_word_of_int)

lemma round_up_4:
  assumes "(p :: int) mod 4 = 0" and "0 \<le> p" and "p + int n \<le> RPCROUTER_MSGSIZE_MAX"
  shows "sint ((word_of_int (p + int n) + 3) AND NOT (3 :: u32)) = p + int (n + length (xdr_pad n))"
proof -
  let ?m = "p + int n"
  have w: "(word_of_int ?m + 3 :: u32) = word_of_int (?m + 3)" by simp
  have u: "uint (word_of_int (?m + 3) :: u32) = ?m + 3"
    using assms by (intro uint_word_of_int_small) auto
  have "4 * ((?m + 3) div 4) = ?m + (- int n) mod 4"
    using assms(1) by presburger
  then have e: "uint ((word_of_int ?m + 3) AND NOT (3 :: u32)) = ?m + (- int n) mod 4"
    unfolding w by (simp only: uint_and_not_3 u)
  also have "\<dots> < 2 ^ 31"
    using assms(3) pos_mod_bound [of 4 "- int n"] by simp
  finally have "sint ((word_of_int ?m + 3) AND NOT (3 :: u32)) = ?m + (- int n) mod 4"
    using e by (simp only: sint_of_small)
  then show ?thesis by (simp add: xdr_pad_def)
qed

lemma in_range_at:
  assumes "in_at bs x" and "0 \<le> in_next x" and "in_len x \<le> RPCROUTER_MSGSIZE_MAX" and "n \<le> length bs"
  shows "in_range (in_next x) n x = Some (take n bs)"
proof -
  have "map (\<lambda>k. in_msg x (nat (in_next x) + k)) [0..<n] = take n bs"
    using assms(1,4) by (intro nth_equalityI) (auto simp: in_at_def)
  moreover have "in_next x + int n \<le> in_len x"
    using assms(1,4) by (simp add: in_at_def)
  ultimately show ?thesis using assms(2,3) by (simp add: in_range_def)
qed

lemma xdr_std_recv_bytes_ok:
  assumes "xdr_inv x" and "in_at (bs @ xdr_pad (length bs)) x" and "length bs = unat len"
    and "length bs \<le> length d"
  shows "xdr_std_recv_bytes (Buf d) len x
     = Some (True, Buf (bs @ drop (length bs) d), advance (length bs + length (xdr_pad (length bs))) x)"
proof -
  let ?n = "length bs"
  have room: "in_next x + int ?n \<le> in_len x" and max: "in_len x \<le> RPCROUTER_MSGSIZE_MAX"
    and p: "0 \<le> in_next x" "in_next x mod 4 = 0"
    using assms(1,2) by (auto simp: in_at_def xdr_inv_def)
  have ul: "uint len = int ?n" using assms(3) by simp
  have sl: "sint len = int ?n"
    using room max p(1) ul by (simp add: sint_of_small)
  have rng: "in_range (in_next x) (unat len) x = Some bs"
    using in_range_at [OF assms(2) p(1) max, of ?n] assms(3) by simp
  have w: "(word_of_int (in_next x) + len :: u32) = word_of_int (in_next x + int ?n)"
    using ul by (metis of_int_add word_of_int_uint)
  have s1: "sint (word_of_int (in_next x) + len :: u32) = in_next x + int ?n"
  proof -
    have "uint (word_of_int (in_next x + int ?n) :: u32) = in_next x + int ?n"
      using room max p(1) by (intro uint_word_of_int_small) auto
    then show ?thesis unfolding w using room max by (subst sint_of_small) auto
  qed
  have "sint ((word_of_int (in_next x + int ?n) + 3) AND NOT (3 :: u32))
      = in_next x + int (?n + length (xdr_pad ?n))"
    using room max p by (intro round_up_4) auto
  then show ?thesis
    using room max p(1) assms(4) rng
    by (simp add: xdr_std_recv_bytes_def sl s1 int32_def advance_def)
qed

end
