(* ===== verification/Xdr_Prims.thy ===== *)
theory Xdr_Prims
  imports Xdr_Stream
begin

text \<open>
  The XDR filters of \<^verbatim>\<open>gps/librpc/xdr.c\<close>: one routine per data type that encodes, decodes or
  frees a value according to \<open>x_op\<close>. A filter takes the handle and the value its pointer
  argument refers to, and returns the C result, the value afterwards and the handle.

  The target is 32-bit ARM: \<open>long\<close> is 32 bits wide and \<open>char\<close> is unsigned. \<open>al\<close> is the
  allocator: the sizes for which \<open>malloc\<close> returns memory. Fresh memory is shown as zeros;
  the code never reads it before it has written it.
\<close>

type_synonym 'v xdrproc = "xdr_struct \<Rightarrow> 'v \<Rightarrow> (bool \<times> 'v \<times> xdr_struct) option"

text \<open>Calling a send with the value kept, and a receive that stores what arrived.\<close>

definition do_send :: "xdr_act \<Rightarrow> xdr_struct \<Rightarrow> 'v \<Rightarrow> (bool \<times> 'v \<times> xdr_struct) option" where
  "do_send act x v = do { (ok, x) \<leftarrow> act x; Some (ok, v, x) }"

definition do_recv :: "'w xdr_recv \<Rightarrow> ('w \<Rightarrow> 'v) \<Rightarrow> xdr_struct \<Rightarrow> 'v \<Rightarrow> (bool \<times> 'v \<times> xdr_struct) option" where
  "do_recv rcv f x v =
     do { (r, x) \<leftarrow> rcv x; Some (case r of None \<Rightarrow> (False, v, x) | Some w \<Rightarrow> (True, f w, x)) }"

definition mem_alloc :: "(nat \<Rightarrow> bool) \<Rightarrow> nat \<Rightarrow> cbuf" where
  "mem_alloc al n = (if al n then Buf (replicate n 0) else NULL)"

section \<open>Integers\<close>

definition xdr_enum :: "u32 xdrproc" where
  "xdr_enum x e = (case x_op x of
      XDR_ENCODE \<Rightarrow> do_send (xdr_std_send_int32 e) x e
    | XDR_DECODE \<Rightarrow> do_recv xdr_std_recv_int32 id x e
    | XDR_FREE \<Rightarrow> Some (True, e, x))"

definition xdr_u_int :: "u32 xdrproc" where
  "xdr_u_int x u = (case x_op x of
      XDR_ENCODE \<Rightarrow> do_send (xdr_std_send_uint32 u) x u
    | XDR_DECODE \<Rightarrow> do_recv xdr_std_recv_uint32 id x u
    | XDR_FREE \<Rightarrow> Some (True, u, x))"

definition xdr_int :: "u32 xdrproc" where
  "xdr_int x i = (case x_op x of
      XDR_ENCODE \<Rightarrow> do_send (xdr_std_send_int32 i) x i
    | XDR_DECODE \<Rightarrow> do_recv xdr_std_recv_int32 id x i
    | XDR_FREE \<Rightarrow> Some (True, i, x))"

definition xdr_long :: "u32 xdrproc" where
  "xdr_long x l = (case x_op x of
      XDR_ENCODE \<Rightarrow> do_send (xdr_std_send_int32 l) x l
    | XDR_DECODE \<Rightarrow> do_recv xdr_std_recv_int32 id x l
    | XDR_FREE \<Rightarrow> Some (True, l, x))"

definition xdr_u_long :: "u32 xdrproc" where
  "xdr_u_long x l = (case x_op x of
      XDR_ENCODE \<Rightarrow> do_send (xdr_std_send_uint32 l) x l
    | XDR_DECODE \<Rightarrow> do_recv xdr_std_recv_uint32 id x l
    | XDR_FREE \<Rightarrow> Some (True, l, x))"

definition xdr_u_char :: "u8 xdrproc" where
  "xdr_u_char x c = do { (ok, u, x) \<leftarrow> xdr_u_int x (ucast c);
     if \<not> ok then Some (False, c, x) else Some (True, ucast u, x) }"

definition xdr_char :: "u8 xdrproc" where
  "xdr_char x c = do { (ok, i, x) \<leftarrow> xdr_int x (ucast c);
     if \<not> ok then Some (False, c, x) else Some (True, ucast i, x) }"

definition xdr_u_short :: "u16 xdrproc" where
  "xdr_u_short x s = (case x_op x of
      XDR_ENCODE \<Rightarrow> do_send (xdr_std_send_uint32 (ucast s)) x s
    | XDR_DECODE \<Rightarrow> do_recv xdr_std_recv_uint32 ucast x s
    | XDR_FREE \<Rightarrow> Some (True, s, x))"

definition xdr_short :: "u16 xdrproc" where
  "xdr_short x s = (case x_op x of
      XDR_ENCODE \<Rightarrow> do_send (xdr_std_send_int32 (scast s)) x s
    | XDR_DECODE \<Rightarrow> do_recv xdr_std_recv_int32 ucast x s
    | XDR_FREE \<Rightarrow> Some (True, s, x))"

text \<open>A \<open>bool_t\<close> is a C \<open>int\<close>.\<close>

definition xdr_bool :: "u32 xdrproc" where
  "xdr_bool x b = (case x_op x of
      XDR_ENCODE \<Rightarrow> do_send (xdr_std_send_uint32 (if b \<noteq> 0 then 1 else 0)) x b
    | XDR_DECODE \<Rightarrow> do_recv xdr_std_recv_uint32 (\<lambda>lb. if lb = 0 then 0 else 1) x b
    | XDR_FREE \<Rightarrow> Some (True, b, x))"

definition xdr_u_hyper :: "u64 xdrproc" where
  "xdr_u_hyper x u = (case x_op x of
      XDR_ENCODE \<Rightarrow>
        do_send (seqM (xdr_std_send_int32 (ucast (drop_bit 32 u))) (xdr_std_send_int32 (ucast u))) x u
    | XDR_DECODE \<Rightarrow>
        do_recv (bindM xdr_std_recv_int32 (\<lambda>t1. bindM xdr_std_recv_int32
                   (\<lambda>t2 x. Some (Some (push_bit 32 (ucast t1) OR ucast t2), x)))) id x u
    | XDR_FREE \<Rightarrow> Some (True, u, x))"

definition xdr_u_quad_t :: "u64 xdrproc" where
  "xdr_u_quad_t x u = xdr_u_hyper x u"

definition xdr_quad_t :: "u64 xdrproc" where
  "xdr_quad_t x u = xdr_u_quad_t x u"

definition xdr_void :: bool where "xdr_void = True"

text \<open>
  \<open>xdr_send_enum\<close> and \<open>xdr_recv_enum\<close> dispatch on the size of the C object. With
  \<open>-fno-short-enums\<close> it is 4; the narrower cases truncate and sign-extend.
\<close>

definition xdr_send_enum :: "u32 \<Rightarrow> nat \<Rightarrow> xdr_act" where
  "xdr_send_enum v sz =
    (if sz = 4 then xdr_std_send_int32 v
     else if sz = 2 then xdr_std_send_int16 (ucast v)
     else if sz = 1 then xdr_std_send_int8 (ucast v)
     else (\<lambda>x. Some (False, x)))"

definition xdr_recv_enum :: "nat \<Rightarrow> u32 xdr_recv" where
  "xdr_recv_enum sz =
    (if sz = 4 then xdr_std_recv_int32
     else if sz = 2 then bindM xdr_std_recv_int16 (\<lambda>v x. Some (Some (scast v), x))
     else if sz = 1 then bindM xdr_std_recv_int8 (\<lambda>v x. Some (Some (scast v), x))
     else (\<lambda>x. Some (None, x)))"

section \<open>Byte strings\<close>

definition xdr_opaque :: "u32 \<Rightarrow> cbuf xdrproc" where
  "xdr_opaque cnt x cp =
    (if cnt = 0 then Some (True, cp, x)
     else case x_op x of
       XDR_ENCODE \<Rightarrow> do_send (xdr_std_send_bytes cp cnt) x cp
     | XDR_DECODE \<Rightarrow> xdr_std_recv_bytes cp cnt x
     | XDR_FREE \<Rightarrow> Some (True, cp, x))"

definition xdr_bytes :: "(nat \<Rightarrow> bool) \<Rightarrow> u32 \<Rightarrow> (cbuf \<times> u32) xdrproc" where
  "xdr_bytes al maxsize x v = (case v of (cp, sz) \<Rightarrow>
    (case x_op x of
       XDR_DECODE \<Rightarrow>
         do { (r, x) \<leftarrow> xdr_std_recv_uint32 x;
              case r of None \<Rightarrow> Some (False, (cp, sz), x)
              | Some sz \<Rightarrow>
                  if sz > maxsize then Some (False, (cp, sz), x)
                  else if sz = 0 then Some (True, (cp, sz), x)
                  else let cp = (if cp = NULL then mem_alloc al (unat sz) else cp)
                       in if cp = NULL then Some (False, (cp, sz), x)
                          else do { (ok, cp, x) \<leftarrow> xdr_std_recv_bytes cp sz x; Some (ok, (cp, sz), x) } }
     | XDR_ENCODE \<Rightarrow>
         do_send (seqM (xdr_std_send_uint32 sz)
                   (\<lambda>x. if sz \<le> maxsize then xdr_std_send_bytes cp sz x else Some (False, x))) x (cp, sz)
     | XDR_FREE \<Rightarrow> Some (True, (NULL, sz), x)))"

text \<open>\<open>strlen\<close> faults when the buffer holds no terminating zero.\<close>

definition c_strlen :: "cbuf \<Rightarrow> nat option" where
  "c_strlen b = (if 0 \<in> set (bbytes b) then Some (length (takeWhile (\<lambda>c. c \<noteq> 0) (bbytes b))) else None)"

definition xdr_string :: "(nat \<Rightarrow> bool) \<Rightarrow> u32 \<Rightarrow> cbuf xdrproc" where
  "xdr_string al maxsize x cp =
    (if x_op x = XDR_FREE \<and> cp = NULL then Some (True, cp, x)
     else if x_op x \<noteq> XDR_DECODE \<and> cp = NULL then Some (False, cp, x)
     else do {
       sz \<leftarrow> (if x_op x = XDR_DECODE then Some 0 else map_option word_of_nat (c_strlen cp));
       (ok, sz, x) \<leftarrow> xdr_u_int x sz;
       if \<not> ok then Some (False, cp, x)
       else if sz > maxsize then Some (False, cp, x)
       else let nodesize = sz + 1 in
         case x_op x of
           XDR_DECODE \<Rightarrow>
             if nodesize = 0 then Some (True, cp, x)
             else let cp = (if cp = NULL then mem_alloc al (unat nodesize) else cp)
                  in if cp = NULL then Some (False, cp, x)
                     else do { cp \<leftarrow> wr cp (unat sz) 0; xdr_opaque sz x cp }
         | XDR_ENCODE \<Rightarrow> xdr_opaque sz x cp
         | XDR_FREE \<Rightarrow> Some (True, NULL, x) })"

section \<open>Arrays and pointers\<close>

text \<open>
  The loop of \<open>xdr_vector\<close> and \<open>xdr_array\<close>: \<open>n\<close> elements from index \<open>i\<close>, stopping at the
  first failure. An element outside the array is a fault.
\<close>

fun xdr_elems :: "'v xdrproc \<Rightarrow> nat \<Rightarrow> nat \<Rightarrow> 'v list xdrproc" where
  "xdr_elems proc 0 i x vs = Some (True, vs, x)"
| "xdr_elems proc (Suc n) i x vs =
    (if i < length vs
     then do { (ok, v, x) \<leftarrow> proc x (vs ! i);
               if ok then xdr_elems proc n (i + 1) x (vs[i := v])
               else Some (False, vs[i := v], x) }
     else None)"

definition xdr_vector :: "u32 \<Rightarrow> 'v xdrproc \<Rightarrow> 'v list xdrproc" where
  "xdr_vector nelem proc x vs = xdr_elems proc (unat nelem) 0 x vs"

text \<open>
  An array pointer is the list of its elements or \<open>None\<close> for \<open>NULL\<close>; \<open>z\<close> is the element
  \<open>memset\<close> leaves. The block has \<open>c * elsize\<close> bytes, a product of \<open>u_int\<close>s that wraps, and
  so holds that many bytes divided by \<open>elsize\<close> elements.
\<close>

definition xdr_array ::
  "(nat \<Rightarrow> bool) \<Rightarrow> u32 \<Rightarrow> u32 \<Rightarrow> 'v \<Rightarrow> 'v xdrproc \<Rightarrow> ('v list option \<times> u32) xdrproc" where
  "xdr_array al maxsize elsize z proc x v = (case v of (addr, sz) \<Rightarrow>
    do { (ok, sz, x) \<leftarrow> xdr_u_int x sz;
      if \<not> ok then Some (False, (addr, sz), x)
      else let c = sz in
        if c > maxsize \<and> x_op x \<noteq> XDR_FREE then Some (False, (addr, sz), x)
        else let nodesize = c * elsize in
        (case addr of
           None \<Rightarrow>
             (case x_op x of
                XDR_DECODE \<Rightarrow>
                  if c = 0 then Some (True, (None, sz), x)
                  else if \<not> al (unat nodesize) then Some (False, (None, sz), x)
                  else do { (ok, vs, x) \<leftarrow>
                              xdr_elems proc (unat c) 0 x (replicate (unat nodesize div unat elsize) z);
                            Some (ok, (Some vs, sz), x) }
              | XDR_FREE \<Rightarrow> Some (True, (None, sz), x)
              | XDR_ENCODE \<Rightarrow> if c = 0 then Some (True, (None, sz), x) else None)
         | Some vs \<Rightarrow>
             do { (ok, vs, x) \<leftarrow> xdr_elems proc (unat c) 0 x vs;
                  Some (ok, (if x_op x = XDR_FREE then None else Some vs, sz), x) }) })"

text \<open>A pointer to one object: \<open>None\<close> for \<open>NULL\<close>; \<open>z\<close> is the zeroed object.\<close>

definition xdr_reference :: "(nat \<Rightarrow> bool) \<Rightarrow> u32 \<Rightarrow> 'v \<Rightarrow> 'v xdrproc \<Rightarrow> 'v option xdrproc" where
  "xdr_reference al sz z proc x pp =
    (case pp of
       Some v \<Rightarrow> do { (ok, v, x) \<leftarrow> proc x v; Some (ok, if x_op x = XDR_FREE then None else Some v, x) }
     | None \<Rightarrow>
        (case x_op x of
           XDR_FREE \<Rightarrow> Some (True, None, x)
         | XDR_DECODE \<Rightarrow>
             if \<not> al (unat sz) then Some (False, None, x)
             else do { (ok, v, x) \<leftarrow> proc x z; Some (ok, Some v, x) }
         | XDR_ENCODE \<Rightarrow> None))"

definition xdr_pointer :: "(nat \<Rightarrow> bool) \<Rightarrow> u32 \<Rightarrow> 'v \<Rightarrow> 'v xdrproc \<Rightarrow> 'v option xdrproc" where
  "xdr_pointer al sz z proc x objpp =
    do { (ok, more_data, x) \<leftarrow> xdr_bool x (if objpp \<noteq> None then 1 else 0);
         if \<not> ok then Some (False, objpp, x)
         else if more_data = 0 then Some (True, None, x)
         else xdr_reference al sz z proc x objpp }"

end
