(* ===== verification/Xdr_Filters.thy ===== *)
theory Xdr_Filters
  imports Xdr_Prims
begin

text \<open>
  What the XDR filters promise, as two contracts. \<open>xdr_filter\<close>: a value is encoded as fixed
  bytes and exactly those bytes decode to it; \<open>xdr_safe\<close>: decoding any message returns,
  stays inside the buffers and keeps the stream invariant. Every filter of
  \<^verbatim>\<open>gps/librpc/xdr.c\<close> is an interpretation, or a filter built from one. The properties at
  the end are what the RPC layers above rely on.
\<close>

section \<open>Filters: what every routine promises\<close>

lemma xdr_inv_next: "xdr_inv x \<Longrightarrow> 0 \<le> out_next x" "xdr_inv x \<Longrightarrow> 0 \<le> in_next x"
  by (simp_all add: xdr_inv_def)

lemma length_bbytes [simp]: "length (bbytes b) = blen b"
  by (cases b) auto

lemma fits_append: "fits (m + n) x \<Longrightarrow> fits m x"
  by (simp add: fits_def)

lemma fits_append_out: "fits (length as + n) x \<Longrightarrow> fits n (append_out as x)"
  by (simp add: fits_def)

lemma fits_small: "xdr_inv x \<Longrightarrow> fits n x \<Longrightarrow> out_next x + int n < 2 ^ 32"
  by (simp add: fits_def)

text \<open>
  Delivery: a handle \<open>y\<close> that received what \<open>x'\<close> sends, its cursor where the cursor of the
  sender stood (in \<open>x\<close>) before it encoded the value.
\<close>

definition arrived :: "xdr_struct \<Rightarrow> xdr_struct \<Rightarrow> xdr_struct \<Rightarrow> xdr_struct" where
  "arrived x x' y = y\<lparr>in_msg := out_msg x', in_len := out_next x', in_next := out_next x\<rparr>"

lemma arrived_simps [simp]:
  "x_op (arrived x x' y) = x_op y" "in_msg (arrived x x' y) = out_msg x'"
  "in_len (arrived x x' y) = out_next x'" "in_next (arrived x x' y) = out_next x"
  by (simp_all add: arrived_def)

lemma xdr_inv_arrived: "xdr_inv x \<Longrightarrow> xdr_inv x' \<Longrightarrow> xdr_inv y \<Longrightarrow> xdr_inv (arrived x x' y)"
  by (simp add: xdr_inv_def arrived_def)

text \<open>
  A filter encodes a good value as the bytes \<open>enc v\<close>, decodes exactly those bytes to the same
  value, into any storage that is \<open>ready\<close> for it, and frees a good value without touching the
  stream. The client of the contract is a
  round trip through the router: what one handle sends, another receives.
\<close>

locale xdr_filter =
  fixes proc :: "'v xdrproc"
    and enc :: "'v \<Rightarrow> bytes"
    and good :: "'v \<Rightarrow> bool"
    and ready :: "'v \<Rightarrow> 'v \<Rightarrow> bool"
  assumes enc_aligned: "good v \<Longrightarrow> length (enc v) mod 4 = 0"
    and encode_ok: "good v \<Longrightarrow> xdr_inv x \<Longrightarrow> x_op x = XDR_ENCODE \<Longrightarrow> fits (length (enc v)) x
           \<Longrightarrow> proc x v = Some (True, v, append_out (enc v) x)"
    and decode_ok: "good v \<Longrightarrow> xdr_inv x \<Longrightarrow> x_op x = XDR_DECODE \<Longrightarrow> in_at (enc v) x \<Longrightarrow> ready v0 v
           \<Longrightarrow> proc x v0 = Some (True, v, advance (length (enc v)) x)"
    and free_ok: "good v \<Longrightarrow> x_op x = XDR_FREE \<Longrightarrow> \<exists>v'. proc x v = Some (True, v', x)"
begin

lemma encode_inv:
  "good v \<Longrightarrow> xdr_inv x \<Longrightarrow> fits (length (enc v)) x \<Longrightarrow> xdr_inv (append_out (enc v) x)"
  by (simp add: xdr_inv_append_out enc_aligned)

lemma decode_inv:
  "good v \<Longrightarrow> xdr_inv x \<Longrightarrow> in_at (enc v) x \<Longrightarrow> xdr_inv (advance (length (enc v)) x)"
  by (intro xdr_inv_advance) (auto simp: in_at_def enc_aligned)

lemma transfer_arrived:
  assumes "good v" and "xdr_inv x" and "x_op x = XDR_ENCODE" and "fits (length (enc v)) x"
    and "xdr_inv y" and "x_op y = XDR_DECODE" and "ready v0 v"
  shows "\<exists>x'. proc x v = Some (True, v, x') \<and> xdr_inv x' \<and>
     proc (arrived x x' y) v0 = Some (True, v, (arrived x x' y)\<lparr>in_next := out_next x'\<rparr>)"
proof -
  let ?x = "append_out (enc v) x"
  have inv: "xdr_inv ?x" using assms by (intro encode_inv)
  have "in_at (enc v) (arrived x ?x y)"
    using assms(2) by (auto simp: in_at_def append_out_def xdr_inv_def)
  then have "proc (arrived x ?x y) v0 = Some (True, v, advance (length (enc v)) (arrived x ?x y))"
    using assms inv by (intro decode_ok) (auto intro: xdr_inv_arrived)
  then show ?thesis
    using encode_ok [OF assms(1-4)] inv by (auto simp: advance_def)
qed

end

text \<open>
  Safety against any message: whatever bytes have arrived, decoding returns, touches no
  memory outside the buffers and leaves a handle that satisfies the invariant.
\<close>

locale xdr_safe =
  fixes proc :: "'v xdrproc" and storage :: "'v \<Rightarrow> bool"
  assumes decode_safe: "xdr_inv x \<Longrightarrow> x_op x = XDR_DECODE \<Longrightarrow> storage v0
    \<Longrightarrow> \<exists>ok v x'. proc x v0 = Some (ok, v, x') \<and> xdr_inv x' \<and> x_op x' = XDR_DECODE"
begin

text \<open>Decoding any number of elements into an array that has room for them is safe.\<close>

lemma elems_safe:
  assumes "xdr_inv x" and "x_op x = XDR_DECODE" and "\<forall>k. i \<le> k \<and> k < i + n \<longrightarrow> storage (vs ! k)"
    and "i + n \<le> length vs"
  shows "\<exists>ok vs' x'. xdr_elems proc n i x vs = Some (ok, vs', x') \<and> length vs' = length vs \<and>
           xdr_inv x' \<and> x_op x' = XDR_DECODE"
  using assms
proof (induction n arbitrary: i x vs)
  case 0
  then show ?case by auto
next
  case (Suc n)
  then obtain ok v x1 where p: "proc x (vs ! i) = Some (ok, v, x1)" "xdr_inv x1" "x_op x1 = XDR_DECODE"
    using decode_safe [of x "vs ! i"] by auto
  show ?case
  proof (cases ok)
    case True
    then show ?thesis
      using Suc.prems p Suc.IH [of x1 "i + 1" "vs[i := v]"] by simp
  next
    case False
    then show ?thesis using Suc.prems p by auto
  qed
qed

lemma vector_safe:
  "xdr_safe (xdr_vector nelem proc) (\<lambda>vs. unat nelem \<le> length vs \<and> (\<forall>v \<in> set vs. storage v))"
proof
  fix x vs
  assume "xdr_inv x" "x_op x = XDR_DECODE" "unat nelem \<le> length vs \<and> (\<forall>v \<in> set vs. storage v)"
  then show "\<exists>ok v x'. xdr_vector nelem proc x vs = Some (ok, v, x') \<and> xdr_inv x' \<and> x_op x' = XDR_DECODE"
    using elems_safe [of x 0 "unat nelem" vs] by (auto simp: xdr_vector_def)
qed

end

subsection \<open>Integers\<close>

lemma int_filter:
  assumes p: "\<And>x v. proc x v = (case x_op x of
        XDR_ENCODE \<Rightarrow> do_send (xdr_std_send_uint32 (f v)) x v
      | XDR_DECODE \<Rightarrow> do_recv xdr_std_recv_uint32 g x v
      | XDR_FREE \<Rightarrow> Some (True, v, x))"
    and inv: "\<And>v. good v \<Longrightarrow> g (f v) = v"
  shows "xdr_filter proc (\<lambda>v. be32 (f v)) good (\<lambda>_ _. True)"
proof
  show "proc x v = Some (True, v, append_out (be32 (f v)) x)"
    if "good v" "xdr_inv x" "x_op x = XDR_ENCODE" "fits (length (be32 (f v))) x" for x v
    using that xdr_std_send_uint32_ok [of x "f v"] by (simp add: p do_send_def xdr_inv_def)
  show "proc x v0 = Some (True, v, advance (length (be32 (f v))) x)"
    if "good v" "xdr_inv x" "x_op x = XDR_DECODE" "in_at (be32 (f v)) x" for x v v0
    using that xdr_std_recv_uint32_ok [of x "f v"] by (simp add: p do_recv_def inv)
qed (simp_all add: p)

lemma int_safe:
  assumes p: "\<And>x v. proc x v = (case x_op x of
        XDR_ENCODE \<Rightarrow> do_send (xdr_std_send_uint32 (f v)) x v
      | XDR_DECODE \<Rightarrow> do_recv xdr_std_recv_uint32 g x v
      | XDR_FREE \<Rightarrow> Some (True, v, x))"
  shows "xdr_safe proc (\<lambda>_. True)"
proof
  show "\<exists>ok v x'. proc x v0 = Some (ok, v, x') \<and> xdr_inv x' \<and> x_op x' = XDR_DECODE"
    if "xdr_inv x" "x_op x = XDR_DECODE" for x v0
    using that(1) by (cases rule: xdr_std_recv_uint32_safe) (auto simp: p that do_recv_def)
qed

lemmas int_procs = xdr_enum_def xdr_u_int_def xdr_int_def xdr_long_def xdr_u_long_def
  xdr_std_send_int32_def xdr_std_recv_int32_def

interpretation xu_int: xdr_filter xdr_u_int be32 "\<lambda>_. True" "\<lambda>_ _. True"
  by (rule int_filter [where f = "\<lambda>v. v" and g = id]) (auto simp: int_procs split: xdr_op.split)

interpretation xint: xdr_filter xdr_int be32 "\<lambda>_. True" "\<lambda>_ _. True"
  by (rule int_filter [where f = "\<lambda>v. v" and g = id]) (auto simp: int_procs split: xdr_op.split)

interpretation xenum: xdr_filter xdr_enum be32 "\<lambda>_. True" "\<lambda>_ _. True"
  by (rule int_filter [where f = "\<lambda>v. v" and g = id]) (auto simp: int_procs split: xdr_op.split)

interpretation xlong: xdr_filter xdr_long be32 "\<lambda>_. True" "\<lambda>_ _. True"
  by (rule int_filter [where f = "\<lambda>v. v" and g = id]) (auto simp: int_procs split: xdr_op.split)

interpretation xu_long: xdr_filter xdr_u_long be32 "\<lambda>_. True" "\<lambda>_ _. True"
  by (rule int_filter [where f = "\<lambda>v. v" and g = id]) (auto simp: int_procs split: xdr_op.split)

interpretation xu_int_safe: xdr_safe xdr_u_int "\<lambda>_. True"
  by (rule int_safe [where f = "\<lambda>v. v" and g = id]) (auto simp: int_procs split: xdr_op.split)

interpretation xint_safe: xdr_safe xdr_int "\<lambda>_. True"
  by (rule int_safe [where f = "\<lambda>v. v" and g = id]) (auto simp: int_procs split: xdr_op.split)

lemma ucast_ucast_u16: "ucast (ucast (v :: u16) :: u32) = v"
  by (rule bit_word_eqI) (auto simp: bit_simps)

lemma ucast_scast_u16: "ucast (scast (v :: u16) :: u32) = v"
  by (rule bit_word_eqI) (auto simp: bit_simps)

lemma ucast_ucast_u8: "ucast (ucast (v :: u8) :: u32) = v"
  by (rule bit_word_eqI) (auto simp: bit_simps)

interpretation xu_short: xdr_filter xdr_u_short "\<lambda>v. be32 (ucast v)" "\<lambda>_. True" "\<lambda>_ _. True"
  by (rule int_filter [where g = ucast])
    (auto simp: xdr_u_short_def ucast_ucast_u16 split: xdr_op.split)

interpretation xshort: xdr_filter xdr_short "\<lambda>v. be32 (scast v)" "\<lambda>_. True" "\<lambda>_ _. True"
  by (rule int_filter [where g = ucast])
    (auto simp: xdr_short_def ucast_scast_u16 int_procs split: xdr_op.split)

interpretation xbool: xdr_filter xdr_bool be32 "\<lambda>v. v = 0 \<or> v = 1" "\<lambda>_ _. True"
proof -
  have "xdr_filter xdr_bool (\<lambda>v. be32 (if v \<noteq> 0 then 1 else 0)) (\<lambda>v. v = 0 \<or> v = 1) (\<lambda>_ _. True)"
    by (rule int_filter [where g = "\<lambda>lb. if lb = 0 then 0 else 1"])
      (auto simp: xdr_bool_def split: xdr_op.split)
  then show "xdr_filter xdr_bool be32 (\<lambda>v. v = 0 \<or> v = 1) (\<lambda>_ _. True)"
    by (auto simp: xdr_filter_def)
qed

lemma u_char_as_int:
  "xdr_u_char x v = (case x_op x of
      XDR_ENCODE \<Rightarrow> do_send (xdr_std_send_uint32 (ucast v)) x v
    | XDR_DECODE \<Rightarrow> do_recv xdr_std_recv_uint32 ucast x v
    | XDR_FREE \<Rightarrow> Some (True, v, x))"
  by (auto simp: xdr_u_char_def xdr_u_int_def do_send_def do_recv_def ucast_ucast_u8
      split: xdr_op.split bind_splits option.split)

lemma char_as_int: "xdr_char x v = xdr_u_char x v"
  by (cases "x_op x") (simp_all add: xdr_char_def xdr_u_char_def int_procs)

interpretation xu_char: xdr_filter xdr_u_char "\<lambda>v. be32 (ucast v)" "\<lambda>_. True" "\<lambda>_ _. True"
  by (rule int_filter [where g = ucast]) (simp_all add: u_char_as_int ucast_ucast_u8)

interpretation xchar: xdr_filter xdr_char "\<lambda>v. be32 (ucast v)" "\<lambda>_. True" "\<lambda>_ _. True"
  by (rule int_filter [where g = ucast]) (simp_all add: char_as_int u_char_as_int ucast_ucast_u8)

subsection \<open>Pairs of routines\<close>

lemma send_send_ok:
  assumes "xdr_inv x" and "fits 8 x"
  shows "seqM (xdr_std_send_uint32 a) (xdr_std_send_uint32 b) x = Some (True, append_out (be32 a @ be32 b) x)"
proof -
  have "fits 4 x" "fits 4 (append_out (be32 a) x)" using assms(2) by (simp_all add: fits_def)
  moreover have "0 \<le> out_next (append_out (be32 a) x)" using assms(1) by (simp add: xdr_inv_def)
  ultimately show ?thesis
    using assms(1) by (simp add: seqM_def xdr_std_send_uint32_ok xdr_inv_next append_out_append)
qed

lemma hyper_join: "push_bit 32 (ucast (ucast (drop_bit 32 u) :: u32)) OR ucast (ucast u :: u32) = (u :: u64)"
proof (rule bit_word_eqI)
  fix n
  assume "n < LENGTH(64)"
  then consider "n < 32" | "32 \<le> n" "n < 64" by fastforce
  then show "bit (push_bit 32 (ucast (ucast (drop_bit 32 u) :: u32)) OR ucast (ucast u :: u32) :: u64) n = bit u n"
    by cases (auto simp: bit_simps)
qed

interpretation xu_hyper: xdr_filter xdr_u_hyper
  "\<lambda>u. be32 (ucast (drop_bit 32 u)) @ be32 (ucast u)" "\<lambda>_. True" "\<lambda>_ _. True"
proof
  show "xdr_u_hyper x v = Some (True, v, append_out (be32 (ucast (drop_bit 32 v)) @ be32 (ucast v)) x)"
    if "xdr_inv x" "x_op x = XDR_ENCODE"
      "fits (length (be32 (ucast (drop_bit 32 v)) @ be32 (ucast v))) x" for x v
    using that by (simp add: xdr_u_hyper_def do_send_def xdr_std_send_int32_def send_send_ok)
  show "xdr_u_hyper x v0
      = Some (True, v, advance (length (be32 (ucast (drop_bit 32 v)) @ be32 (ucast v))) x)"
    if "xdr_inv x" "x_op x = XDR_DECODE" "in_at (be32 (ucast (drop_bit 32 v)) @ be32 (ucast v)) x" for x v v0
  proof -
    have at: "in_at (be32 (ucast (drop_bit 32 v))) x" "in_at (be32 (ucast v)) (advance 4 x)"
      using that by (auto simp: in_at_append xdr_inv_next)
    then have "xdr_inv (advance 4 x)"
      using that(1) by (intro xdr_inv_advance) (auto simp: in_at_def)
    then show ?thesis
      using that(1,2) at
      by (simp add: xdr_u_hyper_def do_recv_def bindM_def xdr_std_recv_int32_def xdr_std_recv_uint32_ok
          advance_advance hyper_join)
  qed
qed (auto simp: xdr_u_hyper_def)

subsection \<open>Byte strings\<close>

lemma send_padded_ok:
  assumes "xdr_inv x" and "length d = unat len" and "fits (length d + length (xdr_pad (length d))) x"
  shows "xdr_std_send_bytes (Buf d) len x = Some (True, append_out (d @ xdr_pad (length d)) x)"
proof -
  have "fits (unat len) x" using assms(2,3) by (simp add: fits_def)
  then show ?thesis
    using assms fits_small [OF assms(1), of "unat len"] by (subst xdr_std_send_bytes_ok) auto
qed

interpretation xopaque: xdr_filter "xdr_opaque cnt" "\<lambda>v. bbytes v @ xdr_pad (blen v)"
  "\<lambda>v. v \<noteq> NULL \<and> blen v = unat cnt" "\<lambda>v0 v. v0 \<noteq> NULL \<and> blen v0 = blen v" for cnt
proof
  fix v :: cbuf
  assume v: "v \<noteq> NULL \<and> blen v = unat cnt"
  then obtain d where d: "v = Buf d" "length d = unat cnt" by (cases v) auto
  show "length (bbytes v @ xdr_pad (blen v)) mod 4 = 0"
    using d by (simp add: length_xdr_pad)
  show "xdr_opaque cnt x v = Some (True, v, append_out (bbytes v @ xdr_pad (blen v)) x)"
    if "xdr_inv x" "x_op x = XDR_ENCODE" "fits (length (bbytes v @ xdr_pad (blen v))) x" for x
    using that d send_padded_ok [of x d cnt]
    by (auto simp: xdr_opaque_def do_send_def xdr_pad_def unat_eq_0)
  show "xdr_opaque cnt x v0 = Some (True, v, advance (length (bbytes v @ xdr_pad (blen v))) x)"
    if "xdr_inv x" "x_op x = XDR_DECODE" "in_at (bbytes v @ xdr_pad (blen v)) x"
      "v0 \<noteq> NULL \<and> blen v0 = blen v" for x v0
  proof -
    from that(4) d obtain d0 where d0: "v0 = Buf d0" "length d0 = unat cnt" by (cases v0) auto
    show ?thesis
      using that d d0 xdr_std_recv_bytes_ok [of x d cnt d0]
      by (auto simp: xdr_opaque_def xdr_pad_def advance_def)
  qed
qed (simp add: xdr_opaque_def)


text \<open>Counted bytes: the count, then the bytes with their padding.\<close>

definition bytes_storage :: "(nat \<Rightarrow> bool) \<Rightarrow> nat \<Rightarrow> cbuf \<Rightarrow> bool" where
  "bytes_storage al n cp \<longleftrightarrow> (cp = NULL \<and> al n) \<or> (cp \<noteq> NULL \<and> blen cp = n)"

interpretation xbytes: xdr_filter "xdr_bytes al maxsize"
  "\<lambda>(cp, sz). be32 sz @ bbytes cp @ xdr_pad (unat sz)"
  "\<lambda>(cp, sz). cp \<noteq> NULL \<and> blen cp = unat sz \<and> sz \<noteq> 0 \<and> sz \<le> maxsize"
  "\<lambda>(cp0, _) (cp, sz). bytes_storage al (unat sz) cp0" for al maxsize
proof (unfold_locales, goal_cases)
  case (1 v)
  then show ?case by (auto simp: length_xdr_pad)
next
  case (2 v x)
  then obtain d sz where v: "v = (Buf d, sz)" "length d = unat sz" "sz \<le> maxsize"
    by (cases v; cases "fst v") auto
  let ?y = "append_out (be32 sz) x"
  have "fits (4 + (length d + length (xdr_pad (length d)))) x" using 2 v by simp
  note f = this fits_append [OF this]
  then have y: "fits 4 x" "xdr_inv ?y" "fits (length d + length (xdr_pad (length d))) ?y"
    using 2 by (auto intro!: xdr_inv_append_out fits_append_out)
  show ?case
    using 2 v y send_padded_ok [OF y(2) v(2) y(3)]
    by (simp add: xdr_bytes_def do_send_def seqM_def xdr_std_send_uint32_ok xdr_inv_next append_out_append)
next
  case (3 v x v0)
  then obtain d sz where v: "v = (Buf d, sz)" "length d = unat sz" "sz \<le> maxsize" "sz \<noteq> 0"
    by (cases v; cases "fst v") auto
  have at: "in_at (be32 sz) x" "in_at (d @ xdr_pad (length d)) (advance 4 x)"
    using 3 v by (auto simp: in_at_append xdr_inv_next)
  have inv: "xdr_inv (advance 4 x)"
    using 3 at(1) by (intro xdr_inv_advance) (auto simp: in_at_def)
  obtain cp0 s0 where v0: "v0 = (cp0, s0)" by (cases v0)
  let ?cp = "if cp0 = NULL then mem_alloc al (unat sz) else cp0"
  obtain d0 where d0: "?cp = Buf d0" "length d0 = unat sz"
    using 3 v v0 by (cases cp0) (auto simp: bytes_storage_def mem_alloc_def)
  have "xdr_std_recv_bytes (Buf d0) sz (advance 4 x)
      = Some (True, Buf d, advance (length d + length (xdr_pad (length d))) (advance 4 x))"
    using xdr_std_recv_bytes_ok [OF inv at(2) v(2), of d0] v d0 by simp
  then show ?case
    using 3 v v0 at d0 by (simp add: xdr_bytes_def xdr_std_recv_uint32_ok Let_def advance_advance)
qed (simp add: xdr_bytes_def split: prod.splits)

text \<open>A C string: its length, then its characters without the terminating zero.\<close>

definition c_string :: "bytes \<Rightarrow> cbuf" where
  "c_string s = Buf (s @ [0])"

lemma c_strlen_c_string: "0 \<notin> set s \<Longrightarrow> c_strlen (c_string s) = Some (length s)"
proof -
  assume "0 \<notin> set s"
  then have "takeWhile (\<lambda>c. c \<noteq> 0) (s @ [0]) = s" by (induction s) auto
  then show ?thesis by (simp add: c_strlen_def c_string_def)
qed

interpretation xstring: xdr_filter "xdr_string al maxsize"
  "\<lambda>cp. be32 (word_of_nat (blen cp - 1)) @ butlast (bbytes cp) @ xdr_pad (blen cp - 1)"
  "\<lambda>cp. \<exists>s. cp = c_string s \<and> 0 \<notin> set s \<and> length s \<le> unat maxsize \<and> length s + 1 < 2 ^ 32"
  "\<lambda>cp0 cp. bytes_storage al (blen cp) cp0" for al maxsize
proof (unfold_locales, goal_cases)
  case (1 v)
  then show ?case by (auto simp: c_string_def length_xdr_pad)
next
  case (2 v x)
  then obtain s where v: "v = c_string s" "0 \<notin> set s" "length s \<le> unat maxsize" "length s + 1 < 2 ^ 32"
    by auto
  let ?n = "word_of_nat (length s) :: u32" and ?y = "append_out (be32 (word_of_nat (length s))) x"
  have n: "unat ?n = length s" using v(4) by (intro unat_word_of_nat_32) simp
  have nm: "\<not> maxsize < ?n" using n v(3) by (simp add: word_less_nat_alt)
  have y: "fits 4 x" "xdr_inv ?y" "fits (length s + length (xdr_pad (length s))) ?y"
    using 2 v by (auto simp: fits_def c_string_def intro!: xdr_inv_append_out)
  have u: "xdr_u_int x ?n = Some (True, ?n, ?y)"
    using 2 y by (intro xu_int.encode_ok) auto
  have "xdr_std_send_bytes (c_string s) ?n ?y = Some (True, append_out (s @ xdr_pad (length s)) ?y)"
    using xdr_std_send_bytes_ok [OF y(2), of ?n "s @ [0]"] y(3) n fits_small [OF y(2), of "length s"]
    by (simp add: c_string_def fits_def)
  then have "xdr_opaque ?n ?y v = Some (True, v, append_out (s @ xdr_pad (length s)) ?y)"
    using 2 v(1) n by (cases "s = []") (auto simp: xdr_opaque_def do_send_def xdr_pad_def)
  then show ?case
    using 2 v nm u xdr_inv_next(1)
    by (simp add: xdr_string_def c_strlen_c_string Let_def append_out_append) (simp add: c_string_def)
next
  case (3 v x v0)
  then obtain s where v: "v = c_string s" "0 \<notin> set s" "length s \<le> unat maxsize" "length s + 1 < 2 ^ 32"
    by auto
  let ?n = "word_of_nat (length s) :: u32"
  have n: "unat ?n = length s" using v(4) by (intro unat_word_of_nat_32) simp
  have nm: "\<not> maxsize < ?n" using n v(3) by (simp add: word_less_nat_alt)
  have n1: "unat (?n + 1) = length s + 1"
    using v(4) by (simp add: unat_word_ariths n)
  have at: "in_at (be32 ?n) x" "in_at (s @ xdr_pad (length s)) (advance 4 x)"
    using 3 v by (auto simp: in_at_append xdr_inv_next c_string_def)
  have inv: "xdr_inv (advance 4 x)"
    using 3 at(1) by (intro xdr_inv_advance) (auto simp: in_at_def)
  have u: "xdr_u_int x 0 = Some (True, ?n, advance 4 x)"
    using 3 at xu_int.decode_ok [of x ?n 0] by simp
  let ?cp = "if v0 = NULL then mem_alloc al (length s + 1) else v0"
  obtain d0 where d0: "?cp = Buf d0" "length d0 = length s + 1"
    using 3 v by (cases v0) (auto simp: bytes_storage_def mem_alloc_def c_string_def)
  have "?n + 1 \<noteq> 0" using n1 by auto
  moreover have "wr ?cp (length s) 0 = Some (Buf (d0[length s := 0]))" using d0 by simp
  moreover have "xdr_opaque ?n (advance 4 x) (Buf (d0[length s := 0]))
      = Some (True, v, advance (length s + length (xdr_pad (length s))) (advance 4 x))"
  proof (cases "s = []")
    case True
    then show ?thesis using d0 v by (cases d0) (auto simp: xdr_opaque_def c_string_def xdr_pad_def advance_def)
  next
    case False
    have "drop (length s) (d0[length s := 0]) = [0]"
      using d0 by (simp add: drop_update_swap [symmetric] list_eq_iff_nth_eq)
    then show ?thesis
      using False 3 v n d0 xdr_std_recv_bytes_ok [OF inv at(2), of ?n "d0[length s := 0]"]
      by (auto simp: xdr_opaque_def c_string_def unat_eq_0)
  qed
  ultimately show ?case
    using 3 v nm u n n1 d0(1) by (auto simp: xdr_string_def Let_def advance_advance c_string_def)
next
  case (4 v x)
  then obtain s where v: "v = c_string s" "0 \<notin> set s" "length s \<le> unat maxsize" "length s + 1 < 2 ^ 32"
    by auto
  then have "\<not> maxsize < (word_of_nat (length s) :: u32)"
    using unat_word_of_nat_32 [of "length s"] by (simp add: word_less_nat_alt)
  with 4 v show ?case
    by (simp add: xdr_string_def c_strlen_c_string xdr_u_int_def Let_def)
qed

subsection \<open>Compound values\<close>

text \<open>A filter for the elements gives a filter for vectors, counted arrays and pointers.\<close>

definition enc_list :: "('v \<Rightarrow> bytes) \<Rightarrow> 'v list \<Rightarrow> bytes" where
  "enc_list enc vs = concat (map enc vs)"

context xdr_filter
begin

lemma enc_list_aligned: "\<forall>v \<in> set vs. good v \<Longrightarrow> length (enc_list enc vs) mod 4 = 0"
  by (induction vs) (simp_all add: enc_list_def enc_aligned mod_add_eq [symmetric])

lemma elems_encode:
  assumes "\<forall>v \<in> set vs. good v" and "xdr_inv x" and "x_op x = XDR_ENCODE"
    and "fits (length (enc_list enc (drop i vs))) x" and "i + n = length vs"
  shows "xdr_elems proc n i x vs = Some (True, vs, append_out (enc_list enc (drop i vs)) x)"
  using assms
proof (induction n arbitrary: i x)
  case 0
  then show ?case by (simp add: enc_list_def)
next
  case (Suc n)
  let ?v = "vs ! i" and ?r = "enc_list enc (drop (Suc i) vs)"
  have g: "good ?v" using Suc.prems by simp
  have split: "enc_list enc (drop i vs) = enc ?v @ ?r"
    using Suc.prems by (simp add: enc_list_def Cons_nth_drop_Suc [symmetric])
  have f: "fits (length (enc ?v)) x" "fits (length ?r) (append_out (enc ?v) x)"
    using Suc.prems by (auto simp: split fits_def)
  have "xdr_elems proc n (Suc i) (append_out (enc ?v) x) vs
      = Some (True, vs, append_out ?r (append_out (enc ?v) x))"
    using Suc.prems g f by (intro Suc.IH) (auto intro: encode_inv)
  then show ?case
    using Suc.prems g f(1) by (simp add: encode_ok split append_out_append xdr_inv_next)
qed

lemma elems_decode:
  assumes "\<forall>v \<in> set vs. good v" and "xdr_inv x" and "x_op x = XDR_DECODE"
    and "in_at (enc_list enc vs) x" and "length ws = i + length vs"
    and "\<forall>k < length vs. ready (ws ! (i + k)) (vs ! k)"
  shows "xdr_elems proc (length vs) i x ws
     = Some (True, take i ws @ vs, advance (length (enc_list enc vs)) x)"
  using assms
proof (induction vs arbitrary: i x ws)
  case Nil
  then show ?case by (simp add: enc_list_def advance_def)
next
  case (Cons v vs)
  let ?x = "advance (length (enc v)) x"
  have e: "enc_list enc (v # vs) = enc v @ enc_list enc vs" by (simp add: enc_list_def)
  have at: "in_at (enc v) x" "in_at (enc_list enc vs) ?x"
    using Cons.prems by (auto simp: e in_at_append xdr_inv_next)
  have p: "proc x (ws ! i) = Some (True, v, ?x)"
    using Cons.prems at by (intro decode_ok) (auto dest: spec [of _ 0])
  have rdy: "ready (ws[i := v] ! (Suc i + k)) (vs ! k)" if "k < length vs" for k
    using Cons.prems(6)[rule_format, of "Suc k"] that by simp
  have "xdr_elems proc (length vs) (Suc i) ?x (ws[i := v])
      = Some (True, take (Suc i) (ws[i := v]) @ vs, advance (length (enc_list enc vs)) ?x)"
    using Cons.prems at rdy by (intro Cons.IH) (auto intro: decode_inv)
  moreover have "take (Suc i) (ws[i := v]) = take i ws @ [v]"
    using Cons.prems(5) by (simp add: take_Suc_conv_app_nth)
  ultimately show ?case
    using Cons.prems(5) p by (simp add: e advance_advance)
qed

lemma elems_free:
  assumes "x_op x = XDR_FREE" and "\<forall>k. i \<le> k \<and> k < i + n \<longrightarrow> good (vs ! k)" and "i + n \<le> length vs"
  shows "\<exists>vs'. xdr_elems proc n i x vs = Some (True, vs', x)"
  using assms
proof (induction n arbitrary: i vs)
  case (Suc n)
  obtain v where "proc x (vs ! i) = Some (True, v, x)"
    using Suc.prems free_ok [of "vs ! i" x] by auto
  then show ?case using Suc.prems Suc.IH [of "Suc i" "vs[i := v]"] by simp
qed simp

lemma vector_filter:
  "xdr_filter (xdr_vector nelem proc) (enc_list enc)
     (\<lambda>vs. length vs = unat nelem \<and> (\<forall>v \<in> set vs. good v)) (list_all2 ready)"
proof (unfold_locales, goal_cases)
  case (1 vs)
  then show ?case by (simp add: enc_list_aligned)
next
  case (2 vs x)
  then show ?case using elems_encode [of vs x 0 "unat nelem"] by (simp add: xdr_vector_def)
next
  case (3 vs x ws)
  then show ?case
    using elems_decode [of vs x ws 0] by (auto simp: xdr_vector_def list_all2_conv_all_nth)
next
  case (4 vs x)
  then show ?case using elems_free [of x 0 "unat nelem" vs] by (simp add: xdr_vector_def)
qed

text \<open>An array: the number of elements, then the elements. Decoding allocates them.\<close>

lemma array_filter:
  assumes z: "\<And>v. good v \<Longrightarrow> ready z v" and el: "0 < unat elsize"
  shows "xdr_filter (xdr_array al maxsize elsize z proc)
     (\<lambda>(vs, sz). be32 sz @ enc_list enc (the vs))
     (\<lambda>(vs, sz). vs \<noteq> None \<and> length (the vs) = unat sz \<and> sz \<noteq> 0 \<and> sz \<le> maxsize
        \<and> unat sz * unat elsize < 2 ^ 32 \<and> (\<forall>v \<in> set (the vs). good v))
     (\<lambda>(vs0, _) (vs, sz). vs0 = None \<and> al (unat sz * unat elsize))"
proof (unfold_locales, goal_cases)
  case (1 v)
  then show ?case by (auto simp: enc_list_aligned mod_add_eq [symmetric])
next
  case (2 v x)
  then obtain vs sz where v: "v = (Some vs, sz)" "length vs = unat sz" "sz \<noteq> 0" "sz \<le> maxsize"
    "\<forall>v \<in> set vs. good v"
    by auto
  let ?y = "append_out (be32 sz) x"
  have "fits (4 + length (enc_list enc vs)) x" using 2 v by simp
  note f = this fits_append [OF this]
  then have y: "xdr_inv ?y" "fits (length (enc_list enc vs)) ?y"
    using 2 by (auto intro!: xdr_inv_append_out fits_append_out)
  have u: "xdr_u_int x sz = Some (True, sz, ?y)" using 2 f by (intro xu_int.encode_ok) auto
  show ?case
    using 2 v u y elems_encode [of vs ?y 0 "unat sz"]
    by (simp add: xdr_array_def Let_def append_out_append xdr_inv_next)
next
  case (3 v x v0)
  then obtain vs sz s0 where v: "v = (Some vs, sz)" "length vs = unat sz" "sz \<noteq> 0" "sz \<le> maxsize"
    "\<forall>v \<in> set vs. good v" "unat sz * unat elsize < 2 ^ 32" "v0 = (None, s0)" "al (unat sz * unat elsize)"
    by auto
  have at: "in_at (be32 sz) x" "in_at (enc_list enc vs) (advance 4 x)"
    using 3 v by (auto simp: in_at_append xdr_inv_next)
  have inv: "xdr_inv (advance 4 x)"
    using 3 at(1) by (intro xdr_inv_advance) (auto simp: in_at_def)
  have u: "xdr_u_int x s0 = Some (True, sz, advance 4 x)"
    using 3 at xu_int.decode_ok [of x sz s0] by simp
  have m: "unat (sz * elsize) = unat sz * unat elsize"
    using v(6) by (simp add: unat_word_ariths)
  have "xdr_elems proc (unat sz) 0 (advance 4 x) (replicate (unat sz) z)
      = Some (True, vs, advance (length (enc_list enc vs)) (advance 4 x))"
    using 3 v at inv z elems_decode [of vs "advance 4 x" "replicate (unat sz) z" 0] by simp
  then show ?case
    using 3 v u m el by (simp add: xdr_array_def Let_def advance_advance)
next
  case (4 v x)
  then obtain vs sz where v: "v = (Some vs, sz)" "length vs = unat sz" "\<forall>v \<in> set vs. good v" by auto
  then obtain vs' where "xdr_elems proc (unat sz) 0 x vs = Some (True, vs', x)"
    using elems_free [of x 0 "unat sz" vs] 4(2) by auto
  then show ?case using 4(2) v by (simp add: xdr_array_def xdr_u_int_def Let_def)
qed

text \<open>A pointer: a flag, then the object if there is one.\<close>

lemma pointer_filter:
  assumes z: "\<And>v. good v \<Longrightarrow> ready z v"
  shows "xdr_filter (xdr_pointer al sz z proc)
     (\<lambda>p. case p of None \<Rightarrow> be32 0 | Some v \<Rightarrow> be32 1 @ enc v)
     (\<lambda>p. case p of None \<Rightarrow> True | Some v \<Rightarrow> good v)
     (\<lambda>p0 _. p0 = None \<and> al (unat sz))"
proof (unfold_locales, goal_cases)
  case (1 p)
  then show ?case by (auto simp: enc_aligned mod_add_eq [symmetric] split: option.splits)
next
  case (2 p x)
  let ?m = "if p \<noteq> None then 1 else (0 :: u32)" and ?y = "append_out (be32 (if p \<noteq> None then 1 else 0)) x"
  have "fits (4 + (case p of None \<Rightarrow> 0 | Some v \<Rightarrow> length (enc v))) x"
    using 2 by (simp split: option.splits)
  note f = this fits_append [OF this]
  then have y: "xdr_inv ?y" "p = Some v \<Longrightarrow> fits (length (enc v)) ?y" for v
    using 2 by (auto intro!: xdr_inv_append_out fits_append_out)
  have b: "xdr_bool x ?m = Some (True, ?m, ?y)" using 2 f by (intro xbool.encode_ok) auto
  show ?case
    using 2 b y
    by (cases p) (auto simp: xdr_pointer_def xdr_reference_def encode_ok append_out_append xdr_inv_next)
next
  case (3 p x p0)
  let ?m = "if p \<noteq> None then 1 else (0 :: u32)"
  have at: "in_at (be32 ?m) x" "p = Some v \<Longrightarrow> in_at (enc v) (advance 4 x)" for v
    using 3 by (auto simp: in_at_append xdr_inv_next split: option.splits)
  have inv: "xdr_inv (advance 4 x)"
    using 3 at(1) by (intro xdr_inv_advance) (auto simp: in_at_def)
  have b: "xdr_bool x 0 = Some (True, ?m, advance 4 x)"
    using 3 at xbool.decode_ok [of ?m x 0] by simp
  show ?case
  proof (cases p)
    case None
    then show ?thesis using 3 b by (simp add: xdr_pointer_def)
  next
    case (Some v)
    have "proc (advance 4 x) z = Some (True, v, advance (length (enc v)) (advance 4 x))"
      using 3 Some at inv z by (intro decode_ok) auto
    then show ?thesis
      using 3 b Some by (simp add: xdr_pointer_def xdr_reference_def advance_advance)
  qed
next
  case (4 p x)
  then show ?case
    using free_ok [of "the p" x]
    by (cases p) (auto simp: xdr_pointer_def xdr_reference_def xdr_bool_def)
qed

end

subsection \<open>Decoding an arbitrary message\<close>

lemma xdr_inv_advance_max:
  "xdr_inv x \<Longrightarrow> in_next x + int n \<le> RPCROUTER_MSGSIZE_MAX \<Longrightarrow> n mod 4 = 0 \<Longrightarrow> xdr_inv (advance n x)"
  by (simp add: xdr_inv_def mod4_add)

lemma sint_small: "uint (len :: u32) \<le> 2 ^ 31 - 18433 \<Longrightarrow> sint len = int (unat len)"
  by (subst sint_of_small) auto

lemma xdr_std_recv_bytes_safe:
  assumes inv: "xdr_inv x" and len: "uint len \<le> 2 ^ 31 - 18433" and buf: "buf = NULL \<or> unat len \<le> blen buf"
  obtains "xdr_std_recv_bytes buf len x = Some (False, buf, x)" and "in_len x < in_next x + int (unat len)"
  | buf' where "xdr_std_recv_bytes buf len x
        = Some (True, buf', advance (unat len + length (xdr_pad (unat len))) x)"
      and "blen buf' = blen buf" and "buf' = NULL \<longleftrightarrow> buf = NULL"
      and "xdr_inv (advance (unat len + length (xdr_pad (unat len))) x)"
proof -
  let ?n = "unat len"
  have sl: "sint len = int ?n" using len by (rule sint_small)
  have p: "0 \<le> in_next x" "in_next x \<le> RPCROUTER_MSGSIZE_MAX" "in_next x mod 4 = 0"
    "in_len x \<le> RPCROUTER_MSGSIZE_MAX"
    using inv by (auto simp: xdr_inv_def)
  have "int ?n \<le> 2 ^ 31 - 18433" using len by simp
  then have i32: "int32 (in_next x + int ?n)" using p unfolding int32_def by linarith
  show thesis
  proof (cases "in_next x + int ?n \<le> in_len x")
    case False
    then have "xdr_std_recv_bytes buf len x = Some (False, buf, x)"
      using i32 by (simp add: xdr_std_recv_bytes_def sl)
    with False that(1) show thesis by simp
  next
    case True
    have w: "(word_of_int (in_next x) + len :: u32) = word_of_int (in_next x + int ?n)"
      by (simp add: word_of_int_uint)
    have "sint (word_of_int (in_next x + int ?n) :: u32) = in_next x + int ?n"
      using True p uint_word_of_int_small [of "in_next x + int ?n"]
      by (subst sint_of_small) auto
    then have s: "sint (word_of_int (in_next x) + len :: u32) = in_next x + int ?n"
      by (simp only: w)
    have r: "sint ((word_of_int (in_next x + int ?n) + 3) AND NOT (3 :: u32))
        = in_next x + int (?n + length (xdr_pad ?n))"
      using True p by (intro round_up_4) auto
    obtain bs where bs: "in_range (in_next x) ?n x = Some bs" "length bs = ?n"
      using True p by (simp add: in_range_def)
    obtain buf' where buf': "(if buf = NULL then Some NULL else wr_range buf 0 bs) = Some buf'"
      "blen buf' = blen buf" "buf' = NULL \<longleftrightarrow> buf = NULL"
      using buf bs by (cases buf) auto
    have e: "xdr_std_recv_bytes buf len x = Some (True, buf', advance (?n + length (xdr_pad ?n)) x)"
      using True i32 sl s r bs buf' 
      by (auto simp: xdr_std_recv_bytes_def advance_def simp del: of_int_add split: if_splits)
    have "(?n + length (xdr_pad ?n)) mod 4 = 0" by (rule length_xdr_pad)
    moreover have "in_next x + int (?n + length (xdr_pad ?n)) \<le> RPCROUTER_MSGSIZE_MAX"
      using True p unfolding xdr_pad_def by simp presburger
    ultimately have "xdr_inv (advance (?n + length (xdr_pad ?n)) x)"
      by (intro xdr_inv_advance_max [OF inv])
    with e buf' that(2) show thesis by simp
  qed
qed

text \<open>
  The largest size limit for which a decoder of bytes is safe: the sum of the cursor and
  the length must not overflow an \<open>int\<close>.
\<close>

abbreviation (input) SAFE_LIMIT :: int where "SAFE_LIMIT \<equiv> 2 ^ 31 - 18433"

interpretation xbool_safe: xdr_safe xdr_bool "\<lambda>_. True"
  by (rule int_safe [where f = "\<lambda>b. if b \<noteq> 0 then 1 else 0" and g = "\<lambda>lb. if lb = 0 then 0 else 1"])
    (auto simp: xdr_bool_def split: xdr_op.split)

interpretation xu_short_safe: xdr_safe xdr_u_short "\<lambda>_. True"
  by (rule int_safe [where f = ucast and g = ucast]) (auto simp: xdr_u_short_def split: xdr_op.split)

interpretation xu_char_safe: xdr_safe xdr_u_char "\<lambda>_. True"
  by (rule int_safe [where f = ucast and g = ucast]) (simp add: u_char_as_int)

lemma opaque_safe:
  assumes "uint cnt \<le> SAFE_LIMIT"
  shows "xdr_safe (xdr_opaque cnt) (\<lambda>cp. cp = NULL \<or> unat cnt \<le> blen cp)"
proof
  fix x v0
  assume x: "xdr_inv x" "x_op x = XDR_DECODE" and v0: "v0 = NULL \<or> unat cnt \<le> blen v0"
  show "\<exists>ok v x'. xdr_opaque cnt x v0 = Some (ok, v, x') \<and> xdr_inv x' \<and> x_op x' = XDR_DECODE"
    using x(1) assms v0
    by (cases rule: xdr_std_recv_bytes_safe) (use x in \<open>auto simp: xdr_opaque_def\<close>)
qed

text \<open>Storage for a counted run: to be allocated, or already there and as large as the limit.\<close>

lemma le_limits:
  assumes "\<not> maxsize < (sz :: u32)" and "uint maxsize \<le> n"
  shows "uint sz \<le> n" and "unat sz \<le> unat maxsize"
proof -
  show "uint sz \<le> n" using assms by (simp add: not_less word_le_def)
  show "unat sz \<le> unat maxsize" using assms(1) by (simp add: not_less word_le_nat_alt)
qed

lemma bytes_safe:
  assumes lim: "uint maxsize \<le> SAFE_LIMIT"
  shows "xdr_safe (xdr_bytes al maxsize) (\<lambda>(cp, _). cp = NULL \<or> unat maxsize \<le> blen cp)"
proof
  fix x and v0 :: "cbuf \<times> u32"
  assume x: "xdr_inv x" "x_op x = XDR_DECODE"
    and v0: "case v0 of (cp, _) \<Rightarrow> cp = NULL \<or> unat maxsize \<le> blen cp"
  obtain cp sz0 where c: "v0 = (cp, sz0)" by (cases v0)
  show "\<exists>ok v x'. xdr_bytes al maxsize x v0 = Some (ok, v, x') \<and> xdr_inv x' \<and> x_op x' = XDR_DECODE"
    using x(1)
  proof (cases rule: xdr_std_recv_uint32_safe)
    case 1
    then show ?thesis using x c by (auto simp: xdr_bytes_def)
  next
    case (2 sz)
    let ?cp = "if cp = NULL then mem_alloc al (unat sz) else cp"
    show ?thesis
    proof (cases "sz > maxsize \<or> sz = 0 \<or> ?cp = NULL")
      case True
      then show ?thesis using x c 2 by (auto simp: xdr_bytes_def Let_def)
    next
      case False
      then have le: "uint sz \<le> SAFE_LIMIT" "unat sz \<le> unat maxsize"
        using le_limits [of maxsize sz] lim by auto
      then have "?cp = NULL \<or> unat sz \<le> blen ?cp"
        using v0 c False by (auto simp: mem_alloc_def split: if_splits)
      with 2(3) le(1) show ?thesis
        by (cases rule: xdr_std_recv_bytes_safe) (use x c 2 False in \<open>auto simp: xdr_bytes_def Let_def\<close>)
    qed
  qed
qed

text \<open>A string needs one more byte than its limit, for the terminating zero.\<close>

lemma string_safe:
  assumes lim: "uint maxsize \<le> SAFE_LIMIT"
  shows "xdr_safe (xdr_string al maxsize) (\<lambda>cp. cp = NULL \<or> unat maxsize < blen cp)"
proof
  fix x cp
  assume x: "xdr_inv x" "x_op x = XDR_DECODE" and cp: "cp = NULL \<or> unat maxsize < blen cp"
  show "\<exists>ok v x'. xdr_string al maxsize x cp = Some (ok, v, x') \<and> xdr_inv x' \<and> x_op x' = XDR_DECODE"
    using x(1)
  proof (cases rule: xdr_std_recv_uint32_safe)
    case 1
    then show ?thesis using x by (auto simp: xdr_string_def xdr_u_int_def do_recv_def)
  next
    case (2 sz)
    let ?cp = "if cp = NULL then mem_alloc al (unat (sz + 1)) else cp"
    have u: "xdr_u_int x 0 = Some (True, sz, advance 4 x)"
      using x 2 by (simp add: xdr_u_int_def do_recv_def)
    show ?thesis
    proof (cases "sz > maxsize \<or> sz + 1 = 0 \<or> ?cp = NULL")
      case True
      then show ?thesis using x u 2 by (auto simp: xdr_string_def Let_def)
    next
      case False
      then have le: "uint sz \<le> SAFE_LIMIT" "unat sz \<le> unat maxsize"
        using le_limits [of maxsize sz] lim by auto
      then have "int (unat sz + 1) < int (2 ^ 32)" by simp
      then have "unat sz + 1 < 2 ^ 32" using of_nat_less_iff by blast
      then have "unat (sz + 1) = unat sz + 1" by (simp add: unat_word_ariths)
      then have "unat sz < blen ?cp"
        using le cp False by (auto simp: mem_alloc_def split: if_splits)
      then obtain cp1 where w: "wr ?cp (unat sz) 0 = Some cp1" "blen cp1 = blen ?cp"
        using wr_Ex by blast
      obtain ok cp2 x2 where "xdr_opaque sz (advance 4 x) cp1 = Some (ok, cp2, x2)" "xdr_inv x2"
        "x_op x2 = XDR_DECODE"
        using xdr_safe.decode_safe [OF opaque_safe [OF le(1)], of "advance 4 x" cp1] 2 x w
          \<open>unat sz < blen ?cp\<close> by auto
      then show ?thesis using x u 2 False w(1) by (auto simp: xdr_string_def Let_def)
    qed
  qed
qed

text \<open>An array is safe when the largest block it may ask for is counted without wrapping.\<close>

context xdr_safe
begin

lemma array_safe:
  assumes z: "storage z" and el: "0 < unat elsize" and lim: "unat maxsize * unat elsize < 2 ^ 32"
  shows "xdr_safe (xdr_array al maxsize elsize z proc) (\<lambda>(vs, _). vs = None)"
proof
  fix x and v0 :: "'v list option \<times> u32"
  assume x: "xdr_inv x" "x_op x = XDR_DECODE" and v0: "case v0 of (vs, _) \<Rightarrow> vs = None"
  then obtain s0 where c: "v0 = (None, s0)" by (cases v0) auto
  obtain ok sz x1 where u: "xdr_u_int x s0 = Some (ok, sz, x1)" "xdr_inv x1" "x_op x1 = XDR_DECODE"
    using xu_int_safe.decode_safe [of x s0] x by auto
  show "\<exists>ok v x'. xdr_array al maxsize elsize z proc x v0 = Some (ok, v, x') \<and> xdr_inv x'
      \<and> x_op x' = XDR_DECODE"
  proof (cases "ok \<and> sz \<le> maxsize \<and> sz \<noteq> 0 \<and> al (unat (sz * elsize))")
    case False
    then show ?thesis using x u c by (auto simp: xdr_array_def Let_def)
  next
    case True
    then have "unat sz * unat elsize \<le> unat maxsize * unat elsize"
      by (simp add: word_le_nat_alt)
    then have "unat sz * unat elsize < 2 ^ 32" using lim by (rule le_less_trans)
    then have m: "unat (sz * elsize) = unat sz * unat elsize" by (simp add: unat_word_ariths)
    obtain ok vs' x2 where "xdr_elems proc (unat sz) 0 x1 (replicate (unat sz) z) = Some (ok, vs', x2)"
      "xdr_inv x2" "x_op x2 = XDR_DECODE"
      using elems_safe [of x1 0 "unat sz" "replicate (unat sz) z"] u z by auto
    then show ?thesis using x u c True m el by (auto simp: xdr_array_def Let_def)
  qed
qed

lemma pointer_safe:
  assumes z: "storage z"
  shows "xdr_safe (xdr_pointer al sz z proc) (\<lambda>p. p = None)"
proof
  fix x and p :: "'v option"
  assume x: "xdr_inv x" "x_op x = XDR_DECODE" and p: "p = None"
  obtain ok b x1 where u: "xdr_bool x 0 = Some (ok, b, x1)" "xdr_inv x1" "x_op x1 = XDR_DECODE"
    using xbool_safe.decode_safe [of x 0] x by auto
  obtain ok' v x2 where "proc x1 z = Some (ok', v, x2)" "xdr_inv x2" "x_op x2 = XDR_DECODE"
    using decode_safe [OF u(2,3) z] by auto
  then show "\<exists>ok v x'. xdr_pointer al sz z proc x p = Some (ok, v, x') \<and> xdr_inv x' \<and> x_op x' = XDR_DECODE"
    using u p by (auto simp: xdr_pointer_def xdr_reference_def)
qed

end

section \<open>Properties\<close>

text \<open>
  A C string sent on one handle is received on another: encoding succeeds, and the
  receiver, whose incoming message is the sender's outgoing one, decodes it into freshly
  allocated storage to the same string and ends where the sender stopped.
\<close>

theorem xdr_string_transfer:
  assumes "0 \<notin> set s" and "length s \<le> unat maxsize" and "length s + 1 < 2 ^ 32"
    and "xdr_inv x" and "x_op x = XDR_ENCODE" and "fits (4 + length s + length (xdr_pad (length s))) x"
    and "x_op y = XDR_DECODE" and "xdr_inv y" and "al (length s + 1)"
  shows "\<exists>x'. xdr_string al maxsize x (c_string s) = Some (True, c_string s, x') \<and> xdr_inv x' \<and>
     xdr_string al maxsize (arrived x x' y) NULL
       = Some (True, c_string s, (arrived x x' y)\<lparr>in_next := out_next x'\<rparr>)"
proof (rule xstring.transfer_arrived)
  show "\<exists>t. c_string s = c_string t \<and> 0 \<notin> set t \<and> length t \<le> unat maxsize \<and> length t + 1 < 2 ^ 32"
    using assms(1-3) by blast
qed (use assms in \<open>auto simp: c_string_def bytes_storage_def add.assoc\<close>)

theorem xdr_string_transfer_witness:
  "\<exists>x'. xdr_string (\<lambda>_. True) 16 zero_xdr (c_string [65, 66]) = Some (True, c_string [65, 66], x') \<and>
     xdr_inv x' \<and> xdr_string (\<lambda>_. True) 16 (arrived zero_xdr x' (zero_xdr\<lparr>x_op := XDR_DECODE\<rparr>)) NULL
       = Some (True, c_string [65, 66],
           (arrived zero_xdr x' (zero_xdr\<lparr>x_op := XDR_DECODE\<rparr>))\<lparr>in_next := out_next x'\<rparr>)"
  by (rule xdr_string_transfer) (simp_all add: xdr_inv_def zero_xdr_def fits_def xdr_pad_def)

text \<open>
  An array of unsigned integers sent on one handle is received on another, in
  storage that the decoder allocates, if its size in bytes is below \<open>2 ^ 32\<close>.
\<close>

theorem xdr_array_transfer:
  assumes "vs \<noteq> []" and "length vs = unat n" and "n \<le> maxsize" and "4 * length vs < 2 ^ 32"
    and "xdr_inv x" and "x_op x = XDR_ENCODE" and "fits (4 + 4 * length vs) x"
    and "xdr_inv y" and "x_op y = XDR_DECODE" and "al (4 * length vs)"
  shows "\<exists>x'. xdr_array al maxsize 4 0 xdr_u_int x (Some vs, n) = Some (True, (Some vs, n), x') \<and> xdr_inv x' \<and>
     xdr_array al maxsize 4 0 xdr_u_int (arrived x x' y) (None, n0)
       = Some (True, (Some vs, n), (arrived x x' y)\<lparr>in_next := out_next x'\<rparr>)"
proof -
  have len: "length (enc_list be32 vs) = 4 * length vs" by (induction vs) (auto simp: enc_list_def)
  have n: "n \<noteq> 0" "unat n * 4 < 2 ^ 32" using assms(1,2,4) by auto
  have f: "xdr_filter (xdr_array al maxsize 4 0 xdr_u_int) (\<lambda>(vs, sz). be32 sz @ enc_list be32 (the vs))
     (\<lambda>(vs, sz). vs \<noteq> None \<and> length (the vs) = unat sz \<and> sz \<noteq> 0 \<and> sz \<le> maxsize
        \<and> unat sz * 4 < 2 ^ 32)
     (\<lambda>(vs0, _) (vs, sz). vs0 = None \<and> al (unat sz * 4))"
    using xu_int.array_filter [of 4 al maxsize 0] by simp
  show ?thesis
    using xdr_filter.transfer_arrived [OF f, of "(Some vs, n)" x y "(None, n0)"] assms len n
    by (simp add: mult.commute)
qed

theorem xdr_array_transfer_witness:
  "\<exists>x'. xdr_array (\<lambda>_. True) 3 4 0 xdr_u_int zero_xdr (Some [7, 9], 2) = Some (True, (Some [7, 9], 2), x') \<and>
     xdr_inv x' \<and>
     xdr_array (\<lambda>_. True) 3 4 0 xdr_u_int (arrived zero_xdr x' (zero_xdr\<lparr>x_op := XDR_DECODE\<rparr>)) (None, 0)
       = Some (True, (Some [7, 9], 2),
           (arrived zero_xdr x' (zero_xdr\<lparr>x_op := XDR_DECODE\<rparr>))\<lparr>in_next := out_next x'\<rparr>)"
  by (rule xdr_array_transfer) (simp_all add: xdr_inv_def zero_xdr_def fits_def)

text \<open>
  C24. Whatever bytes have arrived, decoding opaque data, counted bytes or a string with a
  size limit of at most \<open>2 ^ 31 - 18433\<close> returns without an access outside a buffer and
  leaves both cursors inside the message buffers.
\<close>

theorem xdr_decode_bytes_safe:
  assumes "xdr_inv x" and "x_op x = XDR_DECODE" and "uint limit \<le> SAFE_LIMIT"
    and "cp = NULL \<or> unat limit < blen cp"
  shows "(\<exists>ok v x'. xdr_opaque limit x cp = Some (ok, v, x') \<and> xdr_inv x') \<and>
     (\<exists>ok v x'. xdr_bytes al limit x (cp, n) = Some (ok, v, x') \<and> xdr_inv x') \<and>
     (\<exists>ok v x'. xdr_string al limit x cp = Some (ok, v, x') \<and> xdr_inv x')"
proof (intro conjI)
  show "\<exists>ok v x'. xdr_opaque limit x cp = Some (ok, v, x') \<and> xdr_inv x'"
    using xdr_safe.decode_safe [OF opaque_safe [OF assms(3)] assms(1,2), of cp] assms(4) by auto
  show "\<exists>ok v x'. xdr_bytes al limit x (cp, n) = Some (ok, v, x') \<and> xdr_inv x'"
    using xdr_safe.decode_safe [OF bytes_safe [OF assms(3), of al] assms(1,2), of "(cp, n)"] assms(4) by auto
  show "\<exists>ok v x'. xdr_string al limit x cp = Some (ok, v, x') \<and> xdr_inv x'"
    using xdr_safe.decode_safe [OF string_safe [OF assms(3), of al] assms(1,2) assms(4)] by auto
qed

theorem xdr_decode_bytes_safe_witness:
  "(\<exists>ok v x'. xdr_opaque 256 (zero_xdr\<lparr>x_op := XDR_DECODE, in_len := 100\<rparr>) NULL = Some (ok, v, x') \<and> xdr_inv x') \<and>
   (\<exists>ok v x'. xdr_bytes (\<lambda>_. True) 256 (zero_xdr\<lparr>x_op := XDR_DECODE, in_len := 100\<rparr>) (NULL, 0)
        = Some (ok, v, x') \<and> xdr_inv x') \<and>
   (\<exists>ok v x'. xdr_string (\<lambda>_. True) 256 (zero_xdr\<lparr>x_op := XDR_DECODE, in_len := 100\<rparr>) NULL
        = Some (ok, v, x') \<and> xdr_inv x')"
  by (rule xdr_decode_bytes_safe) (simp_all add: xdr_inv_def zero_xdr_def)

text \<open>
  C28. The byte count of an array is computed in 32 bits, so the limit \<open>~0\<close> does not protect
  the decoder: a message that announces \<open>2 ^ 30 + 1\<close> integers makes it allocate four bytes
  and then store the second integer outside them.
\<close>

theorem xdr_array_count_wraps:
  assumes "xdr_inv x" and "x_op x = XDR_DECODE" and "in_at (be32 0x40000001 @ be32 a @ be32 b) x" and "al 4"
  shows "xdr_array al 0xFFFFFFFF 4 0 xdr_u_int x (None, n0) = None"
proof -
  have at: "in_at (be32 0x40000001) x" "in_at (be32 a) (advance 4 x)"
    using assms(1,3) by (auto simp: in_at_append xdr_inv_next)
  have inv: "xdr_inv (advance 4 x)"
    using assms(1) at(1) by (intro xdr_inv_advance) (auto simp: in_at_def)
  have u: "xdr_u_int x n0 = Some (True, 0x40000001, advance 4 x)"
    using assms(1,2) at(1) xu_int.decode_ok [of x "0x40000001" n0] by simp
  have p: "xdr_u_int (advance 4 x) 0 = Some (True, a, advance 4 (advance 4 x))"
    using xu_int.decode_ok [of "advance 4 x" a 0] inv at(2) assms(2) by simp
  show ?thesis
    using assms(2,4) u p xdr_elems.simps(2) [of xdr_u_int "Suc 0x3FFFFFFF" 0]
      xdr_elems.simps(2) [of xdr_u_int "0x3FFFFFFF" "Suc 0"]
    by (simp add: xdr_array_def Let_def)
qed

theorem xdr_array_count_wraps_witness:
  "xdr_array (\<lambda>_. True) 0xFFFFFFFF 4 0 xdr_u_int
     (zero_xdr\<lparr>x_op := XDR_DECODE, in_len := 12, in_msg := (\<lambda>i. (be32 0x40000001 @ be32 5 @ be32 6) ! i)\<rparr>)
     (None, 0) = None"
  by (rule xdr_array_count_wraps [of _ 5 6]) (simp_all add: xdr_inv_def zero_xdr_def in_at_def)

text \<open>
  The length of counted bytes is compared as a signed number, so the limit \<open>~0\<close> that the
  generated code passes does not protect the decoder either: when a message announces
  \<open>2 ^ 31\<close> bytes or more and \<open>malloc\<close> grants the block, the test of the length passes and the
  copy reads behind the message.
\<close>

theorem xdr_bytes_length_sign:
  assumes "xdr_inv x" and "x_op x = XDR_DECODE" and "in_at (be32 len) x" and "2 ^ 31 \<le> unat len" and "al (unat len)"
  shows "xdr_bytes al 0xFFFFFFFF x (NULL, n0) = None"
proof -
  have inv: "xdr_inv (advance 4 x)"
    using assms(1,3) by (intro xdr_inv_advance) (auto simp: in_at_def)
  have u: "xdr_std_recv_uint32 x = Some (Some len, advance 4 x)"
    using assms(1,3) by (rule xdr_std_recv_uint32_ok)
  have "int (2 ^ 31) \<le> int (unat len)" using assms(4) by (simp only: of_nat_le_iff)
  then have ui: "2147483648 \<le> uint len" by simp
  have "sint len < 2147483648" using sint_lt [of len] by simp
  moreover have "take_bit 32 (uint len) = uint len" using uint_lt2p [of len] by (simp add: take_bit_int_eq_self)
  ultimately have neg: "sint len = uint len - 4294967296"
    using ui signed_take_bit_eq_take_bit_minus [of 31 "uint len"] by (auto simp: sint_uint of_bool_def split: if_splits)
  have lt: "uint len < 4294967296" using uint_lt2p [of len] by simp
  have at: "in_next x + 4 \<le> in_len x" using assms(3) by (simp add: in_at_def)
  have "len \<noteq> 0" using ui by auto
  moreover have "\<not> 0xFFFFFFFF < len" using lt by (simp add: word_less_def)
  moreover have "xdr_std_recv_bytes (Buf (replicate (unat len) 0)) len (advance 4 x) = None"
    using inv neg ui lt at by (simp add: xdr_std_recv_bytes_def in_range_def xdr_inv_def)
  ultimately show ?thesis
    using u assms(2,5) by (simp add: xdr_bytes_def mem_alloc_def Let_def)
qed

theorem xdr_bytes_length_sign_witness:
  "xdr_bytes (\<lambda>_. True) 0xFFFFFFFF
     (zero_xdr\<lparr>x_op := XDR_DECODE, in_len := 8, in_msg := (\<lambda>i. (be32 0x80000000 @ be32 5) ! i)\<rparr>) (NULL, 0) = None"
  by (rule xdr_bytes_length_sign [where len = "0x80000000"]) (simp_all add: xdr_inv_def zero_xdr_def in_at_def nth_append)

end
