(* ===== verification/Rpc_Msg.thy ===== *)
theory Rpc_Msg
  imports Xdr_Filters
begin

text \<open>
  RPC messages: \<^verbatim>\<open>gps/librpc/rpc.c\<close> composes call messages and reply headers from XDR
  primitives, and the receiving half in \<^verbatim>\<open>gps/librpc/clnt.c\<close> takes a reply header apart. C enums
  are 32-bit words, since the receiver stores whatever number arrives. A union is a datatype
  with one constructor per member; reading a member that was not written is a fault.
\<close>

section \<open>Data\<close>

abbreviation (input) RPC_MSG_VERSION :: u32 where "RPC_MSG_VERSION \<equiv> 2"
abbreviation (input) RPC_MSG_ACCEPTED :: u32 where "RPC_MSG_ACCEPTED \<equiv> 0"
abbreviation (input) RPC_MSG_DENIED :: u32 where "RPC_MSG_DENIED \<equiv> 1"
abbreviation (input) RPC_ACCEPT_SUCCESS :: u32 where "RPC_ACCEPT_SUCCESS \<equiv> 0"
abbreviation (input) RPC_PROG_UNAVAIL :: u32 where "RPC_PROG_UNAVAIL \<equiv> 1"
abbreviation (input) RPC_PROG_MISMATCH :: u32 where "RPC_PROG_MISMATCH \<equiv> 2"
abbreviation (input) RPC_PROC_UNAVAIL :: u32 where "RPC_PROC_UNAVAIL \<equiv> 3"
abbreviation (input) RPC_GARBAGE_ARGS :: u32 where "RPC_GARBAGE_ARGS \<equiv> 4"
abbreviation (input) RPC_SYSTEM_ERR :: u32 where "RPC_SYSTEM_ERR \<equiv> 5"
abbreviation (input) RPC_PROG_LOCKED :: u32 where "RPC_PROG_LOCKED \<equiv> 6"
abbreviation (input) RPC_MISMATCH :: u32 where "RPC_MISMATCH \<equiv> 0"
abbreviation (input) RPC_AUTH_ERROR :: u32 where "RPC_AUTH_ERROR \<equiv> 1"

datatype reply_u = Versions u32 u32 | Why u32 | Unset

record rpc_accepted_reply_header =
  ar_verf :: opaque_auth
  ar_stat :: u32
  ar_u :: reply_u

record rpc_denied_reply =
  dr_stat :: u32
  dr_u :: reply_u

datatype reply_body = AR rpc_accepted_reply_header | DR rpc_denied_reply

record rpc_reply_header =
  r_stat :: u32
  r_u :: reply_body

section \<open>Sending\<close>

text \<open>\<open>oa_flavor\<close> is an enum of four bytes.\<close>

definition xdr_send_auth :: "opaque_auth \<Rightarrow> xdr_act" where
  "xdr_send_auth auth =
     seqM (xdr_std_send_int32 (oa_flavor auth))
       (seqM (xdr_std_send_uint32 (oa_length auth))
         (if oa_length auth = 0 then (\<lambda>x. Some (True, x))
          else xdr_std_send_bytes (oa_base auth) (oa_length auth)))"

definition xdr_call_msg_start :: "u32 \<Rightarrow> u32 \<Rightarrow> u32 \<Rightarrow> opaque_auth \<Rightarrow> opaque_auth \<Rightarrow> xdr_act" where
  "xdr_call_msg_start prog ver proc cred vrf x =
     seqM (xdr_std_msg_start RPC_MSG_CALL)
      (seqM (xdr_std_send_uint32 RPC_MSG_VERSION)
       (seqM (xdr_std_send_uint32 prog)
        (seqM (xdr_std_send_uint32 ver)
         (seqM (xdr_std_send_uint32 proc)
          (seqM (xdr_send_auth cred) (xdr_send_auth vrf))))))
      (x\<lparr>x_prog := prog, x_proc := proc\<rparr>)"

definition xdr_reply_msg_start :: "opaque_auth \<Rightarrow> xdr_act" where
  "xdr_reply_msg_start vrf =
     seqM (xdr_std_msg_start RPC_MSG_REPLY)
      (seqM (xdr_std_send_int32 RPC_MSG_ACCEPTED)
       (seqM (xdr_send_auth vrf) (xdr_std_send_int32 RPC_ACCEPT_SUCCESS)))"

fun send_versions :: "reply_u \<Rightarrow> xdr_act" where
  "send_versions (Versions low high) = seqM (xdr_std_send_uint32 low) (xdr_std_send_uint32 high)"
| "send_versions _ = (\<lambda>x. None)"

fun send_why :: "reply_u \<Rightarrow> xdr_act" where
  "send_why (Why w) = xdr_send_enum w 4"
| "send_why _ = (\<lambda>x. None)"

definition xdr_send_accepted_reply_header :: "rpc_accepted_reply_header \<Rightarrow> xdr_act" where
  "xdr_send_accepted_reply_header ar =
     seqM (xdr_send_auth (ar_verf ar))
      (seqM (xdr_send_enum (ar_stat ar) 4)
        (if ar_stat ar = RPC_PROG_MISMATCH then send_versions (ar_u ar)
         else if ar_stat ar \<in> {RPC_ACCEPT_SUCCESS, RPC_PROG_UNAVAIL, RPC_PROC_UNAVAIL, RPC_GARBAGE_ARGS,
                               RPC_SYSTEM_ERR, RPC_PROG_LOCKED}
         then (\<lambda>x. Some (True, x)) else (\<lambda>x. Some (False, x))))"

definition xdr_send_denied_reply :: "rpc_denied_reply \<Rightarrow> xdr_act" where
  "xdr_send_denied_reply dr =
     seqM (xdr_send_enum (dr_stat dr) 4)
       (if dr_stat dr = RPC_MISMATCH then send_versions (dr_u dr)
        else if dr_stat dr = RPC_AUTH_ERROR then send_why (dr_u dr)
        else (\<lambda>x. Some (False, x)))"

definition xdr_send_reply_header :: "rpc_reply_header \<Rightarrow> xdr_act" where
  "xdr_send_reply_header reply =
     seqM (xdr_send_enum (r_stat reply) 4)
       (if r_stat reply = RPC_MSG_ACCEPTED
        then (case r_u reply of AR ar \<Rightarrow> xdr_send_accepted_reply_header ar | DR _ \<Rightarrow> (\<lambda>x. None))
        else if r_stat reply = RPC_MSG_DENIED
        then (case r_u reply of DR dr \<Rightarrow> xdr_send_denied_reply dr | AR _ \<Rightarrow> (\<lambda>x. None))
        else (\<lambda>x. Some (False, x)))"

text \<open>\<open>xdr_free\<close> runs a filter on a scratch handle with \<open>XDR_FREE\<close>; the value is what the filter leaves.\<close>

definition xdr_free :: "'v xdrproc \<Rightarrow> 'v \<Rightarrow> 'v option" where
  "xdr_free proc v = map_option (fst \<circ> snd) (proc (zero_xdr\<lparr>x_op := XDR_FREE\<rparr>) v)"

section \<open>Receiving\<close>

text \<open>
  The code throws a verifier's bytes away and then fails in both branches. A received
  verifier has \<open>oa_base\<close> as the caller left it; nothing reads it.
\<close>

definition xdr_recv_auth :: "opaque_auth xdr_recv" where
  "xdr_recv_auth =
     bindM xdr_std_recv_int32 (\<lambda>flavor.
     bindM xdr_std_recv_uint32 (\<lambda>len x.
       if len \<noteq> 0
       then do { (ok, _, x) \<leftarrow> xdr_std_recv_bytes NULL len x; Some (None, x) }
       else Some (Some \<lparr>oa_flavor = flavor, oa_base = NULL, oa_length = len\<rparr>, x)))"

definition recv_versions :: "reply_u xdr_recv" where
  "recv_versions = bindM xdr_std_recv_uint32 (\<lambda>low. bindM xdr_std_recv_uint32 (\<lambda>high x.
     Some (Some (Versions low high), x)))"

definition xdr_recv_accepted_reply_header :: "rpc_accepted_reply_header xdr_recv" where
  "xdr_recv_accepted_reply_header =
     bindM xdr_recv_auth (\<lambda>vrf.
     bindM (xdr_recv_enum 4) (\<lambda>stat.
     bindM (if stat = RPC_PROG_MISMATCH then recv_versions
            else if stat \<in> {RPC_ACCEPT_SUCCESS, RPC_PROG_UNAVAIL, RPC_PROC_UNAVAIL, RPC_GARBAGE_ARGS,
                            RPC_SYSTEM_ERR, RPC_PROG_LOCKED}
            then (\<lambda>x. Some (Some Unset, x)) else (\<lambda>x. Some (None, x)))
       (\<lambda>u x. Some (Some \<lparr>ar_verf = vrf, ar_stat = stat, ar_u = u\<rparr>, x))))"

definition xdr_recv_denied_reply :: "rpc_denied_reply xdr_recv" where
  "xdr_recv_denied_reply =
     bindM (xdr_recv_enum 4) (\<lambda>stat.
     bindM (if stat = RPC_MISMATCH then recv_versions
            else if stat = RPC_AUTH_ERROR
            then bindM (xdr_recv_enum 4) (\<lambda>w x. Some (Some (Why w), x))
            else (\<lambda>x. Some (None, x)))
       (\<lambda>u x. Some (Some \<lparr>dr_stat = stat, dr_u = u\<rparr>, x)))"

definition xdr_recv_reply_header :: "rpc_reply_header xdr_recv" where
  "xdr_recv_reply_header =
     bindM (xdr_recv_enum 4) (\<lambda>stat.
       if stat = RPC_MSG_ACCEPTED
       then bindM xdr_recv_accepted_reply_header (\<lambda>ar x. Some (Some \<lparr>r_stat = stat, r_u = AR ar\<rparr>, x))
       else if stat = RPC_MSG_DENIED
       then bindM xdr_recv_denied_reply (\<lambda>dr x. Some (Some \<lparr>r_stat = stat, r_u = DR dr\<rparr>, x))
       else (\<lambda>x. Some (None, x)))"

section \<open>Runs of sends and receives\<close>

text \<open>
  \<open>sends act bs\<close>: the action appends exactly \<open>bs\<close> whenever there is room;
  \<open>recvs rcv bs v\<close>: the receive consumes exactly \<open>bs\<close> and yields \<open>v\<close>.
\<close>

named_theorems stream_intros \<open>composition of sends and of receives\<close>

definition sends :: "xdr_act \<Rightarrow> bytes \<Rightarrow> bool" where
  "sends act bs \<longleftrightarrow> length bs mod 4 = 0 \<and>
     (\<forall>x. xdr_inv x \<longrightarrow> fits (length bs) x \<longrightarrow> act x = Some (True, append_out bs x))"

definition recvs :: "'v xdr_recv \<Rightarrow> bytes \<Rightarrow> 'v \<Rightarrow> bool" where
  "recvs rcv bs v \<longleftrightarrow> length bs mod 4 = 0 \<and>
     (\<forall>x. xdr_inv x \<longrightarrow> in_at bs x \<longrightarrow> rcv x = Some (Some v, advance (length bs) x))"

lemma sends_seqM [stream_intros]:
  assumes f: "sends f as" and g: "sends g bs"
  shows "sends (seqM f g) (as @ bs)"
  unfolding sends_def
proof (intro conjI allI impI)
  show "length (as @ bs) mod 4 = 0" using f g by (simp add: sends_def mod_add_eq [symmetric])
  fix x
  assume x: "xdr_inv x" "fits (length (as @ bs)) x"
  then have fa: "fits (length as) x" and fb: "fits (length bs) (append_out as x)"
    by (auto intro: fits_append fits_append_out)
  have inv: "xdr_inv (append_out as x)"
    using f x fa by (intro xdr_inv_append_out) (auto simp: sends_def)
  have "f x = Some (True, append_out as x)" using f x fa by (simp add: sends_def)
  moreover have "g (append_out as x) = Some (True, append_out bs (append_out as x))"
    using g inv fb by (simp add: sends_def)
  ultimately show "seqM f g x = Some (True, append_out (as @ bs) x)"
    using x by (simp add: seqM_def append_out_append xdr_inv_next)
qed

lemma recvs_bindM [stream_intros]:
  assumes f: "recvs f as v" and g: "recvs (g v) bs w"
  shows "recvs (bindM f g) (as @ bs) w"
  unfolding recvs_def
proof (intro conjI allI impI)
  show "length (as @ bs) mod 4 = 0" using f g by (simp add: recvs_def mod_add_eq [symmetric])
  fix x
  assume x: "xdr_inv x" "in_at (as @ bs) x"
  then have at: "in_at as x" "in_at bs (advance (length as) x)"
    by (auto simp: in_at_append xdr_inv_next)
  have inv: "xdr_inv (advance (length as) x)"
    using f x at by (intro xdr_inv_advance) (auto simp: recvs_def in_at_def)
  have "f x = Some (Some v, advance (length as) x)" using f x at by (simp add: recvs_def)
  moreover have "g v (advance (length as) x) = Some (Some w, advance (length bs) (advance (length as) x))"
    using g inv at by (simp add: recvs_def)
  ultimately show "bindM f g x = Some (Some w, advance (length (as @ bs)) x)"
    by (simp add: bindM_def advance_advance)
qed

lemma sends_uint32 [stream_intros]: "sends (xdr_std_send_uint32 v) (be32 v)"
  by (simp add: sends_def xdr_std_send_uint32_ok xdr_inv_next)

lemma sends_int32 [stream_intros]: "sends (xdr_std_send_int32 v) (be32 v)"
  by (simp add: xdr_std_send_int32_def sends_uint32)

lemma sends_enum [stream_intros]: "sends (xdr_send_enum v 4) (be32 v)"
  by (simp add: xdr_send_enum_def sends_int32)

lemma sends_nothing [stream_intros]: "sends (\<lambda>x. Some (True, x)) []"
  by (simp add: sends_def)

lemma recvs_uint32 [stream_intros]: "recvs xdr_std_recv_uint32 (be32 v) v"
  by (simp add: recvs_def xdr_std_recv_uint32_ok)

lemma recvs_int32 [stream_intros]: "recvs xdr_std_recv_int32 (be32 v) v"
  by (simp add: xdr_std_recv_int32_def recvs_uint32)

lemma recvs_enum [stream_intros]: "recvs (xdr_recv_enum 4) (be32 v) v"
  by (simp add: xdr_recv_enum_def recvs_int32)

lemma recvs_return [stream_intros]: "recvs (\<lambda>x. Some (Some v, x)) [] v"
  by (simp add: recvs_def advance_def)

section \<open>The bytes of a reply header\<close>

definition no_auth :: opaque_auth where
  "no_auth = \<lparr>oa_flavor = 0, oa_base = NULL, oa_length = 0\<rparr>"

fun u_bytes :: "reply_u \<Rightarrow> bytes" where
  "u_bytes (Versions low high) = be32 low @ be32 high"
| "u_bytes (Why w) = be32 w"
| "u_bytes Unset = []"

text \<open>The headers the protocol has: the verifier is empty, the union holds what the status says.\<close>

definition good_accepted :: "rpc_accepted_reply_header \<Rightarrow> bool" where
  "good_accepted ar \<longleftrightarrow> oa_length (ar_verf ar) = 0 \<and> oa_base (ar_verf ar) = NULL \<and> ar_stat ar \<le> 6 \<and>
     (case ar_u ar of Versions _ _ \<Rightarrow> ar_stat ar = RPC_PROG_MISMATCH
                    | Unset \<Rightarrow> ar_stat ar \<noteq> RPC_PROG_MISMATCH | Why _ \<Rightarrow> False)"

definition good_denied :: "rpc_denied_reply \<Rightarrow> bool" where
  "good_denied dr \<longleftrightarrow> (case dr_u dr of Versions _ _ \<Rightarrow> dr_stat dr = RPC_MISMATCH
                                   | Why _ \<Rightarrow> dr_stat dr = RPC_AUTH_ERROR | Unset \<Rightarrow> False)"

definition good_reply :: "rpc_reply_header \<Rightarrow> bool" where
  "good_reply r \<longleftrightarrow> (case r_u r of AR ar \<Rightarrow> r_stat r = RPC_MSG_ACCEPTED \<and> good_accepted ar
                                | DR dr \<Rightarrow> r_stat r = RPC_MSG_DENIED \<and> good_denied dr)"

definition auth_bytes :: "opaque_auth \<Rightarrow> bytes" where
  "auth_bytes a = be32 (oa_flavor a) @ be32 0"

definition reply_bytes :: "rpc_reply_header \<Rightarrow> bytes" where
  "reply_bytes r = be32 (r_stat r) @
     (case r_u r of AR ar \<Rightarrow> auth_bytes (ar_verf ar) @ be32 (ar_stat ar) @ u_bytes (ar_u ar)
                  | DR dr \<Rightarrow> be32 (dr_stat dr) @ u_bytes (dr_u dr))"

lemma sends_auth [stream_intros]: "oa_length a = 0 \<Longrightarrow> sends (xdr_send_auth a) (auth_bytes a)"
  using sends_seqM [OF sends_int32 sends_seqM [OF sends_uint32 sends_nothing], of "oa_flavor a" 0]
  by (simp add: xdr_send_auth_def auth_bytes_def)

lemma accept_stats: "(s :: u32) \<le> 6 \<longleftrightarrow> s = 2 \<or> s \<in> {0, 1, 3, 4, 5, 6}"
proof -
  have "s \<le> 6 \<longleftrightarrow> unat s \<le> 6" by (simp add: word_le_nat_alt)
  also have "\<dots> \<longleftrightarrow> unat s \<in> {0, 1, 2, 3, 4, 5, 6}" by auto
  finally show ?thesis
    by (auto simp: word_unat_eq_iff)
qed

lemma sends_accepted:
  assumes "good_accepted ar"
  shows "sends (xdr_send_accepted_reply_header ar) (auth_bytes (ar_verf ar) @ be32 (ar_stat ar) @ u_bytes (ar_u ar))"
  unfolding xdr_send_accepted_reply_header_def
  using assms
  by (intro stream_intros) (auto simp: good_accepted_def accept_stats intro: stream_intros split: reply_u.splits)


lemma sends_denied:
  assumes "good_denied dr"
  shows "sends (xdr_send_denied_reply dr) (be32 (dr_stat dr) @ u_bytes (dr_u dr))"
  unfolding xdr_send_denied_reply_def
  using assms by (intro stream_intros) (auto simp: good_denied_def intro: stream_intros split: reply_u.splits)

lemma sends_reply: "good_reply r \<Longrightarrow> sends (xdr_send_reply_header r) (reply_bytes r)"
  unfolding xdr_send_reply_header_def reply_bytes_def
  by (intro stream_intros) (auto simp: good_reply_def sends_accepted sends_denied split: reply_body.splits)

lemma recvs_auth [stream_intros]:
  "oa_length a = 0 \<Longrightarrow> oa_base a = NULL \<Longrightarrow> recvs xdr_recv_auth (auth_bytes a) a"
proof -
  assume a: "oa_length a = 0" "oa_base a = NULL"
  have "recvs xdr_recv_auth (be32 (oa_flavor a) @ be32 0 @ []) a"
    unfolding xdr_recv_auth_def
    by (rule recvs_bindM [OF recvs_int32 recvs_bindM [OF recvs_uint32]])
      (use a in \<open>cases a, simp add: recvs_return\<close>)
  then show ?thesis by (simp add: auth_bytes_def)
qed

lemma recvs_versions [stream_intros]: "recvs recv_versions (be32 low @ be32 high) (Versions low high)"
  using recvs_bindM [OF recvs_uint32 recvs_bindM [OF recvs_uint32 recvs_return]]
  by (auto simp: recv_versions_def)

lemma recvs_accepted [stream_intros]:
  assumes "good_accepted ar"
  shows "recvs xdr_recv_accepted_reply_header
     (auth_bytes (ar_verf ar) @ be32 (ar_stat ar) @ u_bytes (ar_u ar)) ar"
proof -
  have "recvs xdr_recv_accepted_reply_header
     (auth_bytes (ar_verf ar) @ be32 (ar_stat ar) @ u_bytes (ar_u ar) @ []) ar"
    unfolding xdr_recv_accepted_reply_header_def
  proof (intro recvs_bindM)
    show "recvs xdr_recv_auth (auth_bytes (ar_verf ar)) (ar_verf ar)"
      using assms by (intro recvs_auth) (auto simp: good_accepted_def)
    show "recvs (xdr_recv_enum 4) (be32 (ar_stat ar)) (ar_stat ar)" by (rule recvs_enum)
    show "recvs (if ar_stat ar = RPC_PROG_MISMATCH then recv_versions
            else if ar_stat ar \<in> {RPC_ACCEPT_SUCCESS, RPC_PROG_UNAVAIL, RPC_PROC_UNAVAIL,
                 RPC_GARBAGE_ARGS, RPC_SYSTEM_ERR, RPC_PROG_LOCKED}
            then (\<lambda>x. Some (Some Unset, x)) else (\<lambda>x. Some (None, x))) (u_bytes (ar_u ar)) (ar_u ar)"
      using assms by (auto simp: good_accepted_def accept_stats intro: stream_intros split: reply_u.splits)
  qed (cases ar, simp add: recvs_return)
  then show ?thesis by simp
qed

lemma recvs_denied [stream_intros]:
  assumes "good_denied dr"
  shows "recvs xdr_recv_denied_reply (be32 (dr_stat dr) @ u_bytes (dr_u dr)) dr"
proof -
  have why: "recvs (bindM (xdr_recv_enum 4) (\<lambda>w x. Some (Some (Why w), x))) (be32 w @ []) (Why w)" for w
    by (rule recvs_bindM [OF recvs_enum]) (rule recvs_return)
  have "recvs xdr_recv_denied_reply (be32 (dr_stat dr) @ u_bytes (dr_u dr) @ []) dr"
    unfolding xdr_recv_denied_reply_def
  proof (intro recvs_bindM)
    show "recvs (xdr_recv_enum 4) (be32 (dr_stat dr)) (dr_stat dr)" by (rule recvs_enum)
    show "recvs (if dr_stat dr = RPC_MISMATCH then recv_versions
            else if dr_stat dr = RPC_AUTH_ERROR
            then bindM (xdr_recv_enum 4) (\<lambda>w x. Some (Some (Why w), x))
            else (\<lambda>x. Some (None, x))) (u_bytes (dr_u dr)) (dr_u dr)"
      using assms why by (auto simp: good_denied_def intro: recvs_versions split: reply_u.splits)
  qed (cases dr, simp add: recvs_return)
  then show ?thesis by simp
qed

lemma recvs_reply:
  assumes "good_reply r"
  shows "recvs xdr_recv_reply_header (reply_bytes r) r"
proof (cases "r_u r")
  case (AR ar)
  then have g: "r_stat r = 0" "good_accepted ar" using assms by (auto simp: good_reply_def)
  have r: "\<lparr>r_stat = 0, r_u = AR ar\<rparr> = r" using g AR by (cases r) simp
  have "recvs (bindM xdr_recv_accepted_reply_header (\<lambda>ar x. Some (Some \<lparr>r_stat = 0, r_u = AR ar\<rparr>, x)))
     ((auth_bytes (ar_verf ar) @ be32 (ar_stat ar) @ u_bytes (ar_u ar)) @ []) r"
    by (rule recvs_bindM [OF recvs_accepted [OF g(2)]]) (simp add: r recvs_return)
  then show ?thesis
    unfolding xdr_recv_reply_header_def reply_bytes_def
    by (intro recvs_bindM [OF recvs_enum]) (simp add: AR g)
next
  case (DR dr)
  then have g: "r_stat r = 1" "good_denied dr" using assms by (auto simp: good_reply_def)
  have r: "\<lparr>r_stat = 1, r_u = DR dr\<rparr> = r" using g DR by (cases r) simp
  have "recvs (bindM xdr_recv_denied_reply (\<lambda>dr x. Some (Some \<lparr>r_stat = 1, r_u = DR dr\<rparr>, x)))
     ((be32 (dr_stat dr) @ u_bytes (dr_u dr)) @ []) r"
    by (rule recvs_bindM [OF recvs_denied [OF g(2)]]) (simp add: r recvs_return)
  then show ?thesis
    unfolding xdr_recv_reply_header_def reply_bytes_def
    by (intro recvs_bindM [OF recvs_enum]) (simp add: DR g)
qed

section \<open>Starting a message\<close>

definition started :: "rpc_msg_e_type \<Rightarrow> xdr_struct \<Rightarrow> xdr_struct" where
  "started ty x = (if ty = RPC_MSG_CALL then x\<lparr>xid := xid x + 1, out_next := 0\<rparr> else x\<lparr>out_next := 0\<rparr>)"

lemma started_fields [simp]:
  "out_next (started ty x) = 0" "xid (started ty x) = (if ty = RPC_MSG_CALL then xid x + 1 else xid x)"
  "x_op (started ty x) = x_op x" "x_prog (started ty x) = x_prog x" "x_vers (started ty x) = x_vers x"
  "fd (started ty x) = fd x" "in_msg (started ty x) = in_msg x" "in_next (started ty x) = in_next x"
  "in_len (started ty x) = in_len x"
  by (simp_all add: started_def)

lemma xdr_inv_started: "xdr_inv x \<Longrightarrow> xdr_inv (started ty x)"
  by (simp add: xdr_inv_def)

lemma out_bytes_started [simp]: "out_bytes (started ty x) = []"
  by (simp add: out_bytes_def)

lemma xdr_std_msg_start_ok:
  "xdr_std_msg_start ty x
     = Some (True, append_out (be32 (xid (started ty x)) @ be32 (rpc_msg_code ty)) (started ty x))"
  by (auto simp: xdr_std_msg_start_def Let_def put_outs_eq append_out_def started_def fun_eq_iff
      nth_append intro!: xdr_struct.equality)

lemma sends_after_start:
  assumes "xdr_inv x" and "sends act bs" and "length bs + 8 \<le> 18432"
  shows "seqM (xdr_std_msg_start ty) act x
     = Some (True, append_out (be32 (xid (started ty x)) @ be32 (rpc_msg_code ty) @ bs) (started ty x))"
proof -
  let ?h = "be32 (xid (started ty x)) @ be32 (rpc_msg_code ty)" and ?x = "started ty x"
  have inv: "xdr_inv (append_out ?h ?x)"
    using assms(1) by (intro xdr_inv_append_out xdr_inv_started) (auto simp: fits_def)
  have "fits (length bs) (append_out ?h ?x)"
    using assms(3) by (simp add: fits_def)
  then have "act (append_out ?h ?x) = Some (True, append_out bs (append_out ?h ?x))"
    using assms(2) inv by (simp add: sends_def)
  moreover have "append_out (?h @ bs) ?x = append_out bs (append_out ?h ?x)"
    by (intro append_out_append) simp
  ultimately show ?thesis by (simp add: seqM_def xdr_std_msg_start_ok)
qed

definition call_header :: "u32 \<Rightarrow> u32 \<Rightarrow> u32 \<Rightarrow> u32 \<Rightarrow> bytes" where
  "call_header i prog ver proc = concat (map be32 [i, 0, 2, prog, ver, proc, 0, 0, 0, 0])"

lemma call_msg_start_ok:
  assumes "xdr_inv x"
  shows "xdr_call_msg_start prog ver proc no_auth no_auth x
     = Some (True, append_out (call_header (xid x + 1) prog ver proc)
         (started RPC_MSG_CALL (x\<lparr>x_prog := prog, x_proc := proc\<rparr>)))"
proof -
  let ?b = "be32 2 @ be32 prog @ be32 ver @ be32 proc @ auth_bytes no_auth @ auth_bytes no_auth"
  have "sends (seqM (xdr_std_send_uint32 2) (seqM (xdr_std_send_uint32 prog)
        (seqM (xdr_std_send_uint32 ver) (seqM (xdr_std_send_uint32 proc)
          (seqM (xdr_send_auth no_auth) (xdr_send_auth no_auth)))))) ?b"
    by (intro stream_intros) (simp_all add: no_auth_def)
  from sends_after_start [OF _ this, of "x\<lparr>x_prog := prog, x_proc := proc\<rparr>" RPC_MSG_CALL] assms
  show ?thesis
    by (simp add: xdr_call_msg_start_def xdr_inv_def auth_bytes_def call_header_def no_auth_def)
qed

definition success_header :: "u32 \<Rightarrow> bytes" where
  "success_header i = concat (map be32 [i, 1, 0, 0, 0, 0])"

lemma reply_msg_start_ok:
  assumes "xdr_inv x"
  shows "xdr_reply_msg_start no_auth x
     = Some (True, append_out (success_header (xid x)) (started RPC_MSG_REPLY x))"
proof -
  have "sends (seqM (xdr_std_send_int32 0) (seqM (xdr_send_auth no_auth) (xdr_std_send_int32 0)))
     (be32 0 @ auth_bytes no_auth @ be32 0)"
    by (intro stream_intros) (simp_all add: no_auth_def)
  from sends_after_start [OF assms this, of RPC_MSG_REPLY]
  show ?thesis
    by (simp add: xdr_reply_msg_start_def auth_bytes_def success_header_def no_auth_def)
qed

section \<open>Properties\<close>

text \<open>
  C26. Reply headers survive the wire: for every header the protocol has (accepted with each
  status, a version mismatch with its bounds, denied for a version or for authentication),
  the server's \<open>xdr_send_reply_header\<close> succeeds and the client's \<open>xdr_recv_reply_header\<close>,
  reading the message that arrived, returns the same header and consumes exactly its bytes.
\<close>

theorem reply_header_roundtrip:
  assumes "good_reply r" and "xdr_inv x" and "fits (length (reply_bytes r)) x" and "xdr_inv y"
  shows "\<exists>x'. xdr_send_reply_header r x = Some (True, x') \<and> xdr_inv x' \<and>
     xdr_recv_reply_header (arrived x x' y) = Some (Some r, (arrived x x' y)\<lparr>in_next := out_next x'\<rparr>)"
proof -
  let ?x = "append_out (reply_bytes r) x"
  have s: "xdr_send_reply_header r x = Some (True, ?x)" and "length (reply_bytes r) mod 4 = 0"
    using sends_reply [OF assms(1)] assms(2,3) by (auto simp: sends_def)
  then have inv: "xdr_inv ?x" using assms(2,3) by (intro xdr_inv_append_out)
  have "in_at (reply_bytes r) (arrived x ?x y)"
    using assms(2) by (auto simp: in_at_def append_out_def xdr_inv_def)
  then show ?thesis
    using recvs_reply [OF assms(1)] s inv xdr_inv_arrived [OF assms(2) inv assms(4)]
    by (auto simp: recvs_def advance_def)
qed

theorem reply_header_roundtrip_witness:
  "\<exists>x'. xdr_send_reply_header
      \<lparr>r_stat = 0, r_u = AR \<lparr>ar_verf = no_auth, ar_stat = 2, ar_u = Versions 1 3\<rparr>\<rparr> zero_xdr = Some (True, x') \<and>
     xdr_inv x' \<and> xdr_recv_reply_header (arrived zero_xdr x' zero_xdr)
       = Some (Some \<lparr>r_stat = 0, r_u = AR \<lparr>ar_verf = no_auth, ar_stat = 2, ar_u = Versions 1 3\<rparr>\<rparr>,
               (arrived zero_xdr x' zero_xdr)\<lparr>in_next := out_next x'\<rparr>)"
  by (rule reply_header_roundtrip)
    (simp_all add: good_reply_def good_accepted_def no_auth_def xdr_inv_def zero_xdr_def fits_def
      reply_bytes_def auth_bytes_def)

text \<open>
  The header of a call message: ten words, the transaction id (one more than the last),
  the kind, the RPC version, the program, its version, the procedure and two empty
  credentials, and the cursor behind them.
\<close>

theorem call_message_layout:
  assumes "xdr_inv x"
  shows "\<exists>x'. xdr_call_msg_start prog ver proc no_auth no_auth x = Some (True, x') \<and> xdr_inv x' \<and>
     out_bytes x' = concat (map be32 [xid x + 1, 0, 2, prog, ver, proc, 0, 0, 0, 0]) \<and>
     out_next x' = 40 \<and> xid x' = xid x + 1 \<and> x_prog x' = prog \<and> x_op x' = x_op x"
proof -
  have "xdr_inv (append_out (call_header (xid x + 1) prog ver proc)
      (started RPC_MSG_CALL (x\<lparr>x_prog := prog, x_proc := proc\<rparr>)))"
    using assms by (intro xdr_inv_append_out xdr_inv_started) (simp_all add: xdr_inv_def fits_def call_header_def)
  then show ?thesis
    using call_msg_start_ok [OF assms, of prog ver proc]
    by (simp add: out_bytes_append_out) (simp add: call_header_def)
qed

theorem call_message_layout_witness:
  "\<exists>x'. xdr_call_msg_start 0x3000008C 1 7 no_auth no_auth zero_xdr = Some (True, x') \<and> xdr_inv x' \<and>
     out_bytes x' = concat (map be32 [xid zero_xdr + 1, 0, 2, 0x3000008C, 1, 7, 0, 0, 0, 0]) \<and>
     out_next x' = 40 \<and> xid x' = xid zero_xdr + 1 \<and> x_prog x' = 0x3000008C \<and> x_op x' = x_op zero_xdr"
  by (rule call_message_layout) (simp add: xdr_inv_def zero_xdr_def)

text \<open>
  A reply whose verifier is not empty is never accepted, even when all its bytes are
  there: the code skips the verifier and then reports failure in both branches.
\<close>

theorem recv_auth_rejects_verifiers:
  assumes "xdr_inv x" and "in_at (be32 flavor @ be32 len) x" and "len \<noteq> 0" and "uint len \<le> SAFE_LIMIT"
  shows "\<exists>x'. xdr_recv_auth x = Some (None, x')"
proof -
  have at: "in_at (be32 flavor) x" "in_at (be32 len) (advance 4 x)"
    using assms by (auto simp: in_at_append xdr_inv_next)
  have inv: "xdr_inv (advance 4 x)" "xdr_inv (advance 8 x)"
    using assms(1,2) by (auto intro!: xdr_inv_advance simp: in_at_def)
  have "\<exists>ok b x'. xdr_std_recv_bytes NULL len (advance 8 x) = Some (ok, b, x')"
    using inv(2) assms(4) by (cases rule: xdr_std_recv_bytes_safe [of _ len NULL]) auto
  then show ?thesis
    using assms(1,3) at inv(1)
    by (auto simp: xdr_recv_auth_def bindM_def xdr_std_recv_int32_def xdr_std_recv_uint32_ok advance_advance)
qed

theorem recv_auth_rejects_verifiers_witness:
  "\<exists>x'. xdr_recv_auth (zero_xdr\<lparr>in_len := 12, in_msg := (\<lambda>i. (be32 1 @ be32 4 @ be32 9) ! i)\<rparr>) = Some (None, x')"
  by (rule recv_auth_rejects_verifiers [of _ 1 4])
    (auto simp: xdr_inv_def zero_xdr_def in_at_def nth_append)

end
