(* ===== verification/Svc.thy ===== *)
theory Svc
  imports Rpc_Msg Registry
begin

text \<open>
  The server side of librpc, \<^verbatim>\<open>gps/librpc/svc.c\<close>: the list of registered servers of a
  transport, dispatching calls to them, and replying. A server entry without an XDR handle
  stands for the callback side of an RPC client (its program number has bit 24 set). Every
  operation on the list holds \<open>xprt->lock\<close>, so it is one atomic step here. The kernel (opening
  the router, registering a server with it) and the allocator are the fields of \<open>svc_env\<close>.
  A server's dispatch routine is a function pointer, here a number; the routines themselves
  are generated code and parameters of the dispatcher.
\<close>

section \<open>Data\<close>

text \<open>\<open>active\<close> is not initialised by \<open>svc_register\<close> (\<open>malloc\<close>); reading it before a dispatch is a fault.\<close>

record registered_server =
  s_xdr :: "xdr_struct option"
  s_prog :: u32
  s_vers :: u32
  s_active :: "int option"
  s_dispatch :: nat

record SVCXPRT =
  fdset :: "int set"
  max_fd :: int
  servers :: "registered_server list"
  num_cb_servers :: int
  num_servers :: int
  in_reset :: int
  reset_cb :: "nat option"
  svc_threads :: nat

record svc_env =
  env_alloc :: bool
  env_open :: "string \<Rightarrow> int"
  env_register :: "int \<Rightarrow> u32 \<Rightarrow> u32 \<Rightarrow> int"

abbreviation (input) FD_SETSIZE :: int where "FD_SETSIZE \<equiv> 1024"

definition is_callback_prog :: "u32 \<Rightarrow> bool" where
  "is_callback_prog prog \<longleftrightarrow> prog AND 0x01000000 \<noteq> 0"

definition new_xprt :: SVCXPRT where
  "new_xprt = \<lparr>fdset = {}, max_fd = 0, servers = [], num_cb_servers = 0, num_servers = 0,
     in_reset = 0, reset_cb = None, svc_threads = 0\<rparr>"

section \<open>The server list\<close>

text \<open>
  The walk of \<open>svc_find_nosync\<close>: the entries before the one sought (the last of them is
  \<open>*prev\<close>) and the list from it on.
\<close>

fun svc_walk :: "u32 \<Rightarrow> u32 \<Rightarrow> registered_server list \<Rightarrow> registered_server list \<times> registered_server list" where
  "svc_walk prog vers [] = ([], [])"
| "svc_walk prog vers (s # ss) =
    (if s_prog s = prog \<and> s_vers s = vers then ([], s # ss)
     else let (before, rest) = svc_walk prog vers ss in (s # before, rest))"

definition svc_find_nosync :: "SVCXPRT \<Rightarrow> u32 \<Rightarrow> u32 \<Rightarrow> registered_server option" where
  "svc_find_nosync xprt prog vers =
    (case snd (svc_walk prog vers (servers xprt)) of [] \<Rightarrow> None | s # _ \<Rightarrow> Some s)"

definition svc_find :: "SVCXPRT \<Rightarrow> u32 \<Rightarrow> u32 \<Rightarrow> registered_server option" where
  "svc_find xprt prog vers = svc_find_nosync xprt prog vers"

text \<open>\<open>FD_SET\<close> writes outside the set for a descriptor of 1024 or more.\<close>

definition FD_SET :: "int \<Rightarrow> int set \<Rightarrow> int set option" where
  "FD_SET n s = (if 0 \<le> n \<and> n < FD_SETSIZE then Some (insert n s) else None)"

definition link_server :: "registered_server \<Rightarrow> SVCXPRT \<Rightarrow> SVCXPRT" where
  "link_server svc xprt =
    (let xprt = xprt\<lparr>servers := svc # servers xprt\<rparr>;
         xprt = (if s_xdr svc \<noteq> None then xprt\<lparr>num_servers := num_servers xprt + 1\<rparr>
                 else xprt\<lparr>num_cb_servers := num_cb_servers xprt + 1\<rparr>)
     in if num_servers xprt = 1 then xprt\<lparr>svc_threads := svc_threads xprt + 1\<rparr> else xprt)"

definition svc_register :: "svc_env \<Rightarrow> SVCXPRT \<Rightarrow> u32 \<Rightarrow> u32 \<Rightarrow> nat \<Rightarrow> (bool \<times> SVCXPRT) option" where
  "svc_register env xprt prog vers dispatch =
    (case svc_find_nosync xprt prog vers of
       Some svc \<Rightarrow> Some (s_dispatch svc = dispatch, xprt)
     | None \<Rightarrow>
        if \<not> env_alloc env then None
        else let svc = \<lparr>s_xdr = None, s_prog = prog, s_vers = vers, s_active = None, s_dispatch = dispatch\<rparr>
        in if is_callback_prog prog then Some (True, link_server svc xprt)
        else do {
          x \<leftarrow> xdr_init_common (env_alloc env) (env_open env) ''00000000:0'' 0;
          case x of
            None \<Rightarrow> Some (False, xprt)
          | Some x \<Rightarrow>
              if env_register env (fd x) prog vers < 0 then Some (False, xprt)
              else do {
                fds \<leftarrow> FD_SET (fd x) (fdset xprt);
                let x' = x\<lparr>x_prog := prog, x_vers := vers\<rparr>;
                    xprt' = xprt\<lparr>fdset := fds, max_fd := (if fd x > max_fd xprt then fd x else max_fd xprt)\<rparr>
                in Some (True, link_server (svc\<lparr>s_xdr := Some x'\<rparr>) xprt') } })"

text \<open>The result of the ioctl that unregisters a server with the kernel is only logged.\<close>

definition svc_unregister :: "SVCXPRT \<Rightarrow> u32 \<Rightarrow> u32 \<Rightarrow> SVCXPRT" where
  "svc_unregister xprt prog vers =
    (case svc_walk prog vers (servers xprt) of
       (_, []) \<Rightarrow> xprt
     | (before, found # after) \<Rightarrow>
         let xprt = xprt\<lparr>servers := before @ after\<rparr>
         in case s_xdr found of
              Some x \<Rightarrow>
                let xprt = (if \<not> is_callback_prog prog then xprt\<lparr>fdset := fdset xprt - {fd x}\<rparr> else xprt)
                in xprt\<lparr>num_servers := num_servers xprt - 1\<rparr>
            | None \<Rightarrow> xprt\<lparr>num_cb_servers := num_cb_servers xprt - 1\<rparr>)"

section \<open>Reset notification\<close>

definition svc_is_in_reset :: "SVCXPRT \<Rightarrow> int" where
  "svc_is_in_reset xprt = in_reset xprt"

definition svc_set_in_reset :: "SVCXPRT \<Rightarrow> int \<Rightarrow> SVCXPRT" where
  "svc_set_in_reset xprt v = xprt\<lparr>in_reset := v\<rparr>"

text \<open>The transport is an optional pointer here; the result is the C return value and the new state.\<close>

definition svc_register_reset_notification_cb :: "SVCXPRT option \<Rightarrow> nat option \<Rightarrow> int \<times> SVCXPRT option" where
  "svc_register_reset_notification_cb xprt cb =
    (case xprt of None \<Rightarrow> (1, None) | Some xp \<Rightarrow> (0, Some (xp\<lparr>reset_cb := cb\<rparr>)))"

definition svc_unregister_reset_notification_cb :: "SVCXPRT option \<Rightarrow> nat option \<times> SVCXPRT option" where
  "svc_unregister_reset_notification_cb xprt =
    (case xprt of None \<Rightarrow> (None, None) | Some xp \<Rightarrow> (reset_cb xp, Some (xp\<lparr>reset_cb := None\<rparr>)))"

text \<open>The calls \<open>svc_reset_cb\<close> makes to the registered function: none, or one with the event.\<close>

definition svc_reset_cb :: "SVCXPRT \<Rightarrow> nat \<Rightarrow> (nat \<times> nat) list" where
  "svc_reset_cb xprt event = (case reset_cb xprt of None \<Rightarrow> [] | Some cb \<Rightarrow> [(cb, event)])"

section \<open>Dispatching and replying\<close>

record svc_req =
  rq_prog :: u32
  rq_vers :: u32
  rq_proc :: u32

definition in_word :: "nat \<Rightarrow> xdr_struct \<Rightarrow> u32 option" where
  "in_word k x = get_in32 (4 * int (RPC_OFFSET + k)) x"

text \<open>
  \<open>handler\<close> is the server's dispatch routine: it gets the request and the entry and returns
  the entry afterwards. The first component of the result is the request that was handled.
\<close>

definition svc_dispatch ::
  "int \<Rightarrow> (svc_req \<Rightarrow> registered_server \<Rightarrow> registered_server option) \<Rightarrow> registered_server
     \<Rightarrow> (svc_req option \<times> registered_server) option" where
  "svc_dispatch pid handler svc =
    do { x \<leftarrow> s_xdr svc;
         prog \<leftarrow> in_word 3 x; vers \<leftarrow> in_word 4 x; proc \<leftarrow> in_word 5 x;
         ty \<leftarrow> in_word 1 x;
         if ty \<noteq> rpc_msg_code RPC_MSG_CALL then Some (None, svc)
         else if prog \<noteq> s_prog svc then Some (None, svc)
         else if vers \<noteq> x_vers x then Some (None, svc)
         else let req = \<lparr>rq_prog = prog, rq_vers = vers, rq_proc = proc\<rparr>;
                  svc = svc\<lparr>s_xdr := Some (x\<lparr>in_next := (int RPC_OFFSET + 6 + 4) * 4, x_op := XDR_DECODE\<rparr>),
                            s_active := Some pid\<rparr>
              in do { svc \<leftarrow> handler req svc; Some (Some req, svc\<lparr>s_active := Some 0\<rparr>) } }"

definition svc_getargs :: "'v xdrproc \<Rightarrow> 'v \<Rightarrow> registered_server \<Rightarrow> (bool \<times> 'v \<times> registered_server) option" where
  "svc_getargs xdr_args v serv =
    do { act \<leftarrow> s_active serv;
         if act \<noteq> 0
         then do { x \<leftarrow> s_xdr serv; (ok, v, x) \<leftarrow> xdr_args x v; (_, x) \<leftarrow> xdr_std_msg_done x;
                   Some (ok, v, serv\<lparr>s_xdr := Some x\<rparr>) }
         else Some (False, v, serv) }"

definition svc_freeargs :: "'v xdrproc \<Rightarrow> 'v \<Rightarrow> registered_server \<Rightarrow> (bool \<times> 'v \<times> registered_server) option" where
  "svc_freeargs xdr_args v serv =
    do { act \<leftarrow> s_active serv;
         if act \<noteq> 0
         then do { x \<leftarrow> s_xdr serv; (ok, v, x) \<leftarrow> xdr_args (x\<lparr>x_op := XDR_FREE\<rparr>) v;
                   Some (ok, v, serv\<lparr>s_xdr := Some x\<rparr>) }
         else Some (False, v, serv) }"

text \<open>The first four bytes of the outgoing message become those of the incoming one.\<close>

definition copy_xid :: "xdr_struct \<Rightarrow> xdr_struct" where
  "copy_xid x = x\<lparr>out_msg := (\<lambda>i. if 4 * RPC_OFFSET \<le> i \<and> i < 4 * RPC_OFFSET + 4 then in_msg x i else out_msg x i)\<rparr>"

text \<open>
  The verifier of a successful reply is a local variable with flavor \<open>AUTH_NONE\<close> and length 0;
  its uninitialised base pointer is not read. The result of the send is ignored.
\<close>

definition svc_sendreply ::
  "(int \<Rightarrow> bytes \<Rightarrow> int) \<Rightarrow> 'v xdrproc \<Rightarrow> 'v \<Rightarrow> registered_server \<Rightarrow> (bool \<times> registered_server) option" where
  "svc_sendreply r_write xdr_results v serv =
    do { act \<leftarrow> s_active serv;
         if act \<noteq> 0
         then do { x \<leftarrow> s_xdr serv;
                   (ok, x) \<leftarrow> xdr_reply_msg_start no_auth (x\<lparr>x_op := XDR_ENCODE\<rparr>);
                   if \<not> ok then Some (False, serv\<lparr>s_xdr := Some x\<rparr>)
                   else do { (ok, v, x) \<leftarrow> xdr_results x v;
                     if \<not> ok then Some (False, serv\<lparr>s_xdr := Some x\<rparr>)
                     else do { (_, x) \<leftarrow> xdr_std_msg_send r_write (copy_xid x);
                               Some (True, serv\<lparr>s_xdr := Some x\<rparr>) } } }
         else Some (False, serv) }"

definition SVCERR_XDR_SEND :: "(int \<Rightarrow> bytes \<Rightarrow> int) \<Rightarrow> rpc_reply_header \<Rightarrow> xdr_act" where
  "SVCERR_XDR_SEND r_write reply =
     seqM (xdr_std_msg_start RPC_MSG_REPLY) (seqM (xdr_send_reply_header reply) (xdr_std_msg_send r_write))"

definition svcerr :: "u32 \<Rightarrow> (int \<Rightarrow> bytes \<Rightarrow> int) \<Rightarrow> registered_server \<Rightarrow> registered_server option" where
  "svcerr stat r_write serv =
    do { act \<leftarrow> s_active serv;
         if act \<noteq> 0
         then do { x \<leftarrow> s_xdr serv;
                   (ok, x) \<leftarrow> SVCERR_XDR_SEND r_write
                     \<lparr>r_stat = RPC_MSG_ACCEPTED, r_u = AR \<lparr>ar_verf = verf x, ar_stat = stat, ar_u = Unset\<rparr>\<rparr> x;
                   (_, x) \<leftarrow> (if \<not> ok then xdr_std_msg_abort x else Some (True, x));
                   Some (serv\<lparr>s_xdr := Some x\<rparr>) }
         else Some serv }"

definition svcerr_decode :: "(int \<Rightarrow> bytes \<Rightarrow> int) \<Rightarrow> registered_server \<Rightarrow> registered_server option" where
  "svcerr_decode = svcerr RPC_GARBAGE_ARGS"

definition svcerr_systemerr :: "(int \<Rightarrow> bytes \<Rightarrow> int) \<Rightarrow> registered_server \<Rightarrow> registered_server option" where
  "svcerr_systemerr = svcerr RPC_SYSTEM_ERR"

definition svcerr_noproc :: "(int \<Rightarrow> bytes \<Rightarrow> int) \<Rightarrow> registered_server \<Rightarrow> registered_server option" where
  "svcerr_noproc = svcerr RPC_PROC_UNAVAIL"

section \<open>The server thread\<close>

text \<open>
  One pass over the descriptors that \<open>select\<close> reported. \<open>Abort\<close> is the \<open>abort()\<close> after a failed
  read. The first server of the list with that descriptor is read and dispatched.
\<close>

datatype 'a outcome = Abort | Cont 'a

fun serve_fd :: "(int \<Rightarrow> nat \<Rightarrow> int \<times> bytes) \<Rightarrow> int \<Rightarrow> (nat \<Rightarrow> svc_req \<Rightarrow> registered_server \<Rightarrow> registered_server option)
     \<Rightarrow> int \<Rightarrow> registered_server list \<Rightarrow> registered_server list outcome option" where
  "serve_fd r_read pid handler n [] = Some (Cont [])"
| "serve_fd r_read pid handler n (s # ss) =
    (case s_xdr s of
       Some x \<Rightarrow>
         if fd x = n
         then do { (ok, x) \<leftarrow> xdr_std_read r_read x;
                   if \<not> ok then Some Abort
                   else do { (_, s') \<leftarrow> svc_dispatch pid (handler (s_dispatch s)) (s\<lparr>s_xdr := Some x\<rparr>);
                             Some (Cont (s' # ss)) } }
         else map_option (\<lambda>r. case r of Abort \<Rightarrow> Abort | Cont ss' \<Rightarrow> Cont (s # ss')) (serve_fd r_read pid handler n ss)
     | None \<Rightarrow> map_option (\<lambda>r. case r of Abort \<Rightarrow> Abort | Cont ss' \<Rightarrow> Cont (s # ss')) (serve_fd r_read pid handler n ss))"

fun serve_fds :: "(int \<Rightarrow> nat \<Rightarrow> int \<times> bytes) \<Rightarrow> int \<Rightarrow> (nat \<Rightarrow> svc_req \<Rightarrow> registered_server \<Rightarrow> registered_server option)
     \<Rightarrow> int set \<Rightarrow> int list \<Rightarrow> registered_server list \<Rightarrow> registered_server list outcome option" where
  "serve_fds r_read pid handler rfds [] ss = Some (Cont ss)"
| "serve_fds r_read pid handler rfds (n # ns) ss =
    (if n \<in> rfds
     then do { r \<leftarrow> serve_fd r_read pid handler n ss;
               case r of Abort \<Rightarrow> Some Abort | Cont ss' \<Rightarrow> serve_fds r_read pid handler rfds ns ss' }
     else serve_fds r_read pid handler rfds ns ss)"

text \<open>
  The loop of \<open>svc_context\<close> over a sequence of results of \<open>select\<close>: the count it returns and
  the descriptors that are ready. It ends when there is no server left, or with the input.
\<close>

fun svc_context :: "(int \<Rightarrow> nat \<Rightarrow> int \<times> bytes) \<Rightarrow> int \<Rightarrow> (nat \<Rightarrow> svc_req \<Rightarrow> registered_server \<Rightarrow> registered_server option)
     \<Rightarrow> (int \<times> int set) list \<Rightarrow> SVCXPRT \<Rightarrow> SVCXPRT outcome option" where
  "svc_context r_read pid handler [] xprt = Some (Cont xprt)"
| "svc_context r_read pid handler ((n, rfds) # sel) xprt =
    (if num_servers xprt = 0 then Some (Cont xprt)
     else if n \<le> 0 then svc_context r_read pid handler sel xprt
     else do { r \<leftarrow> serve_fds r_read pid handler (rfds \<inter> fdset xprt) [0..max_fd xprt] (servers xprt);
               case r of Abort \<Rightarrow> Some Abort
               | Cont ss \<Rightarrow> svc_context r_read pid handler sel (xprt\<lparr>servers := ss\<rparr>) })"

section \<open>The transport\<close>

text \<open>Transports are numbered; \<open>xprts\<close> holds the ones that have been allocated and not freed.\<close>

record xprt_globals =
  the_xprt :: "nat option"
  xprt_refcount :: int
  xprts :: "nat \<rightharpoonup> SVCXPRT"

text \<open>\<open>p\<close> is the address \<open>calloc\<close> returns, \<open>None\<close> when it fails.\<close>

definition svcrtr_create :: "nat option \<Rightarrow> xprt_globals \<Rightarrow> nat option \<times> xprt_globals" where
  "svcrtr_create p g =
    (case the_xprt g of
       Some xp \<Rightarrow> (Some xp, g)
     | None \<Rightarrow> (case p of None \<Rightarrow> (None, g) | Some a \<Rightarrow> (Some a, g\<lparr>xprts := (xprts g)(a \<mapsto> new_xprt)\<rparr>)))"

definition svc_destroy :: "nat \<Rightarrow> xprt_globals \<Rightarrow> xprt_globals" where
  "svc_destroy xprt g = g"

definition xprt_register :: "nat option \<Rightarrow> xprt_globals \<Rightarrow> xprt_globals" where
  "xprt_register xprt g =
    (if the_xprt g = None \<or> (xprt \<noteq> None \<and> xprt = the_xprt g)
     then g\<lparr>xprt_refcount := xprt_refcount g + 1, the_xprt := xprt\<rparr> else g)"

definition xprt_unregister :: "nat option \<Rightarrow> xprt_globals \<Rightarrow> xprt_globals" where
  "xprt_unregister xprt g =
    (case xprt of
       None \<Rightarrow> g
     | Some a \<Rightarrow>
        if xprt = the_xprt g
        then if xprt_refcount g = 1
             then g\<lparr>xprt_refcount := 0, xprts := (xprts g)(a := None), the_xprt := None\<rparr>
             else g\<lparr>xprt_refcount := xprt_refcount g - 1\<rparr>
        else g)"


section \<open>The invariant of the server list\<close>

definition svc_key :: "registered_server \<Rightarrow> u32 \<times> u32" where
  "svc_key s = (s_prog s, s_vers s)"

definition real_fds :: "registered_server list \<Rightarrow> int list" where
  "real_fds ss = map (\<lambda>s. fd (the (s_xdr s))) (filter (\<lambda>s. s_xdr s \<noteq> None) ss)"

text \<open>
  One entry per program and version; an entry has a handle exactly if it is a real server,
  and the handle carries its numbers; descriptors are not shared; the descriptor set is the
  set of the servers' descriptors, all within \<open>max_fd\<close>; the two counters count.
\<close>

definition server_ok :: "registered_server \<Rightarrow> bool" where
  "server_ok s \<longleftrightarrow> (case s_xdr s of
      None \<Rightarrow> is_callback_prog (s_prog s)
    | Some x \<Rightarrow> \<not> is_callback_prog (s_prog s) \<and> x_prog x = s_prog s \<and> x_vers x = s_vers s \<and> xdr_inv x)"

definition svc_inv :: "SVCXPRT \<Rightarrow> bool" where
  "svc_inv xp \<longleftrightarrow> distinct (map svc_key (servers xp)) \<and> (\<forall>s \<in> set (servers xp). server_ok s) \<and>
     distinct (real_fds (servers xp)) \<and> fdset xp = set (real_fds (servers xp)) \<and>
     (\<forall>n \<in> fdset xp. 0 \<le> n \<and> n \<le> max_fd xp \<and> n < FD_SETSIZE) \<and>
     num_servers xp = int (length (real_fds (servers xp))) \<and>
     num_servers xp + num_cb_servers xp = int (length (servers xp))"

lemma svc_inv_new: "svc_inv new_xprt"
  by (simp add: svc_inv_def new_xprt_def real_fds_def)

lemma real_fds_simps [simp]:
  "real_fds [] = []"
  "real_fds (s # ss) = (case s_xdr s of None \<Rightarrow> real_fds ss | Some x \<Rightarrow> fd x # real_fds ss)"
  "real_fds (ss @ ts) = real_fds ss @ real_fds ts"
  by (auto simp: real_fds_def split: option.splits)

lemma svc_walk_append: "svc_walk prog vers ss = (b, r) \<Longrightarrow> ss = b @ r"
  by (induction ss arbitrary: b) (auto split: if_splits prod.splits)

lemma svc_walk_found:
  "svc_walk prog vers ss = (b, s # r) \<Longrightarrow> svc_key s = (prog, vers) \<and> (prog, vers) \<notin> svc_key ` set b"
  by (induction ss arbitrary: b) (auto simp: svc_key_def split: if_splits prod.splits)

lemma svc_walk_missing: "snd (svc_walk prog vers ss) = [] \<longleftrightarrow> (prog, vers) \<notin> svc_key ` set ss"
  by (induction ss) (auto simp: svc_key_def split: prod.splits)

lemma svc_find_iff:
  assumes "distinct (map svc_key (servers xp))"
  shows "svc_find xp p v = Some s \<longleftrightarrow> s \<in> set (servers xp) \<and> svc_key s = (p, v)"
proof -
  obtain b r where w: "svc_walk p v (servers xp) = (b, r)" by (cases "svc_walk p v (servers xp)")
  note e = svc_walk_append [OF w]
  show ?thesis
  proof (cases r)
    case Nil
    then have "(p, v) \<notin> svc_key ` set (servers xp)" using w svc_walk_missing [of p v "servers xp"] by simp
    with Nil w show ?thesis by (auto simp: svc_find_def svc_find_nosync_def image_iff)
  next
    case (Cons t r')
    with w have t: "svc_key t = (p, v)" "(p, v) \<notin> svc_key ` set b" using svc_walk_found by auto
    have "svc_key ` set r' \<inter> {svc_key t} = {}" using assms e Cons by auto
    with t e Cons w show ?thesis by (auto simp: svc_find_def svc_find_nosync_def image_iff)
  qed
qed

lemma svc_find_None: "svc_find xp p v = None \<longleftrightarrow> (p, v) \<notin> svc_key ` set (servers xp)"
  using svc_walk_missing [of p v "servers xp"]
  by (auto simp: svc_find_def svc_find_nosync_def split: list.splits)

lemma link_server_fields [simp]:
  "servers (link_server s xp) = s # servers xp" "fdset (link_server s xp) = fdset xp"
  "max_fd (link_server s xp) = max_fd xp"
  "num_servers (link_server s xp) = num_servers xp + (if s_xdr s = None then 0 else 1)"
  "num_cb_servers (link_server s xp) = num_cb_servers xp + (if s_xdr s = None then 1 else 0)"
  by (auto simp: link_server_def Let_def)

text \<open>What the kernel promises: a new descriptor is not in use, and \<open>select\<close> can watch it.\<close>

definition kernel_ok :: "svc_env \<Rightarrow> SVCXPRT \<Rightarrow> bool" where
  "kernel_ok env xp \<longleftrightarrow> env_alloc env \<and>
     (let n = env_open env ''00000000:0'' in n < 0 \<or> (n \<notin> fdset xp \<and> n < FD_SETSIZE))"

definition grants :: "svc_env \<Rightarrow> SVCXPRT \<Rightarrow> u32 \<Rightarrow> u32 \<Rightarrow> bool" where
  "grants env xp prog vers \<longleftrightarrow> is_callback_prog prog \<or>
     (let n = env_open env ''00000000:0'' in 0 \<le> n \<and> 0 \<le> env_register env n prog vers)"

lemma svc_register_cases:
  assumes "svc_inv xp" and "kernel_ok env xp"
  obtains (present) s where "svc_find xp prog vers = Some s"
      "svc_register env xp prog vers d = Some (s_dispatch s = d, xp)"
  | (refused) "svc_find xp prog vers = None" "\<not> grants env xp prog vers"
      "svc_register env xp prog vers d = Some (False, xp)"
  | (added) s xp' where "svc_find xp prog vers = None" "grants env xp prog vers"
      "svc_register env xp prog vers d = Some (True, xp')" "servers xp' = s # servers xp"
      "svc_key s = (prog, vers)" "s_dispatch s = d" "svc_inv xp'"
proof (cases "svc_find xp prog vers")
  case (Some s)
  then show ?thesis by (intro present [of s]) (auto simp: svc_register_def svc_find_def)
next
  case None
  then have key: "(prog, vers) \<notin> svc_key ` set (servers xp)" by (simp add: svc_find_None)
  have al: "env_alloc env" using assms(2) by (simp add: kernel_ok_def)
  show ?thesis
  proof (cases "is_callback_prog prog")
    case True
    let ?s = "\<lparr>s_xdr = None, s_prog = prog, s_vers = vers, s_active = None, s_dispatch = d\<rparr>"
    show ?thesis
    proof (rule added [of "link_server ?s xp" ?s])
      show "svc_register env xp prog vers d = Some (True, link_server ?s xp)"
        using None al True by (simp add: svc_register_def svc_find_def Let_def)
      show "svc_inv (link_server ?s xp)"
        using assms(1) key True by (auto simp: svc_inv_def svc_key_def server_ok_def)
    qed (use None True in \<open>auto simp: grants_def svc_key_def\<close>)
  next
    case False
    let ?n = "env_open env ''00000000:0''"
    show ?thesis
    proof (cases "0 \<le> ?n \<and> 0 \<le> env_register env ?n prog vers")
      case False
      with \<open>\<not> is_callback_prog prog\<close> show ?thesis
        using None al by (intro refused)
          (auto simp: svc_register_def svc_find_def Let_def xdr_init_common_def grants_def)
    next
      case True
      let ?x = "zero_xdr\<lparr>fd := ?n, is_client := 0, x_prog := prog, x_vers := vers\<rparr>"
      let ?s = "\<lparr>s_xdr = Some ?x, s_prog = prog, s_vers = vers, s_active = None, s_dispatch = d\<rparr>"
      let ?xp = "xp\<lparr>fdset := insert ?n (fdset xp), max_fd := (if ?n > max_fd xp then ?n else max_fd xp)\<rparr>"
      have n: "?n \<notin> fdset xp" "?n < FD_SETSIZE" using True assms(2) by (auto simp: kernel_ok_def Let_def)
      show ?thesis
      proof (rule added [of "link_server ?s ?xp" ?s])
        show "svc_register env xp prog vers d = Some (True, link_server ?s ?xp)"
          using None al True False n
          by (auto simp: svc_register_def svc_find_def Let_def xdr_init_common_def FD_SET_def)
        have "xdr_inv ?x" by (simp add: xdr_inv_def zero_xdr_def)
        then show "svc_inv (link_server ?s ?xp)"
          using assms(1) key False True n by (auto simp: svc_inv_def svc_key_def server_ok_def) force
      qed (use None True in \<open>auto simp: grants_def svc_key_def Let_def\<close>)
    qed
  qed
qed

lemma svc_unregister_inv:
  assumes "svc_inv xp"
  shows "svc_inv (svc_unregister xp prog vers)"
    and "set (servers (svc_unregister xp prog vers)) = {s \<in> set (servers xp). svc_key s \<noteq> (prog, vers)}"
proof -
  obtain b r where w: "svc_walk prog vers (servers xp) = (b, r)" by (cases "svc_walk prog vers (servers xp)")
  note e = svc_walk_append [OF w]
  have d: "distinct (map svc_key (b @ r))" using assms e by (simp add: svc_inv_def)
  have "svc_inv (svc_unregister xp prog vers) \<and>
     set (servers (svc_unregister xp prog vers)) = {s \<in> set (servers xp). svc_key s \<noteq> (prog, vers)}"
  proof (cases r)
    case Nil
    then have "(prog, vers) \<notin> svc_key ` set (servers xp)" using w svc_walk_missing [of prog vers "servers xp"] by simp
    with Nil w assms show ?thesis by (auto simp: svc_unregister_def image_iff)
  next
    case (Cons t r')
    with w have t: "svc_key t = (prog, vers)" using svc_walk_found by auto
    then have sp: "s_prog t = prog" by (simp add: svc_key_def)
    have st: "set (servers (svc_unregister xp prog vers)) = set b \<union> set r'"
      using w Cons by (auto simp: svc_unregister_def Let_def split: option.splits)
    have "set b \<union> set r' = {s \<in> set (servers xp). svc_key s \<noteq> (prog, vers)}"
      using d t Cons e by (auto simp: image_iff)
    moreover have "svc_inv (svc_unregister xp prog vers)"
    proof (cases "s_xdr t")
      case None
      then show ?thesis using assms w Cons e by (auto simp: svc_unregister_def svc_inv_def)
    next
      case (Some x)
      then have "\<not> is_callback_prog prog" using assms e Cons sp by (auto simp: svc_inv_def server_ok_def)
      then show ?thesis using assms w Cons e Some by (auto simp: svc_unregister_def svc_inv_def Let_def)
    qed
    ultimately show ?thesis using st by simp
  qed
  then show "svc_inv (svc_unregister xp prog vers)"
    and "set (servers (svc_unregister xp prog vers)) = {s \<in> set (servers xp). svc_key s \<noteq> (prog, vers)}"
    by auto
qed


section \<open>The server list as a registry\<close>

definition svc_lookup :: "SVCXPRT \<Rightarrow> u32 \<times> u32 \<Rightarrow> nat option" where
  "svc_lookup xp k = map_option s_dispatch (svc_find xp (fst k) (snd k))"

definition svc_put :: "SVCXPRT \<Rightarrow> u32 \<times> u32 \<Rightarrow> svc_env \<times> nat \<Rightarrow> SVCXPRT" where
  "svc_put xp k v = snd (the (svc_register (fst v) xp (fst k) (snd k) (snd v)))"

definition svc_del :: "SVCXPRT \<Rightarrow> u32 \<times> u32 \<Rightarrow> SVCXPRT" where
  "svc_del xp k = svc_unregister xp (fst k) (snd k)"

definition svc_granted :: "SVCXPRT \<Rightarrow> u32 \<times> u32 \<Rightarrow> svc_env \<times> nat \<Rightarrow> bool" where
  "svc_granted xp k v \<longleftrightarrow> kernel_ok (fst v) xp \<and> grants (fst v) xp (fst k) (snd k)"

lemma svc_inv_distinct: "svc_inv xp \<Longrightarrow> distinct (map svc_key (servers xp))"
  by (simp add: svc_inv_def)

lemma svc_find_added:
  assumes "svc_inv xp'" and "servers xp' = s # servers xp" and "svc_inv xp" and "svc_key s = (prog, vers)"
  shows "svc_find xp' p v = (if (p, v) = (prog, vers) then Some s else svc_find xp p v)"
proof (cases "svc_find xp' p v")
  case None
  then show ?thesis using assms svc_find_None [of xp p v] svc_find_None [of xp' p v] by auto
next
  case (Some t)
  then show ?thesis
    using assms svc_find_iff [OF svc_inv_distinct [OF assms(1)], of p v t]
      svc_find_iff [OF svc_inv_distinct [OF assms(3)], of p v t] svc_inv_distinct [OF assms(1)]
    by (auto simp: image_iff)
qed

lemma svc_find_removed:
  assumes "svc_inv xp"
  shows "svc_find (svc_unregister xp prog vers) p v = (if (p, v) = (prog, vers) then None else svc_find xp p v)"
proof -
  note u = svc_unregister_inv [OF assms, of prog vers]
  have "svc_find (svc_unregister xp prog vers) p v = Some s
      \<longleftrightarrow> (p, v) \<noteq> (prog, vers) \<and> svc_find xp p v = Some s" for s
    unfolding svc_find_iff [OF svc_inv_distinct [OF u(1)]] svc_find_iff [OF svc_inv_distinct [OF assms]] u(2)
    by auto
  then show ?thesis by (metis not_None_eq)
qed

interpretation svc_reg: registry svc_inv svc_lookup svc_put svc_del svc_granted snd
proof
  fix xp :: SVCXPRT and k :: "u32 \<times> u32" and v :: "svc_env \<times> nat" and k' :: "u32 \<times> u32"
  assume inv: "svc_inv xp"
  show "svc_inv (svc_del xp k)"
    using inv by (simp add: svc_del_def svc_unregister_inv)
  show "svc_lookup (svc_del xp k) k' = (if k' = k then None else svc_lookup xp k')"
    using inv by (cases k; cases k') (auto simp: svc_lookup_def svc_del_def svc_find_removed)
  assume ok: "svc_granted xp k v"
  then have ko: "kernel_ok (fst v) xp" by (simp add: svc_granted_def)
  show "svc_inv (svc_put xp k v)"
    using inv ko by (cases rule: svc_register_cases [where prog = "fst k" and vers = "snd k" and d = "snd v"])
      (auto simp: svc_put_def inv)
  show "svc_lookup (svc_put xp k v) k'
      = (if k' = k \<and> svc_lookup xp k = None then Some (snd v) else svc_lookup xp k')"
    using inv ko
  proof (cases rule: svc_register_cases [where prog = "fst k" and vers = "snd k" and d = "snd v"])
    case (added s xp')
    then show ?thesis
      using svc_find_added [OF added(7,4) inv added(5), of "fst k'" "snd k'"]
      by (auto simp: svc_put_def svc_lookup_def prod_eq_iff)
  qed (use ok in \<open>auto simp: svc_put_def svc_lookup_def svc_granted_def\<close>)
qed

section \<open>Reading a request and writing a reply\<close>

definition holds_msg :: "bytes \<Rightarrow> xdr_struct \<Rightarrow> bool" where
  "holds_msg bs x \<longleftrightarrow> length bs \<le> 18432 \<and> (\<forall>i < length bs. in_msg x i = bs ! i)"

lemma length_words: "length (concat (map be32 ws)) = 4 * length ws"
  by (induction ws) auto

lemma nth_words: "k < length ws \<Longrightarrow> j < 4 \<Longrightarrow> (concat (map be32 ws) @ rest) ! (4 * k + j) = be32 (ws ! k) ! j"
proof (induction ws arbitrary: k)
  case Nil
  then show ?case by simp
next
  case (Cons w ws)
  then show ?case by (cases k) (simp_all add: nth_append [of "be32 w"])
qed

lemma in_word_at:
  assumes "holds_msg (concat (map be32 ws) @ rest) x" and "k < length ws"
  shows "in_word k x = Some (ws ! k)"
proof -
  have b: "in_msg x (4 * k + j) = be32 (ws ! k) ! j" if "j < 4" for j
    using assms that nth_words [of k ws j rest] by (simp add: holds_msg_def length_words)
  have "4 * k + 4 \<le> 18432" using assms by (simp add: holds_msg_def length_words)
  then show ?thesis
    using b [of 0] b [of 1] b [of 2] b [of 3]
    by (simp add: in_word_def get_in32_def get_in_def be32_def nat_add_distrib nat_mult_distrib add.commute)
qed

lemma xdr_std_read_ok:
  assumes "r_read (fd x) 18432 = (int (length bs), bs)" and "8 \<le> length bs" and "length bs \<le> 18432"
  shows "\<exists>y. xdr_std_read r_read x = Some (True, y) \<and> holds_msg bs y \<and> in_len y = int (length bs) \<and> in_next y = 8
     \<and> y = x\<lparr>in_msg := in_msg y, in_len := in_len y, in_next := 8\<rparr>"
  using assms by (auto simp: xdr_std_read_def holds_msg_def store_in_def)


text \<open>A call message is handled exactly if its program and version are the server's.\<close>

definition prepared :: "int \<Rightarrow> registered_server \<Rightarrow> xdr_struct \<Rightarrow> registered_server" where
  "prepared pid svc x = svc\<lparr>s_xdr := Some (x\<lparr>in_next := 40, x_op := XDR_DECODE\<rparr>), s_active := Some pid\<rparr>"

lemma svc_dispatch_ok:
  assumes "s_xdr svc = Some x" and "holds_msg (call_header i prog vers proc @ rest) x"
  shows "svc_dispatch pid handler svc =
    (if prog = s_prog svc \<and> vers = x_vers x
     then do { svc' \<leftarrow> handler \<lparr>rq_prog = prog, rq_vers = vers, rq_proc = proc\<rparr> (prepared pid svc x);
               Some (Some \<lparr>rq_prog = prog, rq_vers = vers, rq_proc = proc\<rparr>, svc'\<lparr>s_active := Some 0\<rparr>) }
     else Some (None, svc))"
proof -
  let ?ws = "[i, 0, 2, prog, vers, proc, 0, 0, 0, 0]"
  have w: "in_word k x = Some (?ws ! k)" if "k < 10" for k
    using in_word_at [of ?ws rest x k] assms(2) that by (simp add: call_header_def)
  show ?thesis
    using assms(1) w [of 1] w [of 3] w [of 4] w [of 5] by (simp add: svc_dispatch_def prepared_def Let_def)
qed

text \<open>A successful reply: the header with the transaction id of the request, then the results.\<close>

lemma out_bytes_copy_xid:
  assumes "holds_msg (be32 i @ rest) x" and "4 \<le> out_next x"
  shows "out_bytes (copy_xid x) = be32 i @ drop 4 (out_bytes x)"
proof (rule nth_equalityI)
  show "length (out_bytes (copy_xid x)) = length (be32 i @ drop 4 (out_bytes x))"
    using assms(2) by (simp add: out_bytes_def copy_xid_def)
next
  fix k
  assume "k < length (out_bytes (copy_xid x))"
  then have k: "k < nat (out_next x)" by (simp add: out_bytes_def copy_xid_def)
  have "in_msg x k = be32 i ! k" if "k < 4"
    using assms(1) that by (simp add: holds_msg_def nth_append)
  then show "out_bytes (copy_xid x) ! k = (be32 i @ drop 4 (out_bytes x)) ! k"
    using k assms(2) by (auto simp: out_bytes_def copy_xid_def nth_append)
qed

lemma seqM_assoc: "seqM f (seqM g h) = seqM (seqM f g) h"
proof (rule ext)
  show "seqM f (seqM g h) x = seqM (seqM f g) h x" for x
    by (cases "f x") (auto simp: seqM_def)
qed

lemma svc_sendreply_ok:
  assumes f: "xdr_filter proc enc good ready" and "good v" and "s_active serv = Some pid" and "pid \<noteq> 0"
    and "s_xdr serv = Some x" and inv: "xdr_inv x" and room: "length (enc v) + 24 \<le> 18432"
    and msg: "holds_msg (be32 i @ rest) x"
  obtains y where "svc_sendreply r_write proc v serv = Some (True, serv\<lparr>s_xdr := Some y\<rparr>)"
    and "out_bytes y = success_header i @ enc v" and "xdr_inv y" and "xdr_err y = r_write (fd x) (out_bytes y)"
proof -
  let ?x0 = "x\<lparr>x_op := XDR_ENCODE\<rparr>"
  let ?x1 = "append_out (success_header (xid x)) (started RPC_MSG_REPLY ?x0)"
  let ?x2 = "append_out (enc v) ?x1"
  let ?y = "(copy_xid ?x2)\<lparr>xdr_err := r_write (fd x) (out_bytes (copy_xid ?x2))\<rparr>"
  have inv0: "xdr_inv ?x0" using inv by (simp add: xdr_inv_def)
  have len: "length (success_header j) = 24" for j by (simp add: success_header_def)
  have inv1: "xdr_inv ?x1"
    using inv0 by (intro xdr_inv_append_out xdr_inv_started) (simp_all add: fits_def len)
  have fits: "fits (length (enc v)) ?x1" using room by (simp add: fits_def len)
  have p: "proc ?x1 v = Some (True, v, ?x2)"
    using xdr_filter.encode_ok [OF f assms(2) inv1 _ fits] by simp
  have inv2: "xdr_inv ?x2"
    by (rule xdr_inv_append_out [OF inv1 fits xdr_filter.enc_aligned [OF f assms(2)]])
  have m2: "holds_msg (be32 i @ rest) ?x2" using msg by (simp add: holds_msg_def)
  have "out_bytes ?x2 = success_header (xid x) @ enc v" by (simp add: out_bytes_append_out len)
  moreover have "out_bytes (copy_xid ?x2) = be32 i @ drop 4 (out_bytes ?x2)"
    using m2 by (intro out_bytes_copy_xid) (simp_all add: len)
  ultimately have ob: "out_bytes (copy_xid ?x2) = success_header i @ enc v"
    by (simp add: success_header_def)
  have r: "svc_sendreply r_write proc v serv = Some (True, serv\<lparr>s_xdr := Some ?y\<rparr>)"
    using assms(3-5) p reply_msg_start_ok [OF inv0]
    by (simp add: svc_sendreply_def xdr_std_msg_send_def Let_def) (simp add: copy_xid_def)
  show thesis
  proof (rule that [OF r])
    show "out_bytes ?y = success_header i @ enc v" "xdr_err ?y = r_write (fd x) (out_bytes ?y)"
      using ob by (simp_all add: out_bytes_def)
    show "xdr_inv ?y" using inv2 by (simp add: xdr_inv_def copy_xid_def)
  qed
qed

section \<open>Properties\<close>

text \<open>
  C25. The server list is a finite map: after any history of registrations that the kernel
  grants and unregistrations, starting from a new transport, the invariant of the list
  holds and \<open>svc_find\<close> returns for every program and version what the same history makes of
  a map in which a second registration of a key changes nothing.
\<close>

theorem svc_registry_refines_map:
  assumes "svc_reg.run_ok ops new_xprt"
  shows "svc_inv (fold svc_reg.step ops new_xprt) \<and>
    (\<forall>k. map_option s_dispatch (svc_find (fold svc_reg.step ops new_xprt) (fst k) (snd k))
       = fold svc_reg.spec_step ops Map.empty k)"
proof -
  have "svc_lookup new_xprt = Map.empty"
    by (simp add: fun_eq_iff svc_lookup_def svc_find_def svc_find_nosync_def new_xprt_def)
  then show ?thesis
    using svc_reg.run_refines [OF svc_inv_new assms] by (simp add: svc_lookup_def [symmetric])
qed

definition demo_env :: "int \<Rightarrow> svc_env" where
  "demo_env n = \<lparr>env_alloc = True, env_open = (\<lambda>_. n), env_register = (\<lambda>_ _ _. 0)\<rparr>"

theorem svc_registry_refines_map_witness:
  "svc_inv (fold svc_reg.step [Put (0x30000001, 1) (demo_env 7, 11), Put (0x31000001, 1) (demo_env 8, 12),
       Del (0x30000001, 1)] new_xprt) \<and>
    (\<forall>k. map_option s_dispatch (svc_find (fold svc_reg.step [Put (0x30000001, 1) (demo_env 7, 11),
         Put (0x31000001, 1) (demo_env 8, 12), Del (0x30000001, 1)] new_xprt) (fst k) (snd k))
       = fold svc_reg.spec_step [Put (0x30000001, 1) (demo_env 7, 11),
         Put (0x31000001, 1) (demo_env 8, 12), Del (0x30000001, 1)] Map.empty k)"
  by (rule svc_registry_refines_map)
    (simp add: svc_granted_def kernel_ok_def grants_def demo_env_def new_xprt_def svc_put_def svc_register_def
      svc_find_nosync_def is_callback_prog_def xdr_init_common_def FD_SET_def link_server_def zero_xdr_def)

text \<open>
  Every outcome of a registration, for a transport that satisfies the invariant and a
  kernel that hands out unused descriptors: a second registration leaves the transport
  alone and reports whether the dispatch routine is the same; a refused one leaves it
  alone and fails; otherwise the server is found afterwards with its routine, every other
  lookup is unchanged, the invariant holds, and the counters have moved.
\<close>

theorem svc_register_spec:
  assumes "svc_inv xp" and "kernel_ok env xp"
  shows "\<exists>r xp'. svc_register env xp prog vers d = Some (r, xp') \<and> svc_inv xp' \<and>
     (case svc_find xp prog vers of
        Some s \<Rightarrow> xp' = xp \<and> r = (s_dispatch s = d)
      | None \<Rightarrow>
         if grants env xp prog vers
         then r \<and> map_option s_dispatch (svc_find xp' prog vers) = Some d \<and>
              (\<forall>p v. (p, v) \<noteq> (prog, vers) \<longrightarrow> svc_find xp' p v = svc_find xp p v) \<and>
              num_servers xp' + num_cb_servers xp' = num_servers xp + num_cb_servers xp + 1
         else \<not> r \<and> xp' = xp)"
  using assms
proof (cases rule: svc_register_cases [where prog = prog and vers = vers and d = d])
  case (added s xp')
  have "num_servers xp' + num_cb_servers xp' = num_servers xp + num_cb_servers xp + 1"
    using added(4,7) assms(1) by (simp add: svc_inv_def)
  then show ?thesis using added svc_find_added [OF added(7,4) assms(1) added(5)] by auto
qed (use assms in auto)

theorem svc_register_spec_witness:
  "\<exists>r xp'. svc_register (demo_env 7) new_xprt 0x30000001 1 5 = Some (r, xp') \<and> svc_inv xp' \<and>
     (case svc_find new_xprt 0x30000001 1 of
        Some s \<Rightarrow> xp' = new_xprt \<and> r = (s_dispatch s = 5)
      | None \<Rightarrow>
         if grants (demo_env 7) new_xprt 0x30000001 1
         then r \<and> map_option s_dispatch (svc_find xp' 0x30000001 1) = Some 5 \<and>
              (\<forall>p v. (p, v) \<noteq> (0x30000001, 1) \<longrightarrow> svc_find xp' p v = svc_find new_xprt p v) \<and>
              num_servers xp' + num_cb_servers xp' = num_servers new_xprt + num_cb_servers new_xprt + 1
         else \<not> r \<and> xp' = new_xprt)"
  by (rule svc_register_spec) (rule svc_inv_new, simp add: kernel_ok_def demo_env_def new_xprt_def)

text \<open>
  The thread count: registering a callback client while exactly one real server is
  registered starts a second server thread, although \<open>svc_context\<close> is already running for
  that server. The test is on \<open>num_servers\<close>, which the callback client does not change.
\<close>

theorem second_server_thread:
  assumes "num_servers xp = 1" and "is_callback_prog prog" and "svc_find xp prog vers = None" and "env_alloc env"
  shows "\<exists>xp'. svc_register env xp prog vers d = Some (True, xp') \<and> num_servers xp' = 1 \<and>
     svc_threads xp' = svc_threads xp + 1"
  using assms by (simp add: svc_register_def svc_find_def Let_def link_server_def)

theorem second_server_thread_witness:
  "\<exists>xp'. svc_register (demo_env 8) (new_xprt\<lparr>num_servers := 1, svc_threads := 1\<rparr>) 0x31000001 1 5 = Some (True, xp') \<and>
     num_servers xp' = 1 \<and> svc_threads xp' = svc_threads (new_xprt\<lparr>num_servers := 1, svc_threads := 1\<rparr>) + 1"
  by (rule second_server_thread)
    (simp_all add: is_callback_prog_def svc_find_def svc_find_nosync_def new_xprt_def demo_env_def)

text \<open>
  Error replies (\<open>svcerr_decode\<close>, \<open>svcerr_systemerr\<close>, \<open>svcerr_noproc\<close>) carry the
  transaction id of the server's own handle, whatever the id of the request: only
  \<open>svc_sendreply\<close> copies it. The message is otherwise a well-formed accepted reply with
  the error status.
\<close>

theorem svcerr_reply_xid:
  assumes "s_active serv = Some pid" and "pid \<noteq> 0" and "s_xdr serv = Some x" and "xdr_inv x"
    and "verf x = no_auth" and "stat \<in> {RPC_PROC_UNAVAIL, RPC_GARBAGE_ARGS, RPC_SYSTEM_ERR}"
  shows "\<exists>y. svcerr stat r_write serv = Some (serv\<lparr>s_xdr := Some y\<rparr>) \<and> xdr_inv y \<and>
     out_bytes y = concat (map be32 [xid x, 1, 0, 0, 0, stat])"
proof -
  let ?r = "\<lparr>r_stat = 0, r_u = AR \<lparr>ar_verf = no_auth, ar_stat = stat, ar_u = Unset\<rparr>\<rparr>"
  let ?h = "be32 (xid x) @ be32 1 @ reply_bytes ?r"
  let ?x = "append_out ?h (started RPC_MSG_REPLY x)"
  have "good_reply ?r" using assms(6)
    by (auto simp: good_reply_def good_accepted_def no_auth_def)
  then have s: "sends (xdr_send_reply_header ?r) (reply_bytes ?r)" by (rule sends_reply)
  have len: "length (reply_bytes ?r) = 16" by (simp add: reply_bytes_def auth_bytes_def)
  have start: "seqM (xdr_std_msg_start RPC_MSG_REPLY) (xdr_send_reply_header ?r) x = Some (True, ?x)"
    using sends_after_start [OF assms(4) s, of RPC_MSG_REPLY] len by simp
  have inv: "xdr_inv ?x"
    using assms(4) by (intro xdr_inv_append_out xdr_inv_started) (simp_all add: fits_def len)
  have ob: "out_bytes ?x = concat (map be32 [xid x, 1, 0, 0, 0, stat])"
    by (simp add: out_bytes_append_out) (simp add: reply_bytes_def auth_bytes_def no_auth_def)
  have "SVCERR_XDR_SEND r_write ?r x = xdr_std_msg_send r_write ?x"
    unfolding SVCERR_XDR_SEND_def seqM_assoc using start by (simp add: seqM_def [of _ "xdr_std_msg_send r_write"])
  then show ?thesis
    using assms(1-3,5) inv ob
    by (auto simp: svcerr_def xdr_std_msg_send_def xdr_std_msg_abort_def Let_def out_bytes_def xdr_inv_def)
qed

theorem svcerr_reply_xid_witness:
  "\<exists>y. svcerr 3 (\<lambda>_ bs. int (length bs))
       \<lparr>s_xdr = Some zero_xdr, s_prog = 1, s_vers = 1, s_active = Some 1, s_dispatch = 0\<rparr>
     = Some (\<lparr>s_xdr = Some zero_xdr, s_prog = 1, s_vers = 1, s_active = Some 1, s_dispatch = 0\<rparr>\<lparr>s_xdr := Some y\<rparr>)
     \<and> xdr_inv y \<and> out_bytes y = concat (map be32 [xid zero_xdr, 1, 0, 0, 0, 3])"
  by (rule svcerr_reply_xid [where pid = 1]) (simp_all add: xdr_inv_def zero_xdr_def no_auth_def)

end
