(* ===== verification/Clnt.thy ===== *)
theory Clnt
  imports Svc "HOL-Library.Multiset"
begin

text \<open>
  The client side of librpc, \<^verbatim>\<open>gps/librpc/clnt.c\<close>: a blocking call, the receive thread that reads
  replies and callbacks for every client, the callback thread, and the global list of
  clients. What the code does between taking and releasing its locks is one step; what other
  threads do while a call waits for its reply is a parameter of the call.
\<close>

section \<open>Data\<close>

record CLIENT =
  c_xdr :: xdr_struct
  input_xdr_busy :: int
  got_cb :: int
  cb_stop :: int
  c_in_reset :: int
  c_reset_cb :: "nat option"

text \<open>The values of \<open>enum clnt_stat\<close> that the client returns itself.\<close>

abbreviation (input) RPC_SUCCESS :: int where "RPC_SUCCESS \<equiv> 0"
abbreviation (input) RPC_CANTENCODEARGS :: int where "RPC_CANTENCODEARGS \<equiv> 1"
abbreviation (input) RPC_CANTDECODERES :: int where "RPC_CANTDECODERES \<equiv> 2"
abbreviation (input) RPC_CANTSEND :: int where "RPC_CANTSEND \<equiv> 3"
abbreviation (input) RPC_CANTRECV :: int where "RPC_CANTRECV \<equiv> 4"
abbreviation (input) RPC_VERSMISMATCH :: int where "RPC_VERSMISMATCH \<equiv> 6"
abbreviation (input) RPC_AUTHERROR :: int where "RPC_AUTHERROR \<equiv> 7"
abbreviation (input) RPC_SUBSYSTEM_RESTART :: int where "RPC_SUBSYSTEM_RESTART \<equiv> 26"
abbreviation (input) ENETRESET :: int where "ENETRESET \<equiv> 102"

section \<open>A call\<close>

text \<open>The comparison of the first words of the two messages, in the byte order of the network.\<close>

definition same_xid :: "xdr_struct \<Rightarrow> bool" where
  "same_xid x \<longleftrightarrow> map (out_msg x) [4 * RPC_OFFSET..<4 * RPC_OFFSET + 4] = map (in_msg x) [4 * RPC_OFFSET..<4 * RPC_OFFSET + 4]"

text \<open>The label \<open>out_unlock\<close>: the input buffer is free again.\<close>

definition out_unlock :: "int \<Rightarrow> 'r \<Rightarrow> CLIENT \<Rightarrow> (int \<times> 'r \<times> CLIENT) option" where
  "out_unlock ret rv c = Some (ret, rv, c\<lparr>input_xdr_busy := 0\<rparr>)"

text \<open>\<open>clnt_call\<close> from the return of \<open>pthread_cond_wait\<close> on.\<close>

definition clnt_receive :: "'r xdrproc \<Rightarrow> 'r \<Rightarrow> CLIENT \<Rightarrow> (int \<times> 'r \<times> CLIENT) option" where
  "clnt_receive xdr_results rv c =
    (if c_in_reset c \<noteq> 0 then out_unlock RPC_SUBSYSTEM_RESTART rv c
     else if \<not> same_xid (c_xdr c) then out_unlock RPC_CANTRECV rv c
     else do {
       (hdr, x) \<leftarrow> xdr_recv_reply_header (c_xdr c);
       let c = c\<lparr>c_xdr := x\<rparr>
       in case hdr of
            None \<Rightarrow> out_unlock RPC_CANTRECV rv c
          | Some h \<Rightarrow>
             (case r_u h of
                DR dr \<Rightarrow> out_unlock (uint (dr_stat dr) + RPC_VERSMISMATCH) rv c
              | AR ar \<Rightarrow>
                 if ar_stat ar \<noteq> RPC_ACCEPT_SUCCESS then out_unlock (uint (ar_stat ar) + RPC_AUTHERROR) rv c
                 else do {
                   (ok, rv, x) \<leftarrow> xdr_results (x\<lparr>x_op := XDR_DECODE\<rparr>) rv;
                   if \<not> ok then out_unlock RPC_CANTDECODERES rv (c\<lparr>c_xdr := x\<rparr>)
                   else do {
                     (ok, x) \<leftarrow> xdr_std_msg_done x;
                     out_unlock (if ok then RPC_SUCCESS else RPC_CANTDECODERES) rv (c\<lparr>c_xdr := x\<rparr>) } }) })"

text \<open>
  \<open>before_send\<close> is what other threads do to the client until the call holds
  \<open>wait_reply_lock\<close>, and \<open>wakeup\<close> what they do until \<open>pthread_cond_wait\<close> returns. The two
  credentials are local variables whose base pointers are not read. The timeout is not used.
\<close>

definition clnt_call ::
  "(int \<Rightarrow> bytes \<Rightarrow> int) \<Rightarrow> (CLIENT \<Rightarrow> CLIENT) \<Rightarrow> (CLIENT \<Rightarrow> CLIENT) \<Rightarrow> CLIENT \<Rightarrow> u32
     \<Rightarrow> 'a xdrproc \<Rightarrow> 'a \<Rightarrow> 'r xdrproc \<Rightarrow> 'r \<Rightarrow> (int \<times> 'r \<times> CLIENT) option" where
  "clnt_call r_write before_send wakeup c proc xdr_args av xdr_results rv =
    (if c_in_reset c \<noteq> 0 then Some (RPC_SUBSYSTEM_RESTART, rv, c)
     else let x = (c_xdr c)\<lparr>x_op := XDR_ENCODE\<rparr> in do {
       (ok, x) \<leftarrow> xdr_call_msg_start (x_prog x) (x_vers x) proc no_auth no_auth x;
       if \<not> ok then Some (RPC_CANTENCODEARGS, rv, c\<lparr>c_xdr := x\<rparr>)
       else do {
         (ok, av, x) \<leftarrow> xdr_args x av;
         if \<not> ok then Some (RPC_CANTENCODEARGS, rv, c\<lparr>c_xdr := x\<rparr>)
         else let c = before_send (c\<lparr>c_xdr := x\<rparr>)
           in if c_in_reset c \<noteq> 0 then out_unlock RPC_SUBSYSTEM_RESTART rv c
              else do {
                (ok, x) \<leftarrow> xdr_std_msg_send r_write (c_xdr c);
                let c = c\<lparr>c_xdr := x\<rparr>
                in if \<not> ok
                   then if xdr_err x = - ENETRESET
                        then out_unlock RPC_SUBSYSTEM_RESTART rv (c\<lparr>c_in_reset := 1\<rparr>)
                        else out_unlock RPC_CANTSEND rv c
                   else clnt_receive xdr_results rv (wakeup c) } } })"

section \<open>The receive thread\<close>

record pollfd =
  p_in :: bool
  p_out :: bool
  p_rdhup :: bool

text \<open>What the thread does besides changing the client, in order.\<close>

datatype rx_effect = SignalReply | SignalCb | StartCb | ResetCb nat bool | ClearNetreset
  | GrabWakeLock | ReleaseWakeLock

text \<open>The events of a reset: it begins (\<open>True\<close>) or ends (\<open>False\<close>).\<close>

definition notify_reset :: "CLIENT \<Rightarrow> bool \<Rightarrow> rx_effect list" where
  "notify_reset c b = (case c_reset_cb c of None \<Rightarrow> [] | Some f \<Rightarrow> [ResetCb f b])"

definition rx_reset :: "pollfd \<Rightarrow> CLIENT \<Rightarrow> pollfd \<times> CLIENT \<times> rx_effect list" where
  "rx_reset p c =
    (if c_in_reset c = 0
     then if p_rdhup p
          then (\<lparr>p_in = False, p_out = False, p_rdhup = False\<rparr>, c\<lparr>c_in_reset := 1, input_xdr_busy := 0\<rparr>,
                [SignalReply, SignalCb] @ notify_reset c True)
          else (p, c, [])
     else if p_out p
          then (p, c\<lparr>c_in_reset := 0\<rparr>, [ClearNetreset, SignalCb] @ notify_reset c False)
          else (p, c, []))"

text \<open>
  The body of the loop over the clients for one of them, after \<open>poll\<close>. The first component
  is \<open>False\<close> when the thread blocks because the input buffer is in use; the client and the
  effects are then those up to that point.
\<close>

definition rx_client ::
  "(int \<Rightarrow> nat \<Rightarrow> int \<times> bytes) \<Rightarrow> pollfd \<Rightarrow> CLIENT \<Rightarrow> (bool \<times> CLIENT \<times> rx_effect list) option" where
  "rx_client r_read p c =
    (case rx_reset p c of (p, c, eff) \<Rightarrow>
      if \<not> p_in p then Some (True, c, eff)
      else if input_xdr_busy c \<noteq> 0 then Some (False, c, eff)
      else do {
        (ok, x) \<leftarrow> xdr_std_read r_read (c_xdr c);
        if \<not> ok then Some (True, c\<lparr>c_xdr := x\<rparr>, eff @ [GrabWakeLock, ReleaseWakeLock])
        else do {
          ty \<leftarrow> in_word 1 x;
          let c = c\<lparr>c_xdr := x, input_xdr_busy := 1\<rparr>
          in if ty = rpc_msg_code RPC_MSG_REPLY
             then Some (True, c, eff @ [GrabWakeLock, SignalReply, ReleaseWakeLock])
             else if cb_stop c < 0
             then Some (True, c\<lparr>got_cb := 1, cb_stop := 0\<rparr>, eff @ [GrabWakeLock, StartCb, SignalCb])
             else Some (True, c\<lparr>got_cb := 1\<rparr>, eff @ [GrabWakeLock, SignalCb]) } })"

section \<open>The callback thread\<close>

text \<open>
  One round of \<open>cb_context\<close> after its wait: the client, the transport if there is one, and the
  dispatch of the call. \<open>memcpy\<close> of the two messages into the clone is a copy of the first
  \<open>in_len\<close> and \<open>out_next\<close> bytes; a length above the buffer is a fault. \<open>dupfd\<close> and \<open>alive\<close> are
  those of \<open>xdr_clone\<close>, whose failure is not checked. Only a round that ends normally
  releases the wake lock (last component).
\<close>

definition copy_msg :: "nat \<Rightarrow> (nat \<Rightarrow> u8) \<Rightarrow> (nat \<Rightarrow> u8) \<Rightarrow> (nat \<Rightarrow> u8) option" where
  "copy_msg n src dst = (if int n \<le> RPCROUTER_MSGSIZE_MAX then Some (\<lambda>i. if i < n then src i else dst i) else None)"

definition cb_clone :: "bool \<Rightarrow> (int \<Rightarrow> int) \<Rightarrow> xdr_struct \<Rightarrow> u32 \<Rightarrow> u32 \<Rightarrow> xdr_struct option" where
  "cb_clone alive dupfd x prog vers =
    do { y \<leftarrow> xdr_clone alive dupfd x;
         y \<leftarrow> y;
         im \<leftarrow> copy_msg (nat (in_len x)) (in_msg x) (in_msg y);
         om \<leftarrow> copy_msg (nat (out_next x)) (out_msg x) (out_msg y);
         Some (y\<lparr>x_prog := prog, x_vers := vers, in_msg := im, out_msg := om,
                 in_len := in_len x, out_next := out_next x\<rparr>) }"

definition set_server :: "u32 \<Rightarrow> u32 \<Rightarrow> registered_server \<Rightarrow> SVCXPRT \<Rightarrow> SVCXPRT" where
  "set_server prog vers s xp =
    (case svc_walk prog vers (servers xp) of
       (b, []) \<Rightarrow> xp | (b, _ # r) \<Rightarrow> xp\<lparr>servers := b @ s # r\<rparr>)"

definition cb_round ::
  "bool \<Rightarrow> (int \<Rightarrow> int) \<Rightarrow> int \<Rightarrow> (nat \<Rightarrow> svc_req \<Rightarrow> registered_server \<Rightarrow> registered_server option)
     \<Rightarrow> CLIENT \<Rightarrow> SVCXPRT option \<Rightarrow> (CLIENT \<times> SVCXPRT option \<times> (nat \<times> nat) list \<times> bool) option" where
  "cb_round alive dupfd pid handler c the_x =
    do { xpr \<leftarrow> the_x;
      if c_in_reset c \<noteq> svc_is_in_reset xpr
      then Some (c, Some (svc_set_in_reset xpr (c_in_reset c)),
                 svc_reset_cb xpr (if c_in_reset c \<noteq> 0 then 0 else 1), False)
      else if got_cb c = 0 then Some (c, the_x, [], False)
      else let c = c\<lparr>got_cb := 0\<rparr> in do {
        prog \<leftarrow> in_word 3 (c_xdr c); vers \<leftarrow> in_word 4 (c_xdr c);
        case svc_find xpr prog vers of
          None \<Rightarrow> Some (c, the_x, [], True)
        | Some svc \<Rightarrow>
            if in_len (c_xdr c) < 0 then Some (c, the_x, [], False)
            else if out_next (c_xdr c) < 0 then Some (c, the_x, [], False)
            else do {
              y \<leftarrow> cb_clone alive dupfd (c_xdr c) prog vers;
              let c = c\<lparr>input_xdr_busy := 0\<rparr>
              in do {
                (_, svc) \<leftarrow> svc_dispatch pid (handler (s_dispatch svc)) (svc\<lparr>s_xdr := Some y\<rparr>);
                Some (c, Some (set_server prog vers (svc\<lparr>s_xdr := None\<rparr>) xpr), [], True) } } } }"

section \<open>Creating and destroying clients\<close>

text \<open>
  \<open>open_fds\<close> is the bag of descriptors the process has open through \<open>r_open\<close> and \<open>pipe\<close>;
  addresses of clients are numbers, \<open>mem\<close> holds the ones that are allocated.
\<close>

record clnt_globals =
  clients :: "nat list"
  mem :: "nat \<rightharpoonup> CLIENT"
  num_clients :: u32
  router_fd :: int
  wakeup_pipe :: "(int \<times> int) option"
  rx_running :: bool
  open_fds :: "int list"

definition hex_digit :: "nat \<Rightarrow> char" where
  "hex_digit n = ''0123456789abcdef'' ! n"

text \<open>\<open>%08x\<close>\<close>

definition hex8 :: "u32 \<Rightarrow> string" where
  "hex8 w = map (\<lambda>k. hex_digit (unat (drop_bit (4 * k) w AND 15))) (rev [0..<8])"

definition clnt_version :: "u32 \<Rightarrow> u32" where
  "clnt_version vers =
    (let vers = (if vers AND 0xFFF00000 = 0 then vers AND 0xFFFF0000 else vers)
     in if vers AND 0x80000000 \<noteq> 0 then vers else vers AND 0xFFFF0000)"

definition close_fd :: "int \<Rightarrow> clnt_globals \<Rightarrow> clnt_globals" where
  "close_fd n g = g\<lparr>open_fds := remove1 n (open_fds g)\<rparr>"

text \<open>
  \<open>addr\<close> is what \<open>calloc\<close> returns for the client, \<open>alive\<close> whether it has memory for the
  handle, \<open>r_open\<close> opens the router, \<open>pipe\<close> is the result of the system call.
\<close>

definition clnt_create ::
  "nat option \<Rightarrow> bool \<Rightarrow> (string \<Rightarrow> int) \<Rightarrow> (int \<times> int) option \<Rightarrow> u32 \<Rightarrow> u32 \<Rightarrow> clnt_globals
     \<Rightarrow> (nat option \<times> clnt_globals) option" where
  "clnt_create addr alive r_open pipe prog vers g =
    (case addr of
       None \<Rightarrow> Some (None, g)
     | Some a \<Rightarrow>
        let vers = clnt_version vers; first = (num_clients g = 0);
            rfd = (if first then r_open ''00000000:0'' else router_fd g);
            g1 = (if first then g\<lparr>router_fd := rfd\<rparr> else g);
            g1 = (if first \<and> 0 \<le> rfd then g1\<lparr>open_fds := rfd # open_fds g1\<rparr> else g1)
        in if first \<and> rfd < 0 then Some (None, g1)
           else do {
             x \<leftarrow> xdr_init_common alive r_open (hex8 prog @ '':'' @ hex8 vers) 1;
             case x of
               None \<Rightarrow> Some (None, if first then close_fd rfd g1 else g1)
             | Some x \<Rightarrow>
                 let x = x\<lparr>x_prog := prog, x_vers := vers\<rparr>;
                     c = \<lparr>c_xdr = x, input_xdr_busy = 0, got_cb = 0, cb_stop = -1, c_in_reset = 0, c_reset_cb = None\<rparr>;
                     g2 = g1\<lparr>open_fds := fd x # open_fds g1\<rparr>
                 in if first \<and> pipe = None then Some (None, close_fd rfd g2)
                    else let g3 = (if first then g2\<lparr>wakeup_pipe := pipe,
                                     open_fds := [fst (the pipe), snd (the pipe)] @ open_fds g2\<rparr> else g2)
                         in Some (Some a, g3\<lparr>clients := a # clients g3, mem := (mem g3)(a \<mapsto> c),
                                    num_clients := num_clients g3 + 1,
                                    rx_running := (if first then True else rx_running g3)\<rparr>) })"

text \<open>
  The removal loop unlinks the first occurrence and counts down; the rest runs without a
  client left: the receive thread is woken and joined, pipe and router are closed. Stopping the
  callback thread changes nothing else that is kept here.
\<close>

definition clnt_destroy :: "nat option \<Rightarrow> clnt_globals \<Rightarrow> clnt_globals option" where
  "clnt_destroy client g =
    (case client of
       None \<Rightarrow> Some g
     | Some a \<Rightarrow> do {
        c \<leftarrow> mem g a;
        let g = (if a \<in> set (clients g)
                 then g\<lparr>clients := remove1 a (clients g), num_clients := num_clients g - 1\<rparr> else g);
            g = (if num_clients g = 0
                 then let g = g\<lparr>rx_running := False\<rparr>;
                          g = (case wakeup_pipe g of None \<Rightarrow> g | Some (r, w) \<Rightarrow> close_fd w (close_fd r g))
                      in close_fd (router_fd g) (g\<lparr>wakeup_pipe := None\<rparr>)
                 else g);
            g = close_fd (fd (c_xdr c)) g
        in Some (g\<lparr>mem := (mem g)(a := None)\<rparr>) })"

definition clnt_register_reset_notification_cb :: "CLIENT option \<Rightarrow> nat option \<Rightarrow> int \<times> CLIENT option" where
  "clnt_register_reset_notification_cb client cb =
    (case client of None \<Rightarrow> (1, None) | Some c \<Rightarrow> (0, Some (c\<lparr>c_reset_cb := cb\<rparr>)))"

definition clnt_unregister_reset_notification_cb :: "CLIENT option \<Rightarrow> nat option \<times> CLIENT option" where
  "clnt_unregister_reset_notification_cb client =
    (case client of None \<Rightarrow> (None, None) | Some c \<Rightarrow> (c_reset_cb c, Some (c\<lparr>c_reset_cb := None\<rparr>)))"


section \<open>The client list\<close>

text \<open>
  The count is the length of the list, the receive thread runs and the pipe is open exactly
  while there is a client, and the open descriptors are those of the clients, the router
  and the pipe: nothing leaks.
\<close>

definition client_fds :: "clnt_globals \<Rightarrow> int multiset" where
  "client_fds g = image_mset (\<lambda>a. fd (c_xdr (the (mem g a)))) (mset (clients g))"

definition shared_fds :: "clnt_globals \<Rightarrow> int multiset" where
  "shared_fds g = (case wakeup_pipe g of None \<Rightarrow> {#} | Some (r, w) \<Rightarrow> {#router_fd g, r, w#})"

definition clnt_inv :: "clnt_globals \<Rightarrow> bool" where
  "clnt_inv g \<longleftrightarrow> distinct (clients g) \<and> (\<forall>a \<in> set (clients g). mem g a \<noteq> None) \<and>
     unat (num_clients g) = length (clients g) \<and> (rx_running g \<longleftrightarrow> clients g \<noteq> []) \<and>
     (wakeup_pipe g \<noteq> None \<longleftrightarrow> clients g \<noteq> []) \<and> mset (open_fds g) = client_fds g + shared_fds g"

definition new_globals :: clnt_globals where
  "new_globals = \<lparr>clients = [], mem = Map.empty, num_clients = 0, router_fd = 0, wakeup_pipe = None,
     rx_running = False, open_fds = []\<rparr>"

lemma clnt_inv_new: "clnt_inv new_globals"
  by (simp add: clnt_inv_def new_globals_def client_fds_def shared_fds_def)

lemma clnt_inv_first: "clnt_inv g \<Longrightarrow> num_clients g = 0 \<longleftrightarrow> clients g = []"
  by (simp add: clnt_inv_def unat_eq_0 [symmetric])

lemma close_fd_simps [simp]:
  "clients (close_fd n g) = clients g" "mem (close_fd n g) = mem g" "num_clients (close_fd n g) = num_clients g"
  "router_fd (close_fd n g) = router_fd g" "wakeup_pipe (close_fd n g) = wakeup_pipe g"
  "rx_running (close_fd n g) = rx_running g" "mset (open_fds (close_fd n g)) = mset (open_fds g) - {#n#}"
  by (simp_all add: close_fd_def)

lemma client_fds_new:
  "a \<notin> set (clients g) \<Longrightarrow>
     image_mset (\<lambda>b. fd (c_xdr (the (((mem g)(a \<mapsto> c)) b)))) (mset (clients g)) = client_fds g"
  by (auto simp: client_fds_def intro!: image_mset_cong)

lemma clnt_create_inv:
  assumes inv: "clnt_inv g" and fresh: "a \<notin> set (clients g)" and small: "length (clients g) < 2 ^ 32 - 1"
    and pipe: "clients g = [] \<Longrightarrow> pp \<noteq> None"
  shows "\<exists>r g'. clnt_create (Some a) True r_open pp prog vers g = Some (r, g') \<and> clnt_inv g' \<and>
     clients g' = (if r = None then clients g else a # clients g) \<and> (r = None \<or> r = Some a)"
proof -
  let ?name = "hex8 prog @ '':'' @ hex8 (clnt_version vers)"
  have n: "unat (num_clients g + 1) = length (clients g) + 1"
    using inv small by (simp add: clnt_inv_def unat_word_ariths)
  show ?thesis
  proof (cases "clients g = []")
    case True
    then obtain pr pw where pp: "pp = Some (pr, pw)" using pipe by auto
    have z: "num_clients g = 0" "wakeup_pipe g = None" "open_fds g = []" "\<not> rx_running g"
      using True inv clnt_inv_first [OF inv]
      by (cases "wakeup_pipe g"; force simp: clnt_inv_def client_fds_def shared_fds_def)+
    show ?thesis
    proof (cases "r_open ''00000000:0'' < 0 \<or> r_open ?name < 0")
      case True': True
      then show ?thesis
        using True z inv
        by (auto simp: clnt_create_def Let_def xdr_init_common_def clnt_inv_def client_fds_def shared_fds_def close_fd_def)
    next
      case False
      then show ?thesis
        using True z inv n pp
        by (simp add: clnt_create_def Let_def xdr_init_common_def clnt_inv_def client_fds_def shared_fds_def)
    qed
  next
    case False
    then have nz: "num_clients g \<noteq> 0" using clnt_inv_first [OF inv] by simp
    show ?thesis
    proof (cases "r_open ?name < 0")
      case True
      then show ?thesis using nz inv by (simp add: clnt_create_def Let_def xdr_init_common_def)
    next
      case opened: False
      then show ?thesis
        using nz False inv n fresh client_fds_new [OF fresh]
        by (simp add: clnt_create_def Let_def xdr_init_common_def clnt_inv_def client_fds_def shared_fds_def
            split: option.splits)
    qed
  qed
qed

lemma clnt_destroy_inv:
  assumes inv: "clnt_inv g" and a: "a \<in> set (clients g)"
  shows "\<exists>g'. clnt_destroy (Some a) g = Some g' \<and> clnt_inv g' \<and> clients g' = remove1 a (clients g) \<and> mem g' a = None"
proof -
  obtain c where c: "mem g a = Some c" using inv a by (auto simp: clnt_inv_def)
  have d: "distinct (clients g)" using inv by (simp add: clnt_inv_def)
  have n: "unat (num_clients g - 1) = length (clients g) - 1"
  proof -
    have "0 < unat (num_clients g)" using inv a by (auto simp: clnt_inv_def)
    then have "1 \<le> num_clients g" by (simp add: word_le_nat_alt Suc_le_eq)
    then show ?thesis using inv by (simp add: unat_sub clnt_inv_def)
  qed
  have l: "length (remove1 a (clients g)) = length (clients g) - 1" using a by (simp add: length_remove1)
  have fds: "client_fds g = {#fd (c_xdr c)#} + image_mset (\<lambda>b. fd (c_xdr (the (mem g b)))) (mset (remove1 a (clients g)))"
  proof -
    have "mset (clients g) = add_mset a (mset (remove1 a (clients g)))" using a by simp
    then show ?thesis using c by (simp only: client_fds_def image_mset_add_mset) simp
  qed
  have same: "image_mset (\<lambda>b. fd (c_xdr (the (((mem g)(a := None)) b)))) (mset (remove1 a (clients g)))
      = image_mset (\<lambda>b. fd (c_xdr (the (mem g b)))) (mset (remove1 a (clients g)))"
    using d by (intro image_mset_cong) (auto simp: set_remove1_eq simp del: mset_remove1)
  show ?thesis
  proof (cases "remove1 a (clients g) = []")
    case True
    then have z: "num_clients g - 1 = 0" using n l by (simp add: unat_eq_0 [symmetric])
    obtain pr pw where p: "wakeup_pipe g = Some (pr, pw)" using inv a by (auto simp: clnt_inv_def)
    show ?thesis
      using inv a c z True p fds
      by (simp add: clnt_destroy_def Let_def clnt_inv_def client_fds_def shared_fds_def)
  next
    case False
    then have "unat (num_clients g - 1) \<noteq> 0" unfolding n l [symmetric] by simp
    then have z: "num_clients g - 1 \<noteq> 0" by (simp add: unat_eq_0 [symmetric])
    obtain pr pw where p: "wakeup_pipe g = Some (pr, pw)" using inv a by (auto simp: clnt_inv_def)
    have ne: "clients g \<noteq> []" using a by auto
    show ?thesis
      using inv a c z False fds same d n l p ne
      by (simp add: clnt_destroy_def Let_def clnt_inv_def client_fds_def shared_fds_def set_remove1_eq)
  qed
qed


section \<open>Properties\<close>

text \<open>
  C15. The life cycle of clients: creating a client keeps the invariant of the client list
  (the count, one receive thread while there are clients, no descriptor leaked) whatever the
  router answers, and adds the client if and only if it returns one; destroying a client keeps
  it too and removes exactly that client. The only condition on creation is that the pipe of
  the first client can be made.
\<close>

theorem clnt_lifecycle:
  assumes "clnt_inv g" and "length (clients g) < 2 ^ 32 - 1"
  shows "(a \<notin> set (clients g) \<longrightarrow> (clients g = [] \<longrightarrow> pp \<noteq> None) \<longrightarrow>
      (\<exists>r g'. clnt_create (Some a) True r_open pp prog vers g = Some (r, g') \<and> clnt_inv g' \<and>
         clients g' = (if r = None then clients g else a # clients g))) \<and>
    (a \<in> set (clients g) \<longrightarrow>
      (\<exists>g'. clnt_destroy (Some a) g = Some g' \<and> clnt_inv g' \<and> clients g' = remove1 a (clients g)))"
proof (intro conjI impI)
  assume "a \<notin> set (clients g)" "clients g = [] \<longrightarrow> pp \<noteq> None"
  then show "\<exists>r g'. clnt_create (Some a) True r_open pp prog vers g = Some (r, g') \<and> clnt_inv g' \<and>
         clients g' = (if r = None then clients g else a # clients g)"
    using clnt_create_inv [OF assms(1) _ assms(2), of a pp r_open prog vers] by auto
next
  assume "a \<in> set (clients g)"
  then show "\<exists>g'. clnt_destroy (Some a) g = Some g' \<and> clnt_inv g' \<and> clients g' = remove1 a (clients g)"
    using clnt_destroy_inv [OF assms(1)] by blast
qed

theorem clnt_lifecycle_witness:
  "\<exists>r g'. clnt_create (Some 7) True (\<lambda>_. 3) (Some (4, 5)) 0x3000008C 0x00050001 new_globals = Some (r, g') \<and>
     clnt_inv g' \<and> clients g' = (if r = None then clients new_globals else 7 # clients new_globals)"
proof -
  have "7 \<notin> set (clients new_globals)" by (simp add: new_globals_def)
  then show ?thesis
    using clnt_lifecycle [OF clnt_inv_new, of "7" "Some (4, 5)" "\<lambda>_. 3" "0x3000008C" "0x00050001"] by (simp add: new_globals_def)
qed

text \<open>
  If the pipe of the first client cannot be made, \<open>clnt_create\<close> returns \<open>NULL\<close> but the
  descriptor of the client's handle stays open: the error path frees the client without
  destroying its handle.
\<close>

theorem clnt_create_pipe_leak:
  assumes "clnt_inv g" and "clients g = []" and "\<And>n. 0 \<le> r_open n"
  shows "\<exists>n g'. clnt_create (Some a) True r_open None prog vers g = Some (None, g') \<and>
     clients g' = [] \<and> open_fds g' = [n] \<and> \<not> clnt_inv g'"
proof -
  have z: "num_clients g = 0" "wakeup_pipe g = None" "open_fds g = []"
    using assms clnt_inv_first [OF assms(1)]
    by (cases "wakeup_pipe g"; force simp: clnt_inv_def client_fds_def shared_fds_def)+
  then show ?thesis
    using assms(2,3)
    by (simp add: clnt_create_def Let_def xdr_init_common_def not_less [symmetric] close_fd_def clnt_inv_def
        client_fds_def shared_fds_def)
qed

theorem clnt_create_pipe_leak_witness:
  "\<exists>n g'. clnt_create (Some 7) True (\<lambda>_. 3) None 0x3000008C 0x00050001 new_globals = Some (None, g') \<and>
     clients g' = [] \<and> open_fds g' = [n] \<and> \<not> clnt_inv g'"
  by (rule clnt_create_pipe_leak [OF clnt_inv_new]) (simp_all add: new_globals_def)

text \<open>
  The status of a call for every reply header: an accepted call that did not succeed is
  reported as \<open>RPC_AUTHERROR\<close> plus the accept status, a denied one as \<open>RPC_VERSMISMATCH\<close> plus the
  reject status; the results are not touched and the input buffer is freed. (The accept
  status \<open>RPC_PROG_LOCKED\<close>, 6, so becomes 13, which is \<open>RPC_UNKNOWNHOST\<close>.)
\<close>

theorem clnt_status_of_reply:
  assumes "xdr_inv (c_xdr c)" and "c_in_reset c = 0" and "same_xid (c_xdr c)" and "good_reply h"
    and "in_at (reply_bytes h) (c_xdr c)" and "\<And>ar. r_u h = AR ar \<Longrightarrow> ar_stat ar \<noteq> RPC_ACCEPT_SUCCESS"
  shows "\<exists>c'. clnt_receive proc rv c = Some (case r_u h of AR ar \<Rightarrow> uint (ar_stat ar) + RPC_AUTHERROR
       | DR dr \<Rightarrow> uint (dr_stat dr) + RPC_VERSMISMATCH, rv, c') \<and> input_xdr_busy c' = 0"
proof -
  have hdr: "xdr_recv_reply_header (c_xdr c) = Some (Some h, advance (length (reply_bytes h)) (c_xdr c))"
    using recvs_reply [OF assms(4)] assms(1,5) by (simp add: recvs_def)
  show ?thesis
    using assms(2,3,6) hdr by (cases "r_u h") (simp_all add: clnt_receive_def out_unlock_def Let_def)
qed

definition locked_reply :: rpc_reply_header where
  "locked_reply = \<lparr>r_stat = 0, r_u = AR \<lparr>ar_verf = no_auth, ar_stat = RPC_PROG_LOCKED, ar_u = Unset\<rparr>\<rparr>"

definition locked_client :: CLIENT where
  "locked_client = \<lparr>c_xdr = zero_xdr\<lparr>in_msg := (\<lambda>i. (be32 0 @ be32 1 @ reply_bytes locked_reply) ! i), in_len := 24,
     in_next := 8\<rparr>, input_xdr_busy = 1, got_cb = 0, cb_stop = -1, c_in_reset = 0, c_reset_cb = None\<rparr>"

theorem clnt_status_of_reply_witness:
  "\<exists>c'. clnt_receive xdr_u_int 0 locked_client = Some (case r_u locked_reply of AR ar \<Rightarrow> uint (ar_stat ar) + RPC_AUTHERROR
       | DR dr \<Rightarrow> uint (dr_stat dr) + RPC_VERSMISMATCH, 0, c') \<and> input_xdr_busy c' = 0"
proof (rule clnt_status_of_reply)
  show "in_at (reply_bytes locked_reply) (c_xdr locked_client)"
    by (simp add: in_at_def locked_client_def nth_append)
      (simp add: locked_reply_def reply_bytes_def auth_bytes_def)
  show "same_xid (c_xdr locked_client)"
    by (simp add: same_xid_def locked_client_def zero_xdr_def nth_append be32_def byte_n_def upt_rec)
qed (simp_all add: locked_client_def locked_reply_def xdr_inv_def zero_xdr_def good_reply_def good_accepted_def
    no_auth_def)

text \<open>
  A modem restart that shows up as a failed write is never recognised: \<open>write\<close> returns -1
  on error, and \<open>clnt_call\<close> compares the stored result with \<open>-ENETRESET\<close>. So a call that
  cannot be sent always reports \<open>RPC_CANTSEND\<close> and leaves \<open>in_reset\<close> as it was.
\<close>

theorem failed_send_is_cantsend:
  assumes "\<And>n bs. r_write n bs = -1" and "xdr_inv (c_xdr c)" and "c_in_reset c = 0"
    and "\<And>x. \<exists>x'. aproc x v = Some (True, v, x') \<and> out_next x \<le> out_next x'"
  shows "\<exists>c'. clnt_call r_write id wakeup c proc aproc v rproc rv = Some (RPC_CANTSEND, rv, c') \<and> c_in_reset c' = 0"
proof -
  let ?x = "(c_xdr c)\<lparr>x_op := XDR_ENCODE\<rparr>"
  have inv: "xdr_inv ?x" using assms(2) by (simp add: xdr_inv_def)
  note start = call_msg_start_ok [OF inv, of "x_prog (c_xdr c)" "x_vers (c_xdr c)" proc]
  let ?x1 = "append_out (call_header (xid ?x + 1) (x_prog (c_xdr c)) (x_vers (c_xdr c)) proc)
      (started RPC_MSG_CALL (?x\<lparr>x_prog := x_prog (c_xdr c), x_proc := proc\<rparr>))"
  obtain x2 where a: "aproc ?x1 v = Some (True, v, x2)" "out_next ?x1 \<le> out_next x2" using assms(4) by blast
  then have "out_next x2 \<noteq> -1" by simp
  then have "xdr_std_msg_send r_write x2 = Some (False, x2\<lparr>xdr_err := -1\<rparr>)"
    by (simp add: xdr_std_msg_send_def Let_def assms(1))
  then show ?thesis
    using assms(3) start a by (simp add: clnt_call_def Let_def out_unlock_def)
qed

theorem failed_send_is_cantsend_witness:
  "\<exists>c'. clnt_call (\<lambda>_ _. -1) id id (locked_client\<lparr>c_xdr := zero_xdr\<rparr>) 3 (\<lambda>x v. Some (True, v, x)) () xdr_u_int 0
     = Some (RPC_CANTSEND, 0, c') \<and> c_in_reset c' = 0"
  by (rule failed_send_is_cantsend) (simp_all add: locked_client_def xdr_inv_def zero_xdr_def)

text \<open>
  The receive thread and the input buffer: it never reads into a buffer that is in use; when
  it reads a message the buffer becomes busy, a reply wakes the caller, and a call is handed
  to the callback thread, which is started by the first call only.
\<close>

theorem rx_client_message:
  assumes "c_in_reset c = 0" and "p_in p" and "\<not> p_rdhup p"
    and "r_read (fd (c_xdr c)) 18432 = (int (length m), m)" and "8 \<le> length m" and "length m \<le> 18432"
    and "m = be32 i @ be32 ty @ rest"
  shows "if input_xdr_busy c \<noteq> 0 then rx_client r_read p c = Some (False, c, [])
    else \<exists>c' eff. rx_client r_read p c = Some (True, c', eff) \<and> input_xdr_busy c' = 1 \<and> holds_msg m (c_xdr c') \<and>
      (if ty = 1 then got_cb c' = got_cb c \<and> cb_stop c' = cb_stop c \<and> SignalReply \<in> set eff \<and> StartCb \<notin> set eff
       else got_cb c' = 1 \<and> SignalCb \<in> set eff \<and> (StartCb \<in> set eff \<longleftrightarrow> cb_stop c < 0) \<and> 0 \<le> cb_stop c')"
proof -
  have rs: "rx_reset p c = (p, c, [])" using assms(1,3) by (simp add: rx_reset_def)
  obtain y where y: "xdr_std_read r_read (c_xdr c) = Some (True, y)" "holds_msg m y"
    using xdr_std_read_ok [of r_read "c_xdr c" m] assms(4-6) by auto
  have "in_word 1 y = Some ty"
    using in_word_at [of "[i, ty]" rest y 1] y(2) assms(7) by simp
  then show ?thesis using assms(2) rs y by (simp add: rx_client_def Let_def)
qed

theorem rx_client_message_witness:
  "if input_xdr_busy (locked_client\<lparr>input_xdr_busy := 0\<rparr>) \<noteq> 0
   then rx_client (\<lambda>_ _. (12, be32 5 @ be32 0 @ be32 2)) \<lparr>p_in = True, p_out = False, p_rdhup = False\<rparr>
          (locked_client\<lparr>input_xdr_busy := 0\<rparr>) = Some (False, locked_client\<lparr>input_xdr_busy := 0\<rparr>, [])
   else \<exists>c' eff. rx_client (\<lambda>_ _. (12, be32 5 @ be32 0 @ be32 2)) \<lparr>p_in = True, p_out = False, p_rdhup = False\<rparr>
          (locked_client\<lparr>input_xdr_busy := 0\<rparr>) = Some (True, c', eff) \<and> input_xdr_busy c' = 1 \<and>
      holds_msg (be32 5 @ be32 0 @ be32 2) (c_xdr c') \<and>
      (if (0 :: u32) = 1 then got_cb c' = got_cb (locked_client\<lparr>input_xdr_busy := 0\<rparr>) \<and>
            cb_stop c' = cb_stop (locked_client\<lparr>input_xdr_busy := 0\<rparr>) \<and> SignalReply \<in> set eff \<and> StartCb \<notin> set eff
       else got_cb c' = 1 \<and> SignalCb \<in> set eff \<and>
            (StartCb \<in> set eff \<longleftrightarrow> cb_stop (locked_client\<lparr>input_xdr_busy := 0\<rparr>) < 0) \<and> 0 \<le> cb_stop c')"
  by (rule rx_client_message [where i = 5 and rest = "be32 2"]) (simp_all add: locked_client_def)

end
