(* ===== verification/Rpc_End.thy ===== *)
theory Rpc_End
  imports Clnt
begin

text \<open>
  A whole remote procedure call: the client's \<open>clnt_call\<close>, the transport, the server's
  dispatcher and the generated server stub
  \<^verbatim>\<open>gps/loc_api/libloc_api-rpc/gen-50000/loc_api_cb_svc.c\<close>, and back.
\<close>

section \<open>The server stub\<close>

text \<open>
  \<open>xdr_argument\<close> and \<open>xdr_result\<close> are the filters of the procedure, \<open>zero\<close> the zeroed argument
  structure, \<open>local\<close> the service routine: its return value and the result it stores.
  \<open>exit (1)\<close> after a failed \<open>svc_freeargs\<close> is \<open>None\<close>. Freeing the result does not touch the handle.
\<close>

definition xdr_void_proc :: "unit xdrproc" where
  "xdr_void_proc x v = Some (xdr_void, v, x)"

definition loc_apicbprog ::
  "(int \<Rightarrow> bytes \<Rightarrow> int) \<Rightarrow> 'a xdrproc \<Rightarrow> 'r xdrproc \<Rightarrow> 'a \<Rightarrow> ('a \<Rightarrow> int \<times> 'r) \<Rightarrow> svc_req
     \<Rightarrow> registered_server \<Rightarrow> registered_server option" where
  "loc_apicbprog r_write xdr_argument xdr_result zero local rqstp tr =
    (if rq_proc rqstp = 0 then map_option snd (svc_sendreply r_write xdr_void_proc () tr)
     else if rq_proc rqstp \<noteq> 1 then svcerr_noproc r_write tr
     else do {
       (ok, argument, tr) \<leftarrow> svc_getargs xdr_argument zero tr;
       if \<not> ok then svcerr_decode r_write tr
       else do {
         let (retval, result) = local argument
         in do {
           tr \<leftarrow> (if retval > 0
                      then do { (ok, tr) \<leftarrow> svc_sendreply r_write xdr_result result tr;
                                if ok then Some tr else svcerr_systemerr r_write tr }
                      else Some tr);
           (ok, _, tr) \<leftarrow> svc_freeargs xdr_argument argument tr;
           if ok then Some tr else None } } })"

section \<open>Delivery of a message\<close>

definition deliver :: "bytes \<Rightarrow> xdr_struct \<Rightarrow> xdr_struct" where
  "deliver bs x = snd (the (xdr_std_read (\<lambda>_ _. (int (length bs), bs)) x))"

lemma deliver_ok:
  assumes "8 \<le> length bs" and "length bs \<le> 18432"
  shows "xdr_std_read (\<lambda>_ _. (int (length bs), bs)) x = Some (True, deliver bs x)"
    and "holds_msg bs (deliver bs x)" and "in_len (deliver bs x) = int (length bs)"
    and "in_next (deliver bs x) = 8" and "x_op (deliver bs x) = x_op x" and "out_msg (deliver bs x) = out_msg x"
    and "out_next (deliver bs x) = out_next x" and "x_vers (deliver bs x) = x_vers x" and "fd (deliver bs x) = fd x"
    and "xdr_inv x \<Longrightarrow> xdr_inv (deliver bs x)"
  using assms by (auto simp: deliver_def xdr_std_read_def holds_msg_def store_in_def xdr_inv_def)

lemma holds_in_at:
  assumes "holds_msg (as @ bs @ cs) x" and "in_len x = int (length (as @ bs @ cs))" and "in_next x = int (length as)"
  shows "in_at bs x"
  using assms by (auto simp: in_at_def holds_msg_def nth_append)

section \<open>One call\<close>

text \<open>
  What the client sees when it wakes up: the server was handed the client's message, and
  the server's outgoing message arrived.
\<close>

definition served :: "int \<Rightarrow> (svc_req \<Rightarrow> registered_server \<Rightarrow> registered_server option) \<Rightarrow> registered_server
     \<Rightarrow> bytes \<Rightarrow> (svc_req option \<times> registered_server) option" where
  "served pid handler svc msg =
     do { x \<leftarrow> s_xdr svc; svc_dispatch pid handler (svc\<lparr>s_xdr := Some (deliver msg x)\<rparr>) }"

definition reply_of :: "(svc_req option \<times> registered_server) option \<Rightarrow> bytes" where
  "reply_of r = out_bytes (the (s_xdr (snd (the r))))"

definition answered :: "int \<Rightarrow> (svc_req \<Rightarrow> registered_server \<Rightarrow> registered_server option) \<Rightarrow> registered_server
     \<Rightarrow> CLIENT \<Rightarrow> CLIENT" where
  "answered pid handler svc c =
     c\<lparr>c_xdr := deliver (reply_of (served pid handler svc (out_bytes (c_xdr c)))) (c_xdr c)\<rparr>"

lemma server_side:
  assumes fa: "xdr_filter aproc aenc agood aready" and fr: "xdr_filter rproc renc rgood rready"
    and v: "agood v" "aready zero v" and loc: "local v = (ret, w)" "ret > 0" and w: "rgood w"
    and room: "length (aenc v) + 40 \<le> 18432" "length (renc w) + 24 \<le> 18432"
    and svc: "s_xdr svc = Some x" "xdr_inv x" "s_prog svc = prog" "x_vers x = vers" and pid: "pid \<noteq> 0"
  shows "\<exists>svc'. served pid (loc_apicbprog r_write aproc rproc zero local) svc (call_header i prog vers 1 @ aenc v)
       = Some (Some \<lparr>rq_prog = prog, rq_vers = vers, rq_proc = 1\<rparr>, svc') \<and>
     out_bytes (the (s_xdr svc')) = success_header i @ renc w"
proof -
  let ?m = "call_header i prog vers 1 @ aenc v"
  let ?x1 = "(deliver ?m x)\<lparr>in_next := 40, x_op := XDR_DECODE\<rparr>"
  let ?svc = "prepared pid (svc\<lparr>s_xdr := Some (deliver ?m x)\<rparr>) (deliver ?m x)"
  have hl: "length (call_header i prog vers 1) = 40" by (simp add: call_header_def)
  have ml: "8 \<le> length ?m" "length ?m \<le> 18432" using room(1) hl by auto
  note d = deliver_ok [OF ml, of x]
  have h: "holds_msg ?m ?x1" using d(2) by (simp add: holds_msg_def)
  have inv1: "xdr_inv ?x1" using d(10) [OF svc(2)] by (simp add: xdr_inv_def)
  have at: "in_at (aenc v) ?x1"
    using holds_in_at [of "call_header i prog vers 1" "aenc v" "[]" ?x1] h d(3) hl by simp
  let ?x2 = "advance (length (aenc v)) ?x1"
  have dec: "aproc ?x1 zero = Some (True, v, ?x2)"
    using xdr_filter.decode_ok [OF fa v(1) inv1 _ at v(2)] by simp
  have inv2: "xdr_inv ?x2" by (rule xdr_filter.decode_inv [OF fa v(1) inv1 at])
  let ?s2 = "?svc\<lparr>s_xdr := Some ?x2\<rparr>"
  have args: "svc_getargs aproc zero ?svc = Some (True, v, ?s2)"
    using dec pid by (simp add: svc_getargs_def prepared_def xdr_std_msg_done_def)
  have h2: "holds_msg (be32 i @ drop 4 ?m) ?x2"
    using h by (simp add: holds_msg_def call_header_def)
  obtain y where y: "svc_sendreply r_write rproc w ?s2 = Some (True, ?s2\<lparr>s_xdr := Some y\<rparr>)"
    "out_bytes y = success_header i @ renc w"
    by (rule svc_sendreply_ok [OF fr w _ pid _ inv2 room(2) h2, of ?s2 r_write]) (auto simp: prepared_def)
  obtain v' where f: "aproc (y\<lparr>x_op := XDR_FREE\<rparr>) v = Some (True, v', y\<lparr>x_op := XDR_FREE\<rparr>)"
    using xdr_filter.free_ok [OF fa v(1), of "y\<lparr>x_op := XDR_FREE\<rparr>"] by auto
  have "loc_apicbprog r_write aproc rproc zero local \<lparr>rq_prog = prog, rq_vers = vers, rq_proc = 1\<rparr> ?svc
      = Some (?s2\<lparr>s_xdr := Some (y\<lparr>x_op := XDR_FREE\<rparr>)\<rparr>)"
    using args y(1) loc f pid by (simp add: loc_apicbprog_def svc_freeargs_def prepared_def)
  moreover have "out_bytes (y\<lparr>x_op := XDR_FREE\<rparr>) = success_header i @ renc w"
    using y(2) by (simp add: out_bytes_def)
  ultimately show ?thesis
    using svc_dispatch_ok [of "svc\<lparr>s_xdr := Some (deliver ?m x)\<rparr>" "deliver ?m x" i prog vers 1 "aenc v"] svc d(2,8)
    by (simp add: served_def)
qed

lemma client_receives:
  assumes fr: "xdr_filter rproc renc rgood rready" and w: "rgood w" "rready r0 w"
    and room: "length (renc w) + 24 \<le> 18432" and inv: "xdr_inv (c_xdr c)" and rst: "c_in_reset c = 0"
    and out: "\<exists>rest. out_bytes (c_xdr c) = be32 i @ rest"
  shows "\<exists>c'. clnt_receive rproc r0 (c\<lparr>c_xdr := deliver (success_header i @ renc w) (c_xdr c)\<rparr>)
     = Some (RPC_SUCCESS, w, c') \<and> input_xdr_busy c' = 0"
proof -
  let ?m = "success_header i @ renc w" and ?x = "deliver (success_header i @ renc w) (c_xdr c)"
  let ?h = "\<lparr>r_stat = 0, r_u = AR \<lparr>ar_verf = no_auth, ar_stat = 0, ar_u = Unset\<rparr>\<rparr>"
  have split: "success_header i = (be32 i @ be32 1) @ reply_bytes ?h" and rl: "length (reply_bytes ?h) = 16"
    by (simp_all add: success_header_def reply_bytes_def auth_bytes_def no_auth_def)
  have hl: "length (success_header i) = 24" by (simp add: success_header_def)
  have ml: "8 \<le> length ?m" "length ?m \<le> 18432" using room hl by auto
  note d = deliver_ok [OF ml, of "c_xdr c"]
  have invx: "xdr_inv ?x" using d(10) [OF inv] .
  have at: "in_at (reply_bytes ?h) ?x"
    using holds_in_at [of "be32 i @ be32 1" "reply_bytes ?h" "renc w" ?x] d(2,3,4) by (simp add: split)
  have "good_reply ?h" by (simp add: good_reply_def good_accepted_def no_auth_def)
  then have hdr: "xdr_recv_reply_header ?x = Some (Some ?h, advance 16 ?x)"
    using recvs_reply at invx by (simp add: recvs_def rl)
  let ?y = "(advance 16 ?x)\<lparr>x_op := XDR_DECODE\<rparr>"
  have invy: "xdr_inv ?y"
    using invx d(3,4) hl by (simp add: xdr_inv_def)
  have aty: "in_at (renc w) ?y"
    using holds_in_at [of "success_header i" "renc w" "[]" ?y] d(2,3,4) hl by (simp add: holds_msg_def)
  have res: "rproc ?y r0 = Some (True, w, advance (length (renc w)) ?y)"
    using xdr_filter.decode_ok [OF fr w(1) invy _ aty w(2)] by simp
  have "same_xid ?x"
  proof -
    obtain rest where o: "out_bytes (c_xdr c) = be32 i @ rest" using out by auto
    have "out_msg (c_xdr c) k = be32 i ! k" if "k < 4" for k
      using arg_cong [OF o, of "\<lambda>b. b ! k"] arg_cong [OF o, of length] that
      by (simp add: out_bytes_def nth_append)
    moreover have "in_msg ?x k = be32 i ! k" if "k < 4" for k
      using d(2) that by (simp add: holds_msg_def split nth_append)
    ultimately show ?thesis using d(6) by (simp add: same_xid_def)
  qed
  then show ?thesis
    using rst hdr res by (simp add: clnt_receive_def out_unlock_def xdr_std_msg_done_def Let_def)
qed


text \<open>
  What the other threads do while the client waits: when the message \<open>msg\<close> has gone out, the message
  \<open>reply\<close> arrives.
\<close>

definition answers :: "(CLIENT \<Rightarrow> CLIENT) \<Rightarrow> bytes \<Rightarrow> bytes \<Rightarrow> bool" where
  "answers wakeup msg reply \<longleftrightarrow>
     (\<forall>c. out_bytes (c_xdr c) = msg \<longrightarrow> wakeup c = c\<lparr>c_xdr := deliver reply (c_xdr c)\<rparr>)"

definition call_msg :: "CLIENT \<Rightarrow> u32 \<Rightarrow> bytes \<Rightarrow> bytes" where
  "call_msg c proc args = call_header (xid (c_xdr c) + 1) (x_prog (c_xdr c)) (x_vers (c_xdr c)) proc @ args"

definition reply_msg :: "CLIENT \<Rightarrow> bytes \<Rightarrow> bytes" where
  "reply_msg c res = success_header (xid (c_xdr c) + 1) @ res"

definition writes_all :: "(int \<Rightarrow> bytes \<Rightarrow> int) \<Rightarrow> bool" where
  "writes_all r_write \<longleftrightarrow> (\<forall>n bs. r_write n bs = int (length bs))"

text \<open>The client's side of a call that is answered.\<close>

lemma clnt_call_ok:
  assumes fa: "xdr_filter aproc aenc agood aready" and fr: "xdr_filter rproc renc rgood rready"
    and v: "agood v" and w: "rgood w" "rready r0 w"
    and room: "length (aenc v) + 40 \<le> 18432" "length (renc w) + 24 \<le> 18432"
    and inv: "xdr_inv (c_xdr c)" and rst: "c_in_reset c = 0" and wr: "writes_all r_write"
    and ans: "answers wakeup (call_msg c proc (aenc v)) (reply_msg c (renc w))"
  shows "\<exists>c'. clnt_call r_write id wakeup c proc aproc v rproc r0 = Some (RPC_SUCCESS, w, c') \<and> input_xdr_busy c' = 0"
proof -
  let ?c = "c_xdr c" and ?i = "xid (c_xdr c) + 1"
  let ?x0 = "?c\<lparr>x_op := XDR_ENCODE\<rparr>"
  let ?h = "call_header ?i (x_prog ?c) (x_vers ?c) proc"
  let ?x1 = "append_out ?h (started RPC_MSG_CALL (?x0\<lparr>x_prog := x_prog ?c, x_proc := proc\<rparr>))"
  let ?x2 = "append_out (aenc v) ?x1"
  let ?y = "?x2\<lparr>xdr_err := out_next ?x2\<rparr>"
  have hl: "length ?h = 40" by (simp add: call_header_def)
  have inv0: "xdr_inv ?x0" using inv by (simp add: xdr_inv_def)
  have start: "xdr_call_msg_start (x_prog ?c) (x_vers ?c) proc no_auth no_auth ?x0 = Some (True, ?x1)"
    using call_msg_start_ok [OF inv0, of "x_prog ?c" "x_vers ?c" proc] by simp
  have inv1: "xdr_inv ?x1"
    using inv0 by (intro xdr_inv_append_out xdr_inv_started) (simp_all add: xdr_inv_def fits_def hl)
  have fits: "fits (length (aenc v)) ?x1" using room(1) by (simp add: fits_def hl)
  have args: "aproc ?x1 v = Some (True, v, ?x2)"
    using xdr_filter.encode_ok [OF fa v inv1 _ fits] by simp
  have inv2: "xdr_inv ?x2" by (rule xdr_filter.encode_inv [OF fa v inv1 fits])
  have ob: "out_bytes ?x2 = ?h @ aenc v" by (simp add: out_bytes_append_out hl)
  have len: "int (length (out_bytes ?x2)) = out_next ?x2" by (simp add: out_bytes_def hl)
  have send: "xdr_std_msg_send r_write ?x2 = Some (True, ?y)"
    unfolding xdr_std_msg_send_def Let_def wr [unfolded writes_all_def, rule_format] len by simp
  have oy: "out_bytes ?y = ?h @ aenc v" using ob by (simp add: out_bytes_def)
  then have woken: "wakeup (c\<lparr>c_xdr := ?y\<rparr>)
      = (c\<lparr>c_xdr := ?y\<rparr>)\<lparr>c_xdr := deliver (success_header ?i @ renc w) (c_xdr (c\<lparr>c_xdr := ?y\<rparr>))\<rparr>"
    using ans by (simp add: answers_def call_msg_def reply_msg_def)
  have "\<exists>rest. out_bytes (c_xdr (c\<lparr>c_xdr := ?y\<rparr>)) = be32 ?i @ rest"
    using oy by (auto simp: call_header_def)
  then obtain c' where "clnt_receive rproc r0
      ((c\<lparr>c_xdr := ?y\<rparr>)\<lparr>c_xdr := deliver (success_header ?i @ renc w) (c_xdr (c\<lparr>c_xdr := ?y\<rparr>))\<rparr>)
      = Some (RPC_SUCCESS, w, c')" "input_xdr_busy c' = 0"
    using client_receives [OF fr w room(2), of "c\<lparr>c_xdr := ?y\<rparr>" ?i] inv2 rst by (auto simp: xdr_inv_def)
  then show ?thesis
    using rst start args send woken by (simp add: clnt_call_def Let_def)
qed

section \<open>The whole call\<close>

text \<open>
  A remote procedure call computes the service routine. For every argument and result
  type with XDR filters that satisfy their contract: if the call and its reply fit in a message,
  the modem writes whole messages and the server is registered for the client's program and
  version, then \<open>clnt_call\<close> returns \<open>RPC_SUCCESS\<close> with exactly the result the service routine
  computed from exactly the argument of the call, and frees the input buffer.
\<close>

theorem rpc_call_end_to_end:
  assumes fa: "xdr_filter aproc aenc agood aready" and fr: "xdr_filter rproc renc rgood rready"
    and "agood v" and "aready zero v" and "local v = (ret, w)" and "ret > 0" and "rgood w" and "rready r0 w"
    and "length (aenc v) + 40 \<le> 18432" and "length (renc w) + 24 \<le> 18432"
    and "xdr_inv (c_xdr c)" and "c_in_reset c = 0"
    and "s_xdr svc = Some x" and "xdr_inv x" and "s_prog svc = x_prog (c_xdr c)" and "x_vers x = x_vers (c_xdr c)"
    and "pid \<noteq> 0" and wr: "writes_all r_write"
  shows "\<exists>c'. clnt_call r_write id (answered pid (loc_apicbprog r_write aproc rproc zero local) svc) c 1
       aproc v rproc r0 = Some (RPC_SUCCESS, w, c') \<and> input_xdr_busy c' = 0"
proof (rule clnt_call_ok [OF fa fr assms(3,7-12) wr])
  let ?i = "xid (c_xdr c) + 1"
  obtain svc' where s: "served pid (loc_apicbprog r_write aproc rproc zero local) svc (call_msg c 1 (aenc v))
       = Some (Some \<lparr>rq_prog = x_prog (c_xdr c), rq_vers = x_vers (c_xdr c), rq_proc = 1\<rparr>, svc')"
    "out_bytes (the (s_xdr svc')) = success_header ?i @ renc w"
    using server_side [where local = local and v = v and zero = zero and i = ?i, OF fa fr assms(3-7,9,10,13-17)]
    unfolding call_msg_def by blast
  then show "answers (answered pid (loc_apicbprog r_write aproc rproc zero local) svc)
      (call_msg c 1 (aenc v)) (reply_msg c (renc w))"
    by (simp add: answers_def answered_def reply_of_def reply_msg_def)
qed

definition demo_client :: CLIENT where
  "demo_client = \<lparr>c_xdr = zero_xdr\<lparr>x_prog := 0x3000008C, x_vers := 0x00050000\<rparr>, input_xdr_busy = 0, got_cb = 0,
     cb_stop = -1, c_in_reset = 0, c_reset_cb = None\<rparr>"

definition demo_server :: registered_server where
  "demo_server = \<lparr>s_xdr = Some (zero_xdr\<lparr>x_prog := 0x3000008C, x_vers := 0x00050000\<rparr>), s_prog = 0x3000008C,
     s_vers = 0x00050000, s_active = None, s_dispatch = 0\<rparr>"

end
