(* ===== verification/Clnt_Threads.thy ===== *)
theory Clnt_Threads
  imports Clnt
begin

text \<open>
  The threads that meet on \<open>rx_mutex\<close> when a client is destroyed
  (\<^verbatim>\<open>gps/librpc/clnt.c\<close>): the receive thread \<open>rx_context\<close>, a thread in \<open>clnt_destroy\<close> from
  where it takes the mutex on, the threads in \<open>clnt_call\<close>, the callback threads, and threads
  that create further clients. A step is one access to what they share: the mutex, the
  client list, the wake-up pipe, the flags of a client, the end of the receive thread. A
  thread that has to wait has no step: for the mutex while another thread owns it, for the
  end of the receive thread in \<open>pthread_join\<close>, and for \<open>input_xdr_wait\<close> while the input buffer
  of a client is in use, which the receive thread does with \<open>rx_mutex\<close> held. What \<open>poll\<close>
  reports for a client is free. The receive thread's \<open>wait_reply_lock\<close> and \<open>wait_cb_lock\<close> are
  inside its steps; a callback thread holds the latter while it dispatches, so there the
  model has steps the program has to wait for, and what holds of every continuation in the
  model holds of every one of the program. One client is destroyed, and none is created
  once the list is empty.
\<close>

section \<open>The program counters and the shared state\<close>

text \<open>
  \<open>Rx_While\<close> is the test of the loop, \<open>Rx_Check\<close> the second test after \<open>poll\<close>, \<open>Rx_Recheck\<close> the
  comparison of the cached client count. \<open>Rx_Client k\<close> is at the head of the loop over the
  clients, with the client of index \<open>k\<close> next, and \<open>Rx_Input k\<close> waits for its input buffer.
\<close>

datatype rx_pc = Rx_While | Rx_Lock1 | Rx_Setup | Rx_Poll | Rx_Check | Rx_Lock2 | Rx_Recheck
  | Rx_Client nat | Rx_Input nat | Rx_Exit

datatype destroy_pc = D_Lock | D_Remove | D_Join | D_Unlock | D_Done

datatype owner = Free | By_Rx | By_Destroy

text \<open>
  A client: its address, \<open>input_xdr_busy\<close>, \<open>in_reset\<close>, \<open>got_cb\<close>, \<open>cb_stop\<close> (negative: no callback
  thread yet; 0: it runs; positive: it was stopped), and whether a thread is in \<open>clnt_call\<close>.
\<close>

record tclient =
  tc_id :: nat
  tc_busy :: bool
  tc_reset :: bool
  tc_got :: bool
  tc_stop :: int
  tc_calling :: bool

text \<open>\<open>t_cached\<close> is \<open>num_clients_cached\<close>: the array \<open>pbits\<close> has one entry more.\<close>

record tstate =
  t_clients :: "tclient list"
  t_cached :: nat
  t_owner :: owner
  t_pipe :: nat
  t_rx :: rx_pc
  t_victim :: nat
  t_d :: destroy_pc

abbreviation t_num :: "tstate \<Rightarrow> nat" where
  "t_num s \<equiv> length (t_clients s)"

definition t_ids :: "tstate \<Rightarrow> nat set" where
  "t_ids s = tc_id ` set (t_clients s)"

definition upd_client :: "nat \<Rightarrow> (tclient \<Rightarrow> tclient) \<Rightarrow> tstate \<Rightarrow> tstate" where
  "upd_client k f s = s\<lparr>t_clients := (t_clients s)[k := f (t_clients s ! k)]\<rparr>"

text \<open>What a message does to its client: the buffer is in use, and a call starts the callback
  thread if there was none.\<close>

definition got_reply :: "tclient \<Rightarrow> tclient" where
  "got_reply c = c\<lparr>tc_busy := True\<rparr>"

definition got_call :: "tclient \<Rightarrow> tclient" where
  "got_call c = c\<lparr>tc_busy := True, tc_got := True, tc_stop := (if tc_stop c < 0 then 0 else tc_stop c)\<rparr>"

text \<open>The client \<open>clnt_destroy\<close> has locked.\<close>

definition locked :: "tstate \<Rightarrow> tclient \<Rightarrow> bool" where
  "locked s c \<longleftrightarrow> tc_id c = t_victim s \<and> t_d s \<noteq> D_Done"

inductive tstep :: "tstate \<Rightarrow> tstate \<Rightarrow> bool" where
  rx_while: "t_rx s = Rx_While \<Longrightarrow> tstep s (s\<lparr>t_rx := (if t_num s \<noteq> 0 then Rx_Lock1 else Rx_Exit)\<rparr>)"
| rx_lock1: "t_rx s = Rx_Lock1 \<Longrightarrow> t_owner s = Free \<Longrightarrow> tstep s (s\<lparr>t_rx := Rx_Setup, t_owner := By_Rx\<rparr>)"
| rx_setup: "t_rx s = Rx_Setup \<Longrightarrow> tstep s (s\<lparr>t_rx := Rx_Poll, t_owner := Free, t_cached := t_num s\<rparr>)"
| rx_poll_pipe: "t_rx s = Rx_Poll \<Longrightarrow> 0 < t_pipe s \<Longrightarrow> tstep s (s\<lparr>t_rx := Rx_Check, t_pipe := t_pipe s - 1\<rparr>)"
| rx_poll_event: "t_rx s = Rx_Poll \<Longrightarrow> t_pipe s = 0 \<Longrightarrow> tstep s (s\<lparr>t_rx := Rx_Check\<rparr>)"
| rx_check: "t_rx s = Rx_Check \<Longrightarrow> tstep s (s\<lparr>t_rx := (if t_num s = 0 then Rx_Exit else Rx_Lock2)\<rparr>)"
| rx_poll_error: "t_rx s = Rx_Check \<Longrightarrow> t_num s \<noteq> 0 \<Longrightarrow> tstep s (s\<lparr>t_rx := Rx_While\<rparr>)"
| rx_lock2: "t_rx s = Rx_Lock2 \<Longrightarrow> t_owner s = Free \<Longrightarrow> tstep s (s\<lparr>t_rx := Rx_Recheck, t_owner := By_Rx\<rparr>)"
| rx_recheck: "t_rx s = Rx_Recheck \<Longrightarrow>
     tstep s (if t_cached s \<noteq> t_num s then s\<lparr>t_rx := Rx_While, t_owner := Free\<rparr> else s\<lparr>t_rx := Rx_Client 0\<rparr>)"
| rx_nothing: "t_rx s = Rx_Client k \<Longrightarrow> k < t_num s \<Longrightarrow> tstep s (s\<lparr>t_rx := Rx_Client (k + 1)\<rparr>)"
| rx_reset_begin: "t_rx s = Rx_Client k \<Longrightarrow> k < t_num s \<Longrightarrow> \<not> tc_reset (t_clients s ! k) \<Longrightarrow>
     tstep s (upd_client k (\<lambda>c. c\<lparr>tc_reset := True, tc_busy := False\<rparr>) (s\<lparr>t_rx := Rx_Client (k + 1)\<rparr>))"
| rx_reset_end: "t_rx s = Rx_Client k \<Longrightarrow> k < t_num s \<Longrightarrow> tc_reset (t_clients s ! k) \<Longrightarrow>
     r = Rx_Client (k + 1) \<or> r = Rx_Input k \<Longrightarrow>
     tstep s (upd_client k (\<lambda>c. c\<lparr>tc_reset := False\<rparr>) (s\<lparr>t_rx := r\<rparr>))"
| rx_pollin: "t_rx s = Rx_Client k \<Longrightarrow> k < t_num s \<Longrightarrow> tstep s (s\<lparr>t_rx := Rx_Input k\<rparr>)"
| rx_read_error: "t_rx s = Rx_Input k \<Longrightarrow> \<not> tc_busy (t_clients s ! k) \<Longrightarrow> tstep s (s\<lparr>t_rx := Rx_Client (k + 1)\<rparr>)"
| rx_read: "t_rx s = Rx_Input k \<Longrightarrow> \<not> tc_busy (t_clients s ! k) \<Longrightarrow> f = got_reply \<or> f = got_call \<Longrightarrow>
     tstep s (upd_client k f (s\<lparr>t_rx := Rx_Client (k + 1)\<rparr>))"
| rx_end: "t_rx s = Rx_Client k \<Longrightarrow> \<not> k < t_num s \<Longrightarrow> tstep s (s\<lparr>t_rx := Rx_While, t_owner := Free\<rparr>)"
| call: "j < t_num s \<Longrightarrow> \<not> locked s (t_clients s ! j) \<Longrightarrow> tstep s (upd_client j (\<lambda>c. c\<lparr>tc_calling := True\<rparr>) s)"
| call_end: "j < t_num s \<Longrightarrow> tc_calling (t_clients s ! j) \<Longrightarrow>
     tstep s (upd_client j (\<lambda>c. c\<lparr>tc_calling := False, tc_busy := False\<rparr>) s)"
| cb_dispatch: "j < t_num s \<Longrightarrow> tc_stop (t_clients s ! j) = 0 \<Longrightarrow> tc_got (t_clients s ! j) \<Longrightarrow>
     tstep s (upd_client j (\<lambda>c. c\<lparr>tc_got := False, tc_busy := False\<rparr>) s)"
| cb_no_server: "j < t_num s \<Longrightarrow> tc_stop (t_clients s ! j) = 0 \<Longrightarrow> tc_got (t_clients s ! j) \<Longrightarrow>
     tstep s (upd_client j (\<lambda>c. c\<lparr>tc_got := False\<rparr>) s)"
| create: "t_owner s = Free \<Longrightarrow> t_clients s \<noteq> [] \<Longrightarrow> a \<notin> t_ids s \<Longrightarrow> a \<noteq> t_victim s \<Longrightarrow>
     tstep s (s\<lparr>t_clients := \<lparr>tc_id = a, tc_busy = False, tc_reset = False, tc_got = False, tc_stop = - 1,
                              tc_calling = False\<rparr> # t_clients s, t_pipe := t_pipe s + 1\<rparr>)"
| d_lock: "t_d s = D_Lock \<Longrightarrow> t_owner s = Free \<Longrightarrow> tstep s (s\<lparr>t_d := D_Remove, t_owner := By_Destroy\<rparr>)"
| d_remove: "t_d s = D_Remove \<Longrightarrow> cs = filter (\<lambda>c. tc_id c \<noteq> t_victim s) (t_clients s) \<Longrightarrow>
     tstep s (if cs = [] then s\<lparr>t_clients := cs, t_pipe := t_pipe s + 1, t_d := D_Join\<rparr>
              else s\<lparr>t_clients := cs, t_d := D_Unlock\<rparr>)"
| d_join: "t_d s = D_Join \<Longrightarrow> t_rx s = Rx_Exit \<Longrightarrow> tstep s (s\<lparr>t_d := D_Unlock\<rparr>)"
| d_unlock: "t_d s = D_Unlock \<Longrightarrow> tstep s (s\<lparr>t_d := D_Done, t_owner := Free\<rparr>)"

inductive_cases tstep_cases: "tstep s s'"

text \<open>
  The receive thread is about to test its loop; \<open>clnt_destroy\<close> has the lock of its client, so
  that no call of that client is in progress, has stopped and joined its callback thread if
  there was one, and is about to take \<open>rx_mutex\<close>.
\<close>

definition t_init :: "tclient list \<Rightarrow> nat \<Rightarrow> tstate" where
  "t_init cs v = \<lparr>t_clients = cs, t_cached = 0, t_owner = Free, t_pipe = 0, t_rx = Rx_While,
                  t_victim = v, t_d = D_Lock\<rparr>"

definition init_ok :: "tclient list \<Rightarrow> nat \<Rightarrow> bool" where
  "init_ok cs v \<longleftrightarrow> distinct (map tc_id cs) \<and> v \<in> tc_id ` set cs \<and>
     (\<forall>c\<in>set cs. tc_id c = v \<longrightarrow> \<not> tc_calling c \<and> tc_stop c \<noteq> 0)"

definition reachable :: "tclient list \<Rightarrow> nat \<Rightarrow> tstate \<Rightarrow> bool" where
  "reachable cs v s \<longleftrightarrow> init_ok cs v \<and> tstep\<^sup>*\<^sup>* (t_init cs v) s"

section \<open>Who holds the mutex\<close>

fun rx_holds :: "rx_pc \<Rightarrow> bool" where
  "rx_holds Rx_Setup = True"
| "rx_holds Rx_Recheck = True"
| "rx_holds (Rx_Client k) = True"
| "rx_holds (Rx_Input k) = True"
| "rx_holds _ = False"

fun d_holds :: "destroy_pc \<Rightarrow> bool" where
  "d_holds D_Lock = False"
| "d_holds D_Done = False"
| "d_holds _ = True"

text \<open>Where the receive thread stands in the list, and that its array fits the list.\<close>

fun rx_in_list :: "rx_pc \<Rightarrow> nat \<Rightarrow> nat \<Rightarrow> bool" where
  "rx_in_list (Rx_Client k) n m \<longleftrightarrow> n = m \<and> k \<le> n"
| "rx_in_list (Rx_Input k) n m \<longleftrightarrow> n = m \<and> k < n"
| "rx_in_list _ n m \<longleftrightarrow> True"

definition t_inv :: "tstate \<Rightarrow> bool" where
  "t_inv s \<longleftrightarrow> (rx_holds (t_rx s) \<longleftrightarrow> t_owner s = By_Rx) \<and> (d_holds (t_d s) \<longleftrightarrow> t_owner s = By_Destroy) \<and>
     rx_in_list (t_rx s) (t_num s) (t_cached s) \<and>
     (t_d s = D_Lock \<or> t_d s = D_Remove \<or> t_victim s \<notin> t_ids s) \<and>
     (t_d s = D_Lock \<or> t_d s = D_Remove \<longrightarrow> t_clients s \<noteq> []) \<and> (t_rx s = Rx_Exit \<longrightarrow> t_num s = 0)"

lemma upd_client_fields [simp]:
  "t_num (upd_client k f s) = t_num s" "t_cached (upd_client k f s) = t_cached s"
  "t_owner (upd_client k f s) = t_owner s" "t_pipe (upd_client k f s) = t_pipe s"
  "t_rx (upd_client k f s) = t_rx s" "t_victim (upd_client k f s) = t_victim s"
  "t_d (upd_client k f s) = t_d s" "(t_clients (upd_client k f s) = []) = (t_clients s = [])"
  by (simp_all add: upd_client_def)

lemma got_id [simp]: "tc_id (got_reply c) = tc_id c" "tc_id (got_call c) = tc_id c"
  by (simp_all add: got_reply_def got_call_def)

lemma upd_client_ids [simp]:
  assumes "k < t_num s" and "\<And>c. tc_id (f c) = tc_id c"
  shows "t_ids (upd_client k f s) = t_ids s"
proof -
  have "map tc_id (t_clients (upd_client k f s)) = map tc_id (t_clients s)"
    using assms by (simp add: upd_client_def map_update list_update_same_conv)
  then show ?thesis unfolding t_ids_def by (metis list.set_map)
qed

lemma t_ids_simps [simp]:
  "t_ids (s\<lparr>t_rx := r\<rparr>) = t_ids s" "t_ids (s\<lparr>t_owner := w\<rparr>) = t_ids s" "t_ids (s\<lparr>t_cached := n\<rparr>) = t_ids s"
  "t_ids (s\<lparr>t_pipe := n\<rparr>) = t_ids s" "t_ids (s\<lparr>t_d := d\<rparr>) = t_ids s"
  "t_ids (s\<lparr>t_clients := cs\<rparr>) = tc_id ` set cs"
  by (simp_all add: t_ids_def)

lemma t_ids_nth: "k < t_num s \<Longrightarrow> tc_id (t_clients s ! k) \<in> t_ids s"
  by (simp add: t_ids_def)

lemma rx_not_in_list [simp]: "\<not> rx_holds r \<Longrightarrow> rx_in_list r n m"
  by (cases r) auto

lemma t_inv_step: "tstep s s' \<Longrightarrow> t_inv s \<Longrightarrow> t_inv s'"
  by (induction rule: tstep.induct) (auto simp: t_inv_def t_ids_def [symmetric] split: if_splits)

lemma t_inv_reachable:
  assumes "reachable cs v s"
  shows "t_inv s"
proof -
  have ok: "init_ok cs v" and "tstep\<^sup>*\<^sup>* (t_init cs v) s" using assms by (simp_all add: reachable_def)
  from this(2) show ?thesis
  proof (induction rule: rtranclp_induct)
    case base
    show ?case using ok by (auto simp: t_inv_def t_init_def init_ok_def)
  next
    case (step y z)
    then show ?case by (auto intro: t_inv_step)
  qed
qed

section \<open>Waits that never end\<close>

text \<open>The receive thread waits for the mutex, and the thread that has it for the receive thread.\<close>

definition join_deadlock :: "tstate \<Rightarrow> bool" where
  "join_deadlock s \<longleftrightarrow> t_d s = D_Join \<and> t_owner s = By_Destroy \<and> (t_rx s = Rx_Lock1 \<or> t_rx s = Rx_Lock2)"

lemma join_deadlock_step: "join_deadlock s \<Longrightarrow> tstep s s' \<Longrightarrow> join_deadlock s'"
  by (erule tstep_cases) (auto simp: join_deadlock_def split: if_splits)

lemma join_deadlock_forever: "tstep\<^sup>*\<^sup>* s s' \<Longrightarrow> join_deadlock s \<Longrightarrow> join_deadlock s'"
  by (induction rule: rtranclp_induct) (auto intro: join_deadlock_step)

text \<open>
  The receive thread waits with the mutex held for the buffer of the client that is to be
  destroyed: its callback thread was stopped and no thread can call it.
\<close>

definition input_deadlock :: "nat \<Rightarrow> tstate \<Rightarrow> bool" where
  "input_deadlock k s \<longleftrightarrow> t_d s = D_Lock \<and> t_owner s = By_Rx \<and> k < t_num s \<and> t_rx s = Rx_Input k \<and>
     tc_id (t_clients s ! k) = t_victim s \<and> tc_busy (t_clients s ! k) \<and>
     \<not> tc_calling (t_clients s ! k) \<and> tc_stop (t_clients s ! k) \<noteq> 0"

lemma input_deadlock_step: "input_deadlock k s \<Longrightarrow> tstep s s' \<Longrightarrow> input_deadlock k s'"
  by (erule tstep_cases)
    (auto simp: input_deadlock_def locked_def upd_client_def nth_list_update split: if_splits)

lemma input_deadlock_forever: "tstep\<^sup>*\<^sup>* s s' \<Longrightarrow> input_deadlock k s \<Longrightarrow> input_deadlock k s'"
  by (induction rule: rtranclp_induct) (auto intro: input_deadlock_step)

section \<open>Properties\<close>

text \<open>
  C30. Whatever the interleaving of the receive thread with \<open>clnt_destroy\<close>, calls, callback
  threads and the creation of clients: while the receive thread works on a client, its index
  is one of the client list, the entry of the client in \<open>pbits\<close>, which was allocated for the
  number of clients before \<open>poll\<close>, is inside that array, and a client that \<open>clnt_destroy\<close> has
  taken out of the list is not the one worked on.
\<close>

theorem rx_client_in_range:
  assumes "reachable cs v s" and "t_rx s = Rx_Input k \<or> t_rx s = Rx_Client k \<and> k < t_num s"
  shows "k < t_num s \<and> Suc k < t_cached s + 1 \<and> \<not> d_holds (t_d s) \<and>
    (t_d s = D_Done \<longrightarrow> tc_id (t_clients s ! k) \<noteq> v)"
proof -
  have inv: "t_inv s" by (rule t_inv_reachable [OF assms(1)])
  have "tstep\<^sup>*\<^sup>* a b \<Longrightarrow> t_victim b = t_victim a" for a b
    by (induction rule: rtranclp_induct) (auto elim!: tstep_cases)
  then have v: "t_victim s = v" using assms(1) by (fastforce simp: reachable_def t_init_def)
  have rng: "k < t_num s \<and> t_num s = t_cached s" "t_owner s = By_Rx"
    using inv assms(2) by (auto simp: t_inv_def)
  moreover have "\<not> d_holds (t_d s)" using inv rng by (auto simp: t_inv_def)
  moreover have "t_d s = D_Done \<Longrightarrow> tc_id (t_clients s ! k) \<noteq> v"
    using inv t_ids_nth [of k s] rng(1) v by (auto simp: t_inv_def)
  ultimately show ?thesis by auto
qed

definition demo_client :: tclient where
  "demo_client = \<lparr>tc_id = 7, tc_busy = False, tc_reset = False, tc_got = False, tc_stop = 1, tc_calling = False\<rparr>"

text \<open>A run of the receive thread up to a client's buffer, with nothing else happening.\<close>

lemma rx_round:
  assumes "t_rx s = Rx_While" and "t_owner s = Free" and "t_pipe s = 0" and "t_clients s \<noteq> []"
  shows "tstep\<^sup>*\<^sup>* s (s\<lparr>t_rx := Rx_Input 0, t_owner := By_Rx, t_cached := t_num s\<rparr>)"
proof -
  let ?t = "s\<lparr>t_cached := t_num s\<rparr>"
  have "tstep\<^sup>*\<^sup>* s (s\<lparr>t_rx := Rx_Lock1\<rparr>)" using r_into_rtranclp [of tstep, OF rx_while [of s]] assms by (cases s) simp
  also have "tstep \<dots> (s\<lparr>t_rx := Rx_Setup, t_owner := By_Rx\<rparr>)"
    using rx_lock1 [of "s\<lparr>t_rx := Rx_Lock1\<rparr>"] assms by (cases s) simp
  also have "tstep \<dots> (?t\<lparr>t_rx := Rx_Poll\<rparr>)"
    using rx_setup [of "s\<lparr>t_rx := Rx_Setup, t_owner := By_Rx\<rparr>"] assms by (cases s) simp
  also have "tstep \<dots> (?t\<lparr>t_rx := Rx_Check\<rparr>)" using rx_poll_event [of "?t\<lparr>t_rx := Rx_Poll\<rparr>"] assms by (cases s) simp
  also have "tstep \<dots> (?t\<lparr>t_rx := Rx_Lock2\<rparr>)" using rx_check [of "?t\<lparr>t_rx := Rx_Check\<rparr>"] assms by (cases s) simp
  also have "tstep \<dots> (?t\<lparr>t_rx := Rx_Recheck, t_owner := By_Rx\<rparr>)"
    using rx_lock2 [of "?t\<lparr>t_rx := Rx_Lock2\<rparr>"] assms by (cases s) simp
  also have "tstep \<dots> (?t\<lparr>t_rx := Rx_Client 0, t_owner := By_Rx\<rparr>)"
    using rx_recheck [of "?t\<lparr>t_rx := Rx_Recheck, t_owner := By_Rx\<rparr>"] by (cases s) simp
  also have "tstep \<dots> (?t\<lparr>t_rx := Rx_Input 0, t_owner := By_Rx\<rparr>)"
    using rx_pollin [of "?t\<lparr>t_rx := Rx_Client 0, t_owner := By_Rx\<rparr>" 0] assms by (cases s) simp
  finally show ?thesis by (cases s) simp
qed

text \<open>
  C31. Destroying a client can wait forever, in two ways. With one client, a state can be
  reached in which \<open>clnt_destroy\<close> waits in \<open>pthread_join\<close> with the mutex held and the receive
  thread, which tested the client count before, waits for the mutex: in every continuation
  both still wait. And a call that arrives for a client whose callback thread \<open>clnt_destroy\<close>
  has already stopped fills the input buffer for good: a state can be reached in which the
  receive thread waits for that buffer with the mutex held, and in every continuation it
  does, and \<open>clnt_destroy\<close> never gets the mutex.
\<close>

theorem clnt_destroy_deadlock:
  "(\<exists>s. reachable [demo_client] 7 s \<and>
      (\<forall>s'. tstep\<^sup>*\<^sup>* s s' \<longrightarrow> t_d s' = D_Join \<and> t_owner s' = By_Destroy \<and> (t_rx s' = Rx_Lock1 \<or> t_rx s' = Rx_Lock2))) \<and>
   (\<exists>s. reachable [demo_client] 7 s \<and>
      (\<forall>s'. tstep\<^sup>*\<^sup>* s s' \<longrightarrow> t_d s' = D_Lock \<and> t_owner s' = By_Rx \<and> t_rx s' = Rx_Input 0))"
proof (intro conjI)
  let ?s0 = "t_init [demo_client] 7"
  have ok: "init_ok [demo_client] 7" by (simp add: init_ok_def demo_client_def)
  let ?s1 = "?s0\<lparr>t_rx := Rx_Lock1\<rparr>"
  let ?s2 = "?s1\<lparr>t_d := D_Remove, t_owner := By_Destroy\<rparr>"
  let ?s3 = "?s2\<lparr>t_clients := [], t_pipe := 1, t_d := D_Join\<rparr>"
  have "tstep\<^sup>*\<^sup>* ?s0 ?s1" using r_into_rtranclp [of tstep, OF rx_while [of ?s0]] by (simp add: t_init_def)
  also have "tstep ?s1 ?s2" using d_lock [of ?s1] by (simp add: t_init_def)
  also have "tstep ?s2 ?s3" using d_remove [of ?s2 "[]"] by (simp add: t_init_def demo_client_def)
  finally have "reachable [demo_client] 7 ?s3" using ok by (simp add: reachable_def)
  moreover have "join_deadlock ?s3" by (simp add: join_deadlock_def t_init_def)
  ultimately show "\<exists>s. reachable [demo_client] 7 s \<and>
      (\<forall>s'. tstep\<^sup>*\<^sup>* s s' \<longrightarrow> t_d s' = D_Join \<and> t_owner s' = By_Destroy \<and> (t_rx s' = Rx_Lock1 \<or> t_rx s' = Rx_Lock2))"
    using join_deadlock_forever unfolding join_deadlock_def by blast
  let ?c = "got_call demo_client"
  let ?r1 = "?s0\<lparr>t_rx := Rx_Input 0, t_owner := By_Rx, t_cached := 1\<rparr>"
  let ?r2 = "?r1\<lparr>t_rx := Rx_Client 1, t_clients := [?c]\<rparr>"
  let ?r3 = "?r2\<lparr>t_rx := Rx_While, t_owner := Free\<rparr>"
  let ?r4 = "?r3\<lparr>t_rx := Rx_Input 0, t_owner := By_Rx\<rparr>"
  have "tstep\<^sup>*\<^sup>* ?s0 ?r1" using rx_round [of ?s0] by (simp add: t_init_def)
  also have "tstep ?r1 ?r2"
    using rx_read [of ?r1 0 got_call] by (simp add: t_init_def upd_client_def demo_client_def)
  also have "tstep ?r2 ?r3" using rx_end [of ?r2 1] by (simp add: t_init_def)
  also have "tstep\<^sup>*\<^sup>* ?r3 ?r4" using rx_round [of ?r3] by (simp add: t_init_def)
  finally have "reachable [demo_client] 7 ?r4" using ok by (simp add: reachable_def)
  moreover have "input_deadlock 0 ?r4"
    by (simp add: input_deadlock_def t_init_def got_call_def demo_client_def)
  ultimately show "\<exists>s. reachable [demo_client] 7 s \<and>
      (\<forall>s'. tstep\<^sup>*\<^sup>* s s' \<longrightarrow> t_d s' = D_Lock \<and> t_owner s' = By_Rx \<and> t_rx s' = Rx_Input 0)"
    using input_deadlock_forever unfolding input_deadlock_def by blast
qed

theorem clnt_destroy_deadlock_witness:
  "\<exists>s. reachable [demo_client] 7 s \<and> t_d s = D_Join \<and> t_owner s = By_Destroy"
  using clnt_destroy_deadlock by blast

theorem rx_client_in_range_witness:
  "\<exists>s. reachable [demo_client] 7 s \<and> t_rx s = Rx_Input 0 \<and> 0 < t_num s \<and> Suc 0 < t_cached s + 1 \<and> \<not> d_holds (t_d s)"
proof -
  let ?s0 = "t_init [demo_client] 7"
  let ?r1 = "?s0\<lparr>t_rx := Rx_Input 0, t_owner := By_Rx, t_cached := 1\<rparr>"
  have "tstep\<^sup>*\<^sup>* ?s0 ?r1" using rx_round [of ?s0] by (simp add: t_init_def)
  then have r: "reachable [demo_client] 7 ?r1" by (simp add: reachable_def init_ok_def demo_client_def)
  have "t_rx ?r1 = Rx_Input 0" by simp
  with rx_client_in_range [OF r, of 0] r show ?thesis by blast
qed

end
