(* ===== verification/Loc_Sync_Call.thy ===== *)
theory Loc_Sync_Call
  imports Ancora_Prelude
begin

text \<open>
  Synchronous calls over the asynchronous location API,
  \<^verbatim>\<open>gps/loc_api/libloc_api-rpc/src/loc_api_sync_call.c\<close>: eight slots, each of which a caller
  selects for the event it expects, waits on, and frees. What the code does between taking and
  releasing its locks is one step; what other threads do while a caller is blocked in a
  condition variable is a parameter of the waiting operations.
\<close>

section \<open>Data\<close>

abbreviation (input) LOC_SYNC_CALL_BUFFER_SIZE :: nat where "LOC_SYNC_CALL_BUFFER_SIZE \<equiv> 8"
abbreviation (input) RPC_LOC_API_SUCCESS :: int where "RPC_LOC_API_SUCCESS \<equiv> 0"
abbreviation (input) RPC_LOC_API_INVALID_PARAMETER :: int where "RPC_LOC_API_INVALID_PARAMETER \<equiv> 5"
abbreviation (input) RPC_LOC_API_ENGINE_BUSY :: int where "RPC_LOC_API_ENGINE_BUSY \<equiv> 6"
abbreviation (input) RPC_LOC_API_TIMEOUT :: int where "RPC_LOC_API_TIMEOUT \<equiv> 8"
abbreviation (input) RPC_LOC_EVENT_IOCTL_REPORT :: u64 where "RPC_LOC_EVENT_IOCTL_REPORT \<equiv> 0x80"

text \<open>
  The payload of an event is a union; \<open>ioctl_report\<close> is the member the code looks into, and
  \<open>pl_rest\<close> stands for the rest of its bytes.
\<close>

record ioctl_callback =
  io_type :: u32
  io_status :: int
  io_data :: bytes

record event_payload =
  ioctl_report :: ioctl_callback
  pl_rest :: bytes

record sync_slot =
  loc_handle :: int
  loc_cb_is_selected :: bool
  loc_cb_is_waiting :: bool
  loc_cb_has_arrived :: bool
  loc_cb_wait_event_mask :: u64
  ioctl_type :: u32
  loc_cb_received_payload :: event_payload
  loc_cb_received_event_mask :: u64

record sync_data =
  sd_size :: nat
  in_use :: bool
  slot_in_use :: "bool list"
  slots :: "sync_slot list"

text \<open>The two arrays have \<open>LOC_SYNC_CALL_BUFFER_SIZE\<close> elements; an index outside is a fault.\<close>

definition upd_slot :: "nat \<Rightarrow> (sync_slot \<Rightarrow> sync_slot) \<Rightarrow> sync_data \<Rightarrow> sync_data" where
  "upd_slot i f d = d\<lparr>slots := (slots d)[i := f (slots d ! i)]\<rparr>"

definition loc_api_sync_call_init :: "sync_data \<Rightarrow> sync_data" where
  "loc_api_sync_call_init d =
     d\<lparr>sd_size := LOC_SYNC_CALL_BUFFER_SIZE, in_use := False,
       slot_in_use := map (\<lambda>_. False) (slot_in_use d),
       slots := map (\<lambda>s. s\<lparr>loc_handle := -1, loc_cb_is_selected := False, loc_cb_is_waiting := False,
                           loc_cb_has_arrived := False, loc_cb_wait_event_mask := 0,
                           loc_cb_received_event_mask := 0\<rparr>) (slots d)\<rparr>"

section \<open>Callbacks\<close>

definition loc_match_callback :: "u64 \<Rightarrow> u32 \<Rightarrow> u64 \<Rightarrow> event_payload \<Rightarrow> bool" where
  "loc_match_callback wait_mask wait_ioctl event_mask pl \<longleftrightarrow>
    (if event_mask AND wait_mask = 0 then False
     else event_mask \<noteq> RPC_LOC_EVENT_IOCTL_REPORT \<or> wait_ioctl = 0 \<or> io_type (ioctl_report pl) = wait_ioctl)"

definition slot_matches :: "int \<Rightarrow> u64 \<Rightarrow> event_payload \<Rightarrow> sync_slot \<Rightarrow> bool" where
  "slot_matches h ev pl s \<longleftrightarrow> loc_handle s = h \<and>
     loc_match_callback (loc_cb_wait_event_mask s) (ioctl_type s) ev pl \<and> \<not> loc_cb_has_arrived s"

definition slot_receive :: "u64 \<Rightarrow> event_payload \<Rightarrow> sync_slot \<Rightarrow> sync_slot" where
  "slot_receive ev pl s =
    (let s = s\<lparr>loc_cb_received_payload := pl\<rparr>
     in if loc_cb_is_waiting s then s\<lparr>loc_cb_received_event_mask := ev\<rparr> else s\<lparr>loc_cb_has_arrived := True\<rparr>)"

text \<open>
  The loop over the slots from index \<open>i\<close>, \<open>n\<close> of them left: it stops when the callback is
  consumed. The result is the data, whether it is consumed, and the flag \<open>in_use\<close> gathered.
\<close>

fun process_loop :: "nat \<Rightarrow> nat \<Rightarrow> int \<Rightarrow> u64 \<Rightarrow> event_payload \<Rightarrow> bool \<Rightarrow> sync_data \<Rightarrow> (bool \<times> bool \<times> sync_data)" where
  "process_loop 0 i h ev pl used d = (False, used, d)"
| "process_loop (Suc n) i h ev pl used d =
    (let used = (used \<or> slot_in_use d ! i)
     in if slot_in_use d ! i \<and> slot_matches h ev pl (slots d ! i)
        then (True, used, upd_slot i (slot_receive ev pl) d)
        else process_loop n (i + 1) h ev pl used d)"

definition loc_api_callback_process_sync_call :: "int \<Rightarrow> u64 \<Rightarrow> event_payload \<Rightarrow> sync_data \<Rightarrow> sync_data" where
  "loc_api_callback_process_sync_call h ev pl d =
    (if \<not> in_use d then d
     else case process_loop (sd_size d) 0 h ev pl False d of
       (consumed, used, d) \<Rightarrow> if \<not> used then d\<lparr>in_use := False\<rparr> else d)"

section \<open>Slots\<close>

fun first_free :: "nat \<Rightarrow> nat \<Rightarrow> sync_data \<Rightarrow> nat option" where
  "first_free 0 i d = None"
| "first_free (Suc n) i d = (if \<not> slot_in_use d ! i then Some i else first_free n (i + 1) d)"

definition loc_alloc_slot :: "sync_data \<Rightarrow> int \<times> sync_data" where
  "loc_alloc_slot d =
    (case first_free (sd_size d) 0 d of
       None \<Rightarrow> (-1, d)
     | Some i \<Rightarrow> (int i, d\<lparr>slot_in_use := (slot_in_use d)[i := True], in_use := True\<rparr>))"

definition loc_free_slot :: "nat \<Rightarrow> sync_data \<Rightarrow> sync_data" where
  "loc_free_slot i d =
    (let d = d\<lparr>slot_in_use := (slot_in_use d)[i := False]\<rparr>
     in if \<forall>k < sd_size d. \<not> slot_in_use d ! k then d\<lparr>in_use := False\<rparr> else d)"

text \<open>What \<open>loc_api_select_callback\<close> writes into the slot it was given.\<close>

definition select_slot :: "int \<Rightarrow> u64 \<Rightarrow> u32 \<Rightarrow> sync_slot \<Rightarrow> sync_slot" where
  "select_slot h emask io s =
     s\<lparr>loc_handle := h, loc_cb_is_selected := True, loc_cb_is_waiting := False, loc_cb_has_arrived := False,
       loc_cb_wait_event_mask := (if io \<noteq> 0 then emask OR RPC_LOC_EVENT_IOCTL_REPORT else emask), ioctl_type := io\<rparr>"

text \<open>\<open>between\<close> is what other threads do after the slot was allocated and before its lock is taken.\<close>

definition loc_api_select_callback ::
  "(sync_data \<Rightarrow> sync_data) \<Rightarrow> int \<Rightarrow> u64 \<Rightarrow> u32 \<Rightarrow> sync_data \<Rightarrow> int \<times> sync_data" where
  "loc_api_select_callback between h emask io d =
    (case loc_alloc_slot d of (sid, d) \<Rightarrow>
      if sid < 0 then (-1, d) else (sid, upd_slot (nat sid) (select_slot h emask io) (between d)))"

section \<open>Waiting\<close>

text \<open>
  The user's two buffers are optional; \<open>None\<close> is a null pointer, and the result is what they
  hold afterwards.
\<close>

definition loc_save_user_payload ::
  "event_payload option \<Rightarrow> ioctl_callback option \<Rightarrow> event_payload \<Rightarrow> event_payload option \<times> ioctl_callback option" where
  "loc_save_user_payload ucb uio pl = (map_option (\<lambda>_. pl) ucb, map_option (\<lambda>_. ioctl_report pl) uio)"

text \<open>
  \<open>others\<close> is what other threads do while the caller is blocked in \<open>pthread_cond_timedwait\<close>, and
  \<open>timedout\<close> whether that call returns \<open>ETIMEDOUT\<close>.
\<close>

definition loc_api_wait_callback ::
  "(sync_data \<Rightarrow> sync_data) \<Rightarrow> bool \<Rightarrow> int \<Rightarrow> event_payload option \<Rightarrow> ioctl_callback option \<Rightarrow> sync_data
     \<Rightarrow> int \<times> (event_payload option \<times> ioctl_callback option) \<times> sync_data" where
  "loc_api_wait_callback others timedout select_id ucb uio d =
    (if select_id < 0 \<or> select_id \<ge> int (sd_size d) \<or> \<not> slot_in_use d ! nat select_id
     then (RPC_LOC_API_INVALID_PARAMETER, (ucb, uio), d)
     else let i = nat select_id; s = slots d ! i in
       if loc_cb_has_arrived s
       then (RPC_LOC_API_SUCCESS, loc_save_user_payload ucb uio (loc_cb_received_payload s), loc_free_slot i d)
       else if loc_cb_is_waiting s then (RPC_LOC_API_ENGINE_BUSY, (ucb, uio), loc_free_slot i d)
       else let d = others (upd_slot i (\<lambda>s. s\<lparr>loc_cb_is_waiting := True\<rparr>) d);
                pl = loc_cb_received_payload (slots d ! i);
                d = upd_slot i (\<lambda>s. s\<lparr>loc_cb_is_waiting := False\<rparr>) d
            in if timedout then (RPC_LOC_API_TIMEOUT, (ucb, uio), loc_free_slot i d)
               else (RPC_LOC_API_SUCCESS, loc_save_user_payload ucb uio pl, loc_free_slot i d))"

section \<open>The synchronous ioctl\<close>

text \<open>
  \<open>loc_ioctl k\<close> is the result of the \<open>k\<close>-th attempt to send the ioctl. When the engine is busy the caller blocks in
  \<open>pthread_cond_wait\<close> until a callback signals \<open>loc_cb_arrived_cond\<close>: \<open>wake k\<close> is what other threads do during the \<open>k\<close>-th
  such wait up to the signal, and \<open>None\<close> if no signal ever comes. There is no timeout, so then the call does not return.
  Neither does it if the engine stays busy for ever.
\<close>

partial_function (option) ioctl_loop ::
  "(nat \<Rightarrow> int) \<Rightarrow> (nat \<Rightarrow> (sync_data \<Rightarrow> sync_data) option) \<Rightarrow> nat \<Rightarrow> sync_data \<Rightarrow> (int \<times> sync_data) option" where
  "ioctl_loop loc_ioctl wake k d =
    (if loc_ioctl k = RPC_LOC_API_ENGINE_BUSY
     then do { f \<leftarrow> wake k; ioctl_loop loc_ioctl wake (k + 1) (f d) }
     else Some (loc_ioctl k, d))"

text \<open>
  \<open>cb\<close> is the caller's buffer, \<open>cb0\<close> the local one. The division of \<open>timeout_msec\<close> by 1000 only
  determines how long the wait may last, which is part of \<open>timedout\<close>.
\<close>

definition loc_api_sync_ioctl ::
  "(sync_data \<Rightarrow> sync_data) \<Rightarrow> (nat \<Rightarrow> int) \<Rightarrow> (nat \<Rightarrow> (sync_data \<Rightarrow> sync_data) option) \<Rightarrow> (sync_data \<Rightarrow> sync_data) \<Rightarrow> bool
     \<Rightarrow> int \<Rightarrow> u32 \<Rightarrow> ioctl_callback \<Rightarrow> ioctl_callback option \<Rightarrow> sync_data
     \<Rightarrow> (int \<times> ioctl_callback option \<times> sync_data) option" where
  "loc_api_sync_ioctl sel_between loc_ioctl wake others timedout h io cb0 cb d =
    (case loc_api_select_callback sel_between h 0 io d of (sid, d) \<Rightarrow>
      if sid < 0 then Some (RPC_LOC_API_ENGINE_BUSY, cb, d)
      else do {
        (rc, d) \<leftarrow> ioctl_loop loc_ioctl wake 0 d;
        if rc \<noteq> RPC_LOC_API_SUCCESS then Some (rc, cb, loc_free_slot (nat sid) d)
        else case loc_api_wait_callback others timedout sid None (Some cb0) d of (rc, (_, io_pl), d) \<Rightarrow>
          if rc \<noteq> 0 then Some (rc, cb, d)
          else Some (if io_status (the io_pl) \<noteq> RPC_LOC_API_SUCCESS then io_status (the io_pl) else rc,
                     map_option (\<lambda>_. the io_pl) cb, d) })"

section \<open>The invariant\<close>

text \<open>The arrays have their size, and the summary flag says whether a slot is in use.\<close>

definition sync_inv :: "sync_data \<Rightarrow> bool" where
  "sync_inv d \<longleftrightarrow> sd_size d = LOC_SYNC_CALL_BUFFER_SIZE \<and> length (slot_in_use d) = LOC_SYNC_CALL_BUFFER_SIZE \<and>
     length (slots d) = LOC_SYNC_CALL_BUFFER_SIZE \<and> (in_use d \<longleftrightarrow> True \<in> set (slot_in_use d))"

lemma upd_slot_simps [simp]:
  "sd_size (upd_slot i f d) = sd_size d" "in_use (upd_slot i f d) = in_use d"
  "slot_in_use (upd_slot i f d) = slot_in_use d" "length (slots (upd_slot i f d)) = length (slots d)"
  by (simp_all add: upd_slot_def)

lemma slots_upd_slot: "i < length (slots d) \<Longrightarrow> slots (upd_slot i f d) ! k = (if k = i then f (slots d ! i) else slots d ! k)"
  by (simp add: upd_slot_def)

lemma sync_inv_upd_slot [simp]: "sync_inv (upd_slot i f d) = sync_inv d"
  by (simp add: sync_inv_def)

lemma init_inv: "length (slot_in_use d) = 8 \<Longrightarrow> length (slots d) = 8 \<Longrightarrow> sync_inv (loc_api_sync_call_init d)"
  by (auto simp: sync_inv_def loc_api_sync_call_init_def)

text \<open>The slot the loop of the callback consumes: the lowest one in use that matches.\<close>

definition target :: "int \<Rightarrow> u64 \<Rightarrow> event_payload \<Rightarrow> sync_data \<Rightarrow> nat option" where
  "target h ev pl d = find (\<lambda>i. slot_in_use d ! i \<and> slot_matches h ev pl (slots d ! i)) [0..<sd_size d]"

lemma process_loop_find:
  "process_loop n i h ev pl used d =
    (case find (\<lambda>k. slot_in_use d ! k \<and> slot_matches h ev pl (slots d ! k)) [i..<i + n] of
       None \<Rightarrow> (False, used \<or> (\<exists>k \<in> {i..<i + n}. slot_in_use d ! k), d)
     | Some j \<Rightarrow> (True, True, upd_slot j (slot_receive ev pl) d))"
proof (induction n arbitrary: i used)
  case 0
  then show ?case by simp
next
  case (Suc n)
  have e: "[i..<i + Suc n] = i # [Suc i..<Suc i + n]" by (simp add: upt_conv_Cons)
  have s: "{i..<i + Suc n} = insert i {Suc i..<Suc i + n}" by auto
  show ?case
    unfolding e s using Suc.IH [of "Suc i" "used \<or> slot_in_use d ! i"] by (auto simp: Let_def split: option.splits)
qed

lemma callback_eq:
  assumes "sync_inv d"
  shows "loc_api_callback_process_sync_call h ev pl d =
     (case target h ev pl d of None \<Rightarrow> d | Some i \<Rightarrow> upd_slot i (slot_receive ev pl) d)"
proof (cases "in_use d")
  case False
  then have "\<forall>k < 8. \<not> slot_in_use d ! k" using assms by (auto simp: sync_inv_def in_set_conv_nth)
  then have "target h ev pl d = None" using assms by (auto simp: target_def sync_inv_def find_None_iff)
  with False show ?thesis by (simp add: loc_api_callback_process_sync_call_def)
next
  case True
  then have "\<exists>k \<in> {0..<sd_size d}. slot_in_use d ! k" using assms by (auto simp: sync_inv_def in_set_conv_nth)
  with True show ?thesis
    by (auto simp: loc_api_callback_process_sync_call_def process_loop_find target_def split: option.splits)
qed

lemma first_free_find: "first_free n i d = find (\<lambda>k. \<not> slot_in_use d ! k) [i..<i + n]"
proof (induction n arbitrary: i)
  case (Suc n)
  have e: "[i..<i + Suc n] = i # [Suc i..<Suc i + n]" by (simp add: upt_conv_Cons)
  show ?case unfolding e using Suc.IH [of "Suc i"] by simp
qed simp


lemma alloc_cases:
  assumes "sync_inv d"
  obtains (full) "loc_alloc_slot d = (-1, d)" and "\<forall>k < 8. slot_in_use d ! k"
  | (got) i where "loc_alloc_slot d = (int i, d\<lparr>slot_in_use := (slot_in_use d)[i := True], in_use := True\<rparr>)"
      and "i < 8" and "\<not> slot_in_use d ! i" and "\<forall>k < i. slot_in_use d ! k"
proof (cases "first_free (sd_size d) 0 d")
  case None
  then have "\<forall>k < 8. slot_in_use d ! k"
    using assms by (auto simp: first_free_find find_None_iff sync_inv_def)
  with None show ?thesis by (intro full) (simp_all add: loc_alloc_slot_def)
next
  case (Some i)
  then have "i < 8 \<and> \<not> slot_in_use d ! i \<and> (\<forall>k < i. slot_in_use d ! k)"
    using assms by (auto simp: first_free_find find_Some_iff sync_inv_def)
  with Some show ?thesis by (intro got [of i]) (simp_all add: loc_alloc_slot_def)
qed

lemma alloc_inv: "sync_inv d \<Longrightarrow> sync_inv (snd (loc_alloc_slot d))"
  by (rule alloc_cases [of d]) (auto simp: sync_inv_def set_update_memI)

lemma upd_False: "xs[i := False] ! k \<Longrightarrow> k < length xs \<Longrightarrow> xs ! k"
  by (cases "i = k") auto

lemma free_inv: "sync_inv d \<Longrightarrow> sync_inv (loc_free_slot i d)"
  by (auto simp: sync_inv_def loc_free_slot_def Let_def in_set_conv_nth dest: upd_False)

lemma free_slot_simps [simp]:
  "slots (loc_free_slot i d) = slots d" "sd_size (loc_free_slot i d) = sd_size d"
  "slot_in_use (loc_free_slot i d) = (slot_in_use d)[i := False]"
  by (simp_all add: loc_free_slot_def Let_def)

lemma callback_inv: "sync_inv d \<Longrightarrow> sync_inv (loc_api_callback_process_sync_call h ev pl d)"
  by (simp add: callback_eq split: option.split)

text \<open>A client's contract: every operation keeps the invariant if the other threads do.\<close>

definition keeps_inv :: "(sync_data \<Rightarrow> sync_data) \<Rightarrow> bool" where
  "keeps_inv f \<longleftrightarrow> (\<forall>d. sync_inv d \<longrightarrow> sync_inv (f d))"

lemma keeps_inv_callback: "keeps_inv (loc_api_callback_process_sync_call h ev pl)"
  by (simp add: keeps_inv_def callback_inv)

lemma keeps_inv_free: "keeps_inv (loc_free_slot i)"
  by (simp add: keeps_inv_def free_inv)

lemma select_inv: "sync_inv d \<Longrightarrow> keeps_inv f \<Longrightarrow> sync_inv (snd (loc_api_select_callback f h m io d))"
  using alloc_inv [of d] by (auto simp: loc_api_select_callback_def keeps_inv_def split: prod.split)

lemma wait_inv: "sync_inv d \<Longrightarrow> keeps_inv f \<Longrightarrow> sync_inv (snd (snd (loc_api_wait_callback f t i ucb uio d)))"
  by (auto simp: loc_api_wait_callback_def Let_def keeps_inv_def free_inv)

section \<open>Slots as events see them\<close>

lemma target_Some_iff:
  "target h ev pl d = Some i \<longleftrightarrow> i < sd_size d \<and> slot_in_use d ! i \<and> slot_matches h ev pl (slots d ! i) \<and>
     (\<forall>k < i. \<not> (slot_in_use d ! k \<and> slot_matches h ev pl (slots d ! k)))"
  by (auto simp: target_def find_Some_iff)

text \<open>
  A slot \<open>i\<close> owns an event if no lower slot in use would consume it. \<open>only_slot\<close> is the simplest
  such situation: no other slot is in use.
\<close>

definition only_slot :: "nat \<Rightarrow> sync_data \<Rightarrow> bool" where
  "only_slot i d \<longleftrightarrow> i < 8 \<and> (\<forall>k < 8. slot_in_use d ! k \<longleftrightarrow> k = i)"

definition process_all :: "(int \<times> u64 \<times> event_payload) list \<Rightarrow> sync_data \<Rightarrow> sync_data" where
  "process_all evs d = fold (\<lambda>(h, ev, pl). loc_api_callback_process_sync_call h ev pl) evs d"

definition awaited :: "sync_slot \<Rightarrow> int \<times> u64 \<times> event_payload \<Rightarrow> bool" where
  "awaited s e = (case e of (h, ev, pl) \<Rightarrow>
     loc_handle s = h \<and> loc_match_callback (loc_cb_wait_event_mask s) (ioctl_type s) ev pl)"

lemma callback_only_slot:
  assumes "sync_inv d" and "only_slot i d"
  shows "loc_api_callback_process_sync_call h ev pl d =
     (if awaited (slots d ! i) (h, ev, pl) \<and> \<not> loc_cb_has_arrived (slots d ! i)
      then upd_slot i (slot_receive ev pl) d else d)"
proof -
  have "target h ev pl d = (if awaited (slots d ! i) (h, ev, pl) \<and> \<not> loc_cb_has_arrived (slots d ! i)
      then Some i else None)"
  proof (cases "awaited (slots d ! i) (h, ev, pl) \<and> \<not> loc_cb_has_arrived (slots d ! i)")
    case True
    then show ?thesis
      using assms by (auto simp: target_Some_iff only_slot_def sync_inv_def awaited_def slot_matches_def)
  next
    case False
    then have "target h ev pl d \<noteq> Some k" for k
      using assms by (auto simp: target_Some_iff only_slot_def sync_inv_def awaited_def slot_matches_def)
    with False show ?thesis by auto
  qed
  then show ?thesis using callback_eq [OF assms(1)] by simp
qed

text \<open>While the caller waits, every awaited event overwrites the payload.\<close>

lemma process_all_waiting:
  assumes "sync_inv d" and "only_slot i d" and "\<not> loc_cb_has_arrived (slots d ! i)"
    and "loc_cb_is_waiting (slots d ! i)"
  shows "loc_cb_received_payload (slots (process_all evs d) ! i) =
     (case filter (awaited (slots d ! i)) evs of
        [] \<Rightarrow> loc_cb_received_payload (slots d ! i) | es \<Rightarrow> snd (snd (last es)))"
    and "slot_in_use (process_all evs d) = slot_in_use d" and "sync_inv (process_all evs d)"
proof -
  have "loc_cb_received_payload (slots (process_all evs d) ! i) =
     (case filter (awaited (slots d ! i)) evs of
        [] \<Rightarrow> loc_cb_received_payload (slots d ! i) | es \<Rightarrow> snd (snd (last es))) \<and>
     slot_in_use (process_all evs d) = slot_in_use d \<and> sync_inv (process_all evs d)"
    using assms
  proof (induction evs arbitrary: d)
    case Nil
    then show ?case by (simp add: process_all_def)
  next
    case (Cons e evs)
    obtain h ev pl where e: "e = (h, ev, pl)" by (cases e)
    let ?d = "loc_api_callback_process_sync_call h ev pl d"
    have len: "i < length (slots d)" using Cons.prems by (simp add: sync_inv_def only_slot_def)
    have d: "?d = (if awaited (slots d ! i) e then upd_slot i (slot_receive ev pl) d else d)"
      using callback_only_slot [OF Cons.prems(1,2)] Cons.prems(3) e by simp
    have s: "slots ?d ! i = (if awaited (slots d ! i) e
        then (slots d ! i)\<lparr>loc_cb_received_payload := pl, loc_cb_received_event_mask := ev\<rparr> else slots d ! i)"
      using Cons.prems(4) len by (simp add: d slots_upd_slot slot_receive_def)
    have aw: "awaited (slots ?d ! i) = awaited (slots d ! i)"
      unfolding s by (auto simp: awaited_def fun_eq_iff)
    have "sync_inv ?d" using Cons.prems(1) by (rule callback_inv)
    moreover have u: "slot_in_use ?d = slot_in_use d" by (simp add: d)
    moreover have "only_slot i ?d" using Cons.prems(2) u by (simp add: only_slot_def)
    ultimately have IH: "loc_cb_received_payload (slots (process_all evs ?d) ! i) =
       (case filter (awaited (slots d ! i)) evs of
        [] \<Rightarrow> loc_cb_received_payload (slots ?d ! i) | es \<Rightarrow> snd (snd (last es))) \<and>
        slot_in_use (process_all evs ?d) = slot_in_use d \<and> sync_inv (process_all evs ?d)"
      using Cons.IH [of ?d] Cons.prems(3,4) s aw by auto
    have "process_all (e # evs) d = process_all evs ?d" by (simp add: process_all_def e)
    then show ?case using IH s e by (auto split: list.splits)
  qed
  then show "loc_cb_received_payload (slots (process_all evs d) ! i) =
     (case filter (awaited (slots d ! i)) evs of
        [] \<Rightarrow> loc_cb_received_payload (slots d ! i) | es \<Rightarrow> snd (snd (last es)))"
    and "slot_in_use (process_all evs d) = slot_in_use d" and "sync_inv (process_all evs d)"
    by auto
qed


section \<open>Properties\<close>

text \<open>
  C29. Every operation keeps the invariant (array sizes, and the summary flag telling whether
  a slot is in use), provided what other threads do while it is blocked keeps it: the
  callback, selecting, waiting, and freeing.
\<close>

theorem loc_sync_invariant:
  assumes "sync_inv d" and "keeps_inv f"
  shows "sync_inv (loc_api_callback_process_sync_call h ev pl d) \<and> sync_inv (loc_free_slot i d) \<and>
     sync_inv (snd (loc_api_select_callback f h m io d)) \<and>
     sync_inv (snd (snd (loc_api_wait_callback f t j ucb uio d)))"
  using assms callback_inv free_inv select_inv wait_inv by blast

definition zero_payload :: event_payload where
  "zero_payload = \<lparr>ioctl_report = \<lparr>io_type = 0, io_status = 0, io_data = []\<rparr>, pl_rest = []\<rparr>"

definition zero_slot :: sync_slot where
  "zero_slot = \<lparr>loc_handle = 0, loc_cb_is_selected = False, loc_cb_is_waiting = False, loc_cb_has_arrived = False,
     loc_cb_wait_event_mask = 0, ioctl_type = 0, loc_cb_received_payload = zero_payload,
     loc_cb_received_event_mask = 0\<rparr>"

definition zero_data :: sync_data where
  "zero_data = \<lparr>sd_size = 0, in_use = False, slot_in_use = replicate 8 False, slots = replicate 8 zero_slot\<rparr>"

theorem loc_sync_invariant_witness:
  "sync_inv (loc_api_callback_process_sync_call 1 4 zero_payload (loc_api_sync_call_init zero_data)) \<and>
   sync_inv (loc_free_slot 3 (loc_api_sync_call_init zero_data)) \<and>
   sync_inv (snd (loc_api_select_callback (loc_free_slot 0) 1 4 0 (loc_api_sync_call_init zero_data))) \<and>
   sync_inv (snd (snd (loc_api_wait_callback (loc_free_slot 0) True 2 None None (loc_api_sync_call_init zero_data))))"
  by (rule loc_sync_invariant) (simp_all add: init_inv zero_data_def keeps_inv_free)

text \<open>
  Slots are handed out exclusively: selecting fails with -1 and changes nothing exactly
  when all eight slots are in use; otherwise it returns the lowest free slot, which is then in
  use and set up for the event, and every other slot is untouched.
\<close>

theorem loc_select_spec:
  assumes "sync_inv d"
  shows "if \<forall>k < 8. slot_in_use d ! k then loc_api_select_callback (\<lambda>d. d) h m io d = (-1, d)
     else \<exists>i d'. loc_api_select_callback (\<lambda>d. d) h m io d = (int i, d') \<and> i < 8 \<and> \<not> slot_in_use d ! i \<and>
            (\<forall>k < i. slot_in_use d ! k) \<and> slot_in_use d' = (slot_in_use d)[i := True] \<and> in_use d' \<and>
            slots d' ! i = select_slot h m io (slots d ! i) \<and> (\<forall>k. k \<noteq> i \<longrightarrow> slots d' ! k = slots d ! k)"
  using assms
proof (cases rule: alloc_cases)
  case full
  then show ?thesis by (simp add: loc_api_select_callback_def)
next
  case (got i)
  have "i < length (slots d)" using assms got(2) by (simp add: sync_inv_def)
  with got show ?thesis
    by (auto simp: loc_api_select_callback_def slots_upd_slot intro!: exI [of _ i])
qed

theorem loc_select_spec_witness:
  "if \<forall>k < 8. slot_in_use (loc_api_sync_call_init zero_data) ! k
   then loc_api_select_callback (\<lambda>d. d) 5 4 0 (loc_api_sync_call_init zero_data) = (-1, loc_api_sync_call_init zero_data)
   else \<exists>i d'. loc_api_select_callback (\<lambda>d. d) 5 4 0 (loc_api_sync_call_init zero_data) = (int i, d') \<and> i < 8 \<and>
            \<not> slot_in_use (loc_api_sync_call_init zero_data) ! i \<and>
            (\<forall>k < i. slot_in_use (loc_api_sync_call_init zero_data) ! k) \<and>
            slot_in_use d' = (slot_in_use (loc_api_sync_call_init zero_data))[i := True] \<and> in_use d' \<and>
            slots d' ! i = select_slot 5 4 0 (slots (loc_api_sync_call_init zero_data) ! i) \<and>
            (\<forall>k. k \<noteq> i \<longrightarrow> slots d' ! k = slots (loc_api_sync_call_init zero_data) ! k)"
  by (rule loc_select_spec) (simp add: init_inv zero_data_def)

lemma process_all_keeps:
  "sync_inv d \<Longrightarrow> sync_inv (process_all evs d) \<and> slot_in_use (process_all evs d) = slot_in_use d"
proof (induction evs arbitrary: d)
  case Nil
  then show ?case by (simp add: process_all_def)
next
  case (Cons e evs)
  obtain h ev pl where e: "e = (h, ev, pl)" by (cases e)
  let ?d = "loc_api_callback_process_sync_call h ev pl d"
  have "slot_in_use ?d = slot_in_use d" using callback_eq [OF Cons.prems] by (simp split: option.split)
  then show ?case
    using Cons.IH [of ?d] callback_inv [OF Cons.prems] by (simp add: process_all_def e)
qed

text \<open>
  What a callback does to a slot, and what the events \<open>evs\<close> before the wait leave in it, when no lower slot in use takes
  an event from it. Higher slots may be in use for any events.
\<close>

definition owns :: "nat \<Rightarrow> (int \<times> u64 \<times> event_payload) list \<Rightarrow> sync_data \<Rightarrow> bool" where
  "owns i evs d \<longleftrightarrow> i < 8 \<and> slot_in_use d ! i \<and>
     (\<forall>e \<in> set evs. awaited (slots d ! i) e \<longrightarrow> (\<forall>k < i. slot_in_use d ! k \<longrightarrow> \<not> awaited (slots d ! k) e))"

lemma awaited_receive: "awaited (slot_receive ev pl s) = awaited s"
  by (auto simp: awaited_def slot_receive_def Let_def fun_eq_iff)

lemma callback_awaited:
  assumes "sync_inv d" and "k < 8"
  shows "awaited (slots (loc_api_callback_process_sync_call h ev pl d) ! k) = awaited (slots d ! k)"
proof (cases "target h ev pl d")
  case (Some j)
  then have "j < length (slots d)" using assms(1) by (simp add: target_Some_iff sync_inv_def)
  then show ?thesis using Some callback_eq [OF assms(1)] by (simp add: slots_upd_slot awaited_receive)
qed (use callback_eq [OF assms(1)] in simp)

lemma callback_owned:
  assumes "sync_inv d" and "owns i ((h, ev, pl) # evs) d"
  shows "slots (loc_api_callback_process_sync_call h ev pl d) ! i =
      (if awaited (slots d ! i) (h, ev, pl) \<and> \<not> loc_cb_has_arrived (slots d ! i) then slot_receive ev pl (slots d ! i) else slots d ! i)"
    and "owns i evs (loc_api_callback_process_sync_call h ev pl d)"
proof -
  let ?d = "loc_api_callback_process_sync_call h ev pl d"
  have u: "slot_in_use ?d = slot_in_use d" using callback_eq [OF assms(1)] by (simp split: option.split)
  then show "owns i evs ?d" using assms callback_awaited [OF assms(1)] by (auto simp: owns_def)
  have len: "length (slots d) = 8" "sd_size d = 8" using assms(1) by (simp_all add: sync_inv_def)
  show "slots ?d ! i =
      (if awaited (slots d ! i) (h, ev, pl) \<and> \<not> loc_cb_has_arrived (slots d ! i) then slot_receive ev pl (slots d ! i) else slots d ! i)"
  proof (cases "awaited (slots d ! i) (h, ev, pl) \<and> \<not> loc_cb_has_arrived (slots d ! i)")
    case True
    then have "target h ev pl d = Some i"
      using assms(2) len by (auto simp: target_Some_iff owns_def awaited_def slot_matches_def)
    then show ?thesis using True callback_eq [OF assms(1)] assms(2) len by (simp add: slots_upd_slot owns_def)
  next
    case False
    then have "target h ev pl d \<noteq> Some i" by (auto simp: target_Some_iff awaited_def slot_matches_def)
    moreover have "target h ev pl d = Some j \<Longrightarrow> j < 8" for j using len by (simp add: target_Some_iff)
    ultimately show ?thesis
      using callback_eq [OF assms(1)] len False by (auto simp: slots_upd_slot split: option.split)
  qed
qed

lemma process_all_owned:
  assumes "sync_inv d" and "owns i evs d" and "\<not> loc_cb_is_waiting (slots d ! i)"
  shows "slots (process_all evs d) ! i =
     (if loc_cb_has_arrived (slots d ! i) then slots d ! i
      else case find (awaited (slots d ! i)) evs of
        None \<Rightarrow> slots d ! i
      | Some (h, ev, pl) \<Rightarrow> (slots d ! i)\<lparr>loc_cb_received_payload := pl, loc_cb_has_arrived := True\<rparr>)"
  using assms
proof (induction evs arbitrary: d)
  case Nil
  then show ?case by (simp add: process_all_def)
next
  case (Cons e evs)
  obtain h ev pl where e: "e = (h, ev, pl)" by (cases e)
  let ?d = "loc_api_callback_process_sync_call h ev pl d"
  have o: "owns i ((h, ev, pl) # evs) d" using Cons.prems(2) e by simp
  note c = callback_owned [OF Cons.prems(1) o]
  have i: "i < 8" using o by (simp add: owns_def)
  have w: "\<not> loc_cb_is_waiting (slots ?d ! i)" using c(1) Cons.prems(3) by (simp add: slot_receive_def)
  have "process_all (e # evs) d = process_all evs ?d" by (simp add: process_all_def e)
  then show ?case
    using Cons.IH [OF callback_inv [OF Cons.prems(1)] c(2) w] Cons.prems(3)
    unfolding callback_awaited [OF Cons.prems(1) i, of h ev pl] c(1) e by (simp add: slot_receive_def)
qed

text \<open>
  C2. No callback is lost between selecting and waiting, if no lower slot in use waits for it too. If the events that arrive after slot \<open>i\<close>
  was set up, and before its caller waits, include an awaited one, and no slot with a smaller index that is in use, be it set up or still with
  what its last user left, awaits an event that slot \<open>i\<close> awaits, then the wait returns at once with success and the payload of the
  first of them, and frees this slot and no other. Slots with a larger index may be in use for anything.
\<close>

theorem loc_wait_sees_early_callback:
  assumes "sync_inv d" and "owns i evs d" and "\<not> loc_cb_has_arrived (slots d ! i)"
    and "\<not> loc_cb_is_waiting (slots d ! i)" and "find (awaited (slots d ! i)) evs = Some (h, ev, pl)"
  shows "\<exists>d'. loc_api_wait_callback others timedout (int i) (Some ucb) (Some uio) (process_all evs d)
       = (RPC_LOC_API_SUCCESS, (Some pl, Some (ioctl_report pl)), d') \<and>
     sync_inv d' \<and> slot_in_use d' = (slot_in_use d)[i := False]"
proof -
  note k = process_all_keeps [OF assms(1), of evs]
  have s: "slots (process_all evs d) ! i = (slots d ! i)\<lparr>loc_cb_received_payload := pl, loc_cb_has_arrived := True\<rparr>"
    using process_all_owned [OF assms(1,2,4)] assms(3,5) by simp
  have "sd_size (process_all evs d) = 8" using k by (simp add: sync_inv_def)
  then show ?thesis
    using k s assms(2) by (simp add: loc_api_wait_callback_def Let_def loc_save_user_payload_def owns_def free_inv)
qed

definition demo_sync :: sync_data where
  "demo_sync = snd (loc_api_select_callback (\<lambda>d. d) 5 4 0 (loc_api_sync_call_init zero_data))"

lemmas sync_eval = demo_sync_def loc_api_select_callback_def loc_alloc_slot_def loc_api_sync_call_init_def
  zero_data_def zero_slot_def select_slot_def upd_slot_def

lemma less_8: "k < (8 :: nat) \<longleftrightarrow> k = 0 \<or> k = 1 \<or> k = 2 \<or> k = 3 \<or> k = 4 \<or> k = 5 \<or> k = 6 \<or> k = 7"
  by auto

lemma sync_inv_demo: "sync_inv demo_sync"
proof -
  have "sync_inv (loc_api_sync_call_init zero_data)" by (intro init_inv) (simp_all add: zero_data_def)
  then show ?thesis unfolding demo_sync_def by (intro select_inv) (simp_all add: keeps_inv_def)
qed

lemma demo_slots: "slot_in_use demo_sync = True # replicate 7 False"
  "slots demo_sync ! 0 = zero_slot\<lparr>loc_handle := 5, loc_cb_is_selected := True, loc_cb_wait_event_mask := 4\<rparr>"
  by (simp_all add: sync_eval numeral_eq_Suc)

lemma only_slot_demo: "only_slot 0 demo_sync"
  by (auto simp: only_slot_def demo_slots nth_Cons split: nat.splits)

text \<open>Slot 1, while slot 0 is in use for other events.\<close>

definition demo_two :: sync_data where
  "demo_two = snd (loc_api_select_callback (\<lambda>d. d) 5 2 0 demo_sync)"

lemma sync_inv_two: "sync_inv demo_two"
  using sync_inv_demo unfolding demo_two_def by (intro select_inv) (simp_all add: keeps_inv_def)

lemma two_slots: "slot_in_use demo_two = True # True # replicate 6 False"
  "slots demo_two ! 0 = zero_slot\<lparr>loc_handle := 5, loc_cb_is_selected := True, loc_cb_wait_event_mask := 4\<rparr>"
  "slots demo_two ! 1 = zero_slot\<lparr>loc_handle := 5, loc_cb_is_selected := True, loc_cb_wait_event_mask := 2\<rparr>"
  by (simp_all add: demo_two_def sync_eval numeral_eq_Suc)

theorem loc_wait_sees_early_callback_witness:
  "\<exists>d'. loc_api_wait_callback (\<lambda>d. d) True (int 1) (Some zero_payload) (Some (ioctl_report zero_payload))
         (process_all [(5, 4, zero_payload), (5, 2, zero_payload\<lparr>pl_rest := [9]\<rparr>)] demo_two)
       = (RPC_LOC_API_SUCCESS, (Some (zero_payload\<lparr>pl_rest := [9]\<rparr>), Some (ioctl_report (zero_payload\<lparr>pl_rest := [9]\<rparr>))), d') \<and>
     sync_inv d' \<and> slot_in_use d' = True # replicate 7 False"
proof -
  have "(slot_in_use demo_two)[1 := False] = True # replicate 7 False" by (simp add: two_slots numeral_eq_Suc)
  moreover have "owns 1 [(5, 4, zero_payload), (5, 2, zero_payload\<lparr>pl_rest := [9]\<rparr>)] demo_two"
    unfolding owns_def by (simp add: two_slots [simplified] zero_slot_def awaited_def loc_match_callback_def)
  ultimately show ?thesis
    using loc_wait_sees_early_callback [of demo_two 1 "[(5, 4, zero_payload), (5, 2, zero_payload\<lparr>pl_rest := [9]\<rparr>)]" 5 2
        "zero_payload\<lparr>pl_rest := [9]\<rparr>" "\<lambda>d. d" True zero_payload "ioctl_report zero_payload"] sync_inv_two
    by (simp add: two_slots [simplified] zero_slot_def awaited_def loc_match_callback_def)
qed

text \<open>
  A caller that blocks: when it is woken by a signal it gets success and the payload of
  the \<^emph>\<open>last\<close> awaited event that arrived while it waited (an earlier one is overwritten if a second
  one arrives before it runs; if none arrived, a spurious wake-up returns whatever the slot held);
  on a timeout its buffers are untouched. Either way the slot is free afterwards.
\<close>

theorem loc_wait_blocked:
  assumes "sync_inv d" and "only_slot i d" and "\<not> loc_cb_has_arrived (slots d ! i)"
    and "\<not> loc_cb_is_waiting (slots d ! i)"
  shows "\<exists>d'. loc_api_wait_callback (process_all evs) timedout (int i) (Some ucb) None d =
     (if timedout then (RPC_LOC_API_TIMEOUT, (Some ucb, None), d')
      else (RPC_LOC_API_SUCCESS,
            (Some (case filter (awaited (slots d ! i)) evs of
                     [] \<Rightarrow> loc_cb_received_payload (slots d ! i) | es \<Rightarrow> snd (snd (last es))), None), d')) \<and>
     sync_inv d' \<and> slot_in_use d' = (slot_in_use d)[i := False]"
proof -
  let ?w = "upd_slot i (\<lambda>s. s\<lparr>loc_cb_is_waiting := True\<rparr>) d"
  have i: "i < 8" "slot_in_use d ! i" "sd_size d = 8" "length (slots d) = 8"
    using assms(1,2) by (auto simp: only_slot_def sync_inv_def)
  have s: "slots ?w ! i = (slots d ! i)\<lparr>loc_cb_is_waiting := True\<rparr>" using i by (simp add: slots_upd_slot)
  have aw: "awaited (slots ?w ! i) = awaited (slots d ! i)"
    unfolding s by (auto simp: awaited_def fun_eq_iff)
  have w: "sync_inv ?w" "only_slot i ?w" "\<not> loc_cb_has_arrived (slots ?w ! i)" "loc_cb_is_waiting (slots ?w ! i)"
    using assms s by (auto simp: only_slot_def)
  note p = process_all_waiting [OF w, of evs]
  have pl: "loc_cb_received_payload (slots (process_all evs ?w) ! i) =
     (case filter (awaited (slots d ! i)) evs of
        [] \<Rightarrow> loc_cb_received_payload (slots d ! i) | es \<Rightarrow> snd (snd (last es)))"
    unfolding p(1) aw by (simp add: s split: list.split)
  show ?thesis
    using assms(3,4) i p(2,3) pl
    by (auto simp: loc_api_wait_callback_def Let_def loc_save_user_payload_def free_inv)
qed

theorem loc_wait_blocked_witness:
  "\<exists>d'. loc_api_wait_callback (process_all [(5, 4, zero_payload\<lparr>pl_rest := [1]\<rparr>), (5, 4, zero_payload\<lparr>pl_rest := [2]\<rparr>)])
       False (int 0) (Some zero_payload) None demo_sync =
     (if False then (RPC_LOC_API_TIMEOUT, (Some zero_payload, None), d')
      else (RPC_LOC_API_SUCCESS,
            (Some (case filter (awaited (slots demo_sync ! 0))
                       [(5, 4, zero_payload\<lparr>pl_rest := [1]\<rparr>), (5, 4, zero_payload\<lparr>pl_rest := [2]\<rparr>)] of
                     [] \<Rightarrow> loc_cb_received_payload (slots demo_sync ! 0) | es \<Rightarrow> snd (snd (last es))), None), d')) \<and>
     sync_inv d' \<and> slot_in_use d' = (slot_in_use demo_sync)[0 := False]"
  by (rule loc_wait_blocked [of demo_sync 0]) (simp_all add: sync_inv_demo only_slot_demo demo_slots zero_slot_def)

text \<open>
  A second wait on a slot that already has a waiter is refused, but frees the slot of the
  first waiter: the slot can be handed out again while a thread is still blocked on it.
\<close>

theorem busy_wait_frees_slot:
  assumes "sync_inv d" and "i < 8" and "slot_in_use d ! i" and "loc_cb_is_waiting (slots d ! i)"
    and "\<not> loc_cb_has_arrived (slots d ! i)" and "\<forall>k < i. slot_in_use d ! k"
  shows "\<exists>d'. loc_api_wait_callback others timedout (int i) ucb uio d = (RPC_LOC_API_ENGINE_BUSY, (ucb, uio), d') \<and>
     fst (loc_alloc_slot d') = int i \<and> loc_cb_is_waiting (slots d' ! i)"
proof -
  let ?d = "loc_free_slot i d"
  have s: "sd_size d = 8" "length (slot_in_use d) = 8" using assms(1) by (auto simp: sync_inv_def)
  have "loc_api_wait_callback others timedout (int i) ucb uio d = (RPC_LOC_API_ENGINE_BUSY, (ucb, uio), ?d)"
    using assms s by (simp add: loc_api_wait_callback_def)
  moreover have "fst (loc_alloc_slot ?d) = int i"
    using free_inv [OF assms(1), of i]
  proof (cases rule: alloc_cases)
    case full
    then show ?thesis using assms(2) s by auto
  next
    case (got j)
    then have "\<not> i < j" "\<not> j < i" using assms(2,6) s by (auto simp: nth_list_update)
    then show ?thesis using got(1) by simp
  qed
  ultimately show ?thesis using assms(4) by simp
qed

theorem busy_wait_frees_slot_witness:
  "\<exists>d'. loc_api_wait_callback (\<lambda>d. d) False (int 0) None None
       (upd_slot 0 (\<lambda>s. s\<lparr>loc_cb_is_waiting := True\<rparr>) demo_sync) = (RPC_LOC_API_ENGINE_BUSY, (None, None), d') \<and>
     fst (loc_alloc_slot d') = int 0 \<and> loc_cb_is_waiting (slots d' ! 0)"
  by (rule busy_wait_frees_slot)
    (use sync_inv_demo in \<open>simp_all add: demo_slots slots_upd_slot zero_slot_def sync_inv_def\<close>)

text \<open>
  C32. A callback can be lost in the window of \<open>loc_api_select_callback\<close> between allocating a
  slot and setting it up: a slot that still describes its previous user consumes the event,
  the set-up clears that, and the caller in a higher slot that waits for it never sees it.
\<close>

theorem callback_lost_in_select_window:
  assumes "sync_inv d" and "i < j" and "j < 8" and "\<not> slot_in_use d ! i" and "\<forall>k < i. slot_in_use d ! k"
    and "\<forall>k < i. \<not> slot_matches h ev pl (slots d ! k)"
    and "slot_matches h ev pl (slots d ! i)" and "\<not> loc_cb_is_waiting (slots d ! i)"
    and "slot_in_use d ! j" and "slot_matches h ev pl (slots d ! j)"
  shows "\<exists>d'. loc_api_select_callback (loc_api_callback_process_sync_call h ev pl) h2 m io d = (int i, d') \<and>
     slots d' ! j = slots d ! j \<and> \<not> loc_cb_has_arrived (slots d' ! i)"
  using assms(1)
proof (cases rule: alloc_cases)
  case full
  then show ?thesis using assms(2-4) by auto
next
  case (got i')
  have "i' = i"
    using got(3,4) assms(4,5) by (metis linorder_neqE_nat)
  let ?d = "d\<lparr>slot_in_use := (slot_in_use d)[i := True], in_use := True\<rparr>"
  have inv: "sync_inv ?d" using alloc_inv [OF assms(1)] got(1) \<open>i' = i\<close> by simp
  have s: "sd_size d = 8" "length (slot_in_use d) = 8" "length (slots d) = 8" using assms(1) by (auto simp: sync_inv_def)
  have "target h ev pl ?d = Some i"
    using assms s by (auto simp: target_Some_iff)
  then have c: "loc_api_callback_process_sync_call h ev pl ?d = upd_slot i (slot_receive ev pl) ?d"
    using callback_eq [OF inv] by simp
  show ?thesis
    using got(1) \<open>i' = i\<close> c assms(2,3) s
    by (simp add: loc_api_select_callback_def slots_upd_slot select_slot_def)
qed

definition stale_sync :: sync_data where
  "stale_sync = (loc_api_sync_call_init zero_data)
     \<lparr>in_use := True, slot_in_use := [False, True, False, False, False, False, False, False],
      slots := replicate 8 (zero_slot\<lparr>loc_handle := 5, loc_cb_wait_event_mask := 4\<rparr>)\<rparr>"

theorem callback_lost_in_select_window_witness:
  "\<exists>d'. loc_api_select_callback (loc_api_callback_process_sync_call 5 4 zero_payload) 7 1 0 stale_sync = (int 0, d') \<and>
     slots d' ! 1 = slots stale_sync ! 1 \<and> \<not> loc_cb_has_arrived (slots d' ! 0)"
  by (rule callback_lost_in_select_window)
    (simp_all add: stale_sync_def sync_inv_def loc_api_sync_call_init_def slot_matches_def zero_slot_def
      loc_match_callback_def)

text \<open>
  A callback that is processed signals at its end, unless no slot is in use; here the caller's own slot is. So a wait ends when a callback
  is processed, and lasts for ever if none is.
\<close>

definition wake_by :: "(int \<times> u64 \<times> event_payload) list \<Rightarrow> (sync_data \<Rightarrow> sync_data) option" where
  "wake_by evs = (if evs = [] then None else Some (process_all evs))"

lemma ioctl_loop_keeps:
  assumes "loc_ioctl n \<noteq> RPC_LOC_API_ENGINE_BUSY" and "\<forall>j < n. evs j \<noteq> []"
  shows "k \<le> n \<Longrightarrow> sync_inv d \<Longrightarrow> \<exists>rc d'. ioctl_loop loc_ioctl (\<lambda>k. wake_by (evs k)) k d = Some (rc, d') \<and> sync_inv d' \<and>
    slot_in_use d' = slot_in_use d"
proof (induction "n - k" arbitrary: k d)
  case 0
  then show ?case using assms(1) by (simp add: ioctl_loop.simps)
next
  case (Suc m)
  have ev: "evs k \<noteq> []" using assms(2) Suc.hyps(2) by simp
  show ?case
  proof (cases "loc_ioctl k = RPC_LOC_API_ENGINE_BUSY")
    case True
    note p = process_all_keeps [OF Suc.prems(2), of "evs k"]
    then show ?thesis
      using Suc.hyps(1) [of "k + 1" "process_all (evs k) d"] Suc.hyps(2) True ev
      by (simp add: ioctl_loop.simps [of _ _ k] wake_by_def)
  next
    case False
    then show ?thesis using Suc.prems by (simp add: ioctl_loop.simps)
  qed
qed

definition answers_from :: "(nat \<Rightarrow> int) \<Rightarrow> (nat \<Rightarrow> 'a list) \<Rightarrow> nat \<Rightarrow> bool" where
  "answers_from loc_ioctl evs k \<longleftrightarrow> (\<exists>n \<ge> k. loc_ioctl n \<noteq> RPC_LOC_API_ENGINE_BUSY \<and> (\<forall>j. k \<le> j \<and> j < n \<longrightarrow> evs j \<noteq> []))"

lemma answers_from_step: "evs k \<noteq> [] \<Longrightarrow> answers_from li evs (k + 1) \<Longrightarrow> answers_from li evs k"
  unfolding answers_from_def by (metis Suc_eq_plus1 Suc_leD Suc_leI le_neq_implies_less)

lemma ioctl_loop_Some:
  assumes "ioctl_loop loc_ioctl (\<lambda>k. wake_by (evs k)) k d = Some r"
  shows "answers_from loc_ioctl evs k"
proof -
  have "(\<lambda>k. wake_by (evs k)) = (\<lambda>k. wake_by (evs k)) \<longrightarrow> answers_from loc_ioctl evs k"
    using _ assms
  proof (rule ioctl_loop.raw_induct [where P = "\<lambda>li wk k d r. wk = (\<lambda>k. wake_by (evs k)) \<longrightarrow> answers_from li evs k"], intro impI)
    fix loop li wk k d r
    assume IH: "\<And>li wk k d r. loop li wk k d = Some r \<Longrightarrow> wk = (\<lambda>k. wake_by (evs k)) \<longrightarrow> answers_from li evs k"
      and body: "(if li k = RPC_LOC_API_ENGINE_BUSY then wk k \<bind> (\<lambda>f. loop li wk (k + 1) (f d)) else Some (li k, d)) = Some r"
      and wk: "wk = (\<lambda>k. wake_by (evs k))"
    show "answers_from li evs k"
    proof (cases "li k = RPC_LOC_API_ENGINE_BUSY")
      case True
      then obtain f where "wake_by (evs k) = Some f" "loop li wk (k + 1) (f d) = Some r"
        using body wk by (auto split: bind_split_asm)
      then have "evs k \<noteq> []" "answers_from li evs (k + 1)" using IH wk by (auto simp: wake_by_def)
      then show ?thesis by (rule answers_from_step)
    next
      case False
      then show ?thesis unfolding answers_from_def by (intro exI [of _ k]) auto
    qed
  qed
  then show ?thesis by simp
qed

lemma wait_releases:
  assumes "sync_inv d" and "i < 8" and "slot_in_use d ! i"
  shows "slot_in_use (snd (snd (loc_api_wait_callback (process_all evs) t (int i) ucb uio d))) = (slot_in_use d)[i := False]"
  using assms process_all_keeps [of "upd_slot i (\<lambda>s. s\<lparr>loc_cb_is_waiting := True\<rparr>) d" evs]
  by (simp add: loc_api_wait_callback_def Let_def sync_inv_def)

text \<open>
  C14. \<open>loc_api_sync_ioctl\<close> never keeps its slot, and returns exactly when it is woken often enough: for every answer of the
  engine, every sequence of callbacks that arrive before and during its waits, and whether or not the wait for the result times
  out, the call returns if and only if all slots are in use or some attempt finds the engine not busy and a callback is processed
  during each wait before that attempt; and then the slots in use afterwards are those in use before. A busy engine that
  sends no callback blocks the call for ever, whatever its timeout. (The callback wakes this caller: a second one that waits for
  the same condition, which would take the signal, and spurious wake-ups are left out.)
\<close>

theorem loc_sync_ioctl_releases_slot:
  assumes "sync_inv d"
  shows "(loc_api_sync_ioctl (process_all evs0) loc_ioctl (\<lambda>k. wake_by (evs k)) (process_all evs') timedout h io cb0 cb d \<noteq> None \<longleftrightarrow>
      (\<forall>k < 8. slot_in_use d ! k) \<or> (\<exists>n. loc_ioctl n \<noteq> RPC_LOC_API_ENGINE_BUSY \<and> (\<forall>j < n. evs j \<noteq> []))) \<and>
    (\<forall>rc cb' d'. loc_api_sync_ioctl (process_all evs0) loc_ioctl (\<lambda>k. wake_by (evs k)) (process_all evs') timedout h io cb0 cb d
       = Some (rc, cb', d') \<longrightarrow> slot_in_use d' = slot_in_use d)"
  using assms(1)
proof (cases rule: alloc_cases)
  case full
  then show ?thesis by (auto simp: loc_api_sync_ioctl_def loc_api_select_callback_def)
next
  case (got i)
  let ?d0 = "d\<lparr>slot_in_use := (slot_in_use d)[i := True], in_use := True\<rparr>"
  let ?d1 = "upd_slot i (select_slot h 0 io) (process_all evs0 ?d0)"
  let ?loop = "ioctl_loop loc_ioctl (\<lambda>k. wake_by (evs k)) 0 ?d1"
  have len: "length (slot_in_use d) = 8" using assms(1) by (simp add: sync_inv_def)
  have inv0: "sync_inv ?d0" using alloc_inv [OF assms(1)] got(1) by simp
  have inv1: "sync_inv ?d1" "slot_in_use ?d1 = (slot_in_use d)[i := True]" using process_all_keeps [OF inv0, of evs0] by auto
  have restored: "(slot_in_use d)[i := True, i := False] = slot_in_use d"
    using got(3) by (simp add: list_update_same_conv got(2) len)
  have call: "loc_api_sync_ioctl (process_all evs0) loc_ioctl (\<lambda>k. wake_by (evs k)) (process_all evs') timedout h io cb0 cb d =
      do { (rc, d) \<leftarrow> ?loop;
        if rc \<noteq> RPC_LOC_API_SUCCESS then Some (rc, cb, loc_free_slot (nat (int i)) d)
        else case loc_api_wait_callback (process_all evs') timedout (int i) None (Some cb0) d of (rc, (_, io_pl), d) \<Rightarrow>
          if rc \<noteq> 0 then Some (rc, cb, d)
          else Some (if io_status (the io_pl) \<noteq> RPC_LOC_API_SUCCESS then io_status (the io_pl) else rc,
                     map_option (\<lambda>_. the io_pl) cb, d) }"
    using got(1) by (simp add: loc_api_sync_ioctl_def loc_api_select_callback_def)
  show ?thesis
  proof (cases "\<exists>n. loc_ioctl n \<noteq> RPC_LOC_API_ENGINE_BUSY \<and> (\<forall>j < n. evs j \<noteq> [])")
    case True
    then obtain rc d2 where l: "?loop = Some (rc, d2)" and d2: "sync_inv d2" "slot_in_use d2 = (slot_in_use d)[i := True]"
      using ioctl_loop_keeps [of loc_ioctl _ evs 0 ?d1] inv1 by fastforce
    have w: "slot_in_use (snd (snd (loc_api_wait_callback (process_all evs') timedout (int i) None (Some cb0) d2))) = slot_in_use d"
      using wait_releases [OF d2(1) got(2), of evs' timedout None "Some cb0"] d2(2) restored len got(2) by simp
    obtain r2 upl iop d3 where r: "loc_api_wait_callback (process_all evs') timedout (int i) None (Some cb0) d2
        = (r2, (upl, iop), d3)" by (metis prod.exhaust)
    then have "slot_in_use d3 = slot_in_use d" using w by simp
    then show ?thesis unfolding call l using True r d2(2) restored by auto
  next
    case False
    then have "?loop = None" using ioctl_loop_Some [of loc_ioctl evs 0 ?d1] by (cases ?loop) (auto simp: answers_from_def)
    moreover have "\<not> (\<forall>k < 8. slot_in_use d ! k)" using got(2,3) by blast
    ultimately show ?thesis unfolding call using False by simp
  qed
qed

theorem loc_sync_ioctl_releases_slot_witness:
  "sync_inv (loc_api_sync_call_init zero_data) \<and>
   (\<exists>rc cb' d'. loc_api_sync_ioctl (process_all []) (\<lambda>k. if k = 0 then 6 else 0) (\<lambda>k. wake_by [(5, 4, zero_payload)]) (process_all []) True 5 400
       (ioctl_report zero_payload) None (loc_api_sync_call_init zero_data) = Some (rc, cb', d') \<and>
     slot_in_use d' = slot_in_use (loc_api_sync_call_init zero_data)) \<and>
   loc_api_sync_ioctl (process_all []) (\<lambda>k. if k = 0 then 6 else 0) (\<lambda>k. wake_by []) (process_all []) True 5 400
       (ioctl_report zero_payload) None (loc_api_sync_call_init zero_data) = None"
proof -
  let ?d = "loc_api_sync_call_init zero_data"
  have inv: "sync_inv ?d" by (simp add: init_inv zero_data_def)
  have "\<not> slot_in_use ?d ! 0" by (simp add: loc_api_sync_call_init_def zero_data_def)
  then have "\<not> (\<forall>k < 8. slot_in_use ?d ! k)" by (metis zero_less_numeral)
  moreover have "\<exists>n. (if n = (0::nat) then 6 else 0) \<noteq> RPC_LOC_API_ENGINE_BUSY \<and> (\<forall>j < n. [(5::int, 4::u64, zero_payload)] \<noteq> [])"
    by (intro exI [of _ 1]) simp
  moreover have "\<not> (\<exists>n. (if n = (0::nat) then 6 else 0) \<noteq> RPC_LOC_API_ENGINE_BUSY \<and> (\<forall>j < n. ([] :: (int \<times> u64 \<times> event_payload) list) \<noteq> []))"
    by auto
  ultimately show ?thesis
    using inv loc_sync_ioctl_releases_slot [OF inv, of "[]" "\<lambda>k. if k = 0 then 6 else 0" "\<lambda>k. [(5, 4, zero_payload)]" "[]" True 5 400 "ioctl_report zero_payload" None]
      loc_sync_ioctl_releases_slot [OF inv, of "[]" "\<lambda>k. if k = 0 then 6 else 0" "\<lambda>k. []" "[]" True 5 400 "ioctl_report zero_payload" None]
    by (metis option.exhaust prod.exhaust)
qed

end
