(* ===== verification/Xdr_Struct.thy ===== *)
theory Xdr_Struct
  imports Xdr_Filters
begin

text \<open>
  How rpcgen composes filters. The routine generated for a C struct calls the filter of each
  field in turn and returns \<open>FALSE\<close> at the first failure; the one generated for a union calls
  the filter of the discriminant and then, in a \<open>switch\<close>, the filter of the member it selects.
  This theory has the two shapes as combinators and the rules by which the contracts
  \<open>xdr_filter\<close> and \<open>xdr_safe\<close> of the parts give the contracts of the whole. Together with the
  single-precision and double-precision filters of
  \<^verbatim>\<open>gps/loc_api/libloc_api-rpc/gen-50000/loc_api_fixup.c\<close> they carry the theory of the
  generated filters.
\<close>

section \<open>Structs\<close>

text \<open>\<open>if (!proc (xdrs, &objp->f)) return FALSE;\<close>, and a sequence of such statements.\<close>

definition xdr_field :: "('s \<Rightarrow> 'f) \<Rightarrow> (('f \<Rightarrow> 'f) \<Rightarrow> 's \<Rightarrow> 's) \<Rightarrow> 'f xdrproc \<Rightarrow> 's xdrproc" where
  "xdr_field get upd proc x s =
     do { (ok, v, x) \<leftarrow> proc x (get s); Some (ok, upd (\<lambda>_. v) s, x) }"

fun xdr_seq :: "'s xdrproc list \<Rightarrow> 's xdrproc" where
  "xdr_seq [] x s = Some (True, s, x)"
| "xdr_seq (p # ps) x s =
     do { (ok, s, x) \<leftarrow> p x s; if \<not> ok then Some (False, s, x) else xdr_seq ps x s }"

text \<open>
  A run of fields in the middle of a struct: it encodes as \<open>enc v\<close>, and decoding those bytes
  into a struct \<open>s\<close> that satisfies \<open>pre\<close> overwrites the fields of the run: \<open>ow v s\<close>. Freeing it
  succeeds for a struct that satisfies \<open>fp\<close>; the fields before it have been freed then.
\<close>

definition xdr_run ::
  "'s xdrproc \<Rightarrow> ('s \<Rightarrow> bytes) \<Rightarrow> ('s \<Rightarrow> bool) \<Rightarrow> ('s \<Rightarrow> bool) \<Rightarrow> ('s \<Rightarrow> 's \<Rightarrow> 's) \<Rightarrow> ('s \<Rightarrow> bool) \<Rightarrow> bool" where
  "xdr_run p enc good pre ow fp \<longleftrightarrow>
     (\<forall>v. good v \<longrightarrow> length (enc v) mod 4 = 0) \<and>
     (\<forall>v x. good v \<longrightarrow> xdr_inv x \<longrightarrow> x_op x = XDR_ENCODE \<longrightarrow> fits (length (enc v)) x \<longrightarrow>
        p x v = Some (True, v, append_out (enc v) x)) \<and>
     (\<forall>v x s. good v \<longrightarrow> xdr_inv x \<longrightarrow> x_op x = XDR_DECODE \<longrightarrow> in_at (enc v) x \<longrightarrow> pre s \<longrightarrow>
        p x s = Some (True, ow v s, advance (length (enc v)) x)) \<and>
     (\<forall>v x. fp v \<longrightarrow> x_op x = XDR_FREE \<longrightarrow> (\<exists>v'. p x v = Some (True, v', x)))"

lemma run_decode:
  "xdr_run p enc good pre ow fp \<Longrightarrow> good v \<Longrightarrow> xdr_inv x \<Longrightarrow> x_op x = XDR_DECODE \<Longrightarrow> in_at (enc v) x
     \<Longrightarrow> pre s \<Longrightarrow> p x s = Some (True, ow v s, advance (length (enc v)) x)"
  by (simp add: xdr_run_def)

lemma run_free:
  "xdr_run p enc good pre ow fp \<Longrightarrow> fp v \<Longrightarrow> x_op x = XDR_FREE \<Longrightarrow> \<exists>v'. p x v = Some (True, v', x)"
  by (simp add: xdr_run_def)

lemma run_nil: "xdr_run (xdr_seq []) (\<lambda>_. []) (\<lambda>_. True) (\<lambda>_. True) (\<lambda>v s. s) (\<lambda>_. True)"
  by (simp add: xdr_run_def advance_def)

lemma run_cons:
  assumes p: "xdr_filter p e g (\<lambda>s _. r s)" and id: "\<And>v. upd (\<lambda>_. get v) v = v"
    and ps: "xdr_run (xdr_seq ps) es gs pre ow fp"
  shows "xdr_run (xdr_seq (xdr_field get upd p # ps)) (\<lambda>v. e (get v) @ es v)
     (\<lambda>v. g (get v) \<and> gs v) (\<lambda>s. r (get s) \<and> (\<forall>a. pre (upd (\<lambda>_. a) s)))
     (\<lambda>v s. ow v (upd (\<lambda>_. get v) s)) (\<lambda>s. g (get s) \<and> (\<forall>a. fp (upd (\<lambda>_. a) s)))"
  unfolding xdr_run_def
proof (intro conjI allI impI)
  show "length (e (get v) @ es v) mod 4 = 0" if "g (get v) \<and> gs v" for v
    using that xdr_filter.enc_aligned [OF p, of "get v"] ps
    by (auto simp: xdr_run_def mod_add_eq [symmetric])
next
  fix v x
  assume v: "g (get v) \<and> gs v" and x: "xdr_inv x" "x_op x = XDR_ENCODE"
    and f: "fits (length (e (get v) @ es v)) x"
  let ?y = "append_out (e (get v)) x"
  have f': "fits (length (e (get v))) x" "fits (length (es v)) ?y"
    using f by (auto simp: fits_def)
  have "p x (get v) = Some (True, get v, ?y)" "xdr_inv ?y"
    using xdr_filter.encode_ok [OF p] xdr_filter.encode_inv [OF p] v x f' by auto
  then show "xdr_seq (xdr_field get upd p # ps) x v = Some (True, v, append_out (e (get v) @ es v) x)"
    using ps v x f' by (simp add: xdr_field_def id xdr_run_def append_out_append xdr_inv_next)
next
  fix v x s
  assume v: "g (get v) \<and> gs v" and x: "xdr_inv x" "x_op x = XDR_DECODE"
    and a: "in_at (e (get v) @ es v) x" and s: "r (get s) \<and> (\<forall>a. pre (upd (\<lambda>_. a) s))"
  let ?y = "advance (length (e (get v))) x"
  have a': "in_at (e (get v)) x" "in_at (es v) ?y"
    using a x by (auto simp: in_at_append xdr_inv_next)
  have "p x (get s) = Some (True, get v, ?y)" "xdr_inv ?y"
    using xdr_filter.decode_ok [OF p, of "get v" x "get s"] xdr_filter.decode_inv [OF p] v x a' s by auto
  moreover from this have "xdr_seq ps ?y (upd (\<lambda>_. get v) s)
      = Some (True, ow v (upd (\<lambda>_. get v) s), advance (length (es v)) ?y)"
    using v x(2) a'(2) s by (intro run_decode [OF ps]) auto
  ultimately show "xdr_seq (xdr_field get upd p # ps) x s
      = Some (True, ow v (upd (\<lambda>_. get v) s), advance (length (e (get v) @ es v)) x)"
    by (simp add: xdr_field_def advance_advance)
next
  fix v and x :: xdr_struct
  assume v: "g (get v) \<and> (\<forall>a. fp (upd (\<lambda>_. a) v))" and x: "x_op x = XDR_FREE"
  obtain w where "p x (get v) = Some (True, w, x)"
    using xdr_filter.free_ok [OF p, of "get v" x] v x by blast
  then show "\<exists>v'. xdr_seq (xdr_field get upd p # ps) x v = Some (True, v', x)"
    using run_free [OF ps, of "upd (\<lambda>_. w) v" x] v x by (auto simp: xdr_field_def)
qed

lemma run_filter:
  assumes "xdr_run p e g pre ow fp" and "\<And>v. g' v \<Longrightarrow> e' v = e v \<and> g v \<and> fp v" and "\<And>s. r s \<Longrightarrow> pre s"
    and "\<And>v s. r s \<Longrightarrow> ow v s = v"
  shows "xdr_filter p e' g' (\<lambda>s _. r s)"
proof (unfold_locales, goal_cases)
  case (3 v x s)
  then show ?case using run_decode [OF assms(1), of v x s] assms(2-4) by simp
next
  case (4 v x)
  then show ?case using run_free [OF assms(1), of v x] assms(2) by simp
qed (use assms(1,2) in \<open>auto simp: xdr_run_def\<close>)

text \<open>The same for safety: what each field needs of its storage, checked before it runs.\<close>

definition run_safe :: "'s xdrproc \<Rightarrow> ('s \<Rightarrow> bool) \<Rightarrow> bool" where
  "run_safe p pre \<longleftrightarrow> (\<forall>x s. xdr_inv x \<longrightarrow> x_op x = XDR_DECODE \<longrightarrow> pre s \<longrightarrow>
     (\<exists>ok s' x'. p x s = Some (ok, s', x') \<and> xdr_inv x' \<and> x_op x' = XDR_DECODE))"

lemma run_safe_iff: "run_safe p pre \<longleftrightarrow> xdr_safe p pre"
  by (auto simp: run_safe_def xdr_safe_def)

lemma safe_nil: "run_safe (xdr_seq []) (\<lambda>_. True)"
  by (auto simp: run_safe_def)

lemma safe_cons:
  assumes p: "xdr_safe p r" and ps: "run_safe (xdr_seq ps) pre"
  shows "run_safe (xdr_seq (xdr_field get upd p # ps)) (\<lambda>s. r (get s) \<and> (\<forall>a. pre (upd (\<lambda>_. a) s)))"
  unfolding run_safe_def
proof (intro allI impI)
  fix x s
  assume x: "xdr_inv x" "x_op x = XDR_DECODE" and s: "r (get s) \<and> (\<forall>a. pre (upd (\<lambda>_. a) s))"
  obtain ok v y where y: "p x (get s) = Some (ok, v, y)" "xdr_inv y" "x_op y = XDR_DECODE"
    using xdr_safe.decode_safe [OF p x] s by blast
  obtain ok' s' x' where "xdr_seq ps y (upd (\<lambda>_. v) s) = Some (ok', s', x')" "xdr_inv x'" "x_op x' = XDR_DECODE"
    using ps y(2,3) s unfolding run_safe_def by blast
  then show "\<exists>ok s' x'. xdr_seq (xdr_field get upd p # ps) x s = Some (ok, s', x') \<and> xdr_inv x' \<and>
      x_op x' = XDR_DECODE"
    using y by (cases ok) (auto simp: xdr_field_def)
qed

lemma run_safe_safe: "run_safe p pre \<Longrightarrow> (\<And>s. r s \<Longrightarrow> pre s) \<Longrightarrow> xdr_safe p r"
  by (auto simp: run_safe_def xdr_safe_def)

section \<open>Unions\<close>

text \<open>
  A generated union is a struct of the discriminant and the C union. The C union is a datatype
  with a constructor per member, and one, \<open>z\<close>, for storage that is all zeros. \<open>xdr_member\<close> runs
  the filter of a member built by \<open>con\<close> and read by \<open>un\<close>; zeroed storage reads as the member
  \<open>zm\<close> of zeros. Reading the bytes of another member is not modelled and is \<open>None\<close>. \<open>xdr_union\<close> is the generated routine: cases are lists of labels with a filter; no
  matching label is the \<open>default\<close> case, which does nothing.
\<close>

record ('d, 'u) xdr_u =
  disc :: 'd
  member :: 'u

definition xdr_member ::
  "'u \<Rightarrow> 'm \<Rightarrow> ('m \<Rightarrow> 'u) \<Rightarrow> ('u \<Rightarrow> bool) \<Rightarrow> ('u \<Rightarrow> 'm) \<Rightarrow> 'm xdrproc \<Rightarrow> 'u xdrproc" where
  "xdr_member z zm con is_con un proc x u =
     (if u = z \<or> is_con u
      then do { (ok, m, x) \<leftarrow> proc x (if u = z then zm else un u); Some (ok, con m, x) }
      else None)"

definition xdr_union :: "'d xdrproc \<Rightarrow> ('d list \<times> 'u xdrproc) list \<Rightarrow> ('d, 'u) xdr_u xdrproc" where
  "xdr_union pd cases x s =
     do { (ok, d, x) \<leftarrow> pd x (disc s);
          if \<not> ok then Some (False, s\<lparr>disc := d\<rparr>, x)
          else case find (\<lambda>(ls, _). d \<in> set ls) cases of
                 None \<Rightarrow> Some (True, s\<lparr>disc := d\<rparr>, x)
               | Some (_, p) \<Rightarrow>
                   do { (ok, u, x) \<leftarrow> p x (member s); Some (ok, s\<lparr>disc := d, member := u\<rparr>, x) } }"

text \<open>The filter \<open>p\<close> carries the member \<open>u\<close> as the bytes \<open>bs\<close>, into zeroed storage \<open>z\<close>.\<close>

definition carries :: "'u xdrproc \<Rightarrow> bytes \<Rightarrow> 'u \<Rightarrow> 'u \<Rightarrow> bool" where
  "carries p bs z u \<longleftrightarrow> length bs mod 4 = 0 \<and>
     (\<forall>x. xdr_inv x \<longrightarrow> x_op x = XDR_ENCODE \<longrightarrow> fits (length bs) x \<longrightarrow>
        p x u = Some (True, u, append_out bs x)) \<and>
     (\<forall>x. xdr_inv x \<longrightarrow> x_op x = XDR_DECODE \<longrightarrow> in_at bs x \<longrightarrow>
        p x z = Some (True, u, advance (length bs) x)) \<and>
     (\<forall>x. x_op x = XDR_FREE \<longrightarrow> (\<exists>u'. p x u = Some (True, u', x)))"

lemma member_carries:
  assumes "xdr_filter p e g (\<lambda>s _. r s)" and "g m" and "r zm" and "bs = e m"
    and "un (con m) = m" and "is_con (con m)" and "con m \<noteq> z"
  shows "carries (xdr_member z zm con is_con un p) bs z (con m)"
proof -
  have "\<exists>u'. xdr_member z zm con is_con un p x (con m) = Some (True, u', x)" if "x_op x = XDR_FREE" for x
    using xdr_filter.free_ok [OF assms(1,2) that] assms(5-7) by (auto simp: xdr_member_def)
  then show ?thesis
    using assms(2-7) xdr_filter.enc_aligned [OF assms(1)] xdr_filter.encode_ok [OF assms(1)]
      xdr_filter.decode_ok [OF assms(1), of m _ zm]
    by (simp add: carries_def xdr_member_def)
qed

text \<open>
  A value of a union is well formed when its member is the one its discriminant selects, or
  its storage is untouched and the discriminant selects nothing.
\<close>

definition case_carries ::
  "('d list \<times> 'u xdrproc) list \<Rightarrow> ('u \<Rightarrow> bytes) \<Rightarrow> 'u \<Rightarrow> ('d, 'u) xdr_u \<Rightarrow> bool" where
  "case_carries cases eu z v \<longleftrightarrow>
     (case find (\<lambda>(ls, _). disc v \<in> set ls) cases of
        None \<Rightarrow> member v = z \<and> eu z = []
      | Some (_, p) \<Rightarrow> carries p (eu (member v)) z (member v))"

lemma union_filter:
  assumes pd: "xdr_filter pd ed gd (\<lambda>_ _. True)" and keep: "\<And>x d. x_op x = XDR_FREE \<Longrightarrow> pd x d = Some (True, d, x)"
    and good: "\<And>v. good v \<Longrightarrow> gd (disc v) \<and> case_carries cases eu z v"
  shows "xdr_filter (xdr_union pd cases) (\<lambda>v. ed (disc v) @ eu (member v)) good (\<lambda>s _. member s = z)"
proof (unfold_locales, goal_cases)
  case (1 v)
  then show ?case
    using good [of v] xdr_filter.enc_aligned [OF pd, of "disc v"]
    by (auto simp: case_carries_def carries_def mod_add_eq [symmetric] split: option.splits)
next
  case (2 v x)
  let ?y = "append_out (ed (disc v)) x"
  have f: "fits (length (ed (disc v))) x" "fits (length (eu (member v))) ?y"
    using 2 by (auto simp: fits_def)
  have y: "pd x (disc v) = Some (True, disc v, ?y)" "xdr_inv ?y" "x_op ?y = XDR_ENCODE"
    using 2 f good [of v] xdr_filter.encode_ok [OF pd] xdr_filter.encode_inv [OF pd] by auto
  then show ?case
    using good [OF 2(1)] f xdr_inv_next(1) [OF 2(2)]
    by (auto simp: xdr_union_def case_carries_def carries_def append_out_append split: option.splits)
next
  case (3 v x s)
  let ?y = "advance (length (ed (disc v))) x"
  have a: "in_at (ed (disc v)) x" "in_at (eu (member v)) ?y"
    using 3 by (auto simp: in_at_append xdr_inv_next)
  have y: "pd x (disc s) = Some (True, disc v, ?y)" "xdr_inv ?y" "x_op ?y = XDR_DECODE"
    using 3 a good [of v] xdr_filter.decode_ok [OF pd] xdr_filter.decode_inv [OF pd] by auto
  then show ?case
    using good [OF 3(1)] a 3(5)
    by (auto simp: xdr_union_def case_carries_def carries_def advance_advance split: option.splits)
next
  case (4 v x)
  then show ?case
    using good [OF 4(1)] keep [OF 4(2)]
    by (auto simp: xdr_union_def case_carries_def carries_def split: option.splits)
qed

lemma member_safe:
  assumes "xdr_safe p r" and "r zm"
  shows "xdr_safe (xdr_member z zm con is_con un p) (\<lambda>u. u = z)"
proof
  fix x u
  assume "xdr_inv x" "x_op x = XDR_DECODE" "u = z"
  then show "\<exists>ok v x'. xdr_member z zm con is_con un p x u = Some (ok, v, x') \<and> xdr_inv x'
      \<and> x_op x' = XDR_DECODE"
    using xdr_safe.decode_safe [OF assms(1), of x zm] assms(2) by (auto simp: xdr_member_def)
qed

text \<open>Decoding a union is safe if the filter of the member that arrives is.\<close>

lemma union_decode_safe:
  assumes pd: "xdr_safe pd (\<lambda>_. True)" and x: "xdr_inv x" "x_op x = XDR_DECODE" and s: "member s = z"
    and c: "\<And>d y ls p. pd x (disc s) = Some (True, d, y) \<Longrightarrow> (ls, p) \<in> set cases \<Longrightarrow> d \<in> set ls
       \<Longrightarrow> xdr_safe p (\<lambda>u. u = z)"
  shows "\<exists>ok v x'. xdr_union pd cases x s = Some (ok, v, x') \<and> xdr_inv x' \<and> x_op x' = XDR_DECODE"
proof -
  obtain ok d y where y: "pd x (disc s) = Some (ok, d, y)" "xdr_inv y" "x_op y = XDR_DECODE"
    using xdr_safe.decode_safe [OF pd x] by blast
  show ?thesis
  proof (cases "ok \<and> find (\<lambda>(ls, _). d \<in> set ls) cases \<noteq> None")
    case False
    then show ?thesis using y by (cases "find (\<lambda>(ls, _). d \<in> set ls) cases") (auto simp: xdr_union_def)
  next
    case True
    then obtain ls p where f: "find (\<lambda>(ls, _). d \<in> set ls) cases = Some (ls, p)" by auto
    then have "(ls, p) \<in> set cases" "d \<in> set ls"
      by (induction cases) (auto split: if_splits)
    then have "xdr_safe p (\<lambda>u. u = z)"
      using c [of d y ls p] True y(1) by simp
    then obtain ok' u x' where "p y z = Some (ok', u, x')" "xdr_inv x'" "x_op x' = XDR_DECODE"
      using xdr_safe.decode_safe [of p "\<lambda>u. u = z" y z] y by auto
    then show ?thesis using y f s True by (auto simp: xdr_union_def)
  qed
qed

lemma union_safe:
  assumes "xdr_safe pd (\<lambda>_. True)" and "list_all (\<lambda>c. xdr_safe (snd c) (\<lambda>u. u = z)) cases"
  shows "xdr_safe (xdr_union pd cases) (\<lambda>s. member s = z)"
proof
  fix x and s :: "('a, 'b) xdr_u"
  assume "xdr_inv x" "x_op x = XDR_DECODE" "member s = z"
  then show "\<exists>ok v x'. xdr_union pd cases x s = Some (ok, v, x') \<and> xdr_inv x' \<and> x_op x' = XDR_DECODE"
    using assms by (intro union_decode_safe [where z = z]) (auto simp: list_all_iff)
qed

lemma safe_cases_nil: "list_all (\<lambda>c. xdr_safe (snd c) r) []"
  by simp

lemma safe_cases_cons:
  "xdr_safe p r \<Longrightarrow> list_all (\<lambda>c. xdr_safe (snd c) r) cs \<Longrightarrow> list_all (\<lambda>c. xdr_safe (snd c) r) ((ls, p) # cs)"
  by simp

section \<open>Filters of the location interface\<close>

text \<open>
  \<open>xdr_float\<close> and \<open>xdr_double\<close> of \<^verbatim>\<open>loc_api_fixup.c\<close>. A \<open>float\<close> is its 32 bits; a \<open>double\<close> is
  its 64 bits, in memory the low word first: \<open>(long *) dp + 1\<close> is the high word. In the first
  call of \<open>xdr_double\<close> the high word may be stored even when the second call fails.
\<close>

definition xdr_float :: "u32 xdrproc" where
  "xdr_float x f = xdr_long x f"

definition hi_word :: "u64 \<Rightarrow> u32" where "hi_word d = ucast (drop_bit 32 d)"

definition lo_word :: "u64 \<Rightarrow> u32" where "lo_word d = ucast d"

definition words64 :: "u32 \<Rightarrow> u32 \<Rightarrow> u64" where "words64 h l = push_bit 32 (ucast h) OR ucast l"

definition xdr_double :: "u64 xdrproc" where
  "xdr_double x d =
     do { (ok, h, x) \<leftarrow> xdr_long x (hi_word d);
          let d = words64 h (lo_word d) in
          if \<not> ok then Some (False, d, x)
          else do { (ok, l, x) \<leftarrow> xdr_long x (lo_word d); Some (ok, words64 (hi_word d) l, x) } }"

lemma hi_word_words64 [simp]: "hi_word (words64 h l) = h"
  by (rule bit_word_eqI) (auto simp: hi_word_def words64_def bit_simps dest: bit_imp_le_length)

lemma lo_word_words64 [simp]: "lo_word (words64 h l) = l"
  by (rule bit_word_eqI) (auto simp: lo_word_def words64_def bit_simps)

lemma words64_hi_lo [simp]: "words64 (hi_word d) (lo_word d) = d"
  unfolding words64_def hi_word_def lo_word_def by (rule hyper_join)

text \<open>Eight bytes, the high word first: how 64-bit values travel.\<close>

definition be64 :: "u64 \<Rightarrow> bytes" where
  "be64 d = be32 (hi_word d) @ be32 (lo_word d)"

lemma length_be64 [simp]: "length (be64 d) = 8"
  by (simp add: be64_def)

named_theorems xdr_filters and xdr_safes

abbreviation (input) "always \<equiv> \<lambda>_. True"

lemma filter_any: "xdr_filter p e g (\<lambda>_ _. True) \<Longrightarrow> xdr_filter p e g (\<lambda>s _. always s)"
  by simp

lemma disc_kept:
  "x_op x = XDR_FREE \<Longrightarrow> xdr_enum x d = Some (True, d, x)"
  "x_op x = XDR_FREE \<Longrightarrow> xdr_u_quad_t x e = Some (True, e, x)"
  by (simp_all add: xdr_enum_def xdr_u_quad_t_def xdr_u_hyper_def)

lemma double_filter [xdr_filters]: "xdr_filter xdr_double be64 always (\<lambda>s _. always s)"
proof (unfold_locales, goal_cases)
  case (2 d x)
  then have "fits 4 x" "fits 4 (append_out (be32 (hi_word d)) x)"
    by (simp_all add: fits_def)
  then show ?case
    using 2 xlong.encode_ok [of x "hi_word d"] xlong.encode_inv [of x "hi_word d"]
      xlong.encode_ok [of "append_out (be32 (hi_word d)) x" "lo_word d"]
    by (simp add: xdr_double_def be64_def append_out_append xdr_inv_next)
next
  case (3 d x d0)
  then have "in_at (be32 (hi_word d)) x" "in_at (be32 (lo_word d)) (advance 4 x)"
    by (auto simp: be64_def in_at_append xdr_inv_next)
  then show ?case
    using 3 xlong.decode_ok [of x "hi_word d" "hi_word d0"] xlong.decode_inv [of x "hi_word d"]
      xlong.decode_ok [of "advance 4 x" "lo_word d" "lo_word d0"]
    by (simp add: xdr_double_def advance_advance)
qed (simp_all add: xdr_double_def xdr_long_def)

lemma float_filter [xdr_filters]: "xdr_filter xdr_float be32 always (\<lambda>s _. always s)"
  using xlong.xdr_filter_axioms by (simp add: xdr_float_def [abs_def])

lemma quad_filter [xdr_filters]: "xdr_filter xdr_u_quad_t be64 always (\<lambda>s _. always s)"
  using xu_hyper.xdr_filter_axioms
  by (simp add: xdr_u_quad_t_def [abs_def] be64_def [abs_def] hi_word_def lo_word_def)

lemmas [xdr_filters] = xu_long.xdr_filter_axioms xlong.xdr_filter_axioms xenum.xdr_filter_axioms
  xu_short.xdr_filter_axioms xu_char.xdr_filter_axioms xbool.xdr_filter_axioms

interpretation xlong_safe: xdr_safe xdr_long always
  by (rule int_safe [where f = "\<lambda>v. v" and g = id]) (auto simp: int_procs split: xdr_op.split)

interpretation xu_long_safe: xdr_safe xdr_u_long always
  by (rule int_safe [where f = "\<lambda>v. v" and g = id]) (auto simp: int_procs split: xdr_op.split)

interpretation xenum_safe: xdr_safe xdr_enum always
  by (rule int_safe [where f = "\<lambda>v. v" and g = id]) (auto simp: int_procs split: xdr_op.split)

lemma recv_pair_safe:
  assumes "xdr_inv x"
  shows "\<exists>r x'. bindM xdr_std_recv_uint32 (\<lambda>a. bindM xdr_std_recv_uint32 (\<lambda>b x. Some (Some (f a b), x))) x
     = Some (r, x') \<and> xdr_inv x' \<and> x_op x' = x_op x"
  using assms
proof (cases rule: xdr_std_recv_uint32_safe)
  case (2 a)
  from 2(3) show ?thesis
    by (cases rule: xdr_std_recv_uint32_safe) (use 2 in \<open>auto simp: bindM_def\<close>)
qed (auto simp: bindM_def assms)

lemma quad_safe [xdr_safes]: "xdr_safe xdr_u_quad_t always"
proof
  fix x v
  assume x: "xdr_inv x" "x_op x = XDR_DECODE"
  obtain r x' where "bindM xdr_std_recv_uint32 (\<lambda>a. bindM xdr_std_recv_uint32
      (\<lambda>b x. Some (Some (push_bit 32 (ucast a) OR ucast b :: u64), x))) x = Some (r, x')"
      "xdr_inv x'" "x_op x' = XDR_DECODE"
    using recv_pair_safe [OF x(1), of "\<lambda>a b. push_bit 32 (ucast a) OR ucast b :: u64"] x(2) by auto
  then show "\<exists>ok w x'. xdr_u_quad_t x v = Some (ok, w, x') \<and> xdr_inv x' \<and> x_op x' = XDR_DECODE"
    using x(2)
    by (cases r) (auto simp: xdr_u_quad_t_def xdr_u_hyper_def do_recv_def xdr_std_recv_int32_def)
qed

lemma double_safe [xdr_safes]: "xdr_safe xdr_double always"
proof
  fix x d
  assume "xdr_inv x" "x_op x = XDR_DECODE"
  then obtain ok h y where y: "xdr_long x (hi_word d) = Some (ok, h, y)" "xdr_inv y" "x_op y = XDR_DECODE"
    using xlong_safe.decode_safe by blast
  then obtain ok' l z where "xdr_long y (lo_word d) = Some (ok', l, z)" "xdr_inv z" "x_op z = XDR_DECODE"
    using xlong_safe.decode_safe by blast
  with y show "\<exists>ok w x'. xdr_double x d = Some (ok, w, x') \<and> xdr_inv x' \<and> x_op x' = XDR_DECODE"
    by (cases ok) (auto simp: xdr_double_def)
qed

lemma float_safe [xdr_safes]: "xdr_safe xdr_float always"
  using xlong_safe.xdr_safe_axioms by (simp add: xdr_float_def [abs_def])

lemmas [xdr_safes] = xu_long_safe.xdr_safe_axioms xlong_safe.xdr_safe_axioms xenum_safe.xdr_safe_axioms
  xu_short_safe.xdr_safe_axioms xu_char_safe.xdr_safe_axioms xbool_safe.xdr_safe_axioms

text \<open>
  The storage a decoder starts from is zeroed (\<open>memset\<close> in the server stub): arrays have their
  declared length, pointers are \<open>NULL\<close>. In that case the filters for arrays of bytes,
  counted bytes, strings, vectors, counted arrays and pointers have the contracts below. A
  value is good when in addition the allocator has the memory for its pointers.
\<close>

definition zero_chars :: "nat \<Rightarrow> cbuf" where
  "zero_chars n = Buf (replicate n 0)"

definition enc_opaque :: "cbuf \<Rightarrow> bytes" where
  "enc_opaque b = bbytes b @ xdr_pad (blen b)"

definition good_opaque :: "nat \<Rightarrow> cbuf \<Rightarrow> bool" where
  "good_opaque n b \<longleftrightarrow> b \<noteq> NULL \<and> blen b = n"

definition enc_counted :: "cbuf \<times> u32 \<Rightarrow> bytes" where
  "enc_counted v = (case v of (b, sz) \<Rightarrow> be32 sz @ bbytes b @ xdr_pad (unat sz))"

definition good_counted :: "(nat \<Rightarrow> bool) \<Rightarrow> cbuf \<times> u32 \<Rightarrow> bool" where
  "good_counted al v \<longleftrightarrow>
     v = (NULL, 0) \<or> (case v of (b, sz) \<Rightarrow> b \<noteq> NULL \<and> blen b = unat sz \<and> sz \<noteq> 0 \<and> al (unat sz))"

definition enc_str :: "cbuf \<Rightarrow> bytes" where
  "enc_str b = be32 (word_of_nat (blen b - 1)) @ butlast (bbytes b) @ xdr_pad (blen b - 1)"

definition good_str :: "(nat \<Rightarrow> bool) \<Rightarrow> nat \<Rightarrow> cbuf \<Rightarrow> bool" where
  "good_str al n b \<longleftrightarrow> bbytes b \<noteq> [] \<and> last (bbytes b) = 0 \<and> 0 \<notin> set (butlast (bbytes b)) \<and>
     blen b \<le> n + 1 \<and> al (blen b)"

definition enc_array :: "('v \<Rightarrow> bytes) \<Rightarrow> 'v list option \<times> u32 \<Rightarrow> bytes" where
  "enc_array e v = (case v of (vs, sz) \<Rightarrow> be32 sz @ (case vs of None \<Rightarrow> [] | Some l \<Rightarrow> enc_list e l))"

definition good_array ::
  "(nat \<Rightarrow> bool) \<Rightarrow> nat \<Rightarrow> nat \<Rightarrow> ('v \<Rightarrow> bool) \<Rightarrow> 'v list option \<times> u32 \<Rightarrow> bool" where
  "good_array al n elsize g v \<longleftrightarrow>
     v = (None, 0) \<or> (case v of (vs, sz) \<Rightarrow> vs \<noteq> None \<and> length (the vs) = unat sz \<and> sz \<noteq> 0 \<and> unat sz \<le> n \<and>
        unat sz * elsize < 2 ^ 32 \<and> list_all g (the vs) \<and> al (unat sz * elsize))"

definition enc_ptr :: "('v \<Rightarrow> bytes) \<Rightarrow> 'v option \<Rightarrow> bytes" where
  "enc_ptr e p = (case p of None \<Rightarrow> be32 0 | Some v \<Rightarrow> be32 1 @ e v)"

definition good_ptr :: "(nat \<Rightarrow> bool) \<Rightarrow> nat \<Rightarrow> ('v \<Rightarrow> bool) \<Rightarrow> 'v option \<Rightarrow> bool" where
  "good_ptr al n g p \<longleftrightarrow> (case p of None \<Rightarrow> True | Some v \<Rightarrow> g v) \<and> al n"

lemma filter_cong:
  assumes "xdr_filter p e g r" and "\<And>v. g' v \<Longrightarrow> g v \<and> e' v = e v" and "\<And>s v. g' v \<Longrightarrow> r' s \<Longrightarrow> r s v"
  shows "xdr_filter p e' g' (\<lambda>s _. r' s)"
  using assms(2,3) xdr_filter.enc_aligned [OF assms(1)] xdr_filter.encode_ok [OF assms(1)]
    xdr_filter.decode_ok [OF assms(1)] xdr_filter.free_ok [OF assms(1)]
  by (simp add: xdr_filter_def)

lemma opaque_filter:
  "xdr_filter (xdr_opaque n) enc_opaque (good_opaque (unat n)) (\<lambda>s _. s = zero_chars (unat n))"
  by (rule filter_cong [OF xopaque.xdr_filter_axioms])
    (auto simp: enc_opaque_def good_opaque_def zero_chars_def)

text \<open>A routine that is a filter for two sorts of values is one for both.\<close>

lemma filter_union:
  assumes "xdr_filter p e g r" and "xdr_filter p e g' r"
  shows "xdr_filter p e (\<lambda>v. g v \<or> g' v) r"
proof (unfold_locales, goal_cases)
  case (1 v)
  then show ?case using assms [THEN xdr_filter.enc_aligned] by blast
next
  case (2 v x)
  then show ?case using assms [THEN xdr_filter.encode_ok] by blast
next
  case (3 v x v0)
  then show ?case using assms [THEN xdr_filter.decode_ok] by blast
next
  case (4 v x)
  then show ?case using assms [THEN xdr_filter.free_ok] by blast
qed

text \<open>Counted bytes and arrays with no element: a null pointer and the count 0.\<close>

lemma send_no_bytes:
  assumes "xdr_inv x"
  shows "xdr_std_send_bytes NULL 0 x = Some (True, x)"
proof -
  have "uint (word_of_int (out_next x) :: u32) = out_next x"
    using assms by (simp add: xdr_inv_def uint_word_of_int_eq take_bit_int_eq_self)
  then have "\<not> word_of_int RPCROUTER_MSGSIZE_MAX < (word_of_int (out_next x) :: u32)"
    using assms by (simp add: xdr_inv_def word_less_def)
  then show ?thesis using assms by (simp add: xdr_std_send_bytes_def pad_loop.simps [of x] xdr_inv_def)
qed

lemma no_bytes_filter:
  "xdr_filter (xdr_bytes al (-1)) enc_counted (\<lambda>v. v = (NULL, 0)) (\<lambda>s _. s = (NULL, 0))"
proof (unfold_locales, goal_cases)
  case (2 v x)
  then have f: "fits 4 x" by (simp add: enc_counted_def xdr_pad_def)
  let ?y = "append_out (be32 0) x"
  have y: "xdr_inv ?y" using 2 f by (intro xdr_inv_append_out) auto
  have "xdr_std_send_uint32 0 x = Some (True, ?y)"
    using 2 f by (simp add: xdr_std_send_uint32_ok xdr_inv_def)
  moreover have "xdr_std_send_bytes NULL 0 ?y = Some (True, ?y)"
    using y by (rule send_no_bytes)
  ultimately show ?case using 2
    by (simp add: xdr_bytes_def enc_counted_def do_send_def seqM_def xdr_pad_def)
next
  case (3 v x v0)
  then show ?case by (simp add: xdr_bytes_def enc_counted_def xdr_std_recv_uint32_ok xdr_pad_def)
qed (auto simp: enc_counted_def xdr_bytes_def xdr_pad_def)

lemma no_array_filter:
  "xdr_filter (xdr_array al n elsize z p) (enc_array e) (\<lambda>v. v = (None, 0)) (\<lambda>s _. s = (None, 0))"
proof (unfold_locales, goal_cases)
  case (2 v x)
  then show ?case using xu_int.encode_ok [of x 0] by (simp add: xdr_array_def enc_array_def Let_def)
next
  case (3 v x v0)
  then show ?case using xu_int.decode_ok [of x 0 0] by (simp add: xdr_array_def enc_array_def Let_def)
qed (auto simp: enc_array_def xdr_array_def xdr_u_int_def Let_def)

lemma counted_filter:
  "xdr_filter (xdr_bytes al (-1)) enc_counted (good_counted al) (\<lambda>s _. s = (NULL, 0))"
  unfolding good_counted_def
  by (intro filter_union no_bytes_filter filter_cong [OF xbytes.xdr_filter_axioms])
    (auto simp: enc_counted_def bytes_storage_def)

lemma str_filter:
  assumes "unat n < 2 ^ 31"
  shows "xdr_filter (xdr_string al n) enc_str (good_str al (unat n)) (\<lambda>s _. s = NULL)"
proof (rule filter_cong [OF xstring.xdr_filter_axioms])
  fix v
  assume g: "good_str al (unat n) v"
  then obtain bs where v: "v = Buf bs" "bs \<noteq> []" by (cases v) (auto simp: good_str_def)
  with g have "last bs = 0" by (simp add: good_str_def)
  then have "v = c_string (butlast bs)"
    using v append_butlast_last_id [OF v(2)] by (simp add: c_string_def)
  moreover have "length (butlast bs) \<le> unat n" "0 \<notin> set (butlast bs)"
    using g v by (auto simp: good_str_def)
  ultimately show "(\<exists>s. v = c_string s \<and> 0 \<notin> set s \<and> length s \<le> unat n \<and> length s + 1 < 2 ^ 32) \<and>
      enc_str v = be32 (word_of_nat (blen v - 1)) @ butlast (bbytes v) @ xdr_pad (blen v - 1)"
    using assms unfolding enc_str_def by (intro conjI exI [of _ "butlast bs"]) auto
qed (auto simp: good_str_def bytes_storage_def)

lemma vec_filter:
  assumes "xdr_filter p e g (\<lambda>s _. r s)" and "r z"
  shows "xdr_filter (xdr_vector n p) (enc_list e) (\<lambda>vs. length vs = unat n \<and> list_all g vs)
     (\<lambda>s _. s = replicate (unat n) z)"
  by (rule filter_cong [OF xdr_filter.vector_filter [OF assms(1)]])
    (use assms(2) in \<open>auto simp: list_all_iff list_all2_conv_all_nth\<close>)

lemma vec_any_filter:
  assumes "xdr_filter p e g (\<lambda>s _. always s)"
  shows "xdr_filter (xdr_vector n p) (enc_list e) (\<lambda>vs. length vs = unat n \<and> list_all g vs)
     (\<lambda>s _. length s = unat n)"
  by (rule filter_cong [OF xdr_filter.vector_filter [OF assms]]) (auto simp: list_all_iff list_all2_conv_all_nth)

lemma arr_filter:
  assumes "xdr_filter p e g (\<lambda>s _. r s)" and "r z" and "0 < unat elsize"
  shows "xdr_filter (xdr_array al n elsize z p) (enc_array e) (good_array al (unat n) (unat elsize) g)
     (\<lambda>s _. s = (None, 0))"
  unfolding good_array_def
  by (intro filter_union no_array_filter filter_cong [OF xdr_filter.array_filter [OF assms(1)]])
    (use assms(2,3) in \<open>auto simp: list_all_iff enc_array_def word_le_nat_alt\<close>)

lemma ptr_filter:
  assumes "xdr_filter p e g (\<lambda>s _. r s)" and "r z"
  shows "xdr_filter (xdr_pointer al n z p) (enc_ptr e) (good_ptr al (unat n) g) (\<lambda>s _. s = None)"
  by (rule filter_cong [OF xdr_filter.pointer_filter [OF assms(1)]])
    (use assms(2) in \<open>auto simp: enc_ptr_def good_ptr_def\<close>)

lemma safe_cong: "xdr_safe p r \<Longrightarrow> (\<And>s. r' s \<Longrightarrow> r s) \<Longrightarrow> xdr_safe p r'"
  by (simp add: xdr_safe_def)

lemma opaque_zero_safe:
  "uint n \<le> SAFE_LIMIT \<Longrightarrow> xdr_safe (xdr_opaque n) (\<lambda>s. s = zero_chars (unat n))"
  by (rule safe_cong [OF opaque_safe]) (auto simp: zero_chars_def)

lemma str_safe:
  "uint n \<le> SAFE_LIMIT \<Longrightarrow> xdr_safe (xdr_string al n) (\<lambda>s. s = NULL)"
  by (rule safe_cong [OF string_safe]) auto

lemma vec_safe:
  assumes "xdr_safe p r" and "r z"
  shows "xdr_safe (xdr_vector n p) (\<lambda>s. s = replicate (unat n) z)"
  by (rule safe_cong [OF xdr_safe.vector_safe [OF assms(1)]]) (use assms(2) in auto)

lemma vec_any_safe:
  assumes "xdr_safe p always"
  shows "xdr_safe (xdr_vector n p) (\<lambda>s. length s = unat n)"
  by (rule safe_cong [OF xdr_safe.vector_safe [OF assms]]) simp

lemma arr_safe:
  assumes "xdr_safe p r" and "r z" and "0 < unat elsize" and "unat n * unat elsize < 2 ^ 32"
  shows "xdr_safe (xdr_array al n elsize z p) (\<lambda>s. s = (None, 0))"
  by (rule safe_cong [OF xdr_safe.array_safe [OF assms]]) auto

lemma ptr_safe:
  assumes "xdr_safe p r" and "r z"
  shows "xdr_safe (xdr_pointer al n z p) (\<lambda>s. s = None)"
  by (rule safe_cong [OF xdr_safe.pointer_safe [OF assms]])

text \<open>
  Counted bytes with the limit \<open>~0\<close> are safe if the allocator never hands out a block so large
  that the sum of the cursor and its size overflows an \<open>int\<close>.
\<close>

definition bounded_alloc :: "(nat \<Rightarrow> bool) \<Rightarrow> bool" where
  "bounded_alloc al \<longleftrightarrow> (\<forall>n. al n \<longrightarrow> int n \<le> SAFE_LIMIT)"

lemma counted_safe:
  assumes "bounded_alloc al"
  shows "xdr_safe (xdr_bytes al (-1)) (\<lambda>s. s = (NULL, 0))"
proof
  fix x and v0 :: "cbuf \<times> u32"
  assume x: "xdr_inv x" "x_op x = XDR_DECODE" and v0: "v0 = (NULL, 0)"
  show "\<exists>ok v x'. xdr_bytes al (-1) x v0 = Some (ok, v, x') \<and> xdr_inv x' \<and> x_op x' = XDR_DECODE"
    using x(1)
  proof (cases rule: xdr_std_recv_uint32_safe)
    case 1
    then show ?thesis using x v0 by (auto simp: xdr_bytes_def)
  next
    case (2 sz)
    show ?thesis
    proof (cases "sz = 0 \<or> \<not> al (unat sz)")
      case True
      then show ?thesis using x v0 2 by (auto simp: xdr_bytes_def Let_def mem_alloc_def)
    next
      case False
      then have "int (unat sz) \<le> SAFE_LIMIT" using assms unfolding bounded_alloc_def by blast
      then have "uint sz \<le> SAFE_LIMIT" by simp
      with 2(3) show ?thesis
        by (cases rule: xdr_std_recv_bytes_safe [where buf = "Buf (replicate (unat sz) 0)"])
          (use x v0 2 False in \<open>auto simp: xdr_bytes_def Let_def mem_alloc_def\<close>)
    qed
  qed
qed

end
