(* ===== verification/Loc_Api_Types.thy ===== *)
theory Loc_Api_Types
  imports Xdr_Struct
begin

text \<open>
  The data of the location interface: \<^verbatim>\<open>loc_api_common.h\<close>, \<^verbatim>\<open>loc_api.h\<close> and \<^verbatim>\<open>loc_api_cb.h\<close> under
  \<^verbatim>\<open>gps/loc_api/libloc_api-rpc/inc-50000\<close>, which rpcgen produced. A struct is a record whose fields
  carry the name of the struct as a prefix (\<open>year\<close> of \<open>rpc_loc_calendar_time_s_type\<close> is
  \<open>calendar_time_year\<close>); a union is a discriminant and a datatype with one constructor per
  member. Enumerations and \<open>bool_t\<close> are 32 bits wide, \<open>float\<close> and \<open>double\<close> are their bits. A
  \<open>char\<close> array is a buffer of its declared length, an array of another type a list, a pointer
  an option, a counted pointer \<open>{len, val}\<close> the pair of the block and its count. \<open>zero_\<close> with
  the name of a type is storage of that type that \<open>memset\<close> has cleared.
\<close>

type_synonym rpc_boolean = u32

type_synonym rpc_uint32 = u32

type_synonym rpc_uint16 = u16

type_synonym rpc_uint8 = u8

type_synonym rpc_int32 = u32

type_synonym rpc_byte = u8

type_synonym rpc_uint64 = u64

type_synonym rpc_loc_client_handle_type = rpc_int32

type_synonym rpc_loc_event_mask_type = rpc_uint64

type_synonym rpc_loc_position_valid_mask_type = rpc_uint64

type_synonym rpc_loc_pos_technology_mask_type = rpc_uint32

type_synonym rpc_loc_session_status_e_type = u32

record rpc_loc_calendar_time_s_type =
  calendar_time_year :: rpc_uint16
  calendar_time_month :: u8
  calendar_time_day_of_week :: u8
  calendar_time_day :: u8
  calendar_time_hour :: u8
  calendar_time_minute :: u8
  calendar_time_second :: u8
  calendar_time_millisecond :: rpc_uint16

definition zero_calendar_time :: rpc_loc_calendar_time_s_type where
  "zero_calendar_time =
    \<lparr>calendar_time_year = 0, calendar_time_month = 0, calendar_time_day_of_week = 0,
     calendar_time_day = 0, calendar_time_hour = 0, calendar_time_minute = 0,
     calendar_time_second = 0, calendar_time_millisecond = 0\<rparr>"

record rpc_loc_parsed_position_s_type =
  parsed_position_valid_mask :: rpc_loc_position_valid_mask_type
  parsed_position_session_status :: rpc_loc_session_status_e_type
  parsed_position_timestamp_calendar :: rpc_loc_calendar_time_s_type
  parsed_position_timestamp_utc :: rpc_uint64
  parsed_position_leap_seconds :: rpc_uint8
  parsed_position_time_unc :: u32
  parsed_position_latitude :: u64
  parsed_position_longitude :: u64
  parsed_position_altitude_wrt_ellipsoid :: u32
  parsed_position_altitude_wrt_mean_sea_level :: u32
  parsed_position_speed_horizontal :: u32
  parsed_position_speed_vertical :: u32
  parsed_position_heading :: u32
  parsed_position_hor_unc_circular :: u32
  parsed_position_hor_unc_ellipse_semi_major :: u32
  parsed_position_hor_unc_ellipse_semi_minor :: u32
  parsed_position_hor_unc_ellipse_orient_azimuth :: u32
  parsed_position_vert_unc :: u32
  parsed_position_speed_unc :: u32
  parsed_position_heading_unc :: u32
  parsed_position_confidence_horizontal :: u8
  parsed_position_confidence_vertical :: u8
  parsed_position_magnetic_deviation :: u32
  parsed_position_technology_mask :: rpc_loc_pos_technology_mask_type

definition zero_parsed_position :: rpc_loc_parsed_position_s_type where
  "zero_parsed_position =
    \<lparr>parsed_position_valid_mask = 0, parsed_position_session_status = 0,
     parsed_position_timestamp_calendar = zero_calendar_time, parsed_position_timestamp_utc = 0,
     parsed_position_leap_seconds = 0, parsed_position_time_unc = 0, parsed_position_latitude = 0,
     parsed_position_longitude = 0, parsed_position_altitude_wrt_ellipsoid = 0,
     parsed_position_altitude_wrt_mean_sea_level = 0, parsed_position_speed_horizontal = 0,
     parsed_position_speed_vertical = 0, parsed_position_heading = 0,
     parsed_position_hor_unc_circular = 0, parsed_position_hor_unc_ellipse_semi_major = 0,
     parsed_position_hor_unc_ellipse_semi_minor = 0,
     parsed_position_hor_unc_ellipse_orient_azimuth = 0, parsed_position_vert_unc = 0,
     parsed_position_speed_unc = 0, parsed_position_heading_unc = 0,
     parsed_position_confidence_horizontal = 0, parsed_position_confidence_vertical = 0,
     parsed_position_magnetic_deviation = 0, parsed_position_technology_mask = 0\<rparr>"

type_synonym rpc_loc_sv_system_e_type = u32

type_synonym rpc_loc_sv_status_e_type = u32

type_synonym rpc_loc_sv_info_valid_mask_type = rpc_uint32

record rpc_loc_sv_info_s_type =
  sv_info_valid_mask :: rpc_loc_sv_info_valid_mask_type
  sv_info_system :: rpc_loc_sv_system_e_type
  sv_info_prn :: rpc_uint8
  sv_info_health_status :: rpc_uint8
  sv_info_process_status :: rpc_loc_sv_status_e_type
  sv_info_has_eph :: rpc_boolean
  sv_info_has_alm :: rpc_boolean
  sv_info_elevation :: u32
  sv_info_azimuth :: u32
  sv_info_snr :: u32

definition zero_sv_info :: rpc_loc_sv_info_s_type where
  "zero_sv_info =
    \<lparr>sv_info_valid_mask = 0, sv_info_system = 0, sv_info_prn = 0, sv_info_health_status = 0,
     sv_info_process_status = 0, sv_info_has_eph = 0, sv_info_has_alm = 0, sv_info_elevation = 0,
     sv_info_azimuth = 0, sv_info_snr = 0\<rparr>"

type_synonym rpc_loc_gnss_info_valid_mask_type = rpc_uint32

record rpc_loc_gnss_info_s_type =
  gnss_info_valid_mask :: rpc_loc_gnss_info_valid_mask_type
  gnss_info_position_dop :: u32
  gnss_info_horizontal_dop :: u32
  gnss_info_vertical_dop :: u32
  gnss_info_altitude_assumed :: rpc_boolean
  gnss_info_sv_count :: rpc_uint16
  gnss_info_sv_list :: "(rpc_loc_sv_info_s_type list option \<times> u32)"

definition zero_gnss_info :: rpc_loc_gnss_info_s_type where
  "zero_gnss_info =
    \<lparr>gnss_info_valid_mask = 0, gnss_info_position_dop = 0, gnss_info_horizontal_dop = 0,
     gnss_info_vertical_dop = 0, gnss_info_altitude_assumed = 0, gnss_info_sv_count = 0,
     gnss_info_sv_list = (None, 0)\<rparr>"

record rpc_loc_nmea_report_s_type =
  nmea_report_length :: rpc_uint16
  nmea_report_nmea_sentences :: cbuf

definition zero_nmea_report :: rpc_loc_nmea_report_s_type where
  "zero_nmea_report =
    \<lparr>nmea_report_length = 0, nmea_report_nmea_sentences = zero_chars 200\<rparr>"

type_synonym rpc_loc_status_event_e_type = u32

type_synonym rpc_loc_engine_state_e_type = u32

type_synonym rpc_loc_fix_session_state_e_type = u32

datatype rpc_loc_status_event_payload_u_type_u =
  status_event_payload_u_unset
| status_event_payload_u_engine_state (un_status_event_payload_u_engine_state: rpc_loc_engine_state_e_type)
| status_event_payload_u_fix_session_state (un_status_event_payload_u_fix_session_state: rpc_loc_fix_session_state_e_type)

type_synonym rpc_loc_status_event_payload_u_type = "(rpc_loc_status_event_e_type, rpc_loc_status_event_payload_u_type_u) xdr_u"

definition zero_status_event_payload_u :: rpc_loc_status_event_payload_u_type where
  "zero_status_event_payload_u = \<lparr>disc = 0, member = status_event_payload_u_unset\<rparr>"

record rpc_loc_status_event_s_type =
  status_event_event :: rpc_loc_status_event_e_type
  status_event_payload :: rpc_loc_status_event_payload_u_type

definition zero_status_event :: rpc_loc_status_event_s_type where
  "zero_status_event =
    \<lparr>status_event_event = 0, status_event_payload = zero_status_event_payload_u\<rparr>"

type_synonym rpc_loc_server_addr_e_type = u32

record rpc_loc_server_addr_ipv4_type =
  server_addr_ipv4_addr :: rpc_uint32
  server_addr_ipv4_port :: rpc_uint16

definition zero_server_addr_ipv4 :: rpc_loc_server_addr_ipv4_type where
  "zero_server_addr_ipv4 =
    \<lparr>server_addr_ipv4_addr = 0, server_addr_ipv4_port = 0\<rparr>"

record rpc_loc_server_addr_url_type =
  server_addr_url_length :: rpc_uint16
  server_addr_url_addr :: cbuf

definition zero_server_addr_url :: rpc_loc_server_addr_url_type where
  "zero_server_addr_url =
    \<lparr>server_addr_url_length = 0, server_addr_url_addr = zero_chars 256\<rparr>"

datatype rpc_loc_server_addr_u_type_u =
  server_addr_u_unset
| server_addr_u_ipv4 (un_server_addr_u_ipv4: rpc_loc_server_addr_ipv4_type)
| server_addr_u_url (un_server_addr_u_url: rpc_loc_server_addr_url_type)

type_synonym rpc_loc_server_addr_u_type = "(rpc_loc_server_addr_e_type, rpc_loc_server_addr_u_type_u) xdr_u"

definition zero_server_addr_u :: rpc_loc_server_addr_u_type where
  "zero_server_addr_u = \<lparr>disc = 0, member = server_addr_u_unset\<rparr>"

record rpc_loc_server_info_s_type =
  server_info_addr_type :: rpc_loc_server_addr_e_type
  server_info_addr_info :: rpc_loc_server_addr_u_type

definition zero_server_info :: rpc_loc_server_info_s_type where
  "zero_server_info =
    \<lparr>server_info_addr_type = 0, server_info_addr_info = zero_server_addr_u\<rparr>"

type_synonym rpc_loc_ni_notify_verify_e_type = u32

type_synonym rpc_loc_ni_event_e_type = u32

type_synonym rpc_loc_ni_datacoding_scheme_e_type = u32

type_synonym rpc_loc_ni_vx_requester_id_encoding_scheme_e_type = u32

type_synonym rpc_loc_ni_vx_pos_mode_e_type = u32

record rpc_loc_ni_vx_requester_id_s_type =
  ni_vx_requester_id_requester_id_length :: u8
  ni_vx_requester_id_requester_id :: cbuf

definition zero_ni_vx_requester_id :: rpc_loc_ni_vx_requester_id_s_type where
  "zero_ni_vx_requester_id =
    \<lparr>ni_vx_requester_id_requester_id_length = 0, ni_vx_requester_id_requester_id = zero_chars 200\<rparr>"

record rpc_loc_ni_vx_notify_verify_req_s_type =
  ni_vx_notify_verify_req_notification_priv_type :: rpc_loc_ni_notify_verify_e_type
  ni_vx_notify_verify_req_pos_qos_incl :: u8
  ni_vx_notify_verify_req_pos_qos :: u8
  ni_vx_notify_verify_req_num_fixes :: rpc_uint32
  ni_vx_notify_verify_req_tbf :: rpc_uint32
  ni_vx_notify_verify_req_pos_mode :: rpc_loc_ni_vx_pos_mode_e_type
  ni_vx_notify_verify_req_encoding_scheme :: rpc_loc_ni_vx_requester_id_encoding_scheme_e_type
  ni_vx_notify_verify_req_requester_id :: rpc_loc_ni_vx_requester_id_s_type
  ni_vx_notify_verify_req_user_resp_timer_val :: rpc_uint16

definition zero_ni_vx_notify_verify_req :: rpc_loc_ni_vx_notify_verify_req_s_type where
  "zero_ni_vx_notify_verify_req =
    \<lparr>ni_vx_notify_verify_req_notification_priv_type = 0, ni_vx_notify_verify_req_pos_qos_incl = 0,
     ni_vx_notify_verify_req_pos_qos = 0, ni_vx_notify_verify_req_num_fixes = 0,
     ni_vx_notify_verify_req_tbf = 0, ni_vx_notify_verify_req_pos_mode = 0,
     ni_vx_notify_verify_req_encoding_scheme = 0,
     ni_vx_notify_verify_req_requester_id = zero_ni_vx_requester_id,
     ni_vx_notify_verify_req_user_resp_timer_val = 0\<rparr>"

type_synonym rpc_loc_ni_supl_pos_method_e_type = u32

record rpc_loc_ni_supl_slp_session_id_s_type =
  ni_supl_slp_session_id_presence :: u8
  ni_supl_slp_session_id_session_id :: cbuf
  ni_supl_slp_session_id_slp_address :: rpc_loc_server_info_s_type

definition zero_ni_supl_slp_session_id :: rpc_loc_ni_supl_slp_session_id_s_type where
  "zero_ni_supl_slp_session_id =
    \<lparr>ni_supl_slp_session_id_presence = 0, ni_supl_slp_session_id_session_id = zero_chars 4,
     ni_supl_slp_session_id_slp_address = zero_server_info\<rparr>"

record rpc_loc_ni_requestor_id_s_type =
  ni_requestor_id_data_coding_scheme :: u8
  ni_requestor_id_requestor_id_string :: cbuf
  ni_requestor_id_string_len :: u8

definition zero_ni_requestor_id :: rpc_loc_ni_requestor_id_s_type where
  "zero_ni_requestor_id =
    \<lparr>ni_requestor_id_data_coding_scheme = 0, ni_requestor_id_requestor_id_string = zero_chars 200,
     ni_requestor_id_string_len = 0\<rparr>"

record rpc_loc_ni_supl_client_name_s_type =
  ni_supl_client_name_data_coding_scheme :: u8
  ni_supl_client_name_client_name_string :: cbuf
  ni_supl_client_name_string_len :: u8

definition zero_ni_supl_client_name :: rpc_loc_ni_supl_client_name_s_type where
  "zero_ni_supl_client_name =
    \<lparr>ni_supl_client_name_data_coding_scheme = 0,
     ni_supl_client_name_client_name_string = zero_chars 64, ni_supl_client_name_string_len = 0\<rparr>"

record rpc_loc_ni_supl_qop_s_type =
  ni_supl_qop_bit_mask :: u8
  ni_supl_qop_horacc :: u8
  ni_supl_qop_veracc :: u8
  ni_supl_qop_maxLocAge :: rpc_uint16
  ni_supl_qop_delay :: u8

definition zero_ni_supl_qop :: rpc_loc_ni_supl_qop_s_type where
  "zero_ni_supl_qop =
    \<lparr>ni_supl_qop_bit_mask = 0, ni_supl_qop_horacc = 0, ni_supl_qop_veracc = 0,
     ni_supl_qop_maxLocAge = 0, ni_supl_qop_delay = 0\<rparr>"

record rpc_loc_ni_supl_notify_verify_req_s_type =
  ni_supl_notify_verify_req_notification_priv_type :: rpc_loc_ni_notify_verify_e_type
  ni_supl_notify_verify_req_flags :: rpc_uint16
  ni_supl_notify_verify_req_supl_slp_session_id :: rpc_loc_ni_supl_slp_session_id_s_type
  ni_supl_notify_verify_req_supl_hash :: cbuf
  ni_supl_notify_verify_req_datacoding_scheme :: rpc_loc_ni_datacoding_scheme_e_type
  ni_supl_notify_verify_req_pos_method :: rpc_loc_ni_supl_pos_method_e_type
  ni_supl_notify_verify_req_requestor_id :: rpc_loc_ni_requestor_id_s_type
  ni_supl_notify_verify_req_client_name :: rpc_loc_ni_supl_client_name_s_type
  ni_supl_notify_verify_req_supl_qop :: rpc_loc_ni_supl_qop_s_type
  ni_supl_notify_verify_req_user_response_timer :: rpc_uint16

definition zero_ni_supl_notify_verify_req :: rpc_loc_ni_supl_notify_verify_req_s_type where
  "zero_ni_supl_notify_verify_req =
    \<lparr>ni_supl_notify_verify_req_notification_priv_type = 0, ni_supl_notify_verify_req_flags = 0,
     ni_supl_notify_verify_req_supl_slp_session_id = zero_ni_supl_slp_session_id,
     ni_supl_notify_verify_req_supl_hash = zero_chars 8,
     ni_supl_notify_verify_req_datacoding_scheme = 0, ni_supl_notify_verify_req_pos_method = 0,
     ni_supl_notify_verify_req_requestor_id = zero_ni_requestor_id,
     ni_supl_notify_verify_req_client_name = zero_ni_supl_client_name,
     ni_supl_notify_verify_req_supl_qop = zero_ni_supl_qop,
     ni_supl_notify_verify_req_user_response_timer = 0\<rparr>"

record rpc_loc_ni_ext_client_address_s_type =
  ni_ext_client_address_ext_client_address_len :: u8
  ni_ext_client_address_ext_client_address :: cbuf

definition zero_ni_ext_client_address :: rpc_loc_ni_ext_client_address_s_type where
  "zero_ni_ext_client_address =
    \<lparr>ni_ext_client_address_ext_client_address_len = 0,
     ni_ext_client_address_ext_client_address = zero_chars 20\<rparr>"

type_synonym rpc_loc_ni_location_type_e_type = u32

record rpc_loc_ni_deferred_location_s_type =
  ni_deferred_location_unused_bits :: u8
  ni_deferred_location_ms_available :: u8

definition zero_ni_deferred_location :: rpc_loc_ni_deferred_location_s_type where
  "zero_ni_deferred_location =
    \<lparr>ni_deferred_location_unused_bits = 0, ni_deferred_location_ms_available = 0\<rparr>"

record rpc_loc_ni_codeword_string_s_type =
  ni_codeword_string_data_coding_scheme :: u8
  ni_codeword_string_lcs_codeword_string :: cbuf
  ni_codeword_string_string_len :: u8

definition zero_ni_codeword_string :: rpc_loc_ni_codeword_string_s_type where
  "zero_ni_codeword_string =
    \<lparr>ni_codeword_string_data_coding_scheme = 0,
     ni_codeword_string_lcs_codeword_string = zero_chars 20, ni_codeword_string_string_len = 0\<rparr>"

record rpc_loc_ni_service_type_id_s_type =
  ni_service_type_id_lcs_service_type_id :: u8

definition zero_ni_service_type_id :: rpc_loc_ni_service_type_id_s_type where
  "zero_ni_service_type_id =
    \<lparr>ni_service_type_id_lcs_service_type_id = 0\<rparr>"

record rpc_loc_ni_umts_cp_notify_verify_req_s_type =
  ni_umts_cp_notify_verify_req_notification_priv_type :: rpc_loc_ni_notify_verify_e_type
  ni_umts_cp_notify_verify_req_invoke_id :: u8
  ni_umts_cp_notify_verify_req_flags :: rpc_uint16
  ni_umts_cp_notify_verify_req_notification_length :: u8
  ni_umts_cp_notify_verify_req_notification_text :: cbuf
  ni_umts_cp_notify_verify_req_datacoding_scheme :: rpc_loc_ni_datacoding_scheme_e_type
  ni_umts_cp_notify_verify_req_ext_client_address_data :: rpc_loc_ni_ext_client_address_s_type
  ni_umts_cp_notify_verify_req_location_type :: rpc_loc_ni_location_type_e_type
  ni_umts_cp_notify_verify_req_deferred_location :: rpc_loc_ni_deferred_location_s_type
  ni_umts_cp_notify_verify_req_requestor_id :: rpc_loc_ni_requestor_id_s_type
  ni_umts_cp_notify_verify_req_codeword_string :: rpc_loc_ni_codeword_string_s_type
  ni_umts_cp_notify_verify_req_service_type_id :: rpc_loc_ni_service_type_id_s_type
  ni_umts_cp_notify_verify_req_user_response_timer :: rpc_uint16

definition zero_ni_umts_cp_notify_verify_req :: rpc_loc_ni_umts_cp_notify_verify_req_s_type where
  "zero_ni_umts_cp_notify_verify_req =
    \<lparr>ni_umts_cp_notify_verify_req_notification_priv_type = 0,
     ni_umts_cp_notify_verify_req_invoke_id = 0, ni_umts_cp_notify_verify_req_flags = 0,
     ni_umts_cp_notify_verify_req_notification_length = 0,
     ni_umts_cp_notify_verify_req_notification_text = zero_chars 64,
     ni_umts_cp_notify_verify_req_datacoding_scheme = 0,
     ni_umts_cp_notify_verify_req_ext_client_address_data = zero_ni_ext_client_address,
     ni_umts_cp_notify_verify_req_location_type = 0,
     ni_umts_cp_notify_verify_req_deferred_location = zero_ni_deferred_location,
     ni_umts_cp_notify_verify_req_requestor_id = zero_ni_requestor_id,
     ni_umts_cp_notify_verify_req_codeword_string = zero_ni_codeword_string,
     ni_umts_cp_notify_verify_req_service_type_id = zero_ni_service_type_id,
     ni_umts_cp_notify_verify_req_user_response_timer = 0\<rparr>"

type_synonym rpc_loc_ni_service_interaction_e_type = u32

record rpc_loc_ni_vx_service_interaction_req_s_type =
  ni_vx_service_interaction_req_ni_vx_req :: rpc_loc_ni_vx_notify_verify_req_s_type
  ni_vx_service_interaction_req_service_interation_type :: rpc_loc_ni_service_interaction_e_type

definition zero_ni_vx_service_interaction_req :: rpc_loc_ni_vx_service_interaction_req_s_type where
  "zero_ni_vx_service_interaction_req =
    \<lparr>ni_vx_service_interaction_req_ni_vx_req = zero_ni_vx_notify_verify_req,
     ni_vx_service_interaction_req_service_interation_type = 0\<rparr>"

datatype rpc_loc_ni_event_payload_u_type_u =
  ni_event_payload_u_unset
| ni_event_payload_u_vx_req (un_ni_event_payload_u_vx_req: rpc_loc_ni_vx_notify_verify_req_s_type)
| ni_event_payload_u_supl_req (un_ni_event_payload_u_supl_req: rpc_loc_ni_supl_notify_verify_req_s_type)
| ni_event_payload_u_umts_cp_req (un_ni_event_payload_u_umts_cp_req: rpc_loc_ni_umts_cp_notify_verify_req_s_type)
| ni_event_payload_u_service_interaction_req (un_ni_event_payload_u_service_interaction_req: rpc_loc_ni_vx_service_interaction_req_s_type)

type_synonym rpc_loc_ni_event_payload_u_type = "(rpc_loc_ni_event_e_type, rpc_loc_ni_event_payload_u_type_u) xdr_u"

definition zero_ni_event_payload_u :: rpc_loc_ni_event_payload_u_type where
  "zero_ni_event_payload_u = \<lparr>disc = 0, member = ni_event_payload_u_unset\<rparr>"

record rpc_loc_ni_event_s_type =
  ni_event_event :: rpc_loc_ni_event_e_type
  ni_event_payload :: rpc_loc_ni_event_payload_u_type

definition zero_ni_event :: rpc_loc_ni_event_s_type where
  "zero_ni_event =
    \<lparr>ni_event_event = 0, ni_event_payload = zero_ni_event_payload_u\<rparr>"

type_synonym rpc_loc_assist_data_request_e_type = u32

type_synonym rpc_struct_loc_time_download_source_s_type_servers_ptr = cbuf

type_synonym rpc_struct_loc_time_download_source_s_type_servers = "rpc_struct_loc_time_download_source_s_type_servers_ptr list"

definition zero_struct_loc_time_download_source_s_type_servers :: rpc_struct_loc_time_download_source_s_type_servers where
  "zero_struct_loc_time_download_source_s_type_servers = replicate 3 NULL"

record rpc_loc_time_download_source_s_type =
  time_download_source_delay_threshold :: rpc_uint32
  time_download_source_servers :: rpc_struct_loc_time_download_source_s_type_servers

definition zero_time_download_source :: rpc_loc_time_download_source_s_type where
  "zero_time_download_source =
    \<lparr>time_download_source_delay_threshold = 0,
     time_download_source_servers = zero_struct_loc_time_download_source_s_type_servers\<rparr>"

type_synonym rpc_struct_loc_predicted_orbits_data_source_s_type_servers_ptr = cbuf

type_synonym rpc_struct_loc_predicted_orbits_data_source_s_type_servers = "rpc_struct_loc_predicted_orbits_data_source_s_type_servers_ptr list"

definition zero_struct_loc_predicted_orbits_data_source_s_type_servers :: rpc_struct_loc_predicted_orbits_data_source_s_type_servers where
  "zero_struct_loc_predicted_orbits_data_source_s_type_servers = replicate 3 NULL"

record rpc_loc_predicted_orbits_data_source_s_type =
  predicted_orbits_data_source_max_file_size :: rpc_uint32
  predicted_orbits_data_source_max_part_size :: rpc_uint32
  predicted_orbits_data_source_servers :: rpc_struct_loc_predicted_orbits_data_source_s_type_servers

definition zero_predicted_orbits_data_source :: rpc_loc_predicted_orbits_data_source_s_type where
  "zero_predicted_orbits_data_source =
    \<lparr>predicted_orbits_data_source_max_file_size = 0, predicted_orbits_data_source_max_part_size = 0,
     predicted_orbits_data_source_servers = zero_struct_loc_predicted_orbits_data_source_s_type_servers\<rparr>"

datatype rpc_loc_assist_data_request_payload_u_type_u =
  assist_data_request_payload_u_unset
| assist_data_request_payload_u_time_download (un_assist_data_request_payload_u_time_download: rpc_loc_time_download_source_s_type)
| assist_data_request_payload_u_data_download (un_assist_data_request_payload_u_data_download: rpc_loc_predicted_orbits_data_source_s_type)

type_synonym rpc_loc_assist_data_request_payload_u_type = "(rpc_loc_assist_data_request_e_type, rpc_loc_assist_data_request_payload_u_type_u) xdr_u"

definition zero_assist_data_request_payload_u :: rpc_loc_assist_data_request_payload_u_type where
  "zero_assist_data_request_payload_u = \<lparr>disc = 0, member = assist_data_request_payload_u_unset\<rparr>"

record rpc_loc_assist_data_request_s_type =
  assist_data_request_event :: rpc_loc_assist_data_request_e_type
  assist_data_request_payload :: rpc_loc_assist_data_request_payload_u_type

definition zero_assist_data_request :: rpc_loc_assist_data_request_s_type where
  "zero_assist_data_request =
    \<lparr>assist_data_request_event = 0, assist_data_request_payload = zero_assist_data_request_payload_u\<rparr>"

type_synonym rpc_loc_server_connection_handle = rpc_uint32

type_synonym rpc_loc_server_protocol_e_type = u32

type_synonym rpc_loc_server_request_e_type = u32

record rpc_loc_server_open_req_s_type =
  server_open_req_conn_handle :: rpc_loc_server_connection_handle
  server_open_req_protocol :: rpc_loc_server_protocol_e_type

definition zero_server_open_req :: rpc_loc_server_open_req_s_type where
  "zero_server_open_req =
    \<lparr>server_open_req_conn_handle = 0, server_open_req_protocol = 0\<rparr>"

record rpc_loc_server_close_req_s_type =
  server_close_req_conn_handle :: rpc_loc_server_connection_handle

definition zero_server_close_req :: rpc_loc_server_close_req_s_type where
  "zero_server_close_req =
    \<lparr>server_close_req_conn_handle = 0\<rparr>"

datatype rpc_loc_server_request_u_type_u =
  server_request_u_unset
| server_request_u_open_req (un_server_request_u_open_req: rpc_loc_server_open_req_s_type)
| server_request_u_close_req (un_server_request_u_close_req: rpc_loc_server_close_req_s_type)

type_synonym rpc_loc_server_request_u_type = "(rpc_loc_server_request_e_type, rpc_loc_server_request_u_type_u) xdr_u"

definition zero_server_request_u :: rpc_loc_server_request_u_type where
  "zero_server_request_u = \<lparr>disc = 0, member = server_request_u_unset\<rparr>"

record rpc_loc_server_request_s_type =
  server_request_event :: rpc_loc_server_request_e_type
  server_request_payload :: rpc_loc_server_request_u_type

definition zero_server_request :: rpc_loc_server_request_s_type where
  "zero_server_request =
    \<lparr>server_request_event = 0, server_request_payload = zero_server_request_u\<rparr>"

type_synonym rpc_loc_qwip_request_e_type = u32

record rpc_loc_qwip_request_s_type =
  qwip_request_request_type :: rpc_loc_qwip_request_e_type
  qwip_request_tbf_ms :: rpc_uint16

definition zero_qwip_request :: rpc_loc_qwip_request_s_type where
  "zero_qwip_request =
    \<lparr>qwip_request_request_type = 0, qwip_request_tbf_ms = 0\<rparr>"

record rpc_loc_reserved_payload_s_type =
  reserved_payload_data_size :: rpc_uint16
  reserved_payload_data :: "(cbuf \<times> u32)"

definition zero_reserved_payload :: rpc_loc_reserved_payload_s_type where
  "zero_reserved_payload =
    \<lparr>reserved_payload_data_size = 0, reserved_payload_data = (NULL, 0)\<rparr>"

type_synonym rpc_loc_ioctl_e_type = u32

record rpc_loc_api_version_s_type =
  api_version_major :: u8
  api_version_minor :: u8

definition zero_api_version :: rpc_loc_api_version_s_type where
  "zero_api_version =
    \<lparr>api_version_major = 0, api_version_minor = 0\<rparr>"

type_synonym rpc_loc_fix_recurrence_e_type = u32

type_synonym rpc_loc_operation_mode_e_type = u32

type_synonym rpc_loc_notify_e_type = u32

record rpc_loc_fix_criteria_s_type =
  fix_criteria_valid_mask :: rpc_uint32
  fix_criteria_recurrence_type :: rpc_loc_fix_recurrence_e_type
  fix_criteria_preferred_operation_mode :: rpc_loc_operation_mode_e_type
  fix_criteria_preferred_accuracy :: rpc_uint32
  fix_criteria_preferred_response_time :: rpc_uint32
  fix_criteria_intermediate_pos_report_enabled :: rpc_boolean
  fix_criteria_notify_type :: rpc_loc_notify_e_type
  fix_criteria_min_interval :: rpc_uint32
  fix_criteria_min_distance :: u32
  fix_criteria_min_dist_sample_interval :: rpc_uint32

definition zero_fix_criteria :: rpc_loc_fix_criteria_s_type where
  "zero_fix_criteria =
    \<lparr>fix_criteria_valid_mask = 0, fix_criteria_recurrence_type = 0,
     fix_criteria_preferred_operation_mode = 0, fix_criteria_preferred_accuracy = 0,
     fix_criteria_preferred_response_time = 0, fix_criteria_intermediate_pos_report_enabled = 0,
     fix_criteria_notify_type = 0, fix_criteria_min_interval = 0, fix_criteria_min_distance = 0,
     fix_criteria_min_dist_sample_interval = 0\<rparr>"

type_synonym rpc_loc_ni_user_resp_e_type = u32

record rpc_loc_user_verify_s_type =
  user_verify_user_resp :: rpc_loc_ni_user_resp_e_type
  user_verify_ni_event_pass_back :: rpc_loc_ni_event_s_type

definition zero_user_verify :: rpc_loc_user_verify_s_type where
  "zero_user_verify =
    \<lparr>user_verify_user_resp = 0, user_verify_ni_event_pass_back = zero_ni_event\<rparr>"

type_synonym rpc_loc_predicted_orbits_data_format_e_type = u32

record rpc_loc_predicted_orbits_data_s_type =
  predicted_orbits_data_format_type :: rpc_loc_predicted_orbits_data_format_e_type
  predicted_orbits_data_total_size :: rpc_uint32
  predicted_orbits_data_total_parts :: rpc_uint8
  predicted_orbits_data_part :: rpc_uint8
  predicted_orbits_data_part_len :: rpc_uint16
  predicted_orbits_data_data_ptr :: "(cbuf \<times> u32)"

definition zero_predicted_orbits_data :: rpc_loc_predicted_orbits_data_s_type where
  "zero_predicted_orbits_data =
    \<lparr>predicted_orbits_data_format_type = 0, predicted_orbits_data_total_size = 0,
     predicted_orbits_data_total_parts = 0, predicted_orbits_data_part = 0,
     predicted_orbits_data_part_len = 0, predicted_orbits_data_data_ptr = (NULL, 0)\<rparr>"

record rpc_loc_predicted_orbits_data_validity_report_s_type =
  predicted_orbits_data_validity_report_start_time_utc :: rpc_uint64
  predicted_orbits_data_validity_report_valid_duration_hrs :: rpc_uint16

definition zero_predicted_orbits_data_validity_report :: rpc_loc_predicted_orbits_data_validity_report_s_type where
  "zero_predicted_orbits_data_validity_report =
    \<lparr>predicted_orbits_data_validity_report_start_time_utc = 0,
     predicted_orbits_data_validity_report_valid_duration_hrs = 0\<rparr>"

record rpc_loc_predicted_orbits_auto_download_config_s_type =
  predicted_orbits_auto_download_config_enable :: rpc_boolean
  predicted_orbits_auto_download_config_auto_check_every_hrs :: u8

definition zero_predicted_orbits_auto_download_config :: rpc_loc_predicted_orbits_auto_download_config_s_type where
  "zero_predicted_orbits_auto_download_config =
    \<lparr>predicted_orbits_auto_download_config_enable = 0,
     predicted_orbits_auto_download_config_auto_check_every_hrs = 0\<rparr>"

record rpc_loc_assist_data_time_s_type =
  assist_data_time_time_utc :: rpc_uint64
  assist_data_time_uncertainty :: rpc_uint32

definition zero_assist_data_time :: rpc_loc_assist_data_time_s_type where
  "zero_assist_data_time =
    \<lparr>assist_data_time_time_utc = 0, assist_data_time_uncertainty = 0\<rparr>"

type_synonym rpc_loc_assist_pos_valid_mask_type = rpc_uint64

record rpc_loc_assist_data_pos_s_type =
  assist_data_pos_valid_mask :: rpc_loc_assist_pos_valid_mask_type
  assist_data_pos_timestamp_utc :: rpc_uint64
  assist_data_pos_latitude :: u64
  assist_data_pos_longitude :: u64
  assist_data_pos_altitude_wrt_ellipsoid :: u32
  assist_data_pos_altitude_wrt_mean_sea_level :: u32
  assist_data_pos_hor_unc_circular :: u32
  assist_data_pos_vert_unc :: u32
  assist_data_pos_confidence_horizontal :: u8
  assist_data_pos_confidence_vertical :: u8
  assist_data_pos_timestamp_age :: rpc_int32

definition zero_assist_data_pos :: rpc_loc_assist_data_pos_s_type where
  "zero_assist_data_pos =
    \<lparr>assist_data_pos_valid_mask = 0, assist_data_pos_timestamp_utc = 0,
     assist_data_pos_latitude = 0, assist_data_pos_longitude = 0,
     assist_data_pos_altitude_wrt_ellipsoid = 0, assist_data_pos_altitude_wrt_mean_sea_level = 0,
     assist_data_pos_hor_unc_circular = 0, assist_data_pos_vert_unc = 0,
     assist_data_pos_confidence_horizontal = 0, assist_data_pos_confidence_vertical = 0,
     assist_data_pos_timestamp_age = 0\<rparr>"

type_synonym rpc_loc_server_open_status_e_type = u32

record rpc_loc_server_open_status_s_type =
  server_open_status_conn_handle :: rpc_loc_server_connection_handle
  server_open_status_open_status :: rpc_loc_server_open_status_e_type
  server_open_status_apn_name :: cbuf

definition zero_server_open_status :: rpc_loc_server_open_status_s_type where
  "zero_server_open_status =
    \<lparr>server_open_status_conn_handle = 0, server_open_status_open_status = 0,
     server_open_status_apn_name = zero_chars 100\<rparr>"

type_synonym rpc_loc_server_close_status_e_type = u32

record rpc_loc_server_close_status_s_type =
  server_close_status_conn_handle :: rpc_loc_server_connection_handle
  server_close_status_close_status :: rpc_loc_server_close_status_e_type

definition zero_server_close_status :: rpc_loc_server_close_status_s_type where
  "zero_server_close_status =
    \<lparr>server_close_status_conn_handle = 0, server_close_status_close_status = 0\<rparr>"

record rpc_loc_wiper_fix_time_s_type =
  wiper_fix_time_slow_clock_count :: rpc_uint32

definition zero_wiper_fix_time :: rpc_loc_wiper_fix_time_s_type where
  "zero_wiper_fix_time =
    \<lparr>wiper_fix_time_slow_clock_count = 0\<rparr>"

record rpc_loc_wiper_fix_pos_s_type =
  wiper_fix_pos_lat :: rpc_int32
  wiper_fix_pos_lon :: rpc_int32
  wiper_fix_pos_HEPE :: rpc_uint16
  wiper_fix_pos_num_of_aps_used :: rpc_uint8
  wiper_fix_pos_fix_error_code :: rpc_uint8

definition zero_wiper_fix_pos :: rpc_loc_wiper_fix_pos_s_type where
  "zero_wiper_fix_pos =
    \<lparr>wiper_fix_pos_lat = 0, wiper_fix_pos_lon = 0, wiper_fix_pos_HEPE = 0,
     wiper_fix_pos_num_of_aps_used = 0, wiper_fix_pos_fix_error_code = 0\<rparr>"

record rpc_loc_wiper_ap_info_s_type =
  wiper_ap_info_mac_addr :: cbuf
  wiper_ap_info_rssi :: rpc_int32
  wiper_ap_info_channel :: rpc_uint16
  wiper_ap_info_ap_qualifier :: rpc_uint8

definition zero_wiper_ap_info :: rpc_loc_wiper_ap_info_s_type where
  "zero_wiper_ap_info =
    \<lparr>wiper_ap_info_mac_addr = zero_chars 6, wiper_ap_info_rssi = 0, wiper_ap_info_channel = 0,
     wiper_ap_info_ap_qualifier = 0\<rparr>"

record rpc_loc_wiper_ap_set_s_type =
  wiper_ap_set_num_of_aps :: rpc_uint8
  wiper_ap_set_ap_info :: "rpc_loc_wiper_ap_info_s_type list"

definition zero_wiper_ap_set :: rpc_loc_wiper_ap_set_s_type where
  "zero_wiper_ap_set =
    \<lparr>wiper_ap_set_num_of_aps = 0, wiper_ap_set_ap_info = replicate 50 zero_wiper_ap_info\<rparr>"

record rpc_loc_wiper_position_report_s_type =
  wiper_position_report_wiper_valid_info_flag :: rpc_uint8
  wiper_position_report_wiper_fix_time :: rpc_loc_wiper_fix_time_s_type
  wiper_position_report_wiper_fix_position :: rpc_loc_wiper_fix_pos_s_type
  wiper_position_report_wiper_ap_set :: rpc_loc_wiper_ap_set_s_type

definition zero_wiper_position_report :: rpc_loc_wiper_position_report_s_type where
  "zero_wiper_position_report =
    \<lparr>wiper_position_report_wiper_valid_info_flag = 0,
     wiper_position_report_wiper_fix_time = zero_wiper_fix_time,
     wiper_position_report_wiper_fix_position = zero_wiper_fix_pos,
     wiper_position_report_wiper_ap_set = zero_wiper_ap_set\<rparr>"

type_synonym rpc_loc_wiper_status_e_type = u32

type_synonym rpc_loc_fs_operation_e_type = u32

record rpc_loc_efs_data_s_type =
  efs_data_filename :: cbuf
  efs_data_operation :: rpc_loc_fs_operation_e_type
  efs_data_total_size :: rpc_uint32
  efs_data_data_ptr :: "(cbuf \<times> u32)"
  efs_data_part_len :: rpc_uint32
  efs_data_part :: rpc_uint8
  efs_data_total_parts :: rpc_uint8
  efs_data_reserved :: rpc_uint32

definition zero_efs_data :: rpc_loc_efs_data_s_type where
  "zero_efs_data =
    \<lparr>efs_data_filename = zero_chars 64, efs_data_operation = 0, efs_data_total_size = 0,
     efs_data_data_ptr = (NULL, 0), efs_data_part_len = 0, efs_data_part = 0,
     efs_data_total_parts = 0, efs_data_reserved = 0\<rparr>"

type_synonym rpc_loc_lock_e_type = u32

type_synonym rpc_loc_nmea_sentence_type = rpc_uint32

type_synonym rpc_loc_assist_data_type = rpc_uint32

record rpc_loc_assist_data_delete_s_type =
  assist_data_delete_type :: rpc_loc_assist_data_type
  assist_data_delete_reserved :: "rpc_uint32 list"

definition zero_assist_data_delete :: rpc_loc_assist_data_delete_s_type where
  "zero_assist_data_delete =
    \<lparr>assist_data_delete_type = 0, assist_data_delete_reserved = replicate 8 0\<rparr>"

datatype rpc_loc_ioctl_data_u_type_u =
  ioctl_data_u_unset
| ioctl_data_u_fix_criteria (un_ioctl_data_u_fix_criteria: rpc_loc_fix_criteria_s_type)
| ioctl_data_u_user_verify_resp (un_ioctl_data_u_user_verify_resp: rpc_loc_user_verify_s_type)
| ioctl_data_u_predicted_orbits_data (un_ioctl_data_u_predicted_orbits_data: rpc_loc_predicted_orbits_data_s_type)
| ioctl_data_u_predicted_orbits_auto_download (un_ioctl_data_u_predicted_orbits_auto_download: rpc_loc_predicted_orbits_auto_download_config_s_type)
| ioctl_data_u_assistance_data_time (un_ioctl_data_u_assistance_data_time: rpc_loc_assist_data_time_s_type)
| ioctl_data_u_assistance_data_position (un_ioctl_data_u_assistance_data_position: rpc_loc_assist_data_pos_s_type)
| ioctl_data_u_conn_open_status (un_ioctl_data_u_conn_open_status: rpc_loc_server_open_status_s_type)
| ioctl_data_u_conn_close_status (un_ioctl_data_u_conn_close_status: rpc_loc_server_close_status_s_type)
| ioctl_data_u_wiper_pos (un_ioctl_data_u_wiper_pos: rpc_loc_wiper_position_report_s_type)
| ioctl_data_u_wiper_status (un_ioctl_data_u_wiper_status: rpc_loc_wiper_status_e_type)
| ioctl_data_u_engine_lock (un_ioctl_data_u_engine_lock: rpc_loc_lock_e_type)
| ioctl_data_u_sbas_mode (un_ioctl_data_u_sbas_mode: rpc_boolean)
| ioctl_data_u_nmea_types (un_ioctl_data_u_nmea_types: rpc_loc_nmea_sentence_type)
| ioctl_data_u_on_demand_lpm (un_ioctl_data_u_on_demand_lpm: rpc_boolean)
| ioctl_data_u_server_addr (un_ioctl_data_u_server_addr: rpc_loc_server_info_s_type)
| ioctl_data_u_assist_data_delete (un_ioctl_data_u_assist_data_delete: rpc_loc_assist_data_delete_s_type)
| ioctl_data_u_efs_data (un_ioctl_data_u_efs_data: rpc_loc_efs_data_s_type)

type_synonym rpc_loc_ioctl_data_u_type = "(rpc_loc_ioctl_e_type, rpc_loc_ioctl_data_u_type_u) xdr_u"

definition zero_ioctl_data_u :: rpc_loc_ioctl_data_u_type where
  "zero_ioctl_data_u = \<lparr>disc = 0, member = ioctl_data_u_unset\<rparr>"

datatype rpc_loc_ioctl_callback_data_u_type_u =
  ioctl_callback_data_u_unset
| ioctl_callback_data_u_api_version (un_ioctl_callback_data_u_api_version: rpc_loc_api_version_s_type)
| ioctl_callback_data_u_fix_criteria (un_ioctl_callback_data_u_fix_criteria: rpc_loc_fix_criteria_s_type)
| ioctl_callback_data_u_engine_lock (un_ioctl_callback_data_u_engine_lock: rpc_loc_lock_e_type)
| ioctl_callback_data_u_sbas_mode (un_ioctl_callback_data_u_sbas_mode: rpc_boolean)
| ioctl_callback_data_u_nmea_types (un_ioctl_callback_data_u_nmea_types: rpc_loc_nmea_sentence_type)
| ioctl_callback_data_u_on_demand_lpm (un_ioctl_callback_data_u_on_demand_lpm: rpc_boolean)
| ioctl_callback_data_u_server_addr (un_ioctl_callback_data_u_server_addr: rpc_loc_server_info_s_type)
| ioctl_callback_data_u_predicted_orbits_data_source (un_ioctl_callback_data_u_predicted_orbits_data_source: rpc_loc_predicted_orbits_data_source_s_type)
| ioctl_callback_data_u_predicted_orbits_data_validity (un_ioctl_callback_data_u_predicted_orbits_data_validity: rpc_loc_predicted_orbits_data_validity_report_s_type)

type_synonym rpc_loc_ioctl_callback_data_u_type = "(rpc_loc_ioctl_e_type, rpc_loc_ioctl_callback_data_u_type_u) xdr_u"

definition zero_ioctl_callback_data_u :: rpc_loc_ioctl_callback_data_u_type where
  "zero_ioctl_callback_data_u = \<lparr>disc = 0, member = ioctl_callback_data_u_unset\<rparr>"

record rpc_loc_ioctl_callback_s_type =
  ioctl_callback_type :: rpc_loc_ioctl_e_type
  ioctl_callback_status :: rpc_int32
  ioctl_callback_data :: rpc_loc_ioctl_callback_data_u_type

definition zero_ioctl_callback :: rpc_loc_ioctl_callback_s_type where
  "zero_ioctl_callback =
    \<lparr>ioctl_callback_type = 0, ioctl_callback_status = 0,
     ioctl_callback_data = zero_ioctl_callback_data_u\<rparr>"

datatype rpc_loc_event_payload_u_type_u =
  event_payload_u_unset
| event_payload_u_parsed_location_report (un_event_payload_u_parsed_location_report: rpc_loc_parsed_position_s_type)
| event_payload_u_gnss_report (un_event_payload_u_gnss_report: rpc_loc_gnss_info_s_type)
| event_payload_u_nmea_report (un_event_payload_u_nmea_report: rpc_loc_nmea_report_s_type)
| event_payload_u_ni_request (un_event_payload_u_ni_request: rpc_loc_ni_event_s_type)
| event_payload_u_assist_data_request (un_event_payload_u_assist_data_request: rpc_loc_assist_data_request_s_type)
| event_payload_u_loc_server_request (un_event_payload_u_loc_server_request: rpc_loc_server_request_s_type)
| event_payload_u_ioctl_report (un_event_payload_u_ioctl_report: rpc_loc_ioctl_callback_s_type)
| event_payload_u_status_report (un_event_payload_u_status_report: rpc_loc_status_event_s_type)
| event_payload_u_qwip_request (un_event_payload_u_qwip_request: rpc_loc_qwip_request_s_type)
| event_payload_u_reserved (un_event_payload_u_reserved: rpc_loc_reserved_payload_s_type)

type_synonym rpc_loc_event_payload_u_type = "(u64, rpc_loc_event_payload_u_type_u) xdr_u"

definition zero_event_payload_u :: rpc_loc_event_payload_u_type where
  "zero_event_payload_u = \<lparr>disc = 0, member = event_payload_u_unset\<rparr>"

type_synonym rpc_loc_api_api_versions_return_type = "rpc_uint32 list option \<times> u32"

type_synonym rpc_loc_event_cb_f_type = rpc_uint32

record rpc_loc_open_args =
  open_args_event_reg_mask :: rpc_loc_event_mask_type
  open_args_event_callback :: rpc_loc_event_cb_f_type

definition zero_open_args :: rpc_loc_open_args where
  "zero_open_args =
    \<lparr>open_args_event_reg_mask = 0, open_args_event_callback = 0\<rparr>"

record rpc_loc_close_args =
  close_args_handle :: rpc_loc_client_handle_type

definition zero_close_args :: rpc_loc_close_args where
  "zero_close_args =
    \<lparr>close_args_handle = 0\<rparr>"

record rpc_loc_start_fix_args =
  start_fix_args_handle :: rpc_loc_client_handle_type

definition zero_start_fix_args :: rpc_loc_start_fix_args where
  "zero_start_fix_args =
    \<lparr>start_fix_args_handle = 0\<rparr>"

record rpc_loc_stop_fix_args =
  stop_fix_args_handle :: rpc_loc_client_handle_type

definition zero_stop_fix_args :: rpc_loc_stop_fix_args where
  "zero_stop_fix_args =
    \<lparr>stop_fix_args_handle = 0\<rparr>"

record rpc_loc_ioctl_args =
  ioctl_args_handle :: rpc_loc_client_handle_type
  ioctl_args_ioctl_type :: rpc_loc_ioctl_e_type
  ioctl_args_ioctl_data :: "rpc_loc_ioctl_data_u_type option"

definition zero_ioctl_args :: rpc_loc_ioctl_args where
  "zero_ioctl_args =
    \<lparr>ioctl_args_handle = 0, ioctl_args_ioctl_type = 0, ioctl_args_ioctl_data = None\<rparr>"

record rpc_loc_api_api_version_s_args =
  api_api_version_s_args_len_not_null :: rpc_boolean

definition zero_api_api_version_s_args :: rpc_loc_api_api_version_s_args where
  "zero_api_api_version_s_args =
    \<lparr>api_api_version_s_args_len_not_null = 0\<rparr>"

record rpc_loc_api_rpc_glue_code_info_remote_rets =
  api_rpc_glue_code_info_remote_rets_toolvers :: rpc_uint32
  api_rpc_glue_code_info_remote_rets_features :: rpc_uint32
  api_rpc_glue_code_info_remote_rets_proghash :: rpc_uint32
  api_rpc_glue_code_info_remote_rets_cbproghash :: rpc_uint32

definition zero_api_rpc_glue_code_info_remote_rets :: rpc_loc_api_rpc_glue_code_info_remote_rets where
  "zero_api_rpc_glue_code_info_remote_rets =
    \<lparr>api_rpc_glue_code_info_remote_rets_toolvers = 0,
     api_rpc_glue_code_info_remote_rets_features = 0,
     api_rpc_glue_code_info_remote_rets_proghash = 0,
     api_rpc_glue_code_info_remote_rets_cbproghash = 0\<rparr>"

record rpc_loc_open_rets =
  open_rets_loc_open_result :: rpc_loc_client_handle_type

definition zero_open_rets :: rpc_loc_open_rets where
  "zero_open_rets =
    \<lparr>open_rets_loc_open_result = 0\<rparr>"

record rpc_loc_close_rets =
  close_rets_loc_close_result :: rpc_int32

definition zero_close_rets :: rpc_loc_close_rets where
  "zero_close_rets =
    \<lparr>close_rets_loc_close_result = 0\<rparr>"

record rpc_loc_start_fix_rets =
  start_fix_rets_loc_start_fix_result :: rpc_int32

definition zero_start_fix_rets :: rpc_loc_start_fix_rets where
  "zero_start_fix_rets =
    \<lparr>start_fix_rets_loc_start_fix_result = 0\<rparr>"

record rpc_loc_stop_fix_rets =
  stop_fix_rets_loc_stop_fix_result :: rpc_int32

definition zero_stop_fix_rets :: rpc_loc_stop_fix_rets where
  "zero_stop_fix_rets =
    \<lparr>stop_fix_rets_loc_stop_fix_result = 0\<rparr>"

record rpc_loc_ioctl_rets =
  ioctl_rets_loc_ioctl_result :: rpc_int32

definition zero_ioctl_rets :: rpc_loc_ioctl_rets where
  "zero_ioctl_rets =
    \<lparr>ioctl_rets_loc_ioctl_result = 0\<rparr>"

record rpc_loc_api_api_versions_rets =
  api_api_versions_rets_loc_api_api_versions_result :: rpc_loc_api_api_versions_return_type
  api_api_versions_rets_len :: "rpc_uint32 option"

definition zero_api_api_versions_rets :: rpc_loc_api_api_versions_rets where
  "zero_api_api_versions_rets =
    \<lparr>api_api_versions_rets_loc_api_api_versions_result = (None, 0), api_api_versions_rets_len = None\<rparr>"

record rpc_loc_event_cb_f_type_args =
  event_cb_f_type_args_cb_id :: rpc_uint32
  event_cb_f_type_args_loc_handle :: rpc_loc_client_handle_type
  event_cb_f_type_args_loc_event :: rpc_loc_event_mask_type
  event_cb_f_type_args_loc_event_payload :: "rpc_loc_event_payload_u_type option"

definition zero_event_cb_f_type_args :: rpc_loc_event_cb_f_type_args where
  "zero_event_cb_f_type_args =
    \<lparr>event_cb_f_type_args_cb_id = 0, event_cb_f_type_args_loc_handle = 0,
     event_cb_f_type_args_loc_event = 0, event_cb_f_type_args_loc_event_payload = None\<rparr>"

record rpc_loc_event_cb_f_type_rets =
  event_cb_f_type_rets_loc_event_cb_f_type_result :: rpc_int32

definition zero_event_cb_f_type_rets :: rpc_loc_event_cb_f_type_rets where
  "zero_event_cb_f_type_rets =
    \<lparr>event_cb_f_type_rets_loc_event_cb_f_type_result = 0\<rparr>"

end
