(* ===== verification/Loc_Api_Xdr.thy ===== *)
theory Loc_Api_Xdr
  imports Loc_Api_Types
begin

text \<open>
  The filters that rpcgen generated for the location interface: \<^verbatim>\<open>loc_api_common_xdr.c\<close>,
  \<^verbatim>\<open>loc_api_xdr.c\<close> and \<^verbatim>\<open>loc_api_cb_xdr.c\<close> under \<^verbatim>\<open>gps/loc_api/libloc_api-rpc/gen-50000\<close>, one
  definition per routine in the order of the files. \<open>al\<close> is the allocator. The sizes of objects
  (\<open>sizeof\<close>) are those of 32-bit ARM, where 64-bit members are aligned to eight bytes.
\<close>

section \<open>Discriminants\<close>

abbreviation (input) RPC_LOC_STATUS_EVENT_ENGINE_STATE where "RPC_LOC_STATUS_EVENT_ENGINE_STATE \<equiv> 1"
abbreviation (input) RPC_LOC_STATUS_EVENT_FIX_SESSION_STATE where "RPC_LOC_STATUS_EVENT_FIX_SESSION_STATE \<equiv> 2"
abbreviation (input) RPC_LOC_SERVER_ADDR_IPV4 where "RPC_LOC_SERVER_ADDR_IPV4 \<equiv> 1"
abbreviation (input) RPC_LOC_SERVER_ADDR_URL where "RPC_LOC_SERVER_ADDR_URL \<equiv> 2"
abbreviation (input) RPC_LOC_NI_EVENT_VX_NOTIFY_VERIFY_REQ where "RPC_LOC_NI_EVENT_VX_NOTIFY_VERIFY_REQ \<equiv> 1"
abbreviation (input) RPC_LOC_NI_EVENT_SUPL_NOTIFY_VERIFY_REQ where "RPC_LOC_NI_EVENT_SUPL_NOTIFY_VERIFY_REQ \<equiv> 2"
abbreviation (input) RPC_LOC_NI_EVENT_UMTS_CP_NOTIFY_VERIFY_REQ where "RPC_LOC_NI_EVENT_UMTS_CP_NOTIFY_VERIFY_REQ \<equiv> 3"
abbreviation (input) RPC_LOC_NI_EVENT_VX_SERVICE_INTERACTION_REQ where "RPC_LOC_NI_EVENT_VX_SERVICE_INTERACTION_REQ \<equiv> 4"
abbreviation (input) RPC_LOC_ASSIST_DATA_TIME_REQ where "RPC_LOC_ASSIST_DATA_TIME_REQ \<equiv> 1"
abbreviation (input) RPC_LOC_ASSIST_DATA_PREDICTED_ORBITS_REQ where "RPC_LOC_ASSIST_DATA_PREDICTED_ORBITS_REQ \<equiv> 2"
abbreviation (input) RPC_LOC_SERVER_REQUEST_OPEN where "RPC_LOC_SERVER_REQUEST_OPEN \<equiv> 1"
abbreviation (input) RPC_LOC_SERVER_REQUEST_CLOSE where "RPC_LOC_SERVER_REQUEST_CLOSE \<equiv> 2"
abbreviation (input) RPC_LOC_IOCTL_SET_FIX_CRITERIA where "RPC_LOC_IOCTL_SET_FIX_CRITERIA \<equiv> 2"
abbreviation (input) RPC_LOC_IOCTL_INFORM_NI_USER_RESPONSE where "RPC_LOC_IOCTL_INFORM_NI_USER_RESPONSE \<equiv> 400"
abbreviation (input) RPC_LOC_IOCTL_INJECT_PREDICTED_ORBITS_DATA where "RPC_LOC_IOCTL_INJECT_PREDICTED_ORBITS_DATA \<equiv> 401"
abbreviation (input) RPC_LOC_IOCTL_SET_PREDICTED_ORBITS_DATA_AUTO_DOWNLOAD where "RPC_LOC_IOCTL_SET_PREDICTED_ORBITS_DATA_AUTO_DOWNLOAD \<equiv> 404"
abbreviation (input) RPC_LOC_IOCTL_INJECT_UTC_TIME where "RPC_LOC_IOCTL_INJECT_UTC_TIME \<equiv> 405"
abbreviation (input) RPC_LOC_IOCTL_INJECT_POSITION where "RPC_LOC_IOCTL_INJECT_POSITION \<equiv> 407"
abbreviation (input) RPC_LOC_IOCTL_INFORM_SERVER_OPEN_STATUS where "RPC_LOC_IOCTL_INFORM_SERVER_OPEN_STATUS \<equiv> 409"
abbreviation (input) RPC_LOC_IOCTL_INFORM_SERVER_CLOSE_STATUS where "RPC_LOC_IOCTL_INFORM_SERVER_CLOSE_STATUS \<equiv> 410"
abbreviation (input) RPC_LOC_IOCTL_SEND_WIPER_POSITION_REPORT where "RPC_LOC_IOCTL_SEND_WIPER_POSITION_REPORT \<equiv> 411"
abbreviation (input) RPC_LOC_EVENT_NMEA_1HZ_REPORT where "RPC_LOC_EVENT_NMEA_1HZ_REPORT \<equiv> 4"
abbreviation (input) RPC_LOC_IOCTL_NOTIFY_WIPER_STATUS where "RPC_LOC_IOCTL_NOTIFY_WIPER_STATUS \<equiv> 412"
abbreviation (input) RPC_LOC_IOCTL_SET_ENGINE_LOCK where "RPC_LOC_IOCTL_SET_ENGINE_LOCK \<equiv> 800"
abbreviation (input) RPC_LOC_IOCTL_SET_SBAS_CONFIG where "RPC_LOC_IOCTL_SET_SBAS_CONFIG \<equiv> 802"
abbreviation (input) RPC_LOC_IOCTL_SET_NMEA_TYPES where "RPC_LOC_IOCTL_SET_NMEA_TYPES \<equiv> 804"
abbreviation (input) RPC_LOC_IOCTL_SET_ON_DEMAND_LPM where "RPC_LOC_IOCTL_SET_ON_DEMAND_LPM \<equiv> 812"
abbreviation (input) RPC_LOC_IOCTL_SET_CDMA_PDE_SERVER_ADDR where "RPC_LOC_IOCTL_SET_CDMA_PDE_SERVER_ADDR \<equiv> 806"
abbreviation (input) RPC_LOC_IOCTL_SET_CDMA_MPC_SERVER_ADDR where "RPC_LOC_IOCTL_SET_CDMA_MPC_SERVER_ADDR \<equiv> 808"
abbreviation (input) RPC_LOC_IOCTL_SET_UMTS_SLP_SERVER_ADDR where "RPC_LOC_IOCTL_SET_UMTS_SLP_SERVER_ADDR \<equiv> 810"
abbreviation (input) RPC_LOC_IOCTL_SET_CUSTOM_PDE_SERVER_ADDR where "RPC_LOC_IOCTL_SET_CUSTOM_PDE_SERVER_ADDR \<equiv> 1001"
abbreviation (input) RPC_LOC_IOCTL_DELETE_ASSIST_DATA where "RPC_LOC_IOCTL_DELETE_ASSIST_DATA \<equiv> 1000"
abbreviation (input) RPC_LOC_IOCTL_ACCESS_EFS_DATA where "RPC_LOC_IOCTL_ACCESS_EFS_DATA \<equiv> 413"
abbreviation (input) RPC_LOC_IOCTL_GET_API_VERSION where "RPC_LOC_IOCTL_GET_API_VERSION \<equiv> 1"
abbreviation (input) RPC_LOC_IOCTL_GET_FIX_CRITERIA where "RPC_LOC_IOCTL_GET_FIX_CRITERIA \<equiv> 3"
abbreviation (input) RPC_LOC_IOCTL_GET_ENGINE_LOCK where "RPC_LOC_IOCTL_GET_ENGINE_LOCK \<equiv> 801"
abbreviation (input) RPC_LOC_IOCTL_GET_SBAS_CONFIG where "RPC_LOC_IOCTL_GET_SBAS_CONFIG \<equiv> 803"
abbreviation (input) RPC_LOC_IOCTL_GET_NMEA_TYPES where "RPC_LOC_IOCTL_GET_NMEA_TYPES \<equiv> 805"
abbreviation (input) RPC_LOC_IOCTL_GET_ON_DEMAND_LPM where "RPC_LOC_IOCTL_GET_ON_DEMAND_LPM \<equiv> 813"
abbreviation (input) RPC_LOC_IOCTL_GET_CDMA_PDE_SERVER_ADDR where "RPC_LOC_IOCTL_GET_CDMA_PDE_SERVER_ADDR \<equiv> 807"
abbreviation (input) RPC_LOC_IOCTL_GET_CDMA_MPC_SERVER_ADDR where "RPC_LOC_IOCTL_GET_CDMA_MPC_SERVER_ADDR \<equiv> 809"
abbreviation (input) RPC_LOC_IOCTL_GET_UMTS_SLP_SERVER_ADDR where "RPC_LOC_IOCTL_GET_UMTS_SLP_SERVER_ADDR \<equiv> 811"
abbreviation (input) RPC_LOC_IOCTL_GET_CUSTOM_PDE_SERVER_ADDR where "RPC_LOC_IOCTL_GET_CUSTOM_PDE_SERVER_ADDR \<equiv> 1002"
abbreviation (input) RPC_LOC_IOCTL_QUERY_PREDICTED_ORBITS_DATA_SOURCE where "RPC_LOC_IOCTL_QUERY_PREDICTED_ORBITS_DATA_SOURCE \<equiv> 403"
abbreviation (input) RPC_LOC_IOCTL_QUERY_PREDICTED_ORBITS_DATA_VALIDITY where "RPC_LOC_IOCTL_QUERY_PREDICTED_ORBITS_DATA_VALIDITY \<equiv> 402"
abbreviation (input) RPC_LOC_EVENT_PARSED_POSITION_REPORT where "RPC_LOC_EVENT_PARSED_POSITION_REPORT \<equiv> 1"
abbreviation (input) RPC_LOC_EVENT_SATELLITE_REPORT where "RPC_LOC_EVENT_SATELLITE_REPORT \<equiv> 2"
abbreviation (input) RPC_LOC_EVENT_NMEA_POSITION_REPORT where "RPC_LOC_EVENT_NMEA_POSITION_REPORT \<equiv> 8"
abbreviation (input) RPC_LOC_EVENT_NI_NOTIFY_VERIFY_REQUEST where "RPC_LOC_EVENT_NI_NOTIFY_VERIFY_REQUEST \<equiv> 16"
abbreviation (input) RPC_LOC_EVENT_ASSISTANCE_DATA_REQUEST where "RPC_LOC_EVENT_ASSISTANCE_DATA_REQUEST \<equiv> 32"
abbreviation (input) RPC_LOC_EVENT_LOCATION_SERVER_REQUEST where "RPC_LOC_EVENT_LOCATION_SERVER_REQUEST \<equiv> 64"
abbreviation (input) RPC_LOC_EVENT_IOCTL_REPORT where "RPC_LOC_EVENT_IOCTL_REPORT \<equiv> 128"
abbreviation (input) RPC_LOC_EVENT_STATUS_REPORT where "RPC_LOC_EVENT_STATUS_REPORT \<equiv> 256"
abbreviation (input) RPC_LOC_EVENT_WPS_NEEDED_REQUEST where "RPC_LOC_EVENT_WPS_NEEDED_REQUEST \<equiv> 512"
abbreviation (input) RPC_LOC_EVENT_RESERVED where "RPC_LOC_EVENT_RESERVED \<equiv> 9223372036854775808"

section \<open>The filters\<close>

definition xdr_rpc_boolean :: "rpc_boolean xdrproc" where
  "xdr_rpc_boolean = xdr_bool"

definition xdr_rpc_uint32 :: "rpc_uint32 xdrproc" where
  "xdr_rpc_uint32 = xdr_u_long"

definition xdr_rpc_uint16 :: "rpc_uint16 xdrproc" where
  "xdr_rpc_uint16 = xdr_u_short"

definition xdr_rpc_uint8 :: "rpc_uint8 xdrproc" where
  "xdr_rpc_uint8 = xdr_u_char"

definition xdr_rpc_int32 :: "rpc_int32 xdrproc" where
  "xdr_rpc_int32 = xdr_long"

definition xdr_rpc_byte :: "rpc_byte xdrproc" where
  "xdr_rpc_byte = xdr_u_char"

definition xdr_rpc_uint64 :: "rpc_uint64 xdrproc" where
  "xdr_rpc_uint64 = xdr_u_quad_t"

definition xdr_rpc_loc_client_handle_type :: "rpc_loc_client_handle_type xdrproc" where
  "xdr_rpc_loc_client_handle_type = xdr_rpc_int32"

definition xdr_rpc_loc_event_mask_type :: "rpc_loc_event_mask_type xdrproc" where
  "xdr_rpc_loc_event_mask_type = xdr_rpc_uint64"

definition xdr_rpc_loc_position_valid_mask_type :: "rpc_loc_position_valid_mask_type xdrproc" where
  "xdr_rpc_loc_position_valid_mask_type = xdr_rpc_uint64"

definition xdr_rpc_loc_pos_technology_mask_type :: "rpc_loc_pos_technology_mask_type xdrproc" where
  "xdr_rpc_loc_pos_technology_mask_type = xdr_rpc_uint32"

definition xdr_rpc_loc_session_status_e_type :: "rpc_loc_session_status_e_type xdrproc" where
  "xdr_rpc_loc_session_status_e_type = xdr_enum"

definition xdr_rpc_loc_calendar_time_s_type :: "rpc_loc_calendar_time_s_type xdrproc" where
  "xdr_rpc_loc_calendar_time_s_type = xdr_seq [
     xdr_field calendar_time_year calendar_time_year_update xdr_rpc_uint16,
     xdr_field calendar_time_month calendar_time_month_update xdr_u_char,
     xdr_field calendar_time_day_of_week calendar_time_day_of_week_update xdr_u_char,
     xdr_field calendar_time_day calendar_time_day_update xdr_u_char,
     xdr_field calendar_time_hour calendar_time_hour_update xdr_u_char,
     xdr_field calendar_time_minute calendar_time_minute_update xdr_u_char,
     xdr_field calendar_time_second calendar_time_second_update xdr_u_char,
     xdr_field calendar_time_millisecond calendar_time_millisecond_update xdr_rpc_uint16]"

definition xdr_rpc_loc_parsed_position_s_type :: "rpc_loc_parsed_position_s_type xdrproc" where
  "xdr_rpc_loc_parsed_position_s_type = xdr_seq [
     xdr_field parsed_position_valid_mask parsed_position_valid_mask_update xdr_rpc_loc_position_valid_mask_type,
     xdr_field parsed_position_session_status parsed_position_session_status_update xdr_rpc_loc_session_status_e_type,
     xdr_field parsed_position_timestamp_calendar parsed_position_timestamp_calendar_update xdr_rpc_loc_calendar_time_s_type,
     xdr_field parsed_position_timestamp_utc parsed_position_timestamp_utc_update xdr_rpc_uint64,
     xdr_field parsed_position_leap_seconds parsed_position_leap_seconds_update xdr_rpc_uint8,
     xdr_field parsed_position_time_unc parsed_position_time_unc_update xdr_float,
     xdr_field parsed_position_latitude parsed_position_latitude_update xdr_double,
     xdr_field parsed_position_longitude parsed_position_longitude_update xdr_double,
     xdr_field parsed_position_altitude_wrt_ellipsoid parsed_position_altitude_wrt_ellipsoid_update xdr_float,
     xdr_field parsed_position_altitude_wrt_mean_sea_level parsed_position_altitude_wrt_mean_sea_level_update xdr_float,
     xdr_field parsed_position_speed_horizontal parsed_position_speed_horizontal_update xdr_float,
     xdr_field parsed_position_speed_vertical parsed_position_speed_vertical_update xdr_float,
     xdr_field parsed_position_heading parsed_position_heading_update xdr_float,
     xdr_field parsed_position_hor_unc_circular parsed_position_hor_unc_circular_update xdr_float,
     xdr_field parsed_position_hor_unc_ellipse_semi_major parsed_position_hor_unc_ellipse_semi_major_update xdr_float,
     xdr_field parsed_position_hor_unc_ellipse_semi_minor parsed_position_hor_unc_ellipse_semi_minor_update xdr_float,
     xdr_field parsed_position_hor_unc_ellipse_orient_azimuth parsed_position_hor_unc_ellipse_orient_azimuth_update xdr_float,
     xdr_field parsed_position_vert_unc parsed_position_vert_unc_update xdr_float,
     xdr_field parsed_position_speed_unc parsed_position_speed_unc_update xdr_float,
     xdr_field parsed_position_heading_unc parsed_position_heading_unc_update xdr_float,
     xdr_field parsed_position_confidence_horizontal parsed_position_confidence_horizontal_update xdr_u_char,
     xdr_field parsed_position_confidence_vertical parsed_position_confidence_vertical_update xdr_u_char,
     xdr_field parsed_position_magnetic_deviation parsed_position_magnetic_deviation_update xdr_float,
     xdr_field parsed_position_technology_mask parsed_position_technology_mask_update xdr_rpc_loc_pos_technology_mask_type]"

definition xdr_rpc_loc_sv_system_e_type :: "rpc_loc_sv_system_e_type xdrproc" where
  "xdr_rpc_loc_sv_system_e_type = xdr_enum"

definition xdr_rpc_loc_sv_status_e_type :: "rpc_loc_sv_status_e_type xdrproc" where
  "xdr_rpc_loc_sv_status_e_type = xdr_enum"

definition xdr_rpc_loc_sv_info_valid_mask_type :: "rpc_loc_sv_info_valid_mask_type xdrproc" where
  "xdr_rpc_loc_sv_info_valid_mask_type = xdr_rpc_uint32"

definition xdr_rpc_loc_sv_info_s_type :: "rpc_loc_sv_info_s_type xdrproc" where
  "xdr_rpc_loc_sv_info_s_type = xdr_seq [
     xdr_field sv_info_valid_mask sv_info_valid_mask_update xdr_rpc_loc_sv_info_valid_mask_type,
     xdr_field sv_info_system sv_info_system_update xdr_rpc_loc_sv_system_e_type,
     xdr_field sv_info_prn sv_info_prn_update xdr_rpc_uint8,
     xdr_field sv_info_health_status sv_info_health_status_update xdr_rpc_uint8,
     xdr_field sv_info_process_status sv_info_process_status_update xdr_rpc_loc_sv_status_e_type,
     xdr_field sv_info_has_eph sv_info_has_eph_update xdr_rpc_boolean,
     xdr_field sv_info_has_alm sv_info_has_alm_update xdr_rpc_boolean,
     xdr_field sv_info_elevation sv_info_elevation_update xdr_float,
     xdr_field sv_info_azimuth sv_info_azimuth_update xdr_float,
     xdr_field sv_info_snr sv_info_snr_update xdr_float]"

definition xdr_rpc_loc_gnss_info_valid_mask_type :: "rpc_loc_gnss_info_valid_mask_type xdrproc" where
  "xdr_rpc_loc_gnss_info_valid_mask_type = xdr_rpc_uint32"

definition xdr_rpc_loc_gnss_info_s_type :: "(nat \<Rightarrow> bool) \<Rightarrow> rpc_loc_gnss_info_s_type xdrproc" where
  "xdr_rpc_loc_gnss_info_s_type al = xdr_seq [
     xdr_field gnss_info_valid_mask gnss_info_valid_mask_update xdr_rpc_loc_gnss_info_valid_mask_type,
     xdr_field gnss_info_position_dop gnss_info_position_dop_update xdr_float,
     xdr_field gnss_info_horizontal_dop gnss_info_horizontal_dop_update xdr_float,
     xdr_field gnss_info_vertical_dop gnss_info_vertical_dop_update xdr_float,
     xdr_field gnss_info_altitude_assumed gnss_info_altitude_assumed_update xdr_rpc_boolean,
     xdr_field gnss_info_sv_count gnss_info_sv_count_update xdr_rpc_uint16,
     xdr_field gnss_info_sv_list gnss_info_sv_list_update (xdr_array al 80 36 zero_sv_info xdr_rpc_loc_sv_info_s_type)]"

definition xdr_rpc_loc_nmea_report_s_type :: "rpc_loc_nmea_report_s_type xdrproc" where
  "xdr_rpc_loc_nmea_report_s_type = xdr_seq [
     xdr_field nmea_report_length nmea_report_length_update xdr_rpc_uint16,
     xdr_field nmea_report_nmea_sentences nmea_report_nmea_sentences_update (xdr_opaque 1200)]"

definition xdr_rpc_loc_status_event_e_type :: "rpc_loc_status_event_e_type xdrproc" where
  "xdr_rpc_loc_status_event_e_type = xdr_enum"

definition xdr_rpc_loc_engine_state_e_type :: "rpc_loc_engine_state_e_type xdrproc" where
  "xdr_rpc_loc_engine_state_e_type = xdr_enum"

definition xdr_rpc_loc_fix_session_state_e_type :: "rpc_loc_fix_session_state_e_type xdrproc" where
  "xdr_rpc_loc_fix_session_state_e_type = xdr_enum"

definition xdr_rpc_loc_status_event_payload_u_type :: "rpc_loc_status_event_payload_u_type xdrproc" where
  "xdr_rpc_loc_status_event_payload_u_type = xdr_union xdr_rpc_loc_status_event_e_type [
     ([RPC_LOC_STATUS_EVENT_ENGINE_STATE],
       xdr_member status_event_payload_u_unset 0 status_event_payload_u_engine_state
         is_status_event_payload_u_engine_state un_status_event_payload_u_engine_state xdr_rpc_loc_engine_state_e_type),
     ([RPC_LOC_STATUS_EVENT_FIX_SESSION_STATE],
       xdr_member status_event_payload_u_unset 0 status_event_payload_u_fix_session_state
         is_status_event_payload_u_fix_session_state un_status_event_payload_u_fix_session_state xdr_rpc_loc_fix_session_state_e_type)]"

definition xdr_rpc_loc_status_event_s_type :: "rpc_loc_status_event_s_type xdrproc" where
  "xdr_rpc_loc_status_event_s_type = xdr_seq [
     xdr_field status_event_event status_event_event_update xdr_rpc_loc_status_event_e_type,
     xdr_field status_event_payload status_event_payload_update xdr_rpc_loc_status_event_payload_u_type]"

definition xdr_rpc_loc_server_addr_e_type :: "rpc_loc_server_addr_e_type xdrproc" where
  "xdr_rpc_loc_server_addr_e_type = xdr_enum"

definition xdr_rpc_loc_server_addr_ipv4_type :: "rpc_loc_server_addr_ipv4_type xdrproc" where
  "xdr_rpc_loc_server_addr_ipv4_type = xdr_seq [
     xdr_field server_addr_ipv4_addr server_addr_ipv4_addr_update xdr_rpc_uint32,
     xdr_field server_addr_ipv4_port server_addr_ipv4_port_update xdr_rpc_uint16]"

definition xdr_rpc_loc_server_addr_url_type :: "rpc_loc_server_addr_url_type xdrproc" where
  "xdr_rpc_loc_server_addr_url_type = xdr_seq [
     xdr_field server_addr_url_length server_addr_url_length_update xdr_rpc_uint16,
     xdr_field server_addr_url_addr server_addr_url_addr_update (xdr_opaque 256)]"

definition xdr_rpc_loc_server_addr_u_type :: "rpc_loc_server_addr_u_type xdrproc" where
  "xdr_rpc_loc_server_addr_u_type = xdr_union xdr_rpc_loc_server_addr_e_type [
     ([RPC_LOC_SERVER_ADDR_IPV4],
       xdr_member server_addr_u_unset zero_server_addr_ipv4 server_addr_u_ipv4
         is_server_addr_u_ipv4 un_server_addr_u_ipv4 xdr_rpc_loc_server_addr_ipv4_type),
     ([RPC_LOC_SERVER_ADDR_URL],
       xdr_member server_addr_u_unset zero_server_addr_url server_addr_u_url
         is_server_addr_u_url un_server_addr_u_url xdr_rpc_loc_server_addr_url_type)]"

definition xdr_rpc_loc_server_info_s_type :: "rpc_loc_server_info_s_type xdrproc" where
  "xdr_rpc_loc_server_info_s_type = xdr_seq [
     xdr_field server_info_addr_type server_info_addr_type_update xdr_rpc_loc_server_addr_e_type,
     xdr_field server_info_addr_info server_info_addr_info_update xdr_rpc_loc_server_addr_u_type]"

definition xdr_rpc_loc_ni_notify_verify_e_type :: "rpc_loc_ni_notify_verify_e_type xdrproc" where
  "xdr_rpc_loc_ni_notify_verify_e_type = xdr_enum"

definition xdr_rpc_loc_ni_event_e_type :: "rpc_loc_ni_event_e_type xdrproc" where
  "xdr_rpc_loc_ni_event_e_type = xdr_enum"

definition xdr_rpc_loc_ni_datacoding_scheme_e_type :: "rpc_loc_ni_datacoding_scheme_e_type xdrproc" where
  "xdr_rpc_loc_ni_datacoding_scheme_e_type = xdr_enum"

definition xdr_rpc_loc_ni_vx_requester_id_encoding_scheme_e_type :: "rpc_loc_ni_vx_requester_id_encoding_scheme_e_type xdrproc" where
  "xdr_rpc_loc_ni_vx_requester_id_encoding_scheme_e_type = xdr_enum"

definition xdr_rpc_loc_ni_vx_pos_mode_e_type :: "rpc_loc_ni_vx_pos_mode_e_type xdrproc" where
  "xdr_rpc_loc_ni_vx_pos_mode_e_type = xdr_enum"

definition xdr_rpc_loc_ni_vx_requester_id_s_type :: "rpc_loc_ni_vx_requester_id_s_type xdrproc" where
  "xdr_rpc_loc_ni_vx_requester_id_s_type = xdr_seq [
     xdr_field ni_vx_requester_id_requester_id_length ni_vx_requester_id_requester_id_length_update xdr_u_char,
     xdr_field ni_vx_requester_id_requester_id ni_vx_requester_id_requester_id_update (xdr_opaque 200)]"

definition xdr_rpc_loc_ni_vx_notify_verify_req_s_type :: "rpc_loc_ni_vx_notify_verify_req_s_type xdrproc" where
  "xdr_rpc_loc_ni_vx_notify_verify_req_s_type = xdr_seq [
     xdr_field ni_vx_notify_verify_req_notification_priv_type ni_vx_notify_verify_req_notification_priv_type_update xdr_rpc_loc_ni_notify_verify_e_type,
     xdr_field ni_vx_notify_verify_req_pos_qos_incl ni_vx_notify_verify_req_pos_qos_incl_update xdr_u_char,
     xdr_field ni_vx_notify_verify_req_pos_qos ni_vx_notify_verify_req_pos_qos_update xdr_u_char,
     xdr_field ni_vx_notify_verify_req_num_fixes ni_vx_notify_verify_req_num_fixes_update xdr_rpc_uint32,
     xdr_field ni_vx_notify_verify_req_tbf ni_vx_notify_verify_req_tbf_update xdr_rpc_uint32,
     xdr_field ni_vx_notify_verify_req_pos_mode ni_vx_notify_verify_req_pos_mode_update xdr_rpc_loc_ni_vx_pos_mode_e_type,
     xdr_field ni_vx_notify_verify_req_encoding_scheme ni_vx_notify_verify_req_encoding_scheme_update xdr_rpc_loc_ni_vx_requester_id_encoding_scheme_e_type,
     xdr_field ni_vx_notify_verify_req_requester_id ni_vx_notify_verify_req_requester_id_update xdr_rpc_loc_ni_vx_requester_id_s_type,
     xdr_field ni_vx_notify_verify_req_user_resp_timer_val ni_vx_notify_verify_req_user_resp_timer_val_update xdr_rpc_uint16]"

definition xdr_rpc_loc_ni_supl_pos_method_e_type :: "rpc_loc_ni_supl_pos_method_e_type xdrproc" where
  "xdr_rpc_loc_ni_supl_pos_method_e_type = xdr_enum"

definition xdr_rpc_loc_ni_supl_slp_session_id_s_type :: "rpc_loc_ni_supl_slp_session_id_s_type xdrproc" where
  "xdr_rpc_loc_ni_supl_slp_session_id_s_type = xdr_seq [
     xdr_field ni_supl_slp_session_id_presence ni_supl_slp_session_id_presence_update xdr_u_char,
     xdr_field ni_supl_slp_session_id_session_id ni_supl_slp_session_id_session_id_update (xdr_opaque 4),
     xdr_field ni_supl_slp_session_id_slp_address ni_supl_slp_session_id_slp_address_update xdr_rpc_loc_server_info_s_type]"

definition xdr_rpc_loc_ni_requestor_id_s_type :: "rpc_loc_ni_requestor_id_s_type xdrproc" where
  "xdr_rpc_loc_ni_requestor_id_s_type = xdr_seq [
     xdr_field ni_requestor_id_data_coding_scheme ni_requestor_id_data_coding_scheme_update xdr_u_char,
     xdr_field ni_requestor_id_requestor_id_string ni_requestor_id_requestor_id_string_update (xdr_opaque 200),
     xdr_field ni_requestor_id_string_len ni_requestor_id_string_len_update xdr_u_char]"

definition xdr_rpc_loc_ni_supl_client_name_s_type :: "rpc_loc_ni_supl_client_name_s_type xdrproc" where
  "xdr_rpc_loc_ni_supl_client_name_s_type = xdr_seq [
     xdr_field ni_supl_client_name_data_coding_scheme ni_supl_client_name_data_coding_scheme_update xdr_u_char,
     xdr_field ni_supl_client_name_client_name_string ni_supl_client_name_client_name_string_update (xdr_opaque 64),
     xdr_field ni_supl_client_name_string_len ni_supl_client_name_string_len_update xdr_u_char]"

definition xdr_rpc_loc_ni_supl_qop_s_type :: "rpc_loc_ni_supl_qop_s_type xdrproc" where
  "xdr_rpc_loc_ni_supl_qop_s_type = xdr_seq [
     xdr_field ni_supl_qop_bit_mask ni_supl_qop_bit_mask_update xdr_u_char,
     xdr_field ni_supl_qop_horacc ni_supl_qop_horacc_update xdr_u_char,
     xdr_field ni_supl_qop_veracc ni_supl_qop_veracc_update xdr_u_char,
     xdr_field ni_supl_qop_maxLocAge ni_supl_qop_maxLocAge_update xdr_rpc_uint16,
     xdr_field ni_supl_qop_delay ni_supl_qop_delay_update xdr_u_char]"

definition xdr_rpc_loc_ni_supl_notify_verify_req_s_type :: "rpc_loc_ni_supl_notify_verify_req_s_type xdrproc" where
  "xdr_rpc_loc_ni_supl_notify_verify_req_s_type = xdr_seq [
     xdr_field ni_supl_notify_verify_req_notification_priv_type ni_supl_notify_verify_req_notification_priv_type_update xdr_rpc_loc_ni_notify_verify_e_type,
     xdr_field ni_supl_notify_verify_req_flags ni_supl_notify_verify_req_flags_update xdr_rpc_uint16,
     xdr_field ni_supl_notify_verify_req_supl_slp_session_id ni_supl_notify_verify_req_supl_slp_session_id_update xdr_rpc_loc_ni_supl_slp_session_id_s_type,
     xdr_field ni_supl_notify_verify_req_supl_hash ni_supl_notify_verify_req_supl_hash_update (xdr_opaque 8),
     xdr_field ni_supl_notify_verify_req_datacoding_scheme ni_supl_notify_verify_req_datacoding_scheme_update xdr_rpc_loc_ni_datacoding_scheme_e_type,
     xdr_field ni_supl_notify_verify_req_pos_method ni_supl_notify_verify_req_pos_method_update xdr_rpc_loc_ni_supl_pos_method_e_type,
     xdr_field ni_supl_notify_verify_req_requestor_id ni_supl_notify_verify_req_requestor_id_update xdr_rpc_loc_ni_requestor_id_s_type,
     xdr_field ni_supl_notify_verify_req_client_name ni_supl_notify_verify_req_client_name_update xdr_rpc_loc_ni_supl_client_name_s_type,
     xdr_field ni_supl_notify_verify_req_supl_qop ni_supl_notify_verify_req_supl_qop_update xdr_rpc_loc_ni_supl_qop_s_type,
     xdr_field ni_supl_notify_verify_req_user_response_timer ni_supl_notify_verify_req_user_response_timer_update xdr_rpc_uint16]"

definition xdr_rpc_loc_ni_ext_client_address_s_type :: "rpc_loc_ni_ext_client_address_s_type xdrproc" where
  "xdr_rpc_loc_ni_ext_client_address_s_type = xdr_seq [
     xdr_field ni_ext_client_address_ext_client_address_len ni_ext_client_address_ext_client_address_len_update xdr_u_char,
     xdr_field ni_ext_client_address_ext_client_address ni_ext_client_address_ext_client_address_update (xdr_opaque 20)]"

definition xdr_rpc_loc_ni_location_type_e_type :: "rpc_loc_ni_location_type_e_type xdrproc" where
  "xdr_rpc_loc_ni_location_type_e_type = xdr_enum"

definition xdr_rpc_loc_ni_deferred_location_s_type :: "rpc_loc_ni_deferred_location_s_type xdrproc" where
  "xdr_rpc_loc_ni_deferred_location_s_type = xdr_seq [
     xdr_field ni_deferred_location_unused_bits ni_deferred_location_unused_bits_update xdr_u_char,
     xdr_field ni_deferred_location_ms_available ni_deferred_location_ms_available_update xdr_u_char]"

definition xdr_rpc_loc_ni_codeword_string_s_type :: "rpc_loc_ni_codeword_string_s_type xdrproc" where
  "xdr_rpc_loc_ni_codeword_string_s_type = xdr_seq [
     xdr_field ni_codeword_string_data_coding_scheme ni_codeword_string_data_coding_scheme_update xdr_u_char,
     xdr_field ni_codeword_string_lcs_codeword_string ni_codeword_string_lcs_codeword_string_update (xdr_opaque 20),
     xdr_field ni_codeword_string_string_len ni_codeword_string_string_len_update xdr_u_char]"

definition xdr_rpc_loc_ni_service_type_id_s_type :: "rpc_loc_ni_service_type_id_s_type xdrproc" where
  "xdr_rpc_loc_ni_service_type_id_s_type = xdr_seq [
     xdr_field ni_service_type_id_lcs_service_type_id ni_service_type_id_lcs_service_type_id_update xdr_u_char]"

definition xdr_rpc_loc_ni_umts_cp_notify_verify_req_s_type :: "rpc_loc_ni_umts_cp_notify_verify_req_s_type xdrproc" where
  "xdr_rpc_loc_ni_umts_cp_notify_verify_req_s_type = xdr_seq [
     xdr_field ni_umts_cp_notify_verify_req_notification_priv_type ni_umts_cp_notify_verify_req_notification_priv_type_update xdr_rpc_loc_ni_notify_verify_e_type,
     xdr_field ni_umts_cp_notify_verify_req_invoke_id ni_umts_cp_notify_verify_req_invoke_id_update xdr_u_char,
     xdr_field ni_umts_cp_notify_verify_req_flags ni_umts_cp_notify_verify_req_flags_update xdr_rpc_uint16,
     xdr_field ni_umts_cp_notify_verify_req_notification_length ni_umts_cp_notify_verify_req_notification_length_update xdr_u_char,
     xdr_field ni_umts_cp_notify_verify_req_notification_text ni_umts_cp_notify_verify_req_notification_text_update (xdr_opaque 64),
     xdr_field ni_umts_cp_notify_verify_req_datacoding_scheme ni_umts_cp_notify_verify_req_datacoding_scheme_update xdr_rpc_loc_ni_datacoding_scheme_e_type,
     xdr_field ni_umts_cp_notify_verify_req_ext_client_address_data ni_umts_cp_notify_verify_req_ext_client_address_data_update xdr_rpc_loc_ni_ext_client_address_s_type,
     xdr_field ni_umts_cp_notify_verify_req_location_type ni_umts_cp_notify_verify_req_location_type_update xdr_rpc_loc_ni_location_type_e_type,
     xdr_field ni_umts_cp_notify_verify_req_deferred_location ni_umts_cp_notify_verify_req_deferred_location_update xdr_rpc_loc_ni_deferred_location_s_type,
     xdr_field ni_umts_cp_notify_verify_req_requestor_id ni_umts_cp_notify_verify_req_requestor_id_update xdr_rpc_loc_ni_requestor_id_s_type,
     xdr_field ni_umts_cp_notify_verify_req_codeword_string ni_umts_cp_notify_verify_req_codeword_string_update xdr_rpc_loc_ni_codeword_string_s_type,
     xdr_field ni_umts_cp_notify_verify_req_service_type_id ni_umts_cp_notify_verify_req_service_type_id_update xdr_rpc_loc_ni_service_type_id_s_type,
     xdr_field ni_umts_cp_notify_verify_req_user_response_timer ni_umts_cp_notify_verify_req_user_response_timer_update xdr_rpc_uint16]"

definition xdr_rpc_loc_ni_service_interaction_e_type :: "rpc_loc_ni_service_interaction_e_type xdrproc" where
  "xdr_rpc_loc_ni_service_interaction_e_type = xdr_enum"

definition xdr_rpc_loc_ni_vx_service_interaction_req_s_type :: "rpc_loc_ni_vx_service_interaction_req_s_type xdrproc" where
  "xdr_rpc_loc_ni_vx_service_interaction_req_s_type = xdr_seq [
     xdr_field ni_vx_service_interaction_req_ni_vx_req ni_vx_service_interaction_req_ni_vx_req_update xdr_rpc_loc_ni_vx_notify_verify_req_s_type,
     xdr_field ni_vx_service_interaction_req_service_interation_type ni_vx_service_interaction_req_service_interation_type_update xdr_rpc_loc_ni_service_interaction_e_type]"

definition xdr_rpc_loc_ni_event_payload_u_type :: "rpc_loc_ni_event_payload_u_type xdrproc" where
  "xdr_rpc_loc_ni_event_payload_u_type = xdr_union xdr_rpc_loc_ni_event_e_type [
     ([RPC_LOC_NI_EVENT_VX_NOTIFY_VERIFY_REQ],
       xdr_member ni_event_payload_u_unset zero_ni_vx_notify_verify_req ni_event_payload_u_vx_req
         is_ni_event_payload_u_vx_req un_ni_event_payload_u_vx_req xdr_rpc_loc_ni_vx_notify_verify_req_s_type),
     ([RPC_LOC_NI_EVENT_SUPL_NOTIFY_VERIFY_REQ],
       xdr_member ni_event_payload_u_unset zero_ni_supl_notify_verify_req ni_event_payload_u_supl_req
         is_ni_event_payload_u_supl_req un_ni_event_payload_u_supl_req xdr_rpc_loc_ni_supl_notify_verify_req_s_type),
     ([RPC_LOC_NI_EVENT_UMTS_CP_NOTIFY_VERIFY_REQ],
       xdr_member ni_event_payload_u_unset zero_ni_umts_cp_notify_verify_req ni_event_payload_u_umts_cp_req
         is_ni_event_payload_u_umts_cp_req un_ni_event_payload_u_umts_cp_req xdr_rpc_loc_ni_umts_cp_notify_verify_req_s_type),
     ([RPC_LOC_NI_EVENT_VX_SERVICE_INTERACTION_REQ],
       xdr_member ni_event_payload_u_unset zero_ni_vx_service_interaction_req ni_event_payload_u_service_interaction_req
         is_ni_event_payload_u_service_interaction_req un_ni_event_payload_u_service_interaction_req xdr_rpc_loc_ni_vx_service_interaction_req_s_type)]"

definition xdr_rpc_loc_ni_event_s_type :: "rpc_loc_ni_event_s_type xdrproc" where
  "xdr_rpc_loc_ni_event_s_type = xdr_seq [
     xdr_field ni_event_event ni_event_event_update xdr_rpc_loc_ni_event_e_type,
     xdr_field ni_event_payload ni_event_payload_update xdr_rpc_loc_ni_event_payload_u_type]"

definition xdr_rpc_loc_assist_data_request_e_type :: "rpc_loc_assist_data_request_e_type xdrproc" where
  "xdr_rpc_loc_assist_data_request_e_type = xdr_enum"

definition xdr_rpc_struct_loc_time_download_source_s_type_servers_ptr :: "(nat \<Rightarrow> bool) \<Rightarrow> rpc_struct_loc_time_download_source_s_type_servers_ptr xdrproc" where
  "xdr_rpc_struct_loc_time_download_source_s_type_servers_ptr al = xdr_string al 256"

definition xdr_rpc_struct_loc_time_download_source_s_type_servers :: "(nat \<Rightarrow> bool) \<Rightarrow> rpc_struct_loc_time_download_source_s_type_servers xdrproc" where
  "xdr_rpc_struct_loc_time_download_source_s_type_servers al = xdr_vector 3 (xdr_rpc_struct_loc_time_download_source_s_type_servers_ptr al)"

definition xdr_rpc_loc_time_download_source_s_type :: "(nat \<Rightarrow> bool) \<Rightarrow> rpc_loc_time_download_source_s_type xdrproc" where
  "xdr_rpc_loc_time_download_source_s_type al = xdr_seq [
     xdr_field time_download_source_delay_threshold time_download_source_delay_threshold_update xdr_rpc_uint32,
     xdr_field time_download_source_servers time_download_source_servers_update (xdr_rpc_struct_loc_time_download_source_s_type_servers al)]"

definition xdr_rpc_struct_loc_predicted_orbits_data_source_s_type_servers_ptr :: "(nat \<Rightarrow> bool) \<Rightarrow> rpc_struct_loc_predicted_orbits_data_source_s_type_servers_ptr xdrproc" where
  "xdr_rpc_struct_loc_predicted_orbits_data_source_s_type_servers_ptr al = xdr_string al 256"

definition xdr_rpc_struct_loc_predicted_orbits_data_source_s_type_servers :: "(nat \<Rightarrow> bool) \<Rightarrow> rpc_struct_loc_predicted_orbits_data_source_s_type_servers xdrproc" where
  "xdr_rpc_struct_loc_predicted_orbits_data_source_s_type_servers al = xdr_vector 3 (xdr_rpc_struct_loc_predicted_orbits_data_source_s_type_servers_ptr al)"

definition xdr_rpc_loc_predicted_orbits_data_source_s_type :: "(nat \<Rightarrow> bool) \<Rightarrow> rpc_loc_predicted_orbits_data_source_s_type xdrproc" where
  "xdr_rpc_loc_predicted_orbits_data_source_s_type al = xdr_seq [
     xdr_field predicted_orbits_data_source_max_file_size predicted_orbits_data_source_max_file_size_update xdr_rpc_uint32,
     xdr_field predicted_orbits_data_source_max_part_size predicted_orbits_data_source_max_part_size_update xdr_rpc_uint32,
     xdr_field predicted_orbits_data_source_servers predicted_orbits_data_source_servers_update (xdr_rpc_struct_loc_predicted_orbits_data_source_s_type_servers al)]"

definition xdr_rpc_loc_assist_data_request_payload_u_type :: "(nat \<Rightarrow> bool) \<Rightarrow> rpc_loc_assist_data_request_payload_u_type xdrproc" where
  "xdr_rpc_loc_assist_data_request_payload_u_type al = xdr_union xdr_rpc_loc_assist_data_request_e_type [
     ([RPC_LOC_ASSIST_DATA_TIME_REQ],
       xdr_member assist_data_request_payload_u_unset zero_time_download_source assist_data_request_payload_u_time_download
         is_assist_data_request_payload_u_time_download un_assist_data_request_payload_u_time_download (xdr_rpc_loc_time_download_source_s_type al)),
     ([RPC_LOC_ASSIST_DATA_PREDICTED_ORBITS_REQ],
       xdr_member assist_data_request_payload_u_unset zero_predicted_orbits_data_source assist_data_request_payload_u_data_download
         is_assist_data_request_payload_u_data_download un_assist_data_request_payload_u_data_download (xdr_rpc_loc_predicted_orbits_data_source_s_type al))]"

definition xdr_rpc_loc_assist_data_request_s_type :: "(nat \<Rightarrow> bool) \<Rightarrow> rpc_loc_assist_data_request_s_type xdrproc" where
  "xdr_rpc_loc_assist_data_request_s_type al = xdr_seq [
     xdr_field assist_data_request_event assist_data_request_event_update xdr_rpc_loc_assist_data_request_e_type,
     xdr_field assist_data_request_payload assist_data_request_payload_update (xdr_rpc_loc_assist_data_request_payload_u_type al)]"

definition xdr_rpc_loc_server_connection_handle :: "rpc_loc_server_connection_handle xdrproc" where
  "xdr_rpc_loc_server_connection_handle = xdr_rpc_uint32"

definition xdr_rpc_loc_server_protocol_e_type :: "rpc_loc_server_protocol_e_type xdrproc" where
  "xdr_rpc_loc_server_protocol_e_type = xdr_enum"

definition xdr_rpc_loc_server_request_e_type :: "rpc_loc_server_request_e_type xdrproc" where
  "xdr_rpc_loc_server_request_e_type = xdr_enum"

definition xdr_rpc_loc_server_open_req_s_type :: "rpc_loc_server_open_req_s_type xdrproc" where
  "xdr_rpc_loc_server_open_req_s_type = xdr_seq [
     xdr_field server_open_req_conn_handle server_open_req_conn_handle_update xdr_rpc_loc_server_connection_handle,
     xdr_field server_open_req_protocol server_open_req_protocol_update xdr_rpc_loc_server_protocol_e_type]"

definition xdr_rpc_loc_server_close_req_s_type :: "rpc_loc_server_close_req_s_type xdrproc" where
  "xdr_rpc_loc_server_close_req_s_type = xdr_seq [
     xdr_field server_close_req_conn_handle server_close_req_conn_handle_update xdr_rpc_loc_server_connection_handle]"

definition xdr_rpc_loc_server_request_u_type :: "rpc_loc_server_request_u_type xdrproc" where
  "xdr_rpc_loc_server_request_u_type = xdr_union xdr_rpc_loc_server_request_e_type [
     ([RPC_LOC_SERVER_REQUEST_OPEN],
       xdr_member server_request_u_unset zero_server_open_req server_request_u_open_req
         is_server_request_u_open_req un_server_request_u_open_req xdr_rpc_loc_server_open_req_s_type),
     ([RPC_LOC_SERVER_REQUEST_CLOSE],
       xdr_member server_request_u_unset zero_server_close_req server_request_u_close_req
         is_server_request_u_close_req un_server_request_u_close_req xdr_rpc_loc_server_close_req_s_type)]"

definition xdr_rpc_loc_server_request_s_type :: "rpc_loc_server_request_s_type xdrproc" where
  "xdr_rpc_loc_server_request_s_type = xdr_seq [
     xdr_field server_request_event server_request_event_update xdr_rpc_loc_server_request_e_type,
     xdr_field server_request_payload server_request_payload_update xdr_rpc_loc_server_request_u_type]"

definition xdr_rpc_loc_qwip_request_e_type :: "rpc_loc_qwip_request_e_type xdrproc" where
  "xdr_rpc_loc_qwip_request_e_type = xdr_enum"

definition xdr_rpc_loc_qwip_request_s_type :: "rpc_loc_qwip_request_s_type xdrproc" where
  "xdr_rpc_loc_qwip_request_s_type = xdr_seq [
     xdr_field qwip_request_request_type qwip_request_request_type_update xdr_rpc_loc_qwip_request_e_type,
     xdr_field qwip_request_tbf_ms qwip_request_tbf_ms_update xdr_rpc_uint16]"

definition xdr_rpc_loc_reserved_payload_s_type :: "(nat \<Rightarrow> bool) \<Rightarrow> rpc_loc_reserved_payload_s_type xdrproc" where
  "xdr_rpc_loc_reserved_payload_s_type al = xdr_seq [
     xdr_field reserved_payload_data_size reserved_payload_data_size_update xdr_rpc_uint16,
     xdr_field reserved_payload_data reserved_payload_data_update (xdr_bytes al (-1))]"

definition xdr_rpc_loc_ioctl_e_type :: "rpc_loc_ioctl_e_type xdrproc" where
  "xdr_rpc_loc_ioctl_e_type = xdr_enum"

definition xdr_rpc_loc_api_version_s_type :: "rpc_loc_api_version_s_type xdrproc" where
  "xdr_rpc_loc_api_version_s_type = xdr_seq [
     xdr_field api_version_major api_version_major_update xdr_u_char,
     xdr_field api_version_minor api_version_minor_update xdr_u_char]"

definition xdr_rpc_loc_fix_recurrence_e_type :: "rpc_loc_fix_recurrence_e_type xdrproc" where
  "xdr_rpc_loc_fix_recurrence_e_type = xdr_enum"

definition xdr_rpc_loc_operation_mode_e_type :: "rpc_loc_operation_mode_e_type xdrproc" where
  "xdr_rpc_loc_operation_mode_e_type = xdr_enum"

definition xdr_rpc_loc_notify_e_type :: "rpc_loc_notify_e_type xdrproc" where
  "xdr_rpc_loc_notify_e_type = xdr_enum"

definition xdr_rpc_loc_fix_criteria_s_type :: "rpc_loc_fix_criteria_s_type xdrproc" where
  "xdr_rpc_loc_fix_criteria_s_type = xdr_seq [
     xdr_field fix_criteria_valid_mask fix_criteria_valid_mask_update xdr_rpc_uint32,
     xdr_field fix_criteria_recurrence_type fix_criteria_recurrence_type_update xdr_rpc_loc_fix_recurrence_e_type,
     xdr_field fix_criteria_preferred_operation_mode fix_criteria_preferred_operation_mode_update xdr_rpc_loc_operation_mode_e_type,
     xdr_field fix_criteria_preferred_accuracy fix_criteria_preferred_accuracy_update xdr_rpc_uint32,
     xdr_field fix_criteria_preferred_response_time fix_criteria_preferred_response_time_update xdr_rpc_uint32,
     xdr_field fix_criteria_intermediate_pos_report_enabled fix_criteria_intermediate_pos_report_enabled_update xdr_rpc_boolean,
     xdr_field fix_criteria_notify_type fix_criteria_notify_type_update xdr_rpc_loc_notify_e_type,
     xdr_field fix_criteria_min_interval fix_criteria_min_interval_update xdr_rpc_uint32,
     xdr_field fix_criteria_min_distance fix_criteria_min_distance_update xdr_float,
     xdr_field fix_criteria_min_dist_sample_interval fix_criteria_min_dist_sample_interval_update xdr_rpc_uint32]"

definition xdr_rpc_loc_ni_user_resp_e_type :: "rpc_loc_ni_user_resp_e_type xdrproc" where
  "xdr_rpc_loc_ni_user_resp_e_type = xdr_enum"

definition xdr_rpc_loc_user_verify_s_type :: "rpc_loc_user_verify_s_type xdrproc" where
  "xdr_rpc_loc_user_verify_s_type = xdr_seq [
     xdr_field user_verify_user_resp user_verify_user_resp_update xdr_rpc_loc_ni_user_resp_e_type,
     xdr_field user_verify_ni_event_pass_back user_verify_ni_event_pass_back_update xdr_rpc_loc_ni_event_s_type]"

definition xdr_rpc_loc_predicted_orbits_data_format_e_type :: "rpc_loc_predicted_orbits_data_format_e_type xdrproc" where
  "xdr_rpc_loc_predicted_orbits_data_format_e_type = xdr_enum"

definition xdr_rpc_loc_predicted_orbits_data_s_type :: "(nat \<Rightarrow> bool) \<Rightarrow> rpc_loc_predicted_orbits_data_s_type xdrproc" where
  "xdr_rpc_loc_predicted_orbits_data_s_type al = xdr_seq [
     xdr_field predicted_orbits_data_format_type predicted_orbits_data_format_type_update xdr_rpc_loc_predicted_orbits_data_format_e_type,
     xdr_field predicted_orbits_data_total_size predicted_orbits_data_total_size_update xdr_rpc_uint32,
     xdr_field predicted_orbits_data_total_parts predicted_orbits_data_total_parts_update xdr_rpc_uint8,
     xdr_field predicted_orbits_data_part predicted_orbits_data_part_update xdr_rpc_uint8,
     xdr_field predicted_orbits_data_part_len predicted_orbits_data_part_len_update xdr_rpc_uint16,
     xdr_field predicted_orbits_data_data_ptr predicted_orbits_data_data_ptr_update (xdr_bytes al (-1))]"

definition xdr_rpc_loc_predicted_orbits_data_validity_report_s_type :: "rpc_loc_predicted_orbits_data_validity_report_s_type xdrproc" where
  "xdr_rpc_loc_predicted_orbits_data_validity_report_s_type = xdr_seq [
     xdr_field predicted_orbits_data_validity_report_start_time_utc predicted_orbits_data_validity_report_start_time_utc_update xdr_rpc_uint64,
     xdr_field predicted_orbits_data_validity_report_valid_duration_hrs predicted_orbits_data_validity_report_valid_duration_hrs_update xdr_rpc_uint16]"

definition xdr_rpc_loc_predicted_orbits_auto_download_config_s_type :: "rpc_loc_predicted_orbits_auto_download_config_s_type xdrproc" where
  "xdr_rpc_loc_predicted_orbits_auto_download_config_s_type = xdr_seq [
     xdr_field predicted_orbits_auto_download_config_enable predicted_orbits_auto_download_config_enable_update xdr_rpc_boolean,
     xdr_field predicted_orbits_auto_download_config_auto_check_every_hrs predicted_orbits_auto_download_config_auto_check_every_hrs_update xdr_u_char]"

definition xdr_rpc_loc_assist_data_time_s_type :: "rpc_loc_assist_data_time_s_type xdrproc" where
  "xdr_rpc_loc_assist_data_time_s_type = xdr_seq [
     xdr_field assist_data_time_time_utc assist_data_time_time_utc_update xdr_rpc_uint64,
     xdr_field assist_data_time_uncertainty assist_data_time_uncertainty_update xdr_rpc_uint32]"

definition xdr_rpc_loc_assist_pos_valid_mask_type :: "rpc_loc_assist_pos_valid_mask_type xdrproc" where
  "xdr_rpc_loc_assist_pos_valid_mask_type = xdr_rpc_uint64"

definition xdr_rpc_loc_assist_data_pos_s_type :: "rpc_loc_assist_data_pos_s_type xdrproc" where
  "xdr_rpc_loc_assist_data_pos_s_type = xdr_seq [
     xdr_field assist_data_pos_valid_mask assist_data_pos_valid_mask_update xdr_rpc_loc_assist_pos_valid_mask_type,
     xdr_field assist_data_pos_timestamp_utc assist_data_pos_timestamp_utc_update xdr_rpc_uint64,
     xdr_field assist_data_pos_latitude assist_data_pos_latitude_update xdr_double,
     xdr_field assist_data_pos_longitude assist_data_pos_longitude_update xdr_double,
     xdr_field assist_data_pos_altitude_wrt_ellipsoid assist_data_pos_altitude_wrt_ellipsoid_update xdr_float,
     xdr_field assist_data_pos_altitude_wrt_mean_sea_level assist_data_pos_altitude_wrt_mean_sea_level_update xdr_float,
     xdr_field assist_data_pos_hor_unc_circular assist_data_pos_hor_unc_circular_update xdr_float,
     xdr_field assist_data_pos_vert_unc assist_data_pos_vert_unc_update xdr_float,
     xdr_field assist_data_pos_confidence_horizontal assist_data_pos_confidence_horizontal_update xdr_u_char,
     xdr_field assist_data_pos_confidence_vertical assist_data_pos_confidence_vertical_update xdr_u_char,
     xdr_field assist_data_pos_timestamp_age assist_data_pos_timestamp_age_update xdr_rpc_int32]"

definition xdr_rpc_loc_server_open_status_e_type :: "rpc_loc_server_open_status_e_type xdrproc" where
  "xdr_rpc_loc_server_open_status_e_type = xdr_enum"

definition xdr_rpc_loc_server_open_status_s_type :: "rpc_loc_server_open_status_s_type xdrproc" where
  "xdr_rpc_loc_server_open_status_s_type = xdr_seq [
     xdr_field server_open_status_conn_handle server_open_status_conn_handle_update xdr_rpc_loc_server_connection_handle,
     xdr_field server_open_status_open_status server_open_status_open_status_update xdr_rpc_loc_server_open_status_e_type,
     xdr_field server_open_status_apn_name server_open_status_apn_name_update (xdr_opaque 100)]"

definition xdr_rpc_loc_server_close_status_e_type :: "rpc_loc_server_close_status_e_type xdrproc" where
  "xdr_rpc_loc_server_close_status_e_type = xdr_enum"

definition xdr_rpc_loc_server_close_status_s_type :: "rpc_loc_server_close_status_s_type xdrproc" where
  "xdr_rpc_loc_server_close_status_s_type = xdr_seq [
     xdr_field server_close_status_conn_handle server_close_status_conn_handle_update xdr_rpc_loc_server_connection_handle,
     xdr_field server_close_status_close_status server_close_status_close_status_update xdr_rpc_loc_server_close_status_e_type]"

definition xdr_rpc_loc_wiper_fix_time_s_type :: "rpc_loc_wiper_fix_time_s_type xdrproc" where
  "xdr_rpc_loc_wiper_fix_time_s_type = xdr_seq [
     xdr_field wiper_fix_time_slow_clock_count wiper_fix_time_slow_clock_count_update xdr_rpc_uint32]"

definition xdr_rpc_loc_wiper_fix_pos_s_type :: "rpc_loc_wiper_fix_pos_s_type xdrproc" where
  "xdr_rpc_loc_wiper_fix_pos_s_type = xdr_seq [
     xdr_field wiper_fix_pos_lat wiper_fix_pos_lat_update xdr_rpc_int32,
     xdr_field wiper_fix_pos_lon wiper_fix_pos_lon_update xdr_rpc_int32,
     xdr_field wiper_fix_pos_HEPE wiper_fix_pos_HEPE_update xdr_rpc_uint16,
     xdr_field wiper_fix_pos_num_of_aps_used wiper_fix_pos_num_of_aps_used_update xdr_rpc_uint8,
     xdr_field wiper_fix_pos_fix_error_code wiper_fix_pos_fix_error_code_update xdr_rpc_uint8]"

definition xdr_rpc_loc_wiper_ap_info_s_type :: "rpc_loc_wiper_ap_info_s_type xdrproc" where
  "xdr_rpc_loc_wiper_ap_info_s_type = xdr_seq [
     xdr_field wiper_ap_info_mac_addr wiper_ap_info_mac_addr_update (xdr_opaque 6),
     xdr_field wiper_ap_info_rssi wiper_ap_info_rssi_update xdr_rpc_int32,
     xdr_field wiper_ap_info_channel wiper_ap_info_channel_update xdr_rpc_uint16,
     xdr_field wiper_ap_info_ap_qualifier wiper_ap_info_ap_qualifier_update xdr_rpc_uint8]"

definition xdr_rpc_loc_wiper_ap_set_s_type :: "rpc_loc_wiper_ap_set_s_type xdrproc" where
  "xdr_rpc_loc_wiper_ap_set_s_type = xdr_seq [
     xdr_field wiper_ap_set_num_of_aps wiper_ap_set_num_of_aps_update xdr_rpc_uint8,
     xdr_field wiper_ap_set_ap_info wiper_ap_set_ap_info_update (xdr_vector 50 xdr_rpc_loc_wiper_ap_info_s_type)]"

definition xdr_rpc_loc_wiper_position_report_s_type :: "rpc_loc_wiper_position_report_s_type xdrproc" where
  "xdr_rpc_loc_wiper_position_report_s_type = xdr_seq [
     xdr_field wiper_position_report_wiper_valid_info_flag wiper_position_report_wiper_valid_info_flag_update xdr_rpc_uint8,
     xdr_field wiper_position_report_wiper_fix_time wiper_position_report_wiper_fix_time_update xdr_rpc_loc_wiper_fix_time_s_type,
     xdr_field wiper_position_report_wiper_fix_position wiper_position_report_wiper_fix_position_update xdr_rpc_loc_wiper_fix_pos_s_type,
     xdr_field wiper_position_report_wiper_ap_set wiper_position_report_wiper_ap_set_update xdr_rpc_loc_wiper_ap_set_s_type]"

definition xdr_rpc_loc_wiper_status_e_type :: "rpc_loc_wiper_status_e_type xdrproc" where
  "xdr_rpc_loc_wiper_status_e_type = xdr_enum"

definition xdr_rpc_loc_fs_operation_e_type :: "rpc_loc_fs_operation_e_type xdrproc" where
  "xdr_rpc_loc_fs_operation_e_type = xdr_enum"

definition xdr_rpc_loc_efs_data_s_type :: "(nat \<Rightarrow> bool) \<Rightarrow> rpc_loc_efs_data_s_type xdrproc" where
  "xdr_rpc_loc_efs_data_s_type al = xdr_seq [
     xdr_field efs_data_filename efs_data_filename_update (xdr_opaque 64),
     xdr_field efs_data_operation efs_data_operation_update xdr_rpc_loc_fs_operation_e_type,
     xdr_field efs_data_total_size efs_data_total_size_update xdr_rpc_uint32,
     xdr_field efs_data_data_ptr efs_data_data_ptr_update (xdr_bytes al (-1)),
     xdr_field efs_data_part_len efs_data_part_len_update xdr_rpc_uint32,
     xdr_field efs_data_part efs_data_part_update xdr_rpc_uint8,
     xdr_field efs_data_total_parts efs_data_total_parts_update xdr_rpc_uint8,
     xdr_field efs_data_reserved efs_data_reserved_update xdr_rpc_uint32]"

definition xdr_rpc_loc_lock_e_type :: "rpc_loc_lock_e_type xdrproc" where
  "xdr_rpc_loc_lock_e_type = xdr_enum"

definition xdr_rpc_loc_nmea_sentence_type :: "rpc_loc_nmea_sentence_type xdrproc" where
  "xdr_rpc_loc_nmea_sentence_type = xdr_rpc_uint32"

definition xdr_rpc_loc_assist_data_type :: "rpc_loc_assist_data_type xdrproc" where
  "xdr_rpc_loc_assist_data_type = xdr_rpc_uint32"

definition xdr_rpc_loc_assist_data_delete_s_type :: "rpc_loc_assist_data_delete_s_type xdrproc" where
  "xdr_rpc_loc_assist_data_delete_s_type = xdr_seq [
     xdr_field assist_data_delete_type assist_data_delete_type_update xdr_rpc_loc_assist_data_type,
     xdr_field assist_data_delete_reserved assist_data_delete_reserved_update (xdr_vector 8 xdr_rpc_uint32)]"

definition xdr_rpc_loc_ioctl_data_u_type :: "(nat \<Rightarrow> bool) \<Rightarrow> rpc_loc_ioctl_data_u_type xdrproc" where
  "xdr_rpc_loc_ioctl_data_u_type al = xdr_union xdr_rpc_loc_ioctl_e_type [
     ([RPC_LOC_IOCTL_SET_FIX_CRITERIA],
       xdr_member ioctl_data_u_unset zero_fix_criteria ioctl_data_u_fix_criteria
         is_ioctl_data_u_fix_criteria un_ioctl_data_u_fix_criteria xdr_rpc_loc_fix_criteria_s_type),
     ([RPC_LOC_IOCTL_INFORM_NI_USER_RESPONSE],
       xdr_member ioctl_data_u_unset zero_user_verify ioctl_data_u_user_verify_resp
         is_ioctl_data_u_user_verify_resp un_ioctl_data_u_user_verify_resp xdr_rpc_loc_user_verify_s_type),
     ([RPC_LOC_IOCTL_INJECT_PREDICTED_ORBITS_DATA],
       xdr_member ioctl_data_u_unset zero_predicted_orbits_data ioctl_data_u_predicted_orbits_data
         is_ioctl_data_u_predicted_orbits_data un_ioctl_data_u_predicted_orbits_data (xdr_rpc_loc_predicted_orbits_data_s_type al)),
     ([RPC_LOC_IOCTL_SET_PREDICTED_ORBITS_DATA_AUTO_DOWNLOAD],
       xdr_member ioctl_data_u_unset zero_predicted_orbits_auto_download_config ioctl_data_u_predicted_orbits_auto_download
         is_ioctl_data_u_predicted_orbits_auto_download un_ioctl_data_u_predicted_orbits_auto_download xdr_rpc_loc_predicted_orbits_auto_download_config_s_type),
     ([RPC_LOC_IOCTL_INJECT_UTC_TIME],
       xdr_member ioctl_data_u_unset zero_assist_data_time ioctl_data_u_assistance_data_time
         is_ioctl_data_u_assistance_data_time un_ioctl_data_u_assistance_data_time xdr_rpc_loc_assist_data_time_s_type),
     ([RPC_LOC_IOCTL_INJECT_POSITION],
       xdr_member ioctl_data_u_unset zero_assist_data_pos ioctl_data_u_assistance_data_position
         is_ioctl_data_u_assistance_data_position un_ioctl_data_u_assistance_data_position xdr_rpc_loc_assist_data_pos_s_type),
     ([RPC_LOC_IOCTL_INFORM_SERVER_OPEN_STATUS],
       xdr_member ioctl_data_u_unset zero_server_open_status ioctl_data_u_conn_open_status
         is_ioctl_data_u_conn_open_status un_ioctl_data_u_conn_open_status xdr_rpc_loc_server_open_status_s_type),
     ([RPC_LOC_IOCTL_INFORM_SERVER_CLOSE_STATUS],
       xdr_member ioctl_data_u_unset zero_server_close_status ioctl_data_u_conn_close_status
         is_ioctl_data_u_conn_close_status un_ioctl_data_u_conn_close_status xdr_rpc_loc_server_close_status_s_type),
     ([RPC_LOC_IOCTL_SEND_WIPER_POSITION_REPORT, RPC_LOC_EVENT_NMEA_1HZ_REPORT],
       xdr_member ioctl_data_u_unset zero_wiper_position_report ioctl_data_u_wiper_pos
         is_ioctl_data_u_wiper_pos un_ioctl_data_u_wiper_pos xdr_rpc_loc_wiper_position_report_s_type),
     ([RPC_LOC_IOCTL_NOTIFY_WIPER_STATUS],
       xdr_member ioctl_data_u_unset 0 ioctl_data_u_wiper_status
         is_ioctl_data_u_wiper_status un_ioctl_data_u_wiper_status xdr_rpc_loc_wiper_status_e_type),
     ([RPC_LOC_IOCTL_SET_ENGINE_LOCK],
       xdr_member ioctl_data_u_unset 0 ioctl_data_u_engine_lock
         is_ioctl_data_u_engine_lock un_ioctl_data_u_engine_lock xdr_rpc_loc_lock_e_type),
     ([RPC_LOC_IOCTL_SET_SBAS_CONFIG],
       xdr_member ioctl_data_u_unset 0 ioctl_data_u_sbas_mode
         is_ioctl_data_u_sbas_mode un_ioctl_data_u_sbas_mode xdr_rpc_boolean),
     ([RPC_LOC_IOCTL_SET_NMEA_TYPES],
       xdr_member ioctl_data_u_unset 0 ioctl_data_u_nmea_types
         is_ioctl_data_u_nmea_types un_ioctl_data_u_nmea_types xdr_rpc_loc_nmea_sentence_type),
     ([RPC_LOC_IOCTL_SET_ON_DEMAND_LPM],
       xdr_member ioctl_data_u_unset 0 ioctl_data_u_on_demand_lpm
         is_ioctl_data_u_on_demand_lpm un_ioctl_data_u_on_demand_lpm xdr_rpc_boolean),
     ([RPC_LOC_IOCTL_SET_CDMA_PDE_SERVER_ADDR, RPC_LOC_IOCTL_SET_CDMA_MPC_SERVER_ADDR, RPC_LOC_IOCTL_SET_UMTS_SLP_SERVER_ADDR, RPC_LOC_IOCTL_SET_CUSTOM_PDE_SERVER_ADDR],
       xdr_member ioctl_data_u_unset zero_server_info ioctl_data_u_server_addr
         is_ioctl_data_u_server_addr un_ioctl_data_u_server_addr xdr_rpc_loc_server_info_s_type),
     ([RPC_LOC_IOCTL_DELETE_ASSIST_DATA],
       xdr_member ioctl_data_u_unset zero_assist_data_delete ioctl_data_u_assist_data_delete
         is_ioctl_data_u_assist_data_delete un_ioctl_data_u_assist_data_delete xdr_rpc_loc_assist_data_delete_s_type),
     ([RPC_LOC_IOCTL_ACCESS_EFS_DATA],
       xdr_member ioctl_data_u_unset zero_efs_data ioctl_data_u_efs_data
         is_ioctl_data_u_efs_data un_ioctl_data_u_efs_data (xdr_rpc_loc_efs_data_s_type al))]"

definition xdr_rpc_loc_ioctl_callback_data_u_type :: "(nat \<Rightarrow> bool) \<Rightarrow> rpc_loc_ioctl_callback_data_u_type xdrproc" where
  "xdr_rpc_loc_ioctl_callback_data_u_type al = xdr_union xdr_rpc_loc_ioctl_e_type [
     ([RPC_LOC_IOCTL_GET_API_VERSION],
       xdr_member ioctl_callback_data_u_unset zero_api_version ioctl_callback_data_u_api_version
         is_ioctl_callback_data_u_api_version un_ioctl_callback_data_u_api_version xdr_rpc_loc_api_version_s_type),
     ([RPC_LOC_IOCTL_GET_FIX_CRITERIA],
       xdr_member ioctl_callback_data_u_unset zero_fix_criteria ioctl_callback_data_u_fix_criteria
         is_ioctl_callback_data_u_fix_criteria un_ioctl_callback_data_u_fix_criteria xdr_rpc_loc_fix_criteria_s_type),
     ([RPC_LOC_IOCTL_GET_ENGINE_LOCK],
       xdr_member ioctl_callback_data_u_unset 0 ioctl_callback_data_u_engine_lock
         is_ioctl_callback_data_u_engine_lock un_ioctl_callback_data_u_engine_lock xdr_rpc_loc_lock_e_type),
     ([RPC_LOC_IOCTL_GET_SBAS_CONFIG],
       xdr_member ioctl_callback_data_u_unset 0 ioctl_callback_data_u_sbas_mode
         is_ioctl_callback_data_u_sbas_mode un_ioctl_callback_data_u_sbas_mode xdr_rpc_boolean),
     ([RPC_LOC_IOCTL_GET_NMEA_TYPES],
       xdr_member ioctl_callback_data_u_unset 0 ioctl_callback_data_u_nmea_types
         is_ioctl_callback_data_u_nmea_types un_ioctl_callback_data_u_nmea_types xdr_rpc_loc_nmea_sentence_type),
     ([RPC_LOC_IOCTL_GET_ON_DEMAND_LPM],
       xdr_member ioctl_callback_data_u_unset 0 ioctl_callback_data_u_on_demand_lpm
         is_ioctl_callback_data_u_on_demand_lpm un_ioctl_callback_data_u_on_demand_lpm xdr_rpc_boolean),
     ([RPC_LOC_IOCTL_GET_CDMA_PDE_SERVER_ADDR, RPC_LOC_IOCTL_GET_CDMA_MPC_SERVER_ADDR, RPC_LOC_IOCTL_GET_UMTS_SLP_SERVER_ADDR, RPC_LOC_IOCTL_GET_CUSTOM_PDE_SERVER_ADDR],
       xdr_member ioctl_callback_data_u_unset zero_server_info ioctl_callback_data_u_server_addr
         is_ioctl_callback_data_u_server_addr un_ioctl_callback_data_u_server_addr xdr_rpc_loc_server_info_s_type),
     ([RPC_LOC_IOCTL_QUERY_PREDICTED_ORBITS_DATA_SOURCE],
       xdr_member ioctl_callback_data_u_unset zero_predicted_orbits_data_source ioctl_callback_data_u_predicted_orbits_data_source
         is_ioctl_callback_data_u_predicted_orbits_data_source un_ioctl_callback_data_u_predicted_orbits_data_source (xdr_rpc_loc_predicted_orbits_data_source_s_type al)),
     ([RPC_LOC_IOCTL_QUERY_PREDICTED_ORBITS_DATA_VALIDITY],
       xdr_member ioctl_callback_data_u_unset zero_predicted_orbits_data_validity_report ioctl_callback_data_u_predicted_orbits_data_validity
         is_ioctl_callback_data_u_predicted_orbits_data_validity un_ioctl_callback_data_u_predicted_orbits_data_validity xdr_rpc_loc_predicted_orbits_data_validity_report_s_type)]"

definition xdr_rpc_loc_ioctl_callback_s_type :: "(nat \<Rightarrow> bool) \<Rightarrow> rpc_loc_ioctl_callback_s_type xdrproc" where
  "xdr_rpc_loc_ioctl_callback_s_type al = xdr_seq [
     xdr_field ioctl_callback_type ioctl_callback_type_update xdr_rpc_loc_ioctl_e_type,
     xdr_field ioctl_callback_status ioctl_callback_status_update xdr_rpc_int32,
     xdr_field ioctl_callback_data ioctl_callback_data_update (xdr_rpc_loc_ioctl_callback_data_u_type al)]"

definition xdr_rpc_loc_event_payload_u_type :: "(nat \<Rightarrow> bool) \<Rightarrow> rpc_loc_event_payload_u_type xdrproc" where
  "xdr_rpc_loc_event_payload_u_type al = xdr_union xdr_u_quad_t [
     ([RPC_LOC_EVENT_PARSED_POSITION_REPORT],
       xdr_member event_payload_u_unset zero_parsed_position event_payload_u_parsed_location_report
         is_event_payload_u_parsed_location_report un_event_payload_u_parsed_location_report xdr_rpc_loc_parsed_position_s_type),
     ([RPC_LOC_EVENT_SATELLITE_REPORT],
       xdr_member event_payload_u_unset zero_gnss_info event_payload_u_gnss_report
         is_event_payload_u_gnss_report un_event_payload_u_gnss_report (xdr_rpc_loc_gnss_info_s_type al)),
     ([RPC_LOC_EVENT_NMEA_POSITION_REPORT],
       xdr_member event_payload_u_unset zero_nmea_report event_payload_u_nmea_report
         is_event_payload_u_nmea_report un_event_payload_u_nmea_report xdr_rpc_loc_nmea_report_s_type),
     ([RPC_LOC_EVENT_NI_NOTIFY_VERIFY_REQUEST],
       xdr_member event_payload_u_unset zero_ni_event event_payload_u_ni_request
         is_event_payload_u_ni_request un_event_payload_u_ni_request xdr_rpc_loc_ni_event_s_type),
     ([RPC_LOC_EVENT_ASSISTANCE_DATA_REQUEST],
       xdr_member event_payload_u_unset zero_assist_data_request event_payload_u_assist_data_request
         is_event_payload_u_assist_data_request un_event_payload_u_assist_data_request (xdr_rpc_loc_assist_data_request_s_type al)),
     ([RPC_LOC_EVENT_LOCATION_SERVER_REQUEST],
       xdr_member event_payload_u_unset zero_server_request event_payload_u_loc_server_request
         is_event_payload_u_loc_server_request un_event_payload_u_loc_server_request xdr_rpc_loc_server_request_s_type),
     ([RPC_LOC_EVENT_IOCTL_REPORT],
       xdr_member event_payload_u_unset zero_ioctl_callback event_payload_u_ioctl_report
         is_event_payload_u_ioctl_report un_event_payload_u_ioctl_report (xdr_rpc_loc_ioctl_callback_s_type al)),
     ([RPC_LOC_EVENT_STATUS_REPORT],
       xdr_member event_payload_u_unset zero_status_event event_payload_u_status_report
         is_event_payload_u_status_report un_event_payload_u_status_report xdr_rpc_loc_status_event_s_type),
     ([RPC_LOC_EVENT_WPS_NEEDED_REQUEST],
       xdr_member event_payload_u_unset zero_qwip_request event_payload_u_qwip_request
         is_event_payload_u_qwip_request un_event_payload_u_qwip_request xdr_rpc_loc_qwip_request_s_type),
     ([RPC_LOC_EVENT_RESERVED],
       xdr_member event_payload_u_unset zero_reserved_payload event_payload_u_reserved
         is_event_payload_u_reserved un_event_payload_u_reserved (xdr_rpc_loc_reserved_payload_s_type al))]"

definition xdr_rpc_loc_api_api_versions_return_type :: "(nat \<Rightarrow> bool) \<Rightarrow> rpc_loc_api_api_versions_return_type xdrproc" where
  "xdr_rpc_loc_api_api_versions_return_type al = xdr_array al (-1) 4 0 xdr_rpc_uint32"

definition xdr_rpc_loc_event_cb_f_type :: "rpc_loc_event_cb_f_type xdrproc" where
  "xdr_rpc_loc_event_cb_f_type = xdr_rpc_uint32"

definition xdr_rpc_loc_open_args :: "rpc_loc_open_args xdrproc" where
  "xdr_rpc_loc_open_args = xdr_seq [
     xdr_field open_args_event_reg_mask open_args_event_reg_mask_update xdr_rpc_loc_event_mask_type,
     xdr_field open_args_event_callback open_args_event_callback_update xdr_rpc_loc_event_cb_f_type]"

definition xdr_rpc_loc_close_args :: "rpc_loc_close_args xdrproc" where
  "xdr_rpc_loc_close_args = xdr_seq [
     xdr_field close_args_handle close_args_handle_update xdr_rpc_loc_client_handle_type]"

definition xdr_rpc_loc_start_fix_args :: "rpc_loc_start_fix_args xdrproc" where
  "xdr_rpc_loc_start_fix_args = xdr_seq [
     xdr_field start_fix_args_handle start_fix_args_handle_update xdr_rpc_loc_client_handle_type]"

definition xdr_rpc_loc_stop_fix_args :: "rpc_loc_stop_fix_args xdrproc" where
  "xdr_rpc_loc_stop_fix_args = xdr_seq [
     xdr_field stop_fix_args_handle stop_fix_args_handle_update xdr_rpc_loc_client_handle_type]"

definition xdr_rpc_loc_ioctl_args :: "(nat \<Rightarrow> bool) \<Rightarrow> rpc_loc_ioctl_args xdrproc" where
  "xdr_rpc_loc_ioctl_args al = xdr_seq [
     xdr_field ioctl_args_handle ioctl_args_handle_update xdr_rpc_loc_client_handle_type,
     xdr_field ioctl_args_ioctl_type ioctl_args_ioctl_type_update xdr_rpc_loc_ioctl_e_type,
     xdr_field ioctl_args_ioctl_data ioctl_args_ioctl_data_update (xdr_pointer al 832 zero_ioctl_data_u (xdr_rpc_loc_ioctl_data_u_type al))]"

definition xdr_rpc_loc_api_api_version_s_args :: "rpc_loc_api_api_version_s_args xdrproc" where
  "xdr_rpc_loc_api_api_version_s_args = xdr_seq [
     xdr_field api_api_version_s_args_len_not_null api_api_version_s_args_len_not_null_update xdr_rpc_boolean]"

definition xdr_rpc_loc_api_rpc_glue_code_info_remote_rets :: "rpc_loc_api_rpc_glue_code_info_remote_rets xdrproc" where
  "xdr_rpc_loc_api_rpc_glue_code_info_remote_rets = xdr_seq [
     xdr_field api_rpc_glue_code_info_remote_rets_toolvers api_rpc_glue_code_info_remote_rets_toolvers_update xdr_rpc_uint32,
     xdr_field api_rpc_glue_code_info_remote_rets_features api_rpc_glue_code_info_remote_rets_features_update xdr_rpc_uint32,
     xdr_field api_rpc_glue_code_info_remote_rets_proghash api_rpc_glue_code_info_remote_rets_proghash_update xdr_rpc_uint32,
     xdr_field api_rpc_glue_code_info_remote_rets_cbproghash api_rpc_glue_code_info_remote_rets_cbproghash_update xdr_rpc_uint32]"

definition xdr_rpc_loc_open_rets :: "rpc_loc_open_rets xdrproc" where
  "xdr_rpc_loc_open_rets = xdr_seq [
     xdr_field open_rets_loc_open_result open_rets_loc_open_result_update xdr_rpc_loc_client_handle_type]"

definition xdr_rpc_loc_close_rets :: "rpc_loc_close_rets xdrproc" where
  "xdr_rpc_loc_close_rets = xdr_seq [
     xdr_field close_rets_loc_close_result close_rets_loc_close_result_update xdr_rpc_int32]"

definition xdr_rpc_loc_start_fix_rets :: "rpc_loc_start_fix_rets xdrproc" where
  "xdr_rpc_loc_start_fix_rets = xdr_seq [
     xdr_field start_fix_rets_loc_start_fix_result start_fix_rets_loc_start_fix_result_update xdr_rpc_int32]"

definition xdr_rpc_loc_stop_fix_rets :: "rpc_loc_stop_fix_rets xdrproc" where
  "xdr_rpc_loc_stop_fix_rets = xdr_seq [
     xdr_field stop_fix_rets_loc_stop_fix_result stop_fix_rets_loc_stop_fix_result_update xdr_rpc_int32]"

definition xdr_rpc_loc_ioctl_rets :: "rpc_loc_ioctl_rets xdrproc" where
  "xdr_rpc_loc_ioctl_rets = xdr_seq [
     xdr_field ioctl_rets_loc_ioctl_result ioctl_rets_loc_ioctl_result_update xdr_rpc_int32]"

definition xdr_rpc_loc_api_api_versions_rets :: "(nat \<Rightarrow> bool) \<Rightarrow> rpc_loc_api_api_versions_rets xdrproc" where
  "xdr_rpc_loc_api_api_versions_rets al = xdr_seq [
     xdr_field api_api_versions_rets_loc_api_api_versions_result api_api_versions_rets_loc_api_api_versions_result_update (xdr_rpc_loc_api_api_versions_return_type al),
     xdr_field api_api_versions_rets_len api_api_versions_rets_len_update (xdr_pointer al 4 0 xdr_rpc_uint32)]"

definition xdr_rpc_loc_event_cb_f_type_args :: "(nat \<Rightarrow> bool) \<Rightarrow> rpc_loc_event_cb_f_type_args xdrproc" where
  "xdr_rpc_loc_event_cb_f_type_args al = xdr_seq [
     xdr_field event_cb_f_type_args_cb_id event_cb_f_type_args_cb_id_update xdr_rpc_uint32,
     xdr_field event_cb_f_type_args_loc_handle event_cb_f_type_args_loc_handle_update xdr_rpc_loc_client_handle_type,
     xdr_field event_cb_f_type_args_loc_event event_cb_f_type_args_loc_event_update xdr_rpc_loc_event_mask_type,
     xdr_field event_cb_f_type_args_loc_event_payload event_cb_f_type_args_loc_event_payload_update (xdr_pointer al 600 zero_event_payload_u (xdr_rpc_loc_event_payload_u_type al))]"

definition xdr_rpc_loc_event_cb_f_type_rets :: "rpc_loc_event_cb_f_type_rets xdrproc" where
  "xdr_rpc_loc_event_cb_f_type_rets = xdr_seq [
     xdr_field event_cb_f_type_rets_loc_event_cb_f_type_result event_cb_f_type_rets_loc_event_cb_f_type_result_update xdr_rpc_int32]"

end
