(* ===== verification/Loc_Api_Wire.thy ===== *)
theory Loc_Api_Wire
  imports Loc_Api_Xdr
begin

text \<open>
  What the generated filters promise. For every struct and union the bytes it travels as
  (\<open>enc_\<close>), the values that can travel (\<open>good_\<close>: arrays have their declared length, flags are
  0 or 1, strings end in a zero, the member of a union is the one its discriminant selects, and
  the allocator has the memory for what is behind pointers), the round-trip contract
  (\<open>_filter\<close>) and the safety contract against any message (\<open>_safe\<close>).
\<close>

section \<open>The wire format\<close>

definition enc_calendar_time :: "rpc_loc_calendar_time_s_type \<Rightarrow> bytes" where
  "enc_calendar_time v =
     be32 (ucast (calendar_time_year v)) @ be32 (ucast (calendar_time_month v)) @
     be32 (ucast (calendar_time_day_of_week v)) @ be32 (ucast (calendar_time_day v)) @
     be32 (ucast (calendar_time_hour v)) @ be32 (ucast (calendar_time_minute v)) @
     be32 (ucast (calendar_time_second v)) @ be32 (ucast (calendar_time_millisecond v))"

definition good_calendar_time :: "rpc_loc_calendar_time_s_type \<Rightarrow> bool" where
  "good_calendar_time v \<longleftrightarrow>
     True"

definition enc_parsed_position :: "rpc_loc_parsed_position_s_type \<Rightarrow> bytes" where
  "enc_parsed_position v =
     be64 (parsed_position_valid_mask v) @ be32 (parsed_position_session_status v) @
     enc_calendar_time (parsed_position_timestamp_calendar v) @
     be64 (parsed_position_timestamp_utc v) @ be32 (ucast (parsed_position_leap_seconds v)) @
     be32 (parsed_position_time_unc v) @ be64 (parsed_position_latitude v) @
     be64 (parsed_position_longitude v) @ be32 (parsed_position_altitude_wrt_ellipsoid v) @
     be32 (parsed_position_altitude_wrt_mean_sea_level v) @
     be32 (parsed_position_speed_horizontal v) @ be32 (parsed_position_speed_vertical v) @
     be32 (parsed_position_heading v) @ be32 (parsed_position_hor_unc_circular v) @
     be32 (parsed_position_hor_unc_ellipse_semi_major v) @
     be32 (parsed_position_hor_unc_ellipse_semi_minor v) @
     be32 (parsed_position_hor_unc_ellipse_orient_azimuth v) @ be32 (parsed_position_vert_unc v) @
     be32 (parsed_position_speed_unc v) @ be32 (parsed_position_heading_unc v) @
     be32 (ucast (parsed_position_confidence_horizontal v)) @
     be32 (ucast (parsed_position_confidence_vertical v)) @
     be32 (parsed_position_magnetic_deviation v) @ be32 (parsed_position_technology_mask v)"

definition good_parsed_position :: "rpc_loc_parsed_position_s_type \<Rightarrow> bool" where
  "good_parsed_position v \<longleftrightarrow>
     good_calendar_time (parsed_position_timestamp_calendar v)"

definition enc_sv_info :: "rpc_loc_sv_info_s_type \<Rightarrow> bytes" where
  "enc_sv_info v =
     be32 (sv_info_valid_mask v) @ be32 (sv_info_system v) @ be32 (ucast (sv_info_prn v)) @
     be32 (ucast (sv_info_health_status v)) @ be32 (sv_info_process_status v) @
     be32 (sv_info_has_eph v) @ be32 (sv_info_has_alm v) @ be32 (sv_info_elevation v) @
     be32 (sv_info_azimuth v) @ be32 (sv_info_snr v)"

definition good_sv_info :: "rpc_loc_sv_info_s_type \<Rightarrow> bool" where
  "good_sv_info v \<longleftrightarrow>
     (sv_info_has_eph v = 0 \<or> sv_info_has_eph v = 1) \<and>
     (sv_info_has_alm v = 0 \<or> sv_info_has_alm v = 1)"

definition enc_gnss_info :: "rpc_loc_gnss_info_s_type \<Rightarrow> bytes" where
  "enc_gnss_info v =
     be32 (gnss_info_valid_mask v) @ be32 (gnss_info_position_dop v) @
     be32 (gnss_info_horizontal_dop v) @ be32 (gnss_info_vertical_dop v) @
     be32 (gnss_info_altitude_assumed v) @ be32 (ucast (gnss_info_sv_count v)) @
     enc_array enc_sv_info (gnss_info_sv_list v)"

definition good_gnss_info :: "(nat \<Rightarrow> bool) \<Rightarrow> rpc_loc_gnss_info_s_type \<Rightarrow> bool" where
  "good_gnss_info al v \<longleftrightarrow>
     (gnss_info_altitude_assumed v = 0 \<or> gnss_info_altitude_assumed v = 1) \<and>
     good_array al 80 36 good_sv_info (gnss_info_sv_list v)"

fun enc_status_event_payload_u_u :: "rpc_loc_status_event_payload_u_type_u \<Rightarrow> bytes" where
  "enc_status_event_payload_u_u status_event_payload_u_unset = []"
| "enc_status_event_payload_u_u (status_event_payload_u_engine_state m) = be32 m"
| "enc_status_event_payload_u_u (status_event_payload_u_fix_session_state m) = be32 m"

definition enc_status_event_payload_u :: "rpc_loc_status_event_payload_u_type \<Rightarrow> bytes" where
  "enc_status_event_payload_u v = be32 (disc v) @ enc_status_event_payload_u_u (member v)"

definition good_status_event_payload_u :: "rpc_loc_status_event_payload_u_type \<Rightarrow> bool" where
  "good_status_event_payload_u v \<longleftrightarrow>
     (case member v of
         status_event_payload_u_unset \<Rightarrow> disc v \<notin> {RPC_LOC_STATUS_EVENT_ENGINE_STATE, RPC_LOC_STATUS_EVENT_FIX_SESSION_STATE}
       | status_event_payload_u_engine_state m \<Rightarrow>
           disc v = RPC_LOC_STATUS_EVENT_ENGINE_STATE
       | status_event_payload_u_fix_session_state m \<Rightarrow>
           disc v = RPC_LOC_STATUS_EVENT_FIX_SESSION_STATE)"

definition enc_status_event :: "rpc_loc_status_event_s_type \<Rightarrow> bytes" where
  "enc_status_event v =
     be32 (status_event_event v) @ enc_status_event_payload_u (status_event_payload v)"

definition good_status_event :: "rpc_loc_status_event_s_type \<Rightarrow> bool" where
  "good_status_event v \<longleftrightarrow>
     good_status_event_payload_u (status_event_payload v)"

definition enc_server_addr_ipv4 :: "rpc_loc_server_addr_ipv4_type \<Rightarrow> bytes" where
  "enc_server_addr_ipv4 v =
     be32 (server_addr_ipv4_addr v) @ be32 (ucast (server_addr_ipv4_port v))"

definition good_server_addr_ipv4 :: "rpc_loc_server_addr_ipv4_type \<Rightarrow> bool" where
  "good_server_addr_ipv4 v \<longleftrightarrow>
     True"

definition enc_server_addr_url :: "rpc_loc_server_addr_url_type \<Rightarrow> bytes" where
  "enc_server_addr_url v =
     be32 (ucast (server_addr_url_length v)) @ enc_opaque (server_addr_url_addr v)"

definition good_server_addr_url :: "rpc_loc_server_addr_url_type \<Rightarrow> bool" where
  "good_server_addr_url v \<longleftrightarrow>
     good_opaque 256 (server_addr_url_addr v)"

fun enc_server_addr_u_u :: "rpc_loc_server_addr_u_type_u \<Rightarrow> bytes" where
  "enc_server_addr_u_u server_addr_u_unset = []"
| "enc_server_addr_u_u (server_addr_u_ipv4 m) = enc_server_addr_ipv4 m"
| "enc_server_addr_u_u (server_addr_u_url m) = enc_server_addr_url m"

definition enc_server_addr_u :: "rpc_loc_server_addr_u_type \<Rightarrow> bytes" where
  "enc_server_addr_u v = be32 (disc v) @ enc_server_addr_u_u (member v)"

definition good_server_addr_u :: "rpc_loc_server_addr_u_type \<Rightarrow> bool" where
  "good_server_addr_u v \<longleftrightarrow>
     (case member v of
         server_addr_u_unset \<Rightarrow> disc v \<notin> {RPC_LOC_SERVER_ADDR_IPV4, RPC_LOC_SERVER_ADDR_URL}
       | server_addr_u_ipv4 m \<Rightarrow>
           disc v = RPC_LOC_SERVER_ADDR_IPV4 \<and> good_server_addr_ipv4 m
       | server_addr_u_url m \<Rightarrow>
           disc v = RPC_LOC_SERVER_ADDR_URL \<and> good_server_addr_url m)"

definition enc_server_info :: "rpc_loc_server_info_s_type \<Rightarrow> bytes" where
  "enc_server_info v =
     be32 (server_info_addr_type v) @ enc_server_addr_u (server_info_addr_info v)"

definition good_server_info :: "rpc_loc_server_info_s_type \<Rightarrow> bool" where
  "good_server_info v \<longleftrightarrow>
     good_server_addr_u (server_info_addr_info v)"

definition enc_ni_vx_requester_id :: "rpc_loc_ni_vx_requester_id_s_type \<Rightarrow> bytes" where
  "enc_ni_vx_requester_id v =
     be32 (ucast (ni_vx_requester_id_requester_id_length v)) @
     enc_opaque (ni_vx_requester_id_requester_id v)"

definition good_ni_vx_requester_id :: "rpc_loc_ni_vx_requester_id_s_type \<Rightarrow> bool" where
  "good_ni_vx_requester_id v \<longleftrightarrow>
     good_opaque 200 (ni_vx_requester_id_requester_id v)"

definition enc_ni_vx_notify_verify_req :: "rpc_loc_ni_vx_notify_verify_req_s_type \<Rightarrow> bytes" where
  "enc_ni_vx_notify_verify_req v =
     be32 (ni_vx_notify_verify_req_notification_priv_type v) @
     be32 (ucast (ni_vx_notify_verify_req_pos_qos_incl v)) @
     be32 (ucast (ni_vx_notify_verify_req_pos_qos v)) @ be32 (ni_vx_notify_verify_req_num_fixes v) @
     be32 (ni_vx_notify_verify_req_tbf v) @ be32 (ni_vx_notify_verify_req_pos_mode v) @
     be32 (ni_vx_notify_verify_req_encoding_scheme v) @
     enc_ni_vx_requester_id (ni_vx_notify_verify_req_requester_id v) @
     be32 (ucast (ni_vx_notify_verify_req_user_resp_timer_val v))"

definition good_ni_vx_notify_verify_req :: "rpc_loc_ni_vx_notify_verify_req_s_type \<Rightarrow> bool" where
  "good_ni_vx_notify_verify_req v \<longleftrightarrow>
     good_ni_vx_requester_id (ni_vx_notify_verify_req_requester_id v)"

definition enc_ni_supl_slp_session_id :: "rpc_loc_ni_supl_slp_session_id_s_type \<Rightarrow> bytes" where
  "enc_ni_supl_slp_session_id v =
     be32 (ucast (ni_supl_slp_session_id_presence v)) @
     enc_opaque (ni_supl_slp_session_id_session_id v) @
     enc_server_info (ni_supl_slp_session_id_slp_address v)"

definition good_ni_supl_slp_session_id :: "rpc_loc_ni_supl_slp_session_id_s_type \<Rightarrow> bool" where
  "good_ni_supl_slp_session_id v \<longleftrightarrow>
     good_opaque 4 (ni_supl_slp_session_id_session_id v) \<and>
     good_server_info (ni_supl_slp_session_id_slp_address v)"

definition enc_ni_requestor_id :: "rpc_loc_ni_requestor_id_s_type \<Rightarrow> bytes" where
  "enc_ni_requestor_id v =
     be32 (ucast (ni_requestor_id_data_coding_scheme v)) @
     enc_opaque (ni_requestor_id_requestor_id_string v) @
     be32 (ucast (ni_requestor_id_string_len v))"

definition good_ni_requestor_id :: "rpc_loc_ni_requestor_id_s_type \<Rightarrow> bool" where
  "good_ni_requestor_id v \<longleftrightarrow>
     good_opaque 200 (ni_requestor_id_requestor_id_string v)"

definition enc_ni_supl_client_name :: "rpc_loc_ni_supl_client_name_s_type \<Rightarrow> bytes" where
  "enc_ni_supl_client_name v =
     be32 (ucast (ni_supl_client_name_data_coding_scheme v)) @
     enc_opaque (ni_supl_client_name_client_name_string v) @
     be32 (ucast (ni_supl_client_name_string_len v))"

definition good_ni_supl_client_name :: "rpc_loc_ni_supl_client_name_s_type \<Rightarrow> bool" where
  "good_ni_supl_client_name v \<longleftrightarrow>
     good_opaque 64 (ni_supl_client_name_client_name_string v)"

definition enc_ni_supl_qop :: "rpc_loc_ni_supl_qop_s_type \<Rightarrow> bytes" where
  "enc_ni_supl_qop v =
     be32 (ucast (ni_supl_qop_bit_mask v)) @ be32 (ucast (ni_supl_qop_horacc v)) @
     be32 (ucast (ni_supl_qop_veracc v)) @ be32 (ucast (ni_supl_qop_maxLocAge v)) @
     be32 (ucast (ni_supl_qop_delay v))"

definition good_ni_supl_qop :: "rpc_loc_ni_supl_qop_s_type \<Rightarrow> bool" where
  "good_ni_supl_qop v \<longleftrightarrow>
     True"

definition enc_ni_supl_notify_verify_req :: "rpc_loc_ni_supl_notify_verify_req_s_type \<Rightarrow> bytes" where
  "enc_ni_supl_notify_verify_req v =
     be32 (ni_supl_notify_verify_req_notification_priv_type v) @
     be32 (ucast (ni_supl_notify_verify_req_flags v)) @
     enc_ni_supl_slp_session_id (ni_supl_notify_verify_req_supl_slp_session_id v) @
     enc_opaque (ni_supl_notify_verify_req_supl_hash v) @
     be32 (ni_supl_notify_verify_req_datacoding_scheme v) @
     be32 (ni_supl_notify_verify_req_pos_method v) @
     enc_ni_requestor_id (ni_supl_notify_verify_req_requestor_id v) @
     enc_ni_supl_client_name (ni_supl_notify_verify_req_client_name v) @
     enc_ni_supl_qop (ni_supl_notify_verify_req_supl_qop v) @
     be32 (ucast (ni_supl_notify_verify_req_user_response_timer v))"

definition good_ni_supl_notify_verify_req :: "rpc_loc_ni_supl_notify_verify_req_s_type \<Rightarrow> bool" where
  "good_ni_supl_notify_verify_req v \<longleftrightarrow>
     good_ni_supl_slp_session_id (ni_supl_notify_verify_req_supl_slp_session_id v) \<and>
     good_opaque 8 (ni_supl_notify_verify_req_supl_hash v) \<and>
     good_ni_requestor_id (ni_supl_notify_verify_req_requestor_id v) \<and>
     good_ni_supl_client_name (ni_supl_notify_verify_req_client_name v) \<and>
     good_ni_supl_qop (ni_supl_notify_verify_req_supl_qop v)"

definition enc_ni_ext_client_address :: "rpc_loc_ni_ext_client_address_s_type \<Rightarrow> bytes" where
  "enc_ni_ext_client_address v =
     be32 (ucast (ni_ext_client_address_ext_client_address_len v)) @
     enc_opaque (ni_ext_client_address_ext_client_address v)"

definition good_ni_ext_client_address :: "rpc_loc_ni_ext_client_address_s_type \<Rightarrow> bool" where
  "good_ni_ext_client_address v \<longleftrightarrow>
     good_opaque 20 (ni_ext_client_address_ext_client_address v)"

definition enc_ni_deferred_location :: "rpc_loc_ni_deferred_location_s_type \<Rightarrow> bytes" where
  "enc_ni_deferred_location v =
     be32 (ucast (ni_deferred_location_unused_bits v)) @
     be32 (ucast (ni_deferred_location_ms_available v))"

definition good_ni_deferred_location :: "rpc_loc_ni_deferred_location_s_type \<Rightarrow> bool" where
  "good_ni_deferred_location v \<longleftrightarrow>
     True"

definition enc_ni_codeword_string :: "rpc_loc_ni_codeword_string_s_type \<Rightarrow> bytes" where
  "enc_ni_codeword_string v =
     be32 (ucast (ni_codeword_string_data_coding_scheme v)) @
     enc_opaque (ni_codeword_string_lcs_codeword_string v) @
     be32 (ucast (ni_codeword_string_string_len v))"

definition good_ni_codeword_string :: "rpc_loc_ni_codeword_string_s_type \<Rightarrow> bool" where
  "good_ni_codeword_string v \<longleftrightarrow>
     good_opaque 20 (ni_codeword_string_lcs_codeword_string v)"

definition enc_ni_service_type_id :: "rpc_loc_ni_service_type_id_s_type \<Rightarrow> bytes" where
  "enc_ni_service_type_id v =
     be32 (ucast (ni_service_type_id_lcs_service_type_id v))"

definition good_ni_service_type_id :: "rpc_loc_ni_service_type_id_s_type \<Rightarrow> bool" where
  "good_ni_service_type_id v \<longleftrightarrow>
     True"

definition enc_ni_umts_cp_notify_verify_req :: "rpc_loc_ni_umts_cp_notify_verify_req_s_type \<Rightarrow> bytes" where
  "enc_ni_umts_cp_notify_verify_req v =
     be32 (ni_umts_cp_notify_verify_req_notification_priv_type v) @
     be32 (ucast (ni_umts_cp_notify_verify_req_invoke_id v)) @
     be32 (ucast (ni_umts_cp_notify_verify_req_flags v)) @
     be32 (ucast (ni_umts_cp_notify_verify_req_notification_length v)) @
     enc_opaque (ni_umts_cp_notify_verify_req_notification_text v) @
     be32 (ni_umts_cp_notify_verify_req_datacoding_scheme v) @
     enc_ni_ext_client_address (ni_umts_cp_notify_verify_req_ext_client_address_data v) @
     be32 (ni_umts_cp_notify_verify_req_location_type v) @
     enc_ni_deferred_location (ni_umts_cp_notify_verify_req_deferred_location v) @
     enc_ni_requestor_id (ni_umts_cp_notify_verify_req_requestor_id v) @
     enc_ni_codeword_string (ni_umts_cp_notify_verify_req_codeword_string v) @
     enc_ni_service_type_id (ni_umts_cp_notify_verify_req_service_type_id v) @
     be32 (ucast (ni_umts_cp_notify_verify_req_user_response_timer v))"

definition good_ni_umts_cp_notify_verify_req :: "rpc_loc_ni_umts_cp_notify_verify_req_s_type \<Rightarrow> bool" where
  "good_ni_umts_cp_notify_verify_req v \<longleftrightarrow>
     good_opaque 64 (ni_umts_cp_notify_verify_req_notification_text v) \<and>
     good_ni_ext_client_address (ni_umts_cp_notify_verify_req_ext_client_address_data v) \<and>
     good_ni_deferred_location (ni_umts_cp_notify_verify_req_deferred_location v) \<and>
     good_ni_requestor_id (ni_umts_cp_notify_verify_req_requestor_id v) \<and>
     good_ni_codeword_string (ni_umts_cp_notify_verify_req_codeword_string v) \<and>
     good_ni_service_type_id (ni_umts_cp_notify_verify_req_service_type_id v)"

definition enc_ni_vx_service_interaction_req :: "rpc_loc_ni_vx_service_interaction_req_s_type \<Rightarrow> bytes" where
  "enc_ni_vx_service_interaction_req v =
     enc_ni_vx_notify_verify_req (ni_vx_service_interaction_req_ni_vx_req v) @
     be32 (ni_vx_service_interaction_req_service_interation_type v)"

definition good_ni_vx_service_interaction_req :: "rpc_loc_ni_vx_service_interaction_req_s_type \<Rightarrow> bool" where
  "good_ni_vx_service_interaction_req v \<longleftrightarrow>
     good_ni_vx_notify_verify_req (ni_vx_service_interaction_req_ni_vx_req v)"

fun enc_ni_event_payload_u_u :: "rpc_loc_ni_event_payload_u_type_u \<Rightarrow> bytes" where
  "enc_ni_event_payload_u_u ni_event_payload_u_unset = []"
| "enc_ni_event_payload_u_u (ni_event_payload_u_vx_req m) = enc_ni_vx_notify_verify_req m"
| "enc_ni_event_payload_u_u (ni_event_payload_u_supl_req m) = enc_ni_supl_notify_verify_req m"
| "enc_ni_event_payload_u_u (ni_event_payload_u_umts_cp_req m) = enc_ni_umts_cp_notify_verify_req m"
| "enc_ni_event_payload_u_u (ni_event_payload_u_service_interaction_req m) = enc_ni_vx_service_interaction_req m"

definition enc_ni_event_payload_u :: "rpc_loc_ni_event_payload_u_type \<Rightarrow> bytes" where
  "enc_ni_event_payload_u v = be32 (disc v) @ enc_ni_event_payload_u_u (member v)"

definition good_ni_event_payload_u :: "rpc_loc_ni_event_payload_u_type \<Rightarrow> bool" where
  "good_ni_event_payload_u v \<longleftrightarrow>
     (case member v of
         ni_event_payload_u_unset \<Rightarrow> disc v \<notin> {RPC_LOC_NI_EVENT_VX_NOTIFY_VERIFY_REQ, RPC_LOC_NI_EVENT_SUPL_NOTIFY_VERIFY_REQ, RPC_LOC_NI_EVENT_UMTS_CP_NOTIFY_VERIFY_REQ, RPC_LOC_NI_EVENT_VX_SERVICE_INTERACTION_REQ}
       | ni_event_payload_u_vx_req m \<Rightarrow>
           disc v = RPC_LOC_NI_EVENT_VX_NOTIFY_VERIFY_REQ \<and> good_ni_vx_notify_verify_req m
       | ni_event_payload_u_supl_req m \<Rightarrow>
           disc v = RPC_LOC_NI_EVENT_SUPL_NOTIFY_VERIFY_REQ \<and> good_ni_supl_notify_verify_req m
       | ni_event_payload_u_umts_cp_req m \<Rightarrow>
           disc v = RPC_LOC_NI_EVENT_UMTS_CP_NOTIFY_VERIFY_REQ \<and> good_ni_umts_cp_notify_verify_req m
       | ni_event_payload_u_service_interaction_req m \<Rightarrow>
           disc v = RPC_LOC_NI_EVENT_VX_SERVICE_INTERACTION_REQ \<and> good_ni_vx_service_interaction_req m)"

definition enc_ni_event :: "rpc_loc_ni_event_s_type \<Rightarrow> bytes" where
  "enc_ni_event v =
     be32 (ni_event_event v) @ enc_ni_event_payload_u (ni_event_payload v)"

definition good_ni_event :: "rpc_loc_ni_event_s_type \<Rightarrow> bool" where
  "good_ni_event v \<longleftrightarrow>
     good_ni_event_payload_u (ni_event_payload v)"

definition enc_time_download_source :: "rpc_loc_time_download_source_s_type \<Rightarrow> bytes" where
  "enc_time_download_source v =
     be32 (time_download_source_delay_threshold v) @
     enc_list enc_str (time_download_source_servers v)"

definition good_time_download_source :: "(nat \<Rightarrow> bool) \<Rightarrow> rpc_loc_time_download_source_s_type \<Rightarrow> bool" where
  "good_time_download_source al v \<longleftrightarrow>
     length (time_download_source_servers v) = 3 \<and> list_all (good_str al 256) (time_download_source_servers v)"

definition enc_predicted_orbits_data_source :: "rpc_loc_predicted_orbits_data_source_s_type \<Rightarrow> bytes" where
  "enc_predicted_orbits_data_source v =
     be32 (predicted_orbits_data_source_max_file_size v) @
     be32 (predicted_orbits_data_source_max_part_size v) @
     enc_list enc_str (predicted_orbits_data_source_servers v)"

definition good_predicted_orbits_data_source :: "(nat \<Rightarrow> bool) \<Rightarrow> rpc_loc_predicted_orbits_data_source_s_type \<Rightarrow> bool" where
  "good_predicted_orbits_data_source al v \<longleftrightarrow>
     length (predicted_orbits_data_source_servers v) = 3 \<and> list_all (good_str al 256) (predicted_orbits_data_source_servers v)"

fun enc_assist_data_request_payload_u_u :: "rpc_loc_assist_data_request_payload_u_type_u \<Rightarrow> bytes" where
  "enc_assist_data_request_payload_u_u assist_data_request_payload_u_unset = []"
| "enc_assist_data_request_payload_u_u (assist_data_request_payload_u_time_download m) = enc_time_download_source m"
| "enc_assist_data_request_payload_u_u (assist_data_request_payload_u_data_download m) = enc_predicted_orbits_data_source m"

definition enc_assist_data_request_payload_u :: "rpc_loc_assist_data_request_payload_u_type \<Rightarrow> bytes" where
  "enc_assist_data_request_payload_u v = be32 (disc v) @ enc_assist_data_request_payload_u_u (member v)"

definition good_assist_data_request_payload_u :: "(nat \<Rightarrow> bool) \<Rightarrow> rpc_loc_assist_data_request_payload_u_type \<Rightarrow> bool" where
  "good_assist_data_request_payload_u al v \<longleftrightarrow>
     (case member v of
         assist_data_request_payload_u_unset \<Rightarrow> disc v \<notin> {RPC_LOC_ASSIST_DATA_TIME_REQ, RPC_LOC_ASSIST_DATA_PREDICTED_ORBITS_REQ}
       | assist_data_request_payload_u_time_download m \<Rightarrow>
           disc v = RPC_LOC_ASSIST_DATA_TIME_REQ \<and> good_time_download_source al m
       | assist_data_request_payload_u_data_download m \<Rightarrow>
           disc v = RPC_LOC_ASSIST_DATA_PREDICTED_ORBITS_REQ \<and> good_predicted_orbits_data_source al m)"

definition enc_assist_data_request :: "rpc_loc_assist_data_request_s_type \<Rightarrow> bytes" where
  "enc_assist_data_request v =
     be32 (assist_data_request_event v) @
     enc_assist_data_request_payload_u (assist_data_request_payload v)"

definition good_assist_data_request :: "(nat \<Rightarrow> bool) \<Rightarrow> rpc_loc_assist_data_request_s_type \<Rightarrow> bool" where
  "good_assist_data_request al v \<longleftrightarrow>
     good_assist_data_request_payload_u al (assist_data_request_payload v)"

definition enc_server_open_req :: "rpc_loc_server_open_req_s_type \<Rightarrow> bytes" where
  "enc_server_open_req v =
     be32 (server_open_req_conn_handle v) @ be32 (server_open_req_protocol v)"

definition good_server_open_req :: "rpc_loc_server_open_req_s_type \<Rightarrow> bool" where
  "good_server_open_req v \<longleftrightarrow>
     True"

definition enc_server_close_req :: "rpc_loc_server_close_req_s_type \<Rightarrow> bytes" where
  "enc_server_close_req v =
     be32 (server_close_req_conn_handle v)"

definition good_server_close_req :: "rpc_loc_server_close_req_s_type \<Rightarrow> bool" where
  "good_server_close_req v \<longleftrightarrow>
     True"

fun enc_server_request_u_u :: "rpc_loc_server_request_u_type_u \<Rightarrow> bytes" where
  "enc_server_request_u_u server_request_u_unset = []"
| "enc_server_request_u_u (server_request_u_open_req m) = enc_server_open_req m"
| "enc_server_request_u_u (server_request_u_close_req m) = enc_server_close_req m"

definition enc_server_request_u :: "rpc_loc_server_request_u_type \<Rightarrow> bytes" where
  "enc_server_request_u v = be32 (disc v) @ enc_server_request_u_u (member v)"

definition good_server_request_u :: "rpc_loc_server_request_u_type \<Rightarrow> bool" where
  "good_server_request_u v \<longleftrightarrow>
     (case member v of
         server_request_u_unset \<Rightarrow> disc v \<notin> {RPC_LOC_SERVER_REQUEST_OPEN, RPC_LOC_SERVER_REQUEST_CLOSE}
       | server_request_u_open_req m \<Rightarrow>
           disc v = RPC_LOC_SERVER_REQUEST_OPEN \<and> good_server_open_req m
       | server_request_u_close_req m \<Rightarrow>
           disc v = RPC_LOC_SERVER_REQUEST_CLOSE \<and> good_server_close_req m)"

definition enc_server_request :: "rpc_loc_server_request_s_type \<Rightarrow> bytes" where
  "enc_server_request v =
     be32 (server_request_event v) @ enc_server_request_u (server_request_payload v)"

definition good_server_request :: "rpc_loc_server_request_s_type \<Rightarrow> bool" where
  "good_server_request v \<longleftrightarrow>
     good_server_request_u (server_request_payload v)"

definition enc_qwip_request :: "rpc_loc_qwip_request_s_type \<Rightarrow> bytes" where
  "enc_qwip_request v =
     be32 (qwip_request_request_type v) @ be32 (ucast (qwip_request_tbf_ms v))"

definition good_qwip_request :: "rpc_loc_qwip_request_s_type \<Rightarrow> bool" where
  "good_qwip_request v \<longleftrightarrow>
     True"

definition enc_reserved_payload :: "rpc_loc_reserved_payload_s_type \<Rightarrow> bytes" where
  "enc_reserved_payload v =
     be32 (ucast (reserved_payload_data_size v)) @ enc_counted (reserved_payload_data v)"

definition good_reserved_payload :: "(nat \<Rightarrow> bool) \<Rightarrow> rpc_loc_reserved_payload_s_type \<Rightarrow> bool" where
  "good_reserved_payload al v \<longleftrightarrow>
     good_counted al (reserved_payload_data v)"

definition enc_api_version :: "rpc_loc_api_version_s_type \<Rightarrow> bytes" where
  "enc_api_version v =
     be32 (ucast (api_version_major v)) @ be32 (ucast (api_version_minor v))"

definition good_api_version :: "rpc_loc_api_version_s_type \<Rightarrow> bool" where
  "good_api_version v \<longleftrightarrow>
     True"

definition enc_fix_criteria :: "rpc_loc_fix_criteria_s_type \<Rightarrow> bytes" where
  "enc_fix_criteria v =
     be32 (fix_criteria_valid_mask v) @ be32 (fix_criteria_recurrence_type v) @
     be32 (fix_criteria_preferred_operation_mode v) @ be32 (fix_criteria_preferred_accuracy v) @
     be32 (fix_criteria_preferred_response_time v) @
     be32 (fix_criteria_intermediate_pos_report_enabled v) @ be32 (fix_criteria_notify_type v) @
     be32 (fix_criteria_min_interval v) @ be32 (fix_criteria_min_distance v) @
     be32 (fix_criteria_min_dist_sample_interval v)"

definition good_fix_criteria :: "rpc_loc_fix_criteria_s_type \<Rightarrow> bool" where
  "good_fix_criteria v \<longleftrightarrow>
     (fix_criteria_intermediate_pos_report_enabled v = 0 \<or> fix_criteria_intermediate_pos_report_enabled v = 1)"

definition enc_user_verify :: "rpc_loc_user_verify_s_type \<Rightarrow> bytes" where
  "enc_user_verify v =
     be32 (user_verify_user_resp v) @ enc_ni_event (user_verify_ni_event_pass_back v)"

definition good_user_verify :: "rpc_loc_user_verify_s_type \<Rightarrow> bool" where
  "good_user_verify v \<longleftrightarrow>
     good_ni_event (user_verify_ni_event_pass_back v)"

definition enc_predicted_orbits_data :: "rpc_loc_predicted_orbits_data_s_type \<Rightarrow> bytes" where
  "enc_predicted_orbits_data v =
     be32 (predicted_orbits_data_format_type v) @ be32 (predicted_orbits_data_total_size v) @
     be32 (ucast (predicted_orbits_data_total_parts v)) @
     be32 (ucast (predicted_orbits_data_part v)) @ be32 (ucast (predicted_orbits_data_part_len v)) @
     enc_counted (predicted_orbits_data_data_ptr v)"

definition good_predicted_orbits_data :: "(nat \<Rightarrow> bool) \<Rightarrow> rpc_loc_predicted_orbits_data_s_type \<Rightarrow> bool" where
  "good_predicted_orbits_data al v \<longleftrightarrow>
     good_counted al (predicted_orbits_data_data_ptr v)"

definition enc_predicted_orbits_data_validity_report :: "rpc_loc_predicted_orbits_data_validity_report_s_type \<Rightarrow> bytes" where
  "enc_predicted_orbits_data_validity_report v =
     be64 (predicted_orbits_data_validity_report_start_time_utc v) @
     be32 (ucast (predicted_orbits_data_validity_report_valid_duration_hrs v))"

definition good_predicted_orbits_data_validity_report :: "rpc_loc_predicted_orbits_data_validity_report_s_type \<Rightarrow> bool" where
  "good_predicted_orbits_data_validity_report v \<longleftrightarrow>
     True"

definition enc_predicted_orbits_auto_download_config :: "rpc_loc_predicted_orbits_auto_download_config_s_type \<Rightarrow> bytes" where
  "enc_predicted_orbits_auto_download_config v =
     be32 (predicted_orbits_auto_download_config_enable v) @
     be32 (ucast (predicted_orbits_auto_download_config_auto_check_every_hrs v))"

definition good_predicted_orbits_auto_download_config :: "rpc_loc_predicted_orbits_auto_download_config_s_type \<Rightarrow> bool" where
  "good_predicted_orbits_auto_download_config v \<longleftrightarrow>
     (predicted_orbits_auto_download_config_enable v = 0 \<or> predicted_orbits_auto_download_config_enable v = 1)"

definition enc_assist_data_time :: "rpc_loc_assist_data_time_s_type \<Rightarrow> bytes" where
  "enc_assist_data_time v =
     be64 (assist_data_time_time_utc v) @ be32 (assist_data_time_uncertainty v)"

definition good_assist_data_time :: "rpc_loc_assist_data_time_s_type \<Rightarrow> bool" where
  "good_assist_data_time v \<longleftrightarrow>
     True"

definition enc_assist_data_pos :: "rpc_loc_assist_data_pos_s_type \<Rightarrow> bytes" where
  "enc_assist_data_pos v =
     be64 (assist_data_pos_valid_mask v) @ be64 (assist_data_pos_timestamp_utc v) @
     be64 (assist_data_pos_latitude v) @ be64 (assist_data_pos_longitude v) @
     be32 (assist_data_pos_altitude_wrt_ellipsoid v) @
     be32 (assist_data_pos_altitude_wrt_mean_sea_level v) @
     be32 (assist_data_pos_hor_unc_circular v) @ be32 (assist_data_pos_vert_unc v) @
     be32 (ucast (assist_data_pos_confidence_horizontal v)) @
     be32 (ucast (assist_data_pos_confidence_vertical v)) @ be32 (assist_data_pos_timestamp_age v)"

definition good_assist_data_pos :: "rpc_loc_assist_data_pos_s_type \<Rightarrow> bool" where
  "good_assist_data_pos v \<longleftrightarrow>
     True"

definition enc_server_open_status :: "rpc_loc_server_open_status_s_type \<Rightarrow> bytes" where
  "enc_server_open_status v =
     be32 (server_open_status_conn_handle v) @ be32 (server_open_status_open_status v) @
     enc_opaque (server_open_status_apn_name v)"

definition good_server_open_status :: "rpc_loc_server_open_status_s_type \<Rightarrow> bool" where
  "good_server_open_status v \<longleftrightarrow>
     good_opaque 100 (server_open_status_apn_name v)"

definition enc_server_close_status :: "rpc_loc_server_close_status_s_type \<Rightarrow> bytes" where
  "enc_server_close_status v =
     be32 (server_close_status_conn_handle v) @ be32 (server_close_status_close_status v)"

definition good_server_close_status :: "rpc_loc_server_close_status_s_type \<Rightarrow> bool" where
  "good_server_close_status v \<longleftrightarrow>
     True"

definition enc_wiper_fix_time :: "rpc_loc_wiper_fix_time_s_type \<Rightarrow> bytes" where
  "enc_wiper_fix_time v =
     be32 (wiper_fix_time_slow_clock_count v)"

definition good_wiper_fix_time :: "rpc_loc_wiper_fix_time_s_type \<Rightarrow> bool" where
  "good_wiper_fix_time v \<longleftrightarrow>
     True"

definition enc_wiper_fix_pos :: "rpc_loc_wiper_fix_pos_s_type \<Rightarrow> bytes" where
  "enc_wiper_fix_pos v =
     be32 (wiper_fix_pos_lat v) @ be32 (wiper_fix_pos_lon v) @ be32 (ucast (wiper_fix_pos_HEPE v)) @
     be32 (ucast (wiper_fix_pos_num_of_aps_used v)) @ be32 (ucast (wiper_fix_pos_fix_error_code v))"

definition good_wiper_fix_pos :: "rpc_loc_wiper_fix_pos_s_type \<Rightarrow> bool" where
  "good_wiper_fix_pos v \<longleftrightarrow>
     True"

definition enc_wiper_ap_info :: "rpc_loc_wiper_ap_info_s_type \<Rightarrow> bytes" where
  "enc_wiper_ap_info v =
     enc_opaque (wiper_ap_info_mac_addr v) @ be32 (wiper_ap_info_rssi v) @
     be32 (ucast (wiper_ap_info_channel v)) @ be32 (ucast (wiper_ap_info_ap_qualifier v))"

definition good_wiper_ap_info :: "rpc_loc_wiper_ap_info_s_type \<Rightarrow> bool" where
  "good_wiper_ap_info v \<longleftrightarrow>
     good_opaque 6 (wiper_ap_info_mac_addr v)"

definition enc_wiper_ap_set :: "rpc_loc_wiper_ap_set_s_type \<Rightarrow> bytes" where
  "enc_wiper_ap_set v =
     be32 (ucast (wiper_ap_set_num_of_aps v)) @ enc_list enc_wiper_ap_info (wiper_ap_set_ap_info v)"

definition good_wiper_ap_set :: "rpc_loc_wiper_ap_set_s_type \<Rightarrow> bool" where
  "good_wiper_ap_set v \<longleftrightarrow>
     length (wiper_ap_set_ap_info v) = 50 \<and> list_all good_wiper_ap_info (wiper_ap_set_ap_info v)"

definition enc_wiper_position_report :: "rpc_loc_wiper_position_report_s_type \<Rightarrow> bytes" where
  "enc_wiper_position_report v =
     be32 (ucast (wiper_position_report_wiper_valid_info_flag v)) @
     enc_wiper_fix_time (wiper_position_report_wiper_fix_time v) @
     enc_wiper_fix_pos (wiper_position_report_wiper_fix_position v) @
     enc_wiper_ap_set (wiper_position_report_wiper_ap_set v)"

definition good_wiper_position_report :: "rpc_loc_wiper_position_report_s_type \<Rightarrow> bool" where
  "good_wiper_position_report v \<longleftrightarrow>
     good_wiper_fix_time (wiper_position_report_wiper_fix_time v) \<and>
     good_wiper_fix_pos (wiper_position_report_wiper_fix_position v) \<and>
     good_wiper_ap_set (wiper_position_report_wiper_ap_set v)"

definition enc_efs_data :: "rpc_loc_efs_data_s_type \<Rightarrow> bytes" where
  "enc_efs_data v =
     enc_opaque (efs_data_filename v) @ be32 (efs_data_operation v) @ be32 (efs_data_total_size v) @
     enc_counted (efs_data_data_ptr v) @ be32 (efs_data_part_len v) @
     be32 (ucast (efs_data_part v)) @ be32 (ucast (efs_data_total_parts v)) @
     be32 (efs_data_reserved v)"

definition good_efs_data :: "(nat \<Rightarrow> bool) \<Rightarrow> rpc_loc_efs_data_s_type \<Rightarrow> bool" where
  "good_efs_data al v \<longleftrightarrow>
     good_opaque 64 (efs_data_filename v) \<and> good_counted al (efs_data_data_ptr v)"

definition enc_assist_data_delete :: "rpc_loc_assist_data_delete_s_type \<Rightarrow> bytes" where
  "enc_assist_data_delete v =
     be32 (assist_data_delete_type v) @ enc_list be32 (assist_data_delete_reserved v)"

definition good_assist_data_delete :: "rpc_loc_assist_data_delete_s_type \<Rightarrow> bool" where
  "good_assist_data_delete v \<longleftrightarrow>
     length (assist_data_delete_reserved v) = 8"

fun enc_ioctl_data_u_u :: "rpc_loc_ioctl_data_u_type_u \<Rightarrow> bytes" where
  "enc_ioctl_data_u_u ioctl_data_u_unset = []"
| "enc_ioctl_data_u_u (ioctl_data_u_fix_criteria m) = enc_fix_criteria m"
| "enc_ioctl_data_u_u (ioctl_data_u_user_verify_resp m) = enc_user_verify m"
| "enc_ioctl_data_u_u (ioctl_data_u_predicted_orbits_data m) = enc_predicted_orbits_data m"
| "enc_ioctl_data_u_u (ioctl_data_u_predicted_orbits_auto_download m) = enc_predicted_orbits_auto_download_config m"
| "enc_ioctl_data_u_u (ioctl_data_u_assistance_data_time m) = enc_assist_data_time m"
| "enc_ioctl_data_u_u (ioctl_data_u_assistance_data_position m) = enc_assist_data_pos m"
| "enc_ioctl_data_u_u (ioctl_data_u_conn_open_status m) = enc_server_open_status m"
| "enc_ioctl_data_u_u (ioctl_data_u_conn_close_status m) = enc_server_close_status m"
| "enc_ioctl_data_u_u (ioctl_data_u_wiper_pos m) = enc_wiper_position_report m"
| "enc_ioctl_data_u_u (ioctl_data_u_wiper_status m) = be32 m"
| "enc_ioctl_data_u_u (ioctl_data_u_engine_lock m) = be32 m"
| "enc_ioctl_data_u_u (ioctl_data_u_sbas_mode m) = be32 m"
| "enc_ioctl_data_u_u (ioctl_data_u_nmea_types m) = be32 m"
| "enc_ioctl_data_u_u (ioctl_data_u_on_demand_lpm m) = be32 m"
| "enc_ioctl_data_u_u (ioctl_data_u_server_addr m) = enc_server_info m"
| "enc_ioctl_data_u_u (ioctl_data_u_assist_data_delete m) = enc_assist_data_delete m"
| "enc_ioctl_data_u_u (ioctl_data_u_efs_data m) = enc_efs_data m"

definition enc_ioctl_data_u :: "rpc_loc_ioctl_data_u_type \<Rightarrow> bytes" where
  "enc_ioctl_data_u v = be32 (disc v) @ enc_ioctl_data_u_u (member v)"

definition good_ioctl_data_u :: "(nat \<Rightarrow> bool) \<Rightarrow> rpc_loc_ioctl_data_u_type \<Rightarrow> bool" where
  "good_ioctl_data_u al v \<longleftrightarrow>
     (case member v of
         ioctl_data_u_unset \<Rightarrow> disc v \<notin> {RPC_LOC_IOCTL_SET_FIX_CRITERIA, RPC_LOC_IOCTL_INFORM_NI_USER_RESPONSE, RPC_LOC_IOCTL_INJECT_PREDICTED_ORBITS_DATA, RPC_LOC_IOCTL_SET_PREDICTED_ORBITS_DATA_AUTO_DOWNLOAD, RPC_LOC_IOCTL_INJECT_UTC_TIME, RPC_LOC_IOCTL_INJECT_POSITION, RPC_LOC_IOCTL_INFORM_SERVER_OPEN_STATUS, RPC_LOC_IOCTL_INFORM_SERVER_CLOSE_STATUS, RPC_LOC_IOCTL_SEND_WIPER_POSITION_REPORT, RPC_LOC_EVENT_NMEA_1HZ_REPORT, RPC_LOC_IOCTL_NOTIFY_WIPER_STATUS, RPC_LOC_IOCTL_SET_ENGINE_LOCK, RPC_LOC_IOCTL_SET_SBAS_CONFIG, RPC_LOC_IOCTL_SET_NMEA_TYPES, RPC_LOC_IOCTL_SET_ON_DEMAND_LPM, RPC_LOC_IOCTL_SET_CDMA_PDE_SERVER_ADDR, RPC_LOC_IOCTL_SET_CDMA_MPC_SERVER_ADDR, RPC_LOC_IOCTL_SET_UMTS_SLP_SERVER_ADDR, RPC_LOC_IOCTL_SET_CUSTOM_PDE_SERVER_ADDR, RPC_LOC_IOCTL_DELETE_ASSIST_DATA, RPC_LOC_IOCTL_ACCESS_EFS_DATA}
       | ioctl_data_u_fix_criteria m \<Rightarrow>
           disc v = RPC_LOC_IOCTL_SET_FIX_CRITERIA \<and> good_fix_criteria m
       | ioctl_data_u_user_verify_resp m \<Rightarrow>
           disc v = RPC_LOC_IOCTL_INFORM_NI_USER_RESPONSE \<and> good_user_verify m
       | ioctl_data_u_predicted_orbits_data m \<Rightarrow>
           disc v = RPC_LOC_IOCTL_INJECT_PREDICTED_ORBITS_DATA \<and> good_predicted_orbits_data al m
       | ioctl_data_u_predicted_orbits_auto_download m \<Rightarrow>
           disc v = RPC_LOC_IOCTL_SET_PREDICTED_ORBITS_DATA_AUTO_DOWNLOAD \<and> good_predicted_orbits_auto_download_config m
       | ioctl_data_u_assistance_data_time m \<Rightarrow>
           disc v = RPC_LOC_IOCTL_INJECT_UTC_TIME \<and> good_assist_data_time m
       | ioctl_data_u_assistance_data_position m \<Rightarrow>
           disc v = RPC_LOC_IOCTL_INJECT_POSITION \<and> good_assist_data_pos m
       | ioctl_data_u_conn_open_status m \<Rightarrow>
           disc v = RPC_LOC_IOCTL_INFORM_SERVER_OPEN_STATUS \<and> good_server_open_status m
       | ioctl_data_u_conn_close_status m \<Rightarrow>
           disc v = RPC_LOC_IOCTL_INFORM_SERVER_CLOSE_STATUS \<and> good_server_close_status m
       | ioctl_data_u_wiper_pos m \<Rightarrow>
           disc v \<in> {RPC_LOC_IOCTL_SEND_WIPER_POSITION_REPORT, RPC_LOC_EVENT_NMEA_1HZ_REPORT} \<and> good_wiper_position_report m
       | ioctl_data_u_wiper_status m \<Rightarrow>
           disc v = RPC_LOC_IOCTL_NOTIFY_WIPER_STATUS
       | ioctl_data_u_engine_lock m \<Rightarrow>
           disc v = RPC_LOC_IOCTL_SET_ENGINE_LOCK
       | ioctl_data_u_sbas_mode m \<Rightarrow>
           disc v = RPC_LOC_IOCTL_SET_SBAS_CONFIG \<and> (m = 0 \<or> m = 1)
       | ioctl_data_u_nmea_types m \<Rightarrow>
           disc v = RPC_LOC_IOCTL_SET_NMEA_TYPES
       | ioctl_data_u_on_demand_lpm m \<Rightarrow>
           disc v = RPC_LOC_IOCTL_SET_ON_DEMAND_LPM \<and> (m = 0 \<or> m = 1)
       | ioctl_data_u_server_addr m \<Rightarrow>
           disc v \<in> {RPC_LOC_IOCTL_SET_CDMA_PDE_SERVER_ADDR, RPC_LOC_IOCTL_SET_CDMA_MPC_SERVER_ADDR, RPC_LOC_IOCTL_SET_UMTS_SLP_SERVER_ADDR, RPC_LOC_IOCTL_SET_CUSTOM_PDE_SERVER_ADDR} \<and> good_server_info m
       | ioctl_data_u_assist_data_delete m \<Rightarrow>
           disc v = RPC_LOC_IOCTL_DELETE_ASSIST_DATA \<and> good_assist_data_delete m
       | ioctl_data_u_efs_data m \<Rightarrow>
           disc v = RPC_LOC_IOCTL_ACCESS_EFS_DATA \<and> good_efs_data al m)"

fun enc_ioctl_callback_data_u_u :: "rpc_loc_ioctl_callback_data_u_type_u \<Rightarrow> bytes" where
  "enc_ioctl_callback_data_u_u ioctl_callback_data_u_unset = []"
| "enc_ioctl_callback_data_u_u (ioctl_callback_data_u_api_version m) = enc_api_version m"
| "enc_ioctl_callback_data_u_u (ioctl_callback_data_u_fix_criteria m) = enc_fix_criteria m"
| "enc_ioctl_callback_data_u_u (ioctl_callback_data_u_engine_lock m) = be32 m"
| "enc_ioctl_callback_data_u_u (ioctl_callback_data_u_sbas_mode m) = be32 m"
| "enc_ioctl_callback_data_u_u (ioctl_callback_data_u_nmea_types m) = be32 m"
| "enc_ioctl_callback_data_u_u (ioctl_callback_data_u_on_demand_lpm m) = be32 m"
| "enc_ioctl_callback_data_u_u (ioctl_callback_data_u_server_addr m) = enc_server_info m"
| "enc_ioctl_callback_data_u_u (ioctl_callback_data_u_predicted_orbits_data_source m) = enc_predicted_orbits_data_source m"
| "enc_ioctl_callback_data_u_u (ioctl_callback_data_u_predicted_orbits_data_validity m) = enc_predicted_orbits_data_validity_report m"

definition enc_ioctl_callback_data_u :: "rpc_loc_ioctl_callback_data_u_type \<Rightarrow> bytes" where
  "enc_ioctl_callback_data_u v = be32 (disc v) @ enc_ioctl_callback_data_u_u (member v)"

definition good_ioctl_callback_data_u :: "(nat \<Rightarrow> bool) \<Rightarrow> rpc_loc_ioctl_callback_data_u_type \<Rightarrow> bool" where
  "good_ioctl_callback_data_u al v \<longleftrightarrow>
     (case member v of
         ioctl_callback_data_u_unset \<Rightarrow> disc v \<notin> {RPC_LOC_IOCTL_GET_API_VERSION, RPC_LOC_IOCTL_GET_FIX_CRITERIA, RPC_LOC_IOCTL_GET_ENGINE_LOCK, RPC_LOC_IOCTL_GET_SBAS_CONFIG, RPC_LOC_IOCTL_GET_NMEA_TYPES, RPC_LOC_IOCTL_GET_ON_DEMAND_LPM, RPC_LOC_IOCTL_GET_CDMA_PDE_SERVER_ADDR, RPC_LOC_IOCTL_GET_CDMA_MPC_SERVER_ADDR, RPC_LOC_IOCTL_GET_UMTS_SLP_SERVER_ADDR, RPC_LOC_IOCTL_GET_CUSTOM_PDE_SERVER_ADDR, RPC_LOC_IOCTL_QUERY_PREDICTED_ORBITS_DATA_SOURCE, RPC_LOC_IOCTL_QUERY_PREDICTED_ORBITS_DATA_VALIDITY}
       | ioctl_callback_data_u_api_version m \<Rightarrow>
           disc v = RPC_LOC_IOCTL_GET_API_VERSION \<and> good_api_version m
       | ioctl_callback_data_u_fix_criteria m \<Rightarrow>
           disc v = RPC_LOC_IOCTL_GET_FIX_CRITERIA \<and> good_fix_criteria m
       | ioctl_callback_data_u_engine_lock m \<Rightarrow>
           disc v = RPC_LOC_IOCTL_GET_ENGINE_LOCK
       | ioctl_callback_data_u_sbas_mode m \<Rightarrow>
           disc v = RPC_LOC_IOCTL_GET_SBAS_CONFIG \<and> (m = 0 \<or> m = 1)
       | ioctl_callback_data_u_nmea_types m \<Rightarrow>
           disc v = RPC_LOC_IOCTL_GET_NMEA_TYPES
       | ioctl_callback_data_u_on_demand_lpm m \<Rightarrow>
           disc v = RPC_LOC_IOCTL_GET_ON_DEMAND_LPM \<and> (m = 0 \<or> m = 1)
       | ioctl_callback_data_u_server_addr m \<Rightarrow>
           disc v \<in> {RPC_LOC_IOCTL_GET_CDMA_PDE_SERVER_ADDR, RPC_LOC_IOCTL_GET_CDMA_MPC_SERVER_ADDR, RPC_LOC_IOCTL_GET_UMTS_SLP_SERVER_ADDR, RPC_LOC_IOCTL_GET_CUSTOM_PDE_SERVER_ADDR} \<and> good_server_info m
       | ioctl_callback_data_u_predicted_orbits_data_source m \<Rightarrow>
           disc v = RPC_LOC_IOCTL_QUERY_PREDICTED_ORBITS_DATA_SOURCE \<and> good_predicted_orbits_data_source al m
       | ioctl_callback_data_u_predicted_orbits_data_validity m \<Rightarrow>
           disc v = RPC_LOC_IOCTL_QUERY_PREDICTED_ORBITS_DATA_VALIDITY \<and> good_predicted_orbits_data_validity_report m)"

definition enc_ioctl_callback :: "rpc_loc_ioctl_callback_s_type \<Rightarrow> bytes" where
  "enc_ioctl_callback v =
     be32 (ioctl_callback_type v) @ be32 (ioctl_callback_status v) @
     enc_ioctl_callback_data_u (ioctl_callback_data v)"

definition good_ioctl_callback :: "(nat \<Rightarrow> bool) \<Rightarrow> rpc_loc_ioctl_callback_s_type \<Rightarrow> bool" where
  "good_ioctl_callback al v \<longleftrightarrow>
     good_ioctl_callback_data_u al (ioctl_callback_data v)"

fun enc_event_payload_u_u :: "rpc_loc_event_payload_u_type_u \<Rightarrow> bytes" where
  "enc_event_payload_u_u event_payload_u_unset = []"
| "enc_event_payload_u_u (event_payload_u_parsed_location_report m) = enc_parsed_position m"
| "enc_event_payload_u_u (event_payload_u_gnss_report m) = enc_gnss_info m"
| "enc_event_payload_u_u (event_payload_u_nmea_report m) = []"
| "enc_event_payload_u_u (event_payload_u_ni_request m) = enc_ni_event m"
| "enc_event_payload_u_u (event_payload_u_assist_data_request m) = enc_assist_data_request m"
| "enc_event_payload_u_u (event_payload_u_loc_server_request m) = enc_server_request m"
| "enc_event_payload_u_u (event_payload_u_ioctl_report m) = enc_ioctl_callback m"
| "enc_event_payload_u_u (event_payload_u_status_report m) = enc_status_event m"
| "enc_event_payload_u_u (event_payload_u_qwip_request m) = enc_qwip_request m"
| "enc_event_payload_u_u (event_payload_u_reserved m) = enc_reserved_payload m"

definition enc_event_payload_u :: "rpc_loc_event_payload_u_type \<Rightarrow> bytes" where
  "enc_event_payload_u v = be64 (disc v) @ enc_event_payload_u_u (member v)"

definition good_event_payload_u :: "(nat \<Rightarrow> bool) \<Rightarrow> rpc_loc_event_payload_u_type \<Rightarrow> bool" where
  "good_event_payload_u al v \<longleftrightarrow>
     (case member v of
         event_payload_u_unset \<Rightarrow> disc v \<notin> {RPC_LOC_EVENT_PARSED_POSITION_REPORT, RPC_LOC_EVENT_SATELLITE_REPORT, RPC_LOC_EVENT_NMEA_POSITION_REPORT, RPC_LOC_EVENT_NI_NOTIFY_VERIFY_REQUEST, RPC_LOC_EVENT_ASSISTANCE_DATA_REQUEST, RPC_LOC_EVENT_LOCATION_SERVER_REQUEST, RPC_LOC_EVENT_IOCTL_REPORT, RPC_LOC_EVENT_STATUS_REPORT, RPC_LOC_EVENT_WPS_NEEDED_REQUEST, RPC_LOC_EVENT_RESERVED}
       | event_payload_u_parsed_location_report m \<Rightarrow>
           disc v = RPC_LOC_EVENT_PARSED_POSITION_REPORT \<and> good_parsed_position m
       | event_payload_u_gnss_report m \<Rightarrow>
           disc v = RPC_LOC_EVENT_SATELLITE_REPORT \<and> good_gnss_info al m
       | event_payload_u_nmea_report m \<Rightarrow> False
       | event_payload_u_ni_request m \<Rightarrow>
           disc v = RPC_LOC_EVENT_NI_NOTIFY_VERIFY_REQUEST \<and> good_ni_event m
       | event_payload_u_assist_data_request m \<Rightarrow>
           disc v = RPC_LOC_EVENT_ASSISTANCE_DATA_REQUEST \<and> good_assist_data_request al m
       | event_payload_u_loc_server_request m \<Rightarrow>
           disc v = RPC_LOC_EVENT_LOCATION_SERVER_REQUEST \<and> good_server_request m
       | event_payload_u_ioctl_report m \<Rightarrow>
           disc v = RPC_LOC_EVENT_IOCTL_REPORT \<and> good_ioctl_callback al m
       | event_payload_u_status_report m \<Rightarrow>
           disc v = RPC_LOC_EVENT_STATUS_REPORT \<and> good_status_event m
       | event_payload_u_qwip_request m \<Rightarrow>
           disc v = RPC_LOC_EVENT_WPS_NEEDED_REQUEST \<and> good_qwip_request m
       | event_payload_u_reserved m \<Rightarrow>
           disc v = RPC_LOC_EVENT_RESERVED \<and> good_reserved_payload al m)"

definition enc_open_args :: "rpc_loc_open_args \<Rightarrow> bytes" where
  "enc_open_args v =
     be64 (open_args_event_reg_mask v) @ be32 (open_args_event_callback v)"

definition good_open_args :: "rpc_loc_open_args \<Rightarrow> bool" where
  "good_open_args v \<longleftrightarrow>
     True"

definition enc_close_args :: "rpc_loc_close_args \<Rightarrow> bytes" where
  "enc_close_args v =
     be32 (close_args_handle v)"

definition good_close_args :: "rpc_loc_close_args \<Rightarrow> bool" where
  "good_close_args v \<longleftrightarrow>
     True"

definition enc_start_fix_args :: "rpc_loc_start_fix_args \<Rightarrow> bytes" where
  "enc_start_fix_args v =
     be32 (start_fix_args_handle v)"

definition good_start_fix_args :: "rpc_loc_start_fix_args \<Rightarrow> bool" where
  "good_start_fix_args v \<longleftrightarrow>
     True"

definition enc_stop_fix_args :: "rpc_loc_stop_fix_args \<Rightarrow> bytes" where
  "enc_stop_fix_args v =
     be32 (stop_fix_args_handle v)"

definition good_stop_fix_args :: "rpc_loc_stop_fix_args \<Rightarrow> bool" where
  "good_stop_fix_args v \<longleftrightarrow>
     True"

definition enc_ioctl_args :: "rpc_loc_ioctl_args \<Rightarrow> bytes" where
  "enc_ioctl_args v =
     be32 (ioctl_args_handle v) @ be32 (ioctl_args_ioctl_type v) @
     enc_ptr enc_ioctl_data_u (ioctl_args_ioctl_data v)"

definition good_ioctl_args :: "(nat \<Rightarrow> bool) \<Rightarrow> rpc_loc_ioctl_args \<Rightarrow> bool" where
  "good_ioctl_args al v \<longleftrightarrow>
     good_ptr al 832 (good_ioctl_data_u al) (ioctl_args_ioctl_data v)"

definition enc_api_api_version_s_args :: "rpc_loc_api_api_version_s_args \<Rightarrow> bytes" where
  "enc_api_api_version_s_args v =
     be32 (api_api_version_s_args_len_not_null v)"

definition good_api_api_version_s_args :: "rpc_loc_api_api_version_s_args \<Rightarrow> bool" where
  "good_api_api_version_s_args v \<longleftrightarrow>
     (api_api_version_s_args_len_not_null v = 0 \<or> api_api_version_s_args_len_not_null v = 1)"

definition enc_api_rpc_glue_code_info_remote_rets :: "rpc_loc_api_rpc_glue_code_info_remote_rets \<Rightarrow> bytes" where
  "enc_api_rpc_glue_code_info_remote_rets v =
     be32 (api_rpc_glue_code_info_remote_rets_toolvers v) @
     be32 (api_rpc_glue_code_info_remote_rets_features v) @
     be32 (api_rpc_glue_code_info_remote_rets_proghash v) @
     be32 (api_rpc_glue_code_info_remote_rets_cbproghash v)"

definition good_api_rpc_glue_code_info_remote_rets :: "rpc_loc_api_rpc_glue_code_info_remote_rets \<Rightarrow> bool" where
  "good_api_rpc_glue_code_info_remote_rets v \<longleftrightarrow>
     True"

definition enc_open_rets :: "rpc_loc_open_rets \<Rightarrow> bytes" where
  "enc_open_rets v =
     be32 (open_rets_loc_open_result v)"

definition good_open_rets :: "rpc_loc_open_rets \<Rightarrow> bool" where
  "good_open_rets v \<longleftrightarrow>
     True"

definition enc_close_rets :: "rpc_loc_close_rets \<Rightarrow> bytes" where
  "enc_close_rets v =
     be32 (close_rets_loc_close_result v)"

definition good_close_rets :: "rpc_loc_close_rets \<Rightarrow> bool" where
  "good_close_rets v \<longleftrightarrow>
     True"

definition enc_start_fix_rets :: "rpc_loc_start_fix_rets \<Rightarrow> bytes" where
  "enc_start_fix_rets v =
     be32 (start_fix_rets_loc_start_fix_result v)"

definition good_start_fix_rets :: "rpc_loc_start_fix_rets \<Rightarrow> bool" where
  "good_start_fix_rets v \<longleftrightarrow>
     True"

definition enc_stop_fix_rets :: "rpc_loc_stop_fix_rets \<Rightarrow> bytes" where
  "enc_stop_fix_rets v =
     be32 (stop_fix_rets_loc_stop_fix_result v)"

definition good_stop_fix_rets :: "rpc_loc_stop_fix_rets \<Rightarrow> bool" where
  "good_stop_fix_rets v \<longleftrightarrow>
     True"

definition enc_ioctl_rets :: "rpc_loc_ioctl_rets \<Rightarrow> bytes" where
  "enc_ioctl_rets v =
     be32 (ioctl_rets_loc_ioctl_result v)"

definition good_ioctl_rets :: "rpc_loc_ioctl_rets \<Rightarrow> bool" where
  "good_ioctl_rets v \<longleftrightarrow>
     True"

definition enc_api_api_versions_rets :: "rpc_loc_api_api_versions_rets \<Rightarrow> bytes" where
  "enc_api_api_versions_rets v =
     enc_array be32 (api_api_versions_rets_loc_api_api_versions_result v) @
     enc_ptr be32 (api_api_versions_rets_len v)"

definition good_api_api_versions_rets :: "(nat \<Rightarrow> bool) \<Rightarrow> rpc_loc_api_api_versions_rets \<Rightarrow> bool" where
  "good_api_api_versions_rets al v \<longleftrightarrow>
     good_array al 4294967295 4 always (api_api_versions_rets_loc_api_api_versions_result v) \<and>
     good_ptr al 4 always (api_api_versions_rets_len v)"

definition enc_event_cb_f_type_args :: "rpc_loc_event_cb_f_type_args \<Rightarrow> bytes" where
  "enc_event_cb_f_type_args v =
     be32 (event_cb_f_type_args_cb_id v) @ be32 (event_cb_f_type_args_loc_handle v) @
     be64 (event_cb_f_type_args_loc_event v) @
     enc_ptr enc_event_payload_u (event_cb_f_type_args_loc_event_payload v)"

definition good_event_cb_f_type_args :: "(nat \<Rightarrow> bool) \<Rightarrow> rpc_loc_event_cb_f_type_args \<Rightarrow> bool" where
  "good_event_cb_f_type_args al v \<longleftrightarrow>
     good_ptr al 600 (good_event_payload_u al) (event_cb_f_type_args_loc_event_payload v)"

definition enc_event_cb_f_type_rets :: "rpc_loc_event_cb_f_type_rets \<Rightarrow> bytes" where
  "enc_event_cb_f_type_rets v =
     be32 (event_cb_f_type_rets_loc_event_cb_f_type_result v)"

definition good_event_cb_f_type_rets :: "rpc_loc_event_cb_f_type_rets \<Rightarrow> bool" where
  "good_event_cb_f_type_rets v \<longleftrightarrow>
     True"

section \<open>The contracts\<close>

lemmas xdr_alias =
  xdr_rpc_boolean_def xdr_rpc_uint32_def xdr_rpc_uint16_def xdr_rpc_uint8_def xdr_rpc_int32_def
  xdr_rpc_byte_def xdr_rpc_uint64_def xdr_rpc_loc_client_handle_type_def
  xdr_rpc_loc_event_mask_type_def xdr_rpc_loc_position_valid_mask_type_def
  xdr_rpc_loc_pos_technology_mask_type_def xdr_rpc_loc_session_status_e_type_def
  xdr_rpc_loc_sv_system_e_type_def xdr_rpc_loc_sv_status_e_type_def
  xdr_rpc_loc_sv_info_valid_mask_type_def xdr_rpc_loc_gnss_info_valid_mask_type_def
  xdr_rpc_loc_status_event_e_type_def xdr_rpc_loc_engine_state_e_type_def
  xdr_rpc_loc_fix_session_state_e_type_def xdr_rpc_loc_server_addr_e_type_def
  xdr_rpc_loc_ni_notify_verify_e_type_def xdr_rpc_loc_ni_event_e_type_def
  xdr_rpc_loc_ni_datacoding_scheme_e_type_def
  xdr_rpc_loc_ni_vx_requester_id_encoding_scheme_e_type_def xdr_rpc_loc_ni_vx_pos_mode_e_type_def
  xdr_rpc_loc_ni_supl_pos_method_e_type_def xdr_rpc_loc_ni_location_type_e_type_def
  xdr_rpc_loc_ni_service_interaction_e_type_def xdr_rpc_loc_assist_data_request_e_type_def
  xdr_rpc_struct_loc_time_download_source_s_type_servers_ptr_def
  xdr_rpc_struct_loc_time_download_source_s_type_servers_def
  xdr_rpc_struct_loc_predicted_orbits_data_source_s_type_servers_ptr_def
  xdr_rpc_struct_loc_predicted_orbits_data_source_s_type_servers_def
  xdr_rpc_loc_server_connection_handle_def xdr_rpc_loc_server_protocol_e_type_def
  xdr_rpc_loc_server_request_e_type_def xdr_rpc_loc_qwip_request_e_type_def
  xdr_rpc_loc_ioctl_e_type_def xdr_rpc_loc_fix_recurrence_e_type_def
  xdr_rpc_loc_operation_mode_e_type_def xdr_rpc_loc_notify_e_type_def
  xdr_rpc_loc_ni_user_resp_e_type_def xdr_rpc_loc_predicted_orbits_data_format_e_type_def
  xdr_rpc_loc_assist_pos_valid_mask_type_def xdr_rpc_loc_server_open_status_e_type_def
  xdr_rpc_loc_server_close_status_e_type_def xdr_rpc_loc_wiper_status_e_type_def
  xdr_rpc_loc_fs_operation_e_type_def xdr_rpc_loc_lock_e_type_def xdr_rpc_loc_nmea_sentence_type_def
  xdr_rpc_loc_assist_data_type_def xdr_rpc_loc_api_api_versions_return_type_def
  xdr_rpc_loc_event_cb_f_type_def

lemma calendar_time_filter:
  "xdr_filter xdr_rpc_loc_calendar_time_s_type enc_calendar_time good_calendar_time
     (\<lambda>s _. always s)"
  unfolding xdr_rpc_loc_calendar_time_s_type_def xdr_alias
  by (rule run_filter,
      (rule run_cons, rule xdr_filters, simp)+,
      rule run_nil, simp add: enc_calendar_time_def good_calendar_time_def,
      simp,
      rule rpc_loc_calendar_time_s_type.equality; simp)

lemma calendar_time_safe:
  "xdr_safe xdr_rpc_loc_calendar_time_s_type
     (\<lambda>s. always s)"
  unfolding xdr_rpc_loc_calendar_time_s_type_def xdr_alias
  by (rule run_safe_safe,
      (rule safe_cons, rule xdr_safes)+,
      rule safe_nil, simp)

lemma parsed_position_filter:
  "xdr_filter xdr_rpc_loc_parsed_position_s_type enc_parsed_position good_parsed_position
     (\<lambda>s _. always s)"
  unfolding xdr_rpc_loc_parsed_position_s_type_def xdr_alias
  by (rule run_filter,
      (rule run_cons, rule xdr_filters, simp)+,
      rule run_cons, rule calendar_time_filter, simp,
      (rule run_cons, rule xdr_filters, simp)+,
      rule run_nil, simp add: enc_parsed_position_def good_parsed_position_def,
      simp,
      rule rpc_loc_parsed_position_s_type.equality; simp)

lemma parsed_position_safe:
  "xdr_safe xdr_rpc_loc_parsed_position_s_type
     (\<lambda>s. always s)"
  unfolding xdr_rpc_loc_parsed_position_s_type_def xdr_alias
  by (rule run_safe_safe,
      (rule safe_cons, rule xdr_safes)+,
      rule safe_cons, rule calendar_time_safe,
      (rule safe_cons, rule xdr_safes)+,
      rule safe_nil, simp)

lemma sv_info_filter:
  "xdr_filter xdr_rpc_loc_sv_info_s_type enc_sv_info good_sv_info
     (\<lambda>s _. always s)"
  unfolding xdr_rpc_loc_sv_info_s_type_def xdr_alias
  by (rule run_filter,
      (rule run_cons, rule xdr_filters, simp)+,
      rule run_nil, simp add: enc_sv_info_def good_sv_info_def,
      simp,
      rule rpc_loc_sv_info_s_type.equality; simp)

lemma sv_info_safe:
  "xdr_safe xdr_rpc_loc_sv_info_s_type
     (\<lambda>s. always s)"
  unfolding xdr_rpc_loc_sv_info_s_type_def xdr_alias
  by (rule run_safe_safe,
      (rule safe_cons, rule xdr_safes)+,
      rule safe_nil, simp)

lemma gnss_info_filter:
  "xdr_filter (xdr_rpc_loc_gnss_info_s_type al) enc_gnss_info (good_gnss_info al)
     (\<lambda>s _. s = zero_gnss_info)"
  unfolding xdr_rpc_loc_gnss_info_s_type_def xdr_alias
  by (rule run_filter,
      (rule run_cons, rule xdr_filters, simp)+,
      rule run_cons, rule arr_filter, rule sv_info_filter, simp add: zero_sv_info_def, simp, simp,
      rule run_nil, simp add: enc_gnss_info_def good_gnss_info_def,
      simp add: zero_gnss_info_def,
      rule rpc_loc_gnss_info_s_type.equality; simp add: zero_gnss_info_def)

lemma gnss_info_safe:
  "xdr_safe (xdr_rpc_loc_gnss_info_s_type al)
     (\<lambda>s. s = zero_gnss_info)"
  unfolding xdr_rpc_loc_gnss_info_s_type_def xdr_alias
  by (rule run_safe_safe,
      (rule safe_cons, rule xdr_safes)+,
      rule safe_cons, rule arr_safe, rule sv_info_safe, simp add: zero_sv_info_def, simp, simp,
      rule safe_nil, simp add: zero_gnss_info_def)

lemma status_event_payload_u_filter:
  "xdr_filter xdr_rpc_loc_status_event_payload_u_type enc_status_event_payload_u good_status_event_payload_u
     (\<lambda>s _. member s = status_event_payload_u_unset)"
  unfolding xdr_rpc_loc_status_event_payload_u_type_def xdr_alias enc_status_event_payload_u_def [abs_def]
  apply (rule union_filter, rule xdr_filters, erule disc_kept)
  subgoal for v
    by (cases "member v") (auto simp: good_status_event_payload_u_def case_carries_def
        intro!: member_carries [OF xenum.xdr_filter_axioms])
  done

lemma status_event_payload_u_safe:
  "xdr_safe xdr_rpc_loc_status_event_payload_u_type
     (\<lambda>s. member s = status_event_payload_u_unset)"
  unfolding xdr_rpc_loc_status_event_payload_u_type_def xdr_alias
  by (rule union_safe, rule xdr_safes,
      (rule safe_cases_cons, rule member_safe, rule xdr_safes, simp)+,
      rule safe_cases_nil)

lemma status_event_filter:
  "xdr_filter xdr_rpc_loc_status_event_s_type enc_status_event good_status_event
     (\<lambda>s _. s = zero_status_event)"
  unfolding xdr_rpc_loc_status_event_s_type_def xdr_alias
  by (rule run_filter,
      rule run_cons, rule xdr_filters, simp,
      rule run_cons, rule status_event_payload_u_filter, simp,
      rule run_nil, simp add: enc_status_event_def good_status_event_def,
      simp add: zero_status_event_def zero_status_event_payload_u_def,
      rule rpc_loc_status_event_s_type.equality; simp add: zero_status_event_def zero_status_event_payload_u_def)

lemma status_event_safe:
  "xdr_safe xdr_rpc_loc_status_event_s_type
     (\<lambda>s. s = zero_status_event)"
  unfolding xdr_rpc_loc_status_event_s_type_def xdr_alias
  by (rule run_safe_safe,
      rule safe_cons, rule xdr_safes,
      rule safe_cons, rule status_event_payload_u_safe,
      rule safe_nil, simp add: zero_status_event_def zero_status_event_payload_u_def)

lemma server_addr_ipv4_filter:
  "xdr_filter xdr_rpc_loc_server_addr_ipv4_type enc_server_addr_ipv4 good_server_addr_ipv4
     (\<lambda>s _. always s)"
  unfolding xdr_rpc_loc_server_addr_ipv4_type_def xdr_alias
  by (rule run_filter,
      (rule run_cons, rule xdr_filters, simp)+,
      rule run_nil, simp add: enc_server_addr_ipv4_def good_server_addr_ipv4_def,
      simp,
      rule rpc_loc_server_addr_ipv4_type.equality; simp)

lemma server_addr_ipv4_safe:
  "xdr_safe xdr_rpc_loc_server_addr_ipv4_type
     (\<lambda>s. always s)"
  unfolding xdr_rpc_loc_server_addr_ipv4_type_def xdr_alias
  by (rule run_safe_safe,
      (rule safe_cons, rule xdr_safes)+,
      rule safe_nil, simp)

lemma server_addr_url_filter:
  "xdr_filter xdr_rpc_loc_server_addr_url_type enc_server_addr_url good_server_addr_url
     (\<lambda>s _. s = zero_server_addr_url)"
  unfolding xdr_rpc_loc_server_addr_url_type_def xdr_alias
  by (rule run_filter,
      rule run_cons, rule xdr_filters, simp,
      rule run_cons, rule opaque_filter, simp,
      rule run_nil, simp add: enc_server_addr_url_def good_server_addr_url_def,
      simp add: zero_server_addr_url_def,
      rule rpc_loc_server_addr_url_type.equality; simp add: zero_server_addr_url_def)

lemma server_addr_url_safe:
  "xdr_safe xdr_rpc_loc_server_addr_url_type
     (\<lambda>s. s = zero_server_addr_url)"
  unfolding xdr_rpc_loc_server_addr_url_type_def xdr_alias
  by (rule run_safe_safe,
      rule safe_cons, rule xdr_safes,
      rule safe_cons, rule opaque_zero_safe, simp,
      rule safe_nil, simp add: zero_server_addr_url_def)

lemma server_addr_u_filter:
  "xdr_filter xdr_rpc_loc_server_addr_u_type enc_server_addr_u good_server_addr_u
     (\<lambda>s _. member s = server_addr_u_unset)"
  unfolding xdr_rpc_loc_server_addr_u_type_def xdr_alias enc_server_addr_u_def [abs_def]
  apply (rule union_filter, rule xdr_filters, erule disc_kept)
  subgoal for v
    by (cases "member v") (auto simp: good_server_addr_u_def case_carries_def
        intro!: member_carries [OF server_addr_ipv4_filter]
          member_carries [OF server_addr_url_filter])
  done

lemma server_addr_u_safe:
  "xdr_safe xdr_rpc_loc_server_addr_u_type
     (\<lambda>s. member s = server_addr_u_unset)"
  unfolding xdr_rpc_loc_server_addr_u_type_def xdr_alias
  by (rule union_safe, rule xdr_safes,
      rule safe_cases_cons, rule member_safe, rule server_addr_ipv4_safe, simp,
      rule safe_cases_cons, rule member_safe, rule server_addr_url_safe, simp,
      rule safe_cases_nil)

lemma server_info_filter:
  "xdr_filter xdr_rpc_loc_server_info_s_type enc_server_info good_server_info
     (\<lambda>s _. s = zero_server_info)"
  unfolding xdr_rpc_loc_server_info_s_type_def xdr_alias
  by (rule run_filter,
      rule run_cons, rule xdr_filters, simp,
      rule run_cons, rule server_addr_u_filter, simp,
      rule run_nil, simp add: enc_server_info_def good_server_info_def,
      simp add: zero_server_info_def zero_server_addr_u_def,
      rule rpc_loc_server_info_s_type.equality; simp add: zero_server_info_def zero_server_addr_u_def)

lemma server_info_safe:
  "xdr_safe xdr_rpc_loc_server_info_s_type
     (\<lambda>s. s = zero_server_info)"
  unfolding xdr_rpc_loc_server_info_s_type_def xdr_alias
  by (rule run_safe_safe,
      rule safe_cons, rule xdr_safes,
      rule safe_cons, rule server_addr_u_safe,
      rule safe_nil, simp add: zero_server_info_def zero_server_addr_u_def)

lemma ni_vx_requester_id_filter:
  "xdr_filter xdr_rpc_loc_ni_vx_requester_id_s_type enc_ni_vx_requester_id good_ni_vx_requester_id
     (\<lambda>s _. s = zero_ni_vx_requester_id)"
  unfolding xdr_rpc_loc_ni_vx_requester_id_s_type_def xdr_alias
  by (rule run_filter,
      rule run_cons, rule xdr_filters, simp,
      rule run_cons, rule opaque_filter, simp,
      rule run_nil, simp add: enc_ni_vx_requester_id_def good_ni_vx_requester_id_def,
      simp add: zero_ni_vx_requester_id_def,
      rule rpc_loc_ni_vx_requester_id_s_type.equality; simp add: zero_ni_vx_requester_id_def)

lemma ni_vx_requester_id_safe:
  "xdr_safe xdr_rpc_loc_ni_vx_requester_id_s_type
     (\<lambda>s. s = zero_ni_vx_requester_id)"
  unfolding xdr_rpc_loc_ni_vx_requester_id_s_type_def xdr_alias
  by (rule run_safe_safe,
      rule safe_cons, rule xdr_safes,
      rule safe_cons, rule opaque_zero_safe, simp,
      rule safe_nil, simp add: zero_ni_vx_requester_id_def)

lemma ni_vx_notify_verify_req_filter:
  "xdr_filter xdr_rpc_loc_ni_vx_notify_verify_req_s_type enc_ni_vx_notify_verify_req good_ni_vx_notify_verify_req
     (\<lambda>s _. s = zero_ni_vx_notify_verify_req)"
  unfolding xdr_rpc_loc_ni_vx_notify_verify_req_s_type_def xdr_alias
  by (rule run_filter,
      (rule run_cons, rule xdr_filters, simp)+,
      rule run_cons, rule ni_vx_requester_id_filter, simp,
      rule run_cons, rule xdr_filters, simp,
      rule run_nil, simp add: enc_ni_vx_notify_verify_req_def good_ni_vx_notify_verify_req_def,
      simp add: zero_ni_vx_notify_verify_req_def,
      rule rpc_loc_ni_vx_notify_verify_req_s_type.equality; simp add: zero_ni_vx_notify_verify_req_def)

lemma ni_vx_notify_verify_req_safe:
  "xdr_safe xdr_rpc_loc_ni_vx_notify_verify_req_s_type
     (\<lambda>s. s = zero_ni_vx_notify_verify_req)"
  unfolding xdr_rpc_loc_ni_vx_notify_verify_req_s_type_def xdr_alias
  by (rule run_safe_safe,
      (rule safe_cons, rule xdr_safes)+,
      rule safe_cons, rule ni_vx_requester_id_safe,
      rule safe_cons, rule xdr_safes,
      rule safe_nil, simp add: zero_ni_vx_notify_verify_req_def)

lemma ni_supl_slp_session_id_filter:
  "xdr_filter xdr_rpc_loc_ni_supl_slp_session_id_s_type enc_ni_supl_slp_session_id good_ni_supl_slp_session_id
     (\<lambda>s _. s = zero_ni_supl_slp_session_id)"
  unfolding xdr_rpc_loc_ni_supl_slp_session_id_s_type_def xdr_alias
  by (rule run_filter,
      rule run_cons, rule xdr_filters, simp,
      rule run_cons, rule opaque_filter, simp,
      rule run_cons, rule server_info_filter, simp,
      rule run_nil, simp add: enc_ni_supl_slp_session_id_def good_ni_supl_slp_session_id_def,
      simp add: zero_ni_supl_slp_session_id_def,
      rule rpc_loc_ni_supl_slp_session_id_s_type.equality; simp add: zero_ni_supl_slp_session_id_def)

lemma ni_supl_slp_session_id_safe:
  "xdr_safe xdr_rpc_loc_ni_supl_slp_session_id_s_type
     (\<lambda>s. s = zero_ni_supl_slp_session_id)"
  unfolding xdr_rpc_loc_ni_supl_slp_session_id_s_type_def xdr_alias
  by (rule run_safe_safe,
      rule safe_cons, rule xdr_safes,
      rule safe_cons, rule opaque_zero_safe, simp,
      rule safe_cons, rule server_info_safe,
      rule safe_nil, simp add: zero_ni_supl_slp_session_id_def)

lemma ni_requestor_id_filter:
  "xdr_filter xdr_rpc_loc_ni_requestor_id_s_type enc_ni_requestor_id good_ni_requestor_id
     (\<lambda>s _. s = zero_ni_requestor_id)"
  unfolding xdr_rpc_loc_ni_requestor_id_s_type_def xdr_alias
  by (rule run_filter,
      rule run_cons, rule xdr_filters, simp,
      rule run_cons, rule opaque_filter, simp,
      rule run_cons, rule xdr_filters, simp,
      rule run_nil, simp add: enc_ni_requestor_id_def good_ni_requestor_id_def,
      simp add: zero_ni_requestor_id_def,
      rule rpc_loc_ni_requestor_id_s_type.equality; simp add: zero_ni_requestor_id_def)

lemma ni_requestor_id_safe:
  "xdr_safe xdr_rpc_loc_ni_requestor_id_s_type
     (\<lambda>s. s = zero_ni_requestor_id)"
  unfolding xdr_rpc_loc_ni_requestor_id_s_type_def xdr_alias
  by (rule run_safe_safe,
      rule safe_cons, rule xdr_safes,
      rule safe_cons, rule opaque_zero_safe, simp,
      rule safe_cons, rule xdr_safes,
      rule safe_nil, simp add: zero_ni_requestor_id_def)

lemma ni_supl_client_name_filter:
  "xdr_filter xdr_rpc_loc_ni_supl_client_name_s_type enc_ni_supl_client_name good_ni_supl_client_name
     (\<lambda>s _. s = zero_ni_supl_client_name)"
  unfolding xdr_rpc_loc_ni_supl_client_name_s_type_def xdr_alias
  by (rule run_filter,
      rule run_cons, rule xdr_filters, simp,
      rule run_cons, rule opaque_filter, simp,
      rule run_cons, rule xdr_filters, simp,
      rule run_nil, simp add: enc_ni_supl_client_name_def good_ni_supl_client_name_def,
      simp add: zero_ni_supl_client_name_def,
      rule rpc_loc_ni_supl_client_name_s_type.equality; simp add: zero_ni_supl_client_name_def)

lemma ni_supl_client_name_safe:
  "xdr_safe xdr_rpc_loc_ni_supl_client_name_s_type
     (\<lambda>s. s = zero_ni_supl_client_name)"
  unfolding xdr_rpc_loc_ni_supl_client_name_s_type_def xdr_alias
  by (rule run_safe_safe,
      rule safe_cons, rule xdr_safes,
      rule safe_cons, rule opaque_zero_safe, simp,
      rule safe_cons, rule xdr_safes,
      rule safe_nil, simp add: zero_ni_supl_client_name_def)

lemma ni_supl_qop_filter:
  "xdr_filter xdr_rpc_loc_ni_supl_qop_s_type enc_ni_supl_qop good_ni_supl_qop
     (\<lambda>s _. always s)"
  unfolding xdr_rpc_loc_ni_supl_qop_s_type_def xdr_alias
  by (rule run_filter,
      (rule run_cons, rule xdr_filters, simp)+,
      rule run_nil, simp add: enc_ni_supl_qop_def good_ni_supl_qop_def,
      simp,
      rule rpc_loc_ni_supl_qop_s_type.equality; simp)

lemma ni_supl_qop_safe:
  "xdr_safe xdr_rpc_loc_ni_supl_qop_s_type
     (\<lambda>s. always s)"
  unfolding xdr_rpc_loc_ni_supl_qop_s_type_def xdr_alias
  by (rule run_safe_safe,
      (rule safe_cons, rule xdr_safes)+,
      rule safe_nil, simp)

lemma ni_supl_notify_verify_req_filter:
  "xdr_filter xdr_rpc_loc_ni_supl_notify_verify_req_s_type enc_ni_supl_notify_verify_req good_ni_supl_notify_verify_req
     (\<lambda>s _. s = zero_ni_supl_notify_verify_req)"
  unfolding xdr_rpc_loc_ni_supl_notify_verify_req_s_type_def xdr_alias
  by (rule run_filter,
      (rule run_cons, rule xdr_filters, simp)+,
      rule run_cons, rule ni_supl_slp_session_id_filter, simp,
      rule run_cons, rule opaque_filter, simp,
      (rule run_cons, rule xdr_filters, simp)+,
      rule run_cons, rule ni_requestor_id_filter, simp,
      rule run_cons, rule ni_supl_client_name_filter, simp,
      rule run_cons, rule ni_supl_qop_filter, simp,
      rule run_cons, rule xdr_filters, simp,
      rule run_nil, simp add: enc_ni_supl_notify_verify_req_def good_ni_supl_notify_verify_req_def,
      simp add: zero_ni_supl_notify_verify_req_def,
      rule rpc_loc_ni_supl_notify_verify_req_s_type.equality; simp add: zero_ni_supl_notify_verify_req_def)

lemma ni_supl_notify_verify_req_safe:
  "xdr_safe xdr_rpc_loc_ni_supl_notify_verify_req_s_type
     (\<lambda>s. s = zero_ni_supl_notify_verify_req)"
  unfolding xdr_rpc_loc_ni_supl_notify_verify_req_s_type_def xdr_alias
  by (rule run_safe_safe,
      (rule safe_cons, rule xdr_safes)+,
      rule safe_cons, rule ni_supl_slp_session_id_safe,
      rule safe_cons, rule opaque_zero_safe, simp,
      (rule safe_cons, rule xdr_safes)+,
      rule safe_cons, rule ni_requestor_id_safe,
      rule safe_cons, rule ni_supl_client_name_safe,
      rule safe_cons, rule ni_supl_qop_safe,
      rule safe_cons, rule xdr_safes,
      rule safe_nil, simp add: zero_ni_supl_notify_verify_req_def)

lemma ni_ext_client_address_filter:
  "xdr_filter xdr_rpc_loc_ni_ext_client_address_s_type enc_ni_ext_client_address good_ni_ext_client_address
     (\<lambda>s _. s = zero_ni_ext_client_address)"
  unfolding xdr_rpc_loc_ni_ext_client_address_s_type_def xdr_alias
  by (rule run_filter,
      rule run_cons, rule xdr_filters, simp,
      rule run_cons, rule opaque_filter, simp,
      rule run_nil, simp add: enc_ni_ext_client_address_def good_ni_ext_client_address_def,
      simp add: zero_ni_ext_client_address_def,
      rule rpc_loc_ni_ext_client_address_s_type.equality; simp add: zero_ni_ext_client_address_def)

lemma ni_ext_client_address_safe:
  "xdr_safe xdr_rpc_loc_ni_ext_client_address_s_type
     (\<lambda>s. s = zero_ni_ext_client_address)"
  unfolding xdr_rpc_loc_ni_ext_client_address_s_type_def xdr_alias
  by (rule run_safe_safe,
      rule safe_cons, rule xdr_safes,
      rule safe_cons, rule opaque_zero_safe, simp,
      rule safe_nil, simp add: zero_ni_ext_client_address_def)

lemma ni_deferred_location_filter:
  "xdr_filter xdr_rpc_loc_ni_deferred_location_s_type enc_ni_deferred_location good_ni_deferred_location
     (\<lambda>s _. always s)"
  unfolding xdr_rpc_loc_ni_deferred_location_s_type_def xdr_alias
  by (rule run_filter,
      (rule run_cons, rule xdr_filters, simp)+,
      rule run_nil, simp add: enc_ni_deferred_location_def good_ni_deferred_location_def,
      simp,
      rule rpc_loc_ni_deferred_location_s_type.equality; simp)

lemma ni_deferred_location_safe:
  "xdr_safe xdr_rpc_loc_ni_deferred_location_s_type
     (\<lambda>s. always s)"
  unfolding xdr_rpc_loc_ni_deferred_location_s_type_def xdr_alias
  by (rule run_safe_safe,
      (rule safe_cons, rule xdr_safes)+,
      rule safe_nil, simp)

lemma ni_codeword_string_filter:
  "xdr_filter xdr_rpc_loc_ni_codeword_string_s_type enc_ni_codeword_string good_ni_codeword_string
     (\<lambda>s _. s = zero_ni_codeword_string)"
  unfolding xdr_rpc_loc_ni_codeword_string_s_type_def xdr_alias
  by (rule run_filter,
      rule run_cons, rule xdr_filters, simp,
      rule run_cons, rule opaque_filter, simp,
      rule run_cons, rule xdr_filters, simp,
      rule run_nil, simp add: enc_ni_codeword_string_def good_ni_codeword_string_def,
      simp add: zero_ni_codeword_string_def,
      rule rpc_loc_ni_codeword_string_s_type.equality; simp add: zero_ni_codeword_string_def)

lemma ni_codeword_string_safe:
  "xdr_safe xdr_rpc_loc_ni_codeword_string_s_type
     (\<lambda>s. s = zero_ni_codeword_string)"
  unfolding xdr_rpc_loc_ni_codeword_string_s_type_def xdr_alias
  by (rule run_safe_safe,
      rule safe_cons, rule xdr_safes,
      rule safe_cons, rule opaque_zero_safe, simp,
      rule safe_cons, rule xdr_safes,
      rule safe_nil, simp add: zero_ni_codeword_string_def)

lemma ni_service_type_id_filter:
  "xdr_filter xdr_rpc_loc_ni_service_type_id_s_type enc_ni_service_type_id good_ni_service_type_id
     (\<lambda>s _. always s)"
  unfolding xdr_rpc_loc_ni_service_type_id_s_type_def xdr_alias
  by (rule run_filter,
      rule run_cons, rule xdr_filters, simp,
      rule run_nil, simp add: enc_ni_service_type_id_def good_ni_service_type_id_def,
      simp,
      rule rpc_loc_ni_service_type_id_s_type.equality; simp)

lemma ni_service_type_id_safe:
  "xdr_safe xdr_rpc_loc_ni_service_type_id_s_type
     (\<lambda>s. always s)"
  unfolding xdr_rpc_loc_ni_service_type_id_s_type_def xdr_alias
  by (rule run_safe_safe,
      rule safe_cons, rule xdr_safes,
      rule safe_nil, simp)

lemma ni_umts_cp_notify_verify_req_filter:
  "xdr_filter xdr_rpc_loc_ni_umts_cp_notify_verify_req_s_type enc_ni_umts_cp_notify_verify_req good_ni_umts_cp_notify_verify_req
     (\<lambda>s _. s = zero_ni_umts_cp_notify_verify_req)"
  unfolding xdr_rpc_loc_ni_umts_cp_notify_verify_req_s_type_def xdr_alias
  by (rule run_filter,
      (rule run_cons, rule xdr_filters, simp)+,
      rule run_cons, rule opaque_filter, simp,
      rule run_cons, rule xdr_filters, simp,
      rule run_cons, rule ni_ext_client_address_filter, simp,
      rule run_cons, rule xdr_filters, simp,
      rule run_cons, rule ni_deferred_location_filter, simp,
      rule run_cons, rule ni_requestor_id_filter, simp,
      rule run_cons, rule ni_codeword_string_filter, simp,
      rule run_cons, rule ni_service_type_id_filter, simp,
      rule run_cons, rule xdr_filters, simp,
      rule run_nil, simp add: enc_ni_umts_cp_notify_verify_req_def good_ni_umts_cp_notify_verify_req_def,
      simp add: zero_ni_umts_cp_notify_verify_req_def,
      rule rpc_loc_ni_umts_cp_notify_verify_req_s_type.equality; simp add: zero_ni_umts_cp_notify_verify_req_def)

lemma ni_umts_cp_notify_verify_req_safe:
  "xdr_safe xdr_rpc_loc_ni_umts_cp_notify_verify_req_s_type
     (\<lambda>s. s = zero_ni_umts_cp_notify_verify_req)"
  unfolding xdr_rpc_loc_ni_umts_cp_notify_verify_req_s_type_def xdr_alias
  by (rule run_safe_safe,
      (rule safe_cons, rule xdr_safes)+,
      rule safe_cons, rule opaque_zero_safe, simp,
      rule safe_cons, rule xdr_safes,
      rule safe_cons, rule ni_ext_client_address_safe,
      rule safe_cons, rule xdr_safes,
      rule safe_cons, rule ni_deferred_location_safe,
      rule safe_cons, rule ni_requestor_id_safe,
      rule safe_cons, rule ni_codeword_string_safe,
      rule safe_cons, rule ni_service_type_id_safe,
      rule safe_cons, rule xdr_safes,
      rule safe_nil, simp add: zero_ni_umts_cp_notify_verify_req_def)

lemma ni_vx_service_interaction_req_filter:
  "xdr_filter xdr_rpc_loc_ni_vx_service_interaction_req_s_type enc_ni_vx_service_interaction_req good_ni_vx_service_interaction_req
     (\<lambda>s _. s = zero_ni_vx_service_interaction_req)"
  unfolding xdr_rpc_loc_ni_vx_service_interaction_req_s_type_def xdr_alias
  by (rule run_filter,
      rule run_cons, rule ni_vx_notify_verify_req_filter, simp,
      rule run_cons, rule xdr_filters, simp,
      rule run_nil, simp add: enc_ni_vx_service_interaction_req_def good_ni_vx_service_interaction_req_def,
      simp add: zero_ni_vx_service_interaction_req_def,
      rule rpc_loc_ni_vx_service_interaction_req_s_type.equality; simp add: zero_ni_vx_service_interaction_req_def)

lemma ni_vx_service_interaction_req_safe:
  "xdr_safe xdr_rpc_loc_ni_vx_service_interaction_req_s_type
     (\<lambda>s. s = zero_ni_vx_service_interaction_req)"
  unfolding xdr_rpc_loc_ni_vx_service_interaction_req_s_type_def xdr_alias
  by (rule run_safe_safe,
      rule safe_cons, rule ni_vx_notify_verify_req_safe,
      rule safe_cons, rule xdr_safes,
      rule safe_nil, simp add: zero_ni_vx_service_interaction_req_def)

lemma ni_event_payload_u_filter:
  "xdr_filter xdr_rpc_loc_ni_event_payload_u_type enc_ni_event_payload_u good_ni_event_payload_u
     (\<lambda>s _. member s = ni_event_payload_u_unset)"
  unfolding xdr_rpc_loc_ni_event_payload_u_type_def xdr_alias enc_ni_event_payload_u_def [abs_def]
  apply (rule union_filter, rule xdr_filters, erule disc_kept)
  subgoal for v
    by (cases "member v") (auto simp: good_ni_event_payload_u_def case_carries_def
        intro!: member_carries [OF ni_vx_notify_verify_req_filter]
          member_carries [OF ni_supl_notify_verify_req_filter]
          member_carries [OF ni_umts_cp_notify_verify_req_filter]
          member_carries [OF ni_vx_service_interaction_req_filter])
  done

lemma ni_event_payload_u_safe:
  "xdr_safe xdr_rpc_loc_ni_event_payload_u_type
     (\<lambda>s. member s = ni_event_payload_u_unset)"
  unfolding xdr_rpc_loc_ni_event_payload_u_type_def xdr_alias
  by (rule union_safe, rule xdr_safes,
      rule safe_cases_cons, rule member_safe, rule ni_vx_notify_verify_req_safe, simp,
      rule safe_cases_cons, rule member_safe, rule ni_supl_notify_verify_req_safe, simp,
      rule safe_cases_cons, rule member_safe, rule ni_umts_cp_notify_verify_req_safe, simp,
      rule safe_cases_cons, rule member_safe, rule ni_vx_service_interaction_req_safe, simp,
      rule safe_cases_nil)

lemma ni_event_filter:
  "xdr_filter xdr_rpc_loc_ni_event_s_type enc_ni_event good_ni_event
     (\<lambda>s _. s = zero_ni_event)"
  unfolding xdr_rpc_loc_ni_event_s_type_def xdr_alias
  by (rule run_filter,
      rule run_cons, rule xdr_filters, simp,
      rule run_cons, rule ni_event_payload_u_filter, simp,
      rule run_nil, simp add: enc_ni_event_def good_ni_event_def,
      simp add: zero_ni_event_def zero_ni_event_payload_u_def,
      rule rpc_loc_ni_event_s_type.equality; simp add: zero_ni_event_def zero_ni_event_payload_u_def)

lemma ni_event_safe:
  "xdr_safe xdr_rpc_loc_ni_event_s_type
     (\<lambda>s. s = zero_ni_event)"
  unfolding xdr_rpc_loc_ni_event_s_type_def xdr_alias
  by (rule run_safe_safe,
      rule safe_cons, rule xdr_safes,
      rule safe_cons, rule ni_event_payload_u_safe,
      rule safe_nil, simp add: zero_ni_event_def zero_ni_event_payload_u_def)

lemma time_download_source_filter:
  "xdr_filter (xdr_rpc_loc_time_download_source_s_type al) enc_time_download_source (good_time_download_source al)
     (\<lambda>s _. s = zero_time_download_source)"
  unfolding xdr_rpc_loc_time_download_source_s_type_def xdr_alias
  by (rule run_filter,
      rule run_cons, rule xdr_filters, simp,
      rule run_cons, rule vec_filter, rule str_filter, simp, rule refl, simp,
      rule run_nil, simp add: enc_time_download_source_def good_time_download_source_def list_all_iff,
      simp add: zero_time_download_source_def zero_struct_loc_time_download_source_s_type_servers_def,
      rule rpc_loc_time_download_source_s_type.equality; simp add: zero_time_download_source_def zero_struct_loc_time_download_source_s_type_servers_def)

lemma time_download_source_safe:
  "xdr_safe (xdr_rpc_loc_time_download_source_s_type al)
     (\<lambda>s. s = zero_time_download_source)"
  unfolding xdr_rpc_loc_time_download_source_s_type_def xdr_alias
  by (rule run_safe_safe,
      rule safe_cons, rule xdr_safes,
      rule safe_cons, rule vec_safe, rule str_safe, simp, rule refl,
      rule safe_nil, simp add: zero_time_download_source_def zero_struct_loc_time_download_source_s_type_servers_def)

lemma predicted_orbits_data_source_filter:
  "xdr_filter (xdr_rpc_loc_predicted_orbits_data_source_s_type al) enc_predicted_orbits_data_source (good_predicted_orbits_data_source al)
     (\<lambda>s _. s = zero_predicted_orbits_data_source)"
  unfolding xdr_rpc_loc_predicted_orbits_data_source_s_type_def xdr_alias
  by (rule run_filter,
      (rule run_cons, rule xdr_filters, simp)+,
      rule run_cons, rule vec_filter, rule str_filter, simp, rule refl, simp,
      rule run_nil, simp add: enc_predicted_orbits_data_source_def good_predicted_orbits_data_source_def list_all_iff,
      simp add: zero_predicted_orbits_data_source_def zero_struct_loc_predicted_orbits_data_source_s_type_servers_def,
      rule rpc_loc_predicted_orbits_data_source_s_type.equality; simp add: zero_predicted_orbits_data_source_def zero_struct_loc_predicted_orbits_data_source_s_type_servers_def)

lemma predicted_orbits_data_source_safe:
  "xdr_safe (xdr_rpc_loc_predicted_orbits_data_source_s_type al)
     (\<lambda>s. s = zero_predicted_orbits_data_source)"
  unfolding xdr_rpc_loc_predicted_orbits_data_source_s_type_def xdr_alias
  by (rule run_safe_safe,
      (rule safe_cons, rule xdr_safes)+,
      rule safe_cons, rule vec_safe, rule str_safe, simp, rule refl,
      rule safe_nil, simp add: zero_predicted_orbits_data_source_def zero_struct_loc_predicted_orbits_data_source_s_type_servers_def)

lemma assist_data_request_payload_u_filter:
  "xdr_filter (xdr_rpc_loc_assist_data_request_payload_u_type al) enc_assist_data_request_payload_u (good_assist_data_request_payload_u al)
     (\<lambda>s _. member s = assist_data_request_payload_u_unset)"
  unfolding xdr_rpc_loc_assist_data_request_payload_u_type_def xdr_alias enc_assist_data_request_payload_u_def [abs_def]
  apply (rule union_filter, rule xdr_filters, erule disc_kept)
  subgoal for v
    by (cases "member v") (auto simp: good_assist_data_request_payload_u_def case_carries_def
        intro!: member_carries [OF time_download_source_filter]
          member_carries [OF predicted_orbits_data_source_filter])
  done

lemma assist_data_request_payload_u_safe:
  "xdr_safe (xdr_rpc_loc_assist_data_request_payload_u_type al)
     (\<lambda>s. member s = assist_data_request_payload_u_unset)"
  unfolding xdr_rpc_loc_assist_data_request_payload_u_type_def xdr_alias
  by (rule union_safe, rule xdr_safes,
      rule safe_cases_cons, rule member_safe, rule time_download_source_safe, simp,
      rule safe_cases_cons, rule member_safe, rule predicted_orbits_data_source_safe, simp,
      rule safe_cases_nil)

lemma assist_data_request_filter:
  "xdr_filter (xdr_rpc_loc_assist_data_request_s_type al) enc_assist_data_request (good_assist_data_request al)
     (\<lambda>s _. s = zero_assist_data_request)"
  unfolding xdr_rpc_loc_assist_data_request_s_type_def xdr_alias
  by (rule run_filter,
      rule run_cons, rule xdr_filters, simp,
      rule run_cons, rule assist_data_request_payload_u_filter, simp,
      rule run_nil, simp add: enc_assist_data_request_def good_assist_data_request_def,
      simp add: zero_assist_data_request_def zero_assist_data_request_payload_u_def,
      rule rpc_loc_assist_data_request_s_type.equality; simp add: zero_assist_data_request_def zero_assist_data_request_payload_u_def)

lemma assist_data_request_safe:
  "xdr_safe (xdr_rpc_loc_assist_data_request_s_type al)
     (\<lambda>s. s = zero_assist_data_request)"
  unfolding xdr_rpc_loc_assist_data_request_s_type_def xdr_alias
  by (rule run_safe_safe,
      rule safe_cons, rule xdr_safes,
      rule safe_cons, rule assist_data_request_payload_u_safe,
      rule safe_nil, simp add: zero_assist_data_request_def zero_assist_data_request_payload_u_def)

lemma server_open_req_filter:
  "xdr_filter xdr_rpc_loc_server_open_req_s_type enc_server_open_req good_server_open_req
     (\<lambda>s _. always s)"
  unfolding xdr_rpc_loc_server_open_req_s_type_def xdr_alias
  by (rule run_filter,
      (rule run_cons, rule xdr_filters, simp)+,
      rule run_nil, simp add: enc_server_open_req_def good_server_open_req_def,
      simp,
      rule rpc_loc_server_open_req_s_type.equality; simp)

lemma server_open_req_safe:
  "xdr_safe xdr_rpc_loc_server_open_req_s_type
     (\<lambda>s. always s)"
  unfolding xdr_rpc_loc_server_open_req_s_type_def xdr_alias
  by (rule run_safe_safe,
      (rule safe_cons, rule xdr_safes)+,
      rule safe_nil, simp)

lemma server_close_req_filter:
  "xdr_filter xdr_rpc_loc_server_close_req_s_type enc_server_close_req good_server_close_req
     (\<lambda>s _. always s)"
  unfolding xdr_rpc_loc_server_close_req_s_type_def xdr_alias
  by (rule run_filter,
      rule run_cons, rule xdr_filters, simp,
      rule run_nil, simp add: enc_server_close_req_def good_server_close_req_def,
      simp,
      rule rpc_loc_server_close_req_s_type.equality; simp)

lemma server_close_req_safe:
  "xdr_safe xdr_rpc_loc_server_close_req_s_type
     (\<lambda>s. always s)"
  unfolding xdr_rpc_loc_server_close_req_s_type_def xdr_alias
  by (rule run_safe_safe,
      rule safe_cons, rule xdr_safes,
      rule safe_nil, simp)

lemma server_request_u_filter:
  "xdr_filter xdr_rpc_loc_server_request_u_type enc_server_request_u good_server_request_u
     (\<lambda>s _. member s = server_request_u_unset)"
  unfolding xdr_rpc_loc_server_request_u_type_def xdr_alias enc_server_request_u_def [abs_def]
  apply (rule union_filter, rule xdr_filters, erule disc_kept)
  subgoal for v
    by (cases "member v") (auto simp: good_server_request_u_def case_carries_def
        intro!: member_carries [OF server_open_req_filter]
          member_carries [OF server_close_req_filter])
  done

lemma server_request_u_safe:
  "xdr_safe xdr_rpc_loc_server_request_u_type
     (\<lambda>s. member s = server_request_u_unset)"
  unfolding xdr_rpc_loc_server_request_u_type_def xdr_alias
  by (rule union_safe, rule xdr_safes,
      rule safe_cases_cons, rule member_safe, rule server_open_req_safe, simp,
      rule safe_cases_cons, rule member_safe, rule server_close_req_safe, simp,
      rule safe_cases_nil)

lemma server_request_filter:
  "xdr_filter xdr_rpc_loc_server_request_s_type enc_server_request good_server_request
     (\<lambda>s _. s = zero_server_request)"
  unfolding xdr_rpc_loc_server_request_s_type_def xdr_alias
  by (rule run_filter,
      rule run_cons, rule xdr_filters, simp,
      rule run_cons, rule server_request_u_filter, simp,
      rule run_nil, simp add: enc_server_request_def good_server_request_def,
      simp add: zero_server_request_def zero_server_request_u_def,
      rule rpc_loc_server_request_s_type.equality; simp add: zero_server_request_def zero_server_request_u_def)

lemma server_request_safe:
  "xdr_safe xdr_rpc_loc_server_request_s_type
     (\<lambda>s. s = zero_server_request)"
  unfolding xdr_rpc_loc_server_request_s_type_def xdr_alias
  by (rule run_safe_safe,
      rule safe_cons, rule xdr_safes,
      rule safe_cons, rule server_request_u_safe,
      rule safe_nil, simp add: zero_server_request_def zero_server_request_u_def)

lemma qwip_request_filter:
  "xdr_filter xdr_rpc_loc_qwip_request_s_type enc_qwip_request good_qwip_request
     (\<lambda>s _. always s)"
  unfolding xdr_rpc_loc_qwip_request_s_type_def xdr_alias
  by (rule run_filter,
      (rule run_cons, rule xdr_filters, simp)+,
      rule run_nil, simp add: enc_qwip_request_def good_qwip_request_def,
      simp,
      rule rpc_loc_qwip_request_s_type.equality; simp)

lemma qwip_request_safe:
  "xdr_safe xdr_rpc_loc_qwip_request_s_type
     (\<lambda>s. always s)"
  unfolding xdr_rpc_loc_qwip_request_s_type_def xdr_alias
  by (rule run_safe_safe,
      (rule safe_cons, rule xdr_safes)+,
      rule safe_nil, simp)

lemma reserved_payload_filter:
  "xdr_filter (xdr_rpc_loc_reserved_payload_s_type al) enc_reserved_payload (good_reserved_payload al)
     (\<lambda>s _. s = zero_reserved_payload)"
  unfolding xdr_rpc_loc_reserved_payload_s_type_def xdr_alias
  by (rule run_filter,
      rule run_cons, rule xdr_filters, simp,
      rule run_cons, rule counted_filter, simp,
      rule run_nil, simp add: enc_reserved_payload_def good_reserved_payload_def,
      simp add: zero_reserved_payload_def,
      rule rpc_loc_reserved_payload_s_type.equality; simp add: zero_reserved_payload_def)

lemma reserved_payload_safe:
  assumes "bounded_alloc al"
  shows "xdr_safe (xdr_rpc_loc_reserved_payload_s_type al)
     (\<lambda>s. s = zero_reserved_payload)"
  unfolding xdr_rpc_loc_reserved_payload_s_type_def xdr_alias
  by (rule run_safe_safe,
      rule safe_cons, rule xdr_safes,
      rule safe_cons, rule counted_safe, rule assms,
      rule safe_nil, simp add: zero_reserved_payload_def)

lemma api_version_filter:
  "xdr_filter xdr_rpc_loc_api_version_s_type enc_api_version good_api_version
     (\<lambda>s _. always s)"
  unfolding xdr_rpc_loc_api_version_s_type_def xdr_alias
  by (rule run_filter,
      (rule run_cons, rule xdr_filters, simp)+,
      rule run_nil, simp add: enc_api_version_def good_api_version_def,
      simp,
      rule rpc_loc_api_version_s_type.equality; simp)

lemma api_version_safe:
  "xdr_safe xdr_rpc_loc_api_version_s_type
     (\<lambda>s. always s)"
  unfolding xdr_rpc_loc_api_version_s_type_def xdr_alias
  by (rule run_safe_safe,
      (rule safe_cons, rule xdr_safes)+,
      rule safe_nil, simp)

lemma fix_criteria_filter:
  "xdr_filter xdr_rpc_loc_fix_criteria_s_type enc_fix_criteria good_fix_criteria
     (\<lambda>s _. always s)"
  unfolding xdr_rpc_loc_fix_criteria_s_type_def xdr_alias
  by (rule run_filter,
      (rule run_cons, rule xdr_filters, simp)+,
      rule run_nil, simp add: enc_fix_criteria_def good_fix_criteria_def,
      simp,
      rule rpc_loc_fix_criteria_s_type.equality; simp)

lemma fix_criteria_safe:
  "xdr_safe xdr_rpc_loc_fix_criteria_s_type
     (\<lambda>s. always s)"
  unfolding xdr_rpc_loc_fix_criteria_s_type_def xdr_alias
  by (rule run_safe_safe,
      (rule safe_cons, rule xdr_safes)+,
      rule safe_nil, simp)

lemma user_verify_filter:
  "xdr_filter xdr_rpc_loc_user_verify_s_type enc_user_verify good_user_verify
     (\<lambda>s _. s = zero_user_verify)"
  unfolding xdr_rpc_loc_user_verify_s_type_def xdr_alias
  by (rule run_filter,
      rule run_cons, rule xdr_filters, simp,
      rule run_cons, rule ni_event_filter, simp,
      rule run_nil, simp add: enc_user_verify_def good_user_verify_def,
      simp add: zero_user_verify_def,
      rule rpc_loc_user_verify_s_type.equality; simp add: zero_user_verify_def)

lemma user_verify_safe:
  "xdr_safe xdr_rpc_loc_user_verify_s_type
     (\<lambda>s. s = zero_user_verify)"
  unfolding xdr_rpc_loc_user_verify_s_type_def xdr_alias
  by (rule run_safe_safe,
      rule safe_cons, rule xdr_safes,
      rule safe_cons, rule ni_event_safe,
      rule safe_nil, simp add: zero_user_verify_def)

lemma predicted_orbits_data_filter:
  "xdr_filter (xdr_rpc_loc_predicted_orbits_data_s_type al) enc_predicted_orbits_data (good_predicted_orbits_data al)
     (\<lambda>s _. s = zero_predicted_orbits_data)"
  unfolding xdr_rpc_loc_predicted_orbits_data_s_type_def xdr_alias
  by (rule run_filter,
      (rule run_cons, rule xdr_filters, simp)+,
      rule run_cons, rule counted_filter, simp,
      rule run_nil, simp add: enc_predicted_orbits_data_def good_predicted_orbits_data_def,
      simp add: zero_predicted_orbits_data_def,
      rule rpc_loc_predicted_orbits_data_s_type.equality; simp add: zero_predicted_orbits_data_def)

lemma predicted_orbits_data_safe:
  assumes "bounded_alloc al"
  shows "xdr_safe (xdr_rpc_loc_predicted_orbits_data_s_type al)
     (\<lambda>s. s = zero_predicted_orbits_data)"
  unfolding xdr_rpc_loc_predicted_orbits_data_s_type_def xdr_alias
  by (rule run_safe_safe,
      (rule safe_cons, rule xdr_safes)+,
      rule safe_cons, rule counted_safe, rule assms,
      rule safe_nil, simp add: zero_predicted_orbits_data_def)

lemma predicted_orbits_data_validity_report_filter:
  "xdr_filter xdr_rpc_loc_predicted_orbits_data_validity_report_s_type enc_predicted_orbits_data_validity_report good_predicted_orbits_data_validity_report
     (\<lambda>s _. always s)"
  unfolding xdr_rpc_loc_predicted_orbits_data_validity_report_s_type_def xdr_alias
  by (rule run_filter,
      (rule run_cons, rule xdr_filters, simp)+,
      rule run_nil, simp add: enc_predicted_orbits_data_validity_report_def good_predicted_orbits_data_validity_report_def,
      simp,
      rule rpc_loc_predicted_orbits_data_validity_report_s_type.equality; simp)

lemma predicted_orbits_data_validity_report_safe:
  "xdr_safe xdr_rpc_loc_predicted_orbits_data_validity_report_s_type
     (\<lambda>s. always s)"
  unfolding xdr_rpc_loc_predicted_orbits_data_validity_report_s_type_def xdr_alias
  by (rule run_safe_safe,
      (rule safe_cons, rule xdr_safes)+,
      rule safe_nil, simp)

lemma predicted_orbits_auto_download_config_filter:
  "xdr_filter xdr_rpc_loc_predicted_orbits_auto_download_config_s_type enc_predicted_orbits_auto_download_config good_predicted_orbits_auto_download_config
     (\<lambda>s _. always s)"
  unfolding xdr_rpc_loc_predicted_orbits_auto_download_config_s_type_def xdr_alias
  by (rule run_filter,
      (rule run_cons, rule xdr_filters, simp)+,
      rule run_nil, simp add: enc_predicted_orbits_auto_download_config_def good_predicted_orbits_auto_download_config_def,
      simp,
      rule rpc_loc_predicted_orbits_auto_download_config_s_type.equality; simp)

lemma predicted_orbits_auto_download_config_safe:
  "xdr_safe xdr_rpc_loc_predicted_orbits_auto_download_config_s_type
     (\<lambda>s. always s)"
  unfolding xdr_rpc_loc_predicted_orbits_auto_download_config_s_type_def xdr_alias
  by (rule run_safe_safe,
      (rule safe_cons, rule xdr_safes)+,
      rule safe_nil, simp)

lemma assist_data_time_filter:
  "xdr_filter xdr_rpc_loc_assist_data_time_s_type enc_assist_data_time good_assist_data_time
     (\<lambda>s _. always s)"
  unfolding xdr_rpc_loc_assist_data_time_s_type_def xdr_alias
  by (rule run_filter,
      (rule run_cons, rule xdr_filters, simp)+,
      rule run_nil, simp add: enc_assist_data_time_def good_assist_data_time_def,
      simp,
      rule rpc_loc_assist_data_time_s_type.equality; simp)

lemma assist_data_time_safe:
  "xdr_safe xdr_rpc_loc_assist_data_time_s_type
     (\<lambda>s. always s)"
  unfolding xdr_rpc_loc_assist_data_time_s_type_def xdr_alias
  by (rule run_safe_safe,
      (rule safe_cons, rule xdr_safes)+,
      rule safe_nil, simp)

lemma assist_data_pos_filter:
  "xdr_filter xdr_rpc_loc_assist_data_pos_s_type enc_assist_data_pos good_assist_data_pos
     (\<lambda>s _. always s)"
  unfolding xdr_rpc_loc_assist_data_pos_s_type_def xdr_alias
  by (rule run_filter,
      (rule run_cons, rule xdr_filters, simp)+,
      rule run_nil, simp add: enc_assist_data_pos_def good_assist_data_pos_def,
      simp,
      rule rpc_loc_assist_data_pos_s_type.equality; simp)

lemma assist_data_pos_safe:
  "xdr_safe xdr_rpc_loc_assist_data_pos_s_type
     (\<lambda>s. always s)"
  unfolding xdr_rpc_loc_assist_data_pos_s_type_def xdr_alias
  by (rule run_safe_safe,
      (rule safe_cons, rule xdr_safes)+,
      rule safe_nil, simp)

lemma server_open_status_filter:
  "xdr_filter xdr_rpc_loc_server_open_status_s_type enc_server_open_status good_server_open_status
     (\<lambda>s _. s = zero_server_open_status)"
  unfolding xdr_rpc_loc_server_open_status_s_type_def xdr_alias
  by (rule run_filter,
      (rule run_cons, rule xdr_filters, simp)+,
      rule run_cons, rule opaque_filter, simp,
      rule run_nil, simp add: enc_server_open_status_def good_server_open_status_def,
      simp add: zero_server_open_status_def,
      rule rpc_loc_server_open_status_s_type.equality; simp add: zero_server_open_status_def)

lemma server_open_status_safe:
  "xdr_safe xdr_rpc_loc_server_open_status_s_type
     (\<lambda>s. s = zero_server_open_status)"
  unfolding xdr_rpc_loc_server_open_status_s_type_def xdr_alias
  by (rule run_safe_safe,
      (rule safe_cons, rule xdr_safes)+,
      rule safe_cons, rule opaque_zero_safe, simp,
      rule safe_nil, simp add: zero_server_open_status_def)

lemma server_close_status_filter:
  "xdr_filter xdr_rpc_loc_server_close_status_s_type enc_server_close_status good_server_close_status
     (\<lambda>s _. always s)"
  unfolding xdr_rpc_loc_server_close_status_s_type_def xdr_alias
  by (rule run_filter,
      (rule run_cons, rule xdr_filters, simp)+,
      rule run_nil, simp add: enc_server_close_status_def good_server_close_status_def,
      simp,
      rule rpc_loc_server_close_status_s_type.equality; simp)

lemma server_close_status_safe:
  "xdr_safe xdr_rpc_loc_server_close_status_s_type
     (\<lambda>s. always s)"
  unfolding xdr_rpc_loc_server_close_status_s_type_def xdr_alias
  by (rule run_safe_safe,
      (rule safe_cons, rule xdr_safes)+,
      rule safe_nil, simp)

lemma wiper_fix_time_filter:
  "xdr_filter xdr_rpc_loc_wiper_fix_time_s_type enc_wiper_fix_time good_wiper_fix_time
     (\<lambda>s _. always s)"
  unfolding xdr_rpc_loc_wiper_fix_time_s_type_def xdr_alias
  by (rule run_filter,
      rule run_cons, rule xdr_filters, simp,
      rule run_nil, simp add: enc_wiper_fix_time_def good_wiper_fix_time_def,
      simp,
      rule rpc_loc_wiper_fix_time_s_type.equality; simp)

lemma wiper_fix_time_safe:
  "xdr_safe xdr_rpc_loc_wiper_fix_time_s_type
     (\<lambda>s. always s)"
  unfolding xdr_rpc_loc_wiper_fix_time_s_type_def xdr_alias
  by (rule run_safe_safe,
      rule safe_cons, rule xdr_safes,
      rule safe_nil, simp)

lemma wiper_fix_pos_filter:
  "xdr_filter xdr_rpc_loc_wiper_fix_pos_s_type enc_wiper_fix_pos good_wiper_fix_pos
     (\<lambda>s _. always s)"
  unfolding xdr_rpc_loc_wiper_fix_pos_s_type_def xdr_alias
  by (rule run_filter,
      (rule run_cons, rule xdr_filters, simp)+,
      rule run_nil, simp add: enc_wiper_fix_pos_def good_wiper_fix_pos_def,
      simp,
      rule rpc_loc_wiper_fix_pos_s_type.equality; simp)

lemma wiper_fix_pos_safe:
  "xdr_safe xdr_rpc_loc_wiper_fix_pos_s_type
     (\<lambda>s. always s)"
  unfolding xdr_rpc_loc_wiper_fix_pos_s_type_def xdr_alias
  by (rule run_safe_safe,
      (rule safe_cons, rule xdr_safes)+,
      rule safe_nil, simp)

lemma wiper_ap_info_filter:
  "xdr_filter xdr_rpc_loc_wiper_ap_info_s_type enc_wiper_ap_info good_wiper_ap_info
     (\<lambda>s _. s = zero_wiper_ap_info)"
  unfolding xdr_rpc_loc_wiper_ap_info_s_type_def xdr_alias
  by (rule run_filter,
      rule run_cons, rule opaque_filter, simp,
      (rule run_cons, rule xdr_filters, simp)+,
      rule run_nil, simp add: enc_wiper_ap_info_def good_wiper_ap_info_def,
      simp add: zero_wiper_ap_info_def,
      rule rpc_loc_wiper_ap_info_s_type.equality; simp add: zero_wiper_ap_info_def)

lemma wiper_ap_info_safe:
  "xdr_safe xdr_rpc_loc_wiper_ap_info_s_type
     (\<lambda>s. s = zero_wiper_ap_info)"
  unfolding xdr_rpc_loc_wiper_ap_info_s_type_def xdr_alias
  by (rule run_safe_safe,
      rule safe_cons, rule opaque_zero_safe, simp,
      (rule safe_cons, rule xdr_safes)+,
      rule safe_nil, simp add: zero_wiper_ap_info_def)

lemma wiper_ap_set_filter:
  "xdr_filter xdr_rpc_loc_wiper_ap_set_s_type enc_wiper_ap_set good_wiper_ap_set
     (\<lambda>s _. s = zero_wiper_ap_set)"
  unfolding xdr_rpc_loc_wiper_ap_set_s_type_def xdr_alias
  by (rule run_filter,
      rule run_cons, rule xdr_filters, simp,
      rule run_cons, rule vec_filter, rule wiper_ap_info_filter, rule refl, simp,
      rule run_nil, simp add: enc_wiper_ap_set_def good_wiper_ap_set_def list_all_iff,
      simp add: zero_wiper_ap_set_def,
      rule rpc_loc_wiper_ap_set_s_type.equality; simp add: zero_wiper_ap_set_def)

lemma wiper_ap_set_safe:
  "xdr_safe xdr_rpc_loc_wiper_ap_set_s_type
     (\<lambda>s. s = zero_wiper_ap_set)"
  unfolding xdr_rpc_loc_wiper_ap_set_s_type_def xdr_alias
  by (rule run_safe_safe,
      rule safe_cons, rule xdr_safes,
      rule safe_cons, rule vec_safe, rule wiper_ap_info_safe, rule refl,
      rule safe_nil, simp add: zero_wiper_ap_set_def)

lemma wiper_position_report_filter:
  "xdr_filter xdr_rpc_loc_wiper_position_report_s_type enc_wiper_position_report good_wiper_position_report
     (\<lambda>s _. s = zero_wiper_position_report)"
  unfolding xdr_rpc_loc_wiper_position_report_s_type_def xdr_alias
  by (rule run_filter,
      rule run_cons, rule xdr_filters, simp,
      rule run_cons, rule wiper_fix_time_filter, simp,
      rule run_cons, rule wiper_fix_pos_filter, simp,
      rule run_cons, rule wiper_ap_set_filter, simp,
      rule run_nil, simp add: enc_wiper_position_report_def good_wiper_position_report_def,
      simp add: zero_wiper_position_report_def,
      rule rpc_loc_wiper_position_report_s_type.equality; simp add: zero_wiper_position_report_def)

lemma wiper_position_report_safe:
  "xdr_safe xdr_rpc_loc_wiper_position_report_s_type
     (\<lambda>s. s = zero_wiper_position_report)"
  unfolding xdr_rpc_loc_wiper_position_report_s_type_def xdr_alias
  by (rule run_safe_safe,
      rule safe_cons, rule xdr_safes,
      rule safe_cons, rule wiper_fix_time_safe,
      rule safe_cons, rule wiper_fix_pos_safe,
      rule safe_cons, rule wiper_ap_set_safe,
      rule safe_nil, simp add: zero_wiper_position_report_def)

lemma efs_data_filter:
  "xdr_filter (xdr_rpc_loc_efs_data_s_type al) enc_efs_data (good_efs_data al)
     (\<lambda>s _. s = zero_efs_data)"
  unfolding xdr_rpc_loc_efs_data_s_type_def xdr_alias
  by (rule run_filter,
      rule run_cons, rule opaque_filter, simp,
      (rule run_cons, rule xdr_filters, simp)+,
      rule run_cons, rule counted_filter, simp,
      (rule run_cons, rule xdr_filters, simp)+,
      rule run_nil, simp add: enc_efs_data_def good_efs_data_def,
      simp add: zero_efs_data_def,
      rule rpc_loc_efs_data_s_type.equality; simp add: zero_efs_data_def)

lemma efs_data_safe:
  assumes "bounded_alloc al"
  shows "xdr_safe (xdr_rpc_loc_efs_data_s_type al)
     (\<lambda>s. s = zero_efs_data)"
  unfolding xdr_rpc_loc_efs_data_s_type_def xdr_alias
  by (rule run_safe_safe,
      rule safe_cons, rule opaque_zero_safe, simp,
      (rule safe_cons, rule xdr_safes)+,
      rule safe_cons, rule counted_safe, rule assms,
      (rule safe_cons, rule xdr_safes)+,
      rule safe_nil, simp add: zero_efs_data_def)

lemma assist_data_delete_filter:
  "xdr_filter xdr_rpc_loc_assist_data_delete_s_type enc_assist_data_delete good_assist_data_delete
     (\<lambda>s _. s = zero_assist_data_delete)"
  unfolding xdr_rpc_loc_assist_data_delete_s_type_def xdr_alias
  by (rule run_filter,
      rule run_cons, rule xdr_filters, simp,
      rule run_cons, rule vec_any_filter, rule xdr_filters, simp,
      rule run_nil, simp add: enc_assist_data_delete_def good_assist_data_delete_def list_all_iff,
      simp add: zero_assist_data_delete_def,
      rule rpc_loc_assist_data_delete_s_type.equality; simp add: zero_assist_data_delete_def)

lemma assist_data_delete_safe:
  "xdr_safe xdr_rpc_loc_assist_data_delete_s_type
     (\<lambda>s. s = zero_assist_data_delete)"
  unfolding xdr_rpc_loc_assist_data_delete_s_type_def xdr_alias
  by (rule run_safe_safe,
      rule safe_cons, rule xdr_safes,
      rule safe_cons, rule vec_any_safe, rule xdr_safes,
      rule safe_nil, simp add: zero_assist_data_delete_def)

lemma ioctl_data_u_filter:
  "xdr_filter (xdr_rpc_loc_ioctl_data_u_type al) enc_ioctl_data_u (good_ioctl_data_u al)
     (\<lambda>s _. member s = ioctl_data_u_unset)"
  unfolding xdr_rpc_loc_ioctl_data_u_type_def xdr_alias enc_ioctl_data_u_def [abs_def]
  apply (rule union_filter, rule xdr_filters, erule disc_kept)
  subgoal for v
    by (cases "member v") (auto simp: good_ioctl_data_u_def case_carries_def
        intro!: member_carries [OF fix_criteria_filter]
          member_carries [OF user_verify_filter]
          member_carries [OF predicted_orbits_data_filter]
          member_carries [OF predicted_orbits_auto_download_config_filter]
          member_carries [OF assist_data_time_filter]
          member_carries [OF assist_data_pos_filter]
          member_carries [OF server_open_status_filter]
          member_carries [OF server_close_status_filter]
          member_carries [OF wiper_position_report_filter]
          member_carries [OF xenum.xdr_filter_axioms]
          member_carries [OF xbool.xdr_filter_axioms]
          member_carries [OF xu_long.xdr_filter_axioms]
          member_carries [OF server_info_filter]
          member_carries [OF assist_data_delete_filter]
          member_carries [OF efs_data_filter])
  done

lemma ioctl_data_u_safe:
  assumes "bounded_alloc al"
  shows "xdr_safe (xdr_rpc_loc_ioctl_data_u_type al)
     (\<lambda>s. member s = ioctl_data_u_unset)"
  unfolding xdr_rpc_loc_ioctl_data_u_type_def xdr_alias
  by (rule union_safe, rule xdr_safes,
      rule safe_cases_cons, rule member_safe, rule fix_criteria_safe, simp,
      rule safe_cases_cons, rule member_safe, rule user_verify_safe, simp,
      rule safe_cases_cons, rule member_safe, rule predicted_orbits_data_safe, rule assms, simp,
      rule safe_cases_cons, rule member_safe, rule predicted_orbits_auto_download_config_safe, simp,
      rule safe_cases_cons, rule member_safe, rule assist_data_time_safe, simp,
      rule safe_cases_cons, rule member_safe, rule assist_data_pos_safe, simp,
      rule safe_cases_cons, rule member_safe, rule server_open_status_safe, simp,
      rule safe_cases_cons, rule member_safe, rule server_close_status_safe, simp,
      rule safe_cases_cons, rule member_safe, rule wiper_position_report_safe, simp,
      (rule safe_cases_cons, rule member_safe, rule xdr_safes, simp)+,
      rule safe_cases_cons, rule member_safe, rule server_info_safe, simp,
      rule safe_cases_cons, rule member_safe, rule assist_data_delete_safe, simp,
      rule safe_cases_cons, rule member_safe, rule efs_data_safe, rule assms, simp,
      rule safe_cases_nil)

lemma ioctl_callback_data_u_filter:
  "xdr_filter (xdr_rpc_loc_ioctl_callback_data_u_type al) enc_ioctl_callback_data_u (good_ioctl_callback_data_u al)
     (\<lambda>s _. member s = ioctl_callback_data_u_unset)"
  unfolding xdr_rpc_loc_ioctl_callback_data_u_type_def xdr_alias enc_ioctl_callback_data_u_def [abs_def]
  apply (rule union_filter, rule xdr_filters, erule disc_kept)
  subgoal for v
    by (cases "member v") (auto simp: good_ioctl_callback_data_u_def case_carries_def
        intro!: member_carries [OF api_version_filter]
          member_carries [OF fix_criteria_filter]
          member_carries [OF xenum.xdr_filter_axioms]
          member_carries [OF xbool.xdr_filter_axioms]
          member_carries [OF xu_long.xdr_filter_axioms]
          member_carries [OF server_info_filter]
          member_carries [OF predicted_orbits_data_source_filter]
          member_carries [OF predicted_orbits_data_validity_report_filter])
  done

lemma ioctl_callback_data_u_safe:
  "xdr_safe (xdr_rpc_loc_ioctl_callback_data_u_type al)
     (\<lambda>s. member s = ioctl_callback_data_u_unset)"
  unfolding xdr_rpc_loc_ioctl_callback_data_u_type_def xdr_alias
  by (rule union_safe, rule xdr_safes,
      rule safe_cases_cons, rule member_safe, rule api_version_safe, simp,
      rule safe_cases_cons, rule member_safe, rule fix_criteria_safe, simp,
      (rule safe_cases_cons, rule member_safe, rule xdr_safes, simp)+,
      rule safe_cases_cons, rule member_safe, rule server_info_safe, simp,
      rule safe_cases_cons, rule member_safe, rule predicted_orbits_data_source_safe, simp,
      rule safe_cases_cons, rule member_safe, rule predicted_orbits_data_validity_report_safe, simp,
      rule safe_cases_nil)

lemma ioctl_callback_filter:
  "xdr_filter (xdr_rpc_loc_ioctl_callback_s_type al) enc_ioctl_callback (good_ioctl_callback al)
     (\<lambda>s _. s = zero_ioctl_callback)"
  unfolding xdr_rpc_loc_ioctl_callback_s_type_def xdr_alias
  by (rule run_filter,
      (rule run_cons, rule xdr_filters, simp)+,
      rule run_cons, rule ioctl_callback_data_u_filter, simp,
      rule run_nil, simp add: enc_ioctl_callback_def good_ioctl_callback_def,
      simp add: zero_ioctl_callback_def zero_ioctl_callback_data_u_def,
      rule rpc_loc_ioctl_callback_s_type.equality; simp add: zero_ioctl_callback_def zero_ioctl_callback_data_u_def)

lemma ioctl_callback_safe:
  "xdr_safe (xdr_rpc_loc_ioctl_callback_s_type al)
     (\<lambda>s. s = zero_ioctl_callback)"
  unfolding xdr_rpc_loc_ioctl_callback_s_type_def xdr_alias
  by (rule run_safe_safe,
      (rule safe_cons, rule xdr_safes)+,
      rule safe_cons, rule ioctl_callback_data_u_safe,
      rule safe_nil, simp add: zero_ioctl_callback_def zero_ioctl_callback_data_u_def)

lemma event_payload_u_filter:
  "xdr_filter (xdr_rpc_loc_event_payload_u_type al) enc_event_payload_u (good_event_payload_u al)
     (\<lambda>s _. member s = event_payload_u_unset)"
  unfolding xdr_rpc_loc_event_payload_u_type_def xdr_alias enc_event_payload_u_def [abs_def]
  apply (rule union_filter, rule xdr_filters, erule disc_kept)
  subgoal for v
    by (cases "member v") (auto simp: good_event_payload_u_def case_carries_def
        intro!: member_carries [OF parsed_position_filter]
          member_carries [OF gnss_info_filter]
          member_carries [OF ni_event_filter]
          member_carries [OF assist_data_request_filter]
          member_carries [OF server_request_filter]
          member_carries [OF ioctl_callback_filter]
          member_carries [OF status_event_filter]
          member_carries [OF qwip_request_filter]
          member_carries [OF reserved_payload_filter])
  done

lemma open_args_filter:
  "xdr_filter xdr_rpc_loc_open_args enc_open_args good_open_args
     (\<lambda>s _. always s)"
  unfolding xdr_rpc_loc_open_args_def xdr_alias
  by (rule run_filter,
      (rule run_cons, rule xdr_filters, simp)+,
      rule run_nil, simp add: enc_open_args_def good_open_args_def,
      simp,
      rule rpc_loc_open_args.equality; simp)

lemma open_args_safe:
  "xdr_safe xdr_rpc_loc_open_args
     (\<lambda>s. always s)"
  unfolding xdr_rpc_loc_open_args_def xdr_alias
  by (rule run_safe_safe,
      (rule safe_cons, rule xdr_safes)+,
      rule safe_nil, simp)

lemma close_args_filter:
  "xdr_filter xdr_rpc_loc_close_args enc_close_args good_close_args
     (\<lambda>s _. always s)"
  unfolding xdr_rpc_loc_close_args_def xdr_alias
  by (rule run_filter,
      rule run_cons, rule xdr_filters, simp,
      rule run_nil, simp add: enc_close_args_def good_close_args_def,
      simp,
      rule rpc_loc_close_args.equality; simp)

lemma close_args_safe:
  "xdr_safe xdr_rpc_loc_close_args
     (\<lambda>s. always s)"
  unfolding xdr_rpc_loc_close_args_def xdr_alias
  by (rule run_safe_safe,
      rule safe_cons, rule xdr_safes,
      rule safe_nil, simp)

lemma start_fix_args_filter:
  "xdr_filter xdr_rpc_loc_start_fix_args enc_start_fix_args good_start_fix_args
     (\<lambda>s _. always s)"
  unfolding xdr_rpc_loc_start_fix_args_def xdr_alias
  by (rule run_filter,
      rule run_cons, rule xdr_filters, simp,
      rule run_nil, simp add: enc_start_fix_args_def good_start_fix_args_def,
      simp,
      rule rpc_loc_start_fix_args.equality; simp)

lemma start_fix_args_safe:
  "xdr_safe xdr_rpc_loc_start_fix_args
     (\<lambda>s. always s)"
  unfolding xdr_rpc_loc_start_fix_args_def xdr_alias
  by (rule run_safe_safe,
      rule safe_cons, rule xdr_safes,
      rule safe_nil, simp)

lemma stop_fix_args_filter:
  "xdr_filter xdr_rpc_loc_stop_fix_args enc_stop_fix_args good_stop_fix_args
     (\<lambda>s _. always s)"
  unfolding xdr_rpc_loc_stop_fix_args_def xdr_alias
  by (rule run_filter,
      rule run_cons, rule xdr_filters, simp,
      rule run_nil, simp add: enc_stop_fix_args_def good_stop_fix_args_def,
      simp,
      rule rpc_loc_stop_fix_args.equality; simp)

lemma stop_fix_args_safe:
  "xdr_safe xdr_rpc_loc_stop_fix_args
     (\<lambda>s. always s)"
  unfolding xdr_rpc_loc_stop_fix_args_def xdr_alias
  by (rule run_safe_safe,
      rule safe_cons, rule xdr_safes,
      rule safe_nil, simp)

lemma ioctl_args_filter:
  "xdr_filter (xdr_rpc_loc_ioctl_args al) enc_ioctl_args (good_ioctl_args al)
     (\<lambda>s _. s = zero_ioctl_args)"
  unfolding xdr_rpc_loc_ioctl_args_def xdr_alias
  by (rule run_filter,
      (rule run_cons, rule xdr_filters, simp)+,
      rule run_cons, rule ptr_filter, rule ioctl_data_u_filter, simp add: zero_ioctl_data_u_def, simp,
      rule run_nil, simp add: enc_ioctl_args_def good_ioctl_args_def,
      simp add: zero_ioctl_args_def,
      rule rpc_loc_ioctl_args.equality; simp add: zero_ioctl_args_def)

lemma ioctl_args_safe:
  assumes "bounded_alloc al"
  shows "xdr_safe (xdr_rpc_loc_ioctl_args al)
     (\<lambda>s. s = zero_ioctl_args)"
  unfolding xdr_rpc_loc_ioctl_args_def xdr_alias
  by (rule run_safe_safe,
      (rule safe_cons, rule xdr_safes)+,
      rule safe_cons, rule ptr_safe, rule ioctl_data_u_safe, rule assms, simp add: zero_ioctl_data_u_def,
      rule safe_nil, simp add: zero_ioctl_args_def)

lemma api_api_version_s_args_filter:
  "xdr_filter xdr_rpc_loc_api_api_version_s_args enc_api_api_version_s_args good_api_api_version_s_args
     (\<lambda>s _. always s)"
  unfolding xdr_rpc_loc_api_api_version_s_args_def xdr_alias
  by (rule run_filter,
      rule run_cons, rule xdr_filters, simp,
      rule run_nil, simp add: enc_api_api_version_s_args_def good_api_api_version_s_args_def,
      simp,
      rule rpc_loc_api_api_version_s_args.equality; simp)

lemma api_api_version_s_args_safe:
  "xdr_safe xdr_rpc_loc_api_api_version_s_args
     (\<lambda>s. always s)"
  unfolding xdr_rpc_loc_api_api_version_s_args_def xdr_alias
  by (rule run_safe_safe,
      rule safe_cons, rule xdr_safes,
      rule safe_nil, simp)

lemma api_rpc_glue_code_info_remote_rets_filter:
  "xdr_filter xdr_rpc_loc_api_rpc_glue_code_info_remote_rets enc_api_rpc_glue_code_info_remote_rets good_api_rpc_glue_code_info_remote_rets
     (\<lambda>s _. always s)"
  unfolding xdr_rpc_loc_api_rpc_glue_code_info_remote_rets_def xdr_alias
  by (rule run_filter,
      (rule run_cons, rule xdr_filters, simp)+,
      rule run_nil, simp add: enc_api_rpc_glue_code_info_remote_rets_def good_api_rpc_glue_code_info_remote_rets_def,
      simp,
      rule rpc_loc_api_rpc_glue_code_info_remote_rets.equality; simp)

lemma api_rpc_glue_code_info_remote_rets_safe:
  "xdr_safe xdr_rpc_loc_api_rpc_glue_code_info_remote_rets
     (\<lambda>s. always s)"
  unfolding xdr_rpc_loc_api_rpc_glue_code_info_remote_rets_def xdr_alias
  by (rule run_safe_safe,
      (rule safe_cons, rule xdr_safes)+,
      rule safe_nil, simp)

lemma open_rets_filter:
  "xdr_filter xdr_rpc_loc_open_rets enc_open_rets good_open_rets
     (\<lambda>s _. always s)"
  unfolding xdr_rpc_loc_open_rets_def xdr_alias
  by (rule run_filter,
      rule run_cons, rule xdr_filters, simp,
      rule run_nil, simp add: enc_open_rets_def good_open_rets_def,
      simp,
      rule rpc_loc_open_rets.equality; simp)

lemma open_rets_safe:
  "xdr_safe xdr_rpc_loc_open_rets
     (\<lambda>s. always s)"
  unfolding xdr_rpc_loc_open_rets_def xdr_alias
  by (rule run_safe_safe,
      rule safe_cons, rule xdr_safes,
      rule safe_nil, simp)

lemma close_rets_filter:
  "xdr_filter xdr_rpc_loc_close_rets enc_close_rets good_close_rets
     (\<lambda>s _. always s)"
  unfolding xdr_rpc_loc_close_rets_def xdr_alias
  by (rule run_filter,
      rule run_cons, rule xdr_filters, simp,
      rule run_nil, simp add: enc_close_rets_def good_close_rets_def,
      simp,
      rule rpc_loc_close_rets.equality; simp)

lemma close_rets_safe:
  "xdr_safe xdr_rpc_loc_close_rets
     (\<lambda>s. always s)"
  unfolding xdr_rpc_loc_close_rets_def xdr_alias
  by (rule run_safe_safe,
      rule safe_cons, rule xdr_safes,
      rule safe_nil, simp)

lemma start_fix_rets_filter:
  "xdr_filter xdr_rpc_loc_start_fix_rets enc_start_fix_rets good_start_fix_rets
     (\<lambda>s _. always s)"
  unfolding xdr_rpc_loc_start_fix_rets_def xdr_alias
  by (rule run_filter,
      rule run_cons, rule xdr_filters, simp,
      rule run_nil, simp add: enc_start_fix_rets_def good_start_fix_rets_def,
      simp,
      rule rpc_loc_start_fix_rets.equality; simp)

lemma start_fix_rets_safe:
  "xdr_safe xdr_rpc_loc_start_fix_rets
     (\<lambda>s. always s)"
  unfolding xdr_rpc_loc_start_fix_rets_def xdr_alias
  by (rule run_safe_safe,
      rule safe_cons, rule xdr_safes,
      rule safe_nil, simp)

lemma stop_fix_rets_filter:
  "xdr_filter xdr_rpc_loc_stop_fix_rets enc_stop_fix_rets good_stop_fix_rets
     (\<lambda>s _. always s)"
  unfolding xdr_rpc_loc_stop_fix_rets_def xdr_alias
  by (rule run_filter,
      rule run_cons, rule xdr_filters, simp,
      rule run_nil, simp add: enc_stop_fix_rets_def good_stop_fix_rets_def,
      simp,
      rule rpc_loc_stop_fix_rets.equality; simp)

lemma stop_fix_rets_safe:
  "xdr_safe xdr_rpc_loc_stop_fix_rets
     (\<lambda>s. always s)"
  unfolding xdr_rpc_loc_stop_fix_rets_def xdr_alias
  by (rule run_safe_safe,
      rule safe_cons, rule xdr_safes,
      rule safe_nil, simp)

lemma ioctl_rets_filter:
  "xdr_filter xdr_rpc_loc_ioctl_rets enc_ioctl_rets good_ioctl_rets
     (\<lambda>s _. always s)"
  unfolding xdr_rpc_loc_ioctl_rets_def xdr_alias
  by (rule run_filter,
      rule run_cons, rule xdr_filters, simp,
      rule run_nil, simp add: enc_ioctl_rets_def good_ioctl_rets_def,
      simp,
      rule rpc_loc_ioctl_rets.equality; simp)

lemma ioctl_rets_safe:
  "xdr_safe xdr_rpc_loc_ioctl_rets
     (\<lambda>s. always s)"
  unfolding xdr_rpc_loc_ioctl_rets_def xdr_alias
  by (rule run_safe_safe,
      rule safe_cons, rule xdr_safes,
      rule safe_nil, simp)

lemma api_api_versions_rets_filter:
  "xdr_filter (xdr_rpc_loc_api_api_versions_rets al) enc_api_api_versions_rets (good_api_api_versions_rets al)
     (\<lambda>s _. s = zero_api_api_versions_rets)"
  unfolding xdr_rpc_loc_api_api_versions_rets_def xdr_alias
  by (rule run_filter,
      rule run_cons, rule arr_filter, rule xdr_filters, simp, simp, simp,
      rule run_cons, rule ptr_filter, rule xdr_filters, simp, simp,
      rule run_nil, simp add: enc_api_api_versions_rets_def good_api_api_versions_rets_def list_all_iff unsigned_minus_1_eq_mask mask_eq_exp_minus_1,
      simp add: zero_api_api_versions_rets_def,
      rule rpc_loc_api_api_versions_rets.equality; simp add: zero_api_api_versions_rets_def)

lemma event_cb_f_type_args_filter:
  "xdr_filter (xdr_rpc_loc_event_cb_f_type_args al) enc_event_cb_f_type_args (good_event_cb_f_type_args al)
     (\<lambda>s _. s = zero_event_cb_f_type_args)"
  unfolding xdr_rpc_loc_event_cb_f_type_args_def xdr_alias
  by (rule run_filter,
      (rule run_cons, rule xdr_filters, simp)+,
      rule run_cons, rule ptr_filter, rule event_payload_u_filter, simp add: zero_event_payload_u_def, simp,
      rule run_nil, simp add: enc_event_cb_f_type_args_def good_event_cb_f_type_args_def,
      simp add: zero_event_cb_f_type_args_def,
      rule rpc_loc_event_cb_f_type_args.equality; simp add: zero_event_cb_f_type_args_def)

lemma event_cb_f_type_rets_filter:
  "xdr_filter xdr_rpc_loc_event_cb_f_type_rets enc_event_cb_f_type_rets good_event_cb_f_type_rets
     (\<lambda>s _. always s)"
  unfolding xdr_rpc_loc_event_cb_f_type_rets_def xdr_alias
  by (rule run_filter,
      rule run_cons, rule xdr_filters, simp,
      rule run_nil, simp add: enc_event_cb_f_type_rets_def good_event_cb_f_type_rets_def,
      simp,
      rule rpc_loc_event_cb_f_type_rets.equality; simp)

lemma event_cb_f_type_rets_safe:
  "xdr_safe xdr_rpc_loc_event_cb_f_type_rets
     (\<lambda>s. always s)"
  unfolding xdr_rpc_loc_event_cb_f_type_rets_def xdr_alias
  by (rule run_safe_safe,
      rule safe_cons, rule xdr_safes,
      rule safe_nil, simp)

end
