(* ===== verification/Loc_Messages.thy ===== *)
theory Loc_Messages
  imports Loc_Api_Wire
begin

text \<open>
  The messages of the location interface as wholes: the event that the modem sends with
  \<open>rpc_loc_event_cb_f_type\<close>, and the request that a client sends with \<open>rpc_loc_ioctl\<close>.
\<close>

section \<open>Events\<close>

lemma quad_decoded:
  assumes "xdr_inv x" and "x_op x = XDR_DECODE" and "xdr_u_quad_t x e = Some (True, d, y)"
  shows "in_at (be64 d) x"
  using assms(1)
proof (cases rule: xdr_std_recv_uint32_safe)
  case 1
  then show ?thesis
    using assms by (simp add: xdr_u_quad_t_def xdr_u_hyper_def do_recv_def bindM_def xdr_std_recv_int32_def)
next
  case (2 h)
  from 2(3) show ?thesis
  proof (cases rule: xdr_std_recv_uint32_safe)
    case 1
    then show ?thesis
      using 2 assms by (simp add: xdr_u_quad_t_def xdr_u_hyper_def do_recv_def bindM_def xdr_std_recv_int32_def)
  next
    case lo: (2 l)
    then have "d = words64 h l"
      using 2 assms
      by (simp add: xdr_u_quad_t_def xdr_u_hyper_def do_recv_def bindM_def xdr_std_recv_int32_def words64_def)
    then show ?thesis using 2(2) lo(2) xdr_inv_next(2) [OF assms(1)] by (simp add: be64_def in_at_append)
  qed
qed

text \<open>Decoding the payload of an event is safe unless it announces an NMEA position report.\<close>

lemma event_payload_decode_safe:
  assumes al: "bounded_alloc al \<or> \<not> in_at (be64 RPC_LOC_EVENT_RESERVED) x" and x: "xdr_inv x" "x_op x = XDR_DECODE" and s: "member s = event_payload_u_unset"
    and d: "\<not> in_at (be64 RPC_LOC_EVENT_NMEA_POSITION_REPORT) x"
  shows "\<exists>ok v x'. xdr_rpc_loc_event_payload_u_type al x s = Some (ok, v, x') \<and> xdr_inv x' \<and> x_op x' = XDR_DECODE"
  unfolding xdr_rpc_loc_event_payload_u_type_def xdr_alias
proof (rule union_decode_safe [OF quad_safe x s], goal_cases)
  case (1 e y ls p)
  have e: "e \<noteq> RPC_LOC_EVENT_NMEA_POSITION_REPORT" "e = RPC_LOC_EVENT_RESERVED \<Longrightarrow> bounded_alloc al"
    using quad_decoded [OF x 1(1)] d al by auto
  with 1(2,3) show ?case
    by (auto intro!: member_safe [OF parsed_position_safe] member_safe [OF gnss_info_safe] member_safe [OF ni_event_safe]
        member_safe [OF assist_data_request_safe] member_safe [OF server_request_safe]
        member_safe [OF ioctl_callback_safe] member_safe [OF status_event_safe]
        member_safe [OF qwip_request_safe] member_safe [OF reserved_payload_safe])
qed

text \<open>Fixed-size values: decoding one fails, or moves the cursor by its size.\<close>

lemma long_step:
  assumes "xdr_inv x" and "x_op x = XDR_DECODE"
  obtains "xdr_u_long x u = Some (False, u, x)" and "xdr_long x v = Some (False, v, x)"
    and "xdr_bool x w = Some (False, w, x)"
  | a where "xdr_u_long x u = Some (True, a, advance 4 x)" and "xdr_long x v = Some (True, a, advance 4 x)"
    and "xdr_bool x w = Some (True, if a = 0 then 0 else 1, advance 4 x)"
    and "in_at (be32 a) x" and "xdr_inv (advance 4 x)"
  using assms(1)
  by (cases rule: xdr_std_recv_uint32_safe)
    (use assms(2) that in \<open>auto simp: xdr_u_long_def xdr_long_def xdr_bool_def do_recv_def xdr_std_recv_int32_def\<close>)

lemma quad_step:
  assumes "xdr_inv x" and "x_op x = XDR_DECODE"
  obtains y where "xdr_u_quad_t x u = Some (False, u, y)" and "xdr_inv y"
  | d where "xdr_u_quad_t x u = Some (True, d, advance 8 x)" and "in_at (be64 d) x" and "xdr_inv (advance 8 x)"
  using assms(1)
proof (cases rule: xdr_std_recv_uint32_safe)
  case 1
  then show ?thesis
    using that(1) [of x] assms
    by (simp add: xdr_u_quad_t_def xdr_u_hyper_def do_recv_def bindM_def xdr_std_recv_int32_def)
next
  case (2 h)
  from 2(3) show ?thesis
  proof (cases rule: xdr_std_recv_uint32_safe)
    case 1
    then show ?thesis
      using that(1) [of "advance 4 x"] 2 assms
      by (simp add: xdr_u_quad_t_def xdr_u_hyper_def do_recv_def bindM_def xdr_std_recv_int32_def)
  next
    case lo: (2 l)
    have "xdr_u_quad_t x u = Some (True, words64 h l, advance 8 x)"
      using 2 lo assms
      by (simp add: xdr_u_quad_t_def xdr_u_hyper_def do_recv_def bindM_def xdr_std_recv_int32_def words64_def
          advance_advance)
    moreover have "in_at (be64 (words64 h l)) x"
      using 2(2) lo(2) xdr_inv_next(2) [OF assms(1)] by (simp add: be64_def in_at_append)
    ultimately show ?thesis using that(2) lo(3) by (simp add: advance_advance)
  qed
qed

lemma event_pointer_decode_safe:
  assumes "bounded_alloc al \<or> \<not> in_at (be64 RPC_LOC_EVENT_RESERVED) (advance 4 x)" and "xdr_inv x" and "x_op x = XDR_DECODE"
    and "\<not> in_at (be64 RPC_LOC_EVENT_NMEA_POSITION_REPORT) (advance 4 x)"
  shows "\<exists>ok p y. xdr_pointer al 600 zero_event_payload_u (xdr_rpc_loc_event_payload_u_type al) x None
     = Some (ok, p, y) \<and> xdr_inv y"
  using assms(2,3)
proof (cases rule: long_step [where u = 0 and v = 0 and w = 0])
  case 1
  then show ?thesis using assms(2) by (simp add: xdr_pointer_def)
next
  case (2 a)
  obtain ok v y where "xdr_rpc_loc_event_payload_u_type al (advance 4 x) zero_event_payload_u = Some (ok, v, y)" "xdr_inv y"
    using event_payload_decode_safe [OF assms(1) 2(5) _ _ assms(4), of zero_event_payload_u] assms(3)
    by (auto simp: zero_event_payload_u_def)
  then show ?thesis using 2 assms(3) by (auto simp: xdr_pointer_def xdr_reference_def)
qed

section \<open>Properties\<close>

text \<open>
  C6. Whatever bytes arrive as the arguments of an event, decoding them into zeroed storage
  returns, touches no memory outside its buffers and leaves the stream in order, if the
  payload does not announce itself as an NMEA position report, and either it does not
  announce itself as a reserved payload or the allocator never hands out a block of
  \<open>2 ^ 31 - 18432\<close> bytes or more. The second condition is needed because the counted bytes of a
  reserved payload are decoded with the limit \<open>~0\<close>, and \<open>xdr_std_recv_bytes\<close> compares their
  length as a signed number; theorem
  \<open>xdr_bytes_length_sign\<close> of \<^verbatim>\<open>Xdr_Filters\<close> shows the fault that a larger block leads to.
\<close>

theorem loc_event_decode_safe:
  assumes "bounded_alloc al \<or> \<not> in_at (be64 RPC_LOC_EVENT_RESERVED) (advance 20 x)" and "xdr_inv x" and "x_op x = XDR_DECODE"
    and "\<not> in_at (be64 RPC_LOC_EVENT_NMEA_POSITION_REPORT) (advance 20 x)"
  shows "\<exists>ok v x'. xdr_rpc_loc_event_cb_f_type_args al x zero_event_cb_f_type_args = Some (ok, v, x') \<and> xdr_inv x'"
proof -
  note args_def = xdr_rpc_loc_event_cb_f_type_args_def xdr_alias zero_event_cb_f_type_args_def xdr_field_def
  have op: "x_op (advance n x) = XDR_DECODE" for n using assms(3) by simp
  show ?thesis
    using assms(2,3)
  proof (cases rule: long_step [where u = 0 and v = 0 and w = 0])
    case 1
    then show ?thesis using assms(2) by (simp add: args_def)
  next
    case i: (2 a)
    from i(5) op show ?thesis
    proof (cases rule: long_step [where u = 0 and v = 0 and w = 0])
      case 1
      then show ?thesis using i by (simp add: args_def)
    next
      case h: (2 b)
      from h(5) have x8: "xdr_inv (advance 8 x)" by (simp add: advance_advance)
      from x8 op show ?thesis
      proof (cases rule: quad_step [where u = 0])
        case (1 y)
        then show ?thesis using i h by (simp add: args_def advance_advance)
      next
        case ev: (2 d)
        obtain ok p y where p: "xdr_pointer al 600 zero_event_payload_u (xdr_rpc_loc_event_payload_u_type al) (advance 16 x) None
            = Some (ok, p, y)" "xdr_inv y"
          using event_pointer_decode_safe [of al "advance 16 x"] ev(3) op assms(1,4)
          by (auto simp: advance_advance)
        then show ?thesis using i h ev by (auto simp: args_def advance_advance)
      qed
    qed
  qed
qed

theorem loc_event_decode_safe_witness:
  "\<exists>ok v x'. xdr_rpc_loc_event_cb_f_type_args (\<lambda>n. n < 4096)
       (zero_xdr\<lparr>x_op := XDR_DECODE, in_len := 400\<rparr>) zero_event_cb_f_type_args = Some (ok, v, x') \<and> xdr_inv x'"
  by (rule loc_event_decode_safe)
    (auto simp: bounded_alloc_def xdr_inv_def zero_xdr_def in_at_def be64_def be32_def hi_word_def lo_word_def
      byte_n_def)

text \<open>
  C7. The arguments of an event survive the way from the modem: encoded on one handle and decoded
  on another into zeroed storage, they are the same, payload and all, for every kind of event
  except the two NMEA reports. The payload's member is the one its discriminant names, counted parts
  are null and empty or have the length they announce, the message fits, and memory is granted.
\<close>

theorem loc_event_roundtrip:
  assumes "good_event_cb_f_type_args al v" and "fits (length (enc_event_cb_f_type_args v)) x"
    and "xdr_inv x" and "x_op x = XDR_ENCODE" and "xdr_inv y" and "x_op y = XDR_DECODE"
  shows "\<exists>x'. xdr_rpc_loc_event_cb_f_type_args al x v = Some (True, v, x') \<and> xdr_inv x' \<and>
     xdr_rpc_loc_event_cb_f_type_args al (arrived x x' y) zero_event_cb_f_type_args
       = Some (True, v, (arrived x x' y)\<lparr>in_next := out_next x'\<rparr>)"
  using assms by (intro xdr_filter.transfer_arrived [OF event_cb_f_type_args_filter]) simp_all

definition demo_event :: rpc_loc_event_cb_f_type_args where
  "demo_event = \<lparr>event_cb_f_type_args_cb_id = 3, event_cb_f_type_args_loc_handle = 7,
     event_cb_f_type_args_loc_event = 0x100,
     event_cb_f_type_args_loc_event_payload = Some \<lparr>disc = 0x100, member = event_payload_u_status_report
       \<lparr>status_event_event = 1, status_event_payload = \<lparr>disc = 1, member = status_event_payload_u_engine_state 2\<rparr>\<rparr>\<rparr>\<rparr>"

lemmas demo_event_defs = demo_event_def good_event_cb_f_type_args_def enc_event_cb_f_type_args_def good_ptr_def enc_ptr_def
  good_event_payload_u_def enc_event_payload_u_def good_status_event_def enc_status_event_def
  good_status_event_payload_u_def enc_status_event_payload_u_def

theorem loc_event_roundtrip_witness:
  "\<exists>x'. xdr_rpc_loc_event_cb_f_type_args (\<lambda>_. True) zero_xdr demo_event = Some (True, demo_event, x') \<and> xdr_inv x' \<and>
     xdr_rpc_loc_event_cb_f_type_args (\<lambda>_. True) (arrived zero_xdr x' (zero_xdr\<lparr>x_op := XDR_DECODE\<rparr>)) zero_event_cb_f_type_args
       = Some (True, demo_event, (arrived zero_xdr x' (zero_xdr\<lparr>x_op := XDR_DECODE\<rparr>))\<lparr>in_next := out_next x'\<rparr>)"
  by (rule loc_event_roundtrip) (simp_all add: demo_event_defs xdr_inv_def zero_xdr_def fits_def)

text \<open>
  C35. An NMEA position report overruns its buffer: the filter decodes 1200 bytes into the 200
  bytes that \<^verbatim>\<open>loc_api_common.h\<close> declares. A message that carries all of them is a write outside
  the object (here \<open>None\<close>), whatever it says.
\<close>

theorem nmea_report_overruns:
  assumes "xdr_inv x" and "x_op x = XDR_DECODE" and "in_at (be64 RPC_LOC_EVENT_NMEA_POSITION_REPORT) x"
    and "in_next x + 8 + 4 + 1200 \<le> in_len x"
  shows "xdr_rpc_loc_event_payload_u_type al x zero_event_payload_u = None"
proof -
  let ?y = "advance 12 x"
  have q: "xdr_u_quad_t x 0 = Some (True, 8, advance 8 x)" "xdr_inv (advance 8 x)"
    using xdr_filter.decode_ok [OF quad_filter, where v = 8 and x = x and ?v0.0 = 0]
      xdr_filter.decode_inv [OF quad_filter, where v = 8 and x = x] assms by auto
  obtain a where a: "xdr_std_recv_uint32 (advance 8 x) = Some (Some a, ?y)" "xdr_inv ?y"
    by (rule xdr_std_recv_uint32_safe [OF q(2)]) (use assms(4) in \<open>auto simp: advance_advance\<close>)
  have "in_next ?y + 1200 \<le> in_len ?y" "0 \<le> in_next ?y" "in_len ?y \<le> RPCROUTER_MSGSIZE_MAX"
    using assms(4) a(2) by (auto simp: xdr_inv_def)
  then have "xdr_std_recv_bytes (zero_chars 200) 1200 ?y = None"
    by (simp add: xdr_std_recv_bytes_def int32_def in_range_def zero_chars_def)
  then have "xdr_rpc_loc_nmea_report_s_type (advance 8 x) zero_nmea_report = None"
    using a(1) assms(2)
    by (simp add: xdr_rpc_loc_nmea_report_s_type_def xdr_alias xdr_field_def xdr_u_short_def do_recv_def
        zero_nmea_report_def xdr_opaque_def)
  then show ?thesis
    using q by (simp add: xdr_rpc_loc_event_payload_u_type_def xdr_alias xdr_union_def zero_event_payload_u_def
        xdr_member_def)
qed

theorem nmea_report_overruns_witness:
  "xdr_rpc_loc_event_payload_u_type (\<lambda>_. True)
     (zero_xdr\<lparr>x_op := XDR_DECODE, in_len := 1212, in_msg := (\<lambda>i. if i = 7 then 8 else 65)(0 := 0, 1 := 0, 2 := 0, 3 := 0, 4 := 0, 5 := 0, 6 := 0)\<rparr>)
     zero_event_payload_u = None"
  by (rule nmea_report_overruns)
    (auto simp: xdr_inv_def zero_xdr_def in_at_def be64_def be32_def hi_word_def lo_word_def byte_n_def nth_Cons
      split: nat.split)

text \<open>
  The payload of a 1 Hz NMEA report is never decoded: for that discriminant the filter stops
  behind it, reports success and leaves the union untouched, whatever follows in the message. The
  interface definition gives it the member \<open>nmea_report\<close>, and the engine registers for it.
\<close>

theorem nmea_1hz_not_decoded:
  assumes "xdr_inv x" and "x_op x = XDR_DECODE" and "in_at (be64 RPC_LOC_EVENT_NMEA_1HZ_REPORT) x"
  shows "xdr_rpc_loc_event_payload_u_type al x zero_event_payload_u
     = Some (True, \<lparr>disc = RPC_LOC_EVENT_NMEA_1HZ_REPORT, member = event_payload_u_unset\<rparr>, advance 8 x)"
  using xdr_filter.decode_ok [OF event_payload_u_filter, of al "\<lparr>disc = 4, member = event_payload_u_unset\<rparr>" x zero_event_payload_u]
    assms
  by (simp add: good_event_payload_u_def enc_event_payload_u_def zero_event_payload_u_def)

theorem nmea_1hz_not_decoded_witness:
  "xdr_rpc_loc_event_payload_u_type (\<lambda>_. True)
     (zero_xdr\<lparr>x_op := XDR_DECODE, in_len := 1212, in_msg := (\<lambda>i. if i = 7 then 4 else 65)(0 := 0, 1 := 0, 2 := 0, 3 := 0, 4 := 0, 5 := 0, 6 := 0)\<rparr>)
     zero_event_payload_u
   = Some (True, \<lparr>disc = 4, member = event_payload_u_unset\<rparr>, advance 8
     (zero_xdr\<lparr>x_op := XDR_DECODE, in_len := 1212, in_msg := (\<lambda>i. if i = 7 then 4 else 65)(0 := 0, 1 := 0, 2 := 0, 3 := 0, 4 := 0, 5 := 0, 6 := 0)\<rparr>))"
  by (rule nmea_1hz_not_decoded)
    (auto simp: xdr_inv_def zero_xdr_def in_at_def be64_def be32_def hi_word_def lo_word_def byte_n_def nth_Cons
      split: nat.split)

end
