(* ===== verification/Loc_Glue.thy ===== *)
theory Loc_Glue
  imports Rpc_End Loc_Sync_Call Loc_Messages
begin

text \<open>
  The location interface as its clients see it:
  \<^verbatim>\<open>gps/loc_api/libloc_api-rpc/gen-50000/loc_api_rpc_glue.c\<close> with the client stubs of
  \<^verbatim>\<open>loc_api_clnt.c\<close> and the start of the callback server in \<^verbatim>\<open>src/loc_apicb_appinit.c\<close>. It keeps
  a table of sixteen registered callbacks and one RPC client for all of them. Calls go through
  the generated filters and \<open>clnt_call\<close>; events come back through the callback server stub, which
  hands them to the synchronous calls and to the callback of the client they are for.
\<close>

section \<open>State\<close>

text \<open>
  A function pointer is a number, \<open>None\<close> for \<open>NULL\<close>. \<open>glue_env\<close> has what is outside: the process
  id, the results of \<open>calloc\<close>, of opening the router and of \<open>pipe\<close>, what the other threads do
  during a call (see \<open>clnt_call\<close>), and \<open>e_view\<close>, how the bytes of an event payload read through the
  member \<open>ioctl_report\<close>.
\<close>

abbreviation (input) LOC_API_CB_MAX_CLIENTS :: nat where "LOC_API_CB_MAX_CLIENTS \<equiv> 16"
abbreviation (input) LOC_APIPROG :: u32 where "LOC_APIPROG \<equiv> 0x3000008C"
abbreviation (input) LOC_APIVERS :: u32 where "LOC_APIVERS \<equiv> 0x00050001"
abbreviation (input) LOC_APICBPROG :: u32 where "LOC_APICBPROG \<equiv> 0x3100008C"
abbreviation (input) LOC_APICBVERS_0001 :: u32 where "LOC_APICBVERS_0001 \<equiv> 0x00050001"
abbreviation (input) RPC_LOC_API_RPC_FAILURE :: u32 where "RPC_LOC_API_RPC_FAILURE \<equiv> -1234"
abbreviation (input) RPC_LOC_CLIENT_HANDLE_INVALID :: u32 where "RPC_LOC_CLIENT_HANDLE_INVALID \<equiv> -1"

record loc_glue_cb_entry_s_type =
  cb_id :: u32
  cb_func :: "nat option"
  cb_handle :: u32

record loc_glue =
  loc_api_clnt :: "nat option"
  loc_glue_callback_table :: "loc_glue_cb_entry_s_type list"
  g_clnts :: clnt_globals
  g_sync :: sync_data
  svrPort :: "nat option"
  g_xprts :: xprt_globals

record glue_env =
  e_pid :: u32
  e_clnt :: "nat option"
  e_alive :: bool
  e_open :: "string \<Rightarrow> int"
  e_pipe :: "(int \<times> int) option"
  e_xprt :: "nat option"
  e_svc :: svc_env
  e_write :: "int \<Rightarrow> bytes \<Rightarrow> int"
  e_before :: "CLIENT \<Rightarrow> CLIENT"
  e_wakeup :: "CLIENT \<Rightarrow> CLIENT"
  e_alloc :: "nat \<Rightarrow> bool"
  e_view :: "rpc_loc_event_payload_u_type \<Rightarrow> event_payload"

section \<open>Client stubs\<close>

definition stub_call ::
  "glue_env \<Rightarrow> u32 \<Rightarrow> 'a xdrproc \<Rightarrow> 'a \<Rightarrow> 'r xdrproc \<Rightarrow> 'r \<Rightarrow> CLIENT \<Rightarrow> (int \<times> 'r \<times> CLIENT) option" where
  "stub_call e proc xa argp xr clnt_res clnt =
     clnt_call (e_write e) (e_before e) (e_wakeup e) clnt proc xa argp xr clnt_res"

definition rpc_loc_api_null_0x00050001 :: "glue_env \<Rightarrow> u32 \<Rightarrow> CLIENT \<Rightarrow> (int \<times> u32 \<times> CLIENT) option" where
  "rpc_loc_api_null_0x00050001 e clnt_res =
     stub_call e 0 xdr_void_proc () (\<lambda>x v. Some (xdr_void, v, x)) clnt_res"

definition rpc_loc_api_rpc_glue_code_info_remote_0x00050001 ::
  "glue_env \<Rightarrow> rpc_loc_api_rpc_glue_code_info_remote_rets \<Rightarrow> CLIENT
     \<Rightarrow> (int \<times> rpc_loc_api_rpc_glue_code_info_remote_rets \<times> CLIENT) option" where
  "rpc_loc_api_rpc_glue_code_info_remote_0x00050001 e clnt_res =
     stub_call e 1 xdr_void_proc () xdr_rpc_loc_api_rpc_glue_code_info_remote_rets clnt_res"

definition rpc_loc_open_0x00050001 ::
  "glue_env \<Rightarrow> rpc_loc_open_args \<Rightarrow> rpc_loc_open_rets \<Rightarrow> CLIENT \<Rightarrow> (int \<times> rpc_loc_open_rets \<times> CLIENT) option" where
  "rpc_loc_open_0x00050001 e argp clnt_res =
     stub_call e 2 xdr_rpc_loc_open_args argp xdr_rpc_loc_open_rets clnt_res"

definition rpc_loc_close_0x00050001 ::
  "glue_env \<Rightarrow> rpc_loc_close_args \<Rightarrow> rpc_loc_close_rets \<Rightarrow> CLIENT \<Rightarrow> (int \<times> rpc_loc_close_rets \<times> CLIENT) option" where
  "rpc_loc_close_0x00050001 e argp clnt_res =
     stub_call e 3 xdr_rpc_loc_close_args argp xdr_rpc_loc_close_rets clnt_res"

definition rpc_loc_start_fix_0x00050001 ::
  "glue_env \<Rightarrow> rpc_loc_start_fix_args \<Rightarrow> rpc_loc_start_fix_rets \<Rightarrow> CLIENT
     \<Rightarrow> (int \<times> rpc_loc_start_fix_rets \<times> CLIENT) option" where
  "rpc_loc_start_fix_0x00050001 e argp clnt_res =
     stub_call e 4 xdr_rpc_loc_start_fix_args argp xdr_rpc_loc_start_fix_rets clnt_res"

definition rpc_loc_stop_fix_0x00050001 ::
  "glue_env \<Rightarrow> rpc_loc_stop_fix_args \<Rightarrow> rpc_loc_stop_fix_rets \<Rightarrow> CLIENT
     \<Rightarrow> (int \<times> rpc_loc_stop_fix_rets \<times> CLIENT) option" where
  "rpc_loc_stop_fix_0x00050001 e argp clnt_res =
     stub_call e 5 xdr_rpc_loc_stop_fix_args argp xdr_rpc_loc_stop_fix_rets clnt_res"

definition rpc_loc_ioctl_0x00050001 ::
  "glue_env \<Rightarrow> rpc_loc_ioctl_args \<Rightarrow> rpc_loc_ioctl_rets \<Rightarrow> CLIENT \<Rightarrow> (int \<times> rpc_loc_ioctl_rets \<times> CLIENT) option" where
  "rpc_loc_ioctl_0x00050001 e argp clnt_res =
     stub_call e 6 (xdr_rpc_loc_ioctl_args (e_alloc e)) argp xdr_rpc_loc_ioctl_rets clnt_res"

definition rpc_loc_api_api_versions_0x00050001 ::
  "glue_env \<Rightarrow> rpc_loc_api_api_versions_rets \<Rightarrow> CLIENT \<Rightarrow> (int \<times> rpc_loc_api_api_versions_rets \<times> CLIENT) option" where
  "rpc_loc_api_api_versions_0x00050001 e clnt_res =
     stub_call e 0xFFFFFFFF xdr_void_proc () (xdr_rpc_loc_api_api_versions_rets (e_alloc e)) clnt_res"

text \<open>
  A call of a stub with the client of the glue layer. The result structures are uninitialised
  variables in the code; the filters only write them, and they are shown as zeros.
\<close>

definition with_clnt ::
  "loc_glue \<Rightarrow> nat \<Rightarrow> (CLIENT \<Rightarrow> (int \<times> 'r \<times> CLIENT) option) \<Rightarrow> (int \<times> 'r \<times> loc_glue) option" where
  "with_clnt g a call =
     do { c \<leftarrow> mem (g_clnts g) a; (stat, r, c) \<leftarrow> call c;
          Some (stat, r, g\<lparr>g_clnts := (g_clnts g)\<lparr>mem := (mem (g_clnts g))(a \<mapsto> c)\<rparr>\<rparr>) }"

section \<open>The callback server\<close>

definition loc_apicb_app_init :: "glue_env \<Rightarrow> loc_glue \<Rightarrow> (int \<times> loc_glue) option" where
  "loc_apicb_app_init e g =
    (let (port, xs) = (case svrPort g of Some p \<Rightarrow> (Some p, g_xprts g) | None \<Rightarrow> svcrtr_create (e_xprt e) (g_xprts g));
         g = g\<lparr>svrPort := port, g_xprts := xs\<rparr>
     in case port of
          None \<Rightarrow> Some (-1, g)
        | Some p \<Rightarrow>
            let xs = xprt_register (Some p) xs in
            do { xp \<leftarrow> xprts xs p;
                 (ok, xp) \<leftarrow> svc_register (e_svc e) xp LOC_APICBPROG LOC_APICBVERS_0001 1;
                 Some (if ok then 0 else -1, g\<lparr>g_xprts := xs\<lparr>xprts := (xprts xs)(p \<mapsto> xp)\<rparr>\<rparr>) })"

definition loc_apicb_app_deinit :: "loc_glue \<Rightarrow> loc_glue" where
  "loc_apicb_app_deinit g =
    (case svrPort g of
       None \<Rightarrow> g
     | Some p \<Rightarrow> g\<lparr>g_xprts := svc_destroy p (xprt_unregister (Some p) (g_xprts g)), svrPort := None\<rparr>)"

section \<open>Events\<close>

text \<open>
  Without a payload the synchronous calls read through a null pointer as soon as a slot that is
  in use waits for the event: \<open>loc_match_callback\<close> looks into it, or \<open>memcpy\<close> copies from it.
\<close>

definition null_payload_fault :: "int \<Rightarrow> u64 \<Rightarrow> sync_data \<Rightarrow> bool" where
  "null_payload_fault h ev d \<longleftrightarrow> in_use d \<and>
     (\<exists>i < sd_size d. slot_in_use d ! i \<and> loc_handle (slots d ! i) = h \<and>
        ev AND loc_cb_wait_event_mask (slots d ! i) \<noteq> 0 \<and>
        (ev = RPC_LOC_EVENT_IOCTL_REPORT \<and> ioctl_type (slots d ! i) \<noteq> 0 \<or>
         \<not> loc_cb_has_arrived (slots d ! i)))"

definition process_sync_event ::
  "glue_env \<Rightarrow> int \<Rightarrow> u64 \<Rightarrow> rpc_loc_event_payload_u_type option \<Rightarrow> sync_data \<Rightarrow> sync_data option" where
  "process_sync_event e h ev pl d =
    (case pl of
       Some p \<Rightarrow> Some (loc_api_callback_process_sync_call h ev (e_view e p) d)
     | None \<Rightarrow> if null_payload_fault h ev d then None
               else Some (loc_api_callback_process_sync_call h ev (e_view e zero_event_payload_u) d))"

text \<open>
  \<open>app\<close> are the callbacks of the clients: what the function \<open>f\<close> returns and does to the state \<open>w\<close>
  of the application. The result is the return value, the result for the modem, \<open>w\<close> and the
  state. Index 16 passes the test of the code and is outside the table. A callback does not call the glue
  itself, so that the table stays as it is while it runs.
\<close>

definition rpc_loc_event_cb_f_type_svc ::
  "glue_env \<Rightarrow> (nat \<Rightarrow> u32 \<Rightarrow> u64 \<Rightarrow> rpc_loc_event_payload_u_type option \<Rightarrow> 'w \<Rightarrow> u32 \<times> 'w)
     \<Rightarrow> rpc_loc_event_cb_f_type_args \<Rightarrow> 'w \<Rightarrow> loc_glue
     \<Rightarrow> (int \<times> rpc_loc_event_cb_f_type_rets \<times> 'w \<times> loc_glue) option" where
  "rpc_loc_event_cb_f_type_svc e app argp w g =
    (let index = unat (event_cb_f_type_args_cb_id argp AND 0xFFFF);
         h = event_cb_f_type_args_loc_handle argp;
         ev = event_cb_f_type_args_loc_event argp;
         pl = event_cb_f_type_args_loc_event_payload argp
     in if index > LOC_API_CB_MAX_CLIENTS
        then Some (1, \<lparr>event_cb_f_type_rets_loc_event_cb_f_type_result = 0\<rparr>, w, g)
        else if \<not> index < length (loc_glue_callback_table g) then None
        else case cb_func (loc_glue_callback_table g ! index) of
               None \<Rightarrow> Some (1, \<lparr>event_cb_f_type_rets_loc_event_cb_f_type_result = 0\<rparr>, w, g)
             | Some _ \<Rightarrow> do {
                 d \<leftarrow> process_sync_event e (sint h) ev pl (g_sync g);
                 let g = g\<lparr>g_sync := d\<rparr> in do {
                 f \<leftarrow> cb_func (loc_glue_callback_table g ! index);
                 let (rc, w) = app f h ev pl w
                 in Some (1, \<lparr>event_cb_f_type_rets_loc_event_cb_f_type_result = rc\<rparr>, w, g) } })"

section \<open>Starting\<close>

definition fresh_table :: "u32 \<Rightarrow> loc_glue_cb_entry_s_type list" where
  "fresh_table pid =
     map (\<lambda>i. \<lparr>cb_id = word_of_nat i OR push_bit 16 pid, cb_func = None, cb_handle = -1\<rparr>)
       [0..<LOC_API_CB_MAX_CLIENTS]"

definition loc_api_glue_init :: "glue_env \<Rightarrow> loc_glue \<Rightarrow> (int \<times> loc_glue) option" where
  "loc_api_glue_init e g =
    (if loc_api_clnt g \<noteq> None then Some (1, g)
     else let g = g\<lparr>loc_glue_callback_table := fresh_table (e_pid e)\<rparr>
          in do {
            (c, cs) \<leftarrow> clnt_create (e_clnt e) (e_alive e) (e_open e) (e_pipe e) LOC_APIPROG LOC_APIVERS (g_clnts g);
            let g = g\<lparr>loc_api_clnt := c, g_clnts := cs\<rparr>
            in if c = None then Some (0, g)
               else do { (rc, g) \<leftarrow> loc_apicb_app_init e (g\<lparr>g_sync := loc_api_sync_call_init (g_sync g)\<rparr>);
                         Some (if rc \<ge> 0 then 1 else 0, g) } })"

section \<open>Calls\<close>

text \<open>The first loop of \<open>loc_open\<close>, then the second: an entry with this callback, or a free one.\<close>

definition open_index :: "nat option \<Rightarrow> loc_glue_cb_entry_s_type list \<Rightarrow> nat option" where
  "open_index cb tab =
    (case find (\<lambda>i. cb_func (tab ! i) = cb) [0..<LOC_API_CB_MAX_CLIENTS] of
       Some i \<Rightarrow> Some i
     | None \<Rightarrow> find (\<lambda>i. cb_func (tab ! i) = None) [0..<LOC_API_CB_MAX_CLIENTS])"

definition upd_entry :: "nat \<Rightarrow> (loc_glue_cb_entry_s_type \<Rightarrow> loc_glue_cb_entry_s_type) \<Rightarrow> loc_glue \<Rightarrow> loc_glue" where
  "upd_entry i f g =
     g\<lparr>loc_glue_callback_table := (loc_glue_callback_table g)[i := f (loc_glue_callback_table g ! i)]\<rparr>"

definition loc_open :: "glue_env \<Rightarrow> u64 \<Rightarrow> nat option \<Rightarrow> loc_glue \<Rightarrow> (u32 \<times> loc_glue) option" where
  "loc_open e event_reg_mask event_callback g =
    (case loc_api_clnt g of
       None \<Rightarrow> Some (RPC_LOC_API_RPC_FAILURE, g)
     | Some a \<Rightarrow>
        (case open_index event_callback (loc_glue_callback_table g) of
           None \<Rightarrow> Some (RPC_LOC_CLIENT_HANDLE_INVALID, g)
         | Some i \<Rightarrow>
            let g = upd_entry i (\<lambda>en. en\<lparr>cb_func := event_callback\<rparr>) g;
                args = \<lparr>open_args_event_reg_mask = event_reg_mask,
                        open_args_event_callback = cb_id (loc_glue_callback_table g ! i)\<rparr>
            in do {
              (stat, rets, g) \<leftarrow> with_clnt g a (rpc_loc_open_0x00050001 e args zero_open_rets);
              if stat \<noteq> RPC_SUCCESS then Some (RPC_LOC_API_RPC_FAILURE, g)
              else Some (open_rets_loc_open_result rets,
                         upd_entry i (\<lambda>en. en\<lparr>cb_handle := open_rets_loc_open_result rets\<rparr>) g) }))"

definition close_entry :: "u32 \<Rightarrow> loc_glue \<Rightarrow> loc_glue" where
  "close_entry handle g =
    (case find (\<lambda>i. cb_handle (loc_glue_callback_table g ! i) = handle) [0..<LOC_API_CB_MAX_CLIENTS] of
       None \<Rightarrow> g
     | Some i \<Rightarrow> upd_entry i (\<lambda>en. en\<lparr>cb_func := None, cb_handle := -1\<rparr>) g)"

definition loc_close :: "glue_env \<Rightarrow> u32 \<Rightarrow> loc_glue \<Rightarrow> (u32 \<times> loc_glue) option" where
  "loc_close e handle g =
    (case loc_api_clnt g of
       None \<Rightarrow> Some (RPC_LOC_API_RPC_FAILURE, g)
     | Some a \<Rightarrow> do {
         (stat, rets, g) \<leftarrow> with_clnt g a (rpc_loc_close_0x00050001 e \<lparr>close_args_handle = handle\<rparr> zero_close_rets);
         let g = close_entry handle g
         in if stat \<noteq> RPC_SUCCESS then Some (RPC_LOC_API_RPC_FAILURE, g)
            else do { cs \<leftarrow> clnt_destroy (loc_api_clnt g) (g_clnts g);
                      Some (close_rets_loc_close_result rets, g\<lparr>g_clnts := cs, loc_api_clnt := None\<rparr>) } })"

definition loc_start_fix :: "glue_env \<Rightarrow> u32 \<Rightarrow> loc_glue \<Rightarrow> (u32 \<times> loc_glue) option" where
  "loc_start_fix e handle g =
    (case loc_api_clnt g of
       None \<Rightarrow> Some (RPC_LOC_API_RPC_FAILURE, g)
     | Some a \<Rightarrow> do {
         (stat, rets, g) \<leftarrow> with_clnt g a
            (rpc_loc_start_fix_0x00050001 e \<lparr>start_fix_args_handle = handle\<rparr> zero_start_fix_rets);
         Some (if stat \<noteq> RPC_SUCCESS then RPC_LOC_API_RPC_FAILURE
               else start_fix_rets_loc_start_fix_result rets, g) })"

definition loc_stop_fix :: "glue_env \<Rightarrow> u32 \<Rightarrow> loc_glue \<Rightarrow> (u32 \<times> loc_glue) option" where
  "loc_stop_fix e handle g =
    (case loc_api_clnt g of
       None \<Rightarrow> Some (RPC_LOC_API_RPC_FAILURE, g)
     | Some a \<Rightarrow> do {
         (stat, rets, g) \<leftarrow> with_clnt g a
            (rpc_loc_stop_fix_0x00050001 e \<lparr>stop_fix_args_handle = handle\<rparr> zero_stop_fix_rets);
         Some (if stat \<noteq> RPC_SUCCESS then RPC_LOC_API_RPC_FAILURE
               else stop_fix_rets_loc_stop_fix_result rets, g) })"

text \<open>
  \<open>loc_ioctl\<close> fills in the discriminants: of the data, and of the server address inside it for the
  four requests that set one. Zeroed data read as a server address of zeros; the data of another
  member is not modelled and is \<open>None\<close>.
\<close>

definition fill_server_disc :: "rpc_loc_ioctl_data_u_type_u \<Rightarrow> rpc_loc_ioctl_data_u_type_u option" where
  "fill_server_disc u =
    (let fill = (\<lambda>s. ioctl_data_u_server_addr
           (s\<lparr>server_info_addr_info := (server_info_addr_info s)\<lparr>disc := server_info_addr_type s\<rparr>\<rparr>))
     in case u of
          ioctl_data_u_server_addr s \<Rightarrow> Some (fill s)
        | ioctl_data_u_unset \<Rightarrow> Some (fill zero_server_info)
        | _ \<Rightarrow> None)"

definition fill_discs :: "u32 \<Rightarrow> rpc_loc_ioctl_data_u_type \<Rightarrow> rpc_loc_ioctl_data_u_type option" where
  "fill_discs ty data =
    (let data = data\<lparr>disc := ty\<rparr>
     in if ty \<in> {RPC_LOC_IOCTL_SET_CDMA_PDE_SERVER_ADDR, RPC_LOC_IOCTL_SET_CDMA_MPC_SERVER_ADDR,
             RPC_LOC_IOCTL_SET_UMTS_SLP_SERVER_ADDR, RPC_LOC_IOCTL_SET_CUSTOM_PDE_SERVER_ADDR}
        then do { u \<leftarrow> fill_server_disc (member data); Some (data\<lparr>member := u\<rparr>) }
        else Some data)"

definition ioctl_request :: "u32 \<Rightarrow> u32 \<Rightarrow> rpc_loc_ioctl_data_u_type option \<Rightarrow> rpc_loc_ioctl_args option" where
  "ioctl_request handle ty ioctl_data =
    (case ioctl_data of
       None \<Rightarrow> Some \<lparr>ioctl_args_handle = handle, ioctl_args_ioctl_type = ty, ioctl_args_ioctl_data = None\<rparr>
     | Some data \<Rightarrow> do {
         data \<leftarrow> fill_discs ty data;
         Some \<lparr>ioctl_args_handle = handle, ioctl_args_ioctl_type = ty, ioctl_args_ioctl_data = Some data\<rparr> })"

text \<open>The data are the caller's; they come back with the discriminants filled in.\<close>

definition loc_ioctl ::
  "glue_env \<Rightarrow> u32 \<Rightarrow> u32 \<Rightarrow> rpc_loc_ioctl_data_u_type option \<Rightarrow> loc_glue
     \<Rightarrow> (u32 \<times> rpc_loc_ioctl_data_u_type option \<times> loc_glue) option" where
  "loc_ioctl e handle ty ioctl_data g =
    (case loc_api_clnt g of
       None \<Rightarrow> Some (RPC_LOC_API_RPC_FAILURE, ioctl_data, g)
     | Some a \<Rightarrow> do {
         args \<leftarrow> ioctl_request handle ty ioctl_data;
         (stat, rets, g) \<leftarrow> with_clnt g a (rpc_loc_ioctl_0x00050001 e args zero_ioctl_rets);
         Some (if stat \<noteq> RPC_SUCCESS then RPC_LOC_API_RPC_FAILURE else ioctl_rets_loc_ioctl_result rets,
               ioctl_args_ioctl_data args, g) })"

text \<open>\<open>rets\<close> is an uninitialised variable that no filter writes: \<open>junk\<close> is what it holds.\<close>

definition loc_api_null :: "glue_env \<Rightarrow> u32 \<Rightarrow> loc_glue \<Rightarrow> (u32 \<times> loc_glue) option" where
  "loc_api_null e junk g =
    (case loc_api_clnt g of
       None \<Rightarrow> Some (RPC_LOC_API_RPC_FAILURE, g)
     | Some a \<Rightarrow> do {
         (stat, rets, g) \<leftarrow> with_clnt g a (rpc_loc_api_null_0x00050001 e junk);
         Some (if stat \<noteq> RPC_SUCCESS then RPC_LOC_API_RPC_FAILURE else rets, g) })"

section \<open>The table\<close>

text \<open>Sixteen entries; the low half of the id of an entry is its index.\<close>

definition glue_inv :: "loc_glue \<Rightarrow> bool" where
  "glue_inv g \<longleftrightarrow> length (loc_glue_callback_table g) = LOC_API_CB_MAX_CLIENTS \<and>
     (\<forall>i < LOC_API_CB_MAX_CLIENTS. unat (cb_id (loc_glue_callback_table g ! i) AND 0xFFFF) = i)"

lemma low_half: "i < 16 \<Longrightarrow> unat ((word_of_nat i OR push_bit 16 pid) AND 0xFFFF :: u32) = i"
proof -
  assume i: "i < 16"
  have m: "(0xFFFF :: u32) = mask 16" by (simp add: mask_eq_exp_minus_1)
  have "take_bit 16 (word_of_nat i OR push_bit 16 pid) = (take_bit 16 (word_of_nat i) :: u32)"
    by (rule bit_word_eqI) (auto simp: bit_simps)
  moreover have "unat (take_bit 16 (word_of_nat i) :: u32) = i"
    using i by (simp add: unsigned_take_bit_eq unat_word_of_nat_32 take_bit_nat_eq_self)
  ultimately show ?thesis by (simp only: m take_bit_eq_mask [symmetric])
qed

lemma glue_inv_fresh: "loc_glue_callback_table g = fresh_table pid \<Longrightarrow> glue_inv g"
  by (simp add: glue_inv_def fresh_table_def low_half)

lemma glue_inv_upd:
  "glue_inv g \<Longrightarrow> (\<And>en. cb_id (f en) = cb_id en) \<Longrightarrow> glue_inv (upd_entry i f g)"
  by (cases "i < length (loc_glue_callback_table g)")
    (auto simp: glue_inv_def upd_entry_def nth_list_update list_update_beyond)

lemma glue_inv_other [simp]:
  "glue_inv (g\<lparr>g_clnts := cs\<rparr>) = glue_inv g" "glue_inv (g\<lparr>loc_api_clnt := c\<rparr>) = glue_inv g"
  "glue_inv (g\<lparr>g_sync := d\<rparr>) = glue_inv g" "glue_inv (g\<lparr>svrPort := p\<rparr>) = glue_inv g"
  "glue_inv (g\<lparr>g_xprts := x\<rparr>) = glue_inv g"
  by (simp_all add: glue_inv_def)

lemma with_clnt_table:
  "with_clnt g a call = Some (stat, r, g') \<Longrightarrow>
     loc_glue_callback_table g' = loc_glue_callback_table g \<and> loc_api_clnt g' = loc_api_clnt g
     \<and> glue_inv g' = glue_inv g"
  by (auto simp: with_clnt_def split: bind_splits)

lemma find_upt_less: "find P [0..<n] = Some i \<Longrightarrow> i < n \<and> P i"
  by (auto simp: find_Some_iff)

lemma open_index_less: "open_index cb tab = Some i \<Longrightarrow> i < 16 \<and> (cb_func (tab ! i) = cb \<or> cb_func (tab ! i) = None)"
  unfolding open_index_def by (auto split: option.splits dest!: find_upt_less)

lemma app_init_table:
  "loc_apicb_app_init e g = Some (rc, g') \<Longrightarrow> loc_glue_callback_table g' = loc_glue_callback_table g"
  by (auto simp: loc_apicb_app_init_def Let_def split: bind_splits option.splits prod.splits)

lemma glue_init_clears:
  assumes "loc_api_glue_init e g = Some (rc, g')" and "k < 16" and "loc_api_clnt g = None"
  shows "cb_func (loc_glue_callback_table g' ! k) = None"
proof -
  have "loc_glue_callback_table g' = fresh_table (e_pid e)"
    using assms(1,3)
    by (auto simp: loc_api_glue_init_def Let_def split: bind_splits if_splits dest!: app_init_table)
  then show ?thesis using assms(2) by (simp add: fresh_table_def)
qed

lemma close_entry_other:
  assumes "cb_handle (loc_glue_callback_table g ! k) \<noteq> handle"
  shows "loc_glue_callback_table (close_entry handle g) ! k = loc_glue_callback_table g ! k"
proof (cases "find (\<lambda>i. cb_handle (loc_glue_callback_table g ! i) = handle) [0..<16]")
  case None
  then show ?thesis by (simp add: close_entry_def)
next
  case (Some i)
  then have "i \<noteq> k" using assms find_upt_less [OF Some] by auto
  then show ?thesis using Some by (simp add: close_entry_def upd_entry_def)
qed

section \<open>Properties\<close>

text \<open>
  C13. Opening registers the callback. With a client and room in the table \<open>loc_open\<close> stores the
  callback in the entry it found for it, whether or not the modem answers; no other entry
  changes, no id changes, and on success the entry has the handle that the modem gave.
\<close>

theorem loc_open_registers:
  assumes "glue_inv g" and "loc_api_clnt g = Some a" and "open_index (Some f) (loc_glue_callback_table g) = Some i"
    and "loc_open e ev (Some f) g = Some (h, g')"
  shows "i < 16 \<and> cb_func (loc_glue_callback_table g' ! i) = Some f \<and> glue_inv g' \<and>
     map cb_id (loc_glue_callback_table g') = map cb_id (loc_glue_callback_table g) \<and>
     (\<forall>k. k \<noteq> i \<longrightarrow> loc_glue_callback_table g' ! k = loc_glue_callback_table g ! k) \<and>
     (h = RPC_LOC_API_RPC_FAILURE \<or> cb_handle (loc_glue_callback_table g' ! i) = h)"
proof -
  let ?g = "upd_entry i (\<lambda>en. en\<lparr>cb_func := Some f\<rparr>) g"
  have i: "i < 16" using open_index_less [OF assms(3)] by simp
  have len: "length (loc_glue_callback_table g) = 16" using assms(1) by (simp add: glue_inv_def)
  obtain args stat rets g1 where c: "with_clnt ?g a (rpc_loc_open_0x00050001 e args zero_open_rets) = Some (stat, rets, g1)"
    "(h, g') = (if stat \<noteq> RPC_SUCCESS then (RPC_LOC_API_RPC_FAILURE, g1)
       else (open_rets_loc_open_result rets, upd_entry i (\<lambda>en. en\<lparr>cb_handle := open_rets_loc_open_result rets\<rparr>) g1))"
    using assms(2-4) by (auto simp: loc_open_def Let_def split: bind_splits if_splits)
  have inv: "glue_inv ?g" using assms(1) by (rule glue_inv_upd) simp
  note t = with_clnt_table [OF c(1)]
  have "glue_inv g'" using c(2) t inv by (auto intro!: glue_inv_upd split: if_splits)
  then show ?thesis
    using c(2) t i len by (auto simp: upd_entry_def map_update list_update_same_conv split: if_splits)
qed

text \<open>A client whose modem answers every call with the word \<open>r\<close>.\<close>

definition demo_clnt :: CLIENT where
  "demo_clnt = demo_client\<lparr>c_xdr := (c_xdr demo_client)\<lparr>x_prog := LOC_APIPROG, x_vers := LOC_APIVERS\<rparr>\<rparr>"

definition demo_env :: "u32 \<Rightarrow> glue_env" where
  "demo_env r = \<lparr>e_pid = 77, e_clnt = Some 1, e_alive = True, e_open = (\<lambda>_. 3), e_pipe = Some (4, 5), e_xprt = Some 2,
     e_svc = \<lparr>env_alloc = True, env_open = (\<lambda>_. 6), env_register = (\<lambda>_ _ _. 0)\<rparr>,
     e_write = (\<lambda>_ bs. int (length bs)), e_before = id,
     e_wakeup = (\<lambda>c. c\<lparr>c_xdr := deliver (reply_msg demo_clnt (be32 r)) (c_xdr c)\<rparr>),
     e_alloc = (\<lambda>_. True), e_view = (\<lambda>_. zero_payload)\<rparr>"

definition demo_glue :: loc_glue where
  "demo_glue = \<lparr>loc_api_clnt = Some 1, loc_glue_callback_table = fresh_table 77,
     g_clnts = \<lparr>clients = [1], mem = [1 \<mapsto> demo_clnt], num_clients = 1, router_fd = 3, wakeup_pipe = Some (4, 5),
       rx_running = True, open_fds = [3, 4, 5, 0]\<rparr>,
     g_sync = zero_data, svrPort = None, g_xprts = \<lparr>the_xprt = None, xprt_refcount = 0, xprts = Map.empty\<rparr>\<rparr>"

lemma demo_glue_inv: "glue_inv demo_glue"
  by (rule glue_inv_fresh [where pid = 77]) (simp add: demo_glue_def)

text \<open>A call of a procedure with one word as its result.\<close>

lemma with_clnt_ok:
  assumes fa: "xdr_filter aproc aenc agood aready" and fr: "xdr_filter rproc renc rgood (\<lambda>_ _. True)"
    and "agood v" and "rgood w" and "length (aenc v) + 40 \<le> 18432" and "length (renc w) + 24 \<le> 18432"
    and c: "mem (g_clnts g) a = Some c" and "xdr_inv (c_xdr c)" and "c_in_reset c = 0"
    and "writes_all (e_write e)" and "e_before e = id"
    and "answers (e_wakeup e) (call_msg c proc (aenc v)) (reply_msg c (renc w))"
  shows "\<exists>g'. with_clnt g a (stub_call e proc aproc v rproc r0) = Some (RPC_SUCCESS, w, g')"
  using clnt_call_ok [OF fa fr assms(3,4) _ assms(5,6,8,9,10,12), of r0] c assms(11)
  by (auto simp: with_clnt_def stub_call_def)

lemma demo_open: "\<exists>g'. loc_open (demo_env 9) 1 (Some 42) demo_glue = Some (9, g')"
proof -
  let ?g = "upd_entry 0 (\<lambda>en. en\<lparr>cb_func := Some 42\<rparr>) demo_glue"
  let ?a = "\<lparr>open_args_event_reg_mask = 1, open_args_event_callback = cb_id (loc_glue_callback_table ?g ! 0)\<rparr>"
  have "\<exists>g'. with_clnt ?g 1 (rpc_loc_open_0x00050001 (demo_env 9) ?a zero_open_rets)
      = Some (RPC_SUCCESS, \<lparr>open_rets_loc_open_result = 9\<rparr>, g')"
    unfolding rpc_loc_open_0x00050001_def
    by (rule with_clnt_ok [OF open_args_filter open_rets_filter, where c = demo_clnt])
      (simp_all add: good_open_args_def enc_open_args_def good_open_rets_def enc_open_rets_def upd_entry_def demo_glue_def
        demo_env_def demo_clnt_def demo_client_def xdr_inv_def zero_xdr_def writes_all_def answers_def)
  moreover have "open_index (Some 42) (loc_glue_callback_table demo_glue) = Some 0"
    by (simp add: open_index_def demo_glue_def fresh_table_def upt_rec)
  ultimately show ?thesis by (auto simp: loc_open_def demo_glue_def Let_def)
qed

theorem loc_open_registers_witness:
  "\<exists>g'. loc_open (demo_env 9) 1 (Some 42) demo_glue = Some (9, g') \<and>
     cb_func (loc_glue_callback_table g' ! 0) = Some 42 \<and> cb_handle (loc_glue_callback_table g' ! 0) = 9"
proof -
  obtain g' where o: "loc_open (demo_env 9) 1 (Some 42) demo_glue = Some (9, g')" using demo_open by blast
  have "open_index (Some 42) (loc_glue_callback_table demo_glue) = Some 0"
    by (simp add: open_index_def demo_glue_def fresh_table_def upt_rec)
  then show ?thesis
    using loc_open_registers [OF demo_glue_inv _ _ o, of 1 0] o by (auto simp: demo_glue_def)
qed

text \<open>
  C8. A request is answered with what the modem says: with a client in order, \<open>loc_ioctl\<close> sends a
  call of procedure 6 whose arguments are the encoded request, its discriminants filled in, and
  when the reply to exactly that message carries the word \<open>r\<close> it returns \<open>r\<close> and the filled-in data.
\<close>

theorem loc_ioctl_request_reply:
  assumes "loc_api_clnt g = Some a" and "mem (g_clnts g) a = Some c" and "xdr_inv (c_xdr c)" and "c_in_reset c = 0"
    and "writes_all (e_write e)" and "e_before e = id"
    and "ioctl_request handle ty data = Some args" and "good_ioctl_args (e_alloc e) args"
    and "length (enc_ioctl_args args) + 40 \<le> 18432"
    and "answers (e_wakeup e) (call_msg c 6 (enc_ioctl_args args)) (reply_msg c (be32 r))"
  shows "\<exists>g'. loc_ioctl e handle ty data g = Some (r, ioctl_args_ioctl_data args, g')"
proof -
  let ?r = "\<lparr>ioctl_rets_loc_ioctl_result = r\<rparr>"
  have e: "enc_ioctl_rets ?r = be32 r" by (simp add: enc_ioctl_rets_def)
  obtain g' where "with_clnt g a (rpc_loc_ioctl_0x00050001 e args zero_ioctl_rets) = Some (RPC_SUCCESS, ?r, g')"
    unfolding rpc_loc_ioctl_0x00050001_def
    using with_clnt_ok [OF ioctl_args_filter ioctl_rets_filter, of "e_alloc e" args ?r g a c e 6 zero_ioctl_rets] assms
    by (auto simp: e good_ioctl_rets_def)
  then show ?thesis using assms(1,7) by (simp add: loc_ioctl_def)
qed

definition demo_server_data :: "u32 \<Rightarrow> u32 \<Rightarrow> rpc_loc_ioctl_data_u_type" where
  "demo_server_data d1 d2 = \<lparr>disc = d1, member = ioctl_data_u_server_addr \<lparr>server_info_addr_type = 1,
     server_info_addr_info = \<lparr>disc = d2, member = server_addr_u_ipv4
       \<lparr>server_addr_ipv4_addr = 0x0A000001, server_addr_ipv4_port = 7276\<rparr>\<rparr>\<rparr>\<rparr>"

theorem loc_ioctl_request_reply_witness:
  "\<exists>g'. loc_ioctl (demo_env 9) 5 810 (Some (demo_server_data 0 0)) demo_glue = Some (9, Some (demo_server_data 810 1), g')"
proof -
  let ?a = "\<lparr>ioctl_args_handle = 5, ioctl_args_ioctl_type = 810, ioctl_args_ioctl_data = Some (demo_server_data 810 1)\<rparr>"
  have "ioctl_request 5 810 (Some (demo_server_data 0 0)) = Some ?a"
    by (simp add: ioctl_request_def fill_discs_def fill_server_disc_def demo_server_data_def)
  moreover have "good_ioctl_args (\<lambda>_. True) ?a" "length (enc_ioctl_args ?a) + 40 \<le> 18432"
    by (simp_all add: good_ioctl_args_def enc_ioctl_args_def good_ptr_def enc_ptr_def demo_server_data_def
        good_ioctl_data_u_def enc_ioctl_data_u_def good_server_info_def enc_server_info_def good_server_addr_u_def
        enc_server_addr_u_def good_server_addr_ipv4_def enc_server_addr_ipv4_def)
  ultimately have "\<exists>g'. loc_ioctl (demo_env 9) 5 810 (Some (demo_server_data 0 0)) demo_glue
      = Some (9, ioctl_args_ioctl_data ?a, g')"
    by (intro loc_ioctl_request_reply [where a = 1 and c = demo_clnt])
      (simp_all add: demo_glue_def demo_env_def demo_clnt_def demo_client_def xdr_inv_def zero_xdr_def writes_all_def answers_def)
  then show ?thesis by simp
qed

text \<open>The service routine of the callback server, without its effect on the state.\<close>

definition event_service ::
  "glue_env \<Rightarrow> (nat \<Rightarrow> u32 \<Rightarrow> u64 \<Rightarrow> rpc_loc_event_payload_u_type option \<Rightarrow> 'w \<Rightarrow> u32 \<times> 'w) \<Rightarrow> 'w \<Rightarrow> loc_glue
     \<Rightarrow> rpc_loc_event_cb_f_type_args \<Rightarrow> int \<times> rpc_loc_event_cb_f_type_rets" where
  "event_service e app w g argp =
    (case rpc_loc_event_cb_f_type_svc e app argp w g of
       Some (retval, result, _) \<Rightarrow> (retval, result)
     | None \<Rightarrow> (0, zero_event_cb_f_type_rets))"

lemma event_dispatch:
  assumes "glue_inv g" and "i < 16" and "cb_func (loc_glue_callback_table g ! i) = Some f"
    and "event_cb_f_type_args_cb_id v = cb_id (loc_glue_callback_table g ! i)"
    and "event_cb_f_type_args_loc_event_payload v = Some p"
    and "app f (event_cb_f_type_args_loc_handle v) (event_cb_f_type_args_loc_event v) (Some p) w = (rc, w')"
  shows "rpc_loc_event_cb_f_type_svc e app v w g
     = Some (1, \<lparr>event_cb_f_type_rets_loc_event_cb_f_type_result = rc\<rparr>, w',
         g\<lparr>g_sync := loc_api_callback_process_sync_call (sint (event_cb_f_type_args_loc_handle v))
            (event_cb_f_type_args_loc_event v) (e_view e p) (g_sync g)\<rparr>)"
  using assms
  by (simp add: rpc_loc_event_cb_f_type_svc_def glue_inv_def process_sync_event_def)

text \<open>
  C1. An event reaches the callback it is for. When the modem calls the callback server with the id
  of an entry in which \<open>f\<close> is registered, the arguments cross the RPC layer unchanged, the
  synchronous calls see the event, exactly \<open>f\<close> runs on the handle, the event and the payload that
  the modem sent, and what \<open>f\<close> returns is the result of the modem's call. This holds for an event
  with a payload that is not an NMEA report (position or 1 Hz), whose member is the one its
  discriminant names and whose counted parts have the length they announce, in a message of
  at most 18432 bytes, when memory is granted and the transport writes whole messages
  and is not being reset. (An NMEA position report overruns its buffer, and the payload
  of a 1 Hz NMEA report is not transferred.)
\<close>

theorem loc_event_delivery:
  assumes "glue_inv g" and "i < 16" and "cb_func (loc_glue_callback_table g ! i) = Some f"
    and "event_cb_f_type_args_cb_id v = cb_id (loc_glue_callback_table g ! i)"
    and "event_cb_f_type_args_loc_event_payload v = Some p"
    and "app f (event_cb_f_type_args_loc_handle v) (event_cb_f_type_args_loc_event v) (Some p) w = (rc, w')"
    and "good_event_cb_f_type_args al v" and "length (enc_event_cb_f_type_args v) + 40 \<le> 18432"
    and "xdr_inv (c_xdr c)" and "c_in_reset c = 0"
    and "s_xdr svc = Some x" and "xdr_inv x" and "s_prog svc = x_prog (c_xdr c)" and "x_vers x = x_vers (c_xdr c)"
    and "pid \<noteq> 0" and "writes_all r_write"
  shows "(\<exists>c'. clnt_call r_write id (answered pid (loc_apicbprog r_write (xdr_rpc_loc_event_cb_f_type_args al)
         xdr_rpc_loc_event_cb_f_type_rets zero_event_cb_f_type_args (event_service e app w g)) svc) c 1
       (xdr_rpc_loc_event_cb_f_type_args al) v xdr_rpc_loc_event_cb_f_type_rets r0
       = Some (RPC_SUCCESS, \<lparr>event_cb_f_type_rets_loc_event_cb_f_type_result = rc\<rparr>, c')) \<and>
     rpc_loc_event_cb_f_type_svc e app v w g
       = Some (1, \<lparr>event_cb_f_type_rets_loc_event_cb_f_type_result = rc\<rparr>, w',
           g\<lparr>g_sync := loc_api_callback_process_sync_call (sint (event_cb_f_type_args_loc_handle v))
              (event_cb_f_type_args_loc_event v) (e_view e p) (g_sync g)\<rparr>)"
proof -
  let ?r = "\<lparr>event_cb_f_type_rets_loc_event_cb_f_type_result = rc\<rparr>"
  note d = event_dispatch [where app = app and w = w and e = e, OF assms(1-6)]
  have srv: "event_service e app w g v = (1, ?r)" by (simp add: event_service_def d)
  have "length (enc_event_cb_f_type_rets ?r) + 24 \<le> 18432" "good_event_cb_f_type_rets ?r"
    by (simp_all add: enc_event_cb_f_type_rets_def good_event_cb_f_type_rets_def)
  then have "\<exists>c'. clnt_call r_write id (answered pid (loc_apicbprog r_write (xdr_rpc_loc_event_cb_f_type_args al)
         xdr_rpc_loc_event_cb_f_type_rets zero_event_cb_f_type_args (event_service e app w g)) svc) c 1
       (xdr_rpc_loc_event_cb_f_type_args al) v xdr_rpc_loc_event_cb_f_type_rets r0 = Some (RPC_SUCCESS, ?r, c')
       \<and> input_xdr_busy c' = 0"
    using assms(7-16) srv
    by (intro rpc_call_end_to_end [OF event_cb_f_type_args_filter event_cb_f_type_rets_filter, where ret = 1 and x = x]) auto
  with d show ?thesis by blast
qed

definition demo_entry_glue :: loc_glue where
  "demo_entry_glue = upd_entry 3 (\<lambda>en. en\<lparr>cb_func := Some 42\<rparr>) demo_glue"

definition demo_app :: "nat \<Rightarrow> u32 \<Rightarrow> u64 \<Rightarrow> rpc_loc_event_payload_u_type option \<Rightarrow> nat list \<Rightarrow> u32 \<times> nat list" where
  "demo_app f h ev pl w = (h + 1, f # w)"

definition demo_call :: rpc_loc_event_cb_f_type_args where
  "demo_call = demo_event\<lparr>event_cb_f_type_args_cb_id := 0x004D0003\<rparr>"

theorem loc_event_delivery_witness:
  "(\<exists>c'. clnt_call (\<lambda>_ bs. int (length bs)) id (answered 1 (loc_apicbprog (\<lambda>_ bs. int (length bs))
         (xdr_rpc_loc_event_cb_f_type_args (\<lambda>_. True)) xdr_rpc_loc_event_cb_f_type_rets zero_event_cb_f_type_args
         (event_service (demo_env 0) demo_app [] demo_entry_glue)) demo_server) demo_client 1
       (xdr_rpc_loc_event_cb_f_type_args (\<lambda>_. True)) demo_call xdr_rpc_loc_event_cb_f_type_rets zero_event_cb_f_type_rets
       = Some (RPC_SUCCESS, \<lparr>event_cb_f_type_rets_loc_event_cb_f_type_result = 8\<rparr>, c')) \<and>
   rpc_loc_event_cb_f_type_svc (demo_env 0) demo_app demo_call [] demo_entry_glue
     = Some (1, \<lparr>event_cb_f_type_rets_loc_event_cb_f_type_result = 8\<rparr>, [42],
         demo_entry_glue\<lparr>g_sync := loc_api_callback_process_sync_call (sint (event_cb_f_type_args_loc_handle demo_call))
            (event_cb_f_type_args_loc_event demo_call) (e_view (demo_env 0) (the (event_cb_f_type_args_loc_event_payload demo_call)))
            (g_sync demo_entry_glue)\<rparr>)"
proof (rule loc_event_delivery [where i = 3 and f = 42 and x = "zero_xdr\<lparr>x_prog := 0x3000008C, x_vers := 0x00050000\<rparr>"])
  show "glue_inv demo_entry_glue"
    unfolding demo_entry_glue_def by (rule glue_inv_upd [OF demo_glue_inv]) simp
qed (simp_all add: demo_entry_glue_def demo_glue_def upd_entry_def fresh_table_def demo_call_def demo_event_defs
    demo_app_def demo_client_def demo_server_def xdr_inv_def zero_xdr_def writes_all_def)

text \<open>
  The test of the index lets 16 through: an event whose id ends in 16 reads the entry behind the
  table (here \<open>None\<close>).
\<close>

theorem event_index_16:
  assumes "glue_inv g" and "event_cb_f_type_args_cb_id v AND 0xFFFF = 16"
  shows "rpc_loc_event_cb_f_type_svc e app v w g = None"
  using assms by (simp add: rpc_loc_event_cb_f_type_svc_def glue_inv_def)

theorem event_index_16_witness:
  "rpc_loc_event_cb_f_type_svc (demo_env 0) demo_app (demo_event\<lparr>event_cb_f_type_args_cb_id := 0x004D0010\<rparr>) [] demo_glue = None"
  by (rule event_index_16 [OF demo_glue_inv]) simp

text \<open>
  C36. Closing one client disconnects all. After a \<open>loc_close\<close> that succeeds the RPC client that all
  share is gone: every later call fails for every handle, though the callbacks of the other
  clients are still in the table; and \<open>loc_api_glue_init\<close>, which creates the client again, erases
  them.
\<close>

theorem loc_close_disconnects_all:
  assumes "glue_inv g" and "loc_close e handle g = Some (r, g')" and "r \<noteq> RPC_LOC_API_RPC_FAILURE"
  shows "loc_api_clnt g' = None \<and>
     loc_start_fix e2 h2 g' = Some (RPC_LOC_API_RPC_FAILURE, g') \<and>
     loc_stop_fix e2 h2 g' = Some (RPC_LOC_API_RPC_FAILURE, g') \<and>
     loc_ioctl e2 h2 ty data g' = Some (RPC_LOC_API_RPC_FAILURE, data, g') \<and>
     loc_open e2 ev cb g' = Some (RPC_LOC_API_RPC_FAILURE, g') \<and>
     (\<forall>k < 16. cb_handle (loc_glue_callback_table g ! k) \<noteq> handle
        \<longrightarrow> loc_glue_callback_table g' ! k = loc_glue_callback_table g ! k) \<and>
     (case loc_api_glue_init e2 g' of
        None \<Rightarrow> True | Some (_, g2) \<Rightarrow> \<forall>k < 16. cb_func (loc_glue_callback_table g2 ! k) = None)"
proof -
  obtain a stat rets g1 cs where c: "loc_api_clnt g = Some a"
    "with_clnt g a (rpc_loc_close_0x00050001 e \<lparr>close_args_handle = handle\<rparr> zero_close_rets) = Some (stat, rets, g1)"
    "g' = (close_entry handle g1)\<lparr>g_clnts := cs, loc_api_clnt := None\<rparr>"
    using assms(2,3) by (auto simp: loc_close_def Let_def split: bind_splits if_splits option.splits)
  note t = with_clnt_table [OF c(2)]
  have n: "loc_api_clnt g' = None" using c(3) by simp
  have kept: "loc_glue_callback_table g' ! k = loc_glue_callback_table g ! k"
    if "cb_handle (loc_glue_callback_table g ! k) \<noteq> handle" for k
    using that c(3) t by (simp add: close_entry_other)
  have "cb_func (loc_glue_callback_table g2 ! k) = None" if "loc_api_glue_init e2 g' = Some (rc, g2)" "k < 16" for rc g2 k
    using that n by (rule glue_init_clears)
  then show ?thesis
    using n kept by (auto simp: loc_start_fix_def loc_stop_fix_def loc_ioctl_def loc_open_def split: option.splits)
qed

lemma demo_close: "\<exists>g'. loc_close (demo_env 0) 5 demo_glue = Some (0, g')"
proof -
  obtain g1 where g1: "with_clnt demo_glue 1 (rpc_loc_close_0x00050001 (demo_env 0) \<lparr>close_args_handle = 5\<rparr> zero_close_rets)
      = Some (RPC_SUCCESS, \<lparr>close_rets_loc_close_result = 0\<rparr>, g1)"
    unfolding rpc_loc_close_0x00050001_def
    using with_clnt_ok [OF close_args_filter close_rets_filter, where g = demo_glue and a = 1 and c = demo_clnt and e = "demo_env 0"
        and proc = 3 and v = "\<lparr>close_args_handle = 5\<rparr>" and w = "\<lparr>close_rets_loc_close_result = 0\<rparr>" and ?r0.0 = zero_close_rets]
    by (auto simp: good_close_args_def enc_close_args_def good_close_rets_def enc_close_rets_def demo_glue_def
        demo_env_def demo_clnt_def demo_client_def xdr_inv_def zero_xdr_def writes_all_def answers_def)
  then obtain c where "g_clnts g1 = (g_clnts demo_glue)\<lparr>mem := [1 \<mapsto> c]\<rparr>" "loc_api_clnt g1 = Some 1"
    by (auto simp: with_clnt_def demo_glue_def split: bind_splits)
  then have "\<exists>cs. clnt_destroy (loc_api_clnt (close_entry 5 g1)) (g_clnts (close_entry 5 g1)) = Some cs"
    by (auto simp: close_entry_def upd_entry_def clnt_destroy_def Let_def split: option.split)
  then show ?thesis using g1 by (auto simp: loc_close_def demo_glue_def)
qed

theorem loc_close_disconnects_all_witness:
  "\<exists>g'. loc_close (demo_env 0) 5 demo_glue = Some (0, g') \<and> loc_api_clnt g' = None \<and>
     loc_start_fix (demo_env 0) 6 g' = Some (RPC_LOC_API_RPC_FAILURE, g')"
  using demo_close loc_close_disconnects_all [OF demo_glue_inv, of "demo_env 0" 5 0] by fastforce

text \<open>
  While the modem restarts, an attempt to open fails but keeps its entry: \<open>loc_open\<close> reports a
  failure and the callback stays registered, without a handle by which \<open>loc_close\<close> could find it.
\<close>

theorem loc_open_failure_keeps_entry:
  assumes "glue_inv g" and "loc_api_clnt g = Some a" and "mem (g_clnts g) a = Some c" and "c_in_reset c \<noteq> 0"
    and "open_index (Some f) (loc_glue_callback_table g) = Some i"
  shows "\<exists>g'. loc_open e ev (Some f) g = Some (RPC_LOC_API_RPC_FAILURE, g') \<and>
     cb_func (loc_glue_callback_table g' ! i) = Some f \<and>
     cb_handle (loc_glue_callback_table g' ! i) = cb_handle (loc_glue_callback_table g ! i)"
  using assms open_index_less [OF assms(5)]
  by (simp add: loc_open_def with_clnt_def rpc_loc_open_0x00050001_def stub_call_def clnt_call_def upd_entry_def glue_inv_def Let_def)

theorem loc_open_failure_keeps_entry_witness:
  "\<exists>g'. loc_open (demo_env 0) 1 (Some 42)
       (demo_glue\<lparr>g_clnts := (g_clnts demo_glue)\<lparr>mem := [1 \<mapsto> demo_clnt\<lparr>c_in_reset := 1\<rparr>]\<rparr>\<rparr>) = Some (RPC_LOC_API_RPC_FAILURE, g') \<and>
     cb_func (loc_glue_callback_table g' ! 0) = Some 42 \<and>
     cb_handle (loc_glue_callback_table g' ! 0) = cb_handle (loc_glue_callback_table
       (demo_glue\<lparr>g_clnts := (g_clnts demo_glue)\<lparr>mem := [1 \<mapsto> demo_clnt\<lparr>c_in_reset := 1\<rparr>]\<rparr>\<rparr>) ! 0)"
  by (rule loc_open_failure_keeps_entry [where a = 1 and c = "demo_clnt\<lparr>c_in_reset := 1\<rparr>"])
    (simp_all add: demo_glue_inv, simp_all add: demo_glue_def open_index_def fresh_table_def upt_rec)

end
