(* ===== verification/Spec2Isabelle.thy ===== *)
theory Spec2Isabelle
  imports Exif_Loader Mnote_Data Jpeg_Roundtrip Rpc_End Clnt_Threads Loc_Glue
begin

text \<open>
  Verification of the native C code of the device tree for the Samsung Ancora phone.

  \<^bold>\<open>The program.\<close> The tree holds libraries that run inside Android processes on 32-bit ARM. Two
  groups of them have logic of their own and take bytes from outside:

  \<^item> the EXIF library (\<^verbatim>\<open>libexifa\<close>), which the camera uses to read and edit the metadata of a
    picture: a value layer, a tag table, directories of reference-counted entries, the routines
    that load them from the bytes of a file, correct them and save them, and a reader that finds
    those bytes in a stream; around it the JPEG library (\<^verbatim>\<open>libjpega\<close>), which splits a file into
    sections and puts it together again;
  \<^item> the location stack (\<^verbatim>\<open>gps\<close>): an RPC library over the router device to the modem
    (\<^verbatim>\<open>gps/librpc\<close>), the routines that rpcgen generated for the location interface, the glue
    between C calls and RPC messages, and the synchronous calls built on asynchronous events
    (\<^verbatim>\<open>gps/loc_api/libloc_api-rpc\<close>).

  \<^bold>\<open>Conventions.\<close> \<^verbatim>\<open>Ancora_Prelude\<close> fixes them. Integers are words of their C width (or \<open>int\<close>,
  with the conversions written out). A pointer into a buffer is a \<open>cbuf\<close> with an index, and every
  access is checked: \<open>None\<close> is an access outside an object, through a null or a dangling pointer.
  A theorem that an operation returns \<open>Some\<close> is a memory-safety theorem, and the error theorems
  that have \<open>None\<close> are faults of the code. Memory shared by pointers is a store from addresses to
  objects. What is not in the tree is a parameter: the allocator, the router device, and what
  other threads do while a call waits.

  \<^bold>\<open>EXIF\<close> (\<^verbatim>\<open>libexifa\<close>).

  \<^item> \<^verbatim>\<open>Exif_Utils\<close>: \<^verbatim>\<open>exif-utils.c\<close>, \<^verbatim>\<open>exif-format.c\<close>, \<^verbatim>\<open>exif-ifd.c\<close>, \<^verbatim>\<open>exif-byte-order.c\<close>. The locale
    \<open>byte_codec\<close> says what reading and writing a value in a byte order promise; it is interpreted
    for shorts, longs and rationals, signed and unsigned. Changing the byte order of an array
    keeps its values (but for floats and doubles, which the code leaves alone) and undoes itself; the UTF-8 conversion stays within its bound.
  \<^item> \<^verbatim>\<open>Exif_Tag\<close>: \<^verbatim>\<open>exif-tag.c\<close>, the whole table and its lookups, which return what the rows say.
  \<^item> \<^verbatim>\<open>Exif_Content\<close>: \<^verbatim>\<open>exif-content.c\<close>, \<^verbatim>\<open>exif-mem.c\<close> and the life cycle of entries in
    \<^verbatim>\<open>exif-entry.c\<close>. A directory refines a finite map from tags to entries, by interpretation of the
    locale \<open>registry\<close> (theory \<^verbatim>\<open>Registry\<close>).
  \<^item> \<^verbatim>\<open>Exif_Entry\<close>: \<^verbatim>\<open>exif-entry.c\<close>, the correction of an entry and the default value of every tag.
    Every default value is well formed; a comment in a wider format loses data.
  \<^item> \<^verbatim>\<open>Exif_Data\<close>: \<^verbatim>\<open>exif-data.c\<close>, creation and loading. Any bytes are loaded without an access
    outside a buffer and leave directories, entries and reference counts consistent, as long as
    memory lasts; an entry is accepted exactly when its data are inside the file.
  \<^item> \<^verbatim>\<open>Exif_Save\<close>: \<^verbatim>\<open>exif-data.c\<close>, saving. The layout of a file is written down as a function of the
    image (\<open>file_bytes\<close>), and the code, which extends one block step by step and patches offsets
    in it, computes it. \<^verbatim>\<open>Exif_Roundtrip\<close> loads the layout back: saving and loading are inverse.
  \<^item> \<^verbatim>\<open>Exif_Fix\<close>: \<open>exif_content_fix\<close>, \<open>exif_data_fix\<close> and with them the whole of
    \<open>exif_data_load_data\<close>; the change of the byte order, the release of an image. The correction
    makes each directory follow the tag table, if every entry has its data and no entry with tag 0 outside the
    GPS directory stands in the way.
  \<^item> \<^verbatim>\<open>Exif_Loader\<close>: \<^verbatim>\<open>exif-loader.c\<close>, a state machine over pieces of a file. How the file is cut does
    not matter, and the EXIF segment behind other segments is found (and two bytes more are collected).
  \<^item> \<^verbatim>\<open>Mnote\<close>, \<^verbatim>\<open>Mnote_Vendors\<close>, \<^verbatim>\<open>Mnote_Data\<close>: maker notes, directories of the camera's vendor inside
    one entry. \<^verbatim>\<open>Mnote\<close> has the loops that the vendor modules share, the layout they write, and the
    locale \<open>maker_note\<close>: what loading and saving a note promise. \<^verbatim>\<open>Mnote_Vendors\<close> models \<^verbatim>\<open>canon\<close>, \<^verbatim>\<open>fuji\<close>,
    \<^verbatim>\<open>olympus\<close> and \<^verbatim>\<open>pentax/exif-mnote-data-*.c\<close> and interprets the locale for each; \<^verbatim>\<open>Mnote_Data\<close>
    has the front \<^verbatim>\<open>exif-mnote-data.c\<close>, interprets the locale for it once more, and has the places in
    \<^verbatim>\<open>exif-data.c\<close> where notes are interpreted and saved. Any bytes with room for the header are loaded safely; a note that is
    saved with its image is read back, with the variants and byte orders that this leaves out named in the theorem; three faults on malformed or old notes are shown.
  \<^item> \<^verbatim>\<open>Jpeg_Data\<close>, \<^verbatim>\<open>Jpeg_Roundtrip\<close>: \<^verbatim>\<open>libjpega\<close>. The locale \<open>out_block\<close> is what the two routines for
    saving need of the block they write to, one that is reallocated and one of the caller's; it is
    interpreted for both, so that they write the same bytes. A file that is saved and loaded again
    has the same sections.

  \<^bold>\<open>RPC\<close> (\<^verbatim>\<open>gps/librpc\<close>).

  \<^item> \<^verbatim>\<open>Xdr_Stream\<close>: \<^verbatim>\<open>svc_clnt_common.c\<close>, \<^verbatim>\<open>ops.c\<close>: handles with an outgoing and an incoming message.
  \<^item> \<^verbatim>\<open>Xdr_Prims\<close>, \<^verbatim>\<open>Xdr_Filters\<close>: \<^verbatim>\<open>xdr.c\<close>. The locale \<open>xdr_filter\<close> is the contract of a filter
    against well-formed messages (it encodes the bytes of its value, decodes them to the value,
    frees it), \<open>xdr_safe\<close> the contract against any message. Both are interpreted for the filters.
  \<^item> \<^verbatim>\<open>Rpc_Msg\<close>: call and reply headers of \<^verbatim>\<open>rpc.c\<close> and \<^verbatim>\<open>clnt.c\<close>, their layout and round trips.
  \<^item> \<^verbatim>\<open>Svc\<close>: \<^verbatim>\<open>svc.c\<close>: registration (a refinement of a finite map, by \<open>registry\<close>), dispatch, replies,
    the server loop.
  \<^item> \<^verbatim>\<open>Clnt\<close>: \<^verbatim>\<open>clnt.c\<close>: calls, the receive thread, the callback thread, creation and destruction.
    \<^verbatim>\<open>Clnt_Threads\<close> has the receive thread, \<open>clnt_destroy\<close>, callers, callback threads and the creation of
    clients as a step relation over the client list, in which a thread that waits (for \<open>rx_mutex\<close>, for
    the end of the receive thread, for a busy input buffer) has no step: the receive thread works
    only on clients of the list and inside its poll array, and destroying a client can block for
    ever in two ways. \<^verbatim>\<open>Rpc_End\<close> puts client and server together: a call sends its header and
    arguments and returns the decoded results of a matching reply.

  \<^bold>\<open>Location\<close> (\<^verbatim>\<open>gps/loc_api/libloc_api-rpc\<close>).

  \<^item> \<^verbatim>\<open>Xdr_Struct\<close>: the shapes of generated filters (fields in sequence, unions) and the rules that
    compose the two contracts along them.
  \<^item> \<^verbatim>\<open>Loc_Api_Types\<close>, \<^verbatim>\<open>Loc_Api_Xdr\<close>, \<^verbatim>\<open>Loc_Api_Wire\<close>: the structs of \<^verbatim>\<open>inc-50000\<close>, every filter of
    \<^verbatim>\<open>gen-50000/*_xdr.c\<close>, and for each the bytes it travels as and its contracts. \<^verbatim>\<open>Loc_Messages\<close>
    states them for the events and requests as wholes. The predicates \<open>good_*\<close> say which values the
    contracts cover: the member of a union is the one its discriminant names, a counted part is
    null and empty or has the length it announces, and no NMEA payload (\<open>good_event_payload_u\<close>): the
    filter of the position report overruns its struct, and that of the 1 Hz report transfers nothing.
  \<^item> \<^verbatim>\<open>Loc_Sync_Call\<close>: \<^verbatim>\<open>src/loc_api_sync_call.c\<close>: the slots in which a caller waits for an event.
  \<^item> \<^verbatim>\<open>Loc_Glue\<close>: \<^verbatim>\<open>gen-50000/loc_api_rpc_glue.c\<close>, \<^verbatim>\<open>loc_api_clnt.c\<close>, \<^verbatim>\<open>src/loc_apicb_appinit.c\<close>: the
    table of callbacks and the calls. Here the layers meet: an event from the modem passes the
    router, the server, the generated stub and the filters, and reaches the callback registered for
    it and the synchronous calls; an ioctl passes the other way.

  \<^bold>\<open>Loops and bounds.\<close> Loops over data are structural recursions or have a termination proof. The
  directory loader of \<^verbatim>\<open>exif-data.c\<close> is a recursion on what is left of the depth that the code
  itself allows, and so is the one that saves. The stream reader calls itself at most as often as
  there are bytes left. The passes of \<open>exif_content_fix\<close> shrink the directory, which is their measure. The
  loops that wait for other threads (the server thread, the retries of the synchronous ioctl) run
  over the list of what those threads answer, where a wait that no callback ends does not return; the
  theorems say for which answers the loops return.

  \<^bold>\<open>Not modelled.\<close> The location engine (\<^verbatim>\<open>libloc_api/loc_eng*.cpp\<close>) and the camera adapter are C++
  on top of this code. Of libexifa: the formatting of values for display, also of those in
  maker notes, the titles and descriptions of tags and the names of maker note tags, the log and the system
  calls that read and write files. \<^verbatim>\<open>Exif_Data\<close>, \<^verbatim>\<open>Exif_Save\<close> and \<^verbatim>\<open>Exif_Fix\<close> keep a maker note as the bytes of its
  entry, as the code does for notes it does not recognise or is told not to change; what it does with the
  others is in \<^verbatim>\<open>Mnote_Data\<close>. The lights library and the power library write numbers to device files. The
  Java classes, configuration files and headers of the kernel interface have no C logic.
\<close>

end
